(* ===== verification/Prelude.thy ===== *)
theory Prelude imports Main "HOL-Library.Word" "HOL-Library.Signed_Division" begin

text \<open>
  Shared by every component theory: the machine types, the interfaces (locales) that several
  components provide, and generic lemmas on lists and options.

  \<^item> \<open>codec\<close> and \<open>canonical_codec\<close>: an encoder and a partial decoder that undo each other. They
    are provided by the hexadecimal form of a hash, by the size buckets, by the big-endian
    integers and by others.
  \<^item> \<open>prefix_code\<close>: encodings that can be read off the front of a byte string, so that a
    concatenation of them can be taken apart in one way only.
  \<^item> \<open>guarded_machine\<close>: a state machine with an invariant every operation keeps.
\<close>

unbundle bit_operations_syntax

type_synonym byte = "8 word"
type_synonym bytes = "byte list"
type_synonym u16 = "16 word"
type_synonym u32 = "32 word"
type_synonym u64 = "64 word"

named_theorems byte_simps \<open>facts that evaluate encodings of integers as bytes\<close>

section \<open>Interfaces\<close>

locale codec =
  fixes enc :: "'a \<Rightarrow> 'b" and dec :: "'b \<Rightarrow> 'a option" and ok :: "'a \<Rightarrow> bool"
  assumes dec_enc: "ok x \<Longrightarrow> dec (enc x) = Some x"
begin

lemma enc_inj: "ok x \<Longrightarrow> ok y \<Longrightarrow> enc x = enc y \<Longrightarrow> x = y"
  using dec_enc by (metis option.inject)

lemma enc_inj_on: "inj_on enc (Collect ok)"
  by (auto intro: inj_onI enc_inj)

end

locale canonical_codec = codec +
  assumes enc_dec: "dec b = Some x \<Longrightarrow> ok x \<and> enc x = b"
begin

lemma dec_inj: "dec b = Some x \<Longrightarrow> dec c = Some x \<Longrightarrow> b = c"
  using enc_dec by metis

lemma dec_iff: "dec b = Some x \<longleftrightarrow> ok x \<and> enc x = b"
  using dec_enc enc_dec by blast

end

locale prefix_code =
  fixes pre :: "'a \<Rightarrow> 'c list" and ok :: "'a \<Rightarrow> bool"
  assumes pre_cancel: "ok x \<Longrightarrow> ok y \<Longrightarrow> pre x @ r = pre y @ s \<Longrightarrow> x = y \<and> r = s"
    and pre_nonempty: "pre x \<noteq> []"
begin

lemma concat_cancel:
  "\<lbrakk>\<forall>x \<in> set xs. ok x; \<forall>y \<in> set ys. ok y; length xs = length ys;
    concat (map pre xs) @ r = concat (map pre ys) @ s\<rbrakk> \<Longrightarrow> xs = ys \<and> r = s"
proof (induction xs arbitrary: ys)
  case Nil
  then show ?case by simp
next
  case (Cons x xs)
  then obtain y zs where ys: "ys = y # zs" by (cases ys) auto
  with Cons.prems have eq:
    "pre x @ (concat (map pre xs) @ r) = pre y @ (concat (map pre zs) @ s)" by simp
  from Cons.prems(1,2) ys have "ok x" "ok y" by auto
  from pre_cancel [OF this eq]
  have h: "x = y" "concat (map pre xs) @ r = concat (map pre zs) @ s" by auto
  have "xs = zs \<and> r = s" using Cons.prems ys h(2) by (intro Cons.IH) auto
  with h(1) ys show ?case by simp
qed

lemma concat_inj:
  "\<lbrakk>\<forall>x \<in> set xs. ok x; \<forall>y \<in> set ys. ok y;
    concat (map pre xs) = concat (map pre ys)\<rbrakk> \<Longrightarrow> xs = ys"
proof (induction xs arbitrary: ys)
  case Nil
  then show ?case by (cases ys) (simp_all add: pre_nonempty)
next
  case (Cons x xs)
  from Cons.prems(3) obtain y zs where ys: "ys = y # zs"
    by (cases ys) (simp_all add: pre_nonempty)
  with Cons.prems have eq:
    "pre x @ concat (map pre xs) = pre y @ concat (map pre zs)" by simp
  from Cons.prems(1,2) ys have "ok x" "ok y" by auto
  from pre_cancel [OF this eq]
  have h: "x = y" "concat (map pre xs) = concat (map pre zs)" by auto
  have "xs = zs" using Cons.prems ys h(2) by (intro Cons.IH) auto
  with h(1) ys show ?case by simp
qed

end

locale guarded_machine =
  fixes step :: "'s \<Rightarrow> 'e \<Rightarrow> 's" and inv :: "'s \<Rightarrow> bool"
  assumes inv_step: "inv s \<Longrightarrow> inv (step s e)"
begin

lemma inv_run: "inv s \<Longrightarrow> inv (foldl step s es)"
  by (induction es arbitrary: s) (auto simp: inv_step)

end

section \<open>Results\<close>

text \<open>\<open>?\<close> and \<open>Result::and_then\<close>: go on with the value, or stop with the error.\<close>

definition and_then :: "'e + 'a \<Rightarrow> ('a \<Rightarrow> 'e + 'b) \<Rightarrow> 'e + 'b" where
  "and_then m f = (case m of Inl e \<Rightarrow> Inl e | Inr x \<Rightarrow> f x)"

lemma and_then_cong [fundef_cong]:
  "m = m' \<Longrightarrow> (\<And>x. m' = Inr x \<Longrightarrow> f x = f' x) \<Longrightarrow> and_then m f = and_then m' f'"
  by (auto simp: and_then_def split: sum.splits)

lemma and_then_simps [simp]: "and_then (Inl e) f = Inl e" "and_then (Inr x) f = f x"
  by (simp_all add: and_then_def)

lemma and_then_Inr: "and_then m f = Inr y \<longleftrightarrow> (\<exists>x. m = Inr x \<and> f x = Inr y)"
  by (auto simp: and_then_def split: sum.splits)

lemma and_then_Inl: "and_then m f = Inl e \<longleftrightarrow> m = Inl e \<or> (\<exists>x. m = Inr x \<and> f x = Inl e)"
  by (auto simp: and_then_def split: sum.splits)

section \<open>Lists and options\<close>

definition get_at :: "'a list \<Rightarrow> nat \<Rightarrow> 'a option" where
  "get_at xs i = (if i < length xs then Some (xs ! i) else None)"

lemma get_at_Some [simp]: "get_at xs i = Some x \<longleftrightarrow> i < length xs \<and> xs ! i = x"
  by (auto simp: get_at_def)

lemma get_at_None [simp]: "get_at xs i = None \<longleftrightarrow> length xs \<le> i"
  by (auto simp: get_at_def)

lemma get_at_append: "get_at (xs @ ys) (length xs) = get_at ys 0"
  by (auto simp: get_at_def nth_append)

text \<open>\<open>slice::get(a..b)\<close>: the bytes from \<open>a\<close> up to \<open>b\<close>, when both are inside.\<close>

definition get_range :: "'a list \<Rightarrow> nat \<Rightarrow> nat \<Rightarrow> 'a list option" where
  "get_range xs a b = (if a \<le> b \<and> b \<le> length xs then Some (take (b - a) (drop a xs)) else None)"

lemma get_range_Some [simp]:
  "get_range xs a b = Some ys \<longleftrightarrow> a \<le> b \<and> b \<le> length xs \<and> ys = take (b - a) (drop a xs)"
  by (auto simp: get_range_def)

lemma get_range_length: "get_range xs a b = Some ys \<Longrightarrow> length ys = b - a"
  by auto

lemma foldl_inv:
  "\<lbrakk>P a; \<And>b x. P b \<Longrightarrow> x \<in> set xs \<Longrightarrow> P (f b x)\<rbrakk> \<Longrightarrow> P (foldl f a xs)"
  by (induction xs arbitrary: a) auto

section \<open>Integers as bytes\<close>

text \<open>\<open>u32::to_be_bytes\<close>, \<open>u32::from_be_bytes\<close> and their 16 and 64-bit companions, most
  significant byte first.\<close>

fun be_bytes :: "nat \<Rightarrow> nat \<Rightarrow> bytes" where
  "be_bytes 0 n = []"
| "be_bytes (Suc k) n = be_bytes k (n div 256) @ [of_nat n]"

definition from_be :: "bytes \<Rightarrow> nat" where
  "from_be bs = foldl (\<lambda>a b. a * 256 + unat b) 0 bs"

lemma from_be_Nil [simp]: "from_be [] = 0"
  by (simp add: from_be_def)

lemma from_be_snoc [simp]: "from_be (bs @ [b]) = from_be bs * 256 + unat b"
  by (simp add: from_be_def)

lemma length_be_bytes [simp]: "length (be_bytes k n) = k"
  by (induction k arbitrary: n) auto

lemma from_be_bytes: "n < 256 ^ k \<Longrightarrow> from_be (be_bytes k n) = n"
proof (induction k arbitrary: n)
  case 0
  then show ?case by simp
next
  case (Suc k)
  then have "n div 256 < 256 ^ k" by (simp add: less_mult_imp_div_less mult.commute)
  from Suc.IH [OF this] show ?case by (simp add: unat_of_nat)
qed

lemma from_be_lt: "from_be bs < 256 ^ length bs"
proof (induction bs rule: rev_induct)
  case Nil
  then show ?case by simp
next
  case (snoc b bs)
  have "unat b < 256" using unsigned_less [of b] by simp
  with snoc show ?case by simp
qed

lemma of_nat_low_byte [byte_simps]: "(of_nat (m * 256 + unat b) :: byte) = b"
proof -
  have "unat b < 256" using unsigned_less [of b] by simp
  then have "unat (of_nat (m * 256 + unat b) :: byte) = unat b" by (simp only: unat_of_nat) simp
  then show ?thesis by (simp only: word_unat_eq_iff)
qed

lemma be_bytes_from_be: "be_bytes (length bs) (from_be bs) = bs"
proof (induction bs rule: rev_induct)
  case Nil
  then show ?case by simp
next
  case (snoc b bs)
  have "unat b < 256" using unsigned_less [of b] by simp
  then have hi: "(from_be bs * 256 + unat b) div 256 = from_be bs" by simp
  have "length (bs @ [b]) = Suc (length bs)" by simp
  then show ?case by (simp only: be_bytes.simps from_be_snoc hi snoc.IH of_nat_low_byte)
qed

text \<open>Integers of \<open>k\<close> bytes are a canonical codec: every value below \<open>256 ^ k\<close> has exactly one
  form, and every form of that length reads as exactly one value.\<close>

definition dec_be :: "nat \<Rightarrow> bytes \<Rightarrow> nat option" where
  "dec_be k bs = (if length bs = k then Some (from_be bs) else None)"

interpretation be: canonical_codec "be_bytes k" "dec_be k" "\<lambda>n. n < 256 ^ k" for k
  by unfold_locales
    (auto simp: dec_be_def from_be_bytes be_bytes_from_be from_be_lt split: if_splits)

section \<open>Joined lists\<close>

text \<open>\<open>join\<close> with a one-character separator. When none of the joined parts holds the separator, no
  other list of as many parts gives the same result.\<close>

fun unir :: "'a \<Rightarrow> 'a list list \<Rightarrow> 'a list" where
  "unir c [] = []"
| "unir c [s] = s"
| "unir c (s # t # ss) = s @ c # unir c (t # ss)"

lemma unir_count:
  "ss \<noteq> [] \<Longrightarrow> length (filter ((=) c) (unir c ss)) + 1 = length ss + sum_list (map (\<lambda>s. length (filter ((=) c) s)) ss)"
  by (induction c ss rule: unir.induct) auto

lemma first_mark:
  "c \<notin> set xs \<Longrightarrow> c \<notin> set zs \<Longrightarrow> xs @ c # ys = zs @ c # ws \<longleftrightarrow> xs = zs \<and> ys = ws"
proof (induction xs arbitrary: zs)
  case Nil
  then show ?case by (cases zs) auto
next
  case (Cons x xs)
  then show ?case by (cases zs) auto
qed

lemma unir_inj_clean:
  "\<lbrakk>length ps = length qs; \<forall>s \<in> set ps. c \<notin> set s; \<forall>s \<in> set qs. c \<notin> set s; unir c ps = unir c qs\<rbrakk> \<Longrightarrow> ps = qs"
proof (induction ps qs rule: list_induct2)
  case (Cons p ps q qs)
  then show ?case by (cases ps; cases qs) (auto simp: first_mark)
qed simp

lemma unir_inj:
  assumes "length ps = length qs" "\<forall>s \<in> set ps. c \<notin> set s" "unir c ps = unir c qs"
  shows "ps = qs"
proof (cases "ps = []")
  case False
  then have "qs \<noteq> []" using assms(1) by auto
  have "sum_list (map (\<lambda>s. length (filter ((=) c) s)) ps) = 0"
    using assms(2) by (auto simp: sum_list_eq_0_iff filter_empty_conv)
  then have "sum_list (map (\<lambda>s. length (filter ((=) c) s)) qs) = 0"
    using unir_count [OF False, of c] unir_count [OF \<open>qs \<noteq> []\<close>, of c] assms(1)
      arg_cong [OF assms(3), of "\<lambda>s. length (filter ((=) c) s)"] by linarith
  then have "\<forall>n \<in> set (map (\<lambda>s. length (filter ((=) c) s)) qs). n = 0" by (simp only: sum_list_eq_0_iff)
  then have "\<forall>s \<in> set qs. filter ((=) c) s = []" by simp
  then have "\<forall>s \<in> set qs. c \<notin> set s" by (auto simp: filter_empty_conv)
  then show ?thesis by (rule unir_inj_clean [OF assms(1,2) _ assms(3)])
qed (use assms in simp)

text \<open>\<open>slice::chunks\<close>.\<close>

fun chunks :: "nat \<Rightarrow> 'a list \<Rightarrow> 'a list list" where
  "chunks n [] = []"
| "chunks n (x # xs) = (if n = 0 then [] else take n (x # xs) # chunks n (drop (n - 1) xs))"

lemma chunks_step: "0 < n \<Longrightarrow> xs \<noteq> [] \<Longrightarrow> chunks n xs = take n xs # chunks n (drop n xs)"
  by (cases xs) (simp_all add: drop_Cons' )

lemma concat_chunks: "0 < n \<Longrightarrow> concat (chunks n xs) = xs"
proof (induction n xs rule: chunks.induct)
  case (2 n x xs)
  have "take n (x # xs) = x # take (n - 1) xs" using 2(2) by (cases n) simp_all
  with 2 show ?case by simp
qed simp

lemma chunks_short: "0 < n \<Longrightarrow> c \<in> set (chunks n xs) \<Longrightarrow> length c \<le> n"
  by (induction n xs rule: chunks.induct) auto

end
