(* ===== verification/Rust_Text.thy ===== *)
theory Rust_Text imports Prelude begin

text \<open>
  The operations of Rust's standard library on text that the program uses. A \<open>String\<close> or \<open>&str\<close>
  is modelled by its UTF-8 bytes, as a \<open>string\<close> (a list of 8-bit \<open>char\<close>s), so \<open>length\<close> is
  \<open>str::len\<close>. The ASCII operations work byte by byte, as in Rust; \<open>trim\<close> knows the UTF-8 forms of
  every Unicode white space character.
\<close>

section \<open>Characters\<close>

abbreviation char_code :: "char \<Rightarrow> nat" where
  "char_code c \<equiv> of_char c"

definition is_ascii_digit :: "char \<Rightarrow> bool" where
  "is_ascii_digit c \<longleftrightarrow> 48 \<le> char_code c \<and> char_code c \<le> 57"

definition is_ascii_lowercase :: "char \<Rightarrow> bool" where
  "is_ascii_lowercase c \<longleftrightarrow> 97 \<le> char_code c \<and> char_code c \<le> 122"

definition is_ascii_uppercase :: "char \<Rightarrow> bool" where
  "is_ascii_uppercase c \<longleftrightarrow> 65 \<le> char_code c \<and> char_code c \<le> 90"

definition ascii_lower :: "char \<Rightarrow> char" where
  "ascii_lower c = (if is_ascii_uppercase c then char_of (char_code c + 32) else c)"

definition to_ascii_lowercase :: "string \<Rightarrow> string" where
  "to_ascii_lowercase s = map ascii_lower s"

lemma char_code_lt: "char_code c < 256"
  by (cases c) (simp add: of_char_def split: if_splits)

lemma ascii_lower_not_upper [simp]: "\<not> is_ascii_uppercase (ascii_lower c)"
  by (auto simp: ascii_lower_def is_ascii_uppercase_def)

lemma ascii_lower_idem [simp]: "ascii_lower (ascii_lower c) = ascii_lower c"
  by (simp add: ascii_lower_def [of "ascii_lower c"])

lemma ascii_lower_id: "\<not> is_ascii_uppercase c \<Longrightarrow> ascii_lower c = c"
  by (simp add: ascii_lower_def)

lemma to_ascii_lowercase_idem [simp]:
  "to_ascii_lowercase (to_ascii_lowercase s) = to_ascii_lowercase s"
  by (simp add: to_ascii_lowercase_def)

section \<open>Prefixes, suffixes and splits\<close>

fun strip_prefix :: "'a list \<Rightarrow> 'a list \<Rightarrow> 'a list option" where
  "strip_prefix [] s = Some s"
| "strip_prefix (p # ps) [] = None"
| "strip_prefix (p # ps) (c # s) = (if p = c then strip_prefix ps s else None)"

definition strip_suffix :: "'a list \<Rightarrow> 'a list \<Rightarrow> 'a list option" where
  "strip_suffix p s = map_option rev (strip_prefix (rev p) (rev s))"

lemma strip_prefix_Some [simp]: "strip_prefix p s = Some r \<longleftrightarrow> s = p @ r"
  by (induction p s rule: strip_prefix.induct) auto

lemma strip_suffix_Some [simp]: "strip_suffix p s = Some r \<longleftrightarrow> s = r @ p"
proof
  assume "strip_suffix p s = Some r"
  then obtain q where "rev s = rev p @ q" "r = rev q" by (auto simp: strip_suffix_def)
  then have "rev (rev s) = rev (rev p @ q)" "r = rev q" by simp_all
  then show "s = r @ p" by simp
next
  assume "s = r @ p"
  then have "strip_prefix (rev p) (rev s) = Some (rev r)" by simp
  then show "strip_suffix p s = Some r" unfolding strip_suffix_def by simp
qed

text \<open>\<open>split_once\<close> with a text: what is before the first occurrence, and what is after it.\<close>

fun split_once :: "'a list \<Rightarrow> 'a list \<Rightarrow> ('a list \<times> 'a list) option" where
  "split_once p [] = (if p = [] then Some ([], []) else None)"
| "split_once p (c # s) =
     (case strip_prefix p (c # s) of
        Some r \<Rightarrow> Some ([], r)
      | None \<Rightarrow> (case split_once p s of None \<Rightarrow> None | Some (a, b) \<Rightarrow> Some (c # a, b)))"

text \<open>\<open>rsplit_once\<close> with one character: around its last occurrence.\<close>

fun rsplit_once :: "'a \<Rightarrow> 'a list \<Rightarrow> ('a list \<times> 'a list) option" where
  "rsplit_once d [] = None"
| "rsplit_once d (c # s) =
     (case rsplit_once d s of
        Some (a, b) \<Rightarrow> Some (c # a, b)
      | None \<Rightarrow> if c = d then Some ([], s) else None)"

lemma split_once_Some: "split_once p s = Some (a, b) \<Longrightarrow> s = a @ p @ b"
  by (induction p s arbitrary: a b rule: split_once.induct)
    (auto split: if_splits option.splits prod.splits)

lemma rsplit_once_Some: "rsplit_once d s = Some (a, b) \<Longrightarrow> s = a @ d # b \<and> d \<notin> set b"
proof (induction s arbitrary: a)
  case Nil
  then show ?case by simp
next
  case (Cons c s)
  have none: "rsplit_once d xs = None \<Longrightarrow> d \<notin> set xs" for xs
    by (induction xs) (auto split: option.splits if_splits)
  from Cons show ?case by (auto dest: none split: option.splits if_splits prod.splits)
qed

lemma rsplit_once_None: "rsplit_once d s = None \<longleftrightarrow> d \<notin> set s"
  by (induction s) (auto split: option.splits if_splits)

text \<open>\<open>str::split\<close> with one character: always at least one piece.\<close>

fun split_char :: "'a \<Rightarrow> 'a list \<Rightarrow> 'a list list" where
  "split_char d [] = [[]]"
| "split_char d (c # s) =
     (if c = d then [] # split_char d s
      else case split_char d s of [] \<Rightarrow> [[c]] | p # ps \<Rightarrow> (c # p) # ps)"

lemma split_char_nonempty [simp]: "split_char d s \<noteq> []"
  by (induction s) (auto split: list.splits)

lemma split_char_no_sep: "p \<in> set (split_char d s) \<Longrightarrow> d \<notin> set p"
  by (induction s arbitrary: p) (auto split: list.splits if_splits)

lemma split_char_chars: "\<Union> (set ` set (split_char d s)) = set s - {d}"
proof (induction s)
  case Nil
  then show ?case by simp
next
  case (Cons c s)
  then show ?case by (cases "split_char d s") (auto simp: insert_Diff_if)
qed

definition trim_end_matches :: "('a \<Rightarrow> bool) \<Rightarrow> 'a list \<Rightarrow> 'a list" where
  "trim_end_matches f s = rev (dropWhile f (rev s))"

definition trim_start_matches :: "('a \<Rightarrow> bool) \<Rightarrow> 'a list \<Rightarrow> 'a list" where
  "trim_start_matches f s = dropWhile f s"

lemma trim_end_matches_last: "trim_end_matches f s \<noteq> [] \<Longrightarrow> \<not> f (last (trim_end_matches f s))"
  by (simp add: trim_end_matches_def last_rev hd_dropWhile)

lemma trim_end_matches_id: "s = [] \<or> \<not> f (last s) \<Longrightarrow> trim_end_matches f s = s"
proof -
  assume a: "s = [] \<or> \<not> f (last s)"
  show ?thesis
  proof (cases s rule: rev_cases)
    case Nil
    then show ?thesis by (simp add: trim_end_matches_def)
  next
    case (snoc t x)
    with a show ?thesis by (simp add: trim_end_matches_def)
  qed
qed

lemma trim_end_matches_prefix: "\<exists>r. s = trim_end_matches f s @ r"
proof -
  have "rev s = takeWhile f (rev s) @ dropWhile f (rev s)" by simp
  then have "s = rev (dropWhile f (rev s)) @ rev (takeWhile f (rev s))"
    by (metis rev_append rev_rev_ident)
  then show ?thesis unfolding trim_end_matches_def by blast
qed

section \<open>White space\<close>

text \<open>The UTF-8 forms of the characters with the property White\_Space.\<close>

definition ws_forms :: "string list" where
  "ws_forms =
    [[CHR 0x09], [CHR 0x0A], [CHR 0x0B], [CHR 0x0C], [CHR 0x0D], [CHR 0x20], [CHR 0xC2, CHR
     0x85], [CHR 0xC2, CHR 0xA0], [CHR 0xE1, CHR 0x9A, CHR 0x80], [CHR 0xE2, CHR 0x80, CHR
     0x80], [CHR 0xE2, CHR 0x80, CHR 0x81], [CHR 0xE2, CHR 0x80, CHR 0x82], [CHR 0xE2, CHR
     0x80, CHR 0x83], [CHR 0xE2, CHR 0x80, CHR 0x84], [CHR 0xE2, CHR 0x80, CHR 0x85], [CHR
     0xE2, CHR 0x80, CHR 0x86], [CHR 0xE2, CHR 0x80, CHR 0x87], [CHR 0xE2, CHR 0x80, CHR 0x88],
     [CHR 0xE2, CHR 0x80, CHR 0x89], [CHR 0xE2, CHR 0x80, CHR 0x8A], [CHR 0xE2, CHR 0x80, CHR
     0xA8], [CHR 0xE2, CHR 0x80, CHR 0xA9], [CHR 0xE2, CHR 0x80, CHR 0xAF], [CHR 0xE2, CHR
     0x81, CHR 0x9F], [CHR 0xE3, CHR 0x80, CHR 0x80]]"

fun strip_any :: "'a list list \<Rightarrow> 'a list \<Rightarrow> 'a list option" where
  "strip_any [] s = None"
| "strip_any (p # ps) s = (case strip_prefix p s of Some r \<Rightarrow> Some r | None \<Rightarrow> strip_any ps s)"

lemma strip_any_shorter:
  "strip_any ps s = Some r \<Longrightarrow> [] \<notin> set ps \<Longrightarrow> length r < length s"
  by (induction ps) (auto split: option.splits)

text \<open>Drop forms from the front, as many times as the text is long at most.\<close>

fun trim_forms :: "nat \<Rightarrow> 'a list list \<Rightarrow> 'a list \<Rightarrow> 'a list" where
  "trim_forms 0 ps s = s"
| "trim_forms (Suc n) ps s =
     (case strip_any ps s of None \<Rightarrow> s | Some r \<Rightarrow> trim_forms n ps r)"

lemma trim_forms_done:
  "length s \<le> n \<Longrightarrow> [] \<notin> set ps \<Longrightarrow> strip_any ps (trim_forms n ps s) = None"
proof (induction n ps s rule: trim_forms.induct)
  case (1 ps s)
  then have "s = []" by simp
  moreover from 1 have "strip_any ps [] = None"
    by (induction ps) (auto split: option.splits)
  ultimately show ?case by simp
next
  case (2 n ps s)
  then show ?case
  proof (cases "strip_any ps s")
    case None
    then show ?thesis by simp
  next
    case (Some r)
    with 2 strip_any_shorter [OF Some] have "length r \<le> n" by simp
    with 2 Some show ?thesis by simp
  qed
qed

definition trim_start :: "string \<Rightarrow> string" where
  "trim_start s = trim_forms (length s) ws_forms s"

definition trim_end :: "string \<Rightarrow> string" where
  "trim_end s = rev (trim_forms (length s) (map rev ws_forms) (rev s))"

definition trim :: "string \<Rightarrow> string" where
  "trim s = trim_end (trim_start s)"

text \<open>A text that starts and ends with a visible ASCII character has nothing to trim.\<close>

lemma ws_forms_first:
  "w \<in> set ws_forms \<Longrightarrow> w \<noteq> [] \<and> (char_code (hd w) \<le> 32 \<or> 128 \<le> char_code (hd w)) \<and>
     (char_code (last w) \<le> 32 \<or> 128 \<le> char_code (last w))"
proof -
  have "list_all (\<lambda>w. w \<noteq> [] \<and> (char_code (hd w) \<le> 32 \<or> 128 \<le> char_code (hd w)) \<and>
     (char_code (last w) \<le> 32 \<or> 128 \<le> char_code (last w))) ws_forms" by code_simp
  then show "w \<in> set ws_forms \<Longrightarrow> ?thesis" by (simp add: list_all_iff)
qed

lemma strip_any_None:
  "(\<And>w. w \<in> set ps \<Longrightarrow> w \<noteq> [] \<and> (s = [] \<or> hd w \<noteq> hd s)) \<Longrightarrow> strip_any ps s = None"
proof (induction ps)
  case Nil
  then show ?case by simp
next
  case (Cons w ps)
  have "w \<noteq> [] \<and> (s = [] \<or> hd w \<noteq> hd s)" by (rule Cons.prems) simp
  then have "strip_prefix w s = None" by (cases w; cases s) auto
  moreover have "strip_any ps s = None" by (rule Cons.IH) (simp add: Cons.prems)
  ultimately show ?case by simp
qed

lemma trim_forms_None: "strip_any ps s = None \<Longrightarrow> trim_forms n ps s = s"
  by (cases n) auto

lemma trim_plain:
  assumes "s \<noteq> []" "32 < char_code (hd s)" "char_code (hd s) < 128"
    "32 < char_code (last s)" "char_code (last s) < 128"
  shows "trim s = s"
proof -
  have "strip_any ws_forms s = None"
    using ws_forms_first assms by (intro strip_any_None) (metis leD)
  then have st: "trim_start s = s" by (simp add: trim_start_def trim_forms_None)
  have "strip_any (map rev ws_forms) (rev s) = None"
  proof (rule strip_any_None)
    fix w
    assume "w \<in> set (map rev ws_forms)"
    then obtain v where v: "v \<in> set ws_forms" "w = rev v" by auto
    with ws_forms_first [OF v(1)] assms show "w \<noteq> [] \<and> (rev s = [] \<or> hd w \<noteq> hd (rev s))"
      by (auto simp: hd_rev)
  qed
  then show ?thesis by (simp add: trim_def trim_end_def st trim_forms_None)
qed

text \<open>\<open>chars().take(n).collect()\<close>: the first characters of a text, which is its UTF-8 bytes.\<close>

fun take_chars :: "nat \<Rightarrow> string \<Rightarrow> string" where
  "take_chars n [] = []"
| "take_chars n (c # s) =
     (if 128 \<le> char_code c \<and> char_code c < 192 then c # take_chars n s
      else case n of 0 \<Rightarrow> [] | Suc m \<Rightarrow> c # take_chars m s)"

section \<open>Decimal numbers\<close>

definition digit_char :: "nat \<Rightarrow> char" where
  "digit_char d = char_of (48 + d)"

fun decimal :: "nat \<Rightarrow> string" where
  "decimal n = (if n < 10 then [digit_char n] else decimal (n div 10) @ [digit_char (n mod 10)])"

declare decimal.simps [simp del]

definition show_int :: "int \<Rightarrow> string" where
  "show_int i = (if i < 0 then CHR ''-'' # decimal (nat (- i)) else decimal (nat i))"

text \<open>\<open>{:0w}\<close>: zeros between the sign and the digits up to \<open>w\<close> characters in all.\<close>

definition pad_int :: "nat \<Rightarrow> int \<Rightarrow> string" where
  "pad_int w i =
     (let s = (if i < 0 then [CHR ''-''] else []); d = decimal (nat \<bar>i\<bar>)
      in s @ replicate (w - length s - length d) CHR ''0'' @ d)"

definition digit_val :: "char \<Rightarrow> nat option" where
  "digit_val c = (if is_ascii_digit c then Some (char_code c - 48) else None)"

fun parse_digits :: "nat \<Rightarrow> string \<Rightarrow> nat option" where
  "parse_digits a [] = Some a"
| "parse_digits a (c # s) =
     (case digit_val c of None \<Rightarrow> None | Some d \<Rightarrow> parse_digits (a * 10 + d) s)"

definition i64_ok :: "int \<Rightarrow> bool" where
  "i64_ok i \<longleftrightarrow> - (2 ^ 63) \<le> i \<and> i < 2 ^ 63"

text \<open>\<open>str::parse::<i64>()\<close>: an optional sign, at least one digit, and the value in range.\<close>

definition parse_i64 :: "string \<Rightarrow> int option" where
  "parse_i64 s =
     (case s of
        [] \<Rightarrow> None
      | c # r \<Rightarrow>
         (let neg = (c = CHR ''-''); d = (if c = CHR ''-'' \<or> c = CHR ''+'' then r else s)
          in if d = [] then None
             else case parse_digits 0 d of
                    None \<Rightarrow> None
                  | Some n \<Rightarrow>
                      (let i = (if neg then - int n else int n)
                       in if i64_ok i then Some i else None)))"

text \<open>\<open>str::parse::<u64>()\<close>: no minus sign (with digits behind it, it is an error).\<close>

definition parse_u64 :: "string \<Rightarrow> nat option" where
  "parse_u64 s =
     (case s of
        [] \<Rightarrow> None
      | c # r \<Rightarrow>
         (let d = (if c = CHR ''+'' then r else s)
          in if d = [] then None
             else case parse_digits 0 d of
                    None \<Rightarrow> None
                  | Some n \<Rightarrow> if n < 2 ^ 64 then Some n else None))"

lemma digit_char_code: "d < 10 \<Longrightarrow> char_code (digit_char d) = 48 + d"
  by (simp add: digit_char_def)

lemma digit_val_digit_char [simp]: "d < 10 \<Longrightarrow> digit_val (digit_char d) = Some d"
  by (simp add: digit_val_def is_ascii_digit_def digit_char_code)

lemma parse_digits_append:
  "parse_digits a (s @ t) = (case parse_digits a s of None \<Rightarrow> None | Some b \<Rightarrow> parse_digits b t)"
  by (induction a s rule: parse_digits.induct) (auto split: option.splits)

lemma decimal_nonempty [simp]: "decimal n \<noteq> []"
  by (subst decimal.simps) simp

lemma decimal_digits: "c \<in> set (decimal n) \<Longrightarrow> is_ascii_digit c"
proof (induction n rule: decimal.induct)
  case (1 n)
  then show ?case
    by (cases "n < 10")
      (auto simp: decimal.simps [of n] is_ascii_digit_def digit_char_code)
qed

lemma parse_digits_decimal: "parse_digits 0 (decimal n) = Some n"
proof (induction n rule: decimal.induct)
  case (1 n)
  then show ?case
    by (cases "n < 10") (auto simp: decimal.simps [of n] parse_digits_append)
qed

lemma decimal_inj: "decimal m = decimal n \<Longrightarrow> m = n"
  by (metis option.inject parse_digits_decimal)

lemma decimal_hd: "hd (decimal n) \<noteq> CHR ''-''" "hd (decimal n) \<noteq> CHR ''+''"
proof -
  have "is_ascii_digit (hd (decimal n))" by (rule decimal_digits [of _ n]) simp
  then show "hd (decimal n) \<noteq> CHR ''-''" "hd (decimal n) \<noteq> CHR ''+''"
    by (auto simp: is_ascii_digit_def)
qed

text \<open>Printing and reading a number: the decimal form of an \<open>i64\<close> or a \<open>u64\<close> reads back.\<close>

lemma parse_i64_show_int: "i64_ok i \<Longrightarrow> parse_i64 (show_int i) = Some i"
proof (cases "i < 0")
  case True
  assume "i64_ok i"
  with True show ?thesis
    by (simp add: parse_i64_def show_int_def parse_digits_decimal)
next
  case False
  assume ok: "i64_ok i"
  obtain c r where d: "decimal (nat i) = c # r" by (cases "decimal (nat i)") auto
  with decimal_hd [of "nat i"] have "c \<noteq> CHR ''-''" "c \<noteq> CHR ''+''" by auto
  with False ok d parse_digits_decimal [of "nat i"] show ?thesis
    by (simp add: parse_i64_def show_int_def)
qed

lemma parse_u64_decimal: "n < 2 ^ 64 \<Longrightarrow> parse_u64 (decimal n) = Some n"
proof -
  assume ok: "n < 2 ^ 64"
  obtain c r where d: "decimal n = c # r" by (cases "decimal n") auto
  with decimal_hd [of n] have "c \<noteq> CHR ''+''" by auto
  with ok d parse_digits_decimal [of n] show ?thesis by (simp add: parse_u64_def)
qed

interpretation i64_text: codec show_int parse_i64 i64_ok
  by unfold_locales (rule parse_i64_show_int)

interpretation u64_text: codec decimal parse_u64 "\<lambda>n. n < 2 ^ 64"
  by unfold_locales (rule parse_u64_decimal)

lemma show_int_inj: "show_int i = show_int j \<Longrightarrow> i = j"
proof -
  assume eq: "show_int i = show_int j"
  have neg: "hd (show_int k) = CHR ''-'' \<longleftrightarrow> k < 0" for k
    using decimal_hd by (auto simp: show_int_def)
  from eq neg [of i] neg [of j] have "i < 0 \<longleftrightarrow> j < 0" by simp
  with eq show ?thesis by (auto simp: show_int_def dest: decimal_inj split: if_splits)
qed

section \<open>The order of texts\<close>

text \<open>\<open>str\<close>'s order, and that of a text column in the database: byte by byte, a proper prefix
  first. Numbers written with the same number of digits sort as numbers.\<close>

fun text_less :: "string \<Rightarrow> string \<Rightarrow> bool" where
  "text_less s [] = False"
| "text_less [] (d # t) = True"
| "text_less (c # s) (d # t) =
     (char_code c < char_code d \<or> c = d \<and> text_less s t)"

lemma text_less_append:
  "length a = length b \<Longrightarrow>
   text_less (a @ s) (b @ t) \<longleftrightarrow> text_less a b \<or> a = b \<and> text_less s t"
  by (induction a b rule: list_induct2) auto

lemma text_less_irrefl [simp]: "\<not> text_less s s"
  by (induction s) auto

fun digits :: "nat \<Rightarrow> nat \<Rightarrow> string" where
  "digits 0 n = []"
| "digits (Suc w) n = digits w (n div 10) @ [digit_char (n mod 10)]"

lemma length_digits [simp]: "length (digits w n) = w"
  by (induction w arbitrary: n) auto

lemma digit_char_0 [simp]: "digit_char 0 = CHR ''0''"
  by code_simp

lemma digits_0: "digits w 0 = replicate w CHR ''0''"
  by (induction w) (auto simp: replicate_append_same)

lemma digit_char_inj: "c < 10 \<Longrightarrow> d < 10 \<Longrightarrow> digit_char c = digit_char d \<longleftrightarrow> c = d"
  by (metis digit_char_code add_left_cancel)

lemma digits_decimal: "n < 10 ^ w \<Longrightarrow> 0 < w \<Longrightarrow>
  digits w n = replicate (w - length (decimal n)) CHR ''0'' @ decimal n \<and> length (decimal n) \<le> w"
proof (induction w arbitrary: n)
  case 0
  then show ?case by simp
next
  case (Suc w)
  show ?case
  proof (cases "n < 10")
    case True
    then show ?thesis by (simp add: decimal.simps [of n] digits_0)
  next
    case False
    from Suc.prems have "n div 10 < 10 ^ w" by (simp add: less_mult_imp_div_less mult.commute)
    moreover have "0 < w" using Suc.prems False by (cases w) auto
    ultimately show ?thesis using False Suc.IH [of "n div 10"] by (simp add: decimal.simps [of n])
  qed
qed

lemma pad_int_digits: "n < 10 ^ w \<Longrightarrow> 0 < w \<Longrightarrow> pad_int w (int n) = digits w n"
  using digits_decimal [of n w] by (simp add: pad_int_def Let_def)

lemma digits_inj: "\<lbrakk>m < 10 ^ w; n < 10 ^ w; digits w m = digits w n\<rbrakk> \<Longrightarrow> m = n"
proof (induction w arbitrary: m n)
  case 0
  then show ?case by simp
next
  case (Suc w)
  then have "m div 10 = n div 10" "m mod 10 = n mod 10"
    by (auto simp: digit_char_inj less_mult_imp_div_less mult.commute intro!: Suc.IH)
  then show ?case by (metis div_mult_mod_eq)
qed

lemma digits_less: "\<lbrakk>m < 10 ^ w; n < 10 ^ w\<rbrakk> \<Longrightarrow> text_less (digits w m) (digits w n) \<longleftrightarrow> m < n"
proof (induction w arbitrary: m n)
  case 0
  then show ?case by simp
next
  case (Suc w)
  have b: "m div 10 < 10 ^ w" "n div 10 < 10 ^ w"
    using Suc.prems by (simp_all add: less_mult_imp_div_less mult.commute)
  have "text_less (digits (Suc w) m) (digits (Suc w) n) \<longleftrightarrow>
      m div 10 < n div 10 \<or> m div 10 = n div 10 \<and> m mod 10 < n mod 10"
    using Suc.IH [OF b] digits_inj [OF b]
    by (auto simp: text_less_append digit_char_code)
  also have "\<dots> \<longleftrightarrow> m < n"
  proof -
    define a b c e where "a = m div 10" and "b = n div 10" and "c = m mod 10" and "e = n mod 10"
    have "m = 10 * a + c" "n = 10 * b + e" "c < 10" "e < 10"
      by (simp_all add: a_def b_def c_def e_def)
    then show ?thesis
      unfolding a_def [symmetric] b_def [symmetric] c_def [symmetric] e_def [symmetric] by auto
  qed
  finally show ?case .
qed

end
