(* ===== verification/Model.thy ===== *)
theory Model imports Rust_Text begin

text \<open>
  The data model of the ledger, \<open>crates/core/src/model.rs\<close>: the enumerations with their stored
  Spanish texts (the \<open>str_enum!\<close> macro gives each one \<open>as_str\<close> and \<open>from_str\<close>), the events, the
  rules, the devices and the error type. Every enumeration is a canonical codec: the stored text
  reads back as the value, and only the stored texts read at all.

  Constructor names are the source's; \<open>Domain\<close>, \<open>Suffix\<close> and \<open>Category\<close> of \<open>MatchKind\<close> carry a
  suffix because HOL has other constants of those names.
\<close>

datatype error =
    Json
  | UnknownValue string string
  | BadHash string
  | GenesisMismatch string string

datatype category = Rastreador | Publicidad | Telemetria | Esperado | Desconocido
datatype verdict = Observado | Respondido | Cortado
datatype decided_by = Usuario | ReglaUsuario | Nadie | AlcanceDeclarado | ModoApagon
datatype signal_kind = KBaliza | KDestinoNuevo | KFueraDeHoras | KEvasionDns | KVolumen
datatype signal = Baliza u32 | DestinoNuevo | FueraDeHoras | EvasionDns | Volumen
datatype scope = Device_s | Home_s
datatype match_kind = Domain_k | Suffix_k | Category_k
datatype action = Cortar | Permitir
datatype purpose = Licencia | Version | Listas | Rele | Directo
datatype server_kind = Publico | Anycast | Local_s

text \<open>The macro's table: the variants in declaration order, each with its text.\<close>

fun category_str :: "category \<Rightarrow> string" where
  "category_str Rastreador = ''rastreador''"
| "category_str Publicidad = ''publicidad''"
| "category_str Telemetria = ''telemetria''"
| "category_str Esperado = ''esperado''"
| "category_str Desconocido = ''desconocido''"

fun verdict_str :: "verdict \<Rightarrow> string" where
  "verdict_str Observado = ''observado''"
| "verdict_str Respondido = ''respondido''"
| "verdict_str Cortado = ''cortado''"

fun decided_by_str :: "decided_by \<Rightarrow> string" where
  "decided_by_str Usuario = ''usuario''"
| "decided_by_str ReglaUsuario = ''regla_usuario''"
| "decided_by_str Nadie = ''nadie''"
| "decided_by_str AlcanceDeclarado = ''alcance_declarado''"
| "decided_by_str ModoApagon = ''modo_apagon''"

fun signal_kind_str :: "signal_kind \<Rightarrow> string" where
  "signal_kind_str KBaliza = ''baliza''"
| "signal_kind_str KDestinoNuevo = ''destino_nuevo''"
| "signal_kind_str KFueraDeHoras = ''fuera_de_horas''"
| "signal_kind_str KEvasionDns = ''evasion_dns''"
| "signal_kind_str KVolumen = ''volumen''"

fun signal_kind_of :: "signal \<Rightarrow> signal_kind" where
  "signal_kind_of (Baliza m) = KBaliza"
| "signal_kind_of DestinoNuevo = KDestinoNuevo"
| "signal_kind_of FueraDeHoras = KFueraDeHoras"
| "signal_kind_of EvasionDns = KEvasionDns"
| "signal_kind_of Volumen = KVolumen"

fun scope_str :: "scope \<Rightarrow> string" where
  "scope_str Device_s = ''device''"
| "scope_str Home_s = ''home''"

fun match_kind_str :: "match_kind \<Rightarrow> string" where
  "match_kind_str Domain_k = ''domain''"
| "match_kind_str Suffix_k = ''suffix''"
| "match_kind_str Category_k = ''category''"

fun action_str :: "action \<Rightarrow> string" where
  "action_str Cortar = ''cortar''"
| "action_str Permitir = ''permitir''"

fun purpose_str :: "purpose \<Rightarrow> string" where
  "purpose_str Licencia = ''licencia''"
| "purpose_str Version = ''version''"
| "purpose_str Listas = ''listas''"
| "purpose_str Rele = ''rele''"
| "purpose_str Directo = ''directo''"

fun server_kind_str :: "server_kind \<Rightarrow> string" where
  "server_kind_str Publico = ''publico''"
| "server_kind_str Anycast = ''anycast''"
| "server_kind_str Local_s = ''local''"

text \<open>\<open>from_str\<close> of the macro: the first variant whose text is this one.\<close>

fun enum_parse :: "string \<Rightarrow> ('a \<Rightarrow> string) \<Rightarrow> 'a list \<Rightarrow> string \<Rightarrow> error + 'a" where
  "enum_parse kind as_str [] s = Inl (UnknownValue kind s)"
| "enum_parse kind as_str (v # vs) s =
     (if s = as_str v then Inr v else enum_parse kind as_str vs s)"

definition all_categories :: "category list" where
  "all_categories = [Rastreador, Publicidad, Telemetria, Esperado, Desconocido]"

definition all_verdicts :: "verdict list" where
  "all_verdicts = [Observado, Respondido, Cortado]"

definition all_decided_by :: "decided_by list" where
  "all_decided_by = [Usuario, ReglaUsuario, Nadie, AlcanceDeclarado, ModoApagon]"

definition category_parse :: "string \<Rightarrow> error + category" where
  "category_parse = enum_parse ''Category'' category_str all_categories"

definition verdict_parse :: "string \<Rightarrow> error + verdict" where
  "verdict_parse = enum_parse ''Verdict'' verdict_str all_verdicts"

definition decided_by_parse :: "string \<Rightarrow> error + decided_by" where
  "decided_by_parse = enum_parse ''DecidedBy'' decided_by_str all_decided_by"

definition scope_parse :: "string \<Rightarrow> error + scope" where
  "scope_parse = enum_parse ''Scope'' scope_str [Device_s, Home_s]"

definition match_kind_parse :: "string \<Rightarrow> error + match_kind" where
  "match_kind_parse = enum_parse ''MatchKind'' match_kind_str [Domain_k, Suffix_k, Category_k]"

definition action_parse :: "string \<Rightarrow> error + action" where
  "action_parse = enum_parse ''Action'' action_str [Cortar, Permitir]"

definition purpose_parse :: "string \<Rightarrow> error + purpose" where
  "purpose_parse = enum_parse ''Purpose'' purpose_str [Licencia, Version, Listas, Rele, Directo]"

text \<open>A result read as an option, for the \<open>codec\<close> interface.\<close>

definition okay :: "error + 'a \<Rightarrow> 'a option" where
  "okay r = (case r of Inl e \<Rightarrow> None | Inr v \<Rightarrow> Some v)"

lemma okay_simps [simp]: "okay (Inl e) = None" "okay (Inr v) = Some v"
  by (simp_all add: okay_def)

lemma enum_parse_self:
  "v \<in> set vs \<Longrightarrow> inj_on as_str (set vs) \<Longrightarrow> enum_parse k as_str vs (as_str v) = Inr v"
proof (induction vs)
  case Nil
  then show ?case by simp
next
  case (Cons w ws)
  have "as_str v = as_str w \<Longrightarrow> v = w" using Cons.prems by (meson inj_onD list.set_intros(1))
  moreover have "inj_on as_str (set ws)" using Cons.prems(2) by simp
  ultimately show ?case using Cons.prems(1) Cons.IH by auto
qed

lemma enum_parse_Inr: "enum_parse k as_str vs s = Inr v \<Longrightarrow> v \<in> set vs \<and> as_str v = s"
  by (induction vs) (auto split: if_splits)

lemma enum_codec:
  assumes "set vs = UNIV" "inj as_str"
  shows "canonical_codec as_str (\<lambda>s. okay (enum_parse k as_str vs s)) (\<lambda>_. True)"
proof unfold_locales
  show "okay (enum_parse k as_str vs (as_str v)) = Some v" for v
    using enum_parse_self [of v vs as_str k] assms by simp
  show "True \<and> as_str v = s" if "okay (enum_parse k as_str vs s) = Some v" for s v
    using that enum_parse_Inr [of k as_str vs s v] by (simp add: okay_def split: sum.splits)
qed

lemma enum_univ:
  "set all_categories = UNIV" "set all_verdicts = UNIV" "set all_decided_by = UNIV"
  "set [Device_s, Home_s] = UNIV" "set [Domain_k, Suffix_k, Category_k] = UNIV"
  "set [Cortar, Permitir] = UNIV" "set [Licencia, Version, Listas, Rele, Directo] = UNIV"
proof -
  have "c \<in> set all_categories" for c by (cases c) (simp_all add: all_categories_def)
  then show "set all_categories = UNIV" by auto
  have "c \<in> set all_verdicts" for c by (cases c) (simp_all add: all_verdicts_def)
  then show "set all_verdicts = UNIV" by auto
  have "c \<in> set all_decided_by" for c by (cases c) (simp_all add: all_decided_by_def)
  then show "set all_decided_by = UNIV" by auto
  have "c \<in> set [Device_s, Home_s]" for c by (cases c) simp_all
  then show "set [Device_s, Home_s] = UNIV" by blast
  have "c \<in> set [Domain_k, Suffix_k, Category_k]" for c by (cases c) simp_all
  then show "set [Domain_k, Suffix_k, Category_k] = UNIV" by blast
  have "c \<in> set [Cortar, Permitir]" for c by (cases c) simp_all
  then show "set [Cortar, Permitir] = UNIV" by blast
  have "c \<in> set [Licencia, Version, Listas, Rele, Directo]" for c by (cases c) simp_all
  then show "set [Licencia, Version, Listas, Rele, Directo] = UNIV" by blast
qed

lemma enum_inj:
  "inj category_str" "inj verdict_str" "inj decided_by_str" "inj scope_str"
  "inj match_kind_str" "inj action_str" "inj purpose_str"
proof -
  show "inj category_str"
    by (rule injI, rename_tac x y, case_tac x; case_tac y; simp)
  show "inj verdict_str"
    by (rule injI, rename_tac x y, case_tac x; case_tac y; simp)
  show "inj decided_by_str"
    by (rule injI, rename_tac x y, case_tac x; case_tac y; simp)
  show "inj scope_str"
    by (rule injI, rename_tac x y, case_tac x; case_tac y; simp)
  show "inj match_kind_str"
    by (rule injI, rename_tac x y, case_tac x; case_tac y; simp)
  show "inj action_str"
    by (rule injI, rename_tac x y, case_tac x; case_tac y; simp)
  show "inj purpose_str"
    by (rule injI, rename_tac x y, case_tac x; case_tac y; simp)
qed

interpretation category_text: canonical_codec category_str "\<lambda>s. okay (category_parse s)" "\<lambda>_. True"
  unfolding category_parse_def by (rule enum_codec [OF enum_univ(1) enum_inj(1)])

interpretation verdict_text: canonical_codec verdict_str "\<lambda>s. okay (verdict_parse s)" "\<lambda>_. True"
  unfolding verdict_parse_def by (rule enum_codec [OF enum_univ(2) enum_inj(2)])

interpretation decided_by_text:
  canonical_codec decided_by_str "\<lambda>s. okay (decided_by_parse s)" "\<lambda>_. True"
  unfolding decided_by_parse_def by (rule enum_codec [OF enum_univ(3) enum_inj(3)])

interpretation scope_text: canonical_codec scope_str "\<lambda>s. okay (scope_parse s)" "\<lambda>_. True"
  unfolding scope_parse_def by (rule enum_codec [OF enum_univ(4) enum_inj(4)])

interpretation match_kind_text:
  canonical_codec match_kind_str "\<lambda>s. okay (match_kind_parse s)" "\<lambda>_. True"
  unfolding match_kind_parse_def by (rule enum_codec [OF enum_univ(5) enum_inj(5)])

interpretation action_text: canonical_codec action_str "\<lambda>s. okay (action_parse s)" "\<lambda>_. True"
  unfolding action_parse_def by (rule enum_codec [OF enum_univ(6) enum_inj(6)])

interpretation purpose_text: canonical_codec purpose_str "\<lambda>s. okay (purpose_parse s)" "\<lambda>_. True"
  unfolding purpose_parse_def by (rule enum_codec [OF enum_univ(7) enum_inj(7)])

section \<open>Records\<close>

record proceso =
  pid :: u32
  p_nombre :: string
  p_ruta :: string
  p_sha256 :: string
  p_firmado_por :: string
  p_version :: string

record server_info =
  sv_kind :: server_kind
  sv_country :: string
  sv_asn :: u32
  sv_base :: string

definition server_hash_text :: "server_info \<Rightarrow> string" where
  "server_hash_text s =
     server_kind_str (sv_kind s) @ ''|'' @ sv_country s @ ''|'' @ decimal (unat (sv_asn s)) @
     ''|'' @ sv_base s"

record new_event =
  ne_ts :: int
  ne_device_id :: string
  ne_client_ip :: string
  ne_qname :: string
  ne_qtype :: string
  ne_category :: category
  ne_list_source :: string
  ne_signals :: "signal list"
  ne_verdict :: verdict
  ne_decided_by :: decided_by
  ne_rule_id :: "int option"
  ne_process :: "proceso option"
  ne_server :: "server_info option"
  ne_cname_target :: "string option"

definition observed :: "int \<Rightarrow> string \<Rightarrow> string \<Rightarrow> string \<Rightarrow> string \<Rightarrow> new_event" where
  "observed ts device_id client_ip qname qtype =
     \<lparr>ne_ts = ts, ne_device_id = device_id, ne_client_ip = client_ip, ne_qname = qname,
      ne_qtype = qtype, ne_category = Desconocido, ne_list_source = [], ne_signals = [],
      ne_verdict = Observado, ne_decided_by = Nadie, ne_rule_id = None, ne_process = None,
      ne_server = None, ne_cname_target = None\<rparr>"

record device =
  d_id :: string
  d_mac :: "string option"
  d_last_ip :: "string option"
  d_name :: "string option"
  d_first_seen :: int
  d_last_seen :: int
  d_share_detail :: bool
  d_hours_profile :: "string option"

record rule =
  r_id :: int
  r_scope :: scope
  r_device_id :: "string option"
  r_match_kind :: match_kind
  r_pattern :: string
  r_action :: action
  r_created_at :: int
  r_created_by :: string
  r_expires_at :: "int option"
  r_undone_at :: "int option"
  r_confirmed :: bool

definition is_active :: "rule \<Rightarrow> int \<Rightarrow> bool" where
  "is_active r now \<longleftrightarrow>
     r_undone_at r = None \<and> (case r_expires_at r of None \<Rightarrow> True | Some e \<Rightarrow> e > now)"

record new_rule =
  nr_scope :: scope
  nr_device_id :: "string option"
  nr_match_kind :: match_kind
  nr_pattern :: string
  nr_action :: action
  nr_created_at :: int
  nr_created_by :: string
  nr_expires_at :: "int option"
  nr_confirmed :: bool

record outbound =
  ob_id :: int
  ob_ts :: int
  ob_purpose :: purpose
  ob_host :: string
  ob_bytes :: int
  ob_initiated_by_user :: bool

definition SELF_DEVICE_ID :: string where "SELF_DEVICE_ID = ''self''"

end
