(* ===== verification/Hash_Chain.thy ===== *)
theory Hash_Chain imports Model begin

text \<open>
  The hash of a ledger row, \<open>crates/core/src/hash.rs\<close>, and the interface every hash chain of the
  program shares. SHA-256 is the \<open>sha2\<close> crate's: it is the parameter \<open>sha\<close> of the definitions, a
  function on byte strings of which nothing is assumed but, where a result needs it, that a digest
  has 32 bytes. No theorem assumes that it has no collisions: where one would be needed, the
  theorem says that either the fact holds or two different byte strings with one digest exist.
\<close>

type_synonym hash = bytes

definition str_bytes :: "string \<Rightarrow> bytes" where
  "str_bytes s = map of_char s"

lemma of_char_inj: "(of_char c :: byte) = of_char d \<longleftrightarrow> c = d"
proof
  assume "(of_char c :: byte) = of_char d"
  then have "unat (of_nat (char_code c) :: byte) = unat (of_nat (char_code d) :: byte)"
    by (simp add: of_nat_of_char)
  then have "char_code c mod 256 = char_code d mod 256" by (simp add: unat_of_nat)
  then have "char_code c = char_code d" using char_code_lt [of c] char_code_lt [of d] by simp
  then show "c = d" by simp
qed simp

lemma str_bytes_inj [simp]: "str_bytes s = str_bytes t \<longleftrightarrow> s = t"
  by (simp add: str_bytes_def inj_map_eq_map inj_def of_char_inj)

lemma length_str_bytes [simp]: "length (str_bytes s) = length s"
  by (simp add: str_bytes_def)

section \<open>Hashes as text and as bytes\<close>

definition hex_digit :: "nat \<Rightarrow> char" where
  "hex_digit d = ''0123456789abcdef'' ! d"

text \<open>\<open>{b:02x}\<close>.\<close>

definition hex_byte :: "byte \<Rightarrow> string" where
  "hex_byte b = [hex_digit (unat b div 16), hex_digit (unat b mod 16)]"

definition to_hex :: "hash \<Rightarrow> string" where
  "to_hex h = concat (map hex_byte h)"

text \<open>One digit of \<open>u8::from_str_radix(_, 16)\<close>; both cases are digits.\<close>

definition hex_val :: "char \<Rightarrow> nat option" where
  "hex_val c =
     (if is_ascii_digit c then Some (char_code c - 48)
      else if 97 \<le> char_code c \<and> char_code c \<le> 102 then Some (char_code c - 87)
      else if 65 \<le> char_code c \<and> char_code c \<le> 70 then Some (char_code c - 55)
      else None)"

text \<open>\<open>u8::from_str_radix\<close> on two characters: a leading \<open>+\<close> is a sign, as in every
  \<open>from_str_radix\<close>; a minus sign is no digit. A pair that is not UTF-8 is refused before it, with
  the same error; its bytes are not digits either.\<close>

definition hex_pair :: "char \<Rightarrow> char \<Rightarrow> byte option" where
  "hex_pair a b =
     (if a = CHR ''+'' then map_option of_nat (hex_val b)
      else case (hex_val a, hex_val b) of
             (Some x, Some y) \<Rightarrow> Some (of_nat (x * 16 + y))
           | _ \<Rightarrow> None)"

fun hex_pairs :: "string \<Rightarrow> hash option" where
  "hex_pairs [] = Some []"
| "hex_pairs [a] = None"
| "hex_pairs (a # b # s) =
     (case hex_pair a b of
        None \<Rightarrow> None
      | Some x \<Rightarrow> (case hex_pairs s of None \<Rightarrow> None | Some xs \<Rightarrow> Some (x # xs)))"

definition from_hex :: "string \<Rightarrow> error + hash" where
  "from_hex s =
     (if length s \<noteq> 64 then Inl (BadHash s)
      else case hex_pairs s of None \<Rightarrow> Inl (BadHash s) | Some h \<Rightarrow> Inr h)"

definition from_bytes :: "bytes \<Rightarrow> error + hash" where
  "from_bytes b = (if length b = 32 then Inr b else Inl (BadHash (decimal (length b) @ '' bytes'')))"

lemma below_16:
  "\<lbrakk>d < (16 :: nat); P 0; P 1; P 2; P 3; P 4; P 5; P 6; P 7; P 8; P 9; P 10; P 11; P 12; P 13; P 14; P 15\<rbrakk> \<Longrightarrow> P d"
  by (simp add: less_Suc_eq numeral_eq_Suc) (elim disjE; simp)

lemma hex_val_digits:
  "hex_val (CHR ''0'') = Some 0"
  "hex_val (CHR ''1'') = Some 1"
  "hex_val (CHR ''2'') = Some 2"
  "hex_val (CHR ''3'') = Some 3"
  "hex_val (CHR ''4'') = Some 4"
  "hex_val (CHR ''5'') = Some 5"
  "hex_val (CHR ''6'') = Some 6"
  "hex_val (CHR ''7'') = Some 7"
  "hex_val (CHR ''8'') = Some 8"
  "hex_val (CHR ''9'') = Some 9"
  "hex_val (CHR ''a'') = Some 10"
  "hex_val (CHR ''b'') = Some 11"
  "hex_val (CHR ''c'') = Some 12"
  "hex_val (CHR ''d'') = Some 13"
  "hex_val (CHR ''e'') = Some 14"
  "hex_val (CHR ''f'') = Some 15"
  by (simp_all add: hex_val_def is_ascii_digit_def)

lemma hex_digit_val: "d < 16 \<Longrightarrow> hex_val (hex_digit d) = Some d"
  by (erule below_16) (simp_all add: hex_digit_def hex_val_digits)

lemma hex_digit_no_sign: "d < 16 \<Longrightarrow> hex_digit d \<noteq> CHR ''+''"
  by (erule below_16) (simp_all add: hex_digit_def)

lemma unat_byte_lt: "unat (b :: byte) < 256"
  using unsigned_less [of b] by simp

lemma hex_pair_byte: "hex_pair (hex_digit (unat b div 16)) (hex_digit (unat b mod 16)) = Some b"
proof -
  have "unat b div 16 < 16" using unat_byte_lt [of b] by auto
  then show ?thesis
    by (simp add: hex_pair_def hex_digit_val hex_digit_no_sign div_mult_mod_eq)
qed

lemma hex_pairs_to_hex: "hex_pairs (to_hex h) = Some h"
  by (induction h) (simp_all add: to_hex_def hex_byte_def hex_pair_byte)

lemma length_to_hex [simp]: "length (to_hex h) = 2 * length h"
  by (induction h) (simp_all add: to_hex_def hex_byte_def)

lemma from_hex_to_hex [simp]: "length h = 32 \<Longrightarrow> from_hex (to_hex h) = Inr h"
  by (simp add: from_hex_def hex_pairs_to_hex)

lemma hex_pairs_length: "hex_pairs s = Some h \<Longrightarrow> length s = 2 * length h"
  by (induction s arbitrary: h rule: hex_pairs.induct) (auto split: option.splits)

lemma from_hex_length: "from_hex s = Inr h \<Longrightarrow> length h = 32"
  by (auto simp: from_hex_def dest: hex_pairs_length split: if_splits option.splits)

interpretation hash_text: codec to_hex "\<lambda>s. okay (from_hex s)" "\<lambda>h. length h = 32"
  by unfold_locales simp

interpretation hash_blob: canonical_codec id "\<lambda>b. okay (from_bytes b)" "\<lambda>h. length h = 32"
  by unfold_locales (auto simp: from_bytes_def okay_def split: if_splits)

lemma to_hex_inj: "length g = 32 \<Longrightarrow> length h = 32 \<Longrightarrow> to_hex g = to_hex h \<longleftrightarrow> g = h"
  using hash_text.enc_inj by blast

section \<open>The fields of a row\<close>

record hash_input =
  hi_ts :: int
  hi_device_id :: string
  hi_client_ip :: string
  hi_qname :: string
  hi_qtype :: string
  hi_category :: string
  hi_list_source :: string
  hi_signals_json :: string
  hi_verdict :: string
  hi_decided_by :: string
  hi_rule_id :: "int option"
  hi_process_json :: string
  hi_server :: string
  hi_cname_target :: string

text \<open>One field: its length as a big-endian \<open>u32\<close> (\<open>u32::MAX\<close> when it does not fit), then its
  bytes.\<close>

definition field_bytes :: "string \<Rightarrow> bytes" where
  "field_bytes f = be_bytes 4 (if length f < 2 ^ 32 then length f else 2 ^ 32 - 1) @ str_bytes f"

definition fixed_fields :: "hash_input \<Rightarrow> string list" where
  "fixed_fields i =
     [show_int (hi_ts i), hi_device_id i, hi_client_ip i, hi_qname i, hi_qtype i, hi_category i,
      hi_list_source i, hi_signals_json i, hi_verdict i, hi_decided_by i,
      (case hi_rule_id i of None \<Rightarrow> [] | Some r \<Rightarrow> show_int r)]"

definition opcionales :: "hash_input \<Rightarrow> string list" where
  "opcionales i =
     (if hi_cname_target i \<noteq> [] then [hi_process_json i, hi_server i, hi_cname_target i]
      else if hi_server i \<noteq> [] then [hi_process_json i, hi_server i]
      else if hi_process_json i \<noteq> [] then [hi_process_json i]
      else [])"

definition hash_fields :: "hash_input \<Rightarrow> string list" where
  "hash_fields i = fixed_fields i @ opcionales i"

definition chain_bytes :: "hash \<Rightarrow> hash_input \<Rightarrow> bytes" where
  "chain_bytes prev i = prev @ concat (map field_bytes (hash_fields i))"

definition chain_hash :: "(bytes \<Rightarrow> bytes) \<Rightarrow> hash \<Rightarrow> hash_input \<Rightarrow> hash" where
  "chain_hash sha prev i = sha (chain_bytes prev i)"

definition short_text :: "string \<Rightarrow> bool" where
  "short_text f \<longleftrightarrow> length f < 2 ^ 32"

definition fields_ok :: "hash_input \<Rightarrow> bool" where
  "fields_ok i \<longleftrightarrow> list_all short_text (hash_fields i)"

lemma field_cancel:
  assumes "short_text f" "short_text g" "field_bytes f @ r = field_bytes g @ s"
  shows "f = g \<and> r = s"
proof -
  from assms(3) have h: "be_bytes 4 (length f) = be_bytes 4 (length g)"
    "str_bytes f @ r = str_bytes g @ s"
    using assms(1,2) by (auto simp: field_bytes_def short_text_def append_eq_append_conv)
  then have "length f = length g"
    using be.enc_inj [of "length f" 4 "length g"] assms(1,2) by (simp add: short_text_def)
  with h(2) show ?thesis by simp
qed

lemma field_nonempty: "field_bytes f \<noteq> []"
proof -
  have "length (field_bytes f) \<ge> 4" by (simp add: field_bytes_def)
  then show ?thesis by auto
qed

interpretation fields: prefix_code field_bytes short_text
  by unfold_locales (blast dest: field_cancel, rule field_nonempty)

lemma opcionales_inj:
  "opcionales i = opcionales j \<Longrightarrow>
   hi_process_json i = hi_process_json j \<and> hi_server i = hi_server j \<and>
   hi_cname_target i = hi_cname_target j"
  by (auto simp: opcionales_def split: if_splits)

lemma hash_fields_inj: "hash_fields i = hash_fields j \<Longrightarrow> i = j"
proof -
  assume eq: "hash_fields i = hash_fields j"
  have "length (fixed_fields i) = length (fixed_fields j)" by (simp add: fixed_fields_def)
  with eq have f: "fixed_fields i = fixed_fields j" and o: "opcionales i = opcionales j"
    by (simp_all add: hash_fields_def)
  have ne: "show_int k \<noteq> []" for k by (simp add: show_int_def)
  from f have "hi_rule_id i = hi_rule_id j"
    by (auto simp: fixed_fields_def ne ne [symmetric] show_int_inj split: option.splits)
  moreover from f have "hi_ts i = hi_ts j" by (auto simp: fixed_fields_def show_int_inj)
  ultimately show ?thesis
    using f opcionales_inj [OF o] by (intro hash_input.equality) (auto simp: fixed_fields_def)
qed

lemma chain_bytes_inj:
  assumes "length g = length h" "fields_ok i" "fields_ok j" "chain_bytes g i = chain_bytes h j"
  shows "g = h \<and> i = j"
proof -
  from assms(1,4) have "g = h"
    "concat (map field_bytes (hash_fields i)) = concat (map field_bytes (hash_fields j))"
    by (simp_all add: chain_bytes_def)
  moreover from this(2) have "hash_fields i = hash_fields j"
    using assms(2,3) by (intro fields.concat_inj) (auto simp: fields_ok_def list_all_iff)
  ultimately show ?thesis using hash_fields_inj by blast
qed

section \<open>Chains\<close>

text \<open>
  A chain is a list of rows, each with the hash of the row before it (\<open>prev\<close>), its own (\<open>own\<close>)
  and the bytes that are hashed for it (\<open>pre\<close>, from the hash before and the row). \<open>linked\<close> is what
  every check of the program walks; \<open>tip\<close> is where the chain ends.
\<close>

fun linked :: "('r \<Rightarrow> 'h) \<Rightarrow> ('r \<Rightarrow> 'h) \<Rightarrow> ('h \<Rightarrow> 'r \<Rightarrow> 'h) \<Rightarrow> 'h \<Rightarrow> 'r list \<Rightarrow> bool" where
  "linked prev own link h [] = True"
| "linked prev own link h (r # rs) \<longleftrightarrow>
     prev r = h \<and> own r = link h r \<and> linked prev own link (own r) rs"

fun tip :: "('r \<Rightarrow> 'h) \<Rightarrow> 'h \<Rightarrow> 'r list \<Rightarrow> 'h" where
  "tip own h [] = h"
| "tip own h (r # rs) = tip own (own r) rs"

lemma tip_append [simp]: "tip own h (xs @ ys) = tip own (tip own h xs) ys"
  by (induction xs arbitrary: h) auto

lemma tip_last: "tip own h rs = (if rs = [] then h else own (last rs))"
  by (induction rs arbitrary: h) auto

lemma linked_append:
  "linked prev own link h (xs @ ys) \<longleftrightarrow>
   linked prev own link h xs \<and> linked prev own link (tip own h xs) ys"
  by (induction xs arbitrary: h) auto

text \<open>
  A digest of fixed length always has collisions somewhere, so \<open>there is a collision\<close> would say
  nothing. What the results below exhibit is a collision between two given sets of inputs: the
  ones that were really hashed for the two chains compared.
\<close>

definition collides :: "('i \<Rightarrow> 'h) \<Rightarrow> 'i set \<Rightarrow> 'i set \<Rightarrow> bool" where
  "collides f A B \<longleftrightarrow> (\<exists>x \<in> A. \<exists>y \<in> B. x \<noteq> y \<and> f x = f y)"

lemma collides_mono: "collides f A B \<Longrightarrow> A \<subseteq> A' \<Longrightarrow> B \<subseteq> B' \<Longrightarrow> collides f A' B'"
  unfolding collides_def by blast

locale hash_chain =
  fixes prev :: "'r \<Rightarrow> 'h" and own :: "'r \<Rightarrow> 'h" and pre :: "'h \<Rightarrow> 'r \<Rightarrow> 'i"
    and digest :: "'i \<Rightarrow> 'h" and content :: "'r \<Rightarrow> 'c" and ok :: "'h \<Rightarrow> 'r \<Rightarrow> bool"
  assumes pre_inj: "ok g r \<Longrightarrow> ok h q \<Longrightarrow> pre g r = pre h q \<Longrightarrow> g = h \<and> content r = content q"
begin

text \<open>Two chains of the same length that end in the same hash hold the same contents and the same
  hashes and start from the same hash, or two of the inputs hashed for them collide.\<close>

lemma same_tip_same_rows:
  "\<lbrakk>linked prev own (\<lambda>h r. digest (pre h r)) g rs; linked prev own (\<lambda>h r. digest (pre h r)) h qs;
    length rs = length qs; tip own g rs = tip own h qs;
    \<forall>r \<in> set rs. ok (prev r) r; \<forall>q \<in> set qs. ok (prev q) q\<rbrakk> \<Longrightarrow>
   collides digest ((\<lambda>r. pre (prev r) r) ` set rs) ((\<lambda>r. pre (prev r) r) ` set qs) \<or>
   g = h \<and> map (\<lambda>r. (prev r, content r, own r)) rs = map (\<lambda>r. (prev r, content r, own r)) qs"
proof (induction rs arbitrary: qs rule: rev_induct)
  case Nil
  then show ?case by simp
next
  case (snoc r rs)
  from snoc.prems(3) obtain q zs where qs: "qs = zs @ [q]" by (cases qs rule: rev_cases) auto
  let ?d = "\<lambda>h r. digest (pre h r)"
  let ?in = "\<lambda>rs. (\<lambda>r. pre (prev r) r) ` set rs"
  from snoc.prems(1) have r: "linked prev own ?d g rs" "prev r = tip own g rs"
    "own r = digest (pre (prev r) r)" by (auto simp: linked_append)
  from snoc.prems(2) qs have q: "linked prev own ?d h zs" "prev q = tip own h zs"
    "own q = digest (pre (prev q) q)" by (auto simp: linked_append)
  from snoc.prems(4) qs have tips: "own r = own q" by simp
  show ?case
  proof (cases "pre (prev r) r = pre (prev q) q")
    case True
    have "ok (prev r) r" "ok (prev q) q" using snoc.prems(5,6) qs by auto
    with True pre_inj have same: "prev r = prev q" "content r = content q" by blast+
    have "collides digest (?in rs) (?in zs) \<or> g = h \<and> map (\<lambda>r. (prev r, content r, own r)) rs
        = map (\<lambda>r. (prev r, content r, own r)) zs"
      using snoc.prems qs r(1,2) q(1,2) same by (intro snoc.IH) auto
    moreover have "?in rs \<subseteq> ?in (rs @ [r])" "?in zs \<subseteq> ?in qs" using qs by auto
    ultimately show ?thesis using collides_mono same tips qs by fastforce
  next
    case False
    then have "collides digest (?in (rs @ [r])) (?in qs)"
      unfolding collides_def using r(3) q(3) tips qs by auto
    then show ?thesis ..
  qed
qed

text \<open>Without the lengths: two chains from the same hash to the same hash are the same chain, unless
  two of the inputs hashed for them collide or one of their rows hashes to the start.\<close>

lemma same_ends_same_rows:
  "\<lbrakk>linked prev own (\<lambda>h r. digest (pre h r)) g rs; linked prev own (\<lambda>h r. digest (pre h r)) g qs;
    tip own g rs = tip own g qs; g \<notin> own ` set rs; g \<notin> own ` set qs;
    \<forall>r \<in> set rs. ok (prev r) r; \<forall>q \<in> set qs. ok (prev q) q\<rbrakk> \<Longrightarrow>
   collides digest ((\<lambda>r. pre (prev r) r) ` set rs) ((\<lambda>r. pre (prev r) r) ` set qs) \<or>
   map content rs = map content qs"
proof (induction rs arbitrary: qs rule: rev_induct)
  case Nil
  then show ?case by (cases qs rule: rev_cases) auto
next
  case (snoc r rs)
  from snoc.prems(3,4) obtain q zs where qs: "qs = zs @ [q]" by (cases qs rule: rev_cases) auto
  let ?d = "\<lambda>h r. digest (pre h r)"
  let ?in = "\<lambda>rs. (\<lambda>r. pre (prev r) r) ` set rs"
  from snoc.prems(1) have r: "linked prev own ?d g rs" "prev r = tip own g rs"
    "own r = digest (pre (prev r) r)" by (auto simp: linked_append)
  from snoc.prems(2) qs have q: "linked prev own ?d g zs" "prev q = tip own g zs"
    "own q = digest (pre (prev q) q)" by (auto simp: linked_append)
  from snoc.prems(3) qs have tips: "own r = own q" by simp
  show ?case
  proof (cases "pre (prev r) r = pre (prev q) q")
    case True
    have "ok (prev r) r" "ok (prev q) q" using snoc.prems(6,7) qs by auto
    with True pre_inj have same: "prev r = prev q" "content r = content q" by blast+
    have "collides digest (?in rs) (?in zs) \<or> map content rs = map content zs"
      using snoc.prems qs r(1,2) q(1,2) same by (intro snoc.IH) auto
    moreover have "?in rs \<subseteq> ?in (rs @ [r])" "?in zs \<subseteq> ?in qs" using qs by auto
    ultimately show ?thesis using collides_mono same qs by fastforce
  next
    case False
    then have "collides digest (?in (rs @ [r])) (?in qs)"
      unfolding collides_def using r(3) q(3) tips qs by auto
    then show ?thesis ..
  qed
qed

text \<open>Dropping a prefix and moving the anchor to its last hash keeps the chain.\<close>

lemma linked_suffix: "linked prev own link h (xs @ ys) \<Longrightarrow> linked prev own link (tip own h xs) ys"
  by (simp add: linked_append)

lemma linked_snoc:
  "linked prev own link h (xs @ [r]) \<longleftrightarrow>
   linked prev own link h xs \<and> prev r = tip own h xs \<and> own r = link (tip own h xs) r"
  by (simp add: linked_append)

end

end
