(* ===== verification/Calendar.thy ===== *)
theory Calendar imports Rust_Text begin

text \<open>
  The UTC calendar of \<open>crates/core/src/time.rs\<close>: the civil date of a day number (Howard
  Hinnant's algorithm), the text forms built on it and the offset of a clock. Timestamps are
  \<open>i64\<close> milliseconds; they are modelled as \<open>int\<close>, with Rust's truncating division written
  \<open>sdiv\<close>. Dates of this era are far inside the range: nothing here is near overflow but the
  offset added to a timestamp, which saturates as in the code.

  The specification is the Gregorian calendar itself, one day after another (\<open>next_day\<close>).
  The lemmas show that the algorithm starts at 1 January 1970 and that one more day number is
  always the next day of the calendar, so it is right for every day number, before and after
  1970; that distinct day numbers give distinct dates; and that the text form sorts like time.
\<close>

definition HOUR_MS :: int where "HOUR_MS = 60 * 60 * 1000"
definition DAY_MS :: int where "DAY_MS = 24 * HOUR_MS"

text \<open>\<open>u32::try_from(n).unwrap_or(1)\<close>.\<close>

definition u32_or_1 :: "int \<Rightarrow> nat" where
  "u32_or_1 n = (if 0 \<le> n \<and> n < 2 ^ 32 then nat n else 1)"

definition civil_from_days :: "int \<Rightarrow> int \<times> nat \<times> nat" where
  "civil_from_days z0 =
     (let z = z0 + 719468;
          era = (if z \<ge> 0 then z else z - 146096) sdiv 146097;
          doe = z - era * 146097;
          yoe = (doe - doe sdiv 1460 + doe sdiv 36524 - doe sdiv 146096) sdiv 365;
          y = yoe + era * 400;
          doy = doe - (365 * yoe + yoe sdiv 4 - yoe sdiv 100);
          mp = (5 * doy + 2) sdiv 153;
          d = doy - (153 * mp + 2) sdiv 5 + 1;
          m = (if mp < 10 then mp + 3 else mp - 9);
          y' = (if m \<le> 2 then y + 1 else y)
      in (y', u32_or_1 m, u32_or_1 d))"

text \<open>\<open>div_euclid\<close> and \<open>rem_euclid\<close> by a positive number are HOL's \<open>div\<close> and \<open>mod\<close>.\<close>

definition day_utc :: "int \<Rightarrow> string" where
  "day_utc ms =
     (case civil_from_days (ms div DAY_MS) of
        (y, m, d) \<Rightarrow> pad_int 4 y @ ''-'' @ pad_int 2 (int m) @ ''-'' @ pad_int 2 (int d))"

definition rfc3339_utc :: "int \<Rightarrow> string" where
  "rfc3339_utc ms =
     (let day = day_utc ms; rem = ms mod DAY_MS;
          h = rem sdiv HOUR_MS;
          mi = (rem sdiv 60000) mod 60;
          s = (rem sdiv 1000) mod 60;
          milli = rem mod 1000
      in day @ ''T'' @ pad_int 2 h @ '':'' @ pad_int 2 mi @ '':'' @ pad_int 2 s @
         ''.'' @ pad_int 3 milli @ ''Z'')"

definition i64_max :: int where "i64_max = 2 ^ 63 - 1"
definition i64_min :: int where "i64_min = - (2 ^ 63)"

definition i64_saturating_add :: "int \<Rightarrow> int \<Rightarrow> int" where
  "i64_saturating_add a b = max i64_min (min i64_max (a + b))"

definition clamp :: "int \<Rightarrow> int \<Rightarrow> int \<Rightarrow> int" where
  "clamp x lo hi = (if x < lo then lo else if x > hi then hi else x)"

definition local_day :: "int \<Rightarrow> int \<Rightarrow> string" where
  "local_day ms offset_min =
     day_utc (i64_saturating_add ms (clamp offset_min (- 14 * 60) (14 * 60) * 60000))"

definition parse_offset :: "string \<Rightarrow> int option" where
  "parse_offset text0 =
     (let t = trim text0;
          (signo, cifras) =
            (case strip_prefix ''-'' t of
               Some r \<Rightarrow> (- 1, r)
             | None \<Rightarrow> (1, case strip_prefix ''+'' t of Some r \<Rightarrow> r | None \<Rightarrow> t))
      in if cifras = [] \<or> \<not> list_all is_ascii_digit cifras then None
         else case parse_i64 cifras of
                None \<Rightarrow> None
              | Some n \<Rightarrow>
                  (let minutos = (if length cifras = 4 then (n sdiv 100) * 60 + n smod 100 else n)
                   in if minutos \<le> 14 * 60 then Some (signo * minutos) else None))"

definition start_of_day_utc :: "int \<Rightarrow> int" where
  "start_of_day_utc ms = (ms div DAY_MS) * DAY_MS"

section \<open>The Gregorian calendar, one day after another\<close>

definition leap :: "int \<Rightarrow> bool" where
  "leap y \<longleftrightarrow> y mod 4 = 0 \<and> (y mod 100 \<noteq> 0 \<or> y mod 400 = 0)"

definition month_len :: "int \<Rightarrow> nat \<Rightarrow> nat" where
  "month_len y m =
     (if m = 2 then (if leap y then 29 else 28)
      else if m \<in> {4, 6, 9, 11} then 30 else 31)"

fun next_day :: "int \<times> nat \<times> nat \<Rightarrow> int \<times> nat \<times> nat" where
  "next_day (y, m, d) =
     (if d < month_len y m then (y, m, d + 1)
      else if m < 12 then (y, m + 1, 1) else (y + 1, 1, 1))"

fun valid_date :: "int \<times> nat \<times> nat \<Rightarrow> bool" where
  "valid_date (y, m, d) \<longleftrightarrow> 1 \<le> m \<and> m \<le> 12 \<and> 1 \<le> d \<and> d \<le> month_len y m"

fun date_less :: "int \<times> nat \<times> nat \<Rightarrow> int \<times> nat \<times> nat \<Rightarrow> bool" where
  "date_less (y, m, d) (y', m', d') \<longleftrightarrow>
     y < y' \<or> (y = y' \<and> (m < m' \<or> (m = m' \<and> d < d')))"

lemma date_less_trans: "date_less a b \<Longrightarrow> date_less b c \<Longrightarrow> date_less a c"
  by (cases a; cases b; cases c) auto

lemma date_less_irrefl: "\<not> date_less a a"
  by (cases a) auto

lemma next_day_later: "date_less a (next_day a)"
  by (cases a) auto

lemma next_day_valid: "valid_date a \<Longrightarrow> valid_date (next_day a)"
  by (cases a) (auto simp: month_len_def)

section \<open>The algorithm in three steps\<close>

text \<open>Day of the 400-year era to year of the era, with the ends of every year of the era.\<close>

definition yoe_of :: "int \<Rightarrow> int" where
  "yoe_of doe = (doe - doe div 1460 + doe div 36524 - doe div 146096) div 365"

definition year_start :: "int \<Rightarrow> int" where
  "year_start y = 365 * y + y div 4 - y div 100"

definition year_end :: "int \<Rightarrow> int" where
  "year_end y = (if y = 399 then 146096 else year_start (y + 1) - 1)"

definition month_of :: "int \<Rightarrow> int" where
  "month_of doy = (let mp = (5 * doy + 2) div 153 in if mp < 10 then mp + 3 else mp - 9)"

definition mday_of :: "int \<Rightarrow> int" where
  "mday_of doy = doy - (153 * ((5 * doy + 2) div 153) + 2) div 5 + 1"

definition civil_of :: "int \<Rightarrow> int \<Rightarrow> int \<Rightarrow> int \<times> nat \<times> nat" where
  "civil_of era y doy =
     ((if month_of doy \<le> 2 then y + era * 400 + 1 else y + era * 400),
      nat (month_of doy), nat (mday_of doy))"

lemma sdiv_nonneg: "0 \<le> a \<Longrightarrow> 0 < b \<Longrightarrow> (a::int) sdiv b = a div b"
  by (auto simp: signed_divide_int_def sgn_if)

lemma sdiv_era:
  "(if z \<ge> 0 then z else z - 146096) sdiv 146097 = (z::int) div 146097"
proof (cases "z \<ge> 0")
  case True
  then show ?thesis by (simp add: sdiv_nonneg)
next
  case False
  then have "(z - 146096) sdiv 146097 = - ((146096 - z) div 146097)"
    by (auto simp: signed_divide_int_def sgn_if)
  also have "(146096 - z) div 146097 = - (z div 146097)"
  proof -
    define q r where "q = z div 146097" and "r = z mod 146097"
    have "z = 146097 * q + r" by (simp add: q_def r_def)
    moreover have "0 \<le> r" "r < 146097" by (simp_all add: r_def)
    ultimately have "(146096 - z) div 146097 = - q"
      by (intro int_div_pos_eq [where r = "146096 - r"]) auto
    then show ?thesis by (simp add: q_def)
  qed
  finally have "(z - 146096) sdiv 146097 = z div 146097" by simp
  with False show ?thesis by simp
qed

lemma year_ends:
  "list_all (\<lambda>y. yoe_of (year_start y) = y \<and> yoe_of (year_end y) = y \<and>
     year_start y \<le> year_end y \<and> 0 \<le> year_start y \<and> year_end y \<le> 146096 \<and>
     year_end y - year_start y = (if leap (y + 1) then 365 else 364)) [0..399]"
  by code_simp

lemma year_ends_at:
  assumes "0 \<le> y" "y \<le> 399"
  shows "yoe_of (year_start y) = y" "yoe_of (year_end y) = y" "year_start y \<le> year_end y"
    "year_end y - year_start y = (if leap (y + 1) then 365 else 364)"
    "0 \<le> year_start y" "year_end y \<le> 146096"
  using year_ends assms by (simp_all add: list_all_iff)

lemma yoe_step:
  assumes "0 \<le> (x::int)" "x < 146096"
  shows "yoe_of x \<le> yoe_of (x + 1)"
proof -
  have "x div 36524 \<le> (x + 1) div 36524" by (rule zdiv_mono1) simp_all
  moreover have "(x + 1) div 1460 + (x + 1) div 146096 \<le> x div 1460 + x div 146096 + 1"
  proof (cases "x + 1 = 146096")
    case True
    then have x: "x = 146095" by simp
    show ?thesis unfolding x by simp
  next
    case False
    with assms have "(x + 1) div 146096 = 0" "x div 146096 = 0" by simp_all
    moreover have "(x + 1) div 1460 \<le> (x + 1460) div 1460" by (rule zdiv_mono1) simp_all
    ultimately show ?thesis by simp
  qed
  ultimately show ?thesis unfolding yoe_of_def by (intro zdiv_mono1) auto
qed

lemma yoe_mono:
  assumes "0 \<le> a" "a \<le> b" "b \<le> 146096"
  shows "yoe_of a \<le> yoe_of b"
  using assms(2,3)
proof (induction b rule: int_ge_induct)
  case base
  then show ?case by simp
next
  case (step i)
  with assms yoe_step [of i] show ?case by simp
qed

lemma year_start_0: "year_start 0 = 0"
  by (simp add: year_start_def)

lemma year_exists:
  "\<lbrakk>0 \<le> doe; doe \<le> year_end (int n); n \<le> 399\<rbrakk> \<Longrightarrow>
   \<exists>y. 0 \<le> y \<and> y \<le> 399 \<and> year_start y \<le> doe \<and> doe \<le> year_end y"
proof (induction n)
  case 0
  then show ?case by (intro exI [of _ 0]) (simp add: year_start_0)
next
  case (Suc n)
  show ?case
  proof (cases "doe \<le> year_end (int n)")
    case True
    with Suc show ?thesis by simp
  next
    case False
    with Suc.prems have "year_start (int (Suc n)) \<le> doe"
      by (simp add: year_end_def add.commute)
    with Suc.prems show ?thesis by (intro exI [of _ "int (Suc n)"]) auto
  qed
qed

lemma year_of_doe:
  assumes "0 \<le> doe" "doe \<le> 146096"
  shows "0 \<le> yoe_of doe" "yoe_of doe \<le> 399"
    "year_start (yoe_of doe) \<le> doe" "doe \<le> year_end (yoe_of doe)"
proof -
  from year_exists [of doe 399] assms obtain y
    where y: "0 \<le> y" "y \<le> 399" "year_start y \<le> doe" "doe \<le> year_end y"
    by (auto simp: year_end_def)
  have "yoe_of (year_start y) \<le> yoe_of doe" "yoe_of doe \<le> yoe_of (year_end y)"
    using y year_ends_at [OF y(1,2)] assms by (intro yoe_mono; simp)+
  with year_ends_at [OF y(1,2)] have "yoe_of doe = y" by simp
  with y show "0 \<le> yoe_of doe" "yoe_of doe \<le> 399"
    "year_start (yoe_of doe) \<le> doe" "doe \<le> year_end (yoe_of doe)" by simp_all
qed

lemma yoe_unique:
  assumes "0 \<le> y" "y \<le> 399" "year_start y \<le> doe" "doe \<le> year_end y"
  shows "yoe_of doe = y"
proof -
  have "yoe_of (year_start y) \<le> yoe_of doe" "yoe_of doe \<le> yoe_of (year_end y)"
    using assms year_ends_at [OF assms(1,2)] by (intro yoe_mono; simp)+
  with year_ends_at [OF assms(1,2)] show ?thesis by simp
qed

lemma year_len: "0 \<le> doe \<Longrightarrow> doe \<le> 146096 \<Longrightarrow> doe - year_start (yoe_of doe) \<le> 365"
  using year_ends_at(4) [of "yoe_of doe"] year_of_doe [of doe] by (auto split: if_splits)

text \<open>The months as the algorithm numbers them from March, one row per day of that year.\<close>

definition long_len :: "int \<Rightarrow> int" where
  "long_len mo = (if mo = 2 then 29 else if mo \<in> {4, 6, 9, 11} then 30 else 31)"

definition month_row :: "int \<Rightarrow> bool" where
  "month_row doy =
     (let mo = month_of doy; md = mday_of doy in
      1 \<le> mo \<and> mo \<le> 12 \<and> 1 \<le> md \<and> md \<le> long_len mo \<and>
      (mo = 2 \<and> md = 29 \<longleftrightarrow> doy = 365) \<and> (mo = 2 \<and> md = 28 \<longleftrightarrow> doy = 364) \<and>
      (if md = long_len mo
       then doy = 365 \<or> month_of (doy + 1) = (if mo = 12 then 1 else mo + 1) \<and> mday_of (doy + 1) = 1
       else month_of (doy + 1) = mo \<and> mday_of (doy + 1) = md + 1))"

lemma month_table: "list_all month_row [0..365]"
  by code_simp

lemma month_at: "0 \<le> doy \<Longrightarrow> doy \<le> 365 \<Longrightarrow> month_row doy"
  using month_table by (simp add: list_all_iff)

lemma month_0: "month_of 0 = 3" "mday_of 0 = 1"
  by (simp_all add: month_of_def mday_of_def)


lemma civil_split:
  "civil_from_days z =
     (let e = z + 719468; doe = e mod 146097
      in civil_of (e div 146097) (yoe_of doe) (doe - year_start (yoe_of doe)))"
proof -
  define e doe where "e = z + 719468" and "doe = e mod 146097"
  have doe: "0 \<le> doe" "doe \<le> 146096" unfolding doe_def
    using pos_mod_bound [of 146097 e] by simp_all
  have doe': "e - (e div 146097) * 146097 = doe"
    unfolding doe_def by (simp add: minus_div_mult_eq_mod)
  define y doy where "y = yoe_of doe" and "doy = doe - year_start y"
  have y: "0 \<le> y" "y \<le> 399" "0 \<le> doy" "doy \<le> 365"
    using year_of_doe [OF doe] year_len [OF doe] by (simp_all add: y_def doy_def)
  have num: "0 \<le> doe - doe div 1460 + doe div 36524 - doe div 146096"
  proof -
    have "0 \<le> yoe_of doe" using y by (simp add: y_def)
    then show ?thesis unfolding yoe_of_def by (simp add: pos_imp_zdiv_nonneg_iff)
  qed
  have sd: "(doe - doe sdiv 1460 + doe sdiv 36524 - doe sdiv 146096) sdiv 365 = y"
    using doe num by (simp add: sdiv_nonneg y_def yoe_of_def)
  have sy: "doe - (365 * y + y sdiv 4 - y sdiv 100) = doy"
    using y by (simp add: sdiv_nonneg doy_def year_start_def)
  have mp: "(5 * doy + 2) sdiv 153 = (5 * doy + 2) div 153"
    using y by (simp add: sdiv_nonneg)
  have "0 \<le> (5 * doy + 2) div 153" using y by (simp add: pos_imp_zdiv_nonneg_iff)
  then have dd: "(153 * ((5 * doy + 2) div 153) + 2) sdiv 5 = (153 * ((5 * doy + 2) div 153) + 2) div 5"
    by (simp add: sdiv_nonneg)
  have u: "u32_or_1 (month_of doy) = nat (month_of doy)" "u32_or_1 (mday_of doy) = nat (mday_of doy)"
    using month_at [OF y(3,4)]
    by (auto simp: u32_or_1_def month_row_def long_len_def Let_def split: if_splits)
  have mo: "(if (5 * doy + 2) div 153 < 10 then (5 * doy + 2) div 153 + 3 else (5 * doy + 2) div 153 - 9)
      = month_of doy" by (simp only: month_of_def Let_def)
  show ?thesis
    unfolding civil_from_days_def Let_def sdiv_era e_def [symmetric] doe' sd sy mp dd mo
      mday_of_def [symmetric] doe_def [symmetric] y_def [symmetric] doy_def [symmetric]
      civil_of_def u by (rule refl)
qed

lemma leap_era: "leap (y + era * 400) = leap y"
proof -
  have "(y + (era * 100) * 4) mod 4 = y mod 4" "(y + (era * 4) * 100) mod 100 = y mod 100"
    "(y + era * 400) mod 400 = y mod 400" by (rule mod_mult_self1)+
  then have "(y + era * 400) mod 4 = y mod 4" "(y + era * 400) mod 100 = y mod 100"
    "(y + era * 400) mod 400 = y mod 400" by (simp_all add: mult.assoc)
  then show ?thesis by (simp only: leap_def)
qed

lemma leap_era_next: "leap (y + era * 400 + 1) = leap (y + 1)"
proof -
  have "y + era * 400 + 1 = (y + 1) + era * 400" by simp
  then show ?thesis by (simp only: leap_era)
qed

lemma month_len_era: "month_len (y + era * 400) m = month_len y m"
  by (simp add: month_len_def leap_era)

text \<open>One day later inside the same year (counted from March).\<close>

lemma month_len_civil:
  assumes "1 \<le> mo"
  shows "int (month_len (if mo \<le> 2 then y + era * 400 + 1 else y + era * 400) (nat mo)) =
    (if mo = 2 \<and> \<not> leap (y + 1) then 28 else long_len mo)"
proof -
  have n: "nat mo = 2 \<longleftrightarrow> mo = 2" "nat mo \<in> {4, 6, 9, 11} \<longleftrightarrow> mo \<in> {4, 6, 9, 11}"
    using assms by auto
  show ?thesis unfolding month_len_def n long_len_def by (simp add: leap_era_next)
qed

lemma civil_of_same_year:
  assumes "0 \<le> doy" "doy < 365" "doy < 364 \<or> leap (y + 1)"
  shows "civil_of era y (doy + 1) = next_day (civil_of era y doy)"
proof -
  define mo md where "mo = month_of doy" and "md = mday_of doy"
  have row: "1 \<le> mo" "mo \<le> 12" "1 \<le> md" "md \<le> long_len mo" "mo = 2 \<and> md = 28 \<longleftrightarrow> doy = 364"
    "mo = 2 \<and> md = 29 \<longleftrightarrow> doy = 365"
    and step: "if md = long_len mo
       then doy = 365 \<or> month_of (doy + 1) = (if mo = 12 then 1 else mo + 1) \<and> mday_of (doy + 1) = 1
       else month_of (doy + 1) = mo \<and> mday_of (doy + 1) = md + 1"
    using month_at [of doy] assms unfolding month_row_def Let_def mo_def md_def by auto
  note len = month_len_civil [OF row(1), of y era]
  have full: "nat md < month_len (if mo \<le> 2 then y + era * 400 + 1 else y + era * 400) (nat mo)
      \<longleftrightarrow> md \<noteq> long_len mo"
    using len row assms by (auto simp: long_len_def split: if_splits)
  have f2: "md = long_len mo \<Longrightarrow> mo \<noteq> 2" using row assms by (auto simp: long_len_def)
  show ?thesis
    using step row assms(2) full f2 unfolding civil_of_def mo_def [symmetric] md_def [symmetric]
    by (auto simp: nat_add_distrib split: if_splits)
qed

text \<open>One day later when the year (counted from March) ends.\<close>

lemma civil_of_year_end:
  assumes "doy = (if leap (y + 1) then 365 else 364)"
  shows "next_day (civil_of era y doy) = (y + era * 400 + 1, 3, 1)"
proof -
  show ?thesis
  proof (cases "leap (y + 1)")
    case True
    have "month_of 365 = 2" "mday_of 365 = 29" by (simp_all add: month_of_def mday_of_def)
    with True assms show ?thesis
      by (simp add: civil_of_def month_len_def leap_era_next numeral_eq_Suc)
  next
    case False
    have "month_of 364 = 2" "mday_of 364 = 28" by (simp_all add: month_of_def mday_of_def)
    with False assms show ?thesis
      by (simp add: civil_of_def month_len_def leap_era_next numeral_eq_Suc)
  qed
qed

lemma civil_of_start: "civil_of era y 0 = (y + era * 400, 3, 1)"
  by (simp add: civil_of_def month_0)

lemma bump_inside: "e mod 146097 + 1 \<le> 146096 \<Longrightarrow>
  (e + 1) mod 146097 = e mod 146097 + 1 \<and> (e + 1) div 146097 = (e::int) div 146097"
  using mod_mult_div_eq [of e 146097] pos_mod_sign [of 146097 e]
  by (intro conjI int_mod_pos_eq [where q = "e div 146097"]
        int_div_pos_eq [where r = "e mod 146097 + 1"]) auto

lemma bump_over: "e mod 146097 = 146096 \<Longrightarrow>
  (e + 1) mod 146097 = 0 \<and> (e + 1) div 146097 = (e::int) div 146097 + 1"
  using mod_mult_div_eq [of e 146097]
  by (intro conjI int_mod_pos_eq [where q = "e div 146097 + 1"]
        int_div_pos_eq [where r = 0]) (auto simp: algebra_simps)

lemma civil_zero: "civil_from_days 0 = (1970, 1, 1)"
  by code_simp

lemma civil_next: "civil_from_days (z + 1) = next_day (civil_from_days z)"
proof -
  define e doe where "e = z + 719468" and "doe = e mod 146097"
  have doe: "0 \<le> doe" "doe \<le> 146096" unfolding doe_def
    using pos_mod_bound [of 146097 e] by simp_all
  define y doy era where "y = yoe_of doe" and "doy = doe - year_start y" and "era = e div 146097"
  have y: "0 \<le> y" "y \<le> 399" "year_start y \<le> doe" "doe \<le> year_end y" "doy \<le> 365" "0 \<le> doy"
    using year_of_doe [OF doe] year_len [OF doe] by (simp_all add: y_def doy_def)
  note ends = year_ends_at [OF y(1,2)]
  have now: "civil_from_days z = civil_of era y doy"
    unfolding civil_split [of z] Let_def by (simp add: e_def doe_def y_def doy_def era_def)
  have later: "civil_from_days (z + 1) =
      civil_of ((e + 1) div 146097) (yoe_of ((e + 1) mod 146097))
        ((e + 1) mod 146097 - year_start (yoe_of ((e + 1) mod 146097)))"
    unfolding civil_split [of "z + 1"] Let_def by (simp add: e_def algebra_simps)
  consider (same) "doe < year_end y" | (next_year) "doe = year_end y" "y < 399" | (next_era) "y = 399" "doe = 146096"
    using y ends by (cases "doe < year_end y"; cases "y = 399") (auto simp: year_end_def)
  then show ?thesis
  proof cases
    case same
    with ends have "doe + 1 \<le> 146096" by simp
    then have m: "(e + 1) mod 146097 = doe + 1" "(e + 1) div 146097 = era"
      using bump_inside [of e] by (simp_all add: doe_def era_def)
    have y1: "yoe_of (doe + 1) = y" using y same by (intro yoe_unique) auto
    have "doy < 365" "doy < 364 \<or> leap (y + 1)"
      using same ends(4) y by (auto simp: doy_def split: if_splits)
    then show ?thesis
      using civil_of_same_year [of doy y era] y(6) unfolding later now m y1
      by (simp add: doy_def algebra_simps)
  next
    case next_year
    with ends y have "doe + 1 \<le> 146096" by (simp add: year_end_def)
        (use year_ends_at(5,6) [of "y + 1"] year_ends_at(3) [of "y + 1"] next_year y in auto)
    then have m: "(e + 1) mod 146097 = doe + 1" "(e + 1) div 146097 = era"
      using bump_inside [of e] by (simp_all add: doe_def era_def)
    have s1: "doe + 1 = year_start (y + 1)" using next_year by (simp add: year_end_def)
    have y1: "yoe_of (doe + 1) = y + 1"
      using s1 year_ends_at(3) [of "y + 1"] y next_year by (intro yoe_unique) auto
    have "doy = (if leap (y + 1) then 365 else 364)" using ends(4) next_year by (simp add: doy_def)
    then show ?thesis
      using civil_of_year_end [of doy y era] unfolding later now m y1
      by (simp add: s1 civil_of_start)
  next
    case next_era
    then have "e mod 146097 = 146096" by (simp add: doe_def)
    then have m: "(e + 1) mod 146097 = 0" "(e + 1) div 146097 = era + 1"
      using bump_over [of e] by (simp_all add: era_def)
    have y1: "yoe_of 0 = 0" by (simp add: yoe_of_def)
    have "doy = (if leap (y + 1) then 365 else 364)"
      using ends(4) next_era by (simp add: doy_def year_end_def)
    then show ?thesis
      using civil_of_year_end [of doy y era] next_era unfolding later now m y1
      by (simp add: year_start_0 civil_of_start)
  qed
qed

section \<open>What follows for every day number\<close>

lemma civil_mono: "a < b \<Longrightarrow> date_less (civil_from_days a) (civil_from_days b)"
proof (induction b rule: int_gr_induct)
  case base
  show ?case by (simp add: civil_next next_day_later)
next
  case (step i)
  then show ?case by (auto simp: civil_next intro: date_less_trans next_day_later)
qed

lemma civil_inj: "civil_from_days a = civil_from_days b \<Longrightarrow> a = b"
  using civil_mono [of a b] civil_mono [of b a] date_less_irrefl
  by (cases a b rule: linorder_cases) auto

lemma civil_of_valid:
  assumes "0 \<le> doy" "doy \<le> 365" "doy = 365 \<Longrightarrow> leap (y + 1)"
  shows "valid_date (civil_of era y doy)"
proof -
  define mo md where "mo = month_of doy" and "md = mday_of doy"
  have row: "1 \<le> mo" "mo \<le> 12" "1 \<le> md" "md \<le> long_len mo" "mo = 2 \<and> md = 29 \<longleftrightarrow> doy = 365"
    using month_at [of doy] assms unfolding month_row_def Let_def mo_def md_def by auto
  have "md \<le> int (month_len (if mo \<le> 2 then y + era * 400 + 1 else y + era * 400) (nat mo))"
    using row assms(3) unfolding month_len_civil [OF row(1)]
    by (auto simp: long_len_def split: if_splits)
  then have "nat md \<le> month_len (if mo \<le> 2 then y + era * 400 + 1 else y + era * 400) (nat mo)"
    by linarith
  moreover from row have "1 \<le> nat mo" "nat mo \<le> 12" "1 \<le> nat md" by linarith+
  ultimately show ?thesis
    unfolding civil_of_def mo_def [symmetric] md_def [symmetric] valid_date.simps by blast
qed

lemma civil_valid: "valid_date (civil_from_days z)"
proof -
  define doe where "doe = (z + 719468) mod 146097"
  have doe: "0 \<le> doe" "doe \<le> 146096" unfolding doe_def
    using pos_mod_bound [of 146097 "z + 719468"] by simp_all
  note y = year_of_doe [OF doe]
  have "doe - year_start (yoe_of doe) = 365 \<Longrightarrow> leap (yoe_of doe + 1)"
    using year_ends_at(4) [OF y(1,2)] y(4) by (auto split: if_splits)
  then show ?thesis
    unfolding civil_split [of z] Let_def doe_def [symmetric]
    using y year_len [OF doe] by (intro civil_of_valid) auto
qed

section \<open>The text of a day\<close>

lemma day_utc_shape:
  assumes "civil_from_days (ms div DAY_MS) = (y, m, d)" "0 \<le> y" "y \<le> 9999"
  shows "day_utc ms = digits 4 (nat y) @ ''-'' @ digits 2 m @ ''-'' @ digits 2 d"
    and "nat y < 10 ^ 4" and "m < 10 ^ 2" and "d < 10 ^ 2"
proof -
  have v: "m \<le> 12" "d \<le> 31"
    using civil_valid [of "ms div DAY_MS"] assms(1)
    by (auto simp: month_len_def split: if_splits)
  then show m: "m < 10 ^ 2" and d: "d < 10 ^ 2" and y: "nat y < 10 ^ 4"
    using assms by (simp_all add: nat_less_iff)
  from pad_int_digits [OF y] assms(2)
  have "pad_int 4 y = digits 4 (nat y)" by simp
  then show "day_utc ms = digits 4 (nat y) @ ''-'' @ digits 2 m @ ''-'' @ digits 2 d"
    using pad_int_digits [OF m] pad_int_digits [OF d] by (simp add: day_utc_def assms(1))
qed

lemma day_utc_less:
  assumes "civil_from_days (a div DAY_MS) = (y, m, d)" "0 \<le> y" "y \<le> 9999"
    and "civil_from_days (b div DAY_MS) = (y', m', d')" "0 \<le> y'" "y' \<le> 9999"
  shows "text_less (day_utc a) (day_utc b) \<longleftrightarrow> a div DAY_MS < b div DAY_MS"
proof -
  note A = day_utc_shape [OF assms(1-3)]
  note B = day_utc_shape [OF assms(4-6)]
  have "text_less (day_utc a) (day_utc b) \<longleftrightarrow> date_less (y, m, d) (y', m', d')"
    unfolding A(1) B(1)
    using A(2-4) B(2-4) assms(2,5) digits_inj [of "nat y" 4 "nat y'"] digits_inj [of m 2 m']
    by (auto simp: text_less_append digits_less nat_less_eq_zless)
  also have "\<dots> \<longleftrightarrow> a div DAY_MS < b div DAY_MS"
    using civil_mono [of "a div DAY_MS" "b div DAY_MS"] civil_mono [of "b div DAY_MS" "a div DAY_MS"]
      assms(1,4) date_less_trans date_less_irrefl
    by (metis linorder_cases)
  finally show ?thesis .
qed

section \<open>Properties\<close>

text \<open>The civil date of a day number is the Gregorian calendar: day 0 is 1 January 1970, the date
  of the next day number is always the next day of the calendar (leap years included, before and
  after 1970), and every date is a valid one.\<close>

theorem civil_dates_are_gregorian:
  "civil_from_days 0 = (1970, 1, 1) \<and> civil_from_days (z + 1) = next_day (civil_from_days z) \<and>
   valid_date (civil_from_days z)"
  by (simp add: civil_zero civil_next civil_valid)

text \<open>Between the years 0 and 9999 the text of a day sorts, byte by byte, like time: pruning the
  totals whose day is less than the limit's day, as the SQL does, removes exactly the earlier days.\<close>

theorem day_text_sorts_like_time:
  assumes "civil_from_days (a div DAY_MS) = (y, m, d)" "0 \<le> y" "y \<le> 9999"
    and "civil_from_days (b div DAY_MS) = (y', m', d')" "0 \<le> y'" "y' \<le> 9999"
  shows "text_less (day_utc a) (day_utc b) \<longleftrightarrow> a div DAY_MS < b div DAY_MS"
  using assms by (rule day_utc_less)

theorem day_text_sorts_like_time_witness:
  "text_less (day_utc 0) (day_utc (400 * DAY_MS)) \<longleftrightarrow> 0 div DAY_MS < (400 * DAY_MS) div DAY_MS"
proof (rule day_text_sorts_like_time)
  show "civil_from_days (0 div DAY_MS) = (1970, 1, 1)" by (simp add: civil_zero)
  show "civil_from_days (400 * DAY_MS div DAY_MS) = (1971, 2, 5)"
    by (simp add: DAY_MS_def HOUR_MS_def) code_simp
qed simp_all

text \<open>An offset read from the clock's text is never more than fourteen hours east or west, whatever
  the text says.\<close>

theorem parsed_offset_is_a_clock_offset:
  "parse_offset t = Some n \<Longrightarrow> \<bar>n\<bar> \<le> 14 * 60"
proof -
  assume p: "parse_offset t = Some n"
  define signo cifras where sc: "signo = (if strip_prefix ''-'' (trim t) = None then 1 else - 1 :: int)"
    "cifras = (case strip_prefix ''-'' (trim t) of Some r \<Rightarrow> r
       | None \<Rightarrow> (case strip_prefix ''+'' (trim t) of Some r \<Rightarrow> r | None \<Rightarrow> trim t))"
  from p have dig: "list_all is_ascii_digit cifras" "cifras \<noteq> []"
    by (auto simp: parse_offset_def Let_def sc split: option.splits if_splits)
  from p obtain k where k: "parse_i64 cifras = Some k"
    "(if length cifras = 4 then (k sdiv 100) * 60 + k smod 100 else k) \<le> 14 * 60"
    "n = signo * (if length cifras = 4 then (k sdiv 100) * 60 + k smod 100 else k)"
    by (auto simp: parse_offset_def Let_def sc split: option.splits if_splits)
  have "0 \<le> k"
    using dig k(1) by (cases cifras) (auto simp: parse_i64_def is_ascii_digit_def Let_def split: option.splits if_splits)
  then have "0 \<le> (if length cifras = 4 then (k sdiv 100) * 60 + k smod 100 else k)"
    by (simp add: sdiv_nonneg smod_int_alt_def sgn_if)
  with k(2,3) show ?thesis by (auto simp: sc abs_if)
qed

theorem parsed_offset_is_a_clock_offset_witness:
  "parse_offset ''-0500'' = Some (- 300) \<and> \<bar>- 300 :: int\<bar> \<le> 14 * 60"
proof -
  have "parse_offset ''-0500'' = Some (- 300)" by code_simp
  with parsed_offset_is_a_clock_offset [OF this] show ?thesis by blast
qed

end
