(* ===== verification/Ledger.thy ===== *)
theory Ledger imports Hash_Chain Calendar begin

text \<open>
  The ledger, \<open>crates/core/src/ledger.rs\<close>: the tables of the SQLite file as a state record and one
  definition per operation.

  A table is the list of its rows in primary-key order (\<open>events\<close> is keyed by its rowid, and an
  \<open>AUTOINCREMENT\<close> id is larger than every id given before), \<open>settings\<close> is a map, and
  \<open>sqlite_sequence\<close> is the map \<open>lg_seq\<close>. A SQL statement of the source is translated to what it
  does to these tables; SQLite's own failures (a full disk, a locked file) are not modelled. A
  transaction that returns an error leaves the state as it was. Three tables of other modules that
  only \<open>wipe\<close> touches (the deep view, the contracts) are lists of opaque rows.

  What is not under the crate is a field of \<open>externals\<close>: SHA-256, the \<open>serde_json\<close> texts, SQLite's
  \<open>strftime\<close> and whether the operating system lets a file be written.
\<close>

section \<open>State\<close>

record externals =
  sha :: "bytes \<Rightarrow> bytes"
  signals_to_json :: "signal list \<Rightarrow> string"
  signals_from_json :: "string \<Rightarrow> signal list option"
  process_to_json :: "proceso \<Rightarrow> string"
  process_from_json :: "string \<Rightarrow> proceso option option"
  sql_day :: "int \<Rightarrow> string"
  fs_write :: "string \<Rightarrow> string \<Rightarrow> bool"
  fs_rename :: "string \<Rightarrow> string \<Rightarrow> bool"
  fs_remove :: "string \<Rightarrow> bool"

record event_row =
  er_id :: int
  er_ts :: int
  er_device_id :: string
  er_client_ip :: string
  er_qname :: string
  er_qtype :: string
  er_category :: string
  er_list_source :: string
  er_signals_json :: string
  er_verdict :: string
  er_decided_by :: string
  er_rule_id :: "int option"
  er_prev_hash :: bytes
  er_row_hash :: bytes
  er_process_json :: string
  er_server_kind :: int
  er_server_country :: string
  er_server_asn :: int
  er_server_base :: int
  er_cname_target :: string

text \<open>The rows of \<open>rules\<close> and \<open>outbound\<close>, with their enumerations as the stored text.\<close>

record rule_row =
  rr_id :: int
  rr_scope :: string
  rr_device_id :: "string option"
  rr_match_kind :: string
  rr_pattern :: string
  rr_action :: string
  rr_created_at :: int
  rr_created_by :: string
  rr_expires_at :: "int option"
  rr_undone_at :: "int option"
  rr_confirmed :: bool

record outbound_row =
  or_id :: int
  or_ts :: int
  or_purpose :: string
  or_host :: string
  or_bytes :: int
  or_initiated_by_user :: bool

record gap =
  gap_id :: int
  gap_from :: int
  gap_to :: int

record change =
  ch_id :: int
  ch_ts :: int
  ch_kind :: string
  ch_who :: string
  ch_detail :: string

record daily_total =
  dt_day :: string
  dt_device_id :: string
  dt_category :: string
  dt_verdict :: string
  dt_count :: int

record trafico =
  tr_minuto :: int
  tr_programa :: string
  tr_firma :: string
  tr_destino :: string
  tr_pais :: string
  tr_red :: string
  tr_asn :: nat
  tr_proto :: string
  tr_puerto :: nat
  tr_enviados :: nat
  tr_recibidos :: nat
  tr_paquetes :: nat
  tr_lugar :: string
  tr_reenviados :: nat
  tr_conexiones :: nat

record suceso_row =
  su_id :: int
  su_ts :: int
  su_tipo :: string
  su_clave :: string
  su_importancia :: string
  su_texto :: string
  su_datos :: string
  su_prev_hash :: bytes
  su_row_hash :: bytes

type_synonym opaque_row = "string list"

record ledger =
  lg_settings :: "string \<rightharpoonup> string"
  lg_version :: int
  lg_seq :: "string \<rightharpoonup> int"
  lg_events :: "event_row list"
  lg_bases :: "(int \<times> string) list"
  lg_devices :: "device list"
  lg_rules :: "rule_row list"
  lg_outbound :: "outbound_row list"
  lg_seen :: "((string \<times> string) \<times> int) list"
  lg_totals :: "daily_total list"
  lg_gaps :: "gap list"
  lg_changes :: "change list"
  lg_trafico :: "trafico list"
  lg_alias :: "(string \<times> string \<times> int) list"
  lg_vigilancia :: "suceso_row list"
  lg_vision_transferencias :: "opaque_row list"
  lg_vision_resumen :: "opaque_row list"
  lg_contratos :: "opaque_row list"
  lg_contratos_avisos :: "opaque_row list"
  lg_contratos_registro :: "opaque_row list"
  lg_files :: "(string \<rightharpoonup> string) option"

text \<open>A file SQLite has just created, before \<open>init\<close>. \<open>lg_files\<close> is the directory beside the file,
  \<open>None\<close> for a ledger in memory.\<close>

definition empty_file :: "(string \<rightharpoonup> string) option \<Rightarrow> ledger" where
  "empty_file dir =
     \<lparr>lg_settings = Map.empty, lg_version = 0, lg_seq = Map.empty, lg_events = [], lg_bases = [],
      lg_devices = [], lg_rules = [], lg_outbound = [], lg_seen = [],
      lg_totals = [], lg_gaps = [], lg_changes = [], lg_trafico = [], lg_alias = [],
      lg_vigilancia = [], lg_vision_transferencias = [], lg_vision_resumen = [],
      lg_contratos = [], lg_contratos_avisos = [], lg_contratos_registro = [], lg_files = dir\<rparr>"

text \<open>\<open>AUTOINCREMENT\<close>: one more than the largest id ever given and than the largest one there.\<close>

definition next_rowid :: "ledger \<Rightarrow> string \<Rightarrow> int list \<Rightarrow> int" where
  "next_rowid l table ids =
     foldr max ids (case lg_seq l table of None \<Rightarrow> 0 | Some n \<Rightarrow> n) + 1"

text \<open>\<open>Option::map(f).transpose()?\<close>.\<close>

definition transpose_e :: "('a \<Rightarrow> error + 'b) \<Rightarrow> 'a option \<Rightarrow> error + 'b option" where
  "transpose_e f v = (case v of None \<Rightarrow> Inr None | Some a \<Rightarrow> and_then (f a) (\<lambda>b. Inr (Some b)))"

definition or_default :: "string option \<Rightarrow> string" where
  "or_default v = (case v of None \<Rightarrow> [] | Some s \<Rightarrow> s)"

lemma or_default_simps [simp]: "or_default None = []" "or_default (Some s) = s"
  by (simp_all add: or_default_def)

section \<open>Settings\<close>

definition KEY_GENESIS :: string where "KEY_GENESIS = ''chain_genesis''"
definition KEY_ANCHOR :: string where "KEY_ANCHOR = ''chain_anchor''"
definition KEY_PRUNED :: string where "KEY_PRUNED = ''chain_pruned_events''"
definition KEY_HEAD :: string where "KEY_HEAD = ''chain_head''"
definition KEY_HEAD_COUNT :: string where "KEY_HEAD_COUNT = ''chain_head_count''"
definition KEY_HEAD_LOST_AT :: string where "KEY_HEAD_LOST_AT = ''chain_head_lost_at''"
definition SCHEMA_HEAD :: int where "SCHEMA_HEAD = 1"
definition SCHEMA_HEAD_LOST :: int where "SCHEMA_HEAD_LOST = 2"

lemmas chain_keys =
  KEY_GENESIS_def KEY_ANCHOR_def KEY_PRUNED_def KEY_HEAD_def KEY_HEAD_COUNT_def
  KEY_HEAD_LOST_AT_def

lemmas schema_marks = SCHEMA_HEAD_def SCHEMA_HEAD_LOST_def

definition COPIAS_EN_ARCHIVO :: "(string \<times> string) list" where
  "COPIAS_EN_ARCHIVO =
     [(''dns_backup'', ''dns-anterior.json''),
      (''dns_backup_aparcada'', ''dns-anterior-aparcada.json'')]"

definition setting :: "ledger \<Rightarrow> string \<Rightarrow> string option" where
  "setting l key = lg_settings l key"

text \<open>The plain copy: removed when the value is blank, otherwise written under a temporary name and
  renamed. A failed rename removes the temporary one. A failed write may leave part of the temporary
  file behind, which is not kept here: nothing reads a temporary name, and the next write starts it anew.\<close>

definition copia_en_archivo :: "externals \<Rightarrow> string \<Rightarrow> string \<Rightarrow> ledger \<Rightarrow> ledger" where
  "copia_en_archivo x archivo valor l =
     (case lg_files l of
        None \<Rightarrow> l
      | Some fs \<Rightarrow>
          let tmp = archivo @ ''.tmp'' in
          if trim valor = [] then
            (if fs_remove x archivo then l\<lparr>lg_files := Some (fs(archivo := None))\<rparr> else l)
          else if \<not> fs_write x tmp valor then l
          else if fs_rename x tmp archivo then
            l\<lparr>lg_files := Some (fs(tmp := None, archivo \<mapsto> valor))\<rparr>
          else l\<lparr>lg_files := Some (fs(tmp := (if fs_remove x tmp then None else Some valor)))\<rparr>)"

definition put :: "string \<Rightarrow> string \<Rightarrow> ledger \<Rightarrow> ledger" where
  "put key value l = l\<lparr>lg_settings := (lg_settings l)(key \<mapsto> value)\<rparr>"

definition set_setting :: "externals \<Rightarrow> string \<Rightarrow> string \<Rightarrow> ledger \<Rightarrow> ledger" where
  "set_setting x key value l =
     (case find (\<lambda>kv. fst kv = key) COPIAS_EN_ARCHIVO of
        None \<Rightarrow> put key value l
      | Some kv \<Rightarrow> copia_en_archivo x (snd kv) value (put key value l))"

definition refresca_copias_en_archivo :: "externals \<Rightarrow> ledger \<Rightarrow> ledger" where
  "refresca_copias_en_archivo x l =
     foldl (\<lambda>l kv. copia_en_archivo x (snd kv) (or_default (setting l (fst kv))) l)
       l COPIAS_EN_ARCHIVO"

text \<open>\<open>copia_junto_al_extracto\<close>, on the files beside the extract.\<close>

definition copia_junto_al_extracto :: "(string \<rightharpoonup> string) \<Rightarrow> string \<Rightarrow> string option" where
  "copia_junto_al_extracto fs key =
     (case find (\<lambda>kv. fst kv = key) COPIAS_EN_ARCHIVO of
        None \<Rightarrow> None
      | Some kv \<Rightarrow>
          (case fs (snd kv) of
             None \<Rightarrow> None
           | Some texto \<Rightarrow> if trim texto = [] then None else Some texto))"

section \<open>Opening\<close>

definition set_schema :: "int \<Rightarrow> ledger \<Rightarrow> ledger" where
  "set_schema v l = l\<lparr>lg_version := v\<rparr>"

definition init :: "externals \<Rightarrow> hash \<Rightarrow> ledger \<Rightarrow> error + ledger" where
  "init x genesis l =
     (case setting l KEY_GENESIS of
        None \<Rightarrow>
          Inr (set_schema SCHEMA_HEAD
            (set_setting x KEY_HEAD_COUNT ''0''
            (set_setting x KEY_HEAD (to_hex genesis)
            (set_setting x KEY_PRUNED ''0''
            (set_setting x KEY_ANCHOR (to_hex genesis)
            (set_setting x KEY_GENESIS (to_hex genesis) l))))))
      | Some stored \<Rightarrow>
          if stored = to_hex genesis then Inr l
          else Inl (GenesisMismatch stored (to_hex genesis)))"

definition anchor :: "ledger \<Rightarrow> error + hash" where
  "anchor l = from_hex (or_default (setting l KEY_ANCHOR))"

definition pruned_count :: "ledger \<Rightarrow> nat" where
  "pruned_count l =
     (case setting l KEY_PRUNED of
        None \<Rightarrow> 0
      | Some s \<Rightarrow> (case parse_u64 s of None \<Rightarrow> 0 | Some n \<Rightarrow> n))"

definition head_count :: "ledger \<Rightarrow> nat option" where
  "head_count l = (case setting l KEY_HEAD_COUNT of None \<Rightarrow> None | Some s \<Rightarrow> parse_u64 s)"

definition chain_head :: "ledger \<Rightarrow> error + hash option" where
  "chain_head l = transpose_e from_hex (setting l KEY_HEAD)"

section \<open>Events\<close>

definition in_chain :: "ledger \<Rightarrow> hash \<Rightarrow> hash \<Rightarrow> bool" where
  "in_chain l h a \<longleftrightarrow> h = a \<or> (\<exists>r \<in> set (lg_events l). er_row_hash r = h)"

text \<open>Where the chain goes on and how many events that makes: from the end of the table when the
  recorded head is there, from the recorded head when it is nowhere in the table, and otherwise
  from the end of the table with the rows counted again. Counts are \<open>u64\<close>.\<close>

definition chain_point :: "ledger \<Rightarrow> error + hash \<times> nat \<times> hash option" where
  "chain_point l =
     and_then (anchor l) (\<lambda>a.
     and_then (if lg_events l = [] then Inr a else from_bytes (er_row_hash (last (lg_events l)))) (\<lambda>tail.
     and_then (chain_head l) (\<lambda>head.
     Inr (let adopted = (tail, (pruned_count l + length (lg_events l) + 1) mod 2 ^ 64, head) in
       case (head, head_count l) of
         (Some h, Some n) \<Rightarrow>
           if h = tail then (tail, (n + 1) mod 2 ^ 64, head)
           else if \<not> in_chain l h a then (h, (n + 1) mod 2 ^ 64, head)
           else adopted
       | _ \<Rightarrow> adopted))))"

fun server_kind_code :: "server_kind \<Rightarrow> int" where
  "server_kind_code Publico = 1"
| "server_kind_code Anycast = 2"
| "server_kind_code Local_s = 3"

definition base_named :: "string \<Rightarrow> (int \<times> string) list \<Rightarrow> (int \<times> string) option" where
  "base_named name bases = find (\<lambda>b. snd b = name) bases"

text \<open>\<open>INSERT OR IGNORE INTO server_bases\<close> and the id that name has then.\<close>

definition add_base :: "string \<Rightarrow> (int \<times> string) list \<Rightarrow> int \<times> (int \<times> string) list" where
  "add_base name bases =
     (case base_named name bases of
        Some b \<Rightarrow> (fst b, bases)
      | None \<Rightarrow> let i = foldr max (map fst bases) 0 + 1 in (i, bases @ [(i, name)]))"

definition hash_input_of :: "externals \<Rightarrow> new_event \<Rightarrow> hash_input" where
  "hash_input_of x new =
     \<lparr>hi_ts = ne_ts new, hi_device_id = ne_device_id new, hi_client_ip = ne_client_ip new,
      hi_qname = ne_qname new, hi_qtype = ne_qtype new,
      hi_category = category_str (ne_category new), hi_list_source = ne_list_source new,
      hi_signals_json = signals_to_json x (ne_signals new),
      hi_verdict = verdict_str (ne_verdict new),
      hi_decided_by = decided_by_str (ne_decided_by new), hi_rule_id = ne_rule_id new,
      hi_process_json = (case ne_process new of None \<Rightarrow> [] | Some p \<Rightarrow> process_to_json x p),
      hi_server = (case ne_server new of None \<Rightarrow> [] | Some sv \<Rightarrow> server_hash_text sv),
      hi_cname_target = or_default (ne_cname_target new)\<rparr>"

definition server_columns ::
  "server_info option \<Rightarrow> (int \<times> string) list \<Rightarrow> (int \<times> string \<times> int \<times> int) \<times> (int \<times> string) list" where
  "server_columns sv bases =
     (case sv of
        None \<Rightarrow> ((0, [], 0, 0), bases)
      | Some s \<Rightarrow>
          let (b, bases') = add_base (sv_base s) bases in
          ((server_kind_code (sv_kind s), sv_country s, int (unat (sv_asn s)), b), bases'))"

definition event_row_of ::
  "externals \<Rightarrow> int \<Rightarrow> hash \<Rightarrow> int \<times> string \<times> int \<times> int \<Rightarrow> new_event \<Rightarrow> event_row" where
  "event_row_of x i prev sv new =
     (let h = hash_input_of x new; (kind, country, asn, base) = sv in
      \<lparr>er_id = i, er_ts = hi_ts h, er_device_id = hi_device_id h, er_client_ip = hi_client_ip h,
       er_qname = hi_qname h, er_qtype = hi_qtype h, er_category = hi_category h,
       er_list_source = hi_list_source h, er_signals_json = hi_signals_json h,
       er_verdict = hi_verdict h, er_decided_by = hi_decided_by h, er_rule_id = hi_rule_id h,
       er_prev_hash = prev, er_row_hash = chain_hash (sha x) prev h,
       er_process_json = hi_process_json h, er_server_kind = kind, er_server_country = country,
       er_server_asn = asn, er_server_base = base, er_cname_target = hi_cname_target h\<rparr>)"

record event = new_event +
  ev_id :: int
  ev_prev_hash :: hash
  ev_row_hash :: hash

definition event_of :: "event_row \<Rightarrow> new_event \<Rightarrow> event" where
  "event_of r new = new_event.extend new
     \<lparr>ev_id = er_id r, ev_prev_hash = er_prev_hash r, ev_row_hash = er_row_hash r\<rparr>"

text \<open>The schema mark after a row was written.\<close>

definition mark_head :: "hash option \<Rightarrow> int \<Rightarrow> ledger \<Rightarrow> ledger" where
  "mark_head head i l =
     (if lg_version l = 0 then set_schema SCHEMA_HEAD l
      else if lg_version l = SCHEMA_HEAD \<and> head = None then
        put KEY_HEAD_LOST_AT (show_int i) (set_schema SCHEMA_HEAD_LOST l)
      else l)"

definition append :: "externals \<Rightarrow> new_event \<Rightarrow> ledger \<Rightarrow> (error + event) \<times> ledger" where
  "append x new l =
     (case chain_point l of
        Inl e \<Rightarrow> (Inl e, l)
      | Inr (prev, count, head) \<Rightarrow>
          let (sv, bases) = server_columns (ne_server new) (lg_bases l);
              i = next_rowid l ''events'' (map er_id (lg_events l));
              row = event_row_of x i prev sv new;
              l1 = l\<lparr>lg_bases := bases, lg_events := lg_events l @ [row],
                     lg_seq := (lg_seq l)(''events'' \<mapsto> i)\<rparr>;
              l2 = put KEY_HEAD_COUNT (decimal count) (put KEY_HEAD (to_hex (er_row_hash row)) l1)
          in (Inr (event_of row new), mark_head head i l2))"

text \<open>What a row reads back as.\<close>

record raw_event = hash_input +
  rw_prev_hash :: hash
  rw_row_hash :: hash

definition base_name :: "(int \<times> string) list \<Rightarrow> int \<Rightarrow> string" where
  "base_name bases b = (case map_of bases b of None \<Rightarrow> [] | Some n \<Rightarrow> n)"

definition server_from_row :: "(int \<times> string) list \<Rightarrow> event_row \<Rightarrow> server_info option" where
  "server_from_row bases r =
     (let asn = (if 0 \<le> er_server_asn r \<and> er_server_asn r < 2 ^ 32
                 then of_nat (nat (er_server_asn r)) else 0);
          sv = (\<lambda>k. Some \<lparr>sv_kind = k, sv_country = er_server_country r, sv_asn = asn,
                          sv_base = base_name bases (er_server_base r)\<rparr>) in
      if er_server_kind r = 1 then sv Publico
      else if er_server_kind r = 2 then sv Anycast
      else if er_server_kind r = 3 then sv Local_s
      else None)"

definition server_text :: "server_info option \<Rightarrow> string" where
  "server_text sv = (case sv of None \<Rightarrow> [] | Some s \<Rightarrow> server_hash_text s)"

definition row_input :: "(int \<times> string) list \<Rightarrow> event_row \<Rightarrow> hash_input" where
  "row_input bases r =
     \<lparr>hi_ts = er_ts r, hi_device_id = er_device_id r, hi_client_ip = er_client_ip r,
      hi_qname = er_qname r, hi_qtype = er_qtype r, hi_category = er_category r,
      hi_list_source = er_list_source r, hi_signals_json = er_signals_json r,
      hi_verdict = er_verdict r, hi_decided_by = er_decided_by r, hi_rule_id = er_rule_id r,
      hi_process_json = er_process_json r, hi_server = server_text (server_from_row bases r),
      hi_cname_target = er_cname_target r\<rparr>"

definition raw_of :: "(int \<times> string) list \<Rightarrow> event_row \<Rightarrow> raw_event" where
  "raw_of bases r = hash_input.extend (row_input bases r)
     \<lparr>rw_prev_hash = er_prev_hash r, rw_row_hash = er_row_hash r\<rparr>"

definition raw_from_row :: "(int \<times> string) list \<Rightarrow> event_row \<Rightarrow> error + raw_event" where
  "raw_from_row bases r =
     and_then (from_bytes (er_prev_hash r)) (\<lambda>_.
     and_then (from_bytes (er_row_hash r)) (\<lambda>_. Inr (raw_of bases r)))"

definition event_from_row :: "externals \<Rightarrow> (int \<times> string) list \<Rightarrow> event_row \<Rightarrow> error + event" where
  "event_from_row x bases r =
     and_then (raw_from_row bases r) (\<lambda>raw.
     and_then (case signals_from_json x (hi_signals_json raw) of None \<Rightarrow> Inl Json | Some s \<Rightarrow> Inr s) (\<lambda>sigs.
     and_then (category_parse (hi_category raw)) (\<lambda>cat.
     and_then (verdict_parse (hi_verdict raw)) (\<lambda>verd.
     and_then (decided_by_parse (hi_decided_by raw)) (\<lambda>dec.
     and_then (if hi_process_json raw = [] then Inr None
          else case process_from_json x (hi_process_json raw) of
                 None \<Rightarrow> Inl Json | Some p \<Rightarrow> Inr p) (\<lambda>proc.
     Inr (event_of r
       \<lparr>ne_ts = hi_ts raw, ne_device_id = hi_device_id raw, ne_client_ip = hi_client_ip raw,
        ne_qname = hi_qname raw, ne_qtype = hi_qtype raw, ne_category = cat,
        ne_list_source = hi_list_source raw, ne_signals = sigs, ne_verdict = verd,
        ne_decided_by = dec, ne_rule_id = hi_rule_id raw, ne_process = proc,
        ne_server = server_from_row bases r,
        ne_cname_target = (if hi_cname_target raw = [] then None
                           else Some (hi_cname_target raw))\<rparr>)))))))"


definition event_count :: "ledger \<Rightarrow> nat" where
  "event_count l = length (lg_events l)"

section \<open>Who may read a row\<close>

text \<open>\<open>SHARED_WITH_HOME\<close>: the rows of this computer and of the devices whose owner shares.\<close>

definition shared_with_home :: "ledger \<Rightarrow> string \<Rightarrow> bool" where
  "shared_with_home l dev \<longleftrightarrow>
     dev = SELF_DEVICE_ID \<or> (\<exists>d \<in> set (lg_devices l). d_id d = dev \<and> d_share_detail d)"

definition shared_event_count :: "ledger \<Rightarrow> nat" where
  "shared_event_count l = length (filter (\<lambda>r. shared_with_home l (er_device_id r)) (lg_events l))"

definition shares_detail :: "ledger \<Rightarrow> string \<Rightarrow> bool" where
  "shares_detail l dev =
     (if dev = SELF_DEVICE_ID then True
      else case find (\<lambda>d. d_id d = dev) (lg_devices l) of
             None \<Rightarrow> False | Some d \<Rightarrow> d_share_detail d)"

datatype server_filter = Country string | NoCountry | Anycast_f | Local_f

record event_filter =
  ef_device_id :: "string option"
  ef_category :: "category option"
  ef_signal :: "signal_kind option"
  ef_qname :: "string option"
  ef_verdict :: "verdict option"
  ef_since :: "int option"
  ef_until :: "int option"
  ef_server :: "server_filter option"
  ef_limit :: "nat option"

definition no_filter :: event_filter where
  "no_filter =
     \<lparr>ef_device_id = None, ef_category = None, ef_signal = None, ef_qname = None,
      ef_verdict = None, ef_since = None, ef_until = None, ef_server = None, ef_limit = None\<rparr>"

text \<open>\<open>instr(text, part) > 0\<close>.\<close>

fun contains_text :: "string \<Rightarrow> string \<Rightarrow> bool" where
  "contains_text p [] \<longleftrightarrow> p = []"
| "contains_text p (c # s) \<longleftrightarrow> strip_prefix p (c # s) \<noteq> None \<or> contains_text p s"

definition opt_holds :: "('a \<Rightarrow> bool) \<Rightarrow> 'a option \<Rightarrow> bool" where
  "opt_holds P v = (case v of None \<Rightarrow> True | Some a \<Rightarrow> P a)"

fun server_matches :: "server_filter option \<Rightarrow> event_row \<Rightarrow> bool" where
  "server_matches None r = True"
| "server_matches (Some (Country c)) r \<longleftrightarrow> er_server_kind r = 1 \<and> er_server_country r = c"
| "server_matches (Some NoCountry) r \<longleftrightarrow> er_server_kind r = 1 \<and> er_server_country r = []"
| "server_matches (Some Anycast_f) r \<longleftrightarrow> er_server_kind r = 2"
| "server_matches (Some Local_f) r \<longleftrightarrow> er_server_kind r = 3"

definition may_read :: "ledger \<Rightarrow> string option \<Rightarrow> event_filter \<Rightarrow> event_row \<Rightarrow> bool" where
  "may_read l own f r =
     (case own of
        Some device \<Rightarrow> er_device_id r = device
      | None \<Rightarrow> shared_with_home l (er_device_id r) \<and>
                opt_holds (\<lambda>d. er_device_id r = d) (ef_device_id f))"

definition row_matches :: "event_filter \<Rightarrow> event_row \<Rightarrow> bool" where
  "row_matches f r \<longleftrightarrow>
     opt_holds (\<lambda>c. er_category r = category_str c) (ef_category f) \<and>
     opt_holds (\<lambda>v. er_verdict r = verdict_str v) (ef_verdict f) \<and>
     opt_holds (\<lambda>n. er_qname r = n) (ef_qname f) \<and>
     opt_holds (\<lambda>s. contains_text (''\"'' @ signal_kind_str s @ ''\"'') (er_signals_json r))
       (ef_signal f) \<and>
     opt_holds (\<lambda>t. er_ts r \<ge> t) (ef_since f) \<and>
     opt_holds (\<lambda>t. er_ts r < t) (ef_until f) \<and>
     server_matches (ef_server f) r"

fun collect_results :: "(error + 'a) list \<Rightarrow> error + 'a list" where
  "collect_results [] = Inr []"
| "collect_results (r # rs) = and_then r (\<lambda>v. and_then (collect_results rs) (\<lambda>vs. Inr (v # vs)))"

text \<open>With a limit the rows are read newest first and turned around at the end, so it is the newest
  unreadable row of the selection that decides the error.\<close>

definition events_for ::
  "externals \<Rightarrow> ledger \<Rightarrow> string option \<Rightarrow> event_filter \<Rightarrow> error + event list" where
  "events_for x l own f =
     (let rows = filter (\<lambda>r. may_read l own f r \<and> row_matches f r) (lg_events l);
          sel = (case ef_limit f of None \<Rightarrow> rows | Some n \<Rightarrow> take n (rev rows)) in
      and_then (collect_results (map (event_from_row x (lg_bases l)) sel)) (\<lambda>evs.
      Inr (if ef_limit f = None then evs else rev evs)))"

definition events :: "externals \<Rightarrow> ledger \<Rightarrow> event_filter \<Rightarrow> error + event list" where
  "events x l f = events_for x l None f"

definition own_events :: "externals \<Rightarrow> ledger \<Rightarrow> string \<Rightarrow> event_filter \<Rightarrow> error + event list" where
  "own_events x l device f = events_for x l (Some device) f"

section \<open>Checking the chain\<close>

text \<open>\<open>Unreadable\<close> carries the error itself; the program keeps its printed form.\<close>

datatype chain_fault =
    BrokenLink hash hash
  | AlteredRow hash hash
  | Unreadable error
  | Truncated hash "nat option"
  | HeadMissing

record check_report =
  ck_checked :: nat
  ck_pruned :: nat
  ck_anchor_is_genesis :: bool
  ck_first_fault :: "(int \<times> chain_fault) option"

definition check_is_ok :: "check_report \<Rightarrow> bool" where
  "check_is_ok r \<longleftrightarrow> ck_first_fault r = None"

record walk =
  wk_expected :: hash
  wk_head_seen :: bool
  wk_last_id :: int
  wk_checked :: nat

definition check_row ::
  "(bytes \<Rightarrow> bytes) \<Rightarrow> (int \<times> string) list \<Rightarrow> hash \<Rightarrow> event_row \<Rightarrow> chain_fault option" where
  "check_row h bases expected r =
     (case raw_from_row bases r of
        Inl e \<Rightarrow> Some (Unreadable e)
      | Inr ev \<Rightarrow>
          let recomputed = chain_hash h (rw_prev_hash ev) (hash_input.truncate ev) in
          if rw_prev_hash ev \<noteq> expected then Some (BrokenLink (rw_prev_hash ev) expected)
          else if recomputed \<noteq> rw_row_hash ev then Some (AlteredRow (rw_row_hash ev) recomputed)
          else None)"

fun check_rows ::
  "(bytes \<Rightarrow> bytes) \<Rightarrow> (int \<times> string) list \<Rightarrow> hash option \<Rightarrow> walk \<Rightarrow> event_row list \<Rightarrow>
   walk \<times> (int \<times> chain_fault) option" where
  "check_rows h bases head w [] = (w, None)"
| "check_rows h bases head w (r # rs) =
     (case check_row h bases (wk_expected w) r of
        Some f \<Rightarrow> (w, Some (er_id r, f))
      | None \<Rightarrow>
          check_rows h bases head
            \<lparr>wk_expected = er_row_hash r,
             wk_head_seen = wk_head_seen w \<or> head = Some (er_row_hash r),
             wk_last_id = er_id r, wk_checked = wk_checked w + 1\<rparr> rs)"

text \<open>The end of the walk: the schema mark and the recorded head.\<close>

definition check_end :: "ledger \<Rightarrow> nat \<Rightarrow> hash option \<Rightarrow> walk \<Rightarrow> (int \<times> chain_fault) option" where
  "check_end l pruned head w =
     (if lg_version l = SCHEMA_HEAD_LOST then
        let at = (case setting l KEY_HEAD_LOST_AT of None \<Rightarrow> None | Some s \<Rightarrow> parse_i64 s) in
        Some (case at of None \<Rightarrow> wk_last_id w + 1 | Some i \<Rightarrow> i, HeadMissing)
      else if lg_version l \<ge> SCHEMA_HEAD \<and> head = None then Some (wk_last_id w + 1, HeadMissing)
      else case head of
             None \<Rightarrow> None
           | Some h \<Rightarrow>
               if wk_head_seen w then None
               else Some (wk_last_id w + 1, Truncated h
                 (case head_count l of
                    None \<Rightarrow> None
                  | Some n \<Rightarrow>
                      let m = n - (pruned + wk_checked w) mod 2 ^ 64 in
                      if m > 0 then Some m else None)))"

definition check :: "externals \<Rightarrow> ledger \<Rightarrow> error + check_report" where
  "check x l =
     and_then (anchor l) (\<lambda>a.
     and_then (chain_head l) (\<lambda>head.
     let (w, fault) = check_rows (sha x) (lg_bases l) head
           \<lparr>wk_expected = a, wk_head_seen = (head = Some a), wk_last_id = 0, wk_checked = 0\<rparr>
           (lg_events l) in
     Inr \<lparr>ck_checked = wk_checked w, ck_pruned = pruned_count l,
          ck_anchor_is_genesis = (to_hex a = or_default (setting l KEY_GENESIS)),
          ck_first_fault =
            (case fault of Some f \<Rightarrow> Some f | None \<Rightarrow> check_end l (pruned_count l) head w)\<rparr>))"

section \<open>Wiping\<close>

text \<open>SQL \<open>LIKE\<close>: \<open>%\<close> is any text, \<open>_\<close> any one character (one byte here: the keys it is
  compared with are ASCII), and ASCII letters match in either case.\<close>

fun sql_like :: "string \<Rightarrow> string \<Rightarrow> bool" where
  "sql_like [] s \<longleftrightarrow> s = []"
| "sql_like (p # ps) [] \<longleftrightarrow> p = CHR ''%'' \<and> sql_like ps []"
| "sql_like (p # ps) (c # s) \<longleftrightarrow>
     (if p = CHR ''%'' then sql_like ps (c # s) \<or> sql_like (p # ps) s
      else (p = CHR ''_'' \<or> ascii_lower p = ascii_lower c) \<and> sql_like ps s)"

text \<open>\<open>CAST(value AS INTEGER)\<close>: the longest integer at the start, after spaces; 0 when there is
  none.\<close>

definition sql_int :: "string \<Rightarrow> int" where
  "sql_int s =
     (let t = dropWhile (\<lambda>c. c \<in> set '' '') s;
          value = (\<lambda>u. case parse_digits 0 (takeWhile is_ascii_digit u) of
                        None \<Rightarrow> 0 | Some n \<Rightarrow> int n) in
      clamp (case t of
               c # u \<Rightarrow> if c = CHR ''-'' then - value u
                        else if c = CHR ''+'' then value u else value t
             | [] \<Rightarrow> 0) i64_min i64_max)"

definition update_setting :: "string \<Rightarrow> (string \<Rightarrow> string) \<Rightarrow> ledger \<Rightarrow> ledger" where
  "update_setting key f l =
     (case setting l key of None \<Rightarrow> l | Some v \<Rightarrow> put key (f v) l)"

definition delete_settings :: "(string \<Rightarrow> bool) \<Rightarrow> ledger \<Rightarrow> ledger" where
  "delete_settings P l =
     l\<lparr>lg_settings := (\<lambda>k. if P k then None else lg_settings l k)\<rparr>"

definition forget_sequences :: "string list \<Rightarrow> ledger \<Rightarrow> ledger" where
  "forget_sequences names l =
     l\<lparr>lg_seq := (\<lambda>n. if n \<in> set names then None else lg_seq l n)\<rparr>"

definition PREFIJO_AJUSTES :: string where "PREFIJO_AJUSTES = ''vigilancia_''"

definition borra_vision_en :: "ledger \<Rightarrow> ledger" where
  "borra_vision_en l =
     delete_settings (\<lambda>k. k \<in> set [''vision_hasta'', ''vision_ancla''])
       (l\<lparr>lg_vision_transferencias := [], lg_vision_resumen := []\<rparr>)"

definition borra_vigilancia :: "ledger \<Rightarrow> ledger" where
  "borra_vigilancia l =
     delete_settings (sql_like (PREFIJO_AJUSTES @ ''%''))
       (forget_sequences [''vigilancia''] (l\<lparr>lg_vigilancia := []\<rparr>))"

definition borra_contratos_en :: "ledger \<Rightarrow> ledger" where
  "borra_contratos_en l =
     delete_settings (\<lambda>k. k \<in> set [''contratos_cursor'', ''contratos_registro_head'',
                                   ''contratos_registro_count'', ''contratos_inicio''])
       (forget_sequences [''contratos_avisos'', ''contratos_registro'']
         (l\<lparr>lg_contratos := [], lg_contratos_avisos := [], lg_contratos_registro := []\<rparr>))"

definition delete_detail :: "ledger \<Rightarrow> ledger" where
  "delete_detail l =
     forget_sequences [''events'', ''rules'', ''outbound'', ''gaps'', ''changes'']
       (l\<lparr>lg_events := [], lg_devices := [], lg_rules := [], lg_outbound := [],
          lg_seen := [], lg_totals := [], lg_gaps := [], lg_changes := [],
          lg_bases := [], lg_alias := [], lg_trafico := []\<rparr>)"

text \<open>The chain's keys of \<open>wipe\<close>: the anchor and the head back at the genesis.\<close>

definition reset_chain :: "string \<Rightarrow> ledger \<Rightarrow> ledger" where
  "reset_chain genesis l =
     delete_settings (\<lambda>k. k = KEY_HEAD_LOST_AT)
       (put KEY_HEAD_COUNT ''0'' (put KEY_HEAD genesis
         (update_setting KEY_PRUNED (\<lambda>_. ''0'')
           (update_setting KEY_ANCHOR (\<lambda>_. genesis) l))))"

definition wipe :: "ledger \<Rightarrow> ledger" where
  "wipe l =
     (let genesis = or_default (setting l KEY_GENESIS);
          l1 = borra_vigilancia (reset_chain genesis (borra_vision_en (delete_detail l)));
          l2 = put ''rules_version''
                 (case setting l1 ''rules_version'' of
                    None \<Rightarrow> ''1'' | Some v \<Rightarrow> show_int (sql_int v + 1)) l1;
          l3 = delete_settings (\<lambda>k. sql_like ''alcance:%'' k \<or> sql_like ''alcance_modo:%'' k) l2
      in set_schema SCHEMA_HEAD (borra_contratos_en l3))"

section \<open>Seen domains\<close>

definition first_time :: "string \<Rightarrow> string \<Rightarrow> int \<Rightarrow> ledger \<Rightarrow> bool \<times> ledger" where
  "first_time dev qname ts l =
     (case map_of (lg_seen l) (dev, qname) of
        Some _ \<Rightarrow> (False, l)
      | None \<Rightarrow> (True, l\<lparr>lg_seen := lg_seen l @ [((dev, qname), ts)]\<rparr>))"

section \<open>Devices\<close>

definition device_by_id :: "ledger \<Rightarrow> string \<Rightarrow> device option" where
  "device_by_id l i = find (\<lambda>d. d_id d = i) (lg_devices l)"

definition coalesce :: "'a option \<Rightarrow> 'a option \<Rightarrow> 'a option" where
  "coalesce a b = (case a of None \<Rightarrow> b | Some v \<Rightarrow> Some v)"

definition update_device :: "string \<Rightarrow> (device \<Rightarrow> device) \<Rightarrow> ledger \<Rightarrow> ledger" where
  "update_device i f l =
     l\<lparr>lg_devices := map (\<lambda>d. if d_id d = i then f d else d) (lg_devices l)\<rparr>"

definition upsert_device ::
  "string \<Rightarrow> string option \<Rightarrow> string option \<Rightarrow> int \<Rightarrow> ledger \<Rightarrow> (error + device) \<times> ledger" where
  "upsert_device i mac ip now l =
     (let l' = (if device_by_id l i = None
                then l\<lparr>lg_devices := lg_devices l @
                       [\<lparr>d_id = i, d_mac = mac, d_last_ip = ip, d_name = None,
                         d_first_seen = now, d_last_seen = now, d_share_detail = False,
                         d_hours_profile = None\<rparr>]\<rparr>
                else update_device i
                       (\<lambda>d. d\<lparr>d_mac := coalesce mac (d_mac d),
                              d_last_ip := coalesce ip (d_last_ip d), d_last_seen := now\<rparr>) l) in
      (case device_by_id l' i of None \<Rightarrow> Inl (UnknownValue ''device'' i) | Some d \<Rightarrow> Inr d, l'))"

text \<open>Most recently seen first; ties in table order.\<close>

definition devices :: "ledger \<Rightarrow> device list" where
  "devices l = sort_key (\<lambda>d. - d_last_seen d) (lg_devices l)"

definition rename_device :: "string \<Rightarrow> string \<Rightarrow> ledger \<Rightarrow> ledger" where
  "rename_device i name = update_device i (\<lambda>d. d\<lparr>d_name := Some name\<rparr>)"

definition set_share_detail :: "string \<Rightarrow> bool \<Rightarrow> ledger \<Rightarrow> ledger" where
  "set_share_detail i share = update_device i (\<lambda>d. d\<lparr>d_share_detail := share\<rparr>)"

definition set_hours_profile :: "string \<Rightarrow> string \<Rightarrow> ledger \<Rightarrow> ledger" where
  "set_hours_profile i profile = update_device i (\<lambda>d. d\<lparr>d_hours_profile := Some profile\<rparr>)"

section \<open>Rules\<close>

definition rules_version :: "ledger \<Rightarrow> nat" where
  "rules_version l =
     (case setting l ''rules_version'' of
        None \<Rightarrow> 0
      | Some v \<Rightarrow> (case parse_u64 v of None \<Rightarrow> 0 | Some n \<Rightarrow> n))"

definition bump_rules_version :: "externals \<Rightarrow> ledger \<Rightarrow> ledger" where
  "bump_rules_version x l =
     set_setting x ''rules_version'' (decimal ((rules_version l + 1) mod 2 ^ 64)) l"

definition rule_of_new :: "int \<Rightarrow> new_rule \<Rightarrow> rule" where
  "rule_of_new i n =
     \<lparr>r_id = i, r_scope = nr_scope n, r_device_id = nr_device_id n,
      r_match_kind = nr_match_kind n, r_pattern = nr_pattern n, r_action = nr_action n,
      r_created_at = nr_created_at n, r_created_by = nr_created_by n,
      r_expires_at = nr_expires_at n, r_undone_at = None, r_confirmed = nr_confirmed n\<rparr>"

definition rule_row_of :: "rule \<Rightarrow> rule_row" where
  "rule_row_of r =
     \<lparr>rr_id = r_id r, rr_scope = scope_str (r_scope r), rr_device_id = r_device_id r,
      rr_match_kind = match_kind_str (r_match_kind r), rr_pattern = r_pattern r,
      rr_action = action_str (r_action r), rr_created_at = r_created_at r,
      rr_created_by = r_created_by r, rr_expires_at = r_expires_at r,
      rr_undone_at = r_undone_at r, rr_confirmed = r_confirmed r\<rparr>"

definition rule_from_row :: "rule_row \<Rightarrow> error + rule" where
  "rule_from_row w =
     and_then (scope_parse (rr_scope w)) (\<lambda>s.
     and_then (match_kind_parse (rr_match_kind w)) (\<lambda>k.
     and_then (action_parse (rr_action w)) (\<lambda>a.
     Inr \<lparr>r_id = rr_id w, r_scope = s, r_device_id = rr_device_id w, r_match_kind = k,
          r_pattern = rr_pattern w, r_action = a, r_created_at = rr_created_at w,
          r_created_by = rr_created_by w, r_expires_at = rr_expires_at w,
          r_undone_at = rr_undone_at w, r_confirmed = rr_confirmed w\<rparr>)))"

definition add_rule :: "externals \<Rightarrow> new_rule \<Rightarrow> ledger \<Rightarrow> rule \<times> ledger" where
  "add_rule x n l =
     (let i = next_rowid l ''rules'' (map rr_id (lg_rules l));
          r = rule_of_new i n in
      (r, bump_rules_version x
            (l\<lparr>lg_rules := lg_rules l @ [rule_row_of r],
               lg_seq := (lg_seq l)(''rules'' \<mapsto> i)\<rparr>)))"

definition undo_where :: "(rule_row \<Rightarrow> bool) \<Rightarrow> int \<Rightarrow> rule_row list \<Rightarrow> rule_row list" where
  "undo_where P now = map (\<lambda>w. if P w \<and> rr_undone_at w = None
                                 then w\<lparr>rr_undone_at := Some now\<rparr> else w)"

definition undone_by :: "(rule_row \<Rightarrow> bool) \<Rightarrow> rule_row list \<Rightarrow> nat" where
  "undone_by P ws = length (filter (\<lambda>w. P w \<and> rr_undone_at w = None) ws)"

definition undo_rule :: "externals \<Rightarrow> int \<Rightarrow> int \<Rightarrow> ledger \<Rightarrow> bool \<times> ledger" where
  "undo_rule x i now l =
     (undone_by (\<lambda>w. rr_id w = i) (lg_rules l) = 1,
      bump_rules_version x (l\<lparr>lg_rules := undo_where (\<lambda>w. rr_id w = i) now (lg_rules l)\<rparr>))"

definition undo_rules_since :: "externals \<Rightarrow> int \<Rightarrow> int \<Rightarrow> ledger \<Rightarrow> nat \<times> ledger" where
  "undo_rules_since x since now l =
     (undone_by (\<lambda>w. rr_created_at w \<ge> since) (lg_rules l),
      bump_rules_version x
        (l\<lparr>lg_rules := undo_where (\<lambda>w. rr_created_at w \<ge> since) now (lg_rules l)\<rparr>))"

definition rules :: "ledger \<Rightarrow> error + rule list" where
  "rules l = collect_results (map rule_from_row (rev (lg_rules l)))"

definition active_rules :: "ledger \<Rightarrow> int \<Rightarrow> error + rule list" where
  "active_rules l now = and_then (rules l) (\<lambda>rs. Inr (filter (\<lambda>r. is_active r now) rs))"

section \<open>Outbound\<close>

definition record_outbound ::
  "int \<Rightarrow> purpose \<Rightarrow> string \<Rightarrow> int \<Rightarrow> bool \<Rightarrow> ledger \<Rightarrow> outbound \<times> ledger" where
  "record_outbound ts p host n by_user l =
     (let i = next_rowid l ''outbound'' (map or_id (lg_outbound l)) in
      (\<lparr>ob_id = i, ob_ts = ts, ob_purpose = p, ob_host = host, ob_bytes = n,
        ob_initiated_by_user = by_user\<rparr>,
       l\<lparr>lg_outbound := lg_outbound l @
           [\<lparr>or_id = i, or_ts = ts, or_purpose = purpose_str p, or_host = host, or_bytes = n,
             or_initiated_by_user = by_user\<rparr>],
         lg_seq := (lg_seq l)(''outbound'' \<mapsto> i)\<rparr>))"

definition outbound_from_row :: "outbound_row \<Rightarrow> error + outbound" where
  "outbound_from_row w =
     and_then (purpose_parse (or_purpose w)) (\<lambda>p.
     Inr \<lparr>ob_id = or_id w, ob_ts = or_ts w, ob_purpose = p, ob_host = or_host w,
          ob_bytes = or_bytes w, ob_initiated_by_user = or_initiated_by_user w\<rparr>)"

definition outbound_log :: "ledger \<Rightarrow> error + outbound list" where
  "outbound_log l = collect_results (map outbound_from_row (rev (lg_outbound l)))"

section \<open>What the operations do to the parts of the state\<close>

named_theorems ledger_parts \<open>which field an operation leaves alone\<close>

lemma put_parts [ledger_parts]:
  "lg_settings (put k v l) = (lg_settings l)(k \<mapsto> v)" "lg_version (put k v l) = lg_version l"
  "lg_events (put k v l) = lg_events l" "lg_bases (put k v l) = lg_bases l"
  "lg_devices (put k v l) = lg_devices l" "lg_rules (put k v l) = lg_rules l"
  "lg_seq (put k v l) = lg_seq l" "lg_totals (put k v l) = lg_totals l"
  by (simp_all add: put_def)

lemma setting_put [ledger_parts]: "setting (put k v l) j = (if j = k then Some v else setting l j)"
  by (simp add: setting_def put_def)

lemma set_schema_parts [ledger_parts]:
  "lg_settings (set_schema v l) = lg_settings l" "lg_version (set_schema v l) = v"
  "lg_events (set_schema v l) = lg_events l" "lg_bases (set_schema v l) = lg_bases l"
  "lg_devices (set_schema v l) = lg_devices l" "lg_rules (set_schema v l) = lg_rules l"
  "lg_seq (set_schema v l) = lg_seq l" "setting (set_schema v l) = setting l"
  by (simp_all add: set_schema_def setting_def fun_eq_iff)

lemma copia_parts [ledger_parts]:
  "lg_settings (copia_en_archivo x a v l) = lg_settings l"
  "lg_version (copia_en_archivo x a v l) = lg_version l"
  "lg_events (copia_en_archivo x a v l) = lg_events l"
  "lg_bases (copia_en_archivo x a v l) = lg_bases l"
  "lg_devices (copia_en_archivo x a v l) = lg_devices l"
  "lg_rules (copia_en_archivo x a v l) = lg_rules l"
  "lg_seq (copia_en_archivo x a v l) = lg_seq l"
  by (simp_all add: copia_en_archivo_def Let_def split: option.split)

lemma set_setting_parts [ledger_parts]:
  "lg_settings (set_setting x k v l) = (lg_settings l)(k \<mapsto> v)"
  "lg_version (set_setting x k v l) = lg_version l"
  "lg_events (set_setting x k v l) = lg_events l"
  "lg_bases (set_setting x k v l) = lg_bases l"
  "lg_devices (set_setting x k v l) = lg_devices l"
  "lg_rules (set_setting x k v l) = lg_rules l"
  "lg_seq (set_setting x k v l) = lg_seq l"
  by (simp_all add: set_setting_def ledger_parts split: option.split)

lemma setting_set_setting [ledger_parts]:
  "setting (set_setting x k v l) j = (if j = k then Some v else setting l j)"
  by (simp add: setting_def ledger_parts)

lemma setting_update [ledger_parts]:
  "setting (l\<lparr>lg_events := es\<rparr>) = setting l" "setting (l\<lparr>lg_bases := bs\<rparr>) = setting l"
  "setting (l\<lparr>lg_seq := q\<rparr>) = setting l" "setting (l\<lparr>lg_rules := rs\<rparr>) = setting l"
  "setting (l\<lparr>lg_devices := ds\<rparr>) = setting l" "setting (l\<lparr>lg_totals := ts\<rparr>) = setting l"
  by (simp_all add: setting_def fun_eq_iff)

lemma mark_head_parts [ledger_parts]:
  "lg_events (mark_head h i l) = lg_events l" "lg_bases (mark_head h i l) = lg_bases l"
  "lg_seq (mark_head h i l) = lg_seq l" "lg_devices (mark_head h i l) = lg_devices l"
  by (simp_all add: mark_head_def ledger_parts)

lemma chain_keys_distinct [simp]:
  "KEY_GENESIS \<noteq> KEY_ANCHOR" "KEY_GENESIS \<noteq> KEY_PRUNED" "KEY_GENESIS \<noteq> KEY_HEAD"
  "KEY_GENESIS \<noteq> KEY_HEAD_COUNT" "KEY_GENESIS \<noteq> KEY_HEAD_LOST_AT" "KEY_ANCHOR \<noteq> KEY_PRUNED"
  "KEY_ANCHOR \<noteq> KEY_HEAD" "KEY_ANCHOR \<noteq> KEY_HEAD_COUNT" "KEY_ANCHOR \<noteq> KEY_HEAD_LOST_AT"
  "KEY_PRUNED \<noteq> KEY_HEAD" "KEY_PRUNED \<noteq> KEY_HEAD_COUNT" "KEY_PRUNED \<noteq> KEY_HEAD_LOST_AT"
  "KEY_HEAD \<noteq> KEY_HEAD_COUNT" "KEY_HEAD \<noteq> KEY_HEAD_LOST_AT"
  "KEY_HEAD_COUNT \<noteq> KEY_HEAD_LOST_AT"
  by (simp_all add: chain_keys)

lemmas chain_keys_distinct' [simp] = chain_keys_distinct [symmetric]

text \<open>Ids: a new row's is larger than every one there; rows in id order split at an id.\<close>

lemma foldr_max_ge: "i \<in> set ids \<Longrightarrow> i \<le> foldr max ids (n :: int)"
  by (induction ids) auto

lemma next_rowid_gt: "i \<in> set ids \<Longrightarrow> i < next_rowid l t ids"
  unfolding next_rowid_def
  using foldr_max_ge [of i ids "case lg_seq l t of None \<Rightarrow> 0 | Some n \<Rightarrow> n"] by linarith

lemma filter_split:
  assumes "sorted_wrt (<) (map f (as @ y # bs))"
  shows "filter (\<lambda>r. (f r :: int) \<le> f y) (as @ y # bs) = as @ [y]"
    "filter (\<lambda>r. \<not> f r \<le> f y) (as @ y # bs) = bs"
proof -
  have lo: "\<forall>r \<in> set as. f r < f y" and hi: "\<forall>r \<in> set bs. f y < f r"
    using assms by (auto simp: sorted_wrt_append)
  from lo have "filter (\<lambda>r. f r \<le> f y) as = as" "filter (\<lambda>r. \<not> f r \<le> f y) as = []"
    by (auto intro!: filter_True simp: filter_empty_conv)
  moreover from hi have "filter (\<lambda>r. f r \<le> f y) bs = []" "filter (\<lambda>r. \<not> f r \<le> f y) bs = bs"
    by (auto intro!: filter_True simp: filter_empty_conv)
  ultimately show "filter (\<lambda>r. f r \<le> f y) (as @ y # bs) = as @ [y]"
    "filter (\<lambda>r. \<not> f r \<le> f y) (as @ y # bs) = bs" by simp_all
qed

lemma filter_after:
  "\<lbrakk>sorted_wrt (<) (map f xs); k < length xs\<rbrakk> \<Longrightarrow>
   filter (\<lambda>r. \<not> (f r :: int) \<le> f (xs ! k)) xs = drop (Suc k) xs"
  using filter_split(2) [of f "take k xs" "xs ! k" "drop (Suc k) xs"] id_take_nth_drop [of k xs]
  by simp

lemma filter_upto:
  "\<lbrakk>sorted_wrt (<) (map f xs); k < length xs\<rbrakk> \<Longrightarrow>
   filter (\<lambda>r. (f r :: int) \<le> f (xs ! k)) xs = take (Suc k) xs"
  using filter_split(1) [of f "take k xs" "xs ! k" "drop (Suc k) xs"] id_take_nth_drop [of k xs]
  by (simp add: take_Suc_conv_app_nth)

text \<open>A rule is read back as it was stored, and an enumeration too.\<close>

lemma category_parse_str [simp]: "category_parse (category_str c) = Inr c"
  by (cases c) (simp_all add: category_parse_def all_categories_def)

lemma verdict_parse_str [simp]: "verdict_parse (verdict_str v) = Inr v"
  by (cases v) (simp_all add: verdict_parse_def all_verdicts_def)

lemma decided_by_parse_str [simp]: "decided_by_parse (decided_by_str d) = Inr d"
  by (cases d) (simp_all add: decided_by_parse_def all_decided_by_def)

lemma scope_parse_str [simp]: "scope_parse (scope_str v) = Inr v"
  by (cases v) (simp_all add: scope_parse_def)

lemma match_kind_parse_str [simp]: "match_kind_parse (match_kind_str v) = Inr v"
  by (cases v) (simp_all add: match_kind_parse_def)

lemma action_parse_str [simp]: "action_parse (action_str v) = Inr v"
  by (cases v) (simp_all add: action_parse_def)

lemma purpose_parse_str [simp]: "purpose_parse (purpose_str v) = Inr v"
  by (cases v) (simp_all add: purpose_parse_def)

lemma rule_from_row_of [simp]: "rule_from_row (rule_row_of r) = Inr r"
  by (simp add: rule_from_row_def rule_row_of_def)

end
