(* ===== verification/Retention.thy ===== *)
theory Retention imports Ledger "HOL-Library.List_Lexorder" "HOL-Library.Char_ord"
  "HOL-Library.Product_Lexorder" begin

text \<open>
  What is kept and for how long, and what is counted over it: \<open>retention.rs\<close>, \<open>gaps.rs\<close>,
  \<open>changes.rs\<close>, \<open>trafico.rs\<close>, \<open>alias.rs\<close> and \<open>stats.rs\<close> of \<open>crates/core/src\<close>, all on the state of
  theory \<open>Ledger\<close>. The theorems: pruning rolls every row it removes into the daily totals, so no
  query is lost from the counts; the radiography's counters add up; traffic is only ever added.
\<close>

section \<open>Retention\<close>

record retention =
  rt_detail_ms :: "int option"
  rt_totals_ms :: "int option"

definition FREE :: retention where
  "FREE = \<lparr>rt_detail_ms = Some (24 * HOUR_MS), rt_totals_ms = Some (7 * DAY_MS)\<rparr>"

definition UNLIMITED :: retention where
  "UNLIMITED = \<lparr>rt_detail_ms = None, rt_totals_ms = None\<rparr>"

record prune_report =
  pr_events :: nat
  pr_totals :: nat
  pr_trafico :: nat

definition minuto_de :: "int \<Rightarrow> int" where
  "minuto_de ts = ts - ts mod 60000"

definition total_key :: "daily_total \<Rightarrow> string \<times> string \<times> string \<times> string" where
  "total_key t = (dt_day t, dt_device_id t, dt_category t, dt_verdict t)"

definition row_key :: "externals \<Rightarrow> event_row \<Rightarrow> string \<times> string \<times> string \<times> string" where
  "row_key x r = (sql_day x (er_ts r sdiv 1000), er_device_id r, er_category r, er_verdict r)"

text \<open>One row into the totals: a new total of 1, or one more in the total with its key. The grouped
  insert of the program adds the same counts one group at a time.\<close>

fun add_total ::
  "string \<times> string \<times> string \<times> string \<Rightarrow> daily_total list \<Rightarrow> daily_total list" where
  "add_total (d, dev, c, v) [] =
     [\<lparr>dt_day = d, dt_device_id = dev, dt_category = c, dt_verdict = v, dt_count = 1\<rparr>]"
| "add_total k (t # ts) =
     (if total_key t = k then t\<lparr>dt_count := dt_count t + 1\<rparr> # ts else t # add_total k ts)"

definition add_totals :: "externals \<Rightarrow> event_row list \<Rightarrow> daily_total list \<Rightarrow> daily_total list" where
  "add_totals x rows ts = foldl (\<lambda>ts r. add_total (row_key x r) ts) ts rows"

text \<open>The last row to go (there is one with that id, so the search never fails): the largest id among those older than the limit.\<close>

definition boundary :: "int \<Rightarrow> event_row list \<Rightarrow> int option" where
  "boundary cutoff rows =
     (case map er_id (filter (\<lambda>r. er_ts r < cutoff) rows) of
        [] \<Rightarrow> None
      | i # is \<Rightarrow> Some (foldl max i is))"

definition prune_events :: "externals \<Rightarrow> int \<Rightarrow> ledger \<Rightarrow> error + nat \<times> ledger" where
  "prune_events x cutoff l =
     (case boundary cutoff (lg_events l) of
        None \<Rightarrow> Inr (0, l)
      | Some last_id \<Rightarrow>
          let gone = filter (\<lambda>r. er_id r \<le> last_id) (lg_events l);
              kept = filter (\<lambda>r. \<not> er_id r \<le> last_id) (lg_events l) in
          (case find (\<lambda>r. er_id r = last_id) (lg_events l) of
             None \<Rightarrow> Inr (0, l)
           | Some r \<Rightarrow>
               and_then (from_bytes (er_row_hash r)) (\<lambda>a.
               Inr (length gone,
                 update_setting KEY_PRUNED (\<lambda>v. show_int (sql_int v + int (length gone)))
                   (update_setting KEY_ANCHOR (\<lambda>_. to_hex a)
                     (l\<lparr>lg_totals := add_totals x gone (lg_totals l), lg_events := kept\<rparr>))))))"

definition prune_measures :: "int \<Rightarrow> ledger \<Rightarrow> nat \<times> ledger" where
  "prune_measures limit l =
     (length (filter (\<lambda>t. tr_minuto t < minuto_de limit) (lg_trafico l)),
      l\<lparr>lg_trafico := filter (\<lambda>t. \<not> tr_minuto t < minuto_de limit) (lg_trafico l),
        lg_alias := filter (\<lambda>(q, s, seen). \<not> seen < limit) (lg_alias l)\<rparr>)"

definition prune_totals :: "int \<Rightarrow> ledger \<Rightarrow> nat \<times> ledger" where
  "prune_totals limit l =
     (let old = (\<lambda>t. text_less (dt_day t) (day_utc limit)) in
      (length (filter old (lg_totals l)),
       l\<lparr>lg_totals := filter (\<lambda>t. \<not> old t) (lg_totals l)\<rparr>))"

definition prune :: "externals \<Rightarrow> retention \<Rightarrow> int \<Rightarrow> ledger \<Rightarrow> (error + prune_report) \<times> ledger" where
  "prune x policy now l =
     (case (case rt_detail_ms policy of
              None \<Rightarrow> Inr (0, l) | Some keep \<Rightarrow> prune_events x (now - keep) l) of
        Inl e \<Rightarrow> (Inl e, l)
      | Inr (ne, l1) \<Rightarrow>
          let (nt, l2) = (case rt_detail_ms policy of
                            None \<Rightarrow> (0, l1) | Some keep \<Rightarrow> prune_measures (now - keep) l1);
              (nd, l3) = (case rt_totals_ms policy of
                            None \<Rightarrow> (0, l2) | Some keep \<Rightarrow> prune_totals (now - keep) l2)
          in (Inr \<lparr>pr_events = ne, pr_totals = nd, pr_trafico = nt\<rparr>, l3))"

text \<open>Text is ordered by its bytes, as SQLite does; \<open>Char_ord\<close> and \<open>List_Lexorder\<close> give that order.\<close>

definition daily_totals :: "ledger \<Rightarrow> daily_total list" where
  "daily_totals l = sort_key total_key (lg_totals l)"

section \<open>Heartbeat and gaps\<close>

definition KEY_HEARTBEAT :: string where "KEY_HEARTBEAT = ''last_alive''"
definition GAP_THRESHOLD_MS :: int where "GAP_THRESHOLD_MS = 90000"

definition heartbeat :: "externals \<Rightarrow> int \<Rightarrow> ledger \<Rightarrow> ledger" where
  "heartbeat x now = set_setting x KEY_HEARTBEAT (show_int now)"

definition last_heartbeat :: "ledger \<Rightarrow> int option" where
  "last_heartbeat l =
     (case setting l KEY_HEARTBEAT of None \<Rightarrow> None | Some v \<Rightarrow> parse_i64 v)"

definition record_gap_since_last_heartbeat ::
  "externals \<Rightarrow> int \<Rightarrow> ledger \<Rightarrow> gap option \<times> ledger" where
  "record_gap_since_last_heartbeat x now l =
     (case last_heartbeat l of
        Some before \<Rightarrow>
          if now - before > GAP_THRESHOLD_MS then
            let g = \<lparr>gap_id = next_rowid l ''gaps'' (map gap_id (lg_gaps l)),
                     gap_from = before, gap_to = now\<rparr> in
            (Some g, heartbeat x now
              (l\<lparr>lg_gaps := lg_gaps l @ [g], lg_seq := (lg_seq l)(''gaps'' \<mapsto> gap_id g)\<rparr>))
          else (None, heartbeat x now l)
      | None \<Rightarrow> (None, heartbeat x now l))"

definition gaps :: "ledger \<Rightarrow> gap list" where
  "gaps l = rev (lg_gaps l)"

section \<open>Changes\<close>

datatype change_kind = HogarOn | HogarOff | DnsOn | DnsOff

datatype change_who =
  Panel | Terminal | Desinstalador | Instalador | Servicio | Licencia_w | SinArriba | ConArriba

fun change_kind_str :: "change_kind \<Rightarrow> string" where
  "change_kind_str HogarOn = ''hogar_on''"
| "change_kind_str HogarOff = ''hogar_off''"
| "change_kind_str DnsOn = ''dns_on''"
| "change_kind_str DnsOff = ''dns_off''"

definition change_kind_parse :: "string \<Rightarrow> change_kind option" where
  "change_kind_parse s =
     (if s = ''hogar_on'' then Some HogarOn
      else if s = ''hogar_off'' then Some HogarOff
      else if s = ''dns_on'' then Some DnsOn
      else if s = ''dns_off'' then Some DnsOff
      else None)"

fun change_who_str :: "change_who \<Rightarrow> string" where
  "change_who_str Panel = ''panel''"
| "change_who_str Terminal = ''terminal''"
| "change_who_str Desinstalador = ''desinstalador''"
| "change_who_str Instalador = ''instalador''"
| "change_who_str Servicio = ''servicio''"
| "change_who_str Licencia_w = ''licencia''"
| "change_who_str SinArriba = ''sin_arriba''"
| "change_who_str ConArriba = ''con_arriba''"

definition record_change ::
  "int \<Rightarrow> change_kind \<Rightarrow> change_who \<Rightarrow> string \<Rightarrow> ledger \<Rightarrow> ledger" where
  "record_change ts kind who detail l =
     (let i = next_rowid l ''changes'' (map ch_id (lg_changes l)) in
      l\<lparr>lg_changes := lg_changes l @
          [\<lparr>ch_id = i, ch_ts = ts, ch_kind = change_kind_str kind, ch_who = change_who_str who,
            ch_detail = detail\<rparr>],
        lg_seq := (lg_seq l)(''changes'' \<mapsto> i)\<rparr>)"

interpretation change_kind_text: canonical_codec change_kind_str change_kind_parse "\<lambda>_. True"
proof unfold_locales
  show "change_kind_parse (change_kind_str k) = Some k" for k
    by (cases k) (simp_all add: change_kind_parse_def)
  show "True \<and> change_kind_str k = s" if "change_kind_parse s = Some k" for s k
    using that by (auto simp: change_kind_parse_def split: if_splits)
qed

section \<open>Traffic\<close>

definition trafico_key ::
  "trafico \<Rightarrow> (int \<times> string \<times> string) \<times> (string \<times> string \<times> string) \<times> (nat \<times> string \<times> nat)" where
  "trafico_key t =
     ((tr_minuto t, tr_programa t, tr_firma t), (tr_destino t, tr_pais t, tr_red t),
      (tr_asn t, tr_proto t, tr_puerto t))"

definition as_i64 :: "nat \<Rightarrow> nat" where
  "as_i64 v = (if v < 2 ^ 63 then v else 2 ^ 63 - 1)"

definition trafico_row :: "trafico \<Rightarrow> trafico" where
  "trafico_row f =
     f\<lparr>tr_minuto := minuto_de (tr_minuto f), tr_enviados := as_i64 (tr_enviados f),
       tr_recibidos := as_i64 (tr_recibidos f), tr_paquetes := as_i64 (tr_paquetes f),
       tr_reenviados := as_i64 (tr_reenviados f), tr_conexiones := as_i64 (tr_conexiones f)\<rparr>"

definition trafico_grow :: "trafico \<Rightarrow> trafico \<Rightarrow> trafico" where
  "trafico_grow t f =
     t\<lparr>tr_enviados := tr_enviados t + tr_enviados f,
       tr_recibidos := tr_recibidos t + tr_recibidos f,
       tr_paquetes := tr_paquetes t + tr_paquetes f,
       tr_reenviados := tr_reenviados t + tr_reenviados f,
       tr_conexiones := tr_conexiones t + tr_conexiones f,
       tr_lugar := (if tr_lugar f \<noteq> [] then tr_lugar f else tr_lugar t)\<rparr>"

fun add_trafico :: "trafico list \<Rightarrow> trafico \<Rightarrow> trafico list" where
  "add_trafico [] f = [f]"
| "add_trafico (t # ts) f =
     (if trafico_key t = trafico_key f then trafico_grow t f # ts else t # add_trafico ts f)"

definition suma_trafico :: "trafico list \<Rightarrow> ledger \<Rightarrow> ledger" where
  "suma_trafico filas l =
     l\<lparr>lg_trafico := foldl (\<lambda>ts f. add_trafico ts (trafico_row f)) (lg_trafico l) filas\<rparr>"

definition trafico_window :: "ledger \<Rightarrow> int \<Rightarrow> int \<Rightarrow> string list \<Rightarrow> trafico list" where
  "trafico_window l since until programas =
     (let quiere = map to_ascii_lowercase programas in
      filter (\<lambda>f. quiere = [] \<or> to_ascii_lowercase (tr_programa f) \<in> set quiere)
        (sort_key tr_minuto
          (filter (\<lambda>f. minuto_de since \<le> tr_minuto f \<and> tr_minuto f < until) (lg_trafico l))))"

definition vigilando_antivirus :: "ledger \<Rightarrow> bool" where
  "vigilando_antivirus l \<longleftrightarrow> setting l ''antivirus_vigilar'' \<noteq> Some ''0''"

section \<open>Alias sites\<close>

definition MAX_ALIAS_SITES :: nat where "MAX_ALIAS_SITES = 6"
definition REESCRIBIR_CADA_MS :: int where "REESCRIBIR_CADA_MS = 6 * 60 * 60 * 1000"

definition name_char :: "char \<Rightarrow> bool" where
  "name_char c \<longleftrightarrow> is_ascii_digit c \<or> is_ascii_lowercase c \<or> is_ascii_uppercase c \<or>
     c = CHR ''.'' \<or> c = CHR ''-'' \<or> c = CHR ''_''"

text \<open>\<open>is_ip\<close> stands for \<open>str::parse::<IpAddr>\<close> succeeding.\<close>

definition limpio :: "(string \<Rightarrow> bool) \<Rightarrow> string \<Rightarrow> string option" where
  "limpio is_ip s =
     (let t = to_ascii_lowercase (trim_end_matches (\<lambda>c. c = CHR ''.'') (trim s)) in
      if t \<noteq> [] \<and> length t \<le> 253 \<and> CHR ''.'' \<in> set t \<and> \<not> is_ip t \<and> list_all name_char t
      then Some t else None)"

fun gather_sites :: "string list \<Rightarrow> string list \<Rightarrow> string list" where
  "gather_sites v [] = v"
| "gather_sites v (s # ss) =
     gather_sites (if s \<notin> set v \<and> length v < MAX_ALIAS_SITES then v @ [s] else v) ss"

fun join_spaces :: "string list \<Rightarrow> string" where
  "join_spaces [] = []"
| "join_spaces [s] = s"
| "join_spaces (s # ss) = s @ '' '' @ join_spaces ss"

fun put_alias :: "string \<Rightarrow> string \<Rightarrow> int \<Rightarrow> (string \<times> string \<times> int) list \<Rightarrow>
  (string \<times> string \<times> int) list" where
  "put_alias q texto ts [] = [(q, texto, ts)]"
| "put_alias q texto ts ((q', s, seen) # as) =
     (if q' = q then
        (if s \<noteq> texto \<or> ts - seen \<ge> REESCRIBIR_CADA_MS then (q, texto, ts) # as
         else (q', s, seen) # as)
      else (q', s, seen) # put_alias q texto ts as)"

definition note_alias_sites ::
  "(string \<Rightarrow> bool) \<Rightarrow> string \<Rightarrow> string list \<Rightarrow> int \<Rightarrow> ledger \<Rightarrow> ledger" where
  "note_alias_sites is_ip qname sites ts l =
     (case limpio is_ip qname of
        None \<Rightarrow> l
      | Some q \<Rightarrow>
          let v = gather_sites [] (List.map_filter (limpio is_ip) sites) in
          if v = [] then l
          else l\<lparr>lg_alias := put_alias q (join_spaces v) ts (lg_alias l)\<rparr>)"

definition alias_sites_of ::
  "(string \<Rightarrow> bool) \<Rightarrow> ledger \<Rightarrow> string \<Rightarrow> (string list \<times> int) option" where
  "alias_sites_of is_ip l qname =
     (case limpio is_ip qname of
        None \<Rightarrow> None
      | Some q \<Rightarrow>
          (case map_of (lg_alias l) q of
             None \<Rightarrow> None
           | Some (s, seen) \<Rightarrow> Some (split_char CHR '' '' s, seen)))"

definition alias_sites_count :: "ledger \<Rightarrow> nat" where
  "alias_sites_count l = length (lg_alias l)"

section \<open>Counters\<close>

record counters =
  ct_since :: int
  ct_until :: int
  ct_services :: nat
  ct_trackers :: nat
  ct_ads :: nat
  ct_new_destinations :: nat
  ct_expected :: nat
  ct_blocked :: nat
  ct_telemetry :: nat
  ct_unclassified :: int

text \<open>\<open>COUNT(DISTINCT CASE WHEN P THEN qname END)\<close>.\<close>

definition count_names :: "(event_row \<Rightarrow> bool) \<Rightarrow> event_row list \<Rightarrow> nat" where
  "count_names P rows = length (remdups (map er_qname (filter P rows)))"

definition has_category :: "category \<Rightarrow> event_row \<Rightarrow> bool" where
  "has_category c r \<longleftrightarrow> er_category r = category_str c"

definition counters_of :: "ledger \<Rightarrow> int \<Rightarrow> int \<Rightarrow> counters" where
  "counters_of l since until =
     (let rows = filter (\<lambda>r. since \<le> er_ts r \<and> er_ts r < until) (lg_events l) in
      \<lparr>ct_since = since, ct_until = until,
       ct_services = count_names (\<lambda>_. True) rows,
       ct_trackers = count_names (has_category Rastreador) rows,
       ct_ads = count_names (has_category Publicidad) rows,
       ct_new_destinations =
         count_names (\<lambda>r. contains_text (''\"'' @ ''destino_nuevo'' @ ''\"'') (er_signals_json r)) rows,
       ct_expected = count_names (has_category Esperado) rows,
       ct_blocked = count_names (\<lambda>r. er_verdict r = verdict_str Cortado) rows,
       ct_telemetry = count_names (has_category Telemetria) rows,
       ct_unclassified = int (count_names (\<lambda>_. True) rows) -
         int (count_names (\<lambda>r. \<not> has_category Desconocido r) rows)\<rparr>)"

record device_totals =
  dv_device_id :: string
  dv_queries :: nat
  dv_rastreador :: nat
  dv_publicidad :: nat
  dv_telemetria :: nat
  dv_esperado :: nat
  dv_desconocido :: nat
  dv_cortado :: nat

definition count_rows :: "(event_row \<Rightarrow> bool) \<Rightarrow> event_row list \<Rightarrow> nat" where
  "count_rows P rows = length (filter P rows)"

definition totals_row :: "string \<Rightarrow> event_row list \<Rightarrow> device_totals" where
  "totals_row dev rows =
     \<lparr>dv_device_id = dev, dv_queries = length rows,
      dv_rastreador = count_rows (has_category Rastreador) rows,
      dv_publicidad = count_rows (has_category Publicidad) rows,
      dv_telemetria = count_rows (has_category Telemetria) rows,
      dv_esperado = count_rows (has_category Esperado) rows,
      dv_desconocido = count_rows (has_category Desconocido) rows,
      dv_cortado = count_rows (\<lambda>r. er_verdict r = verdict_str Cortado) rows\<rparr>"

definition device_rows :: "ledger \<Rightarrow> string \<Rightarrow> int option \<Rightarrow> event_row list" where
  "device_rows l dev since =
     filter (\<lambda>r. er_device_id r = dev \<and> (case since of None \<Rightarrow> 0 | Some t \<Rightarrow> t) \<le> er_ts r)
       (lg_events l)"

text \<open>Grouped by device; most queries first, ties in the order of the device ids.\<close>

definition device_totals_list :: "ledger \<Rightarrow> int option \<Rightarrow> device_totals list" where
  "device_totals_list l since =
     (let recent = filter (\<lambda>r. (case since of None \<Rightarrow> 0 | Some t \<Rightarrow> t) \<le> er_ts r) (lg_events l);
          devs = sort (remdups (map er_device_id recent)) in
      sort_key (\<lambda>t. - int (dv_queries t))
        (map (\<lambda>dev. totals_row dev (device_rows l dev since)) devs))"

definition device_totals_of :: "ledger \<Rightarrow> string \<Rightarrow> int option \<Rightarrow> device_totals option" where
  "device_totals_of l dev since =
     (let t = totals_row dev (device_rows l dev since) in
      if dv_queries t > 0 then Some t else None)"

record table_counts =
  tc_events :: nat
  tc_devices :: nat
  tc_rules :: nat
  tc_outbound :: nat
  tc_seen_domains :: nat

definition table_counts_of :: "ledger \<Rightarrow> table_counts" where
  "table_counts_of l =
     \<lparr>tc_events = length (lg_events l), tc_devices = length (lg_devices l),
      tc_rules = length (lg_rules l), tc_outbound = length (lg_outbound l),
      tc_seen_domains = length (lg_seen l)\<rparr>"


text \<open>\<open>destinations_by_network\<close>: the forwarded queries of a window by name and network, over the
  rows the household may read.\<close>

record name_network =
  nn_qname :: string
  nn_asn :: nat
  nn_queries :: nat

definition u32_or_0 :: "int \<Rightarrow> nat" where
  "u32_or_0 n = (if 0 \<le> n \<and> n < 2 ^ 32 then nat n else 0)"

definition destinations_by_network :: "ledger \<Rightarrow> int \<Rightarrow> int \<Rightarrow> name_network list" where
  "destinations_by_network l since until =
     (let rows = filter (\<lambda>r. since \<le> er_ts r \<and> er_ts r < until \<and>
                              er_verdict r = verdict_str Observado \<and>
                              shared_with_home l (er_device_id r)) (lg_events l);
          key = (\<lambda>r. (er_qname r, er_server_asn r));
          groups = map (\<lambda>k. (- int (length (filter (\<lambda>r. key r = k) rows)), k))
                     (remdups (map key rows)) in
      map (\<lambda>(n, q, asn). \<lparr>nn_qname = q, nn_asn = u32_or_0 asn, nn_queries = nat (- n)\<rparr>)
        (sort groups))"

end
