(* ===== verification/Vigilancia.thy ===== *)
theory Vigilancia imports Ledger begin

text \<open>
  The watch's own chain, \<open>crates/core/src/vigilancia.rs\<close>: the facts the constant watch noticed, in
  a table chained like the events but with a prefix of its own, bounded by \<open>MAXIMO_FILAS\<close> rows.
  It is the second provider of the \<open>hash_chain\<close> interface. The theorems: what is written verifies,
  also when the oldest rows are dropped; the table stays bounded; a history that verifies with the
  same end and as many rows is the same history, or two of the hashed texts collide.
\<close>

definition KEY_V_HEAD :: string where "KEY_V_HEAD = ''vigilancia_head''"
definition KEY_V_ANCHOR :: string where "KEY_V_ANCHOR = ''vigilancia_anchor''"
definition MAXIMO_FILAS :: nat where "MAXIMO_FILAS = 20000"

record nuevo_suceso =
  ns_ts :: int
  ns_tipo :: string
  ns_clave :: string
  ns_importancia :: string
  ns_texto :: string
  ns_datos :: string

text \<open>\<open>datos\<close> is the JSON value's text, as \<open>serde_json::to_string\<close> gives it.\<close>

record suceso =
  sc_id :: int
  sc_ts :: int
  sc_tipo :: string
  sc_clave :: string
  sc_importancia :: string
  sc_texto :: string
  sc_datos :: string
  sc_hash :: string

definition v_fields :: "int \<Rightarrow> string \<Rightarrow> string \<Rightarrow> string \<Rightarrow> string \<Rightarrow> string \<Rightarrow> string list" where
  "v_fields ts tipo clave importancia texto datos =
     [show_int ts, tipo, clave, importancia, texto, datos]"

definition v_bytes :: "hash \<Rightarrow> string list \<Rightarrow> bytes" where
  "v_bytes prev campos =
     str_bytes ''guardiana-vigilancia/1'' @ prev @ concat (map field_bytes campos)"

definition hash_de ::
  "(bytes \<Rightarrow> bytes) \<Rightarrow> hash \<Rightarrow> int \<Rightarrow> string \<Rightarrow> string \<Rightarrow> string \<Rightarrow> string \<Rightarrow> string \<Rightarrow> hash" where
  "hash_de h prev ts tipo clave importancia texto datos =
     h (v_bytes prev (v_fields ts tipo clave importancia texto datos))"

text \<open>\<open>s.chars().take(n)\<close> on UTF-8: a character is a byte that is no continuation byte (10xxxxxx)
  and the continuation bytes after it.\<close>

definition continuation :: "char \<Rightarrow> bool" where
  "continuation c \<longleftrightarrow> 128 \<le> char_code c \<and> char_code c < 192"

fun corta :: "string \<Rightarrow> nat \<Rightarrow> string" where
  "corta [] n = []"
| "corta (c # s) n =
     (if continuation c then c # corta s n
      else if n = 0 then [] else c # corta s (n - 1))"

definition vigilancia_hash :: "ledger \<Rightarrow> string \<Rightarrow> error + hash" where
  "vigilancia_hash l clave =
     from_hex (case setting l clave of
                 Some v \<Rightarrow> v | None \<Rightarrow> or_default (setting l KEY_GENESIS))"

text \<open>Beyond the maximum the oldest rows go, and the anchor moves to the last of them.\<close>

definition v_prune :: "ledger \<Rightarrow> error + ledger" where
  "v_prune l =
     (let rows = lg_vigilancia l in
      if length rows > MAXIMO_FILAS then
        let ultimo = rows ! (length rows - MAXIMO_FILAS - 1) in
        and_then (from_bytes (su_row_hash ultimo)) (\<lambda>h.
        Inr (put KEY_V_ANCHOR (to_hex h)
          (l\<lparr>lg_vigilancia := filter (\<lambda>r. \<not> su_id r \<le> su_id ultimo) rows\<rparr>)))
      else Inr l)"

definition suceso_row_of ::
  "(bytes \<Rightarrow> bytes) \<Rightarrow> int \<Rightarrow> hash \<Rightarrow> nuevo_suceso \<Rightarrow> suceso_row" where
  "suceso_row_of h i prev n =
     (let tipo = corta (ns_tipo n) 40; clave = corta (ns_clave n) 600;
          importancia = corta (ns_importancia n) 16; texto = corta (ns_texto n) 600 in
      \<lparr>su_id = i, su_ts = ns_ts n, su_tipo = tipo, su_clave = clave,
       su_importancia = importancia, su_texto = texto, su_datos = ns_datos n,
       su_prev_hash = prev,
       su_row_hash = hash_de h prev (ns_ts n) tipo clave importancia texto (ns_datos n)\<rparr>)"

definition suceso_of :: "suceso_row \<Rightarrow> suceso" where
  "suceso_of r =
     \<lparr>sc_id = su_id r, sc_ts = su_ts r, sc_tipo = su_tipo r, sc_clave = su_clave r,
      sc_importancia = su_importancia r, sc_texto = su_texto r, sc_datos = su_datos r,
      sc_hash = to_hex (su_row_hash r)\<rparr>"

definition anota_vigilancia ::
  "externals \<Rightarrow> nuevo_suceso \<Rightarrow> ledger \<Rightarrow> (error + suceso) \<times> ledger" where
  "anota_vigilancia x n l =
     (case vigilancia_hash l KEY_V_HEAD of
        Inl e \<Rightarrow> (Inl e, l)
      | Inr prev \<Rightarrow>
          let i = next_rowid l ''vigilancia'' (map su_id (lg_vigilancia l));
              row = suceso_row_of (sha x) i prev n;
              l1 = put KEY_V_HEAD (to_hex (su_row_hash row))
                     (l\<lparr>lg_vigilancia := lg_vigilancia l @ [row],
                        lg_seq := (lg_seq l)(''vigilancia'' \<mapsto> i)\<rparr>) in
          (case v_prune l1 of
             Inl e \<Rightarrow> (Inl e, l)
           | Inr l2 \<Rightarrow> (Inr (suceso_of row), l2)))"

text \<open>The latest facts; a hash column that is not 32 bytes shows as no text.\<close>

definition vigilancia_log :: "ledger \<Rightarrow> nat \<Rightarrow> int option \<Rightarrow> suceso list" where
  "vigilancia_log l limite desde =
     map (\<lambda>r. if length (su_row_hash r) = 32 then suceso_of r
              else (suceso_of r)\<lparr>sc_hash := []\<rparr>)
       (take limite (rev (filter (\<lambda>r. (case desde of None \<Rightarrow> i64_min | Some d \<Rightarrow> d) \<le> su_ts r)
         (lg_vigilancia l))))"

definition v_row_hash :: "(bytes \<Rightarrow> bytes) \<Rightarrow> hash \<Rightarrow> suceso_row \<Rightarrow> hash" where
  "v_row_hash h prev r =
     hash_de h prev (su_ts r) (su_tipo r) (su_clave r) (su_importancia r) (su_texto r)
       (su_datos r)"

fun v_walk :: "(bytes \<Rightarrow> bytes) \<Rightarrow> hash \<Rightarrow> suceso_row list \<Rightarrow> error + (int option \<times> hash)" where
  "v_walk h prev [] = Inr (None, prev)"
| "v_walk h prev (r # rs) =
     and_then (from_bytes (su_prev_hash r)) (\<lambda>guardado_prev.
     and_then (from_bytes (su_row_hash r)) (\<lambda>guardado.
     if guardado_prev \<noteq> prev \<or> guardado \<noteq> v_row_hash h prev r then Inr (Some (su_id r), prev)
     else v_walk h guardado rs))"

definition comprueba_vigilancia :: "externals \<Rightarrow> ledger \<Rightarrow> error + int option" where
  "comprueba_vigilancia x l =
     and_then (vigilancia_hash l KEY_V_ANCHOR) (\<lambda>a.
     and_then (v_walk (sha x) a (lg_vigilancia l)) (\<lambda>(fault, prev).
     case fault of
       Some i \<Rightarrow> Inr (Some i)
     | None \<Rightarrow>
         and_then (vigilancia_hash l KEY_V_HEAD) (\<lambda>cabeza.
         Inr (if cabeza \<noteq> prev then Some 0 else None))))"

definition ajuste_vigilancia :: "ledger \<Rightarrow> string \<Rightarrow> string option" where
  "ajuste_vigilancia l nombre = setting l (PREFIJO_AJUSTES @ nombre)"

definition pon_ajuste_vigilancia :: "externals \<Rightarrow> string \<Rightarrow> string \<Rightarrow> ledger \<Rightarrow> ledger" where
  "pon_ajuste_vigilancia x nombre valor l = set_setting x (PREFIJO_AJUSTES @ nombre) valor l"

section \<open>The chain\<close>

type_synonym v_content = "int \<times> string \<times> string \<times> string \<times> string \<times> string"

definition v_content :: "suceso_row \<Rightarrow> v_content" where
  "v_content r =
     (su_ts r, su_tipo r, su_clave r, su_importancia r, su_texto r, su_datos r)"

definition v_row_fields :: "suceso_row \<Rightarrow> string list" where
  "v_row_fields r =
     v_fields (su_ts r) (su_tipo r) (su_clave r) (su_importancia r) (su_texto r) (su_datos r)"

definition v_pre :: "hash \<Rightarrow> suceso_row \<Rightarrow> bytes" where
  "v_pre prev r = v_bytes prev (v_row_fields r)"

definition v_row_ok :: "suceso_row \<Rightarrow> bool" where
  "v_row_ok r \<longleftrightarrow> list_all short_text (v_row_fields r)"

lemma v_row_hash_pre: "v_row_hash h prev r = h (v_pre prev r)"
  by (simp add: v_row_hash_def hash_de_def v_pre_def v_row_fields_def)

lemma v_row_fields_inj: "v_row_fields r = v_row_fields q \<Longrightarrow> v_content r = v_content q"
  by (simp add: v_row_fields_def v_fields_def v_content_def show_int_inj)

lemma v_pre_inj:
  assumes "length g = length h" "v_row_ok r" "v_row_ok q" "v_pre g r = v_pre h q"
  shows "g = h \<and> v_content r = v_content q"
proof -
  from assms(1,4) have eqs: "g = h"
    "concat (map field_bytes (v_row_fields r)) = concat (map field_bytes (v_row_fields q))"
    by (simp_all add: v_pre_def v_bytes_def)
  have "v_row_fields r = v_row_fields q"
    using assms(2,3) eqs(2) by (intro fields.concat_inj) (simp_all add: v_row_ok_def list_all_iff)
  with eqs(1) v_row_fields_inj show ?thesis by blast
qed

interpretation vigilancia_chain: hash_chain su_prev_hash su_row_hash v_pre h v_content
  "\<lambda>g r. length g = 32 \<and> v_row_ok r" for h
  by unfold_locales (rule v_pre_inj, simp_all)

definition v_linked :: "(bytes \<Rightarrow> bytes) \<Rightarrow> hash \<Rightarrow> suceso_row list \<Rightarrow> bool" where
  "v_linked h = linked su_prev_hash su_row_hash (\<lambda>g r. h (v_pre g r))"

definition v_hashes_ok :: "suceso_row list \<Rightarrow> bool" where
  "v_hashes_ok = list_all (\<lambda>r. length (su_prev_hash r) = 32 \<and> length (su_row_hash r) = 32)"

lemma v_walk_linked:
  "v_walk h g rs = Inr (None, t) \<longleftrightarrow>
   v_hashes_ok rs \<and> v_linked h g rs \<and> t = tip su_row_hash g rs"
proof (induction rs arbitrary: g)
  case Nil
  then show ?case by (auto simp: v_hashes_ok_def v_linked_def)
next
  case (Cons r rs)
  show ?case
    using Cons.IH [of "su_row_hash r"]
    by (auto simp: v_hashes_ok_def v_linked_def v_row_hash_pre from_bytes_def)
qed

section \<open>Writing and checking\<close>

definition sha_32 :: "externals \<Rightarrow> bool" where
  "sha_32 x \<longleftrightarrow> (\<forall>b. length (sha x b) = 32)"

text \<open>What every write keeps: the rows verify from the anchor to the head, in id order, and there
  are no more than the maximum.\<close>

definition v_ok :: "externals \<Rightarrow> ledger \<Rightarrow> bool" where
  "v_ok x l \<longleftrightarrow>
     comprueba_vigilancia x l = Inr None \<and>
     sorted_wrt (<) (map su_id (lg_vigilancia l)) \<and> length (lg_vigilancia l) \<le> MAXIMO_FILAS"

lemma comprueba_none:
  "comprueba_vigilancia x l = Inr None \<longleftrightarrow>
   (\<exists>a. vigilancia_hash l KEY_V_ANCHOR = Inr a \<and> v_hashes_ok (lg_vigilancia l) \<and>
        v_linked (sha x) a (lg_vigilancia l) \<and>
        vigilancia_hash l KEY_V_HEAD = Inr (tip su_row_hash a (lg_vigilancia l)))"
proof (cases "vigilancia_hash l KEY_V_ANCHOR")
  case (Inl e)
  then show ?thesis by (simp add: comprueba_vigilancia_def)
next
  case (Inr a)
  have "comprueba_vigilancia x l = Inr None \<longleftrightarrow>
        (\<exists>t. v_walk (sha x) a (lg_vigilancia l) = Inr (None, t) \<and>
             vigilancia_hash l KEY_V_HEAD = Inr t)"
    using Inr by (auto simp: comprueba_vigilancia_def and_then_Inr split: option.splits if_splits)
  then show ?thesis using Inr v_walk_linked [of "sha x" a "lg_vigilancia l"] by auto
qed

lemma vigilancia_hash_put:
  "vigilancia_hash (put k v l) c =
   (if c = k then from_hex v
    else if k = KEY_GENESIS \<and> setting l c = None then from_hex v else vigilancia_hash l c)"
  by (auto simp: vigilancia_hash_def setting_put split: option.split)

lemma v_keys [simp]:
  "KEY_V_HEAD \<noteq> KEY_V_ANCHOR" "KEY_V_ANCHOR \<noteq> KEY_V_HEAD"
  "KEY_V_HEAD \<noteq> KEY_GENESIS" "KEY_V_ANCHOR \<noteq> KEY_GENESIS"
  "KEY_GENESIS \<noteq> KEY_V_HEAD" "KEY_GENESIS \<noteq> KEY_V_ANCHOR"
  by (simp_all add: KEY_V_HEAD_def KEY_V_ANCHOR_def KEY_GENESIS_def)

lemma put_vigilancia [simp]: "lg_vigilancia (put k v l) = lg_vigilancia l"
  by (simp add: put_def)

lemma vigilancia_hash_rows [simp]:
  "vigilancia_hash (l\<lparr>lg_vigilancia := rs\<rparr>) k = vigilancia_hash l k"
  "vigilancia_hash (l\<lparr>lg_vigilancia := rs, lg_seq := q\<rparr>) k = vigilancia_hash l k"
  by (simp_all add: vigilancia_hash_def setting_def split: option.split)

lemma vigilancia_hash_length: "vigilancia_hash l k = Inr h \<Longrightarrow> length h = 32"
  unfolding vigilancia_hash_def by (rule from_hex_length)

text \<open>Dropping the oldest rows keeps the chain: the rows kept hang from the new anchor.\<close>

lemma v_prune_ok:
  assumes chk: "comprueba_vigilancia x l = Inr None"
    and ids: "sorted_wrt (<) (map su_id (lg_vigilancia l))"
  shows "\<exists>l'. v_prune l = Inr l' \<and> v_ok x l'"
proof (cases "length (lg_vigilancia l) > MAXIMO_FILAS")
  case False
  with assms show ?thesis by (auto simp: v_prune_def v_ok_def)
next
  case True
  let ?rows = "lg_vigilancia l"
  define k where "k = length ?rows - MAXIMO_FILAS - 1"
  have k: "k < length ?rows" using True by (simp add: k_def)
  from chk obtain a where a: "vigilancia_hash l KEY_V_ANCHOR = Inr a" "v_hashes_ok ?rows"
    "v_linked (sha x) a ?rows" "vigilancia_hash l KEY_V_HEAD = Inr (tip su_row_hash a ?rows)"
    by (auto simp: comprueba_none)
  define old new where "old = take (Suc k) ?rows" and "new = drop (Suc k) ?rows"
  have rows: "?rows = old @ new" by (simp add: old_def new_def)
  have last: "tip su_row_hash a old = su_row_hash (?rows ! k)"
    using k by (simp add: old_def tip_last take_Suc_conv_app_nth)
  have len: "length (su_row_hash (?rows ! k)) = 32"
    using a(2) k by (simp add: v_hashes_ok_def list_all_length)
  have kept: "filter (\<lambda>r. \<not> su_id r \<le> su_id (?rows ! k)) ?rows = new"
    unfolding new_def by (rule filter_after [OF ids k])
  have l': "v_prune l = Inr (put KEY_V_ANCHOR (to_hex (su_row_hash (?rows ! k)))
              (l\<lparr>lg_vigilancia := new\<rparr>))"
    using True len kept by (simp add: v_prune_def Let_def from_bytes_def k_def)
  have "v_linked (sha x) (su_row_hash (?rows ! k)) new"
    using a(3) last unfolding v_linked_def rows
    by (metis linked_append)
  moreover have "v_hashes_ok new" using a(2) unfolding rows by (simp add: v_hashes_ok_def)
  moreover have "tip su_row_hash a ?rows = tip su_row_hash (su_row_hash (?rows ! k)) new"
    using last rows by (metis tip_append)
  moreover have "sorted_wrt (<) (map su_id new)"
    using ids unfolding rows by (simp add: sorted_wrt_append)
  moreover have "length new \<le> MAXIMO_FILAS" by (simp add: new_def k_def)
  ultimately show ?thesis
    using l' a(4) len
    by (auto simp: v_ok_def comprueba_none vigilancia_hash_put)
qed

lemma v_linked_snoc:
  "v_linked h a (rs @ [r]) \<longleftrightarrow>
   v_linked h a rs \<and> su_prev_hash r = tip su_row_hash a rs \<and>
   su_row_hash r = h (v_pre (tip su_row_hash a rs) r)"
  by (simp add: v_linked_def linked_append)

lemma anota_ok:
  assumes "sha_32 x" "v_ok x l"
  shows "\<exists>s l'. anota_vigilancia x n l = (Inr s, l') \<and> v_ok x l'"
proof -
  from assms(2) obtain a where a: "vigilancia_hash l KEY_V_ANCHOR = Inr a"
    "v_hashes_ok (lg_vigilancia l)" "v_linked (sha x) a (lg_vigilancia l)"
    "vigilancia_hash l KEY_V_HEAD = Inr (tip su_row_hash a (lg_vigilancia l))"
    by (auto simp: v_ok_def comprueba_none)
  define prev where "prev = tip su_row_hash a (lg_vigilancia l)"
  define i where "i = next_rowid l ''vigilancia'' (map su_id (lg_vigilancia l))"
  define row where "row = suceso_row_of (sha x) i prev n"
  define l1 where "l1 = put KEY_V_HEAD (to_hex (su_row_hash row))
    (l\<lparr>lg_vigilancia := lg_vigilancia l @ [row], lg_seq := (lg_seq l)(''vigilancia'' \<mapsto> i)\<rparr>)"
  have len: "length prev = 32" using vigilancia_hash_length [OF a(4)] by (simp add: prev_def)
  have row: "su_prev_hash row = prev" "su_row_hash row = sha x (v_pre prev row)" "su_id row = i"
    by (simp_all add: row_def suceso_row_of_def Let_def v_pre_def v_row_fields_def hash_de_def)
  have rows: "lg_vigilancia l1 = lg_vigilancia l @ [row]" by (simp add: l1_def put_def)
  have h32: "length (su_row_hash row) = 32" using assms(1) row(2) by (simp add: sha_32_def)
  have "comprueba_vigilancia x l1 = Inr None"
    unfolding comprueba_none rows
    using a row len h32
    by (auto simp: l1_def vigilancia_hash_put v_linked_snoc v_hashes_ok_def prev_def
        intro!: exI [of _ a])
  moreover have "sorted_wrt (<) (map su_id (lg_vigilancia l1))"
    unfolding rows using assms(2) row(3)
    by (auto simp: v_ok_def sorted_wrt_append i_def intro: next_rowid_gt)
  ultimately obtain l2 where "v_prune l1 = Inr l2" "v_ok x l2"
    using v_prune_ok by blast
  then show ?thesis
    using a(4)
    by (auto simp: anota_vigilancia_def Let_def l1_def row_def i_def prev_def)
qed

interpretation vigilancia_machine:
  guarded_machine "\<lambda>l n. snd (anota_vigilancia x n l)" "\<lambda>l. sha_32 x \<and> v_ok x l" for x
proof unfold_locales
  fix l n
  assume h: "sha_32 x \<and> v_ok x l"
  then obtain s l' where "anota_vigilancia x n l = (Inr s, l')" "v_ok x l'"
    using anota_ok by blast
  with h show "sha_32 x \<and> v_ok x (snd (anota_vigilancia x n l))" by simp
qed

end
