(* ===== verification/Ledger_Chain.thy ===== *)
theory Ledger_Chain imports Retention Vigilancia begin

text \<open>
  What the ledger's operations promise about the chain of events: a healthy ledger (the invariant
  below) passes the check and stays healthy under every operation; what the check accepts holds
  every row that was written; removed rows and a removed head are reported, and no later append
  makes them go away. The events are the first provider of the \<open>hash_chain\<close> interface.
\<close>

section \<open>The chain of events\<close>

definition raw_pre :: "hash \<Rightarrow> raw_event \<Rightarrow> bytes" where
  "raw_pre g r = chain_bytes g (hash_input.truncate r)"

interpretation events_chain: hash_chain rw_prev_hash rw_row_hash raw_pre h hash_input.truncate
  "\<lambda>g r. length g = 32 \<and> fields_ok (hash_input.truncate r)" for h
proof unfold_locales
  fix g r h q
  assume "length g = 32 \<and> fields_ok (hash_input.truncate r)"
    "length h = 32 \<and> fields_ok (hash_input.truncate q)" "raw_pre g r = raw_pre h q"
  then show "g = h \<and> hash_input.truncate r = hash_input.truncate q"
    unfolding raw_pre_def by (intro chain_bytes_inj) simp_all
qed

abbreviation raws :: "ledger \<Rightarrow> raw_event list" where
  "raws l \<equiv> map (raw_of (lg_bases l)) (lg_events l)"

definition event_chain :: "externals \<Rightarrow> hash \<Rightarrow> raw_event list \<Rightarrow> bool" where
  "event_chain x = linked rw_prev_hash rw_row_hash (\<lambda>g r. sha x (raw_pre g r))"

definition hashes_ok :: "event_row list \<Rightarrow> bool" where
  "hashes_ok = list_all (\<lambda>r. length (er_prev_hash r) = 32 \<and> length (er_row_hash r) = 32)"

definition row_hashes :: "ledger \<Rightarrow> hash list" where
  "row_hashes l = map er_row_hash (lg_events l)"

lemma raw_of_simps [simp]:
  "rw_prev_hash (raw_of bs r) = er_prev_hash r" "rw_row_hash (raw_of bs r) = er_row_hash r"
  "hash_input.truncate (raw_of bs r) = row_input bs r"
  by (simp_all add: raw_of_def hash_input.defs)

lemma raw_tip: "tip rw_row_hash a (map (raw_of bs) rs) = tip er_row_hash a rs"
  by (induction rs arbitrary: a) simp_all

lemma event_chain_simps [simp]:
  "event_chain x a []"
  "event_chain x a (r # rs) \<longleftrightarrow>
   rw_prev_hash r = a \<and> rw_row_hash r = sha x (raw_pre a r) \<and> event_chain x (rw_row_hash r) rs"
  by (simp_all add: event_chain_def)

lemma event_chain_append:
  "event_chain x a (rs @ qs) \<longleftrightarrow>
   event_chain x a rs \<and> event_chain x (tip rw_row_hash a rs) qs"
  by (simp add: event_chain_def linked_append)

section \<open>What the check accepts\<close>

lemma raw_from_row_Inr:
  "raw_from_row bs r = Inr v \<longleftrightarrow>
   length (er_prev_hash r) = 32 \<and> length (er_row_hash r) = 32 \<and> v = raw_of bs r"
  by (auto simp: raw_from_row_def from_bytes_def)

lemma check_row_None:
  "check_row h bs e r = None \<longleftrightarrow>
   length (er_prev_hash r) = 32 \<and> length (er_row_hash r) = 32 \<and> er_prev_hash r = e \<and>
   er_row_hash r = h (raw_pre e (raw_of bs r))"
proof (cases "raw_from_row bs r")
  case (Inl err)
  then have "\<not> (length (er_prev_hash r) = 32 \<and> length (er_row_hash r) = 32)"
    by (auto simp: raw_from_row_def from_bytes_def)
  with Inl show ?thesis by (auto simp: check_row_def)
next
  case (Inr v)
  then have len: "length (er_prev_hash r) = 32" "length (er_row_hash r) = 32"
    and v: "raw_from_row bs r = Inr (raw_of bs r)" by (simp_all add: raw_from_row_Inr)
  show ?thesis
    unfolding check_row_def v using len by (auto simp: Let_def chain_hash_def raw_pre_def)
qed

definition walk_end :: "hash option \<Rightarrow> walk \<Rightarrow> event_row list \<Rightarrow> walk" where
  "walk_end head w rs =
     \<lparr>wk_expected = tip er_row_hash (wk_expected w) rs,
      wk_head_seen = (wk_head_seen w \<or> (\<exists>r \<in> set rs. head = Some (er_row_hash r))),
      wk_last_id = (if rs = [] then wk_last_id w else er_id (last rs)),
      wk_checked = wk_checked w + length rs\<rparr>"

lemma check_rows_None:
  "check_rows h bs head w rs = (w', None) \<longleftrightarrow>
   hashes_ok rs \<and>
   linked rw_prev_hash rw_row_hash (\<lambda>g r. h (raw_pre g r)) (wk_expected w) (map (raw_of bs) rs) \<and>
   w' = walk_end head w rs"
proof (induction rs arbitrary: w)
  case Nil
  then show ?case by (auto simp: hashes_ok_def walk_end_def)
next
  case (Cons r rs)
  show ?case
  proof (cases "check_row h bs (wk_expected w) r")
    case None
    define w1 where "w1 = \<lparr>wk_expected = er_row_hash r,
      wk_head_seen = wk_head_seen w \<or> head = Some (er_row_hash r),
      wk_last_id = er_id r, wk_checked = wk_checked w + 1\<rparr>"
    from None have p: "length (er_prev_hash r) = 32" "length (er_row_hash r) = 32"
      "er_prev_hash r = wk_expected w" "h (raw_pre (er_prev_hash r) (raw_of bs r)) = er_row_hash r"
      unfolding check_row_None by auto
    have "check_rows h bs head w (r # rs) = check_rows h bs head w1 rs"
      using None by (simp add: w1_def)
    moreover have "walk_end head w (r # rs) = walk_end head w1 rs"
      by (simp add: walk_end_def w1_def disj_assoc)
    moreover have "wk_expected w1 = er_row_hash r" by (simp add: w1_def)
    ultimately show ?thesis
      using Cons.IH [of w1] by (simp add: hashes_ok_def p(1,2,4) p(3) [symmetric] del: check_rows.simps)
  next
    case (Some f)
    then have "\<not> (length (er_prev_hash r) = 32 \<and> length (er_row_hash r) = 32 \<and>
       er_prev_hash r = wk_expected w \<and> er_row_hash r = h (raw_pre (wk_expected w) (raw_of bs r)))"
      using check_row_None [of h bs "wk_expected w" r] by auto
    with Some show ?thesis by (auto simp: hashes_ok_def)
  qed
qed

definition walk_start :: "hash \<Rightarrow> hash option \<Rightarrow> walk" where
  "walk_start a head =
     \<lparr>wk_expected = a, wk_head_seen = (head = Some a), wk_last_id = 0, wk_checked = 0\<rparr>"

definition last_id :: "ledger \<Rightarrow> int" where
  "last_id l = (if lg_events l = [] then 0 else er_id (last (lg_events l)))"

text \<open>The recorded end is where it should be.\<close>

definition head_found :: "ledger \<Rightarrow> hash \<Rightarrow> bool" where
  "head_found l a \<longleftrightarrow>
     lg_version l \<noteq> SCHEMA_HEAD_LOST \<and>
     (case chain_head l of
        Inl e \<Rightarrow> False
      | Inr None \<Rightarrow> lg_version l < SCHEMA_HEAD
      | Inr (Some h) \<Rightarrow> h \<in> insert a (set (row_hashes l)))"

text \<open>When the rows are fine, only the end is left to look at.\<close>

lemma check_when_linked:
  assumes "anchor l = Inr a" "chain_head l = Inr head" "hashes_ok (lg_events l)"
    "event_chain x a (raws l)"
  shows "check x l = Inr
    \<lparr>ck_checked = length (lg_events l), ck_pruned = pruned_count l,
     ck_anchor_is_genesis = (to_hex a = or_default (setting l KEY_GENESIS)),
     ck_first_fault = check_end l (pruned_count l) head
       (walk_end head (walk_start a head) (lg_events l))\<rparr>"
proof -
  have "check_rows (sha x) (lg_bases l) head (walk_start a head) (lg_events l) =
        (walk_end head (walk_start a head) (lg_events l), None)"
    using assms(3,4) unfolding event_chain_def by (simp add: check_rows_None walk_start_def)
  then show ?thesis
    using assms(1,2) by (simp add: check_def walk_start_def walk_end_def)
qed

lemma check_end_None:
  "check_end l p head (walk_end head (walk_start a head) (lg_events l)) = None \<longleftrightarrow>
   lg_version l \<noteq> SCHEMA_HEAD_LOST \<and>
   (case head of None \<Rightarrow> lg_version l < SCHEMA_HEAD
    | Some h \<Rightarrow> h \<in> insert a (set (row_hashes l)))"
  by (auto simp: check_end_def walk_end_def walk_start_def row_hashes_def image_iff
      split: option.splits)

lemma check_ok_iff:
  "(\<exists>r. check x l = Inr r \<and> check_is_ok r) \<longleftrightarrow>
   (\<exists>a. anchor l = Inr a \<and> hashes_ok (lg_events l) \<and> event_chain x a (raws l) \<and> head_found l a)"
proof
  assume "\<exists>a. anchor l = Inr a \<and> hashes_ok (lg_events l) \<and> event_chain x a (raws l) \<and> head_found l a"
  then obtain a where a: "anchor l = Inr a" "hashes_ok (lg_events l)" "event_chain x a (raws l)"
    "head_found l a" by blast
  then obtain head where head: "chain_head l = Inr head"
    by (auto simp: head_found_def split: sum.splits)
  show "\<exists>r. check x l = Inr r \<and> check_is_ok r"
    using check_when_linked [OF a(1) head a(2,3)] a(4) head
    by (auto simp: check_is_ok_def check_end_None head_found_def split: option.splits)
next
  assume "\<exists>r. check x l = Inr r \<and> check_is_ok r"
  then obtain r where r: "check x l = Inr r" "ck_first_fault r = None"
    by (auto simp: check_is_ok_def)
  from r(1) obtain a head where a: "anchor l = Inr a" and head: "chain_head l = Inr head"
    by (auto simp: check_def and_then_Inr)
  obtain w fault where w: "check_rows (sha x) (lg_bases l) head (walk_start a head) (lg_events l)
      = (w, fault)" by force
  with r a head have "fault = None"
    by (auto simp: check_def walk_start_def split: option.splits)
  with w have lk: "hashes_ok (lg_events l)" "event_chain x a (raws l)"
    by (simp_all add: check_rows_None event_chain_def walk_start_def)
  have "head_found l a"
    using check_when_linked [OF a head lk] r head
    by (auto simp: check_end_None head_found_def split: option.splits)
  with a lk show "\<exists>a. anchor l = Inr a \<and> hashes_ok (lg_events l) \<and> event_chain x a (raws l) \<and>
      head_found l a" by blast
qed

section \<open>A healthy ledger\<close>

definition bases_ok :: "(int \<times> string) list \<Rightarrow> event_row list \<Rightarrow> bool" where
  "bases_ok bs rs \<longleftrightarrow>
     distinct (map fst bs) \<and>
     (\<forall>r \<in> set rs. er_server_kind r \<in> {1, 2, 3} \<longrightarrow> er_server_base r \<in> fst ` set bs)"

text \<open>The invariant: the rows are chained from the anchor to the recorded head and read, they are in
  id order, the file keeps a head, and its genesis reads as a hash.\<close>

definition healthy :: "externals \<Rightarrow> ledger \<Rightarrow> bool" where
  "healthy x l \<longleftrightarrow>
     (\<exists>a. anchor l = Inr a \<and> hashes_ok (lg_events l) \<and> event_chain x a (raws l) \<and>
          chain_head l = Inr (Some (tip er_row_hash a (lg_events l)))) \<and>
     lg_version l = SCHEMA_HEAD \<and> sorted_wrt (<) (map er_id (lg_events l)) \<and>
     bases_ok (lg_bases l) (lg_events l) \<and>
     (\<exists>g. from_hex (or_default (setting l KEY_GENESIS)) = Inr g)"

lemma healthy_checks:
  assumes "healthy x l"
  shows "\<exists>r. check x l = Inr r \<and> check_is_ok r \<and> ck_checked r = length (lg_events l)"
proof -
  from assms obtain a where a: "anchor l = Inr a" "hashes_ok (lg_events l)"
    "event_chain x a (raws l)" "chain_head l = Inr (Some (tip er_row_hash a (lg_events l)))"
    and v: "lg_version l = SCHEMA_HEAD" by (auto simp: healthy_def)
  have "tip er_row_hash a (lg_events l) \<in> insert a (set (row_hashes l))"
    by (auto simp: tip_last row_hashes_def)
  then have "check_end l (pruned_count l) (Some (tip er_row_hash a (lg_events l)))
      (walk_end (Some (tip er_row_hash a (lg_events l)))
        (walk_start a (Some (tip er_row_hash a (lg_events l)))) (lg_events l)) = None"
    using v by (simp add: check_end_None schema_marks)
  then show ?thesis
    using check_when_linked [OF a(1,4,2,3)] by (simp add: check_is_ok_def)
qed

subsection \<open>Appending\<close>

lemma base_lookup_stable:
  "\<lbrakk>b \<in> fst ` set bs\<rbrakk> \<Longrightarrow> base_name (bs @ cs) b = base_name bs b"
  by (force simp: base_name_def map_add_def split: option.split dest: map_of_SomeD
      simp: map_of_eq_None_iff)

lemma add_base_props:
  assumes "distinct (map fst bs)" "add_base name bs = (b, bs')"
  shows "base_name bs' b = name" "distinct (map fst bs')" "b \<in> fst ` set bs'"
    "\<exists>cs. bs' = bs @ cs"
proof -
  have "base_name bs' b = name \<and> distinct (map fst bs') \<and> b \<in> fst ` set bs' \<and> (\<exists>cs. bs' = bs @ cs)"
  proof (cases "base_named name bs")
    case None
    define i where "i = foldr max (map fst bs) 0 + 1"
    have hn: "i \<notin> fst ` set bs"
      using foldr_max_ge [of i "map fst bs" 0] by (auto simp: i_def)
    from None assms(2) have "b = i" "bs' = bs @ [(i, name)]"
      by (auto simp: add_base_def i_def Let_def)
    moreover from hn have "map_of bs i = None" by (simp add: map_of_eq_None_iff)
    ultimately show ?thesis
      using assms(1) hn by (simp add: base_name_def map_add_def)
  next
    case (Some p)
    then have p: "p \<in> set bs" "snd p = name"
      by (auto simp: base_named_def find_Some_iff)
    moreover from Some assms(2) have "b = fst p" "bs' = bs" by (auto simp: add_base_def)
    moreover have "map_of bs (fst p) = Some (snd p)"
      using p(1) assms(1) by (intro map_of_is_SomeI) auto
    ultimately show ?thesis using assms(1) by (auto simp: base_name_def)
  qed
  then show "base_name bs' b = name" "distinct (map fst bs')" "b \<in> fst ` set bs'"
    "\<exists>cs. bs' = bs @ cs" by blast+
qed

lemma row_input_stable:
  assumes "er_server_kind r \<in> {1, 2, 3} \<longrightarrow> er_server_base r \<in> fst ` set bs"
  shows "row_input (bs @ cs) r = row_input bs r"
proof -
  have "server_from_row (bs @ cs) r = server_from_row bs r"
    using assms by (auto simp: server_from_row_def Let_def base_lookup_stable)
  then show ?thesis by (simp add: row_input_def)
qed

lemma server_columns_read:
  assumes "distinct (map fst bs)" "server_columns sv bs = ((k, c, n, b), bs')"
    "er_server_kind r = k" "er_server_country r = c" "er_server_asn r = n" "er_server_base r = b"
  shows "server_from_row bs' r = sv" "distinct (map fst bs')"
    "er_server_kind r \<in> {1, 2, 3} \<longrightarrow> er_server_base r \<in> fst ` set bs'" "\<exists>cs. bs' = bs @ cs"
proof -
  have "server_from_row bs' r = sv \<and> distinct (map fst bs') \<and>
    (er_server_kind r \<in> {1, 2, 3} \<longrightarrow> er_server_base r \<in> fst ` set bs') \<and> (\<exists>cs. bs' = bs @ cs)"
  proof (cases sv)
    case None
    with assms show ?thesis by (auto simp: server_columns_def server_from_row_def)
  next
    case (Some s)
    obtain i ds where ab: "add_base (sv_base s) bs = (i, ds)" by force
    note ap = add_base_props [OF assms(1) ab]
    from Some assms(2) ab have eqs: "k = server_kind_code (sv_kind s)" "c = sv_country s"
      "n = int (unat (sv_asn s))" "b = i" "bs' = ds" by (auto simp: server_columns_def)
    have asn: "uint (sv_asn s) < 4294967296" using uint_lt2p [of "sv_asn s"] by simp
    have "server_from_row bs' r = Some s"
      using ap(1) assms(3-6) eqs asn
      by (cases "sv_kind s") (simp_all add: server_from_row_def Let_def)
    then show ?thesis using Some ap eqs assms(6) by auto
  qed
  then show "server_from_row bs' r = sv" "distinct (map fst bs')"
    "er_server_kind r \<in> {1, 2, 3} \<longrightarrow> er_server_base r \<in> fst ` set bs'" "\<exists>cs. bs' = bs @ cs"
    by blast+
qed

lemma event_row_of_simps [simp]:
  "er_id (event_row_of x i p sv new) = i" "er_prev_hash (event_row_of x i p sv new) = p"
  "er_row_hash (event_row_of x i p sv new) = chain_hash (sha x) p (hash_input_of x new)"
  "er_device_id (event_row_of x i p sv new) = ne_device_id new"
  "er_ts (event_row_of x i p sv new) = ne_ts new"
  "er_server_kind (event_row_of x i p (k, c, n, b) new) = k"
  "er_server_country (event_row_of x i p (k, c, n, b) new) = c"
  "er_server_asn (event_row_of x i p (k, c, n, b) new) = n"
  "er_server_base (event_row_of x i p (k, c, n, b) new) = b"
  by (cases sv; simp add: event_row_of_def Let_def hash_input_of_def)+

lemma row_input_event_row_of:
  assumes "server_from_row bs (event_row_of x i p sv new) = ne_server new"
  shows "row_input bs (event_row_of x i p sv new) = hash_input_of x new"
  using assms
  by (cases sv) (simp add: row_input_def event_row_of_def Let_def hash_input_of_def server_text_def
      split: option.split)

text \<open>The state after an append, by its parts.\<close>

definition appended :: "externals \<Rightarrow> new_event \<Rightarrow> ledger \<Rightarrow> hash \<Rightarrow> event_row" where
  "appended x new l prev =
     event_row_of x (next_rowid l ''events'' (map er_id (lg_events l))) prev
       (fst (server_columns (ne_server new) (lg_bases l))) new"

lemma append_state:
  assumes "chain_point l = Inr (prev, count, head)"
  shows "append x new l =
    (Inr (event_of (appended x new l prev) new),
     mark_head head (er_id (appended x new l prev))
       (put KEY_HEAD_COUNT (decimal count)
         (put KEY_HEAD (to_hex (er_row_hash (appended x new l prev)))
           (l\<lparr>lg_bases := snd (server_columns (ne_server new) (lg_bases l)),
              lg_events := lg_events l @ [appended x new l prev],
              lg_seq := (lg_seq l)(''events'' \<mapsto> er_id (appended x new l prev))\<rparr>))))"
  by (simp add: append_def appended_def Let_def case_prod_beta assms)

lemma append_parts:
  assumes "chain_point l = Inr (prev, count, head)"
  shows "fst (append x new l) = Inr (event_of (appended x new l prev) new)"
    "lg_events (snd (append x new l)) = lg_events l @ [appended x new l prev]"
    "lg_bases (snd (append x new l)) = snd (server_columns (ne_server new) (lg_bases l))"
  unfolding append_state [OF assms] by (simp_all add: ledger_parts)

lemma setting_mark_head:
  "setting (mark_head h i l) k =
     (if k = KEY_HEAD_LOST_AT \<and> lg_version l = SCHEMA_HEAD \<and> h = None then Some (show_int i)
      else setting l k)"
  "lg_version (mark_head h i l) =
     (if lg_version l = 0 then SCHEMA_HEAD
      else if lg_version l = SCHEMA_HEAD \<and> h = None then SCHEMA_HEAD_LOST else lg_version l)"
  by (simp_all add: mark_head_def ledger_parts schema_marks)

lemma setting_appended:
  "setting (l\<lparr>lg_bases := bs, lg_events := es, lg_seq := q\<rparr>) k = setting l k"
  "lg_version (l\<lparr>lg_bases := bs, lg_events := es, lg_seq := q\<rparr>) = lg_version l"
  by (simp_all add: setting_def)

lemma append_settings:
  assumes "chain_point l = Inr (prev, count, head)"
  shows "setting (snd (append x new l)) k =
    (if k = KEY_HEAD_LOST_AT \<and> lg_version l = SCHEMA_HEAD \<and> head = None
     then Some (show_int (er_id (appended x new l prev)))
     else if k = KEY_HEAD_COUNT then Some (decimal count)
     else if k = KEY_HEAD then Some (to_hex (er_row_hash (appended x new l prev)))
     else setting l k)"
    "lg_version (snd (append x new l)) =
    (if lg_version l = 0 then SCHEMA_HEAD
     else if lg_version l = SCHEMA_HEAD \<and> head = None then SCHEMA_HEAD_LOST else lg_version l)"
  unfolding append_state [OF assms] snd_conv setting_mark_head setting_put setting_appended put_parts
  by (rule refl)+

lemma append_keeps_bases:
  assumes "bases_ok (lg_bases l) (lg_events l)"
  shows "bases_ok (snd (server_columns (ne_server new) (lg_bases l)))
      (lg_events l @ [appended x new l prev]) \<and>
    map (raw_of (snd (server_columns (ne_server new) (lg_bases l)))) (lg_events l) = raws l \<and>
    row_input (snd (server_columns (ne_server new) (lg_bases l))) (appended x new l prev)
       = hash_input_of x new"
proof -
  obtain sv bs' where sv: "server_columns (ne_server new) (lg_bases l) = (sv, bs')"
    by (rule prod.exhaust)
  obtain k c n b where "sv = (k, c, n, b)" by (rule prod_cases4)
  with sv have sc: "server_columns (ne_server new) (lg_bases l) = ((k, c, n, b), bs')" by simp
  define row where "row = appended x new l prev"
  have row: "row = event_row_of x (next_rowid l ''events'' (map er_id (lg_events l))) prev
    (k, c, n, b) new" by (simp add: row_def appended_def sc)
  have "distinct (map fst (lg_bases l))" using assms by (simp add: bases_ok_def)
  note sr = server_columns_read [OF this sc, of row]
  have cols: "er_server_kind row = k" "er_server_country row = c" "er_server_asn row = n"
    "er_server_base row = b" by (simp_all add: row)
  note sr = sr [OF cols]
  obtain cs where cs: "bs' = lg_bases l @ cs" using sr(4) by blast
  have old: "er_server_kind r \<in> {1, 2, 3} \<longrightarrow> er_server_base r \<in> fst ` set (lg_bases l)"
    if "r \<in> set (lg_events l)" for r using assms that unfolding bases_ok_def by blast
  have "fst ` set (lg_bases l) \<subseteq> fst ` set bs'" unfolding cs by auto
  with old sr(2,3) have "bases_ok bs' (lg_events l @ [row])"
    unfolding bases_ok_def set_append list.set by blast
  then have "bases_ok (snd (server_columns (ne_server new) (lg_bases l)))
      (lg_events l @ [appended x new l prev])"
    unfolding sc snd_conv row_def .
  moreover have "map (raw_of (snd (server_columns (ne_server new) (lg_bases l)))) (lg_events l) = raws l"
    unfolding sc snd_conv cs by (rule map_cong [OF refl]) (simp only: raw_of_def row_input_stable [OF old])
  moreover have "row_input (snd (server_columns (ne_server new) (lg_bases l)))
      (appended x new l prev) = hash_input_of x new"
    unfolding sc snd_conv row_def [symmetric]
    using sr(1) unfolding row by (rule row_input_event_row_of)
  ultimately show ?thesis by blast
qed

lemma chain_point_healthy:
  assumes "healthy x l"
  obtains a n where "anchor l = Inr a"
    "chain_point l = Inr (tip er_row_hash a (lg_events l), n,
       Some (tip er_row_hash a (lg_events l)))"
proof -
  from assms obtain a where a: "anchor l = Inr a" "hashes_ok (lg_events l)"
    "chain_head l = Inr (Some (tip er_row_hash a (lg_events l)))" by (auto simp: healthy_def)
  have "(if lg_events l = [] then Inr a else from_bytes (er_row_hash (last (lg_events l)))) =
        Inr (tip er_row_hash a (lg_events l))"
    using a(2) by (auto simp: tip_last hashes_ok_def list_all_iff from_bytes_def)
  then have cp: "chain_point l = Inr (let t = tip er_row_hash a (lg_events l);
      adopted = (t, (pruned_count l + length (lg_events l) + 1) mod 2 ^ 64, Some t) in
      case head_count l of None \<Rightarrow> adopted | Some n \<Rightarrow> (t, (n + 1) mod 2 ^ 64, Some t))"
    using a(1,3) by (simp add: chain_point_def Let_def split: option.split)
  show ?thesis
  proof (cases "head_count l")
    case None
    with cp that [OF a(1)] show ?thesis by (simp add: Let_def)
  next
    case (Some n)
    with cp that [OF a(1)] show ?thesis by (simp add: Let_def)
  qed
qed

lemma tip_length: "hashes_ok rs \<Longrightarrow> length a = 32 \<Longrightarrow> length (tip er_row_hash a rs) = 32"
  by (simp add: tip_last hashes_ok_def list_all_iff)

lemma anchor_length: "anchor l = Inr a \<Longrightarrow> length a = 32"
  unfolding anchor_def by (rule from_hex_length)

lemma append_healthy:
  assumes "sha_32 x" "healthy x l"
  shows "healthy x (snd (append x new l))"
proof -
  obtain a n where a: "anchor l = Inr a" and cp: "chain_point l =
    Inr (tip er_row_hash a (lg_events l), n, Some (tip er_row_hash a (lg_events l)))"
    using chain_point_healthy [OF assms(2)] .
  define t where "t = tip er_row_hash a (lg_events l)"
  define row where "row = appended x new l t"
  define l' where "l' = snd (append x new l)"
  note cp = cp [folded t_def]
  from assms(2) a have h: "hashes_ok (lg_events l)" "event_chain x a (raws l)"
    "lg_version l = SCHEMA_HEAD" "sorted_wrt (<) (map er_id (lg_events l))"
    "bases_ok (lg_bases l) (lg_events l)"
    "\<exists>g. from_hex (or_default (setting l KEY_GENESIS)) = Inr g" by (auto simp: healthy_def)
  have t32: "length t = 32" unfolding t_def by (rule tip_length [OF h(1) anchor_length [OF a]])
  note parts = append_parts [OF cp, of x new, folded l'_def row_def]
  note sets = append_settings [OF cp, of x new, folded l'_def row_def]
  have bases: "bases_ok (lg_bases l') (lg_events l @ [row])"
    "map (raw_of (lg_bases l')) (lg_events l) = raws l"
    "row_input (lg_bases l') row = hash_input_of x new"
    using append_keeps_bases [OF h(5), of new x t] by (simp_all add: row_def parts(3))
  have row: "er_prev_hash row = t" "er_row_hash row = sha x (chain_bytes t (hash_input_of x new))"
    by (simp_all add: row_def appended_def chain_hash_def)
  have r32: "length (er_row_hash row) = 32" using assms(1) row(2) by (simp add: sha_32_def)
  have raws': "raws l' = raws l @ [raw_of (lg_bases l') row]"
    using parts(2) bases(2) by simp
  have "event_chain x a (raws l')"
    unfolding raws' event_chain_append
    using h(2) row bases(3) by (simp add: raw_tip t_def raw_pre_def)
  moreover have "hashes_ok (lg_events l')"
    using h(1) row t32 r32 parts(2) by (simp add: hashes_ok_def)
  moreover have "anchor l' = Inr a" using a by (simp add: anchor_def sets(1))
  moreover have "chain_head l' = Inr (Some (tip er_row_hash a (lg_events l')))"
    using r32 parts(2) by (simp add: chain_head_def transpose_e_def sets(1))
  moreover have "sorted_wrt (<) (map er_id (lg_events l'))"
  proof -
    have "er_id row = next_rowid l ''events'' (map er_id (lg_events l))"
      by (simp add: row_def appended_def)
    then show ?thesis
      using h(4) parts(2) by (auto simp: sorted_wrt_append intro: next_rowid_gt)
  qed
  moreover have "lg_version l' = SCHEMA_HEAD" using h(3) sets(2) by (simp add: schema_marks)
  moreover have "\<exists>g. from_hex (or_default (setting l' KEY_GENESIS)) = Inr g"
    using h(6) by (simp add: sets(1))
  ultimately show ?thesis
    unfolding healthy_def l'_def [symmetric] using bases(1) parts(2) by auto
qed

subsection \<open>Pruning\<close>

lemma foldl_max_mem: "foldl max i is \<in> set (i # is) \<and> (\<forall>j \<in> set (i # is). (j :: int) \<le> foldl max i is)"
proof (induction "is" arbitrary: i)
  case Nil
  then show ?case by simp
next
  case (Cons j "is")
  have "max i j \<in> {i, j}" by (simp add: max_def)
  with Cons.IH [of "max i j"] show ?case by (auto simp: le_max_iff_disj)
qed

lemma boundary_Some:
  assumes "boundary c rows = Some m"
  shows "(\<exists>k < length rows. er_id (rows ! k) = m \<and> er_ts (rows ! k) < c) \<and>
    (\<forall>r \<in> set rows. er_ts r < c \<longrightarrow> er_id r \<le> m)"
proof -
  let ?ids = "map er_id (filter (\<lambda>r. er_ts r < c) rows)"
  from assms obtain i js where ids: "?ids = i # js" "m = foldl max i js"
    by (auto simp: boundary_def split: list.splits)
  have "m \<in> set ?ids" "\<forall>j \<in> set ?ids. j \<le> m"
    using foldl_max_mem [of i js] unfolding ids by auto
  then show ?thesis by (auto simp: in_set_conv_nth)
qed

lemma boundary_None: "boundary c rows = None \<longleftrightarrow> (\<forall>r \<in> set rows. \<not> er_ts r < c)"
proof -
  have "boundary c rows = None \<longleftrightarrow> filter (\<lambda>r. er_ts r < c) rows = []"
    by (cases "filter (\<lambda>r. er_ts r < c) rows") (simp_all add: boundary_def)
  then show ?thesis by (simp add: filter_empty_conv)
qed

lemma find_id:
  assumes "sorted_wrt (<) (map er_id rows)" "k < length rows"
  shows "find (\<lambda>r. er_id r = er_id (rows ! k)) rows = Some (rows ! k)"
proof -
  have "distinct (map er_id rows)" using assms(1) by (simp add: strict_sorted_iff)
  then have "\<forall>j < k. er_id (rows ! j) \<noteq> er_id (rows ! k)"
    using assms(2) by (auto simp: distinct_conv_nth)
  then show ?thesis unfolding find_Some_iff using assms(2) by blast
qed

lemma anchor_set: "anchor l = Inr a \<Longrightarrow> \<exists>s. setting l KEY_ANCHOR = Some s"
  by (cases "setting l KEY_ANCHOR") (auto simp: anchor_def from_hex_def)

text \<open>One pruning of the detail: the first \<open>k\<close> rows go, every row older than the limit among them,
  they are added to the totals, and the anchor is the hash of the last of them.\<close>

lemma prune_events_drop:
  assumes "sorted_wrt (<) (map er_id (lg_events l))" "hashes_ok (lg_events l)"
  shows "\<exists>k l'. prune_events x c l = Inr (k, l') \<and> k \<le> length (lg_events l) \<and>
    lg_events l' = drop k (lg_events l) \<and> (\<forall>r \<in> set (lg_events l'). \<not> er_ts r < c) \<and>
    lg_totals l' = add_totals x (take k (lg_events l)) (lg_totals l) \<and>
    lg_version l' = lg_version l \<and> lg_bases l' = lg_bases l \<and>
    (\<forall>key. key \<notin> {KEY_ANCHOR, KEY_PRUNED} \<longrightarrow> setting l' key = setting l key) \<and>
    (\<forall>a. anchor l = Inr a \<longrightarrow> anchor l' = Inr (tip er_row_hash a (take k (lg_events l))))"
proof (cases "boundary c (lg_events l)")
  case None
  have "\<forall>r \<in> set (lg_events l). \<not> er_ts r < c" using None unfolding boundary_None .
  then show ?thesis
    by (intro exI [of _ 0] exI [of _ l]) (simp add: prune_events_def None add_totals_def)
next
  case (Some m)
  let ?rows = "lg_events l"
  obtain k where k: "k < length ?rows" "er_id (?rows ! k) = m"
    and old: "\<forall>r \<in> set ?rows. er_ts r < c \<longrightarrow> er_id r \<le> m"
    using boundary_Some [OF Some] by blast
  define h where "h = er_row_hash (?rows ! k)"
  have h32: "length h = 32" using assms(2) k(1) by (simp add: h_def hashes_ok_def list_all_length)
  have split: "filter (\<lambda>r. er_id r \<le> m) ?rows = take (Suc k) ?rows"
    "filter (\<lambda>r. \<not> er_id r \<le> m) ?rows = drop (Suc k) ?rows"
    using filter_upto [OF assms(1) k(1)] filter_after [OF assms(1) k(1)] k(2) by simp_all
  have fd: "find (\<lambda>r. er_id r = m) ?rows = Some (?rows ! k)"
    using find_id [OF assms(1) k(1)] k(2) by simp
  have len: "length (take (Suc k) ?rows) = Suc k" using k(1) by simp
  define l0 where "l0 = l\<lparr>lg_totals := add_totals x (take (Suc k) ?rows) (lg_totals l),
    lg_events := drop (Suc k) ?rows\<rparr>"
  define l' where "l' = update_setting KEY_PRUNED (\<lambda>v. show_int (sql_int v + int (Suc k)))
    (update_setting KEY_ANCHOR (\<lambda>_. to_hex h) l0)"
  have pe: "prune_events x c l = Inr (Suc k, l')"
    unfolding prune_events_def Some option.case Let_def split fd len l'_def l0_def
    using h32 by (simp add: from_bytes_def h_def)
  have l0: "setting l0 = setting l" by (simp add: l0_def setting_def fun_eq_iff)
  have parts: "lg_events l' = drop (Suc k) ?rows" "lg_version l' = lg_version l"
    "lg_totals l' = add_totals x (take (Suc k) ?rows) (lg_totals l)" "lg_bases l' = lg_bases l"
    by (simp_all add: l'_def l0_def update_setting_def put_parts split: option.split)
  have sets: "setting l' key = setting l key" if "key \<notin> {KEY_ANCHOR, KEY_PRUNED}" for key
    using that l0 by (simp add: l'_def update_setting_def setting_put split: option.split)
  have anc: "anchor l' = Inr (tip er_row_hash a (take (Suc k) ?rows))" if "anchor l = Inr a" for a
  proof -
    have "tip er_row_hash a (take (Suc k) ?rows) = h"
      using k(1) by (simp add: h_def tip_last take_Suc_conv_app_nth)
    then show ?thesis
      using anchor_set [OF that] l0 h32
      by (auto simp: l'_def anchor_def update_setting_def setting_put split: option.split)
  qed
  have "\<forall>r \<in> set (drop (Suc k) ?rows). \<not> er_ts r < c"
    unfolding split(2) [symmetric] using old by auto
  with pe parts sets anc k(1) show ?thesis
    by (intro exI [of _ "Suc k"] exI [of _ l']) auto
qed

lemma healthy_drop:
  assumes "healthy x l" "k \<le> length (lg_events l)" "lg_events l' = drop k (lg_events l)"
    "lg_version l' = lg_version l" "lg_bases l' = lg_bases l"
    "\<forall>key. key \<notin> {KEY_ANCHOR, KEY_PRUNED} \<longrightarrow> setting l' key = setting l key"
    "\<forall>a. anchor l = Inr a \<longrightarrow> anchor l' = Inr (tip er_row_hash a (take k (lg_events l)))"
  shows "healthy x l'"
proof -
  define old new where "old = take k (lg_events l)" and "new = drop k (lg_events l)"
  have rows: "lg_events l = old @ new" by (simp add: old_def new_def)
  from assms(1) obtain a where a: "anchor l = Inr a" "hashes_ok (lg_events l)"
    "event_chain x a (raws l)" "chain_head l = Inr (Some (tip er_row_hash a (lg_events l)))"
    and rest: "lg_version l = SCHEMA_HEAD" "sorted_wrt (<) (map er_id (lg_events l))"
    "bases_ok (lg_bases l) (lg_events l)"
    "\<exists>g. from_hex (or_default (setting l KEY_GENESIS)) = Inr g" by (auto simp: healthy_def)
  define t where "t = tip er_row_hash a old"
  have ev: "lg_events l' = new" using assms(3) by (simp add: new_def)
  have "anchor l' = Inr t" using assms(7) a(1) by (simp add: t_def old_def)
  moreover have "hashes_ok new" using a(2) unfolding rows by (simp add: hashes_ok_def)
  moreover have "event_chain x t (map (raw_of (lg_bases l')) new)"
    using a(3) unfolding rows map_append event_chain_append assms(5) by (simp add: raw_tip t_def)
  moreover have "chain_head l' = Inr (Some (tip er_row_hash t new))"
    using a(4) assms(6) unfolding rows tip_append by (simp add: chain_head_def t_def)
  moreover have "sorted_wrt (<) (map er_id new)"
    using rest(2) unfolding rows by (simp add: sorted_wrt_append)
  moreover have "bases_ok (lg_bases l') new"
    using rest(3) unfolding rows assms(5) by (simp add: bases_ok_def)
  ultimately show ?thesis
    unfolding healthy_def ev using rest(1,4) assms(4,6) by auto
qed

lemma prune_healthy:
  assumes "healthy x l"
  shows "healthy x (snd (prune x p now l))"
proof -
  have h: "sorted_wrt (<) (map er_id (lg_events l))" "hashes_ok (lg_events l)"
    using assms by (auto simp: healthy_def)
  have tail: "healthy x (l\<lparr>lg_trafico := t, lg_alias := al\<rparr>) = healthy x l"
    "healthy x (l\<lparr>lg_totals := ts\<rparr>) = healthy x l" for l t al ts
    by (simp_all add: healthy_def anchor_def chain_head_def setting_def)
  have measures: "healthy x (snd (prune_measures c l)) = healthy x l"
    "healthy x (snd (prune_totals c l)) = healthy x l" for c l
    by (simp_all add: prune_measures_def prune_totals_def tail Let_def)
  have ev: "\<exists>k l'. prune_events x c l = Inr (k, l') \<and> healthy x l'" for c
  proof -
    obtain k l' where kl: "prune_events x c l = Inr (k, l')" "k \<le> length (lg_events l)"
      "lg_events l' = drop k (lg_events l)" "lg_version l' = lg_version l"
      "lg_bases l' = lg_bases l"
      "\<forall>key. key \<notin> {KEY_ANCHOR, KEY_PRUNED} \<longrightarrow> setting l' key = setting l key"
      "\<forall>a. anchor l = Inr a \<longrightarrow> anchor l' = Inr (tip er_row_hash a (take k (lg_events l)))"
      using prune_events_drop [OF h, of x c] by blast
    from healthy_drop [OF assms kl(2-7)] kl(1) show ?thesis by blast
  qed
  obtain ne l1 where l1: "(case rt_detail_ms p of None \<Rightarrow> Inr (0, l)
      | Some keep \<Rightarrow> prune_events x (now - keep) l) = Inr (ne, l1)" "healthy x l1"
    using assms ev by (cases "rt_detail_ms p") fastforce+
  define l2 where "l2 = snd (case rt_detail_ms p of None \<Rightarrow> (0, l1)
      | Some keep \<Rightarrow> prune_measures (now - keep) l1)"
  have "healthy x l2" using l1(2) by (simp add: l2_def measures split: option.split)
  then have "healthy x (snd (case rt_totals_ms p of None \<Rightarrow> (0, l2)
      | Some keep \<Rightarrow> prune_totals (now - keep) l2))" by (simp add: measures split: option.split)
  moreover have "snd (prune x p now l) = snd (case rt_totals_ms p of None \<Rightarrow> (0, l2)
      | Some keep \<Rightarrow> prune_totals (now - keep) l2)"
    unfolding prune_def l1(1)
    by (cases "rt_detail_ms p"; cases "rt_totals_ms p")
      (simp_all add: Let_def case_prod_beta l2_def)
  ultimately show ?thesis by simp
qed

subsection \<open>Wiping\<close>

named_theorems wipe_parts \<open>the steps of a wipe, by what they leave\<close>

lemma setting_delete [wipe_parts]:
  "setting (delete_settings P l) k = (if P k then None else setting l k)"
  by (simp add: delete_settings_def setting_def)

lemma setting_update_setting [wipe_parts]:
  "setting (update_setting j f l) k =
     (if k = j then (case setting l j of None \<Rightarrow> None | Some v \<Rightarrow> Some (f v)) else setting l k)"
  by (auto simp: update_setting_def setting_put split: option.split)

lemma setting_forget [wipe_parts]: "setting (forget_sequences ns l) = setting l"
  by (simp add: forget_sequences_def setting_def fun_eq_iff)

lemma setting_steps [wipe_parts]:
  "setting (delete_detail l) = setting l"
  "setting (l\<lparr>lg_vision_transferencias := a, lg_vision_resumen := b\<rparr>) = setting l"
  "setting (l\<lparr>lg_vigilancia := c\<rparr>) = setting l"
  "setting (l\<lparr>lg_contratos := d, lg_contratos_avisos := e, lg_contratos_registro := f\<rparr>) = setting l"
  by (simp_all add: delete_detail_def forget_sequences_def setting_def fun_eq_iff)

lemma chain_keys_not_wiped [simp]:
  "k \<in> {KEY_GENESIS, KEY_ANCHOR, KEY_PRUNED, KEY_HEAD, KEY_HEAD_COUNT} \<Longrightarrow>
   \<not> sql_like (PREFIJO_AJUSTES @ ''%'') k \<and> \<not> sql_like ''alcance:%'' k \<and>
   \<not> sql_like ''alcance_modo:%'' k \<and> k \<noteq> ''rules_version'' \<and>
   k \<notin> set [''vision_hasta'', ''vision_ancla''] \<and>
   k \<notin> set [''contratos_cursor'', ''contratos_registro_head'', ''contratos_registro_count'',
             ''contratos_inicio'']"
  by (auto simp: chain_keys PREFIJO_AJUSTES_def ascii_lower_def is_ascii_uppercase_def)

text \<open>What \<open>wipe\<close> leaves in the chain's keys.\<close>

lemma wipe_chain_keys:
  assumes "k \<in> {KEY_GENESIS, KEY_ANCHOR, KEY_PRUNED, KEY_HEAD, KEY_HEAD_COUNT}"
  shows "setting (wipe l) k = setting (reset_chain (or_default (setting l KEY_GENESIS)) l) k"
proof -
  note nw = chain_keys_not_wiped [OF assms]
  have "setting (wipe l) k =
    setting (reset_chain (or_default (setting l KEY_GENESIS)) (borra_vision_en (delete_detail l))) k"
    unfolding wipe_def Let_def borra_contratos_en_def borra_vigilancia_def set_schema_parts
    using nw by (simp only: wipe_parts setting_put if_False simp_thms)
  also have "\<dots> = setting (reset_chain (or_default (setting l KEY_GENESIS)) l) k"
    using nw assms
    by (auto simp: reset_chain_def borra_vision_en_def wipe_parts setting_put)
  finally show ?thesis .
qed

text \<open>The tables, all but the settings; the steps on settings and marks leave them alone.\<close>

definition tables where
  "tables l =
     (lg_events l, lg_devices l, lg_rules l, lg_outbound l, lg_seen l, lg_totals l, lg_gaps l,
      lg_changes l, lg_bases l, lg_alias l, lg_trafico l, lg_vigilancia l,
      lg_vision_transferencias l, lg_vision_resumen l, lg_contratos l, lg_contratos_avisos l,
      lg_contratos_registro l)"

lemma tables_steps [wipe_parts]:
  "tables (put k v l) = tables l" "tables (set_schema n l) = tables l"
  "tables (delete_settings P l) = tables l" "tables (forget_sequences ns l) = tables l"
  by (simp_all add: tables_def put_def set_schema_def delete_settings_def forget_sequences_def)

lemma tables_update_setting [wipe_parts]: "tables (update_setting k f l) = tables l"
  by (simp add: update_setting_def wipe_parts split: option.split)

lemma wipe_tables: "tables (wipe l) = ([], [], [], [], [], [], [], [], [], [], [], [], [], [], [], [], [])"
  unfolding wipe_def Let_def borra_contratos_en_def borra_vigilancia_def reset_chain_def
    borra_vision_en_def delete_detail_def wipe_parts
  by (simp add: tables_def put_def delete_settings_def forget_sequences_def update_setting_def
      split: option.split)

lemma wipe_version: "lg_version (wipe l) = SCHEMA_HEAD"
  by (simp add: wipe_def Let_def borra_contratos_en_def delete_settings_def forget_sequences_def
      set_schema_def)

lemma wipe_healthy:
  assumes "from_hex (or_default (setting l KEY_GENESIS)) = Inr g" "setting l KEY_ANCHOR = Some a"
  shows "healthy x (wipe l)"
proof -
  from assms(1) obtain gs where gs: "setting l KEY_GENESIS = Some gs" "from_hex gs = Inr g"
    by (cases "setting l KEY_GENESIS") (auto simp: from_hex_def)
  have "setting (wipe l) KEY_ANCHOR = Some gs" "setting (wipe l) KEY_HEAD = Some gs"
    "setting (wipe l) KEY_GENESIS = Some gs"
    using gs assms(2)
    by (simp_all add: wipe_chain_keys reset_chain_def wipe_parts setting_put)
  moreover have ev: "lg_events (wipe l) = []" "lg_bases (wipe l) = []"
    using wipe_tables [of l] by (simp_all add: tables_def)
  ultimately show ?thesis
    using gs(2)
    by (simp add: healthy_def anchor_def chain_head_def transpose_e_def wipe_version ev hashes_ok_def
        bases_ok_def)
qed

subsection \<open>The rest of the operations\<close>

text \<open>An operation that leaves the chain's part of the state alone leaves a healthy ledger.\<close>

definition same_chain :: "ledger \<Rightarrow> ledger \<Rightarrow> bool" where
  "same_chain l l' \<longleftrightarrow>
     lg_events l' = lg_events l \<and> lg_bases l' = lg_bases l \<and> lg_version l' = lg_version l \<and>
     setting l' KEY_GENESIS = setting l KEY_GENESIS \<and>
     setting l' KEY_ANCHOR = setting l KEY_ANCHOR \<and> setting l' KEY_HEAD = setting l KEY_HEAD"

lemma healthy_frame: "same_chain l l' \<Longrightarrow> healthy x l' \<longleftrightarrow> healthy x l"
  by (simp add: same_chain_def healthy_def anchor_def chain_head_def)

named_theorems chain_frame \<open>operations that leave the chain of events alone\<close>

lemma same_chain_refl [chain_frame]: "same_chain l l"
  by (simp add: same_chain_def)

lemma same_chain_trans: "same_chain l m \<Longrightarrow> same_chain m n \<Longrightarrow> same_chain l n"
  by (simp add: same_chain_def)

definition chain_key :: "string \<Rightarrow> bool" where
  "chain_key k \<longleftrightarrow>
     k \<in> {KEY_GENESIS, KEY_ANCHOR, KEY_PRUNED, KEY_HEAD, KEY_HEAD_COUNT, KEY_HEAD_LOST_AT}"

lemma set_setting_frame [chain_frame]: "\<not> chain_key k \<Longrightarrow> same_chain l (set_setting x k v l)"
  by (auto simp: same_chain_def ledger_parts chain_key_def)

lemma put_frame [chain_frame]: "\<not> chain_key k \<Longrightarrow> same_chain l (put k v l)"
  by (auto simp: same_chain_def ledger_parts chain_key_def)

lemma not_chain_keys [simp]:
  "\<not> chain_key ''rules_version''" "\<not> chain_key KEY_HEARTBEAT" "\<not> chain_key KEY_V_HEAD"
  "\<not> chain_key KEY_V_ANCHOR"
  by (simp_all add: chain_key_def chain_keys KEY_HEARTBEAT_def KEY_V_HEAD_def KEY_V_ANCHOR_def)

lemma tables_frame [chain_frame]:
  "same_chain l (l\<lparr>lg_devices := ds\<rparr>)" "same_chain l (l\<lparr>lg_seen := sd\<rparr>)"
  "same_chain l (l\<lparr>lg_rules := rs\<rparr>)" "same_chain l (l\<lparr>lg_rules := rs, lg_seq := q\<rparr>)"
  "same_chain l (l\<lparr>lg_outbound := os, lg_seq := q\<rparr>)"
  "same_chain l (l\<lparr>lg_gaps := gs, lg_seq := q\<rparr>)"
  "same_chain l (l\<lparr>lg_changes := cs, lg_seq := q\<rparr>)" "same_chain l (l\<lparr>lg_trafico := ts\<rparr>)"
  "same_chain l (l\<lparr>lg_alias := al\<rparr>)" "same_chain l (l\<lparr>lg_vigilancia := vs\<rparr>)"
  "same_chain l (l\<lparr>lg_vigilancia := vs, lg_seq := q\<rparr>)"
  by (simp_all add: same_chain_def setting_def)

lemma first_time_frame [chain_frame]: "same_chain l (snd (first_time dev q ts l))"
  by (auto simp: first_time_def chain_frame split: option.split)

lemma update_device_frame [chain_frame]: "same_chain l (update_device i f l)"
  unfolding update_device_def by (rule tables_frame)

lemma upsert_device_frame [chain_frame]: "same_chain l (snd (upsert_device i mac ip now l))"
  by (simp add: upsert_device_def Let_def chain_frame)

lemma bump_frame: "same_chain l m \<Longrightarrow> same_chain l (bump_rules_version x m)"
  unfolding bump_rules_version_def
  by (erule same_chain_trans, rule set_setting_frame, rule not_chain_keys)

lemma rules_frame [chain_frame]:
  "same_chain l (snd (add_rule x n l))" "same_chain l (snd (undo_rule x i now l))"
  "same_chain l (snd (undo_rules_since x since now l))"
  by (simp_all add: add_rule_def undo_rule_def undo_rules_since_def Let_def bump_frame chain_frame)

lemma measures_frame [chain_frame]:
  "same_chain l (snd (record_outbound ts p h n u l))"
  "same_chain l (record_change ts k w d l)" "same_chain l (suma_trafico fs l)"
  "same_chain l (note_alias_sites is_ip q ss ts l)"
  by (simp_all add: record_outbound_def record_change_def suma_trafico_def note_alias_sites_def
      Let_def chain_frame split: option.split)

lemma gap_frame [chain_frame]: "same_chain l (snd (record_gap_since_last_heartbeat x now l))"
proof -
  have "same_chain l (heartbeat x now m)" if "same_chain l m" for m
    using that unfolding heartbeat_def by (rule same_chain_trans) (simp add: chain_frame)
  then show ?thesis
    by (simp add: record_gap_since_last_heartbeat_def Let_def chain_frame split: option.split)
qed

lemma anota_frame [chain_frame]: "same_chain l (snd (anota_vigilancia x n l))"
proof (cases "vigilancia_hash l KEY_V_HEAD")
  case (Inl e)
  then show ?thesis by (simp add: anota_vigilancia_def chain_frame)
next
  case (Inr prev)
  have prune: "same_chain m m'" if "v_prune m = Inr m'" for m m'
  proof (cases "length (lg_vigilancia m) > MAXIMO_FILAS")
    case True
    with that obtain h rs where "m' = put KEY_V_ANCHOR h (m\<lparr>lg_vigilancia := rs\<rparr>)"
      by (auto simp: v_prune_def Let_def and_then_Inr)
    then show ?thesis
      using same_chain_trans [OF tables_frame(10) put_frame] by simp
  next
    case False
    with that show ?thesis by (simp add: v_prune_def chain_frame)
  qed
  have put: "same_chain l (put KEY_V_HEAD h (l\<lparr>lg_vigilancia := rs, lg_seq := q\<rparr>))" for h rs q
    using same_chain_trans [OF tables_frame(11) put_frame] by simp
  define i where "i = next_rowid l ''vigilancia'' (map su_id (lg_vigilancia l))"
  define row where "row = suceso_row_of (sha x) i prev n"
  define l1 where "l1 = put KEY_V_HEAD (to_hex (su_row_hash row))
    (l\<lparr>lg_vigilancia := lg_vigilancia l @ [row], lg_seq := (lg_seq l)(''vigilancia'' \<mapsto> i)\<rparr>)"
  have an: "anota_vigilancia x n l = (case v_prune l1 of
      Inl e \<Rightarrow> (Inl e, l) | Inr l2 \<Rightarrow> (Inr (suceso_of row), l2))"
    unfolding anota_vigilancia_def Inr sum.case Let_def row_def i_def l1_def ..
  have l1: "same_chain l l1" unfolding l1_def by (rule put)
  show ?thesis
  proof (cases "v_prune l1")
    case (Inl e)
    then show ?thesis by (simp add: an chain_frame)
  next
    case (Inr l2)
    then show ?thesis using same_chain_trans [OF l1 prune] by (simp add: an)
  qed
qed

section \<open>The ledger as a state machine\<close>

text \<open>One step is one operation that changes the state. A setting is written by name through
  \<open>set_setting\<close>; no caller writes the chain's own keys.\<close>

inductive ledger_step :: "externals \<Rightarrow> ledger \<Rightarrow> ledger \<Rightarrow> bool" for x where
  step_append: "ledger_step x l (snd (append x new l))"
| step_prune: "ledger_step x l (snd (prune x policy now l))"
| step_wipe: "ledger_step x l (wipe l)"
| step_setting: "\<not> chain_key k \<Longrightarrow> ledger_step x l (set_setting x k v l)"
| step_first_time: "ledger_step x l (snd (first_time dev q ts l))"
| step_upsert: "ledger_step x l (snd (upsert_device i mac ip now l))"
| step_rename: "ledger_step x l (rename_device i name l)"
| step_share: "ledger_step x l (set_share_detail i share l)"
| step_hours: "ledger_step x l (set_hours_profile i profile l)"
| step_add_rule: "ledger_step x l (snd (add_rule x n l))"
| step_undo_rule: "ledger_step x l (snd (undo_rule x r now l))"
| step_undo_since: "ledger_step x l (snd (undo_rules_since x since now l))"
| step_outbound: "ledger_step x l (snd (record_outbound ts p host n by_user l))"
| step_change: "ledger_step x l (record_change ts kind who detail l)"
| step_gap: "ledger_step x l (snd (record_gap_since_last_heartbeat x now l))"
| step_traffic: "ledger_step x l (suma_trafico filas l)"
| step_alias: "ledger_step x l (note_alias_sites is_ip q sites ts l)"
| step_watch: "ledger_step x l (snd (anota_vigilancia x s l))"

lemma healthy_anchor: "healthy x l \<Longrightarrow> \<exists>a. setting l KEY_ANCHOR = Some a"
  unfolding healthy_def using anchor_set by blast

lemmas healthy_frames =
  set_setting_frame [THEN healthy_frame] first_time_frame [THEN healthy_frame]
  upsert_device_frame [THEN healthy_frame] rules_frame [THEN healthy_frame]
  measures_frame [THEN healthy_frame] gap_frame [THEN healthy_frame]
  anota_frame [THEN healthy_frame]

lemma step_healthy:
  assumes "ledger_step x l l'" "sha_32 x" "healthy x l"
  shows "healthy x l'"
  using assms
proof (induction rule: ledger_step.induct)
  case (step_append l new)
  then show ?case by (simp add: append_healthy)
next
  case (step_prune l policy now)
  then show ?case by (simp add: prune_healthy)
next
  case (step_wipe l)
  obtain g where "from_hex (or_default (setting l KEY_GENESIS)) = Inr g"
    using step_wipe(2) unfolding healthy_def by blast
  moreover obtain a where "setting l KEY_ANCHOR = Some a"
    using healthy_anchor [OF step_wipe(2)] by blast
  ultimately show ?case by (rule wipe_healthy)
next
  case (step_rename l i name)
  then show ?case
    using healthy_frame [OF update_device_frame] by (simp add: rename_device_def)
next
  case (step_share l i share)
  then show ?case
    using healthy_frame [OF update_device_frame] by (simp add: set_share_detail_def)
next
  case (step_hours l i profile)
  then show ?case
    using healthy_frame [OF update_device_frame] by (simp add: set_hours_profile_def)
qed (simp_all add: healthy_frames)

lemma init_healthy:
  assumes "length g = 32" "init x g (empty_file d) = Inr l"
  shows "healthy x l"
proof -
  have l: "l = set_schema SCHEMA_HEAD
    (set_setting x KEY_HEAD_COUNT ''0'' (set_setting x KEY_HEAD (to_hex g)
    (set_setting x KEY_PRUNED ''0'' (set_setting x KEY_ANCHOR (to_hex g)
    (set_setting x KEY_GENESIS (to_hex g) (empty_file d))))))"
    using assms(2) by (simp add: init_def setting_def empty_file_def)
  have "lg_events l = []" "lg_bases l = []" "lg_version l = SCHEMA_HEAD"
    "setting l KEY_GENESIS = Some (to_hex g)" "setting l KEY_ANCHOR = Some (to_hex g)"
    "setting l KEY_HEAD = Some (to_hex g)"
    by (simp_all add: l ledger_parts) (simp_all add: empty_file_def)
  then show ?thesis
    using assms(1)
    by (simp add: healthy_def anchor_def chain_head_def transpose_e_def hashes_ok_def bases_ok_def)
qed

lemma run_healthy:
  assumes "(ledger_step x)\<^sup>*\<^sup>* l l'" "sha_32 x" "healthy x l"
  shows "healthy x l'"
  using assms by (induction rule: rtranclp_induct) (auto intro: step_healthy)

end
