(* ===== verification/Ledger_Properties.thy ===== *)
theory Ledger_Properties imports Ledger_Chain begin

text \<open>
  The properties of the ledger that a person relies on: what was written verifies, what verifies is
  what was written, removed rows and a removed head are reported and stay reported, the listings
  show only shared detail, and pruning and wiping do exactly what they say.
\<close>

section \<open>Sample values\<close>

text \<open>A 32-byte checksum and trivial JSON, to evaluate the operations on concrete inputs.\<close>

definition sample_sha :: "bytes \<Rightarrow> bytes" where
  "sample_sha b = be_bytes 32 (foldl (\<lambda>a c. (a * 31 + unat c) mod 2 ^ 61) 7 b)"

definition sample_ext :: externals where
  "sample_ext =
     \<lparr>sha = sample_sha, signals_to_json = (\<lambda>s. ''[]''),
      signals_from_json = (\<lambda>s. if s = ''[]'' then Some [] else None),
      process_to_json = (\<lambda>p. ''{}''), process_from_json = (\<lambda>s. None),
      sql_day = (\<lambda>s. day_utc (s * 1000)), fs_write = (\<lambda>_ _. True), fs_rename = (\<lambda>_ _. True),
      fs_remove = (\<lambda>_. True)\<rparr>"

definition sample_genesis :: hash where "sample_genesis = be_bytes 32 (2 ^ 64)"

definition sample_ledger :: ledger where
  "sample_ledger =
     set_schema SCHEMA_HEAD
       (put KEY_HEAD_COUNT ''0'' (put KEY_HEAD (to_hex sample_genesis)
       (put KEY_PRUNED ''0'' (put KEY_ANCHOR (to_hex sample_genesis)
       (put KEY_GENESIS (to_hex sample_genesis) (empty_file None))))))"

definition sample_event :: new_event where
  "sample_event = observed 1000 ''self'' ''127.0.0.1'' ''a.example'' ''A''"

definition sample_filled :: ledger where
  "sample_filled = snd (append sample_ext sample_event sample_ledger)"

lemma sample_sha_32: "sha_32 sample_ext"
  by (simp add: sha_32_def sample_ext_def sample_sha_def)

lemma sample_genesis_32: "length sample_genesis = 32"
  by (simp add: sample_genesis_def)

lemma set_setting_chain_key: "chain_key k \<Longrightarrow> set_setting x k v l = put k v l"
  by (auto simp: set_setting_def COPIAS_EN_ARCHIVO_def chain_key_def chain_keys)

lemma sample_init: "init x sample_genesis (empty_file None) = Inr sample_ledger"
proof -
  have "chain_key KEY_GENESIS" "chain_key KEY_ANCHOR" "chain_key KEY_PRUNED" "chain_key KEY_HEAD"
    "chain_key KEY_HEAD_COUNT" by (simp_all add: chain_key_def)
  moreover have "setting (empty_file None) KEY_GENESIS = None"
    by (simp add: setting_def empty_file_def)
  ultimately show ?thesis by (simp add: init_def sample_ledger_def set_setting_chain_key)
qed

lemma sample_healthy: "healthy x sample_ledger"
  using init_healthy [OF sample_genesis_32 sample_init] .

lemma sample_filled_healthy: "healthy sample_ext sample_filled"
  unfolding sample_filled_def by (rule append_healthy [OF sample_sha_32 sample_healthy])

lemma sample_row:
  "\<exists>n. chain_point sample_ledger = Inr (sample_genesis, n, Some sample_genesis)"
  "anchor sample_ledger = Inr sample_genesis" "lg_events sample_ledger = []"
proof -
  show an: "anchor sample_ledger = Inr sample_genesis"
    by (simp add: anchor_def sample_ledger_def ledger_parts sample_genesis_32)
  show ev: "lg_events sample_ledger = []"
    by (simp add: sample_ledger_def ledger_parts empty_file_def)
  obtain a n where "anchor sample_ledger = Inr a" "chain_point sample_ledger =
    Inr (tip er_row_hash a (lg_events sample_ledger), n,
      Some (tip er_row_hash a (lg_events sample_ledger)))"
    using chain_point_healthy [OF sample_healthy] .
  with an ev show "\<exists>n. chain_point sample_ledger = Inr (sample_genesis, n, Some sample_genesis)"
    by auto
qed

lemma sample_point: "chain_point sample_ledger = Inr (sample_genesis, 1, Some sample_genesis)"
proof -
  have "parse_u64 ''0'' = Some 0" using parse_u64_decimal [of 0] by (simp add: decimal.simps)
  then have "head_count sample_ledger = Some 0"
    by (simp add: head_count_def sample_ledger_def ledger_parts)
  moreover have "chain_head sample_ledger = Inr (Some sample_genesis)"
    by (simp add: chain_head_def transpose_e_def sample_ledger_def ledger_parts sample_genesis_32)
  ultimately show ?thesis
    by (simp add: chain_point_def sample_row Let_def)
qed

definition sample_stored :: event_row where
  "sample_stored = appended sample_ext sample_event sample_ledger sample_genesis"

lemma sample_filled_parts:
  "lg_events sample_filled = [sample_stored]" "er_id sample_stored = 1"
  "anchor sample_filled = Inr sample_genesis" "head_count sample_filled = Some 1"
  "pruned_count sample_filled = 0" "row_hashes sample_filled = [er_row_hash sample_stored]"
proof -
  note st = append_settings [OF sample_point, of sample_ext sample_event, folded sample_filled_def]
  show ev: "lg_events sample_filled = [sample_stored]"
    using append_parts(2) [OF sample_point, of sample_ext sample_event]
    by (simp add: sample_filled_def sample_stored_def sample_row)
  then show "row_hashes sample_filled = [er_row_hash sample_stored]" by (simp add: row_hashes_def)
  show "er_id sample_stored = 1"
    by (simp add: sample_stored_def appended_def next_rowid_def sample_row)
      (simp add: sample_ledger_def ledger_parts empty_file_def)
  show "anchor sample_filled = Inr sample_genesis"
    using sample_row(2) by (simp add: anchor_def st)
  have "parse_u64 (decimal 1) = Some 1" "parse_u64 ''0'' = Some 0"
    using parse_u64_decimal [of 1] parse_u64_decimal [of 0] by (simp_all add: decimal.simps [of 0])
  then show "head_count sample_filled = Some 1" "pruned_count sample_filled = 0"
    by (simp_all add: head_count_def pruned_count_def st)
      (simp add: sample_ledger_def ledger_parts)
qed

lemma sample_hash_fresh: "er_row_hash sample_stored \<noteq> sample_genesis"
proof
  obtain n where n: "er_row_hash sample_stored = be_bytes 32 n" "n < 2 ^ 61"
    by (auto simp: sample_stored_def appended_def chain_hash_def sample_ext_def sample_sha_def
        intro!: that foldl_inv [where P = "\<lambda>a. a < 2 ^ 61"])
  assume "er_row_hash sample_stored = sample_genesis"
  then have "from_be (be_bytes 32 n) = from_be sample_genesis" using n(1) by simp
  moreover have "from_be (be_bytes 32 n) = n" using n(2) by (intro from_be_bytes) simp
  moreover have "from_be sample_genesis = 2 ^ 64"
    unfolding sample_genesis_def by (rule from_be_bytes) simp
  ultimately show False using n(2) by simp
qed

lemma sample_distinct: "distinct (sample_genesis # row_hashes sample_filled)"
  using sample_hash_fresh by (simp add: sample_filled_parts)

section \<open>What is written verifies\<close>

text \<open>C1: A ledger made by opening a new file and running any operations on it, in any order and
  any number of times (appends, prunings, wipes, devices, rules, measurements, the watch), passes
  its own check, and the check walks every row it holds.\<close>

theorem reachable_ledger_verifies:
  assumes "sha_32 x" "length g = 32" "init x g (empty_file d) = Inr l0"
    "(ledger_step x)\<^sup>*\<^sup>* l0 l"
  shows "\<exists>r. check x l = Inr r \<and> check_is_ok r \<and> ck_checked r = length (lg_events l)"
  using run_healthy [OF assms(4,1) init_healthy [OF assms(2,3)]] by (rule healthy_checks)

theorem reachable_ledger_verifies_witness:
  "\<exists>r. check sample_ext (wipe sample_filled) = Inr r \<and> check_is_ok r \<and>
     ck_checked r = length (lg_events (wipe sample_filled))"
proof -
  have "(ledger_step sample_ext)\<^sup>*\<^sup>* sample_ledger sample_filled"
    unfolding sample_filled_def by (rule r_into_rtranclp) (rule step_append)
  then have "(ledger_step sample_ext)\<^sup>*\<^sup>* sample_ledger (wipe sample_filled)"
    by (rule rtranclp.rtrancl_into_rtrancl) (rule step_wipe)
  then show ?thesis
    by (rule reachable_ledger_verifies [OF sample_sha_32 sample_genesis_32 sample_init])
qed

section \<open>What verifies is what was written\<close>

text \<open>The inputs that were hashed for the rows of a ledger.\<close>

definition hashed :: "ledger \<Rightarrow> bytes set" where
  "hashed l = (\<lambda>r. raw_pre (rw_prev_hash r) r) ` set (raws l)"

definition texts_ok :: "ledger \<Rightarrow> bool" where
  "texts_ok l \<longleftrightarrow> (\<forall>r \<in> set (lg_events l). fields_ok (row_input (lg_bases l) r))"

lemma own_hashes_hashed:
  assumes "event_chain x a rs"
  shows "rw_row_hash ` set rs \<subseteq> sha x ` ((\<lambda>r. raw_pre (rw_prev_hash r) r) ` set rs)"
  using assms by (induction rs arbitrary: a) auto

text \<open>C2: Suppose a healthy ledger and a file that passes the check with the same anchor and the
  same recorded head. Then the file holds every row of the ledger, with every field as it was
  written, in the same order and from the first one on (it may hold rows after the head). The only
  ways out are two rows hashed for the two files that collide under SHA-256, or a row that hashes
  to the anchor itself.\<close>

theorem accepted_history_is_what_was_written:
  assumes "healthy x l" "anchor l = Inr a"
    and "check x l' = Inr r" "check_is_ok r" "anchor l' = Inr a" "chain_head l' = chain_head l"
    and "texts_ok l" "texts_ok l'"
  shows "collides (sha x) (hashed l) (hashed l') \<or> a \<in> sha x ` (hashed l \<union> hashed l') \<or>
    (\<exists>n. map (row_input (lg_bases l')) (take n (lg_events l')) =
         map (row_input (lg_bases l)) (lg_events l))"
proof (cases "a \<in> sha x ` (hashed l \<union> hashed l')")
  case False
  from assms(1,2) have ch: "event_chain x a (raws l)"
    and hd: "chain_head l = Inr (Some (tip rw_row_hash a (raws l)))"
    and lens: "hashes_ok (lg_events l)" by (auto simp: healthy_def raw_tip)
  from assms(3-5) obtain h2: "hashes_ok (lg_events l')" and ch': "event_chain x a (raws l')"
    and fnd: "head_found l' a"
    using check_ok_iff [of x l'] by auto
  let ?h = "tip rw_row_hash a (raws l)"
  from fnd hd assms(6) have "?h \<in> insert a (set (row_hashes l'))"
    by (simp add: head_found_def)
  then obtain n where n: "tip rw_row_hash a (take n (raws l')) = ?h"
  proof (cases "?h = a")
    case True
    with that [of 0] show ?thesis by simp
  next
    case False
    with \<open>?h \<in> _\<close> obtain i where "i < length (lg_events l')" "er_row_hash (lg_events l' ! i) = ?h"
      by (auto simp: row_hashes_def in_set_conv_nth)
    then have "tip rw_row_hash a (take (Suc i) (raws l')) = ?h"
      by (simp add: tip_last take_Suc_conv_app_nth)
    with that show ?thesis .
  qed
  let ?p = "take n (raws l')"
  have chp: "event_chain x a ?p"
    using ch' event_chain_append [of x a ?p "drop n (raws l')"] by simp
  have sub: "set ?p \<subseteq> set (raws l')" by (rule set_take_subset)
  have "a \<notin> rw_row_hash ` set (raws l)" "a \<notin> rw_row_hash ` set (raws l')"
    using False own_hashes_hashed [OF ch, folded hashed_def]
      own_hashes_hashed [OF ch', folded hashed_def] by blast+
  with sub have na: "a \<notin> rw_row_hash ` set (raws l)" "a \<notin> rw_row_hash ` set ?p" by auto
  have ok: "length (rw_prev_hash r) = 32 \<and> fields_ok (hash_input.truncate r)"
    if "r \<in> set (raws l)" for r
    using that lens assms(7) by (auto simp: hashes_ok_def list_all_iff texts_ok_def)
  have ok': "length (rw_prev_hash r) = 32 \<and> fields_ok (hash_input.truncate r)"
    if "r \<in> set ?p" for r
    using that sub h2 assms(8) by (fastforce simp: hashes_ok_def list_all_iff texts_ok_def)
  have all: "\<forall>r \<in> set (raws l). length (rw_prev_hash r) = 32 \<and> fields_ok (hash_input.truncate r)"
    "\<forall>r \<in> set ?p. length (rw_prev_hash r) = 32 \<and> fields_ok (hash_input.truncate r)"
    using ok ok' by blast+
  have same: "collides (sha x) (hashed l) ((\<lambda>r. raw_pre (rw_prev_hash r) r) ` set ?p) \<or>
    map hash_input.truncate (raws l) = map hash_input.truncate ?p"
    unfolding hashed_def
    by (rule events_chain.same_ends_same_rows [OF ch [unfolded event_chain_def]
        chp [unfolded event_chain_def] n [symmetric] na all])
  have part: "(\<lambda>r. raw_pre (rw_prev_hash r) r) ` set ?p \<subseteq> hashed l'"
    unfolding hashed_def using sub by (rule image_mono)
  have rows: "map hash_input.truncate ?p = map (row_input (lg_bases l')) (take n (lg_events l'))"
    "map hash_input.truncate (raws l) = map (row_input (lg_bases l)) (lg_events l)"
    by (simp_all add: take_map)
  from same show ?thesis
  proof
    assume "collides (sha x) (hashed l) ((\<lambda>r. raw_pre (rw_prev_hash r) r) ` set ?p)"
    then have "collides (sha x) (hashed l) (hashed l')"
      by (rule collides_mono [OF _ subset_refl part])
    then show ?thesis ..
  next
    assume "map hash_input.truncate (raws l) = map hash_input.truncate ?p"
    then have "map (row_input (lg_bases l')) (take n (lg_events l')) =
      map (row_input (lg_bases l)) (lg_events l)" unfolding rows by (rule sym)
    then show ?thesis by blast
  qed
qed simp

lemma sample_texts: "texts_ok sample_ledger" "texts_ok sample_filled"
proof -
  show "texts_ok sample_ledger" by (simp add: texts_ok_def sample_row)
  obtain n where cp: "chain_point sample_ledger = Inr (sample_genesis, n, Some sample_genesis)"
    using sample_row(1) by blast
  have b: "bases_ok (lg_bases sample_ledger) (lg_events sample_ledger)"
    using sample_healthy [of sample_ext] by (simp add: healthy_def)
  have "row_input (lg_bases sample_filled) (appended sample_ext sample_event sample_ledger
      sample_genesis) = hash_input_of sample_ext sample_event"
    using append_keeps_bases [OF b] append_parts(3) [OF cp] by (simp add: sample_filled_def)
  moreover have "fields_ok (hash_input_of sample_ext sample_event)"
  proof -
    have "show_int 1000 = ''1000''" by code_simp
    then show ?thesis
      by (simp add: fields_ok_def hash_fields_def fixed_fields_def opcionales_def short_text_def
          hash_input_of_def sample_event_def observed_def sample_ext_def)
  qed
  ultimately show "texts_ok sample_filled"
    using append_parts(2) [OF cp] by (simp add: texts_ok_def sample_filled_def sample_row)
qed

theorem accepted_history_is_what_was_written_witness:
  "\<exists>a. anchor sample_filled = Inr a \<and>
     (collides sample_sha (hashed sample_filled) (hashed sample_filled) \<or>
      a \<in> sample_sha ` (hashed sample_filled \<union> hashed sample_filled) \<or>
      (\<exists>n. map (row_input (lg_bases sample_filled)) (take n (lg_events sample_filled)) =
           map (row_input (lg_bases sample_filled)) (lg_events sample_filled)))"
proof -
  obtain a where a: "anchor sample_filled = Inr a"
    using sample_filled_healthy by (auto simp: healthy_def)
  obtain r where r: "check sample_ext sample_filled = Inr r" "check_is_ok r"
    using healthy_checks [OF sample_filled_healthy] by blast
  have "sha sample_ext = sample_sha" by (simp add: sample_ext_def)
  with accepted_history_is_what_was_written
    [OF sample_filled_healthy a r a refl sample_texts(2) sample_texts(2)] a
  show ?thesis by simp
qed

section \<open>What is removed is reported\<close>

lemma event_chain_take:
  "event_chain x a (map f rs) \<Longrightarrow> event_chain x a (map f (take m rs))"
  by (metis append_take_drop_id map_append event_chain_append)

lemma hashes_ok_take: "hashes_ok rs \<Longrightarrow> hashes_ok (take m rs)"
  by (auto simp: hashes_ok_def list_all_iff dest: in_set_takeD)

lemma last_gone:
  assumes "distinct (map f xs)" "m < length xs"
  shows "f (last xs) \<notin> f ` set (take m xs)"
proof -
  obtain ys y where xs: "xs = ys @ [y]" using assms(2) by (cases xs rule: rev_cases) auto
  have "set (take m ys) \<subseteq> set ys" by (rule set_take_subset)
  then show ?thesis using assms by (auto simp: xs)
qed

text \<open>Rows removed from the end of a healthy ledger are reported: the check says the chain is
  truncated, at the id after the last surviving row, names the hash of the last row ever written,
  and says exactly how many rows are missing, when the counts in the settings are right.\<close>

theorem truncation_is_counted:
  assumes "healthy x l" "anchor l = Inr a" "m < length (lg_events l)"
    and "head_count l = Some (pruned_count l + length (lg_events l))"
    and "pruned_count l + length (lg_events l) < 2 ^ 64" "distinct (a # row_hashes l)"
  shows "\<exists>r. check x (l\<lparr>lg_events := take m (lg_events l)\<rparr>) = Inr r \<and>
    ck_first_fault r =
      Some (last_id (l\<lparr>lg_events := take m (lg_events l)\<rparr>) + 1,
            Truncated (er_row_hash (last (lg_events l))) (Some (length (lg_events l) - m)))"
proof -
  let ?rows = "take m (lg_events l)" and ?l = "l\<lparr>lg_events := take m (lg_events l)\<rparr>"
  let ?h = "er_row_hash (last (lg_events l))"
  have ne: "lg_events l \<noteq> []" using assms(3) by auto
  from assms(1,2) ne have h: "hashes_ok (lg_events l)" "event_chain x a (raws l)"
    "chain_head l = Inr (Some ?h)" "lg_version l = SCHEMA_HEAD"
    by (auto simp: healthy_def tip_last)
  have sets: "setting ?l = setting l" by (simp add: setting_def fun_eq_iff)
  then have same: "anchor ?l = Inr a" "chain_head ?l = Inr (Some ?h)"
    "pruned_count ?l = pruned_count l" "head_count ?l = head_count l"
    using assms(2) h(3) by (simp_all add: anchor_def chain_head_def pruned_count_def head_count_def)
  have ch: "event_chain x a (raws ?l)" "hashes_ok (lg_events ?l)"
    using h(1,2) by (simp_all add: event_chain_take hashes_ok_take)
  have "?h \<notin> er_row_hash ` set ?rows"
    by (rule last_gone [OF _ assms(3)]) (use assms(6) in \<open>simp add: row_hashes_def\<close>)
  moreover have "?h \<noteq> a" using assms(6) ne by (auto simp: row_hashes_def)
  ultimately have unseen: "\<not> wk_head_seen (walk_end (Some ?h) (walk_start a (Some ?h)) ?rows)"
    by (auto simp: walk_end_def walk_start_def)
  have "check_end ?l (pruned_count l) (Some ?h) (walk_end (Some ?h) (walk_start a (Some ?h)) ?rows)
      = Some (last_id ?l + 1, Truncated ?h (Some (length (lg_events l) - m)))"
    using unseen h(4) assms(3-5) same(4)
    by (simp add: check_end_def schema_marks walk_end_def walk_start_def last_id_def Let_def)
  then show ?thesis
    using check_when_linked [OF same(1,2) ch(2,1)] same(3) by simp
qed

theorem truncation_is_counted_witness:
  "\<exists>r. check sample_ext (sample_filled\<lparr>lg_events := take 0 (lg_events sample_filled)\<rparr>) = Inr r \<and>
    ck_first_fault r = Some (1, Truncated (er_row_hash sample_stored) (Some 1))"
  using truncation_is_counted [OF sample_filled_healthy sample_filled_parts(3), of 0] sample_distinct
  by (simp add: sample_filled_parts last_id_def)

text \<open>A row the check stops at, after rows that are fine. It keeps stopping there.\<close>

definition stuck :: "externals \<Rightarrow> ledger \<Rightarrow> int \<Rightarrow> chain_fault \<Rightarrow> bool" where
  "stuck x l i f \<longleftrightarrow>
     (\<exists>a old r new. anchor l = Inr a \<and> lg_events l = old @ r # new \<and> hashes_ok old \<and>
        event_chain x a (map (raw_of (lg_bases l)) old) \<and> er_id r = i \<and>
        check_row (sha x) (lg_bases l) (tip er_row_hash a old) r = Some f) \<and>
     bases_ok (lg_bases l) (lg_events l) \<and> (\<exists>h. chain_head l = Inr h)"

lemma check_rows_append:
  assumes "check_rows h bs head w rs = (w', None)"
  shows "check_rows h bs head w (rs @ qs) = check_rows h bs head w' qs"
  using assms by (induction rs arbitrary: w) (auto split: option.splits)

lemma stuck_reported:
  assumes "stuck x l i f"
  shows "\<exists>r. check x l = Inr r \<and> ck_first_fault r = Some (i, f)"
proof -
  from assms obtain a old r new head where s: "anchor l = Inr a" "lg_events l = old @ r # new"
    "hashes_ok old" "event_chain x a (map (raw_of (lg_bases l)) old)" "er_id r = i"
    "check_row (sha x) (lg_bases l) (tip er_row_hash a old) r = Some f" "chain_head l = Inr head"
    by (auto simp: stuck_def)
  have "check_rows (sha x) (lg_bases l) head (walk_start a head) old =
      (walk_end head (walk_start a head) old, None)"
    using s(3,4) by (simp add: check_rows_None event_chain_def walk_start_def)
  moreover have "wk_expected (walk_end head (walk_start a head) old) = tip er_row_hash a old"
    by (simp add: walk_end_def walk_start_def)
  ultimately have "snd (check_rows (sha x) (lg_bases l) head (walk_start a head) (lg_events l)) =
      Some (i, f)"
    using s(5,6) unfolding s(2) by (simp add: check_rows_append)
  then show ?thesis
    using s(1,7) by (auto simp: check_def walk_start_def case_prod_beta)
qed

lemma check_row_stable:
  assumes "raw_of bs' r = raw_of bs r"
  shows "check_row h bs' e r = check_row h bs e r"
  using assms by (simp add: check_row_def raw_from_row_def)

lemma stuck_append:
  assumes "stuck x l i f" "sha_32 x"
  shows "stuck x (snd (append x new l)) i f"
proof (cases "chain_point l")
  case (Inl e)
  then have "snd (append x new l) = l" by (simp add: append_def)
  with assms(1) show ?thesis by simp
next
  case (Inr pch)
  obtain prev count head where cp: "chain_point l = Inr (prev, count, head)"
    using Inr by (cases pch) auto
  define l' where "l' = snd (append x new l)"
  define row where "row = appended x new l prev"
  from assms(1) obtain a old r rest where s: "anchor l = Inr a" "lg_events l = old @ r # rest"
    "hashes_ok old" "event_chain x a (map (raw_of (lg_bases l)) old)" "er_id r = i"
    "check_row (sha x) (lg_bases l) (tip er_row_hash a old) r = Some f"
    and b: "bases_ok (lg_bases l) (lg_events l)"
    by (auto simp: stuck_def)
  note parts = append_parts [OF cp, of x new, folded l'_def row_def]
  note sets = append_settings [OF cp, of x new, folded l'_def row_def]
  have bases: "bases_ok (lg_bases l') (lg_events l @ [row])"
    "map (raw_of (lg_bases l')) (lg_events l) = raws l"
    using append_keeps_bases [OF b, of new x prev] by (simp_all add: row_def parts(3))
  have raw_old: "map (raw_of (lg_bases l')) old = map (raw_of (lg_bases l)) old"
    and raw_r: "raw_of (lg_bases l') r = raw_of (lg_bases l) r"
    using bases(2) s(2) by simp_all
  have "length (er_row_hash row) = 32"
    using assms(2) by (simp add: row_def appended_def chain_hash_def sha_32_def)
  then have "\<exists>h. chain_head l' = Inr h"
    by (simp add: chain_head_def transpose_e_def sets(1))
  moreover have "anchor l' = Inr a" using s(1) by (simp add: anchor_def sets(1))
  moreover have "lg_events l' = old @ r # rest @ [row]" using parts(2) s(2) by simp
  moreover have "check_row (sha x) (lg_bases l') (tip er_row_hash a old) r = Some f"
    using s(6) check_row_stable [OF raw_r] by simp
  moreover have "event_chain x a (map (raw_of (lg_bases l')) old)"
    unfolding raw_old by (rule s(4))
  moreover have "bases_ok (lg_bases l') (lg_events l')" using bases(1) parts(2) by simp
  ultimately show ?thesis unfolding l'_def [symmetric] stuck_def using s(3,5) by blast
qed

lemma stuck_appends:
  "stuck x l i f \<Longrightarrow> sha_32 x \<Longrightarrow> stuck x (foldl (\<lambda>l n. snd (append x n l)) l ns) i f"
  by (rule foldl_inv [where P = "\<lambda>l. stuck x l i f"]) (simp_all add: stuck_append)

text \<open>C3: A truncation is not healed by what is written afterwards. After rows were removed from the
  end of a healthy ledger, the next event is chained from the recorded head, not from what
  survived, and however many events follow, the check reports a broken link at that first new row:
  it claims the head, where the last surviving row is expected.\<close>

theorem truncation_stays_reported:
  assumes "sha_32 x" "healthy x l" "anchor l = Inr a" "m < length (lg_events l)"
    and "head_count l = Some n" "distinct (a # row_hashes l)"
    and "shorn = l\<lparr>lg_events := take m (lg_events l)\<rparr>"
  shows "\<exists>r. check x (foldl (\<lambda>l e. snd (append x e l)) shorn (new # news)) = Inr r \<and>
    ck_first_fault r =
      Some (next_rowid shorn ''events'' (map er_id (lg_events shorn)),
            BrokenLink (er_row_hash (last (lg_events l))) (tip er_row_hash a (lg_events shorn)))"
proof -
  let ?rows = "take m (lg_events l)" and ?h = "er_row_hash (last (lg_events l))"
  define t where "t = tip er_row_hash a ?rows"
  have ne: "lg_events l \<noteq> []" using assms(4) by auto
  from assms(2,3) ne have h: "hashes_ok (lg_events l)" "event_chain x a (raws l)"
    "chain_head l = Inr (Some ?h)" "bases_ok (lg_bases l) (lg_events l)"
    by (auto simp: healthy_def tip_last)
  have shorn: "lg_events shorn = ?rows" "lg_bases shorn = lg_bases l" "setting shorn = setting l"
    by (simp_all add: assms(7) setting_def fun_eq_iff)
  have same: "anchor shorn = Inr a" "chain_head shorn = Inr (Some ?h)" "head_count shorn = Some n"
    using assms(3,5) h(3) by (simp_all add: anchor_def chain_head_def head_count_def shorn(3))
  have ok: "hashes_ok ?rows" using h(1) by (rule hashes_ok_take)
  have ch: "event_chain x a (map (raw_of (lg_bases l)) ?rows)"
    using h(2) by (rule event_chain_take)
  have gone: "?h \<notin> er_row_hash ` set ?rows"
    by (rule last_gone [OF _ assms(4)]) (use assms(6) in \<open>simp add: row_hashes_def\<close>)
  have "?h \<noteq> a" using assms(6) ne by (auto simp: row_hashes_def)
  moreover have "\<not> (\<exists>r \<in> set ?rows. er_row_hash r = ?h)" using gone by (metis image_eqI)
  moreover have "t = (if ?rows = [] then a else er_row_hash (last ?rows))"
    by (simp add: t_def tip_last)
  ultimately have notin: "\<not> in_chain shorn ?h a" "?h \<noteq> t"
    unfolding in_chain_def shorn(1) by (metis, metis last_in_set)
  have tail: "(if lg_events shorn = [] then Inr a else from_bytes (er_row_hash (last (lg_events shorn))))
      = Inr t"
    using ok unfolding shorn t_def
    by (cases "?rows = []") (simp_all add: tip_last hashes_ok_def list_all_iff from_bytes_def)
  have cp: "chain_point shorn = Inr (?h, (n + 1) mod 2 ^ 64, Some ?h)"
    using same notin tail by (simp add: chain_point_def Let_def)
  define l' where "l' = snd (append x new shorn)"
  define row where "row = appended x new shorn ?h"
  note parts = append_parts [OF cp, of x new, folded l'_def row_def]
  note sets = append_settings [OF cp, of x new, folded l'_def row_def]
  have "bases_ok (lg_bases shorn) (lg_events shorn)"
    using h(4) unfolding shorn bases_ok_def by (auto dest: in_set_takeD)
  from append_keeps_bases [OF this, of new x ?h]
  have bases: "bases_ok (lg_bases l') (lg_events l')"
    "map (raw_of (lg_bases l')) ?rows = map (raw_of (lg_bases l)) ?rows"
    by (simp_all add: row_def parts(2,3) shorn)
  have "length ?h = 32" using h(1) ne by (simp add: hashes_ok_def list_all_iff)
  moreover have "er_prev_hash row = ?h" "er_row_hash row = sha x (chain_bytes ?h (hash_input_of x new))"
    by (simp_all add: row_def appended_def chain_hash_def)
  ultimately have "raw_from_row (lg_bases l') row = Inr (raw_of (lg_bases l') row)"
    and row: "er_prev_hash row = ?h"
    and h32: "length (er_row_hash row) = 32"
    using assms(1) by (simp_all add: raw_from_row_Inr sha_32_def)
  then have "check_row (sha x) (lg_bases l') t row = Some (BrokenLink ?h t)"
    using notin(2) by (simp add: check_row_def Let_def)
  moreover have "er_id row = next_rowid shorn ''events'' (map er_id (lg_events shorn))"
    by (simp add: row_def appended_def)
  moreover have "\<exists>h. chain_head l' = Inr h"
    using h32 by (simp add: chain_head_def transpose_e_def sets(1))
  moreover have "anchor l' = Inr a" using same(1) by (simp add: anchor_def sets(1))
  moreover have "lg_events l' = ?rows @ row # []" using parts(2) shorn by simp
  ultimately have "stuck x l' (next_rowid shorn ''events'' (map er_id (lg_events shorn)))
      (BrokenLink ?h t)"
    unfolding stuck_def using ok ch bases t_def by metis
  from stuck_reported [OF stuck_appends [OF this assms(1), of news]]
  show ?thesis by (simp add: l'_def t_def shorn)
qed

theorem truncation_stays_reported_witness:
  "\<exists>r. check sample_ext (foldl (\<lambda>l e. snd (append sample_ext e l))
      (sample_filled\<lparr>lg_events := take 0 (lg_events sample_filled)\<rparr>) [sample_event, sample_event])
      = Inr r \<and>
    ck_first_fault r =
      Some (next_rowid (sample_filled\<lparr>lg_events := []\<rparr>) ''events'' [],
            BrokenLink (er_row_hash sample_stored) sample_genesis)"
  using truncation_stays_reported [OF sample_sha_32 sample_filled_healthy sample_filled_parts(3),
      of 0 1, OF _ sample_filled_parts(4) sample_distinct refl, of sample_event "[sample_event]"]
  by (simp add: sample_filled_parts)

text \<open>A file that lost its head: everything of a healthy ledger but the mark, which says so.\<close>

definition lost_at :: "externals \<Rightarrow> ledger \<Rightarrow> int \<Rightarrow> bool" where
  "lost_at x l i \<longleftrightarrow>
     healthy x (set_schema SCHEMA_HEAD l) \<and> lg_version l = SCHEMA_HEAD_LOST \<and>
     setting l KEY_HEAD_LOST_AT = Some (show_int i) \<and> i64_ok i"

lemma healthy_set_schema_parts:
  "anchor (set_schema v l) = anchor l" "chain_head (set_schema v l) = chain_head l"
  "chain_point (set_schema v l) = chain_point l"
  by (simp_all add: anchor_def chain_head_def chain_point_def ledger_parts in_chain_def
      pruned_count_def head_count_def cong: if_cong option.case_cong)

lemma lost_reported:
  assumes "lost_at x l i"
  shows "\<exists>r. check x l = Inr r \<and> ck_first_fault r = Some (i, HeadMissing)"
proof -
  from assms obtain a where a: "anchor l = Inr a" "hashes_ok (lg_events l)"
    "event_chain x a (raws l)" "chain_head l = Inr (Some (tip er_row_hash a (lg_events l)))"
    by (auto simp: lost_at_def healthy_def healthy_set_schema_parts ledger_parts)
  from assms have v: "lg_version l = SCHEMA_HEAD_LOST"
    "setting l KEY_HEAD_LOST_AT = Some (show_int i)" "parse_i64 (show_int i) = Some i"
    by (simp_all add: lost_at_def parse_i64_show_int)
  show ?thesis
    using check_when_linked [OF a(1,4,2,3)] v by (simp add: check_end_def)
qed

lemma lost_append:
  assumes "lost_at x l i" "sha_32 x"
  shows "lost_at x (snd (append x new l)) i"
proof -
  let ?m = "set_schema SCHEMA_HEAD l"
  have hm: "healthy x ?m" and v: "lg_version l = SCHEMA_HEAD_LOST"
    using assms(1) by (simp_all add: lost_at_def)
  obtain a n where cpm: "chain_point ?m = Inr (tip er_row_hash a (lg_events ?m), n,
      Some (tip er_row_hash a (lg_events ?m)))"
    using chain_point_healthy [OF hm] .
  then have cp: "chain_point l = Inr (tip er_row_hash a (lg_events l), n,
      Some (tip er_row_hash a (lg_events l)))"
    by (simp add: healthy_set_schema_parts ledger_parts)
  let ?l' = "snd (append x new l)" and ?m' = "snd (append x new ?m)"
  have row: "appended x new ?m p = appended x new l p" for p
    by (simp add: appended_def ledger_parts next_rowid_def)
  have eq: "lg_events (set_schema SCHEMA_HEAD ?l') = lg_events ?m'"
    "lg_bases (set_schema SCHEMA_HEAD ?l') = lg_bases ?m'"
    using append_parts [OF cp, of x new] append_parts [OF cpm, of x new]
    by (simp_all add: ledger_parts row)
  have sets: "setting (set_schema SCHEMA_HEAD ?l') k = setting ?m' k" for k
    using append_settings [OF cp, of x new] append_settings [OF cpm, of x new]
    by (simp add: ledger_parts row)
  have ver: "lg_version (set_schema SCHEMA_HEAD ?l') = lg_version ?m'"
    using append_settings(2) [OF cpm, of x new] by (simp add: ledger_parts schema_marks)
  have "same_chain ?m' (set_schema SCHEMA_HEAD ?l')"
    using eq sets ver by (simp add: same_chain_def)
  then have "healthy x (set_schema SCHEMA_HEAD ?l')"
    using append_healthy [OF assms(2) hm] by (simp add: healthy_frame)
  moreover have "lg_version ?l' = SCHEMA_HEAD_LOST"
    "setting ?l' KEY_HEAD_LOST_AT = setting l KEY_HEAD_LOST_AT"
    using append_settings [OF cp, of x new] v by (simp_all add: schema_marks)
  ultimately show ?thesis using assms(1) by (simp add: lost_at_def)
qed

text \<open>A healthy ledger whose record of the chain's end is deleted from the settings is reported,
  as a missing head: at the id after the last row while nothing was written since, and, however
  many events are written afterwards, at the first of them. No append heals it.\<close>

theorem removed_head_stays_reported:
  assumes "sha_32 x" "healthy x l" "i64_ok (next_rowid l ''events'' (map er_id (lg_events l)))"
    and "shorn = delete_settings (\<lambda>k. k = KEY_HEAD) l"
  shows "(\<exists>r. check x shorn = Inr r \<and> ck_first_fault r = Some (last_id l + 1, HeadMissing)) \<and>
    (\<exists>r. check x (foldl (\<lambda>l e. snd (append x e l)) shorn (new # news)) = Inr r \<and>
       ck_first_fault r =
         Some (next_rowid l ''events'' (map er_id (lg_events l)), HeadMissing))"
proof
  from assms(2) obtain a where a: "anchor l = Inr a" "hashes_ok (lg_events l)"
    "event_chain x a (raws l)" and v: "lg_version l = SCHEMA_HEAD"
    by (auto simp: healthy_def)
  have sets: "setting shorn k = (if k = KEY_HEAD then None else setting l k)" for k
    by (simp add: assms(4) wipe_parts)
  have parts: "lg_events shorn = lg_events l" "lg_bases shorn = lg_bases l"
    "lg_version shorn = lg_version l" "lg_seq shorn = lg_seq l"
    by (simp_all add: assms(4) delete_settings_def)
  have same: "anchor shorn = Inr a" "chain_head shorn = Inr None"
    using a(1) by (simp_all add: anchor_def chain_head_def transpose_e_def sets)
  show "\<exists>r. check x shorn = Inr r \<and> ck_first_fault r = Some (last_id l + 1, HeadMissing)"
    using check_when_linked [OF same, of x] a(2,3) v
    by (simp add: parts check_end_def schema_marks walk_end_def walk_start_def last_id_def)
  define t where "t = tip er_row_hash a (lg_events l)"
  have tail: "(if lg_events shorn = [] then Inr a
      else from_bytes (er_row_hash (last (lg_events shorn)))) = Inr t"
    using a(2) unfolding parts t_def
    by (cases "lg_events l = []") (simp_all add: tip_last hashes_ok_def list_all_iff from_bytes_def)
  obtain n where cp: "chain_point shorn = Inr (t, n, None)"
    using same tail by (simp add: chain_point_def Let_def)
  obtain m where cpl: "chain_point l = Inr (t, m, Some t)"
    using chain_point_healthy [OF assms(2)] a(1) unfolding t_def by (metis Inr_inject)
  define l1 where "l1 = snd (append x new shorn)"
  have row: "appended x new shorn p = appended x new l p" for p
    by (simp add: appended_def parts next_rowid_def)
  have "same_chain (snd (append x new l)) (set_schema SCHEMA_HEAD l1)"
    using append_parts [OF cp, of x new] append_parts [OF cpl, of x new]
      append_settings [OF cp, of x new] append_settings [OF cpl, of x new] v
    by (simp add: same_chain_def l1_def row parts sets ledger_parts schema_marks)
  then have "healthy x (set_schema SCHEMA_HEAD l1)"
    using append_healthy [OF assms(1,2)] by (simp add: healthy_frame)
  moreover have "er_id (appended x new l t) = next_rowid l ''events'' (map er_id (lg_events l))"
    by (simp add: appended_def)
  moreover have "lg_version l1 = SCHEMA_HEAD_LOST"
    "setting l1 KEY_HEAD_LOST_AT = Some (show_int (er_id (appended x new l t)))"
    using append_settings [OF cp, of x new] v
    by (simp_all add: l1_def row parts schema_marks)
  ultimately have "lost_at x l1 (next_rowid l ''events'' (map er_id (lg_events l)))"
    using assms(3) by (simp add: lost_at_def)
  then have "lost_at x (foldl (\<lambda>l e. snd (append x e l)) l1 news)
      (next_rowid l ''events'' (map er_id (lg_events l)))"
    by (rule foldl_inv [where P = "\<lambda>l'. lost_at x l' (next_rowid l ''events'' (map er_id (lg_events l)))"])
      (simp add: lost_append assms(1))
  from lost_reported [OF this]
  show "\<exists>r. check x (foldl (\<lambda>l e. snd (append x e l)) shorn (new # news)) = Inr r \<and>
       ck_first_fault r = Some (next_rowid l ''events'' (map er_id (lg_events l)), HeadMissing)"
    by (simp add: l1_def)
qed

theorem removed_head_stays_reported_witness:
  "\<exists>r. check sample_ext (foldl (\<lambda>l e. snd (append sample_ext e l))
      (delete_settings (\<lambda>k. k = KEY_HEAD) sample_ledger) [sample_event, sample_event]) = Inr r \<and>
    ck_first_fault r = Some (1, HeadMissing)"
proof -
  have "next_rowid sample_ledger ''events'' (map er_id (lg_events sample_ledger)) = 1"
    by (simp add: next_rowid_def sample_row)
      (simp add: sample_ledger_def ledger_parts empty_file_def)
  then show ?thesis
    using removed_head_stays_reported [OF sample_sha_32 sample_healthy _ refl, of sample_event
        "[sample_event]"]
    by (simp add: i64_ok_def)
qed

end
