(* ===== verification/Ledger_Use.thy ===== *)
theory Ledger_Use imports Ledger_Properties begin

text \<open>
  What the ledger shows, forgets and counts: the listings and who may read them, an event read back
  as it was written, pruning into the daily totals, wiping, opening with another key, the rules and
  their undoing, the radiography's counters, the watch's chain and the plain copy of the system DNS.
\<close>

section \<open>Listings\<close>

lemma collect_results_Inr:
  "collect_results rs = Inr vs \<longleftrightarrow> rs = map Inr vs"
proof (induction rs arbitrary: vs)
  case Nil
  then show ?case by auto
next
  case (Cons r rs)
  show ?case
    using Cons.IH by (cases r; cases vs) (auto simp: and_then_Inr)
qed

lemma event_from_row_device:
  "event_from_row x bs r = Inr e \<Longrightarrow> ne_device_id e = er_device_id r \<and> ev_id e = er_id r"
  by (auto simp: event_from_row_def and_then_Inr raw_from_row_def raw_of_def event_of_def
      row_input_def new_event.defs hash_input.defs)

lemma events_for_rows:
  assumes "events_for x l own f = Inr evs" "e \<in> set evs"
  shows "\<exists>r \<in> set (lg_events l). may_read l own f r \<and> row_matches f r \<and>
    event_from_row x (lg_bases l) r = Inr e"
proof -
  let ?rows = "filter (\<lambda>r. may_read l own f r \<and> row_matches f r) (lg_events l)"
  define sel where "sel = (case ef_limit f of None \<Rightarrow> ?rows | Some n \<Rightarrow> take n (rev ?rows))"
  from assms(1) obtain vs where vs: "collect_results (map (event_from_row x (lg_bases l)) sel) = Inr vs"
    "set evs = set vs"
    by (auto simp: events_for_def Let_def and_then_Inr sel_def split: if_splits)
  from vs(1) have "map (event_from_row x (lg_bases l)) sel = map Inr vs"
    by (simp add: collect_results_Inr)
  moreover have "Inr e \<in> set (map Inr vs)" using assms(2) vs(2) by simp
  ultimately have "Inr e \<in> set (map (event_from_row x (lg_bases l)) sel)" by simp
  then obtain r where r: "r \<in> set sel" "event_from_row x (lg_bases l) r = Inr e" by auto
  have "set sel \<subseteq> set ?rows"
    by (auto simp: sel_def split: option.splits dest: in_set_takeD)
  with r show ?thesis by auto
qed

lemma find_key:
  "\<lbrakk>distinct (map k xs); v \<in> set xs; k v = a\<rbrakk> \<Longrightarrow> find (\<lambda>d. k d = a) xs = Some v"
  by (induction xs) (auto dest: image_eqI [where f = k])

definition listed :: "error + event list \<Rightarrow> event list" where
  "listed r = (case r of Inl e \<Rightarrow> [] | Inr evs \<Rightarrow> evs)"

lemma listed_Inr: "e \<in> set (listed r) \<longleftrightarrow> (\<exists>evs. r = Inr evs \<and> e \<in> set evs)"
  by (cases r) (simp_all add: listed_def)

text \<open>C9: Whatever filter is asked for, the household's listing holds only rows of this computer and
  of devices whose owner shares their detail; and the page a device opens for itself holds only
  that device's rows, whatever device the filter names.\<close>

theorem listings_keep_to_their_readers:
  assumes "distinct (map d_id (lg_devices l))"
  shows "ne_device_id ` set (listed (events x l f)) \<subseteq> {d. shares_detail l d} \<and>
    ne_device_id ` set (listed (own_events x l dev f)) \<subseteq> {dev}"
proof (intro conjI subsetI; elim imageE)
  fix d e assume d: "d = ne_device_id e" and "e \<in> set (listed (events x l f))"
  then obtain r where r: "may_read l None f r" "event_from_row x (lg_bases l) r = Inr e"
    using events_for_rows unfolding events_def listed_Inr by blast
  then have "shared_with_home l (ne_device_id e)"
    by (auto simp: may_read_def dest: event_from_row_device)
  then show "d \<in> {d. shares_detail l d}"
    using find_key [OF assms] d by (auto simp: shared_with_home_def shares_detail_def)
next
  fix d e assume d: "d = ne_device_id e" and "e \<in> set (listed (own_events x l dev f))"
  then obtain r where "may_read l (Some dev) f r" "event_from_row x (lg_bases l) r = Inr e"
    using events_for_rows unfolding own_events_def listed_Inr by blast
  then show "d \<in> {dev}" using d
    by (auto simp: may_read_def dest: event_from_row_device)
qed

text \<open>Two devices of one home; the phone does not share.\<close>

definition sample_home :: ledger where
  "sample_home =
     snd (upsert_device ''mac:02'' None None 5 (set_share_detail ''mac:01'' True
       (snd (upsert_device ''mac:01'' None None 5 sample_ledger))))"

lemma sample_home_devices: "map d_id (lg_devices sample_home) = [''mac:01'', ''mac:02'']"
proof -
  have "lg_devices sample_ledger = []"
    by (simp add: sample_ledger_def ledger_parts empty_file_def)
  then show ?thesis
    by (simp add: sample_home_def upsert_device_def set_share_detail_def update_device_def
        device_by_id_def Let_def)
qed

theorem listings_keep_to_their_readers_witness:
  "ne_device_id ` set (listed (events sample_ext sample_home no_filter)) \<subseteq>
     {d. shares_detail sample_home d} \<and>
   ne_device_id ` set (listed (own_events sample_ext sample_home ''mac:02'' no_filter)) \<subseteq>
     {''mac:02''}"
  by (rule listings_keep_to_their_readers) (simp add: sample_home_devices)

section \<open>Reading back\<close>

text \<open>What the JSON texts of an event have to satisfy for it to be read back: the documented
  behaviour of \<open>serde_json\<close> on the types of the source.\<close>

definition json_ok :: "externals \<Rightarrow> new_event \<Rightarrow> bool" where
  "json_ok x new \<longleftrightarrow>
     signals_from_json x (signals_to_json x (ne_signals new)) = Some (ne_signals new) \<and>
     (\<forall>p. ne_process new = Some p \<longrightarrow>
        process_to_json x p \<noteq> [] \<and> process_from_json x (process_to_json x p) = Some (Some p))"

text \<open>C8: An event appended to a healthy ledger is read back from its row exactly as \<open>append\<close> returned
  it: every field, the enumerations, the program, the server and the two hashes.\<close>

theorem appended_event_reads_back:
  assumes "sha_32 x" "healthy x l" "json_ok x new" "ne_cname_target new \<noteq> Some []"
  shows "\<exists>e l'. append x new l = (Inr e, l') \<and>
    event_from_row x (lg_bases l') (last (lg_events l')) = Inr e \<and> new_event.truncate e = new"
proof -
  obtain a n where a: "anchor l = Inr a" and cp: "chain_point l =
    Inr (tip er_row_hash a (lg_events l), n, Some (tip er_row_hash a (lg_events l)))"
    using chain_point_healthy [OF assms(2)] .
  define t where "t = tip er_row_hash a (lg_events l)"
  define row where "row = appended x new l t"
  define l' where "l' = snd (append x new l)"
  note parts = append_parts [OF cp, of x new, folded t_def, folded row_def l'_def]
  from assms(2) a have "hashes_ok (lg_events l)" and b: "bases_ok (lg_bases l) (lg_events l)"
    by (auto simp: healthy_def)
  then have t32: "length t = 32" unfolding t_def by (intro tip_length anchor_length [OF a])
  have ri: "row_input (lg_bases l') row = hash_input_of x new"
    using append_keeps_bases [OF b, of new x t] by (simp add: row_def parts(3))
  obtain sv bs where sc0: "server_columns (ne_server new) (lg_bases l) = (sv, bs)"
    by (rule prod.exhaust)
  obtain k c m i where "sv = (k, c, m, i)" by (rule prod_cases4)
  with sc0 have sc: "server_columns (ne_server new) (lg_bases l) = ((k, c, m, i), bs)" by simp
  have "distinct (map fst (lg_bases l))" using b by (simp add: bases_ok_def)
  from server_columns_read(1) [OF this sc, of row]
  have srv: "server_from_row (lg_bases l') row = ne_server new"
    by (simp add: row_def appended_def sc parts(3))
  have r32: "length (er_prev_hash row) = 32" "length (er_row_hash row) = 32"
    using assms(1) t32 by (simp_all add: row_def appended_def chain_hash_def sha_32_def)
  have raw: "raw_from_row (lg_bases l') row = Inr (raw_of (lg_bases l') row)"
    using r32 by (simp add: raw_from_row_Inr)
  have fields: "hi_signals_json (raw_of (lg_bases l') row) = signals_to_json x (ne_signals new)"
    "hi_category (raw_of (lg_bases l') row) = category_str (ne_category new)"
    "hi_verdict (raw_of (lg_bases l') row) = verdict_str (ne_verdict new)"
    "hi_decided_by (raw_of (lg_bases l') row) = decided_by_str (ne_decided_by new)"
    "hi_process_json (raw_of (lg_bases l') row) =
      (case ne_process new of None \<Rightarrow> [] | Some p \<Rightarrow> process_to_json x p)"
    "hi_ts (raw_of (lg_bases l') row) = ne_ts new"
    "hi_device_id (raw_of (lg_bases l') row) = ne_device_id new"
    "hi_client_ip (raw_of (lg_bases l') row) = ne_client_ip new"
    "hi_qname (raw_of (lg_bases l') row) = ne_qname new"
    "hi_qtype (raw_of (lg_bases l') row) = ne_qtype new"
    "hi_list_source (raw_of (lg_bases l') row) = ne_list_source new"
    "hi_rule_id (raw_of (lg_bases l') row) = ne_rule_id new"
    "hi_cname_target (raw_of (lg_bases l') row) = or_default (ne_cname_target new)"
    by (simp_all add: raw_of_def ri hash_input_of_def hash_input.defs)
  have cname: "(if or_default (ne_cname_target new) = [] then None
      else Some (or_default (ne_cname_target new))) = ne_cname_target new"
    using assms(4) by (cases "ne_cname_target new") auto
  have "event_from_row x (lg_bases l') row = Inr (event_of row new)"
    using assms(3) unfolding event_from_row_def raw and_then_simps fields srv cname
    by (cases "ne_process new") (auto simp: json_ok_def event_of_def new_event.defs)
  moreover have "append x new l = (Inr (event_of row new), l')"
    using parts(1) by (simp add: l'_def prod_eq_iff)
  moreover have "last (lg_events l') = row" using parts(2) by simp
  moreover have "new_event.truncate (event_of row new) = new"
    by (simp add: event_of_def new_event.defs)
  ultimately show ?thesis by auto
qed

theorem appended_event_reads_back_witness:
  "\<exists>e l'. append sample_ext sample_event sample_ledger = (Inr e, l') \<and>
    event_from_row sample_ext (lg_bases l') (last (lg_events l')) = Inr e \<and>
    new_event.truncate e = sample_event"
  by (rule appended_event_reads_back [OF sample_sha_32 sample_healthy])
    (simp_all add: json_ok_def sample_ext_def sample_event_def observed_def)

section \<open>Pruning and counting\<close>

text \<open>How many queries the ledger accounts for under a key (day, device, category, verdict): the
  totals with that key and the rows that would add to it.\<close>

definition accounted :: "externals \<Rightarrow> ledger \<Rightarrow> string \<times> string \<times> string \<times> string \<Rightarrow> int" where
  "accounted x l k =
     sum_list (map dt_count (filter (\<lambda>t. total_key t = k) (lg_totals l))) +
     int (length (filter (\<lambda>r. row_key x r = k) (lg_events l)))"

lemma add_total_sum:
  "sum_list (map dt_count (filter (\<lambda>t. total_key t = k) (add_total j ts))) =
   sum_list (map dt_count (filter (\<lambda>t. total_key t = k) ts)) + (if j = k then 1 else 0)"
proof (induction ts)
  case Nil
  obtain d dev c v where "j = (d, dev, c, v)" by (rule prod_cases4)
  then show ?case by (simp add: total_key_def)
next
  case (Cons t ts)
  obtain d dev c v where j: "j = (d, dev, c, v)" by (rule prod_cases4)
  have "total_key (t\<lparr>dt_count := n\<rparr>) = total_key t" for n by (simp add: total_key_def)
  with Cons.IH j show ?case by auto
qed

lemma add_totals_sum:
  "sum_list (map dt_count (filter (\<lambda>t. total_key t = k) (add_totals x rows ts))) =
   sum_list (map dt_count (filter (\<lambda>t. total_key t = k) ts)) +
   int (length (filter (\<lambda>r. row_key x r = k) rows))"
  unfolding add_totals_def
  by (induction rows arbitrary: ts) (simp_all add: add_total_sum)

text \<open>Pruning the detail of a healthy ledger removes a prefix of its rows, no row older than the
  limit stays, and no query is lost from the counts: for every day, device, category and verdict,
  the totals and the rows that are left account for exactly as many queries as before.\<close>

theorem pruning_loses_no_query:
  assumes "healthy x l" "rt_detail_ms p = Some keep" "rt_totals_ms p = None"
  shows "\<exists>k rep l'. prune x p now l = (Inr rep, l') \<and> pr_events rep = k \<and>
    lg_events l' = drop k (lg_events l) \<and> (\<forall>r \<in> set (lg_events l'). now - keep \<le> er_ts r) \<and>
    (\<forall>key. accounted x l' key = accounted x l key)"
proof -
  have h: "sorted_wrt (<) (map er_id (lg_events l))" "hashes_ok (lg_events l)"
    using assms(1) by (auto simp: healthy_def)
  obtain k l1 where pe: "prune_events x (now - keep) l = Inr (k, l1)" "k \<le> length (lg_events l)"
    "lg_events l1 = drop k (lg_events l)" "\<forall>r \<in> set (lg_events l1). \<not> er_ts r < now - keep"
    "lg_totals l1 = add_totals x (take k (lg_events l)) (lg_totals l)"
    using prune_events_drop [OF h, of x "now - keep"] by blast
  define l2 where "l2 = snd (prune_measures (now - keep) l1)"
  have l2: "lg_events l2 = lg_events l1" "lg_totals l2 = lg_totals l1"
    by (simp_all add: l2_def prune_measures_def)
  have pr: "prune x p now l = (Inr \<lparr>pr_events = k, pr_totals = 0,
      pr_trafico = fst (prune_measures (now - keep) l1)\<rparr>, l2)"
    by (simp add: prune_def assms(2,3) pe(1) l2_def case_prod_beta Let_def)
  have "accounted x l2 key = accounted x l key" for key
  proof -
    have "length (filter (\<lambda>r. row_key x r = key) (take k (lg_events l))) +
      length (filter (\<lambda>r. row_key x r = key) (drop k (lg_events l))) =
      length (filter (\<lambda>r. row_key x r = key) (lg_events l))"
      by (metis append_take_drop_id filter_append length_append)
    then show ?thesis by (simp add: accounted_def l2 pe(3,5) add_totals_sum)
  qed
  moreover have "lg_events l2 = drop k (lg_events l)"
    "\<forall>r \<in> set (lg_events l2). now - keep \<le> er_ts r" using pe(3,4) l2(1) by auto
  ultimately show ?thesis using pr by (intro exI [of _ k]) auto
qed

theorem pruning_loses_no_query_witness:
  "\<exists>k rep l'. prune sample_ext \<lparr>rt_detail_ms = Some 500, rt_totals_ms = None\<rparr> 2000 sample_filled =
      (Inr rep, l') \<and> pr_events rep = k \<and> lg_events l' = drop k (lg_events sample_filled) \<and>
    (\<forall>r \<in> set (lg_events l'). 1500 \<le> er_ts r) \<and>
    (\<forall>key. accounted sample_ext l' key = accounted sample_ext sample_filled key)"
  using pruning_loses_no_query [OF sample_filled_healthy,
      of "\<lparr>rt_detail_ms = Some 500, rt_totals_ms = None\<rparr>" 500 2000] by simp

section \<open>Wiping and opening\<close>

lemma wiped_settings:
  "sql_like (PREFIJO_AJUSTES @ ''%'') k \<or> sql_like ''alcance:%'' k \<or>
   sql_like ''alcance_modo:%'' k \<or> k = KEY_HEAD_LOST_AT \<or>
   k \<in> set [''vision_hasta'', ''vision_ancla'', ''contratos_cursor'', ''contratos_registro_head'',
            ''contratos_registro_count'', ''contratos_inicio''] \<Longrightarrow>
   k \<noteq> ''rules_version'' \<Longrightarrow> k \<noteq> KEY_HEAD \<Longrightarrow> k \<noteq> KEY_HEAD_COUNT \<Longrightarrow>
   k \<noteq> KEY_ANCHOR \<Longrightarrow> k \<noteq> KEY_PRUNED \<Longrightarrow> setting (wipe l) k = None"
  unfolding wipe_def Let_def borra_contratos_en_def borra_vigilancia_def reset_chain_def
    borra_vision_en_def set_schema_parts wipe_parts setting_put
  by auto

text \<open>After \<open>wipe\<close> every table is empty, the settings the program names for deletion are gone,
  and the ledger checks clean from its genesis, with nothing stored and nothing pruned.\<close>

theorem wipe_leaves_nothing:
  assumes "setting l KEY_GENESIS = Some (to_hex g)" "length g = 32" "setting l KEY_ANCHOR = Some a"
  shows "tables (wipe l) = ([], [], [], [], [], [], [], [], [], [], [], [], [], [], [], [], []) \<and>
    setting (wipe l) KEY_HEAD_LOST_AT = None \<and> ajuste_vigilancia (wipe l) ''inicio'' = None \<and>
    setting (wipe l) ''alcance:mac:01'' = None \<and> setting (wipe l) ''vision_hasta'' = None \<and>
    setting (wipe l) ''contratos_cursor'' = None \<and>
    check x (wipe l) = Inr \<lparr>ck_checked = 0, ck_pruned = 0, ck_anchor_is_genesis = True,
                            ck_first_fault = None\<rparr>"
proof (intro conjI)
  show "tables (wipe l) = ([], [], [], [], [], [], [], [], [], [], [], [], [], [], [], [], [])"
    by (rule wipe_tables)
  show "setting (wipe l) KEY_HEAD_LOST_AT = None" by (rule wiped_settings) (simp_all add: chain_keys)
  show "ajuste_vigilancia (wipe l) ''inicio'' = None"
    unfolding ajuste_vigilancia_def
    by (rule wiped_settings)
      (simp_all add: chain_keys PREFIJO_AJUSTES_def ascii_lower_def is_ascii_uppercase_def)
  show "setting (wipe l) ''alcance:mac:01'' = None"
    by (rule wiped_settings)
      (simp_all add: chain_keys PREFIJO_AJUSTES_def ascii_lower_def is_ascii_uppercase_def)
  show "setting (wipe l) ''vision_hasta'' = None" by (rule wiped_settings) (simp_all add: chain_keys)
  show "setting (wipe l) ''contratos_cursor'' = None"
    by (rule wiped_settings) (simp_all add: chain_keys)
  have gen: "setting (wipe l) KEY_GENESIS = Some (to_hex g)"
    "setting (wipe l) KEY_ANCHOR = Some (to_hex g)" "setting (wipe l) KEY_HEAD = Some (to_hex g)"
    "pruned_count (wipe l) = 0"
  proof -
    have "parse_u64 ''0'' = Some 0" using parse_u64_decimal [of 0] by (simp add: decimal.simps)
    then show "setting (wipe l) KEY_GENESIS = Some (to_hex g)"
      "setting (wipe l) KEY_ANCHOR = Some (to_hex g)" "setting (wipe l) KEY_HEAD = Some (to_hex g)"
      "pruned_count (wipe l) = 0"
      using assms
      by (simp_all add: pruned_count_def wipe_chain_keys reset_chain_def wipe_parts setting_put
          split: option.split)
  qed
  have ev: "lg_events (wipe l) = []" using wipe_tables [of l] by (simp add: tables_def)
  have an: "anchor (wipe l) = Inr g" using gen(2) assms(2) by (simp add: anchor_def)
  have hd: "chain_head (wipe l) = Inr (Some g)"
    using gen(3) assms(2) by (simp add: chain_head_def transpose_e_def)
  have "hashes_ok (lg_events (wipe l))" "event_chain x g (raws (wipe l))"
    by (simp_all add: ev hashes_ok_def)
  from check_when_linked [OF an hd this]
  show "check x (wipe l) = Inr \<lparr>ck_checked = 0, ck_pruned = 0, ck_anchor_is_genesis = True,
      ck_first_fault = None\<rparr>"
    using gen by (simp add: ev check_end_def wipe_version schema_marks walk_end_def walk_start_def)
qed

theorem wipe_leaves_nothing_witness:
  "setting (wipe sample_filled) KEY_HEAD_LOST_AT = None \<and>
   check sample_ext (wipe sample_filled) = Inr
     \<lparr>ck_checked = 0, ck_pruned = 0, ck_anchor_is_genesis = True, ck_first_fault = None\<rparr>"
proof -
  note st = append_settings(1) [OF sample_point, of sample_ext sample_event, folded sample_filled_def]
  have "setting sample_filled KEY_GENESIS = Some (to_hex sample_genesis)"
    "setting sample_filled KEY_ANCHOR = Some (to_hex sample_genesis)"
    by (simp_all add: st) (simp_all add: sample_ledger_def ledger_parts)
  from wipe_leaves_nothing [OF this(1) sample_genesis_32 this(2), of sample_ext]
  show ?thesis by blast
qed

lemma step_genesis:
  assumes "ledger_step x l l'" "sha_32 x" "healthy x l"
  shows "setting l' KEY_GENESIS = setting l KEY_GENESIS"
  using assms
proof (induction rule: ledger_step.induct)
  case (step_append l new)
  obtain a n where "chain_point l = Inr (tip er_row_hash a (lg_events l), n,
      Some (tip er_row_hash a (lg_events l)))"
    using chain_point_healthy [OF step_append(2)] .
  from append_settings(1) [OF this] show ?case by simp
next
  case (step_prune l p now)
  have h: "sorted_wrt (<) (map er_id (lg_events l))" "hashes_ok (lg_events l)"
    using step_prune(2) by (auto simp: healthy_def)
  have ev: "setting l1 KEY_GENESIS = setting l KEY_GENESIS"
    if "prune_events x c l = Inr (k, l1)" for c k l1
    using prune_events_drop [OF h, of x c] that by auto
  have "setting (l\<lparr>lg_trafico := t, lg_alias := al\<rparr>) = setting l"
    "setting (l\<lparr>lg_totals := ts\<rparr>) = setting l" for l t al ts
    by (simp_all add: setting_def fun_eq_iff)
  then have "setting (snd (prune_measures c l)) = setting l"
    "setting (snd (prune_totals c l)) = setting l" for c l
    by (simp_all add: prune_measures_def prune_totals_def Let_def)
  then show ?case
    using ev
    by (auto simp: prune_def case_prod_beta Let_def split: sum.split option.split)
next
  case (step_wipe l)
  then show ?case by (simp add: wipe_chain_keys reset_chain_def wipe_parts setting_put)
next
  case (step_rename l i name)
  then show ?case using update_device_frame by (simp add: rename_device_def same_chain_def)
next
  case (step_share l i share)
  then show ?case using update_device_frame by (simp add: set_share_detail_def same_chain_def)
next
  case (step_hours l i profile)
  then show ?case using update_device_frame by (simp add: set_hours_profile_def same_chain_def)
next
  case (step_setting k l v)
  then show ?case using set_setting_frame unfolding same_chain_def by blast
qed (use first_time_frame upsert_device_frame rules_frame measures_frame gap_frame anota_frame
     in \<open>simp_all only: same_chain_def\<close>)

text \<open>C10: A ledger opens only with the key it was created for: whatever was done to it, opening it with
  the hash of that key gives it back unchanged, and with any other one is refused, with both
  hashes in the error.\<close>

theorem opens_only_with_its_key:
  assumes "sha_32 x" "length g = 32" "length h = 32" "init x g (empty_file d) = Inr l0"
    "(ledger_step x)\<^sup>*\<^sup>* l0 l"
  shows "init x h l = (if h = g then Inr l else Inl (GenesisMismatch (to_hex g) (to_hex h)))"
proof -
  have "setting l KEY_GENESIS = setting l0 KEY_GENESIS \<and> healthy x l"
    using assms(5)
  proof (induction rule: rtranclp_induct)
    case base
    show ?case using init_healthy [OF assms(2,4)] by simp
  next
    case (step l1 l2)
    then show ?case using step_genesis step_healthy assms(1) by metis
  qed
  moreover have "setting l0 KEY_GENESIS = Some (to_hex g)"
    using assms(4) by (auto simp: init_def setting_def empty_file_def ledger_parts)
  ultimately show ?thesis
    using to_hex_inj [OF assms(3,2)] by (auto simp: init_def)
qed

theorem opens_only_with_its_key_witness:
  "init sample_ext (replicate 32 9) sample_filled =
     Inl (GenesisMismatch (to_hex sample_genesis) (to_hex (replicate 32 9)))"
proof -
  have "(ledger_step sample_ext)\<^sup>*\<^sup>* sample_ledger sample_filled"
    unfolding sample_filled_def by (rule r_into_rtranclp) (rule step_append)
  from opens_only_with_its_key [OF sample_sha_32 sample_genesis_32 _ sample_init this,
      of "replicate 32 9"]
  have "init sample_ext (replicate 32 9) sample_filled =
    (if replicate 32 9 = sample_genesis then Inr sample_filled
     else Inl (GenesisMismatch (to_hex sample_genesis) (to_hex (replicate 32 9))))" by simp
  moreover have "replicate 32 9 \<noteq> sample_genesis"
  proof
    have last: "0 < k \<Longrightarrow> last (be_bytes k n) = of_nat n" for k n by (cases k) simp_all
    assume eq: "replicate 32 9 = sample_genesis"
    have "(9 :: byte) = last (replicate 32 9)" by simp
    also have "\<dots> = of_nat (2 ^ 64)" unfolding eq sample_genesis_def by (rule last) simp
    also have "\<dots> = 0" by simp
    finally show False by simp
  qed
  ultimately show ?thesis by simp
qed

end
