(* ===== verification/Ledger_Views.thy ===== *)
theory Ledger_Views imports Ledger_Use begin

text \<open>
  Properties of the smaller parts of the ledger: the person's rules and their undoing, the counters
  of the radiography, the watch's own chain and the plain copy of the system DNS beside the file.
\<close>

section \<open>Rules\<close>

definition undo_r :: "int \<Rightarrow> int \<Rightarrow> rule \<Rightarrow> rule" where
  "undo_r i now r = (if r_id r = i \<and> r_undone_at r = None then r\<lparr>r_undone_at := Some now\<rparr> else r)"

lemma rule_from_undone:
  "rule_from_row (if rr_id w = i \<and> rr_undone_at w = None then w\<lparr>rr_undone_at := Some now\<rparr> else w) =
   and_then (rule_from_row w) (\<lambda>r. Inr (undo_r i now r))"
proof (cases "rule_from_row w")
  case (Inl e)
  then show ?thesis
    by (auto simp: rule_from_row_def and_then_def split: sum.splits)
next
  case (Inr r)
  then obtain s k a where p: "scope_parse (rr_scope w) = Inr s"
    "match_kind_parse (rr_match_kind w) = Inr k" "action_parse (rr_action w) = Inr a"
    and r: "r_id r = rr_id w" "r_undone_at r = rr_undone_at w"
    by (auto simp: rule_from_row_def and_then_Inr)
  from Inr p have "r = \<lparr>r_id = rr_id w, r_scope = s, r_device_id = rr_device_id w, r_match_kind = k,
          r_pattern = rr_pattern w, r_action = a, r_created_at = rr_created_at w,
          r_created_by = rr_created_by w, r_expires_at = rr_expires_at w,
          r_undone_at = rr_undone_at w, r_confirmed = rr_confirmed w\<rparr>"
    by (simp add: rule_from_row_def)
  then show ?thesis using Inr p by (simp add: undo_r_def) (simp add: rule_from_row_def)
qed

lemma collect_undone:
  "collect_results (map rule_from_row (map (\<lambda>w. if rr_id w = i \<and> rr_undone_at w = None
      then w\<lparr>rr_undone_at := Some now\<rparr> else w) ws)) =
   and_then (collect_results (map rule_from_row ws)) (\<lambda>rs. Inr (map (undo_r i now) rs))"
proof (induction ws)
  case Nil
  then show ?case by simp
next
  case (Cons w ws)
  show ?case
    unfolding list.map collect_results.simps rule_from_undone Cons.IH
    by (cases "rule_from_row w"; cases "collect_results (map rule_from_row ws)") simp_all
qed

lemma active_undone:
  "filter (\<lambda>r. is_active r t) (map (undo_r i now) rs) =
   filter (\<lambda>r. r_id r \<noteq> i) (filter (\<lambda>r. is_active r t) rs)"
proof (induction rs)
  case Nil
  then show ?case by simp
next
  case (Cons r rs)
  have "r_id r \<noteq> i \<Longrightarrow> undo_r i now r = r" by (simp add: undo_r_def)
  moreover have "r_id r = i \<Longrightarrow> \<not> is_active (undo_r i now r) t"
    by (auto simp: undo_r_def is_active_def)
  ultimately show ?case using Cons.IH by (cases "r_id r = i") auto
qed

lemma rules_version_bumped:
  "rules_version (bump_rules_version x l) = (rules_version l + 1) mod 2 ^ 64"
proof -
  have "setting (bump_rules_version x l) ''rules_version'' =
      Some (decimal ((rules_version l + 1) mod 2 ^ 64))"
    unfolding bump_rules_version_def setting_set_setting by simp
  moreover have "parse_u64 (decimal ((rules_version l + 1) mod 2 ^ 64)) =
      Some ((rules_version l + 1) mod 2 ^ 64)"
    by (rule parse_u64_decimal) simp
  ultimately show ?thesis by (simp add: rules_version_def [of "bump_rules_version x l"])
qed

text \<open>Undoing a rule takes exactly that rule out of the rules in force, at every time and for good,
  leaves all the others as they were and in their order, and moves the version number the running
  resolver watches.\<close>

theorem undoing_takes_one_rule_out:
  "active_rules (snd (undo_rule x i now l)) t =
     and_then (active_rules l t) (\<lambda>rs. Inr (filter (\<lambda>r. r_id r \<noteq> i) rs)) \<and>
   rules_version (snd (undo_rule x i now l)) = (rules_version l + 1) mod 2 ^ 64"
proof
  have rows: "lg_rules (snd (undo_rule x i now l)) =
    undo_where (\<lambda>w. rr_id w = i) now (lg_rules l)"
    by (simp add: undo_rule_def bump_rules_version_def ledger_parts)
  have "rules (snd (undo_rule x i now l)) =
    and_then (rules l) (\<lambda>rs. Inr (map (undo_r i now) rs))"
    unfolding rules_def rows undo_where_def rev_map by (rule collect_undone)
  then show "active_rules (snd (undo_rule x i now l)) t =
     and_then (active_rules l t) (\<lambda>rs. Inr (filter (\<lambda>r. r_id r \<noteq> i) rs))"
    unfolding active_rules_def by (cases "rules l") (simp_all add: active_undone)
  have "rules_version (l\<lparr>lg_rules := rs\<rparr>) = rules_version l" for rs
    by (simp add: rules_version_def setting_def)
  then show "rules_version (snd (undo_rule x i now l)) = (rules_version l + 1) mod 2 ^ 64"
    by (simp add: undo_rule_def rules_version_bumped)
qed

text \<open>A rule the person adds is stored as given with a fresh id, listed first, and in force as long
  as it has not expired.\<close>

theorem added_rule_is_in_force:
  assumes "active_rules l t = Inr rs"
  shows "active_rules (snd (add_rule x n l)) t =
      Inr (if is_active (fst (add_rule x n l)) t then fst (add_rule x n l) # rs else rs) \<and>
    r_id (fst (add_rule x n l)) \<notin> rr_id ` set (lg_rules l) \<and>
    (is_active (fst (add_rule x n l)) t \<longleftrightarrow>
       (case nr_expires_at n of None \<Rightarrow> True | Some e \<Rightarrow> e > t))"
proof -
  define i where "i = next_rowid l ''rules'' (map rr_id (lg_rules l))"
  have r: "fst (add_rule x n l) = rule_of_new i n"
    by (simp add: add_rule_def Let_def i_def)
  have rows: "lg_rules (snd (add_rule x n l)) = lg_rules l @ [rule_row_of (rule_of_new i n)]"
    by (simp add: add_rule_def Let_def bump_rules_version_def ledger_parts i_def)
  from assms obtain all where all: "rules l = Inr all" "rs = filter (\<lambda>r. is_active r t) all"
    by (auto simp: active_rules_def and_then_Inr)
  have "rules (snd (add_rule x n l)) = Inr (rule_of_new i n # all)"
    using all(1) unfolding rules_def rows by simp
  moreover have "i \<notin> rr_id ` set (lg_rules l)"
    using next_rowid_gt [of _ "map rr_id (lg_rules l)" l "''rules''"] by (auto simp: i_def)
  ultimately show ?thesis
    using all(2) by (simp add: r active_rules_def rule_of_new_def is_active_def)
qed

definition sample_new_rule :: new_rule where
  "sample_new_rule =
     \<lparr>nr_scope = Home_s, nr_device_id = None, nr_match_kind = Domain_k,
      nr_pattern = ''tracker.example'', nr_action = Cortar, nr_created_at = 10,
      nr_created_by = ''usuario'', nr_expires_at = Some 100, nr_confirmed = False\<rparr>"

theorem added_rule_is_in_force_witness:
  "active_rules (snd (add_rule sample_ext sample_new_rule sample_ledger)) 50 =
     Inr [fst (add_rule sample_ext sample_new_rule sample_ledger)]"
proof -
  have "active_rules sample_ledger 50 = Inr []"
    by (simp add: active_rules_def rules_def sample_ledger_def ledger_parts empty_file_def)
  from added_rule_is_in_force [OF this, of sample_ext sample_new_rule]
  show ?thesis by (simp add: sample_new_rule_def)
qed

section \<open>The counters of the radiography\<close>

definition window :: "ledger \<Rightarrow> int \<Rightarrow> int \<Rightarrow> event_row list" where
  "window l since until = filter (\<lambda>r. since \<le> er_ts r \<and> er_ts r < until) (lg_events l)"

lemma count_names_card: "count_names P rows = card {er_qname r | r. r \<in> set rows \<and> P r}"
proof -
  have "{er_qname r | r. r \<in> set rows \<and> P r} = set (map er_qname (filter P rows))" by auto
  then show ?thesis by (simp add: count_names_def length_remdups_card_conv)
qed

text \<open>One name, one list: no name of the window is in two of the lists' categories.\<close>

definition one_category :: "event_row list \<Rightarrow> bool" where
  "one_category rows \<longleftrightarrow>
     (\<forall>r \<in> set rows. \<exists>c. has_category c r) \<and>
     (\<forall>r \<in> set rows. \<forall>q \<in> set rows. \<forall>c d. er_qname r = er_qname q \<longrightarrow> has_category c r \<longrightarrow>
        has_category d q \<longrightarrow> c \<noteq> Desconocido \<longrightarrow> d \<noteq> Desconocido \<longrightarrow> c = d)"

text \<open>When the lists put no name of the window in two categories, the counters of the radiography
  add up: trackers, advertising, telemetry, expected names and names no list knows make exactly
  the distinct names asked. Each counts names, however often they were asked.\<close>

theorem counters_add_up:
  assumes "one_category (window l since until)"
  shows "let c = counters_of l since until in
    int (ct_trackers c + ct_ads c + ct_telemetry c + ct_expected c) + ct_unclassified c =
    int (ct_services c)"
proof -
  let ?w = "window l since until"
  let ?N = "\<lambda>P. {er_qname r | r. r \<in> set ?w \<and> P r}"
  have fin: "finite (?N P)" for P
  proof -
    have "?N P \<subseteq> er_qname ` set ?w" by auto
    then show ?thesis by (rule finite_subset) simp
  qed
  have disj: "?N (has_category a) \<inter> ?N (has_category b) = {}"
    if "a \<noteq> b" "a \<noteq> Desconocido" "b \<noteq> Desconocido" for a b
    using assms that unfolding one_category_def by blast
  have parts: "?N (\<lambda>r. \<not> has_category Desconocido r) =
    ?N (has_category Rastreador) \<union> ?N (has_category Publicidad) \<union> ?N (has_category Telemetria) \<union>
    ?N (has_category Esperado)" (is "?K = ?U")
  proof
    show "?K \<subseteq> ?U"
    proof
      fix q assume "q \<in> ?K"
      then obtain r where r: "q = er_qname r" "r \<in> set ?w" "\<not> has_category Desconocido r" by blast
      then obtain a where "has_category a r" using assms unfolding one_category_def by blast
      with r show "q \<in> ?U" by (cases a) auto
    qed
    show "?U \<subseteq> ?K" by (auto simp: has_category_def)
  qed
  have "card ?U = card (?N (has_category Rastreador)) + card (?N (has_category Publicidad)) +
    card (?N (has_category Telemetria)) + card (?N (has_category Esperado))"
    using disj [of Rastreador Publicidad] disj [of Rastreador Telemetria]
      disj [of Rastreador Esperado] disj [of Publicidad Telemetria]
      disj [of Publicidad Esperado] disj [of Telemetria Esperado] fin
    by (simp add: card_Un_disjoint Int_Un_distrib2)
  then show ?thesis
    unfolding counters_of_def Let_def window_def [symmetric] counters.simps count_names_card
      parts by simp
qed

lemma event_row_of_category:
  "er_category (event_row_of x i p sv new) = category_str (ne_category new)"
  by (cases sv) (simp add: event_row_of_def Let_def hash_input_of_def)

theorem counters_add_up_witness:
  "let c = counters_of sample_filled 0 5000 in
    int (ct_trackers c + ct_ads c + ct_telemetry c + ct_expected c) + ct_unclassified c =
    int (ct_services c)"
proof (rule counters_add_up)
  have "er_category sample_stored = category_str Desconocido"
    by (simp only: sample_stored_def appended_def event_row_of_category)
      (simp add: sample_event_def observed_def)
  then have "has_category Desconocido sample_stored"
    "has_category c sample_stored \<Longrightarrow> category_str c = category_str Desconocido" for c
    by (simp_all only: has_category_def)
  then have "has_category Desconocido sample_stored"
    "has_category c sample_stored \<Longrightarrow> c = Desconocido" for c
    using category_text.enc_inj by blast+
  then show "one_category (window sample_filled 0 5000)"
    by (auto simp: one_category_def window_def sample_filled_parts)
qed

section \<open>The watch's chain\<close>

text \<open>However many facts the watch writes, its chain verifies and the table keeps its bound of
  \<open>MAXIMO_FILAS\<close> rows: dropping the oldest rows moves the anchor with them.\<close>

theorem watch_verifies_and_stays_bounded:
  assumes "sha_32 x" "v_ok x l"
  shows "comprueba_vigilancia x (foldl (\<lambda>l n. snd (anota_vigilancia x n l)) l ns) = Inr None \<and>
    length (lg_vigilancia (foldl (\<lambda>l n. snd (anota_vigilancia x n l)) l ns)) \<le> MAXIMO_FILAS"
  using vigilancia_machine.inv_run [of x l ns] assms by (simp add: v_ok_def)

definition sample_fact :: nuevo_suceso where
  "sample_fact =
     \<lparr>ns_ts = 5, ns_tipo = ''arranque'', ns_clave = ''run|x'', ns_importancia = ''info'',
      ns_texto = ''algo'', ns_datos = ''{}''\<rparr>"

lemma sample_v_ok: "v_ok sample_ext sample_ledger"
proof -
  have "lg_vigilancia sample_ledger = []"
    by (simp add: sample_ledger_def set_schema_def put_def empty_file_def)
  moreover have "setting (empty_file None) k = None" for k by (simp add: setting_def empty_file_def)
  then have "setting sample_ledger KEY_V_ANCHOR = None" "setting sample_ledger KEY_V_HEAD = None"
    "setting sample_ledger KEY_GENESIS = Some (to_hex sample_genesis)"
    unfolding sample_ledger_def set_schema_parts setting_put
    by (simp_all add: chain_keys KEY_V_ANCHOR_def KEY_V_HEAD_def)
  then have "vigilancia_hash sample_ledger KEY_V_ANCHOR = Inr sample_genesis"
    "vigilancia_hash sample_ledger KEY_V_HEAD = Inr sample_genesis"
    by (simp_all add: vigilancia_hash_def sample_genesis_32)
  ultimately show ?thesis
    by (auto simp: v_ok_def comprueba_none v_hashes_ok_def v_linked_def)
qed

theorem watch_verifies_and_stays_bounded_witness:
  "comprueba_vigilancia sample_ext
     (foldl (\<lambda>l n. snd (anota_vigilancia sample_ext n l)) sample_ledger [sample_fact, sample_fact])
   = Inr None \<and>
   length (lg_vigilancia (foldl (\<lambda>l n. snd (anota_vigilancia sample_ext n l)) sample_ledger
     [sample_fact, sample_fact])) \<le> MAXIMO_FILAS"
  by (rule watch_verifies_and_stays_bounded [OF sample_sha_32 sample_v_ok])

definition v_hashed :: "ledger \<Rightarrow> bytes set" where
  "v_hashed l = (\<lambda>r. v_pre (su_prev_hash r) r) ` set (lg_vigilancia l)"

text \<open>Two files whose watch verifies, with the same recorded end and as many rows, hold the same
  facts in the same order, or two of the hashed rows collide under SHA-256.\<close>

theorem watch_history_is_what_was_written:
  assumes "comprueba_vigilancia x l = Inr None" "comprueba_vigilancia x l' = Inr None"
    and "vigilancia_hash l KEY_V_HEAD = vigilancia_hash l' KEY_V_HEAD"
    and "length (lg_vigilancia l) = length (lg_vigilancia l')"
    and "list_all v_row_ok (lg_vigilancia l)" "list_all v_row_ok (lg_vigilancia l')"
  shows "collides (sha x) (v_hashed l) (v_hashed l') \<or>
    map v_content (lg_vigilancia l) = map v_content (lg_vigilancia l')"
proof -
  obtain a b where a: "v_hashes_ok (lg_vigilancia l)" "v_linked (sha x) a (lg_vigilancia l)"
      "vigilancia_hash l KEY_V_HEAD = Inr (tip su_row_hash a (lg_vigilancia l))"
    and b: "v_hashes_ok (lg_vigilancia l')" "v_linked (sha x) b (lg_vigilancia l')"
      "vigilancia_hash l' KEY_V_HEAD = Inr (tip su_row_hash b (lg_vigilancia l'))"
    using assms(1,2) unfolding comprueba_none by blast
  have tips: "tip su_row_hash a (lg_vigilancia l) = tip su_row_hash b (lg_vigilancia l')"
    using a(3) b(3) assms(3) by simp
  have "\<forall>r \<in> set (lg_vigilancia l). length (su_prev_hash r) = 32 \<and> v_row_ok r"
    "\<forall>r \<in> set (lg_vigilancia l'). length (su_prev_hash r) = 32 \<and> v_row_ok r"
    using a(1) b(1) assms(5,6) by (simp_all add: v_hashes_ok_def list_all_iff)
  from vigilancia_chain.same_tip_same_rows
    [OF a(2) [unfolded v_linked_def] b(2) [unfolded v_linked_def] assms(4) tips this]
  show ?thesis
  proof
    assume "collides (sha x) ((\<lambda>r. v_pre (su_prev_hash r) r) ` set (lg_vigilancia l))
      ((\<lambda>r. v_pre (su_prev_hash r) r) ` set (lg_vigilancia l'))"
    then show ?thesis by (simp add: v_hashed_def)
  next
    assume "a = b \<and> map (\<lambda>r. (su_prev_hash r, v_content r, su_row_hash r)) (lg_vigilancia l) =
      map (\<lambda>r. (su_prev_hash r, v_content r, su_row_hash r)) (lg_vigilancia l')"
    then have "map (\<lambda>t. fst (snd t)) (map (\<lambda>r. (su_prev_hash r, v_content r, su_row_hash r))
        (lg_vigilancia l)) = map (\<lambda>t. fst (snd t)) (map (\<lambda>r. (su_prev_hash r, v_content r,
        su_row_hash r)) (lg_vigilancia l'))" by simp
    then show ?thesis by (simp add: comp_def)
  qed
qed

theorem watch_history_is_what_was_written_witness:
  "collides sample_sha (v_hashed sample_ledger) (v_hashed sample_ledger) \<or>
   map v_content (lg_vigilancia sample_ledger) = map v_content (lg_vigilancia sample_ledger)"
proof -
  have "comprueba_vigilancia sample_ext sample_ledger = Inr None"
    using sample_v_ok by (simp add: v_ok_def)
  moreover have "lg_vigilancia sample_ledger = []"
    by (simp add: sample_ledger_def set_schema_def put_def empty_file_def)
  moreover have "sha sample_ext = sample_sha" by (simp add: sample_ext_def)
  ultimately show ?thesis
    using watch_history_is_what_was_written [of sample_ext sample_ledger sample_ledger] by simp
qed

section \<open>The plain copy of the system DNS\<close>

text \<open>The plain copy beside the extract is whole or not at all. Whatever the system lets the program
  do, after a setting is written the file holds what it held before, or the new value, or is gone
  because the new value is blank; and when the writes succeed it reads back as the value.\<close>

theorem plain_copy_is_whole:
  assumes "(key, archivo) \<in> set COPIAS_EN_ARCHIVO" "lg_files l = Some fs"
  shows "\<exists>fs'. lg_files (set_setting x key v l) = Some fs' \<and>
    (fs' archivo = fs archivo \<or> fs' archivo = Some v \<or> trim v = [] \<and> fs' archivo = None) \<and>
    (fs_write x (archivo @ ''.tmp'') v \<and> fs_rename x (archivo @ ''.tmp'') archivo \<and>
       fs_remove x archivo \<longrightarrow>
     copia_junto_al_extracto fs' key = (if trim v = [] then None else Some v))"
proof -
  have f: "find (\<lambda>kv. fst kv = key) COPIAS_EN_ARCHIVO = Some (key, archivo)"
    using assms(1) by (auto simp: COPIAS_EN_ARCHIVO_def)
  have ss: "set_setting x key v l = copia_en_archivo x archivo v (put key v l)"
    by (simp add: set_setting_def f)
  have fl: "lg_files (put key v l) = Some fs" using assms(2) by (simp add: put_def)
  show ?thesis
    unfolding ss copia_en_archivo_def fl option.case Let_def copia_junto_al_extracto_def f
    using fl by auto
qed

theorem plain_copy_is_whole_witness:
  "\<exists>fs'. lg_files (set_setting sample_ext ''dns_backup'' ''{}'' (empty_file (Some Map.empty))) =
      Some fs' \<and> copia_junto_al_extracto fs' ''dns_backup'' = Some ''{}''"
proof -
  have "trim ''{}'' = ''{}''" by code_simp
  moreover have "lg_files (empty_file (Some Map.empty)) = Some Map.empty"
    by (simp add: empty_file_def)
  ultimately show ?thesis
    using plain_copy_is_whole [of "''dns_backup''" "''dns-anterior.json''"
        "empty_file (Some Map.empty)" Map.empty sample_ext "''{}''"]
    by (auto simp: COPIAS_EN_ARCHIVO_def sample_ext_def)
qed

end
