(* ===== verification/Inflate.thy ===== *)
theory Inflate imports Prelude begin

text \<open>
  The DEFLATE decoder of \<open>crates/core/src/huellas/inflate.rs\<close>. A function of the code that returns
  an \<open>Option\<close> returns a \<open>res\<close> here: \<open>Inl Nada\<close> is \<open>None\<close>, and \<open>Inl Panico\<close> is the panic an index
  out of bounds would be, so that "refused, not a panic" is a theorem. The loops are recursive
  functions whose termination rests on the number of bits left. Numbers kept in \<open>u16\<close>, \<open>i32\<close> and
  \<open>usize\<close> are naturals and integers: none passes 320 symbols, 16 bits of code or the size of the
  input; the bit buffer is a 32-bit word.
\<close>

section \<open>Results\<close>

datatype fallo = Nada | Panico

type_synonym 'a res = "fallo + 'a"

text \<open>The \<open>?\<close> of an \<open>Option\<close>, and \<open>xs[i]\<close>, which panics out of bounds.\<close>

definition opt :: "'a option \<Rightarrow> 'a res" where
  "opt x = (case x of None \<Rightarrow> Inl Nada | Some y \<Rightarrow> Inr y)"

definition idx :: "'a list \<Rightarrow> nat \<Rightarrow> 'a res" where
  "idx xs i = (if i < length xs then Inr (xs ! i) else Inl Panico)"

definition idx_set :: "'a list \<Rightarrow> nat \<Rightarrow> 'a \<Rightarrow> 'a list res" where
  "idx_set xs i v = (if i < length xs then Inr (xs[i := v]) else Inl Panico)"

declare and_then_Inr [simp]

lemma opt_simps [simp]: "opt x = Inr y \<longleftrightarrow> x = Some y" "opt x = Inl e \<longleftrightarrow> x = None \<and> e = Nada"
  "opt (Some y) = Inr y" "opt None = Inl Nada"
  by (auto simp: opt_def split: option.splits)

lemma idx_Inr [simp]: "idx xs i = Inr y \<longleftrightarrow> i < length xs \<and> y = xs ! i"
  by (auto simp: idx_def)

lemma idx_set_Inr [simp]: "idx_set xs i v = Inr ys \<longleftrightarrow> i < length xs \<and> ys = xs[i := v]"
  by (auto simp: idx_set_def)

section \<open>The bits of the input\<close>

record bits_t =
  b_datos :: bytes
  b_pos :: nat
  b_buf :: u32
  b_cuenta :: nat

definition Bits_new :: "bytes \<Rightarrow> bits_t" where
  "Bits_new d = \<lparr>b_datos = d, b_pos = 0, b_buf = 0, b_cuenta = 0\<rparr>"

function llena :: "nat \<Rightarrow> bits_t \<Rightarrow> bits_t res" where
  "llena n b =
     (if b_cuenta b < n
      then and_then (opt (get_at (b_datos b) (b_pos b))) (\<lambda>x.
        llena n (b\<lparr>b_pos := b_pos b + 1,
                   b_buf := b_buf b OR push_bit (b_cuenta b) (ucast x),
                   b_cuenta := b_cuenta b + 8\<rparr>))
      else Inr b)"
  by pat_completeness auto
termination by (relation "measure (\<lambda>(n, b). n - b_cuenta b)") auto

declare llena.simps [simp del]

definition bits :: "nat \<Rightarrow> bits_t \<Rightarrow> (u32 \<times> bits_t) res" where
  "bits n b =
     and_then (llena n b) (\<lambda>b.
       Inr (b_buf b AND (push_bit n 1 - 1),
            b\<lparr>b_buf := drop_bit n (b_buf b), b_cuenta := b_cuenta b - n\<rparr>))"

definition alinea :: "bits_t \<Rightarrow> bits_t" where
  "alinea b = b\<lparr>b_buf := 0, b_cuenta := 0\<rparr>"

section \<open>Huffman tables\<close>

record huffman =
  h_cuenta :: "nat list"
  h_simbolos :: "nat list"

fun cuenta_longitudes :: "nat list \<Rightarrow> bytes \<Rightarrow> nat list res" where
  "cuenta_longitudes c [] = Inr c"
| "cuenta_longitudes c (l # ls) =
     (if unat l < length c then cuenta_longitudes (c[unat l := c ! unat l + 1]) ls
      else Inl Nada)"

definition desde_de :: "nat list \<Rightarrow> nat list" where
  "desde_de c = foldl (\<lambda>d i. d[i := d ! (i - 1) + c ! (i - 1)]) (replicate 16 0) [1..<16]"

fun pon_simbolos :: "nat \<Rightarrow> bytes \<Rightarrow> nat list \<Rightarrow> nat list \<Rightarrow> nat list res" where
  "pon_simbolos s [] desde simb = Inr simb"
| "pon_simbolos s (l # ls) desde simb =
     (if l = 0 then pon_simbolos (s + 1) ls desde simb
      else and_then (opt (get_at desde (unat l))) (\<lambda>d.
        if d < length simb \<and> s < 2 ^ 16
        then pon_simbolos (s + 1) ls (desde[unat l := d + 1]) (simb[d := s])
        else Inl Nada))"

definition Huffman_new :: "bytes \<Rightarrow> huffman res" where
  "Huffman_new ls =
     and_then (cuenta_longitudes (replicate 16 0) ls) (\<lambda>c0.
       let c = c0[0 := 0]
       in and_then (pon_simbolos 0 ls (desde_de c) (replicate (length ls) 0)) (\<lambda>simb.
            Inr \<lparr>h_cuenta = c, h_simbolos = simb\<rparr>))"

text \<open>\<open>decodifica\<close>'s loop over \<open>len in 1..16\<close>.\<close>

function deco :: "huffman \<Rightarrow> nat \<Rightarrow> int \<Rightarrow> int \<Rightarrow> int \<Rightarrow> bits_t \<Rightarrow> (nat \<times> bits_t) res" where
  "deco h len codigo primero indice b =
     (if len < 16
      then and_then (bits 1 b) (\<lambda>(v, b).
        let codigo = codigo OR uint v
        in and_then (idx (h_cuenta h) len) (\<lambda>c.
          let n = int c
          in if codigo - n < primero
             then (let i = indice + (codigo - primero)
                   in if i < 0 then Inl Nada
                      else and_then (opt (get_at (h_simbolos h) (nat i))) (\<lambda>s. Inr (s, b)))
             else deco h (len + 1) (codigo * 2) ((primero + n) * 2) (indice + n) b))
      else Inl Nada)"
  by pat_completeness auto
termination by (relation "measure (\<lambda>(h, len, c, p, i, b). 16 - len)") auto

declare deco.simps [simp del]

definition decodifica :: "huffman \<Rightarrow> bits_t \<Rightarrow> (nat \<times> bits_t) res" where
  "decodifica h b = deco h 1 0 0 0 b"

section \<open>The bits left\<close>

text \<open>The measure of every loop: how many bits the buffer and the rest of the input hold.\<close>

definition left :: "bits_t \<Rightarrow> nat" where
  "left b = 8 * (length (b_datos b) - b_pos b) + b_cuenta b"

lemma llena_left:
  "llena n b = Inr b' \<Longrightarrow> left b' = left b \<and> n \<le> b_cuenta b' \<and> b_datos b' = b_datos b"
proof (induction n b rule: llena.induct)
  case (1 n b)
  show ?case
  proof (cases "b_cuenta b < n")
    case False
    with 1(2) show ?thesis by (simp add: llena.simps [of n b])
  next
    case True
    with 1(2) obtain x where x: "get_at (b_datos b) (b_pos b) = Some x"
      and r: "llena n (b\<lparr>b_pos := b_pos b + 1,
                   b_buf := b_buf b OR push_bit (b_cuenta b) (ucast x),
                   b_cuenta := b_cuenta b + 8\<rparr>) = Inr b'"
      by (auto simp: llena.simps [of n b])
    have "b_pos b < length (b_datos b)" using x by simp
    then have "length (b_datos b) - b_pos b = Suc (length (b_datos b) - Suc (b_pos b))" by simp
    with 1(1) [OF True _ r] x show ?thesis by (auto simp: left_def)
  qed
qed

lemma bits_left:
  "bits n b = Inr (v, b') \<Longrightarrow> left b = left b' + n \<and> b_datos b' = b_datos b"
  by (auto simp: bits_def left_def dest!: llena_left)

lemma deco_left:
  "deco h len c p i b = Inr (s, b') \<Longrightarrow> left b' < left b \<and> b_datos b' = b_datos b"
proof (induction h len c p i b rule: deco.induct)
  case (1 h len c p i b)
  from 1(2) obtain v b1 where v: "len < 16" "bits 1 b = Inr (v, b1)"
    by (subst (asm) deco.simps) (auto split: if_splits)
  note l = bits_left [OF v(2)]
  show ?case
  proof (cases "(c OR uint v) - int (h_cuenta h ! len) < p")
    case True
    with 1(2) v l show ?thesis
      by (subst (asm) deco.simps) (auto simp: Let_def idx_def split: if_splits)
  next
    case False
    with 1(2) v have "len < length (h_cuenta h)" and
      r: "deco h (len + 1) ((c OR uint v) * 2) ((p + int (h_cuenta h ! len)) * 2)
            (i + int (h_cuenta h ! len)) b1 = Inr (s, b')"
      by (subst (asm) deco.simps, auto simp: Let_def idx_def split: if_splits)+
    with False v 1(1) [of "(v, b1)" v b1 _ "h_cuenta h ! len"]
    have "left b' < left b1 \<and> b_datos b' = b_datos b1" by auto
    with l show ?thesis by simp
  qed
qed

lemma decodifica_left:
  "decodifica h b = Inr (s, b') \<Longrightarrow> left b' < left b \<and> b_datos b' = b_datos b"
  by (auto simp: decodifica_def dest: deco_left)

section \<open>Blocks\<close>

definition MAXIMO :: nat where "MAXIMO = 4 * 1024 * 1024"

definition BASE_LARGO :: "nat list" where
  "BASE_LARGO = [3, 4, 5, 6, 7, 8, 9, 10, 11, 13, 15, 17, 19, 23, 27, 31, 35, 43, 51, 59, 67, 83,
     99, 115, 131, 163, 195, 227, 258]"

definition EXTRA_LARGO :: "nat list" where
  "EXTRA_LARGO = [0, 0, 0, 0, 0, 0, 0, 0, 1, 1, 1, 1, 2, 2, 2, 2, 3, 3, 3, 3, 4, 4, 4, 4, 5, 5, 5,
     5, 0]"

definition BASE_DIST :: "nat list" where
  "BASE_DIST = [1, 2, 3, 4, 5, 7, 9, 13, 17, 25, 33, 49, 65, 97, 129, 193, 257, 385, 513, 769,
     1025, 1537, 2049, 3073, 4097, 6145, 8193, 12289, 16385, 24577]"

definition EXTRA_DIST :: "nat list" where
  "EXTRA_DIST = [0, 0, 0, 0, 1, 1, 2, 2, 3, 3, 4, 4, 5, 5, 6, 6, 7, 7, 8, 8, 9, 9, 10, 10, 11,
     11, 12, 12, 13, 13]"

text \<open>The copy of \<open>largo\<close> bytes, one at a time, so that it may run into what it has just written.\<close>

fun copia :: "nat \<Rightarrow> nat \<Rightarrow> bytes \<Rightarrow> bytes res" where
  "copia 0 p sal = Inr sal"
| "copia (Suc k) p sal = and_then (opt (get_at sal p)) (\<lambda>c. copia k (p + 1) (sal @ [c]))"

text \<open>\<open>bloque\<close>'s loop body: whether the block has ended, and the input and output after it.\<close>

definition bloque_paso ::
    "huffman \<Rightarrow> huffman \<Rightarrow> bits_t \<Rightarrow> bytes \<Rightarrow> (bool \<times> bits_t \<times> bytes) res" where
  "bloque_paso lit dist b sal =
     and_then (decodifica lit b) (\<lambda>(s, b).
       if s \<le> 255 then
         (let sal = sal @ [of_nat s]
          in if MAXIMO < length sal then Inl Nada else Inr (False, b, sal))
       else if s = 256 then Inr (True, b, sal)
       else
         and_then (opt (get_at BASE_LARGO (s - 257))) (\<lambda>base.
         and_then (opt (get_at EXTRA_LARGO (s - 257))) (\<lambda>extra.
         and_then (bits extra b) (\<lambda>(v, b).
         let largo = base + unat v
         in and_then (decodifica dist b) (\<lambda>(d, b).
         and_then (opt (get_at BASE_DIST d)) (\<lambda>base.
         and_then (opt (get_at EXTRA_DIST d)) (\<lambda>extra.
         and_then (bits extra b) (\<lambda>(v, b).
         let distancia = base + unat v
         in if length sal < distancia \<or> MAXIMO < length sal + largo then Inl Nada
            else and_then (copia largo (length sal - distancia) sal) (\<lambda>sal.
              Inr (False, b, sal))))))))))"

lemma bloque_paso_left:
  "bloque_paso lit dist b sal = Inr (fin, b', sal') \<Longrightarrow> left b' < left b \<and> b_datos b' = b_datos b"
  by (auto simp: bloque_paso_def Let_def dest!: decodifica_left bits_left split: if_splits)

function bloque :: "huffman \<Rightarrow> huffman \<Rightarrow> bits_t \<Rightarrow> bytes \<Rightarrow> (bits_t \<times> bytes) res" where
  "bloque lit dist b sal =
     and_then (bloque_paso lit dist b sal) (\<lambda>(fin, b, sal).
       if fin then Inr (b, sal) else bloque lit dist b sal)"
  by pat_completeness auto
termination
  by (relation "measure (\<lambda>(lit, dist, b, sal). left b)") (auto dest!: bloque_paso_left)

declare bloque.simps [simp del]

lemma bloque_left:
  "bloque lit dist b sal = Inr (b', sal') \<Longrightarrow> left b' < left b \<and> b_datos b' = b_datos b"
proof (induction lit dist b sal rule: bloque.induct)
  case (1 lit dist b sal)
  from 1(2) obtain fin b1 sal1 where p: "bloque_paso lit dist b sal = Inr (fin, b1, sal1)"
    and r: "(if fin then Inr (b1, sal1) else bloque lit dist b1 sal1) = Inr (b', sal')"
    by (subst (asm) bloque.simps) auto
  from 1(1) [OF p refl refl] r bloque_paso_left [OF p] show ?case by (cases fin) auto
qed

definition fijas :: "(huffman \<times> huffman) res" where
  "fijas =
     and_then (Huffman_new (map (\<lambda>i. if i \<le> 143 then 8 else if i \<le> 255 then 9
                                      else if i \<le> 279 then 7 else 8) [0..<288])) (\<lambda>l.
     and_then (Huffman_new (replicate 30 5)) (\<lambda>d. Inr (l, d)))"

definition ORDEN :: "nat list" where
  "ORDEN = [16, 17, 18, 0, 8, 7, 9, 6, 10, 5, 11, 4, 12, 3, 13, 2, 14, 1, 15]"

fun lee_orden :: "nat list \<Rightarrow> bytes \<Rightarrow> bits_t \<Rightarrow> (bytes \<times> bits_t) res" where
  "lee_orden [] l b = Inr (l, b)"
| "lee_orden (k # ks) l b =
     and_then (bits 3 b) (\<lambda>(v, b).
     and_then (idx_set l k (ucast v)) (\<lambda>l. lee_orden ks l b))"

fun repite :: "nat \<Rightarrow> byte \<Rightarrow> nat \<Rightarrow> bytes \<Rightarrow> (nat \<times> bytes) res" where
  "repite 0 valor i l = Inr (i, l)"
| "repite (Suc k) valor i l =
     (if i < length l then repite k valor (i + 1) (l[i := valor]) else Inl Nada)"

definition lee_paso ::
    "huffman \<Rightarrow> nat \<Rightarrow> nat \<Rightarrow> bytes \<Rightarrow> bits_t \<Rightarrow> (nat \<times> bytes \<times> bits_t) res" where
  "lee_paso codigos hasta i l b =
     and_then (decodifica codigos b) (\<lambda>(s, b).
       if s < 16
       then and_then (idx_set l i (of_nat s)) (\<lambda>l. Inr (i + 1, l, b))
       else
         and_then
           (if s = 16 then
              (if i = 0 then Inl Nada
               else and_then (idx l (i - 1)) (\<lambda>v.
                    and_then (bits 2 b) (\<lambda>(n, b). Inr (v, 3 + unat n, b))))
            else if s = 17 then and_then (bits 3 b) (\<lambda>(n, b). Inr (0, 3 + unat n, b))
            else and_then (bits 7 b) (\<lambda>(n, b). Inr (0, 11 + unat n, b)))
           (\<lambda>(valor, veces, b).
             and_then (repite veces valor i l) (\<lambda>(i, l).
               if hasta < i then Inl Nada else Inr (i, l, b))))"

lemma lee_paso_left:
  "lee_paso codigos hasta i l b = Inr (i', l', b') \<Longrightarrow> left b' < left b \<and> b_datos b' = b_datos b"
  by (auto simp: lee_paso_def dest!: decodifica_left bits_left split: if_splits)

function lee_longitudes ::
    "huffman \<Rightarrow> nat \<Rightarrow> nat \<Rightarrow> bytes \<Rightarrow> bits_t \<Rightarrow> (bytes \<times> bits_t) res" where
  "lee_longitudes codigos hasta i l b =
     (if i < hasta
      then and_then (lee_paso codigos hasta i l b) (\<lambda>(i, l, b).
        lee_longitudes codigos hasta i l b)
      else Inr (l, b))"
  by pat_completeness auto
termination
  by (relation "measure (\<lambda>(codigos, hasta, i, l, b). left b)") (auto dest!: lee_paso_left)

declare lee_longitudes.simps [simp del]

lemma lee_longitudes_left:
  "lee_longitudes codigos hasta i l b = Inr (l', b') \<Longrightarrow>
   left b' \<le> left b \<and> b_datos b' = b_datos b"
proof (induction codigos hasta i l b rule: lee_longitudes.induct)
  case (1 codigos hasta i l b)
  show ?case
  proof (cases "i < hasta")
    case False
    with 1(2) show ?thesis by (subst (asm) lee_longitudes.simps) simp
  next
    case True
    with 1(2) obtain i1 l1 b1 where p: "lee_paso codigos hasta i l b = Inr (i1, l1, b1)"
      and r: "lee_longitudes codigos hasta i1 l1 b1 = Inr (l', b')"
      by (subst (asm) lee_longitudes.simps) auto
    from 1(1) [OF True p refl refl r] lee_paso_left [OF p] show ?thesis by simp
  qed
qed

lemma lee_orden_left:
  "lee_orden ks l b = Inr (l', b') \<Longrightarrow> left b' \<le> left b \<and> b_datos b' = b_datos b"
proof (induction ks l b rule: lee_orden.induct)
  case (1 l b)
  then show ?case by simp
next
  case (2 k ks l b)
  from 2(2) obtain v b1 where v: "bits 3 b = Inr (v, b1)" "k < length l"
    and r: "lee_orden ks (l[k := ucast v]) b1 = Inr (l', b')" by auto
  from 2(1) [OF v(1) refl _ r] v bits_left [OF v(1)] show ?case by simp
qed

text \<open>\<open>&l[a..b]\<close>, which panics when the range is not inside.\<close>

definition rango :: "'a list \<Rightarrow> nat \<Rightarrow> nat \<Rightarrow> 'a list res" where
  "rango xs a b = (case get_range xs a b of None \<Rightarrow> Inl Panico | Some ys \<Rightarrow> Inr ys)"

definition dinamicas :: "bits_t \<Rightarrow> (huffman \<times> huffman \<times> bits_t) res" where
  "dinamicas b =
     and_then (bits 5 b) (\<lambda>(v, b).
     let nlen = unat v + 257
     in and_then (bits 5 b) (\<lambda>(v, b).
     let ndist = unat v + 1
     in and_then (bits 4 b) (\<lambda>(v, b).
     let ncode = unat v + 4
     in if 286 < nlen \<or> 30 < ndist then Inl Nada
        else
          and_then (lee_orden (take ncode ORDEN) (replicate 320 0) b) (\<lambda>(l, b).
          and_then (rango l 0 19) (\<lambda>r.
          and_then (Huffman_new r) (\<lambda>codigos.
          and_then (lee_longitudes codigos (nlen + ndist) 0 (replicate 320 0) b) (\<lambda>(l, b).
          and_then (idx l 256) (\<lambda>fin.
          if fin = 0 then Inl Nada
          else
            and_then (rango l 0 nlen) (\<lambda>ll.
            and_then (Huffman_new ll) (\<lambda>lit.
            and_then (rango l nlen (nlen + ndist)) (\<lambda>dl.
            and_then (Huffman_new dl) (\<lambda>dist. Inr (lit, dist, b)))))))))))))"

definition le16 :: "byte \<Rightarrow> byte \<Rightarrow> u16" where
  "le16 a b = ucast a OR push_bit 8 (ucast b)"

text \<open>A stored block: what follows the header, from the next whole byte.\<close>

definition guardado :: "bits_t \<Rightarrow> bytes \<Rightarrow> (bits_t \<times> bytes) res" where
  "guardado b sal =
     (let b = alinea b; datos = b_datos b; p = b_pos b
      in and_then (opt (get_at datos p)) (\<lambda>l0.
         and_then (opt (get_at datos (p + 1))) (\<lambda>l1.
         let len = unat (le16 l0 l1)
         in and_then (opt (get_at datos (p + 2))) (\<lambda>n0.
            and_then (opt (get_at datos (p + 3))) (\<lambda>n1.
            if unat (NOT (le16 n0 n1)) \<noteq> len \<or> MAXIMO < length sal + len then Inl Nada
            else
              and_then (opt (get_range datos (p + 4) (p + 4 + len))) (\<lambda>trozo.
                Inr (b\<lparr>b_pos := p + 4 + len\<rparr>, sal @ trozo)))))))"

lemma dinamicas_left:
  "dinamicas b = Inr (lit, dist, b') \<Longrightarrow> left b' < left b \<and> b_datos b' = b_datos b"
  by (auto simp: dinamicas_def Let_def split: if_splits
      dest!: bits_left lee_orden_left lee_longitudes_left)

lemma guardado_left:
  "guardado b sal = Inr (b', sal') \<Longrightarrow> left b' \<le> left b \<and> b_datos b' = b_datos b"
  by (auto simp: guardado_def alinea_def left_def Let_def split: if_splits)

section \<open>Inflating\<close>

definition inflate_paso :: "bits_t \<Rightarrow> bytes \<Rightarrow> (bool \<times> bits_t \<times> bytes) res" where
  "inflate_paso b sal =
     and_then (bits 1 b) (\<lambda>(u, b).
     let ultimo = (u = 1)
     in and_then (bits 2 b) (\<lambda>(t, b).
     and_then
       (if t = 0 then guardado b sal
        else if t = 1 then
          and_then fijas (\<lambda>(lit, dist). bloque lit dist b sal)
        else if t = 2 then
          and_then (dinamicas b) (\<lambda>(lit, dist, b). bloque lit dist b sal)
        else Inl Nada)
       (\<lambda>(b, sal). Inr (ultimo, b, sal))))"

lemma inflate_paso_left:
  "inflate_paso b sal = Inr (fin, b', sal') \<Longrightarrow> left b' < left b \<and> b_datos b' = b_datos b"
  by (auto simp: inflate_paso_def Let_def split: if_splits
      dest!: bits_left guardado_left dinamicas_left bloque_left)

function inflate_bucle :: "bits_t \<Rightarrow> bytes \<Rightarrow> bytes res" where
  "inflate_bucle b sal =
     and_then (inflate_paso b sal) (\<lambda>(ultimo, b, sal).
       if ultimo then Inr sal else inflate_bucle b sal)"
  by pat_completeness auto
termination
  by (relation "measure (\<lambda>(b, sal). left b)") (auto dest!: inflate_paso_left)

declare inflate_bucle.simps [simp del]

definition inflate :: "bytes \<Rightarrow> bytes res" where
  "inflate datos = inflate_bucle (Bits_new datos) []"

definition inflate_zlib :: "bytes \<Rightarrow> bytes res" where
  "inflate_zlib datos =
     and_then (opt (get_at datos 0)) (\<lambda>cmf.
     and_then (opt (get_at datos 1)) (\<lambda>flg.
     if cmf AND 0x0f \<noteq> 8 \<or> (unat cmf * 256 + unat flg) mod 31 \<noteq> 0 \<or> flg AND 0x20 \<noteq> 0
     then Inl Nada
     else and_then (opt (get_range datos 2 (length datos))) inflate))"

section \<open>CRC-32\<close>

definition crc_bit :: "u32 \<Rightarrow> u32" where
  "crc_bit c = (if c AND 1 \<noteq> 0 then drop_bit 1 c XOR 0xedb88320 else drop_bit 1 c)"

definition crc_byte :: "u32 \<Rightarrow> byte \<Rightarrow> u32" where
  "crc_byte c b = (crc_bit ^^ 8) (c XOR ucast b)"

definition crc32 :: "bytes \<Rightarrow> u32" where
  "crc32 datos = NOT (foldl crc_byte 0xffffffff datos)"

end
