(* ===== verification/Inflate_Stream.thy ===== *)
theory Inflate_Stream imports Inflate_Facts begin

text \<open>
  The bit reader as a list of booleans: \<open>stream\<close> is what is still to be read, the low bits of each
  byte first. \<open>bits n\<close> takes its first \<open>n\<close> bits and reads them as a number, lowest first, and
  refuses exactly when there are fewer.
\<close>

definition byte_bits :: "byte \<Rightarrow> bool list" where
  "byte_bits x = map (bit x) [0..<8]"

definition bytes_bits :: "bytes \<Rightarrow> bool list" where
  "bytes_bits d = concat (map byte_bits d)"

definition stream :: "bits_t \<Rightarrow> bool list" where
  "stream b = map (bit (b_buf b)) [0..<b_cuenta b] @ bytes_bits (drop (b_pos b) (b_datos b))"

definition clean :: "bits_t \<Rightarrow> bool" where
  "clean b \<longleftrightarrow> take_bit (b_cuenta b) (b_buf b) = b_buf b"

definition bits_ok :: "bits_t \<Rightarrow> bool" where
  "bits_ok b \<longleftrightarrow> clean b \<and> b_cuenta b \<le> 7 \<and> b_pos b \<le> length (b_datos b)"

definition le_value :: "bool list \<Rightarrow> nat" where
  "le_value bs = horner_sum of_bool 2 bs"

lemma length_byte_bits [simp]: "length (byte_bits x) = 8"
  by (simp add: byte_bits_def)

lemma bytes_bits_simps [simp]: "bytes_bits [] = []" "bytes_bits (x # d) = byte_bits x @ bytes_bits d"
  "bytes_bits (d @ e) = bytes_bits d @ bytes_bits e"
  by (simp_all add: bytes_bits_def)

lemma length_bytes_bits [simp]: "length (bytes_bits d) = 8 * length d"
  by (induction d) auto

lemma length_stream: "b_pos b \<le> length (b_datos b) \<Longrightarrow> length (stream b) = left b"
  by (simp add: stream_def left_def)

lemma new_ok [simp]: "bits_ok (Bits_new d)" "stream (Bits_new d) = bytes_bits d"
  by (simp_all add: Bits_new_def bits_ok_def clean_def stream_def)

lemma clean_bit: "clean b \<Longrightarrow> b_cuenta b \<le> i \<Longrightarrow> \<not> bit (b_buf b) i"
  by (metis bit_take_bit_iff clean_def not_le)

lemma add_byte:
  fixes buf :: u32 and x :: byte
  assumes c: "take_bit c buf = buf" "c + 8 \<le> 32"
  shows "map (bit (buf OR push_bit c (ucast x))) [0..<c + 8] = map (bit buf) [0..<c] @ byte_bits x"
    and "take_bit (c + 8) (buf OR push_bit c (ucast x :: u32)) = buf OR push_bit c (ucast x)"
proof -
  have lo: "bit buf i \<Longrightarrow> i < c" for i using c(1) by (metis bit_take_bit_iff)
  show "map (bit (buf OR push_bit c (ucast x))) [0..<c + 8] = map (bit buf) [0..<c] @ byte_bits x"
  proof (rule nth_equalityI)
    fix i
    assume i: "i < length (map (bit (buf OR push_bit c (ucast x :: u32))) [0..<c + 8])"
    then have "i < c + 8" by simp
    with c(2) show "map (bit (buf OR push_bit c (ucast x))) [0..<c + 8] ! i =
        (map (bit buf) [0..<c] @ byte_bits x) ! i"
      by (auto simp: nth_append byte_bits_def bit_or_iff bit_push_bit_iff bit_ucast_iff dest: lo)
  qed simp
  show "take_bit (c + 8) (buf OR push_bit c (ucast x :: u32)) = buf OR push_bit c (ucast x)"
  proof (rule bit_eqI)
    fix i
    show "bit (take_bit (c + 8) (buf OR push_bit c (ucast x :: u32))) i =
        bit (buf OR push_bit c (ucast x :: u32)) i"
      by (auto simp: bit_take_bit_iff bit_or_iff bit_push_bit_iff bit_ucast_iff
          dest: lo bit_imp_le_length)
  qed
qed

lemma llena_stream:
  assumes "clean b" "b_cuenta b \<le> n + 7" "n \<le> 17" "b_pos b \<le> length (b_datos b)"
  shows "if n \<le> length (stream b)
         then \<exists>b'. llena n b = Inr b' \<and> stream b' = stream b \<and> clean b' \<and>
                n \<le> b_cuenta b' \<and> b_cuenta b' \<le> n + 7 \<and> b_pos b' \<le> length (b_datos b') \<and>
                b_datos b' = b_datos b
         else llena n b = Inl Nada"
  using assms
proof (induction n b rule: llena.induct)
  case (1 n b)
  show ?case
  proof (cases "b_cuenta b < n")
    case False
    then show ?thesis using 1(2-) by (simp add: llena.simps [of n b] stream_def)
  next
    case True
    show ?thesis
    proof (cases "b_pos b < length (b_datos b)")
      case False
      with True 1(5) show ?thesis by (simp add: llena.simps [of n b] stream_def and_then_def opt_def get_at_def)
    next
      case in_data: True
      define x where "x = b_datos b ! b_pos b"
      define b1 where "b1 = b\<lparr>b_pos := b_pos b + 1,
        b_buf := b_buf b OR push_bit (b_cuenta b) (ucast x), b_cuenta := b_cuenta b + 8\<rparr>"
      have at: "get_at (b_datos b) (b_pos b) = Some x" using in_data by (simp add: x_def)
      then have ato: "opt (get_at (b_datos b) (b_pos b)) = Inr x" by (simp only: opt_simps)
      have eq: "llena n b = llena n b1"
        by (subst llena.simps) (simp only: True at opt_simps and_then_simps if_True b1_def)
      have c32: "b_cuenta b + 8 \<le> 32" using True 1(4) by simp
      note ab = add_byte [OF 1(2) [unfolded clean_def] c32, of x]
      have d: "drop (b_pos b) (b_datos b) = x # drop (b_pos b + 1) (b_datos b)"
        using in_data by (simp add: x_def Cons_nth_drop_Suc)
      have s: "stream b1 = stream b"
        unfolding stream_def d using ab(1) by (simp add: b1_def)
      have "clean b1" unfolding clean_def using ab(2) by (simp add: b1_def)
      moreover have "b_cuenta b1 \<le> n + 7" "b_pos b1 \<le> length (b_datos b1)"
        using True in_data by (simp_all add: b1_def)
      ultimately have "if n \<le> length (stream b1)
         then \<exists>b'. llena n b1 = Inr b' \<and> stream b' = stream b1 \<and> clean b' \<and>
                n \<le> b_cuenta b' \<and> b_cuenta b' \<le> n + 7 \<and> b_pos b' \<le> length (b_datos b') \<and>
                b_datos b' = b_datos b1
         else llena n b1 = Inl Nada"
        using 1(1) [OF True ato] 1(4) unfolding b1_def [symmetric] by blast
      moreover have "b_datos b1 = b_datos b" by (simp add: b1_def)
      ultimately show ?thesis unfolding eq s by (simp only:)
    qed
  qed
qed

lemma le_value_bits: "n \<le> c \<Longrightarrow> le_value (take n (map (bit w) [0..<c] @ r)) = take_bit n (unat w)"
  for w :: "'a :: len word"
proof -
  assume "n \<le> c"
  then have "take n (map (bit w) [0..<c] @ r) = map (bit w) [0..<n]"
    by (simp add: take_map)
  also have "\<dots> = map (bit (unat w)) [0..<n]"
    by (simp add: bit_unsigned_iff bit_imp_le_length)
  finally show ?thesis by (simp only: le_value_def horner_sum_bit_eq_take_bit)
qed

lemma drop_bits: "n \<le> c \<Longrightarrow> map (bit (drop_bit n w)) [0..<c - n] = drop n (map (bit w) [0..<c])"
  for w :: "'a :: len word"
  by (rule nth_equalityI) (simp_all add: bit_drop_bit_eq)

theorem bits_stream:
  assumes "bits_ok b" "n \<le> 17"
  shows "if n \<le> length (stream b)
         then \<exists>v b'. bits n b = Inr (v, b') \<and> unat v = le_value (take n (stream b)) \<and>
                stream b' = drop n (stream b) \<and> bits_ok b' \<and> b_datos b' = b_datos b
         else bits n b = Inl Nada"
proof (cases "n \<le> length (stream b)")
  case False
  with llena_stream [of b n] assms show ?thesis by (simp add: bits_def bits_ok_def)
next
  case True
  with llena_stream [of b n] assms obtain b1 where
    l: "llena n b = Inr b1" and b1: "stream b1 = stream b" "clean b1" "n \<le> b_cuenta b1"
      "b_cuenta b1 \<le> n + 7" "b_pos b1 \<le> length (b_datos b1)" "b_datos b1 = b_datos b"
    by (auto simp: bits_ok_def)
  define b2 where "b2 = b1\<lparr>b_buf := drop_bit n (b_buf b1), b_cuenta := b_cuenta b1 - n\<rparr>"
  define v where "v = b_buf b1 AND (push_bit n 1 - 1)"
  have "v = take_bit n (b_buf b1)"
    unfolding v_def by (simp only: take_bit_eq_mask mask_eq_exp_minus_1 push_bit_of_1)
  then have "unat v = take_bit n (unat (b_buf b1))" by (simp only: unsigned_take_bit_eq)
  also have "\<dots> = le_value (take n (stream b1))"
    unfolding stream_def by (rule le_value_bits [OF b1(3), symmetric])
  finally have v: "unat v = le_value (take n (stream b))" using b1(1) by simp
  have "stream b2 = drop n (stream b1)"
    using b1(3) drop_bits [OF b1(3), of "b_buf b1"] by (simp add: stream_def b2_def)
  moreover have "clean b2"
  proof -
    have "take_bit (b_cuenta b1 - n) (drop_bit n (b_buf b1)) =
        drop_bit n (take_bit (b_cuenta b1) (b_buf b1))" by (simp add: drop_bit_take_bit)
    with b1(2) show ?thesis by (simp add: clean_def b2_def)
  qed
  then have "bits_ok b2" "b_datos b2 = b_datos b" using b1 by (simp_all add: bits_ok_def b2_def)
  moreover have "bits n b = Inr (v, b2)" by (simp add: bits_def l v_def b2_def)
  ultimately show ?thesis using True v b1(1) by auto
qed

lemma bits_exact:
  assumes "bits_ok b" "stream b = xs @ rest" "length xs = n" "n \<le> 17"
  obtains v b' where "bits n b = Inr (v, b')" "unat v = le_value xs" "stream b' = rest"
    "bits_ok b'" "b_datos b' = b_datos b"
  using bits_stream [OF assms(1,4)] assms(2,3) by auto

text \<open>At most seven bits are ever buffered, so a stored block starts at the next whole byte.\<close>

lemma alinea_stream:
  "bits_ok b \<Longrightarrow> bits_ok (alinea b) \<and> b_datos (alinea b) = b_datos b \<and>
   stream (alinea b) = drop (length (stream b) mod 8) (stream b)"
proof -
  assume ok: "bits_ok b"
  have "length (stream b) mod 8 = b_cuenta b"
    using ok by (simp add: stream_def bits_ok_def)
  with ok show ?thesis by (simp add: stream_def alinea_def bits_ok_def clean_def)
qed

section \<open>Stored blocks\<close>

text \<open>The writer of RFC 1951, section 3.2.4: each piece with its length and the complement of it;
  the last one is marked.\<close>

definition le_bytes16 :: "nat \<Rightarrow> bytes" where
  "le_bytes16 n = [of_nat n, of_nat (n div 256)]"

fun guarda :: "bytes list \<Rightarrow> bytes" where
  "guarda [] = []"
| "guarda (d # ds) =
     (if ds = [] then 1 else 0) # le_bytes16 (length d) @ map (\<lambda>x. NOT x) (le_bytes16 (length d)) @
     d @ guarda ds"

lemma le16_NOT: "le16 (NOT a) (NOT b) = NOT (le16 a b)"
proof (rule bit_eqI)
  fix i
  assume "possible_bit TYPE(16 word) i"
  then have "i < 16" by simp
  then show "bit (le16 (NOT a) (NOT b)) i = bit (NOT (le16 a b)) i"
    by (auto simp: le16_def bit_or_iff bit_and_iff bit_push_bit_iff bit_not_iff bit_ucast_iff
        dest: bit_imp_le_length)
qed

lemma le16_bytes: "n < 65536 \<Longrightarrow> unat (le16 (of_nat n) (of_nat (n div 256))) = n"
proof -
  assume n: "n < 65536"
  have "le16 (of_nat n) (of_nat (n div 256)) = (of_nat n :: u16)"
  proof (rule bit_eqI)
    fix i
    assume "possible_bit TYPE(16 word) i"
    then have "i < 16" by simp
    have d: "n div 256 = drop_bit 8 n" by (simp add: drop_bit_eq_div)
    from \<open>i < 16\<close> show "bit (le16 (of_nat n) (of_nat (n div 256))) i = bit (of_nat n :: u16) i"
      unfolding d
      by (auto simp: le16_def bit_or_iff bit_push_bit_iff bit_ucast_iff bit_of_nat_iff
          bit_drop_bit_eq possible_bit_def)
  qed
  then show ?thesis using n by (simp add: unat_of_nat)
qed

lemma get_at_drop: "drop p xs = ys @ r \<Longrightarrow> i < length ys \<Longrightarrow> get_at xs (p + i) = Some (ys ! i)"
proof -
  assume d: "drop p xs = ys @ r" and i: "i < length ys"
  from d have "length xs - p = length ys + length r" by (metis length_append length_drop)
  with i have "p + i < length xs" by simp
  moreover have "xs ! (p + i) = ys ! i"
    using nth_drop [of p xs i] i d \<open>p + i < length xs\<close> by (simp add: nth_append)
  ultimately show ?thesis by simp
qed

lemma guardado_reads:
  assumes ok: "bits_ok b" "b_cuenta b = 0"
    and d: "drop (b_pos b) (b_datos b) = le_bytes16 (length d) @ map (\<lambda>x. NOT x) (le_bytes16 (length d)) @ d @ rest"
    and len: "length d < 65536" "length sal + length d \<le> MAXIMO"
  shows "\<exists>b'. guardado b sal = Inr (b', sal @ d) \<and> bits_ok b' \<and> b_cuenta b' = 0 \<and>
    drop (b_pos b') (b_datos b') = rest"
proof -
  define p where "p = b_pos b"
  define ds where "ds = b_datos b"
  define l0 :: byte where "l0 = of_nat (length d)"
  define l1 :: byte where "l1 = of_nat (length d div 256)"
  have dr: "drop p ds = [l0, l1, NOT l0, NOT l1] @ d @ rest"
    using d by (simp add: p_def ds_def l0_def l1_def le_bytes16_def)
  have g: "get_at ds p = Some l0" "get_at ds (p + 1) = Some l1" "get_at ds (p + 2) = Some (NOT l0)"
    "get_at ds (p + 3) = Some (NOT l1)"
    using get_at_drop [OF dr, of 0] get_at_drop [OF dr, of 1] get_at_drop [OF dr, of 2]
      get_at_drop [OF dr, of 3] by simp_all
  have v: "unat (le16 l0 l1) = length d" unfolding l0_def l1_def by (rule le16_bytes [OF len(1)])
  have nv: "unat (NOT (le16 (NOT l0) (NOT l1))) = length d" using v by (simp add: le16_NOT)
  have d4: "drop (p + 4) ds = d @ rest"
  proof -
    have "drop (p + 4) ds = drop 4 (drop p ds)" by (simp add: add.commute)
    then show ?thesis unfolding dr by simp
  qed
  have "length ds - p = length (drop p ds)" by simp
  then have total: "p + 4 + length d \<le> length ds" unfolding dr by simp
  have r: "get_range ds (p + 4) (p + 4 + length d) = Some d"
    using total d4 by (simp add: get_range_def)
  have al: "alinea b = b" if "b_buf b = 0" using that ok by (simp add: alinea_def)
  have "b_buf b = 0" using ok by (simp add: bits_ok_def clean_def)
  then have al: "alinea b = b" using ok by (simp add: alinea_def)
  have "\<not> MAXIMO < length sal + length d" using len(2) by simp
  then have "guardado b sal = Inr (b\<lparr>b_pos := p + 4 + length d\<rparr>, sal @ d)"
    unfolding guardado_def al Let_def p_def [symmetric] ds_def [symmetric]
    by (simp only: g opt_simps and_then_simps v nv r simp_thms if_False)
  moreover have "drop (p + 4 + length d) ds = rest"
  proof -
    have "drop (p + 4 + length d) ds = drop (length d) (drop (p + 4) ds)" by (simp add: add.commute)
    then show ?thesis unfolding d4 by simp
  qed
  ultimately show ?thesis using ok total by (simp add: bits_ok_def clean_def ds_def)
qed

lemma header_bits:
  assumes ok: "bits_ok b" "b_cuenta b = 0"
    and d: "drop (b_pos b) (b_datos b) = (if u then 1 else 0) # rest"
  obtains b1 t b2 where "bits 1 b = Inr (of_bool u, b1)" "bits 2 b1 = Inr (0, b2)"
    "bits_ok (alinea b2)" "b_cuenta (alinea b2) = 0"
    "drop (b_pos (alinea b2)) (b_datos (alinea b2)) = rest"
proof -
  have s: "stream b = [u] @ [False, False] @ replicate 5 False @ bytes_bits rest"
  proof -
    have "byte_bits (if u then 1 else 0) = [u] @ [False, False] @ replicate 5 False"
      by (cases u) (simp_all add: byte_bits_def upt_rec numeral_eq_Suc)
    then show ?thesis using ok d by (simp add: stream_def)
  qed
  from bits_exact [OF ok(1) s, of 1] obtain v b1 where b1: "bits 1 b = Inr (v, b1)"
    "unat v = le_value [u]" "stream b1 = [False, False] @ replicate 5 False @ bytes_bits rest"
    "bits_ok b1" "b_datos b1 = b_datos b" by auto
  from bits_exact [OF b1(4,3), of 2] obtain t b2 where b2: "bits 2 b1 = Inr (t, b2)"
    "unat t = le_value [False, False]" "stream b2 = replicate 5 False @ bytes_bits rest"
    "bits_ok b2" "b_datos b2 = b_datos b1" by auto
  have v: "v = of_bool u" using b1(2) by (cases u) (simp_all add: le_value_def word_unat_eq_iff)
  have t: "t = 0" using b2(2) by (simp add: le_value_def word_unat_eq_iff)
  have "length (stream b2) mod 8 = 5" unfolding b2(3) by simp
  with alinea_stream [OF b2(4)] b2(3) have a: "bits_ok (alinea b2)"
    "stream (alinea b2) = bytes_bits rest" by simp_all
  have c: "b_cuenta (alinea b2) = 0" by (simp add: alinea_def)
  have "length (bytes_bits (drop (b_pos (alinea b2)) (b_datos (alinea b2)))) = length (bytes_bits rest)"
    using a(2) c by (simp add: stream_def)
  then have l: "length (drop (b_pos (alinea b2)) (b_datos (alinea b2))) = length rest" by simp
  have dat: "b_datos (alinea b2) = b_datos b" using b1(5) b2(5) by (simp add: alinea_def)
  have lb: "b_pos b < length (b_datos b)"
  proof (rule ccontr)
    assume "\<not> b_pos b < length (b_datos b)"
    with d show False by simp
  qed
  have "length (b_datos b) - b_pos b = Suc (length rest)" using d by (metis length_Cons length_drop)
  moreover have "b_pos (alinea b2) \<le> length (b_datos b)" using a(1) dat by (simp add: bits_ok_def)
  moreover have "length (b_datos b) - b_pos (alinea b2) = length rest" using l dat by simp
  ultimately have "b_pos (alinea b2) = Suc (b_pos b)" using lb by linarith
  then have "drop (b_pos (alinea b2)) (b_datos (alinea b2)) = drop 1 (drop (b_pos b) (b_datos b))"
    using dat by simp
  then have "drop (b_pos (alinea b2)) (b_datos (alinea b2)) = rest" unfolding d by simp
  with b1 b2 v t a c show thesis by (intro that) auto
qed

lemma inflate_stored:
  "\<lbrakk>bits_ok b; b_cuenta b = 0; drop (b_pos b) (b_datos b) = guarda ds; ds \<noteq> [];
    list_all (\<lambda>d. length d < 65536) ds; length sal + length (concat ds) \<le> MAXIMO\<rbrakk> \<Longrightarrow>
   inflate_bucle b sal = Inr (sal @ concat ds)"
proof (induction ds arbitrary: b sal)
  case Nil
  then show ?case by simp
next
  case (Cons d ds)
  have h: "drop (b_pos b) (b_datos b) = (if ds = [] then 1 else 0) # (le_bytes16 (length d) @
      map (\<lambda>x. NOT x) (le_bytes16 (length d)) @ d @ guarda ds)" using Cons.prems by simp
  from header_bits [OF Cons.prems(1,2) h] obtain b1 b2 where
    b: "bits 1 b = Inr (of_bool (ds = []), b1)" "bits 2 b1 = Inr (0, b2)"
    and a: "bits_ok (alinea b2)" "b_cuenta (alinea b2) = 0"
    "drop (b_pos (alinea b2)) (b_datos (alinea b2)) = le_bytes16 (length d) @
      map (\<lambda>x. NOT x) (le_bytes16 (length d)) @ d @ guarda ds" by metis
  have "length d < 65536" "length sal + length d \<le> MAXIMO" using Cons.prems by simp_all
  from guardado_reads [OF a this] obtain b3 where
    g: "guardado (alinea b2) sal = Inr (b3, sal @ d)" and b3: "bits_ok b3" "b_cuenta b3 = 0"
      "drop (b_pos b3) (b_datos b3) = guarda ds" by blast
  have "alinea (alinea b2) = alinea b2" by (simp add: alinea_def)
  with g have "guardado b2 sal = Inr (b3, sal @ d)" by (simp add: guardado_def)
  with b have p: "inflate_paso b sal = Inr (ds = [], b3, sal @ d)"
    by (simp add: inflate_paso_def Let_def)
  show ?case
  proof (cases "ds = []")
    case True
    with p show ?thesis by (subst inflate_bucle.simps) simp
  next
    case False
    then have "inflate_bucle b sal = inflate_bucle b3 (sal @ d)"
      using p by (subst inflate_bucle.simps) simp
    also have "\<dots> = Inr ((sal @ d) @ concat ds)"
      using Cons.prems False by (intro Cons.IH [OF b3]) simp_all
    finally show ?thesis by simp
  qed
qed

end
