(* ===== verification/Inflate_Huffman.thy ===== *)
theory Inflate_Huffman imports Inflate_Stream begin

text \<open>
  Canonical Huffman codes as RFC 1951, section 3.2.2, defines them, and that the tables
  \<open>Huffman_new\<close> builds and the loop of \<open>decodifica\<close> read them back; then a whole block of literals
  and copies, which \<open>bloque\<close> turns into what the block means.
\<close>

section \<open>The canonical code\<close>

definition cnt :: "nat list \<Rightarrow> nat \<Rightarrow> nat" where
  "cnt L l = (if l = 0 then 0 else count_list L l)"

fun first_code :: "nat list \<Rightarrow> nat \<Rightarrow> nat" where
  "first_code L 0 = 0"
| "first_code L (Suc l) = (first_code L l + cnt L l) * 2"

fun first_index :: "nat list \<Rightarrow> nat \<Rightarrow> nat" where
  "first_index L 0 = 0"
| "first_index L (Suc l) = first_index L l + cnt L l"

definition rank_in :: "nat list \<Rightarrow> nat \<Rightarrow> nat" where
  "rank_in L s = count_list (take s L) (L ! s)"

definition code_of :: "nat list \<Rightarrow> nat \<Rightarrow> nat" where
  "code_of L s = first_code L (L ! s) + rank_in L s"

text \<open>Symbol \<open>s\<close> has a code, and it fits in its length.\<close>

definition coded :: "nat list \<Rightarrow> nat \<Rightarrow> bool" where
  "coded L s \<longleftrightarrow> s < length L \<and> L ! s \<noteq> 0 \<and> code_of L s < 2 ^ (L ! s)"

text \<open>Its bits in the order of the stream, the highest first.\<close>

definition code_bits :: "nat list \<Rightarrow> nat \<Rightarrow> bool list" where
  "code_bits L s = map (\<lambda>i. odd (code_of L s div 2 ^ (L ! s - 1 - i))) [0..<L ! s]"

lemma count_take_less: "s < length L \<Longrightarrow> count_list (take s L) (L ! s) < count_list L (L ! s)"
proof -
  assume s: "s < length L"
  have "count_list L (L ! s) = count_list (take s L @ L ! s # drop (Suc s) L) (L ! s)"
    using id_take_nth_drop [OF s] by simp
  then show ?thesis by simp
qed

lemma rank_less: "s < length L \<Longrightarrow> L ! s \<noteq> 0 \<Longrightarrow> rank_in L s < cnt L (L ! s)"
  by (simp add: rank_in_def cnt_def count_take_less)

lemma first_code_le: "k < l \<Longrightarrow> (first_code L k + cnt L k) * 2 ^ (l - k) \<le> first_code L l"
proof (induction l)
  case 0
  then show ?case by simp
next
  case (Suc l)
  show ?case
  proof (cases "k = l")
    case True
    then show ?thesis by simp
  next
    case False
    with Suc have "(first_code L k + cnt L k) * 2 ^ (l - k) \<le> first_code L l" by simp
    moreover have "Suc l - k = Suc (l - k)" using False Suc.prems by simp
    ultimately show ?thesis by (simp add: algebra_simps)
  qed
qed

section \<open>The tables\<close>

lemma cuenta_longitudes_spec:
  "cuenta_longitudes c ls = Inr c' \<Longrightarrow>
   length c' = length c \<and> (\<forall>x \<in> set ls. unat x < length c) \<and>
   (\<forall>l < length c. c' ! l = c ! l + count_list (map unat ls) l)"
proof (induction c ls rule: cuenta_longitudes.induct)
  case (1 c)
  then show ?case by simp
next
  case (2 c l ls)
  then have l: "unat l < length c" by (auto split: if_splits)
  with 2 show ?case by (auto simp: nth_list_update)
qed

lemma desde_de_spec:
  assumes "n \<le> 16" "length c = 16" "c ! 0 = 0" "\<forall>l < 16. 0 < l \<longrightarrow> c ! l = cnt L l"
  shows "length (foldl (\<lambda>d i. d[i := d ! (i - 1) + c ! (i - 1)]) (replicate 16 0) [1..<n]) = 16 \<and>
    (\<forall>l < 16. foldl (\<lambda>d i. d[i := d ! (i - 1) + c ! (i - 1)]) (replicate 16 0) [1..<n] ! l =
       (if l < n then first_index L l else 0))"
  using assms(1)
proof (induction n)
  case 0
  then show ?case by simp
next
  case (Suc n)
  show ?case
  proof (cases "n = 0")
    case True
    then show ?thesis by (auto simp: less_Suc_eq_0_disj)
  next
    case False
    then have u: "[1..<Suc n] = [1..<n] @ [n]" by simp
    define d where "d = foldl (\<lambda>d i. d[i := d ! (i - 1) + c ! (i - 1)]) (replicate 16 0) [1..<n]"
    have ih: "length d = 16" "\<forall>l < 16. d ! l = (if l < n then first_index L l else 0)"
      using Suc unfolding d_def by simp_all
    obtain m where m: "n = Suc m" using False by (cases n) auto
    have "c ! m = cnt L m" using assms(3,4) Suc.prems m by (cases m) (auto simp: cnt_def)
    then have "d ! (n - 1) + c ! (n - 1) = first_index L n" using ih(2) Suc.prems m by simp
    then show ?thesis
      unfolding u foldl_append foldl.simps d_def [symmetric]
      using ih Suc.prems by (auto simp: nth_list_update less_Suc_eq)
  qed
qed

text \<open>Filling the symbols is a counting sort: positions outside the slots keep their value, and the
  \<open>r\<close>-th symbol of each length lands in the \<open>r\<close>-th slot of that length.\<close>

definition slot :: "nat list \<Rightarrow> bytes \<Rightarrow> nat \<Rightarrow> nat \<Rightarrow> bool" where
  "slot desde ls l p \<longleftrightarrow>
     0 < l \<and> l < 16 \<and> desde ! l \<le> p \<and> p < desde ! l + count_list (map unat ls) l"

lemma slot_step:
  assumes "length desde = 16" "l \<noteq> (0 :: byte)" "unat l < 16"
  shows "slot (desde[unat l := desde ! unat l + 1]) ls m p \<longleftrightarrow>
    slot desde (l # ls) m p \<and> (m = unat l \<longrightarrow> p \<noteq> desde ! unat l)"
  using assms by (auto simp: slot_def nth_list_update)

lemma pon_step:
  assumes "pon_simbolos s (l # ls) desde simb = Inr simb'" "length desde = 16" "l \<noteq> 0"
  obtains "unat l < 16" "desde ! unat l < length simb"
    "pon_simbolos (s + 1) ls (desde[unat l := desde ! unat l + 1]) (simb[desde ! unat l := s]) = Inr simb'"
  using assms by (auto split: if_splits)

lemma pon_simbolos_frame:
  "\<lbrakk>pon_simbolos s ls desde simb = Inr simb'; length desde = 16; \<forall>m. \<not> slot desde ls m p\<rbrakk> \<Longrightarrow>
   length simb' = length simb \<and> simb' ! p = simb ! p"
proof (induction ls arbitrary: s desde simb)
  case Nil
  then show ?case by simp
next
  case (Cons l ls)
  show ?case
  proof (cases "l = 0")
    case True
    with Cons.prems have "pon_simbolos (s + 1) ls desde simb = Inr simb'" by simp
    moreover have "\<forall>m. \<not> slot desde ls m p" using Cons.prems(3) True by (auto simp: slot_def)
    ultimately show ?thesis using Cons by blast
  next
    case False
    from pon_step [OF Cons.prems(1,2) False] have l: "unat l < 16" "desde ! unat l < length simb"
      and r: "pon_simbolos (s + 1) ls (desde[unat l := desde ! unat l + 1])
                (simb[desde ! unat l := s]) = Inr simb'" by blast+
    have ns: "\<forall>m. \<not> slot (desde[unat l := desde ! unat l + 1]) ls m p"
      using Cons.prems(3) slot_step [OF Cons.prems(2) False l(1)] by blast
    have "slot desde (l # ls) (unat l) (desde ! unat l)"
      using l(1) False by (simp add: slot_def unat_gt_0)
    with Cons.prems(3) have "p \<noteq> desde ! unat l" by blast
    with Cons.IH [OF r _ ns] Cons.prems(2) show ?thesis by simp
  qed
qed

lemma pon_simbolos_spec:
  "\<lbrakk>pon_simbolos s ls desde simb = Inr simb'; length desde = 16;
    \<forall>m m' p. slot desde ls m p \<longrightarrow> slot desde ls m' p \<longrightarrow> m = m';
    j < length ls; ls ! j \<noteq> 0\<rbrakk> \<Longrightarrow>
   desde ! unat (ls ! j) + count_list (map unat (take j ls)) (unat (ls ! j)) < length simb' \<and>
   simb' ! (desde ! unat (ls ! j) + count_list (map unat (take j ls)) (unat (ls ! j))) = s + j"
proof (induction ls arbitrary: s desde simb j)
  case Nil
  then show ?case by simp
next
  case (Cons l ls)
  show ?case
  proof (cases "l = 0")
    case True
    with Cons.prems have r: "pon_simbolos (s + 1) ls desde simb = Inr simb'" by simp
    have "slot desde (l # ls) = slot desde ls" using True by (auto simp: slot_def fun_eq_iff)
    with Cons.prems have d: "\<forall>m m' p. slot desde ls m p \<longrightarrow> slot desde ls m' p \<longrightarrow> m = m'" by simp
    obtain k where k: "j = Suc k" using Cons.prems(5) True by (cases j) auto
    have "unat (ls ! k) \<noteq> 0" using Cons.prems(5) k by (simp add: unat_eq_0)
    with Cons.IH [OF r Cons.prems(2) d, of k] Cons.prems k True show ?thesis by simp
  next
    case False
    define desde1 where "desde1 = desde[unat l := desde ! unat l + 1]"
    from pon_step [OF Cons.prems(1,2) False] have l: "unat l < 16" "desde ! unat l < length simb"
      and r: "pon_simbolos (s + 1) ls desde1 (simb[desde ! unat l := s]) = Inr simb'"
      unfolding desde1_def by blast+
    have len: "length desde1 = 16" using Cons.prems(2) by (simp add: desde1_def)
    note st = slot_step [OF Cons.prems(2) False l(1), of ls, folded desde1_def]
    have d: "\<forall>m m' p. slot desde1 ls m p \<longrightarrow> slot desde1 ls m' p \<longrightarrow> m = m'"
      using Cons.prems(3) st by blast
    have s0: "slot desde (l # ls) (unat l) (desde ! unat l)"
      using l(1) False by (simp add: slot_def unat_gt_0)
    show ?thesis
    proof (cases j)
      case 0
      have "\<forall>m. \<not> slot desde1 ls m (desde ! unat l)" using st s0 Cons.prems(3) by blast
      from pon_simbolos_frame [OF r len this] l(2) 0 show ?thesis by simp
    next
      case (Suc k)
      from Cons.IH [OF r len d, of k] Cons.prems(4,5) Suc
      have "desde1 ! unat (ls ! k) + count_list (map unat (take k ls)) (unat (ls ! k)) < length simb' \<and>
        simb' ! (desde1 ! unat (ls ! k) + count_list (map unat (take k ls)) (unat (ls ! k))) = s + 1 + k"
        by simp
      moreover have "desde1 ! unat (ls ! k) + count_list (map unat (take k ls)) (unat (ls ! k)) =
          desde ! unat (ls ! k) + count_list (map unat (take (Suc k) (l # ls))) (unat (ls ! k))"
        using l(1) Cons.prems(2) by (auto simp: desde1_def nth_list_update)
      ultimately show ?thesis using Suc by simp
    qed
  qed
qed

lemma first_index_mono: "l < m \<Longrightarrow> first_index L l + cnt L l \<le> first_index L m"
proof (induction m)
  case 0
  then show ?case by simp
next
  case (Suc m)
  then show ?case by (cases "l = m") auto
qed

text \<open>What a table that \<open>Huffman_new\<close> accepts holds.\<close>

lemma Huffman_new_spec:
  assumes "Huffman_new ls = Inr h"
  defines "L \<equiv> map unat ls"
  shows "length (h_cuenta h) = 16" "l < 16 \<Longrightarrow> h_cuenta h ! l = cnt L l"
    "s < length L \<Longrightarrow> L ! s \<noteq> 0 \<Longrightarrow> L ! s < 16 \<and>
       get_at (h_simbolos h) (first_index L (L ! s) + rank_in L s) = Some s"
proof -
  from assms(1) obtain c0 simb where c0: "cuenta_longitudes (replicate 16 0) ls = Inr c0"
    and p: "pon_simbolos 0 ls (desde_de (c0[0 := 0])) (replicate (length ls) 0) = Inr simb"
    and h: "h = \<lparr>h_cuenta = c0[0 := 0], h_simbolos = simb\<rparr>"
    by (auto simp: Huffman_new_def Let_def)
  note cs = cuenta_longitudes_spec [OF c0]
  define c where "c = c0[0 := 0]"
  have c: "length c = 16" "c ! 0 = 0" "\<forall>l < 16. 0 < l \<longrightarrow> c ! l = cnt L l"
    using cs by (auto simp: c_def cnt_def L_def)
  show "length (h_cuenta h) = 16" using c h by (simp add: c_def)
  show "l < 16 \<Longrightarrow> h_cuenta h ! l = cnt L l" for l
    using c h by (cases "l = 0") (simp_all add: c_def cnt_def)
  from desde_de_spec [OF order_refl c] have d: "length (desde_de c) = 16"
    "\<forall>l < 16. desde_de c ! l = first_index L l" unfolding desde_de_def by simp_all
  have slots: "slot (desde_de c) ls m p \<longleftrightarrow>
      0 < m \<and> m < 16 \<and> first_index L m \<le> p \<and> p < first_index L m + cnt L m" for m p
    using d(2) by (auto simp: slot_def cnt_def L_def)
  have disj: "\<forall>m m' p. slot (desde_de c) ls m p \<longrightarrow> slot (desde_de c) ls m' p \<longrightarrow> m = m'"
  proof (intro allI impI)
    fix m m' p
    assume "slot (desde_de c) ls m p" "slot (desde_de c) ls m' p"
    then show "m = m'" unfolding slots
      using first_index_mono [of m m' L] first_index_mono [of m' m L]
      by (cases m m' rule: linorder_cases) linarith+
  qed
  assume s: "s < length L" "L ! s \<noteq> 0"
  have l: "L ! s < 16" using cs s(1) by (auto simp: L_def)
  have sz: "s < length ls" "ls ! s \<noteq> 0" using s by (auto simp: L_def unat_eq_0)
  from pon_simbolos_spec [OF p [folded c_def] d(1) disj sz] l d(2) sz h
  show "L ! s < 16 \<and> get_at (h_simbolos h) (first_index L (L ! s) + rank_in L s) = Some s"
    by (simp add: L_def rank_in_def take_map)
qed

section \<open>Decoding one symbol\<close>

lemma length_code_bits [simp]: "length (code_bits L s) = L ! s"
  by (simp add: code_bits_def)

lemma push_code_bit: "w = of_bool (odd x) \<Longrightarrow> int (2 * (x div 2)) OR w = int x"
proof -
  assume w: "w = of_bool (odd x)"
  have "int (2 * (x div 2)) OR of_bool (odd x) = int (2 * (x div 2)) + of_bool (odd x)"
    by (cases "odd x") (simp_all add: or_one_eq del: of_nat_mult of_nat_div)
  also have "\<dots> = int (2 * (x div 2) + of_bool (odd x))" by simp
  also have "2 * (x div 2) + of_bool (odd x) = x" by (cases "odd x") simp_all
  finally show ?thesis unfolding w .
qed

lemma half_step: "c div 2 ^ Suc n = c div 2 ^ n div 2" for c :: nat
  by (simp only: power_Suc2 div_mult2_eq)

text \<open>The loop with \<open>k - 1\<close> bits of the code read: the code so far is its high bits.\<close>

lemma deco_spec:
  assumes t: "Huffman_new ls = Inr h" and L: "L = map unat ls" and s: "coded L s"
  shows "\<lbrakk>0 < k; k \<le> L ! s; bits_ok b; stream b = drop (k - 1) (code_bits L s) @ rest\<rbrakk> \<Longrightarrow>
    \<exists>b'. deco h k (int (2 * (code_of L s div 2 ^ (L ! s - (k - 1))))) (int (first_code L k))
           (int (first_index L k)) b = Inr (s, b') \<and>
         bits_ok b' \<and> stream b' = rest \<and> b_datos b' = b_datos b"
proof (induction "L ! s - k" arbitrary: k b)
  case 0
  define c where "c = code_of L s"
  have k: "k = L ! s" using 0 by simp
  have s': "s < length L" "L ! s \<noteq> 0" using s by (auto simp: coded_def)
  from Huffman_new_spec(3) [OF t, folded L, OF s'] have k16: "k < 16"
    and sym: "get_at (h_simbolos h) (first_index L k + rank_in L s) = Some s" using k by simp_all
  have cn: "h_cuenta h ! k = cnt L k" "k < length (h_cuenta h)"
    using Huffman_new_spec(1,2) [OF t, folded L] k16 by simp_all
  have "drop (k - 1) (code_bits L s) = [odd c]"
    using k s' unfolding code_bits_def c_def [symmetric]
    by (simp add: drop_map) (cases "L ! s"; simp)
  with 0(5) have st: "stream b = [odd c] @ rest" by simp
  from bits_exact [OF 0(4) st, of 1] obtain v b' where v: "bits 1 b = Inr (v, b')"
    "unat v = le_value [odd c]" and b': "stream b' = rest" "bits_ok b'" "b_datos b' = b_datos b" by auto
  have "uint v = of_bool (odd c)" using v(2) by (simp add: le_value_def uint_nat)
  moreover have "L ! s - (k - 1) = Suc 0" using k s' by simp
  ultimately have cod: "int (2 * (c div 2 ^ (L ! s - (k - 1)))) OR uint v = int c"
    using push_code_bit [of "uint v" c] half_step [of c 0] by (simp only: power_0 div_by_1)
  have r: "rank_in L s < cnt L k" using rank_less [OF s'] k by simp
  have c: "c = first_code L k + rank_in L s" using k by (simp add: c_def code_of_def)
  have lt: "int c - int (cnt L k) < int (first_code L k)" using r c by simp
  have ix: "int (first_index L k) + (int c - int (first_code L k)) = int (first_index L k + rank_in L s)"
    using c by simp
  have "deco h k (int (2 * (c div 2 ^ (L ! s - (k - 1))))) (int (first_code L k))
           (int (first_index L k)) b = Inr (s, b')"
  proof -
    have idx: "idx (h_cuenta h) k = Inr (cnt L k)" using cn by simp
    have nn: "\<not> int (first_index L k + rank_in L s) < 0" by simp
    show ?thesis
      by (subst deco.simps)
        (simp only: k16 if_True if_False v(1) and_then_simps prod.case Let_def cod idx lt ix nn
          nat_int sym opt_simps)
  qed
  with b' show ?case unfolding c_def by blast
next
  case (Suc d)
  define c where "c = code_of L s"
  define l where "l = L ! s"
  have k: "k < l" using Suc(2) by (simp add: l_def)
  have s': "s < length L" "L ! s \<noteq> 0" using s by (auto simp: coded_def)
  from Huffman_new_spec(3) [OF t, folded L, OF s'] have k16: "k < 16" using k by (simp add: l_def)
  have cn: "h_cuenta h ! k = cnt L k" "k < length (h_cuenta h)"
    using Huffman_new_spec(1,2) [OF t, folded L] k16 by simp_all
  define x where "x = c div 2 ^ (l - k)"
  have "drop (k - 1) (code_bits L s) = odd x # drop k (code_bits L s)"
  proof -
    have "drop (k - 1) (code_bits L s) = code_bits L s ! (k - 1) # drop (Suc (k - 1)) (code_bits L s)"
      using k Suc(3) by (intro Cons_nth_drop_Suc [symmetric]) (simp add: l_def)
    moreover have "Suc (k - 1) = k" using Suc(3) by simp
    moreover have "code_bits L s ! (k - 1) = odd x"
      using k Suc(3) \<open>Suc (k - 1) = k\<close> by (simp add: code_bits_def x_def c_def l_def)
    ultimately show ?thesis by simp
  qed
  with Suc(6) have st: "stream b = [odd x] @ (drop k (code_bits L s) @ rest)" by simp
  from bits_exact [OF Suc(5) st, of 1] obtain v b1 where v: "bits 1 b = Inr (v, b1)"
    "unat v = le_value [odd x]" and b1: "stream b1 = drop k (code_bits L s) @ rest" "bits_ok b1"
    "b_datos b1 = b_datos b" by auto
  have "uint v = of_bool (odd x)" using v(2) by (simp add: le_value_def uint_nat)
  moreover have "l - (k - 1) = Suc (l - k)" using k Suc(3) by simp
  ultimately have cod: "int (2 * (c div 2 ^ (l - (k - 1)))) OR uint v = int x"
    using push_code_bit [of "uint v" x] half_step [of c "l - k"] unfolding x_def by (simp only:)
  have "first_code L k + cnt L k \<le> x"
  proof -
    have "(first_code L k + cnt L k) * 2 ^ (l - k) \<le> c"
      using first_code_le [OF k, of L] by (simp add: c_def code_of_def l_def)
    then show ?thesis unfolding x_def by (simp add: less_eq_div_iff_mult_less_eq)
  qed
  then have ge: "\<not> int x - int (cnt L k) < int (first_code L k)" by simp
  have nx: "int x * 2 = int (2 * (c div 2 ^ (l - (Suc k - 1))))" by (simp add: x_def)
  have "deco h k (int (2 * (c div 2 ^ (l - (k - 1))))) (int (first_code L k))
           (int (first_index L k)) b =
        deco h (k + 1) (int (2 * (c div 2 ^ (l - (Suc k - 1))))) (int (first_code L (Suc k)))
           (int (first_index L (Suc k))) b1"
  proof -
    have idx: "idx (h_cuenta h) k = Inr (cnt L k)" using cn by simp
    have e: "(int (first_code L k) + int (cnt L k)) * 2 = int (first_code L (Suc k))"
      "int (first_index L k) + int (cnt L k) = int (first_index L (Suc k))" by simp_all
    show ?thesis
      by (subst deco.simps)
        (simp only: k16 if_True if_False v(1) and_then_simps prod.case Let_def cod idx ge nx e)
  qed
  moreover have "\<exists>b'. deco h (Suc k) (int (2 * (c div 2 ^ (l - (Suc k - 1)))))
      (int (first_code L (Suc k))) (int (first_index L (Suc k))) b1 = Inr (s, b') \<and>
      bits_ok b' \<and> stream b' = rest \<and> b_datos b' = b_datos b1"
    unfolding c_def l_def using Suc.hyps(2) k b1 by (intro Suc.hyps(1)) (simp_all add: l_def)
  ultimately show ?case using b1(3) unfolding c_def l_def by simp
qed

lemma decodifica_spec:
  assumes "Huffman_new ls = Inr h" "coded (map unat ls) s" "bits_ok b"
    "stream b = code_bits (map unat ls) s @ rest"
  obtains b' where "decodifica h b = Inr (s, b')" "bits_ok b'" "stream b' = rest"
    "b_datos b' = b_datos b"
proof -
  let ?L = "map unat ls"
  have s: "?L ! s \<noteq> 0" "code_of ?L s < 2 ^ (?L ! s)" using assms(2) by (auto simp: coded_def)
  then have "code_of ?L s div 2 ^ (?L ! s - (1 - 1)) = 0" by simp
  with deco_spec [OF assms(1) refl assms(2), of 1 b rest] s assms(3,4) show thesis
    by (auto simp: decodifica_def cnt_def intro: that)
qed

section \<open>Copies\<close>

text \<open>What a copy means: the last \<open>dist\<close> bytes again and again, \<open>largo\<close> of them.\<close>

definition copy_of :: "nat \<Rightarrow> nat \<Rightarrow> bytes \<Rightarrow> bytes" where
  "copy_of dist largo sal =
     sal @ map (\<lambda>k. sal ! (length sal - dist + k mod dist)) [0..<largo]"

lemma length_copy_of [simp]: "length (copy_of dist largo sal) = length sal + largo"
  by (simp add: copy_of_def)

lemma copy_of_Suc:
  "copy_of dist (Suc j) sal = copy_of dist j sal @ [sal ! (length sal - dist + j mod dist)]"
  by (simp add: copy_of_def)

lemma copy_of_nth:
  assumes "0 < dist" "dist \<le> length sal"
  shows "copy_of dist j sal ! (length sal - dist + j) = sal ! (length sal - dist + j mod dist)"
proof (cases "j < dist")
  case True
  with assms have "length sal - dist + j < length sal" by linarith
  with True show ?thesis by (simp add: copy_of_def nth_append)
next
  case False
  then have "length sal - dist + j - length sal = j - dist" "j - dist < j"
    "\<not> length sal - dist + j < length sal" using assms by simp_all
  with assms False show ?thesis by (simp add: copy_of_def nth_append mod_if [of j])
qed

lemma copia_steps:
  assumes "0 < dist" "dist \<le> length sal"
  shows "copia k (length sal - dist + j) (copy_of dist j sal) = Inr (copy_of dist (j + k) sal)"
proof (induction k arbitrary: j)
  case 0
  then show ?case by simp
next
  case (Suc k)
  have "get_at (copy_of dist j sal) (length sal - dist + j) =
      Some (sal ! (length sal - dist + j mod dist))"
    using copy_of_nth [OF assms, of j] assms by simp
  then have "copia (Suc k) (length sal - dist + j) (copy_of dist j sal) =
      copia k (length sal - dist + Suc j) (copy_of dist (Suc j) sal)"
    by (simp only: copia.simps opt_simps and_then_simps copy_of_Suc add_Suc_right)
      (simp only: Suc_eq_plus1 add.assoc)
  also have "\<dots> = Inr (copy_of dist (j + Suc k) sal)" using Suc [of "Suc j"] by simp
  finally show ?case .
qed

lemma copia_spec:
  "0 < dist \<Longrightarrow> dist \<le> length sal \<Longrightarrow>
   copia k (length sal - dist) sal = Inr (copy_of dist k sal)"
  using copia_steps [of dist sal k 0] by (simp add: copy_of_def)

section \<open>Blocks of literals and copies\<close>

text \<open>A literal byte, or a copy: the index of its length with the extra value, and of its distance.\<close>

datatype ficha = Literal byte | Copia nat nat nat nat

definition low_bits :: "nat \<Rightarrow> nat \<Rightarrow> bool list" where
  "low_bits n v = map (bit v) [0..<n]"

fun ficha_bits :: "nat list \<Rightarrow> nat list \<Rightarrow> ficha \<Rightarrow> bool list" where
  "ficha_bits L D (Literal x) = code_bits L (unat x)"
| "ficha_bits L D (Copia i v d w) =
     code_bits L (257 + i) @ low_bits (EXTRA_LARGO ! i) v @
     code_bits D d @ low_bits (EXTRA_DIST ! d) w"

fun ficha_ok :: "nat list \<Rightarrow> nat list \<Rightarrow> nat \<Rightarrow> ficha \<Rightarrow> bool" where
  "ficha_ok L D n (Literal x) \<longleftrightarrow> coded L (unat x) \<and> n < MAXIMO"
| "ficha_ok L D n (Copia i v d w) \<longleftrightarrow>
     coded L (257 + i) \<and> i < 29 \<and> v < 2 ^ (EXTRA_LARGO ! i) \<and>
     coded D d \<and> d < 30 \<and> w < 2 ^ (EXTRA_DIST ! d) \<and>
     BASE_DIST ! d + w \<le> n \<and> n + (BASE_LARGO ! i + v) \<le> MAXIMO"

fun ficha_sal :: "bytes \<Rightarrow> ficha \<Rightarrow> bytes" where
  "ficha_sal sal (Literal x) = sal @ [x]"
| "ficha_sal sal (Copia i v d w) = copy_of (BASE_DIST ! d + w) (BASE_LARGO ! i + v) sal"

fun fichas_ok :: "nat list \<Rightarrow> nat list \<Rightarrow> bytes \<Rightarrow> ficha list \<Rightarrow> bool" where
  "fichas_ok L D sal [] = True"
| "fichas_ok L D sal (t # ts) \<longleftrightarrow>
     ficha_ok L D (length sal) t \<and> fichas_ok L D (ficha_sal sal t) ts"

definition bloque_bits :: "nat list \<Rightarrow> nat list \<Rightarrow> ficha list \<Rightarrow> bool list" where
  "bloque_bits L D ts = concat (map (ficha_bits L D) ts) @ code_bits L 256"

lemma low_bits_exact:
  assumes "bits_ok b" "stream b = low_bits n v @ rest" "v < 2 ^ n" "n \<le> 17"
  obtains w b' where "bits n b = Inr (w, b')" "unat w = v" "stream b' = rest" "bits_ok b'"
proof -
  have "le_value (low_bits n v) = take_bit n v"
    by (simp only: le_value_def low_bits_def horner_sum_bit_eq_take_bit)
  also have "\<dots> = v" using assms(3) by (simp add: take_bit_nat_eq_self)
  finally have "le_value (low_bits n v) = v" .
  moreover have "length (low_bits n v) = n" by (simp add: low_bits_def)
  ultimately show thesis using bits_exact [OF assms(1,2) _ assms(4)] that by metis
qed

lemma extra_small: "i < 29 \<Longrightarrow> EXTRA_LARGO ! i \<le> 17" "d < 30 \<Longrightarrow> EXTRA_DIST ! d \<le> 17"
  "d < 30 \<Longrightarrow> 0 < BASE_DIST ! d"
proof -
  have "list_all (\<lambda>n. n \<le> 17) EXTRA_LARGO" "list_all (\<lambda>n. n \<le> 17) EXTRA_DIST"
    "list_all (\<lambda>n. 0 < n) BASE_DIST" by (simp_all add: EXTRA_LARGO_def EXTRA_DIST_def BASE_DIST_def)
  then show "i < 29 \<Longrightarrow> EXTRA_LARGO ! i \<le> 17" "d < 30 \<Longrightarrow> EXTRA_DIST ! d \<le> 17"
    "d < 30 \<Longrightarrow> 0 < BASE_DIST ! d"
    by (simp_all add: list_all_length EXTRA_LARGO_def EXTRA_DIST_def BASE_DIST_def)
qed

lemma table_lengths: "length BASE_LARGO = 29" "length EXTRA_LARGO = 29" "length BASE_DIST = 30"
  "length EXTRA_DIST = 30"
  by (simp_all add: BASE_LARGO_def EXTRA_LARGO_def BASE_DIST_def EXTRA_DIST_def)

lemma paso_ficha:
  assumes l: "Huffman_new ls = Inr lit" "L = map unat ls" and d: "Huffman_new ds = Inr dist"
    "D = map unat ds" and ok: "bits_ok b" "ficha_ok L D (length sal) t"
    and st: "stream b = ficha_bits L D t @ rest"
  obtains b' where "bloque_paso lit dist b sal = Inr (False, b', ficha_sal sal t)" "bits_ok b'"
    "stream b' = rest"
proof (cases t)
  case (Literal x)
  with st have s1: "stream b = code_bits (map unat ls) (unat x) @ rest" using l by simp
  from Literal ok l have c: "coded (map unat ls) (unat x)" "length sal < MAXIMO" by simp_all
  from decodifica_spec [OF l(1) c(1) ok(1) s1] obtain b' where b': "decodifica lit b = Inr (unat x, b')"
    "bits_ok b'" "stream b' = rest" by blast
  have "unat x < 256" using unsigned_less [of x] by simp
  then have "unat x \<le> 255" by simp
  with b' c(2) have "bloque_paso lit dist b sal = Inr (False, b', sal @ [x])"
    by (simp add: bloque_paso_def)
  with b' Literal show thesis by (intro that) simp_all
next
  case (Copia i v e w)
  from Copia ok l d have c: "coded (map unat ls) (257 + i)" "i < 29" "v < 2 ^ (EXTRA_LARGO ! i)"
    "coded (map unat ds) e" "e < 30" "w < 2 ^ (EXTRA_DIST ! e)" "BASE_DIST ! e + w \<le> length sal"
    "length sal + (BASE_LARGO ! i + v) \<le> MAXIMO" by simp_all
  from st Copia l d have s1: "stream b = code_bits (map unat ls) (257 + i) @
      (low_bits (EXTRA_LARGO ! i) v @ code_bits (map unat ds) e @ low_bits (EXTRA_DIST ! e) w @ rest)"
    by simp
  from decodifica_spec [OF l(1) c(1) ok(1) s1] obtain b1 where b1:
    "decodifica lit b = Inr (257 + i, b1)" "bits_ok b1"
    "stream b1 = low_bits (EXTRA_LARGO ! i) v @
       (code_bits (map unat ds) e @ low_bits (EXTRA_DIST ! e) w @ rest)" by blast
  from low_bits_exact [OF b1(2,3) c(3) extra_small(1) [OF c(2)]] obtain v' b2 where b2:
    "bits (EXTRA_LARGO ! i) b1 = Inr (v', b2)" "unat v' = v" "bits_ok b2"
    "stream b2 = code_bits (map unat ds) e @ (low_bits (EXTRA_DIST ! e) w @ rest)" by metis
  from decodifica_spec [OF d(1) c(4) b2(3,4)] obtain b3 where b3: "decodifica dist b2 = Inr (e, b3)"
    "bits_ok b3" "stream b3 = low_bits (EXTRA_DIST ! e) w @ rest" by blast
  from low_bits_exact [OF b3(2,3) c(6) extra_small(2) [OF c(5)]] obtain w' b4 where b4:
    "bits (EXTRA_DIST ! e) b3 = Inr (w', b4)" "unat w' = w" "stream b4 = rest" "bits_ok b4" by metis
  have g: "get_at BASE_LARGO i = Some (BASE_LARGO ! i)" "get_at EXTRA_LARGO i = Some (EXTRA_LARGO ! i)"
    "get_at BASE_DIST e = Some (BASE_DIST ! e)" "get_at EXTRA_DIST e = Some (EXTRA_DIST ! e)"
    using c(2,5) by (simp_all add: table_lengths)
  have n: "\<not> (length sal < BASE_DIST ! e + w \<or> MAXIMO < length sal + (BASE_LARGO ! i + v))"
    "\<not> 257 + i \<le> 255" "257 + i \<noteq> 256" "257 + i - 257 = i" using c(7,8) by simp_all
  have cp: "copia (BASE_LARGO ! i + v) (length sal - (BASE_DIST ! e + w)) sal =
      Inr (ficha_sal sal t)"
    using copia_spec [of "BASE_DIST ! e + w" sal "BASE_LARGO ! i + v"] extra_small(3) [OF c(5)] c(7)
    by (simp add: Copia)
  have "bloque_paso lit dist b sal = Inr (False, b4, ficha_sal sal t)"
    by (simp only: bloque_paso_def b1(1) b2(1,2) b3(1) b4(1,2) and_then_simps prod.case n if_False g
        opt_simps Let_def cp)
  with b4 show thesis by (intro that)
qed

lemma paso_fin:
  assumes l: "Huffman_new ls = Inr lit" "L = map unat ls" "coded L 256" and ok: "bits_ok b"
    and st: "stream b = code_bits L 256 @ rest"
  obtains b' where "bloque_paso lit dist b sal = Inr (True, b', sal)" "bits_ok b'" "stream b' = rest"
proof -
  from decodifica_spec [OF l(1) _ ok, of 256] l(2,3) st obtain b' where
    "decodifica lit b = Inr (256, b')" "bits_ok b'" "stream b' = rest" by metis
  then show thesis by (intro that [of b']) (simp_all add: bloque_paso_def)
qed

lemma bloque_spec:
  assumes "Huffman_new ls = Inr lit" "Huffman_new ds = Inr dist"
    and "coded (map unat ls) 256" "fichas_ok (map unat ls) (map unat ds) sal ts"
    and "bits_ok b" "stream b = bloque_bits (map unat ls) (map unat ds) ts @ rest"
  shows "\<exists>b'. bloque lit dist b sal = Inr (b', foldl ficha_sal sal ts) \<and> bits_ok b' \<and> stream b' = rest"
  using assms(4-)
proof (induction ts arbitrary: b sal)
  case Nil
  then have "stream b = code_bits (map unat ls) 256 @ rest" by (simp add: bloque_bits_def)
  from paso_fin [OF assms(1) refl assms(3) Nil(2) this] obtain b' where
    "bloque_paso lit dist b sal = Inr (True, b', sal)" "bits_ok b'" "stream b' = rest" by blast
  then show ?case by (subst bloque.simps) simp
next
  case (Cons t ts)
  have ok: "ficha_ok (map unat ls) (map unat ds) (length sal) t"
    "fichas_ok (map unat ls) (map unat ds) (ficha_sal sal t) ts" using Cons.prems(1) by simp_all
  have "stream b = ficha_bits (map unat ls) (map unat ds) t @
      (bloque_bits (map unat ls) (map unat ds) ts @ rest)"
    using Cons.prems(3) by (simp add: bloque_bits_def)
  from paso_ficha [OF assms(1) refl assms(2) refl Cons.prems(2) ok(1) this] obtain b1 where b1:
    "bloque_paso lit dist b sal = Inr (False, b1, ficha_sal sal t)" "bits_ok b1"
    "stream b1 = bloque_bits (map unat ls) (map unat ds) ts @ rest" by blast
  from Cons.IH [OF ok(2) b1(2,3)] b1(1) show ?case by (subst bloque.simps) simp
qed

text \<open>C14: a compressed block is decoded to what it means. For any two tables the decoder accepts and
  any list of literals and copies written with their canonical codes, \<open>bloque\<close> puts out the literals
  and the copied bytes and leaves the input exactly behind the end-of-block code.\<close>

theorem block_means_what_it_says:
  assumes "Huffman_new ls = Inr lit" "Huffman_new ds = Inr dist"
    and "coded (map unat ls) 256" "fichas_ok (map unat ls) (map unat ds) sal ts"
    and "bits_ok b" "stream b = bloque_bits (map unat ls) (map unat ds) ts @ rest"
  shows "\<exists>b'. bloque lit dist b sal = Inr (b', foldl ficha_sal sal ts) \<and> bits_ok b' \<and> stream b' = rest"
  using assms by (rule bloque_spec)

section \<open>A concrete block\<close>

lemma pon_zeros: "pon_simbolos s (replicate n 0 @ ls) d m = pon_simbolos (s + n) ls d m"
  by (induction n arbitrary: s) simp_all

lemma cuenta_zeros: "c \<noteq> [] \<Longrightarrow> cuenta_longitudes c (replicate n 0 @ ls) =
  cuenta_longitudes (c[0 := c ! 0 + n]) ls"
  by (induction n arbitrary: c) simp_all

definition sample_lengths :: bytes where
  "sample_lengths = 1 # replicate 255 0 @ [2, 2]"

definition sample_lit :: huffman where
  "sample_lit = \<lparr>h_cuenta = [0, 1, 2, 0, 0, 0, 0, 0, 0, 0, 0, 0, 0, 0, 0, 0],
     h_simbolos = (replicate 258 0)[0 := 0, 1 := 256, 2 := 257]\<rparr>"

lemma sample_desde: "desde_de [0, 1, 2, 0, 0, 0, 0, 0, 0, 0, 0, 0, 0, 0, 0, 0] =
   [0, 0, 1, 3, 3, 3, 3, 3, 3, 3, 3, 3, 3, 3, 3, 3]"
  by code_simp

lemma sixteen: "replicate 16 0 = [0, 0, 0, 0, 0, 0, 0, 0, 0, 0, 0, 0, 0, 0, 0, 0 :: nat]"
  by (simp add: numeral_eq_Suc)

lemma sample_table: "Huffman_new sample_lengths = Inr sample_lit"
proof -
  have c: "cuenta_longitudes (replicate 16 0) sample_lengths =
      Inr [255, 1, 2, 0, 0, 0, 0, 0, 0, 0, 0, 0, 0, 0, 0, 0]"
    unfolding sixteen by (simp add: sample_lengths_def cuenta_zeros)
  have l: "length sample_lengths = 258" by (simp add: sample_lengths_def)
  have p: "pon_simbolos 0 sample_lengths [0, 0, 1, 3, 3, 3, 3, 3, 3, 3, 3, 3, 3, 3, 3, 3] (replicate 258 0) =
      Inr ((replicate 258 0)[0 := 0, 1 := 256, 2 := 257])"
    by (simp add: sample_lengths_def pon_zeros) (simp only: numeral_2_eq_2)
  show ?thesis unfolding Huffman_new_def c l
    by (simp add: sample_desde [unfolded One_nat_def] p [unfolded One_nat_def] Let_def sample_lit_def)
qed

definition sample_dist :: huffman where
  "sample_dist = \<lparr>h_cuenta = [0, 1, 0, 0, 0, 0, 0, 0, 0, 0, 0, 0, 0, 0, 0, 0], h_simbolos = [0]\<rparr>"

lemma sample_dist_desde: "desde_de [0, 1, 0, 0, 0, 0, 0, 0, 0, 0, 0, 0, 0, 0, 0, 0] =
   [0, 0, 1, 1, 1, 1, 1, 1, 1, 1, 1, 1, 1, 1, 1, 1]"
  by code_simp

lemma sample_dist_table: "Huffman_new [1] = Inr sample_dist"
  unfolding Huffman_new_def sixteen by (simp add: sample_dist_desde [unfolded One_nat_def] Let_def sample_dist_def)

lemma sample_map: "map unat sample_lengths = 1 # replicate 255 0 @ [2, 2]"
  by (simp add: sample_lengths_def)

lemma count_replicate: "count_list (replicate n x) y = (if x = y then n else 0)"
  by (induction n) auto

lemma sample_nth: "map unat sample_lengths ! 0 = 1" "map unat sample_lengths ! 256 = 2"
  "map unat sample_lengths ! 257 = 2" "length (map unat sample_lengths) = 258"
  unfolding sample_map by (simp_all add: nth_append nth_Cons')

lemma sample_cnt: "cnt (map unat sample_lengths) 0 = 0" "cnt (map unat sample_lengths) (Suc 0) = 1"
  "cnt (map unat sample_lengths) 2 = 2"
  unfolding sample_map by (simp_all add: cnt_def count_replicate)

lemma sample_rank: "rank_in (map unat sample_lengths) 0 = 0" "rank_in (map unat sample_lengths) 256 = 0"
  "rank_in (map unat sample_lengths) 257 = 1"
  unfolding rank_in_def sample_nth unfolding sample_map by (simp_all add: count_replicate)

lemma sample_code: "code_of (map unat sample_lengths) 0 = 0" "code_of (map unat sample_lengths) 256 = 2"
  "code_of (map unat sample_lengths) 257 = 3"
  unfolding code_of_def sample_nth sample_rank by (simp_all add: numeral_2_eq_2 sample_cnt)

lemma sample_coded: "coded (map unat sample_lengths) 0" "coded (map unat sample_lengths) 256"
  "coded (map unat sample_lengths) 257"
  unfolding coded_def sample_nth sample_code by simp_all

lemma sample_codes: "code_bits (map unat sample_lengths) 0 = [False]"
  "code_bits (map unat sample_lengths) 256 = [True, False]"
  "code_bits (map unat sample_lengths) 257 = [True, True]"
  unfolding code_bits_def sample_nth sample_code by (simp_all add: upt_rec)

lemma sample_dist_codes: "code_bits [1] 0 = [False]" "coded [1] 0"
  by (simp_all add: code_bits_def code_of_def coded_def rank_in_def cnt_def upt_rec)

theorem block_means_what_it_says_witness:
  "\<exists>b'. bloque sample_lit sample_dist (Bits_new [22]) [] = Inr (b', [0, 0, 0, 0]) \<and>
    stream b' = [False, False]"
proof -
  let ?ts = "[Literal 0, Copia 0 0 0 0]"
  have o: "fichas_ok (map unat sample_lengths) (map unat [1]) [] ?ts"
    using sample_coded sample_dist_codes
    by (simp add: EXTRA_LARGO_def EXTRA_DIST_def BASE_LARGO_def BASE_DIST_def MAXIMO_def)
  have s: "stream (Bits_new [22]) =
      bloque_bits (map unat sample_lengths) (map unat [1]) ?ts @ [False, False]"
    using sample_codes sample_dist_codes
    by (simp add: bloque_bits_def low_bits_def EXTRA_LARGO_def EXTRA_DIST_def byte_bits_def upt_rec)
  have "foldl ficha_sal [] ?ts = [0, 0, 0, 0]"
    by (simp add: copy_of_def BASE_LARGO_def BASE_DIST_def upt_rec)
  with block_means_what_it_says [OF sample_table sample_dist_table sample_coded(2) o new_ok(1) s]
  show ?thesis by auto
qed

end
