(* ===== verification/Inflate_Use.thy ===== *)
theory Inflate_Use imports Inflate_Huffman begin

text \<open>
  The decoder as a whole, \<open>inflate\<close> and \<open>crc32\<close>: stored and fixed blocks come back as what was
  written, and a changed byte never keeps the checksum.
\<close>

section \<open>Whole streams\<close>

text \<open>Stored blocks come back. Whatever bytes are written as one or more stored blocks of at most
  65,535 bytes, up to 4 MiB in all, \<open>inflate\<close> returns them, joined.\<close>

theorem stored_blocks_come_back:
  assumes "ds \<noteq> []" "list_all (\<lambda>d. length d < 65536) ds" "length (concat ds) \<le> MAXIMO"
  shows "inflate (guarda ds) = Inr (concat ds)"
proof -
  have "drop (b_pos (Bits_new (guarda ds))) (b_datos (Bits_new (guarda ds))) = guarda ds"
    "b_cuenta (Bits_new (guarda ds)) = 0" by (simp_all add: Bits_new_def)
  from inflate_stored [OF new_ok(1) this(2,1) assms(1,2), of "[]"] assms(3) show ?thesis
    by (simp add: inflate_def)
qed

theorem stored_blocks_come_back_witness:
  "inflate [0, 2, 0, -3, -1, 0x68, 0x6f, 1, 1, 0, -2, -1, 0x6c] = Inr [0x68, 0x6f, 0x6c]"
  using stored_blocks_come_back [of "[[0x68, 0x6f], [0x6c]]"]
  by (simp add: le_bytes16_def MAXIMO_def)

text \<open>The lengths of the fixed tables, and that both tables are accepted.\<close>

definition fixed_lit :: bytes where
  "fixed_lit = replicate 144 8 @ replicate 112 9 @ replicate 24 7 @ replicate 8 8"

definition fixed_dist :: bytes where
  "fixed_dist = replicate 30 5"

lemma upt_split: "a \<le> b \<Longrightarrow> b \<le> c \<Longrightarrow> [a..<c] = [a..<b] @ [b..<c]"
  by (metis le_Suc_ex upt_add_eq_append)

lemma map_const_upt: "(\<And>i. a \<le> i \<Longrightarrow> i < b \<Longrightarrow> f i = v) \<Longrightarrow> map f [a..<b] = replicate (b - a) v"
  by (rule nth_equalityI) simp_all

lemma fixed_lit_eq:
  "map (\<lambda>i. if i \<le> 143 then 8 else if i \<le> 255 then 9 else if i \<le> 279 then 7 else 8) [0..<288] =
   fixed_lit"
proof -
  let ?f = "\<lambda>i::nat. if i \<le> 143 then 8 else if i \<le> 255 then 9 else if i \<le> 279 then 7 else (8::byte)"
  have "[0..<288] = [0..<144] @ [144..<256] @ [256..<280] @ [280..<288]"
    using upt_split [of 0 144 288] upt_split [of 144 256 288] upt_split [of 256 280 288] by simp
  moreover have "map ?f [0..<144] = replicate 144 8" using map_const_upt [of 0 144 ?f 8] by simp
  moreover have "map ?f [144..<256] = replicate 112 9" using map_const_upt [of 144 256 ?f 9] by simp
  moreover have "map ?f [256..<280] = replicate 24 7" using map_const_upt [of 256 280 ?f 7] by simp
  moreover have "map ?f [280..<288] = replicate 8 8" using map_const_upt [of 280 288 ?f 8] by simp
  ultimately show ?thesis unfolding fixed_lit_def by (simp only: map_append)
qed

text \<open>A table is refused only for a length above 15: there is always room for the symbols.\<close>

lemma cnt_sum: "first_index L n \<le> length L"
proof (induction L)
  case Nil
  then show ?case by (induction n) (simp_all add: cnt_def)
next
  case (Cons x L)
  have "first_index (x # L) n = first_index L n + (if 0 < x \<and> x < n then 1 else 0)"
    by (induction n) (auto simp: cnt_def)
  with Cons show ?case by simp
qed

lemma cuenta_accepts: "list_all (\<lambda>x. unat x < length c) ls \<Longrightarrow> \<exists>c'. cuenta_longitudes c ls = Inr c'"
  by (induction c ls rule: cuenta_longitudes.induct) auto

lemma pon_accepts:
  "\<lbrakk>length desde = 16; list_all (\<lambda>x. unat x < 16) ls; s + length ls \<le> 2 ^ 16;
    \<And>m p. slot desde ls m p \<Longrightarrow> p < length simb\<rbrakk> \<Longrightarrow> \<exists>simb'. pon_simbolos s ls desde simb = Inr simb'"
proof (induction ls arbitrary: s desde simb)
  case Nil
  then show ?case by simp
next
  case (Cons l ls)
  show ?case
  proof (cases "l = 0")
    case True
    have "p < length simb" if "slot desde ls m p" for m p
      using that True by (intro Cons.prems(4) [of m]) (simp add: slot_def)
    with Cons.IH [of desde "s + 1" simb] Cons.prems(1-3) True show ?thesis by simp
  next
    case False
    have l: "unat l < 16" using Cons.prems by simp
    then have "slot desde (l # ls) (unat l) (desde ! unat l)" using False by (simp add: slot_def unat_gt_0)
    then have d: "desde ! unat l < length simb" by (rule Cons.prems(4))
    have "\<exists>simb'. pon_simbolos (s + 1) ls (desde[unat l := desde ! unat l + 1]) (simb[desde ! unat l := s])
        = Inr simb'"
      using Cons.prems slot_step [OF Cons.prems(1) False l]
      by (intro Cons.IH) auto
    with d l Cons.prems False show ?thesis by (simp add: get_at_def)
  qed
qed

lemma Huffman_new_accepts:
  assumes "list_all (\<lambda>x. unat x < 16) ls" "length ls \<le> 2 ^ 16"
  shows "\<exists>h. Huffman_new ls = Inr h"
proof -
  define L where "L = map unat ls"
  from assms obtain c0 where c0: "cuenta_longitudes (replicate 16 0) ls = Inr c0"
    using cuenta_accepts [of "replicate 16 0" ls] by auto
  note cs = cuenta_longitudes_spec [OF c0]
  have c: "length (c0[0 := 0]) = 16" "c0[0 := 0] ! 0 = 0" "\<forall>l < 16. 0 < l \<longrightarrow> c0[0 := 0] ! l = cnt L l"
    using cs by (auto simp: cnt_def L_def)
  from desde_de_spec [OF order_refl c] have d: "length (desde_de (c0[0 := 0])) = 16"
    "\<forall>l < 16. desde_de (c0[0 := 0]) ! l = first_index L l" unfolding desde_de_def by simp_all
  have "p < length (replicate (length ls) (0 :: nat))" if "slot (desde_de (c0[0 := 0])) ls m p" for m p
  proof -
    have "p < first_index L m + cnt L m" using that d(2) by (auto simp: slot_def cnt_def L_def)
    also have "\<dots> = first_index L (Suc m)" by simp
    also have "\<dots> \<le> length L" by (rule cnt_sum)
    finally show ?thesis by (simp add: L_def)
  qed
  with pon_accepts [OF d(1) assms(1), of 0 "replicate (length ls) 0"] assms(2) obtain simb where
    "pon_simbolos 0 ls (desde_de (c0[0 := 0])) (replicate (length ls) 0) = Inr simb" by auto
  with c0 show ?thesis by (simp add: Huffman_new_def Let_def)
qed

lemma fijas_tables:
  obtains lit dist where "fijas = Inr (lit, dist)" "Huffman_new fixed_lit = Inr lit"
    "Huffman_new fixed_dist = Inr dist"
proof -
  have "\<exists>h. Huffman_new fixed_lit = Inr h" "\<exists>h. Huffman_new fixed_dist = Inr h"
    by (intro Huffman_new_accepts; simp add: fixed_lit_def fixed_dist_def list_all_iff)+
  then obtain lit dist where "Huffman_new fixed_lit = Inr lit" "Huffman_new fixed_dist = Inr dist" by blast
  moreover from this have "fijas = Inr (lit, dist)"
    unfolding fijas_def fixed_lit_eq fixed_dist_def [symmetric] by simp
  ultimately show thesis using that by blast
qed

abbreviation FL :: "nat list" where "FL \<equiv> map unat fixed_lit"
abbreviation FD :: "nat list" where "FD \<equiv> map unat fixed_dist"

lemma FL_eq: "FL = replicate 144 8 @ replicate 112 9 @ replicate 24 7 @ replicate 8 8"
  by (simp add: fixed_lit_def)

lemma FL_first: "first_code FL 7 = 0" "first_code FL 8 = 48"
proof -
  have "cnt FL k = 0" if "k < 7" for k using that unfolding FL_eq by (simp add: cnt_def count_replicate)
  then have "first_code FL k = 0" if "k \<le> 7" for k
    using that by (induction k) simp_all
  then show z: "first_code FL 7 = 0" by simp
  have "cnt FL 7 = 24" unfolding FL_eq by (simp add: cnt_def count_replicate)
  then have "first_code FL (Suc 7) = 48" using z by (simp only: first_code.simps) simp
  then show "first_code FL 8 = 48" by simp
qed

lemma FL_literal: "s < 144 \<Longrightarrow> FL ! s = 8 \<and> code_of FL s = 48 + s \<and> coded FL s"
proof -
  assume s: "s < 144"
  then have 8: "FL ! s = 8" unfolding FL_eq by (simp add: nth_append)
  have "take s FL = replicate s 8" using s unfolding FL_eq by (simp add: min_def)
  then have "rank_in FL s = s" unfolding rank_in_def 8 by (simp add: count_replicate)
  then have "code_of FL s = 48 + s" unfolding code_of_def 8 FL_first by simp
  moreover have "length FL = 288" unfolding FL_eq by simp
  ultimately show ?thesis using 8 s by (simp add: coded_def del: length_map)
qed

lemma FL_end: "FL ! 256 = 7 \<and> code_of FL 256 = 0 \<and> coded FL 256"
proof -
  have 7: "FL ! 256 = 7" unfolding FL_eq by (simp add: nth_append)
  have "rank_in FL 256 = 0" unfolding rank_in_def 7 unfolding FL_eq by (simp add: count_replicate)
  then have "code_of FL 256 = 0" unfolding code_of_def 7 FL_first by simp
  moreover have "length FL = 288" unfolding FL_eq by simp
  ultimately show ?thesis using 7 by (simp add: coded_def del: length_map)
qed

text \<open>A stream of one block with the fixed codes comes back as the literals and copies it was
  written from, whatever follows its last bit.\<close>

theorem fixed_block_comes_back:
  assumes "bytes_bits datos = [True, True, False] @ bloque_bits FL FD ts @ rest"
    and "fichas_ok FL FD [] ts"
  shows "inflate datos = Inr (foldl ficha_sal [] ts)"
proof -
  let ?b = "Bits_new datos"
  obtain lit dist where f: "fijas = Inr (lit, dist)" "Huffman_new fixed_lit = Inr lit"
    "Huffman_new fixed_dist = Inr dist" by (rule fijas_tables)
  have s: "stream ?b = [True] @ [True, False] @ bloque_bits FL FD ts @ rest" using assms(1) by simp
  from bits_exact [OF new_ok(1) s, of 1] obtain v b1 where b1: "bits 1 ?b = Inr (v, b1)"
    "unat v = le_value [True]" "stream b1 = [True, False] @ bloque_bits FL FD ts @ rest" "bits_ok b1"
    "b_datos b1 = b_datos ?b" by auto
  from bits_exact [OF b1(4,3), of 2] obtain t b2 where b2: "bits 2 b1 = Inr (t, b2)"
    "unat t = le_value [True, False]" "stream b2 = bloque_bits FL FD ts @ rest" "bits_ok b2"
    "b_datos b2 = b_datos b1" by auto
  have vt: "v = 1" "t = 1" using b1(2) b2(2) by (simp_all add: le_value_def word_unat_eq_iff)
  from bloque_spec [OF f(2,3) _ assms(2) b2(4,3)] FL_end obtain b3 where
    "bloque lit dist b2 [] = Inr (b3, foldl ficha_sal [] ts)" by blast
  then have "inflate_paso ?b [] = Inr (True, b3, foldl ficha_sal [] ts)"
    using b1(1) b2(1) vt f(1) by (simp add: inflate_paso_def Let_def) blast
  then show ?thesis unfolding inflate_def by (subst inflate_bucle.simps) simp
qed

theorem fixed_block_comes_back_witness:
  "inflate [0xcb, 0x48, 0xcd, 0xc9, 0xc9, 0x07, 0x00] = Inr [0x68, 0x65, 0x6c, 0x6c, 0x6f]"
proof -
  let ?ts = "[Literal 0x68, Literal 0x65, Literal 0x6c, Literal 0x6c, Literal 0x6f]"
  have cb: "code_bits FL 104 = [True, False, False, True, True, False, False, False]"
    "code_bits FL 101 = [True, False, False, True, False, True, False, True]"
    "code_bits FL 108 = [True, False, False, True, True, True, False, False]"
    "code_bits FL 111 = [True, False, False, True, True, True, True, True]"
    using FL_literal [of 104] FL_literal [of 101] FL_literal [of 108] FL_literal [of 111]
    by (simp_all add: code_bits_def upt_rec)
  have e: "code_bits FL 256 = replicate 7 False"
    using FL_end by (simp add: code_bits_def map_replicate_const)
  have u: "unat (0x68 :: byte) = 104" "unat (0x65 :: byte) = 101" "unat (0x6c :: byte) = 108"
    "unat (0x6f :: byte) = 111" by simp_all
  have "bytes_bits [0xcb, 0x48, 0xcd, 0xc9, 0xc9, 0x07, 0x00] =
      [True, True, False] @ bloque_bits FL FD ?ts @ replicate 6 False"
    unfolding bloque_bits_def list.map concat.simps ficha_bits.simps u cb e
    by (simp add: byte_bits_def upt_rec numeral_eq_Suc)
  moreover have "fichas_ok FL FD [] ?ts"
    using FL_literal [of 104] FL_literal [of 101] FL_literal [of 108] FL_literal [of 111]
    unfolding fichas_ok.simps ficha_ok.simps u by (simp add: MAXIMO_def)
  ultimately show ?thesis using fixed_block_comes_back by fastforce
qed

section \<open>The checksum\<close>

lemma xor_cancel: "(c XOR x = d XOR x) = (c = d)" for c :: "'a :: len word"
  by (metis xor.assoc xor_self_eq xor.right_neutral)

lemma ucast_inj: "(ucast x :: u32) = ucast y \<longleftrightarrow> x = y" for x :: byte
proof -
  have "ucast (ucast z :: u32) = z" for z :: byte
    by (rule bit_eqI) (auto simp: bit_ucast_iff dest: bit_imp_le_length)
  then show ?thesis by metis
qed

lemma crc_bit_inj: "crc_bit c = crc_bit d \<Longrightarrow> c = d"
proof -
  assume eq: "crc_bit c = crc_bit d"
  have odd_bit: "(x AND 1 \<noteq> 0) = bit x 0" for x :: u32
    by (simp add: and_one_eq bit_0 odd_iff_mod_2_eq_one)
  have top: "bit (crc_bit x) 31 = bit x 0" for x
  proof -
    have "\<not> bit (drop_bit 1 x) 31" by (auto simp: bit_drop_bit_eq dest: bit_imp_le_length)
    moreover have "bit (0xedb88320 :: u32) 31" by simp
    ultimately show ?thesis by (simp add: crc_bit_def odd_bit bit_xor_iff)
  qed
  have low: "bit c 0 = bit d 0" using top [of c] top [of d] eq by simp
  with eq have high: "drop_bit 1 c = drop_bit 1 d"
    by (cases "bit d 0") (simp_all add: crc_bit_def odd_bit xor_cancel)
  show "c = d"
  proof (rule bit_eqI)
    fix n
    have "bit x (Suc m) = bit (drop_bit 1 x) m" for x :: u32 and m by (simp add: bit_drop_bit_eq)
    with low high show "bit c n = bit d n" by (cases n) auto
  qed
qed

lemma funpow_inj:
  fixes f :: "'a \<Rightarrow> 'a"
  assumes "\<And>x y. f x = f y \<Longrightarrow> x = y"
  shows "(f ^^ n) x = (f ^^ n) y \<Longrightarrow> x = y"
proof (induction n)
  case (Suc n)
  then have "f ((f ^^ n) x) = f ((f ^^ n) y)" by simp
  then show ?case using assms Suc.IH by blast
qed simp

lemma crc_byte_inj: "crc_byte c x = crc_byte d y \<Longrightarrow> c XOR ucast x = d XOR ucast y"
  unfolding crc_byte_def by (rule funpow_inj [OF crc_bit_inj])

lemma crc_fold_inj: "foldl crc_byte c xs = foldl crc_byte d xs \<longleftrightarrow> c = d"
  by (induction xs arbitrary: c d) (auto dest!: crc_byte_inj simp: xor_cancel)

text \<open>A changed byte never keeps the checksum: two inputs that differ in one byte have different
  CRC-32 values.\<close>

theorem changed_byte_changes_crc:
  "crc32 (a @ [x] @ b) = crc32 (a @ [y] @ b) \<longleftrightarrow> x = y"
proof -
  define c where "c = foldl crc_byte 0xffffffff a"
  have "crc32 (a @ [x] @ b) = crc32 (a @ [y] @ b) \<longleftrightarrow> crc_byte c x = crc_byte c y"
    by (simp add: crc32_def c_def crc_fold_inj)
  also have "\<dots> \<longleftrightarrow> x = y"
    by (metis crc_byte_inj ucast_inj xor.commute xor_cancel)
  finally show ?thesis .
qed

end
