(* ===== verification/Net.thy ===== *)
theory Net imports Rust_Text Hash_Chain begin

text \<open>
  More of Rust's standard library, as the lists and the resolver use it: the lines and words of a
  text, and \<open>IpAddr::from_str\<close> with the questions asked of an address. The address parser is the
  one of \<open>core::net\<close>: four decimal numbers without leading zeros, or groups of up to four
  hexadecimal digits with at most one \<open>::\<close> and perhaps an IPv4 address at the end.
\<close>

section \<open>Lines and words\<close>

definition starts_with :: "'a list \<Rightarrow> 'a list \<Rightarrow> bool" where
  "starts_with p s \<longleftrightarrow> strip_prefix p s \<noteq> None"

definition ends_with :: "'a list \<Rightarrow> 'a list \<Rightarrow> bool" where
  "ends_with p s \<longleftrightarrow> strip_suffix p s \<noteq> None"

definition contains_str :: "'a list \<Rightarrow> 'a list \<Rightarrow> bool" where
  "contains_str p s \<longleftrightarrow> split_once p s \<noteq> None"

lemma ends_with_iff: "ends_with p s \<longleftrightarrow> (\<exists>r. s = r @ p)"
  unfolding ends_with_def by (metis not_None_eq strip_suffix_Some)

lemma starts_with_iff: "starts_with p s \<longleftrightarrow> (\<exists>r. s = p @ r)"
  unfolding starts_with_def by (metis not_None_eq strip_prefix_Some)

text \<open>\<open>s.split(d).next().unwrap_or("")\<close>.\<close>

definition first_piece :: "'a \<Rightarrow> 'a list \<Rightarrow> 'a list" where
  "first_piece d s = hd (split_char d s)"

text \<open>\<open>str::lines\<close>: a line ended by a newline loses a carriage return before it too; what follows
  the last newline is a line unless it is empty.\<close>

definition text_lines :: "string \<Rightarrow> string list" where
  "text_lines s =
     (let ps = split_char (CHR 0x0A) s;
          ended = map (\<lambda>l. case strip_suffix [CHR 0x0D] l of None \<Rightarrow> l | Some r \<Rightarrow> r) (butlast ps)
      in if last ps = [] then ended else ended @ [last ps])"

definition flush_word :: "'a list \<Rightarrow> 'a list list \<Rightarrow> 'a list list" where
  "flush_word w ws = (if w = [] then ws else w # ws)"

lemma strip_ws_shorter: "strip_any ws_forms s = Some r \<Longrightarrow> length r < length s"
proof -
  have "[] \<notin> set ws_forms" by (simp add: ws_forms_def)
  then show "strip_any ws_forms s = Some r \<Longrightarrow> length r < length s" using strip_any_shorter by blast
qed

text \<open>\<open>str::split_whitespace\<close>, with the word read so far.\<close>

function words_from :: "string \<Rightarrow> string \<Rightarrow> string list" where
  "words_from w s =
     (case s of
        [] \<Rightarrow> flush_word w []
      | c # t \<Rightarrow>
          (case strip_any ws_forms s of
             Some r \<Rightarrow> flush_word w (words_from [] r)
           | None \<Rightarrow> words_from (w @ [c]) t))"
  by pat_completeness auto
termination by (relation "measure (\<lambda>(w, s). length s)") (auto dest: strip_ws_shorter)

declare words_from.simps [simp del]

definition split_whitespace :: "string \<Rightarrow> string list" where
  "split_whitespace s = words_from [] s"

section \<open>IP addresses\<close>

datatype ip = V4 byte byte byte byte | V6 "u16 list"

definition read_given :: "char \<Rightarrow> string \<Rightarrow> string option" where
  "read_given c s = strip_prefix [c] s"

definition is_radix_digit :: "nat \<Rightarrow> char \<Rightarrow> bool" where
  "is_radix_digit radix c = (case hex_val c of None \<Rightarrow> False | Some d \<Rightarrow> d < radix)"

definition digits_value :: "nat \<Rightarrow> string \<Rightarrow> nat" where
  "digits_value radix ds = foldl (\<lambda>a c. a * radix + the (hex_val c)) 0 ds"

definition read_number :: "nat \<Rightarrow> nat \<Rightarrow> bool \<Rightarrow> nat \<Rightarrow> string \<Rightarrow> (nat \<times> string) option" where
  "read_number radix max_digits zero_prefix bound s =
     (let ds = takeWhile (is_radix_digit radix) s;
          v = digits_value radix ds
      in if max_digits < length ds then None
         else if ds = [] then None
         else if \<not> zero_prefix \<and> hd ds = CHR ''0'' \<and> 1 < length ds then None
         else if v < bound then Some (v, dropWhile (is_radix_digit radix) s)
         else None)"

text \<open>\<open>read_separator\<close>: the separator goes before every item but the first.\<close>

definition read_separator ::
    "char \<Rightarrow> nat \<Rightarrow> (string \<Rightarrow> ('a \<times> string) option) \<Rightarrow> string \<Rightarrow> ('a \<times> string) option" where
  "read_separator sep i f s =
     (if i = 0 then f s else case read_given sep s of None \<Rightarrow> None | Some r \<Rightarrow> f r)"

fun read_octets :: "nat \<Rightarrow> nat \<Rightarrow> string \<Rightarrow> (byte list \<times> string) option" where
  "read_octets 0 i s = Some ([], s)"
| "read_octets (Suc k) i s =
     (case read_separator (CHR ''.'') i (read_number 10 3 False 256) s of
        None \<Rightarrow> None
      | Some (n, r) \<Rightarrow>
          (case read_octets k (i + 1) r of
             None \<Rightarrow> None
           | Some (ns, r) \<Rightarrow> Some (of_nat n # ns, r)))"

definition read_ipv4 :: "string \<Rightarrow> (byte list \<times> string) option" where
  "read_ipv4 s = read_octets 4 0 s"

definition pair16 :: "byte \<Rightarrow> byte \<Rightarrow> u16" where
  "pair16 a b = push_bit 8 (ucast a) OR ucast b"

text \<open>\<open>read_groups\<close>: the groups read, whether the last two were an IPv4 address, and the rest.\<close>

fun read_groups :: "nat \<Rightarrow> nat \<Rightarrow> string \<Rightarrow> u16 list \<times> bool \<times> string" where
  "read_groups 0 i s = ([], False, s)"
| "read_groups (Suc k) i s =
     (case (if 0 < k then read_separator (CHR '':'') i read_ipv4 s else None) of
        Some ([a, b, c, d], r) \<Rightarrow> ([pair16 a b, pair16 c d], True, r)
      | _ \<Rightarrow>
          (case read_separator (CHR '':'') i (read_number 16 4 True 65536) s of
             None \<Rightarrow> ([], False, s)
           | Some (n, r) \<Rightarrow>
               (case read_groups k (i + 1) r of (gs, v4, r) \<Rightarrow> (of_nat n # gs, v4, r))))"

definition read_ipv6 :: "string \<Rightarrow> (u16 list \<times> string) option" where
  "read_ipv6 s =
     (case read_groups 8 0 s of
        (head, v4, r) \<Rightarrow>
          if length head = 8 then Some (head, r)
          else if v4 then None
          else
            (case strip_prefix ''::'' r of
               None \<Rightarrow> None
             | Some r \<Rightarrow>
                 (case read_groups (8 - (length head + 1)) 0 r of
                    (tail, _, r) \<Rightarrow>
                      Some (head @ replicate (8 - length head - length tail) 0 @ tail, r))))"

definition parse_ip :: "string \<Rightarrow> ip option" where
  "parse_ip s =
     (case read_ipv4 s of
        Some ([a, b, c, d], r) \<Rightarrow> if r = [] then Some (V4 a b c d) else None
      | _ \<Rightarrow>
          (case read_ipv6 s of
             None \<Rightarrow> None
           | Some (gs, r) \<Rightarrow> if r = [] then Some (V6 gs) else None))"

definition is_ip :: "string \<Rightarrow> bool" where
  "is_ip s \<longleftrightarrow> parse_ip s \<noteq> None"

lemma not_ip_first: "hex_val c = None \<Longrightarrow> c \<noteq> CHR '':'' \<Longrightarrow> \<not> is_ip (c # t)"
proof -
  assume c: "hex_val c = None" "c \<noteq> CHR '':''"
  then have n: "read_number radix m z b (c # t) = None" for radix m z b
    by (simp add: read_number_def is_radix_digit_def Let_def)
  have o: "read_octets (Suc k) 0 (c # t) = None" for k by (simp add: read_separator_def n)
  have v4: "read_ipv4 (c # t) = None"
    unfolding read_ipv4_def by (simp only: numeral_eq_Suc o)
  have g: "read_groups (Suc k) 0 (c # t) = ([], False, c # t)" for k
    by (simp add: read_separator_def n v4)
  have "read_ipv6 (c # t) = None"
    unfolding read_ipv6_def numeral_eq_Suc g using c by simp
  with v4 show ?thesis by (simp add: is_ip_def parse_ip_def)
qed

text \<open>\<open>is_loopback\<close>, \<open>is_private\<close>, \<open>is_link_local\<close>, \<open>is_unique_local\<close>, \<open>is_unicast_link_local\<close>.\<close>

fun is_loopback :: "ip \<Rightarrow> bool" where
  "is_loopback (V4 a b c d) \<longleftrightarrow> a = 127"
| "is_loopback (V6 gs) \<longleftrightarrow> gs = [0, 0, 0, 0, 0, 0, 0, 1]"

fun is_private_v4 :: "ip \<Rightarrow> bool" where
  "is_private_v4 (V4 a b c d) \<longleftrightarrow>
     a = 10 \<or> a = 172 \<and> b AND 0xF0 = 16 \<or> a = 192 \<and> b = 168"
| "is_private_v4 (V6 gs) \<longleftrightarrow> False"

fun is_link_local_v4 :: "ip \<Rightarrow> bool" where
  "is_link_local_v4 (V4 a b c d) \<longleftrightarrow> a = 169 \<and> b = 254"
| "is_link_local_v4 (V6 gs) \<longleftrightarrow> False"

fun first_group :: "ip \<Rightarrow> u16" where
  "first_group (V6 (g # gs)) = g"
| "first_group _ = 0"

end
