(* ===== verification/Rules.thy ===== *)
theory Rules imports Model Calendar begin

text \<open>
  Rule evaluation, \<open>crates/core/src/rules.rs\<close>: which of the person's rules, if any, decides a
  query. \<open>candidate\<close> is the loop body's sequence of \<open>continue\<close>s read as one condition; the loop
  keeps the first candidate of the highest rank. The lemmas characterise the chosen rule and
  derive the inviolable rules from it.
\<close>

definition OBSERVATION_HOURS :: int where "OBSERVATION_HOURS = 24"

record rule_input =
  ri_device_id :: string
  ri_name :: string
  ri_category :: category
  ri_observed_ms :: int

definition observation_complete :: "int \<Rightarrow> bool" where
  "observation_complete observed_ms \<longleftrightarrow> observed_ms \<ge> OBSERVATION_HOURS * HOUR_MS"

definition observed_hours :: "int \<Rightarrow> int" where
  "observed_hours observed_ms = clamp (observed_ms sdiv HOUR_MS) 0 OBSERVATION_HOURS"

section \<open>A name as people write it\<close>

text \<open>The loop that drops every leading \<open>*.\<close> and \<open>.\<close>, and whether it dropped any.\<close>

fun quita_comodin :: "bool \<Rightarrow> string \<Rightarrow> bool \<times> string" where
  "quita_comodin comodin s =
     (case strip_prefix ''*.'' s of
        Some r \<Rightarrow> quita_comodin True r
      | None \<Rightarrow> (case strip_prefix ''.'' s of
                   Some r \<Rightarrow> quita_comodin True r
                 | None \<Rightarrow> (comodin, s)))"

declare quita_comodin.simps [simp del]

definition label_char :: "char \<Rightarrow> bool" where
  "label_char b \<longleftrightarrow> is_ascii_lowercase b \<or> is_ascii_digit b \<or> b = CHR ''-'' \<or> b = CHR ''_''"

definition valid_label :: "string \<Rightarrow> bool" where
  "valid_label l \<longleftrightarrow> l \<noteq> [] \<and> length l \<le> 63 \<and> list_all label_char l"

definition valid_host :: "string \<Rightarrow> bool" where
  "valid_host s \<longleftrightarrow>
     CHR ''.'' \<in> set s \<and> length s \<le> 253 \<and> list_all valid_label (split_char CHR ''.'' s)"

definition normalizar_nombre :: "string \<Rightarrow> (string \<times> bool) option" where
  "normalizar_nombre raw =
     (let s0 = to_ascii_lowercase (trim raw);
          s1 = (case split_once ''://'' s0 of Some (_, resto) \<Rightarrow> resto | None \<Rightarrow> s0);
          s2 = takeWhile (\<lambda>c. c \<notin> {CHR ''/'', CHR ''?'', CHR ''#''}) s1;
          s3 = (case rsplit_once CHR ''@'' s2 of Some (_, host) \<Rightarrow> host | None \<Rightarrow> s2);
          s4 = (case rsplit_once CHR '':'' s3 of
                  Some (host, puerto) \<Rightarrow>
                    if puerto \<noteq> [] \<and> list_all is_ascii_digit puerto then host else s3
                | None \<Rightarrow> s3);
          (comodin, s5) = quita_comodin False s4;
          s = trim_end_matches (\<lambda>c. c = CHR ''.'') s5
      in if valid_host s then Some (s, comodin) else None)"

section \<open>Matching and deciding\<close>

definition name_matches :: "match_kind \<Rightarrow> string \<Rightarrow> string \<Rightarrow> category \<Rightarrow> bool" where
  "name_matches kind pattern0 name category =
     (let pattern = to_ascii_lowercase (trim_end_matches (\<lambda>c. c = CHR ''.'') (trim pattern0))
      in case kind of
           Domain_k \<Rightarrow> name = pattern
         | Suffix_k \<Rightarrow>
             name = pattern \<or>
             (case strip_suffix pattern name of
                None \<Rightarrow> False
              | Some rest \<Rightarrow> rest \<noteq> [] \<and> last rest = CHR ''.'')
         | Category_k \<Rightarrow> category_parse pattern = Inr category)"

definition is_wide :: "rule \<Rightarrow> bool" where
  "is_wide r \<longleftrightarrow> r_scope r = Home_s \<or> r_match_kind r = Category_k"

fun specificity :: "match_kind \<Rightarrow> nat" where
  "specificity Domain_k = 3"
| "specificity Suffix_k = 2"
| "specificity Category_k = 1"

definition in_scope :: "rule \<Rightarrow> string \<Rightarrow> bool" where
  "in_scope r dev =
     (case r_scope r of Home_s \<Rightarrow> True | Device_s \<Rightarrow> r_device_id r = Some dev)"

text \<open>Tuples of \<open>u8\<close> compare lexicographically.\<close>

definition rank :: "rule \<Rightarrow> nat \<times> nat \<times> nat" where
  "rank r = (specificity (r_match_kind r), of_bool (r_scope r = Device_s),
             of_bool (r_action r = Permitir))"

fun rank_less :: "nat \<times> nat \<times> nat \<Rightarrow> nat \<times> nat \<times> nat \<Rightarrow> bool" where
  "rank_less (a, b, c) (a', b', c') \<longleftrightarrow> a < a' \<or> a = a' \<and> (b < b' \<or> b = b' \<and> c < c')"

text \<open>The conditions under which the loop does not skip a rule.\<close>

definition candidate :: "rule_input \<Rightarrow> int \<Rightarrow> rule \<Rightarrow> bool" where
  "candidate i now r \<longleftrightarrow>
     is_active r now \<and>
     \<not> (\<not> observation_complete (ri_observed_ms i) \<and> is_wide r) \<and>
     \<not> (\<not> in_scope r (ri_device_id i) \<or>
        \<not> name_matches (r_match_kind r) (r_pattern r) (ri_name i) (ri_category i)) \<and>
     \<not> (ri_category i = Esperado \<and> r_action r = Cortar \<and>
        (r_match_kind r = Category_k \<or> \<not> r_confirmed r))"

fun decide_loop :: "rule_input \<Rightarrow> int \<Rightarrow> rule option \<Rightarrow> rule list \<Rightarrow> rule option" where
  "decide_loop i now best [] = best"
| "decide_loop i now best (r # rs) =
     (if \<not> candidate i now r then decide_loop i now best rs
      else if (case best of None \<Rightarrow> True | Some b \<Rightarrow> rank_less (rank b) (rank r))
           then decide_loop i now (Some r) rs
           else decide_loop i now best rs)"

definition decide :: "rule list \<Rightarrow> rule_input \<Rightarrow> int \<Rightarrow> rule option" where
  "decide rules i now = decide_loop i now None rules"

text \<open>The filters of \<open>cutting_rules\<close>, and its stable sort, most specific first.\<close>

definition cuts_by_name :: "rule_input \<Rightarrow> int \<Rightarrow> rule \<Rightarrow> bool" where
  "cuts_by_name i now r \<longleftrightarrow>
     is_active r now \<and> r_action r = Cortar \<and> r_match_kind r \<noteq> Category_k \<and>
     in_scope r (ri_device_id i) \<and>
     name_matches (r_match_kind r) (r_pattern r) (ri_name i) (ri_category i)"

definition cutting_rules :: "rule list \<Rightarrow> rule_input \<Rightarrow> int \<Rightarrow> rule list" where
  "cutting_rules rules i now =
     sort_key (\<lambda>r. 3 - specificity (r_match_kind r)) (filter (cuts_by_name i now) rules)"

definition decide_cloaked :: "rule list \<Rightarrow> rule_input \<Rightarrow> category \<Rightarrow> int \<Rightarrow> rule option" where
  "decide_cloaked rules i own_category now =
     (if own_category = Esperado \<or> ri_category i = Esperado then None
      else case decide rules i now of
             Some r \<Rightarrow> if r_action r = Cortar \<and> r_match_kind r = Category_k then Some r else None
           | None \<Rightarrow> None)"

section \<open>Names: what normalisation returns\<close>

lemma quita_comodin_done:
  "quita_comodin b s = (c, t) \<Longrightarrow>
   strip_prefix ''*.'' t = None \<and> strip_prefix ''.'' t = None \<and> (b \<longrightarrow> c)"
proof (induction b s rule: quita_comodin.induct)
  case (1 b s)
  consider (star) r where "strip_prefix ''*.'' s = Some r"
    | (dot) r where "strip_prefix ''*.'' s = None" "strip_prefix ''.'' s = Some r"
    | (stop) "strip_prefix ''*.'' s = None" "strip_prefix ''.'' s = None" by fastforce
  then show ?case
  proof cases
    case star
    with "1.prems" have "quita_comodin True r = (c, t)" by (simp only: quita_comodin.simps [of b s]) simp
    from "1.IH"(2) [OF star this] show ?thesis by simp
  next
    case dot
    with "1.prems" have "quita_comodin True r = (c, t)" by (simp only: quita_comodin.simps [of b s]) simp
    from "1.IH"(1) [OF dot this] show ?thesis by simp
  next
    case stop
    with "1.prems" show ?thesis by (simp only: quita_comodin.simps [of b s]) auto
  qed
qed

lemma quita_comodin_id:
  "strip_prefix ''*.'' t = None \<Longrightarrow> strip_prefix ''.'' t = None \<Longrightarrow> quita_comodin b t = (b, t)"
  by (subst quita_comodin.simps) simp

lemma label_char_plain:
  "label_char c \<Longrightarrow> \<not> is_ascii_uppercase c \<and> c \<noteq> CHR ''.'' \<and> c \<noteq> CHR ''/'' \<and> c \<noteq> CHR ''?'' \<and>
     c \<noteq> CHR ''#'' \<and> c \<noteq> CHR ''@'' \<and> c \<noteq> CHR '':'' \<and> c \<noteq> CHR ''*'' \<and>
     char_code c > 32 \<and> char_code c < 128"
  by (auto simp: label_char_def is_ascii_lowercase_def is_ascii_digit_def is_ascii_uppercase_def)

lemma valid_host_chars:
  "valid_host s \<Longrightarrow> c \<in> set s \<Longrightarrow> label_char c \<or> c = CHR ''.''"
proof -
  assume v: "valid_host s" and c: "c \<in> set s"
  show ?thesis
  proof (cases "c = CHR ''.''")
    case False
    with c split_char_chars [of "CHR ''.''" s] obtain l
      where "l \<in> set (split_char CHR ''.'' s)" "c \<in> set l" by blast
    with v show ?thesis by (auto simp: valid_host_def valid_label_def list_all_iff)
  qed simp
qed

lemma valid_host_ends:
  assumes "valid_host s"
  shows "s \<noteq> []" "hd s \<noteq> CHR ''.''" "last s \<noteq> CHR ''.''"
proof -
  show ne: "s \<noteq> []" using assms by (auto simp: valid_host_def)
  show "hd s \<noteq> CHR ''.''"
    using assms ne by (cases s) (auto simp: valid_host_def valid_label_def)
  have "split_char d (t @ [d]) = split_char d t @ [[]]" for d :: char and t
    by (induction t) (auto split: list.splits)
  with assms ne show "last s \<noteq> CHR ''.''"
    by (cases s rule: rev_cases) (auto simp: valid_host_def valid_label_def list_all_iff)
qed

text \<open>No form of white space starts or ends a text of letters, digits, \<open>-\<close>, \<open>_\<close> and dots.\<close>

lemma normalizar_valid: "normalizar_nombre raw = Some (s, c) \<Longrightarrow> valid_host s"
  by (auto simp: normalizar_nombre_def Let_def split: if_splits prod.splits)

lemma normalizar_fixed:
  assumes v: "valid_host s"
  shows "normalizar_nombre s = Some (s, False)"
proof -
  note ends = valid_host_ends [OF v]
  have plain: "label_char c \<or> c = CHR ''.''" if "c \<in> set s" for c
    using valid_host_chars [OF v that] .
  have first: "label_char (hd s)" "label_char (last s)"
    using plain [of "hd s"] plain [of "last s"] ends by auto
  have tr: "trim s = s"
    using first ends label_char_plain by (intro trim_plain) auto
  have low: "to_ascii_lowercase s = s"
    unfolding to_ascii_lowercase_def
  proof (intro map_idI ascii_lower_id)
    fix c
    assume "c \<in> set s"
    then show "\<not> is_ascii_uppercase c"
      using plain [of c] label_char_plain [of c] by (auto simp: is_ascii_uppercase_def)
  qed
  have no: "c \<notin> set s" if "c \<in> {CHR '':'', CHR ''/'', CHR ''?'', CHR ''#'', CHR ''@'', CHR ''*''}" for c
    using that plain [of c] label_char_plain [of c] by auto
  have s1: "split_once ''://'' s = None"
    using no [of "CHR '':''"] split_once_Some [of "''://''" s] by (cases "split_once ''://'' s") auto
  have s2: "takeWhile (\<lambda>c. c \<notin> {CHR ''/'', CHR ''?'', CHR ''#''}) s = s"
    using no by (intro takeWhile_eq_all_conv [THEN iffD2]) auto
  have s3: "rsplit_once CHR ''@'' s = None" "rsplit_once CHR '':'' s = None"
    using no by (auto simp: rsplit_once_None)
  have s4: "quita_comodin False s = (False, s)"
    using ends no [of "CHR ''*''"] by (cases s) (auto intro!: quita_comodin_id)
  have s5: "trim_end_matches (\<lambda>c. c = CHR ''.'') s = s"
    using ends by (intro trim_end_matches_id) simp
  show ?thesis
    unfolding normalizar_nombre_def Let_def tr low s1 option.case s2 s3 s4 prod.case s5
    using v by simp
qed

lemma normalizar_idem: "normalizar_nombre raw = Some (s, c) \<Longrightarrow> normalizar_nombre s = Some (s, False)"
  by (blast intro: normalizar_fixed normalizar_valid)

section \<open>The rule that decides\<close>

lemma rank_less_trans: "rank_less a b \<Longrightarrow> rank_less b c \<Longrightarrow> rank_less a c"
  by (cases a; cases b; cases c) auto

lemma rank_less_total: "a = b \<or> rank_less a b \<or> rank_less b a"
  by (cases a; cases b) auto

lemma rank_less_irrefl: "\<not> rank_less a a"
  by (cases a) auto

text \<open>The first candidate of the highest rank: nothing before it ranks as high, nothing after it
  higher.\<close>

definition chosen :: "rule_input \<Rightarrow> int \<Rightarrow> rule list \<Rightarrow> rule \<Rightarrow> bool" where
  "chosen i now rs r \<longleftrightarrow>
     (\<exists>xs ys. rs = xs @ r # ys \<and> candidate i now r \<and>
        (\<forall>x \<in> set xs. candidate i now x \<longrightarrow> rank_less (rank x) (rank r)) \<and>
        (\<forall>y \<in> set ys. candidate i now y \<longrightarrow> \<not> rank_less (rank r) (rank y)))"

definition best_of :: "rule_input \<Rightarrow> int \<Rightarrow> rule list \<Rightarrow> rule option \<Rightarrow> bool" where
  "best_of i now rs best \<longleftrightarrow>
     (case best of None \<Rightarrow> \<forall>x \<in> set rs. \<not> candidate i now x | Some b \<Rightarrow> chosen i now rs b)"

lemma chosen_snoc_old:
  "chosen i now rs b \<Longrightarrow> candidate i now r \<longrightarrow> \<not> rank_less (rank b) (rank r) \<Longrightarrow> chosen i now (rs @ [r]) b"
  unfolding chosen_def
proof (elim exE conjE)
  fix xs ys
  assume new: "candidate i now r \<longrightarrow> \<not> rank_less (rank b) (rank r)"
    and rs: "rs = xs @ b # ys" and b: "candidate i now b"
    and before: "\<forall>x \<in> set xs. candidate i now x \<longrightarrow> rank_less (rank x) (rank b)"
    and after: "\<forall>y \<in> set ys. candidate i now y \<longrightarrow> \<not> rank_less (rank b) (rank y)"
  have "rs @ [r] = xs @ b # (ys @ [r])" by (simp add: rs)
  moreover have "\<forall>y \<in> set (ys @ [r]). candidate i now y \<longrightarrow> \<not> rank_less (rank b) (rank y)"
    using new after by simp
  ultimately show "\<exists>xs ys. rs @ [r] = xs @ b # ys \<and> candidate i now b \<and>
      (\<forall>x \<in> set xs. candidate i now x \<longrightarrow> rank_less (rank x) (rank b)) \<and>
      (\<forall>y \<in> set ys. candidate i now y \<longrightarrow> \<not> rank_less (rank b) (rank y))"
    using b before by blast
qed

lemma chosen_candidate: "chosen i now rs b \<Longrightarrow> candidate i now b \<and> b \<in> set rs"
  by (auto simp: chosen_def)

lemma chosen_max:
  "chosen i now rs b \<Longrightarrow> x \<in> set rs \<Longrightarrow> candidate i now x \<Longrightarrow> \<not> rank_less (rank b) (rank x)"
proof -
  assume x: "x \<in> set rs" "candidate i now x" and c: "chosen i now rs b"
  from c obtain xs ys where rs: "rs = xs @ b # ys"
    and before: "\<And>z. z \<in> set xs \<Longrightarrow> candidate i now z \<Longrightarrow> rank_less (rank z) (rank b)"
    and after: "\<And>z. z \<in> set ys \<Longrightarrow> candidate i now z \<Longrightarrow> \<not> rank_less (rank b) (rank z)"
    unfolding chosen_def by blast
  from rs x(1) consider "x \<in> set xs" | "x = b" | "x \<in> set ys" by auto
  then show "\<not> rank_less (rank b) (rank x)"
  proof cases
    case 1
    from before [OF 1 x(2)] show ?thesis using rank_less_trans rank_less_irrefl by blast
  next
    case 2
    then show ?thesis by (simp add: rank_less_irrefl)
  next
    case 3
    from after [OF 3 x(2)] show ?thesis .
  qed
qed

lemma chosen_snoc_new:
  assumes "best_of i now rs best" "candidate i now r"
    and "case best of None \<Rightarrow> True | Some b \<Rightarrow> rank_less (rank b) (rank r)"
  shows "chosen i now (rs @ [r]) r"
proof -
  have "rank_less (rank x) (rank r)" if "x \<in> set rs" "candidate i now x" for x
  proof (cases best)
    case None
    with assms(1) that show ?thesis by (simp add: best_of_def)
  next
    case (Some b)
    with assms have "chosen i now rs b" "rank_less (rank b) (rank r)" by (simp_all add: best_of_def)
    with chosen_max [OF this(1) that] rank_less_total [of "rank b" "rank x"] show ?thesis
      by (auto intro: rank_less_trans)
  qed
  with assms(2) show ?thesis
    unfolding chosen_def by (intro exI [of _ rs] exI [of _ "[]"]) auto
qed

lemma decide_loop_spec:
  "best_of i now seen best \<Longrightarrow> best_of i now (seen @ rs) (decide_loop i now best rs)"
proof (induction rs arbitrary: seen best)
  case Nil
  then show ?case by simp
next
  case (Cons r rs)
  consider (skip) "\<not> candidate i now r"
    | (new) "candidate i now r" "case best of None \<Rightarrow> True | Some b \<Rightarrow> rank_less (rank b) (rank r)"
    | (keep) b where "candidate i now r" "best = Some b" "\<not> rank_less (rank b) (rank r)"
    by (cases best) auto
  then show ?case
  proof cases
    case skip
    with Cons.prems have "best_of i now (seen @ [r]) best"
      by (auto simp: best_of_def chosen_snoc_old split: option.splits)
    from Cons.IH [OF this] skip show ?thesis by simp
  next
    case new
    have "best_of i now (seen @ [r]) (Some r)"
      using chosen_snoc_new [OF Cons.prems new] by (simp add: best_of_def)
    from Cons.IH [OF this] new show ?thesis by simp
  next
    case keep
    with Cons.prems have "best_of i now (seen @ [r]) best"
      by (simp add: best_of_def chosen_snoc_old)
    from Cons.IH [OF this] keep show ?thesis by simp
  qed
qed

lemma decide_best_of: "best_of i now rs (decide rs i now)"
  using decide_loop_spec [of i now "[]" None rs] by (simp add: decide_def best_of_def)

lemma decide_None: "decide rs i now = None \<longleftrightarrow> (\<forall>x \<in> set rs. \<not> candidate i now x)"
  using decide_best_of [of i now rs] by (auto simp: best_of_def dest: chosen_candidate split: option.splits)

lemma decide_Some: "decide rs i now = Some r \<Longrightarrow> chosen i now rs r"
  using decide_best_of [of i now rs] by (simp add: best_of_def)

lemma decide_candidate: "decide rs i now = Some r \<Longrightarrow> candidate i now r \<and> r \<in> set rs"
  by (intro chosen_candidate decide_Some)

lemma decide_best:
  "decide rs i now = Some r \<Longrightarrow> x \<in> set rs \<Longrightarrow> candidate i now x \<Longrightarrow> \<not> rank_less (rank r) (rank x)"
  by (rule chosen_max [OF decide_Some])

lemma set_cutting_rules: "set (cutting_rules rs i now) = {r \<in> set rs. cuts_by_name i now r}"
  by (simp add: cutting_rules_def)

lemmas candidate_simps = candidate_def is_active_def is_wide_def in_scope_def

lemma chosen_unique: "chosen i now rs r \<Longrightarrow> chosen i now rs q \<Longrightarrow> r = q"
proof -
  assume "chosen i now rs r" "chosen i now rs q"
  then obtain xs ys xs' ys' where
    r: "rs = xs @ r # ys" "candidate i now r"
      "\<And>x. x \<in> set xs \<Longrightarrow> candidate i now x \<Longrightarrow> rank_less (rank x) (rank r)"
      "\<And>y. y \<in> set ys \<Longrightarrow> candidate i now y \<Longrightarrow> \<not> rank_less (rank r) (rank y)" and
    q: "rs = xs' @ q # ys'" "candidate i now q"
      "\<And>x. x \<in> set xs' \<Longrightarrow> candidate i now x \<Longrightarrow> rank_less (rank x) (rank q)"
      "\<And>y. y \<in> set ys' \<Longrightarrow> candidate i now y \<Longrightarrow> \<not> rank_less (rank q) (rank y)"
    unfolding chosen_def by blast
  from r(1) q(1) have "xs @ r # ys = xs' @ q # ys'" by simp
  then consider "xs = xs' \<and> r = q" | "r \<in> set xs'" "q \<in> set ys" | "q \<in> set xs" "r \<in> set ys'"
    by (auto simp: append_eq_append_conv2 append_eq_Cons_conv Cons_eq_append_conv)
  then show ?thesis
  proof cases
    case 2
    with q(3) [of r] r(2) r(4) [of q] q(2) show ?thesis by blast
  next
    case 3
    with r(3) [of q] q(2) q(4) [of r] r(2) show ?thesis by blast
  qed simp
qed

section \<open>Properties\<close>

text \<open>The order of decision. \<open>decide\<close> returns no rule exactly when no rule is a candidate, and returns a rule exactly
  when it is the first candidate of the highest rank: every candidate before it in the list ranks
  strictly lower, and none after it ranks higher.\<close>

theorem decide_is_first_of_highest_rank:
  "(decide rs i now = None \<longleftrightarrow> filter (candidate i now) rs = []) \<and>
   (decide rs i now = Some r \<longleftrightarrow> chosen i now rs r)"
proof -
  have n: "filter (candidate i now) rs = [] \<longleftrightarrow> (\<forall>x \<in> set rs. \<not> candidate i now x)"
    by (simp add: filter_empty_conv)
  have "decide rs i now = Some r" if c: "chosen i now rs r"
  proof (cases "decide rs i now")
    case None
    with c chosen_candidate [OF c] show ?thesis by (auto simp: decide_None)
  next
    case (Some q)
    with c decide_Some [OF Some] chosen_unique show ?thesis by blast
  qed
  then show ?thesis unfolding n using decide_None decide_Some by blast
qed

lemma decide_cut_facts:
  assumes "decide rs i now = Some r" "r_action r = Cortar"
  shows "r \<in> set rs \<and> is_active r now \<and>
    (is_wide r \<longrightarrow> 24 * 60 * 60 * 1000 \<le> ri_observed_ms i) \<and>
    (ri_category i = Esperado \<longrightarrow> r_match_kind r \<noteq> Category_k \<and> r_confirmed r)"
  using decide_candidate [OF assms(1)] assms(2)
  by (auto simp: candidate_def observation_complete_def OBSERVATION_HOURS_def HOUR_MS_def)

text \<open>C11: the inviolable rules. A rule that decides to cut is in force; if it reaches wide (a whole
  category or the whole home) the device has been observed for 24 hours; if the lists call the name
  \<open>esperado\<close>, the rule names it (it is not a category rule) and the person confirmed it.\<close>

theorem cut_respects_inviolable_rules:
  assumes "decide rs i now = Some r" "r_action r = Cortar"
  shows "r \<in> set rs \<and> is_active r now \<and>
    (is_wide r \<longrightarrow> 24 * 60 * 60 * 1000 \<le> ri_observed_ms i) \<and>
    (ri_category i = Esperado \<longrightarrow> r_match_kind r \<noteq> Category_k \<and> r_confirmed r)"
  by (rule decide_cut_facts [OF assms])

definition sample_rule :: rule where
  "sample_rule = \<lparr>r_id = 1, r_scope = Device_s, r_device_id = Some ''self'', r_match_kind = Suffix_k,
     r_pattern = ''b.c'', r_action = Cortar, r_created_at = 0, r_created_by = ''u'',
     r_expires_at = None, r_undone_at = None, r_confirmed = True\<rparr>"

definition sample_input :: rule_input where
  "sample_input = \<lparr>ri_device_id = ''self'', ri_name = ''a.b.c'', ri_category = Esperado,
     ri_observed_ms = 0\<rparr>"

lemma sample_cut: "decide [sample_rule] sample_input 5 = Some sample_rule"
  by code_simp

theorem cut_respects_inviolable_rules_witness:
  "decide [sample_rule] sample_input 5 = Some sample_rule \<and> is_active sample_rule 5 \<and>
   r_confirmed sample_rule"
proof -
  have "r_action sample_rule = Cortar" by (simp add: sample_rule_def)
  from cut_respects_inviolable_rules [OF sample_cut this]
  show ?thesis using sample_cut by (simp add: sample_input_def)
qed

text \<open>An allow is only overruled by something more specific. When a rule decides to cut although
  a rule that allows also applies, the cutting rule matches more specifically, or equally
  specifically but for this device where the allow is for the whole home.\<close>

theorem allow_overruled_only_by_specific:
  assumes "decide rs i now = Some r" "r_action r = Cortar"
    and "x \<in> set rs" "candidate i now x" "r_action x = Permitir"
  shows "specificity (r_match_kind x) < specificity (r_match_kind r) \<or>
    specificity (r_match_kind x) = specificity (r_match_kind r) \<and>
    r_scope r = Device_s \<and> r_scope x = Home_s"
proof -
  have "\<not> rank_less (rank r) (rank x)" by (rule decide_best [OF assms(1,3,4)])
  with assms(2,5) show ?thesis
    by (cases "r_scope x"; cases "r_scope r") (auto simp: rank_def)
qed

definition sample_allow :: rule where
  "sample_allow = sample_rule\<lparr>r_match_kind := Category_k, r_pattern := ''esperado'', r_action := Permitir\<rparr>"

theorem allow_overruled_only_by_specific_witness:
  "specificity (r_match_kind sample_allow) < specificity (r_match_kind sample_rule)"
proof -
  have d: "decide [sample_allow, sample_rule(| r_device_id := None |), sample_rule]
      (sample_input(| ri_observed_ms := 90000000 |)) 5 = Some sample_rule" by code_simp
  have c: "candidate (sample_input(| ri_observed_ms := 90000000 |)) 5 sample_allow" by code_simp
  have "r_action sample_rule = Cortar" "r_action sample_allow = Permitir"
    by (simp_all add: sample_rule_def sample_allow_def)
  from allow_overruled_only_by_specific [OF d this(1) _ c this(2)]
  show ?thesis by (simp add: sample_rule_def sample_allow_def)
qed

text \<open>Undoing every rule \<open>cutting_rules\<close> lists really lets the name pass. Whatever rule then
  decides to cut the name, now or at any later moment of the same rule set, is a category rule.\<close>

definition undo_all :: "int \<Rightarrow> rule list \<Rightarrow> rule list \<Rightarrow> rule list" where
  "undo_all now picked rs =
     map (\<lambda>r. if r \<in> set picked then r\<lparr>r_undone_at := Some now\<rparr> else r) rs"

theorem undoing_cutting_rules_lets_name_pass:
  assumes "decide (undo_all now (cutting_rules rs i now) rs) i now = Some r" "r_action r = Cortar"
  shows "r_match_kind r = Category_k"
proof (rule ccontr)
  assume k: "r_match_kind r \<noteq> Category_k"
  from decide_candidate [OF assms(1)]
  have c: "candidate i now r" and m: "r \<in> set (undo_all now (cutting_rules rs i now) rs)" by auto
  from c have "r_undone_at r = None" by (simp add: candidate_def is_active_def)
  with m have r: "r \<in> set rs" "r \<notin> set (cutting_rules rs i now)"
    by (auto simp: undo_all_def split: if_splits)
  from c k assms(2) have "cuts_by_name i now r" by (auto simp: candidate_def cuts_by_name_def)
  with r show False by (simp add: set_cutting_rules)
qed

theorem undoing_cutting_rules_lets_name_pass_witness:
  "decide (undo_all 5 (cutting_rules [sample_rule, sample_allow(| r_action := Cortar, r_pattern := ''rastreador'' |)]
      (sample_input(| ri_category := Rastreador, ri_observed_ms := 90000000 |)) 5)
      [sample_rule, sample_allow(| r_action := Cortar, r_pattern := ''rastreador'' |)])
    (sample_input(| ri_category := Rastreador, ri_observed_ms := 90000000 |)) 5 =
    Some (sample_allow(| r_action := Cortar, r_pattern := ''rastreador'' |)) \<and>
   r_match_kind (sample_allow(| r_action := Cortar, r_pattern := ''rastreador'' |)) = Category_k"
  (is "?d = Some ?r \<and> _")
proof -
  have d: "?d = Some ?r" by code_simp
  have "r_action ?r = Cortar" by simp
  from undoing_cutting_rules_lets_name_pass [OF d this] d show ?thesis by simp
qed

lemma valid_host_plain:
  assumes v: "valid_host s"
  shows "trim s = s" "trim_end_matches (\<lambda>x. x = CHR ''.'') s = s" "to_ascii_lowercase s = s"
proof -
  have plain: "label_char x \<or> x = CHR ''.''" if "x \<in> set s" for x
    using valid_host_chars [OF v that] .
  note ends = valid_host_ends [OF v]
  have first: "label_char (hd s)" "label_char (last s)"
    using plain [of "hd s"] plain [of "last s"] ends by auto
  show "trim s = s" using first ends label_char_plain by (intro trim_plain) auto
  show "trim_end_matches (\<lambda>x. x = CHR ''.'') s = s"
    using ends by (intro trim_end_matches_id) simp
  show "to_ascii_lowercase s = s"
    unfolding to_ascii_lowercase_def
  proof (intro map_idI ascii_lower_id)
    fix x
    assume "x \<in> set s"
    then show "\<not> is_ascii_uppercase x"
      using plain [of x] label_char_plain [of x] by (auto simp: is_ascii_uppercase_def)
  qed
qed

text \<open>A name that \<open>normalizar_nombre\<close> accepts is a host name a query can carry, comes back
  unchanged when normalised again, and as the pattern of a rule it matches what it says: the exact
  name matches itself, and a suffix rule matches the name and every name below it.\<close>

theorem normalised_name_is_a_matching_pattern:
  assumes "normalizar_nombre raw = Some (s, c)"
  shows "valid_host s \<and> normalizar_nombre s = Some (s, False) \<and>
    (name_matches Domain_k s n cat \<longleftrightarrow> n = s) \<and>
    (name_matches Suffix_k s n cat \<longleftrightarrow> n = s \<or> (\<exists>sub. n = sub @ ''.'' @ s))"
proof -
  have v: "valid_host s" by (rule normalizar_valid [OF assms])
  note plain = valid_host_plain [OF v]
  have suf: "(case strip_suffix s n of None \<Rightarrow> False | Some rest \<Rightarrow> rest \<noteq> [] \<and> last rest = CHR ''.'')
      \<longleftrightarrow> (\<exists>sub. n = sub @ ''.'' @ s)"
  proof
    assume "case strip_suffix s n of None \<Rightarrow> False | Some rest \<Rightarrow> rest \<noteq> [] \<and> last rest = CHR ''.''"
    then obtain rest where "n = rest @ s" "rest \<noteq> []" "last rest = CHR ''.''"
      by (auto split: option.splits)
    then have "n = butlast rest @ ''.'' @ s" by (metis append_assoc append_butlast_last_id)
    then show "\<exists>sub. n = sub @ ''.'' @ s" by blast
  next
    assume "\<exists>sub. n = sub @ ''.'' @ s"
    then obtain sub where "n = (sub @ ''.'') @ s" by auto
    then have e: "strip_suffix s n = Some (sub @ ''.'')" by (simp only: strip_suffix_Some)
    show "case strip_suffix s n of None \<Rightarrow> False | Some rest \<Rightarrow> rest \<noteq> [] \<and> last rest = CHR ''.''"
      unfolding e by simp
  qed
  show ?thesis
    using v normalizar_idem [OF assms] suf by (simp add: name_matches_def Let_def plain)
qed

theorem normalised_name_is_a_matching_pattern_witness:
  "normalizar_nombre '' HTTPS://u@*.Example.com.:443/x'' = Some (''example.com'', True) \<and>
   name_matches Suffix_k ''example.com'' ''a.example.com'' Desconocido"
proof -
  have n: "normalizar_nombre '' HTTPS://u@*.Example.com.:443/x'' = Some (''example.com'', True)"
    by code_simp
  from normalised_name_is_a_matching_pattern [OF n, of "''a.example.com''" Desconocido] n
  show ?thesis by auto
qed

end
