(* ===== verification/Dominio.thy ===== *)
theory Dominio imports Net Rules begin

text \<open>
  Hosts and sites, \<open>crates/lists/src/dominio.rs\<close>: which part of a name names the organisation
  behind it, by the Public Suffix List. The list's text, a data file of the repository, is an
  argument of \<open>reglas\<close>; the \<open>idna\<close> crate and the case folding of non-ASCII rules are the argument
  \<open>idna\<close>. The sets are lists, which only membership is asked of.
\<close>

record psl_reglas =
  normales :: "string list"
  comodines :: "string list"
  excepciones :: "string list"
  privados :: "string list"

definition is_ascii :: "string \<Rightarrow> bool" where
  "is_ascii s \<longleftrightarrow> list_all (\<lambda>c. char_code c < 128) s"

definition a_ascii :: "(string \<Rightarrow> string) \<Rightarrow> string \<Rightarrow> string" where
  "a_ascii idna regla = (if is_ascii regla then to_ascii_lowercase regla else idna regla)"

text \<open>One line of the list: whether the private section is open, and the rules so far.\<close>

definition regla_linea ::
    "(string \<Rightarrow> string) \<Rightarrow> string \<Rightarrow> bool \<times> psl_reglas \<Rightarrow> bool \<times> psl_reglas" where
  "regla_linea idna linea st =
     (let (privado, r) = st;
          privado = (if contains_str ''===BEGIN PRIVATE DOMAINS==='' linea then True
                     else if contains_str ''===END PRIVATE DOMAINS==='' linea then False
                     else privado);
          palabra = (case split_whitespace linea of [] \<Rightarrow> [] | w # _ \<Rightarrow> w)
      in if palabra = [] \<or> starts_with ''//'' palabra then (privado, r)
         else
           (privado,
            case strip_prefix ''!'' palabra of
              Some resto \<Rightarrow> r\<lparr>excepciones := a_ascii idna resto # excepciones r\<rparr>
            | None \<Rightarrow>
                (case strip_prefix ''*.'' palabra of
                   Some resto \<Rightarrow>
                     r\<lparr>comodines := a_ascii idna resto # comodines r,
                       privados := (if privado then a_ascii idna resto # privados r else privados r)\<rparr>
                 | None \<Rightarrow>
                     r\<lparr>normales := a_ascii idna palabra # normales r,
                       privados := (if privado then a_ascii idna palabra # privados r
                                    else privados r)\<rparr>)))"

definition reglas :: "(string \<Rightarrow> string) \<Rightarrow> string \<Rightarrow> psl_reglas" where
  "reglas idna psl =
     snd (fold (regla_linea idna) (text_lines psl)
       (False, \<lparr>normales = [], comodines = [], excepciones = [], privados = []\<rparr>))"

text \<open>\<open>[..].join(".")\<close>.\<close>

fun join_dots :: "string list \<Rightarrow> string" where
  "join_dots [] = []"
| "join_dots [e] = e"
| "join_dots (e # es) = e @ CHR ''.'' # join_dots es"

text \<open>The loop of \<open>largo_sufijo\<close> over the labels from \<open>i\<close> on: they are what is left of the list.\<close>

fun sufijo_desde :: "psl_reglas \<Rightarrow> string list \<Rightarrow> nat" where
  "sufijo_desde r [] = 1"
| "sufijo_desde r (e # es) =
     (if join_dots (e # es) \<in> set (excepciones r) then length es
      else if join_dots (e # es) \<in> set (normales r) then length es + 1
      else if es \<noteq> [] \<and> join_dots es \<in> set (comodines r) then length es + 1
      else sufijo_desde r es)"

definition largo_sufijo :: "psl_reglas \<Rightarrow> string list \<Rightarrow> nat" where
  "largo_sufijo r etiquetas = sufijo_desde r etiquetas"

definition normaliza_host :: "string \<Rightarrow> string" where
  "normaliza_host host =
     to_ascii_lowercase
       (trim_end_matches (\<lambda>c. c = CHR '']'')
         (trim_start_matches (\<lambda>c. c = CHR ''['')
           (trim_end_matches (\<lambda>c. c = CHR ''.'') (trim host))))"

definition etiquetas_de :: "string \<Rightarrow> string list" where
  "etiquetas_de host = filter (\<lambda>e. e \<noteq> []) (split_char (CHR ''.'') host)"

definition sitio :: "psl_reglas \<Rightarrow> string \<Rightarrow> string" where
  "sitio r host =
     (let host = normaliza_host host
      in if is_ip host \<or> CHR ''.'' \<notin> set host then host
         else
           let etiquetas = etiquetas_de host;
               sufijo = largo_sufijo r etiquetas
           in if length etiquetas \<le> sufijo then host
              else join_dots (drop (length etiquetas - sufijo - 1) etiquetas))"

definition bajo_sufijo_privado :: "psl_reglas \<Rightarrow> string \<Rightarrow> bool" where
  "bajo_sufijo_privado r host =
     (let host = normaliza_host host
      in if is_ip host then False
         else
           let etiquetas = etiquetas_de host
           in list_ex (\<lambda>i. join_dots (drop i etiquetas) \<in> set (privados r)) [1..<length etiquetas])"

definition sitio_de_alias :: "psl_reglas \<Rightarrow> string \<Rightarrow> string" where
  "sitio_de_alias r host =
     (let host = normaliza_host host
      in if is_ip host then host
         else
           let etiquetas = etiquetas_de host
           in case find (\<lambda>s. s \<in> set (privados r))
                (map (\<lambda>i. join_dots (drop i etiquetas)) [1..<length etiquetas]) of
                Some s \<Rightarrow> s
              | None \<Rightarrow> sitio r host)"

definition dominio_conocido :: "psl_reglas \<Rightarrow> string \<Rightarrow> bool" where
  "dominio_conocido r host =
     (let host = normaliza_host host; tld = last (split_char (CHR ''.'') host)
      in tld \<noteq> [] \<and> CHR ''.'' \<in> set host \<and>
         (tld \<in> set (normales r) \<or> tld \<in> set (comodines r)))"

definition TERMINACIONES_DE_ADORNO :: "string list" where
  "TERMINACIONES_DE_ADORNO =
     [''ac'', ''ad'', ''ag'', ''ai'', ''am'', ''as'', ''bi'', ''bz'', ''cc'', ''cd'', ''cf'',
      ''cm'', ''co'', ''cx'', ''dj'', ''eu'', ''ki'', ''lc'', ''nr'', ''sx'', ''tc'', ''tl'',
      ''vc'', ''vg'', ''fm'', ''ga'', ''gd'', ''gg'', ''gl'', ''gq'', ''gs'', ''im'', ''io'',
      ''je'', ''la'', ''ly'', ''me'', ''ml'', ''ms'', ''mu'', ''nu'', ''pw'', ''sc'', ''sh'',
      ''so'', ''st'', ''su'', ''tk'', ''to'', ''tv'', ''ws'']"

definition pais_del_dominio :: "string \<Rightarrow> string option" where
  "pais_del_dominio s =
     (let fin = last (split_char (CHR ''.'') (trim_end_matches (\<lambda>c. c = CHR ''.'') s))
      in if length fin \<noteq> 2 \<or> \<not> list_all is_ascii_lowercase fin \<or>
            fin \<in> set TERMINACIONES_DE_ADORNO \<or> CHR ''.'' \<notin> set s
         then None
         else Some (if fin = ''uk'' then ''GB''
                    else map (\<lambda>c. if is_ascii_lowercase c then char_of (char_code c - 32) else c) fin))"

section \<open>A site is its own site\<close>

lemma join_dots_Cons: "es \<noteq> [] \<Longrightarrow> join_dots (e # es) = e @ CHR ''.'' # join_dots es"
  by (cases es) auto

lemma join_split [simp]: "join_dots (split_char CHR ''.'' s) = s"
proof (induction s)
  case (Cons c s)
  obtain p ps where p: "split_char CHR ''.'' s = p # ps" by (cases "split_char CHR ''.'' s") auto
  with Cons show ?case by (cases ps) (auto simp: join_dots_Cons)
qed simp

lemma split_join:
  "es \<noteq> [] \<Longrightarrow> \<forall>e \<in> set es. CHR ''.'' \<notin> set e \<Longrightarrow> split_char CHR ''.'' (join_dots es) = es"
proof (induction es rule: join_dots.induct)
  case (1)
  then show ?case by simp
next
  case (2 e)
  have "CHR ''.'' \<notin> set e \<Longrightarrow> split_char CHR ''.'' e = [e]" by (induction e) auto
  with 2 show ?case by simp
next
  case (3 e f es)
  have h: "CHR ''.'' \<notin> set x \<Longrightarrow> split_char CHR ''.'' (x @ CHR ''.'' # t) = x # split_char CHR ''.'' t" for x t
    by (induction x) auto
  from 3 show ?case by (simp add: h)
qed

lemma sufijo_again:
  "sufijo_desde r es = k \<Longrightarrow> k < length es \<Longrightarrow>
   sufijo_desde r (drop (length es - k - 1) es) = k"
proof (induction es)
  case Nil
  then show ?case by simp
next
  case (Cons e es)
  show ?case
  proof (cases "k = length es")
    case True
    with Cons.prems show ?thesis by simp
  next
    case False
    with Cons.prems have "sufijo_desde r es = k" "k < length es" by (auto split: if_splits)
    from Cons.IH [OF this] have "sufijo_desde r (drop (length es - k - 1) es) = k" .
    moreover have "length (e # es) - k - 1 = Suc (length es - k - 1)" using \<open>k < length es\<close> by simp
    ultimately show ?thesis by (simp only: drop_Suc_Cons)
  qed
qed

lemma normaliza_plain:
  assumes "s \<noteq> []" "\<forall>c \<in> set s. label_char c \<or> c = CHR ''.''" "last s \<noteq> CHR ''.''"
    "hd s \<noteq> CHR ''.''"
  shows "normaliza_host s = s"
proof -
  have ends: "label_char (hd s)" "label_char (last s)" using assms by auto
  have tr: "trim s = s" using ends assms(1) label_char_plain by (intro trim_plain) auto
  have te: "trim_end_matches (\<lambda>c. c = CHR ''.'') s = s" using assms by (intro trim_end_matches_id) simp
  have nb: "\<not> label_char CHR ''[''" "\<not> label_char CHR '']''"
    by (simp_all add: label_char_def is_ascii_lowercase_def is_ascii_digit_def)
  have ts: "trim_start_matches (\<lambda>c. c = CHR ''['') s = s"
    using ends nb assms(1) by (cases s) (auto simp: trim_start_matches_def)
  have te2: "trim_end_matches (\<lambda>c. c = CHR '']'') s = s"
    using ends nb by (intro trim_end_matches_id) auto
  have low: "to_ascii_lowercase s = s"
    unfolding to_ascii_lowercase_def
  proof (intro map_idI ascii_lower_id)
    fix c
    assume "c \<in> set s"
    with assms(2) have "label_char c \<or> c = CHR ''.''" by blast
    then show "\<not> is_ascii_uppercase c"
      using label_char_plain [of c] by (auto simp: is_ascii_uppercase_def)
  qed
  show ?thesis unfolding normaliza_host_def tr te ts te2 low ..
qed

lemma join_ends:
  "es \<noteq> [] \<Longrightarrow> [] \<notin> set es \<Longrightarrow>
   join_dots es \<noteq> [] \<and> hd (join_dots es) = hd (hd es) \<and> last (join_dots es) = last (last es)"
  by (induction es rule: join_dots.induct) (auto simp: hd_append)

lemma join_chars: "set (join_dots es) \<subseteq> \<Union> (set ` set es) \<union> {CHR ''.''}"
  by (induction es rule: join_dots.induct) auto

lemma join_plain:
  assumes "es \<noteq> []" "\<forall>e \<in> set es. valid_label e"
  shows "normaliza_host (join_dots es) = join_dots es" "etiquetas_de (join_dots es) = es"
proof -
  have e: "e \<noteq> [] \<and> (\<forall>c \<in> set e. label_char c)" if "e \<in> set es" for e
    using that assms(2) by (auto simp: valid_label_def list_all_iff)
  have nodot: "c \<noteq> CHR ''.''" if "label_char c" for c using label_char_plain [OF that] by blast
  have ends: "join_dots es \<noteq> [] \<and> hd (join_dots es) = hd (hd es) \<and> last (join_dots es) = last (last es)"
    using assms(1) e by (intro join_ends) auto
  have "hd es \<in> set es" "last es \<in> set es" using assms(1) by simp_all
  with e nodot have h: "hd (hd es) \<noteq> CHR ''.''" "last (last es) \<noteq> CHR ''.''" by auto
  have "\<forall>c \<in> set (join_dots es). label_char c \<or> c = CHR ''.''"
    using join_chars [of es] e by fastforce
  with ends h show "normaliza_host (join_dots es) = join_dots es" by (intro normaliza_plain) auto
  have "split_char CHR ''.'' (join_dots es) = es" using assms(1) e nodot by (intro split_join) auto
  moreover have "filter (\<lambda>x. x \<noteq> []) es = es" using e by (simp add: filter_id_conv)
  ultimately show "etiquetas_de (join_dots es) = es" by (simp add: etiquetas_de_def)
qed

lemma join_drop: "k < length es \<Longrightarrow> join_dots (drop k es) = join_dots es \<or>
    ends_with (CHR ''.'' # join_dots (drop k es)) (join_dots es)"
proof (induction es arbitrary: k)
  case Nil
  then show ?case by simp
next
  case (Cons e es)
  show ?case
  proof (cases k)
    case 0
    then show ?thesis by simp
  next
    case (Suc m)
    with Cons.prems have "es \<noteq> []" "m < length es" by auto
    from Cons.IH [OF this(2)] obtain q where
      "join_dots es = join_dots (drop m es) \<or> join_dots es = q @ CHR ''.'' # join_dots (drop m es)"
      by (auto simp: ends_with_iff)
    then have "\<exists>q. join_dots (e # es) = q @ CHR ''.'' # join_dots (drop m es)"
      unfolding join_dots_Cons [OF \<open>es \<noteq> []\<close>] by (metis append.assoc append_Cons)
    with Suc show ?thesis by (simp add: ends_with_iff)
  qed
qed

text \<open>A site is whole labels of the name, and its own site. For every host name the program
  keeps, whatever the suffix list says, the site is the name itself or what follows one of its
  dots, and asking again for the site of the site gives it back.\<close>

theorem site_is_a_fixed_point:
  assumes "valid_host h"
  shows "sitio r (sitio r h) = sitio r h \<and> (sitio r h = h \<or> ends_with (CHR ''.'' # sitio r h) h)"
proof -
  let ?es = "split_char CHR ''.'' h"
  have v: "\<forall>e \<in> set ?es. valid_label e" using assms by (simp add: valid_host_def list_all_iff)
  note p = join_plain [OF split_char_nonempty v, unfolded join_split]
  show ?thesis
  proof (cases "is_ip h \<or> CHR ''.'' \<notin> set h \<or> length ?es \<le> largo_sufijo r ?es")
    case True
    then have "sitio r h = h" using p by (auto simp: sitio_def Let_def)
    then show ?thesis by simp
  next
    case False
    define k where "k = largo_sufijo r ?es"
    define ds where "ds = drop (length ?es - k - 1) ?es"
    have k: "k < length ?es" using False by (simp add: k_def)
    have s: "sitio r h = join_dots ds" using False p by (simp add: sitio_def Let_def ds_def k_def)
    have "ds \<noteq> []" "\<forall>e \<in> set ds. valid_label e"
      using k v by (auto simp: ds_def dest: in_set_dropD)
    note q = join_plain [OF this]
    have "largo_sufijo r ds = k" "length ds = Suc k"
      using sufijo_again [of r ?es k] k by (simp_all add: k_def ds_def largo_sufijo_def)
    then have "sitio r (join_dots ds) = join_dots ds" using q by (simp add: sitio_def Let_def)
    moreover have "join_dots ds = h \<or> ends_with (CHR ''.'' # join_dots ds) h"
      using join_drop [of "length ?es - k - 1" ?es] k by (simp add: ds_def)
    ultimately show ?thesis using s by simp
  qed
qed

definition sample_reglas :: psl_reglas where
  "sample_reglas =
     \<lparr>normales = [''uk'', ''co.uk''], comodines = [''ck''], excepciones = [''www.ck''], privados = []\<rparr>"

theorem site_is_a_fixed_point_witness:
  "sitio sample_reglas ''www.tracker.co.uk'' = ''tracker.co.uk'' \<and>
   sitio sample_reglas ''tracker.co.uk'' = ''tracker.co.uk''"
proof -
  have i: "is_ip ''www.tracker.co.uk'' = False"
    by (simp add: not_ip_first hex_val_def is_ascii_digit_def)
  have n: "normaliza_host ''www.tracker.co.uk'' = ''www.tracker.co.uk''"
    "etiquetas_de ''www.tracker.co.uk'' = [''www'', ''tracker'', ''co'', ''uk'']" 
    "largo_sufijo sample_reglas [''www'', ''tracker'', ''co'', ''uk''] = 2" by code_simp+
  have s: "sitio sample_reglas ''www.tracker.co.uk'' = ''tracker.co.uk''"
    by (simp add: sitio_def n i Let_def)
  have "valid_host ''www.tracker.co.uk''" by code_simp
  from site_is_a_fixed_point [OF this, of sample_reglas] s show ?thesis by simp
qed

end
