(* ===== verification/Lists.thy ===== *)
theory Lists imports Dominio begin

text \<open>
  The open lists, \<open>crates/lists/src/parse.rs\<close>, \<open>lib.rs\<close> and \<open>subastas.rs\<close>: the three text formats,
  who owns a name, and the part a name plays in the advertising auction. The bundled files are the
  fields of \<open>list_data\<close>. A \<open>HashMap\<close> filled once is a map; the one whose entries are listed is an
  association list.
\<close>

record list_data =
  CORREDORES :: string
  EMPRESAS :: string
  EMPRESAS_MUNDO :: string
  IA :: string
  ENTREGA :: string
  ALOJAMIENTO :: string
  SECTORES :: string
  ESPERADO :: string
  TELEMETRIA :: string
  EASYPRIVACY :: string
  PETERLOWE :: string
  EVASION_DNS :: string
  SUBASTAS :: string

section \<open>The text formats\<close>

datatype format = Abp | Hosts | Guardiana_f

definition is_domain_char :: "char \<Rightarrow> bool" where
  "is_domain_char c \<longleftrightarrow>
     is_ascii_lowercase c \<or> is_ascii_uppercase c \<or> is_ascii_digit c \<or> c = CHR ''.'' \<or> c = CHR ''-''"

definition looks_like_domain :: "string \<Rightarrow> bool" where
  "looks_like_domain s \<longleftrightarrow>
     s \<noteq> [] \<and> CHR ''.'' \<in> set s \<and> \<not> starts_with ''.'' s \<and> \<not> ends_with ''.'' s \<and>
     \<not> starts_with ''-'' s \<and> list_all is_domain_char s"

definition abp_line :: "string \<Rightarrow> string option" where
  "abp_line line =
     (case strip_prefix ''||'' (trim line) of
        None \<Rightarrow> None
      | Some rest \<Rightarrow>
          (case strip_suffix ''^'' rest of
             None \<Rightarrow> None
           | Some domain \<Rightarrow> if looks_like_domain domain then Some domain else None))"

definition parse_abp_domains :: "string \<Rightarrow> string list" where
  "parse_abp_domains text = List.map_filter abp_line (text_lines text)"

definition hosts_line :: "string \<Rightarrow> string option" where
  "hosts_line line =
     (case split_whitespace (trim (first_piece CHR ''#'' line)) of
        [] \<Rightarrow> None
      | ip # parts \<Rightarrow>
          if ip \<noteq> ''127.0.0.1'' \<and> ip \<noteq> ''0.0.0.0'' then None
          else
            (case parts of
               [] \<Rightarrow> None
             | domain # _ \<Rightarrow>
                 if looks_like_domain domain \<and> domain \<noteq> ''localhost.localdomain'' then Some domain
                 else None))"

definition parse_hosts :: "string \<Rightarrow> string list" where
  "parse_hosts text = List.map_filter hosts_line (text_lines text)"

fun guardiana_lines :: "string option \<Rightarrow> string list \<Rightarrow> (string option \<times> string) list" where
  "guardiana_lines section [] = []"
| "guardiana_lines section (l # ls) =
     (let line = trim (first_piece CHR ''#'' l)
      in if line = [] then guardiana_lines section ls
         else
           (case strip_prefix ''@'' line of
              Some name \<Rightarrow> guardiana_lines (Some (trim name)) ls
            | None \<Rightarrow>
                if looks_like_domain line then (section, line) # guardiana_lines section ls
                else guardiana_lines section ls))"

definition parse_guardiana :: "string \<Rightarrow> (string option \<times> string) list" where
  "parse_guardiana text = guardiana_lines None (text_lines text)"

section \<open>Looking a name up\<close>

text \<open>The name, then what follows its first dot, and so on: the order of the lookup loops.\<close>

function parents :: "string \<Rightarrow> string list" where
  "parents s = s # (case split_once ''.'' s of None \<Rightarrow> [] | Some (_, r) \<Rightarrow> parents r)"
  by pat_completeness auto
termination by (relation "measure length") (auto dest: split_once_Some)

declare parents.simps [simp del]

definition lookup_con_sufijo :: "(string \<rightharpoonup> 'v) \<Rightarrow> string \<Rightarrow> ('v \<times> string) option" where
  "lookup_con_sufijo m qname =
     (let name = to_ascii_lowercase (trim_end_matches (\<lambda>c. c = CHR ''.'') qname)
      in case find (\<lambda>k. m k \<noteq> None) (parents name) of
           None \<Rightarrow> None
         | Some k \<Rightarrow> map_option (\<lambda>v. (v, k)) (m k))"

definition lookup_list :: "(string \<rightharpoonup> 'v) \<Rightarrow> string \<Rightarrow> 'v option" where
  "lookup_list m qname = map_option fst (lookup_con_sufijo m qname)"

text \<open>\<open>parse_guardiana(..).filter_map(..).collect()\<close>: the last section to write a domain keeps it.\<close>

definition section_map :: "string \<Rightarrow> (string \<rightharpoonup> string)" where
  "section_map text =
     fold (\<lambda>(section, domain) m. case section of None \<Rightarrow> m | Some c \<Rightarrow> m(domain \<mapsto> c))
       (parse_guardiana text) Map.empty"

definition ai_service_of :: "list_data \<Rightarrow> string \<Rightarrow> string option" where
  "ai_service_of d qname = lookup_list (section_map (IA d)) qname"

definition is_local_name :: "string \<Rightarrow> bool" where
  "is_local_name qname =
     (let n = to_ascii_lowercase (trim_end_matches (\<lambda>c. c = CHR ''.'') qname)
      in ends_with ''.arpa'' n \<or> ends_with ''.local'' n \<or> ends_with ''.home.arpa'' n \<or>
         contains_str ''_dns-sd.'' n \<or> contains_str ''._tcp.'' n \<or> contains_str ''._udp.'' n)"

definition delivery_of :: "list_data \<Rightarrow> string \<Rightarrow> string option" where
  "delivery_of d qname = lookup_list (section_map (ENTREGA d)) qname"

definition sector_of :: "list_data \<Rightarrow> string \<Rightarrow> string option" where
  "sector_of d qname = lookup_list (section_map (SECTORES d)) qname"

section \<open>Who owns a name\<close>

datatype origen_empresa = Empresas_o | Mundo_o

text \<open>The lines of both files that \<open>headers\<close> reads: the first header of a name stays.\<close>

definition header_line :: "string \<Rightarrow> (string \<rightharpoonup> string) \<Rightarrow> (string \<rightharpoonup> string)" where
  "header_line l h =
     (case strip_prefix ''@'' (trim (first_piece CHR ''#'' l)) of
        None \<Rightarrow> h
      | Some header \<Rightarrow>
          if starts_with ''='' header then h
          else
            let name = trim (first_piece CHR ''|'' header)
            in if name = [] \<or> h name \<noteq> None then h else h(name \<mapsto> trim header))"

definition headers :: "list_data \<Rightarrow> (string \<rightharpoonup> string)" where
  "headers d =
     fold header_line (text_lines (EMPRESAS d) @ text_lines (EMPRESAS_MUNDO d)) Map.empty"

definition company_entry ::
    "list_data \<Rightarrow> origen_empresa \<Rightarrow> string option \<times> string \<Rightarrow> (string \<times> string \<times> origen_empresa) option" where
  "company_entry d origen e =
     (case fst e of
        None \<Rightarrow> None
      | Some section \<Rightarrow>
          (case strip_prefix ''='' section of
             Some name \<Rightarrow>
               (case headers d (trim name) of
                  Some h \<Rightarrow> Some (h, snd e, origen)
                | None \<Rightarrow> None)
           | None \<Rightarrow> Some (section, snd e, origen)))"

definition company_entries_con_origen :: "list_data \<Rightarrow> (string \<times> string \<times> origen_empresa) list" where
  "company_entries_con_origen d =
     List.map_filter (company_entry d Empresas_o) (parse_guardiana (EMPRESAS d)) @
     List.map_filter (company_entry d Mundo_o) (parse_guardiana (EMPRESAS_MUNDO d))"

definition company_entries :: "list_data \<Rightarrow> (string \<times> string) list" where
  "company_entries d = map (\<lambda>(h, dom, _). (h, dom)) (company_entries_con_origen d)"

definition companies :: "list_data \<Rightarrow> (string \<rightharpoonup> string \<times> origen_empresa)" where
  "companies d =
     fold (\<lambda>(h, dom, o') m.
         case o' of
           Empresas_o \<Rightarrow> m(dom \<mapsto> (h, o'))
         | Mundo_o \<Rightarrow> if m dom = None then m(dom \<mapsto> (h, o')) else m)
       (company_entries_con_origen d) Map.empty"

definition company_match :: "list_data \<Rightarrow> string \<Rightarrow> (string \<times> string \<times> origen_empresa) option" where
  "company_match d qname =
     map_option (\<lambda>((h, o'), sufijo). (h, sufijo, o')) (lookup_con_sufijo (companies d) qname)"

definition seccion_de :: "list_data \<Rightarrow> string \<Rightarrow> string option" where
  "seccion_de d qname = map_option fst (lookup_list (companies d) qname)"

definition company_of :: "list_data \<Rightarrow> string \<Rightarrow> string option" where
  "company_of d qname = map_option (first_piece CHR ''|'') (seccion_de d qname)"

definition filter_option :: "('a \<Rightarrow> bool) \<Rightarrow> 'a option \<Rightarrow> 'a option" where
  "filter_option p x = (case x of None \<Rightarrow> None | Some a \<Rightarrow> if p a then Some a else None)"

definition piece :: "nat \<Rightarrow> string \<Rightarrow> string option" where
  "piece n s = get_at (split_char CHR ''|'' s) n"

definition country_of :: "list_data \<Rightarrow> string \<Rightarrow> string option" where
  "country_of d qname =
     filter_option (\<lambda>p. length p = 2) (Option.bind (seccion_de d qname) (piece 1))"

definition city_of :: "list_data \<Rightarrow> string \<Rightarrow> string option" where
  "city_of d qname = filter_option (\<lambda>c. c \<noteq> []) (Option.bind (seccion_de d qname) (piece 2))"

definition group_of :: "list_data \<Rightarrow> string \<Rightarrow> string option" where
  "group_of d qname =
     filter_option (\<lambda>g. g \<noteq> []) (map_option trim (Option.bind (seccion_de d qname) (piece 3)))"

definition group_or_company_of :: "list_data \<Rightarrow> string \<Rightarrow> string option" where
  "group_or_company_of d qname =
     (case group_of d qname of Some g \<Rightarrow> Some g | None \<Rightarrow> company_of d qname)"

definition hosting_of :: "list_data \<Rightarrow> string \<Rightarrow> string option" where
  "hosting_of d qname =
     (case lookup_con_sufijo (section_map (ALOJAMIENTO d)) qname of
        None \<Rightarrow> None
      | Some (nube, sufijo) \<Rightarrow>
          (case lookup_con_sufijo (companies d) qname of
             Some (_, de_empresa) \<Rightarrow>
               if length de_empresa > length sufijo then None else Some nube
           | None \<Rightarrow> Some nube))"

definition parse_u32 :: "string \<Rightarrow> nat option" where
  "parse_u32 s = filter_option (\<lambda>n. n < 2 ^ 32) (parse_u64 s)"

text \<open>\<open>company_of_asn\<close>: the section open, and the networks so far.\<close>

definition asn_line :: "string \<Rightarrow> string option \<times> (nat \<rightharpoonup> string) \<Rightarrow> string option \<times> (nat \<rightharpoonup> string)" where
  "asn_line l st =
     (let line = trim (first_piece CHR ''#'' l)
      in case strip_prefix ''@'' line of
           Some name \<Rightarrow> (Some (trim (first_piece CHR ''|'' name)), snd st)
         | None \<Rightarrow>
             (case (Option.bind (strip_prefix ''AS'' line) parse_u32, fst st) of
                (Some n, Some c) \<Rightarrow> (fst st, (snd st)(n \<mapsto> c))
              | _ \<Rightarrow> st))"

definition company_of_asn :: "list_data \<Rightarrow> nat \<Rightarrow> string option" where
  "company_of_asn d asn = snd (fold asn_line (text_lines (EMPRESAS d)) (None, Map.empty)) asn"

record company_record_t =
  cr_name :: string
  cr_country :: "string option"
  cr_city :: "string option"
  cr_group :: "string option"
  cr_domains :: "string list"

definition company_record :: "list_data \<Rightarrow> string \<Rightarrow> company_record_t option" where
  "company_record d raw =
     (let name = trim raw
      in if name = [] then None
         else
           (case headers d name of
              None \<Rightarrow> None
            | Some header \<Rightarrow>
                let f = map trim (split_char CHR ''|'' header); n = hd f
                in Some \<lparr>cr_name = n,
                     cr_country = filter_option (\<lambda>p. length p = 2) (get_at f 1),
                     cr_city = filter_option (\<lambda>c. c \<noteq> []) (get_at f 2),
                     cr_group = filter_option (\<lambda>g. g \<noteq> []) (get_at f 3),
                     cr_domains = map snd (filter (\<lambda>(section, _).
                       trim (first_piece CHR ''|'' section) = n) (company_entries d))\<rparr>))"

section \<open>Data brokers\<close>

record data_broker =
  db_name :: string
  db_country :: "string option"
  db_declared :: string
  db_rights_url :: "string option"

definition declares :: "data_broker \<Rightarrow> char \<Rightarrow> bool" where
  "declares b letter \<longleftrightarrow> letter \<in> set (db_declared b)"

definition broker_header :: "string \<Rightarrow> data_broker option" where
  "broker_header head =
     (let name = trim (first_piece CHR ''|'' head)
      in if name = [] then None
         else Some
           \<lparr>db_name = name,
            db_country = filter_option (\<lambda>c. length c = 2) (map_option trim (piece 1 head)),
            db_declared = (case piece 2 head of None \<Rightarrow> [] | Some p \<Rightarrow> trim p),
            db_rights_url = filter_option (\<lambda>u. u \<noteq> []) (map_option trim (piece 3 head))\<rparr>)"

definition broker_lines :: "list_data \<Rightarrow> string list" where
  "broker_lines d =
     filter (\<lambda>l. l \<noteq> []) (map (\<lambda>l. trim (first_piece CHR ''#'' l)) (text_lines (CORREDORES d)))"

type_synonym broker_maps = "(string \<rightharpoonup> data_broker) \<times> (string \<rightharpoonup> data_broker)"

definition broker_line ::
    "string \<Rightarrow> broker_maps \<times> data_broker option \<Rightarrow> broker_maps \<times> data_broker option" where
  "broker_line line st =
     (case st of ((by_domain, by_company), current) \<Rightarrow>
        (case strip_prefix ''@'' line of
           Some head \<Rightarrow> ((by_domain, by_company), broker_header head)
         | None \<Rightarrow>
             (case strip_prefix ''='' line of
                Some company \<Rightarrow>
                  (case current of
                     Some b \<Rightarrow> ((by_domain, by_company(trim company \<mapsto> b)), current)
                   | None \<Rightarrow> st)
              | None \<Rightarrow>
                  (case current of
                     Some b \<Rightarrow>
                       if looks_like_domain line then ((by_domain(line \<mapsto> b), by_company), current)
                       else st
                   | None \<Rightarrow> st))))"

definition parse_brokers :: "list_data \<Rightarrow> broker_maps" where
  "parse_brokers d = fst (fold broker_line (broker_lines d) ((Map.empty, Map.empty), None))"

definition data_broker_of :: "list_data \<Rightarrow> string \<Rightarrow> data_broker option" where
  "data_broker_of d qname =
     (case lookup_list (fst (parse_brokers d)) qname of
        Some b \<Rightarrow> Some b
      | None \<Rightarrow> Option.bind (company_of d qname) (snd (parse_brokers d)))"

definition data_brokers :: "list_data \<Rightarrow> data_broker list" where
  "data_brokers d =
     List.map_filter broker_header (List.map_filter (strip_prefix ''@'') (broker_lines d))"

section \<open>The auction\<close>

datatype papel = Id_p | Sincroniza_p | Servidor_p | Puja_p

fun papel_clave :: "papel \<Rightarrow> string" where
  "papel_clave Id_p = ''id''"
| "papel_clave Sincroniza_p = ''sincroniza''"
| "papel_clave Servidor_p = ''servidor''"
| "papel_clave Puja_p = ''puja''"

record sistema_id =
  si_nombre :: string
  si_baja :: "string option"

record rol =
  rol_papel :: papel
  rol_coincide :: string
  rol_sistema :: "sistema_id option"

record tabla =
  ta_nombres :: "(string \<times> papel \<times> sistema_id option) list"
  ta_pujadores :: "(string \<times> string) list"

record lectura =
  le_tabla :: tabla
  le_papel :: "papel option"
  le_sistema :: "sistema_id option"
  le_en_pujadores :: bool

definition or_insert :: "'k \<Rightarrow> 'v \<Rightarrow> ('k \<times> 'v) list \<Rightarrow> ('k \<times> 'v) list" where
  "or_insert k v m = (if map_of m k = None then m @ [(k, v)] else m)"

definition has_whitespace :: "string \<Rightarrow> bool" where
  "has_whitespace s \<longleftrightarrow> list_ex (\<lambda>n. strip_any ws_forms (drop n s) \<noteq> None) [0..<length s]"

definition cabecera :: "string \<Rightarrow> lectura \<Rightarrow> lectura" where
  "cabecera cab t =
     (let nombre = trim (first_piece CHR ''|'' cab);
          sis = \<lparr>si_nombre = (case piece 1 cab of None \<Rightarrow> [] | Some s \<Rightarrow> trim s),
                 si_baja = filter_option (starts_with ''https://'') (map_option trim (piece 2 cab))\<rparr>
      in t\<lparr>le_en_pujadores := (nombre = ''pujadores''),
           le_sistema := (if nombre = ''id'' then Some sis else None),
           le_papel :=
             (if nombre = ''id'' then Some Id_p
              else if nombre = ''sincroniza'' then Some Sincroniza_p
              else if nombre = ''servidor'' then Some Servidor_p
              else if nombre = ''puja'' then Some Puja_p
              else None)\<rparr>)"

definition lee_linea :: "string \<Rightarrow> lectura \<Rightarrow> lectura" where
  "lee_linea l t =
     (let linea = trim (first_piece CHR ''#'' l)
      in if linea = [] then t
         else
           (case strip_prefix ''@'' linea of
              Some cab \<Rightarrow> cabecera cab t
            | None \<Rightarrow>
                if le_en_pujadores t then
                  (case strip_prefix ''='' linea of
                     None \<Rightarrow> t
                   | Some resto \<Rightarrow>
                       (case split_whitespace resto of
                          codigo # s # _ \<Rightarrow>
                            let ta = le_tabla t
                            in t\<lparr>le_tabla := ta\<lparr>ta_pujadores :=
                                 or_insert codigo s (ta_pujadores ta)\<rparr>\<rparr>
                        | _ \<Rightarrow> t))
                else
                  (case le_papel t of
                     None \<Rightarrow> t
                   | Some p \<Rightarrow>
                       if CHR ''.'' \<notin> set linea \<or> has_whitespace linea then t
                       else
                         let ta = le_tabla t
                         in t\<lparr>le_tabla := ta\<lparr>ta_nombres :=
                              or_insert linea (p, le_sistema t) (ta_nombres ta)\<rparr>\<rparr>)))"

definition lee_subastas :: "string \<Rightarrow> tabla" where
  "lee_subastas texto =
     le_tabla (fold lee_linea (text_lines texto)
       \<lparr>le_tabla = \<lparr>ta_nombres = [], ta_pujadores = []\<rparr>, le_papel = None,
        le_sistema = None, le_en_pujadores = False\<rparr>)"

text \<open>The name itself, then its parents that still have a dot.\<close>

definition papel_de :: "list_data \<Rightarrow> string \<Rightarrow> rol option" where
  "papel_de d qname =
     (let n = to_ascii_lowercase (trim_end_matches (\<lambda>c. c = CHR ''.'') (trim qname));
          t = ta_nombres (lee_subastas (SUBASTAS d))
      in case find (\<lambda>k. map_of t k \<noteq> None)
             (n # filter (\<lambda>s. CHR ''.'' \<in> set s) (tl (parents n))) of
           None \<Rightarrow> None
         | Some k \<Rightarrow> map_option (\<lambda>(p, s). \<lparr>rol_papel = p, rol_coincide = k, rol_sistema = s\<rparr>) (map_of t k))"

definition sitio_de_pujador :: "list_data \<Rightarrow> string \<Rightarrow> string option" where
  "sitio_de_pujador d codigo =
     map_of (ta_pujadores (lee_subastas (SUBASTAS d))) (to_ascii_lowercase (trim codigo))"

definition subastas_nombres :: "list_data \<Rightarrow> (string \<times> papel) list" where
  "subastas_nombres d = map (\<lambda>(k, p, _). (k, p)) (ta_nombres (lee_subastas (SUBASTAS d)))"

definition cuantos :: "list_data \<Rightarrow> nat \<times> nat" where
  "cuantos d =
     (let t = lee_subastas (SUBASTAS d) in (length (ta_nombres t), length (ta_pujadores t)))"

end
