(* ===== verification/Catalog.thy ===== *)
theory Catalog imports Lists Model "HOL-Library.AList" "HOL-Library.Multiset" begin

text \<open>
  The catalog of \<open>crates/lists/src/lib.rs\<close>: every known domain with its category. The lemmas show
  that a lookup finds the most specific entry, that the category a domain ends up with does not
  depend on the order in which the lists were loaded, and what a name dressed as another is.
\<close>

section \<open>The catalog\<close>

datatype expected_kind = Actualizaciones | Hora | Mensajeria | Videollamada | Certificados |
  Seguridad | Resolutores | Guardiana_k

definition from_section :: "string \<Rightarrow> expected_kind option" where
  "from_section name =
     map_of [(''actualizaciones'', Actualizaciones), (''certificados'', Certificados),
       (''seguridad'', Seguridad), (''hora'', Hora), (''mensajeria'', Mensajeria),
       (''videollamada'', Videollamada), (''resolutores'', Resolutores),
       (''guardiana'', Guardiana_k)] name"

record source_info =
  so_id :: string
  so_name :: string
  so_url :: string
  so_license :: string
  so_attribution :: string
  so_category :: category
  so_format :: format

definition SOURCES :: "source_info list" where
  "SOURCES =
    [\<lparr>so_id = ''easyprivacy'', so_name = ''EasyPrivacy'',
      so_url = ''https://easylist.to/easylist/easyprivacy.txt'',
      so_license = ''GPL-3.0-or-later or CC BY-SA 3.0'',
      so_attribution = ''The EasyList authors, https://easylist.to'',
      so_category = Rastreador, so_format = Abp\<rparr>,
     \<lparr>so_id = ''peterlowe'', so_name = ''Peter Lowe's Ad and tracking server list'',
      so_url = ''https://pgl.yoyo.org/adservers/serverlist.php?hostformat=hosts&showintro=0&mimetype=plaintext'',
      so_license = ''Redistribution permitted by the author (no formal licence)'',
      so_attribution = ''Peter Lowe, https://pgl.yoyo.org/adservers/'',
      so_category = Publicidad, so_format = Hosts\<rparr>]"

definition OWN_SOURCE_ESPERADO :: string where "OWN_SOURCE_ESPERADO = ''guardiana-esperado''"
definition OWN_SOURCE_TELEMETRIA :: string where "OWN_SOURCE_TELEMETRIA = ''guardiana-telemetria''"
definition OWN_SOURCE_SUBASTAS :: string where "OWN_SOURCE_SUBASTAS = ''guardiana-subastas''"

record entry =
  en_category :: category
  en_source :: string
  en_expected :: "expected_kind option"

record match_t =
  ma_category :: category
  ma_source :: string
  ma_matched :: string
  ma_expected :: "expected_kind option"

record catalog =
  ca_entries :: "(string \<times> entry) list"
  ca_evasion :: "string list"

fun rank_of :: "category \<Rightarrow> nat" where
  "rank_of Esperado = 4"
| "rank_of Telemetria = 3"
| "rank_of Rastreador = 2"
| "rank_of Publicidad = 1"
| "rank_of Desconocido = 0"

definition normalize :: "string \<Rightarrow> string" where
  "normalize name = to_ascii_lowercase (trim_end_matches (\<lambda>c. c = CHR ''.'') (trim name))"

definition suffixes_of :: "string \<Rightarrow> string list" where
  "suffixes_of name = filter (\<lambda>s. CHR ''.'' \<in> set s) (parents name)"

definition Catalog_new :: catalog where
  "Catalog_new = \<lparr>ca_entries = [], ca_evasion = []\<rparr>"

definition insert_entry ::
    "string \<Rightarrow> category \<Rightarrow> string \<Rightarrow> expected_kind option \<Rightarrow> catalog \<Rightarrow> catalog" where
  "insert_entry domain category source expected c =
     (let key = normalize domain
      in if key = [] \<or> CHR ''.'' \<notin> set key then c
         else
           let replace = (case map_of (ca_entries c) key of
                 None \<Rightarrow> True | Some e \<Rightarrow> rank_of (en_category e) < rank_of category)
           in if replace
              then c\<lparr>ca_entries := AList.update key
                \<lparr>en_category = category, en_source = source, en_expected = expected\<rparr> (ca_entries c)\<rparr>
              else c)"

definition source_domains :: "source_info \<Rightarrow> string \<Rightarrow> string list" where
  "source_domains source text =
     (case so_format source of
        Abp \<Rightarrow> parse_abp_domains text
      | Hosts \<Rightarrow> parse_hosts text
      | Guardiana_f \<Rightarrow> map snd (parse_guardiana text))"

definition add_source :: "source_info \<Rightarrow> string \<Rightarrow> catalog \<Rightarrow> catalog" where
  "add_source source text c =
     fold (\<lambda>d. insert_entry d (so_category source) (so_id source) None)
       (source_domains source text) c"

definition add_guardiana :: "string \<Rightarrow> category \<Rightarrow> string \<Rightarrow> catalog \<Rightarrow> catalog" where
  "add_guardiana text category source c =
     fold (\<lambda>(section, domain). insert_entry domain category source
         (if category = Esperado then Option.bind section from_section else None))
       (parse_guardiana text) c"

definition add_evasion :: "string \<Rightarrow> catalog \<Rightarrow> catalog" where
  "add_evasion text c =
     fold (\<lambda>(_, domain) c. c\<lparr>ca_evasion := List.insert (normalize domain) (ca_evasion c)\<rparr>)
       (parse_guardiana text) c"

definition bundled :: "list_data \<Rightarrow> catalog" where
  "bundled d =
     fold (\<lambda>(nombre, _). insert_entry nombre Publicidad OWN_SOURCE_SUBASTAS None) (subastas_nombres d)
       (add_evasion (EVASION_DNS d)
         (add_source (SOURCES ! 1) (PETERLOWE d)
           (add_source (SOURCES ! 0) (EASYPRIVACY d)
             (add_guardiana (TELEMETRIA d) Telemetria OWN_SOURCE_TELEMETRIA
               (add_guardiana (ESPERADO d) Esperado OWN_SOURCE_ESPERADO Catalog_new)))))"

definition catalog_lookup :: "catalog \<Rightarrow> string \<Rightarrow> match_t option" where
  "catalog_lookup c name =
     (case find (\<lambda>s. map_of (ca_entries c) s \<noteq> None) (suffixes_of (normalize name)) of
        None \<Rightarrow> None
      | Some suf \<Rightarrow>
          map_option (\<lambda>e. \<lparr>ma_category = en_category e, ma_source = en_source e,
              ma_matched = suf, ma_expected = en_expected e\<rparr>)
            (map_of (ca_entries c) suf))"

definition catalog_category :: "catalog \<Rightarrow> string \<Rightarrow> category" where
  "catalog_category c name =
     (case catalog_lookup c name of None \<Rightarrow> Desconocido | Some m \<Rightarrow> ma_category m)"

definition has_expected_at_or_under :: "catalog \<Rightarrow> string \<Rightarrow> bool" where
  "has_expected_at_or_under c name =
     (let n = normalize name
      in list_ex (\<lambda>(k, e). en_category e = Esperado \<and> (k = n \<or> ends_with (CHR ''.'' # n) k))
           (ca_entries c))"

definition is_evasion_resolver :: "catalog \<Rightarrow> string \<Rightarrow> bool" where
  "is_evasion_resolver c name =
     list_ex (\<lambda>s. s \<in> set (ca_evasion c)) (suffixes_of (normalize name))"

text \<open>Whether \<open>cloaked\<close> calls \<open>alias\<close> a disguise of \<open>qname\<close>.\<close>

definition disguises :: "psl_reglas \<Rightarrow> list_data \<Rightarrow> catalog \<Rightarrow> string \<Rightarrow> string \<Rightarrow> bool" where
  "disguises r d c qname alias \<longleftrightarrow>
     \<not> is_ip alias \<and> sitio r alias \<noteq> sitio r qname \<and>
     catalog_category c alias \<in> {Rastreador, Publicidad, Telemetria} \<and>
     delivery_of d alias = None \<and> hosting_of d alias = None \<and>
     (group_or_company_of d qname = None \<or> group_or_company_of d qname \<noteq> group_or_company_of d alias)"

definition cloaked ::
    "psl_reglas \<Rightarrow> list_data \<Rightarrow> catalog \<Rightarrow> string \<Rightarrow> string list \<Rightarrow> (string \<times> category) option" where
  "cloaked r d c qname chain =
     map_option (\<lambda>alias. (sitio r alias, catalog_category c alias))
       (find (disguises r d c qname) (rev chain))"

definition cloaked_target ::
    "psl_reglas \<Rightarrow> list_data \<Rightarrow> catalog \<Rightarrow> string \<Rightarrow> string list \<Rightarrow> string option" where
  "cloaked_target r d c qname chain = map_option fst (cloaked r d c qname chain)"

definition catalog_len :: "catalog \<Rightarrow> nat" where
  "catalog_len c = length (ca_entries c)"

definition catalog_is_empty :: "catalog \<Rightarrow> bool" where
  "catalog_is_empty c \<longleftrightarrow> ca_entries c = []"

section \<open>The most specific entry\<close>

lemma parents_first: "parents s = s # tl (parents s)"
  using parents.simps [of s] by simp

text \<open>A parent is what follows one of the name's dots, and every such rest is a parent; longer ones
  come first.\<close>

lemma parents_iff: "p \<in> set (parents s) \<longleftrightarrow> p = s \<or> (\<exists>q. s = q @ CHR ''.'' # p)"
proof (induction s rule: parents.induct)
  case (1 s)
  have dot: "split_once ''.'' s = None \<longleftrightarrow> CHR ''.'' \<notin> set s" for s
    by (induction s) (auto split: option.splits)
  have first: "CHR ''.'' \<notin> set a" if "split_once ''.'' s = Some (a, b)" for a b s
    using that by (induction s arbitrary: a) (auto split: option.splits if_splits)
  show ?case
  proof (cases "split_once ''.'' s")
    case None
    then show ?thesis using dot [of s] by (subst parents.simps) auto
  next
    case (Some ab)
    obtain a b where ab: "ab = (a, b)" by (cases ab) auto
    have s: "s = a @ CHR ''.'' # b" using split_once_Some [of "''.''" s a b] Some ab by simp
    have a: "CHR ''.'' \<notin> set a" using first Some ab by simp
    have ih: "p \<in> set (parents b) \<longleftrightarrow> p = b \<or> (\<exists>q. b = q @ CHR ''.'' # p)" using 1 Some ab by simp
    have "(\<exists>q. s = q @ CHR ''.'' # p) \<longleftrightarrow> p = b \<or> (\<exists>q. b = q @ CHR ''.'' # p)"
    proof
      assume "\<exists>q. s = q @ CHR ''.'' # p"
      then obtain q where q: "a @ CHR ''.'' # b = q @ CHR ''.'' # p" using s by auto
      then show "p = b \<or> (\<exists>q. b = q @ CHR ''.'' # p)"
        using a by (auto simp: append_eq_append_conv2 append_eq_Cons_conv Cons_eq_append_conv)
    qed (use s in \<open>auto intro: exI [of _ "a @ CHR ''.'' # _"]\<close>)
    with ih Some ab show ?thesis by (subst parents.simps) auto
  qed
qed

lemma parents_shorter: "p \<in> set (tl (parents s)) \<Longrightarrow> length p < length s"
proof (induction s rule: parents.induct)
  case (1 s)
  show ?case
  proof (cases "split_once ''.'' s")
    case None
    with 1 show ?thesis by (subst (asm) parents.simps) simp
  next
    case (Some ab)
    obtain a b where ab: "ab = (a, b)" by (cases ab) auto
    have s: "s = a @ CHR ''.'' # b" using split_once_Some [of "''.''" s a b] Some ab by simp
    from 1(2) Some ab have "p \<in> set (parents b)" by (subst (asm) parents.simps) simp
    then consider "p = b" | "p \<in> set (tl (parents b))" using parents_first [of b] by (metis set_ConsD)
    then show ?thesis
    proof cases
      case 2
      with 1(1) Some ab s show ?thesis by fastforce
    qed (simp add: s)
  qed
qed

lemma parents_sorted: "sorted_wrt (\<lambda>p q. length q < length p) (parents s)"
proof (induction s rule: parents.induct)
  case (1 s)
  have "sorted_wrt (\<lambda>p q. length q < length p) (tl (parents s))"
  proof (cases "split_once ''.'' s")
    case None
    then show ?thesis by (simp add: parents.simps [of s])
  next
    case (Some ab)
    then show ?thesis using 1 [OF Some prod.collapse] by (simp add: parents.simps [of s] split_beta)
  qed
  then show ?case by (subst parents_first) (simp add: parents_shorter)
qed

lemma suffixes_iff: "p \<in> set (suffixes_of s) \<longleftrightarrow>
    CHR ''.'' \<in> set p \<and> (p = s \<or> ends_with (CHR ''.'' # p) s)"
  by (auto simp: suffixes_of_def parents_iff ends_with_iff)

lemma find_first:
  assumes "find P xs = Some x" "sorted_wrt R xs" "y \<in> set xs" "P y"
  shows "y = x \<or> R x y"
proof -
  from assms(1) obtain i where i: "i < length xs" "P (xs ! i)" "x = xs ! i" "\<And>j. j < i \<Longrightarrow> \<not> P (xs ! j)"
    by (auto simp: find_Some_iff)
  from assms(3) obtain j where j: "j < length xs" "y = xs ! j" by (auto simp: in_set_conv_nth)
  with i assms(4) have "\<not> j < i" by blast
  with i j assms(2) show ?thesis by (cases "i = j") (auto simp: sorted_wrt_iff_nth_less)
qed

text \<open>C21: a lookup finds the most specific entry. It answers nothing exactly when neither the name nor
  a parent of it with a dot is listed; otherwise the entry it answers with is the name or a parent,
  and every listed parent is no longer than it.\<close>

theorem lookup_is_most_specific:
  "case catalog_lookup c name of
     None \<Rightarrow> filter (\<lambda>s. map_of (ca_entries c) s \<noteq> None) (suffixes_of (normalize name)) = []
   | Some m \<Rightarrow>
       ma_matched m \<in> set (suffixes_of (normalize name)) \<and>
       map_option en_category (map_of (ca_entries c) (ma_matched m)) = Some (ma_category m) \<and>
       list_all (\<lambda>s. map_of (ca_entries c) s = None \<or> length s \<le> length (ma_matched m))
         (suffixes_of (normalize name))"
proof (cases "find (\<lambda>s. map_of (ca_entries c) s \<noteq> None) (suffixes_of (normalize name))")
  case None
  then have "catalog_lookup c name = None" by (simp only: catalog_lookup_def option.case)
  with None show ?thesis by (auto simp: find_None_iff filter_empty_conv)
next
  case (Some k)
  then obtain e where e: "map_of (ca_entries c) k = Some e" by (auto simp: find_Some_iff)
  have k: "k \<in> set (suffixes_of (normalize name))" using Some by (auto simp: find_Some_iff)
  have "sorted_wrt (\<lambda>p q. length q < length p) (suffixes_of (normalize name))"
    unfolding suffixes_of_def by (intro sorted_wrt_filter parents_sorted)
  from find_first [OF Some this] have
    "list_all (\<lambda>s. map_of (ca_entries c) s = None \<or> length s \<le> length k) (suffixes_of (normalize name))"
    by (fastforce simp: list_all_iff)
  with Some e k show ?thesis by (simp add: catalog_lookup_def)
qed

section \<open>The order of the lists does not matter\<close>

definition cats :: "catalog \<Rightarrow> (string \<rightharpoonup> category)" where
  "cats c k = map_option en_category (map_of (ca_entries c) k)"

definition upd_cat :: "string \<Rightarrow> category \<Rightarrow> (string \<rightharpoonup> category) \<Rightarrow> (string \<rightharpoonup> category)" where
  "upd_cat d g f =
     (if normalize d = [] \<or> CHR ''.'' \<notin> set (normalize d) then f
      else
        case f (normalize d) of
          None \<Rightarrow> f(normalize d \<mapsto> g)
        | Some h \<Rightarrow> if rank_of h < rank_of g then f(normalize d \<mapsto> g) else f)"

lemma cats_insert: "cats (insert_entry d g s e c) = upd_cat d g (cats c)"
  by (auto simp: insert_entry_def upd_cat_def cats_def Let_def fun_eq_iff update_conv'
      split: option.splits)

lemma rank_inj: "rank_of g = rank_of h \<Longrightarrow> g = h"
  by (cases g; cases h) auto

lemma upd_cat_commute: "upd_cat d g (upd_cat d' g' f) = upd_cat d' g' (upd_cat d g f)"
proof (cases "normalize d = normalize d'")
  case False
  then show ?thesis by (auto simp: upd_cat_def fun_upd_twist split: option.splits)
next
  case True
  then show ?thesis
    by (auto simp: upd_cat_def fun_eq_iff dest: rank_inj split: option.splits)
qed

lemma catalog_category_cats:
  "catalog_category c name =
     (case find (\<lambda>s. cats c s \<noteq> None) (suffixes_of (normalize name)) of
        None \<Rightarrow> Desconocido | Some k \<Rightarrow> the (cats c k))"
proof -
  have eq: "(\<lambda>s. cats c s \<noteq> None) = (\<lambda>s. map_of (ca_entries c) s \<noteq> None)"
    by (auto simp: cats_def)
  then show ?thesis
  proof (cases "find (\<lambda>s. cats c s \<noteq> None) (suffixes_of (normalize name))")
    case None
    with eq show ?thesis by (simp only: catalog_category_def catalog_lookup_def option.case)
  next
    case (Some k)
    then obtain e where "map_of (ca_entries c) k = Some e" by (auto simp: find_Some_iff cats_def)
    with Some eq show ?thesis
      by (simp only: catalog_category_def catalog_lookup_def option.case cats_def option.map)
        simp
  qed
qed

text \<open>One entry of a list: the domain, its category, the list and what it is expected for.\<close>

definition load :: "(string \<times> category \<times> string \<times> expected_kind option) list \<Rightarrow> catalog \<Rightarrow> catalog" where
  "load xs c = fold (\<lambda>(d, g, s, e). insert_entry d g s e) xs c"

lemma cats_load: "cats (load xs c) = fold (\<lambda>(d, g, s, e). upd_cat d g) xs (cats c)"
  unfolding load_def by (induction xs arbitrary: c) (auto simp: cats_insert)

text \<open>The order in which lists are loaded does not matter. The same entries, inserted in any
  order, give every name the same category.\<close>

theorem load_order_does_not_matter:
  assumes "mset xs = mset ys"
  shows "catalog_category (load xs c) name = catalog_category (load ys c) name"
proof -
  have "fold (\<lambda>(d, g, s, e). upd_cat d g) xs = fold (\<lambda>(d, g, s, e). upd_cat d g) ys"
    using assms by (intro fold_multiset_equiv) (auto simp: fun_eq_iff upd_cat_commute)
  then have "cats (load xs c) = cats (load ys c)" by (simp add: cats_load)
  then show ?thesis by (simp only: catalog_category_cats)
qed

theorem load_order_does_not_matter_witness:
  "catalog_category (load [(''a.b'', Publicidad, ''x'', None), (''a.b'', Rastreador, ''y'', None)] Catalog_new) ''c.a.b'' =
   catalog_category (load [(''a.b'', Rastreador, ''y'', None), (''a.b'', Publicidad, ''x'', None)] Catalog_new) ''c.a.b''"
  by (rule load_order_does_not_matter) simp

section \<open>What a list writes is known\<close>

lemma guardiana_domains: "e \<in> set (guardiana_lines sec ls) \<Longrightarrow> looks_like_domain (snd e)"
  by (induction sec ls rule: guardiana_lines.induct)
    (auto simp: Let_def split: if_splits option.splits)

lemma map_filter_mem: "d \<in> set (List.map_filter f xs) \<Longrightarrow> \<exists>x. f x = Some d"
  by (auto simp: map_filter_def)

lemma abp_line_look: "abp_line l = Some d \<Longrightarrow> looks_like_domain d"
  by (auto simp: abp_line_def split: option.splits if_splits)

lemma hosts_line_look: "hosts_line l = Some d \<Longrightarrow> looks_like_domain d"
  by (auto simp: hosts_line_def split: list.splits if_splits)

lemma source_domains_look: "d \<in> set (source_domains so text) \<Longrightarrow> looks_like_domain d"
  by (auto simp: source_domains_def parse_abp_domains_def parse_hosts_def parse_guardiana_def
      dest!: map_filter_mem abp_line_look hosts_line_look guardiana_domains split: format.splits)

lemma domain_char_plain: "is_domain_char c \<Longrightarrow> 32 < char_code c \<and> char_code c < 128"
  by (auto simp: is_domain_char_def is_ascii_lowercase_def is_ascii_uppercase_def is_ascii_digit_def)

lemma lower_dot: "CHR ''.'' \<in> set s \<Longrightarrow> CHR ''.'' \<in> set (to_ascii_lowercase s)"
proof -
  assume "CHR ''.'' \<in> set s"
  then have "ascii_lower CHR ''.'' \<in> set (to_ascii_lowercase s)" by (simp add: to_ascii_lowercase_def)
  then show ?thesis by (simp add: ascii_lower_def is_ascii_uppercase_def)
qed

lemma domain_normalized: "looks_like_domain d \<Longrightarrow> CHR ''.'' \<in> set (normalize d)"
proof -
  assume d: "looks_like_domain d"
  then have ne: "d \<noteq> []" and dot: "CHR ''.'' \<in> set d" and chars: "\<forall>c \<in> set d. is_domain_char c"
    and last: "\<not> ends_with ''.'' d" by (auto simp: looks_like_domain_def list_all_iff)
  have "trim d = d" using ne chars domain_char_plain by (intro trim_plain) auto
  moreover have "last d \<noteq> CHR ''.''"
    using last ne by (metis append_butlast_last_id ends_with_iff)
  then have "trim_end_matches (\<lambda>c. c = CHR ''.'') d = d" by (intro trim_end_matches_id) simp
  ultimately show ?thesis using dot by (simp add: normalize_def lower_dot)
qed

definition cat_rank :: "(string \<rightharpoonup> category) \<Rightarrow> string \<Rightarrow> nat option" where
  "cat_rank f k = map_option rank_of (f k)"

lemma upd_cat_grows: "cat_rank f k = Some n \<Longrightarrow> \<exists>m \<ge> n. cat_rank (upd_cat d g f) k = Some m"
  by (auto simp: upd_cat_def cat_rank_def split: option.splits)

lemma upd_cat_has: "CHR ''.'' \<in> set (normalize d) \<Longrightarrow>
    \<exists>m \<ge> rank_of g. cat_rank (upd_cat d g f) (normalize d) = Some m"
  by (auto simp: upd_cat_def cat_rank_def split: option.splits)

lemma fold_upd_grows:
  "cat_rank f k = Some n \<Longrightarrow> \<exists>m \<ge> n. cat_rank (fold (\<lambda>d. upd_cat d g) ds f) k = Some m"
proof (induction ds arbitrary: f n)
  case (Cons d ds)
  from upd_cat_grows [OF Cons.prems] obtain m where "m \<ge> n" "cat_rank (upd_cat d g f) k = Some m" by blast
  with Cons.IH [OF this(2)] show ?case by (auto intro: le_trans)
qed auto

lemma fold_upd_has:
  "d \<in> set ds \<Longrightarrow> CHR ''.'' \<in> set (normalize d) \<Longrightarrow>
   \<exists>m \<ge> rank_of g. cat_rank (fold (\<lambda>d. upd_cat d g) ds f) (normalize d) = Some m"
proof (induction ds arbitrary: f)
  case (Cons x ds)
  show ?case
  proof (cases "d = x")
    case True
    from upd_cat_has [OF Cons.prems(2), of g f] obtain m where
      "m \<ge> rank_of g" "cat_rank (upd_cat d g f) (normalize d) = Some m" by blast
    with fold_upd_grows [OF this(2), of g ds] True show ?thesis by (auto intro: le_trans)
  next
    case False
    with Cons show ?thesis by simp
  qed
qed simp

lemma cats_add_source:
  "cats (add_source so text c) = fold (\<lambda>d. upd_cat d (so_category so)) (source_domains so text) (cats c)"
proof -
  have "cats (fold (\<lambda>d. insert_entry d g s e) ds c) = fold (\<lambda>d. upd_cat d g) ds (cats c)" for g s e ds
    by (induction ds arbitrary: c) (auto simp: cats_insert)
  then show ?thesis by (simp add: add_source_def)
qed

text \<open>What a list writes is known. Every domain the parser takes from a third-party list has,
  once the list is loaded, a category that ranks at least as high as the list's, whatever was
  loaded before.\<close>

theorem listed_names_are_known:
  assumes "d \<in> set (source_domains so text)"
  shows "rank_of (so_category so) \<le> rank_of (catalog_category (add_source so text c) d)"
proof -
  let ?c = "add_source so text c"
  have dot: "CHR ''.'' \<in> set (normalize d)"
    using source_domains_look [OF assms] by (rule domain_normalized)
  from fold_upd_has [OF assms dot, of "so_category so" "cats c"] obtain g where
    g: "cats ?c (normalize d) = Some g" "rank_of (so_category so) \<le> rank_of g"
    by (auto simp: cats_add_source cat_rank_def)
  have "suffixes_of (normalize d) = normalize d # filter (\<lambda>s. CHR ''.'' \<in> set s) (tl (parents (normalize d)))"
    unfolding suffixes_of_def by (subst parents_first) (simp add: dot)
  then have "catalog_category ?c d = g" using g(1) by (simp add: catalog_category_cats)
  with g(2) show ?thesis by simp
qed

theorem listed_names_are_known_witness:
  "rank_of Publicidad \<le> rank_of (catalog_category (add_source (SOURCES ! 1) ''0.0.0.0 ads.com'' Catalog_new) ''ads.com'')"
proof -
  have "''ads.com'' \<in> set (source_domains (SOURCES ! 1) ''0.0.0.0 ads.com'')" by code_simp
  from listed_names_are_known [OF this, of Catalog_new] show ?thesis by (simp add: SOURCES_def)
qed

end
