(* ===== verification/Signals.thy ===== *)
theory Signals imports Catalog Calendar begin

text \<open>
  The signals of a query, \<open>crates/classify/src/signals.rs\<close> and \<open>lib.rs\<close>: the history kept of each
  device, and what fires on one query. Times are milliseconds, integers; a \<open>u32\<close> counter is a
  natural number that saturates where the code saturates. A device's queues of times are an
  association list from the name, and a \<open>VecDeque\<close> is the list of its elements, oldest first. JSON
  is the \<open>serde\<close> crates': the profiles go in and out as values.
\<close>

section \<open>State\<close>

record thresholds =
  beacon_min_span_ms :: int
  beacon_tolerance_percent :: int
  beacon_min_samples :: nat
  profile_learn_days :: int
  volume_factor :: nat
  volume_floor :: nat
  volume_history_hours :: nat

definition default_thresholds :: thresholds where
  "default_thresholds = \<lparr>beacon_min_span_ms = 30 * 60 * 1000, beacon_tolerance_percent = 20,
     beacon_min_samples = 4, profile_learn_days = 3, volume_factor = 5, volume_floor = 300,
     volume_history_hours = 24\<rparr>"

record hours_profile =
  hp_counts :: "nat list"
  hp_first_ts :: "int option"
  hp_total :: nat

definition empty_profile :: hours_profile where
  "empty_profile = \<lparr>hp_counts = replicate 24 0, hp_first_ts = None, hp_total = 0\<rparr>"

definition U32_MAX :: nat where "U32_MAX = 2 ^ 32 - 1"

definition hour_of :: "int \<Rightarrow> nat" where
  "hour_of ts = nat (ts mod DAY_MS div HOUR_MS)"

definition learned :: "hours_profile \<Rightarrow> int \<Rightarrow> int \<Rightarrow> bool" where
  "learned hp now learn_days \<longleftrightarrow>
     (case hp_first_ts hp of None \<Rightarrow> False | Some first \<Rightarrow> learn_days * DAY_MS \<le> now - first)"

definition is_unusual :: "hours_profile \<Rightarrow> int \<Rightarrow> bool" where
  "is_unusual hp ts \<longleftrightarrow> hp_counts hp ! hour_of ts = 0"

definition record_hour :: "int \<Rightarrow> hours_profile \<Rightarrow> hours_profile" where
  "record_hour ts hp =
     (let h = hour_of ts in
      hp\<lparr>hp_first_ts := (case hp_first_ts hp of None \<Rightarrow> Some ts | Some f \<Rightarrow> Some f),
         hp_counts := (hp_counts hp)[h := min (hp_counts hp ! h + 1) U32_MAX],
         hp_total := hp_total hp + 1\<rparr>)"

definition SAME_CONTACT_MS :: int where "SAME_CONTACT_MS = 2000"
definition BEACON_WINDOW :: nat where "BEACON_WINDOW = 64"
definition MAX_NAMES_PER_DEVICE :: nat where "MAX_NAMES_PER_DEVICE = 5000"

record device_state =
  ds_recent :: "(string \<times> int list) list"
  ds_hour_index :: "int option"
  ds_hour_count :: nat
  ds_completed_hours :: "nat list"
  ds_profile :: hours_profile
  ds_profile_dirty :: bool

definition empty_state :: device_state where
  "empty_state = \<lparr>ds_recent = [], ds_hour_index = None, ds_hour_count = 0,
     ds_completed_hours = [], ds_profile = empty_profile, ds_profile_dirty = False\<rparr>"

section \<open>The beacon\<close>

definition same_contact :: "int \<Rightarrow> int \<Rightarrow> bool" where
  "same_contact previous ts \<longleftrightarrow> ts - previous < SAME_CONTACT_MS"

text \<open>\<open>windows(2)\<close> and the difference of each pair.\<close>

fun differences :: "int list \<Rightarrow> int list" where
  "differences (a # b # xs) = (b - a) # differences (b # xs)"
| "differences _ = []"

definition contacts_of :: "int list \<Rightarrow> int list" where
  "contacts_of qs =
     foldl (\<lambda>cs ts. if cs \<noteq> [] \<and> same_contact (last cs) ts then cs else cs @ [ts]) [] qs"

definition contact_intervals :: "int list \<Rightarrow> int list" where
  "contact_intervals qs = sort (differences (contacts_of qs))"

definition median_of_sorted :: "'a list \<Rightarrow> 'a option" where
  "median_of_sorted xs = get_at xs (length xs div 2)"

definition minutes_of :: "int \<Rightarrow> int" where
  "minutes_of median = max ((median + 30000) sdiv 60000) 1"

definition regular_period :: "thresholds \<Rightarrow> int list \<Rightarrow> nat option" where
  "regular_period t qs =
     (if length qs < beacon_min_samples t then None
      else
        let span = last qs - hd qs
        in if span < beacon_min_span_ms t then None
           else
             let intervals = sort (differences qs)
             in case median_of_sorted intervals of
                  None \<Rightarrow> None
                | Some median \<Rightarrow>
                    if median \<le> 0 then None
                    else
                      let tolerance = (median * beacon_tolerance_percent t) sdiv 100
                      in if \<not> list_all (\<lambda>i. \<bar>i - median\<bar> \<le> tolerance) intervals then None
                         else if minutes_of median < 2 ^ 32 then Some (nat (minutes_of median))
                         else None)"

fun first_period :: "thresholds \<Rightarrow> int list \<Rightarrow> nat list \<Rightarrow> nat option" where
  "first_period t xs [] = None"
| "first_period t xs (w # ws) =
     (if length xs < w \<or> w < beacon_min_samples t then first_period t xs ws
      else
        case regular_period t (drop (length xs - w) xs) of
          Some p \<Rightarrow> Some p
        | None \<Rightarrow> first_period t xs ws)"

text \<open>The names kept when a new one finds the device full.\<close>

definition retain_recent :: "string \<Rightarrow> int \<Rightarrow> (string \<times> int list) list \<Rightarrow> (string \<times> int list) list" where
  "retain_recent name ts recent =
     (if MAX_NAMES_PER_DEVICE \<le> length recent \<and> map_of recent name = None
      then filter (\<lambda>(_, qs). qs \<noteq> [] \<and> ts - 2 * HOUR_MS \<le> last qs) recent
      else recent)"

text \<open>\<open>while q.len() > n { q.pop_front(); }\<close>, and the times kept of the name once the query is one
  more contact.\<close>

definition keep_last :: "nat \<Rightarrow> 'a list \<Rightarrow> 'a list" where
  "keep_last n xs = drop (length xs - n) xs"

definition add_contact :: "int list \<Rightarrow> int \<Rightarrow> int list" where
  "add_contact qs ts = keep_last BEACON_WINDOW (qs @ [ts])"

definition kept_times :: "string \<Rightarrow> (string \<times> int list) list \<Rightarrow> int list" where
  "kept_times name recent = (case map_of recent name of None \<Rightarrow> [] | Some q \<Rightarrow> q)"

definition beacon :: "string \<Rightarrow> int \<Rightarrow> thresholds \<Rightarrow> device_state \<Rightarrow> nat option \<times> device_state" where
  "beacon name ts t st =
     (let recent = retain_recent name ts (ds_recent st);
          qs = kept_times name recent
      in if qs \<noteq> [] \<and> same_contact (last qs) ts
         then (None, st\<lparr>ds_recent := recent\<rparr>)
         else
           let qs = add_contact qs ts
           in (first_period t qs [length qs, 16, 8, beacon_min_samples t],
               st\<lparr>ds_recent := AList.update name qs recent\<rparr>))"

section \<open>Hours and volume\<close>

definition off_hours :: "int \<Rightarrow> thresholds \<Rightarrow> device_state \<Rightarrow> bool \<times> device_state" where
  "off_hours ts t st =
     (learned (ds_profile st) ts (profile_learn_days t) \<and> is_unusual (ds_profile st) ts,
      st\<lparr>ds_profile := record_hour ts (ds_profile st), ds_profile_dirty := True\<rparr>)"

text \<open>The hour of the query is opened; the one before it, and the empty ones between, are complete.\<close>

definition roll_hour :: "int \<Rightarrow> thresholds \<Rightarrow> device_state \<Rightarrow> device_state" where
  "roll_hour index t st =
     (case ds_hour_index st of
        None \<Rightarrow> st\<lparr>ds_hour_index := Some index\<rparr>
      | Some current \<Rightarrow>
          if current = index then st
          else
            let gap = nat (min (max (index - current - 1) 0) 24);
                done = ds_completed_hours st @ [ds_hour_count st] @ replicate gap 0
            in st\<lparr>ds_completed_hours := keep_last (volume_history_hours t) done,
                  ds_hour_index := Some index, ds_hour_count := 0\<rparr>)"

definition volume :: "int \<Rightarrow> thresholds \<Rightarrow> device_state \<Rightarrow> bool \<times> device_state" where
  "volume ts t st =
     (let st = roll_hour (ts div HOUR_MS) t st;
          st = st\<lparr>ds_hour_count := min (ds_hour_count st + 1) U32_MAX\<rparr>
      in if length (ds_completed_hours st) < 3 then (False, st)
         else
           let sorted = sort (filter (\<lambda>n. 0 < n) (ds_completed_hours st))
           in if length sorted < 3 then (False, st)
              else
                let median = sorted ! (length sorted div 2);
                    limit = max (min (median * volume_factor t) U32_MAX) (volume_floor t)
                in (limit < ds_hour_count st, st))"

section \<open>Classifying\<close>

record input_t =
  in_device_id :: string
  in_name :: string
  in_ts :: int
  in_first_time :: bool

record classified =
  cl_category :: category
  cl_list_source :: string
  cl_matched :: "string option"
  cl_expected :: "expected_kind option"
  cl_signals :: "signal list"

record classifier =
  cf_catalog :: catalog
  cf_thresholds :: thresholds
  cf_devices :: "(string \<times> device_state) list"

definition with_thresholds :: "catalog \<Rightarrow> thresholds \<Rightarrow> classifier" where
  "with_thresholds c t = \<lparr>cf_catalog = c, cf_thresholds = t, cf_devices = []\<rparr>"

definition classifier_new :: "catalog \<Rightarrow> classifier" where
  "classifier_new c = with_thresholds c default_thresholds"

definition state_of :: "string \<Rightarrow> classifier \<Rightarrow> device_state" where
  "state_of device cf = (case map_of (cf_devices cf) device of None \<Rightarrow> empty_state | Some s \<Rightarrow> s)"

definition put_state :: "string \<Rightarrow> device_state \<Rightarrow> classifier \<Rightarrow> classifier" where
  "put_state device s cf = cf\<lparr>cf_devices := AList.update device s (cf_devices cf)\<rparr>"

definition load_profile :: "string \<Rightarrow> hours_profile \<Rightarrow> classifier \<Rightarrow> classifier" where
  "load_profile device p cf = put_state device ((state_of device cf)\<lparr>ds_profile := p\<rparr>) cf"

definition take_dirty_profiles :: "classifier \<Rightarrow> (string \<times> hours_profile) list \<times> classifier" where
  "take_dirty_profiles cf =
     (map (\<lambda>(id, s). (id, ds_profile s)) (filter (\<lambda>(_, s). ds_profile_dirty s) (cf_devices cf)),
      cf\<lparr>cf_devices := map (\<lambda>(id, s). (id, s\<lparr>ds_profile_dirty := False\<rparr>)) (cf_devices cf)\<rparr>)"

definition classify :: "input_t \<Rightarrow> classifier \<Rightarrow> classified \<times> classifier" where
  "classify i cf =
     (let t = cf_thresholds cf;
          (b, s1) = beacon (in_name i) (in_ts i) t (state_of (in_device_id i) cf);
          (off, s2) = off_hours (in_ts i) t s1;
          (vol, s3) = volume (in_ts i) t s2;
          signals = (case b of None \<Rightarrow> [] | Some m \<Rightarrow> [Baliza (of_nat m)]) @
            (if in_first_time i then [DestinoNuevo] else []) @
            (if off then [FueraDeHoras] else []) @
            (if is_evasion_resolver (cf_catalog cf) (in_name i) then [EvasionDns] else []) @
            (if vol then [Volumen] else [])
      in (case catalog_lookup (cf_catalog cf) (in_name i) of
            Some m \<Rightarrow> \<lparr>cl_category = ma_category m, cl_list_source = ma_source m,
              cl_matched = Some (ma_matched m), cl_expected = ma_expected m, cl_signals = signals\<rparr>
          | None \<Rightarrow> \<lparr>cl_category = Desconocido, cl_list_source = [], cl_matched = None,
              cl_expected = None, cl_signals = signals\<rparr>,
          put_state (in_device_id i) s3 cf))"

end
