(* ===== verification/Signals_Facts.thy ===== *)
theory Signals_Facts imports Signals begin

text \<open>
  What the signals promise: a beacon is only called one when the times really are regular and span
  long enough, a regular one is always found, the folded contacts are apart, an hour is only called
  heavy when it is, and the history kept of a device never grows past its bounds.
\<close>

section \<open>Contacts\<close>

fun apart :: "int \<Rightarrow> int list \<Rightarrow> bool" where
  "apart d (a # b # xs) \<longleftrightarrow> d \<le> b - a \<and> apart d (b # xs)"
| "apart d _ = True"

lemma apart_snoc: "apart d (xs @ [x]) \<longleftrightarrow> apart d xs \<and> (xs = [] \<or> d \<le> x - last xs)"
  by (induction d xs rule: apart.induct) auto

lemma apart_differences: "apart d xs \<Longrightarrow> list_all (\<lambda>i. d \<le> i) (differences xs)"
  by (induction d xs rule: apart.induct) auto

lemma contacts_apart: "apart SAME_CONTACT_MS (contacts_of qs)"
  unfolding contacts_of_def
  by (rule foldl_inv) (auto simp: apart_snoc same_contact_def)

text \<open>Folding leaves contacts. Whatever series of query times it is given, the intervals
  \<open>contact_intervals\<close> returns are in ascending order and none is shorter than the two seconds in
  which one call asks a name several ways.\<close>

theorem folded_contacts_are_apart:
  "sorted (contact_intervals qs) \<and> list_all (\<lambda>i. 2000 \<le> i) (contact_intervals qs)"
proof -
  have "list_all (\<lambda>i. SAME_CONTACT_MS \<le> i) (differences (contacts_of qs))"
    by (rule apart_differences [OF contacts_apart])
  then show ?thesis by (simp add: contact_intervals_def list_all_iff SAME_CONTACT_MS_def)
qed

section \<open>No beacon without regularity\<close>

text \<open>The times are regular around \<open>median\<close>: long enough, and every interval within the tolerance.\<close>

definition regular :: "thresholds \<Rightarrow> int \<Rightarrow> int list \<Rightarrow> bool" where
  "regular t median qs \<longleftrightarrow>
     beacon_min_samples t \<le> length qs \<and> beacon_min_span_ms t \<le> last qs - hd qs \<and> 0 < median \<and>
     median \<in> set (differences qs) \<and>
     list_all (\<lambda>i. \<bar>i - median\<bar> \<le> (median * beacon_tolerance_percent t) sdiv 100) (differences qs)"

lemma regular_period_sound:
  "regular_period t qs = Some m \<Longrightarrow> \<exists>median. regular t median qs \<and> m = nat (minutes_of median)"
proof -
  assume r: "regular_period t qs = Some m"
  then obtain median where md: "median_of_sorted (sort (differences qs)) = Some median"
    by (auto simp: regular_period_def Let_def split: if_splits option.splits)
  then have "median \<in> set (sort (differences qs))"
    unfolding median_of_sorted_def get_at_Some by (metis nth_mem)
  with r md show ?thesis
    by (intro exI [of _ median])
      (auto simp: regular_period_def regular_def Let_def list_all_iff split: if_splits)
qed

lemma first_period_sound:
  "first_period t qs ws = Some m \<Longrightarrow> \<exists>k median. regular t median (drop k qs) \<and> m = nat (minutes_of median)"
proof (induction ws)
  case (Cons w ws)
  show ?case
  proof (cases "first_period t qs ws = Some m")
    case False
    with Cons.prems have "regular_period t (drop (length qs - w) qs) = Some m"
      by (auto split: if_splits option.splits)
    from regular_period_sound [OF this] show ?thesis by blast
  qed (rule Cons.IH)
qed simp

definition times_of :: "string \<Rightarrow> device_state \<Rightarrow> int list" where
  "times_of name st = kept_times name (ds_recent st)"

lemma kept_update [simp]: "kept_times name (AList.update name qs recent) = qs"
  by (simp add: kept_times_def update_conv')

lemma beacon_new_contact:
  assumes "kept_times name (retain_recent name ts (ds_recent st)) = qs"
    and "qs = [] \<or> \<not> same_contact (last qs) ts"
  shows "beacon name ts t st =
    (first_period t (add_contact qs ts) [length (add_contact qs ts), 16, 8, beacon_min_samples t],
     st\<lparr>ds_recent := AList.update name (add_contact qs ts) (retain_recent name ts (ds_recent st))\<rparr>)"
  using assms by (auto simp: beacon_def Let_def)

lemma beacon_Some:
  assumes "beacon name ts t st = (Some m, st')"
  shows "first_period t (times_of name st')
    [length (times_of name st'), 16, 8, beacon_min_samples t] = Some m"
proof -
  define qs where "qs = kept_times name (retain_recent name ts (ds_recent st))"
  have "qs = [] \<or> \<not> same_contact (last qs) ts"
    using assms by (auto simp: beacon_def Let_def qs_def)
  from beacon_new_contact [OF qs_def [symmetric] this, of t] assms
  have "first_period t (add_contact qs ts) [length (add_contact qs ts), 16, 8, beacon_min_samples t] = Some m"
    and "st' = st\<lparr>ds_recent := AList.update name (add_contact qs ts) (retain_recent name ts (ds_recent st))\<rparr>"
    by simp_all
  moreover from this(2) have "times_of name st' = add_contact qs ts" by (simp add: times_of_def)
  ultimately show ?thesis by (simp only:)
qed

text \<open>No beacon without regularity. When a query is called a beacon of \<open>m\<close> minutes, the times
  kept for that name end in at least four that span half an hour or more, with every interval
  within a fifth of one of them, and \<open>m\<close> is that interval in minutes.\<close>

theorem beacon_is_regular:
  assumes "beacon name ts default_thresholds st = (Some m, st')"
  shows "\<exists>k median. regular default_thresholds median (drop k (times_of name st')) \<and>
    m = nat (minutes_of median)"
proof -
  from first_period_sound [OF beacon_Some [OF assms]] show ?thesis .
qed

section \<open>A regular beacon is found\<close>

definition ask_all :: "thresholds \<Rightarrow> string \<Rightarrow> int list \<Rightarrow> device_state \<Rightarrow> nat option \<times> device_state" where
  "ask_all t name qs st = foldl (\<lambda>(_, st) ts. beacon name ts t st) (None, st) qs"

lemma ask_all_snoc:
  "ask_all t name (qs @ [ts]) st = beacon name ts t (snd (ask_all t name qs st))"
  by (simp add: ask_all_def split_beta)

lemma retain_name [simp]: "map_of (retain_recent name ts r) name = map_of r name"
proof (cases "MAX_NAMES_PER_DEVICE \<le> length r \<and> map_of r name = None")
  case True
  then have "name \<notin> fst ` set r" by (simp add: map_of_eq_None_iff)
  then have "map_of (filter (\<lambda>(_, qs). qs \<noteq> [] \<and> ts - 2 * HOUR_MS \<le> last qs) r) name = None"
    by (auto simp: map_of_eq_None_iff)
  with True show ?thesis by (simp add: retain_recent_def)
next
  case False
  then show ?thesis by (simp only: retain_recent_def if_False)
qed

lemma kept_retain [simp]: "kept_times name (retain_recent name ts r) = kept_times name r"
  by (simp add: kept_times_def)

lemma differences_snoc: "differences (xs @ [x]) = (if xs = [] then [] else differences xs @ [x - last xs])"
  by (induction xs rule: differences.induct) simp_all

lemma length_differences: "length (differences xs) = length xs - 1"
  by (induction xs rule: differences.induct) auto

lemma differences_drop: "set (differences (drop k xs)) \<subseteq> set (differences xs)"
proof (induction k arbitrary: xs)
  case (Suc k)
  have "set (differences (tl xs)) \<subseteq> set (differences xs)" by (cases xs rule: differences.cases) auto
  with Suc.IH [of "tl xs"] show ?case unfolding drop_Suc by blast
qed simp

lemma sorted_differences: "\<forall>d \<in> set (differences xs). 0 \<le> d \<Longrightarrow> sorted xs"
  by (induction xs rule: differences.induct) auto

lemma keep_last_snoc: "keep_last n (keep_last n xs @ [x]) = keep_last n (xs @ [x])"
proof (cases "length xs \<le> n")
  case False
  then have "length xs + 1 - n = Suc (length xs - n)" by simp
  then show ?thesis using False by (cases n) (simp_all add: keep_last_def drop_Suc tl_drop tl_append)
qed (simp add: keep_last_def)

lemma last_keep: "0 < n \<Longrightarrow> xs \<noteq> [] \<Longrightarrow> last (keep_last n xs) = last xs"
  by (cases xs) (auto simp: keep_last_def last_drop)

lemma ask_apart:
  assumes "map_of (ds_recent st) name = None" "\<forall>d \<in> set (differences qs). 2000 \<le> d"
  shows "times_of name (snd (ask_all t name qs st)) = keep_last BEACON_WINDOW qs \<and>
    (qs \<noteq> [] \<longrightarrow> fst (ask_all t name qs st) =
       first_period t (keep_last BEACON_WINDOW qs)
         [length (keep_last BEACON_WINDOW qs), 16, 8, beacon_min_samples t])"
  using assms(2)
proof (induction qs rule: rev_induct)
  case Nil
  show ?case using assms(1) by (simp add: ask_all_def times_of_def kept_times_def keep_last_def)
next
  case (snoc ts qs)
  let ?st = "snd (ask_all t name qs st)"
  have "\<forall>d \<in> set (differences qs). 2000 \<le> d" "qs \<noteq> [] \<longrightarrow> 2000 \<le> ts - last qs"
    using snoc.prems by (auto simp: differences_snoc split: if_splits)
  with snoc.IH have ih: "times_of name ?st = keep_last BEACON_WINDOW qs"
    and far: "qs \<noteq> [] \<longrightarrow> 2000 \<le> ts - last qs" by simp_all
  have "kept_times name (retain_recent name ts (ds_recent ?st)) = keep_last BEACON_WINDOW qs"
    using ih by (simp add: times_of_def)
  moreover have "keep_last BEACON_WINDOW qs = [] \<or> \<not> same_contact (last (keep_last BEACON_WINDOW qs)) ts"
    using far last_keep [of BEACON_WINDOW qs]
    by (cases "qs = []") (auto simp: keep_last_def same_contact_def SAME_CONTACT_MS_def BEACON_WINDOW_def)
  ultimately have "beacon name ts t ?st =
      (first_period t (add_contact (keep_last BEACON_WINDOW qs) ts)
         [length (add_contact (keep_last BEACON_WINDOW qs) ts), 16, 8, beacon_min_samples t],
       ?st\<lparr>ds_recent := AList.update name (add_contact (keep_last BEACON_WINDOW qs) ts)
         (retain_recent name ts (ds_recent ?st))\<rparr>)"
    by (rule beacon_new_contact)
  then show ?case by (simp add: ask_all_snoc times_of_def add_contact_def keep_last_snoc)
qed

text \<open>Intervals of \<open>p\<close> or up to a fifth more are all within tolerance of their median.\<close>

lemma regular_period_within:
  assumes "\<forall>d \<in> set (differences qs). p \<le> d \<and> 5 * d \<le> 6 * p" "0 < p" "4 \<le> length qs"
    and "30 * 60 * 1000 \<le> last qs - hd qs" "\<And>m. p \<le> m \<Longrightarrow> 5 * m \<le> 6 * p \<Longrightarrow> minutes_of m < 2 ^ 32"
  shows "\<exists>m. regular_period default_thresholds qs = Some (nat (minutes_of m)) \<and> p \<le> m \<and> 5 * m \<le> 6 * p"
proof -
  let ?is = "sort (differences qs)"
  have l: "length ?is div 2 < length ?is" using assms(3) by (simp add: length_differences)
  define m where "m = ?is ! (length ?is div 2)"
  from nth_mem [OF l] have "m \<in> set ?is" by (simp only: m_def)
  with l have m: "median_of_sorted ?is = Some m" "m \<in> set ?is"
    by (simp_all add: median_of_sorted_def get_at_def m_def)
  with assms(1) have b: "p \<le> m" "5 * m \<le> 6 * p" by auto
  have "\<bar>i - m\<bar> \<le> m * 20 div 100" if "i \<in> set (differences qs)" for i
  proof -
    from assms(1) that have "p \<le> i" "5 * i \<le> 6 * p" by auto
    with b have "5 * (i - m) \<le> m" "5 * (m - i) \<le> m" by auto
    then have "\<bar>i - m\<bar> * 100 \<le> m * 20" by (simp add: abs_if)
    then have "\<bar>i - m\<bar> * 100 div 100 \<le> m * 20 div 100" by (rule zdiv_mono1) simp
    then show ?thesis by simp
  qed
  moreover have "(m * 20) sdiv 100 = m * 20 div 100" using b(1) assms(2) by (simp add: sdiv_nonneg)
  ultimately show ?thesis
    using assms(2-5) b m(1)
    by (intro exI [of _ m]) (simp add: regular_period_def default_thresholds_def list_all_iff)
qed

lemma regular_period_short:
  assumes "\<forall>d \<in> set (differences qs). 0 \<le> d" "length qs < 4 \<or> last qs - hd qs < 30 * 60 * 1000"
  shows "regular_period default_thresholds (drop k qs) = None"
proof (cases "length (drop k qs) < 4")
  case True
  then show ?thesis by (simp add: regular_period_def default_thresholds_def)
next
  case False
  then have "k < length qs" "4 \<le> length qs" by auto
  then have "hd (drop k qs) = qs ! k" "last (drop k qs) = last qs" "hd qs = qs ! 0"
    by (simp_all add: hd_drop_conv_nth) (metis hd_conv_nth list.size(3) not_numeral_le_zero)
  moreover have "qs ! 0 \<le> qs ! k"
    using sorted_differences [OF assms(1)] \<open>k < length qs\<close> by (simp add: sorted_nth_mono)
  ultimately show ?thesis
    using assms(2) \<open>4 \<le> length qs\<close> by (simp add: regular_period_def default_thresholds_def)
qed

lemma first_period_short:
  assumes "\<forall>d \<in> set (differences qs). 0 \<le> d" "length qs < 4 \<or> last qs - hd qs < 30 * 60 * 1000"
  shows "first_period default_thresholds qs ws = None"
  by (induction ws) (simp_all add: regular_period_short [OF assms])

text \<open>C22: a regular beacon is found, and when. A device asks for a name it had not asked for, each time
  \<open>p\<close> milliseconds after the last or up to a fifth later, \<open>p\<close> being two seconds or more (and less than the
  thousands of years that do not fit the count of minutes). The last query is told to be a beacon exactly when the
  contacts kept, the last 64, are at least four and span half an hour; the period told is that of a median between
  \<open>p\<close> and a fifth more. So a beacon slower than ten minutes is found at its fourth contact, and one that
  repeats too fast for 64 contacts to span half an hour is never found.\<close>

theorem regular_beacon_is_found:
  assumes "map_of (ds_recent st) name = None" "2000 \<le> p" "p < 10 ^ 14" "qs \<noteq> []"
    and "\<forall>d \<in> set (differences qs). p \<le> d \<and> 5 * d \<le> 6 * p"
  shows "let kept = drop (length qs - 64) qs; told = fst (ask_all default_thresholds name qs st)
    in if 4 \<le> length kept \<and> 30 * 60 * 1000 \<le> last kept - hd kept
       then \<exists>m. told = Some (nat (minutes_of m)) \<and> p \<le> m \<and> 5 * m \<le> 6 * p
       else told = None"
proof -
  define kept where "kept = keep_last BEACON_WINDOW qs"
  have d: "\<forall>d \<in> set (differences kept). p \<le> d \<and> 5 * d \<le> 6 * p"
    using assms(5) differences_drop [of "length qs - BEACON_WINDOW" qs] by (auto simp: kept_def keep_last_def)
  have "\<forall>d \<in> set (differences qs). 2000 \<le> d" using assms(2,5) by force
  from ask_apart [OF assms(1) this, of default_thresholds] assms(4)
  have told: "fst (ask_all default_thresholds name qs st) =
      first_period default_thresholds kept [length kept, 16, 8, beacon_min_samples default_thresholds]"
    by (simp add: kept_def)
  have min: "minutes_of m < 2 ^ 32" if "p \<le> m" "5 * m \<le> 6 * p" for m
    using that assms(2,3) by (simp add: minutes_of_def sdiv_nonneg)
  have "if 4 \<le> length kept \<and> 30 * 60 * 1000 \<le> last kept - hd kept
       then \<exists>m. fst (ask_all default_thresholds name qs st) = Some (nat (minutes_of m)) \<and> p \<le> m \<and> 5 * m \<le> 6 * p
       else fst (ask_all default_thresholds name qs st) = None"
  proof (cases "4 \<le> length kept \<and> 30 * 60 * 1000 \<le> last kept - hd kept")
    case True
    with regular_period_within [OF d _ _ _ min] assms(2)
    obtain m where "regular_period default_thresholds kept = Some (nat (minutes_of m))" "p \<le> m" "5 * m \<le> 6 * p"
      by auto
    moreover have "\<not> length kept < beacon_min_samples default_thresholds"
      using True by (simp add: default_thresholds_def)
    ultimately show ?thesis using True by (simp add: told) blast
  next
    case False
    have "\<forall>d \<in> set (differences kept). 0 \<le> d" using d assms(2) by force
    with False show ?thesis by (simp only: told if_False) (rule first_period_short, auto)
  qed
  then show ?thesis by (simp add: Let_def kept_def keep_last_def BEACON_WINDOW_def)
qed

text \<open>Every five minutes: the period told at the seventh query; every 20 seconds: nothing, ever.\<close>

definition every :: "int \<Rightarrow> int \<Rightarrow> nat \<Rightarrow> int list" where
  "every t0 p n = map (\<lambda>k. t0 + int k * p) [0..<n]"

lemma every_Suc: "every t0 p (Suc n) = every t0 p n @ [t0 + int n * p]"
  by (simp add: every_def)

lemma every_ends: "n \<noteq> 0 \<Longrightarrow> last (every t0 p n) = t0 + int (n - 1) * p"
  by (cases n) (simp_all add: every_Suc)

lemma differences_every: "differences (every t0 p n) = replicate (n - 1) p"
proof (induction n)
  case (Suc n)
  show ?case
  proof (cases n)
    case (Suc m)
    then have "every t0 p n \<noteq> []" "t0 + int n * p - last (every t0 p n) = p"
      by (simp_all add: every_Suc algebra_simps)
    with Suc.IH Suc show ?thesis unfolding every_Suc differences_snoc by (simp add: replicate_append_same)
  qed (simp add: every_def)
qed (simp add: every_def)

theorem regular_beacon_is_found_witness:
  "fst (ask_all default_thresholds ''t.co'' (every 1000 300000 7) empty_state) \<in> {Some 5, Some 6} \<and>
   fst (ask_all default_thresholds ''t.co'' (every 1000 20000 100) empty_state) = None"
proof -
  have e: "map_of (ds_recent empty_state) ''t.co'' = None" by (simp add: empty_state_def)
  have s: "every 1000 300000 7 \<noteq> []" "every 1000 20000 100 \<noteq> []" by (simp_all add: every_def)
  have d: "\<forall>d \<in> set (differences (every 1000 p n)). p \<le> d \<and> 5 * d \<le> 6 * p" if "0 \<le> p" for p n
    using that by (simp add: differences_every)
  have l: "length (every t0 p n) = n" "n \<noteq> 0 \<Longrightarrow> hd (every t0 p n) = t0" for t0 p n
    by (simp_all add: every_def hd_map)
  have "last (every 1000 300000 7) - hd (every 1000 300000 7) = 1800000" by (simp add: every_ends l)
  then obtain m where m: "fst (ask_all default_thresholds ''t.co'' (every 1000 300000 7) empty_state) = Some (nat (minutes_of m))"
    "300000 \<le> m" "5 * m \<le> 6 * 300000"
    using regular_beacon_is_found [OF e _ _ s(1) d] by (auto simp: l)
  then have "minutes_of m \<in> {5, 6}" by (auto simp: minutes_of_def sdiv_nonneg)
  moreover have "last (drop 36 (every 1000 20000 100)) - hd (drop 36 (every 1000 20000 100)) = 1260000"
    by (simp add: last_drop hd_drop_conv_nth l every_ends) (simp add: every_def)
  then have "fst (ask_all default_thresholds ''t.co'' (every 1000 20000 100) empty_state) = None"
    using regular_beacon_is_found [OF e _ _ s(2) d] by (simp add: l)
  ultimately show ?thesis using m(1) by auto
qed

theorem beacon_is_regular_witness:
  "\<exists>k median. regular default_thresholds median
     (drop k (times_of ''t.co'' (snd (beacon ''t.co'' 1800000 default_thresholds
       (empty_state\<lparr>ds_recent := [(''t.co'', [0, 600000, 1200000])]\<rparr>))))) \<and>
   10 = nat (minutes_of median)"
proof -
  let ?st = "empty_state\<lparr>ds_recent := [(''t.co'', [0, 600000, 1200000])]\<rparr>"
  have "fst (beacon ''t.co'' 1800000 default_thresholds ?st) = Some 10" by code_simp
  then have "beacon ''t.co'' 1800000 default_thresholds ?st =
      (Some 10, snd (beacon ''t.co'' 1800000 default_thresholds ?st))"
    by (metis prod.collapse)
  from beacon_is_regular [OF this] show ?thesis .
qed

section \<open>A heavy hour\<close>

lemma sorted_half:
  assumes "sorted xs" "xs \<noteq> []"
  shows "length xs < 2 * length (filter (\<lambda>n. n \<le> xs ! (length xs div 2)) xs)"
proof -
  let ?m = "length xs div 2"
  have m: "?m < length xs" using assms(2) by (cases xs) auto
  have "\<forall>x \<in> set (take (Suc ?m) xs). x \<le> xs ! ?m"
    using assms(1) m by (auto simp: in_set_conv_nth intro!: sorted_nth_mono)
  then have "filter (\<lambda>n. n \<le> xs ! ?m) (take (Suc ?m) xs) = take (Suc ?m) xs"
    by (simp add: filter_id_conv)
  moreover have "filter (\<lambda>n. n \<le> xs ! ?m) xs =
      filter (\<lambda>n. n \<le> xs ! ?m) (take (Suc ?m) xs) @ filter (\<lambda>n. n \<le> xs ! ?m) (drop (Suc ?m) xs)"
    by (metis append_take_drop_id filter_append)
  ultimately have "Suc ?m \<le> length (filter (\<lambda>n. n \<le> xs ! ?m) xs)" using m by simp
  moreover have "length xs < 2 * Suc ?m" by simp
  ultimately show ?thesis by linarith
qed

text \<open>An hour is only called heavy when it is: it has had more than 300 queries, and more than
  five times a count that at least half of the hours with queries (three or more) did not pass,
  unless five times that count is above what a counter holds.\<close>

theorem heavy_hour_is_heavy:
  assumes "volume ts default_thresholds st = (True, st')"
  defines "active \<equiv> filter (\<lambda>n. 0 < n) (ds_completed_hours st')"
  shows "300 < ds_hour_count st' \<and> 3 \<le> length active \<and>
    (\<exists>median. min (5 * median) U32_MAX < ds_hour_count st' \<and>
       length active < 2 * length (filter (\<lambda>n. n \<le> median) active))"
proof -
  let ?so = "sort active"
  let ?m = "?so ! (length ?so div 2)"
  have v: "3 \<le> length active" "max (min (?m * 5) U32_MAX) 300 < ds_hour_count st'"
    using assms(1) unfolding active_def
    by (auto simp: volume_def Let_def default_thresholds_def split: if_splits)
  have "?so \<noteq> []" using v(1) by (metis length_sort list.size(3) not_numeral_le_zero)
  from sorted_half [OF sorted_sort this]
  have h: "length active < 2 * length (filter (\<lambda>n. n \<le> ?m) ?so)" by simp
  have "mset (filter (\<lambda>n. n \<le> ?m) ?so) = mset (filter (\<lambda>n. n \<le> ?m) active)"
    by (simp add: mset_filter)
  then have "length (filter (\<lambda>n. n \<le> ?m) ?so) = length (filter (\<lambda>n. n \<le> ?m) active)"
    by (rule mset_eq_length)
  with h v show ?thesis by (intro conjI exI [of _ ?m]) (simp_all add: mult.commute)
qed

theorem heavy_hour_is_heavy_witness:
  "300 < ds_hour_count (snd (volume 3600000 default_thresholds
     (empty_state\<lparr>ds_hour_index := Some 1, ds_hour_count := 900, ds_completed_hours := [10, 20, 0, 30]\<rparr>)))"
  (is "300 < ds_hour_count (snd ?v)")
proof -
  have "fst ?v = True"
    by (simp add: volume_def roll_hour_def HOUR_MS_def default_thresholds_def empty_state_def U32_MAX_def)
  then have "?v = (True, snd ?v)" by (metis prod.collapse)
  from heavy_hour_is_heavy [OF this] show ?thesis by blast
qed

section \<open>The history stays bounded\<close>

definition profile_ok :: "hours_profile \<Rightarrow> bool" where
  "profile_ok hp \<longleftrightarrow> length (hp_counts hp) = 24 \<and> list_all (\<lambda>n. n \<le> U32_MAX) (hp_counts hp)"

definition bounded :: "nat \<Rightarrow> device_state \<Rightarrow> bool" where
  "bounded h st \<longleftrightarrow>
     distinct (map fst (ds_recent st)) \<and>
     list_all (\<lambda>(_, qs). qs \<noteq> [] \<and> length qs \<le> BEACON_WINDOW) (ds_recent st) \<and>
     length (ds_completed_hours st) \<le> h \<and> ds_hour_count st \<le> U32_MAX \<and> profile_ok (ds_profile st)"

lemma list_all_update: "list_all P xs \<Longrightarrow> P (k, v) \<Longrightarrow> list_all P (AList.update k v xs)"
  by (induction xs) auto

lemma list_all_map_of: "list_all P xs \<Longrightarrow> map_of xs k = Some v \<Longrightarrow> P (k, v)"
  by (auto simp: list_all_iff dest: map_of_SomeD)

lemma retain_bounded:
  "distinct (map fst r) \<Longrightarrow> distinct (map fst (retain_recent name ts r))"
  "list_all P r \<Longrightarrow> list_all P (retain_recent name ts r)"
  by (auto simp: retain_recent_def list_all_iff distinct_map_filter)

lemma hour_of_lt: "hour_of ts < 24"
proof -
  have "0 \<le> ts mod DAY_MS" "ts mod DAY_MS < DAY_MS" by (simp_all add: DAY_MS_def HOUR_MS_def)
  then have "ts mod DAY_MS div HOUR_MS < 24" by (simp add: DAY_MS_def HOUR_MS_def div_less_iff_less_mult)
  then show ?thesis by (simp add: hour_of_def)
qed

lemma beacon_bounded: "bounded h st \<Longrightarrow> bounded h (snd (beacon name ts t st))"
proof -
  assume b: "bounded h st"
  have "length (add_contact qs ts) \<le> BEACON_WINDOW" "add_contact qs ts \<noteq> []" for qs
    by (simp_all add: add_contact_def keep_last_def BEACON_WINDOW_def)
  with b show ?thesis
    by (auto simp: bounded_def beacon_def Let_def retain_bounded distinct_update intro!: list_all_update)
qed

lemma list_all_set: "list_all P xs \<Longrightarrow> P v \<Longrightarrow> list_all P (xs[i := v])"
  by (auto simp: list_all_iff dest: set_update_subset_insert [THEN subsetD])

lemma off_hours_bounded: "bounded h st \<Longrightarrow> bounded h (snd (off_hours ts t st))"
  by (simp add: bounded_def off_hours_def profile_ok_def record_hour_def Let_def list_all_set)

lemma length_keep_last: "length (keep_last n xs) \<le> n"
  by (simp add: keep_last_def)

lemma volume_bounded:
  "bounded (volume_history_hours t) st \<Longrightarrow> bounded (volume_history_hours t) (snd (volume ts t st))"
proof -
  assume b: "bounded (volume_history_hours t) st"
  then have "bounded (volume_history_hours t) (roll_hour (ts div HOUR_MS) t st)"
    by (auto simp: bounded_def roll_hour_def Let_def length_keep_last split: option.splits)
  then show ?thesis by (auto simp: volume_def Let_def bounded_def)
qed

definition classifier_ok :: "classifier \<Rightarrow> bool" where
  "classifier_ok cf \<longleftrightarrow>
     distinct (map fst (cf_devices cf)) \<and>
     list_all (\<lambda>(_, s). bounded (volume_history_hours (cf_thresholds cf)) s) (cf_devices cf)"

text \<open>The operations of the classifier; a stored profile that is not 24 counters does not parse.\<close>

datatype classifier_op = Classify_op input_t | Load_op string hours_profile | Take_op

fun classifier_step :: "classifier \<Rightarrow> classifier_op \<Rightarrow> classifier" where
  "classifier_step cf (Classify_op i) = snd (classify i cf)"
| "classifier_step cf (Load_op d p) = (if profile_ok p then load_profile d p cf else cf)"
| "classifier_step cf Take_op = snd (take_dirty_profiles cf)"

lemma empty_bounded: "bounded h empty_state"
  by (simp add: bounded_def empty_state_def empty_profile_def profile_ok_def list_all_iff)

lemma state_bounded: "classifier_ok cf \<Longrightarrow> bounded (volume_history_hours (cf_thresholds cf)) (state_of d cf)"
  by (auto simp: classifier_ok_def state_of_def empty_bounded dest: list_all_map_of split: option.splits)

lemma put_ok:
  "classifier_ok cf \<Longrightarrow> bounded (volume_history_hours (cf_thresholds cf)) s \<Longrightarrow> classifier_ok (put_state d s cf)"
  by (simp add: classifier_ok_def put_state_def distinct_update list_all_update)

lemma classifier_step_ok: "classifier_ok cf \<Longrightarrow> classifier_ok (classifier_step cf e)"
proof (cases e)
  case (Classify_op i)
  assume ok: "classifier_ok cf"
  let ?t = "cf_thresholds cf"
  have "bounded (volume_history_hours ?t)
      (snd (volume (in_ts i) ?t (snd (off_hours (in_ts i) ?t
        (snd (beacon (in_name i) (in_ts i) ?t (state_of (in_device_id i) cf)))))))"
    by (intro volume_bounded off_hours_bounded beacon_bounded state_bounded ok)
  with ok Classify_op show ?thesis
    by (simp add: classify_def Let_def split_beta put_ok)
next
  case (Load_op d p)
  assume ok: "classifier_ok cf"
  then have "profile_ok p \<Longrightarrow> bounded (volume_history_hours (cf_thresholds cf)) ((state_of d cf)\<lparr>ds_profile := p\<rparr>)"
    using state_bounded [of cf d] by (simp add: bounded_def)
  with ok Load_op show ?thesis by (simp add: load_profile_def put_ok)
next
  case Take_op
  assume "classifier_ok cf"
  with Take_op show ?thesis
    by (auto simp: classifier_ok_def take_dirty_profiles_def list_all_iff bounded_def comp_def split_beta)
qed

interpretation classifier_machine: guarded_machine classifier_step classifier_ok
  by unfold_locales (rule classifier_step_ok)

text \<open>The history stays bounded. After any queries, profile loads and saves, every device keeps at
  most 64 times of each name, never an empty queue, at most 24 finished hours, and a profile of 24
  counters that fit in 32 bits.\<close>

theorem history_stays_bounded:
  "list_all (\<lambda>(_, s). bounded 24 s) (cf_devices (foldl classifier_step (classifier_new c) es))"
proof -
  have t: "cf_thresholds (classifier_step cf e) = cf_thresholds cf" for cf e
    by (cases e) (simp_all add: classify_def load_profile_def put_state_def take_dirty_profiles_def
      Let_def split_beta)
  have th: "cf_thresholds (foldl classifier_step cf es) = cf_thresholds cf" for cf
    by (induction es arbitrary: cf) (simp_all add: t)
  have "classifier_ok (classifier_new c)"
    by (simp add: classifier_ok_def classifier_new_def with_thresholds_def)
  from classifier_machine.inv_run [OF this, of es] show ?thesis
    by (simp add: classifier_ok_def th classifier_new_def with_thresholds_def default_thresholds_def)
qed

end
