(* ===== verification/Servers.thy ===== *)
theory Servers imports Net Model begin

text \<open>
  Where a server is and whose network serves it, \<open>crates/lists/src/red.rs\<close>: the bundled tables of
  address ranges, read from their bytes and searched by halving, the anycast list, and what the
  ledger keeps of an address. The bundled files are the record \<open>red_data\<close>; the manifest's JSON is
  \<open>serde_json\<close>'s. A \<open>usize\<close> is a natural number: every sum of offsets of a table fits in one.
  The tables of places and cities, which hold floating-point coordinates, are not here.
\<close>

section \<open>Little-endian integers and UTF-8\<close>

definition from_le :: "bytes \<Rightarrow> nat" where
  "from_le bs = from_be (rev bs)"

definition le_bytes :: "nat \<Rightarrow> nat \<Rightarrow> bytes" where
  "le_bytes k n = rev (be_bytes k n)"

lemma from_le_bytes [simp]: "n < 256 ^ k \<Longrightarrow> from_le (le_bytes k n) = n"
  by (simp add: from_le_def le_bytes_def from_be_bytes)

lemma length_le_bytes [simp]: "length (le_bytes k n) = k"
  by (simp add: le_bytes_def)

definition cont_byte :: "byte \<Rightarrow> bool" where
  "cont_byte b \<longleftrightarrow> 0x80 \<le> b \<and> b \<le> 0xBF"

fun valid_utf8 :: "bytes \<Rightarrow> bool" where
  "valid_utf8 [] = True"
| "valid_utf8 (a # r) =
     (if a < 0x80 then valid_utf8 r
      else if 0xC2 \<le> a \<and> a \<le> 0xDF then
        (case r of b # r \<Rightarrow> cont_byte b \<and> valid_utf8 r | _ \<Rightarrow> False)
      else if 0xE0 \<le> a \<and> a \<le> 0xEF then
        (case r of
           b # c # r \<Rightarrow>
             cont_byte b \<and> (a = 0xE0 \<longrightarrow> 0xA0 \<le> b) \<and> (a = 0xED \<longrightarrow> b \<le> 0x9F) \<and> cont_byte c \<and> valid_utf8 r
         | _ \<Rightarrow> False)
      else if 0xF0 \<le> a \<and> a \<le> 0xF4 then
        (case r of
           b # c # d # r \<Rightarrow>
             cont_byte b \<and> (a = 0xF0 \<longrightarrow> 0x90 \<le> b) \<and> (a = 0xF4 \<longrightarrow> b \<le> 0x8F) \<and>
             cont_byte c \<and> cont_byte d \<and> valid_utf8 r
         | _ \<Rightarrow> False)
      else False)"

text \<open>\<open>std::str::from_utf8\<close>.\<close>

definition from_utf8 :: "bytes \<Rightarrow> string option" where
  "from_utf8 bs = (if valid_utf8 bs then Some (map (\<lambda>b. char_of (unat b)) bs) else None)"

definition parse_below :: "nat \<Rightarrow> string \<Rightarrow> nat option" where
  "parse_below m s = (case parse_u64 s of None \<Rightarrow> None | Some n \<Rightarrow> if n < m then Some n else None)"

section \<open>Reading the tables\<close>

record lector_t =
  le_datos :: bytes
  le_pos :: nat

definition lector_bytes :: "nat \<Rightarrow> lector_t \<Rightarrow> (bytes \<times> lector_t) option" where
  "lector_bytes n l =
     (case get_range (le_datos l) (le_pos l) (le_pos l + n) of
        None \<Rightarrow> None
      | Some s \<Rightarrow> Some (s, l\<lparr>le_pos := le_pos l + n\<rparr>))"

definition lector_n :: "lector_t \<Rightarrow> (nat \<times> lector_t) option" where
  "lector_n l =
     (case lector_bytes 4 l of None \<Rightarrow> None | Some (b, l) \<Rightarrow> Some (from_le b, l))"

record tabla_rangos =
  starts4 :: bytes
  vals4 :: bytes
  starts6 :: bytes
  vals6 :: bytes
  ancho :: nat

definition rangos :: "nat \<Rightarrow> lector_t \<Rightarrow> (tabla_rangos \<times> lector_t) option" where
  "rangos w l =
     Option.bind (lector_n l) (\<lambda>(n4, l).
     Option.bind (lector_bytes (n4 * 4) l) (\<lambda>(s4, l).
     Option.bind (lector_bytes (n4 * w) l) (\<lambda>(v4, l).
     Option.bind (lector_n l) (\<lambda>(n6, l).
     Option.bind (lector_bytes (n6 * 8) l) (\<lambda>(s6, l).
     Option.bind (lector_bytes (n6 * w) l) (\<lambda>(v6, l).
       Some (\<lparr>starts4 = s4, vals4 = v4, starts6 = s6, vals6 = v6, ancho = w\<rparr>, l)))))))"

section \<open>Searching a table\<close>

definition start_at :: "bytes \<Rightarrow> nat \<Rightarrow> nat \<Rightarrow> nat option" where
  "start_at starts w i =
     (case get_range starts (i * w) ((i + 1) * w) of
        None \<Rightarrow> None
      | Some b \<Rightarrow> if w = 4 then Some (from_le b) else if length b = 8 then Some (from_le b) else None)"

text \<open>The halving loop: the first index whose start is above the key, \<open>None\<close> when a start cannot be
  read.\<close>

function halve :: "(nat \<Rightarrow> nat option) \<Rightarrow> nat \<Rightarrow> nat \<Rightarrow> nat \<Rightarrow> nat option" where
  "halve at key lo hi =
     (if lo < hi then
        let mid = lo + (hi - lo) div 2
        in case at mid of
             None \<Rightarrow> None
           | Some v \<Rightarrow> if v \<le> key then halve at key (mid + 1) hi else halve at key lo mid
      else Some lo)"
  by pat_completeness auto
termination by (relation "measure (\<lambda>(at, key, lo, hi). hi - lo)") auto

declare halve.simps [simp del]

definition checked_pred :: "nat \<Rightarrow> nat option" where
  "checked_pred n = (if n = 0 then None else Some (n - 1))"

definition rango_de :: "bytes \<Rightarrow> nat \<Rightarrow> nat \<Rightarrow> nat option" where
  "rango_de starts w key =
     Option.bind (halve (start_at starts w) key 0 (length starts div w)) checked_pred"

definition valor_en :: "bytes \<Rightarrow> nat \<Rightarrow> nat \<Rightarrow> nat option" where
  "valor_en vals w i =
     (case get_range vals (i * w) ((i + 1) * w) of
        None \<Rightarrow> None
      | Some b \<Rightarrow> if w \<le> 4 then Some (from_le (b @ replicate (4 - w) 0)) else None)"

definition v4_number :: "byte \<Rightarrow> byte \<Rightarrow> byte \<Rightarrow> byte \<Rightarrow> nat" where
  "v4_number a b c d = from_be [a, b, c, d]"

definition v6_number :: "u16 list \<Rightarrow> nat" where
  "v6_number gs = foldl (\<lambda>a g. a * 65536 + unat g) 0 gs"

definition buscar :: "tabla_rangos \<Rightarrow> ip \<Rightarrow> nat" where
  "buscar t a =
     (case (case a of
              V4 p q r s \<Rightarrow>
                Option.bind (rango_de (starts4 t) 4 (v4_number p q r s)) (valor_en (vals4 t) (ancho t))
            | V6 gs \<Rightarrow>
                Option.bind (rango_de (starts6 t) 8 (v6_number gs div 2 ^ 64)) (valor_en (vals6 t) (ancho t))) of
        None \<Rightarrow> 0
      | Some v \<Rightarrow> v)"

section \<open>The two bases\<close>

record fuente_red =
  fr_fuente :: string
  fr_fecha :: string
  fr_licencia :: string
  fr_licencia_url :: string
  fr_atribucion :: string
  fr_web :: string
  fr_muestra :: bool

record red_data =
  IP_PAIS :: bytes
  IP_RED :: bytes
  RED_IP_JSON :: string
  ANYCAST :: string
  fuente_from_json :: "string \<Rightarrow> fuente_red option"

record paises_t =
  pa_codigos :: "string list"
  pa_tabla :: tabla_rangos

fun chunks2 :: "'a list \<Rightarrow> 'a list list" where
  "chunks2 (a # b # xs) = [a, b] # chunks2 xs"
| "chunks2 [] = []"
| "chunks2 [a] = [[a]]"

definition magic :: "string \<Rightarrow> lector_t \<Rightarrow> lector_t option" where
  "magic m l =
     (case lector_bytes 8 l of
        None \<Rightarrow> None
      | Some (b, l) \<Rightarrow> if b = map of_char m then Some l else None)"

definition paises_of :: "bytes \<Rightarrow> paises_t option" where
  "paises_of datos =
     Option.bind (magic ''GIPPAIS1'' \<lparr>le_datos = datos, le_pos = 0\<rparr>) (\<lambda>l.
     Option.bind (lector_n l) (\<lambda>(n, l).
     Option.bind (lector_bytes (n * 2) l) (\<lambda>(cs, l).
     Option.bind (rangos 1 l) (\<lambda>(t, l).
       Some \<lparr>pa_codigos = map (\<lambda>c. case from_utf8 c of None \<Rightarrow> ''--'' | Some s \<Rightarrow> s) (chunks2 cs),
             pa_tabla = t\<rparr>))))"

record redes_t =
  re_asns :: bytes
  re_offsets :: bytes
  re_nombres :: bytes
  re_tabla :: tabla_rangos

definition redes_of :: "bytes \<Rightarrow> redes_t option" where
  "redes_of datos =
     Option.bind (magic ''GIPRED01'' \<lparr>le_datos = datos, le_pos = 0\<rparr>) (\<lambda>l.
     Option.bind (lector_n l) (\<lambda>(n, l).
     Option.bind (lector_bytes (n * 4) l) (\<lambda>(asns, l).
     Option.bind (lector_bytes ((n + 1) * 4) l) (\<lambda>(offsets, l).
     Option.bind (lector_n l) (\<lambda>(largo, l).
     Option.bind (lector_bytes largo l) (\<lambda>(nombres, l).
     Option.bind (rangos 3 l) (\<lambda>(t, l).
       Some \<lparr>re_asns = asns, re_offsets = offsets, re_nombres = nombres, re_tabla = t\<rparr>)))))))"

definition u32_en :: "bytes \<Rightarrow> nat \<Rightarrow> nat option" where
  "u32_en b i = map_option from_le (get_range b (i * 4) (i * 4 + 4))"

record red_t =
  red_asn :: nat
  red_nombre :: string

definition red_de :: "redes_t \<Rightarrow> nat \<Rightarrow> red_t option" where
  "red_de r indice =
     Option.bind (checked_pred indice) (\<lambda>i.
     Option.bind (u32_en (re_asns r) i) (\<lambda>asn.
     Option.bind (u32_en (re_offsets r) i) (\<lambda>desde.
     Option.bind (u32_en (re_offsets r) (i + 1)) (\<lambda>hasta.
     Option.bind (get_range (re_nombres r) desde hasta) (\<lambda>n.
       Some \<lparr>red_asn = asn, red_nombre = (case from_utf8 n of None \<Rightarrow> [] | Some s \<Rightarrow> s)\<rparr>)))))"

section \<open>Anycast\<close>

record prefijo =
  px_red :: ip
  px_bits :: nat

definition v6_word :: "u16 list \<Rightarrow> 128 word" where
  "v6_word gs = of_nat (v6_number gs)"

definition v4_word :: "byte \<Rightarrow> byte \<Rightarrow> byte \<Rightarrow> byte \<Rightarrow> u32" where
  "v4_word a b c d = of_nat (v4_number a b c d)"

text \<open>\<open>checked_shl\<close> of all ones: a shift by the whole width is refused, and the mask is then zero.\<close>

definition contiene :: "prefijo \<Rightarrow> ip \<Rightarrow> bool" where
  "contiene p a =
     (case (px_red p, a) of
        (V4 r1 r2 r3 r4, V4 a1 a2 a3 a4) \<Rightarrow>
          let m = (if 32 - px_bits p < 32 then push_bit (32 - px_bits p) (- 1) else 0)
          in v4_word r1 r2 r3 r4 AND m = v4_word a1 a2 a3 a4 AND m
      | (V6 r, V6 g) \<Rightarrow>
          let m = (if 128 - px_bits p < 128 then push_bit (128 - px_bits p) (- 1) else 0)
          in v6_word r AND m = v6_word g AND m
      | _ \<Rightarrow> False)"

record anycast_t =
  an_asns :: "nat list"
  an_prefijos :: "prefijo list"

definition anycast_linea :: "anycast_t \<Rightarrow> string \<Rightarrow> anycast_t" where
  "anycast_linea t linea0 =
     (let linea = trim (first_piece (CHR ''#'') linea0)
      in case Option.bind (strip_prefix ''AS'' linea) (parse_below (2 ^ 32)) of
           Some n \<Rightarrow> t\<lparr>an_asns := an_asns t @ [n]\<rparr>
         | None \<Rightarrow>
             (case split_once ''/'' linea of
                None \<Rightarrow> t
              | Some (red, bits) \<Rightarrow>
                  (case (parse_ip red, parse_below 256 bits) of
                     (Some r, Some b) \<Rightarrow>
                       if b \<le> (case r of V4 _ _ _ _ \<Rightarrow> 32 | V6 _ \<Rightarrow> 128)
                       then t\<lparr>an_prefijos := an_prefijos t @ [\<lparr>px_red = r, px_bits = b\<rparr>]\<rparr>
                       else t
                   | _ \<Rightarrow> t)))"

definition anycast_of :: "string \<Rightarrow> anycast_t" where
  "anycast_of txt = foldl anycast_linea \<lparr>an_asns = [], an_prefijos = []\<rparr> (text_lines txt)"

section \<open>Local addresses\<close>

definition octets :: "u16 \<Rightarrow> byte \<times> byte" where
  "octets g = (ucast (drop_bit 8 g), ucast g)"

definition v4_of :: "u16 \<Rightarrow> u16 \<Rightarrow> ip" where
  "v4_of g h = (case (octets g, octets h) of ((a, b), (c, d)) \<Rightarrow> V4 a b c d)"

fun normal_ip :: "ip \<Rightarrow> ip" where
  "normal_ip (V4 a b c d) = V4 a b c d"
| "normal_ip (V6 gs) =
     (case gs of
        [a, b, c, d, e, f, g, h] \<Rightarrow>
          if [a, b, c, d, e, f] = [0, 0, 0, 0, 0, 0xffff] then v4_of g h
          else if [a, b, c, d, e, f] = [0x64, 0xff9b, 0, 0, 0, 0] then v4_of g h
          else V6 gs
      | _ \<Rightarrow> V6 gs)"

definition v4_local :: "byte \<Rightarrow> byte \<Rightarrow> byte \<Rightarrow> byte \<Rightarrow> bool" where
  "v4_local a b c d \<longleftrightarrow>
     is_private_v4 (V4 a b c d) \<or> is_loopback (V4 a b c d) \<or> is_link_local_v4 (V4 a b c d) \<or>
     (a, b, c, d) = (0, 0, 0, 0) \<or> (a, b, c, d) = (255, 255, 255, 255) \<or> a AND 0xf0 = 0xe0 \<or>
     (a, b, c) \<in> {(192, 0, 2), (198, 51, 100), (203, 0, 113)} \<or>
     a = 0 \<or> (a = 100 \<and> b AND 0xc0 = 64) \<or> (a = 192 \<and> b = 0 \<and> c = 0) \<or>
     (a = 198 \<and> b AND 0xfe = 18) \<or> 240 \<le> a"

definition v6_local :: "u16 list \<Rightarrow> bool" where
  "v6_local s \<longleftrightarrow>
     is_loopback (V6 s) \<or> s = replicate 8 0 \<or> first_group (V6 s) AND 0xff00 = 0xff00 \<or>
     first_group (V6 s) AND 0xfe00 = 0xfc00 \<or> first_group (V6 s) AND 0xffc0 = 0xfe80 \<or>
     (first_group (V6 s) = 0x2001 \<and> get_at s 1 = Some 0x0db8) \<or> first_group (V6 s) AND 0xfff0 = 0x3ff0"

definition es_local :: "ip \<Rightarrow> bool" where
  "es_local a =
     (case normal_ip a of V4 p q r s \<Rightarrow> v4_local p q r s | V6 gs \<Rightarrow> v6_local gs)"

section \<open>What is known of a server\<close>

record servidor =
  se_pais :: "string option"
  se_red :: "red_t option"
  se_anycast :: bool
  se_local :: bool

definition servidor_de :: "red_data \<Rightarrow> ip \<Rightarrow> servidor" where
  "servidor_de d ip0 =
     (let ip = normal_ip ip0
      in if es_local ip then \<lparr>se_pais = None, se_red = None, se_anycast = False, se_local = True\<rparr>
         else
           let red = Option.bind (redes_of (IP_RED d)) (\<lambda>r. red_de r (buscar (re_tabla r) ip));
               any = anycast_of (ANYCAST d);
               anycast = list_ex (\<lambda>p. contiene p ip) (an_prefijos any) \<or>
                 (case red of None \<Rightarrow> False | Some r \<Rightarrow> red_asn r \<in> set (an_asns any));
               pais = (if anycast then None
                 else Option.bind (paises_of (IP_PAIS d))
                        (\<lambda>p. get_at (pa_codigos p) (buscar (pa_tabla p) ip)))
           in \<lparr>se_pais = (case pais of None \<Rightarrow> None | Some c \<Rightarrow> if c = ''--'' then None else Some c),
               se_red = red, se_anycast = anycast, se_local = False\<rparr>)"

definition fuente_red_of :: "red_data \<Rightarrow> fuente_red" where
  "fuente_red_of d =
     (case fuente_from_json d (RED_IP_JSON d) of
        Some f \<Rightarrow> f
      | None \<Rightarrow> \<lparr>fr_fuente = [], fr_fecha = [], fr_licencia = [], fr_licencia_url = [],
          fr_atribucion = [], fr_web = [], fr_muestra = True\<rparr>)"

definition base_de_red :: "red_data \<Rightarrow> string" where
  "base_de_red d =
     (let f = fuente_red_of d; fecha = (if fr_fecha f = [] then ''?'' else fr_fecha f)
      in if fr_muestra f then ''muestra-'' @ fecha else ''dbip-'' @ fecha)"

definition server_info_de :: "red_data \<Rightarrow> ip \<Rightarrow> server_info" where
  "server_info_de d a =
     (let s = servidor_de d a
      in \<lparr>sv_kind = (if se_local s then Local_s else if se_anycast s then Anycast else Publico),
          sv_country = (case se_pais s of None \<Rightarrow> [] | Some c \<Rightarrow> c),
          sv_asn = (case se_red s of None \<Rightarrow> 0 | Some r \<Rightarrow> of_nat (red_asn r)),
          sv_base = base_de_red d\<rparr>)"

function find_asn :: "redes_t \<Rightarrow> nat \<Rightarrow> nat \<Rightarrow> nat \<Rightarrow> string option" where
  "find_asn r asn lo hi =
     (if lo < hi then
        let mid = lo + (hi - lo) div 2
        in case u32_en (re_asns r) mid of
             None \<Rightarrow> None
           | Some v \<Rightarrow>
               if v < asn then find_asn r asn (mid + 1) hi
               else if v > asn then find_asn r asn lo mid
               else (case red_de r (mid + 1) of
                       None \<Rightarrow> None
                     | Some x \<Rightarrow> if trim (red_nombre x) = [] then None else Some (red_nombre x))
      else None)"
  by pat_completeness auto
termination by (relation "measure (\<lambda>(r, asn, lo, hi). hi - lo)") auto

declare find_asn.simps [simp del]

definition nombre_de_red :: "red_data \<Rightarrow> nat \<Rightarrow> string option" where
  "nombre_de_red d asn =
     Option.bind (redes_of (IP_RED d)) (\<lambda>r. find_asn r asn 0 (length (re_asns r) div 4))"

definition servidor_de_texto :: "red_data \<Rightarrow> string \<Rightarrow> servidor option" where
  "servidor_de_texto d s = map_option (servidor_de d) (parse_ip (trim s))"

end
