(* ===== verification/Servers_Facts.thy ===== *)
theory Servers_Facts imports Servers begin

text \<open>
  What the lookup of a server promises: halving finds what a scan from the front would find; a file
  written in the documented format reads back, and every address is answered with the range that
  holds it; a local address is told nothing but that it is local, an anycast one gets no country.
\<close>

section \<open>Fields of one width\<close>

definition fields :: "nat \<Rightarrow> nat list \<Rightarrow> bytes" where
  "fields w xs = concat (map (le_bytes w) xs)"

lemma length_fields [simp]: "length (fields w xs) = length xs * w"
  by (induction xs) (simp_all add: fields_def)

lemma fields_slice:
  "i < length xs \<Longrightarrow> take w (drop (i * w) (fields w xs)) = le_bytes w (xs ! i)"
proof (induction xs arbitrary: i)
  case Nil
  then show ?case by simp
next
  case (Cons x xs)
  show ?case
  proof (cases i)
    case 0
    then show ?thesis by (simp add: fields_def)
  next
    case (Suc j)
    with Cons show ?thesis by (simp add: fields_def)
  qed
qed

lemma get_range_fields:
  assumes "i < length xs"
  shows "get_range (fields w xs) (i * w) ((i + 1) * w) = Some (le_bytes w (xs ! i))"
proof -
  have "Suc i * w \<le> length xs * w" using assms by (intro mult_le_mono1) simp
  with fields_slice [OF assms, of w] show ?thesis by (simp add: get_range_def)
qed

lemma start_at_fields:
  assumes "i < length xs" "w = 4 \<or> w = 8" "\<forall>x \<in> set xs. x < 256 ^ w"
  shows "start_at (fields w xs) w i = Some (xs ! i)"
proof -
  have "xs ! i < 256 ^ w" using assms(1,3) by simp
  with assms(2) show ?thesis
    unfolding start_at_def get_range_fields [OF assms(1)] by auto
qed

lemma from_le_zeros: "from_le (bs @ replicate k 0) = from_le bs"
proof -
  have "from_be (replicate k 0 @ cs) = from_be cs" for cs
    by (simp add: from_be_def) (induction k, simp_all)
  then show ?thesis by (simp add: from_le_def)
qed

lemma valor_en_fields:
  assumes "i < length xs" "w \<le> 4" "\<forall>x \<in> set xs. x < 256 ^ w"
  shows "valor_en (fields w xs) w i = Some (xs ! i)"
proof -
  have "xs ! i < 256 ^ w" using assms(1,3) by simp
  with assms(2) show ?thesis
    unfolding valor_en_def get_range_fields [OF assms(1)] by (simp add: from_le_zeros)
qed

section \<open>Halving\<close>

definition upto_key :: "nat \<Rightarrow> nat list \<Rightarrow> nat" where
  "upto_key key xs = length (takeWhile (\<lambda>x. x \<le> key) xs)"

lemma upto_key_eq:
  assumes "sorted xs" "k \<le> length xs" "\<forall>i < k. xs ! i \<le> key" "\<forall>i. k \<le> i \<and> i < length xs \<longrightarrow> key < xs ! i"
  shows "upto_key key xs = k"
proof -
  have "takeWhile (\<lambda>x. x \<le> key) xs = take k xs"
  proof (rule takeWhile_eq_take_P_nth)
    show "\<And>i. \<lbrakk>i < k; i < length xs\<rbrakk> \<Longrightarrow> xs ! i \<le> key" using assms(3) by blast
    show "k < length xs \<Longrightarrow> \<not> xs ! k \<le> key" using assms(4) by (meson leD order_refl)
  qed
  with assms(2) show ?thesis by (simp add: upto_key_def)
qed

lemma halve_finds:
  assumes at: "\<forall>i < length xs. at i = Some (xs ! i)" and s: "sorted xs"
  shows "\<lbrakk>lo \<le> hi; hi \<le> length xs; \<forall>i < lo. xs ! i \<le> key;
    \<forall>i. hi \<le> i \<and> i < length xs \<longrightarrow> key < xs ! i\<rbrakk> \<Longrightarrow> halve at key lo hi = Some (upto_key key xs)"
proof (induction "hi - lo" arbitrary: lo hi rule: less_induct)
  case less
  show ?case
  proof (cases "lo < hi")
    case False
    with less.prems(1) have "hi = lo" by simp
    with less.prems s have "upto_key key xs = lo" by (intro upto_key_eq) auto
    with False show ?thesis by (simp add: halve.simps [of at key lo hi])
  next
    case True
    define mid where "mid = lo + (hi - lo) div 2"
    have mid: "lo \<le> mid" "mid < hi" using True by (auto simp: mid_def)
    have step: "halve at key lo hi =
        (if xs ! mid \<le> key then halve at key (mid + 1) hi else halve at key lo mid)"
      using True mid less.prems(2) at
      by (simp add: halve.simps [of at key lo hi] Let_def flip: mid_def)
    show ?thesis
    proof (cases "xs ! mid \<le> key")
      case True
      have "xs ! i \<le> key" if "i < mid + 1" for i
        using that True sorted_nth_mono [OF s, of i mid] mid less.prems(2) by force
      with less.hyps [of hi "mid + 1"] less.prems mid True step show ?thesis by auto
    next
      case False
      have "key < xs ! i" if "mid \<le> i" "i < length xs" for i
        using that False sorted_nth_mono [OF s, of mid i] by force
      with less.hyps [of mid lo] less.prems mid False step show ?thesis by auto
    qed
  qed
qed

lemma halve_at_zero:
  "\<lbrakk>\<forall>i < length xs. at i = Some (xs ! i); sorted xs\<rbrakk> \<Longrightarrow>
   halve at key 0 (length xs) = Some (upto_key key xs)"
  by (rule halve_finds) auto

lemma rango_fields:
  assumes "sorted xs" "w = 4 \<or> w = 8" "\<forall>x \<in> set xs. x < 256 ^ w"
  shows "rango_de (fields w xs) w key = checked_pred (upto_key key xs)"
proof -
  have "\<forall>i < length xs. start_at (fields w xs) w i = Some (xs ! i)"
    using start_at_fields assms(2,3) by blast
  from halve_at_zero [OF this assms(1)] assms(2) show ?thesis by (auto simp: rango_de_def)
qed

section \<open>A table as it is written\<close>

text \<open>What \<open>build/red-ip.py\<close> writes: the ranges of both families, each a start and a value.\<close>

type_synonym ranges = "(nat \<times> nat) list"

definition write_ranges :: "nat \<Rightarrow> nat \<Rightarrow> ranges \<Rightarrow> bytes" where
  "write_ranges sw vw rs =
     le_bytes 4 (length rs) @ fields sw (map fst rs) @ fields vw (map snd rs)"

definition ranges_ok :: "nat \<Rightarrow> nat \<Rightarrow> ranges \<Rightarrow> bool" where
  "ranges_ok sw vw rs \<longleftrightarrow>
     length rs < 2 ^ 32 \<and> sorted (map fst rs) \<and>
     list_all (\<lambda>(s, v). s < 256 ^ sw \<and> v < 256 ^ vw) rs"

text \<open>The value of the range that holds a key, by a scan from the front; 0 before the first.\<close>

definition value_of :: "ranges \<Rightarrow> nat \<Rightarrow> nat" where
  "value_of rs key =
     (case rev (takeWhile (\<lambda>(s, v). s \<le> key) rs) of [] \<Rightarrow> 0 | (s, v) # _ \<Rightarrow> v)"

definition table_of :: "nat \<Rightarrow> ranges \<Rightarrow> ranges \<Rightarrow> tabla_rangos" where
  "table_of w r4 r6 =
     \<lparr>starts4 = fields 4 (map fst r4), vals4 = fields w (map snd r4),
      starts6 = fields 8 (map fst r6), vals6 = fields w (map snd r6), ancho = w\<rparr>"

definition address_number :: "ip \<Rightarrow> nat" where
  "address_number a =
     (case a of V4 p q r s \<Rightarrow> v4_number p q r s | V6 gs \<Rightarrow> v6_number gs div 2 ^ 64)"

definition ranges_for :: "ip \<Rightarrow> ranges \<Rightarrow> ranges \<Rightarrow> ranges" where
  "ranges_for a r4 r6 = (case a of V4 _ _ _ _ \<Rightarrow> r4 | V6 _ \<Rightarrow> r6)"

lemma upto_key_map: "upto_key key (map fst rs) = length (takeWhile (\<lambda>(s, v). s \<le> key) rs)"
  by (simp add: upto_key_def takeWhile_map comp_def case_prod_beta')

lemma value_of_upto:
  "value_of rs key =
   (if upto_key key (map fst rs) = 0 then 0 else snd (rs ! (upto_key key (map fst rs) - 1)))"
proof -
  let ?t = "takeWhile (\<lambda>(s, v). s \<le> key) rs"
  show ?thesis
  proof (cases ?t rule: rev_cases)
    case Nil
    then show ?thesis by (simp add: value_of_def upto_key_map)
  next
    case (snoc u x)
    have l: "length u < length ?t" using snoc by simp
    have "x = ?t ! length u" using snoc by simp
    also have "\<dots> = rs ! length u" using l by (rule takeWhile_nth)
    finally show ?thesis using snoc by (simp add: value_of_def upto_key_map case_prod_beta)
  qed
qed

lemma search_fields:
  assumes ok: "ranges_ok sw vw rs" and w: "sw = 4 \<or> sw = 8" "vw \<le> 4"
  shows "(case Option.bind (rango_de (fields sw (map fst rs)) sw key) (valor_en (fields vw (map snd rs)) vw) of
      None \<Rightarrow> 0 | Some v \<Rightarrow> v) = value_of rs key"
proof -
  let ?k = "upto_key key (map fst rs)"
  have s: "sorted (map fst rs)" "\<forall>x \<in> set (map fst rs). x < 256 ^ sw" "\<forall>x \<in> set (map snd rs). x < 256 ^ vw"
    using ok by (auto simp: ranges_ok_def list_all_iff)
  have k: "?k \<le> length rs" by (simp add: upto_key_map length_takeWhile_le)
  show ?thesis
  proof (cases "?k = 0")
    case True
    then show ?thesis by (simp add: rango_fields [OF s(1) w(1) s(2)] checked_pred_def value_of_upto)
  next
    case False
    with k have "?k - 1 < length (map snd rs)" by simp
    from valor_en_fields [OF this w(2) s(3)] False k show ?thesis
      by (simp add: rango_fields [OF s(1) w(1) s(2)] checked_pred_def value_of_upto)
  qed
qed

lemma buscar_table:
  assumes "ranges_ok 4 w r4" "ranges_ok 8 w r6" "w \<le> 4"
  shows "buscar (table_of w r4 r6) a = value_of (ranges_for a r4 r6) (address_number a)"
  using search_fields [OF assms(1) _ assms(3)] search_fields [OF assms(2) _ assms(3)]
  by (cases a) (simp_all add: buscar_def table_of_def ranges_for_def address_number_def)

section \<open>Reading a written file\<close>

definition rests :: "lector_t \<Rightarrow> bytes \<Rightarrow> bool" where
  "rests l r \<longleftrightarrow> le_pos l \<le> length (le_datos l) \<and> drop (le_pos l) (le_datos l) = r"

lemma rests_start: "rests \<lparr>le_datos = d, le_pos = 0\<rparr> d"
  by (simp add: rests_def)

lemma lector_bytes_rests:
  assumes "rests l (xs @ r)" "length xs = n"
  obtains k where "lector_bytes n l = Some (xs, k)" "rests k r"
proof -
  have d: "drop (le_pos l) (le_datos l) = xs @ r" "le_pos l \<le> length (le_datos l)"
    using assms(1) by (simp_all add: rests_def)
  then have len: "length (le_datos l) = le_pos l + n + length r"
    using assms(2) by (metis diff_add_inverse le_add_diff_inverse length_append length_drop add.assoc)
  have "drop (le_pos l + n) (le_datos l) = r"
    using d(1) assms(2) by (metis add.commute append_eq_conv_conj drop_drop)
  with d len assms(2) that [of "l\<lparr>le_pos := le_pos l + n\<rparr>"] show ?thesis
    by (simp add: lector_bytes_def get_range_def rests_def)
qed

lemma lector_n_rests:
  assumes "rests l (le_bytes 4 n @ r)" "n < 2 ^ 32"
  obtains k where "lector_n l = Some (n, k)" "rests k r"
proof -
  from lector_bytes_rests [OF assms(1), of 4] obtain k where
    "lector_bytes 4 l = Some (le_bytes 4 n, k)" "rests k r" by auto
  moreover have "n < 256 ^ 4" using assms(2) by simp
  ultimately show ?thesis using that [of k] by (simp add: lector_n_def del: power_numeral)
qed

lemma rangos_rests:
  assumes "rests l (write_ranges 4 w r4 @ write_ranges 8 w r6 @ r)" "ranges_ok 4 w r4" "ranges_ok 8 w r6"
  obtains k where "rangos w l = Some (table_of w r4 r6, k)" "rests k r"
proof -
  have n: "length r4 < 2 ^ 32" "length r6 < 2 ^ 32" using assms(2,3) by (simp_all add: ranges_ok_def)
  note w = write_ranges_def append_assoc
  from lector_n_rests [OF assms(1) [unfolded w] n(1)] obtain k1 where
    k1: "lector_n l = Some (length r4, k1)" "rests k1 (fields 4 (map fst r4) @ fields w (map snd r4) @
      le_bytes 4 (length r6) @ fields 8 (map fst r6) @ fields w (map snd r6) @ r)" by metis
  from lector_bytes_rests [OF k1(2)] obtain k2 where
    k2: "lector_bytes (length r4 * 4) k1 = Some (fields 4 (map fst r4), k2)"
      "rests k2 (fields w (map snd r4) @
        le_bytes 4 (length r6) @ fields 8 (map fst r6) @ fields w (map snd r6) @ r)" by auto
  from lector_bytes_rests [OF k2(2)] obtain k3 where
    k3: "lector_bytes (length r4 * w) k2 = Some (fields w (map snd r4), k3)"
      "rests k3 (le_bytes 4 (length r6) @ fields 8 (map fst r6) @ fields w (map snd r6) @ r)" by auto
  from lector_n_rests [OF k3(2) n(2)] obtain k4 where
    k4: "lector_n k3 = Some (length r6, k4)" "rests k4 (fields 8 (map fst r6) @ fields w (map snd r6) @ r)"
    by metis
  from lector_bytes_rests [OF k4(2)] obtain k5 where
    k5: "lector_bytes (length r6 * 8) k4 = Some (fields 8 (map fst r6), k5)"
      "rests k5 (fields w (map snd r6) @ r)" by auto
  from lector_bytes_rests [OF k5(2)] obtain k6 where
    k6: "lector_bytes (length r6 * w) k5 = Some (fields w (map snd r6), k6)" "rests k6 r" by auto
  from k1 k2 k3 k4 k5 k6 that [of k6] show ?thesis by (simp add: rangos_def table_of_def)
qed

definition ascii_code :: "string \<Rightarrow> bool" where
  "ascii_code c \<longleftrightarrow> length c = 2 \<and> list_all (\<lambda>x. char_code x < 128) c"

definition write_paises :: "string list \<Rightarrow> ranges \<Rightarrow> ranges \<Rightarrow> bytes" where
  "write_paises codes r4 r6 =
     map of_char ''GIPPAIS1'' @ le_bytes 4 (length codes) @ concat (map str_bytes codes) @
     write_ranges 4 1 r4 @ write_ranges 8 1 r6"

lemma from_utf8_ascii:
  assumes "list_all (\<lambda>x. char_code x < 128) s"
  shows "from_utf8 (str_bytes s) = Some s"
proof -
  have b: "unat (of_char x :: byte) = char_code x" for x
  proof -
    have "unat (of_nat (char_code x) :: byte) = char_code x mod 2 ^ 8"
      by (simp only: unat_of_nat) simp
    then show ?thesis using char_code_lt [of x] by (simp add: of_nat_of_char)
  qed
  have "valid_utf8 (str_bytes s)"
    using assms
  proof (induction s)
    case (Cons x s)
    then have "(of_char x :: byte) < 0x80" by (simp add: word_less_nat_alt b)
    with Cons show ?case by (simp add: str_bytes_def)
  qed (simp add: str_bytes_def)
  then show ?thesis by (simp add: from_utf8_def str_bytes_def b comp_def)
qed

lemma chunks2_codes:
  "list_all ascii_code codes \<Longrightarrow>
   map (\<lambda>c. case from_utf8 c of None \<Rightarrow> ''--'' | Some s \<Rightarrow> s) (chunks2 (concat (map str_bytes codes))) = codes"
proof (induction codes)
  case (Cons c codes)
  then obtain x y where c: "c = [x, y]" by (auto simp: ascii_code_def length_Suc_conv numeral_2_eq_2)
  have "from_utf8 (str_bytes c) = Some c" using Cons.prems by (intro from_utf8_ascii) (simp add: ascii_code_def)
  with Cons c show ?case by (simp add: str_bytes_def)
qed simp

section \<open>Lookups\<close>

text \<open>The country file written in the documented format reads back: its codes come out as
  written, and every address of either family is answered with the value of the last range that
  starts at or before it, as a scan from the front would; 0 (no data) before the first range.\<close>

theorem written_countries_answer_every_address:
  assumes "length codes < 2 ^ 32" "list_all ascii_code codes" "ranges_ok 4 1 r4" "ranges_ok 8 1 r6"
  shows "\<exists>p. paises_of (write_paises codes r4 r6) = Some p \<and> pa_codigos p = codes \<and>
    (\<forall>a. buscar (pa_tabla p) a = value_of (ranges_for a r4 r6) (address_number a))"
proof -
  let ?m = "map of_char ''GIPPAIS1'' :: bytes"
  have len: "length (concat (map str_bytes codes)) = length codes * 2"
    using assms(2) by (induction codes) (auto simp: ascii_code_def str_bytes_def)
  from lector_bytes_rests [OF rests_start [of "write_paises codes r4 r6", unfolded write_paises_def], of 8]
  obtain k0 where k0: "lector_bytes 8 \<lparr>le_datos = write_paises codes r4 r6, le_pos = 0\<rparr> = Some (?m, k0)"
    "rests k0 (le_bytes 4 (length codes) @ concat (map str_bytes codes) @
      write_ranges 4 1 r4 @ write_ranges 8 1 r6)" by (auto simp: write_paises_def)
  from lector_n_rests [OF k0(2) assms(1)] obtain k1 where k1: "lector_n k0 = Some (length codes, k1)"
    "rests k1 (concat (map str_bytes codes) @ write_ranges 4 1 r4 @ write_ranges 8 1 r6)" .
  from lector_bytes_rests [OF k1(2) len] obtain k2 where
    k2: "lector_bytes (length codes * 2) k1 = Some (concat (map str_bytes codes), k2)"
      "rests k2 (write_ranges 4 1 r4 @ write_ranges 8 1 r6 @ [])" by auto
  from rangos_rests [OF k2(2) assms(3,4)] obtain k3 where
    k3: "rangos 1 k2 = Some (table_of 1 r4 r6, k3)" .
  have "paises_of (write_paises codes r4 r6) = Some \<lparr>pa_codigos = codes, pa_tabla = table_of 1 r4 r6\<rparr>"
    using k0(1) k1(1) k2(1) k3 by (simp add: paises_of_def magic_def chunks2_codes [OF assms(2)])
  with buscar_table [OF assms(3,4)] show ?thesis by simp
qed

theorem written_countries_answer_every_address_witness:
  "\<exists>p. paises_of (write_paises [''--'', ''ES''] [(5, 1), (9, 0)] [(0, 1)]) = Some p \<and>
    buscar (pa_tabla p) (V4 0 0 0 7) = 1 \<and> buscar (pa_tabla p) (V4 0 0 0 4) = 0"
proof -
  have ok: "list_all ascii_code [''--'', ''ES'']" "ranges_ok 4 1 [(5, 1), (9, 0)]" "ranges_ok 8 1 [(0, 1)]"
    by (simp_all add: ascii_code_def ranges_ok_def)
  have n: "address_number (V4 0 0 0 7) = 7" "address_number (V4 0 0 0 4) = 4"
    by (simp_all add: address_number_def v4_number_def from_be_def)
  have "length [''--'', ''ES''] < 2 ^ 32" by simp
  from written_countries_answer_every_address [OF this ok] obtain p where
    p: "paises_of (write_paises [''--'', ''ES''] [(5, 1), (9, 0)] [(0, 1)]) = Some p"
      "\<forall>a. buscar (pa_tabla p) a = value_of (ranges_for a [(5, 1), (9, 0)] [(0, 1)]) (address_number a)" by blast
  have "buscar (pa_tabla p) (V4 0 0 0 7) = 1" "buscar (pa_tabla p) (V4 0 0 0 4) = 0"
    using p(2) n by (simp_all add: ranges_for_def value_of_def)
  with p(1) show ?thesis by blast
qed

lemma red_de_asn: "red_de r i = Some x \<Longrightarrow> red_asn x < 2 ^ 32"
proof -
  assume "red_de r i = Some x"
  then obtain j where "u32_en (re_asns r) j = Some (red_asn x)"
    by (auto simp: red_de_def split: bind_splits)
  then obtain b where b: "get_range (re_asns r) (j * 4) (j * 4 + 4) = Some b" "red_asn x = from_le b"
    by (auto simp: u32_en_def)
  have "length b = 4" using get_range_length [OF b(1)] by simp
  with from_be_lt [of "rev b"] b(2) show ?thesis by (simp add: from_le_def)
qed

text \<open>What the ledger keeps of a server never says more than it may: a local address leaves
  only that it is local, an anycast one no country, a country is kept only for a public one, and an
  IPv4 address written as IPv6 is treated as itself. The network number is the base's own.\<close>

theorem server_info_says_no_more:
  "(case servidor_de d a of
      s \<Rightarrow> se_local s = es_local a \<and>
        (if es_local a then server_info_de d a = \<lparr>sv_kind = Local_s, sv_country = [], sv_asn = 0,
             sv_base = base_de_red d\<rparr>
         else if se_anycast s then sv_kind (server_info_de d a) = Anycast \<and> sv_country (server_info_de d a) = []
         else sv_kind (server_info_de d a) = Publico) \<and>
        (case se_red s of None \<Rightarrow> sv_asn (server_info_de d a) = 0
         | Some r \<Rightarrow> unat (sv_asn (server_info_de d a)) = red_asn r)) \<and>
   server_info_de d (normal_ip a) = server_info_de d a"
proof -
  have idem: "normal_ip (normal_ip a) = normal_ip a"
    by (cases a) (auto simp: v4_of_def split: list.splits prod.splits)
  then have same: "servidor_de d (normal_ip a) = servidor_de d a"
    by (simp add: servidor_de_def es_local_def)
  have asn: "unat (of_nat (red_asn r) :: u32) = red_asn r" if "se_red (servidor_de d a) = Some r" for r
  proof -
    have "red_asn r < 2 ^ 32"
      using that by (auto simp: servidor_de_def Let_def dest!: red_de_asn split: if_splits bind_splits)
    then show ?thesis by (simp add: unat_of_nat)
  qed
  show ?thesis
    using asn same idem
    by (auto simp: server_info_de_def Let_def servidor_de_def es_local_def split: option.splits)
qed

end
