(* ===== verification/Devices.thy ===== *)
theory Devices imports Net Model begin

text \<open>
  Who a query came from, \<open>crates/devices/src/lib.rs\<close> and \<open>neighbors.rs\<close>: the parsers of the system's
  neighbour table, and the cached resolver from an address to a device. What the system says at one
  reading (the table and this computer's own address) is an argument; a clock reading is an integer
  of milliseconds. The lemmas show that a device is told by its MAC, that identities never clash,
  and that one query reads the system's table at most once.
\<close>

section \<open>Addresses as text\<close>

text \<open>\<open>Display\<close> of \<open>IpAddr\<close>: the longest run of two or more zero groups is written \<open>::\<close>.\<close>

fun hex_nat :: "nat \<Rightarrow> string" where
  "hex_nat n = (if n < 16 then [hex_digit n] else hex_nat (n div 16) @ [hex_digit (n mod 16)])"

declare hex_nat.simps [simp del]

fun join_with :: "'a \<Rightarrow> 'a list list \<Rightarrow> 'a list" where
  "join_with d [] = []"
| "join_with d [x] = x"
| "join_with d (x # y # xs) = x @ d # join_with d (y # xs)"

definition show_groups :: "u16 list \<Rightarrow> string" where
  "show_groups gs = join_with (CHR '':'') (map (\<lambda>g. hex_nat (unat g)) gs)"

definition zero_step :: "(nat \<times> nat) \<times> (nat \<times> nat) \<Rightarrow> nat \<times> u16 \<Rightarrow> (nat \<times> nat) \<times> (nat \<times> nat)" where
  "zero_step st ig =
     (case (st, ig) of
        ((longest, (start, len)), (i, g)) \<Rightarrow>
          if g = 0 then
            let current = (if len = 0 then i else start, len + 1)
            in (if snd current > snd longest then current else longest, current)
          else (longest, (0, 0)))"

definition longest_zeros :: "u16 list \<Rightarrow> nat \<times> nat" where
  "longest_zeros gs = fst (foldl zero_step ((0, 0), (0, 0)) (List.enumerate 0 gs))"

definition show_v4 :: "byte \<Rightarrow> byte \<Rightarrow> byte \<Rightarrow> byte \<Rightarrow> string" where
  "show_v4 a b c d = join_with (CHR ''.'') (map (\<lambda>x. decimal (unat x)) [a, b, c, d])"

definition show_v6 :: "u16 list \<Rightarrow> string" where
  "show_v6 gs =
     (if take 6 gs = [0, 0, 0, 0, 0, 0xffff] \<and> length gs = 8 then
        (let g = gs ! 6; h = gs ! 7
         in ''::ffff:'' @ show_v4 (ucast (drop_bit 8 g)) (ucast g) (ucast (drop_bit 8 h)) (ucast h))
      else
        (case longest_zeros gs of
           (start, len) \<Rightarrow>
             if len > 1 then show_groups (take start gs) @ ''::'' @ show_groups (drop (start + len) gs)
             else show_groups gs))"

definition show_ip :: "ip \<Rightarrow> string" where
  "show_ip a = (case a of V4 p q r s \<Rightarrow> show_v4 p q r s | V6 gs \<Rightarrow> show_v6 gs)"

section \<open>The neighbour table\<close>

fun split_any :: "('a \<Rightarrow> bool) \<Rightarrow> 'a list \<Rightarrow> 'a list list" where
  "split_any d [] = [[]]"
| "split_any d (c # s) =
     (if d c then [] # split_any d s
      else case split_any d s of [] \<Rightarrow> [[c]] | p # ps \<Rightarrow> (c # p) # ps)"

definition is_hexdigit :: "char \<Rightarrow> bool" where
  "is_hexdigit c \<longleftrightarrow> hex_val c \<noteq> None"

definition mac_part :: "string \<Rightarrow> bool" where
  "mac_part p \<longleftrightarrow> length p = 2 \<and> list_all is_hexdigit p"

definition normalize_mac :: "string \<Rightarrow> string option" where
  "normalize_mac raw =
     (let parts = map to_ascii_lowercase (split_any (\<lambda>c. c \<in> {CHR ''-'', CHR '':'', CHR ''.''}) raw)
      in if length parts \<noteq> 6 \<or> \<not> list_all mac_part parts then None
         else
           let mac = join_with (CHR '':'') parts
           in if mac = ''00:00:00:00:00:00'' \<or> mac = ''ff:ff:ff:ff:ff:ff'' then None else Some mac)"

record neighbor =
  nb_ip :: ip
  nb_mac :: string

definition parse_ip_token :: "string \<Rightarrow> ip option" where
  "parse_ip_token token = parse_ip (first_piece (CHR ''%'') token)"

definition arp_token :: "ip option \<times> string option \<Rightarrow> string \<Rightarrow> ip option \<times> string option" where
  "arp_token st t =
     (let bare = trim_start_matches (\<lambda>c. c = CHR ''('' \<or> c = CHR '')'')
                   (trim_end_matches (\<lambda>c. c = CHR ''('' \<or> c = CHR '')'') t)
      in case (fst st, parse_ip_token bare) of
           (None, Some p) \<Rightarrow> (Some p, snd st)
         | _ \<Rightarrow>
             (case (snd st, normalize_mac bare) of
                (None, Some m) \<Rightarrow> (fst st, Some m)
              | _ \<Rightarrow> st))"

definition arp_line :: "string \<Rightarrow> neighbor option" where
  "arp_line line =
     (case foldl arp_token (None, None) (split_whitespace line) of
        (Some i, Some m) \<Rightarrow> Some \<lparr>nb_ip = i, nb_mac = m\<rparr>
      | _ \<Rightarrow> None)"

definition parse_arp_a :: "string \<Rightarrow> neighbor list" where
  "parse_arp_a txt = List.map_filter arp_line (text_lines txt)"

fun after_word :: "string \<Rightarrow> string list \<Rightarrow> string option" where
  "after_word w (t # u # ts) = (if t = w then Some u else after_word w (u # ts))"
| "after_word w _ = None"

definition neigh_line :: "string \<Rightarrow> neighbor option" where
  "neigh_line line =
     (let tokens = split_whitespace line
      in Option.bind (get_at tokens 0) (\<lambda>t0.
         Option.bind (parse_ip_token t0) (\<lambda>i.
         Option.bind (after_word ''lladdr'' tokens) (\<lambda>m0.
         Option.bind (normalize_mac m0) (\<lambda>m. Some \<lparr>nb_ip = i, nb_mac = m\<rparr>)))))"

definition parse_ip_neigh :: "string \<Rightarrow> neighbor list" where
  "parse_ip_neigh txt = List.map_filter neigh_line (text_lines txt)"

definition proc_line :: "string \<Rightarrow> neighbor option" where
  "proc_line line =
     (let tokens = split_whitespace line
      in Option.bind (get_at tokens 0) (\<lambda>t0.
         Option.bind (parse_ip_token t0) (\<lambda>i.
         Option.bind (get_at tokens 2) (\<lambda>flags.
           if flags = ''0x0'' then None
           else
             Option.bind (get_at tokens 3) (\<lambda>m0.
             Option.bind (normalize_mac m0) (\<lambda>m. Some \<lparr>nb_ip = i, nb_mac = m\<rparr>))))))"

definition parse_proc_net_arp :: "string \<Rightarrow> neighbor list" where
  "parse_proc_net_arp txt = List.map_filter proc_line (drop 1 (text_lines txt))"

text \<open>On Linux: the output of \<open>ip neigh show\<close> when it ran and names somebody, else the text of
  \<open>/proc/net/arp\<close>. On the other systems, the output of \<open>arp\<close>.\<close>

definition read_neighbors_linux :: "string option \<Rightarrow> string option \<Rightarrow> neighbor list" where
  "read_neighbors_linux salida proc =
     (let v = (case salida of None \<Rightarrow> [] | Some t \<Rightarrow> parse_ip_neigh t)
      in if v \<noteq> [] then v else case proc of None \<Rightarrow> [] | Some t \<Rightarrow> parse_proc_net_arp t)"

definition read_neighbors_arp :: "string option \<Rightarrow> neighbor list" where
  "read_neighbors_arp salida = (case salida of None \<Rightarrow> [] | Some t \<Rightarrow> parse_arp_a t)"

section \<open>The resolver\<close>

record identity =
  id_id :: string
  id_mac :: "string option"
  id_ip :: ip

definition id_for_mac :: "string \<Rightarrow> string" where "id_for_mac mac = ''mac:'' @ mac"
definition id_for_ip :: "ip \<Rightarrow> string" where "id_for_ip a = ''ip:'' @ show_ip a"

record cache =
  ch_table :: "ip \<rightharpoonup> string"
  ch_refreshed :: "int option"
  ch_lan :: "ip option"

definition FORCED_REFRESH_EVERY :: int where "FORCED_REFRESH_EVERY = 10000"
definition DEFAULT_TTL :: int where "DEFAULT_TTL = 30000"

definition resolver_new :: cache where
  "resolver_new = \<lparr>ch_table = Map.empty, ch_refreshed = None, ch_lan = None\<rparr>"

text \<open>What the system says at one reading.\<close>

record reading =
  rd_neighbors :: "neighbor list"
  rd_lan :: "ip option"

definition insert_neighbor :: "(ip \<rightharpoonup> string) \<Rightarrow> neighbor \<Rightarrow> (ip \<rightharpoonup> string)" where
  "insert_neighbor t n = t(nb_ip n \<mapsto> nb_mac n)"

definition refresh_if_stale :: "int \<Rightarrow> int \<Rightarrow> reading \<Rightarrow> bool \<Rightarrow> cache \<Rightarrow> cache" where
  "refresh_if_stale ttl now rd force c =
     (let stale = (case ch_refreshed c of None \<Rightarrow> True | Some t \<Rightarrow> now - t > ttl)
      in if stale \<or> force
         then \<lparr>ch_table = foldl insert_neighbor (ch_table c) (rd_neighbors rd),
               ch_refreshed = Some now, ch_lan = rd_lan rd\<rparr>
         else c)"

definition propio :: "ip \<Rightarrow> identity" where
  "propio a = \<lparr>id_id = SELF_DEVICE_ID, id_mac = None, id_ip = a\<rparr>"

text \<open>\<open>first\<close> is what the system says if the table is stale, \<open>second\<close> if an unknown address asks for
  one more reading.\<close>

definition identify :: "int \<Rightarrow> int \<Rightarrow> reading \<Rightarrow> reading \<Rightarrow> ip \<Rightarrow> cache \<Rightarrow> identity \<times> cache" where
  "identify ttl now first second a c0 =
     (if is_loopback a then (propio a, c0)
      else
        let c1 = refresh_if_stale ttl now first False c0
        in if ch_lan c1 = Some a then (propio a, c1)
           else
             let recent = (case ch_refreshed c1 of None \<Rightarrow> False | Some t \<Rightarrow> now - t < FORCED_REFRESH_EVERY);
                 c2 = (if ch_table c1 a = None \<and> \<not> recent
                       then refresh_if_stale ttl now second True c1 else c1)
             in (case ch_table c2 a of
                   Some mac \<Rightarrow> \<lparr>id_id = id_for_mac mac, id_mac = Some mac, id_ip = a\<rparr>
                 | None \<Rightarrow> \<lparr>id_id = id_for_ip a, id_mac = None, id_ip = a\<rparr>, c2))"

section \<open>The home network\<close>

record red_casa =
  rc_puerta :: ip
  rc_mac :: "string option"

definition de_puerta :: "int \<Rightarrow> reading \<Rightarrow> reading \<Rightarrow> ip \<Rightarrow> red_casa" where
  "de_puerta now first second puerta =
     \<lparr>rc_puerta = puerta,
      rc_mac = id_mac (fst (identify DEFAULT_TTL now first second puerta resolver_new))\<rparr>"

definition texto_red :: "red_casa \<Rightarrow> string" where
  "texto_red r = show_ip (rc_puerta r) @ ''|'' @ (case rc_mac r of None \<Rightarrow> [] | Some m \<Rightarrow> m)"

definition de_texto_red :: "string \<Rightarrow> red_casa option" where
  "de_texto_red s =
     (case (case split_once ''|'' s of None \<Rightarrow> (s, []) | Some p \<Rightarrow> p) of
        (ip, mac) \<Rightarrow>
          (case parse_ip (trim ip) of
             None \<Rightarrow> None
           | Some a \<Rightarrow> Some \<lparr>rc_puerta = a, rc_mac = normalize_mac (trim mac)\<rparr>))"

definition misma :: "red_casa \<Rightarrow> red_casa \<Rightarrow> bool" where
  "misma r s =
     (case (rc_mac r, rc_mac s) of
        (Some a, Some b) \<Rightarrow> a = b
      | _ \<Rightarrow> rc_puerta r = rc_puerta s)"

definition is_private_lan :: "ip \<Rightarrow> bool" where
  "is_private_lan a =
     (case a of
        V4 _ _ _ _ \<Rightarrow> is_private_v4 a \<or> is_link_local_v4 a
      | V6 _ \<Rightarrow> first_group a AND 0xfe00 = 0xfc00 \<or> first_group a AND 0xffc0 = 0xfe80)"

section \<open>Addresses and MACs read back\<close>

lemma split_any_nonempty [simp]: "split_any d s \<noteq> []"
  by (induction s) (auto split: list.splits)

lemma split_any_plain: "\<forall>c \<in> set s. \<not> d c \<Longrightarrow> split_any d s = [s]"
  by (induction s) auto

lemma split_any_sep: "\<lbrakk>\<forall>c \<in> set p. \<not> d c; d x\<rbrakk> \<Longrightarrow> split_any d (p @ x # s) = p # split_any d s"
  by (induction p) auto

lemma split_any_join:
  "\<lbrakk>ps \<noteq> []; \<forall>p \<in> set ps. \<forall>c \<in> set p. \<not> d c; d x\<rbrakk> \<Longrightarrow> split_any d (join_with x ps) = ps"
  by (induction x ps rule: join_with.induct) (auto simp: split_any_plain split_any_sep)

lemma hexdigit_no_sep: "is_hexdigit c \<Longrightarrow> c \<notin> {CHR ''-'', CHR '':'', CHR ''.''}"
  by (auto simp: is_hexdigit_def hex_val_def is_ascii_digit_def)

lemma mac_parts_again:
  assumes "length ps = 6" "list_all mac_part ps" "\<forall>p \<in> set ps. to_ascii_lowercase p = p"
    and "join_with (CHR '':'') ps \<notin> {''00:00:00:00:00:00'', ''ff:ff:ff:ff:ff:ff''}"
  shows "normalize_mac (join_with (CHR '':'') ps) = Some (join_with (CHR '':'') ps)"
proof -
  have n: "ps \<noteq> []" using assms(1) by auto
  have "\<forall>p \<in> set ps. \<forall>c \<in> set p. \<not> c \<in> {CHR ''-'', CHR '':'', CHR ''.''}"
    using assms(2) hexdigit_no_sep unfolding list_all_iff mac_part_def by blast
  from split_any_join [OF n this, of "CHR '':''"]
  have "split_any (\<lambda>c. c \<in> {CHR ''-'', CHR '':'', CHR ''.''}) (join_with (CHR '':'') ps) = ps" by simp
  moreover have "map to_ascii_lowercase ps = ps" using assms(3) by (simp add: map_idI)
  ultimately show ?thesis using assms(1,2,4) unfolding normalize_mac_def by (simp add: Let_def)
qed

lemma normalize_mac_again: "normalize_mac raw = Some m \<Longrightarrow> normalize_mac m = Some m"
proof -
  assume m: "normalize_mac raw = Some m"
  define ps where "ps = map to_ascii_lowercase (split_any (\<lambda>c. c \<in> {CHR ''-'', CHR '':'', CHR ''.''}) raw)"
  have p: "length ps = 6" "list_all mac_part ps" "m = join_with (CHR '':'') ps"
    "m \<notin> {''00:00:00:00:00:00'', ''ff:ff:ff:ff:ff:ff''}"
    using m unfolding normalize_mac_def by (auto simp: Let_def ps_def split: if_splits)
  have "\<forall>p \<in> set ps. to_ascii_lowercase p = p" by (auto simp: ps_def)
  from mac_parts_again [OF p(1,2) this] p(3,4) show ?thesis by simp
qed

definition mac_ok :: "string \<Rightarrow> bool" where
  "mac_ok m \<longleftrightarrow> normalize_mac m = Some m"

text \<open>Every reading of the table gives MACs in their normal form.\<close>

lemma arp_token_mac:
  "(\<forall>m. snd st = Some m \<longrightarrow> mac_ok m) \<Longrightarrow> snd (arp_token st t) = Some m \<Longrightarrow> mac_ok m"
  by (auto simp: arp_token_def Let_def mac_ok_def dest: normalize_mac_again split: option.splits)

lemma arp_line_mac: "arp_line l = Some n \<Longrightarrow> mac_ok (nb_mac n)"
proof -
  have "snd (foldl arp_token (None, None) ts) = Some m \<longrightarrow> mac_ok m" for ts m
  proof -
    have "\<forall>m. snd (foldl arp_token (None, None) ts) = Some m \<longrightarrow> mac_ok m"
      by (rule foldl_inv) (use arp_token_mac in auto)
    then show ?thesis by blast
  qed
  moreover assume "arp_line l = Some n"
  ultimately show ?thesis
    by (auto simp: arp_line_def split: prod.splits option.splits) (metis snd_conv)
qed

lemma neigh_line_mac: "neigh_line l = Some n \<Longrightarrow> mac_ok (nb_mac n)"
  by (auto simp: neigh_line_def Let_def mac_ok_def dest: normalize_mac_again split: bind_splits)

lemma proc_line_mac: "proc_line l = Some n \<Longrightarrow> mac_ok (nb_mac n)"
  by (auto simp: proc_line_def Let_def mac_ok_def dest: normalize_mac_again split: bind_splits if_splits)

lemma map_filter_elem: "n \<in> set (List.map_filter f xs) \<Longrightarrow> \<exists>x \<in> set xs. f x = Some n"
  by (auto simp: List.map_filter_def)

lemma parsers_mac:
  "n \<in> set (parse_ip_neigh t) \<Longrightarrow> mac_ok (nb_mac n)"
  "n \<in> set (parse_proc_net_arp t) \<Longrightarrow> mac_ok (nb_mac n)"
  "n \<in> set (parse_arp_a t) \<Longrightarrow> mac_ok (nb_mac n)"
  unfolding parse_ip_neigh_def parse_proc_net_arp_def parse_arp_a_def
  by (blast dest: map_filter_elem intro: neigh_line_mac proc_line_mac arp_line_mac)+

lemma read_neighbors_linux_mac: "n \<in> set (read_neighbors_linux r p) \<Longrightarrow> mac_ok (nb_mac n)"
proof -
  have "read_neighbors_linux r p = [] \<or> (\<exists>t. read_neighbors_linux r p = parse_ip_neigh t) \<or>
      (\<exists>t. read_neighbors_linux r p = parse_proc_net_arp t)"
    by (cases r; cases p) (auto simp: read_neighbors_linux_def Let_def)
  then show "n \<in> set (read_neighbors_linux r p) \<Longrightarrow> mac_ok (nb_mac n)"
    using parsers_mac by fastforce
qed

lemma read_neighbors_arp_mac: "n \<in> set (read_neighbors_arp r) \<Longrightarrow> mac_ok (nb_mac n)"
  using parsers_mac(3) by (cases r) (auto simp: read_neighbors_arp_def)

section \<open>Who asked\<close>

definition reading_ok :: "reading \<Rightarrow> bool" where
  "reading_ok rd \<longleftrightarrow> list_all (\<lambda>n. mac_ok (nb_mac n)) (rd_neighbors rd)"

definition cache_ok :: "cache \<Rightarrow> bool" where
  "cache_ok c \<longleftrightarrow> (\<forall>a m. ch_table c a = Some m \<longrightarrow> mac_ok m)"

lemma insert_neighbors_ok:
  "\<lbrakk>\<forall>a m. t a = Some m \<longrightarrow> mac_ok m; list_all (\<lambda>n. mac_ok (nb_mac n)) ns\<rbrakk> \<Longrightarrow>
   foldl insert_neighbor t ns a = Some m \<Longrightarrow> mac_ok m"
proof (induction ns arbitrary: t)
  case (Cons n ns)
  have "\<forall>a m. insert_neighbor t n a = Some m \<longrightarrow> mac_ok m"
    using Cons.prems by (auto simp: insert_neighbor_def)
  from Cons.IH [OF this] Cons.prems show ?case by simp
qed simp

lemma refresh_ok: "\<lbrakk>cache_ok c; reading_ok rd\<rbrakk> \<Longrightarrow> cache_ok (refresh_if_stale ttl now rd force c)"
  by (auto simp: refresh_if_stale_def Let_def cache_ok_def reading_ok_def intro: insert_neighbors_ok)

lemma refresh_forced:
  "ch_refreshed (refresh_if_stale ttl now rd False c) = Some now \<or>
   refresh_if_stale ttl now rd False c = c"
  by (simp add: refresh_if_stale_def Let_def)

text \<open>A query's device is this computer when it comes from the loopback or from this computer's
  own address, else the device its MAC names, else its address for the time being; the MAC is in
  its one normal form, two addresses with one MAC are one device, different MACs are different
  devices, and a MAC never passes for an address or for this computer.\<close>

theorem device_follows_its_mac:
  assumes "cache_ok c" "reading_ok first" "reading_ok second"
    and "identify ttl now first second a c = (i, d)"
  shows "id_ip i = a \<and> cache_ok d \<and>
    (if is_loopback a then id_id i = SELF_DEVICE_ID \<and> d = c
     else if ch_lan d = Some a \<and> id_id i = SELF_DEVICE_ID then id_mac i = None
     else case ch_table d a of
       None \<Rightarrow> id_id i = id_for_ip a \<and> id_mac i = None
     | Some m \<Rightarrow> id_id i = id_for_mac m \<and> id_mac i = Some m \<and> mac_ok m) \<and>
    (\<forall>m n b. (id_for_mac m = id_for_mac n \<longleftrightarrow> m = n) \<and>
      id_for_mac m \<noteq> id_for_ip b \<and> id_for_mac m \<noteq> SELF_DEVICE_ID \<and> id_for_ip b \<noteq> SELF_DEVICE_ID)"
proof -
  define c1 where "c1 = refresh_if_stale ttl now first False c"
  have ok1: "cache_ok c1" using assms(1,2) by (simp add: c1_def refresh_ok)
  have ok2: "cache_ok (refresh_if_stale ttl now second True c1)" using ok1 assms(3) by (rule refresh_ok)
  have ids: "\<forall>m n b. (id_for_mac m = id_for_mac n \<longleftrightarrow> m = n) \<and>
      id_for_mac m \<noteq> id_for_ip b \<and> id_for_mac m \<noteq> SELF_DEVICE_ID \<and> id_for_ip b \<noteq> SELF_DEVICE_ID"
    by (simp add: id_for_mac_def id_for_ip_def SELF_DEVICE_ID_def)
  from assms(4) have "id_ip i = a \<and> cache_ok d \<and>
    (if is_loopback a then id_id i = SELF_DEVICE_ID \<and> d = c
     else if ch_lan d = Some a \<and> id_id i = SELF_DEVICE_ID then id_mac i = None
     else case ch_table d a of
       None \<Rightarrow> id_id i = id_for_ip a \<and> id_mac i = None
     | Some m \<Rightarrow> id_id i = id_for_mac m \<and> id_mac i = Some m \<and> mac_ok m)"
    using assms(1) ok1 ok2 ids
    by (auto simp: identify_def Let_def propio_def cache_ok_def simp flip: c1_def
        split: if_splits option.splits)
  with ids show ?thesis by blast
qed

definition sample_reading :: reading where
  "sample_reading = \<lparr>rd_neighbors = [\<lparr>nb_ip = V4 192 168 1 5, nb_mac = ''a4:83:e7:01:02:03''\<rparr>],
     rd_lan = Some (V4 192 168 1 2)\<rparr>"

theorem device_follows_its_mac_witness:
  "id_id (fst (identify 60000 5 sample_reading sample_reading (V4 192 168 1 5) resolver_new)) =
     id_for_mac ''a4:83:e7:01:02:03''"
proof -
  let ?r = "identify 60000 5 sample_reading sample_reading (V4 192 168 1 5) resolver_new"
  have r: "?r = (fst ?r, snd ?r)" by simp
  have m: "mac_ok ''a4:83:e7:01:02:03''" by code_simp
  have "cache_ok resolver_new" "reading_ok sample_reading"
    using m by (simp_all add: cache_ok_def resolver_new_def reading_ok_def sample_reading_def)
  from device_follows_its_mac [OF this this(2) r] show ?thesis
    by (simp add: identify_def Let_def refresh_if_stale_def resolver_new_def sample_reading_def
        insert_neighbor_def)
qed

text \<open>One query reads the system's table at most once: a reading just made is never repeated.\<close>

lemma one_reading_per_query:
  "0 \<le> ttl \<Longrightarrow>
   (\<forall>rd. identify ttl now first rd a c = identify ttl now first second a c) \<or>
   (\<forall>rd. identify ttl now rd second a c = identify ttl now first second a c)"
proof (cases "ch_refreshed (refresh_if_stale ttl now first False c) = Some now")
  case True
  then show ?thesis by (auto simp: identify_def Let_def FORCED_REFRESH_EVERY_def)
next
  case False
  then have "refresh_if_stale ttl now rd False c = c" for rd
    by (auto simp: refresh_if_stale_def Let_def split: if_splits)
  then show ?thesis by (simp add: identify_def)
qed

end
