(* ===== verification/Apagon.thy ===== *)
theory Apagon imports Net Rules "HOL-Library.List_Lexorder" "HOL-Library.Char_ord" begin

text \<open>
  The switch that cuts everything, \<open>crates/core/src/apagon.rs\<close>, and the bait names of
  \<open>trampas.rs\<close>. The switch's setting is JSON (\<open>serde_json\<close>): its reader is an argument. The list of
  approved names is kept sorted by bytes, as \<open>Vec<String>::sort\<close> leaves it.
\<close>

section \<open>Essential names\<close>

datatype para = P_Actualizaciones | P_Hora | P_Certificados | P_Conectividad | P_Guardiana | P_RedLocal

record esencial_t =
  es_dominio :: string
  es_para :: para

definition ESENCIALES :: "esencial_t list" where
  "ESENCIALES = map (\<lambda>(d, p). \<lparr>es_dominio = d, es_para = p\<rparr>)
     [(''windowsupdate.com'', P_Actualizaciones),
      (''update.microsoft.com'', P_Actualizaciones),
      (''windowsupdate.microsoft.com'', P_Actualizaciones),
      (''delivery.mp.microsoft.com'', P_Actualizaciones),
      (''prod.do.dsp.mp.microsoft.com'', P_Actualizaciones),
      (''wustat.windows.com'', P_Actualizaciones),
      (''ntservicepack.microsoft.com'', P_Actualizaciones),
      (''definitionupdates.microsoft.com'', P_Actualizaciones),
      (''time.windows.com'', P_Hora),
      (''pool.ntp.org'', P_Hora),
      (''time.nist.gov'', P_Hora),
      (''crl.microsoft.com'', P_Certificados),
      (''oneocsp.microsoft.com'', P_Certificados),
      (''ocsp.msocsp.com'', P_Certificados),
      (''ocsp.digicert.com'', P_Certificados),
      (''crl3.digicert.com'', P_Certificados),
      (''crl4.digicert.com'', P_Certificados),
      (''msftconnecttest.com'', P_Conectividad),
      (''msftncsi.com'', P_Conectividad),
      (''guardianagroup.com'', P_Guardiana),
      (''live.dodopayments.com'', P_Guardiana),
      (''guardiana.hogar'', P_Guardiana),
      (''local'', P_RedLocal),
      (''arpa'', P_RedLocal),
      (''lan'', P_RedLocal),
      (''localhost'', P_RedLocal)]"

definition bajo :: "string \<Rightarrow> string \<Rightarrow> bool" where
  "bajo name dominio \<longleftrightarrow>
     name = dominio \<or>
     (case strip_suffix dominio name of None \<Rightarrow> False | Some r \<Rightarrow> ends_with ''.'' r)"

definition sin_punto :: "string \<Rightarrow> string" where
  "sin_punto name = to_ascii_lowercase (trim_end_matches (\<lambda>c. c = CHR ''.'') name)"

definition esencial :: "string \<Rightarrow> esencial_t option" where
  "esencial name = find (\<lambda>e. bajo (sin_punto name) (es_dominio e)) ESENCIALES"

section \<open>The switch\<close>

definition AJUSTE_APAGON :: string where "AJUSTE_APAGON = ''modo_apagon''"
definition NOMBRE_EVENTO :: string where "NOMBRE_EVENTO = ''modo-apagon.guardiana.hogar''"
definition MAX_APROBADOS :: nat where "MAX_APROBADOS = 200"

record apagon =
  ap_activo :: bool
  ap_desde :: "int option"
  ap_aprobados :: "string list"

definition default_apagon :: apagon where
  "default_apagon = \<lparr>ap_activo = False, ap_desde = None, ap_aprobados = []\<rparr>"

definition de_ajuste :: "(string \<Rightarrow> apagon option) \<Rightarrow> string option \<Rightarrow> apagon" where
  "de_ajuste json valor =
     (case valor of
        None \<Rightarrow> default_apagon
      | Some v \<Rightarrow> (case json v of None \<Rightarrow> default_apagon | Some a \<Rightarrow> a))"

definition corta_apagon :: "apagon \<Rightarrow> string \<Rightarrow> bool" where
  "corta_apagon a name =
     (if \<not> ap_activo a then False
      else
        let n = sin_punto name
        in if n = [] \<or> esencial n \<noteq> None then False
           else \<not> list_ex (bajo n) (ap_aprobados a))"

definition aprueba :: "apagon \<Rightarrow> string \<Rightarrow> string option \<times> apagon" where
  "aprueba a raw =
     (case normalizar_nombre raw of
        None \<Rightarrow> (None, a)
      | Some (n, _) \<Rightarrow>
          if n \<in> set (ap_aprobados a) then (Some n, a)
          else if length (ap_aprobados a) \<ge> MAX_APROBADOS then (None, a)
          else (Some n, a\<lparr>ap_aprobados := sort (ap_aprobados a @ [n])\<rparr>))"

definition quita :: "apagon \<Rightarrow> string \<Rightarrow> bool \<times> apagon" where
  "quita a name =
     (let n = to_ascii_lowercase (trim_end_matches (\<lambda>c. c = CHR ''.'') (trim name));
          kept = filter (\<lambda>x. x \<noteq> n) (ap_aprobados a)
      in (length kept \<noteq> length (ap_aprobados a), a\<lparr>ap_aprobados := kept\<rparr>))"

definition cambia :: "apagon \<Rightarrow> bool \<Rightarrow> int \<Rightarrow> bool \<times> apagon" where
  "cambia a activo ahora =
     (if ap_activo a = activo then (False, a)
      else (True, a\<lparr>ap_activo := activo, ap_desde := (if activo then Some ahora else None)\<rparr>))"

definition evento_cambio :: "bool \<Rightarrow> int \<Rightarrow> new_event" where
  "evento_cambio activo ts =
     (observed ts SELF_DEVICE_ID ''127.0.0.1'' NOMBRE_EVENTO ''GUARDIANA'')
       \<lparr>ne_category := Esperado, ne_verdict := Respondido, ne_decided_by := Usuario,
        ne_list_source := if activo then ''modo_apagon:encendido'' else ''modo_apagon:apagado''\<rparr>"

section \<open>Bait names\<close>

definition DOMINIO_TRAMPAS :: string where "DOMINIO_TRAMPAS = ''trampa.guardianagroup.com''"

record trampa =
  ta_id :: string
  ta_archivo :: string
  ta_creada :: int

definition nombre_trampa :: "trampa \<Rightarrow> string" where
  "nombre_trampa t = ta_id t @ ''.'' @ DOMINIO_TRAMPAS"

definition id_de :: "string \<Rightarrow> string option" where
  "id_de qname =
     (case strip_suffix DOMINIO_TRAMPAS (sin_punto qname) of
        None \<Rightarrow> None
      | Some r \<Rightarrow>
          (case strip_suffix ''.'' r of
             None \<Rightarrow> None
           | Some resto \<Rightarrow>
               if resto \<noteq> [] \<and> CHR ''.'' \<notin> set resto then Some resto else None))"

section \<open>What the switch promises\<close>

lemma bajo_iff: "bajo n d \<longleftrightarrow> n = d \<or> (\<exists>r. n = r @ ''.'' @ d)"
proof
  assume "bajo n d"
  then consider "n = d" | r where "strip_suffix d n = Some r" "ends_with ''.'' r"
    by (auto simp: bajo_def split: option.splits)
  then show "n = d \<or> (\<exists>r. n = r @ ''.'' @ d)"
    by cases (auto simp: ends_with_iff)
next
  assume "n = d \<or> (\<exists>r. n = r @ ''.'' @ d)"
  then show "bajo n d"
  proof
    assume "\<exists>r. n = r @ ''.'' @ d"
    then obtain r where "n = (r @ ''.'') @ d" by auto
    then have e: "strip_suffix d n = Some (r @ ''.'')" by (simp only: strip_suffix_Some)
    show ?thesis unfolding bajo_def e by (simp add: ends_with_iff)
  qed (simp add: bajo_def)
qed

lemma bajo_refl [simp]: "bajo n n"
  by (simp add: bajo_def)

lemma bajo_trans: "bajo a b \<Longrightarrow> bajo b c \<Longrightarrow> bajo a c"
  unfolding bajo_iff by (metis append.assoc)

lemma ascii_lower_dot: "ascii_lower c = CHR ''.'' \<longleftrightarrow> c = CHR ''.''"
proof (cases "is_ascii_uppercase c")
  case True
  then have "65 \<le> char_code c" "char_code c \<le> 90" by (simp_all add: is_ascii_uppercase_def)
  moreover from this have "char_code (ascii_lower c) = char_code c + 32"
    using True by (simp add: ascii_lower_def)
  moreover have "char_code (CHR ''.'') = 46" by simp
  ultimately have "char_code (ascii_lower c) \<noteq> char_code (CHR ''.'')"
    "char_code c \<noteq> char_code (CHR ''.'')" by linarith+
  then show ?thesis by metis
qed (simp add: ascii_lower_id)

lemma sin_punto_idem [simp]: "sin_punto (sin_punto n) = sin_punto n"
proof -
  have d: "dropWhile (\<lambda>c. c = CHR ''.'') (map ascii_lower s) =
      map ascii_lower (dropWhile (\<lambda>c. c = CHR ''.'') s)"
    for s by (induction s) (simp_all add: ascii_lower_dot)
  have "trim_end_matches (\<lambda>c. c = CHR ''.'') (to_ascii_lowercase s) =
      to_ascii_lowercase (trim_end_matches (\<lambda>c. c = CHR ''.'') s)" for s
    by (simp add: trim_end_matches_def to_ascii_lowercase_def d rev_map)
  moreover have "trim_end_matches f (trim_end_matches f s) = trim_end_matches f s" for f and s :: string
    using trim_end_matches_last [of f s] by (intro trim_end_matches_id) blast
  ultimately show ?thesis by (simp add: sin_punto_def)
qed

lemma esencial_sin_punto [simp]: "esencial (sin_punto n) = esencial n"
  by (simp add: esencial_def)

lemma corta_iff:
  "corta_apagon a name \<longleftrightarrow>
   ap_activo a \<and> sin_punto name \<noteq> [] \<and> esencial name = None \<and>
   \<not> (\<exists>p \<in> set (ap_aprobados a). bajo (sin_punto name) p)"
  by (auto simp: corta_apagon_def Let_def list_ex_iff)

text \<open>The invariant of the list of approved names.\<close>

definition apagon_ok :: "apagon \<Rightarrow> bool" where
  "apagon_ok a \<longleftrightarrow>
     sorted (ap_aprobados a) \<and> distinct (ap_aprobados a) \<and>
     length (ap_aprobados a) \<le> MAX_APROBADOS \<and> list_all valid_host (ap_aprobados a) \<and>
     (ap_activo a \<longleftrightarrow> ap_desde a \<noteq> None)"

datatype orden_apagon = Aprueba string | Quita string | Cambia bool int

fun paso_apagon :: "apagon \<Rightarrow> orden_apagon \<Rightarrow> apagon" where
  "paso_apagon a (Aprueba raw) = snd (aprueba a raw)"
| "paso_apagon a (Quita name) = snd (quita a name)"
| "paso_apagon a (Cambia activo ahora) = snd (cambia a activo ahora)"

lemma paso_apagon_ok: "apagon_ok a \<Longrightarrow> apagon_ok (paso_apagon a e)"
proof (cases e)
  case (Aprueba raw)
  assume ok: "apagon_ok a"
  show ?thesis
  proof (cases "normalizar_nombre raw")
    case None
    with Aprueba ok show ?thesis by (simp add: aprueba_def)
  next
    case (Some p)
    then obtain n w where n: "normalizar_nombre raw = Some (n, w)" by (cases p) auto
    with ok normalizar_valid [OF n] Aprueba show ?thesis
      by (auto simp: aprueba_def apagon_ok_def list_all_iff)
  qed
next
  case (Quita name)
  assume "apagon_ok a"
  with Quita show ?thesis
    by (auto simp: quita_def Let_def apagon_ok_def sorted_wrt_filter list_all_iff
        intro: order_trans [OF length_filter_le])
next
  case (Cambia activo ahora)
  assume "apagon_ok a"
  with Cambia show ?thesis by (auto simp: cambia_def apagon_ok_def)
qed

interpretation apagon_machine: guarded_machine paso_apagon apagon_ok
  by unfold_locales (rule paso_apagon_ok)

lemma aprueba_Some:
  assumes "aprueba a raw = (Some n, b)"
  shows "valid_host n" "ap_activo b = ap_activo a" "set (ap_aprobados b) = insert n (set (ap_aprobados a))"
  using assms by (auto simp: aprueba_def split: option.splits if_splits dest: normalizar_valid)

lemma aprueba_new:
  assumes "aprueba a raw = (Some n, b)" "n \<notin> set (ap_aprobados a)"
  shows "b = a\<lparr>ap_aprobados := sort (ap_aprobados a @ [n])\<rparr>"
  using assms by (auto simp: aprueba_def split: option.splits if_splits)

lemma sin_punto_host: "valid_host n \<Longrightarrow> sin_punto n = n"
  by (simp add: sin_punto_def valid_host_plain)

lemma quita_after_sort:
  assumes "sorted xs" "n \<notin> set xs"
  shows "filter (\<lambda>x. x \<noteq> n) (sort (xs @ [n])) = (xs :: string list)"
proof -
  have "filter (\<lambda>x. x \<noteq> n) (sort (xs @ [n])) = sort (filter (\<lambda>x. x \<noteq> n) (xs @ [n]))"
    by (simp only: filter_sort)
  also have "filter (\<lambda>x. x \<noteq> n) (xs @ [n]) = xs"
    using assms(2) by (auto simp: filter_id_conv)
  finally show ?thesis using assms(1) by (simp add: sorted_sort_id)
qed

text \<open>Approving a name lets exactly that name and what hangs from it through, whatever the
  person typed, and taking a newly approved name off gives the switch back as it was.\<close>

theorem approving_is_exact_and_undone:
  assumes "apagon_ok a" "aprueba a raw = (Some n, b)"
  shows "(corta_apagon b name \<longleftrightarrow> corta_apagon a name \<and> \<not> bajo (sin_punto name) n) \<and>
    (n \<notin> set (ap_aprobados a) \<longrightarrow> quita b n = (True, a))"
proof (intro conjI impI)
  note b = aprueba_Some [OF assms(2)]
  show "corta_apagon b name \<longleftrightarrow> corta_apagon a name \<and> \<not> bajo (sin_punto name) n"
    using b(2,3) by (auto simp: corta_iff)
  assume new: "n \<notin> set (ap_aprobados a)"
  have "sorted (ap_aprobados a)" using assms(1) by (simp add: apagon_ok_def)
  with quita_after_sort [OF this new] b(1) show "quita b n = (True, a)"
    by (simp add: quita_def valid_host_plain aprueba_new [OF assms(2) new])
qed

theorem approving_is_exact_and_undone_witness:
  "quita (snd (aprueba (snd (cambia default_apagon True 5)) ''https://www.Banco.com/login''))
     ''www.banco.com'' = (True, snd (cambia default_apagon True 5))"
proof -
  let ?a = "snd (cambia default_apagon True 5)"
  have ok: "apagon_ok ?a" by (simp add: cambia_def default_apagon_def apagon_ok_def)
  have ap: "ap_aprobados ?a = []" by (simp add: cambia_def default_apagon_def)
  have n: "normalizar_nombre ''https://www.Banco.com/login'' = Some (''www.banco.com'', False)"
    by code_simp
  then have "aprueba ?a ''https://www.Banco.com/login'' =
      (Some ''www.banco.com'', snd (aprueba ?a ''https://www.Banco.com/login''))"
    by (simp add: aprueba_def ap MAX_APROBADOS_def)
  from approving_is_exact_and_undone [OF ok this] ap show ?thesis by simp
qed

text \<open>Whatever the person orders, the list of approved names stays sorted, without repeats, of
  valid names and of at most 200, and no essential name is ever cut.\<close>

theorem switch_stays_bounded:
  "apagon_ok (foldl paso_apagon default_apagon es) \<and>
   length (ap_aprobados (foldl paso_apagon default_apagon es)) \<le> 200 \<and>
   (esencial name \<noteq> None \<longrightarrow> \<not> corta_apagon (foldl paso_apagon default_apagon es) name)"
proof -
  have "apagon_ok default_apagon" by (simp add: apagon_ok_def default_apagon_def)
  from apagon_machine.inv_run [OF this, of es] show ?thesis
    by (auto simp: apagon_ok_def MAX_APROBADOS_def corta_iff)
qed

section \<open>Bait names are told apart\<close>

definition trampa_ok :: "string \<Rightarrow> bool" where
  "trampa_ok i \<longleftrightarrow> i \<noteq> [] \<and> CHR ''.'' \<notin> set i \<and> to_ascii_lowercase i = i"

lemma id_de_Some:
  "id_de q = Some i \<longleftrightarrow>
   i \<noteq> [] \<and> CHR ''.'' \<notin> set i \<and> sin_punto q = i @ ''.'' @ DOMINIO_TRAMPAS"
proof
  assume "id_de q = Some i"
  then show "i \<noteq> [] \<and> CHR ''.'' \<notin> set i \<and> sin_punto q = i @ ''.'' @ DOMINIO_TRAMPAS"
    by (auto simp: id_de_def split: option.splits if_splits)
next
  assume a: "i \<noteq> [] \<and> CHR ''.'' \<notin> set i \<and> sin_punto q = i @ ''.'' @ DOMINIO_TRAMPAS"
  then have "sin_punto q = (i @ ''.'') @ DOMINIO_TRAMPAS" by simp
  then have e: "strip_suffix DOMINIO_TRAMPAS (sin_punto q) = Some (i @ ''.'')"
    by (simp only: strip_suffix_Some)
  have f: "strip_suffix ''.'' (i @ ''.'') = Some i" by (simp only: strip_suffix_Some)
  show "id_de q = Some i" unfolding id_de_def e option.case f using a by simp
qed

lemma sin_punto_trampa:
  assumes "trampa_ok (ta_id t)"
  shows "sin_punto (nombre_trampa t) = nombre_trampa t"
proof -
  have "last (nombre_trampa t) = CHR ''m''"
    by (simp add: nombre_trampa_def DOMINIO_TRAMPAS_def)
  then have e: "trim_end_matches (\<lambda>c. c = CHR ''.'') (nombre_trampa t) = nombre_trampa t"
    by (intro trim_end_matches_id) simp
  have "to_ascii_lowercase (''.'' @ DOMINIO_TRAMPAS) = ''.'' @ DOMINIO_TRAMPAS" by code_simp
  with assms e show ?thesis
    by (simp add: sin_punto_def nombre_trampa_def to_ascii_lowercase_def trampa_ok_def)
qed

interpretation trampas: codec "\<lambda>i. nombre_trampa \<lparr>ta_id = i, ta_archivo = f, ta_creada = c\<rparr>" id_de trampa_ok
  for f c
proof unfold_locales
  fix i
  assume ok: "trampa_ok i"
  from sin_punto_trampa [of "\<lparr>ta_id = i, ta_archivo = f, ta_creada = c\<rparr>"] ok
  show "id_de (nombre_trampa \<lparr>ta_id = i, ta_archivo = f, ta_creada = c\<rparr>) = Some i"
    by (simp add: id_de_Some nombre_trampa_def trampa_ok_def)
qed

end
