(* ===== verification/Dns.thy ===== *)
theory Dns imports Net begin

text \<open>
  The resolver's handling of one request, \<open>crates/dns/src/handler.rs\<close> with the types of
  \<open>lib.rs\<close>: validate, ask the policy, answer, then report. The wire format is the \<open>hickory\<close>
  crates': a \<open>Name\<close> is its ASCII text, a record its name, time to live and data. The policy is the
  record of functions \<open>policy\<close> over a state of its own, and what the upstream would answer is the
  argument \<open>up\<close>. What the handler does is the list of its effects, in order.
\<close>

section \<open>Types\<close>

datatype rtype = A_t | AAAA_t | Otro_t nat
datatype rdata = A_d byte byte byte byte | AAAA_d "u16 list" | CNAME_d string | Otro_d
datatype rcode = NoError | NXDomain | ServFail | NotImp | FormErr | Refused_c | Otro_c nat
datatype message_type = Query_m | Response_m
datatype op_code = Query_o | Otro_o nat
datatype dns_class = IN | Otra_clase nat

record rr =
  rr_name :: string
  rr_ttl :: nat
  rr_data :: rdata

record pregunta =
  pr_name :: string
  pr_class :: dns_class
  pr_type :: rtype

text \<open>A \<open>SocketAddr\<close>: an address and a port.\<close>

type_synonym socket_addr = "ip \<times> nat"

record request =
  rq_message_type :: message_type
  rq_op_code :: op_code
  rq_queries :: "pregunta list"
  rq_src :: socket_addr

record query =
  qu_client :: socket_addr
  qu_name :: string
  qu_qtype :: rtype
  qu_ts :: int

datatype block_mode = NxDomain_b | ZeroIp_b

datatype decision = Forward | Block "int option"

datatype outcome =
    Forwarded rcode "ip option" "ip list" "string list"
  | UpstreamFailed
  | Blocked "int option"
  | Canary
  | Checker
  | Refused_o

record 'p policy =
  decide_q :: "query \<Rightarrow> 'p \<Rightarrow> decision \<times> 'p"
  after_answer :: "query \<Rightarrow> string list \<Rightarrow> 'p \<Rightarrow> decision \<times> 'p"
  record_q :: "query \<Rightarrow> outcome \<Rightarrow> 'p \<Rightarrow> 'p"

record handler =
  ha_block_mode :: block_mode
  ha_canary_enabled :: bool
  ha_checker_ip :: "(byte \<times> byte \<times> byte \<times> byte) option"
  ha_self_check :: bool

record answer =
  an_code :: rcode
  an_answers :: "rr list"
  an_authorities :: "rr list"

text \<open>What the upstream client answers: records, an answer without records, or an error.\<close>

datatype upstream = Up_records "rr list" | Up_none rcode "rr list option" | Up_error

datatype effect = Asks string rtype | Sends answer | Refuses rcode

definition CANARY_NAME :: string where "CANARY_NAME = ''use-application-dns.net''"
definition CHECKER_NAME :: string where "CHECKER_NAME = ''comprobar.guardiana.hogar''"
definition SELF_CHECK_SUFFIX :: string where "SELF_CHECK_SUFFIX = ''prueba.guardiana.hogar''"
definition MAX_ALIASES :: nat where "MAX_ALIASES = 8"
definition MAX_OTRAS :: nat where "MAX_OTRAS = 16"
definition BUILTIN_TTL :: nat where "BUILTIN_TTL = 30"
definition MAX_UDP_PAYLOAD :: nat where "MAX_UDP_PAYLOAD = 1232"

definition is_self_check :: "string \<Rightarrow> bool" where
  "is_self_check name \<longleftrightarrow>
     name = SELF_CHECK_SUFFIX \<or>
     (case strip_suffix SELF_CHECK_SUFFIX name of None \<Rightarrow> False | Some head \<Rightarrow> ends_with ''.'' head)"

definition is_private_listen_addr :: "ip \<Rightarrow> bool" where
  "is_private_listen_addr a \<longleftrightarrow>
     (case a of
        V4 _ _ _ _ \<Rightarrow> is_loopback a \<or> is_private_v4 a \<or> is_link_local_v4 a
      | V6 _ \<Rightarrow> is_loopback a \<or> first_group a AND 0xfe00 = 0xfc00 \<or> first_group a AND 0xffc0 = 0xfe80)"

section \<open>Reading an answer\<close>

definition normalize_name :: "string \<Rightarrow> string" where
  "normalize_name name =
     (let s = to_ascii_lowercase name
      in case strip_suffix ''.'' s of None \<Rightarrow> s | Some r \<Rightarrow> r)"

definition address_of :: "rr \<Rightarrow> ip option" where
  "address_of r =
     (case rr_data r of
        A_d a b c d \<Rightarrow> Some (V4 a b c d)
      | AAAA_d gs \<Rightarrow> Some (V6 gs)
      | _ \<Rightarrow> None)"

definition addresses :: "rr list \<Rightarrow> ip list" where
  "addresses rs = List.map_filter address_of rs"

definition first_address :: "rr list \<Rightarrow> ip option" where
  "first_address rs = (case addresses rs of [] \<Rightarrow> None | a # _ \<Rightarrow> Some a)"

definition other_addresses :: "rr list \<Rightarrow> ip list" where
  "other_addresses rs = take MAX_OTRAS (drop 1 (addresses rs))"

definition alias_of :: "string \<Rightarrow> rr \<Rightarrow> string option" where
  "alias_of current r =
     (case rr_data r of
        CNAME_d c \<Rightarrow> if normalize_name (rr_name r) = current then Some (normalize_name c) else None
      | _ \<Rightarrow> None)"

definition next_alias :: "string \<Rightarrow> rr list \<Rightarrow> string option" where
  "next_alias current rs =
     (case List.map_filter (alias_of current) rs of [] \<Rightarrow> None | a # _ \<Rightarrow> Some a)"

function chain_from :: "rr list \<Rightarrow> string \<Rightarrow> string list \<Rightarrow> string list" where
  "chain_from rs current chain =
     (if length chain < MAX_ALIASES
      then
        (case next_alias current rs of
           Some n \<Rightarrow>
             if n \<noteq> current \<and> n \<notin> set chain then chain_from rs n (chain @ [n]) else chain
         | None \<Rightarrow> chain)
      else chain)"
  by pat_completeness auto
termination by (relation "measure (\<lambda>(rs, current, chain). MAX_ALIASES - length chain)") auto

declare chain_from.simps [simp del]

definition alias_chain :: "string \<Rightarrow> rr list \<Rightarrow> string list" where
  "alias_chain asked rs = chain_from rs (normalize_name asked) []"

section \<open>Built-in answers\<close>

definition no_answer :: "rcode \<Rightarrow> answer" where
  "no_answer c = \<lparr>an_code = c, an_answers = [], an_authorities = []\<rparr>"

definition answer_with :: "rr list \<Rightarrow> answer" where
  "answer_with rs = \<lparr>an_code = NoError, an_answers = rs, an_authorities = []\<rparr>"

definition builtin_rr :: "string \<Rightarrow> rdata \<Rightarrow> rr" where
  "builtin_rr name d = \<lparr>rr_name = name, rr_ttl = BUILTIN_TTL, rr_data = d\<rparr>"

definition blocked_answer :: "handler \<Rightarrow> string \<Rightarrow> rtype \<Rightarrow> answer" where
  "blocked_answer h name t =
     (case ha_block_mode h of
        NxDomain_b \<Rightarrow> no_answer NXDomain
      | ZeroIp_b \<Rightarrow>
          answer_with
            (case t of
               A_t \<Rightarrow> [builtin_rr name (A_d 0 0 0 0)]
             | AAAA_t \<Rightarrow> [builtin_rr name (AAAA_d (replicate 8 0))]
             | Otro_t _ \<Rightarrow> []))"

definition checker_answer :: "string \<Rightarrow> rtype \<Rightarrow> byte \<times> byte \<times> byte \<times> byte \<Rightarrow> answer" where
  "checker_answer name t ip =
     (case ip of (a, b, c, d) \<Rightarrow>
        answer_with (if t = A_t then [builtin_rr name (A_d a b c d)] else []))"

definition self_check_answer :: "string \<Rightarrow> rtype \<Rightarrow> answer" where
  "self_check_answer name t =
     answer_with
       (case t of
          A_t \<Rightarrow> [builtin_rr name (A_d 127 0 0 1)]
        | AAAA_t \<Rightarrow> [builtin_rr name (AAAA_d [0, 0, 0, 0, 0, 0, 0, 1])]
        | Otro_t _ \<Rightarrow> [])"

text \<open>The size of a UDP answer offered to a client that speaks EDNS.\<close>

definition edns_payload :: "nat \<Rightarrow> nat" where
  "edns_payload asked = min (max asked 512) MAX_UDP_PAYLOAD"

section \<open>One request\<close>

definition forward_q :: "upstream \<Rightarrow> string \<Rightarrow> answer \<times> outcome" where
  "forward_q up name =
     (case up of
        Up_records rs \<Rightarrow>
          (answer_with rs,
           Forwarded NoError (first_address rs) (other_addresses rs) (alias_chain name rs))
      | Up_none code auth \<Rightarrow>
          (\<lparr>an_code = code, an_answers = [],
            an_authorities = (case auth of None \<Rightarrow> [] | Some a \<Rightarrow> a)\<rparr>,
           Forwarded code None [] [])
      | Up_error \<Rightarrow> (no_answer ServFail, UpstreamFailed))"

text \<open>The names answered here, whatever the policy says.\<close>

definition built_in_reply :: "handler \<Rightarrow> string \<Rightarrow> query \<Rightarrow> (answer \<times> outcome) option" where
  "built_in_reply h name q =
     (if ha_canary_enabled h \<and> qu_name q = CANARY_NAME then Some (no_answer NXDomain, Canary)
      else if is_self_check (qu_name q) then
        Some (if ha_self_check h then self_check_answer name (qu_qtype q) else no_answer NXDomain,
              Checker)
      else if qu_name q = CHECKER_NAME then
        Some (case ha_checker_ip h of
                Some ip \<Rightarrow> checker_answer name (qu_qtype q) ip
              | None \<Rightarrow> no_answer NXDomain, Checker)
      else None)"

text \<open>After the upstream's answer: one that came through aliases is asked about once more.\<close>

definition second_look :: "'p policy \<Rightarrow> query \<Rightarrow> outcome \<Rightarrow> 'p \<Rightarrow> decision \<times> 'p" where
  "second_look pol q out p =
     (case out of
        Forwarded _ _ _ aliases \<Rightarrow> if aliases \<noteq> [] then after_answer pol q aliases p else (Forward, p)
      | _ \<Rightarrow> (Forward, p))"

text \<open>What to send and report, what was asked of the upstream, and the policy's state before the
  report.\<close>

definition resolve ::
    "handler \<Rightarrow> 'p policy \<Rightarrow> upstream \<Rightarrow> string \<Rightarrow> query \<Rightarrow> 'p \<Rightarrow> answer \<times> outcome \<times> effect list \<times> 'p" where
  "resolve h pol up name q p =
     (let t = qu_qtype q in
      case built_in_reply h name q of
        Some (ans, out) \<Rightarrow> (ans, out, [], p)
      | None \<Rightarrow>
          (case decide_q pol q p of
             (Block rule_id, p) \<Rightarrow> (blocked_answer h name t, Blocked rule_id, [], p)
           | (Forward, p) \<Rightarrow>
               (case forward_q up name of
                  (ans, out) \<Rightarrow>
                    (case second_look pol q out p of
                       (Block rule_id, p) \<Rightarrow>
                         (blocked_answer h name t, Blocked rule_id, [Asks name t], p)
                     | (Forward, p) \<Rightarrow> (ans, out, [Asks name t], p)))))"

definition handle_request ::
    "handler \<Rightarrow> 'p policy \<Rightarrow> upstream \<Rightarrow> request \<Rightarrow> int \<Rightarrow> 'p \<Rightarrow> effect list \<times> 'p" where
  "handle_request h pol up rq ts p =
     (if rq_message_type rq \<noteq> Query_m \<or> rq_op_code rq \<noteq> Query_o then ([Refuses NotImp], p)
      else
        (case rq_queries rq of
           [lower] \<Rightarrow>
             if pr_class lower \<noteq> IN then ([Refuses Refused_c], p)
             else
               let name = pr_name lower;
                   q = \<lparr>qu_client = rq_src rq, qu_name = normalize_name name,
                        qu_qtype = pr_type lower, qu_ts = ts\<rparr>
               in case resolve h pol up name q p of
                    (ans, out, eff, p) \<Rightarrow> (eff @ [Sends ans], record_q pol q out p)
         | _ \<Rightarrow> ([Refuses FormErr], p)))"

section \<open>The chain of aliases\<close>

fun chain_links :: "rr list \<Rightarrow> string \<Rightarrow> string list \<Rightarrow> bool" where
  "chain_links rs current [] = True"
| "chain_links rs current (n # ns) \<longleftrightarrow>
     next_alias current rs = Some n \<and> n \<noteq> current \<and> chain_links rs n ns"

definition chain_end :: "string \<Rightarrow> string list \<Rightarrow> string" where
  "chain_end asked chain = last (asked # chain)"

lemma chain_links_snoc:
  "chain_links rs a (ns @ [n]) \<longleftrightarrow>
   chain_links rs a ns \<and> next_alias (chain_end a ns) rs = Some n \<and> n \<noteq> chain_end a ns"
  by (induction ns arbitrary: a) (auto simp: chain_end_def)

lemma chain_from_spec:
  "\<lbrakk>chain_links rs a chain; distinct chain; length chain \<le> MAX_ALIASES; current = chain_end a chain\<rbrakk> \<Longrightarrow>
   chain_links rs a (chain_from rs current chain) \<and> distinct (chain_from rs current chain) \<and>
   length (chain_from rs current chain) \<le> MAX_ALIASES \<and>
   (length (chain_from rs current chain) = MAX_ALIASES \<or>
    (case next_alias (chain_end a (chain_from rs current chain)) rs of
       None \<Rightarrow> True
     | Some n \<Rightarrow> n \<in> set (chain_end a (chain_from rs current chain) # chain_from rs current chain)))"
proof (induction rs current chain rule: chain_from.induct)
  case (1 rs current chain)
  show ?case
  proof (cases "length chain < MAX_ALIASES")
    case False
    then have eq: "chain_from rs current chain = chain" by (simp add: chain_from.simps [of rs current chain])
    show ?thesis unfolding eq using 1(2-) False by simp
  next
    case True
    show ?thesis
    proof (cases "next_alias current rs")
      case None
      then have eq: "chain_from rs current chain = chain"
        by (simp add: chain_from.simps [of rs current chain])
      show ?thesis unfolding eq using 1(2-) None by simp
    next
      case (Some n)
      show ?thesis
      proof (cases "n \<noteq> current \<and> n \<notin> set chain")
        case False
        then have eq: "chain_from rs current chain = chain"
          using Some by (auto simp: chain_from.simps [of rs current chain])
        show ?thesis unfolding eq using 1(2-) Some False by auto
      next
        case new: True
        have eq: "chain_from rs current chain = chain_from rs n (chain @ [n])"
          using True Some new by (simp add: chain_from.simps [of rs current chain])
        show ?thesis
          unfolding eq
          using 1(2-) True Some new
          by (intro 1(1) [OF True Some new]) (auto simp: chain_links_snoc chain_end_def)
      qed
    qed
  qed
qed

text \<open>C20: the alias chain is a walk through the answer's CNAME records from the name asked, without
  repetition and of at most eight names; it stops only there, where no record goes on, or where the
  next name was already seen.\<close>

theorem alias_chain_is_a_bounded_walk:
  "chain_links rs (normalize_name asked) (alias_chain asked rs) \<and> distinct (alias_chain asked rs) \<and>
   length (alias_chain asked rs) \<le> 8 \<and>
   (length (alias_chain asked rs) = 8 \<or>
    (case next_alias (chain_end (normalize_name asked) (alias_chain asked rs)) rs of
       None \<Rightarrow> True
     | Some n \<Rightarrow> n \<in> set (chain_end (normalize_name asked) (alias_chain asked rs) # alias_chain asked rs)))"
proof -
  have "chain_links rs (normalize_name asked) []" "distinct ([] :: string list)"
    "length ([] :: string list) \<le> MAX_ALIASES"
    "normalize_name asked = chain_end (normalize_name asked) []" by (simp_all add: chain_end_def)
  from chain_from_spec [OF this] show ?thesis unfolding alias_chain_def MAX_ALIASES_def .
qed

section \<open>What leaves the machine\<close>

text \<open>The names the program answers itself.\<close>

definition built_in :: "handler \<Rightarrow> string \<Rightarrow> bool" where
  "built_in h n \<longleftrightarrow>
     ha_canary_enabled h \<and> n = CANARY_NAME \<or> is_self_check n \<or> n = CHECKER_NAME"

definition query_of :: "request \<Rightarrow> pregunta \<Rightarrow> int \<Rightarrow> query" where
  "query_of rq l ts = \<lparr>qu_client = rq_src rq, qu_name = normalize_name (pr_name l),
     qu_qtype = pr_type l, qu_ts = ts\<rparr>"

lemma built_in_reply_outcome:
  "built_in_reply h name q = Some (ans, out) \<Longrightarrow> out \<in> {Canary, Checker}"
  by (auto simp: built_in_reply_def split: if_splits)

lemma built_in_reply_iff: "built_in_reply h name q \<noteq> None \<longleftrightarrow> built_in h (qu_name q)"
  by (auto simp: built_in_reply_def built_in_def)

lemma resolve_built_in: "built_in_reply h name q = Some (ans, out) \<Longrightarrow> resolve h pol up name q p = (ans, out, [], p)"
  by (simp add: resolve_def)

lemma forward_outcome: "forward_q up name = (a, out) \<Longrightarrow> (\<forall>r. out \<noteq> Blocked r) \<and> out \<noteq> Refused_o"
  by (auto simp: forward_q_def split: upstream.splits)

text \<open>The ways \<open>resolve\<close> can end.\<close>

lemma resolve_cases:
  assumes "resolve h pol up name q p = (ans, out, eff, p')"
  obtains "built_in_reply h name q = Some (ans, out)" "eff = []" "p' = p"
  | r where "ans = blocked_answer h name (qu_qtype q)" "out = Blocked r" "eff = []"
  | r where "ans = blocked_answer h name (qu_qtype q)" "out = Blocked r" "eff = [Asks name (qu_qtype q)]"
  | "forward_q up name = (ans, out)" "eff = [Asks name (qu_qtype q)]"
proof (cases "built_in_reply h name q")
  case (Some ao)
  with assms that(1) show thesis by (cases ao) (auto simp: resolve_def)
next
  case None
  obtain d p1 where d: "decide_q pol q p = (d, p1)" by (cases "decide_q pol q p") auto
  show thesis
  proof (cases d)
    case (Block r)
    with assms None d that(2) show thesis by (auto simp: resolve_def Let_def)
  next
    case Forward
    obtain a o' where f: "forward_q up name = (a, o')" by (cases "forward_q up name") auto
    obtain d2 p2 where s: "second_look pol q o' p1 = (d2, p2)" by (cases "second_look pol q o' p1") auto
    show thesis
    proof (cases d2)
      case (Block r)
      with assms None d Forward f s that(3) show thesis by (auto simp: resolve_def Let_def)
    next
      case Forward2: Forward
      with assms None d Forward f s that(4) show thesis by (auto simp: resolve_def Let_def)
    qed
  qed
qed

text \<open>The built-in names stay home. A question for the canary, a self-check name or the checker is
  answered with one and the same answer whatever the policy and the upstream are: neither is asked,
  and the policy is only told that it happened.\<close>

theorem built_in_names_stay_home:
  assumes "rq_message_type rq = Query_m" "rq_op_code rq = Query_o" "rq_queries rq = [l]"
    "pr_class l = IN" "built_in h (normalize_name (pr_name l))"
  shows "\<exists>ans out. out \<in> {Canary, Checker} \<and>
    (\<forall>pol up p. handle_request h pol up rq ts p = ([Sends ans], record_q pol (query_of rq l ts) out p))"
proof -
  have "built_in h (qu_name (query_of rq l ts))" using assms(5) by (simp add: query_of_def)
  then obtain ans out where b: "built_in_reply h (pr_name l) (query_of rq l ts) = Some (ans, out)"
    using built_in_reply_iff [of h "pr_name l" "query_of rq l ts"] by auto
  note o = built_in_reply_outcome [OF b] and r = resolve_built_in [OF b]
  have "handle_request h pol up rq ts p = ([Sends ans], record_q pol (query_of rq l ts) out p)"
    for pol up and p :: 'a
    using assms(1-4) r [of pol up p] by (simp add: handle_request_def query_of_def Let_def)
  with o show ?thesis by blast
qed

definition sample_handler :: handler where
  "sample_handler = \<lparr>ha_block_mode = ZeroIp_b, ha_canary_enabled = True, ha_checker_ip = None,
     ha_self_check = True\<rparr>"

definition sample_request :: "string \<Rightarrow> request" where
  "sample_request n = \<lparr>rq_message_type = Query_m, rq_op_code = Query_o,
     rq_queries = [\<lparr>pr_name = n, pr_class = IN, pr_type = A_t\<rparr>], rq_src = (V4 127 0 0 1, 5000)\<rparr>"

definition sample_policy :: "(query \<times> outcome) list policy" where
  "sample_policy = \<lparr>decide_q = (\<lambda>q p. (Forward, p)),
     after_answer = (\<lambda>q a p. (if ''t.evil.com'' \<in> set a then Block (Some 7) else Forward, p)),
     record_q = (\<lambda>q r p. p @ [(q, r)])\<rparr>"

theorem built_in_names_stay_home_witness:
  "\<exists>ans out. out \<in> {Canary, Checker} \<and>
    (\<forall>up. handle_request sample_handler sample_policy up (sample_request ''Use-Application-DNS.net.'') 0 [] =
       ([Sends ans], [(query_of (sample_request ''Use-Application-DNS.net.'')
          \<lparr>pr_name = ''Use-Application-DNS.net.'', pr_class = IN, pr_type = A_t\<rparr> 0, out)]))"
proof -
  let ?rq = "sample_request ''Use-Application-DNS.net.''"
  let ?l = "\<lparr>pr_name = ''Use-Application-DNS.net.'', pr_class = IN, pr_type = A_t\<rparr>"
  have b: "built_in sample_handler (normalize_name (pr_name ?l))" by code_simp
  have "rq_message_type ?rq = Query_m" "rq_op_code ?rq = Query_o" "rq_queries ?rq = [?l]"
    "pr_class ?l = IN" by (simp_all add: sample_request_def)
  from built_in_names_stay_home [OF this b, of 0] obtain ans out where
    o: "out \<in> {Canary, Checker}" and h: "\<forall>pol up p. handle_request sample_handler pol up ?rq 0 p =
      ([Sends ans], record_q pol (query_of ?rq ?l 0) out (p :: (query \<times> outcome) list))" by blast
  have r: "record_q sample_policy q out [] = [(q, out)]" for q by (simp add: sample_policy_def)
  show ?thesis
    using o h [THEN spec, of sample_policy, THEN spec, THEN spec, of _ "[]", unfolded r] by blast
qed

text \<open>C19: a blocked query gives the device no address. Whether the policy cut it before asking or
  after seeing the aliases of the answer, what is sent carries no address but the unspecified ones.\<close>

theorem blocked_gives_no_address:
  assumes "resolve h pol up name q p = (ans, Blocked r, eff, p')"
  shows "set (addresses (an_answers ans)) \<subseteq> {V4 0 0 0 0, V6 (replicate 8 0)}"
proof -
  have "ans = blocked_answer h name (qu_qtype q)"
    using assms by (rule resolve_cases) (auto dest: built_in_reply_outcome forward_outcome)
  then show ?thesis
    by (auto simp: blocked_answer_def no_answer_def answer_with_def builtin_rr_def addresses_def
        map_filter_def address_of_def split: block_mode.splits rtype.splits)
qed

theorem blocked_gives_no_address_witness:
  "set (addresses (an_answers (fst (resolve sample_handler sample_policy
     (Up_records [\<lparr>rr_name = ''x.com'', rr_ttl = 9, rr_data = CNAME_d ''t.evil.com''\<rparr>,
                  \<lparr>rr_name = ''t.evil.com'', rr_ttl = 9, rr_data = A_d 1 2 3 4\<rparr>])
     ''x.com'' \<lparr>qu_client = (V4 127 0 0 1, 5000), qu_name = ''x.com'', qu_qtype = A_t, qu_ts = 0\<rparr> []))))
   \<subseteq> {V4 0 0 0 0, V6 (replicate 8 0)}"
  (is "set (addresses (an_answers (fst ?r))) \<subseteq> _")
proof -
  have "snd ?r = (Blocked (Some 7), [Asks ''x.com'' A_t], [])" by code_simp
  then have "?r = (fst ?r, Blocked (Some 7), [Asks ''x.com'' A_t], [])" by (metis prod.collapse)
  then show ?thesis by (rule blocked_gives_no_address)
qed

text \<open>C18: one question, one answer, one report. A request is either refused, and then nobody is told,
  or it asks the upstream at most once, for the very name and type it came with, sends exactly one
  answer after that, and reports it once.\<close>

theorem one_answer_one_report:
  "(\<exists>c. handle_request h pol up rq ts p = ([Refuses c], p)) \<or>
   (\<exists>l asks ans out p'. rq_queries rq = [l] \<and>
      (asks = [] \<or> asks = [Asks (pr_name l) (pr_type l)]) \<and> out \<noteq> Refused_o \<and>
      handle_request h pol up rq ts p = (asks @ [Sends ans], record_q pol (query_of rq l ts) out p'))"
proof (cases "rq_message_type rq \<noteq> Query_m \<or> rq_op_code rq \<noteq> Query_o")
  case True
  then show ?thesis by (simp add: handle_request_def)
next
  case False
  show ?thesis
  proof (cases "\<exists>l. rq_queries rq = [l] \<and> pr_class l = IN")
    case no: False
    with False show ?thesis
      by (auto simp: handle_request_def Let_def split: list.splits)
  next
    case True
    then obtain l where l: "rq_queries rq = [l]" "pr_class l = IN" by blast
    obtain ans out eff p' where
      r: "resolve h pol up (pr_name l) (query_of rq l ts) p = (ans, out, eff, p')"
      by (cases "resolve h pol up (pr_name l) (query_of rq l ts) p") auto
    then have "(eff = [] \<or> eff = [Asks (pr_name l) (pr_type l)]) \<and> out \<noteq> Refused_o"
      by (rule resolve_cases) (auto simp: query_of_def dest: built_in_reply_outcome forward_outcome)
    have "handle_request h pol up rq ts p = (eff @ [Sends ans], record_q pol (query_of rq l ts) out p')"
      using False l r by (simp add: handle_request_def query_of_def Let_def)
    with l \<open>_ \<and> out \<noteq> Refused_o\<close> show ?thesis by blast
  qed
qed

section \<open>What a policy keeps through a request\<close>

text \<open>The interface a policy offers the resolver, seen from its state: an invariant that each of the
  three calls keeps is kept by the handling of any request. The outcomes reported name at most
  \<open>MAX_OTRAS\<close> further addresses.\<close>

definition few_addresses :: "outcome \<Rightarrow> bool" where
  "few_addresses out \<longleftrightarrow> (case out of Forwarded _ _ otras _ \<Rightarrow> length otras \<le> MAX_OTRAS | _ \<Rightarrow> True)"

lemma resolve_few_addresses:
  assumes "resolve h pol up name q p = (ans, out, eff, p')"
  shows "few_addresses out"
  using assms
proof (cases rule: resolve_cases)
  case 1
  then show ?thesis by (auto simp: few_addresses_def dest: built_in_reply_outcome)
next
  case 4
  then show ?thesis
    by (auto simp: forward_q_def few_addresses_def other_addresses_def split: upstream.splits)
qed (simp_all add: few_addresses_def)

locale policy_invariant =
  fixes pol :: "'p policy" and inv :: "'p \<Rightarrow> bool"
  assumes decide_keeps: "inv p \<Longrightarrow> inv (snd (decide_q pol q p))"
    and after_keeps: "inv p \<Longrightarrow> inv (snd (after_answer pol q aliases p))"
    and record_keeps: "inv p \<Longrightarrow> few_addresses out \<Longrightarrow> inv (record_q pol q out p)"
begin

lemma second_look_keeps: "inv p \<Longrightarrow> inv (snd (second_look pol q out p))"
  by (simp add: second_look_def after_keeps split: outcome.split)

lemma resolve_keeps:
  assumes "inv p" "resolve h pol up name q p = (ans, out, eff, p')"
  shows "inv p'"
proof -
  define p1 where "p1 = snd (decide_q pol q p)"
  define p2 where "p2 = snd (second_look pol q (snd (forward_q up name)) p1)"
  have inv: "inv p1" "inv p2"
    using assms(1) decide_keeps second_look_keeps by (simp_all add: p1_def p2_def)
  have "snd (snd (snd (resolve h pol up name q p))) \<in> {p, p1, p2}"
    by (simp add: resolve_def Let_def p1_def p2_def case_prod_beta split: option.split decision.split)
  with assms inv show ?thesis by auto
qed

lemma request_keeps:
  assumes "inv p"
  shows "inv (snd (handle_request h pol up rq ts p))"
proof (cases "\<exists>l. rq_queries rq = [l] \<and> pr_class l = IN \<and> rq_message_type rq = Query_m \<and> rq_op_code rq = Query_o")
  case True
  then obtain l where l: "rq_queries rq = [l]" "pr_class l = IN" "rq_message_type rq = Query_m"
    "rq_op_code rq = Query_o" by blast
  obtain ans out eff p' where
    r: "resolve h pol up (pr_name l) (query_of rq l ts) p = (ans, out, eff, p')"
    by (metis prod_cases4)
  from l r have "snd (handle_request h pol up rq ts p) = record_q pol (query_of rq l ts) out p'"
    by (simp add: handle_request_def query_of_def Let_def)
  with record_keeps resolve_keeps [OF assms r] resolve_few_addresses [OF r] show ?thesis by simp
next
  case False
  then have "snd (handle_request h pol up rq ts p) = p"
    by (auto simp: handle_request_def Let_def split: list.splits)
  with assms show ?thesis by simp
qed

end

end
