(* ===== verification/Engine.thy ===== *)
theory Engine imports Dns Apagon Servers Devices Signals Ledger_Chain begin

text \<open>
  The engine's policy, \<open>crates/cli/src/engine.rs\<close>: what decides a query, looks at its answer and
  writes it down. It is where the parts meet: the resolver of devices, the rules, the declared
  scope, the switch, the classifier, the ledger. \<open>EnginePolicy\<close> implements the resolver's trait
  \<open>Policy\<close>: \<open>engine_policy\<close> is a value of the record \<open>policy\<close> of theory \<open>Dns\<close>.

  A mutex is taken and never poisoned, so its state is plain state. What changes from call to call
  is the record \<open>entorno\<close>: the clocks, what the system's neighbour table says, whether the licence
  reads as Plus. What stays is \<open>engine_cfg\<close>. What only prints is left out.
\<close>

section \<open>State\<close>

record engine_cfg =
  cfg_ext :: externals
  cfg_red :: red_data
  cfg_psl :: psl_reglas
  cfg_lists :: list_data
  cfg_rtype :: "rtype \<Rightarrow> string"
  cfg_apagon :: "string \<Rightarrow> apagon option"
  cfg_profile :: "hours_profile \<Rightarrow> string"
  cfg_apps :: bool

text \<open>\<open>en_plus\<close> is \<open>plus_activo\<close> of the licence's status, \<open>None\<close> when it could not be read.\<close>

record entorno =
  en_now :: int
  en_clock :: int
  en_first :: reading
  en_second :: reading
  en_plus :: "bool option"

record rule_cache =
  rca_rules :: "rule list"
  rca_gratis :: "rule list"
  rca_version :: nat
  rca_checked :: int

record nivel_cache =
  nv_plus :: bool
  nv_visto :: "int option"

record alcance =
  al_cortar :: bool
  al_patrones :: "string list"

record inner =
  inr_ledger :: ledger
  inr_classifier :: classifier
  inr_devices_seen :: "string \<rightharpoonup> int"
  inr_devices_touched :: "string \<rightharpoonup> int"
  inr_rules :: rule_cache
  inr_recorded :: nat
  inr_alcances :: "string \<rightharpoonup> alcance"
  inr_alcances_vistos :: "int option"
  inr_apagon :: apagon
  inr_apagon_visto :: "int option"
  inr_nivel :: nivel_cache

record pending =
  pe_device_id :: string
  pe_ip :: string
  pe_classified :: classified
  pe_fuera_de_alcance :: bool
  pe_por_apagon :: bool
  pe_disfraz_cortado :: "string option"
  pe_first_seen :: int

type_synonym pending_key = "socket_addr \<times> string \<times> string \<times> int"

record salud =
  sa_ok :: nat
  sa_fallos :: nat

record engine =
  eg_inner :: inner
  eg_pending :: "(pending_key \<times> pending) list"
  eg_salud :: salud
  eg_devices :: cache
  eg_cola :: "new_event list"
  eg_nombres :: "(ip \<times> (string \<times> int)) list"

definition NIVEL_CADA :: int where "NIVEL_CADA = 30000"
definition DEVICE_TOUCH_MS :: int where "DEVICE_TOUCH_MS = 60000"
definition MAX_NOMBRES_IP :: nat where "MAX_NOMBRES_IP = 20000"
definition VIGENCIA_NOMBRE_IP_MS :: int where "VIGENCIA_NOMBRE_IP_MS = 6 * 60 * 60 * 1000"
definition ESPERA_APPS_MS :: int where "ESPERA_APPS_MS = 1300"

section \<open>Rules, level, scope and switch\<close>

definition reglas_gratis :: "rule list \<Rightarrow> rule list" where
  "reglas_gratis rs = filter (\<lambda>r. r_match_kind r \<noteq> Category_k) rs"

definition rule_cache_new :: "rule list \<Rightarrow> nat \<Rightarrow> int \<Rightarrow> rule_cache" where
  "rule_cache_new rs version now =
     \<lparr>rca_rules = rs, rca_gratis = reglas_gratis rs, rca_version = version, rca_checked = now\<rparr>"

definition rules_para :: "bool \<Rightarrow> rule_cache \<Rightarrow> rule list" where
  "rules_para pl c = (if pl then rca_rules c else rca_gratis c)"

definition regla_legible :: "rule \<Rightarrow> rule" where
  "regla_legible r =
     (if r_match_kind r \<noteq> Category_k then
        case normalizar_nombre (r_pattern r) of
          None \<Rightarrow> r
        | Some (n, comodin) \<Rightarrow>
            r\<lparr>r_pattern := n, r_match_kind := if comodin then Suffix_k else r_match_kind r\<rparr>
      else r)"

definition reglas_legibles :: "rule list \<Rightarrow> rule list" where
  "reglas_legibles rs = map regla_legible rs"

definition older_than :: "int \<Rightarrow> int \<Rightarrow> int option \<Rightarrow> bool" where
  "older_than age now seen = (case seen of None \<Rightarrow> True | Some t \<Rightarrow> now - t \<ge> age)"

definition plus_of :: "entorno \<Rightarrow> inner \<Rightarrow> bool \<times> inner" where
  "plus_of e i =
     (let i = (if older_than NIVEL_CADA (en_now e) (nv_visto (inr_nivel i))
               then i\<lparr>inr_nivel := \<lparr>nv_plus = (case en_plus e of None \<Rightarrow> True | Some b \<Rightarrow> b),
                                    nv_visto = Some (en_now e)\<rparr>\<rparr>
               else i)
      in (nv_plus (inr_nivel i), i))"

definition cubre :: "alcance \<Rightarrow> string \<Rightarrow> bool" where
  "cubre a name =
     (let n = sin_punto name
      in list_ex (\<lambda>p. n = p \<or> ends_with (''.'' @ p) n) (al_patrones a))"

definition modo_cortar :: "int \<Rightarrow> string \<Rightarrow> bool" where
  "modo_cortar clock modo =
     (case split_once '':'' modo of
        Some (m, hasta) \<Rightarrow>
          if m = ''observar'' then (case parse_i64 hasta of None \<Rightarrow> False | Some t \<Rightarrow> clock \<ge> t)
          else modo = ''cortar''
      | None \<Rightarrow> modo = ''cortar'')"

definition read_alcance :: "int \<Rightarrow> ledger \<Rightarrow> string \<Rightarrow> alcance" where
  "read_alcance clock l dev =
     \<lparr>al_cortar = modo_cortar clock (or_default (setting l (''alcance_modo:'' @ dev))),
      al_patrones = List.map_filter (\<lambda>x. map_option fst (normalizar_nombre x))
        (text_lines (or_default (setting l (''alcance:'' @ dev))))\<rparr>"

definition alcance_de :: "entorno \<Rightarrow> string \<Rightarrow> inner \<Rightarrow> alcance \<times> inner" where
  "alcance_de e dev i0 =
     (let i = (if older_than 2000 (en_now e) (inr_alcances_vistos i0)
               then i0\<lparr>inr_alcances := Map.empty, inr_alcances_vistos := Some (en_now e)\<rparr> else i0)
      in case inr_alcances i dev of
           Some a \<Rightarrow> (a, i)
         | None \<Rightarrow>
             let a = read_alcance (en_clock e) (inr_ledger i) dev
             in (a, i\<lparr>inr_alcances := (inr_alcances i)(dev \<mapsto> a)\<rparr>))"

definition apagon_corta :: "engine_cfg \<Rightarrow> entorno \<Rightarrow> string \<Rightarrow> inner \<Rightarrow> bool \<times> inner" where
  "apagon_corta g e name i0 =
     (let i = (if older_than 2000 (en_now e) (inr_apagon_visto i0)
               then i0\<lparr>inr_apagon := de_ajuste (cfg_apagon g) (setting (inr_ledger i0) AJUSTE_APAGON),
                       inr_apagon_visto := Some (en_now e)\<rparr> else i0)
      in (corta_apagon (inr_apagon i) name, i))"

definition refresh_rules :: "entorno \<Rightarrow> inner \<Rightarrow> inner" where
  "refresh_rules e i =
     (if en_now e - rca_checked (inr_rules i) < 2000 then i
      else
        let c = (inr_rules i)\<lparr>rca_checked := en_now e\<rparr>;
            version = rules_version (inr_ledger i)
        in if version \<noteq> rca_version c then
             i\<lparr>inr_rules := (case rules (inr_ledger i) of
                   Inl _ \<Rightarrow> c
                 | Inr all \<Rightarrow>
                     c\<lparr>rca_rules := reglas_legibles all,
                       rca_gratis := reglas_gratis (reglas_legibles all), rca_version := version\<rparr>),
               inr_devices_seen := Map.empty, inr_devices_touched := Map.empty,
               inr_alcances_vistos := None\<rparr>
           else i\<lparr>inr_rules := c\<rparr>)"

section \<open>Deciding\<close>

text \<open>When the device was first seen, from memory or from the ledger, and its row kept fresh.\<close>

definition seen_of :: "identity \<Rightarrow> string \<Rightarrow> int \<Rightarrow> inner \<Rightarrow> int \<times> inner" where
  "seen_of who ip ts i =
     (case inr_devices_seen i (id_id who) of
        Some t \<Rightarrow> (t, i)
      | None \<Rightarrow>
          (case upsert_device (id_id who) (id_mac who) (Some ip) ts (inr_ledger i) of
             (d, l) \<Rightarrow>
               let first = (case d of Inl _ \<Rightarrow> ts | Inr d \<Rightarrow> d_first_seen d)
               in (first,
                   i\<lparr>inr_ledger := l,
                     inr_devices_seen := (inr_devices_seen i)(id_id who \<mapsto> first),
                     inr_devices_touched := (inr_devices_touched i)(id_id who \<mapsto> ts)\<rparr>)))"

definition touch :: "identity \<Rightarrow> string \<Rightarrow> int \<Rightarrow> inner \<Rightarrow> inner" where
  "touch who ip ts i =
     (if (case inr_devices_touched i (id_id who) of None \<Rightarrow> False | Some t \<Rightarrow> ts - t \<ge> DEVICE_TOUCH_MS)
      then i\<lparr>inr_ledger := snd (upsert_device (id_id who) (id_mac who) (Some ip) ts (inr_ledger i)),
             inr_devices_touched := (inr_devices_touched i)(id_id who \<mapsto> ts)\<rparr>
      else i)"

definition classify_query :: "string \<Rightarrow> string \<Rightarrow> int \<Rightarrow> inner \<Rightarrow> classified \<times> inner" where
  "classify_query dev name ts i =
     (case first_time dev name ts (inr_ledger i) of
        (is_new, l) \<Rightarrow>
          (case classify \<lparr>in_device_id = dev, in_name = name, in_ts = ts, in_first_time = is_new\<rparr>
                  (inr_classifier i) of
             (c, cf) \<Rightarrow> (c, i\<lparr>inr_ledger := l, inr_classifier := cf\<rparr>)))"

text \<open>The declared scope, asked only where no rule decided.\<close>

definition scope_cuts ::
    "entorno \<Rightarrow> bool \<Rightarrow> string \<Rightarrow> string \<Rightarrow> category \<Rightarrow> int \<Rightarrow> inner \<Rightarrow> bool \<times> inner" where
  "scope_cuts e pl dev name cat obs_ms i =
     (case alcance_de e dev i of
        (a, i) \<Rightarrow>
          (pl \<and> al_cortar a \<and> al_patrones a \<noteq> [] \<and> \<not> cubre a name \<and> cat \<noteq> Esperado \<and>
           observation_complete obs_ms, i))"

definition key_of :: "engine_cfg \<Rightarrow> query \<Rightarrow> pending_key" where
  "key_of g q = (qu_client q, qu_name q, cfg_rtype g (qu_qtype q), qu_ts q)"

definition put_pending :: "pending_key \<Rightarrow> pending \<Rightarrow> (pending_key \<times> pending) list \<Rightarrow> (pending_key \<times> pending) list" where
  "put_pending k p ps =
     (let ps = AList.update k p ps in if length ps > 10000 then [] else ps)"

definition rule_query :: "string \<Rightarrow> string \<Rightarrow> category \<Rightarrow> int \<Rightarrow> rule_input" where
  "rule_query dev name cat obs_ms =
     \<lparr>ri_device_id = dev, ri_name = name, ri_category = cat, ri_observed_ms = obs_ms\<rparr>"

text \<open>What is cut and why: by a rule, by the scope, by the switch.\<close>

definition verdict_on ::
    "engine_cfg \<Rightarrow> entorno \<Rightarrow> bool \<Rightarrow> string \<Rightarrow> string \<Rightarrow> category \<Rightarrow> int \<Rightarrow> int \<Rightarrow> inner \<Rightarrow>
     decision \<times> bool \<times> bool \<times> inner" where
  "verdict_on g e pl dev name cat ts first_seen i0 =
     (let i1 = refresh_rules e i0;
          regla = decide (rules_para pl (inr_rules i1)) (rule_query dev name cat (ts - first_seen)) ts;
          by_rule = (case regla of
              Some r \<Rightarrow> if r_action r = Cortar then Block (Some (r_id r)) else Forward
            | None \<Rightarrow> Forward);
          (fuera, i2) = (if by_rule = Forward \<and> regla = None
                         then scope_cuts e pl dev name cat (ts - first_seen) i1 else (False, i1));
          d2 = (if fuera then Block None else by_rule);
          (apagado, i3) = (if d2 = Forward \<and> dev = SELF_DEVICE_ID
                           then apagon_corta g e name i2 else (False, i2))
      in (if apagado then Block None else d2, fuera, apagado, i3))"

definition decide_e :: "engine_cfg \<Rightarrow> entorno \<Rightarrow> query \<Rightarrow> engine \<Rightarrow> decision \<times> engine" where
  "decide_e g e q s =
     (case identify DEFAULT_TTL (en_now e) (en_first e) (en_second e) (fst (qu_client q)) (eg_devices s) of
        (who, devs) \<Rightarrow>
          (case plus_of e (eg_inner s) of
             (pl, i0) \<Rightarrow>
               if \<not> pl \<and> id_id who \<noteq> SELF_DEVICE_ID
               then (Forward, s\<lparr>eg_devices := devs, eg_inner := i0\<rparr>)
               else
                 let ip = show_ip (fst (qu_client q));
                     dev = id_id who;
                     (first_seen, i1) = seen_of who ip (qu_ts q) i0;
                     (c, i2) = classify_query dev (qu_name q) (qu_ts q) (touch who ip (qu_ts q) i1);
                     (d, fuera, apagado, i3) =
                       verdict_on g e pl dev (qu_name q) (cl_category c) (qu_ts q) first_seen i2
                 in (d, s\<lparr>eg_devices := devs, eg_inner := i3,
                          eg_pending := put_pending (key_of g q)
                            \<lparr>pe_device_id = dev, pe_ip = ip, pe_classified = c,
                             pe_fuera_de_alcance = fuera, pe_por_apagon = apagado,
                             pe_disfraz_cortado = None, pe_first_seen = first_seen\<rparr>
                            (eg_pending s)\<rparr>)))"

section \<open>After the answer\<close>

definition after_answer_e ::
    "engine_cfg \<Rightarrow> entorno \<Rightarrow> query \<Rightarrow> string list \<Rightarrow> engine \<Rightarrow> decision \<times> engine" where
  "after_answer_e g e q aliases s =
     (case map_of (eg_pending s) (key_of g q) of
        None \<Rightarrow> (Forward, s)
      | Some p \<Rightarrow>
          (case cloaked (cfg_psl g) (cfg_lists g) (cf_catalog (inr_classifier (eg_inner s)))
                  (qu_name q) aliases of
             None \<Rightarrow> (Forward, s)
           | Some (site, categoria) \<Rightarrow>
               (case plus_of e (refresh_rules e (eg_inner s)) of
                  (pl, i) \<Rightarrow>
                    (case decide_cloaked (rules_para pl (inr_rules i))
                            (rule_query (pe_device_id p) (qu_name q) categoria (qu_ts q - pe_first_seen p))
                            (cl_category (pe_classified p)) (qu_ts q) of
                       Some r \<Rightarrow>
                         (Block (Some (r_id r)),
                          s\<lparr>eg_inner := i,
                            eg_pending := AList.update (key_of g q)
                              (p\<lparr>pe_disfraz_cortado := Some site\<rparr>) (eg_pending s)\<rparr>)
                     | None \<Rightarrow> (Forward, s\<lparr>eg_inner := i\<rparr>)))))"

section \<open>Writing it down\<close>

definition anota_salud :: "outcome \<Rightarrow> salud \<Rightarrow> salud" where
  "anota_salud out s =
     (case out of
        Forwarded _ _ _ _ \<Rightarrow> s\<lparr>sa_ok := sa_ok s + 1\<rparr>
      | UpstreamFailed \<Rightarrow> s\<lparr>sa_fallos := sa_fallos s + 1\<rparr>
      | _ \<Rightarrow> s)"

definition volcar_perfiles :: "engine_cfg \<Rightarrow> inner \<Rightarrow> inner" where
  "volcar_perfiles g i =
     (case take_dirty_profiles (inr_classifier i) of
        (dirty, cf) \<Rightarrow>
          i\<lparr>inr_classifier := cf,
            inr_ledger := foldl (\<lambda>l (dev, p). set_hours_profile dev (cfg_profile g p) l) (inr_ledger i) dirty\<rparr>)"

text \<open>What \<open>decide\<close> would have noted for a query the resolver answered by itself.\<close>

definition sin_decidir :: "engine_cfg \<Rightarrow> entorno \<Rightarrow> query \<Rightarrow> engine \<Rightarrow> pending option \<times> engine" where
  "sin_decidir g e q s =
     (case identify DEFAULT_TTL (en_now e) (en_first e) (en_second e) (fst (qu_client q)) (eg_devices s) of
        (who, devs) \<Rightarrow>
          (case plus_of e (eg_inner s) of
             (pl, i0) \<Rightarrow>
               if \<not> pl \<and> id_id who \<noteq> SELF_DEVICE_ID
               then (None, s\<lparr>eg_devices := devs, eg_inner := i0\<rparr>)
               else
                 (case classify_query (id_id who) (qu_name q) (qu_ts q) i0 of
                    (c, i1) \<Rightarrow>
                      (Some \<lparr>pe_device_id = id_id who, pe_ip = show_ip (fst (qu_client q)),
                        pe_classified = c, pe_fuera_de_alcance = False, pe_por_apagon = False,
                        pe_disfraz_cortado = None, pe_first_seen = qu_ts q\<rparr>,
                       s\<lparr>eg_devices := devs, eg_inner := i1\<rparr>))))"

definition verdict_of_outcome :: "outcome \<Rightarrow> (verdict \<times> decided_by \<times> int option) option" where
  "verdict_of_outcome out =
     (case out of
        Refused_o \<Rightarrow> None
      | Forwarded _ _ _ _ \<Rightarrow> Some (Observado, Nadie, None)
      | UpstreamFailed \<Rightarrow> Some (Observado, Nadie, None)
      | Canary \<Rightarrow> Some (Respondido, Nadie, None)
      | Checker \<Rightarrow> Some (Respondido, Nadie, None)
      | Blocked rule_id \<Rightarrow> Some (Cortado, ReglaUsuario, rule_id))"

definition who_decided :: "pending \<Rightarrow> verdict \<Rightarrow> decided_by \<Rightarrow> decided_by" where
  "who_decided p v d =
     (if pe_por_apagon p \<and> v = Cortado then ModoApagon
      else if pe_fuera_de_alcance p \<and> v = Cortado then AlcanceDeclarado
      else d)"

definition remember_names ::
    "query \<Rightarrow> ip list \<Rightarrow> (ip \<times> (string \<times> int)) list \<Rightarrow> (ip \<times> (string \<times> int)) list" where
  "remember_names q addrs m =
     (let m1 = (if length m \<ge> MAX_NOMBRES_IP then
                  let kept = filter (\<lambda>(_, (_, ts)). ts \<ge> qu_ts q - VIGENCIA_NOMBRE_IP_MS) m
                  in if length kept \<ge> MAX_NOMBRES_IP then [] else kept
                else m)
      in foldl (\<lambda>m a. AList.update a (sin_punto (qu_name q), qu_ts q) m) m1 addrs)"

fun sitios_desde :: "psl_reglas \<Rightarrow> string \<Rightarrow> nat \<Rightarrow> string list \<Rightarrow> string list \<Rightarrow> string list" where
  "sitios_desde r own max_n out [] = out"
| "sitios_desde r own max_n out (alias # chain) =
     (let s = sitio_de_alias r alias
      in if is_ip alias then sitios_desde r own max_n out chain
         else if s = [] \<or> CHR ''.'' \<notin> set s \<or> s = own \<or> s \<in> set out
         then sitios_desde r own max_n out chain
         else if length (out @ [s]) \<ge> max_n then out @ [s]
         else sitios_desde r own max_n (out @ [s]) chain)"

definition sitios_de_cadena :: "psl_reglas \<Rightarrow> string \<Rightarrow> string list \<Rightarrow> nat \<Rightarrow> string list" where
  "sitios_de_cadena r qname chain max_n = sitios_desde r (sitio r qname) max_n [] chain"

definition event_for ::
    "engine_cfg \<Rightarrow> catalog \<Rightarrow> query \<Rightarrow> outcome \<Rightarrow> pending \<Rightarrow> verdict \<times> decided_by \<times> int option \<Rightarrow> new_event" where
  "event_for g cat q out p vd =
     (case vd of
        (v, d, rule_id) \<Rightarrow>
          (observed (qu_ts q) (pe_device_id p) (pe_ip p) (qu_name q) (cfg_rtype g (qu_qtype q)))
            \<lparr>ne_category := cl_category (pe_classified p),
             ne_list_source := cl_list_source (pe_classified p),
             ne_signals := cl_signals (pe_classified p),
             ne_verdict := v, ne_decided_by := who_decided p v d, ne_rule_id := rule_id,
             ne_server := (case out of
                 Forwarded _ (Some a) _ _ \<Rightarrow> Some (server_info_de (cfg_red g) a)
               | _ \<Rightarrow> None),
             ne_cname_target :=
               (if v = Cortado \<and> pe_disfraz_cortado p \<noteq> None then pe_disfraz_cortado p
                else case out of
                       Forwarded _ _ _ aliases \<Rightarrow>
                         if aliases \<noteq> [] then cloaked_target (cfg_psl g) (cfg_lists g) cat (qu_name q) aliases
                         else None
                     | _ \<Rightarrow> None)\<rparr>)"

definition note_sites :: "engine_cfg \<Rightarrow> query \<Rightarrow> outcome \<Rightarrow> pending \<Rightarrow> ledger \<Rightarrow> ledger" where
  "note_sites g q out p l =
     (case out of
        Forwarded _ _ _ aliases \<Rightarrow>
          if aliases \<noteq> [] \<and> (pe_device_id p = SELF_DEVICE_ID \<or> shares_detail l (pe_device_id p))
          then note_alias_sites is_ip (qu_name q)
                 (sitios_de_cadena (cfg_psl g) (qu_name q) aliases MAX_ALIAS_SITES) (qu_ts q) l
          else l
      | _ \<Rightarrow> l)"

definition names_after :: "query \<Rightarrow> outcome \<Rightarrow> pending \<Rightarrow> (ip \<times> (string \<times> int)) list \<Rightarrow> (ip \<times> (string \<times> int)) list" where
  "names_after q out p m =
     (case out of
        Forwarded _ (Some a) otras _ \<Rightarrow>
          if pe_device_id p = SELF_DEVICE_ID then remember_names q (a # otras) m else m
      | _ \<Rightarrow> m)"

definition count_record :: "engine_cfg \<Rightarrow> inner \<Rightarrow> inner" where
  "count_record g i =
     (let i = i\<lparr>inr_recorded := inr_recorded i + 1\<rparr>
      in if inr_recorded i mod 50 = 0 then volcar_perfiles g i else i)"

definition write_down ::
    "engine_cfg \<Rightarrow> query \<Rightarrow> outcome \<Rightarrow> pending \<Rightarrow> verdict \<times> decided_by \<times> int option \<Rightarrow> engine \<Rightarrow> engine" where
  "write_down g q out p vd s =
     (let i = eg_inner s;
          ev = event_for g (cf_catalog (inr_classifier i)) q out p vd;
          i1 = count_record g (i\<lparr>inr_ledger := note_sites g q out p (inr_ledger i)\<rparr>);
          s1 = s\<lparr>eg_nombres := names_after q out p (eg_nombres s), eg_inner := i1\<rparr>
      in if pe_device_id p = SELF_DEVICE_ID \<and> cfg_apps g \<and> length (eg_cola s) < 10000
         then s1\<lparr>eg_cola := eg_cola s @ [ev]\<rparr>
         else s1\<lparr>eg_inner := i1\<lparr>inr_ledger := snd (append (cfg_ext g) ev (inr_ledger i1))\<rparr>\<rparr>)"

definition record_e :: "engine_cfg \<Rightarrow> entorno \<Rightarrow> query \<Rightarrow> outcome \<Rightarrow> engine \<Rightarrow> engine" where
  "record_e g e q out s0 =
     (let s = s0\<lparr>eg_salud := anota_salud out (eg_salud s0)\<rparr>
      in case verdict_of_outcome out of
           None \<Rightarrow> s
         | Some vd \<Rightarrow>
             (case map_of (eg_pending s) (key_of g q) of
                Some p \<Rightarrow>
                  write_down g q out p vd (s\<lparr>eg_pending := AList.delete (key_of g q) (eg_pending s)\<rparr>)
              | None \<Rightarrow>
                  if out = Canary then
                    (case sin_decidir g e q s of
                       (None, s) \<Rightarrow> s
                     | (Some p, s) \<Rightarrow> write_down g q out p vd s)
                  else s))"

text \<open>The policy, with what the three calls of one request find around them.\<close>

definition engine_policy :: "engine_cfg \<Rightarrow> entorno \<times> entorno \<times> entorno \<Rightarrow> engine policy" where
  "engine_policy g es =
     (case es of
        (e1, e2, e3) \<Rightarrow>
          \<lparr>decide_q = decide_e g e1, after_answer = after_answer_e g e2, record_q = record_e g e3\<rparr>)"

section \<open>The minute and the queue\<close>

definition minuto_sin_arriba :: "nat \<Rightarrow> nat \<Rightarrow> bool" where
  "minuto_sin_arriba ok fallos \<longleftrightarrow> ok = 0 \<and> fallos \<ge> 3"

datatype paso = Nada_p | Comprobar | Sondear

definition aparte_minuto :: "bool \<Rightarrow> nat \<Rightarrow> nat \<Rightarrow> paso" where
  "aparte_minuto apartado ok fallos =
     (if apartado then Sondear else if minuto_sin_arriba ok fallos then Comprobar else Nada_p)"

definition salud_minuto :: "salud \<Rightarrow> (nat \<times> nat) \<times> salud" where
  "salud_minuto s = ((sa_ok s, sa_fallos s), \<lparr>sa_ok = 0, sa_fallos = 0\<rparr>)"

text \<open>One beat of the task that empties the queue: what has waited long enough leaves it, in order;
  \<open>opens\<close> says whether the ledger could be opened and \<open>who_asked\<close> is what the system tells of the
  program behind a name.\<close>

definition ready :: "int \<Rightarrow> new_event \<Rightarrow> bool" where
  "ready ahora ev \<longleftrightarrow> ahora - ne_ts ev \<ge> ESPERA_APPS_MS"

definition append_all :: "externals \<Rightarrow> new_event list \<Rightarrow> ledger \<Rightarrow> ledger" where
  "append_all x evs l = foldl (\<lambda>l ev. snd (append x ev l)) l evs"

definition vacia_cola ::
    "engine_cfg \<Rightarrow> (string \<Rightarrow> int \<Rightarrow> proceso option) \<Rightarrow> int \<Rightarrow> bool \<Rightarrow> engine \<Rightarrow> engine" where
  "vacia_cola g who_asked ahora opens s =
     (let listos = takeWhile (ready ahora) (eg_cola s);
          s1 = s\<lparr>eg_cola := dropWhile (ready ahora) (eg_cola s)\<rparr>
      in if listos = [] \<or> \<not> opens then s1
         else s1\<lparr>eg_inner := (eg_inner s1)\<lparr>inr_ledger :=
                append_all (cfg_ext g)
                  (map (\<lambda>ev. ev\<lparr>ne_process := who_asked (ne_qname ev) (ne_ts ev)\<rparr>) listos)
                  (inr_ledger (eg_inner s1))\<rparr>\<rparr>)"

text \<open>The end of a pass: what waits in the queue is written as it is, then the profiles.\<close>

definition vacia_al_cerrar :: "engine_cfg \<Rightarrow> bool \<Rightarrow> engine \<Rightarrow> engine" where
  "vacia_al_cerrar g opens s =
     (if \<not> cfg_apps g then s
      else
        let pendientes = eg_cola s; s1 = s\<lparr>eg_cola := []\<rparr>
        in if pendientes = [] \<or> \<not> opens then s1
           else s1\<lparr>eg_inner := (eg_inner s1)\<lparr>inr_ledger :=
                  append_all (cfg_ext g) pendientes (inr_ledger (eg_inner s1))\<rparr>\<rparr>)"

definition al_cerrar :: "engine_cfg \<Rightarrow> engine \<Rightarrow> engine" where
  "al_cerrar g s = s\<lparr>eg_inner := volcar_perfiles g (eg_inner s)\<rparr>"

end
