(* ===== verification/Engine_Facts.thy ===== *)
theory Engine_Facts imports Engine Ledger_Properties begin

text \<open>
  What the engine promises. A request leaves one row that says what was answered; a cut has a
  reason the code names, and none of them reaches what must not be cut; at the free level nothing
  of another device is kept; and through any sequence of requests the ledger verifies and what is
  held in memory stays bounded.
\<close>

abbreviation led :: "engine \<Rightarrow> ledger" where
  "led s \<equiv> inr_ledger (eg_inner s)"

section \<open>Only a row touches the chain\<close>

lemma plus_of_parts [simp]:
  "inr_ledger (snd (plus_of e i)) = inr_ledger i" "inr_classifier (snd (plus_of e i)) = inr_classifier i"
  "inr_rules (snd (plus_of e i)) = inr_rules i" "inr_alcances (snd (plus_of e i)) = inr_alcances i"
  by (simp_all add: plus_of_def Let_def)

lemma alcance_de_ledger [simp]: "inr_ledger (snd (alcance_de e dev i)) = inr_ledger i"
  by (simp add: alcance_de_def Let_def split: option.split)

lemma scope_cuts_ledger: "scope_cuts e pl dev n c t i = (f, j) \<Longrightarrow> inr_ledger j = inr_ledger i"
  using alcance_de_ledger [of e dev i] by (cases "alcance_de e dev i") (simp add: scope_cuts_def)

lemma apagon_corta_ledger: "apagon_corta g e n i = (a, j) \<Longrightarrow> inr_ledger j = inr_ledger i"
  by (auto simp: apagon_corta_def Let_def)

lemma refresh_rules_ledger [simp]: "inr_ledger (refresh_rules e i) = inr_ledger i"
  by (simp add: refresh_rules_def Let_def)

text \<open>The three sources of a cut, in the order the code asks them.\<close>

lemma verdict_on_cases:
  assumes "verdict_on g e pl dev n c ts fs i = (d, f, a, j)"
  defines "regla \<equiv> decide (rules_para pl (inr_rules (refresh_rules e i))) (rule_query dev n c (ts - fs)) ts"
  obtains
    (rule) r where "regla = Some r" "r_action r = Cortar" "d = Block (Some (r_id r))" "\<not> f" "\<not> a"
      "j = refresh_rules e i"
  | (scope) "regla = None" "scope_cuts e pl dev n c (ts - fs) (refresh_rules e i) = (True, j)"
      "d = Block None" "f" "\<not> a"
  | (switch) i2 where "dev = SELF_DEVICE_ID" "apagon_corta g e n i2 = (True, j)" "d = Block None"
      "\<not> f" "a" "inr_ledger i2 = inr_ledger i"
  | (pass) "d = Forward" "\<not> f" "\<not> a" "inr_ledger j = inr_ledger i"
proof -
  let ?i1 = "refresh_rules e i"
  define sc where "sc = scope_cuts e pl dev n c (ts - fs) ?i1"
  define by_rule where "by_rule = (case regla of
      Some r \<Rightarrow> if r_action r = Cortar then Block (Some (r_id r)) else Forward | None \<Rightarrow> Forward)"
  define st where "st = (if by_rule = Forward \<and> regla = None then sc else (False, ?i1))"
  define d2 where "d2 = (if fst st then Block None else by_rule)"
  define sw where "sw = (if d2 = Forward \<and> dev = SELF_DEVICE_ID then apagon_corta g e n (snd st) else (False, snd st))"
  have v: "(d, f, a, j) = (if fst sw then Block None else d2, fst st, fst sw, snd sw)"
    using assms(1)
    by (simp only: verdict_on_def Let_def case_prod_beta sw_def d2_def st_def sc_def by_rule_def regla_def)
  have st_led: "inr_ledger (snd st) = inr_ledger i"
    using scope_cuts_ledger [of e pl dev n c "ts - fs" ?i1 "fst sc" "snd sc"]
    by (simp add: st_def sc_def)
  show ?thesis
  proof (cases "fst sw")
    case True
    then have "d2 = Forward" "dev = SELF_DEVICE_ID" "apagon_corta g e n (snd st) = (True, snd sw)"
      by (auto simp: sw_def prod_eq_iff split: if_splits)
    moreover from this(1) have "\<not> fst st" by (auto simp: d2_def)
    ultimately show ?thesis using switch [of "snd st"] v st_led True by auto
  next
    case no_sw: False
    have j: "inr_ledger (snd sw) = inr_ledger i"
      using apagon_corta_ledger [of g e n "snd st" "fst sw" "snd sw"] st_led by (auto simp: sw_def)
    show ?thesis
    proof (cases "fst st")
      case True
      then have "regla = None" "sc = (True, snd st)" by (auto simp: st_def prod_eq_iff split: if_splits)
      moreover have "snd sw = snd st" using True by (auto simp: sw_def d2_def)
      ultimately show ?thesis using scope v no_sw True by (auto simp: sc_def d2_def)
    next
      case False
      show ?thesis
      proof (cases by_rule)
        case Forward
        with pass v no_sw False j show ?thesis by (auto simp: d2_def)
      next
        case (Block x)
        then obtain r where "regla = Some r" "r_action r = Cortar" "by_rule = Block (Some (r_id r))"
          by (auto simp: by_rule_def split: option.splits if_splits)
        moreover from this have "snd sw = ?i1" using False by (auto simp: sw_def d2_def st_def)
        ultimately show ?thesis using rule v no_sw False by (auto simp: d2_def)
      qed
    qed
  qed
qed

lemma verdict_on_ledger:
  assumes "verdict_on g e pl dev n c ts fs i = (d, f, a, j)"
  shows "inr_ledger j = inr_ledger i"
  using assms
  by (cases rule: verdict_on_cases) (auto dest: scope_cuts_ledger apagon_corta_ledger)

lemma seen_of_frame:
  assumes "seen_of who ip ts i = (t, j)"
  shows "same_chain (inr_ledger i) (inr_ledger j)"
proof (cases "inr_devices_seen i (id_id who)")
  case None
  then have "inr_ledger j = snd (upsert_device (id_id who) (id_mac who) (Some ip) ts (inr_ledger i))"
    using assms by (auto simp: seen_of_def Let_def split: prod.splits)
  then show ?thesis by (simp add: chain_frame)
next
  case (Some u)
  with assms show ?thesis by (simp add: seen_of_def chain_frame)
qed

lemma touch_frame: "same_chain (inr_ledger i) (inr_ledger (touch who ip ts i))"
  by (simp add: touch_def chain_frame)

lemma classify_query_frame:
  "classify_query dev n ts i = (c, j) \<Longrightarrow> same_chain (inr_ledger i) (inr_ledger j)"
  using first_time_frame [of "inr_ledger i" dev n ts]
  by (auto simp: classify_query_def split: prod.splits)

lemma classify_query_rules: "classify_query dev n ts i = (c, j) \<Longrightarrow> inr_rules j = inr_rules i"
  by (auto simp: classify_query_def split: prod.splits)

lemma seen_of_rules: "seen_of who ip ts i = (t, j) \<Longrightarrow> inr_rules j = inr_rules i"
  by (auto simp: seen_of_def Let_def split: option.splits prod.splits)

lemma touch_rules [simp]: "inr_rules (touch who ip ts i) = inr_rules i"
  by (simp add: touch_def)

text \<open>Whether a query is looked at: this computer's always, another device's with Plus.\<close>

definition asker :: "entorno \<Rightarrow> query \<Rightarrow> engine \<Rightarrow> identity \<times> cache" where
  "asker e q s = identify DEFAULT_TTL (en_now e) (en_first e) (en_second e) (fst (qu_client q)) (eg_devices s)"

definition watched :: "entorno \<Rightarrow> query \<Rightarrow> engine \<Rightarrow> bool" where
  "watched e q s \<longleftrightarrow> fst (plus_of e (eg_inner s)) \<or> id_id (fst (asker e q s)) = SELF_DEVICE_ID"

lemma decide_unwatched:
  "\<not> watched e q s \<Longrightarrow> decide_e g e q s =
   (Forward, s\<lparr>eg_devices := snd (asker e q s), eg_inner := snd (plus_of e (eg_inner s))\<rparr>)"
  by (simp add: watched_def asker_def decide_e_def case_prod_beta)

lemma decide_watched:
  assumes "watched e q s"
  obtains d p i2 i3 where
    "decide_e g e q s = (d, s\<lparr>eg_devices := snd (asker e q s), eg_inner := i3,
       eg_pending := put_pending (key_of g q) p (eg_pending s)\<rparr>)"
    "verdict_on g e (fst (plus_of e (eg_inner s))) (pe_device_id p) (qu_name q)
       (cl_category (pe_classified p)) (qu_ts q) (pe_first_seen p) i2 =
     (d, pe_fuera_de_alcance p, pe_por_apagon p, i3)"
    "pe_device_id p = id_id (fst (asker e q s))" "pe_disfraz_cortado p = None"
    "same_chain (led s) (inr_ledger i3)" "inr_rules i2 = inr_rules (eg_inner s)"
proof -
  let ?who = "fst (asker e q s)" and ?pl = "fst (plus_of e (eg_inner s))"
  let ?ip = "show_ip (fst (qu_client q))" and ?i0 = "snd (plus_of e (eg_inner s))"
  obtain fs i1 where i1: "seen_of ?who ?ip (qu_ts q) ?i0 = (fs, i1)" by fastforce
  obtain c i2 where i2: "classify_query (id_id ?who) (qu_name q) (qu_ts q) (touch ?who ?ip (qu_ts q) i1) = (c, i2)"
    by fastforce
  obtain d f a i3 where i3: "verdict_on g e ?pl (id_id ?who) (qu_name q) (cl_category c) (qu_ts q) fs i2 = (d, f, a, i3)"
    by (metis prod_cases4)
  define p where "p = \<lparr>pe_device_id = id_id ?who, pe_ip = ?ip, pe_classified = c,
    pe_fuera_de_alcance = f, pe_por_apagon = a, pe_disfraz_cortado = None, pe_first_seen = fs\<rparr>"
  have "(\<not> ?pl \<and> id_id ?who \<noteq> SELF_DEVICE_ID) = False" using assms by (simp add: watched_def)
  then have "decide_e g e q s = (d, s\<lparr>eg_devices := snd (asker e q s), eg_inner := i3,
      eg_pending := put_pending (key_of g q) p (eg_pending s)\<rparr>)"
    using i1 i2 i3 unfolding decide_e_def asker_def [symmetric] case_prod_beta
    by (simp only: if_False Let_def prod.case fst_conv snd_conv p_def split: prod.split)
  moreover have "same_chain (led s) (inr_ledger i3)"
    using seen_of_frame [OF i1] touch_frame [of i1 ?who ?ip "qu_ts q"] classify_query_frame [OF i2]
      verdict_on_ledger [OF i3] by (metis plus_of_parts(1) same_chain_trans)
  moreover have "verdict_on g e ?pl (pe_device_id p) (qu_name q) (cl_category (pe_classified p)) (qu_ts q)
      (pe_first_seen p) i2 = (d, pe_fuera_de_alcance p, pe_por_apagon p, i3)"
    using i3 by (simp add: p_def)
  moreover have "inr_rules i2 = inr_rules (eg_inner s)"
    using seen_of_rules [OF i1] classify_query_rules [OF i2] by simp
  ultimately show ?thesis using that [of d p i3 i2] by (simp add: p_def)
qed

lemma decide_frame: "same_chain (led s) (led (snd (decide_e g e q s)))"
proof (cases "watched e q s")
  case True
  then show ?thesis by (rule decide_watched [where g = g]) simp
next
  case False
  then show ?thesis by (simp add: decide_unwatched chain_frame)
qed

lemma after_answer_frame: "led (snd (after_answer_e g e q as s)) = led s"
  by (auto simp: after_answer_e_def split: option.split prod.split)
    (metis plus_of_parts(1) refresh_rules_ledger snd_conv)+

section \<open>A concrete engine, for the witnesses\<close>

definition sample_rule_t :: rule where
  "sample_rule_t = \<lparr>r_id = 1, r_scope = Device_s, r_device_id = Some ''self'', r_match_kind = Domain_k,
     r_pattern = ''t.co'', r_action = Cortar, r_created_at = 0, r_created_by = ''u'',
     r_expires_at = None, r_undone_at = None, r_confirmed = True\<rparr>"

definition sample_cfg :: engine_cfg where
  "sample_cfg = \<lparr>cfg_ext = sample_ext,
     cfg_red = \<lparr>IP_PAIS = [], IP_RED = [], RED_IP_JSON = [], ANYCAST = [], fuente_from_json = (\<lambda>_. None)\<rparr>,
     cfg_psl = \<lparr>normales = [], comodines = [], excepciones = [], privados = []\<rparr>,
     cfg_lists = \<lparr>CORREDORES = [], EMPRESAS = [], EMPRESAS_MUNDO = [], IA = [], ENTREGA = [],
       ALOJAMIENTO = [], SECTORES = [], ESPERADO = [], TELEMETRIA = [], EASYPRIVACY = [],
       PETERLOWE = [], EVASION_DNS = [], SUBASTAS = []\<rparr>,
     cfg_rtype = (\<lambda>_. ''A''), cfg_apagon = (\<lambda>_. None), cfg_profile = (\<lambda>_. []), cfg_apps = False\<rparr>"

definition sample_entorno :: entorno where
  "sample_entorno = \<lparr>en_now = 0, en_clock = 0, en_first = \<lparr>rd_neighbors = [], rd_lan = None\<rparr>,
     en_second = \<lparr>rd_neighbors = [], rd_lan = None\<rparr>, en_plus = Some False\<rparr>"

definition sample_engine :: engine where
  "sample_engine = \<lparr>
     eg_inner = \<lparr>inr_ledger = sample_ledger, inr_classifier = classifier_new Catalog_new,
       inr_devices_seen = Map.empty, inr_devices_touched = Map.empty,
       inr_rules = rule_cache_new [sample_rule_t] 0 0, inr_recorded = 0, inr_alcances = Map.empty,
       inr_alcances_vistos = None, inr_apagon = default_apagon, inr_apagon_visto = None,
       inr_nivel = \<lparr>nv_plus = False, nv_visto = Some 0\<rparr>\<rparr>,
     eg_pending = [], eg_salud = \<lparr>sa_ok = 0, sa_fallos = 0\<rparr>, eg_devices = resolver_new,
     eg_cola = [], eg_nombres = []\<rparr>"

definition sample_query :: query where
  "sample_query = \<lparr>qu_client = (V4 127 0 0 1, 5000), qu_name = ''t.co'', qu_qtype = A_t, qu_ts = 5\<rparr>"

lemma sample_watched: "watched sample_entorno sample_query sample_engine"
  by (simp add: watched_def asker_def identify_def sample_query_def propio_def)

lemma sample_cuts: "decide [sample_rule_t] (rule_query SELF_DEVICE_ID ''t.co'' c obs) 5 = Some sample_rule_t"
proof -
  have "name_matches Domain_k ''t.co'' ''t.co'' c" by (cases c) code_simp+
  then show ?thesis
    by (simp add: decide_def sample_rule_t_def rule_query_def candidate_simps candidate_def SELF_DEVICE_ID_def)
qed

lemma sample_verdict:
  assumes "inr_rules i = inr_rules (eg_inner sample_engine)"
  shows "verdict_on g sample_entorno pl SELF_DEVICE_ID ''t.co'' c 5 fs i = (Block (Some 1), False, False, i)"
proof -
  have "refresh_rules sample_entorno i = i" "rules_para pl (inr_rules i) = [sample_rule_t]"
    using assms by (simp_all add: refresh_rules_def sample_entorno_def sample_engine_def rule_cache_new_def
        rules_para_def reglas_gratis_def sample_rule_t_def)
  then show ?thesis by (simp add: verdict_on_def sample_cuts) (simp add: sample_rule_t_def)
qed

lemma sample_decides: "fst (decide_e sample_cfg sample_entorno sample_query sample_engine) = Block (Some 1)"
proof -
  have who: "id_id (fst (asker sample_entorno sample_query sample_engine)) = SELF_DEVICE_ID"
    by (simp add: asker_def identify_def sample_query_def propio_def)
  have q: "qu_name sample_query = ''t.co''" "qu_ts sample_query = 5" by (simp_all add: sample_query_def)
  show ?thesis
    by (rule decide_watched [OF sample_watched, of sample_cfg]) (use who q in \<open>auto simp: sample_verdict\<close>)
qed

section \<open>Every cut has its reason\<close>

lemma put_pending_get:
  "length ps < 10000 \<Longrightarrow> map_of (put_pending k p ps) k = Some p"
proof -
  assume l: "length ps < 10000"
  have "length (AList.update k p ps) \<le> length ps + 1" by (induction ps) auto
  with l show ?thesis by (simp add: put_pending_def Let_def update_conv')
qed

text \<open>What the declared scope and the switch forbid, said of the names themselves.\<close>

definition hangs_from :: "string \<Rightarrow> string \<Rightarrow> bool" where
  "hangs_from p name \<longleftrightarrow> sin_punto name = p \<or> (\<exists>r. sin_punto name = r @ ''.'' @ p)"

definition scope_forbids :: "alcance \<Rightarrow> string \<Rightarrow> bool" where
  "scope_forbids a name \<longleftrightarrow>
     al_cortar a \<and> al_patrones a \<noteq> [] \<and> (\<forall>p \<in> set (al_patrones a). \<not> hangs_from p name)"

definition switch_forbids :: "apagon \<Rightarrow> string \<Rightarrow> bool" where
  "switch_forbids a name \<longleftrightarrow>
     ap_activo a \<and> sin_punto name \<noteq> [] \<and> esencial name = None \<and>
     (\<forall>p \<in> set (ap_aprobados a). \<not> hangs_from p name)"

lemma cubre_iff: "cubre a name \<longleftrightarrow> (\<exists>p \<in> set (al_patrones a). hangs_from p name)"
  by (auto simp: cubre_def Let_def list_ex_iff hangs_from_def ends_with_iff)

lemma corta_switch: "corta_apagon a name \<longleftrightarrow> switch_forbids a name"
  by (auto simp: corta_iff switch_forbids_def hangs_from_def bajo_iff)

text \<open>What is kept in memory of the rules, the scopes and the switch.\<close>

definition memory :: "inner \<Rightarrow> rule_cache \<times> (string \<rightharpoonup> alcance) \<times> int option \<times> apagon \<times> int option" where
  "memory i = (inr_rules i, inr_alcances i, inr_alcances_vistos i, inr_apagon i, inr_apagon_visto i)"

lemma memory_kept [simp]:
  "memory (snd (plus_of e i)) = memory i" "memory (touch who ip ts i) = memory i"
  "memory (snd (seen_of who ip ts i)) = memory i" "memory (snd (classify_query dev n ts i)) = memory i"
  by (simp_all add: memory_def plus_of_def touch_def seen_of_def classify_query_def Let_def case_prod_beta
      split: option.split)

lemma upsert_seen [simp]: "lg_seen (snd (upsert_device i m p now l)) = lg_seen l"
  by (simp add: upsert_device_def update_device_def Let_def)

lemma seen_of_seen: "lg_seen (inr_ledger (snd (seen_of who ip ts i))) = lg_seen (inr_ledger i)"
  by (simp add: seen_of_def Let_def case_prod_beta split: option.split)

lemma seen_of_classifier: "inr_classifier (snd (seen_of who ip ts i)) = inr_classifier i"
  by (simp add: seen_of_def Let_def case_prod_beta split: option.split)

lemma touch_seen:
  "lg_seen (inr_ledger (touch who ip ts i)) = lg_seen (inr_ledger i)"
  "inr_classifier (touch who ip ts i) = inr_classifier i"
  by (simp_all add: touch_def)

text \<open>What is noted of the one who asks: the device of the address, since when it is watched, and the
  classifier's word on the name.\<close>

definition notes_asker :: "entorno \<Rightarrow> query \<Rightarrow> engine \<Rightarrow> pending \<Rightarrow> bool" where
  "notes_asker e q s p \<longleftrightarrow>
     (let who = fst (asker e q s)
      in pe_device_id p = id_id who \<and>
         pe_first_seen p = fst (seen_of who (show_ip (fst (qu_client q))) (qu_ts q) (eg_inner s)) \<and>
         pe_classified p = fst (classify
           \<lparr>in_device_id = id_id who, in_name = qu_name q, in_ts = qu_ts q,
            in_first_time = (map_of (lg_seen (led s)) (id_id who, qu_name q) = None)\<rparr>
           (inr_classifier (eg_inner s))))"

lemma seen_of_plus: "fst (seen_of who ip ts (snd (plus_of e i))) = fst (seen_of who ip ts i)"
  by (simp add: seen_of_def plus_of_def Let_def case_prod_beta split: option.split)

lemma classify_query_fst:
  "fst (classify_query dev n ts i) = fst (classify
     \<lparr>in_device_id = dev, in_name = n, in_ts = ts, in_first_time = (map_of (lg_seen (inr_ledger i)) (dev, n) = None)\<rparr>
     (inr_classifier i))"
  by (simp add: classify_query_def first_time_def case_prod_beta split: option.split)

lemma decide_watched_noted:
  assumes "watched e q s"
  obtains d p i2 i3 where
    "decide_e g e q s = (d, s\<lparr>eg_devices := snd (asker e q s), eg_inner := i3,
       eg_pending := put_pending (key_of g q) p (eg_pending s)\<rparr>)"
    "verdict_on g e (fst (plus_of e (eg_inner s))) (pe_device_id p) (qu_name q)
       (cl_category (pe_classified p)) (qu_ts q) (pe_first_seen p) i2 =
     (d, pe_fuera_de_alcance p, pe_por_apagon p, i3)"
    "notes_asker e q s p" "memory i2 = memory (eg_inner s)"
proof -
  let ?who = "fst (asker e q s)" and ?pl = "fst (plus_of e (eg_inner s))"
  let ?ip = "show_ip (fst (qu_client q))" and ?i0 = "snd (plus_of e (eg_inner s))"
  define i1 where "i1 = seen_of ?who ?ip (qu_ts q) ?i0"
  define i2 where "i2 = classify_query (id_id ?who) (qu_name q) (qu_ts q) (touch ?who ?ip (qu_ts q) (snd i1))"
  obtain d f a i3 where i3: "verdict_on g e ?pl (id_id ?who) (qu_name q) (cl_category (fst i2)) (qu_ts q) (fst i1)
      (snd i2) = (d, f, a, i3)"
    by (metis prod_cases4)
  define p where "p = \<lparr>pe_device_id = id_id ?who, pe_ip = ?ip, pe_classified = fst i2,
    pe_fuera_de_alcance = f, pe_por_apagon = a, pe_disfraz_cortado = None, pe_first_seen = fst i1\<rparr>"
  have no: "(\<not> ?pl \<and> id_id ?who \<noteq> SELF_DEVICE_ID) = False" using assms by (simp add: watched_def)
  have "decide_e g e q s = (d, s\<lparr>eg_devices := snd (asker e q s), eg_inner := i3,
      eg_pending := put_pending (key_of g q) p (eg_pending s)\<rparr>)"
    unfolding decide_e_def asker_def [symmetric] case_prod_beta
    by (simp only: no if_False Let_def p_def i3 fst_conv snd_conv flip: i1_def i2_def)
  moreover have "verdict_on g e ?pl (pe_device_id p) (qu_name q) (cl_category (pe_classified p)) (qu_ts q)
      (pe_first_seen p) (snd i2) = (d, pe_fuera_de_alcance p, pe_por_apagon p, i3)"
    using i3 by (simp add: p_def)
  moreover have "notes_asker e q s p"
    by (simp add: notes_asker_def Let_def p_def i1_def i2_def seen_of_plus classify_query_fst touch_seen
        seen_of_seen seen_of_classifier)
  moreover have "memory (snd i2) = memory (eg_inner s)" by (simp add: i1_def i2_def)
  ultimately show ?thesis using that by blast
qed



text \<open>What is in force when a query is decided: what was read less than two seconds ago or what the
  ledger says, of the rules (with their version), of a device's declared scope and of the switch.\<close>

definition rules_in_force :: "entorno \<Rightarrow> inner \<Rightarrow> inner \<Rightarrow> bool \<Rightarrow> rule list \<Rightarrow> bool" where
  "rules_in_force e i j pl rs \<longleftrightarrow>
     (let c = inr_rules i; l = inr_ledger j
      in rs = (if pl then rca_rules c else rca_gratis c) \<and>
           (en_now e - rca_checked c < 2000 \<or> rules_version l = rca_version c \<or> (\<exists>er. rules l = Inl er)) \<or>
         (\<exists>all. rules l = Inr all \<and>
           rs = (if pl then reglas_legibles all else reglas_gratis (reglas_legibles all))))"

definition scope_in_force :: "entorno \<Rightarrow> inner \<Rightarrow> inner \<Rightarrow> string \<Rightarrow> alcance \<Rightarrow> bool" where
  "scope_in_force e i j dev a \<longleftrightarrow>
     inr_alcances j dev = Some a \<and>
     (a = read_alcance (en_clock e) (inr_ledger j) dev \<or>
      inr_alcances i dev = Some a \<and> \<not> older_than 2000 (en_now e) (inr_alcances_vistos i))"

definition switch_in_force :: "engine_cfg \<Rightarrow> entorno \<Rightarrow> inner \<Rightarrow> inner \<Rightarrow> apagon \<Rightarrow> bool" where
  "switch_in_force g e i j a \<longleftrightarrow>
     inr_apagon j = a \<and>
     (a = de_ajuste (cfg_apagon g) (setting (inr_ledger j) AJUSTE_APAGON) \<or>
      inr_apagon i = a \<and> \<not> older_than 2000 (en_now e) (inr_apagon_visto i))"

lemma rules_refreshed:
  assumes "inr_ledger j = inr_ledger i"
  shows "rules_in_force e i j pl (rules_para pl (inr_rules (refresh_rules e i)))"
proof (cases "en_now e - rca_checked (inr_rules i) < 2000")
  case True
  then show ?thesis by (simp add: rules_in_force_def refresh_rules_def rules_para_def)
next
  case False
  with assms show ?thesis
    by (cases "rules (inr_ledger i)")
      (simp_all add: rules_in_force_def refresh_rules_def rules_para_def Let_def)
qed

lemma refresh_memory:
  "inr_alcances (refresh_rules e i) = inr_alcances i" "inr_apagon (refresh_rules e i) = inr_apagon i"
  "inr_apagon_visto (refresh_rules e i) = inr_apagon_visto i"
  "inr_alcances_vistos (refresh_rules e i) \<in> {inr_alcances_vistos i, None}"
  by (simp_all add: refresh_rules_def Let_def)

lemma scope_asked:
  assumes "scope_cuts e pl dev n c t (refresh_rules e i) = (f, j)"
  shows "\<exists>a. scope_in_force e i j dev a \<and> (f \<longleftrightarrow> pl \<and> c \<noteq> Esperado \<and> observation_complete t \<and> scope_forbids a n)"
    "inr_apagon j = inr_apagon i" "inr_apagon_visto j = inr_apagon_visto i" "inr_ledger j = inr_ledger i"
proof -
  let ?i = "refresh_rules e i"
  obtain a where a: "alcance_de e dev ?i = (a, j)"
    and f: "f \<longleftrightarrow> pl \<and> al_cortar a \<and> al_patrones a \<noteq> [] \<and> \<not> cubre a n \<and> c \<noteq> Esperado \<and> observation_complete t"
    using assms by (auto simp: scope_cuts_def split: prod.splits)
  have l: "inr_ledger j = inr_ledger i" using alcance_de_ledger [of e dev ?i] by (simp add: a)
  have "scope_in_force e i j dev a"
  proof (cases "older_than 2000 (en_now e) (inr_alcances_vistos ?i)")
    case True
    with a l show ?thesis by (auto simp: alcance_de_def Let_def scope_in_force_def)
  next
    case False
    then have "\<not> older_than 2000 (en_now e) (inr_alcances_vistos i)"
      using refresh_memory(4) [of e i] by (auto simp: older_than_def)
    with a l False show ?thesis
      by (auto simp: alcance_de_def Let_def scope_in_force_def refresh_memory split: option.splits)
  qed
  with f show "\<exists>a. scope_in_force e i j dev a \<and> (f \<longleftrightarrow> pl \<and> c \<noteq> Esperado \<and> observation_complete t \<and> scope_forbids a n)"
    by (auto simp: scope_forbids_def cubre_iff)
  show "inr_apagon j = inr_apagon i" "inr_apagon_visto j = inr_apagon_visto i" "inr_ledger j = inr_ledger i"
    using a l by (auto simp: alcance_de_def Let_def refresh_memory split: option.splits if_splits)
qed

lemma switch_asked:
  assumes "apagon_corta g e n i2 = (f, j)" "inr_apagon i2 = inr_apagon i" "inr_apagon_visto i2 = inr_apagon_visto i"
  shows "switch_in_force g e i j (inr_apagon j) \<and> (f \<longleftrightarrow> switch_forbids (inr_apagon j) n) \<and>
    inr_alcances j = inr_alcances i2 \<and> inr_ledger j = inr_ledger i2"
  using assms by (auto simp: apagon_corta_def Let_def switch_in_force_def corta_switch split: if_splits)
















lemma scope_unique: "scope_in_force e i j dev a \<Longrightarrow> scope_in_force e i j dev b \<Longrightarrow> a = b"
  by (auto simp: scope_in_force_def)

lemma switch_unique: "switch_in_force g e i j a \<Longrightarrow> switch_in_force g e i j b \<Longrightarrow> a = b"
  by (auto simp: switch_in_force_def)

lemma scope_in_force_cong:
  "inr_alcances j' = inr_alcances j \<Longrightarrow> inr_ledger j' = inr_ledger j \<Longrightarrow>
   scope_in_force e i j' dev = scope_in_force e i j dev"
  by (simp add: scope_in_force_def fun_eq_iff)

lemma verdict_on_exact:
  assumes "verdict_on g e pl dev n c ts fs i = (d, f, a, j)"
  defines "qy \<equiv> rule_query dev n c (ts - fs)"
  obtains rs where "rules_in_force e i j pl rs"
    "\<forall>k. d = Block (Some k) \<longleftrightarrow> (\<exists>r. decide rs qy ts = Some r \<and> r_action r = Cortar \<and> r_id r = k)"
    "d = Block None \<longleftrightarrow> f \<or> a"
    "f \<longleftrightarrow> decide rs qy ts = None \<and> pl \<and> c \<noteq> Esperado \<and> observation_complete (ts - fs) \<and>
       (\<exists>al. scope_in_force e i j dev al \<and> scope_forbids al n)"
    "a \<longleftrightarrow> (\<forall>k. d \<noteq> Block (Some k)) \<and> \<not> f \<and> dev = SELF_DEVICE_ID \<and>
       (\<exists>ap. switch_in_force g e i j ap \<and> switch_forbids ap n)"
proof -
  let ?i1 = "refresh_rules e i"
  define rs where "rs = rules_para pl (inr_rules ?i1)"
  define regla where "regla = decide rs qy ts"
  define sc where "sc = scope_cuts e pl dev n c (ts - fs) ?i1"
  define by_rule where "by_rule = (case regla of
      Some r \<Rightarrow> if r_action r = Cortar then Block (Some (r_id r)) else Forward | None \<Rightarrow> Forward)"
  define st where "st = (if by_rule = Forward \<and> regla = None then sc else (False, ?i1))"
  define d2 where "d2 = (if fst st then Block None else by_rule)"
  define sw where "sw = (if d2 = Forward \<and> dev = SELF_DEVICE_ID then apagon_corta g e n (snd st) else (False, snd st))"
  have "(d, f, a, j) = (if fst sw then Block None else d2, fst st, fst sw, snd sw)"
    using assms(1)
    by (simp only: verdict_on_def Let_def case_prod_beta sw_def d2_def st_def sc_def by_rule_def regla_def rs_def qy_def)
  then have v: "d = (if fst sw then Block None else d2)" "f = fst st" "a = fst sw" "j = snd sw" by blast+
  note sa = scope_asked [of e pl dev n c "ts - fs" i "fst sc" "snd sc", folded sc_def, OF prod.collapse [symmetric]]
  have st: "inr_apagon (snd st) = inr_apagon i" "inr_apagon_visto (snd st) = inr_apagon_visto i"
    "inr_ledger (snd st) = inr_ledger i" using sa(2-4) by (simp_all add: st_def refresh_memory)
  have sw: "inr_alcances (snd sw) = inr_alcances (snd st)" "inr_ledger (snd sw) = inr_ledger (snd st)"
    and sw_asked: "d2 = Forward \<Longrightarrow> dev = SELF_DEVICE_ID \<Longrightarrow>
      switch_in_force g e i (snd sw) (inr_apagon (snd sw)) \<and> (fst sw \<longleftrightarrow> switch_forbids (inr_apagon (snd sw)) n)"
    using switch_asked [of g e n "snd st" "fst sw" "snd sw" i] st by (auto simp: sw_def)
  have none: "regla = None \<Longrightarrow> by_rule = Forward" by (simp add: by_rule_def)
  have f: "f \<longleftrightarrow> regla = None \<and> pl \<and> c \<noteq> Esperado \<and> observation_complete (ts - fs) \<and>
       (\<exists>al. scope_in_force e i j dev al \<and> scope_forbids al n)"
  proof (cases "regla = None")
    case True
    then have st': "st = sc" using none by (simp add: st_def)
    obtain al where al: "scope_in_force e i (snd sc) dev al"
      "fst sc \<longleftrightarrow> pl \<and> c \<noteq> Esperado \<and> observation_complete (ts - fs) \<and> scope_forbids al n" using sa(1) by blast
    have "scope_in_force e i j dev al" using al(1) sw by (simp add: v(4) st' cong: scope_in_force_cong)
    then have "(\<exists>al. scope_in_force e i j dev al \<and> scope_forbids al n) \<longleftrightarrow> scope_forbids al n"
      using scope_unique by blast
    with al(2) True show ?thesis by (simp add: v(2) st')
  next
    case False
    then show ?thesis by (simp add: v(2) st_def del: not_None_eq)
  qed
  have rule: "d = Block (Some k) \<longleftrightarrow> (\<exists>r. regla = Some r \<and> r_action r = Cortar \<and> r_id r = k)" for k
  proof -
    have "by_rule = Block (Some k) \<longleftrightarrow> (\<exists>r. regla = Some r \<and> r_action r = Cortar \<and> r_id r = k)"
      by (auto simp: by_rule_def split: option.split)
    moreover have "d2 = by_rule \<or> by_rule = Forward \<and> d2 = Block None" by (simp add: d2_def st_def)
    moreover have "d = d2 \<or> d2 = Forward \<and> d = Block None" by (simp add: v(1) sw_def)
    ultimately show ?thesis by auto
  qed
  have nb: "by_rule = Forward \<or> (\<exists>k. by_rule = Block (Some k) \<and> regla \<noteq> None)"
    by (auto simp: by_rule_def split: option.split)
  have block: "d = Block None \<longleftrightarrow> f \<or> a" using nb by (auto simp: v d2_def)
  have a: "a \<longleftrightarrow> (\<forall>k. d \<noteq> Block (Some k)) \<and> \<not> f \<and> dev = SELF_DEVICE_ID \<and>
       (\<exists>ap. switch_in_force g e i j ap \<and> switch_forbids ap n)"
  proof (cases "d2 = Forward \<and> dev = SELF_DEVICE_ID")
    case True
    with sw_asked have s: "switch_in_force g e i j (inr_apagon j)" "a \<longleftrightarrow> switch_forbids (inr_apagon j) n"
      by (simp_all add: v(3,4))
    have "\<forall>k. d \<noteq> Block (Some k)" "\<not> f" using True by (auto simp: v(1,2) d2_def)
    moreover have "(\<exists>ap. switch_in_force g e i j ap \<and> switch_forbids ap n) \<longleftrightarrow> switch_forbids (inr_apagon j) n"
      using s(1) switch_unique by blast
    ultimately show ?thesis using s(2) True by simp
  next
    case False
    then have "sw = (False, snd st)" unfolding sw_def by (rule if_not_P)
    then have "\<not> a" "d = d2" by (simp_all add: v)
    moreover have "d2 = Forward" if "\<forall>k. d \<noteq> Block (Some k)" "\<not> f"
      using that nb \<open>d = d2\<close> by (auto simp: v(2) d2_def)
    ultimately show ?thesis using False by auto
  qed
  have "rules_in_force e i j pl rs"
    unfolding rs_def by (rule rules_refreshed) (simp add: v(4) sw st)
  then show ?thesis using that [of rs] rule block f a unfolding regla_def by blast
qed

lemma in_force_memory:
  assumes "memory i2 = memory i"
  shows "rules_in_force e i2 j pl = rules_in_force e i j pl" "scope_in_force e i2 j = scope_in_force e i j"
    "switch_in_force g e i2 j = switch_in_force g e i j"
  using assms by (simp_all add: memory_def rules_in_force_def scope_in_force_def switch_in_force_def fun_eq_iff)

lemma decide_chosen: "decide rs i now = Some r \<longleftrightarrow> chosen i now rs r"
proof
  assume c: "chosen i now rs r"
  then obtain q where q: "decide rs i now = Some q"
    using chosen_candidate [OF c] decide_None [of rs i now] by (cases "decide rs i now") auto
  with chosen_unique [OF c decide_Some [OF q]] show "decide rs i now = Some r" by simp
qed (rule decide_Some)



section \<open>One row for every request\<close>

definition row_says :: "event_row \<Rightarrow> new_event \<Rightarrow> bool" where
  "row_says row ev \<longleftrightarrow>
     er_ts row = ne_ts ev \<and> er_device_id row = ne_device_id ev \<and> er_qname row = ne_qname ev \<and>
     er_verdict row = verdict_str (ne_verdict ev) \<and>
     er_decided_by row = decided_by_str (ne_decided_by ev) \<and> er_rule_id row = ne_rule_id ev"

lemma append_row:
  assumes "healthy x l"
  shows "\<exists>row. lg_events (snd (append x ev l)) = lg_events l @ [row] \<and> row_says row ev"
proof -
  obtain a n where "chain_point l = Inr (tip er_row_hash a (lg_events l), n, Some (tip er_row_hash a (lg_events l)))"
    using chain_point_healthy [OF assms] .
  from append_parts(2) [OF this, of x ev] show ?thesis
    by (auto simp: appended_def row_says_def event_row_of_def hash_input_of_def Let_def case_prod_beta)
qed

lemma foldl_profiles_frame: "same_chain l (foldl (\<lambda>l (dev, p). set_hours_profile dev (f p) l) l ps)"
proof (induction ps arbitrary: l)
  case (Cons a ps)
  obtain dev p where "a = (dev, p)" by fastforce
  with Cons.IH [of "set_hours_profile dev (f p) l"] show ?case
    using update_device_frame [of l] by (auto simp: set_hours_profile_def intro: same_chain_trans)
qed (simp add: chain_frame)

lemma volcar_frame: "same_chain (inr_ledger i) (inr_ledger (volcar_perfiles g i))"
  using foldl_profiles_frame [of "inr_ledger i" "cfg_profile g" "fst (take_dirty_profiles (inr_classifier i))"]
  by (simp add: volcar_perfiles_def case_prod_beta)

lemma count_record_frame: "same_chain (inr_ledger i) (inr_ledger (count_record g i))"
  using volcar_frame [of "i\<lparr>inr_recorded := inr_recorded i + 1\<rparr>" g]
  by (simp add: count_record_def Let_def chain_frame)

lemma note_sites_frame: "same_chain l (note_sites g q out p l)"
  by (simp add: note_sites_def chain_frame split: outcome.split)

lemma written_frame:
  "same_chain (led s) (inr_ledger (count_record g ((eg_inner s)\<lparr>inr_ledger := note_sites g q out p (led s)\<rparr>)))"
proof (rule same_chain_trans)
  show "same_chain (led s) (inr_ledger ((eg_inner s)\<lparr>inr_ledger := note_sites g q out p (led s)\<rparr>))"
    by (simp add: note_sites_frame)
qed (rule count_record_frame)

text \<open>What writing \<open>ev\<close> down leaves: with the observer of programs on, a query of this computer goes to
  the end of the queue, while there is room; anything else is a new last row.\<close>

definition leaves :: "engine_cfg \<Rightarrow> engine \<Rightarrow> engine \<Rightarrow> new_event \<Rightarrow> bool" where
  "leaves g s t ev \<longleftrightarrow>
     (if cfg_apps g \<and> ne_device_id ev = SELF_DEVICE_ID \<and> length (eg_cola s) < 10000
      then eg_cola t = eg_cola s @ [ev] \<and> lg_events (led t) = lg_events (led s)
      else eg_cola t = eg_cola s \<and>
        (\<exists>row. lg_events (led t) = lg_events (led s) @ [row] \<and> row_says row ev))"

lemma write_down_leaves:
  assumes "healthy (cfg_ext g) (led s)"
  shows "leaves g s (write_down g q out p (v, d, r) s)
    (event_for g (cf_catalog (inr_classifier (eg_inner s))) q out p (v, d, r))"
proof -
  let ?i = "count_record g ((eg_inner s)\<lparr>inr_ledger := note_sites g q out p (led s)\<rparr>)"
  have f: "same_chain (led s) (inr_ledger ?i)" by (rule written_frame)
  then have "healthy (cfg_ext g) (inr_ledger ?i)" using assms by (simp add: healthy_frame)
  from append_row [OF this] f show ?thesis
    by (auto simp: write_down_def Let_def same_chain_def leaves_def event_for_def observed_def)
qed

lemma record_pending:
  assumes "map_of (eg_pending s) (key_of g q) = Some p" "verdict_of_outcome out = Some vd"
  obtains t where "record_e g e q out s = write_down g q out p vd t" "eg_inner t = eg_inner s" "eg_cola t = eg_cola s"
  using assms by (auto simp: record_e_def Let_def)

lemma after_answer_cases:
  assumes "after_answer_e g e q as s = (d, t)"
  obtains "d = Forward" "eg_pending t = eg_pending s"
  | p r site where "d = Block (Some r)" "map_of (eg_pending s) (key_of g q) = Some p"
      "map_of (eg_pending t) (key_of g q) = Some (p\<lparr>pe_disfraz_cortado := Some site\<rparr>)"
proof (cases "map_of (eg_pending s) (key_of g q)")
  case None
  with assms that(1) show thesis by (simp add: after_answer_e_def)
next
  case (Some p)
  with assms that show thesis
    by (auto simp: after_answer_e_def update_conv' split: option.splits prod.splits)
qed

lemma event_for_fields:
  "ne_ts (event_for g cat q out p (v, d, r)) = qu_ts q"
  "ne_device_id (event_for g cat q out p (v, d, r)) = pe_device_id p"
  "ne_qname (event_for g cat q out p (v, d, r)) = qu_name q"
  "ne_verdict (event_for g cat q out p (v, d, r)) = v"
  "ne_decided_by (event_for g cat q out p (v, d, r)) = who_decided p v d"
  "ne_rule_id (event_for g cat q out p (v, d, r)) = r"
  by (simp_all add: event_for_def observed_def)

text \<open>What is written down of a request has to say of the answer it got.\<close>

definition event_tells :: "handler \<Rightarrow> upstream \<Rightarrow> string \<Rightarrow> rtype \<Rightarrow> effect list \<Rightarrow> answer \<Rightarrow> new_event \<Rightarrow> bool" where
  "event_tells h up name t asks ans ev \<longleftrightarrow>
     (if ne_verdict ev = Cortado then
        ans = blocked_answer h name t \<and>
        (if ne_rule_id ev = None
         then asks = [] \<and> ne_decided_by ev \<in> {AlcanceDeclarado, ModoApagon}
         else ne_decided_by ev = ReglaUsuario)
      else ne_verdict ev = Observado \<and> ne_rule_id ev = None \<and>
        ne_decided_by ev = Nadie \<and> asks = [Asks name t] \<and> ans = fst (forward_q up name))"

lemma verdict_on_flags:
  assumes "verdict_on g e pl dev n c ts fs i = (d, f, a, j)"
  shows "case d of Forward \<Rightarrow> \<not> f \<and> \<not> a | Block None \<Rightarrow> f \<or> a | Block (Some k) \<Rightarrow> \<not> f \<and> \<not> a"
  using assms by (cases rule: verdict_on_cases) auto

lemma recorded_event:
  assumes "map_of (eg_pending s) (key_of g q) = Some p" "verdict_of_outcome out = Some (v, d, r)"
    and "healthy (cfg_ext g) (led s)"
  shows "\<exists>ev. leaves g s (record_e g e q out s) ev \<and>
    ne_ts ev = qu_ts q \<and> ne_device_id ev = pe_device_id p \<and> ne_qname ev = qu_name q \<and>
    ne_verdict ev = v \<and> ne_decided_by ev = who_decided p v d \<and> ne_rule_id ev = r"
proof -
  obtain t where t: "record_e g e q out s = write_down g q out p (v, d, r) t" "eg_inner t = eg_inner s"
    "eg_cola t = eg_cola s"
    using record_pending [OF assms(1,2)] .
  have "leaves g s = leaves g t" by (simp add: leaves_def fun_eq_iff t)
  have "leaves g s (record_e g e q out s)
      (event_for g (cf_catalog (inr_classifier (eg_inner t))) q out p (v, d, r))"
    using write_down_leaves [of g t q out p v d r] assms(3) t(1,2) \<open>leaves g s = leaves g t\<close> by simp
  then show ?thesis by (intro exI conjI) (assumption, simp_all only: event_for_fields)
qed

lemma forward_verdict: "forward_q up name = (ans, out) \<Longrightarrow> verdict_of_outcome out = Some (Observado, Nadie, None)"
  by (auto simp: forward_q_def verdict_of_outcome_def split: upstream.splits)

lemma second_look_cases:
  assumes "second_look (engine_policy g (e1, e2, e3)) q out s = (d, t)"
  obtains "d = Forward" "t = s" | as where "after_answer_e g e2 q as s = (d, t)"
proof (cases "\<exists>c a o1 as. out = Forwarded c a o1 as \<and> as \<noteq> []")
  case True
  with assms that(2) show thesis by (auto simp: second_look_def engine_policy_def)
next
  case False
  then have "second_look (engine_policy g (e1, e2, e3)) q out s = (Forward, s)"
    by (cases out) (auto simp: second_look_def)
  with assms that(1) show thesis by simp
qed

lemma second_look_pending:
  assumes "second_look (engine_policy g (e1, e2, e3)) q out s = (d, t)"
    and "map_of (eg_pending s) (key_of g q) = Some p"
  shows "led t = led s \<and> eg_cola t = eg_cola s \<and>
    (case d of
       Forward \<Rightarrow> map_of (eg_pending t) (key_of g q) = Some p
     | Block r \<Rightarrow> \<exists>k site. r = Some k \<and>
         map_of (eg_pending t) (key_of g q) = Some (p\<lparr>pe_disfraz_cortado := Some site\<rparr>))"
  using assms(1)
proof (cases rule: second_look_cases)
  case 1
  with assms(2) show ?thesis by simp
next
  case (2 as)
  have l: "led t = led s" using after_answer_frame [of g e2 q as s] 2 by simp
  have c: "eg_cola t = eg_cola s" using 2 by (auto simp: after_answer_e_def split: option.splits prod.splits)
  from 2 assms(2) l c show ?thesis by (cases rule: after_answer_cases) auto
qed

text \<open>One request that the policy decides, up to what is sent and recorded.\<close>

lemma resolved_event:
  assumes "built_in_reply h name q = None" "watched e1 q s" "length (eg_pending s) < 10000"
    and "healthy (cfg_ext g) (led s)"
    and "resolve h (engine_policy g (e1, e2, e3)) up name q s = (ans, out, asks, t)"
  shows "\<exists>ev. leaves g s (record_e g e3 q out t) ev \<and>
    ne_ts ev = qu_ts q \<and> ne_device_id ev = id_id (fst (asker e1 q s)) \<and> ne_qname ev = qu_name q \<and>
    event_tells h up name (qu_qtype q) asks ans ev"
proof -
  obtain d p i2 i3 where dec: "decide_e g e1 q s = (d, s\<lparr>eg_devices := snd (asker e1 q s), eg_inner := i3,
      eg_pending := put_pending (key_of g q) p (eg_pending s)\<rparr>)"
    and v: "verdict_on g e1 (fst (plus_of e1 (eg_inner s))) (pe_device_id p) (qu_name q)
      (cl_category (pe_classified p)) (qu_ts q) (pe_first_seen p) i2 =
      (d, pe_fuera_de_alcance p, pe_por_apagon p, i3)"
    and dev: "pe_device_id p = id_id (fst (asker e1 q s))"
    and sc: "same_chain (led s) (inr_ledger i3)"
    using assms(2) by (rule decide_watched [where g = g])
  obtain s1 where s1: "decide_e g e1 q s = (d, s1)" "led s1 = inr_ledger i3" "eg_cola s1 = eg_cola s"
    and pend: "map_of (eg_pending s1) (key_of g q) = Some p"
    using dec put_pending_get [OF assms(3)] by simp
  have led1: "lg_events (led s1) = lg_events (led s)" "healthy (cfg_ext g) (led s1)"
    using sc healthy_frame [OF sc] assms(4) unfolding s1(2) same_chain_def by blast+
  have keep: "leaves g s w ev" if "leaves g u w ev" "lg_events (led u) = lg_events (led s)" "eg_cola u = eg_cola s"
    for u w ev
    using that(1) by (simp only: leaves_def that(2,3))
  note flags = verdict_on_flags [OF v]
  have dq: "decide_q (engine_policy g (e1, e2, e3)) q s = (d, s1)"
    by (simp add: engine_policy_def s1(1))
  show ?thesis
  proof (cases d)
    case (Block r)
    then have "ans = blocked_answer h name (qu_qtype q)" "out = Blocked r" "asks = []" "t = s1"
      using assms(1,5) dq by (auto simp: resolve_def Let_def)
    with recorded_event [OF pend _ led1(2), of "Blocked r" Cortado ReglaUsuario r e3] dev keep [OF _ led1(1) s1(3)]
    obtain ev where ev: "leaves g s (record_e g e3 q out t) ev"
      "ne_ts ev = qu_ts q" "ne_device_id ev = id_id (fst (asker e1 q s))" "ne_qname ev = qu_name q"
      and cut: "ne_verdict ev = Cortado" "ne_rule_id ev = r" "ne_decided_by ev = who_decided p Cortado ReglaUsuario"
      by (auto simp: verdict_of_outcome_def)
    have "event_tells h up name (qu_qtype q) asks ans ev"
      using flags Block cut \<open>ans = _\<close> \<open>asks = []\<close>
      by (cases r) (auto simp: event_tells_def who_decided_def)
    with ev show ?thesis by blast
  next
    case Forward
    obtain a0 o0 where f: "forward_q up name = (a0, o0)" by fastforce
    obtain d2 s2 where sl: "second_look (engine_policy g (e1, e2, e3)) q o0 s1 = (d2, s2)" by fastforce
    note keeps = second_look_pending [OF sl pend]
    then have led2: "lg_events (led s2) = lg_events (led s)" "healthy (cfg_ext g) (led s2)" "eg_cola s2 = eg_cola s"
      using led1 s1(3) by simp_all
    have nof: "\<not> pe_fuera_de_alcance p" "\<not> pe_por_apagon p" using flags Forward by auto
    show ?thesis
    proof (cases d2)
      case Forward2: Forward
      then have r: "ans = a0" "out = o0" "asks = [Asks name (qu_qtype q)]" "t = s2"
        using assms(1,5) dq Forward f sl by (auto simp: resolve_def Let_def)
      have "map_of (eg_pending s2) (key_of g q) = Some p" using keeps Forward2 by simp
      from recorded_event [OF this forward_verdict [OF f] led2(2), of e3] dev keep [OF _ led2(1,3)]
      obtain ev where ev: "leaves g s (record_e g e3 q o0 s2) ev"
        "ne_ts ev = qu_ts q" "ne_device_id ev = id_id (fst (asker e1 q s))" "ne_qname ev = qu_name q"
        and seen: "ne_verdict ev = Observado" "ne_rule_id ev = None" "ne_decided_by ev = who_decided p Observado Nadie"
        by auto
      have "event_tells h up name (qu_qtype q) asks ans ev"
        using seen r f by (auto simp: event_tells_def who_decided_def)
      with ev r show ?thesis by blast
    next
      case (Block r)
      then have r: "ans = blocked_answer h name (qu_qtype q)" "out = Blocked r"
        "asks = [Asks name (qu_qtype q)]" "t = s2"
        using assms(1,5) dq Forward f sl by (auto simp: resolve_def Let_def)
      obtain k site where "r = Some k"
        "map_of (eg_pending s2) (key_of g q) = Some (p\<lparr>pe_disfraz_cortado := Some site\<rparr>)"
        using keeps Block by auto
      with recorded_event [OF this(2) _ led2(2), of "Blocked r" Cortado ReglaUsuario r e3] dev keep [OF _ led2(1,3)]
      obtain ev where ev: "leaves g s (record_e g e3 q out t) ev"
        "ne_ts ev = qu_ts q" "ne_device_id ev = id_id (fst (asker e1 q s))" "ne_qname ev = qu_name q"
        and cut: "ne_verdict ev = Cortado" "ne_rule_id ev = Some k" "ne_decided_by ev = ReglaUsuario"
        using r by (auto simp: verdict_of_outcome_def who_decided_def nof)
      have "event_tells h up name (qu_qtype q) asks ans ev"
        using cut r by (simp add: event_tells_def)
      with ev show ?thesis by blast
    qed
  qed
qed




section \<open>The free level\<close>

text \<open>What is kept of a query beyond the counters of answers.\<close>

definition kept :: "engine \<Rightarrow> ledger \<times> classifier \<times> (pending_key \<times> pending) list \<times> new_event list \<times>
    (ip \<times> (string \<times> int)) list" where
  "kept s = (led s, inr_classifier (eg_inner s), eg_pending s, eg_cola s, eg_nombres s)"

lemma record_unknown:
  assumes "map_of (eg_pending s) (key_of g q) = None"
    and "out = Canary \<Longrightarrow> \<not> watched e q s"
  shows "kept (record_e g e q out s) = kept s"
proof (cases "out = Canary")
  case True
  let ?s = "s\<lparr>eg_salud := anota_salud out (eg_salud s)\<rparr>"
  have "\<not> (fst (plus_of e (eg_inner s)) \<or> id_id (fst (asker e q s)) = SELF_DEVICE_ID)"
    using assms(2) True by (simp add: watched_def)
  then have "sin_decidir g e q ?s =
      (None, ?s\<lparr>eg_devices := snd (asker e q s), eg_inner := snd (plus_of e (eg_inner s))\<rparr>)"
    by (simp add: sin_decidir_def asker_def case_prod_beta)
  with True assms(1) show ?thesis
    by (simp add: record_e_def Let_def verdict_of_outcome_def kept_def)
next
  case False
  with assms(1) show ?thesis
    by (simp add: record_e_def Let_def kept_def split: option.split)
qed

text \<open>C6: at the free level nothing of another device is looked at or kept. Its question is answered
  as the upstream answers (or as the program's own name), and the ledger, the classifier, what
  waits to be written and the names behind addresses stay as they were.\<close>

theorem free_level_keeps_nothing_of_others:
  assumes "rq_message_type rq = Query_m" "rq_op_code rq = Query_o" "rq_queries rq = [l]" "pr_class l = IN"
    and "\<not> watched e1 (query_of rq l ts) s" "\<not> watched e3 (query_of rq l ts) s"
    and "map_of (eg_pending s) (key_of g (query_of rq l ts)) = None"
  shows "\<exists>asks ans t. handle_request h (engine_policy g (e1, e2, e3)) up rq ts s = (asks @ [Sends ans], t) \<and>
    kept t = kept s \<and>
    (\<not> built_in h (normalize_name (pr_name l)) \<longrightarrow> ans = fst (forward_q up (pr_name l)))"
proof -
  let ?q = "query_of rq l ts"
  let ?pol = "engine_policy g (e1, e2, e3)"
  have hr: "handle_request h ?pol up rq ts s = (case resolve h ?pol up (pr_name l) ?q s of
      (ans, out, asks, t) \<Rightarrow> (asks @ [Sends ans], record_e g e3 ?q out t))"
    using assms(1-4) by (simp add: handle_request_def query_of_def Let_def engine_policy_def)
  have q: "qu_name ?q = normalize_name (pr_name l)" by (simp add: query_of_def)
  show ?thesis
  proof (cases "built_in_reply h (pr_name l) ?q")
    case (Some ao)
    obtain ans out where ao: "ao = (ans, out)" by fastforce
    have "built_in h (normalize_name (pr_name l))"
      using built_in_reply_iff [of h "pr_name l" ?q] Some q by auto
    then show ?thesis
      using hr resolve_built_in [OF Some [unfolded ao], of ?pol up s] record_unknown [of s g ?q out e3] assms(6,7)
      by auto
  next
    case None
    obtain a0 o0 where f: "forward_q up (pr_name l) = (a0, o0)" by fastforce
    define s1 where "s1 = s\<lparr>eg_devices := snd (asker e1 ?q s), eg_inner := snd (plus_of e1 (eg_inner s))\<rparr>"
    have d: "decide_q ?pol ?q s = (Forward, s1)"
      by (simp add: engine_policy_def decide_unwatched [OF assms(5)] s1_def)
    have p1: "map_of (eg_pending s1) (key_of g ?q) = None" "kept s1 = kept s"
      using assms(7) by (simp_all add: s1_def kept_def)
    have "second_look ?pol ?q o0 s1 = (Forward, s1)"
      using p1(1) by (simp add: second_look_def engine_policy_def after_answer_e_def split: outcome.split)
    then have r: "resolve h ?pol up (pr_name l) ?q s = (a0, o0, [Asks (pr_name l) (qu_qtype ?q)], s1)"
      using None d f by (simp add: resolve_def Let_def)
    have "o0 \<noteq> Canary" using f by (auto simp: forward_q_def split: upstream.splits)
    with record_unknown [OF p1(1), of o0 e3] hr r f p1(2) show ?thesis by auto
  qed
qed

definition sample_other :: request where
  "sample_other = (sample_request ''T.co.'')\<lparr>rq_src := (V4 192 168 1 5, 5000)\<rparr>"

lemma sample_unwatched: "qu_client q = (V4 192 168 1 5, 5000) \<Longrightarrow> \<not> watched sample_entorno q sample_engine"
  by (simp add: watched_def asker_def identify_def plus_of_def sample_engine_def sample_entorno_def
      older_than_def NIVEL_CADA_def refresh_if_stale_def resolver_new_def Let_def insert_neighbor_def
      id_for_ip_def SELF_DEVICE_ID_def)

theorem free_level_keeps_nothing_of_others_witness:
  "\<exists>asks ans t. handle_request sample_handler
      (engine_policy sample_cfg (sample_entorno, sample_entorno, sample_entorno)) Up_error sample_other 5
      sample_engine = (asks @ [Sends ans], t) \<and> kept t = kept sample_engine"
proof -
  let ?l = "\<lparr>pr_name = ''T.co.'', pr_class = IN, pr_type = A_t\<rparr>"
  have c: "qu_client (query_of sample_other ?l 5) = (V4 192 168 1 5, 5000)"
    by (simp add: query_of_def sample_other_def)
  from free_level_keeps_nothing_of_others [OF _ _ _ _ sample_unwatched [OF c] sample_unwatched [OF c],
      of sample_cfg sample_handler sample_entorno Up_error]
  show ?thesis by (fastforce simp: sample_other_def sample_request_def sample_engine_def)
qed


section \<open>Through any sequence of requests\<close>

definition rules_ok :: "rule_cache \<Rightarrow> bool" where
  "rules_ok c \<longleftrightarrow> rca_gratis c = reglas_gratis (rca_rules c)"

definition engine_ok :: "engine_cfg \<Rightarrow> engine \<Rightarrow> bool" where
  "engine_ok g s \<longleftrightarrow>
     sha_32 (cfg_ext g) \<and> healthy (cfg_ext g) (led s) \<and> rules_ok (inr_rules (eg_inner s)) \<and>
     length (eg_pending s) \<le> 10000 \<and> length (eg_cola s) \<le> 10000 \<and>
     length (eg_nombres s) \<le> MAX_NOMBRES_IP + MAX_OTRAS"

lemma refresh_rules_ok: "rules_ok (inr_rules i) \<Longrightarrow> rules_ok (inr_rules (refresh_rules e i))"
  by (auto simp: refresh_rules_def Let_def rules_ok_def split: sum.split)

lemma apagon_corta_rules: "apagon_corta g e n i = (a, j) \<Longrightarrow> inr_rules j = inr_rules i"
  by (auto simp: apagon_corta_def Let_def)

lemma scope_cuts_rules: "scope_cuts e pl dev n c t i = (f, j) \<Longrightarrow> inr_rules j = inr_rules i"
proof -
  have "inr_rules (snd (alcance_de e dev i)) = inr_rules i"
    by (simp add: alcance_de_def Let_def split: option.split)
  then show "scope_cuts e pl dev n c t i = (f, j) \<Longrightarrow> inr_rules j = inr_rules i"
    by (cases "alcance_de e dev i") (simp add: scope_cuts_def)
qed

lemma verdict_on_rules:
  assumes "verdict_on g e pl dev n c ts fs i = (d, f, a, j)"
  shows "inr_rules j = inr_rules (refresh_rules e i)"
proof -
  obtain x y where xy: "scope_cuts e pl dev n c (ts - fs) (refresh_rules e i) = (x, y)" by fastforce
  obtain u v where uv: "apagon_corta g e n (refresh_rules e i) = (u, v)" by fastforce
  obtain w z where wz: "apagon_corta g e n y = (w, z)" by fastforce
  have "inr_rules y = inr_rules (refresh_rules e i)" "inr_rules v = inr_rules (refresh_rules e i)"
    "inr_rules z = inr_rules y"
    using scope_cuts_rules [OF xy] apagon_corta_rules [OF uv] apagon_corta_rules [OF wz] by simp_all
  with assms xy uv wz show ?thesis
    by (auto simp: verdict_on_def Let_def split: if_splits option.splits)
qed

lemma refresh_keeps_ok: "engine_ok g s \<Longrightarrow> rules_ok (inr_rules (refresh_rules e (eg_inner s)))"
  by (simp add: engine_ok_def refresh_rules_ok)

lemma decide_ok:
  assumes "engine_ok g s"
  shows "engine_ok g (snd (decide_e g e q s))"
proof -
  have h: "healthy (cfg_ext g) (led (snd (decide_e g e q s)))"
    using assms healthy_frame [OF decide_frame [of s g e q]] by (simp add: engine_ok_def)
  show ?thesis
  proof (cases "watched e q s")
    case False
    with assms h show ?thesis by (simp add: decide_unwatched engine_ok_def)
  next
    case True
    then obtain d p i2 i3 where dec: "decide_e g e q s = (d, s\<lparr>eg_devices := snd (asker e q s), eg_inner := i3,
        eg_pending := put_pending (key_of g q) p (eg_pending s)\<rparr>)"
      and v: "verdict_on g e (fst (plus_of e (eg_inner s))) (pe_device_id p) (qu_name q)
        (cl_category (pe_classified p)) (qu_ts q) (pe_first_seen p) i2 =
        (d, pe_fuera_de_alcance p, pe_por_apagon p, i3)"
      and r: "inr_rules i2 = inr_rules (eg_inner s)"
      by (rule decide_watched [where g = g])
    have "rules_ok (inr_rules i2)" using assms r by (simp add: engine_ok_def)
    then have "rules_ok (inr_rules i3)" using verdict_on_rules [OF v] refresh_rules_ok by simp
    moreover have "length (put_pending k p ps) \<le> 10000" for k ps by (simp add: put_pending_def Let_def)
    ultimately show ?thesis using assms h unfolding dec by (simp add: engine_ok_def)
  qed
qed

lemma length_update_Some: "map_of ps k = Some x \<Longrightarrow> length (AList.update k y ps) = length ps"
  by (induction ps) (auto split: if_splits)

lemma after_answer_ok:
  assumes "engine_ok g s"
  shows "engine_ok g (snd (after_answer_e g e q as s))"
proof -
  have r: "rules_ok (inr_rules (snd (plus_of e (refresh_rules e (eg_inner s)))))"
    using refresh_keeps_ok [OF assms] by simp
  have h: "healthy (cfg_ext g) (led (snd (after_answer_e g e q as s)))"
    using assms by (simp only: after_answer_frame engine_ok_def)
  show ?thesis
  proof (cases "map_of (eg_pending s) (key_of g q)")
    case None
    with assms show ?thesis by (simp add: after_answer_e_def)
  next
    case (Some p)
    obtain pl i where pl: "plus_of e (refresh_rules e (eg_inner s)) = (pl, i)" by fastforce
    show ?thesis
    proof (cases "cloaked (cfg_psl g) (cfg_lists g) (cf_catalog (inr_classifier (eg_inner s))) (qu_name q) as")
      case None
      with Some assms show ?thesis by (simp add: after_answer_e_def)
    next
      case (Some sc)
      obtain site cat where sc: "sc = (site, cat)" by fastforce
      show ?thesis
        using h r length_update_Some [OF \<open>map_of _ _ = Some p\<close>] assms
        by (cases "decide_cloaked (rules_para pl (inr_rules i))
              (rule_query (pe_device_id p) (qu_name q) cat (qu_ts q - pe_first_seen p))
              (cl_category (pe_classified p)) (qu_ts q)")
          (simp_all add: after_answer_e_def \<open>map_of _ _ = Some p\<close> Some sc pl engine_ok_def)
    qed
  qed
qed

lemma length_updates: "length (foldl (\<lambda>m a. AList.update a (f a) m) m as) \<le> length m + length as"
proof (induction as arbitrary: m)
  case (Cons a as)
  have "length (AList.update a (f a) m) \<le> length m + 1" by (induction m) auto
  with Cons.IH [of "AList.update a (f a) m"] show ?case by simp
qed simp

lemma remember_names_bound: "length (remember_names q as m) \<le> MAX_NOMBRES_IP - 1 + length as"
proof -
  define m1 where "m1 = (if length m \<ge> MAX_NOMBRES_IP then
      let kept = filter (\<lambda>(_, (_, ts)). ts \<ge> qu_ts q - VIGENCIA_NOMBRE_IP_MS) m
      in if length kept \<ge> MAX_NOMBRES_IP then [] else kept else m)"
  have "length m1 \<le> MAX_NOMBRES_IP - 1" by (auto simp: m1_def Let_def MAX_NOMBRES_IP_def)
  moreover have "remember_names q as m = foldl (\<lambda>m a. AList.update a (sin_punto (qu_name q), qu_ts q) m) m1 as"
    by (simp add: remember_names_def m1_def Let_def)
  ultimately show ?thesis
    using length_updates [of "\<lambda>a. (sin_punto (qu_name q), qu_ts q)" m1 as] by simp
qed

lemma names_after_bound:
  assumes "few_addresses out" "length m \<le> MAX_NOMBRES_IP + MAX_OTRAS"
  shows "length (names_after q out p m) \<le> MAX_NOMBRES_IP + MAX_OTRAS"
proof -
  have "length (remember_names q (a # otras) m) \<le> MAX_NOMBRES_IP + MAX_OTRAS" if "length otras \<le> MAX_OTRAS" for a otras
    using remember_names_bound [of q "a # otras" m] that by (simp add: MAX_NOMBRES_IP_def)
  with assms show ?thesis
    by (auto simp: names_after_def few_addresses_def split: outcome.splits option.splits)
qed

lemma count_record_rules [simp]: "inr_rules (count_record g i) = inr_rules i"
  by (simp add: count_record_def Let_def volcar_perfiles_def case_prod_beta)

lemma write_down_ok:
  assumes "engine_ok g s" "few_addresses out"
  shows "engine_ok g (write_down g q out p vd s)"
proof -
  let ?i = "count_record g ((eg_inner s)\<lparr>inr_ledger := note_sites g q out p (led s)\<rparr>)"
  have "healthy (cfg_ext g) (inr_ledger ?i)" "sha_32 (cfg_ext g)"
    using assms(1) healthy_frame [OF written_frame] by (auto simp: engine_ok_def)
  moreover from this have "healthy (cfg_ext g) (snd (append (cfg_ext g) ev (inr_ledger ?i)))" for ev
    by (simp add: append_healthy)
  ultimately show ?thesis
    using assms names_after_bound [OF assms(2)]
    by (simp add: write_down_def Let_def engine_ok_def)
qed

lemma sin_decidir_ok:
  assumes "engine_ok g s" "sin_decidir g e q s = (po, t)"
  shows "engine_ok g t"
proof -
  let ?i = "snd (plus_of e (eg_inner s))" and ?dev = "id_id (fst (asker e q s))"
  obtain c j where cj: "classify_query ?dev (qu_name q) (qu_ts q) ?i = (c, j)" by fastforce
  have "healthy (cfg_ext g) (inr_ledger j)" "inr_rules j = inr_rules (eg_inner s)"
    using assms(1) healthy_frame [OF classify_query_frame [OF cj]] classify_query_rules [OF cj]
    by (simp_all add: engine_ok_def)
  moreover have "t = s\<lparr>eg_devices := snd (asker e q s), eg_inner := ?i\<rparr> \<or>
      t = s\<lparr>eg_devices := snd (asker e q s), eg_inner := j\<rparr>"
    using assms(2) cj unfolding sin_decidir_def asker_def [symmetric] case_prod_beta
    by (auto split: if_splits)
  ultimately show ?thesis using assms(1) by (auto simp: engine_ok_def)
qed

lemma record_ok:
  assumes "engine_ok g s" "few_addresses out"
  shows "engine_ok g (record_e g e q out s)"
proof -
  define s1 where "s1 = s\<lparr>eg_salud := anota_salud out (eg_salud s)\<rparr>"
  have ok1: "engine_ok g s1" using assms(1) by (simp add: s1_def engine_ok_def)
  have ok2: "engine_ok g (s1\<lparr>eg_pending := AList.delete k (eg_pending s1)\<rparr>)" for k
    using ok1 length_delete_le [of k "eg_pending s1"] by (simp add: engine_ok_def)
  obtain po t where t: "sin_decidir g e q s1 = (po, t)" by fastforce
  note ok3 = sin_decidir_ok [OF ok1 t]
  have "engine_ok g (write_down g q out p vd (s1\<lparr>eg_pending := AList.delete (key_of g q) (eg_pending s1)\<rparr>))"
    "engine_ok g (write_down g q out p vd t)" for p vd
    using write_down_ok [OF ok2 assms(2)] write_down_ok [OF ok3 assms(2)] by blast+
  with ok1 ok3 show ?thesis
    unfolding record_e_def Let_def s1_def [symmetric] t
    by (cases "out = Canary") (simp_all split: option.split)
qed

interpretation engine_policies: policy_invariant "engine_policy g es" "engine_ok g" for g es
  by (cases es, unfold_locales)
    (simp_all add: engine_policy_def decide_ok after_answer_ok record_ok)

text \<open>The engine as a state machine: a request, a beat of the queue, the end of a pass, the minute's
  count, and whatever another connection (the panel, the command line) does to the ledger.\<close>

inductive engine_step :: "engine_cfg \<Rightarrow> engine \<Rightarrow> engine \<Rightarrow> bool" for g where
  engine_request: "engine_step g s (snd (handle_request h (engine_policy g es) up rq ts s))"
| engine_queue: "engine_step g s (vacia_cola g who ahora opens s)"
| engine_close: "engine_step g s (al_cerrar g (vacia_al_cerrar g opens s))"
| engine_minute: "engine_step g s (s\<lparr>eg_salud := snd (salud_minuto (eg_salud s))\<rparr>)"
| engine_elsewhere: "ledger_step (cfg_ext g) (led s) l \<Longrightarrow>
    engine_step g s (s\<lparr>eg_inner := (eg_inner s)\<lparr>inr_ledger := l\<rparr>\<rparr>)"

lemma append_all_healthy: "\<lbrakk>sha_32 x; healthy x l\<rbrakk> \<Longrightarrow> healthy x (append_all x evs l)"
  unfolding append_all_def by (rule foldl_inv) (auto intro: append_healthy)

lemma engine_step_ok:
  assumes "engine_step g s t" "engine_ok g s"
  shows "engine_ok g t"
  using assms
proof (induction rule: engine_step.induct)
  case (engine_request s h es up rq ts)
  then show ?case by (rule engine_policies.request_keeps)
next
  case (engine_queue s who ahora opens)
  have "length (dropWhile P xs) \<le> length xs" for P and xs :: "new_event list"
    by (induction xs) auto
  from this [of _ "eg_cola s"] engine_queue show ?case
    by (auto simp: vacia_cola_def Let_def engine_ok_def intro: append_all_healthy order_trans)
next
  case (engine_close s opens)
  let ?s = "vacia_al_cerrar g opens s"
  have ok: "engine_ok g ?s"
    using engine_close by (auto simp: engine_ok_def vacia_al_cerrar_def Let_def append_all_healthy)
  then have "healthy (cfg_ext g) (inr_ledger (volcar_perfiles g (eg_inner ?s)))"
    using healthy_frame [OF volcar_frame [of "eg_inner ?s" g]] by (simp add: engine_ok_def)
  moreover have "inr_rules (volcar_perfiles g i) = inr_rules i" for i
    by (simp add: volcar_perfiles_def case_prod_beta)
  ultimately show ?case using ok by (simp add: al_cerrar_def engine_ok_def)
next
  case (engine_minute s)
  then show ?case by (simp add: engine_ok_def)
next
  case (engine_elsewhere s l)
  then show ?case using step_healthy [OF engine_elsewhere(1)] by (simp add: engine_ok_def)
qed

lemma sample_engine_ok: "engine_ok sample_cfg sample_engine"
  by (simp add: engine_ok_def sample_cfg_def sample_engine_def sample_sha_32 sample_healthy rules_ok_def
      rule_cache_new_def)

text \<open>C7: whatever comes, in whatever order (requests, answers of the upstream, beats of the queue,
  the panel's own changes to the ledger), the ledger passes its own check, no category rule is ever
  among those of the free level, and what is held in memory stays bounded.\<close>

theorem engine_stays_sound:
  assumes "(engine_step g)\<^sup>*\<^sup>* s t" "engine_ok g s"
  shows "(\<exists>r. check (cfg_ext g) (led t) = Inr r \<and> check_is_ok r \<and> ck_checked r = length (lg_events (led t))) \<and>
    (\<forall>r. r \<in> set (rules_para False (inr_rules (eg_inner t))) \<longrightarrow> r_match_kind r \<noteq> Category_k) \<and>
    length (eg_pending t) \<le> 10000 \<and> length (eg_cola t) \<le> 10000 \<and> length (eg_nombres t) \<le> 20016"
proof -
  have ok: "engine_ok g t"
    using assms by (induction rule: rtranclp_induct) (auto intro: engine_step_ok)
  then have "rules_para False (inr_rules (eg_inner t)) = reglas_gratis (rca_rules (inr_rules (eg_inner t)))"
    by (simp add: engine_ok_def rules_ok_def rules_para_def)
  with ok healthy_checks show ?thesis
    by (auto simp: engine_ok_def reglas_gratis_def MAX_NOMBRES_IP_def MAX_OTRAS_def)
qed

theorem engine_stays_sound_witness:
  "\<exists>r. check sample_ext (led (snd (handle_request sample_handler
      (engine_policy sample_cfg (sample_entorno, sample_entorno, sample_entorno)) Up_error
      (sample_request ''T.co.'') 5 sample_engine))) = Inr r \<and> check_is_ok r"
  (is "\<exists>r. check _ (led ?t) = _ \<and> _")
proof -
  have "(engine_step sample_cfg)\<^sup>*\<^sup>* sample_engine ?t"
    by (rule r_into_rtranclp, rule engine_request)
  from engine_stays_sound [OF this sample_engine_ok]
  show ?thesis by (auto simp: sample_cfg_def)
qed


end
