(* ===== verification/Engine_Use.thy ===== *)
theory Engine_Use imports Engine_Facts begin

text \<open>The queue of the engine (\<open>crates/cli/src/engine.rs\<close>): the events that wait for the program that
  asked to be known before they are appended, and what a beat of it keeps.\<close>

section \<open>The queue\<close>

text \<open>What identifies a query, in a row and in an event that waits.\<close>

definition query_key :: "event_row \<Rightarrow> int \<times> string \<times> string \<times> string" where
  "query_key r = (er_ts r, er_device_id r, er_qname r, er_verdict r)"

definition event_key :: "new_event \<Rightarrow> int \<times> string \<times> string \<times> string" where
  "event_key e = (ne_ts e, ne_device_id e, ne_qname e, verdict_str (ne_verdict e))"

lemma append_all_rows:
  "\<lbrakk>sha_32 x; healthy x l\<rbrakk> \<Longrightarrow>
   map query_key (lg_events (append_all x evs l)) = map query_key (lg_events l) @ map event_key evs"
proof (induction evs arbitrary: l)
  case (Cons ev evs)
  obtain row where "lg_events (snd (append x ev l)) = lg_events l @ [row]" "row_says row ev"
    using append_row [OF Cons.prems(2)] by blast
  with Cons.IH [OF Cons.prems(1) append_healthy [OF Cons.prems]] show ?case
    by (simp add: append_all_def row_says_def query_key_def event_key_def)
qed (simp add: append_all_def)

text \<open>C12: a beat of the queue loses no query and changes no order: the rows of the ledger followed by
  what still waits are the same queries as before, and what waits on is what has not waited long
  enough. Only where the ledger cannot be opened are the queries that were ready lost.\<close>

theorem queue_reaches_the_ledger:
  assumes "engine_ok g s"
  shows "map query_key (lg_events (led (vacia_cola g who ahora opens s))) @
      map event_key (eg_cola (vacia_cola g who ahora opens s)) =
    map query_key (lg_events (led s)) @
      map event_key (if opens then eg_cola s else dropWhile (ready ahora) (eg_cola s))"
proof -
  have ok: "sha_32 (cfg_ext g)" "healthy (cfg_ext g) (led s)" using assms by (simp_all add: engine_ok_def)
  let ?who = "\<lambda>ev. ev\<lparr>ne_process := who (ne_qname ev) (ne_ts ev)\<rparr>"
  have k: "map (event_key \<circ> ?who) evs = map event_key evs" for evs
    by (simp add: event_key_def)
  have "map event_key (takeWhile (ready ahora) (eg_cola s)) @ map event_key (dropWhile (ready ahora) (eg_cola s)) =
      map event_key (eg_cola s)" by (metis map_append takeWhile_dropWhile_id)
  then show ?thesis
    using append_all_rows [OF ok, of "map ?who (takeWhile (ready ahora) (eg_cola s))"]
    by (auto simp: vacia_cola_def Let_def k)
qed

theorem queue_reaches_the_ledger_witness:
  "map query_key (lg_events (led (vacia_cola sample_cfg (\<lambda>_ _. None) 9 False sample_engine))) @
    map event_key (eg_cola (vacia_cola sample_cfg (\<lambda>_ _. None) 9 False sample_engine)) =
   map query_key (lg_events (led sample_engine))"
  using queue_reaches_the_ledger [OF sample_engine_ok, of "\<lambda>_ _. None" 9 False]
  by (simp add: sample_engine_def)


end
