(* ===== verification/Arbol.thy ===== *)
theory Arbol imports Hash_Chain begin

text \<open>
  The hash tree over the pieces of a file: \<open>crates/secure/src/arbol.rs\<close>, the Merkle Tree Hash of
  RFC 6962. SHA-256 is the parameter \<open>sha\<close>. The interface \<open>hash_tree\<close> is what the tree rests on:
  two ways to hash, a leaf and a node, whose inputs are never the same; from it follows that one
  root means one list of pieces, or that two of the inputs hashed for the two roots collide.
\<close>

section \<open>The code\<close>

definition hoja :: "(bytes \<Rightarrow> bytes) \<Rightarrow> bytes \<Rightarrow> bytes" where
  "hoja sha trozo = sha (0 # trozo)"

definition nodo :: "(bytes \<Rightarrow> bytes) \<Rightarrow> bytes \<Rightarrow> bytes \<Rightarrow> bytes" where
  "nodo sha izquierda derecha = sha (1 # izquierda @ derecha)"

text \<open>The position of the highest bit: \<open>usize::BITS - 1 - n.leading_zeros()\<close>.\<close>

fun top_bit :: "nat \<Rightarrow> nat" where
  "top_bit n = (if n < 2 then 0 else Suc (top_bit (n div 2)))"

declare top_bit.simps [simp del]

lemma top_bit_spec: "0 < n \<Longrightarrow> 2 ^ top_bit n \<le> n \<and> n < 2 * 2 ^ top_bit n"
proof (induction n rule: top_bit.induct)
  case (1 n)
  show ?case
  proof (cases "n < 2")
    case True
    with 1 show ?thesis by (auto simp: top_bit.simps)
  next
    case False
    then have "2 ^ top_bit (n div 2) \<le> n div 2" "n div 2 < 2 * 2 ^ top_bit (n div 2)"
      using 1 by simp_all
    with False have "2 * 2 ^ top_bit (n div 2) \<le> n \<and> n < 2 * (2 * 2 ^ top_bit (n div 2))" by linarith
    with False show ?thesis by (simp add: top_bit.simps [of n])
  qed
qed

lemma top_bit_unique: "\<lbrakk>2 ^ e \<le> n; n < 2 * 2 ^ e\<rbrakk> \<Longrightarrow> top_bit n = e"
proof -
  assume n: "2 ^ e \<le> n" "n < 2 * 2 ^ e"
  have "0 < n" using n(1) by (metis gr0I le_zero_eq power_not_zero zero_neq_numeral)
  from top_bit_spec [OF this] n have "(2::nat) ^ top_bit n < 2 ^ Suc e" "(2::nat) ^ e < 2 ^ Suc (top_bit n)"
    by simp_all
  then have "top_bit n < Suc e" "e < Suc (top_bit n)"
    using power_less_imp_less_exp [of "2::nat" "top_bit n" "Suc e"]
      power_less_imp_less_exp [of "2::nat" e "Suc (top_bit n)"] by simp_all
  then show ?thesis by simp
qed

text \<open>The largest power of two strictly below \<open>n\<close>.\<close>

definition split_at :: "nat \<Rightarrow> nat" where
  "split_at n = 2 ^ top_bit (n - 1)"

lemma split_at_inside: "2 \<le> n \<Longrightarrow> 0 < split_at n \<and> split_at n < n"
  using top_bit_spec [of "n - 1"] by (simp add: split_at_def) linarith

function raiz :: "(bytes \<Rightarrow> bytes) \<Rightarrow> bytes list \<Rightarrow> bytes" where
  "raiz sha hojas =
     (case hojas of
        [] \<Rightarrow> sha []
      | [h] \<Rightarrow> h
      | _ \<Rightarrow> let k = split_at (length hojas)
             in nodo sha (raiz sha (take k hojas)) (raiz sha (drop k hojas)))"
  by pat_completeness auto
termination
proof (relation "measure (\<lambda>(_, hojas). length hojas)", goal_cases)
  case (2 sha hojas x xs y ys k)
  then show ?case using split_at_inside [of "length hojas"] by simp
next
  case (3 sha hojas x xs y ys k)
  then show ?case using split_at_inside [of "length hojas"] by simp
qed simp

declare raiz.simps [simp del]

definition hex :: "bytes \<Rightarrow> string" where
  "hex h = to_hex h"

lemma raiz_simps [simp]: "raiz sha [] = sha []" "raiz sha [h] = h"
  by (simp_all add: raiz.simps)

lemma raiz_split:
  "2 \<le> length hs \<Longrightarrow> raiz sha hs =
   nodo sha (raiz sha (take (split_at (length hs)) hs)) (raiz sha (drop (split_at (length hs)) hs))"
  by (subst raiz.simps) (auto simp: Let_def split: list.split)

section \<open>One root, one list of pieces\<close>

locale hash_tree =
  fixes digest :: "'i \<Rightarrow> 'h" and root :: "'p list \<Rightarrow> 'h" and top :: "'p list \<Rightarrow> 'i"
    and inputs :: "'p list \<Rightarrow> 'i set" and halves :: "'p list \<Rightarrow> 'p list \<times> 'p list"
    and ok :: "'p list \<Rightarrow> bool"
  assumes root_top: "root ps = digest (top ps)"
    and top_in: "top ps \<in> inputs ps"
    and halves: "2 \<le> length ps \<Longrightarrow> fst (halves ps) @ snd (halves ps) = ps \<and>
      length (fst (halves ps)) < length ps \<and> length (snd (halves ps)) < length ps"
    and inputs: "2 \<le> length ps \<Longrightarrow> inputs (fst (halves ps)) \<union> inputs (snd (halves ps)) \<subseteq> inputs ps"
    and ok_halves: "ok ps \<Longrightarrow> ok (fst (halves ps)) \<and> ok (snd (halves ps))"
    and top_eq: "\<lbrakk>ok ps; ok qs; top ps = top qs\<rbrakk> \<Longrightarrow> ps = qs \<or> 2 \<le> length ps \<and> 2 \<le> length qs \<and>
      root (fst (halves ps)) = root (fst (halves qs)) \<and> root (snd (halves ps)) = root (snd (halves qs))"
begin

lemma same_root:
  "\<lbrakk>ok ps; ok qs; root ps = root qs\<rbrakk> \<Longrightarrow> ps = qs \<or> collides digest (inputs ps) (inputs qs)"
proof (induction "length ps" arbitrary: ps qs rule: less_induct)
  case less
  show ?case
  proof (cases "top ps = top qs")
    case False
    then have "collides digest (inputs ps) (inputs qs)"
      using less.prems(3) top_in root_top unfolding collides_def by metis
    then show ?thesis ..
  next
    case True
    from top_eq [OF less.prems(1,2) True] consider "ps = qs" | "2 \<le> length ps" "2 \<le> length qs"
      "root (fst (halves ps)) = root (fst (halves qs))" "root (snd (halves ps)) = root (snd (halves qs))"
      by blast
    then show ?thesis
    proof cases
      case 2
      note h = halves [OF 2(1)] halves [OF 2(2)] and i = inputs [OF 2(1)] inputs [OF 2(2)]
        and k = ok_halves [OF less.prems(1)] ok_halves [OF less.prems(2)]
      have "fst (halves ps) = fst (halves qs) \<or>
          collides digest (inputs (fst (halves ps))) (inputs (fst (halves qs)))"
        using h k 2(3) by (intro less.hyps) auto
      moreover have "snd (halves ps) = snd (halves qs) \<or>
          collides digest (inputs (snd (halves ps))) (inputs (snd (halves qs)))"
        using h k 2(4) by (intro less.hyps) auto
      moreover have "collides digest (inputs ps) (inputs qs)"
        if "collides digest A B" "A \<subseteq> inputs ps" "B \<subseteq> inputs qs" for A B
        using that by (rule collides_mono)
      ultimately show ?thesis using h i by (metis (no_types, lifting) le_sup_iff)
    qed simp
  qed
qed

end

text \<open>What is hashed for the root of these pieces: at the top, and in all.\<close>

definition mitades :: "'a list \<Rightarrow> 'a list \<times> 'a list" where
  "mitades ps = (take (split_at (length ps)) ps, drop (split_at (length ps)) ps)"

definition raiz_de :: "(bytes \<Rightarrow> bytes) \<Rightarrow> bytes list \<Rightarrow> bytes" where
  "raiz_de sha ps = raiz sha (map (hoja sha) ps)"

definition arriba :: "(bytes \<Rightarrow> bytes) \<Rightarrow> bytes list \<Rightarrow> bytes" where
  "arriba sha ps =
     (case ps of
        [] \<Rightarrow> []
      | [p] \<Rightarrow> 0 # p
      | _ \<Rightarrow> 1 # raiz_de sha (fst (mitades ps)) @ raiz_de sha (snd (mitades ps)))"

inductive entrada :: "(bytes \<Rightarrow> bytes) \<Rightarrow> bytes list \<Rightarrow> bytes \<Rightarrow> bool" for sha where
  entrada_arriba: "entrada sha ps (arriba sha ps)"
| entrada_izquierda: "\<lbrakk>2 \<le> length ps; entrada sha (fst (mitades ps)) x\<rbrakk> \<Longrightarrow> entrada sha ps x"
| entrada_derecha: "\<lbrakk>2 \<le> length ps; entrada sha (snd (mitades ps)) x\<rbrakk> \<Longrightarrow> entrada sha ps x"

lemma raiz_arriba: "raiz_de sha ps = sha (arriba sha ps)"
proof (cases ps)
  case (Cons p qs)
  then show ?thesis
  proof (cases qs)
    case (Cons q rs)
    have "2 \<le> length (map (hoja sha) ps)" using \<open>ps = p # qs\<close> Cons by simp
    note split = raiz_split [OF this, unfolded length_map take_map drop_map]
    have "arriba sha ps = 1 # raiz_de sha (fst (mitades ps)) @ raiz_de sha (snd (mitades ps))"
      using \<open>ps = p # qs\<close> Cons by (simp add: arriba_def)
    then show ?thesis by (simp only: raiz_de_def split nodo_def mitades_def fst_conv snd_conv)
  qed (simp add: raiz_de_def arriba_def hoja_def)
qed (simp add: raiz_de_def arriba_def)

lemma arriba_cases:
  obtains "ps = []" "arriba sha ps = []" | p where "ps = [p]" "arriba sha ps = 0 # p"
  | "2 \<le> length ps" "arriba sha ps = 1 # raiz_de sha (fst (mitades ps)) @ raiz_de sha (snd (mitades ps))"
  by (cases ps; cases "tl ps") (auto simp: arriba_def)

interpretation arbol: hash_tree sha "raiz_de sha" "arriba sha" "\<lambda>ps. {x. entrada sha ps x}" mitades
  "\<lambda>_. \<forall>x. length (sha x) = 32" for sha
proof (unfold_locales, goal_cases)
  case (3 ps)
  then show ?case using split_at_inside [of "length ps"] by (auto simp: mitades_def)
next
  case (6 ps qs)
  show ?case
  proof (cases rule: arriba_cases [of ps sha]; cases rule: arriba_cases [of qs sha])
    assume "2 \<le> length ps" "arriba sha ps = 1 # raiz_de sha (fst (mitades ps)) @ raiz_de sha (snd (mitades ps))"
      "2 \<le> length qs" "arriba sha qs = 1 # raiz_de sha (fst (mitades qs)) @ raiz_de sha (snd (mitades qs))"
    with 6 show ?thesis by (simp add: raiz_arriba)
  qed (use 6(3) in auto)
qed (auto simp: raiz_arriba intro: entrada.intros)

text \<open>C25: the root of the tree stands for the pieces: two files cut in pieces with the same root have
  the same pieces, in number, order and every byte, unless two different texts hashed on the way
  to the two roots have the same SHA-256. No piece passes for an inner node nor the other way.\<close>

theorem one_root_one_file:
  assumes "\<forall>x. length (sha x) = 32"
    and "raiz sha (map (hoja sha) ps) = raiz sha (map (hoja sha) qs)"
  shows "ps = qs \<or> collides sha {x. entrada sha ps x} {x. entrada sha qs x}"
  using arbol.same_root [of sha ps qs] assms by (simp add: raiz_de_def)

theorem one_root_one_file_witness:
  "collides (\<lambda>x. be_bytes 32 (length x)) {x. entrada (\<lambda>x. be_bytes 32 (length x)) [[1, 2], [3]] x}
     {x. entrada (\<lambda>x. be_bytes 32 (length x)) [[1, 2], [4]] x}"
proof -
  let ?sha = "\<lambda>x :: bytes. be_bytes 32 (length x)"
  have "\<forall>x. length (?sha x) = 32" by simp
  moreover have "raiz ?sha (map (hoja ?sha) [[1, 2], [3]]) = raiz ?sha (map (hoja ?sha) [[1, 2], [4]])"
    by (simp add: hoja_def)
  ultimately show ?thesis using one_root_one_file [of ?sha "[[1, 2], [3]]" "[[1, 2], [4]]"] by simp
qed

end
