(* ===== verification/Relleno.thy ===== *)
theory Relleno imports Arbol begin

text \<open>
  Sizes in buckets, so that who carries the bytes cannot tell one message from another by its
  length: \<open>crates/secure/src/relleno.rs\<close>. The arithmetic is that of \<open>u64\<close>, bit by bit.
\<close>

section \<open>The code\<close>

definition MINIMO :: nat where "MINIMO = 256"

text \<open>The bits that are rounded up: \<open>E - S\<close> of a length whose highest bit is \<open>E\<close>.\<close>

definition ultimos_bits :: "nat \<Rightarrow> nat" where
  "ultimos_bits l = (let e = top_bit l; s = top_bit (max e 1) + 1 in e - s)"

definition cubo :: "nat \<Rightarrow> nat" where
  "cubo largo =
     (let l = max largo MINIMO;
          mascara = 2 ^ ultimos_bits l - (1 :: u64)
      in unat ((of_nat l + mascara) AND NOT mascara))"

definition resize :: "bytes \<Rightarrow> nat \<Rightarrow> byte \<Rightarrow> bytes" where
  "resize datos n b = take n datos @ replicate (n - length datos) b"

definition rellena :: "bytes \<Rightarrow> byte \<Rightarrow> nat \<Rightarrow> bytes" where
  "rellena datos relleno maximo =
     (let objetivo = min (cubo (length datos)) maximo
      in if objetivo > length datos then resize datos objetivo relleno else datos)"

definition con_largo :: "bytes \<Rightarrow> bytes" where
  "con_largo datos =
     (let v = be_bytes 4 (length datos mod 2 ^ 32) @ datos in resize v (cubo (length v)) 0)"

definition sin_relleno :: "bytes \<Rightarrow> bytes option" where
  "sin_relleno v =
     (if length v < 4 then None else get_range (drop 4 v) 0 (from_be (take 4 v)))"

section \<open>The buckets\<close>

lemma unat_clear_low: "unat ((w :: 'a::len word) AND NOT (2 ^ u - 1)) = unat w div 2 ^ u * 2 ^ u"
proof -
  have w: "take_bit LENGTH('a) (unat w) = unat w" by (rule take_bit_nat_eq_self [OF unsigned_less])
  have "w AND NOT (mask u) = push_bit u (drop_bit u w)"
    by (rule bit_word_eqI) (auto simp: bit_simps)
  then have "unat (w AND NOT (mask u)) = take_bit LENGTH('a) (push_bit u (drop_bit u (unat w)))"
    by (simp add: unsigned_push_bit_eq unsigned_drop_bit_eq w)
  also have "push_bit u (drop_bit u (unat w)) = unat w div 2 ^ u * 2 ^ u"
    by (simp add: push_bit_eq_mult drop_bit_eq_div)
  also have "take_bit LENGTH('a) (unat w div 2 ^ u * 2 ^ u) = unat w div 2 ^ u * 2 ^ u"
  proof (rule take_bit_nat_eq_self)
    have "unat w div 2 ^ u * 2 ^ u \<le> unat w" by simp
    also have "\<dots> < 2 ^ LENGTH('a)" by (rule unsigned_less)
    finally show "unat w div 2 ^ u * 2 ^ u < 2 ^ LENGTH('a)" .
  qed
  finally show ?thesis by (simp add: mask_eq_exp_minus_1)
qed

lemma ultimos_small: "256 \<le> l \<Longrightarrow> 2 ^ ultimos_bits l * 16 \<le> l"
proof -
  assume l: "256 \<le> l"
  let ?e = "top_bit l"
  have e: "2 ^ ?e \<le> l" "l < 2 * 2 ^ ?e" using top_bit_spec [of l] l by simp_all
  have "(2::nat) ^ 8 < 2 ^ Suc ?e" using l e(2) by simp
  then have "8 < Suc ?e" by (rule power_less_imp_less_exp [rotated]) simp
  then have e8: "8 \<le> ?e" by simp
  then have "(8::nat) < 2 * 2 ^ top_bit ?e" using top_bit_spec [of ?e] by linarith
  then have "(2::nat) ^ 3 < 2 ^ Suc (top_bit ?e)" by simp
  then have "3 < Suc (top_bit ?e)" by (rule power_less_imp_less_exp [rotated]) simp
  then have "ultimos_bits l + 4 \<le> ?e" using e8 by (simp add: ultimos_bits_def Let_def max_def)
  then have "(2::nat) ^ (ultimos_bits l + 4) \<le> 2 ^ ?e" by (rule power_increasing) simp
  with e(1) show ?thesis by (simp add: power_add)
qed

lemma cubo_rounds:
  assumes "largo < 2 ^ 62"
  defines "l \<equiv> max largo MINIMO"
  shows "cubo largo = (l + 2 ^ ultimos_bits l - 1) div 2 ^ ultimos_bits l * 2 ^ ultimos_bits l"
proof -
  let ?p = "(2::nat) ^ ultimos_bits l"
  have l: "256 \<le> l" "l < 2 ^ 62" using assms by (simp_all add: MINIMO_def)
  have p: "?p * 16 \<le> l" "1 \<le> ?p" using ultimos_small [OF l(1)] by simp_all
  have "(of_nat (?p - 1) :: u64) = 2 ^ ultimos_bits l - 1" by (subst of_nat_diff) simp_all
  then have "of_nat l + (2 ^ ultimos_bits l - 1) = (of_nat (l + (?p - 1)) :: u64)" by (simp only: of_nat_add)
  moreover have "l + (?p - 1) < 2 ^ 64" using l(2) p(1) by simp
  ultimately have "unat (of_nat l + (2 ^ ultimos_bits l - 1) :: u64) = l + (?p - 1)"
    by (simp add: unat_of_nat)
  then show ?thesis using p(2) by (simp add: cubo_def Let_def unat_clear_low flip: l_def)
qed

lemma round_up:
  fixes l p :: nat
  assumes "0 < p"
  shows "l \<le> (l + p - 1) div p * p" "(l + p - 1) div p * p < l + p" "p dvd (l + p - 1) div p * p"
proof -
  have "(l + p - 1) div p * p + (l + p - 1) mod p = l + p - 1" "(l + p - 1) mod p < p"
    using assms by simp_all
  then show "l \<le> (l + p - 1) div p * p" "(l + p - 1) div p * p < l + p" using assms by linarith+
qed simp

lemma round_up_dvd: "\<lbrakk>0 < p; p dvd l\<rbrakk> \<Longrightarrow> (l + p - 1) div p * p = (l::nat)"
proof -
  assume p: "0 < p" "p dvd l"
  then obtain k where k: "l = p * k" by blast
  have "l + p - 1 = (p - 1) + p * k" using p(1) k by simp
  also have "\<dots> div p = k" using p(1) by (subst div_mult_self2) simp_all
  finally have "(l + p - 1) div p = k" .
  then show ?thesis using k by simp
qed

lemma round_up_le: "\<lbrakk>0 < p; p dvd m; l \<le> m\<rbrakk> \<Longrightarrow> (l + p - 1) div p * p \<le> (m::nat)"
  using round_up_dvd [of p m] by (metis add_le_mono1 diff_le_mono div_le_mono mult_le_mono1)

text \<open>A length grows by less than a sixteenth, and a bucket is its own bucket.\<close>

lemma cubo_bounds:
  assumes "largo < 2 ^ 62"
  shows "largo \<le> cubo largo" "256 \<le> cubo largo" "cubo largo = 256 \<or> (cubo largo - largo) * 16 < largo"
proof -
  let ?l = "max largo MINIMO"
  let ?p = "(2::nat) ^ ultimos_bits ?l"
  have l: "256 \<le> ?l" by (simp add: MINIMO_def)
  note c = cubo_rounds [OF assms] and r = round_up [of ?p ?l]
  have p: "?p * 16 \<le> ?l" by (rule ultimos_small [OF l])
  have "?l \<le> cubo largo" using r(1) c by simp
  then show "largo \<le> cubo largo" "256 \<le> cubo largo" by (simp_all add: MINIMO_def)
  show "cubo largo = 256 \<or> (cubo largo - largo) * 16 < largo"
  proof (cases "256 < largo")
    case True
    then have "?l = largo" by (simp add: MINIMO_def)
    then have "cubo largo < largo + ?p" "?p * 16 \<le> largo" using r(2) c p by simp_all
    then show ?thesis by linarith
  next
    case False
    then have l256: "?l = 2 ^ 8" by (simp add: MINIMO_def)
    have "ultimos_bits ?l = 4" unfolding l256 by code_simp
    then show ?thesis using c l256 by simp
  qed
qed

lemma cubo_again: "largo < 2 ^ 61 \<Longrightarrow> cubo (cubo largo) = cubo largo"
proof -
  assume a: "largo < 2 ^ 61"
  let ?l = "max largo MINIMO"
  let ?u = "ultimos_bits ?l" and ?e = "top_bit ?l"
  have l: "256 \<le> ?l" "?l < 2 ^ 61" using a by (simp_all add: MINIMO_def)
  have e: "2 ^ ?e \<le> ?l" "?l < 2 * 2 ^ ?e" using top_bit_spec [of ?l] l(1) by linarith+
  have c: "cubo largo = (?l + 2 ^ ?u - 1) div 2 ^ ?u * 2 ^ ?u" using a by (intro cubo_rounds) simp
  note r = round_up [of "2 ^ ?u" ?l, folded c]
  have "(2::nat) ^ ?u dvd 2 * 2 ^ ?e"
    by (rule dvd_mult, rule le_imp_power_dvd) (simp add: ultimos_bits_def Let_def)
  then have top: "cubo largo \<le> 2 * 2 ^ ?e" using round_up_le [of "2 ^ ?u"] c e(2) by simp
  have "cubo largo < ?l + 2 ^ ?u" using r(2) by simp
  then have "cubo largo < 2 * ?l" using ultimos_small [OF l(1)] by linarith
  moreover have "(2::nat) ^ 62 = 2 * 2 ^ 61" by simp
  ultimately have c62: "cubo largo < 2 ^ 62" using l(2) by linarith
  have m: "max (cubo largo) MINIMO = cubo largo" using cubo_bounds(2) [of largo] a by (simp add: MINIMO_def)
  have "2 ^ ultimos_bits (cubo largo) dvd cubo largo"
  proof (cases "cubo largo = 2 * 2 ^ ?e")
    case True
    then have "cubo largo = 2 ^ Suc ?e" by simp
    moreover have "top_bit (cubo largo) = Suc ?e" using calculation by (intro top_bit_unique) simp_all
    ultimately show ?thesis by (simp add: ultimos_bits_def Let_def le_imp_power_dvd del: power_Suc)
  next
    case False
    have "?l \<le> cubo largo" by (rule r(1)) simp
    with e(1) have "2 ^ ?e \<le> cubo largo" by (rule order_trans)
    moreover have "cubo largo < 2 * 2 ^ ?e" using False top by simp
    ultimately have "top_bit (cubo largo) = ?e" by (rule top_bit_unique)
    then have "ultimos_bits (cubo largo) = ?u" by (simp add: ultimos_bits_def)
    then show ?thesis using r(3) by simp
  qed
  then show ?thesis using round_up_dvd cubo_rounds [OF c62] m by simp
qed

section \<open>Padded messages\<close>

lemma length_resize: "length datos \<le> n \<Longrightarrow> length (resize datos n b) = n"
  by (simp add: resize_def)

lemma length_con_largo: "length d < 2 ^ 61 \<Longrightarrow> length (con_largo d) = cubo (length d + 4)"
  using cubo_bounds(1) [of "length d + 4"] by (simp add: con_largo_def Let_def length_resize add.commute)

interpretation relleno: codec con_largo sin_relleno "\<lambda>d. length d < 2 ^ 32"
proof
  fix d :: bytes
  assume d: "length d < 2 ^ 32"
  have t: "take n (be_bytes 4 m @ d @ z) = be_bytes 4 m" if "n = 4" for n m z using that by simp
  have "con_largo d = be_bytes 4 (length d) @ d @ replicate (cubo (length d + 4) - (length d + 4)) 0"
    using cubo_bounds(1) [of "length d + 4"] d by (simp add: con_largo_def resize_def Let_def add.commute)
  moreover have "from_be (be_bytes 4 (length d)) = length d" using d by (intro from_be_bytes) simp
  ultimately show "sin_relleno (con_largo d) = Some d" by (simp add: sin_relleno_def)
qed

text \<open>Growing in place keeps the bytes and never passes the reader's limit.\<close>

lemma rellena_keeps:
  "length d \<le> m \<Longrightarrow> take (length d) (rellena d b m) = d \<and> length (rellena d b m) \<le> m"
  by (auto simp: rellena_def resize_def Let_def)

text \<open>A padded message comes back as it was, and its length on the wire is its bucket alone: at
  least 256 bytes, never a sixteenth more than it has to carry, and a bucket is its own bucket, so
  that a message padded twice does not grow.\<close>

theorem padded_message_comes_back:
  assumes "length d < 2 ^ 32"
  shows "sin_relleno (con_largo d) = Some d \<and>
    (let n = length (con_largo d) in
       n = cubo (length d + 4) \<and> 256 \<le> n \<and> (n = 256 \<or> (n - (length d + 4)) * 16 < length d + 4) \<and>
       cubo n = n)"
  using assms cubo_bounds [of "length d + 4"] cubo_again [of "length d + 4"]
  by (simp add: relleno.dec_enc length_con_largo)

theorem padded_message_comes_back_witness:
  "sin_relleno (con_largo [1, 2, 3]) = Some [1, 2, 3] \<and> 256 \<le> length (con_largo [1, 2, 3])"
  using padded_message_comes_back [of "[1, 2, 3]"] by (simp add: Let_def)

end
