(* ===== verification/Secure.thy ===== *)
theory Secure imports Hash_Chain begin

text \<open>
  Shared by the theories of \<open>crates/secure\<close>: its errors (\<open>lib.rs\<close>) and the authenticated ciphers it
  uses, which are other crates' (\<open>ring\<close>, \<open>chacha20poly1305\<close>) and so a parameter: a record of the
  two operations. What is documented of them is stated in two parts: \<open>seals_upto\<close>, that a text up
  to some length is sealed and opens again to itself; and \<open>tidy\<close>, that what opens to a text is the
  one thing sealing that text gives (the tag is recomputed over the whole ciphertext).
\<close>

datatype secure_error =
  NoOneTimeKey | CannotStart | IdentityChanged | NotAFirstMessage | CannotOpen | CannotRestore
| ReverifyNeeded

text \<open>Key, nonce, additional data, text.\<close>

record aead =
  seal :: "bytes \<Rightarrow> bytes \<Rightarrow> bytes \<Rightarrow> bytes \<Rightarrow> bytes option"
  unseal :: "bytes \<Rightarrow> bytes \<Rightarrow> bytes \<Rightarrow> bytes \<Rightarrow> bytes option"

definition seals_upto :: "nat \<Rightarrow> aead \<Rightarrow> bool" where
  "seals_upto m c \<longleftrightarrow>
     (\<forall>k n a p. length p \<le> m \<longrightarrow> (\<exists>s. seal c k n a p = Some s \<and> unseal c k n a s = Some p))"

definition tidy :: "aead \<Rightarrow> bool" where
  "tidy c \<longleftrightarrow> (\<forall>k n a s p. unseal c k n a s = Some p \<longrightarrow> seal c k n a p = Some s)"

lemma sealsE:
  assumes "seals_upto m c" "length p \<le> m"
  obtains s where "seal c k n a p = Some s" "unseal c k n a s = Some p"
  using assms unfolding seals_upto_def by blast

lemma tidyD: "\<lbrakk>tidy c; unseal c k n a s = Some p\<rbrakk> \<Longrightarrow> seal c k n a p = Some s"
  by (simp add: tidy_def)

text \<open>A cipher for the witnesses: it seals by writing everything down, and opens what it wrote.\<close>

definition sample_aead :: aead where
  "sample_aead = \<lparr>seal = (\<lambda>k n a p. Some (k @ n @ a @ p)),
     unseal = (\<lambda>k n a s. if take (length (k @ n @ a)) s = k @ n @ a then Some (drop (length (k @ n @ a)) s)
       else None)\<rparr>"

lemma sample_aead_ok: "seals_upto m sample_aead" "tidy sample_aead"
  by (auto simp: seals_upto_def tidy_def sample_aead_def split: if_splits) (metis append_take_drop_id append_assoc length_append)

end
