(* ===== verification/Flujo.thy ===== *)
theory Flujo imports Arbol Secure begin

text \<open>
  A large file in sealed pieces: \<open>crates/secure/src/flujo.rs\<close>. The cipher is \<open>ring\<close>'s AES-256-GCM, a
  parameter (\<open>Secure.aead\<close>); SHA-256 is the parameter \<open>sha\<close>, and what an incremental hash was fed
  is kept as the bytes themselves.
\<close>

section \<open>The code\<close>

definition TROZO :: nat where "TROZO = 2 ^ 20"
definition PREFIJO :: nat where "PREFIJO = 7"
definition DOMINIO_FLUJO :: bytes where "DOMINIO_FLUJO = str_bytes ''GUARDIANA_ENTREGA_STREAM_V1''"
definition MAX_TROZOS :: nat where "MAX_TROZOS = 2 ^ 32 - 1"

definition trozos :: "nat \<Rightarrow> nat" where
  "trozos n = max ((n + TROZO - 1) div TROZO) 1"

record clave =
  kl_bytes :: bytes
  kl_prefijo :: bytes

record flujo =
  fl_clave :: bytes
  fl_prefijo :: bytes
  fl_aad :: bytes

definition nonce :: "bytes \<Rightarrow> nat \<Rightarrow> bool \<Rightarrow> bytes" where
  "nonce prefijo n ultimo = prefijo @ be_bytes 4 n @ [of_bool ultimo]"

definition contexto :: "string \<Rightarrow> nat \<Rightarrow> bytes" where
  "contexto entrega archivo = DOMINIO_FLUJO @ str_bytes entrega @ [0] @ be_bytes 4 archivo"

definition flujo_new :: "clave \<Rightarrow> bytes \<Rightarrow> flujo" where
  "flujo_new k ctx = \<lparr>fl_clave = kl_bytes k, fl_prefijo = kl_prefijo k, fl_aad = ctx\<rparr>"

definition sella :: "aead \<Rightarrow> flujo \<Rightarrow> nat \<Rightarrow> bool \<Rightarrow> bytes \<Rightarrow> secure_error + bytes" where
  "sella c f n ultimo plano =
     (case seal c (fl_clave f) (nonce (fl_prefijo f) n ultimo) (fl_aad f) plano of
        None \<Rightarrow> Inl CannotOpen
      | Some v \<Rightarrow> Inr v)"

definition abre :: "aead \<Rightarrow> flujo \<Rightarrow> nat \<Rightarrow> bool \<Rightarrow> bytes \<Rightarrow> secure_error + bytes" where
  "abre c f n ultimo sellado =
     (case unseal c (fl_clave f) (nonce (fl_prefijo f) n ultimo) (fl_aad f) sellado of
        None \<Rightarrow> Inl CannotOpen
      | Some v \<Rightarrow> Inr v)"

record huella =
  hu_bytes :: nat
  hu_trozos :: nat
  hu_sha256 :: string
  hu_raiz :: string
  hu_hojas :: "bytes list"

record empaquetador =
  em_flujo :: flujo
  em_pendiente :: bytes
  em_n :: nat
  em_hojas :: "bytes list"
  em_hash :: bytes
  em_bytes :: nat

definition empaquetador_new :: "clave \<Rightarrow> bytes \<Rightarrow> empaquetador" where
  "empaquetador_new k ctx =
     \<lparr>em_flujo = flujo_new k ctx, em_pendiente = [], em_n = 0, em_hojas = [], em_hash = [], em_bytes = 0\<rparr>"

definition sella_uno ::
    "aead \<Rightarrow> (bytes \<Rightarrow> bytes) \<Rightarrow> bytes \<Rightarrow> bool \<Rightarrow> empaquetador \<Rightarrow> (secure_error + bytes) \<times> empaquetador" where
  "sella_uno c sha plano ultimo e0 =
     (if em_n e0 \<ge> MAX_TROZOS then (Inl CannotOpen, e0)
      else
        let e = e0\<lparr>em_hojas := em_hojas e0 @ [hoja sha plano]\<rparr>
        in case sella c (em_flujo e) (em_n e) ultimo plano of
             Inl err \<Rightarrow> (Inl err, e)
           | Inr s \<Rightarrow> (Inr s, e\<lparr>em_n := em_n e + 1\<rparr>))"

lemma sella_uno_pendiente [simp]: "em_pendiente (snd (sella_uno c sha p u e)) = em_pendiente e"
  by (simp add: sella_uno_def Let_def split: sum.split)

text \<open>Strictly more than one piece waiting: the first one cannot be the last.\<close>

function empuja_bucle ::
    "aead \<Rightarrow> (bytes \<Rightarrow> bytes) \<Rightarrow> empaquetador \<Rightarrow> bytes list \<Rightarrow> (secure_error + bytes list) \<times> empaquetador" where
  "empuja_bucle c sha e salida =
     (if length (em_pendiente e) > TROZO then
        let trozo = take TROZO (em_pendiente e);
            e1 = e\<lparr>em_pendiente := drop TROZO (em_pendiente e)\<rparr>
        in case sella_uno c sha trozo False e1 of
             (Inl err, e2) \<Rightarrow> (Inl err, e2)
           | (Inr s, e2) \<Rightarrow> empuja_bucle c sha e2 (salida @ [s])
      else (Inr salida, e))"
  by pat_completeness auto
termination
proof (relation "measure (\<lambda>(_, _, e, _). length (em_pendiente e))", goal_cases)
  case (2 c sha e salida trozo e1 r e2 s)
  from 2(4) have "snd (sella_uno c sha trozo False e1) = e2" by (metis snd_conv)
  then have "em_pendiente e2 = drop TROZO (em_pendiente e)"
    using sella_uno_pendiente [of c sha trozo False e1] 2(3) by auto
  moreover have "0 < TROZO" by (simp add: TROZO_def)
  ultimately show ?case using 2(1) by simp
qed simp

declare empuja_bucle.simps [simp del]

definition empuja ::
    "aead \<Rightarrow> (bytes \<Rightarrow> bytes) \<Rightarrow> bytes \<Rightarrow> empaquetador \<Rightarrow> (secure_error + bytes list) \<times> empaquetador" where
  "empuja c sha datos e =
     empuja_bucle c sha
       (e\<lparr>em_hash := em_hash e @ datos, em_bytes := em_bytes e + length datos,
          em_pendiente := em_pendiente e @ datos\<rparr>) []"

definition termina ::
    "aead \<Rightarrow> (bytes \<Rightarrow> bytes) \<Rightarrow> empaquetador \<Rightarrow> secure_error + bytes \<times> huella" where
  "termina c sha e0 =
     (case sella_uno c sha (em_pendiente e0) True (e0\<lparr>em_pendiente := []\<rparr>) of
        (Inl err, _) \<Rightarrow> Inl err
      | (Inr ultimo, e) \<Rightarrow>
          Inr (ultimo, \<lparr>hu_bytes = em_bytes e, hu_trozos = em_n e, hu_sha256 = hex (sha (em_hash e)),
             hu_raiz = hex (raiz sha (em_hojas e)), hu_hojas = em_hojas e\<rparr>))"

section \<open>What the pieces are\<close>

text \<open>The file cut every \<open>TROZO\<close> bytes; an empty file has one empty piece.\<close>

function cortes :: "bytes \<Rightarrow> bytes list" where
  "cortes d = (if length d > TROZO then take TROZO d # cortes (drop TROZO d) else [d])"
  by pat_completeness auto
termination
  by (relation "measure length") (simp_all add: TROZO_def)

declare cortes.simps [simp del]

lemma TROZO_pos: "0 < TROZO" by (simp add: TROZO_def)

lemma cortes_nonempty [simp]: "cortes d \<noteq> []"
  by (subst cortes.simps) simp

lemma concat_cortes: "concat (cortes d) = d"
  by (induction d rule: cortes.induct) (subst cortes.simps, simp)

lemma cortes_short: "p \<in> set (cortes d) \<Longrightarrow> length p \<le> TROZO"
proof (induction d rule: cortes.induct)
  case (1 d)
  then show ?case by (cases "length d > TROZO") (auto simp: cortes.simps [of d])
qed

lemma length_cortes: "length (cortes d) = trozos (length d)"
proof (induction d rule: cortes.induct)
  case (1 d)
  show ?case
  proof (cases "length d > TROZO")
    case True
    have "(length d + TROZO - 1) div TROZO = (length d - TROZO + TROZO - 1) div TROZO + 1"
      using True TROZO_pos div_add_self2 [of TROZO "length d - 1"] by simp
    moreover have "1 \<le> (length d - TROZO + TROZO - 1) div TROZO"
      using True TROZO_pos by (simp add: div_greater_zero_iff Suc_leI)
    ultimately show ?thesis using 1 True by (simp add: cortes.simps [of d] trozos_def)
  next
    case False
    have "(length d + TROZO - 1) div TROZO \<le> 1"
      using False TROZO_pos by (simp add: less_Suc_eq_le [symmetric] div_less_iff_less_mult)
    with False show ?thesis by (simp add: cortes.simps [of d] trozos_def max_def)
  qed
qed

text \<open>More bytes leave the full pieces as they are.\<close>

lemma cortes_append: "cortes (d @ x) = butlast (cortes d) @ cortes (last (cortes d) @ x)"
proof (induction d rule: cortes.induct)
  case (1 d)
  then show ?case
    by (cases "length d > TROZO") (simp_all add: cortes.simps [of d] cortes.simps [of "d @ x"])
qed

text \<open>The pieces sealed in order, from number \<open>n\<close>; the last one is \<open>ultimo\<close> or none is.\<close>

definition sello :: "aead \<Rightarrow> flujo \<Rightarrow> nat \<Rightarrow> bool \<Rightarrow> bytes \<Rightarrow> bytes" where
  "sello c f n u p = the (seal c (fl_clave f) (nonce (fl_prefijo f) n u) (fl_aad f) p)"

fun sellados :: "aead \<Rightarrow> flujo \<Rightarrow> nat \<Rightarrow> bytes list \<Rightarrow> bytes list" where
  "sellados c f n [] = []"
| "sellados c f n (p # ps) = sello c f n False p # sellados c f (n + 1) ps"

lemma sellados_append: "sellados c f n (ps @ qs) = sellados c f n ps @ sellados c f (n + length ps) qs"
  by (induction ps arbitrary: n) simp_all

lemma length_sellados [simp]: "length (sellados c f n ps) = length ps"
  by (induction ps arbitrary: n) simp_all

lemma nth_sellados: "i < length ps \<Longrightarrow> sellados c f n ps ! i = sello c f (n + i) False (ps ! i)"
  by (induction ps arbitrary: n i) (auto simp: nth_Cons split: nat.split)

lemma sella_opens:
  assumes "seals_upto TROZO c" "length p \<le> TROZO"
  shows "sella c f n u p = Inr (sello c f n u p)" "abre c f n u (sello c f n u p) = Inr p"
proof -
  obtain s where "seal c (fl_clave f) (nonce (fl_prefijo f) n u) (fl_aad f) p = Some s"
    "unseal c (fl_clave f) (nonce (fl_prefijo f) n u) (fl_aad f) s = Some p"
    using sealsE [OF assms] by blast
  then show "sella c f n u p = Inr (sello c f n u p)" "abre c f n u (sello c f n u p) = Inr p"
    by (simp_all add: sella_def abre_def sello_def)
qed

lemma sella_uno_seals:
  assumes "seals_upto TROZO c" "length p \<le> TROZO" "em_n e < MAX_TROZOS"
  shows "sella_uno c sha p u e = (Inr (sello c (em_flujo e) (em_n e) u p),
    e\<lparr>em_hojas := em_hojas e @ [hoja sha p], em_n := em_n e + 1\<rparr>)"
  using assms(3) sella_opens(1) [OF assms(1,2)] by (simp add: sella_uno_def Let_def)

lemma empuja_bucle_seals:
  assumes "seals_upto TROZO c" "em_n e + length (cortes (em_pendiente e)) \<le> MAX_TROZOS + 1"
  shows "empuja_bucle c sha e out =
    (let ps = cortes (em_pendiente e) in
      (Inr (out @ sellados c (em_flujo e) (em_n e) (butlast ps)),
       e\<lparr>em_pendiente := last ps, em_n := em_n e + length (butlast ps),
         em_hojas := em_hojas e @ map (hoja sha) (butlast ps)\<rparr>))"
  using assms(2)
proof (induction "length (em_pendiente e)" arbitrary: e out rule: less_induct)
  case less
  let ?p = "em_pendiente e"
  show ?case
  proof (cases "length ?p > TROZO")
    case True
    let ?e1 = "e\<lparr>em_pendiente := drop TROZO ?p\<rparr>"
    let ?e2 = "?e1\<lparr>em_hojas := em_hojas e @ [hoja sha (take TROZO ?p)], em_n := em_n e + 1\<rparr>"
    have c: "cortes ?p = take TROZO ?p # cortes (drop TROZO ?p)" using True by (simp add: cortes.simps)
    have n: "em_n ?e1 < MAX_TROZOS"
      using less.prems c by (cases "cortes (drop TROZO ?p)") simp_all
    have "empuja_bucle c sha e out = empuja_bucle c sha ?e2 (out @ [sello c (em_flujo e) (em_n e) False (take TROZO ?p)])"
      using True sella_uno_seals [OF assms(1) _ n, of "take TROZO ?p" sha False]
      by (subst empuja_bucle.simps) simp
    also have "\<dots> = (let ps = cortes (em_pendiente ?e2) in
      (Inr ((out @ [sello c (em_flujo e) (em_n e) False (take TROZO ?p)]) @
         sellados c (em_flujo ?e2) (em_n ?e2) (butlast ps)),
       ?e2\<lparr>em_pendiente := last ps, em_n := em_n ?e2 + length (butlast ps),
         em_hojas := em_hojas ?e2 @ map (hoja sha) (butlast ps)\<rparr>))"
      using True TROZO_pos less.prems c by (intro less.hyps) simp_all
    finally show ?thesis using c by (simp add: Let_def)
  next
    case False
    then show ?thesis by (simp add: cortes.simps empuja_bucle.simps)
  qed
qed

section \<open>A file goes through\<close>

text \<open>The page hands the bytes over in pieces of any size; then the file ends.\<close>

fun empuja_todo ::
    "aead \<Rightarrow> (bytes \<Rightarrow> bytes) \<Rightarrow> bytes list \<Rightarrow> empaquetador \<Rightarrow> (secure_error + bytes list) \<times> empaquetador" where
  "empuja_todo c sha [] e = (Inr [], e)"
| "empuja_todo c sha (d # ds) e =
     (case empuja c sha d e of
        (Inl err, e) \<Rightarrow> (Inl err, e)
      | (Inr ss, e) \<Rightarrow>
          (case empuja_todo c sha ds e of
             (Inl err, e) \<Rightarrow> (Inl err, e)
           | (Inr tt, e) \<Rightarrow> (Inr (ss @ tt), e)))"

definition empaqueta ::
    "aead \<Rightarrow> (bytes \<Rightarrow> bytes) \<Rightarrow> clave \<Rightarrow> bytes \<Rightarrow> bytes list \<Rightarrow> secure_error + bytes list \<times> huella" where
  "empaqueta c sha k ctx ds =
     (case empuja_todo c sha ds (empaquetador_new k ctx) of
        (Inl err, _) \<Rightarrow> Inl err
      | (Inr ss, e) \<Rightarrow>
          (case termina c sha e of Inl err \<Rightarrow> Inl err | Inr (ultimo, h) \<Rightarrow> Inr (ss @ [ultimo], h)))"

text \<open>The state after the bytes \<open>d\<close>.\<close>

definition packed :: "(bytes \<Rightarrow> bytes) \<Rightarrow> flujo \<Rightarrow> bytes \<Rightarrow> empaquetador" where
  "packed sha f d = \<lparr>em_flujo = f, em_pendiente = last (cortes d), em_n = length (butlast (cortes d)),
     em_hojas = map (hoja sha) (butlast (cortes d)), em_hash = d, em_bytes = length d\<rparr>"

lemma length_butlast_cortes: "length (cortes d) = Suc (length (butlast (cortes d)))"
  by (cases "cortes d" rule: rev_cases) simp_all

lemma empuja_packed:
  assumes "seals_upto TROZO c" "length (cortes (d @ x)) \<le> MAX_TROZOS"
  shows "\<exists>ss. empuja c sha x (packed sha f d) = (Inr ss, packed sha f (d @ x)) \<and>
    sellados c f 0 (butlast (cortes (d @ x))) = sellados c f 0 (butlast (cortes d)) @ ss"
proof -
  let ?e = "(packed sha f d)\<lparr>em_hash := d @ x, em_bytes := length d + length x,
    em_pendiente := last (cortes d) @ x\<rparr>"
  let ?new = "cortes (last (cortes d) @ x)"
  have b: "butlast (cortes (d @ x)) = butlast (cortes d) @ butlast ?new"
    by (simp add: cortes_append [of d x] butlast_append)
  have l: "last (cortes (d @ x)) = last ?new" by (simp add: cortes_append [of d x])
  have "em_n ?e + length (cortes (em_pendiente ?e)) \<le> MAX_TROZOS + 1"
    using assms(2) by (simp add: packed_def cortes_append [of d x])
  from empuja_bucle_seals [OF assms(1) this, of sha "[]"]
  have "empuja c sha x (packed sha f d) =
      (Inr (sellados c f (length (butlast (cortes d))) (butlast ?new)), packed sha f (d @ x))"
    by (simp add: empuja_def packed_def Let_def b l del: length_butlast)
  then show ?thesis by (simp add: b sellados_append)
qed

lemma length_cortes_mono: "length (cortes d) \<le> length (cortes (d @ x))"
  using length_butlast_cortes [of d] length_butlast_cortes [of "last (cortes d) @ x"]
  by (simp add: cortes_append [of d x] del: length_butlast)

lemma empuja_todo_packed:
  assumes "seals_upto TROZO c"
  shows "length (cortes (d @ concat ds)) \<le> MAX_TROZOS \<Longrightarrow>
    \<exists>ss. empuja_todo c sha ds (packed sha f d) = (Inr ss, packed sha f (d @ concat ds)) \<and>
      sellados c f 0 (butlast (cortes (d @ concat ds))) = sellados c f 0 (butlast (cortes d)) @ ss"
proof (induction ds arbitrary: d)
  case (Cons x ds)
  have "length (cortes (d @ x)) \<le> MAX_TROZOS"
    using Cons.prems length_cortes_mono [of "d @ x" "concat ds"] by simp
  from empuja_packed [OF assms this] obtain ss where
    s: "empuja c sha x (packed sha f d) = (Inr ss, packed sha f (d @ x))"
      "sellados c f 0 (butlast (cortes (d @ x))) = sellados c f 0 (butlast (cortes d)) @ ss" by blast
  from Cons.IH [of "d @ x"] Cons.prems obtain tt where
    t: "empuja_todo c sha ds (packed sha f (d @ x)) = (Inr tt, packed sha f ((d @ x) @ concat ds))"
      "sellados c f 0 (butlast (cortes ((d @ x) @ concat ds))) = sellados c f 0 (butlast (cortes (d @ x))) @ tt"
    by auto
  from s t show ?case by simp
qed simp

lemma packed_new: "empaquetador_new k ctx = packed sha (flujo_new k ctx) []"
proof -
  have "cortes [] = [[]]" by (subst cortes.simps) simp
  then show ?thesis by (simp add: empaquetador_new_def packed_def)
qed

definition huella_de :: "(bytes \<Rightarrow> bytes) \<Rightarrow> bytes \<Rightarrow> huella" where
  "huella_de sha d = \<lparr>hu_bytes = length d, hu_trozos = trozos (length d), hu_sha256 = hex (sha d),
     hu_raiz = hex (raiz sha (map (hoja sha) (cortes d))), hu_hojas = map (hoja sha) (cortes d)\<rparr>"

lemma empaqueta_cortes:
  fixes k ctx
  assumes "seals_upto TROZO c" "trozos (length (concat ds)) \<le> MAX_TROZOS"
  defines "f \<equiv> flujo_new k ctx" and "d \<equiv> concat ds"
  shows "empaqueta c sha k ctx ds = Inr (sellados c f 0 (butlast (cortes d)) @
    [sello c f (length (butlast (cortes d))) True (last (cortes d))], huella_de sha d)"
proof -
  have n: "length (cortes d) \<le> MAX_TROZOS" using assms(2) by (simp add: length_cortes d_def)
  have "length (cortes ([] @ concat ds)) \<le> MAX_TROZOS" using n by (simp add: d_def)
  from empuja_todo_packed [OF assms(1) this, of sha f] obtain ss where
    s: "empuja_todo c sha ds (packed sha f []) = (Inr ss, packed sha f d)"
      "sellados c f 0 (butlast (cortes d)) = sellados c f 0 (butlast (cortes [])) @ ss"
    by (auto simp: d_def)
  have "butlast (cortes []) = []" by (subst cortes.simps) simp
  then have ss: "ss = sellados c f 0 (butlast (cortes d))" using s(2) by simp
  have last: "length (last (cortes d)) \<le> TROZO" by (rule cortes_short [of _ d]) simp
  have lt: "length (butlast (cortes d)) < MAX_TROZOS" using n length_butlast_cortes [of d] by linarith
  have "map (hoja sha) (butlast (cortes d)) @ [hoja sha (last (cortes d))] =
      map (hoja sha) (butlast (cortes d) @ [last (cortes d)])" by (simp only: map_append list.map)
  then have e: "map (hoja sha) (butlast (cortes d)) @ [hoja sha (last (cortes d))] = map (hoja sha) (cortes d)"
    by simp
  have "termina c sha (packed sha f d) =
      Inr (sello c f (length (butlast (cortes d))) True (last (cortes d)), huella_de sha d)"
    using sella_uno_seals [OF assms(1) last, of "(packed sha f d)\<lparr>em_pendiente := []\<rparr>" sha True] lt e
      length_butlast_cortes [of d]
    by (simp add: termina_def packed_def huella_de_def length_cortes [symmetric] del: length_butlast)
  then show ?thesis using s(1) by (simp add: empaqueta_def packed_new [of k ctx sha] ss f_def)
qed

text \<open>A file goes through whole, however its bytes arrive. Handed over in pieces of any size, it
  comes out in as many sealed pieces as its length says; each opens in its place, the last one and
  only it as the last, to the bytes that are the file when put together; and what the receipt says
  (length, pieces, SHA-256, leaves, root) is that of the whole file.\<close>

theorem file_goes_through_in_pieces:
  assumes "seals_upto TROZO c" "trozos (length (concat ds)) \<le> MAX_TROZOS"
  shows "\<exists>ss. empaqueta c sha k ctx ds = Inr (ss, huella_de sha (concat ds)) \<and>
    length ss = trozos (length (concat ds)) \<and>
    (\<forall>i < length ss. abre c (flujo_new k ctx) i (i + 1 = length ss) (ss ! i) = Inr (cortes (concat ds) ! i)) \<and>
    concat (cortes (concat ds)) = concat ds"
proof -
  let ?f = "flujo_new k ctx" and ?ps = "cortes (concat ds)"
  let ?ss = "sellados c ?f 0 (butlast ?ps) @ [sello c ?f (length (butlast ?ps)) True (last ?ps)]"
  have "abre c ?f i (i + 1 = length ?ss) (?ss ! i) = Inr (?ps ! i)" if "i < length ?ss" for i
  proof (cases "i = length (butlast ?ps)")
    case True
    have "length (last ?ps) \<le> TROZO" by (rule cortes_short [of _ "concat ds"]) simp
    then show ?thesis using True sella_opens(2) [OF assms(1)] by (simp add: nth_append last_conv_nth)
  next
    case False
    with that have i: "i < length (butlast ?ps)" by simp
    then have "length (?ps ! i) \<le> TROZO" by (intro cortes_short [of _ "concat ds"]) simp
    moreover have "i + 1 \<noteq> length ?ss" using False that by simp
    ultimately show ?thesis using i sella_opens(2) [OF assms(1)] by (simp add: nth_append nth_sellados nth_butlast)
  qed
  moreover have "length ?ss = trozos (length (concat ds))"
    using length_butlast_cortes [of "concat ds"] by (simp add: length_cortes)
  ultimately show ?thesis
    using empaqueta_cortes [OF assms, of sha k ctx] concat_cortes by blast
qed

theorem file_goes_through_in_pieces_witness:
  "\<exists>ss. empaqueta sample_aead (\<lambda>x. be_bytes 32 (length x)) \<lparr>kl_bytes = [7], kl_prefijo = [9]\<rparr> [] [[1], [2, 3]] =
    Inr (ss, huella_de (\<lambda>x. be_bytes 32 (length x)) [1, 2, 3]) \<and> length ss = 1"
proof -
  have t: "trozos (length (concat [[1], [2, 3 :: byte]])) = 1" by (simp add: trozos_def TROZO_def)
  then have "trozos (length (concat [[1], [2, 3 :: byte]])) \<le> MAX_TROZOS" by (simp add: MAX_TROZOS_def)
  from file_goes_through_in_pieces [OF sample_aead_ok(1) this, of "\<lambda>x. be_bytes 32 (length x)"
      "\<lparr>kl_bytes = [7], kl_prefijo = [9]\<rparr>" "[]"]
  obtain ss where "empaqueta sample_aead (\<lambda>x. be_bytes 32 (length x)) \<lparr>kl_bytes = [7], kl_prefijo = [9]\<rparr> []
      [[1], [2, 3]] = Inr (ss, huella_de (\<lambda>x. be_bytes 32 (length x)) (concat [[1], [2, 3]]))"
    "length ss = trozos (length (concat [[1], [2, 3 :: byte]]))" by blast
  with t show ?thesis by auto
qed

section \<open>Every piece in its place\<close>

lemma nonce_inj:
  assumes "nonce p n u = nonce q m v" "length p = length q" "n < 2 ^ 32" "m < 2 ^ 32"
  shows "p = q \<and> n = m \<and> u = v"
proof -
  have "p = q" "be_bytes 4 n = be_bytes 4 m" "u = v"
    using assms(1,2) by (auto simp: nonce_def of_bool_def split: if_splits)
  moreover have "n = m" using be.enc_inj [of n 4 m] calculation(2) assms(3,4) by simp
  ultimately show ?thesis by simp
qed

lemma contexto_inj:
  "\<lbrakk>contexto e n = contexto g m; n < 2 ^ 32; m < 2 ^ 32\<rbrakk> \<Longrightarrow> e = g \<and> n = m"
  using be.enc_inj [of n 4 m] by (auto simp: contexto_def)

text \<open>C26: a sealed piece belongs to one place. What was sealed as piece \<open>n\<close> of one file of one
  delivery, and opens under the same key as piece \<open>m\<close> of any file of any delivery, is that very
  piece in that very place, last or not, and opens to what was sealed; unless the cipher gives
  one sealed text under two different nonces or contexts.\<close>

theorem piece_opens_only_in_its_place:
  assumes "tidy c" "n < 2 ^ 32" "m < 2 ^ 32" "a < 2 ^ 32" "b < 2 ^ 32"
    and "sella c (flujo_new k (contexto e a)) n u p = Inr s"
    and "abre c (flujo_new k (contexto g b)) m v s = Inr q"
  shows "(e, a, n, u, p) = (g, b, m, v, q) \<or>
    (nonce (kl_prefijo k) n u, contexto e a, p) \<noteq> (nonce (kl_prefijo k) m v, contexto g b, q) \<and>
    seal c (kl_bytes k) (nonce (kl_prefijo k) n u) (contexto e a) p =
    seal c (kl_bytes k) (nonce (kl_prefijo k) m v) (contexto g b) q"
proof -
  have "seal c (kl_bytes k) (nonce (kl_prefijo k) n u) (contexto e a) p = Some s"
    using assms(6) by (auto simp: sella_def flujo_new_def split: option.splits)
  moreover have "unseal c (kl_bytes k) (nonce (kl_prefijo k) m v) (contexto g b) s = Some q"
    using assms(7) by (auto simp: abre_def flujo_new_def split: option.splits)
  ultimately have same: "seal c (kl_bytes k) (nonce (kl_prefijo k) n u) (contexto e a) p =
      seal c (kl_bytes k) (nonce (kl_prefijo k) m v) (contexto g b) q"
    using tidyD [OF assms(1)] by metis
  show ?thesis
    using same nonce_inj [of "kl_prefijo k" n u "kl_prefijo k" m v] contexto_inj [of e a g b] assms(2-5) by auto
qed

theorem piece_opens_only_in_its_place_witness:
  "\<exists>s. sella sample_aead (flujo_new \<lparr>kl_bytes = [7], kl_prefijo = [9]\<rparr> (contexto ''e'' 1)) 2 False [5] = Inr s \<and>
    (\<forall>q. abre sample_aead (flujo_new \<lparr>kl_bytes = [7], kl_prefijo = [9]\<rparr> (contexto ''e'' 1)) 3 False s \<noteq> Inr q)"
proof -
  let ?k = "\<lparr>kl_bytes = [7], kl_prefijo = [9]\<rparr>"
  let ?f = "flujo_new ?k (contexto ''e'' 1)"
  obtain s where s: "sella sample_aead ?f 2 False [5] = Inr s" by (simp add: sella_def sample_aead_def)
  have "False" if "abre sample_aead ?f 3 False s = Inr q" for q
    using piece_opens_only_in_its_place [OF sample_aead_ok(2) _ _ _ _ s that] nonce_inj [of "[9]" 2 False "[9]" 3 False]
    by (auto simp: sample_aead_def nonce_def)
  with s show ?thesis by blast
qed

end
