(* ===== verification/Sframe.thy ===== *)
theory Sframe imports Secure "HOL-Library.Product_Lexorder" begin

text \<open>
  The media layer: \<open>crates/secure/src/sframe.rs\<close>. Every frame of a call is sealed on its own, under
  a key that moves forward every 4096 frames. HMAC and HKDF are the program's own, over the
  SHA-256 \<open>sha\<close>; the cipher is \<open>chacha20poly1305\<close>'s (\<open>Secure.aead\<close>).
\<close>

section \<open>HMAC and HKDF\<close>

definition DOMINIO_SFRAME :: bytes where "DOMINIO_SFRAME = str_bytes ''GUARDIANA_SECURE_SFRAME_V1''"
definition RATCHET_CADA :: nat where "RATCHET_CADA = 4096"
definition RATCHET_ATRAS :: nat where "RATCHET_ATRAS = 2"

definition hmac :: "(bytes \<Rightarrow> bytes) \<Rightarrow> bytes \<Rightarrow> bytes \<Rightarrow> bytes" where
  "hmac sha key msg =
     (let k0 = (if length key > 64 then sha key else key);
          k = k0 @ replicate (64 - length k0) 0;
          ipad = map (\<lambda>b. b XOR 0x36) k;
          opad = map (\<lambda>b. b XOR 0x5c) k
      in sha (opad @ sha (ipad @ msg)))"

function hkdf_bucle :: "(bytes \<Rightarrow> bytes) \<Rightarrow> bytes \<Rightarrow> bytes \<Rightarrow> bytes \<Rightarrow> byte \<Rightarrow> nat \<Rightarrow> bytes" where
  "hkdf_bucle sha prk info previo i falta =
     (if falta = 0 then []
      else
        let t = hmac sha prk (previo @ info @ [i]);
            n = min falta 32
        in take n t @ hkdf_bucle sha prk info t (i + 1) (falta - n))"
  by pat_completeness auto
termination
  by (relation "measure (\<lambda>(_, _, _, _, _, falta). falta)") simp_all

declare hkdf_bucle.simps [simp del]

definition hkdf :: "(bytes \<Rightarrow> bytes) \<Rightarrow> bytes \<Rightarrow> bytes \<Rightarrow> bytes \<Rightarrow> nat \<Rightarrow> bytes" where
  "hkdf sha salt ikm info n = hkdf_bucle sha (hmac sha salt ikm) info [] 1 n"

section \<open>A frame\<close>

record cabecera_marco =
  ca_emisor :: byte
  ca_generacion :: nat
  ca_contador :: nat

definition cabecera_bytes :: "cabecera_marco \<Rightarrow> bytes" where
  "cabecera_bytes h = ca_emisor h # be_bytes 8 (ca_generacion h) @ be_bytes 8 (ca_contador h)"

definition cabecera_lee :: "bytes \<Rightarrow> (cabecera_marco \<times> bytes) option" where
  "cabecera_lee b =
     (if length b < 17 then None
      else Some (\<lparr>ca_emisor = b ! 0, ca_generacion = from_be (take 8 (drop 1 b)),
                  ca_contador = from_be (take 8 (drop 9 b))\<rparr>, drop 17 b))"

record generacion =
  ge_clave :: bytes
  ge_sal :: bytes

definition deriva :: "(bytes \<Rightarrow> bytes) \<Rightarrow> bytes \<Rightarrow> byte \<Rightarrow> nat \<Rightarrow> generacion" where
  "deriva sha base emisor g =
     (let info = DOMINIO_SFRAME @ [emisor] @ be_bytes 8 g
      in \<lparr>ge_clave = hkdf sha (str_bytes ''clave'') base info 32,
          ge_sal = hkdf sha (str_bytes ''sal'') base info 12\<rparr>)"

definition avanza :: "(bytes \<Rightarrow> bytes) \<Rightarrow> bytes \<Rightarrow> bytes" where
  "avanza sha base = hkdf sha (str_bytes ''ratchet'') base DOMINIO_SFRAME 32"

definition nonce_marco :: "bytes \<Rightarrow> nat \<Rightarrow> bytes" where
  "nonce_marco salt contador = take 4 salt @ map2 (XOR) (drop 4 salt) (be_bytes 8 contador)"

section \<open>The sender\<close>

record emisor =
  es_emisor :: byte
  es_base :: bytes
  es_generacion :: nat
  es_contador :: nat
  es_actual :: generacion

definition emisor_new :: "(bytes \<Rightarrow> bytes) \<Rightarrow> bytes \<Rightarrow> byte \<Rightarrow> emisor" where
  "emisor_new sha clave_medios e = \<lparr>es_emisor = e, es_base = clave_medios, es_generacion = 0,
     es_contador = 0, es_actual = deriva sha clave_medios e 0\<rparr>"

definition cifra :: "aead \<Rightarrow> (bytes \<Rightarrow> bytes) \<Rightarrow> bytes \<Rightarrow> emisor \<Rightarrow> (secure_error + bytes) \<times> emisor" where
  "cifra c sha frame s0 =
     (let s = (if es_contador s0 \<ge> RATCHET_CADA then
                 let base = avanza sha (es_base s0); g = es_generacion s0 + 1
                 in s0\<lparr>es_base := base, es_generacion := g, es_contador := 0,
                       es_actual := deriva sha base (es_emisor s0) g\<rparr>
               else s0);
          cab = \<lparr>ca_emisor = es_emisor s, ca_generacion = es_generacion s, ca_contador = es_contador s\<rparr>;
          h = cabecera_bytes cab
      in case seal c (ge_clave (es_actual s)) (nonce_marco (ge_sal (es_actual s)) (ca_contador cab)) h frame of
           None \<Rightarrow> (Inl CannotOpen, s)
         | Some x \<Rightarrow> (Inr (h @ x), s\<lparr>es_contador := es_contador s + 1\<rparr>))"

section \<open>The receiver\<close>

text \<open>The ordered set of the frames seen is kept as its elements in order.\<close>

record receptor =
  rc_emisor :: byte
  rc_bases :: "(nat \<times> bytes) list"
  rc_ultimo :: "(nat \<times> nat) option"
  rc_vistos :: "(nat \<times> nat) list"

definition receptor_new :: "bytes \<Rightarrow> byte \<Rightarrow> receptor" where
  "receptor_new clave_medios e =
     \<lparr>rc_emisor = e, rc_bases = [(0, clave_medios)], rc_ultimo = None, rc_vistos = []\<rparr>"

function adelanta ::
    "(bytes \<Rightarrow> bytes) \<Rightarrow> nat \<Rightarrow> nat \<Rightarrow> bytes \<Rightarrow> (nat \<times> bytes) list \<Rightarrow> nat \<times> bytes \<times> (nat \<times> bytes) list" where
  "adelanta sha hasta g b bases =
     (if g < hasta then adelanta sha hasta (g + 1) (avanza sha b) (bases @ [(g + 1, avanza sha b)])
      else (g, b, bases))"
  by pat_completeness auto
termination
  by (relation "measure (\<lambda>(_, hasta, g, _, _). hasta - g)") auto

declare adelanta.simps [simp del]

text \<open>\<open>u64\<close> additions wrap.\<close>

definition base_de :: "(bytes \<Rightarrow> bytes) \<Rightarrow> nat \<Rightarrow> receptor \<Rightarrow> bytes option \<times> receptor" where
  "base_de sha gen r =
     (if rc_bases r = [] then (None, r)
      else
        let (g, b) = last (rc_bases r)
        in if (gen + RATCHET_ATRAS) mod 2 ^ 64 < g then (None, r)
           else
             case find (\<lambda>(x, _). x = gen) (rc_bases r) of
               Some (_, base) \<Rightarrow> (Some base, r)
             | None \<Rightarrow>
                 if gen > (g + 64) mod 2 ^ 64 then (None, r)
                 else
                   let (g', b', bases) = adelanta sha gen g b (rc_bases r)
                   in (Some b', r\<lparr>rc_bases := filter (\<lambda>(x, _). x \<ge> g' - RATCHET_ATRAS) bases\<rparr>))"

definition abre_marco :: "aead \<Rightarrow> (bytes \<Rightarrow> bytes) \<Rightarrow> bytes \<Rightarrow> receptor \<Rightarrow> (secure_error + bytes) \<times> receptor" where
  "abre_marco c sha b r0 =
     (case cabecera_lee b of
        None \<Rightarrow> (Inl CannotOpen, r0)
      | Some (cab, cuerpo) \<Rightarrow>
          let visto = (ca_generacion cab, ca_contador cab)
          in if ca_emisor cab \<noteq> rc_emisor r0 then (Inl CannotOpen, r0)
             else if visto \<in> set (rc_vistos r0) then (Inl CannotOpen, r0)
             else
               (case base_de sha (ca_generacion cab) r0 of
                  (None, r) \<Rightarrow> (Inl CannotOpen, r)
                | (Some base, r) \<Rightarrow>
                    let g = deriva sha base (rc_emisor r) (ca_generacion cab)
                    in case unseal c (ge_clave g) (nonce_marco (ge_sal g) (ca_contador cab))
                              (cabecera_bytes cab) cuerpo of
                         None \<Rightarrow> (Inl CannotOpen, r)
                       | Some plano \<Rightarrow>
                           let vistos = insort_insert visto (rc_vistos r)
                           in (Inr plano,
                               r\<lparr>rc_vistos := if length vistos > 8192 then tl vistos else vistos,
                                 rc_ultimo := Some visto\<rparr>)))"

definition ultimo_marco :: "receptor \<Rightarrow> cabecera_marco option" where
  "ultimo_marco r =
     map_option (\<lambda>(g, n). \<lparr>ca_emisor = rc_emisor r, ca_generacion = g, ca_contador = n\<rparr>) (rc_ultimo r)"

end
