(* ===== verification/Sframe_Facts.thy ===== *)
theory Sframe_Facts imports Sframe begin

text \<open>
  What the media layer promises and where it does not keep it: every frame sent opens at the other
  side, whatever was lost, reordered or forged on the road, within the window of generations;
  what opens is what was sealed in that place; and two ways in which the window fails.
\<close>

section \<open>Headers and keys\<close>

interpretation marco: canonical_codec "\<lambda>(h, x). cabecera_bytes h @ x" cabecera_lee
  "\<lambda>(h, x). ca_generacion h < 2 ^ 64 \<and> ca_contador h < 2 ^ 64"
proof (unfold_locales, goal_cases)
  case (1 hx)
  obtain h x where hx: "hx = (h, x)" by fastforce
  have b: "from_be (be_bytes 8 n) = n" if "n < 2 ^ 64" for n using that by (intro from_be_bytes) simp
  show ?case using 1 by (simp add: hx cabecera_bytes_def cabecera_lee_def b)
next
  case (2 b hx)
  obtain h x where hx: "hx = (h, x)" by fastforce
  have l: "17 \<le> length b" and h: "ca_emisor h = b ! 0" "ca_generacion h = from_be (take 8 (drop 1 b))"
    "ca_contador h = from_be (take 8 (drop 9 b))" and x: "x = drop 17 b"
    using 2 by (auto simp: hx cabecera_lee_def split: if_splits)
  have g: "be_bytes 8 (ca_generacion h) = take 8 (drop 1 b)" "be_bytes 8 (ca_contador h) = take 8 (drop 9 b)"
    using be_bytes_from_be [of "take 8 (drop 1 b)"] be_bytes_from_be [of "take 8 (drop 9 b)"] l h by simp_all
  have lt: "ca_generacion h < 256 ^ 8" "ca_contador h < 256 ^ 8"
    using from_be_lt [of "take 8 (drop 1 b)"] from_be_lt [of "take 8 (drop 9 b)"] l h by simp_all
  have "b = b ! 0 # take 8 (drop 1 b) @ take 8 (drop 9 b) @ drop 17 b"
    using l by (intro nth_equalityI) (auto simp: nth_Cons nth_append split: nat.split)
  with g lt h x show ?case by (simp add: hx cabecera_bytes_def)
qed

definition base_at :: "(bytes \<Rightarrow> bytes) \<Rightarrow> bytes \<Rightarrow> nat \<Rightarrow> bytes" where
  "base_at sha k g = (avanza sha ^^ g) k"

lemma base_at_simps [simp]: "base_at sha k 0 = k" "base_at sha k (Suc g) = avanza sha (base_at sha k g)"
  by (simp_all add: base_at_def)

definition cab :: "byte \<Rightarrow> nat \<times> nat \<Rightarrow> cabecera_marco" where
  "cab e p = \<lparr>ca_emisor = e, ca_generacion = fst p, ca_contador = snd p\<rparr>"

text \<open>The frame in place \<open>p\<close> (generation and counter) of the stream of \<open>e\<close> under the media key \<open>k\<close>.\<close>

definition sellado :: "aead \<Rightarrow> (bytes \<Rightarrow> bytes) \<Rightarrow> bytes \<Rightarrow> byte \<Rightarrow> nat \<times> nat \<Rightarrow> bytes \<Rightarrow> bytes option" where
  "sellado c sha k e p fr =
     (let d = deriva sha (base_at sha k (fst p)) e (fst p)
      in seal c (ge_clave d) (nonce_marco (ge_sal d) (snd p)) (cabecera_bytes (cab e p)) fr)"

definition trama :: "aead \<Rightarrow> (bytes \<Rightarrow> bytes) \<Rightarrow> bytes \<Rightarrow> byte \<Rightarrow> nat \<times> nat \<Rightarrow> bytes \<Rightarrow> bytes" where
  "trama c sha k e p fr = cabecera_bytes (cab e p) @ the (sellado c sha k e p fr)"

section \<open>The sender\<close>

definition place :: "nat \<Rightarrow> nat \<times> nat" where
  "place i = (i div RATCHET_CADA, i mod RATCHET_CADA)"

definition emisor_at :: "(bytes \<Rightarrow> bytes) \<Rightarrow> bytes \<Rightarrow> byte \<Rightarrow> nat \<Rightarrow> emisor" where
  "emisor_at sha k e n =
     (let g = (n - 1) div RATCHET_CADA
      in \<lparr>es_emisor = e, es_base = base_at sha k g, es_generacion = g,
          es_contador = (if n = 0 then 0 else (n - 1) mod RATCHET_CADA + 1),
          es_actual = deriva sha (base_at sha k g) e g\<rparr>)"

lemma emisor_at_0: "emisor_new sha k e = emisor_at sha k e 0"
  by (simp add: emisor_new_def emisor_at_def)

lemma place_step:
  assumes "0 < n"
  shows "if (n - 1) mod RATCHET_CADA + 1 \<ge> RATCHET_CADA
    then n div RATCHET_CADA = (n - 1) div RATCHET_CADA + 1 \<and> n mod RATCHET_CADA = 0
    else n div RATCHET_CADA = (n - 1) div RATCHET_CADA \<and> n mod RATCHET_CADA = (n - 1) mod RATCHET_CADA + 1"
proof -
  obtain m where m: "n = Suc m" using assms by (cases n) auto
  have "m mod 4096 < 4096" by simp
  then have "m mod 4096 = 4095 \<or> m mod 4096 < 4095" by linarith
  then show ?thesis by (auto simp: m RATCHET_CADA_def div_Suc mod_Suc)
qed

lemma cifra_at:
  assumes "seals_upto m c" "length fr \<le> m"
  shows "cifra c sha fr (emisor_at sha k e n) = (Inr (trama c sha k e (place n) fr), emisor_at sha k e (Suc n))"
proof -
  obtain s where s: "sellado c sha k e (place n) fr = Some s"
    using sealsE [OF assms] unfolding sellado_def Let_def by metis
  have R: "0 < RATCHET_CADA" by (simp add: RATCHET_CADA_def)
  show ?thesis
  proof (cases "n = 0")
    case True
    with s R show ?thesis
      by (simp add: cifra_def emisor_at_def trama_def sellado_def cab_def place_def Let_def)
  next
    case False
    then show ?thesis
      using s R place_step [of n]
      by (auto simp: cifra_def emisor_at_def trama_def sellado_def cab_def place_def Let_def split: if_splits)
  qed
qed

fun cifra_todo :: "aead \<Rightarrow> (bytes \<Rightarrow> bytes) \<Rightarrow> bytes list \<Rightarrow> emisor \<Rightarrow> (secure_error + bytes) list" where
  "cifra_todo c sha [] s = []"
| "cifra_todo c sha (fr # frs) s = (case cifra c sha fr s of (r, s) \<Rightarrow> r # cifra_todo c sha frs s)"

lemma cifra_todo_at:
  "\<lbrakk>seals_upto m c; \<forall>fr \<in> set frs. length fr \<le> m; i < length frs\<rbrakk> \<Longrightarrow>
   cifra_todo c sha frs (emisor_at sha k e n) ! i = Inr (trama c sha k e (place (n + i)) (frs ! i))"
proof (induction frs arbitrary: n i)
  case (Cons fr frs)
  then show ?case by (cases i) (simp_all add: cifra_at)
qed simp

section \<open>The receiver\<close>

text \<open>The generations kept: the newest and the two before it.\<close>

definition ventana :: "(bytes \<Rightarrow> bytes) \<Rightarrow> bytes \<Rightarrow> nat \<Rightarrow> (nat \<times> bytes) list" where
  "ventana sha k g = map (\<lambda>x. (x, base_at sha k x)) [g - RATCHET_ATRAS ..< Suc g]"

definition nueva :: "receptor \<Rightarrow> nat" where
  "nueva r = fst (last (rc_bases r))"

definition receptor_ok :: "(bytes \<Rightarrow> bytes) \<Rightarrow> bytes \<Rightarrow> byte \<Rightarrow> receptor \<Rightarrow> bool" where
  "receptor_ok sha k e r \<longleftrightarrow> rc_emisor r = e \<and> rc_bases r = ventana sha k (nueva r) \<and>
     sorted (rc_vistos r) \<and> distinct (rc_vistos r) \<and> length (rc_vistos r) \<le> 8192"

lemma last_ventana [simp]: "ventana sha k g \<noteq> []" "last (ventana sha k g) = (g, base_at sha k g)"
  by (simp_all add: ventana_def last_map)

lemma receptor_new_ok: "receptor_ok sha k e (receptor_new k e)" "nueva (receptor_new k e) = 0"
  by (simp_all add: receptor_ok_def receptor_new_def nueva_def ventana_def)

lemma adelanta_at:
  "g \<le> h \<Longrightarrow> adelanta sha h g (base_at sha k g) bs =
   (h, base_at sha k h, bs @ map (\<lambda>x. (x, base_at sha k x)) [Suc g ..< Suc h])"
proof (induction "h - g" arbitrary: g bs)
  case 0
  then show ?case by (simp add: adelanta.simps)
next
  case (Suc d)
  then have g: "g < h" by simp
  have "adelanta sha h g (base_at sha k g) bs =
      adelanta sha h (Suc g) (base_at sha k (Suc g)) (bs @ [(Suc g, base_at sha k (Suc g))])"
    using g by (subst adelanta.simps) simp
  also have "\<dots> = (h, base_at sha k h,
      (bs @ [(Suc g, base_at sha k (Suc g))]) @ map (\<lambda>x. (x, base_at sha k x)) [Suc (Suc g) ..< Suc h])"
    using Suc.hyps(2) g by (intro Suc.hyps(1)) simp_all
  finally show ?case using g by (simp add: upt_conv_Cons del: upt_Suc)
qed

lemma find_ventana:
  "find (\<lambda>(x, _). x = gen) (ventana sha k g) =
   (if g - RATCHET_ATRAS \<le> gen \<and> gen \<le> g then Some (gen, base_at sha k gen) else None)"
proof -
  have "find (\<lambda>(x, _). x = gen) (map (\<lambda>x. (x, base_at sha k x)) xs) =
      (if gen \<in> set xs then Some (gen, base_at sha k gen) else None)" for xs
    by (induction xs) auto
  then show ?thesis by (auto simp: ventana_def simp del: upt_Suc)
qed

lemma upt_join: "\<lbrakk>a \<le> b; b \<le> c\<rbrakk> \<Longrightarrow> [a ..< b] @ [b ..< c] = [a ..< c]"
  using upt_add_eq_append [of a b "c - b"] by simp

lemma filter_ventana:
  assumes "g \<le> h"
  shows "filter (\<lambda>(x, _). x \<ge> h - RATCHET_ATRAS)
     (ventana sha k g @ map (\<lambda>x. (x, base_at sha k x)) [Suc g ..< Suc h]) = ventana sha k h"
proof -
  have "[g - RATCHET_ATRAS ..< Suc g] @ [Suc g ..< Suc h] = [g - RATCHET_ATRAS ..< Suc h]"
    using assms by (intro upt_join) simp_all
  also have "\<dots> = [g - RATCHET_ATRAS ..< h - RATCHET_ATRAS] @ [h - RATCHET_ATRAS ..< Suc h]"
    using assms by (intro upt_join [symmetric]) simp_all
  finally have "ventana sha k g @ map (\<lambda>x. (x, base_at sha k x)) [Suc g ..< Suc h] =
      map (\<lambda>x. (x, base_at sha k x)) ([g - RATCHET_ATRAS ..< h - RATCHET_ATRAS] @ [h - RATCHET_ATRAS ..< Suc h])"
    by (simp only: ventana_def flip: map_append)
  then show ?thesis
    by (auto simp: ventana_def filter_map comp_def filter_empty_conv simp del: upt_Suc intro!: filter_True)
qed

lemma base_de_ok:
  assumes "receptor_ok sha k e r" "nueva r < 2 ^ 63" "gen < 2 ^ 64"
  shows "base_de sha gen r =
    (if gen + RATCHET_ATRAS < nueva r \<or> nueva r + 64 < gen then (None, r)
     else (Some (base_at sha k gen), r\<lparr>rc_bases := ventana sha k (max (nueva r) gen)\<rparr>))"
proof -
  let ?g = "nueva r"
  have b: "rc_bases r = ventana sha k ?g" using assms(1) by (simp add: receptor_ok_def)
  have w: "(?g + 64) mod 2 ^ 64 = ?g + 64" using assms(2) by simp
  consider "?g + 64 < gen" | "gen \<le> ?g + 64" "gen + RATCHET_ATRAS < ?g"
    | "gen \<le> ?g" "?g \<le> gen + RATCHET_ATRAS" | "?g < gen" "gen \<le> ?g + 64" by linarith
  then show ?thesis
  proof cases
    case 1
    then show ?thesis using w by (auto simp: base_de_def b find_ventana Let_def)
  next
    case 2
    have "(gen + RATCHET_ATRAS) mod 2 ^ 64 = gen + RATCHET_ATRAS"
      using 2 assms(2) by (simp add: RATCHET_ATRAS_def)
    then show ?thesis using 2 by (simp add: base_de_def b)
  next
    case 3
    have "(gen + RATCHET_ATRAS) mod 2 ^ 64 = gen + RATCHET_ATRAS"
      using 3 assms(2) by (simp add: RATCHET_ATRAS_def)
    moreover have "r\<lparr>rc_bases := ventana sha k ?g\<rparr> = r" by (simp flip: b)
    moreover have "?g - RATCHET_ATRAS \<le> gen" using 3 by linarith
    ultimately show ?thesis using 3 by (simp add: base_de_def b find_ventana max_def)
  next
    case 4
    have "(gen + RATCHET_ATRAS) mod 2 ^ 64 = gen + RATCHET_ATRAS"
      using 4 assms(2) by (simp add: RATCHET_ATRAS_def)
    then show ?thesis
      using 4 w adelanta_at [of ?g gen sha k "ventana sha k ?g"] filter_ventana [of ?g gen sha k]
      by (simp add: base_de_def b find_ventana Let_def max_def del: upt_Suc)
  qed
qed

text \<open>What has been seen, with one more.\<close>

definition con :: "nat \<times> nat \<Rightarrow> (nat \<times> nat) list \<Rightarrow> (nat \<times> nat) list" where
  "con p vs = (let ws = insort_insert p vs in if length ws > 8192 then tl ws else ws)"

lemma con_ok:
  "\<lbrakk>sorted vs; distinct vs; length vs \<le> 8192\<rbrakk> \<Longrightarrow>
   sorted (con p vs) \<and> distinct (con p vs) \<and> length (con p vs) \<le> 8192"
proof -
  assume vs: "sorted vs" "distinct vs" "length vs \<le> 8192"
  let ?w = "insort_insert p vs"
  have "sorted ?w" "distinct ?w" "length ?w \<le> length vs + 1"
    using vs by (simp_all add: sorted_insort_insert insort_insert_key_def distinct_insort sorted_insort)
  then show ?thesis using vs(3) by (auto simp: con_def Let_def sorted_tl distinct_tl)
qed

lemma nueva_bases [simp]: "nueva (r\<lparr>rc_bases := ventana sha k g\<rparr>) = g"
  "nueva (r\<lparr>rc_bases := ventana sha k g, rc_vistos := v, rc_ultimo := u\<rparr>) = g"
  by (simp_all add: nueva_def)

lemma abre_cases:
  assumes "receptor_ok sha k e r" "nueva r < 2 ^ 63" "abre_marco c sha b r = (res, t)"
  obtains (refused) "res = Inl CannotOpen" "rc_vistos t = rc_vistos r" "rc_emisor t = rc_emisor r"
      "t = r \<or> (\<exists>g. nueva r \<le> g \<and> g \<le> nueva r + 64 \<and> t = r\<lparr>rc_bases := ventana sha k g\<rparr>)"
  | (opened) p fr cuerpo where "res = Inr fr" "b = cabecera_bytes (cab e p) @ cuerpo"
      "fst p < 2 ^ 64" "snd p < 2 ^ 64" "p \<notin> set (rc_vistos r)"
      "nueva r \<le> fst p + RATCHET_ATRAS" "fst p \<le> nueva r + 64"
      "unseal c (ge_clave (deriva sha (base_at sha k (fst p)) e (fst p)))
         (nonce_marco (ge_sal (deriva sha (base_at sha k (fst p)) e (fst p))) (snd p))
         (cabecera_bytes (cab e p)) cuerpo = Some fr"
      "t = r\<lparr>rc_bases := ventana sha k (max (nueva r) (fst p)),
         rc_vistos := con p (rc_vistos r), rc_ultimo := Some p\<rparr>"
proof (cases "cabecera_lee b")
  case None
  with assms(3) refused show ?thesis by (simp add: abre_marco_def)
next
  case (Some hx)
  obtain h cuerpo where hx: "hx = (h, cuerpo)" by fastforce
  define p where "p = (ca_generacion h, ca_contador h)"
  have b: "b = cabecera_bytes h @ cuerpo" "fst p < 2 ^ 64" "snd p < 2 ^ 64"
    using marco.enc_dec [OF Some] by (simp_all add: hx p_def)
  show ?thesis
  proof (cases "ca_emisor h = rc_emisor r \<and> p \<notin> set (rc_vistos r)")
    case False
    then have "abre_marco c sha b r = (Inl CannotOpen, r)"
      using Some by (auto simp: abre_marco_def hx p_def Let_def)
    with assms(3) refused show ?thesis by simp
  next
    case True
    have e: "rc_emisor r = e" using assms(1) by (simp add: receptor_ok_def)
    then have h: "h = cab e p" using True by (simp add: cab_def p_def)
    note bd = base_de_ok [OF assms(1,2) b(2)]
    show ?thesis
    proof (cases "fst p + RATCHET_ATRAS < nueva r \<or> nueva r + 64 < fst p")
      case out: True
      then have "abre_marco c sha b r = (Inl CannotOpen, r)"
        using Some True bd by (simp add: abre_marco_def hx p_def Let_def)
      with assms(3) refused show ?thesis by simp
    next
      case inside: False
      let ?r = "r\<lparr>rc_bases := ventana sha k (max (nueva r) (fst p))\<rparr>"
      let ?d = "deriva sha (base_at sha k (fst p)) e (fst p)"
      let ?u = "unseal c (ge_clave ?d) (nonce_marco (ge_sal ?d) (snd p)) (cabecera_bytes h) cuerpo"
      have a: "abre_marco c sha b r = (case ?u of None \<Rightarrow> (Inl CannotOpen, ?r)
          | Some fr \<Rightarrow> (Inr fr, ?r\<lparr>rc_vistos := con p (rc_vistos r), rc_ultimo := Some p\<rparr>))"
        using Some True bd inside e by (simp add: abre_marco_def hx p_def Let_def con_def split: option.split)
      show ?thesis
      proof (cases ?u)
        case None
        with a assms(3) have t: "res = Inl CannotOpen" "t = ?r" by simp_all
        have "\<exists>g. nueva r \<le> g \<and> g \<le> nueva r + 64 \<and> ?r = r\<lparr>rc_bases := ventana sha k g\<rparr>"
          using inside by (intro exI [of _ "max (nueva r) (fst p)"]) simp
        with t show ?thesis by (intro refused) simp_all
      next
        case (Some fr)
        with a assms(3) opened [of fr p cuerpo] b True inside h show ?thesis by simp
      qed
    qed
  qed
qed

lemma abre_keeps:
  assumes "receptor_ok sha k e r" "nueva r < 2 ^ 63"
  shows "receptor_ok sha k e (snd (abre_marco c sha b r)) \<and>
    nueva r \<le> nueva (snd (abre_marco c sha b r)) \<and> nueva (snd (abre_marco c sha b r)) \<le> nueva r + 64"
proof -
  obtain res t where rt: "abre_marco c sha b r = (res, t)" by fastforce
  from assms rt show ?thesis
  proof (cases rule: abre_cases)
    case refused
    from refused(4) show ?thesis
    proof
      assume "t = r"
      then show ?thesis using assms(1) rt by simp
    next
      assume "\<exists>g. nueva r \<le> g \<and> g \<le> nueva r + 64 \<and> t = r\<lparr>rc_bases := ventana sha k g\<rparr>"
      then obtain g where g: "nueva r \<le> g" "g \<le> nueva r + 64" "t = r\<lparr>rc_bases := ventana sha k g\<rparr>" by blast
      have "receptor_ok sha k e (r\<lparr>rc_bases := ventana sha k g\<rparr>)"
        using assms(1) unfolding receptor_ok_def by simp
      with g show ?thesis by (simp add: rt)
    qed
  next
    case (opened p fr cuerpo)
    then show ?thesis using assms(1) rt con_ok [of "rc_vistos r" p] by (simp add: receptor_ok_def)
  qed
qed

text \<open>Whatever arrives, one thing after another.\<close>

definition llega :: "aead \<Rightarrow> (bytes \<Rightarrow> bytes) \<Rightarrow> receptor \<Rightarrow> bytes \<Rightarrow> receptor" where
  "llega c sha r b = snd (abre_marco c sha b r)"

lemma llega_ok:
  "64 * length bs < 2 ^ 63 \<Longrightarrow> receptor_ok sha k e (foldl (llega c sha) (receptor_new k e) bs) \<and>
   nueva (foldl (llega c sha) (receptor_new k e) bs) \<le> 64 * length bs"
proof (induction bs rule: rev_induct)
  case Nil
  then show ?case by (simp add: receptor_new_ok)
next
  case (snoc b bs)
  let ?r = "foldl (llega c sha) (receptor_new k e) bs"
  have l: "64 * length bs + 64 < 2 ^ 63" using snoc.prems by simp
  then have "receptor_ok sha k e ?r" "nueva ?r \<le> 64 * length bs" using snoc.IH by simp_all
  moreover have "nueva ?r < 2 ^ 63" using calculation(2) l by linarith
  ultimately show ?case using abre_keeps [of sha k e ?r c b] by (simp add: llega_def [of c sha ?r b])
qed

lemma abre_trama:
  assumes "seals_upto m c" "length fr \<le> m" "receptor_ok sha k e r" "nueva r < 2 ^ 63"
    and "fst p < 2 ^ 64" "snd p < 2 ^ 64" "p \<notin> set (rc_vistos r)"
    and "nueva r \<le> fst p + RATCHET_ATRAS" "fst p \<le> nueva r + 64"
  shows "abre_marco c sha (trama c sha k e p fr) r =
    (Inr fr, r\<lparr>rc_bases := ventana sha k (max (nueva r) (fst p)),
       rc_vistos := con p (rc_vistos r), rc_ultimo := Some p\<rparr>)"
proof -
  let ?d = "deriva sha (base_at sha k (fst p)) e (fst p)"
  obtain s where s: "seal c (ge_clave ?d) (nonce_marco (ge_sal ?d) (snd p)) (cabecera_bytes (cab e p)) fr = Some s"
    "unseal c (ge_clave ?d) (nonce_marco (ge_sal ?d) (snd p)) (cabecera_bytes (cab e p)) s = Some fr"
    using sealsE [OF assms(1,2)] by blast
  have "cabecera_lee (cabecera_bytes (cab e p) @ s) = Some (cab e p, s)"
    using marco.dec_enc [of "(cab e p, s)"] assms(5,6) by (simp add: cab_def)
  moreover have "rc_emisor r = e" using assms(3) by (simp add: receptor_ok_def)
  moreover have "cabecera_lee (trama c sha k e p fr) = Some (cab e p, s)"
    using calculation(1) s(1) by (simp add: trama_def sellado_def Let_def)
  moreover have "\<not> (fst p + RATCHET_ATRAS < nueva r \<or> nueva r + 64 < fst p)" using assms(8,9) by simp
  ultimately show ?thesis
    using base_de_ok [OF assms(3,4,5)] assms(7) s(2)
    by (simp add: abre_marco_def Let_def con_def cab_def)
qed

text \<open>C27: a call is heard. Whatever the road lost, repeated, reordered or made up before, a frame of
  the stream that arrives intact, that is not already among those seen and whose generation is
  within the window (two behind the newest, sixty-four ahead), opens to what was sent.\<close>

theorem sent_frame_opens:
  assumes "seals_upto m c" "\<forall>fr \<in> set frs. length fr \<le> m" "i < length frs" "length frs < 2 ^ 60"
    and "cifra_todo c sha frs (emisor_new sha k e) ! i = Inr b"
    and "r = foldl (llega c sha) (receptor_new k e) bs" "length bs < 2 ^ 50"
    and "place i \<notin> set (rc_vistos r)"
    and "nueva r \<le> fst (place i) + RATCHET_ATRAS" "fst (place i) \<le> nueva r + 64"
  shows "fst (abre_marco c sha b r) = Inr (frs ! i)"
proof -
  have b: "b = trama c sha k e (place i) (frs ! i)"
    using cifra_todo_at [OF assms(1-3), of sha k e 0] assms(5) by (simp add: emisor_at_0)
  have "receptor_ok sha k e r" "nueva r < 2 ^ 63"
    using llega_ok [of bs sha k e c] assms(6,7) by simp_all
  moreover have "fst (place i) \<le> i" "snd (place i) < 4096" by (simp_all add: place_def RATCHET_CADA_def)
  moreover have "length (frs ! i) \<le> m" using assms(2,3) by simp
  ultimately show ?thesis
    using abre_trama [OF assms(1), of "frs ! i" sha k e r "place i"] assms(3,4,8-10) b by simp
qed

text \<open>C28: what opens is what was sealed there. Whatever arrived before, an opened frame is, byte for
  byte, the one that sealing gives for its own sender, generation and counter under the media key;
  it was not among those seen, its generation is within the window, and the memory of what was
  seen stays within 8192 frames.\<close>

theorem opened_frame_was_sealed:
  assumes "tidy c" "r = foldl (llega c sha) (receptor_new k e) bs" "length bs < 2 ^ 50"
    and "abre_marco c sha b r = (Inr fr, t)"
  shows "\<exists>p. sellado c sha k e p fr \<noteq> None \<and> b = trama c sha k e p fr \<and> p \<notin> set (rc_vistos r) \<and>
    rc_ultimo t = Some p \<and> nueva r \<le> fst p + RATCHET_ATRAS \<and> fst p \<le> nueva r + 64 \<and>
    length (rc_vistos t) \<le> 8192"
proof -
  have ok: "receptor_ok sha k e r" and n: "nueva r < 2 ^ 63"
    using llega_ok [of bs sha k e c] assms(2,3) by simp_all
  have "length (rc_vistos t) \<le> 8192"
    using abre_keeps [OF ok n, of c b] assms(4) by (simp add: receptor_ok_def)
  with ok n assms(4) show ?thesis
  proof (cases rule: abre_cases)
    case (opened p fr' cuerpo)
    then have "sellado c sha k e p fr = Some cuerpo"
      using tidyD [OF assms(1)] by (simp add: sellado_def Let_def)
    with opened \<open>length (rc_vistos t) \<le> 8192\<close> show ?thesis
      by (intro exI [of _ p]) (simp add: trama_def)
  qed simp
qed

definition sample_hash :: "bytes \<Rightarrow> bytes" where "sample_hash x = be_bytes 32 (length x)"

theorem sent_frame_opens_witness:
  "fst (abre_marco sample_aead sample_hash (trama sample_aead sample_hash [7] 0 (0, 1) [2])
     (foldl (llega sample_aead sample_hash) (receptor_new [7] 0) [[]])) = Inr [2]"
proof -
  let ?c = sample_aead and ?r = "foldl (llega sample_aead sample_hash) (receptor_new [7] 0) [[]]"
  have p: "place 1 = (0, 1)" by (simp add: place_def RATCHET_CADA_def)
  have l: "\<forall>fr \<in> set [[1], [2 :: byte]]. length fr \<le> 1" by simp
  have b: "cifra_todo ?c sample_hash [[1], [2]] (emisor_new sample_hash [7] 0) ! 1 =
      Inr (trama ?c sample_hash [7] 0 (0, 1) [2])"
    using cifra_todo_at [OF sample_aead_ok(1) l, of 1 sample_hash "[7]" 0 0]
    by (simp only: emisor_at_0 add_0 p nth_Cons_0 nth_Cons_Suc One_nat_def [symmetric] list.size) simp
  have r: "?r = receptor_new [7] 0" by (simp add: llega_def abre_marco_def cabecera_lee_def)
  have a: "1 < length [[1], [2 :: byte]]" "length [[1], [2 :: byte]] < 2 ^ 60" "length [[] :: bytes] < 2 ^ 50"
    by simp_all
  have v: "place 1 \<notin> set (rc_vistos ?r)" unfolding r by (simp add: receptor_new_def)
  have w: "nueva ?r \<le> fst (place 1) + RATCHET_ATRAS" "fst (place 1) \<le> nueva ?r + 64"
    unfolding r p by (simp_all add: receptor_new_ok)
  from sent_frame_opens [OF sample_aead_ok(1) l a(1,2) b refl a(3) v w] show ?thesis by simp
qed

theorem opened_frame_was_sealed_witness:
  "\<exists>p. trama sample_aead sample_hash [7] 0 (0, 1) [2] = trama sample_aead sample_hash [7] 0 p [2] \<and>
     p \<notin> set (rc_vistos (receptor_new [7] 0))"
proof -
  have "receptor_ok sample_hash [7] 0 (receptor_new [7] 0)" "nueva (receptor_new [7] 0) = 0" by (rule receptor_new_ok)+
  then have "\<exists>t. abre_marco sample_aead sample_hash (trama sample_aead sample_hash [7] 0 (0, 1) [2])
      (receptor_new [7] 0) = (Inr [2], t)"
    by (subst abre_trama [OF sample_aead_ok(1), of _ 1]) (simp_all add: receptor_new_def)
  then obtain t where t: "abre_marco sample_aead sample_hash (trama sample_aead sample_hash [7] 0 (0, 1) [2])
      (receptor_new [7] 0) = (Inr [2], t)" ..
  have "receptor_new [7] 0 = foldl (llega sample_aead sample_hash) (receptor_new [7] 0) []" by simp
  from opened_frame_was_sealed [OF sample_aead_ok(2) this _ t] show ?thesis by auto
qed

section \<open>Where the window fails\<close>

lemma place_mono: "i < j \<Longrightarrow> place i < place j"
proof -
  assume "i < j"
  then have "i div RATCHET_CADA \<le> j div RATCHET_CADA" by (simp add: div_le_mono)
  moreover have "i mod RATCHET_CADA < j mod RATCHET_CADA" if "i div RATCHET_CADA = j div RATCHET_CADA"
    using arg_cong [OF that, of "\<lambda>q. q * RATCHET_CADA"] \<open>i < j\<close> div_mult_mod_eq [of i RATCHET_CADA] div_mult_mod_eq [of j RATCHET_CADA] by linarith
  ultimately show ?thesis by (auto simp: place_def less_prod_def order_less_le)
qed

lemma place_notin: assumes "0 < a" shows "place 0 \<notin> set (map place [a ..< b])"
proof
  assume "place 0 \<in> set (map place [a ..< b])"
  then obtain i where i: "place 0 = place i" "i \<in> {a ..< b}" unfolding set_map set_upt by (rule imageE)
  then have "0 < i" using assms by simp
  then show False using place_mono [of 0 i] i(1) by simp
qed

lemma con_next:
  assumes "n \<le> 8192"
  shows "con (place n) (map place [n - 8192 ..< n]) = map place [Suc n - 8192 ..< Suc n]"
proof -
  let ?vs = "map place [0 ..< n]"
  have new: "place n \<notin> set ?vs" using place_mono by fastforce
  have "sorted ?vs" by (auto simp: sorted_iff_nth_mono_less intro: less_imp_le place_mono)
  moreover have "\<forall>x \<in> set ?vs. x \<le> place n" using place_mono by (fastforce intro: less_imp_le)
  ultimately have "insort (place n) ?vs = ?vs @ [place n]" by (rule sorted_insort_is_snoc)
  then have ws: "insort_insert (place n) ?vs = map place [0 ..< Suc n]" using new by (simp add: insort_insert_key_def)
  show ?thesis
  proof (cases "n = 8192")
    case True
    have "tl (map place [0 ..< Suc n]) = map place [1 ..< Suc n]" by (simp add: map_tl [symmetric] tl_upt del: upt_Suc)
    then show ?thesis using ws True by (simp add: con_def Let_def del: upt_Suc)
  next
    case False
    with assms have "n - 8192 = 0" "Suc n - 8192 = 0" by simp_all
    then show ?thesis using ws assms False by (simp add: con_def Let_def del: upt_Suc)
  qed
qed

lemma in_order:
  assumes "seals_upto m c" "\<forall>fr \<in> set frs. length fr \<le> m"
    and "\<forall>i < length frs. cifra_todo c sha frs (emisor_new sha k e) ! i = Inr (bs ! i)" "length bs = length frs"
  defines "r \<equiv> \<lambda>n. foldl (llega c sha) (receptor_new k e) (take n bs)"
  shows "\<lbrakk>n \<le> 8193; n \<le> length frs\<rbrakk> \<Longrightarrow> receptor_ok sha k e (r n) \<and>
    rc_vistos (r n) = map place [n - 8192 ..< n] \<and> nueva (r n) = (n - 1) div RATCHET_CADA"
proof (induction n)
  case 0
  then show ?case using receptor_new_ok by (simp add: r_def) (simp add: receptor_new_def)
next
  case (Suc n)
  then have IH: "receptor_ok sha k e (r n)" "rc_vistos (r n) = map place [n - 8192 ..< n]"
    "nueva (r n) = (n - 1) div RATCHET_CADA" by simp_all
  have n: "n < length frs" "n \<le> 8192" using Suc.prems by simp_all
  have b: "bs ! n = trama c sha k e (place n) (frs ! n)"
    using cifra_todo_at [OF assms(1,2) n(1), of sha k e 0] assms(3) n(1) by (simp add: emisor_at_0)
  have step: "r (Suc n) = snd (abre_marco c sha (bs ! n) (r n))"
    using n(1) assms(4) by (simp add: r_def take_Suc_conv_app_nth llega_def [of c sha _ "bs ! n"])
  have R: "(n - 1) div RATCHET_CADA \<le> n div RATCHET_CADA" "n div RATCHET_CADA \<le> (n - 1) div RATCHET_CADA + 1"
    using place_step [of n] by (cases "n = 0"; simp split: if_splits)+
  have "(n - 1) div RATCHET_CADA \<le> 8192" using n(2) by (meson R(1) div_le_dividend le_trans)
  then have small: "nueva (r n) < 2 ^ 63" using IH(3) by simp
  have new: "place n \<notin> set (rc_vistos (r n))" using IH(2) place_mono by fastforce
  have "fst (place n) < 2 ^ 64" "snd (place n) < 2 ^ 64"
  proof -
    have "n div RATCHET_CADA \<le> 8192" using n(2) by (meson div_le_dividend le_trans)
    then show "fst (place n) < 2 ^ 64" by (simp add: place_def)
    have "n mod RATCHET_CADA < RATCHET_CADA" by (simp add: RATCHET_CADA_def)
    then show "snd (place n) < 2 ^ 64" by (simp add: place_def RATCHET_CADA_def)
  qed
  moreover have "length (frs ! n) \<le> m" using assms(2) n(1) by simp
  ultimately have "abre_marco c sha (bs ! n) (r n) =
      (Inr (frs ! n), (r n)\<lparr>rc_bases := ventana sha k (max (nueva (r n)) (fst (place n))),
         rc_vistos := con (place n) (rc_vistos (r n)), rc_ultimo := Some (place n)\<rparr>)"
    unfolding b using assms(1) IH small new R by (intro abre_trama) (simp_all add: place_def RATCHET_ATRAS_def)
  then have t: "r (Suc n) = (r n)\<lparr>rc_bases := ventana sha k (max (nueva (r n)) (fst (place n))),
      rc_vistos := con (place n) (rc_vistos (r n)), rc_ultimo := Some (place n)\<rparr>"
    by (simp add: step)
  have "max (nueva (r n)) (fst (place n)) = n div RATCHET_CADA"
    using IH(3) R(1) by (simp add: place_def max_def)
  then have "nueva (r (Suc n)) = n div RATCHET_CADA" by (simp add: t)
  moreover have "rc_vistos (r (Suc n)) = map place [Suc n - 8192 ..< Suc n]"
    using con_next [OF n(2)] IH(2) by (simp add: t del: upt_Suc)
  moreover have "receptor_ok sha k e (r (Suc n))" using abre_keeps [OF IH(1) small, of c "bs ! n"] by (simp add: step)
  ultimately show ?case by simp
qed

text \<open>C29: where replays come back. The memory of what was seen holds 8192 frames, the window three
  generations of 4096. A receiver that was sent 8193 frames in order refuses the first one a second
  time while it remembers it, and then, with the last of them, forgets it while its generation is
  still inside the window: the first frame opens again.\<close>

theorem replayed_frame_opens_again:
  assumes "seals_upto m c" "\<forall>fr \<in> set frs. length fr \<le> m" "length frs = 8193"
    and "\<forall>i < 8193. cifra_todo c sha frs (emisor_new sha k e) ! i = Inr (bs ! i)" "length bs = 8193"
  shows "fst (abre_marco c sha (bs ! 0) (foldl (llega c sha) (receptor_new k e) (take 8192 bs))) = Inl CannotOpen \<and>
    fst (abre_marco c sha (bs ! 0) (foldl (llega c sha) (receptor_new k e) bs)) = Inr (frs ! 0)"
proof
  let ?r = "\<lambda>n. foldl (llega c sha) (receptor_new k e) (take n bs)"
  note st = in_order [OF assms(1,2), of sha k e bs, unfolded assms(3,5), OF assms(4) refl]
  have b: "bs ! 0 = trama c sha k e (place 0) (frs ! 0)"
    using cifra_todo_at [OF assms(1,2), of 0 sha k e 0] assms(3,4) by (simp add: emisor_at_0)
  have z: "place 0 = (0, 0)" by (simp add: place_def)
  have r1: "receptor_ok sha k e (?r 8192)" "rc_vistos (?r 8192) = map place [0 ..< 8192]"
    using st [of 8192] by (simp_all only: le_refl diff_self_eq_0)
  have "place 0 \<in> set (rc_vistos (?r 8192))" unfolding r1(2) set_map set_upt by (rule imageI) simp
  then have seen: "(0, 0) \<in> set (rc_vistos (?r 8192))" unfolding z .
  obtain s where s: "bs ! 0 = cabecera_bytes (cab e (0, 0)) @ s" by (simp only: b z trama_def)
  have "cabecera_lee (bs ! 0) = Some (cab e (0, 0), s)"
    using marco.dec_enc [of "(cab e (0, 0), s)"] by (simp add: cab_def s)
  moreover have "rc_emisor (?r 8192) = e" using r1(1) unfolding receptor_ok_def by blast
  ultimately show "fst (abre_marco c sha (bs ! 0) (?r 8192)) = Inl CannotOpen"
    using seen by (simp add: abre_marco_def Let_def cab_def)
  have ok: "receptor_ok sha k e (?r 8193)" "rc_vistos (?r 8193) = map place [8193 - 8192 ..< 8193]"
    "nueva (?r 8193) = (8193 - 1) div RATCHET_CADA" using st [of 8193] by (simp_all only: le_refl)
  have "place 0 \<notin> set (rc_vistos (?r 8193))"
    unfolding ok(2) by (rule place_notin) simp
  then have new: "(0, 0) \<notin> set (rc_vistos (?r 8193))" unfolding z .
  have g: "nueva (?r 8193) = 2" unfolding ok(3) by (simp add: RATCHET_CADA_def)
  have "length (frs ! 0) \<le> m" using assms(2,3) by simp
  then have "abre_marco c sha (trama c sha k e (0, 0) (frs ! 0)) (?r 8193) =
      (Inr (frs ! 0), (?r 8193)\<lparr>rc_bases := ventana sha k (max (nueva (?r 8193)) (fst (0, 0 :: nat))),
        rc_vistos := con (0, 0) (rc_vistos (?r 8193)), rc_ultimo := Some (0, 0)\<rparr>)"
    using assms(1) ok(1) new g by (intro abre_trama) (simp_all add: RATCHET_ATRAS_def)
  moreover have "take 8193 bs = bs" using assms(5) by simp
  ultimately show "fst (abre_marco c sha (bs ! 0) (foldl (llega c sha) (receptor_new k e) bs)) = Inr (frs ! 0)"
    by (simp only: b z fst_conv)
qed

definition sample_tramas :: "bytes list" where
  "sample_tramas = map (\<lambda>i. trama sample_aead sample_hash [7] 0 (place i) [1]) [0 ..< 8193]"

theorem replayed_frame_opens_again_witness:
  "fst (abre_marco sample_aead sample_hash (sample_tramas ! 0)
     (foldl (llega sample_aead sample_hash) (receptor_new [7] 0) sample_tramas)) = Inr [1]"
proof -
  let ?frs = "replicate 8193 [1 :: byte]"
  have l: "\<forall>fr \<in> set ?frs. length fr \<le> 1" by simp
  have n: "length ?frs = 8193" by (rule length_replicate)
  have all: "\<forall>i < 8193. cifra_todo sample_aead sample_hash ?frs (emisor_new sample_hash [7] 0) ! i =
      Inr (sample_tramas ! i)"
  proof (intro allI impI)
    fix i :: nat assume that: "i < 8193"
    show "cifra_todo sample_aead sample_hash ?frs (emisor_new sample_hash [7] 0) ! i = Inr (sample_tramas ! i)"
    using cifra_todo_at [OF sample_aead_ok(1) l, of i sample_hash "[7]" 0 0] that
    by (simp only: n emisor_at_0 sample_tramas_def nth_map_upt nth_replicate add_0 diff_zero)
  qed
  have "length sample_tramas = 8193" by (simp only: sample_tramas_def length_map length_upt diff_zero)
  from replayed_frame_opens_again [OF sample_aead_ok(1) l n all this, THEN conjunct2]
  have "fst (abre_marco sample_aead sample_hash (sample_tramas ! 0)
     (foldl (llega sample_aead sample_hash) (receptor_new [7] 0) sample_tramas)) = Inr (?frs ! 0)" .
  moreover have "?frs ! 0 = [1]" by (rule nth_replicate) simp
  ultimately show ?thesis by (simp only:)
qed

text \<open>Where the sender is silenced. The receiver moves its keys forward before it knows that the
  frame is genuine: one frame with a made-up header, sixty-four generations ahead of the
  newest, and anything behind it, is refused and yet leaves no frame of the newest generation,
  nor of the sixty-one next, that could still be opened.\<close>

theorem forged_header_silences_the_sender:
  assumes "r = foldl (llega c sha) (receptor_new k e) bs" "length bs < 2 ^ 50"
    and "fst p = nueva r + 64" "snd p < 2 ^ 64" "p \<notin> set (rc_vistos r)"
    and "unseal c (ge_clave (deriva sha (base_at sha k (fst p)) e (fst p)))
      (nonce_marco (ge_sal (deriva sha (base_at sha k (fst p)) e (fst p))) (snd p))
      (cabecera_bytes (cab e p)) basura = None"
    and "fst q < nueva r + 62" "snd q < 2 ^ 64"
  shows "\<exists>t. abre_marco c sha (cabecera_bytes (cab e p) @ basura) r = (Inl CannotOpen, t) \<and>
    fst (abre_marco c sha (cabecera_bytes (cab e q) @ x) t) = Inl CannotOpen"
proof -
  have ok: "receptor_ok sha k e r" "nueva r \<le> 64 * length bs"
    using llega_ok [of bs sha k e c] assms(1,2) by simp_all
  have n: "nueva r < 2 ^ 62" using ok(2) assms(2) by simp
  then have n63: "nueva r < 2 ^ 63" and p64: "fst p < 2 ^ 64" using assms(3) by simp_all
  have lee: "cabecera_lee (cabecera_bytes (cab e z) @ y) = Some (cab e z, y)" if "fst z < 2 ^ 64" "snd z < 2 ^ 64" for z y
    using marco.dec_enc [of "(cab e z, y)"] that by (simp add: cab_def)
  let ?t = "r\<lparr>rc_bases := ventana sha k (max (nueva r) (fst p))\<rparr>"
  have e: "rc_emisor r = e" using ok(1) by (simp add: receptor_ok_def)
  have "\<not> (fst p + RATCHET_ATRAS < nueva r \<or> nueva r + 64 < fst p)" using assms(3) by simp
  then have refused: "abre_marco c sha (cabecera_bytes (cab e p) @ basura) r = (Inl CannotOpen, ?t)"
    using lee [OF p64 assms(4)] base_de_ok [OF ok(1) n63 p64] assms(5,6) e
    by (simp add: abre_marco_def Let_def cab_def)
  have t: "receptor_ok sha k e ?t" "nueva ?t = nueva r + 64"
    using abre_keeps [OF ok(1) n63, of c "cabecera_bytes (cab e p) @ basura"] assms(3) by (simp_all add: refused)
  have q: "fst q < 2 ^ 64" using assms(7) n by simp
  have "base_de sha (fst q) ?t = (None, ?t)"
    using base_de_ok [OF t(1) _ q] t(2) n assms(7) by (simp add: RATCHET_ATRAS_def)
  then have "fst (abre_marco c sha (cabecera_bytes (cab e q) @ x) ?t) = Inl CannotOpen"
    using lee [OF q assms(8)] by (simp add: abre_marco_def Let_def cab_def)
  with refused show ?thesis by blast
qed

theorem forged_header_silences_the_sender_witness:
  "\<exists>t. abre_marco sample_aead sample_hash (cabecera_bytes (cab 0 (64, 0)) @ []) (receptor_new [7] 0) = (Inl CannotOpen, t) \<and>
    fst (abre_marco sample_aead sample_hash (cabecera_bytes (cab 0 (0, 5)) @ [1]) t) = Inl CannotOpen"
proof -
  have r: "receptor_new [7] 0 = foldl (llega sample_aead sample_hash) (receptor_new [7] 0) []" by simp
  have u: "unseal sample_aead k n (cabecera_bytes (cab 0 (64, 0))) [] = None" for k n
    by (simp add: sample_aead_def cabecera_bytes_def)
  show ?thesis
    by (rule forged_header_silences_the_sender [OF r]) (simp_all add: receptor_new_ok u receptor_new_def nueva_def)
qed

end
