(* ===== verification/Entrega.thy ===== *)
theory Entrega imports Rust_Text Secure begin

text \<open>
  The rules of a delivery, with no network and no disk: \<open>crates/secure/src/entrega.rs\<close>. When it
  expires, how the code is checked, when the link is spent. The random draws of the system
  (\<open>getrandom\<close>) are arguments. The receipt's JSON text is not modelled.
\<close>

section \<open>Deliveries\<close>

definition INTENTOS :: nat where "INTENTOS = 3"
definition DIGITOS_MIN :: nat where "DIGITOS_MIN = 4"
definition DIGITOS_MAX :: nat where "DIGITOS_MAX = 12"

definition clamp :: "nat \<Rightarrow> nat \<Rightarrow> nat \<Rightarrow> nat" where
  "clamp lo hi n = (if n < lo then lo else if n > hi then hi else n)"

datatype caducidad = Horas nat | PrimeraDescarga

definition segundos :: "caducidad \<Rightarrow> nat" where
  "segundos c = (case c of Horas h \<Rightarrow> clamp 1 (24 * 30) h * 3600 | PrimeraDescarga \<Rightarrow> 7 * 24 * 3600)"

definition nombre_caducidad :: "caducidad \<Rightarrow> string" where
  "nombre_caducidad c =
     (case c of
        Horas h \<Rightarrow> if h mod 24 = 0 then decimal (h div 24) @ ''d'' else decimal h @ ''h''
      | PrimeraDescarga \<Rightarrow> ''primera_descarga'')"

definition caducidad_de :: "string \<Rightarrow> caducidad" where
  "caducidad_de s =
     (if s = ''primera_descarga'' then PrimeraDescarga else if s = ''7d'' then Horas 168 else Horas 24)"

datatype estado_entrega =
  Preparando | Esperando | Abierta | Entregada | Caducada | Revocada | Destruida string

definition viva :: "estado_entrega \<Rightarrow> bool" where
  "viva s \<longleftrightarrow> s \<in> {Preparando, Esperando, Abierta}"

fun nombre_estado :: "estado_entrega \<Rightarrow> string" where
  "nombre_estado Preparando = ''preparando''"
| "nombre_estado Esperando = ''esperando''"
| "nombre_estado Abierta = ''abierta''"
| "nombre_estado Entregada = ''entregada''"
| "nombre_estado Caducada = ''caducada''"
| "nombre_estado Revocada = ''revocada''"
| "nombre_estado (Destruida _) = ''destruida''"

record ficha_archivo =
  fi_nombre :: string
  fi_bytes :: nat
  fi_trozos :: nat
  fi_sha256 :: string
  fi_raiz :: string
  fi_recibido :: "nat option"

datatype intento = Bien | Mal nat | Agotada | OtroDispositivo | NoVigente

record entrega =
  et_id :: string
  et_titulo :: string
  et_creada :: nat
  et_caducidad :: caducidad
  et_vence :: nat
  et_codigo :: string
  et_fallos :: nat
  et_receptor :: "string option"
  et_estado :: estado_entrega
  et_archivos :: "ficha_archivo list"
  et_abierta :: "nat option"
  et_completa :: "nat option"
  et_nombres_en_recibo :: bool

section \<open>The code\<close>

text \<open>Bytes from 250 up are drawn again. What \<open>getrandom\<close> fills, sixteen bytes at a time, is the
  list of draws; a draw that fails ends the list.\<close>

fun codigo_trozo :: "nat \<Rightarrow> string \<Rightarrow> bytes \<Rightarrow> string" where
  "codigo_trozo n s [] = s"
| "codigo_trozo n s (x # xs) =
     codigo_trozo n (if unat x < 250 \<and> length s < n then s @ [digit_char (unat x mod 10)] else s) xs"

fun codigo_bucle :: "nat \<Rightarrow> string \<Rightarrow> bytes list \<Rightarrow> secure_error + string" where
  "codigo_bucle n s draws =
     (if length s < n then
        case draws of
          [] \<Rightarrow> Inl CannotStart
        | b # draws \<Rightarrow> codigo_bucle n (codigo_trozo n s b) draws
      else Inr s)"

declare codigo_bucle.simps [simp del]

definition codigo_nuevo :: "nat \<Rightarrow> bytes list \<Rightarrow> secure_error + string" where
  "codigo_nuevo digitos draws = codigo_bucle (clamp DIGITOS_MIN DIGITOS_MAX digitos) [] draws"

definition iguales :: "string \<Rightarrow> string \<Rightarrow> bool" where
  "iguales a b =
     (let a = str_bytes a; b = str_bytes b
      in length a = length b \<and> foldl (\<lambda>acc (x, y). acc OR (x XOR y)) 0 (zip a b) = 0)"

section \<open>Operations\<close>

definition nueva_entrega ::
    "nat \<Rightarrow> caducidad \<Rightarrow> nat \<Rightarrow> bool \<Rightarrow> bytes option \<Rightarrow> bytes list \<Rightarrow> secure_error + entrega" where
  "nueva_entrega ahora c digitos nombres azar draws =
     (case azar of
        None \<Rightarrow> Inl CannotStart
      | Some b \<Rightarrow>
          and_then (codigo_nuevo digitos draws) (\<lambda>codigo.
            Inr \<lparr>et_id = to_hex b, et_titulo = [], et_creada = ahora, et_caducidad = c,
              et_vence = ahora + segundos c, et_codigo = codigo, et_fallos = 0, et_receptor = None,
              et_estado = Preparando, et_archivos = [], et_abierta = None, et_completa = None,
              et_nombres_en_recibo = nombres\<rparr>))"

definition lista :: "entrega \<Rightarrow> entrega" where
  "lista e = (if et_estado e = Preparando then e\<lparr>et_estado := Esperando\<rparr> else e)"

definition bytes_entrega :: "entrega \<Rightarrow> nat" where
  "bytes_entrega e = sum_list (map fi_bytes (et_archivos e))"

definition tic :: "nat \<Rightarrow> entrega \<Rightarrow> bool \<times> entrega" where
  "tic ahora e =
     (if viva (et_estado e) \<and> ahora \<ge> et_vence e then (True, e\<lparr>et_estado := Caducada\<rparr>)
      else (False, e))"

definition destruye :: "string \<Rightarrow> entrega \<Rightarrow> entrega" where
  "destruye motivo e =
     (if viva (et_estado e) then e\<lparr>et_estado := Destruida (take_chars 40 motivo)\<rparr> else e)"

definition revoca :: "entrega \<Rightarrow> entrega" where
  "revoca e = (if viva (et_estado e) then e\<lparr>et_estado := Revocada\<rparr> else e)"

definition intenta ::
    "string \<Rightarrow> string \<Rightarrow> nat \<Rightarrow> bytes option \<Rightarrow> entrega \<Rightarrow> (secure_error + intento \<times> string option) \<times> entrega" where
  "intenta codigo token ahora azar e0 =
     (let e = snd (tic ahora e0)
      in if et_estado e \<noteq> Esperando \<and> et_estado e \<noteq> Abierta then (Inr (NoVigente, None), e)
         else if \<not> iguales (trim codigo) (et_codigo e) then
           let e = e\<lparr>et_fallos := et_fallos e + 1\<rparr>
           in if et_fallos e \<ge> INTENTOS then (Inr (Agotada, None), destruye ''codigo_distinto'' e)
              else (Inr (Mal (INTENTOS - et_fallos e), None), e)
         else case et_receptor e of
                Some r \<Rightarrow>
                  if iguales token r then (Inr (Bien, Some r), e)
                  else (Inr (OtroDispositivo, None), destruye ''dispositivo_nuevo'' e)
              | None \<Rightarrow>
                  (case azar of
                     None \<Rightarrow> (Inl CannotStart, e)
                   | Some b \<Rightarrow>
                       (Inr (Bien, Some (to_hex b)),
                        e\<lparr>et_receptor := Some (to_hex b), et_estado := Abierta, et_abierta := Some ahora\<rparr>)))"

definition recibido :: "nat \<Rightarrow> string \<Rightarrow> nat \<Rightarrow> entrega \<Rightarrow> bool \<times> entrega" where
  "recibido i raiz ahora e =
     (if et_estado e \<noteq> Abierta then (False, e)
      else case get_at (et_archivos e) i of
             None \<Rightarrow> (False, e)
           | Some a \<Rightarrow>
               if \<not> iguales raiz (fi_raiz a) then (False, e)
               else
                 let a = (if fi_recibido a = None then a\<lparr>fi_recibido := Some ahora\<rparr> else a);
                     e = e\<lparr>et_archivos := (et_archivos e)[i := a]\<rparr>
                 in (True,
                     if list_all (\<lambda>a. fi_recibido a \<noteq> None) (et_archivos e)
                     then e\<lparr>et_completa := Some ahora, et_estado := Entregada\<rparr> else e))"

end
