(* ===== verification/Entrega_Facts.thy ===== *)
theory Entrega_Facts imports Entrega begin

text \<open>
  What the rules of a delivery (\<open>Entrega\<close>) come to. The operations are the steps of one machine
  that keeps, beside the delivery, the log of what was asked and answered; its invariant is carried
  through any sequence of steps by the interface \<open>guarded_machine\<close>.
\<close>

section \<open>Comparing\<close>

lemma foldl_or_zero:
  "foldl (\<lambda>acc (x, y). acc OR (x XOR y)) (a :: 8 word) ps = 0 \<longleftrightarrow> a = 0 \<and> list_all (\<lambda>(x, y). x = y) ps"
proof (induction ps arbitrary: a)
  case (Cons p ps)
  obtain x y where p: "p = (x, y)" by force
  have "x XOR y = 0 \<longleftrightarrow> x = y" by (auto simp: bit_eq_iff bit_xor_iff)
  then have "a OR (x XOR y) = 0 \<longleftrightarrow> a = 0 \<and> x = y" by (simp add: or_eq_0_iff)
  then show ?case using Cons by (auto simp: p)
qed simp

lemma list_all_zip_eq: "length xs = length ys \<Longrightarrow> list_all (\<lambda>(x, y). x = y) (zip xs ys) \<longleftrightarrow> xs = ys"
  by (induction xs ys rule: list_induct2) auto

lemma iguales_iff [simp]: "iguales a b \<longleftrightarrow> a = b"
  by (auto simp: iguales_def Let_def foldl_or_zero list_all_zip_eq
      simp flip: length_str_bytes intro: str_bytes_inj [THEN iffD1])

section \<open>The code\<close>

text \<open>The digits are those of the draws below 250, in order, and every digit has the same share
  of them.\<close>

definition digitos_de :: "bytes \<Rightarrow> string" where
  "digitos_de b = map (\<lambda>x. digit_char (unat x mod 10)) (filter (\<lambda>x. unat x < 250) b)"

lemma digitos_de_append: "digitos_de (a @ b) = digitos_de a @ digitos_de b"
  by (simp add: digitos_de_def)

lemma codigo_trozo_take:
  "length s \<le> n \<Longrightarrow> codigo_trozo n s b = take n (s @ digitos_de b)"
proof (induction b arbitrary: s)
  case (Cons x b)
  show ?case
  proof (cases "unat x < 250 \<and> length s < n")
    case True
    then show ?thesis using Cons.IH [of "s @ [digit_char (unat x mod 10)]"] by (simp add: digitos_de_def)
  next
    case False
    then show ?thesis using Cons by (cases "length s = n") (auto simp: digitos_de_def)
  qed
qed (simp add: digitos_de_def)

lemma take_take_append: "take n (take n xs @ ys) = take n (xs @ ys)"
  by (cases "length xs \<le> n") auto

lemma codigo_bucle_spec:
  "length s \<le> n \<Longrightarrow> codigo_bucle n s draws = Inr c \<Longrightarrow>
   length c = n \<and> c = take n (s @ digitos_de (concat draws))"
proof (induction n s draws rule: codigo_bucle.induct)
  case (1 n s draws)
  show ?case
  proof (cases "length s < n")
    case True
    with 1(3) obtain b ds where d: "draws = b # ds" "codigo_bucle n (codigo_trozo n s b) ds = Inr c"
      by (cases draws) (simp_all add: codigo_bucle.simps [of n s])
    from 1(2) have t: "codigo_trozo n s b = take n (s @ digitos_de b)" by (rule codigo_trozo_take)
    have "length c = n \<and> c = take n (take n (s @ digitos_de b) @ digitos_de (concat ds))"
      using 1(1) [OF True d(1) _ d(2), unfolded t] by (metis length_take min.cobounded2)
    then show ?thesis by (metis take_take_append append_assoc d(1) concat.simps(2) digitos_de_append)
  next
    case False
    with 1 show ?thesis by (simp add: codigo_bucle.simps [of n s])
  qed
qed

lemma fair_digit: "d < 10 \<Longrightarrow> card {k :: nat. k < 250 \<and> k mod 10 = d} = 25"
proof -
  assume d: "d < 10"
  have "{k :: nat. k < 250 \<and> k mod 10 = d} = (\<lambda>j. 10 * j + d) ` {..<25}"
  proof (intro equalityI subsetI)
    fix k assume "k \<in> {k :: nat. k < 250 \<and> k mod 10 = d}"
    then have "k = 10 * (k div 10) + d" "k div 10 < 25" by auto
    then show "k \<in> (\<lambda>j. 10 * j + d) ` {..<25}" by blast
  qed (use d in auto)
  moreover have "inj_on (\<lambda>j. 10 * j + d) {..<25}" by (auto intro: inj_onI)
  ultimately show ?thesis by (simp add: card_image)
qed

text \<open>C24: a code has the length asked for, within four and twelve; it is the digits of the draws
  in order, and of the bytes that count twenty-five give each digit, so that no digit is likelier
  than another.\<close>

theorem code_is_drawn_fairly:
  assumes "codigo_nuevo digitos draws = Inr c"
  shows "length c = clamp DIGITOS_MIN DIGITOS_MAX digitos \<and> 4 \<le> length c \<and> length c \<le> 12 \<and>
    c = take (length c) (digitos_de (concat draws)) \<and> list_all is_ascii_digit c \<and>
    (\<forall>d < 10. card {x :: 8 word. unat x < 250 \<and> unat x mod 10 = d} = 25)"
proof -
  let ?n = "clamp DIGITOS_MIN DIGITOS_MAX digitos"
  from assms have "codigo_bucle ?n [] draws = Inr c" by (simp only: codigo_nuevo_def)
  from codigo_bucle_spec [OF _ this] have c: "length c = ?n \<and> c = take ?n (digitos_de (concat draws))"
    by (metis append_Nil bot_nat_0.extremum list.size(3))
  have "set c \<subseteq> set (digitos_de (concat draws))" by (metis c set_take_subset)
  then have digits: "list_all is_ascii_digit c"
    by (auto simp: list_all_iff digitos_de_def is_ascii_digit_def digit_char_code)
  have fair: "card {x :: 8 word. unat x < 250 \<and> unat x mod 10 = d} = 25" if "d < 10" for d
  proof -
    have img: "unat ` {x :: 8 word. unat x < 250 \<and> unat x mod 10 = d} = {k :: nat. k < 250 \<and> k mod 10 = d}"
    proof (intro equalityI subsetI)
      fix k :: nat assume k: "k \<in> {k. k < 250 \<and> k mod 10 = d}"
      then have "unat (of_nat k :: 8 word) = k" by (simp add: unat_of_nat)
      with k show "k \<in> unat ` {x :: 8 word. unat x < 250 \<and> unat x mod 10 = d}" by (metis (mono_tags) imageI mem_Collect_eq)
    qed auto
    have inj: "inj_on unat {x :: 8 word. unat x < 250 \<and> unat x mod 10 = d}"
      by (rule inj_onI, rule word_unat_eq_iff [THEN iffD2])
    show ?thesis by (simp only: card_image [OF inj, symmetric] img fair_digit [OF that])
  qed
  have "4 \<le> ?n \<and> ?n \<le> 12" by (simp add: clamp_def DIGITOS_MIN_def DIGITOS_MAX_def)
  with c have "4 \<le> length c \<and> length c \<le> 12 \<and> c = take (length c) (digitos_de (concat draws))" by metis
  then show ?thesis using c digits fair by blast
qed

theorem code_is_drawn_fairly_witness:
  "\<exists>c. codigo_nuevo 0 [[1, 251, 23], [45, 249, 8]] = Inr c \<and> length c = 4 \<and>
     c = take 4 (digitos_de [1, 251, 23, 45, 249, 8])"
proof -
  obtain c where run: "codigo_nuevo 0 [[1, 251, 23], [45, 249, 8]] = Inr c" "length c = 4"
    by (simp add: codigo_nuevo_def clamp_def DIGITOS_MIN_def DIGITOS_MAX_def codigo_bucle.simps)
  from code_is_drawn_fairly [OF run(1)] run(2)
  have "c = take 4 (digitos_de (concat [[1, 251, 23], [45, 249, 8]]))" by metis
  then have "c = take 4 (digitos_de [1, 251, 23, 45, 249, 8])" by (simp only: concat.simps append.simps)
  with run show ?thesis by blast
qed

section \<open>The delivery as a machine\<close>

datatype paso_entrega =
  Lista | Tic nat | Revoca | Destruye string | Intenta string string nat "bytes option" | Recibido nat string nat

datatype respuesta = Nada | Dice bool | Contesta "secure_error + intento \<times> string option"

fun atiende_e :: "paso_entrega \<Rightarrow> entrega \<Rightarrow> respuesta \<times> entrega" where
  "atiende_e Lista e = (Nada, lista e)"
| "atiende_e (Tic ahora) e = map_prod Dice id (tic ahora e)"
| "atiende_e Revoca e = (Nada, revoca e)"
| "atiende_e (Destruye motivo) e = (Nada, destruye motivo e)"
| "atiende_e (Intenta codigo token ahora azar) e = map_prod Contesta id (intenta codigo token ahora azar e)"
| "atiende_e (Recibido i raiz ahora) e = map_prod Dice id (recibido i raiz ahora e)"

type_synonym bitacora = "(paso_entrega \<times> respuesta) list"

definition anota_e :: "entrega \<times> bitacora \<Rightarrow> paso_entrega \<Rightarrow> entrega \<times> bitacora" where
  "anota_e s p = (snd (atiende_e p (fst s)), snd s @ [(p, fst (atiende_e p (fst s)))])"

definition vida :: "entrega \<Rightarrow> paso_entrega list \<Rightarrow> entrega \<times> bitacora" where
  "vida e ps = foldl anota_e (e, []) ps"

definition abrio :: "paso_entrega \<times> respuesta \<Rightarrow> bool" where
  "abrio x = (case snd x of Contesta (Inr (Bien, _)) \<Rightarrow> True | _ \<Rightarrow> False)"

definition fallo :: "paso_entrega \<times> respuesta \<Rightarrow> bool" where
  "fallo x = (case snd x of Contesta (Inr (Mal _, _)) \<Rightarrow> True | Contesta (Inr (Agotada, _)) \<Rightarrow> True | _ \<Rightarrow> False)"

text \<open>The attempt carried the token \<open>w\<close>; the attempt for which \<open>w\<close> was drawn.\<close>

definition con_token :: "string \<Rightarrow> paso_entrega \<times> respuesta \<Rightarrow> bool" where
  "con_token w x = (case fst x of Intenta c t n a \<Rightarrow> t = w | _ \<Rightarrow> False)"

definition sortea :: "string \<Rightarrow> paso_entrega \<times> respuesta \<Rightarrow> bool" where
  "sortea w x = (case fst x of Intenta c t n (Some b) \<Rightarrow> w = to_hex b | _ \<Rightarrow> False)"

text \<open>The first to open it is given the token drawn then, and whoever opens it later shows it.\<close>

definition uno_solo :: "string option \<Rightarrow> bitacora \<Rightarrow> bool" where
  "uno_solo r l =
     (case l of [] \<Rightarrow> True
      | x # xs \<Rightarrow> (case r of None \<Rightarrow> False | Some w \<Rightarrow> sortea w x \<and> list_all (con_token w) xs))"

text \<open>What a delivery and its log keep: who opened it, what was confirmed, and the rest. \<open>e0\<close> is
  the delivery as it started.\<close>

definition abierta_por :: "string \<Rightarrow> nat \<Rightarrow> string option \<Rightarrow> bitacora \<Rightarrow> bool" where
  "abierta_por codigo vence r l \<longleftrightarrow>
     (r \<noteq> None \<longleftrightarrow> (\<exists>x \<in> set l. abrio x)) \<and> uno_solo r (filter abrio l) \<and>
     (\<forall>x \<in> set l. abrio x \<longrightarrow>
        (\<exists>c t n a. x = (Intenta c t n a, Contesta (Inr (Bien, r))) \<and> trim c = codigo \<and> n < vence))"

definition confirmada :: "string list \<Rightarrow> ficha_archivo list \<Rightarrow> bitacora \<Rightarrow> bool" where
  "confirmada raices es l \<longleftrightarrow>
     map fi_raiz es = raices \<and>
     (\<forall>i < length es. fi_recibido (es ! i) \<noteq> None \<longrightarrow> (\<exists>n. (Recibido i (raices ! i) n, Dice True) \<in> set l))"

definition cuenta :: "entrega \<Rightarrow> entrega \<times> bitacora \<Rightarrow> bool" where
  "cuenta e0 s \<longleftrightarrow>
     et_codigo (fst s) = et_codigo e0 \<and> et_vence (fst s) = et_vence e0 \<and>
     abierta_por (et_codigo e0) (et_vence e0) (et_receptor (fst s)) (snd s) \<and>
     confirmada (map fi_raiz (et_archivos e0)) (et_archivos (fst s)) (snd s) \<and>
     length (filter fallo (snd s)) = et_fallos (fst s) \<and> et_fallos (fst s) \<le> INTENTOS \<and>
     (viva (et_estado (fst s)) \<longrightarrow> et_fallos (fst s) < INTENTOS) \<and>
     (et_estado (fst s) = Abierta \<or> et_estado (fst s) = Entregada \<longrightarrow> et_receptor (fst s) \<noteq> None) \<and>
     (et_estado (fst s) = Entregada \<longrightarrow> list_all (\<lambda>a. fi_recibido a \<noteq> None) (et_archivos (fst s)))"

lemma abierta_por_quiet [simp]:
  "\<not> abrio x \<Longrightarrow> abierta_por c v r (l @ [x]) = abierta_por c v r l"
  by (simp add: abierta_por_def)

lemma abierta_por_again:
  "\<lbrakk>abierta_por c v (Some r) l; trim w = c; n < v\<rbrakk> \<Longrightarrow>
   abierta_por c v (Some r) (l @ [(Intenta w r n a, Contesta (Inr (Bien, Some r)))])"
  by (cases "filter abrio l")
     (auto simp: abierta_por_def abrio_def uno_solo_def con_token_def filter_empty_conv)

lemma abierta_por_first:
  "\<lbrakk>abierta_por c v None l; trim w = c; n < v\<rbrakk> \<Longrightarrow>
   abierta_por c v (Some (to_hex b)) (l @ [(Intenta w t n (Some b), Contesta (Inr (Bien, Some (to_hex b))))])"
  by (auto simp: abierta_por_def abrio_def uno_solo_def sortea_def filter_empty_conv split: list.split)

lemma confirmada_append: "confirmada rs es l \<Longrightarrow> confirmada rs es (l @ [x])"
  by (auto simp: confirmada_def)

lemma confirmada_update:
  "\<lbrakk>confirmada rs es l; i < length es; fi_raiz b = fi_raiz (es ! i)\<rbrakk> \<Longrightarrow>
   confirmada rs (es[i := b]) (l @ [(Recibido i (fi_raiz (es ! i)) n, Dice True)])"
  unfolding confirmada_def
  by (intro conjI allI impI)
     (simp add: map_update, metis length_map list_update_same_conv nth_map,
      auto simp: nth_list_update split: if_splits)

lemma filter_fallo_append: "filter fallo (xs @ [x]) = filter fallo xs @ (if fallo x then [x] else [])"
  by simp

lemma not_viva_closed:
  "\<not> viva (et_estado e) \<Longrightarrow> snd (atiende_e p e) = e \<and>
   fst (atiende_e p e) \<in> {Nada, Dice False, Contesta (Inr (NoVigente, None))}"
  by (cases p) (auto simp: lista_def tic_def revoca_def destruye_def intenta_def recibido_def viva_def Let_def)

text \<open>A step that moves at most the state of the delivery, and never to open or delivered.\<close>

definition solo_estado :: "entrega \<Rightarrow> entrega \<Rightarrow> bool" where
  "solo_estado e e' \<longleftrightarrow>
     (\<exists>st. e' = e\<lparr>et_estado := st\<rparr> \<and> (st = et_estado e \<or> viva (et_estado e) \<and> st \<notin> {Abierta, Entregada}))"

lemma solo_estado_refl [simp]: "solo_estado e e"
  by (auto simp: solo_estado_def intro: exI [of _ "et_estado e"])

lemma solo_estado_op:
  "viva (et_estado e) \<Longrightarrow> st \<notin> {Abierta, Entregada} \<Longrightarrow> solo_estado e (e\<lparr>et_estado := st\<rparr>)"
  by (auto simp: solo_estado_def)

lemma tic_solo [simp]: "solo_estado e (snd (tic n e))"
  by (auto simp: tic_def intro!: solo_estado_op)

lemma cuenta_quiet: "\<lbrakk>cuenta e0 (e, l); \<not> abrio x; \<not> fallo x\<rbrakk> \<Longrightarrow> cuenta e0 (e, l @ [x])"
  by (simp add: cuenta_def confirmada_append)

lemma cuenta_solo: "\<lbrakk>cuenta e0 (e, l); solo_estado e e'\<rbrakk> \<Longrightarrow> cuenta e0 (e', l)"
  unfolding solo_estado_def by (elim exE conjE disjE) (simp_all add: cuenta_def)

text \<open>A wrong code is one failure more; the last one closes the delivery.\<close>

lemma cuenta_fallo:
  assumes "cuenta e0 (e, l)" "viva (et_estado e)" "fallo x" "\<not> abrio x"
    "st = et_estado e \<and> et_fallos e + 1 < INTENTOS \<or> \<not> viva st \<and> st \<noteq> Entregada"
  shows "cuenta e0 (e\<lparr>et_fallos := et_fallos e + 1, et_estado := st\<rparr>, l @ [x])"
proof -
  have "\<not> viva st \<Longrightarrow> st \<noteq> Abierta" by (auto simp: viva_def)
  with assms(5) show ?thesis using assms(1-4)
    by (elim disjE conjE) (simp_all add: cuenta_def confirmada_append)
qed

lemma cuenta_abrio:
  "\<lbrakk>cuenta e0 (e, l); trim c = et_codigo e; n < et_vence e; et_receptor e = Some r\<rbrakk> \<Longrightarrow>
   cuenta e0 (e, l @ [(Intenta c r n a, Contesta (Inr (Bien, Some r)))])"
  by (simp add: cuenta_def fallo_def confirmada_append abierta_por_again)

lemma cuenta_primero:
  "\<lbrakk>cuenta e0 (e, l); viva (et_estado e); trim c = et_codigo e; n < et_vence e; et_receptor e = None\<rbrakk> \<Longrightarrow>
   cuenta e0 (e\<lparr>et_receptor := Some (to_hex b), et_estado := Abierta, et_abierta := m\<rparr>,
     l @ [(Intenta c t n (Some b), Contesta (Inr (Bien, Some (to_hex b))))])"
  by (simp add: cuenta_def fallo_def confirmada_append abierta_por_first)

lemma cuenta_recibido:
  assumes "cuenta e0 (e, l)" "et_estado e = Abierta" "i < length (et_archivos e)"
    "fi_raiz b = fi_raiz (et_archivos e ! i)" "es = (et_archivos e)[i := b]"
    "e' = (if list_all (\<lambda>a. fi_recibido a \<noteq> None) es
           then e\<lparr>et_archivos := es, et_completa := Some n, et_estado := Entregada\<rparr>
           else e\<lparr>et_archivos := es\<rparr>)"
  shows "cuenta e0 (e', l @ [(Recibido i (fi_raiz (et_archivos e ! i)) n, Dice True)])"
proof -
  let ?x = "(Recibido i (fi_raiz (et_archivos e ! i)) n, Dice True)"
  have "confirmada (map fi_raiz (et_archivos e0)) es (l @ [?x])"
    using assms(1,3-5) confirmada_update by (simp add: cuenta_def)
  then show ?thesis using assms(1,2,6) by (simp add: cuenta_def abrio_def fallo_def viva_def)
qed

lemma cuenta_step: "cuenta e0 s \<Longrightarrow> cuenta e0 (anota_e s p)"
proof -
  assume c: "cuenta e0 s"
  obtain e l where s: "s = (e, l)" by force
  note quiet = cuenta_quiet [OF cuenta_solo [OF c [unfolded s]]]
  show ?thesis
  proof (cases p)
    case (Intenta co t n a)
    define e1 where "e1 = snd (tic n e)"
    have c1: "cuenta e0 (e1, l)" unfolding e1_def by (rule cuenta_solo [OF c [unfolded s] tic_solo])
    have live: "et_estado e1 = Esperando \<or> et_estado e1 = Abierta \<Longrightarrow> viva (et_estado e1) \<and> n < et_vence e1"
      by (auto simp: e1_def tic_def viva_def split: if_splits)
    let ?x = "\<lambda>r. (Intenta co t n a, Contesta r)"
    note defs = anota_e_def s Intenta intenta_def Let_def e1_def [symmetric]
    consider (closed) "et_estado e1 \<noteq> Esperando" "et_estado e1 \<noteq> Abierta"
      | (wrong) "viva (et_estado e1)" "et_estado e1 = Esperando \<or> et_estado e1 = Abierta" "trim co \<noteq> et_codigo e1"
      | (first) "viva (et_estado e1)" "n < et_vence e1" "et_estado e1 = Esperando \<or> et_estado e1 = Abierta"
          "trim co = et_codigo e1" "et_receptor e1 = None"
      | (again) r where "viva (et_estado e1)" "n < et_vence e1" "et_estado e1 = Esperando \<or> et_estado e1 = Abierta"
          "trim co = et_codigo e1" "et_receptor e1 = Some r"
      using live by (cases "et_receptor e1") blast+
    then show ?thesis
    proof cases
      case closed
      then show ?thesis using cuenta_quiet [OF c1, of "?x (Inr (NoVigente, None))"]
        by (simp add: defs abrio_def fallo_def)
    next
      case wrong
      have mal: "cuenta e0 (e1\<lparr>et_fallos := et_fallos e1 + 1, et_estado := et_estado e1\<rparr>, l @ [?x (Inr (Mal k, None))])"
        if "et_fallos e1 + 1 < INTENTOS" for k
        by (rule cuenta_fallo [OF c1 wrong(1)]) (use that in \<open>auto simp: abrio_def fallo_def\<close>)
      have fin: "cuenta e0 (e1\<lparr>et_fallos := et_fallos e1 + 1, et_estado := Destruida m\<rparr>, l @ [?x (Inr (Agotada, None))])" for m
        by (rule cuenta_fallo [OF c1 wrong(1)]) (auto simp: abrio_def fallo_def viva_def)
      show ?thesis using wrong mal fin by (auto simp: defs destruye_def)
    next
      case first
      then show ?thesis
        using cuenta_primero [OF c1 first(1,4,2,5)] cuenta_quiet [OF c1, of "?x (Inl CannotStart)"]
        by (auto simp: defs abrio_def fallo_def split: option.split)
    next
      case again
      have other: "cuenta e0 (destruye m e1, l @ [?x (Inr (OtroDispositivo, None))])" for m
        by (rule cuenta_quiet [OF cuenta_solo [OF c1]])
           (auto simp: destruye_def abrio_def fallo_def intro: solo_estado_op)
      show ?thesis using again other cuenta_abrio [OF c1 again(4,2,5)]
        by (auto simp: defs)
    qed
  next
    case (Recibido i raiz n)
    note defs = anota_e_def s Recibido recibido_def get_at_def Let_def
    show ?thesis
    proof (cases "et_estado e = Abierta \<and> i < length (et_archivos e) \<and> raiz = fi_raiz (et_archivos e ! i)")
      case True
      then have ok: "et_estado e = Abierta" "i < length (et_archivos e)" by blast+
      define b where "b = (let a = et_archivos e ! i in if fi_recibido a = None then a\<lparr>fi_recibido := Some n\<rparr> else a)"
      have "fi_raiz b = fi_raiz (et_archivos e ! i)" by (simp add: b_def Let_def)
      from cuenta_recibido [OF c [unfolded s] ok this refl refl, of n] show ?thesis
        using True by (simp add: defs b_def cong: if_cong)
    next
      case False
      then show ?thesis using cuenta_quiet [OF c [unfolded s], of "(p, Dice False)"]
        by (auto simp: defs abrio_def fallo_def)
    qed
  qed (auto simp: anota_e_def s lista_def revoca_def destruye_def map_prod_def split_beta abrio_def fallo_def viva_def
         intro!: quiet solo_estado_op)
qed

interpretation entregas: guarded_machine anota_e "cuenta e0" for e0
  by unfold_locales (rule cuenta_step)

definition preparada :: "entrega \<Rightarrow> bool" where
  "preparada e \<longleftrightarrow> et_estado e = Preparando \<and> et_fallos e = 0 \<and> et_receptor e = None \<and>
     list_all (\<lambda>a. fi_recibido a = None) (et_archivos e)"

lemma nueva_preparada:
  "nueva_entrega ahora c d n azar draws = Inr e \<Longrightarrow> list_all (\<lambda>a. fi_recibido a = None) es \<Longrightarrow>
   preparada (e\<lparr>et_archivos := es\<rparr>)"
  by (auto simp: nueva_entrega_def preparada_def and_then_def split: option.splits sum.splits)

lemma vida_cuenta: "preparada e \<Longrightarrow> cuenta e (vida e ps)"
  unfolding vida_def
  by (rule entregas.inv_run)
     (auto simp: cuenta_def preparada_def abierta_por_def confirmada_def list_all_length INTENTOS_def uno_solo_def)

lemma vida_append: "vida e (ps @ qs) = foldl anota_e (vida e ps) qs"
  by (simp add: vida_def)

lemma closed_run:
  "\<not> viva (et_estado (fst s)) \<Longrightarrow>
   fst (foldl anota_e s ps) = fst s \<and> filter abrio (snd (foldl anota_e s ps)) = filter abrio (snd s)"
proof (induction ps arbitrary: s)
  case (Cons p ps)
  have "fst (anota_e s p) = fst s" "filter abrio (snd (anota_e s p)) = filter abrio (snd s)"
    using not_viva_closed [OF Cons.prems, of p] by (auto simp: anota_e_def abrio_def)
  then show ?case using Cons.IH [of "anota_e s p"] Cons.prems by auto
qed simp

text \<open>C23: whatever is asked of a delivery, in whatever order: every right answer was given to the
  right code and before the expiry; the first to open it got the token drawn then, and whoever
  opened it later showed that token; at most three codes are wrong, and the third
  closes it; closed, it stays as it is and opens no more; and it only counts as delivered when it
  was opened and every file was confirmed with the root of its own tree.\<close>

theorem delivery_opens_for_one:
  assumes "nueva_entrega ahora c d nombres azar draws = Inr e0"
    and "list_all (\<lambda>a. fi_recibido a = None) es"
    and "vida (e0\<lparr>et_archivos := es\<rparr>) ps = (e, l)"
  shows "(\<forall>x \<in> set l. abrio x \<longrightarrow>
      (\<exists>co t n a. x = (Intenta co t n a, Contesta (Inr (Bien, et_receptor e))) \<and>
         trim co = et_codigo e0 \<and> n < ahora + segundos c)) \<and>
    (filter abrio l \<noteq> [] \<longrightarrow> (\<exists>w. et_receptor e = Some w \<and> sortea w (hd (filter abrio l)) \<and>
       (\<forall>x \<in> set (tl (filter abrio l)). con_token w x))) \<and>
    length (filter fallo l) \<le> INTENTOS \<and>
    (length (filter fallo l) = INTENTOS \<longrightarrow> \<not> viva (et_estado e)) \<and>
    (\<not> viva (et_estado e) \<longrightarrow> (\<forall>qs. fst (vida (e0\<lparr>et_archivos := es\<rparr>) (ps @ qs)) = e \<and>
       filter abrio (snd (vida (e0\<lparr>et_archivos := es\<rparr>) (ps @ qs))) = filter abrio l)) \<and>
    (et_estado e = Entregada \<longrightarrow> (\<exists>x \<in> set l. abrio x) \<and>
       (\<forall>i < length es. \<exists>n. (Recibido i (fi_raiz (es ! i)) n, Dice True) \<in> set l))"
proof -
  let ?e0 = "e0\<lparr>et_archivos := es\<rparr>"
  have start: "et_vence e0 = ahora + segundos c"
    using assms(1) by (auto simp: nueva_entrega_def and_then_def split: option.splits sum.splits)
  have inv: "cuenta ?e0 (e, l)" using vida_cuenta [OF nueva_preparada [OF assms(1,2)]] assms(3) by metis
  have opened: "abierta_por (et_codigo e0) (ahora + segundos c) (et_receptor e) l"
    and confirmed: "confirmada (map fi_raiz es) (et_archivos e) l"
    using inv by (simp_all add: cuenta_def start)
  have closed: "fst (vida ?e0 (ps @ qs)) = e \<and> filter abrio (snd (vida ?e0 (ps @ qs))) = filter abrio l"
    if "\<not> viva (et_estado e)" for qs
    using closed_run [of "(e, l)" qs] that by (simp add: vida_append assms(3))
  have "\<exists>n. (Recibido i (fi_raiz (es ! i)) n, Dice True) \<in> set l"
    if "et_estado e = Entregada" "i < length es" for i
  proof -
    have len: "length (et_archivos e) = length es" using confirmed unfolding confirmada_def by (metis length_map)
    have "fi_recibido (et_archivos e ! i) \<noteq> None"
      using inv that len by (auto simp: cuenta_def list_all_length)
    then show ?thesis using confirmed that len by (auto simp: confirmada_def)
  qed
  moreover have "filter abrio l \<noteq> [] \<longrightarrow> (\<exists>w. et_receptor e = Some w \<and> sortea w (hd (filter abrio l)) \<and>
      (\<forall>x \<in> set (tl (filter abrio l)). con_token w x))"
    using opened by (auto simp: abierta_por_def uno_solo_def list_all_iff split: list.splits option.splits)
  ultimately show ?thesis using inv opened closed by (auto simp: abierta_por_def cuenta_def)
qed

definition entrega_ejemplo :: entrega where
  "entrega_ejemplo =
     \<lparr>et_id = to_hex [1], et_titulo = [], et_creada = 1000, et_caducidad = Horas 24, et_vence = 87400,
      et_codigo = ''1359'', et_fallos = 0, et_receptor = None, et_estado = Preparando, et_archivos = [],
      et_abierta = None, et_completa = None, et_nombres_en_recibo = True\<rparr>"

definition archivo_ejemplo :: ficha_archivo where
  "archivo_ejemplo = \<lparr>fi_nombre = ''a'', fi_bytes = 1, fi_trozos = 1, fi_sha256 = [], fi_raiz = ''bb'', fi_recibido = None\<rparr>"

lemma entrega_ejemplo_nueva:
  "nueva_entrega 1000 (Horas 24) 4 True (Some [1]) [[1, 3, 5, 9]] = Inr entrega_ejemplo"
proof -
  have "digit_char 1 = CHR ''1''" "digit_char 3 = CHR ''3''" "digit_char 5 = CHR ''5''" "digit_char 9 = CHR ''9''"
    by code_simp+
  then show ?thesis
    by (simp add: nueva_entrega_def and_then_def codigo_nuevo_def clamp_def DIGITOS_MIN_def DIGITOS_MAX_def
        codigo_bucle.simps segundos_def entrega_ejemplo_def)
qed

theorem delivery_opens_for_one_witness:
  "\<exists>e l. vida (entrega_ejemplo\<lparr>et_archivos := [archivo_ejemplo]\<rparr>)
     [Lista, Intenta ''1'' [] 1001 None, Intenta ''1359 '' [] 1002 (Some [7]), Recibido 0 ''bb'' 1003] = (e, l) \<and>
   et_estado e = Entregada \<and> length (filter fallo l) = 1 \<and> (\<exists>n. (Recibido 0 ''bb'' n, Dice True) \<in> set l) \<and>
   (\<exists>x \<in> set l. abrio x)"
proof -
  let ?ps = "[Lista, Intenta ''1'' [] 1001 None, Intenta ''1359 '' [] 1002 (Some [7]), Recibido 0 ''bb'' 1003]"
  have trims: "trim ''1'' = ''1''" "trim ''1359 '' = ''1359''" by code_simp+
  obtain e l where run: "vida (entrega_ejemplo\<lparr>et_archivos := [archivo_ejemplo]\<rparr>) ?ps = (e, l)"
    "et_estado e = Entregada" "length (filter fallo l) = 1"
    by (simp add: vida_def anota_e_def entrega_ejemplo_def archivo_ejemplo_def lista_def intenta_def tic_def
        viva_def Let_def trims INTENTOS_def recibido_def get_at_def fallo_def)
  from delivery_opens_for_one [OF entrega_ejemplo_nueva _ run(1)] run(2)
  have "(\<exists>x \<in> set l. abrio x) \<and> (\<exists>n. (Recibido 0 ''bb'' n, Dice True) \<in> set l)"
    by (simp add: archivo_ejemplo_def)
  with run show ?thesis by blast
qed

end
