(* ===== verification/Prueba.thy ===== *)
theory Prueba imports Rust_Text Secure begin

text \<open>
  The chain of evidence of a conversation and the signed file it leaves as:
  \<open>crates/secure/src/prueba.rs\<close>, with the level of an entry of \<open>monitor.rs\<close>. SHA-256, the JSON text
  of an entry's fields, base64 and Ed25519 are other crates': the record \<open>cripto\<close>. The chain
  is an instance of the interface \<open>hash_chain\<close>, over rows written with the hash before them.
\<close>

section \<open>Entries\<close>

datatype nivel = Info | Observada | Inusual | NoVerificable

text \<open>Its serde name.\<close>

fun nombre_nivel :: "nivel \<Rightarrow> string" where
  "nombre_nivel Info = ''info''"
| "nombre_nivel Observada = ''observada''"
| "nombre_nivel Inusual = ''inusual''"
| "nombre_nivel NoVerificable = ''no_verificable''"

record hecho =
  he_texto :: string
  he_proceso :: "string option"
  he_ruta :: "string option"
  he_sha256_exe :: "string option"
  he_evidencia :: "string option"

definition hecho_default :: hecho where
  "hecho_default = \<lparr>he_texto = [], he_proceso = None, he_ruta = None, he_sha256_exe = None, he_evidencia = None\<rparr>"

record registro = hecho +
  re_n :: nat
  re_cuando :: nat
  re_nivel :: nivel
  re_hash :: string

record cadena =
  ca_sesion :: string
  ca_inicio :: nat
  ca_registros :: "registro list"

record cripto =
  px_sha :: "bytes \<Rightarrow> bytes"
  px_json :: "nat \<times> nat \<times> nivel \<times> hecho \<Rightarrow> string"
  px_clave :: "string \<Rightarrow> bytes option"
  px_firma :: "string \<Rightarrow> bytes option"
  px_verifica :: "bytes \<Rightarrow> bytes \<Rightarrow> bytes \<Rightarrow> bool"

section \<open>The chain\<close>

definition DOMINIO_PRUEBA :: string where
  "DOMINIO_PRUEBA = ''GUARDIANA_SECURE_PRUEBA_V1''"

definition hash_registro :: "cripto \<Rightarrow> string \<Rightarrow> nat \<Rightarrow> nat \<Rightarrow> nivel \<Rightarrow> hecho \<Rightarrow> string" where
  "hash_registro x anterior n cuando nivel h =
     to_hex (px_sha x (str_bytes DOMINIO_PRUEBA @ str_bytes anterior @ str_bytes (px_json x (n, cuando, nivel, h))))"

definition cadena_new :: "string \<Rightarrow> nat \<Rightarrow> cadena" where
  "cadena_new sesion inicio = \<lparr>ca_sesion = sesion, ca_inicio = inicio, ca_registros = []\<rparr>"

definition comienzo :: "cadena \<Rightarrow> string" where
  "comienzo c = ca_sesion c @ '':'' @ decimal (ca_inicio c)"

definition ultimo_hash :: "cadena \<Rightarrow> string" where
  "ultimo_hash c = (if ca_registros c = [] then comienzo c else re_hash (last (ca_registros c)))"

definition anota_cadena :: "cripto \<Rightarrow> nat \<Rightarrow> nivel \<Rightarrow> hecho \<Rightarrow> cadena \<Rightarrow> cadena" where
  "anota_cadena x cuando nivel h c =
     (let n = length (ca_registros c) + 1;
          hash = hash_registro x (ultimo_hash c) n cuando nivel h
      in c\<lparr>ca_registros := ca_registros c @
           [hecho.extend h \<lparr>re_n = n, re_cuando = cuando, re_nivel = nivel, re_hash = hash\<rparr>]\<rparr>)"

text \<open>The fields of an entry that are hashed: \<open>Hecho {texto: r.texto.clone(), ...}\<close>.\<close>

fun comprueba_desde :: "cripto \<Rightarrow> string \<Rightarrow> nat \<Rightarrow> registro list \<Rightarrow> secure_error + unit" where
  "comprueba_desde x anterior i [] = Inr ()"
| "comprueba_desde x anterior i (r # rs) =
     (if re_n r \<noteq> i + 1 \<or>
         hash_registro x anterior (i + 1) (re_cuando r) (re_nivel r) (hecho.truncate r) \<noteq> re_hash r
      then Inl CannotOpen
      else comprueba_desde x (re_hash r) (i + 1) rs)"

definition comprueba_cadena :: "cripto \<Rightarrow> cadena \<Rightarrow> secure_error + unit" where
  "comprueba_cadena x c = comprueba_desde x (comienzo c) 0 (ca_registros c)"

section \<open>The texts\<close>

definition csv_campo :: "string \<Rightarrow> string" where
  "csv_campo s =
     (if list_ex (\<lambda>c. c \<in> {CHR '','', CHR 0x22, CHR 0x0A, CHR 0x0D}) s
      then CHR 0x22 # concat (map (\<lambda>c. if c = CHR 0x22 then [c, c] else [c]) s) @ [CHR 0x22]
      else s)"

definition csv_opcion :: "string option \<Rightarrow> string" where
  "csv_opcion s = csv_campo (case s of None \<Rightarrow> [] | Some t \<Rightarrow> t)"

definition to_csv :: "cadena \<Rightarrow> string" where
  "to_csv c =
     ''n,cuando,nivel,texto,proceso,ruta,sha256_exe,evidencia,hash'' @ [CHR 0x0A] @
     concat (map (\<lambda>r. decimal (re_n r) @ '','' @ decimal (re_cuando r) @ '','' @ nombre_nivel (re_nivel r) @
       '','' @ csv_campo (he_texto r) @ '','' @ csv_opcion (he_proceso r) @ '','' @ csv_opcion (he_ruta r) @
       '','' @ csv_opcion (he_sha256_exe r) @ '','' @ csv_opcion (he_evidencia r) @ '','' @ re_hash r @
       [CHR 0x0A]) (ca_registros c))"

section \<open>The signed file\<close>

record prueba =
  pr_version :: nat
  pr_programa :: string
  pr_cadena :: cadena
  pr_firmada_en :: nat
  pr_registros :: nat
  pr_hash_final :: string
  pr_firmante :: string
  pr_firma :: string

definition transcript :: "prueba \<Rightarrow> string" where
  "transcript p =
     DOMINIO_PRUEBA @ ''|'' @ decimal (pr_version p) @ ''|'' @ pr_programa p @ ''|'' @
     ca_sesion (pr_cadena p) @ ''|'' @ decimal (ca_inicio (pr_cadena p)) @ ''|'' @
     decimal (pr_firmada_en p) @ ''|'' @ decimal (pr_registros p) @ ''|'' @ pr_hash_final p"

text \<open>The identity is its public key and its signature, both as base64 texts.\<close>

definition firmar :: "string \<Rightarrow> (bytes \<Rightarrow> string) \<Rightarrow> cadena \<Rightarrow> string \<Rightarrow> nat \<Rightarrow> prueba" where
  "firmar clave firma c programa ahora =
     (let p = \<lparr>pr_version = 1, pr_programa = programa, pr_cadena = c, pr_firmada_en = ahora,
               pr_registros = length (ca_registros c), pr_hash_final = ultimo_hash c,
               pr_firmante = clave, pr_firma = []\<rparr>
      in p\<lparr>pr_firma := firma (str_bytes (transcript p))\<rparr>)"

definition verificar :: "cripto \<Rightarrow> prueba \<Rightarrow> secure_error + bytes" where
  "verificar x p =
     and_then (comprueba_cadena x (pr_cadena p)) (\<lambda>_.
       if pr_registros p \<noteq> length (ca_registros (pr_cadena p)) \<or>
          pr_hash_final p \<noteq> ultimo_hash (pr_cadena p) then Inl CannotOpen
       else
         case px_clave x (pr_firmante p) of
           None \<Rightarrow> Inl CannotOpen
         | Some clave \<Rightarrow>
             (case px_firma x (pr_firma p) of
                None \<Rightarrow> Inl CannotOpen
              | Some firma \<Rightarrow>
                  if px_verifica x clave (str_bytes (transcript p)) firma then Inr clave
                  else Inl CannotOpen))"

section \<open>What is written verifies\<close>

lemma comprueba_desde_append:
  "comprueba_desde x a i (rs @ [r]) = Inr () \<longleftrightarrow>
   comprueba_desde x a i rs = Inr () \<and> re_n r = i + length rs + 1 \<and>
   re_hash r = hash_registro x (tip re_hash a rs) (i + length rs + 1) (re_cuando r) (re_nivel r) (hecho.truncate r)"
  by (induction rs arbitrary: a i) auto

lemma ultimo_hash_tip: "ultimo_hash c = tip re_hash (comienzo c) (ca_registros c)"
  by (simp add: ultimo_hash_def tip_last)

lemma comienzo_anota [simp]: "comienzo (anota_cadena x t n h c) = comienzo c"
  by (simp add: comienzo_def anota_cadena_def Let_def)

lemma truncate_extend [simp]: "hecho.truncate (hecho.extend h m) = h"
  by (cases h) (simp add: hecho.defs)

lemma extend_sel [simp]:
  "re_n (hecho.extend h \<lparr>re_n = n, re_cuando = t, re_nivel = v, re_hash = g\<rparr>) = n"
  "re_cuando (hecho.extend h \<lparr>re_n = n, re_cuando = t, re_nivel = v, re_hash = g\<rparr>) = t"
  "re_nivel (hecho.extend h \<lparr>re_n = n, re_cuando = t, re_nivel = v, re_hash = g\<rparr>) = v"
  "re_hash (hecho.extend h \<lparr>re_n = n, re_cuando = t, re_nivel = v, re_hash = g\<rparr>) = g"
  by (simp_all add: hecho.defs)

lemma cadena_new_comprueba [simp]: "comprueba_cadena x (cadena_new s t) = Inr ()"
  by (simp add: comprueba_cadena_def cadena_new_def)

lemma anota_comprueba:
  "comprueba_cadena x c = Inr () \<Longrightarrow> comprueba_cadena x (anota_cadena x t v h c) = Inr ()"
  by (simp add: comprueba_cadena_def)
     (simp add: anota_cadena_def Let_def comprueba_desde_append ultimo_hash_tip comienzo_def)

interpretation evidencia: guarded_machine "\<lambda>c (t, v, h). anota_cadena x t v h c" "\<lambda>c. comprueba_cadena x c = Inr ()" for x
  by unfold_locales (auto intro: anota_comprueba)

lemma firmar_verificar:
  assumes "comprueba_cadena x c = Inr ()"
    and "\<forall>m. \<exists>f. px_firma x (firma m) = Some f \<and> px_verifica x k m f" "px_clave x clave = Some k"
  shows "verificar x (firmar clave firma c programa ahora) = Inr k"
proof -
  define p where "p = \<lparr>pr_version = 1, pr_programa = programa, pr_cadena = c, pr_firmada_en = ahora,
               pr_registros = length (ca_registros c), pr_hash_final = ultimo_hash c,
               pr_firmante = clave, pr_firma = []\<rparr>"
  have t: "transcript (p\<lparr>pr_firma := f\<rparr>) = transcript p" for f by (simp add: transcript_def)
  have f: "firmar clave firma c programa ahora = p\<lparr>pr_firma := firma (str_bytes (transcript p))\<rparr>"
    by (simp only: firmar_def Let_def p_def)
  have p: "pr_cadena p = c" "pr_registros p = length (ca_registros c)" "pr_hash_final p = ultimo_hash c"
    "pr_firmante p = clave" by (simp_all add: p_def)
  from assms(2) obtain g where "px_firma x (firma (str_bytes (transcript p))) = Some g"
    "px_verifica x k (str_bytes (transcript p)) g" by blast
  with assms(1,3) show ?thesis by (simp add: f verificar_def and_then_def t p)
qed

section \<open>What verifies is what was signed\<close>

text \<open>The rows with the hash before them, and the bytes hashed for each.\<close>

fun con_previos :: "string \<Rightarrow> registro list \<Rightarrow> (string \<times> registro) list" where
  "con_previos a [] = []"
| "con_previos a (r # rs) = (a, r) # con_previos (re_hash r) rs"

definition entrada :: "cripto \<Rightarrow> string \<Rightarrow> string \<times> registro \<Rightarrow> bytes" where
  "entrada x a r = str_bytes DOMINIO_PRUEBA @ str_bytes a @
     str_bytes (px_json x (re_n (snd r), re_cuando (snd r), re_nivel (snd r), hecho.truncate (snd r)))"

definition entradas :: "cripto \<Rightarrow> cadena \<Rightarrow> bytes set" where
  "entradas x c = (\<lambda>r. entrada x (fst r) r) ` set (con_previos (comienzo c) (ca_registros c))"

definition cripto_ok :: "cripto \<Rightarrow> bool" where
  "cripto_ok x \<longleftrightarrow> inj (px_json x) \<and> (\<forall>b. length (px_sha x b) = 32)"

lemma entrada_inj:
  assumes "cripto_ok x" "length a = 64" "length b = 64" "entrada x a r = entrada x b q"
  shows "a = b \<and> (re_n (snd r), re_cuando (snd r), re_nivel (snd r), hecho.truncate (snd r)) =
    (re_n (snd q), re_cuando (snd q), re_nivel (snd q), hecho.truncate (snd q))"
  using assms(4) assms(2,3)
  by (simp add: entrada_def) (metis (no_types, lifting) assms(1) cripto_ok_def injD prod.inject)

interpretation evidencia_chain:
  hash_chain fst "\<lambda>r. re_hash (snd r)" "entrada x" "\<lambda>b. to_hex (px_sha x b)"
    "\<lambda>r. (re_n (snd r), re_cuando (snd r), re_nivel (snd r), hecho.truncate (snd r))"
    "\<lambda>a r. cripto_ok x \<and> length a = 64" for x
  by unfold_locales (blast dest: entrada_inj)

lemma comprueba_linked:
  "comprueba_desde x a i rs = Inr () \<Longrightarrow>
   linked fst (\<lambda>r. re_hash (snd r)) (\<lambda>h r. to_hex (px_sha x (entrada x h r))) a (con_previos a rs)"
  by (induction rs arbitrary: a i) (auto simp: hash_registro_def entrada_def split: if_splits)

lemma entradas_con_previos:
  "(\<lambda>r. entrada x (fst r) r) ` set (con_previos (comienzo c) (ca_registros c)) = entradas x c"
  by (simp add: entradas_def)

lemma con_previos_map: "map snd (con_previos a rs) = rs"
  by (induction rs arbitrary: a) auto

lemma con_previos_tip: "tip (\<lambda>r. re_hash (snd r)) a (con_previos a rs) = tip re_hash a rs"
  by (induction rs arbitrary: a) auto

lemma con_previos_len:
  "comprueba_desde x a i rs = Inr () \<Longrightarrow> cripto_ok x \<Longrightarrow> length a = 64 \<Longrightarrow>
   \<forall>r \<in> set (con_previos a rs). length (fst r) = 64"
proof (induction rs arbitrary: a i)
  case (Cons r rs)
  from Cons.prems(1) have r: "re_hash r = hash_registro x a (i + 1) (re_cuando r) (re_nivel r) (hecho.truncate r)"
    "comprueba_desde x (re_hash r) (i + 1) rs = Inr ()" by (simp_all split: if_splits)
  then have "length (re_hash r) = 64" using Cons.prems(2) by (simp add: hash_registro_def cripto_ok_def)
  from Cons.IH [OF r(2) Cons.prems(2) this] Cons.prems(3) show ?case by simp
qed simp

lemma registro_eqI:
  "(re_n r, re_cuando r, re_nivel r, hecho.truncate r) = (re_n q, re_cuando q, re_nivel q, hecho.truncate q) \<Longrightarrow>
   re_hash r = re_hash q \<Longrightarrow> (r :: registro) = q"
  by (cases r; cases q) (simp add: hecho.defs)

text \<open>From the same place, two verified stretches of one length with one end are the same.\<close>

lemma same_stretch:
  assumes "comprueba_desde x a i rs = Inr ()" "comprueba_desde x b i qs = Inr ()"
    "cripto_ok x" "length a = 64" "length b = 64" "length rs = length qs"
    "tip re_hash a rs = tip re_hash b qs"
  shows "collides (\<lambda>b. to_hex (px_sha x b)) ((\<lambda>r. entrada x (fst r) r) ` set (con_previos a rs))
      ((\<lambda>r. entrada x (fst r) r) ` set (con_previos b qs)) \<or> a = b \<and> rs = qs"
proof -
  have len: "length (con_previos a rs) = length (con_previos b qs)"
    by (metis assms(6) con_previos_map length_map)
  have ok: "\<forall>r \<in> set (con_previos a rs). cripto_ok x \<and> length (fst r) = 64"
    "\<forall>r \<in> set (con_previos b qs). cripto_ok x \<and> length (fst r) = 64"
    using con_previos_len [OF assms(1,3,4)] con_previos_len [OF assms(2,3,5)] assms(3) by blast+
  have "map snd (con_previos a rs) = map snd (con_previos b qs)"
    if "map (\<lambda>r. (fst r, (re_n (snd r), re_cuando (snd r), re_nivel (snd r), hecho.truncate (snd r)), re_hash (snd r)))
          (con_previos a rs) =
        map (\<lambda>r. (fst r, (re_n (snd r), re_cuando (snd r), re_nivel (snd r), hecho.truncate (snd r)), re_hash (snd r)))
          (con_previos b qs)"
    using that len by (auto simp: list_eq_iff_nth_eq intro!: registro_eqI)
  then show ?thesis
    using evidencia_chain.same_tip_same_rows [OF comprueba_linked [OF assms(1)] comprueba_linked [OF assms(2)] len _ ok]
      assms(7) by (auto simp: con_previos_tip con_previos_map)
qed

text \<open>Two verified chains from the same beginning.\<close>

lemma same_chain:
  assumes "comprueba_cadena x c = Inr ()" "comprueba_cadena x d = Inr ()" "cripto_ok x"
    "comienzo c = comienzo d" "length (ca_registros c) = length (ca_registros d)"
    "ultimo_hash c = ultimo_hash d"
  shows "collides (\<lambda>b. to_hex (px_sha x b)) (entradas x c) (entradas x d) \<or> ca_registros c = ca_registros d"
proof (cases "ca_registros c")
  case Nil
  then show ?thesis using assms(5) by simp
next
  case (Cons r rs)
  then obtain q qs where d: "ca_registros d = q # qs" using assms(5) by (cases "ca_registros d") auto
  let ?a = "comienzo c"
  have r: "re_n r = 1" "re_hash r = to_hex (px_sha x (entrada x ?a (?a, r)))" "comprueba_desde x (re_hash r) 1 rs = Inr ()"
    using assms(1) by (auto simp: comprueba_cadena_def Cons hash_registro_def entrada_def split: if_splits)
  have q: "re_n q = 1" "re_hash q = to_hex (px_sha x (entrada x ?a (?a, q)))" "comprueba_desde x (re_hash q) 1 qs = Inr ()"
    using assms(2,4) by (auto simp: comprueba_cadena_def d hash_registro_def entrada_def split: if_splits)
  have "length (re_hash r) = 64" "length (re_hash q) = 64" using r(2) q(2) assms(3) by (simp_all add: cripto_ok_def)
  from same_stretch [OF r(3) q(3) assms(3) this] assms(5,6)
  consider (coll) "collides (\<lambda>b. to_hex (px_sha x b)) ((\<lambda>r. entrada x (fst r) r) ` set (con_previos (re_hash r) rs))
        ((\<lambda>r. entrada x (fst r) r) ` set (con_previos (re_hash q) qs))"
    | (same) "re_hash r = re_hash q" "rs = qs"
    by (auto simp: ultimo_hash_tip Cons d)
  then show ?thesis
  proof cases
    case coll
    then have "collides (\<lambda>b. to_hex (px_sha x b)) (entradas x c) (entradas x d)"
      by (rule collides_mono) (auto simp: entradas_def Cons d)
    then show ?thesis ..
  next
    case same
    have in1: "entrada x ?a (?a, r) \<in> entradas x c" "entrada x ?a (?a, q) \<in> entradas x d"
      by (auto simp: entradas_def Cons d assms(4))
    show ?thesis
    proof (cases "entrada x ?a (?a, r) = entrada x ?a (?a, q)")
      case True
      then have "(re_n r, re_cuando r, re_nivel r, hecho.truncate r) = (re_n q, re_cuando q, re_nivel q, hecho.truncate q)"
        using assms(3) by (auto simp: entrada_def cripto_ok_def dest: injD)
      then have "r = q" using same(1) by (rule registro_eqI)
      then show ?thesis using same by (simp add: Cons d)
    next
      case False
      then show ?thesis using in1 same(1) r(2) q(2) unfolding collides_def by metis
    qed
  qed
qed

definition campos_firmados :: "prueba \<Rightarrow> string list" where
  "campos_firmados p =
     [DOMINIO_PRUEBA, decimal (pr_version p), pr_programa p, ca_sesion (pr_cadena p), decimal (ca_inicio (pr_cadena p)),
      decimal (pr_firmada_en p), decimal (pr_registros p), pr_hash_final p]"

lemma transcript_unir: "transcript p = unir (CHR ''|'') (campos_firmados p)"
  by (simp add: transcript_def campos_firmados_def)

lemma decimal_no_bar [simp]: "CHR ''|'' \<notin> set (decimal n)"
  using decimal_digits [of "CHR ''|''" n] by (auto simp: is_ascii_digit_def)

lemma to_hex_no_bar: "CHR ''|'' \<notin> set (to_hex b)"
proof
  assume "CHR ''|'' \<in> set (to_hex b)"
  then obtain x where "CHR ''|'' \<in> set (hex_byte x)" by (auto simp: to_hex_def)
  then have "CHR ''|'' = hex_digit (unat x div 16) \<or> CHR ''|'' = hex_digit (unat x mod 16)"
    by (auto simp: hex_byte_def)
  moreover have "unat x div 16 < 16" using unat_byte_lt [of x] by simp
  moreover have "unat x mod 16 < 16" by (rule mod_less_divisor) simp
  ultimately obtain d where "d < 16" "CHR ''|'' = hex_digit d" by blast
  then have "hex_val (CHR ''|'') = Some d" by (metis hex_digit_val)
  then show False by (simp add: hex_val_def is_ascii_digit_def)
qed

lemma ultimo_hash_no_bar:
  assumes "comprueba_cadena x c = Inr ()" "CHR ''|'' \<notin> set (ca_sesion c)"
  shows "CHR ''|'' \<notin> set (ultimo_hash c)"
proof (cases "ca_registros c" rule: rev_cases)
  case (snoc rs r)
  with assms(1) show ?thesis
    by (simp add: comprueba_cadena_def comprueba_desde_append ultimo_hash_def hash_registro_def to_hex_no_bar)
qed (use assms(2) in \<open>simp add: ultimo_hash_def comienzo_def\<close>)

lemma verificar_ok:
  "verificar x p = Inr k \<Longrightarrow>
   comprueba_cadena x (pr_cadena p) = Inr () \<and> pr_registros p = length (ca_registros (pr_cadena p)) \<and>
   pr_hash_final p = ultimo_hash (pr_cadena p)"
  by (auto simp: verificar_def and_then_def split: sum.splits if_splits)

text \<open>C32: a signed record of a conversation stands for one history. Two files that verify and carry
  one signed text (the first of them written for a session and a program whose names hold no bar,
  the other one anything) hold the same session, the same entries with the same texts, times and
  order, and were signed at the same moment, or two of the inputs hashed for them collide.\<close>

theorem signed_record_is_one_history:
  assumes "cripto_ok x" "verificar x p = Inr k" "verificar x q = Inr k'" "transcript p = transcript q"
    and "CHR ''|'' \<notin> set (pr_programa p)" "CHR ''|'' \<notin> set (ca_sesion (pr_cadena p))"
  shows "collides (px_sha x) (entradas x (pr_cadena p)) (entradas x (pr_cadena q)) \<or>
    pr_cadena p = pr_cadena q \<and> pr_programa p = pr_programa q \<and> pr_firmada_en p = pr_firmada_en q"
proof -
  note p = verificar_ok [OF assms(2)] and q = verificar_ok [OF assms(3)]
  have "CHR ''|'' \<notin> set DOMINIO_PRUEBA" by (simp add: DOMINIO_PRUEBA_def)
  then have "\<forall>s \<in> set (campos_firmados p). CHR ''|'' \<notin> set s"
    using ultimo_hash_no_bar [of x "pr_cadena p"] p assms(5,6) by (simp add: campos_firmados_def)
  then have "campos_firmados p = campos_firmados q"
    using unir_inj [of "campos_firmados p" "campos_firmados q" "CHR ''|''"] assms(4)
    by (simp add: transcript_unir) (simp add: campos_firmados_def)
  then have same: "pr_programa p = pr_programa q" "ca_sesion (pr_cadena p) = ca_sesion (pr_cadena q)"
    "ca_inicio (pr_cadena p) = ca_inicio (pr_cadena q)" "pr_firmada_en p = pr_firmada_en q"
    "pr_registros p = pr_registros q" "pr_hash_final p = pr_hash_final q"
    by (auto simp: campos_firmados_def dest: decimal_inj)
  have "collides (\<lambda>b. to_hex (px_sha x b)) A B \<Longrightarrow> collides (px_sha x) A B" for A B
    using assms(1) by (auto simp: collides_def cripto_ok_def to_hex_inj)
  then have "collides (px_sha x) (entradas x (pr_cadena p)) (entradas x (pr_cadena q)) \<or>
      ca_registros (pr_cadena p) = ca_registros (pr_cadena q)"
    using same_chain [of x "pr_cadena p" "pr_cadena q"] p q same assms(1) by (auto simp: comienzo_def)
  then show ?thesis using same by (auto intro: cadena.equality)
qed

text \<open>A text for the witness: every field with its length before it.\<close>

definition campo_medido :: "string \<Rightarrow> string" where
  "campo_medido s = decimal (length s) @ CHR '':'' # s"

lemma campo_medido_cancel: "campo_medido s @ r = campo_medido t @ u \<Longrightarrow> s = t \<and> r = u"
proof -
  assume eq: "campo_medido s @ r = campo_medido t @ u"
  have "CHR '':'' \<notin> set (decimal n)" for n using decimal_digits [of "CHR '':''" n] by (auto simp: is_ascii_digit_def)
  then have "decimal (length s) = decimal (length t) \<and> s @ r = t @ u"
    using eq first_mark [of "CHR '':''" "decimal (length s)" "decimal (length t)" "s @ r" "t @ u"]
    by (simp add: campo_medido_def)
  then show ?thesis by (auto dest: decimal_inj)
qed

interpretation medidos: prefix_code campo_medido "\<lambda>_. True"
  by unfold_locales (blast dest: campo_medido_cancel, simp add: campo_medido_def)

definition opcion_texto :: "string option \<Rightarrow> string" where
  "opcion_texto s = (case s of None \<Rightarrow> [] | Some t \<Rightarrow> CHR ''s'' # t)"

definition json_ejemplo :: "nat \<times> nat \<times> nivel \<times> hecho \<Rightarrow> string" where
  "json_ejemplo = (\<lambda>(n, t, v, h). concat (map campo_medido
     [decimal n, decimal t, nombre_nivel v, he_texto h, opcion_texto (he_proceso h), opcion_texto (he_ruta h),
      opcion_texto (he_sha256_exe h), opcion_texto (he_evidencia h)]))"

lemma nombre_nivel_inj: "nombre_nivel a = nombre_nivel b \<Longrightarrow> a = b"
  by (cases a; cases b) simp_all

lemma opcion_texto_inj: "opcion_texto a = opcion_texto b \<longleftrightarrow> a = b"
  by (auto simp: opcion_texto_def split: option.splits)

lemma json_ejemplo_inj: "inj json_ejemplo"
proof (rule injI)
  fix a b assume eq: "json_ejemplo a = json_ejemplo b"
  obtain n t v h where a: "a = (n, t, v, h)" by (cases a) auto
  obtain m u w g where b: "b = (m, u, w, g)" by (cases b) auto
  let ?f = "\<lambda>n t v h. [decimal n, decimal t, nombre_nivel v, he_texto h, opcion_texto (he_proceso h),
    opcion_texto (he_ruta h), opcion_texto (he_sha256_exe h), opcion_texto (he_evidencia h)]"
  have "?f n t v h = ?f m u w g"
    using medidos.concat_cancel [of "?f n t v h" "?f m u w g" "[]" "[]"] eq by (simp add: json_ejemplo_def a b)
  then show "a = b" by (auto simp: a b opcion_texto_inj dest: decimal_inj nombre_nivel_inj intro: hecho.equality)
qed

definition cripto_ejemplo :: cripto where
  "cripto_ejemplo = \<lparr>px_sha = (\<lambda>b. be_bytes 32 (length b)), px_json = json_ejemplo, px_clave = (\<lambda>s. Some (str_bytes s)),
     px_firma = (\<lambda>s. Some (str_bytes s)), px_verifica = (\<lambda>k m f. f = k \<or> f = [0])\<rparr>"

definition prueba_ejemplo :: prueba where
  "prueba_ejemplo = firmar ''k'' (\<lambda>m. ''k'')
     (anota_cadena cripto_ejemplo 5 Observada (hecho_default\<lparr>he_texto := ''mic''\<rparr>) (cadena_new ''s'' 1)) ''1.0'' 9"

theorem signed_record_is_one_history_witness:
  "verificar cripto_ejemplo prueba_ejemplo = Inr (str_bytes ''k'') \<and>
   (collides (px_sha cripto_ejemplo) (entradas cripto_ejemplo (pr_cadena prueba_ejemplo))
      (entradas cripto_ejemplo (pr_cadena (prueba_ejemplo\<lparr>pr_firma := [CHR 0x00]\<rparr>))) \<or>
    pr_cadena prueba_ejemplo = pr_cadena (prueba_ejemplo\<lparr>pr_firma := [CHR 0x00]\<rparr>) \<and>
    pr_programa prueba_ejemplo = pr_programa (prueba_ejemplo\<lparr>pr_firma := [CHR 0x00]\<rparr>) \<and>
    pr_firmada_en prueba_ejemplo = pr_firmada_en (prueba_ejemplo\<lparr>pr_firma := [CHR 0x00]\<rparr>))"
proof -
  have x: "cripto_ok cripto_ejemplo" using json_ejemplo_inj by (simp add: cripto_ok_def cripto_ejemplo_def)
  have v: "verificar cripto_ejemplo prueba_ejemplo = Inr (str_bytes ''k'')"
    unfolding prueba_ejemplo_def
    by (rule firmar_verificar) (simp_all add: anota_comprueba, simp_all add: cripto_ejemplo_def)
  have t: "transcript prueba_ejemplo = transcript (prueba_ejemplo\<lparr>pr_firma := [CHR 0x00]\<rparr>)"
    by (simp add: transcript_def)
  then have w: "verificar cripto_ejemplo (prueba_ejemplo\<lparr>pr_firma := [CHR 0x00]\<rparr>) = Inr (str_bytes ''k'')"
    using v by (auto simp: verificar_def and_then_def cripto_ejemplo_def str_bytes_def split: sum.splits if_splits)
  have "CHR ''|'' \<notin> set (pr_programa prueba_ejemplo)" "CHR ''|'' \<notin> set (ca_sesion (pr_cadena prueba_ejemplo))"
    by (simp_all add: prueba_ejemplo_def firmar_def Let_def anota_cadena_def cadena_new_def)
  from signed_record_is_one_history [OF x v w t this] v show ?thesis by blast
qed

end
