(* ===== verification/Pausa.thy ===== *)
theory Pausa imports Prueba begin

text \<open>
  The automatic stop of a conversation, \<open>crates/secure/src/pausa.rs\<close>, over what the screen shows,
  \<open>monitor.rs\<close>, and the chain of evidence. The state is the session, the screen and the chain; a
  step is one call of the watch, of the person or of the short-code check. The transport figures
  of the screen are only carried and are left out. A literal with an accent is written out in
  UTF-8.
\<close>

section \<open>The screen\<close>

record suceso_pantalla =
  sp_cuando :: nat
  sp_nivel :: nivel
  sp_texto :: string

record identidad_pantalla =
  ip_nombre :: string
  ip_huella :: string
  ip_propia :: string
  ip_contacto :: string
  ip_verificado_en :: nat
  ip_estado :: string

record cifrado =
  ci_algoritmo :: string
  ci_enviados :: nat
  ci_recibidos :: nat
  ci_ultimo :: "nat option"
  ci_sframe :: "bool option"

record monitor =
  mo_identidad :: "identidad_pantalla option"
  mo_cifrado :: cifrado
  mo_vigilancia :: "suceso_pantalla list"
  mo_historico :: "suceso_pantalla list"

definition HISTORICO :: nat where "HISTORICO = 50"

definition monitor_new :: monitor where
  "monitor_new =
     \<lparr>mo_identidad = None,
      mo_cifrado = \<lparr>ci_algoritmo = ''Olm '' @ [CHR 0xC2, CHR 0xB7] @ '' doble trinquete (vodozemac)'',
        ci_enviados = 0, ci_recibidos = 0, ci_ultimo = None, ci_sframe = None\<rparr>,
      mo_vigilancia = [], mo_historico = []\<rparr>"

text \<open>\<open>drain(..sobra)\<close> and \<open>pop_front\<close> until the limit: the newest ones stay.\<close>

definition ultimos :: "nat \<Rightarrow> 'a list \<Rightarrow> 'a list" where
  "ultimos n xs = drop (length xs - n) xs"

definition anota_monitor :: "nat \<Rightarrow> nivel \<Rightarrow> string \<Rightarrow> monitor \<Rightarrow> monitor" where
  "anota_monitor cuando nivel texto m =
     (let s = \<lparr>sp_cuando = cuando, sp_nivel = nivel, sp_texto = texto\<rparr>;
          m = (if nivel \<noteq> Info then m\<lparr>mo_vigilancia := ultimos 200 (mo_vigilancia m @ [s])\<rparr> else m)
      in m\<lparr>mo_historico := ultimos HISTORICO (mo_historico m @ [s])\<rparr>)"

definition enviado :: "nat \<Rightarrow> monitor \<Rightarrow> monitor" where
  "enviado cuando m = m\<lparr>mo_cifrado := (mo_cifrado m)\<lparr>ci_enviados := ci_enviados (mo_cifrado m) + 1, ci_ultimo := Some cuando\<rparr>\<rparr>"

definition recibido_monitor :: "nat \<Rightarrow> monitor \<Rightarrow> monitor" where
  "recibido_monitor cuando m = m\<lparr>mo_cifrado := (mo_cifrado m)\<lparr>ci_recibidos := ci_recibidos (mo_cifrado m) + 1, ci_ultimo := Some cuando\<rparr>\<rparr>"

section \<open>The stop\<close>

datatype motivo =
  Observado string "string option" | MotivoInusual string | ClaveCambiada string

record pausa =
  pa_motivo :: motivo
  pa_desde :: nat
  pa_pendiente :: "string list"
  pa_puede_reanudar :: bool
  pa_comprueba_cada_s :: nat
  pa_cuenta_atras_s :: nat

datatype sesion = EnMarcha | Pausada pausa

definition COMPRUEBA_CADA_S :: nat where "COMPRUEBA_CADA_S = 2"
definition CUENTA_ATRAS_S :: nat where "CUENTA_ATRAS_S = 3"

text \<open>What every operation is given: the session, the screen and the chain.\<close>

record estado_sesion =
  se_sesion :: sesion
  se_monitor :: monitor
  se_cadena :: cadena

text \<open>The two notes of every stop and resumption.\<close>

definition apunta :: "cripto \<Rightarrow> nat \<Rightarrow> nivel \<Rightarrow> string \<Rightarrow> string option \<Rightarrow> estado_sesion \<Rightarrow> estado_sesion" where
  "apunta x ahora nivel texto proceso e =
     e\<lparr>se_monitor := anota_monitor ahora nivel texto (se_monitor e),
       se_cadena := anota_cadena x ahora nivel (hecho_default\<lparr>he_texto := texto, he_proceso := proceso\<rparr>) (se_cadena e)\<rparr>"

fun motivo_nota :: "motivo \<Rightarrow> nivel \<times> string \<times> string option" where
  "motivo_nota (Observado texto proceso) = (Observada, texto, proceso)"
| "motivo_nota (MotivoInusual texto) = (Inusual, texto, None)"
| "motivo_nota (ClaveCambiada nombre) = (Inusual, ''clave cambiada: '' @ nombre, None)"

definition PARADA :: string where
  "PARADA = ''parada autom'' @ [CHR 0xC3, CHR 0xA1] @ ''tica: ''"

definition parar :: "cripto \<Rightarrow> motivo \<Rightarrow> nat \<Rightarrow> estado_sesion \<Rightarrow> estado_sesion" where
  "parar x m ahora e0 =
     (let (nivel, texto, proceso) = motivo_nota m;
          e = apunta x ahora nivel (PARADA @ texto) proceso e0
      in case se_sesion e of
           Pausada _ \<Rightarrow> e
         | EnMarcha \<Rightarrow>
             e\<lparr>se_sesion := Pausada
                 \<lparr>pa_motivo = m, pa_desde = ahora, pa_pendiente = [texto],
                  pa_puede_reanudar = (case m of Observado _ _ \<Rightarrow> True | _ \<Rightarrow> False),
                  pa_comprueba_cada_s = COMPRUEBA_CADA_S, pa_cuenta_atras_s = CUENTA_ATRAS_S\<rparr>\<rparr>)"

definition es_clave :: "motivo \<Rightarrow> bool" where
  "es_clave m = (case m of ClaveCambiada _ \<Rightarrow> True | _ \<Rightarrow> False)"

definition comprobada :: "string list \<Rightarrow> estado_sesion \<Rightarrow> estado_sesion" where
  "comprobada pendiente e =
     (case se_sesion e of
        Pausada p \<Rightarrow>
          if \<not> es_clave (pa_motivo p) then e\<lparr>se_sesion := Pausada (p\<lparr>pa_pendiente := pendiente\<rparr>)\<rparr> else e
      | EnMarcha \<Rightarrow> e)"

definition lista_para_reanudar :: "sesion \<Rightarrow> bool" where
  "lista_para_reanudar s = (case s of Pausada p \<Rightarrow> pa_pendiente p = [] | EnMarcha \<Rightarrow> False)"

definition sigue :: "cripto \<Rightarrow> nat \<Rightarrow> string \<Rightarrow> estado_sesion \<Rightarrow> estado_sesion" where
  "sigue x ahora texto e = (apunta x ahora Info texto None e)\<lparr>se_sesion := EnMarcha\<rparr>"

definition reanudar :: "cripto \<Rightarrow> nat \<Rightarrow> estado_sesion \<Rightarrow> bool \<times> estado_sesion" where
  "reanudar x ahora e =
     (if \<not> lista_para_reanudar (se_sesion e) then (False, e)
      else (True, sigue x ahora (''reanudada: la causa desapareci'' @ [CHR 0xC3, CHR 0xB3]) e))"

definition reanudar_a_mano :: "cripto \<Rightarrow> nat \<Rightarrow> estado_sesion \<Rightarrow> bool \<times> estado_sesion" where
  "reanudar_a_mano x ahora e =
     (case se_sesion e of
        EnMarcha \<Rightarrow> (False, e)
      | Pausada p \<Rightarrow>
          if \<not> pa_puede_reanudar p then (False, e)
          else (True, sigue x ahora ''reanudada por la persona: dijo que el programa es suyo'' e))"

definition reverificada :: "cripto \<Rightarrow> nat \<Rightarrow> estado_sesion \<Rightarrow> bool \<times> estado_sesion" where
  "reverificada x ahora e =
     (case se_sesion e of
        EnMarcha \<Rightarrow> (False, e)
      | Pausada p \<Rightarrow>
          if \<not> es_clave (pa_motivo p) then (False, e)
          else (True, sigue x ahora ''reanudada: identidad verificada de nuevo'' e))"

definition en_marcha :: "sesion \<Rightarrow> bool" where
  "en_marcha s \<longleftrightarrow> s = EnMarcha"

section \<open>Steps\<close>

datatype paso_sesion =
  Para motivo nat | Comprueba "string list" | Reanuda nat | ReanudaAMano nat | Reverifica nat

inductive paso_de_sesion :: "cripto \<Rightarrow> estado_sesion \<Rightarrow> paso_sesion \<Rightarrow> estado_sesion \<Rightarrow> bool" for x where
  para: "paso_de_sesion x e (Para m n) (parar x m n e)"
| comprueba: "paso_de_sesion x e (Comprueba ps) (comprobada ps e)"
| reanuda: "paso_de_sesion x e (Reanuda n) (snd (reanudar x n e))"
| a_mano: "paso_de_sesion x e (ReanudaAMano n) (snd (reanudar_a_mano x n e))"
| reverifica: "paso_de_sesion x e (Reverifica n) (snd (reverificada x n e))"

inductive_cases paso_casos: "paso_de_sesion x e p e'"

inductive_simps paso_simps [simp]:
  "paso_de_sesion x e (Para m n) e'" "paso_de_sesion x e (Comprueba ps) e'" "paso_de_sesion x e (Reanuda n) e'"
  "paso_de_sesion x e (ReanudaAMano n) e'" "paso_de_sesion x e (Reverifica n) e'"

inductive pasos :: "cripto \<Rightarrow> estado_sesion \<Rightarrow> paso_sesion list \<Rightarrow> estado_sesion \<Rightarrow> bool" for x where
  nada: "pasos x e [] e"
| uno: "\<lbrakk>pasos x e ps e'; paso_de_sesion x e' p e''\<rbrakk> \<Longrightarrow> pasos x e (ps @ [p]) e''"

lemmas sesion_ops = parar_def comprobada_def reanudar_def reanudar_a_mano_def reverificada_def sigue_def apunta_def
  Let_def split_beta

section \<open>What holds\<close>

lemma length_ultimos [simp]: "length (ultimos n xs) = min n (length xs)"
  by (simp add: ultimos_def min_def)

text \<open>The chain verifies, the screen stays within its limits and a stop is what its motive says.\<close>

definition sesion_ok :: "sesion \<Rightarrow> bool" where
  "sesion_ok s =
     (case s of EnMarcha \<Rightarrow> True
      | Pausada p \<Rightarrow> (pa_puede_reanudar p \<longleftrightarrow> (\<exists>t pr. pa_motivo p = Observado t pr)) \<and>
          (es_clave (pa_motivo p) \<longrightarrow> pa_pendiente p \<noteq> []))"

definition estado_ok :: "cripto \<Rightarrow> estado_sesion \<Rightarrow> bool" where
  "estado_ok x e \<longleftrightarrow> sesion_ok (se_sesion e) \<and> comprueba_cadena x (se_cadena e) = Inr () \<and>
     length (mo_vigilancia (se_monitor e)) \<le> 200 \<and> length (mo_historico (se_monitor e)) \<le> HISTORICO"

lemma anota_monitor_bounds:
  "length (mo_vigilancia m) \<le> 200 \<Longrightarrow> length (mo_vigilancia (anota_monitor t v s m)) \<le> 200"
  "length (mo_historico (anota_monitor t v s m)) \<le> HISTORICO"
  by (simp_all add: anota_monitor_def Let_def)

lemma apunta_ok: "estado_ok x e \<Longrightarrow> estado_ok x (apunta x t v s p e)"
  by (simp add: estado_ok_def apunta_def anota_comprueba anota_monitor_bounds)

lemma sigue_ok: "estado_ok x e \<Longrightarrow> estado_ok x (sigue x t s e)"
  using apunta_ok by (simp add: sigue_def estado_ok_def sesion_ok_def)

lemma apunta_sesion [simp]: "se_sesion (apunta x t v s p e) = se_sesion e"
  by (simp add: apunta_def)

lemma parar_ok: "estado_ok x e \<Longrightarrow> estado_ok x (parar x m n e)"
  using apunta_ok [of x e] unfolding parar_def
  by (cases m; cases "se_sesion e") (simp_all add: Let_def estado_ok_def sesion_ok_def es_clave_def)

lemma paso_ok: "paso_de_sesion x e p e' \<Longrightarrow> estado_ok x e \<Longrightarrow> estado_ok x e'"
proof (induction rule: paso_de_sesion.induct)
  case (comprueba e ps)
  then show ?case by (cases "se_sesion e") (auto simp: comprobada_def estado_ok_def sesion_ok_def)
qed (auto simp: parar_ok reanudar_def reanudar_a_mano_def reverificada_def sigue_ok split: sesion.split)

lemma pasos_ok: "pasos x e ps e' \<Longrightarrow> estado_ok x e \<Longrightarrow> estado_ok x e'"
  by (induction rule: pasos.induct) (auto intro: paso_ok)

lemma cadena_crece: "paso_de_sesion x e p e' \<Longrightarrow> \<exists>rs. ca_registros (se_cadena e') = ca_registros (se_cadena e) @ rs"
  by (cases rule: paso_de_sesion.cases)
     (auto simp: sesion_ops anota_cadena_def split: sesion.splits)

lemma cadena_crece_pasos:
  "pasos x e ps e' \<Longrightarrow> \<exists>rs. ca_registros (se_cadena e') = ca_registros (se_cadena e) @ rs"
  by (induction rule: pasos.induct) (force dest: cadena_crece)+

lemma clave_se_queda:
  "pasos x e qs e' \<Longrightarrow> se_sesion e = Pausada p \<Longrightarrow> es_clave (pa_motivo p) \<Longrightarrow> pa_pendiente p \<noteq> [] \<Longrightarrow>
   \<not> pa_puede_reanudar p \<Longrightarrow> \<forall>n. Reverifica n \<notin> set qs \<Longrightarrow> se_sesion e' = Pausada p"
proof (induction rule: pasos.induct)
  case (uno e ps e' q e'')
  then have "se_sesion e' = Pausada p" by simp
  with uno show ?case by (cases q) (auto simp: sesion_ops lista_para_reanudar_def)
qed simp

definition misma_parada :: "pausa \<Rightarrow> pausa \<Rightarrow> bool" where
  "misma_parada p q \<longleftrightarrow> pa_motivo q = pa_motivo p \<and> pa_desde q = pa_desde p \<and>
     pa_puede_reanudar q = pa_puede_reanudar p"

lemma causa_se_queda:
  "pasos x e qs e' \<Longrightarrow> se_sesion e = Pausada p \<Longrightarrow> \<not> es_clave (pa_motivo p) \<Longrightarrow> pa_pendiente p \<noteq> [] \<Longrightarrow>
   Comprueba [] \<notin> set qs \<Longrightarrow> \<not> pa_puede_reanudar p \<or> (\<forall>n. ReanudaAMano n \<notin> set qs) \<Longrightarrow>
   \<exists>p'. se_sesion e' = Pausada p' \<and> misma_parada p p' \<and> pa_pendiente p' \<noteq> []"
proof (induction rule: pasos.induct)
  case (uno e ps e' q e'')
  then obtain p' where "se_sesion e' = Pausada p'" "misma_parada p p'" "pa_pendiente p' \<noteq> []" by auto
  with uno show ?case
    by (cases q) (auto simp: sesion_ops lista_para_reanudar_def misma_parada_def)
qed (simp add: misma_parada_def)

text \<open>C33: a stopped conversation stays stopped for its own reason: stopped by a changed key, nothing
  but a new short-code check moves it; stopped by something unusual, it waits until the watch
  finds nothing pending; stopped by something seen, it waits for that or for the person's word.
  Meanwhile what was written stays in the chain, which verifies, and the screen stays bounded.\<close>

theorem stopped_until_its_cause_is_gone:
  assumes "estado_ok x e" "se_sesion e = Pausada p" "pasos x e qs e'"
  shows "(es_clave (pa_motivo p) \<and> (\<forall>n. Reverifica n \<notin> set qs) \<longrightarrow> se_sesion e' = Pausada p) \<and>
    (\<not> es_clave (pa_motivo p) \<and> pa_pendiente p \<noteq> [] \<and> Comprueba [] \<notin> set qs \<and>
       (\<not> pa_puede_reanudar p \<or> (\<forall>n. ReanudaAMano n \<notin> set qs)) \<longrightarrow>
       (\<exists>p'. se_sesion e' = Pausada p' \<and> misma_parada p p')) \<and>
    (pa_puede_reanudar p \<longleftrightarrow> (\<exists>t pr. pa_motivo p = Observado t pr)) \<and>
    (\<exists>rs. ca_registros (se_cadena e') = ca_registros (se_cadena e) @ rs) \<and> estado_ok x e'"
proof -
  have p: "pa_puede_reanudar p \<longleftrightarrow> (\<exists>t pr. pa_motivo p = Observado t pr)"
    "es_clave (pa_motivo p) \<Longrightarrow> pa_pendiente p \<noteq> []"
    using assms(1,2) by (simp_all add: estado_ok_def sesion_ok_def)
  have "es_clave (pa_motivo p) \<Longrightarrow> \<not> pa_puede_reanudar p" using p(1) by (auto simp: es_clave_def)
  then show ?thesis
    using p clave_se_queda [OF assms(3,2)] causa_se_queda [OF assms(3,2)] cadena_crece_pasos [OF assms(3)]
      pasos_ok [OF assms(3,1)] by blast
qed

definition sesion_ejemplo :: estado_sesion where
  "sesion_ejemplo = \<lparr>se_sesion = EnMarcha, se_monitor = monitor_new, se_cadena = cadena_new ''s'' 1\<rparr>"

lemma sesion_ejemplo_ok: "estado_ok x sesion_ejemplo"
  by (simp add: estado_ok_def sesion_ejemplo_def sesion_ok_def monitor_new_def HISTORICO_def)

theorem stopped_until_its_cause_is_gone_witness:
  "\<exists>p e'. se_sesion (parar cripto_ejemplo (ClaveCambiada ''Marta'') 5 sesion_ejemplo) = Pausada p \<and>
     pasos cripto_ejemplo (parar cripto_ejemplo (ClaveCambiada ''Marta'') 5 sesion_ejemplo)
       [Comprueba [], ReanudaAMano 6] e' \<and> se_sesion e' = Pausada p"
proof -
  let ?e = "parar cripto_ejemplo (ClaveCambiada ''Marta'') 5 sesion_ejemplo"
  obtain p where p: "se_sesion ?e = Pausada p" "es_clave (pa_motivo p)"
    by (simp add: parar_def sesion_ejemplo_def apunta_def es_clave_def)
  have "pasos cripto_ejemplo ?e ([] @ [Comprueba []]) (comprobada [] ?e)"
    by (rule pasos.uno [OF pasos.nada paso_de_sesion.comprueba])
  then have run: "pasos cripto_ejemplo ?e (([] @ [Comprueba []]) @ [ReanudaAMano 6])
      (snd (reanudar_a_mano cripto_ejemplo 6 (comprobada [] ?e)))"
    by (rule pasos.uno [OF _ paso_de_sesion.a_mano])
  from stopped_until_its_cause_is_gone [OF parar_ok [OF sesion_ejemplo_ok] p(1) run] p(2)
  have "se_sesion (snd (reanudar_a_mano cripto_ejemplo 6 (comprobada [] ?e))) = Pausada p" by simp
  with p(1) run show ?thesis by auto
qed

text \<open>Where a changed key is forgotten. A conversation that is already stopped for something
  seen or unusual keeps that reason when the contact's keys change: once the cause is gone, or as
  soon as the person says the program is theirs, it goes on with the changed key and with no new
  short-code check.\<close>

theorem changed_key_while_stopped_is_forgotten:
  assumes "se_sesion e = Pausada p" "\<not> es_clave (pa_motivo p)"
  shows "se_sesion (parar x (ClaveCambiada n) t e) = Pausada p \<and>
    (let r = reanudar x t' (comprobada [] (parar x (ClaveCambiada n) t e)) in fst r \<and> en_marcha (se_sesion (snd r))) \<and>
    (let r = reanudar_a_mano x t' (parar x (ClaveCambiada n) t e)
     in pa_puede_reanudar p = fst r \<and> fst r = en_marcha (se_sesion (snd r)))"
  using assms by (auto simp: sesion_ops lista_para_reanudar_def en_marcha_def)

theorem changed_key_while_stopped_is_forgotten_witness:
  "fst (reanudar_a_mano cripto_ejemplo 7 (parar cripto_ejemplo (ClaveCambiada ''Marta'') 6
     (parar cripto_ejemplo (Observado ''mic'' None) 5 sesion_ejemplo)))"
proof -
  let ?e = "parar cripto_ejemplo (Observado ''mic'' None) 5 sesion_ejemplo"
  obtain p where p: "se_sesion ?e = Pausada p" "\<not> es_clave (pa_motivo p)" "pa_puede_reanudar p"
    by (simp add: parar_def sesion_ejemplo_def apunta_def es_clave_def)
  from changed_key_while_stopped_is_forgotten [OF p(1,2), of cripto_ejemplo "''Marta''" 6 7] p(3)
  show ?thesis by (simp add: Let_def)
qed

end
