(* ===== verification/Agenda.thy ===== *)
theory Agenda imports Rust_Text Secure begin

text \<open>
  The short code of \<open>crates/secure/src/verificar.rs\<close>, the devices a person accepts (\<open>Trust\<close>), and
  the book of verified people, \<open>agenda.rs\<close>. A key is its bytes; base64 and SHA-256 are other crates' and so
  parameters. The book is refined to a map from names to the keys pinned and whether the name is
  blocked. The safety number and the number of an identity are here too, with its check digit.
\<close>

text \<open>The order of byte strings in Rust: the first difference decides, then the length.\<close>

fun bytes_le :: "bytes \<Rightarrow> bytes \<Rightarrow> bool" where
  "bytes_le [] ys = True"
| "bytes_le (x # xs) [] = False"
| "bytes_le (x # xs) (y # ys) = (x < y \<or> x = y \<and> bytes_le xs ys)"

lemma bytes_le_Nil [simp]: "bytes_le ys [] \<longleftrightarrow> ys = []"
  by (cases ys) auto

lemma bytes_le_total: "bytes_le a b \<or> bytes_le b a"
  by (induction a b rule: bytes_le.induct) auto

lemma bytes_le_antisym: "bytes_le a b \<Longrightarrow> bytes_le b a \<Longrightarrow> a = b"
  by (induction a b rule: bytes_le.induct) auto

section \<open>The short code\<close>

text \<open>The handshake of \<open>vodozemac::sas\<close> is its two public keys and the two functions over its
  shared secret; a key's signature check is another parameter.\<close>

datatype verify_error = Failed | DecimalsDiffer

record codigo =
  cd_nuestra :: bytes
  cd_suya :: bytes
  cd_verify_mac :: "string \<Rightarrow> string \<Rightarrow> bytes \<Rightarrow> bool"

record verified =
  ve_curve :: bytes
  ve_signing :: bytes

definition INFO :: string where "INFO = ''GUARDIANA_SECURE_SAS_V1''"

definition info_codigo :: "(bytes \<Rightarrow> string) \<Rightarrow> codigo \<Rightarrow> string" where
  "info_codigo b64 c =
     (let (first, second) =
        (if bytes_le (cd_nuestra c) (cd_suya c) then (cd_nuestra c, cd_suya c) else (cd_suya c, cd_nuestra c))
      in INFO @ b64 first @ b64 second)"

definition mac_input :: "(bytes \<Rightarrow> string) \<Rightarrow> bytes \<Rightarrow> bytes \<Rightarrow> string" where
  "mac_input b64 signing curve = ''ed25519:'' @ b64 signing @ ''|curve25519:'' @ b64 curve"

definition transcript_codigo :: "(bytes \<Rightarrow> string) \<Rightarrow> codigo \<Rightarrow> bytes \<Rightarrow> bytes \<Rightarrow> bytes" where
  "transcript_codigo b64 c signing curve =
     str_bytes (info_codigo b64 c @ ''|'' @ mac_input b64 signing curve)"

definition confirm ::
    "(bytes \<Rightarrow> string) \<Rightarrow> (bytes \<Rightarrow> bytes \<Rightarrow> bytes \<Rightarrow> bool) \<Rightarrow> codigo \<Rightarrow> bytes \<Rightarrow> bytes \<Rightarrow> bytes \<Rightarrow> bytes \<Rightarrow> bool \<Rightarrow>
     verify_error + verified" where
  "confirm b64 verify c their_curve their_signing their_mac their_signature same_decimals =
     (if \<not> same_decimals then Inl DecimalsDiffer
      else if \<not> cd_verify_mac c (mac_input b64 their_signing their_curve) (info_codigo b64 c) their_mac then Inl Failed
      else if \<not> verify their_signing (transcript_codigo b64 c their_signing their_curve) their_signature then Inl Failed
      else Inr \<lparr>ve_curve = their_curve, ve_signing = their_signing\<rparr>)"

text \<open>Both sides build the same text.\<close>

lemma info_symmetric:
  "cd_nuestra d = cd_suya c \<Longrightarrow> cd_suya d = cd_nuestra c \<Longrightarrow> info_codigo b64 d = info_codigo b64 c"
  using bytes_le_total [of "cd_nuestra c" "cd_suya c"] bytes_le_antisym [of "cd_nuestra c" "cd_suya c"]
  by (auto simp: info_codigo_def)

section \<open>Accepted devices\<close>

type_synonym trust = "verified list"

definition trust_insert :: "verified \<Rightarrow> trust \<Rightarrow> trust" where
  "trust_insert peer t = (if \<not> list_ex (\<lambda>known. ve_signing known = ve_signing peer) t then t @ [peer] else t)"

definition trust_revoke :: "bytes \<Rightarrow> trust \<Rightarrow> bool \<times> trust" where
  "trust_revoke signing t =
     (let after = filter (\<lambda>peer. ve_signing peer \<noteq> signing) t in (length after \<noteq> length t, after))"

definition trust_allows :: "bytes \<Rightarrow> trust \<Rightarrow> bool" where
  "trust_allows curve t = list_ex (\<lambda>peer. ve_curve peer = curve) t"

section \<open>The book\<close>

datatype estado_contacto = Verificado | ClaveDistinta (nueva: string) (visto_en: nat)

record contacto =
  co_nombre :: string
  co_curve :: string
  co_signing :: string
  co_verificado_en :: nat
  co_estado :: estado_contacto

text \<open>\<open>to_base64\<close> and \<open>from_base64\<close> of the two kinds of key.\<close>

record base64 =
  b64_curve :: "bytes \<Rightarrow> string"
  de_curve :: "string \<Rightarrow> bytes option"
  b64_signing :: "bytes \<Rightarrow> string"
  de_signing :: "string \<Rightarrow> bytes option"

definition base64_ok :: "base64 \<Rightarrow> bool" where
  "base64_ok b \<longleftrightarrow> (\<forall>k. de_curve b (b64_curve b k) = Some k \<and> de_signing b (b64_signing b k) = Some k)"

definition claves :: "base64 \<Rightarrow> contacto \<Rightarrow> (bytes \<times> bytes) option" where
  "claves b c =
     (case de_curve b (co_curve c) of
        None \<Rightarrow> None
      | Some curve \<Rightarrow> map_option (\<lambda>signing. (curve, signing)) (de_signing b (co_signing c)))"

definition verified_de :: "base64 \<Rightarrow> contacto \<Rightarrow> verified option" where
  "verified_de b c =
     (if co_estado c \<noteq> Verificado then None
      else map_option (\<lambda>(curve, signing). \<lparr>ve_curve = curve, ve_signing = signing\<rparr>) (claves b c))"

type_synonym agenda = "contacto list"

text \<open>\<open>iter_mut().find\<close>: the first one of the name is written over, or it goes at the end.\<close>

fun fijar_en :: "contacto \<Rightarrow> agenda \<Rightarrow> agenda" where
  "fijar_en nuevo [] = [nuevo]"
| "fijar_en nuevo (c # cs) =
     (if co_nombre c = co_nombre nuevo then nuevo # cs else c # fijar_en nuevo cs)"

definition fijar :: "base64 \<Rightarrow> string \<Rightarrow> verified \<Rightarrow> nat \<Rightarrow> agenda \<Rightarrow> agenda" where
  "fijar b nombre dispositivo ahora a =
     fijar_en \<lparr>co_nombre = nombre, co_curve = b64_curve b (ve_curve dispositivo),
       co_signing = b64_signing b (ve_signing dispositivo), co_verificado_en = ahora,
       co_estado = Verificado\<rparr> a"

definition olvidar :: "string \<Rightarrow> agenda \<Rightarrow> bool \<times> agenda" where
  "olvidar nombre a =
     (let despues = filter (\<lambda>c. co_nombre c \<noteq> nombre) a in (length despues \<noteq> length a, despues))"

definition contacto_de :: "string \<Rightarrow> agenda \<Rightarrow> contacto option" where
  "contacto_de nombre a = find (\<lambda>c. co_nombre c = nombre) a"

fun comprueba_agenda ::
    "base64 \<Rightarrow> string \<Rightarrow> bytes \<Rightarrow> bytes \<Rightarrow> nat \<Rightarrow> agenda \<Rightarrow> (secure_error + unit) \<times> agenda" where
  "comprueba_agenda b nombre curve signing ahora [] = (Inl IdentityChanged, [])"
| "comprueba_agenda b nombre curve signing ahora (c # cs) =
     (if co_nombre c = nombre then
        if co_estado c \<noteq> Verificado then (Inl ReverifyNeeded, c # cs)
        else if claves b c = Some (curve, signing) then (Inr (), c # cs)
        else (Inl IdentityChanged, c\<lparr>co_estado := ClaveDistinta (b64_signing b signing) ahora\<rparr> # cs)
      else
        map_prod id ((#) c) (comprueba_agenda b nombre curve signing ahora cs))"

fun trust_desde :: "base64 \<Rightarrow> trust \<Rightarrow> agenda \<Rightarrow> trust" where
  "trust_desde b t [] = t"
| "trust_desde b t (c # cs) =
     (if co_estado c \<noteq> Verificado then trust_desde b t cs
      else case claves b c of
             None \<Rightarrow> trust_desde b t cs
           | Some (curve, signing) \<Rightarrow>
               trust_desde b (trust_insert \<lparr>ve_curve = curve, ve_signing = signing\<rparr> t) cs)"

definition trust_de :: "base64 \<Rightarrow> agenda \<Rightarrow> trust" where
  "trust_de b a = trust_desde b [] a"

section \<open>The book is a map\<close>

text \<open>What a name stands for: the keys pinned, and whether it is blocked.\<close>

type_synonym libreta = "string \<Rightarrow> ((bytes \<times> bytes) option \<times> bool) option"

definition libreta_de :: "base64 \<Rightarrow> agenda \<Rightarrow> libreta" where
  "libreta_de b a nombre = map_option (\<lambda>c. (claves b c, co_estado c \<noteq> Verificado)) (contacto_de nombre a)"

datatype paso_agenda = Fija string verified nat | Olvida string | Comprueba_ag string bytes bytes nat

fun da_agenda :: "base64 \<Rightarrow> paso_agenda \<Rightarrow> agenda \<Rightarrow> agenda" where
  "da_agenda b (Fija n v t) a = fijar b n v t a"
| "da_agenda b (Olvida n) a = snd (olvidar n a)"
| "da_agenda b (Comprueba_ag n c s t) a = snd (comprueba_agenda b n c s t a)"

fun da_libreta :: "paso_agenda \<Rightarrow> libreta \<Rightarrow> libreta" where
  "da_libreta (Fija n v t) m = m(n \<mapsto> (Some (ve_curve v, ve_signing v), False))"
| "da_libreta (Olvida n) m = m(n := None)"
| "da_libreta (Comprueba_ag n c s t) m =
     (case m n of
        Some (k, False) \<Rightarrow> if k = Some (c, s) then m else m(n \<mapsto> (k, True))
      | _ \<Rightarrow> m)"

definition responde :: "libreta \<Rightarrow> string \<Rightarrow> bytes \<Rightarrow> bytes \<Rightarrow> secure_error + unit" where
  "responde m n c s =
     (case m n of
        None \<Rightarrow> Inl IdentityChanged
      | Some (k, True) \<Rightarrow> Inl ReverifyNeeded
      | Some (k, False) \<Rightarrow> if k = Some (c, s) then Inr () else Inl IdentityChanged)"

lemma fijar_en_find:
  "find (\<lambda>c. co_nombre c = n) (fijar_en nuevo a) =
   (if n = co_nombre nuevo then Some nuevo else find (\<lambda>c. co_nombre c = n) a)"
  by (induction a) auto

lemma fijar_libreta:
  "base64_ok b \<Longrightarrow> libreta_de b (fijar b n v t a) = (libreta_de b a)(n \<mapsto> (Some (ve_curve v, ve_signing v), False))"
  by (rule ext) (simp add: libreta_de_def contacto_de_def fijar_def fijar_en_find claves_def base64_ok_def)

lemma olvidar_libreta: "libreta_de b (snd (olvidar n a)) = (libreta_de b a)(n := None)"
proof
  fix m
  have "find (\<lambda>c. co_nombre c = m) (filter (\<lambda>c. co_nombre c \<noteq> n) a) =
    (if m = n then None else find (\<lambda>c. co_nombre c = m) a)"
    by (induction a) auto
  then show "libreta_de b (snd (olvidar n a)) m = ((libreta_de b a)(n := None)) m"
    by (simp add: libreta_de_def contacto_de_def olvidar_def Let_def)
qed

lemma claves_estado [simp]: "claves b (c\<lparr>co_estado := e\<rparr>) = claves b c"
  by (auto simp: claves_def split: option.split)

lemma comprueba_libreta:
  "libreta_de b (snd (comprueba_agenda b n c s t a)) = da_libreta (Comprueba_ag n c s t) (libreta_de b a) \<and>
   fst (comprueba_agenda b n c s t a) = responde (libreta_de b a) n c s"
proof (induction a)
  case Nil
  then show ?case by (simp add: libreta_de_def contacto_de_def responde_def)
next
  case (Cons d a)
  have other: "libreta_de b (d # e) = (libreta_de b e)(co_nombre d \<mapsto> (claves b d, co_estado d \<noteq> Verificado))" for d e
    by (rule ext) (auto simp: libreta_de_def contacto_de_def)
  show ?case
  proof (cases "co_nombre d = n")
    case True
    then show ?thesis by (auto simp: other responde_def)
  next
    case False
    then show ?thesis using Cons
      by (auto simp: other responde_def fun_upd_twist split: option.splits bool.splits)
  qed
qed

lemma da_refina: "base64_ok b \<Longrightarrow> libreta_de b (da_agenda b p a) = da_libreta p (libreta_de b a)"
  using comprueba_libreta [of b] by (cases p) (simp_all only: da_agenda.simps da_libreta.simps fijar_libreta olvidar_libreta)

text \<open>One entry per name, whatever is done.\<close>

lemma fijar_en_names: "distinct (map co_nombre a) \<Longrightarrow> distinct (map co_nombre (fijar_en nuevo a)) \<and>
   set (map co_nombre (fijar_en nuevo a)) = insert (co_nombre nuevo) (set (map co_nombre a))"
  by (induction a) auto

lemma comprueba_names [simp]: "map co_nombre (snd (comprueba_agenda b n c s t a)) = map co_nombre a"
  by (induction a) auto

lemma da_names: "distinct (map co_nombre a) \<Longrightarrow> distinct (map co_nombre (da_agenda b p a))"
  by (cases p) (auto simp: fijar_def fijar_en_names olvidar_def Let_def distinct_map_filter)

interpretation agendas: guarded_machine "\<lambda>a p. da_agenda b p a" "\<lambda>a. distinct (map co_nombre a)" for b
  by unfold_locales (rule da_names)

lemma trust_insert_allows: "trust_allows k (trust_insert p t) \<Longrightarrow> trust_allows k t \<or> ve_curve p = k"
  by (auto simp: trust_allows_def trust_insert_def split: if_splits)

lemma trust_desde_allows:
  "trust_allows k (trust_desde b t a) \<Longrightarrow>
   trust_allows k t \<or> (\<exists>c \<in> set a. \<exists>s. co_estado c = Verificado \<and> claves b c = Some (k, s))"
proof (induction b t a rule: trust_desde.induct)
  case (2 b t c cs)
  show ?case
  proof (cases "co_estado c = Verificado")
    case True
    show ?thesis
    proof (cases "claves b c")
      case None
      with True 2 show ?thesis by auto
    next
      case (Some p)
      obtain k1 s1 where p: "p = (k1, s1)" by (cases p)
      from 2(3) [OF _ Some p [symmetric]] True Some p 2(4)
      have "trust_allows k (trust_insert \<lparr>ve_curve = k1, ve_signing = s1\<rparr> t) \<or>
          (\<exists>c \<in> set cs. \<exists>s. co_estado c = Verificado \<and> claves b c = Some (k, s))" by simp
      with True Some p show ?thesis by (auto dest: trust_insert_allows)
    qed
  qed (use 2 in auto)
qed simp

lemma trust_de_allows:
  assumes "trust_allows k (trust_de b a)" "distinct (map co_nombre a)"
  shows "\<exists>n s. libreta_de b a n = Some (Some (k, s), False)"
proof -
  obtain c s where c: "c \<in> set a" "co_estado c = Verificado" "claves b c = Some (k, s)"
    using trust_desde_allows [OF assms(1) [unfolded trust_de_def]] by (auto simp: trust_allows_def)
  have "find (\<lambda>d. co_nombre d = co_nombre c) a = Some c"
    using c(1) assms(2) by (induction a) (auto simp: image_iff)
  then have "libreta_de b a (co_nombre c) = Some (Some (k, s), False)"
    using c by (simp add: libreta_de_def contacto_de_def)
  then show ?thesis by blast
qed

text \<open>C34: the book keeps its promise to each name. Whatever is pinned, forgotten and checked, in any
  order, the book stands for a map from names to the keys pinned and to whether the name is
  blocked: pinning sets it, forgetting removes it, other keys block it, and nothing but pinning
  unblocks it. The answer to a check is what that map says, and a device is only accepted when
  some name is pinned to it and not blocked.\<close>

theorem agenda_is_a_map:
  assumes "base64_ok b"
  shows "libreta_de b (foldl (\<lambda>a p. da_agenda b p a) [] ps) = foldl (\<lambda>m p. da_libreta p m) Map.empty ps \<and>
    fst (comprueba_agenda b n c s t (foldl (\<lambda>a p. da_agenda b p a) [] ps)) =
      responde (foldl (\<lambda>m p. da_libreta p m) Map.empty ps) n c s \<and>
    (trust_allows k (trust_de b (foldl (\<lambda>a p. da_agenda b p a) [] ps)) \<longrightarrow>
      (\<exists>n s. foldl (\<lambda>m p. da_libreta p m) Map.empty ps n = Some (Some (k, s), False)))"
proof -
  have "libreta_de b (foldl (\<lambda>a p. da_agenda b p a) a ps) = foldl (\<lambda>m p. da_libreta p m) (libreta_de b a) ps" for a
    by (induction ps arbitrary: a) (simp_all add: da_refina [OF assms])
  moreover have "libreta_de b [] = Map.empty" by (rule ext) (simp add: libreta_de_def contacto_de_def)
  ultimately have abs: "libreta_de b (foldl (\<lambda>a p. da_agenda b p a) [] ps) = foldl (\<lambda>m p. da_libreta p m) Map.empty ps"
    by metis
  have "distinct (map co_nombre (foldl (\<lambda>a p. da_agenda b p a) [] ps))" by (rule agendas.inv_run) simp
  then show ?thesis using comprueba_libreta [of b n c s t] trust_de_allows [of k b] abs by metis
qed

definition base64_ejemplo :: base64 where
  "base64_ejemplo = \<lparr>b64_curve = to_hex, de_curve = hex_pairs, b64_signing = to_hex, de_signing = hex_pairs\<rparr>"

theorem agenda_is_a_map_witness:
  "let ps = [Fija ''Marta'' \<lparr>ve_curve = [1], ve_signing = [2]\<rparr> 5, Comprueba_ag ''Marta'' [1] [3] 6]
   in fst (comprueba_agenda base64_ejemplo ''Marta'' [1] [2] 7 (foldl (\<lambda>a p. da_agenda base64_ejemplo p a) [] ps)) =
      Inl ReverifyNeeded"
proof -
  have ok: "base64_ok base64_ejemplo" by (simp add: base64_ok_def base64_ejemplo_def hex_pairs_to_hex)
  show ?thesis
    unfolding Let_def
    by (subst agenda_is_a_map [OF ok, THEN conjunct2, THEN conjunct1]) (simp add: responde_def)
qed

section \<open>The safety number\<close>

definition HUELLA_V1 :: bytes where "HUELLA_V1 = str_bytes ''GUARDIANA_SECURE_HUELLA_V1''"

text \<open>\<open>{:05}\<close> of the four bytes modulo 100000.\<close>

definition grupo :: "bytes \<Rightarrow> string" where
  "grupo c = digits 5 (unat (foldl (\<lambda>acc b. push_bit 8 acc OR ucast b) (0 :: 32 word) c) mod 100000)"

definition huella_segura :: "(bytes \<Rightarrow> bytes) \<Rightarrow> bytes \<Rightarrow> bytes \<Rightarrow> string" where
  "huella_segura sha a b =
     (let (primera, segunda) = (if bytes_le a b then (a, b) else (b, a));
          digest = ((\<lambda>d. sha (d @ primera @ segunda)) ^^ 1024) (sha (HUELLA_V1 @ primera @ segunda));
          extra = sha digest
      in unir (CHR '' '') (map grupo (chunks 4 digest @ take 4 (chunks 4 extra))))"

lemma huella_symmetric: "huella_segura sha a b = huella_segura sha b a"
  using bytes_le_total [of a b] bytes_le_antisym [of a b] by (cases "bytes_le a b"; cases "bytes_le b a") (auto simp: huella_segura_def)

section \<open>The number of an identity\<close>

fun luhn_suma :: "nat \<Rightarrow> nat list \<Rightarrow> nat" where
  "luhn_suma i [] = 0"
| "luhn_suma i (d # ds) =
     (if i mod 2 = 0 then (if d * 2 > 9 then d * 2 - 9 else d * 2) else d) + luhn_suma (i + 1) ds"

definition luhn :: "nat list \<Rightarrow> nat" where
  "luhn cifras = (10 - luhn_suma 0 (rev cifras) mod 10) mod 10"

definition con_guiones :: "nat list \<Rightarrow> string" where
  "con_guiones cifras =
     (let s = map digit_char cifras in take 4 s @ ''-'' @ take 4 (drop 4 s) @ ''-'' @ drop 8 s)"

definition numero :: "(bytes \<Rightarrow> bytes) \<Rightarrow> bytes \<Rightarrow> string" where
  "numero sha k =
     (let h = sha (str_bytes ''GUARDIANA numero V1'' @ k);
          n = from_be (take 8 h) mod 100000000000;
          cifras = map (\<lambda>b. char_code b - 48) (digits 11 n)
      in con_guiones (cifras @ [luhn cifras]))"

text \<open>The characters that do not matter: space, dash, dot and the no-break space, two bytes.\<close>

fun sin_adornos :: "string \<Rightarrow> string" where
  "sin_adornos [] = []"
| "sin_adornos (c # s) =
     (if c \<in> {CHR '' '', CHR ''-'', CHR ''.''} then sin_adornos s
      else if c = CHR 0xC2 then
        (case s of d # r \<Rightarrow> if d = CHR 0xA0 then sin_adornos r else c # sin_adornos s | [] \<Rightarrow> [c])
      else c # sin_adornos s)"

fun cifras_de :: "string \<Rightarrow> nat list option" where
  "cifras_de [] = Some []"
| "cifras_de (c # s) =
     (case digit_val c of
        None \<Rightarrow> None
      | Some d \<Rightarrow> map_option ((#) d) (cifras_de s))"

definition lee_numero :: "string \<Rightarrow> string option" where
  "lee_numero texto =
     (case cifras_de (sin_adornos texto) of
        None \<Rightarrow> None
      | Some cifras \<Rightarrow>
          if length cifras \<noteq> 12 \<or> luhn (take 11 cifras) \<noteq> cifras ! 11 then None
          else Some (con_guiones cifras))"

lemma digit_no_ornament:
  "d < 10 \<Longrightarrow> digit_char d \<notin> {CHR '' '', CHR ''-'', CHR ''.''} \<and> digit_char d \<noteq> CHR 0xC2"
proof -
  assume "d < 10"
  then have "is_ascii_digit (digit_char d)" by (simp add: is_ascii_digit_def digit_char_code)
  then show ?thesis by (auto simp: is_ascii_digit_def)
qed

lemma sin_adornos_digits:
  "\<forall>d \<in> set ds. d < 10 \<Longrightarrow> sin_adornos (map digit_char ds @ s) = map digit_char ds @ sin_adornos s"
  by (induction ds) (use digit_no_ornament in \<open>auto split: list.split\<close>)

lemma sin_adornos_dash [simp]: "sin_adornos (CHR ''-'' # s) = sin_adornos s"
  by simp

lemma cifras_de_digits: "\<forall>d \<in> set ds. d < 10 \<Longrightarrow> cifras_de (map digit_char ds) = Some ds"
  by (induction ds) auto

lemma sin_adornos_guiones:
  assumes "\<forall>d \<in> set ds. d < 10"
  shows "sin_adornos (con_guiones ds) = map digit_char ds"
proof -
  have parts: "\<forall>d \<in> set (take 4 ds). d < 10" "\<forall>d \<in> set (take 4 (drop 4 ds)). d < 10" "\<forall>d \<in> set (drop 8 ds). d < 10"
    using assms by (meson in_set_takeD in_set_dropD)+
  have "con_guiones ds = map digit_char (take 4 ds) @ CHR ''-'' # map digit_char (take 4 (drop 4 ds)) @ CHR ''-'' #
      map digit_char (drop 8 ds) @ []"
    by (simp add: con_guiones_def Let_def take_map drop_map)
  then have "sin_adornos (con_guiones ds) = map digit_char (take 4 ds @ take 4 (drop 4 ds) @ drop 8 ds)"
    by (simp only: sin_adornos_digits [OF parts(1)] sin_adornos_digits [OF parts(2)] sin_adornos_digits [OF parts(3)]
        sin_adornos_dash map_append sin_adornos.simps(1)) simp
  also have "take 4 ds @ take 4 (drop 4 ds) @ drop 8 ds = ds"
    by (metis append_take_drop_id drop_drop numeral_Bit0 add.commute)
  finally show ?thesis .
qed

lemma lee_numero_guiones:
  "\<lbrakk>\<forall>d \<in> set ds. d < 10; length ds = 12\<rbrakk> \<Longrightarrow>
   lee_numero (con_guiones ds) = (if luhn (take 11 ds) = ds ! 11 then Some (con_guiones ds) else None)"
  by (simp add: lee_numero_def sin_adornos_guiones cifras_de_digits)

text \<open>The check holds when the weighted sum of all the digits is a multiple of ten.\<close>

definition peso :: "nat \<Rightarrow> nat \<Rightarrow> nat" where
  "peso i d = (if i mod 2 = 0 then (if d * 2 > 9 then d * 2 - 9 else d * 2) else d)"

lemma luhn_suma_append:
  "luhn_suma i (xs @ d # ys) = luhn_suma i xs + peso (i + length xs) d + luhn_suma (i + length xs + 1) ys"
  by (induction xs arbitrary: i) (simp_all add: peso_def)

lemma luhn_suma_parity: "luhn_suma (Suc (Suc i)) ds = luhn_suma i ds"
  by (induction ds arbitrary: i) auto

lemma check_digit: "(c :: nat) < 10 \<Longrightarrow> (10 - s mod 10) mod 10 = c \<longleftrightarrow> (c + s) mod 10 = 0"
proof -
  assume c: "c < 10"
  define r where "r = s mod 10"
  have r: "r < 10" by (simp add: r_def)
  have "(c + s) mod 10 = (c + r) mod 10" by (simp add: r_def mod_simps)
  also have "\<dots> = (if c + r < 10 then c + r else c + r - 10)" using c r by (simp add: mod_if)
  finally have "(c + s) mod 10 = 0 \<longleftrightarrow> c + r = 0 \<or> c + r = 10" by auto
  moreover have "(10 - r) mod 10 = (if r = 0 then 0 else 10 - r)" using r by auto
  ultimately show ?thesis using r c by (auto simp: r_def [symmetric])
qed

lemma luhn_valid:
  assumes "length ds = 12" "\<forall>d \<in> set ds. d < 10"
  shows "luhn (take 11 ds) = ds ! 11 \<longleftrightarrow> luhn_suma 1 (rev ds) mod 10 = 0"
proof -
  have "ds = take 11 ds @ [ds ! 11]" using assms(1) by (metis append_Nil2 drop_eq_Nil id_take_nth_drop le_refl lessI numeral_eq_Suc pred_numeral_simps(2) pred_numeral_simps(3) semiring_norm(26) semiring_norm(27) semiring_norm(28))
  then have r: "rev ds = ds ! 11 # rev (take 11 ds)" by (metis rev_eq_Cons_iff rev_rev_ident)
  have sum: "luhn_suma 1 (rev ds) = ds ! 11 + luhn_suma 0 (rev (take 11 ds))"
    using luhn_suma_parity [of 0 "rev (take 11 ds)"] by (simp add: r)
  have "ds ! 11 < 10" using assms by simp
  then have "(10 - S mod 10) mod 10 = ds ! 11 \<longleftrightarrow> (ds ! 11 + S) mod 10 = 0" for S
    by (rule check_digit)
  then show ?thesis by (simp only: sum luhn_def)
qed

lemma lee_numero_valid:
  assumes "\<forall>d \<in> set ds. d < 10" "length ds = 12"
  shows "lee_numero (con_guiones ds) = (if luhn_suma 1 (rev ds) mod 10 = 0 then Some (con_guiones ds) else None)"
  using lee_numero_guiones [OF assms] luhn_valid [OF assms(2,1)] by simp

text \<open>One digit changed moves the sum; so do two neighbours swapped, unless they are 0 and 9.\<close>

lemma below_10: "(d :: nat) < 10 \<Longrightarrow> d \<in> {0, 1, 2, 3, 4, 5, 6, 7, 8, 9}"
  by auto

lemma peso_inj: "\<lbrakk>d < 10; e < 10; peso i d mod 10 = peso i e mod 10\<rbrakk> \<Longrightarrow> d = e"
  by (drule below_10, drule below_10) (auto simp: peso_def split: if_splits)

lemma peso_even: "i mod 2 = 0 \<Longrightarrow> d < 10 \<Longrightarrow> peso i d = (if d < 5 then 2 * d else 2 * d - 9)"
  by (auto simp: peso_def)

lemma peso_odd: "i mod 2 \<noteq> 0 \<Longrightarrow> peso i d = d"
  by (simp add: peso_def)

lemma mod_10_near:
  fixes x y :: nat
  assumes "x mod 10 = y mod 10" "x < y + 20" "y < x + 20"
  shows "x = y \<or> x = y + 10 \<or> y = x + 10"
proof -
  obtain p q where pq: "x + 10 * p = y + 10 * q" using assms(1) nat_mod_eq_iff by blast
  consider "p = q" | "p = q + 1" | "q = p + 1" | "p + 2 \<le> q" | "q + 2 \<le> p" by linarith
  then show ?thesis using pq assms(2,3) by cases linarith+
qed

lemma doubled_swap:
  fixes d e :: nat
  assumes "d < 10" "e < 10"
    "((if d < 5 then 2 * d else 2 * d - 9) + e) mod 10 = ((if e < 5 then 2 * e else 2 * e - 9) + d) mod 10"
  shows "d = e \<or> d = 0 \<and> e = 9 \<or> d = 9 \<and> e = 0"
proof -
  let ?x = "(if d < 5 then 2 * d else 2 * d - 9) + e" and ?y = "(if e < 5 then 2 * e else 2 * e - 9) + d"
  have "?x = ?y \<or> ?x = ?y + 10 \<or> ?y = ?x + 10"
    by (rule mod_10_near [OF assms(3)]) (use assms(1,2) in \<open>auto split: if_splits\<close>)
  with assms(1,2) show ?thesis by (cases "d < 5"; cases "e < 5") auto
qed
lemma peso_swap:
  assumes "d < 10" "e < 10" "(peso i d + peso (Suc i) e) mod 10 = (peso i e + peso (Suc i) d) mod 10"
  shows "d = e \<or> d = 0 \<and> e = 9 \<or> d = 9 \<and> e = 0"
proof (cases "i mod 2 = 0")
  case True
  then have s: "Suc i mod 2 \<noteq> 0" by (simp add: mod_Suc)
  show ?thesis
    by (rule doubled_swap [OF assms(1,2)])
       (use assms(3) in \<open>simp only: peso_even [OF True assms(1)] peso_even [OF True assms(2)] peso_odd [OF s]\<close>)
next
  case False
  then have s: "Suc i mod 2 = 0" by (simp add: mod_Suc)
  have "e = d \<or> e = 0 \<and> d = 9 \<or> e = 9 \<and> d = 0"
    by (rule doubled_swap [OF assms(2,1)])
       (use assms(3) in \<open>simp only: peso_even [OF s assms(1)] peso_even [OF s assms(2)] peso_odd [OF False] add.commute\<close>)
  then show ?thesis by blast
qed

lemma mod_add_cancel_mid: "((a :: nat) + x + b) mod 10 = (a + y + b) mod 10 \<Longrightarrow> x mod 10 = y mod 10"
  unfolding nat_mod_eq_iff by auto

lemma suma_change:
  assumes "luhn_suma 1 (rev (xs @ d # ys)) mod 10 = 0" "luhn_suma 1 (rev (xs @ e # ys)) mod 10 = 0" "d < 10" "e < 10"
  shows "d = e"
proof -
  let ?i = "1 + length (rev ys)"
  have sum: "luhn_suma 1 (rev (xs @ c # ys)) = luhn_suma 1 (rev ys) + peso ?i c + luhn_suma (?i + 1) (rev xs)" for c
    using luhn_suma_append [of 1 "rev ys" c "rev xs"] by simp
  have "peso ?i d mod 10 = peso ?i e mod 10"
    by (rule mod_add_cancel_mid [of "luhn_suma 1 (rev ys)" _ "luhn_suma (?i + 1) (rev xs)"])
       (simp only: sum [symmetric] assms(1,2))
  then show ?thesis by (rule peso_inj [OF assms(3,4)])
qed

lemma suma_swap:
  assumes "luhn_suma 1 (rev (xs @ d # e # ys)) mod 10 = 0" "luhn_suma 1 (rev (xs @ e # d # ys)) mod 10 = 0" "d < 10" "e < 10"
  shows "d = e \<or> d = 0 \<and> e = 9 \<or> d = 9 \<and> e = 0"
proof -
  let ?i = "1 + length (rev ys)"
  have sum: "luhn_suma 1 (rev (xs @ a # b # ys)) =
      luhn_suma 1 (rev ys) + (peso ?i b + peso (Suc ?i) a) + luhn_suma (?i + 2) (rev xs)" for a b
    using luhn_suma_append [of 1 "rev ys" b "a # rev xs"] by (simp add: peso_def)
  have "(peso ?i e + peso (Suc ?i) d) mod 10 = (peso ?i d + peso (Suc ?i) e) mod 10"
    by (rule mod_add_cancel_mid [of "luhn_suma 1 (rev ys)" _ "luhn_suma (?i + 2) (rev xs)"])
       (simp only: sum [symmetric] assms(1,2))
  from peso_swap [OF assms(4,3) this] show ?thesis by blast
qed

lemma numero_guiones:
  "\<exists>ds. numero sha k = con_guiones ds \<and> (\<forall>d \<in> set ds. d < 10) \<and> length ds = 12 \<and> luhn_suma 1 (rev ds) mod 10 = 0"
proof -
  define n where "n = from_be (take 8 (sha (str_bytes ''GUARDIANA numero V1'' @ k))) mod 100000000000"
  define cs where "cs = map (\<lambda>b. char_code b - 48) (digits 11 n)"
  have digits: "c < 10" if "c \<in> set (map (\<lambda>b. char_code b - 48) (digits w m))" for c w m
    using that by (induction w arbitrary: m) (auto simp: digit_char_code)
  have len: "length cs = 11" by (simp add: cs_def)
  have "luhn cs < 10" by (simp add: luhn_def)
  then have ds: "\<forall>d \<in> set (cs @ [luhn cs]). d < 10" using digits by (auto simp: cs_def)
  have "luhn (take 11 (cs @ [luhn cs])) = (cs @ [luhn cs]) ! 11" using len by (simp add: nth_append)
  with luhn_valid [of "cs @ [luhn cs]"] ds len have "luhn_suma 1 (rev (cs @ [luhn cs])) mod 10 = 0" by simp
  moreover have "numero sha k = con_guiones (cs @ [luhn cs])" by (simp only: numero_def Let_def cs_def n_def)
  ultimately show ?thesis using ds len by (intro exI [of _ "cs @ [luhn cs]"]) simp
qed

text \<open>A text that sets out the digits \<open>ds\<close>: between them, before and after, any spaces, dashes, dots and
  no-break spaces.\<close>

inductive puesto :: "nat list \<Rightarrow> string \<Rightarrow> bool" where
  vacio: "puesto [] []"
| adorno: "puesto ds s \<Longrightarrow> a \<in> {'' '', ''-'', ''.'', [CHR 0xC2, CHR 0xA0]} \<Longrightarrow> puesto ds (a @ s)"
| cifra: "puesto ds s \<Longrightarrow> d < 10 \<Longrightarrow> puesto (d # ds) (digit_char d # s)"

lemma puesto_sin_adornos: "puesto ds s \<Longrightarrow> sin_adornos s = map digit_char ds \<and> (\<forall>d \<in> set ds. d < 10)"
proof (induction rule: puesto.induct)
  case (cifra ds s d)
  then show ?case using sin_adornos_digits [of "[d]" s] by simp
qed auto

lemma digit_val_Some: "digit_val c = Some d \<Longrightarrow> d < 10 \<and> c = digit_char d"
  by (auto simp: digit_val_def digit_char_def is_ascii_digit_def simp del: char_of_eq_iff split: if_splits)

lemma sin_adornos_puesto: "cifras_de (sin_adornos s) = Some ds \<Longrightarrow> puesto ds s"
proof (induction s arbitrary: ds rule: sin_adornos.induct)
  case 1
  then show ?case by (simp add: puesto.vacio)
next
  case (2 c s)
  have e: "digit_val (CHR 0xC2) = None" by code_simp
  consider (orn) "c \<in> {CHR '' '', CHR ''-'', CHR ''.''}"
    | (nb) r where "c = CHR 0xC2" "s = CHR 0xA0 # r"
    | (otro) "c \<notin> {CHR '' '', CHR ''-'', CHR ''.''}" "\<not> (\<exists>r. c = CHR 0xC2 \<and> s = CHR 0xA0 # r)" by blast
  then show ?case
  proof cases
    case orn
    with 2 have "puesto ds s" by simp
    with puesto.adorno [OF this, of "[c]"] orn show ?thesis by auto
  next
    case nb
    with 2 have "puesto ds r" by simp
    with puesto.adorno [OF this, of "[CHR 0xC2, CHR 0xA0]"] nb show ?thesis by simp
  next
    case otro
    then have s: "c \<noteq> CHR 0xC2 \<Longrightarrow> sin_adornos (c # s) = c # sin_adornos s" by simp
    have "c \<noteq> CHR 0xC2"
    proof
      assume "c = CHR 0xC2"
      with otro have "\<exists>t. sin_adornos (c # s) = CHR 0xC2 # t" by (cases s) simp_all
      then obtain t where "sin_adornos (c # s) = CHR 0xC2 # t" ..
      with 2(5) e show False by simp
    qed
    have "cifras_de (c # sin_adornos s) = Some ds" using 2(5) by (simp only: s [OF \<open>c \<noteq> CHR 0xC2\<close>])
    then obtain d ds' where d: "digit_val c = Some d" "cifras_de (sin_adornos s) = Some ds'" "ds = d # ds'"
      by (cases "digit_val c") auto
    have "puesto ds' s" by (rule "2.IH"(4) [OF _ \<open>c \<noteq> CHR 0xC2\<close> d(2)]) (use otro in blast)
    with puesto.cifra digit_val_Some [OF d(1)] d(3) show ?thesis by blast
  qed
qed

lemma lee_puesto:
  assumes "puesto ds s"
  shows "lee_numero s = (if length ds = 12 \<and> luhn_suma 1 (rev ds) mod 10 = 0 then Some (con_guiones ds) else None)"
  using puesto_sin_adornos [OF assms] luhn_valid [of ds] by (auto simp: lee_numero_def cifras_de_digits)

lemma puesto_guiones: "\<forall>d \<in> set ds. d < 10 \<Longrightarrow> puesto ds (con_guiones ds)"
  by (rule sin_adornos_puesto) (simp add: sin_adornos_guiones cifras_de_digits)

text \<open>The same digits, set out in another way.\<close>

definition lo_mismo :: "string \<Rightarrow> string \<Rightarrow> bool" where
  "lo_mismo a b \<longleftrightarrow> (\<exists>ds. puesto ds a \<and> puesto ds b)"

text \<open>C35: a number is read however it is set out: the number of an identity, with any spaces, dashes, dots
  and no-break spaces between its digits, before or after them, reads back as the number as it is written; what is read
  of a text is its digits and nothing else. From a number that is read, in whatever form, one with one digit
  changed, or with two neighbours swapped but a 0 and a 9, is refused in whatever form.\<close>

theorem number_is_read_and_typos_are_refused:
  assumes "puesto (xs @ d # e # ys) s" "lee_numero s = Some n"
  shows "(\<forall>t. lo_mismo (numero sha k) t \<longrightarrow> lee_numero t = Some (numero sha k)) \<and>
    (\<forall>t m. lee_numero t = Some m \<longrightarrow> lo_mismo m t) \<and>
    (\<forall>t. lo_mismo s t \<longrightarrow> lee_numero t = Some n) \<and>
    (\<forall>c t. c \<noteq> d \<and> puesto (xs @ c # e # ys) t \<longrightarrow> lee_numero t = None) \<and>
    (\<forall>c t. c \<noteq> e \<and> puesto (xs @ d # c # ys) t \<longrightarrow> lee_numero t = None) \<and>
    (\<forall>t. d \<noteq> e \<and> \<not> (d = 0 \<and> e = 9 \<or> d = 9 \<and> e = 0) \<and> puesto (xs @ e # d # ys) t \<longrightarrow> lee_numero t = None)"
proof -
  have ok: "luhn_suma 1 (rev (xs @ d # e # ys)) mod 10 = 0" "n = con_guiones (xs @ d # e # ys)"
    "length (xs @ d # e # ys) = 12"
    using lee_puesto [OF assms(1)] assms(2) by (simp_all split: if_splits)
  have de: "d < 10" "e < 10" using puesto_sin_adornos [OF assms(1)] by simp_all
  have uniq: "ds = ds'" if "puesto ds a" "puesto ds' a" for ds ds' a
    using puesto_sin_adornos [OF that(1)] puesto_sin_adornos [OF that(2)] cifras_de_digits
    by (metis option.inject)
  obtain ns where ns: "numero sha k = con_guiones ns" "\<forall>d \<in> set ns. d < 10" "length ns = 12"
    "luhn_suma 1 (rev ns) mod 10 = 0" using numero_guiones [of sha k] by (elim exE conjE)
  have "lee_numero t = Some (numero sha k)" if "lo_mismo (numero sha k) t" for t
    using that uniq [OF puesto_guiones [OF ns(2)]] lee_puesto [of ns t] ns by (auto simp: lo_mismo_def)
  moreover have "lee_numero t = Some n" if "lo_mismo s t" for t
    using that uniq [OF assms(1)] lee_puesto [of "xs @ d # e # ys" t] ok by (auto simp: lo_mismo_def)
  moreover have "lo_mismo m t" if m: "lee_numero t = Some m" for t m
  proof -
    from m obtain ds where "cifras_de (sin_adornos t) = Some ds" "m = con_guiones ds"
      by (auto simp: lee_numero_def split: option.splits if_splits)
    with sin_adornos_puesto [OF this(1)] puesto_sin_adornos puesto_guiones show ?thesis
      unfolding lo_mismo_def by blast
  qed
  moreover have "lee_numero t = None" if "c \<noteq> d" "puesto (xs @ c # e # ys) t" for c t
    using lee_puesto [OF that(2)] suma_change [OF ok(1) _ de(1)] that puesto_sin_adornos [OF that(2)] by auto
  moreover have "lee_numero t = None" if "c \<noteq> e" "puesto (xs @ d # c # ys) t" for c t
    using lee_puesto [OF that(2)] puesto_sin_adornos [OF that(2)] that(1)
      suma_change [of "xs @ [d]" e ys c, unfolded append_assoc append_Cons append_Nil, OF ok(1) _ de(2)] by auto
  moreover have "lee_numero t = None"
    if "d \<noteq> e" "\<not> (d = 0 \<and> e = 9 \<or> d = 9 \<and> e = 0)" "puesto (xs @ e # d # ys) t" for t
    using lee_puesto [OF that(3)] suma_swap [OF ok(1) _ de] that(1,2) by auto
  ultimately show ?thesis by blast
qed

theorem number_is_read_and_typos_are_refused_witness:
  "lee_numero (''1234 5678'' @ [CHR 0xC2, CHR 0xA0] @ ''90.31'') = Some ''1234-5678-9031'' \<and>
   lee_numero ''2134-5678-9031'' = None"
proof -
  let ?ds = "[] @ 1 # (2::nat) # [3, 4, 5, 6, 7, 8, 9, 0, 3, 1]"
  have p: "puesto ?ds ''123456789031''" by (rule sin_adornos_puesto) code_simp
  have v: "lee_numero ''123456789031'' = Some ''1234-5678-9031''" by code_simp
  have "puesto ?ds (''1234 5678'' @ [CHR 0xC2, CHR 0xA0] @ ''90.31'')" by (rule sin_adornos_puesto) code_simp
  with p have "lo_mismo ''123456789031'' (''1234 5678'' @ [CHR 0xC2, CHR 0xA0] @ ''90.31'')"
    unfolding lo_mismo_def by blast
  moreover have "puesto ([] @ 2 # 1 # [3, 4, 5, 6, 7, 8, 9, 0, 3, 1]) ''2134-5678-9031''"
    by (rule sin_adornos_puesto) code_simp
  moreover have "(1::nat) \<noteq> 2 \<and> \<not> (1 = (0::nat) \<and> 2 = (9::nat) \<or> 1 = (9::nat) \<and> 2 = (0::nat))" by simp
  ultimately show ?thesis using number_is_read_and_typos_are_refused [OF p v] by blast
qed

end
