(* ===== verification/Archivo.thy ===== *)
theory Archivo imports Secure "HOL-Library.Multiset" begin

text \<open>
  Files between two computers, in numbered blocks: \<open>crates/secure/src/archivo.rs\<close>. The cipher,
  SHA-256 and base64 are other crates' and so parameters; the two random draws are arguments. A
  reader is the list of what its next reads give, a writer what was written and how much it
  takes; a failed read or write is a value.
\<close>

section \<open>Keys and blocks\<close>

definition BLOQUE :: nat where "BLOQUE = 64 * 1024"
definition MAX_BYTES :: nat where "MAX_BYTES = 1024 * 1024 * 1024 * 1024"
definition DOMINIO_ARCHIVO :: bytes where "DOMINIO_ARCHIVO = str_bytes ''GUARDIANA_SECURE_ARCHIVO_V1''"

record llave =
  ll_clave :: string
  ll_prefijo :: string
  ll_bytes :: nat
  ll_bloques :: nat
  ll_sha256 :: string

record bloque_archivo =
  bq_n :: nat
  bq_datos :: bytes

record archivo_crates =
  ax_aead :: aead
  ax_sha :: "bytes \<Rightarrow> bytes"
  ax_b64 :: "bytes \<Rightarrow> string"
  ax_de_b64 :: "string \<Rightarrow> bytes option"

definition nonce_bloque :: "bytes \<Rightarrow> nat \<Rightarrow> bytes" where
  "nonce_bloque prefijo n = prefijo @ be_bytes 8 n"

definition aad_bloque :: "nat \<Rightarrow> nat \<Rightarrow> bytes" where
  "aad_bloque n bloques = DOMINIO_ARCHIVO @ be_bytes 8 n @ be_bytes 8 bloques"

definition aad_flujo :: "nat \<Rightarrow> bytes" where
  "aad_flujo n = DOMINIO_ARCHIVO @ str_bytes ''|flujo|'' @ be_bytes 8 n"

text \<open>A decoded field of exactly so many bytes.\<close>

definition de_b64_n :: "archivo_crates \<Rightarrow> nat \<Rightarrow> string \<Rightarrow> secure_error + bytes" where
  "de_b64_n x n s =
     (case ax_de_b64 x s of
        None \<Rightarrow> Inl CannotOpen
      | Some b \<Rightarrow> if length b = n then Inr b else Inl CannotOpen)"

section \<open>A file in memory\<close>

definition trozos_archivo :: "bytes \<Rightarrow> bytes list" where
  "trozos_archivo plano = (if plano = [] then [[]] else chunks BLOQUE plano)"

fun cifra_bloques :: "aead \<Rightarrow> bytes \<Rightarrow> bytes \<Rightarrow> nat \<Rightarrow> nat \<Rightarrow> bytes list \<Rightarrow> secure_error + bloque_archivo list" where
  "cifra_bloques c clave prefijo bloques n [] = Inr []"
| "cifra_bloques c clave prefijo bloques n (trozo # ts) =
     (case seal c clave (nonce_bloque prefijo n) (aad_bloque n bloques) trozo of
        None \<Rightarrow> Inl CannotOpen
      | Some datos \<Rightarrow>
          and_then (cifra_bloques c clave prefijo bloques (n + 1) ts) (\<lambda>bs.
            Inr (\<lparr>bq_n = n, bq_datos = datos\<rparr> # bs)))"

definition cifrar ::
    "archivo_crates \<Rightarrow> bytes \<Rightarrow> bytes option \<Rightarrow> bytes option \<Rightarrow> secure_error + llave \<times> bloque_archivo list" where
  "cifrar x plano azar_clave azar_prefijo =
     (if length plano > MAX_BYTES then Inl CannotOpen
      else case azar_clave of None \<Rightarrow> Inl CannotOpen
      | Some clave \<Rightarrow> (case azar_prefijo of None \<Rightarrow> Inl CannotOpen
      | Some prefijo \<Rightarrow>
          let bloques = max (length (chunks BLOQUE plano)) 1
          in and_then (cifra_bloques (ax_aead x) clave prefijo bloques 0 (trozos_archivo plano)) (\<lambda>salida.
               Inr (\<lparr>ll_clave = ax_b64 x clave, ll_prefijo = ax_b64 x prefijo, ll_bytes = length plano,
                     ll_bloques = bloques, ll_sha256 = to_hex (ax_sha x plano)\<rparr>, salida))))"

fun descifra_bloques :: "aead \<Rightarrow> bytes \<Rightarrow> bytes \<Rightarrow> nat \<Rightarrow> bloque_archivo list \<Rightarrow> secure_error + bytes" where
  "descifra_bloques c clave prefijo bloques [] = Inr []"
| "descifra_bloques c clave prefijo bloques (b # bs) =
     (case unseal c clave (nonce_bloque prefijo (bq_n b)) (aad_bloque (bq_n b) bloques) (bq_datos b) of
        None \<Rightarrow> Inl CannotOpen
      | Some trozo \<Rightarrow> and_then (descifra_bloques c clave prefijo bloques bs) (\<lambda>plano. Inr (trozo @ plano)))"

definition descifrar :: "archivo_crates \<Rightarrow> llave \<Rightarrow> bloque_archivo list \<Rightarrow> secure_error + bytes" where
  "descifrar x llave bloques =
     and_then (de_b64_n x 32 (ll_clave llave)) (\<lambda>clave.
     and_then (de_b64_n x 16 (ll_prefijo llave)) (\<lambda>prefijo.
       if ll_bytes llave > MAX_BYTES \<or> length bloques \<noteq> ll_bloques llave then Inl CannotOpen
       else
         let ordenados = sort_key bq_n bloques
         in if list_ex (\<lambda>(i, b). bq_n b \<noteq> i) (zip [0 ..< length ordenados] ordenados) then Inl CannotOpen
            else and_then (descifra_bloques (ax_aead x) clave prefijo (ll_bloques llave) ordenados) (\<lambda>plano.
              if length plano \<noteq> ll_bytes llave \<or> to_hex (ax_sha x plano) \<noteq> ll_sha256 llave then Inl CannotOpen
              else Inr plano)))"

section \<open>A file as a stream\<close>

text \<open>What the next reads give: bytes (none is the end), an interruption, a failure.\<close>

datatype lee_dato = Lee bytes | Interrumpida | Falla

fun lee_lleno :: "nat \<Rightarrow> lee_dato list \<Rightarrow> (secure_error + bytes) \<times> lee_dato list" where
  "lee_lleno m [] = (Inr [], [])"
| "lee_lleno m (Lee b # rs) =
     (if m = 0 then (Inr [], Lee b # rs)
      else if b = [] then (Inr [], rs)
      else if length b \<le> m then
        (case lee_lleno (m - length b) rs of
           (Inl e, rs') \<Rightarrow> (Inl e, rs')
         | (Inr d, rs') \<Rightarrow> (Inr (b @ d), rs'))
      else (Inr (take m b), Lee (drop m b) # rs))"
| "lee_lleno m (Interrumpida # rs) = (if m = 0 then (Inr [], Interrumpida # rs) else lee_lleno m rs)"
| "lee_lleno m (Falla # rs) = (if m = 0 then (Inr [], Falla # rs) else (Inl CannotOpen, rs))"

definition read_exact :: "nat \<Rightarrow> lee_dato list \<Rightarrow> secure_error + bytes \<times> lee_dato list" where
  "read_exact m rs =
     (case lee_lleno m rs of
        (Inl e, _) \<Rightarrow> Inl e
      | (Inr b, rs') \<Rightarrow> if length b = m then Inr (b, rs') else Inl CannotOpen)"

text \<open>How much there is left to read.\<close>

definition por_leer :: "lee_dato list \<Rightarrow> nat" where
  "por_leer rs = sum_list (map (\<lambda>l. case l of Lee b \<Rightarrow> length b | _ \<Rightarrow> 0) rs)"

lemma por_leer_simps [simp]:
  "por_leer [] = 0" "por_leer (Lee b # rs) = length b + por_leer rs"
  "por_leer (Interrumpida # rs) = por_leer rs" "por_leer (Falla # rs) = por_leer rs"
  by (simp_all add: por_leer_def)

lemma lee_lleno_por_leer: "lee_lleno m rs = (Inr b, rs') \<Longrightarrow> length b + por_leer rs' = por_leer rs"
  by (induction m rs arbitrary: b rs' rule: lee_lleno.induct) (auto split: if_splits prod.splits sum.splits)

record destino =
  de_datos :: bytes
  de_cabe :: "nat option"
  de_flush :: bool

definition write_all :: "bytes \<Rightarrow> destino \<Rightarrow> secure_error + destino" where
  "write_all b w =
     (case de_cabe w of
        None \<Rightarrow> Inr (w\<lparr>de_datos := de_datos w @ b\<rparr>)
      | Some m \<Rightarrow> if length (de_datos w) + length b \<le> m then Inr (w\<lparr>de_datos := de_datos w @ b\<rparr>) else Inl CannotOpen)"

record cifrador =
  cf_clave :: bytes
  cf_prefijo :: bytes
  cf_hash :: bytes
  cf_bytes :: nat
  cf_bloques :: nat

definition cifrador_de :: "bytes \<Rightarrow> bytes \<Rightarrow> cifrador" where
  "cifrador_de clave prefijo = \<lparr>cf_clave = clave, cf_prefijo = prefijo, cf_hash = [], cf_bytes = 0, cf_bloques = 0\<rparr>"

definition cifrador_new :: "bytes option \<Rightarrow> bytes option \<Rightarrow> secure_error + cifrador" where
  "cifrador_new azar_clave azar_prefijo =
     (case azar_clave of None \<Rightarrow> Inl CannotOpen
      | Some clave \<Rightarrow> (case azar_prefijo of None \<Rightarrow> Inl CannotOpen
      | Some prefijo \<Rightarrow> Inr (cifrador_de clave prefijo)))"

definition cifrador_con :: "archivo_crates \<Rightarrow> llave \<Rightarrow> secure_error + cifrador" where
  "cifrador_con x llave =
     and_then (de_b64_n x 32 (ll_clave llave)) (\<lambda>clave.
     and_then (de_b64_n x 16 (ll_prefijo llave)) (\<lambda>prefijo. Inr (cifrador_de clave prefijo)))"

function cifra_bucle ::
    "aead \<Rightarrow> nat \<Rightarrow> bool \<Rightarrow> cifrador \<Rightarrow> lee_dato list \<Rightarrow> destino \<Rightarrow> secure_error + cifrador \<times> destino" where
  "cifra_bucle c desde primero cf rs w =
     (case lee_lleno BLOQUE rs of
        (Inl e, _) \<Rightarrow> Inl e
      | (Inr trozo, rs') \<Rightarrow>
          if length trozo = 0 \<and> \<not> primero then Inr (cf, w)
          else if cf_bytes cf + length trozo > MAX_BYTES then Inl CannotOpen
          else case seal c (cf_clave cf) (nonce_bloque (cf_prefijo cf) (cf_bloques cf)) (aad_flujo (cf_bloques cf)) trozo of
                 None \<Rightarrow> Inl CannotOpen
               | Some s \<Rightarrow>
                   (case (if cf_bloques cf \<ge> desde then and_then (write_all (be_bytes 8 (length s)) w) (write_all s) else Inr w) of
                      Inl e \<Rightarrow> Inl e
                    | Inr w' \<Rightarrow>
                        let cf' = cf\<lparr>cf_hash := cf_hash cf @ trozo, cf_bytes := cf_bytes cf + length trozo,
                                     cf_bloques := cf_bloques cf + 1\<rparr>
                        in if length trozo < BLOQUE then Inr (cf', w')
                           else cifra_bucle c desde False cf' rs' w'))"
  by pat_completeness auto
termination
  by (relation "measure (\<lambda>(_, _, _, _, rs, _). por_leer rs)")
     (auto dest!: lee_lleno_por_leer [OF sym] lee_lleno_por_leer simp: BLOQUE_def)

declare cifra_bucle.simps [simp del]

definition cifra_desde ::
    "archivo_crates \<Rightarrow> cifrador \<Rightarrow> lee_dato list \<Rightarrow> destino \<Rightarrow> nat \<Rightarrow> secure_error + llave \<times> destino" where
  "cifra_desde x cf rs w desde =
     and_then (cifra_bucle (ax_aead x) desde True cf rs w) (\<lambda>(cf, w).
       if \<not> de_flush w then Inl CannotOpen
       else Inr (\<lparr>ll_clave = ax_b64 x (cf_clave cf), ll_prefijo = ax_b64 x (cf_prefijo cf), ll_bytes = cf_bytes cf,
                  ll_bloques = cf_bloques cf, ll_sha256 = to_hex (ax_sha x (cf_hash cf))\<rparr>, w))"

definition cifra_archivo :: "archivo_crates \<Rightarrow> cifrador \<Rightarrow> lee_dato list \<Rightarrow> destino \<Rightarrow> secure_error + llave \<times> destino" where
  "cifra_archivo x cf rs w = cifra_desde x cf rs w 0"

function descifra_bucle ::
    "aead \<Rightarrow> bytes \<Rightarrow> bytes \<Rightarrow> nat \<Rightarrow> nat \<Rightarrow> bytes \<Rightarrow> lee_dato list \<Rightarrow> destino \<Rightarrow> secure_error + bytes \<times> destino" where
  "descifra_bucle c clave prefijo bloques n hash rs w =
     (if n < bloques then
        and_then (read_exact 8 rs) (\<lambda>(largo, rs).
          let l = from_be largo
          in if l > BLOQUE + 64 then Inl CannotOpen
             else and_then (read_exact l rs) (\<lambda>(b, rs).
               case unseal c clave (nonce_bloque prefijo n) (aad_flujo n) b of
                 None \<Rightarrow> Inl CannotOpen
               | Some trozo \<Rightarrow>
                   and_then (write_all trozo w) (\<lambda>w.
                     descifra_bucle c clave prefijo bloques (n + 1) (hash @ trozo) rs w)))
      else Inr (hash, w))"
  by pat_completeness auto
termination
  by (relation "measure (\<lambda>(_, _, _, bloques, n, _). bloques - n)") auto

declare descifra_bucle.simps [simp del]

text \<open>The bytes counted are those hashed.\<close>

definition descifra_flujo :: "archivo_crates \<Rightarrow> llave \<Rightarrow> lee_dato list \<Rightarrow> destino \<Rightarrow> secure_error + destino" where
  "descifra_flujo x llave rs w =
     and_then (de_b64_n x 32 (ll_clave llave)) (\<lambda>clave.
     and_then (de_b64_n x 16 (ll_prefijo llave)) (\<lambda>prefijo.
       if ll_bytes llave > MAX_BYTES then Inl CannotOpen
       else and_then (descifra_bucle (ax_aead x) clave prefijo (ll_bloques llave) 0 [] rs w) (\<lambda>(hash, w).
         if \<not> de_flush w then Inl CannotOpen
         else if length hash \<noteq> ll_bytes llave \<or> to_hex (ax_sha x hash) \<noteq> ll_sha256 llave then Inl CannotOpen
         else Inr w)))"

section \<open>Reading and writing\<close>

text \<open>A reader that gives these bytes, in reads of any size and with any interruptions, and then ends.\<close>

definition da_lectura :: "lee_dato list \<Rightarrow> bytes \<Rightarrow> bool" where
  "da_lectura rs b \<longleftrightarrow> (\<forall>l \<in> set rs. l \<noteq> Falla \<and> l \<noteq> Lee []) \<and>
     concat (map (\<lambda>l. case l of Lee d \<Rightarrow> d | _ \<Rightarrow> []) rs) = b"

lemma da_lectura_simps [simp]:
  "da_lectura [] b \<longleftrightarrow> b = []"
  "da_lectura (Lee d # rs) b \<longleftrightarrow> d \<noteq> [] \<and> (\<exists>b'. b = d @ b' \<and> da_lectura rs b')"
  "da_lectura (Interrumpida # rs) b \<longleftrightarrow> da_lectura rs b"
  "\<not> da_lectura (Falla # rs) b"
  by (auto simp: da_lectura_def)

lemma lee_lleno_da:
  "da_lectura rs b \<Longrightarrow> \<exists>rs'. lee_lleno m rs = (Inr (take m b), rs') \<and> da_lectura rs' (drop m b)"
proof (induction m rs arbitrary: b rule: lee_lleno.induct)
  case (2 m d rs)
  then obtain b' where b: "b = d @ b'" "da_lectura rs b'" "d \<noteq> []" by auto
  show ?case
  proof (cases "m = 0")
    case True
    then show ?thesis using b by auto
  next
    case False
    show ?thesis
    proof (cases "length d \<le> m")
      case True
      from 2(1) [OF False b(3) True b(2)] obtain rs' where
        "lee_lleno (m - length d) rs = (Inr (take (m - length d) b'), rs')" "da_lectura rs' (drop (m - length d) b')" by blast
      then show ?thesis using False True b by simp
    qed (use False b in auto)
  qed
qed (auto split: if_splits)

lemma read_exact_da:
  assumes "da_lectura rs (b @ r)"
  shows "\<exists>rs'. read_exact (length b) rs = Inr (b, rs') \<and> da_lectura rs' r"
  using lee_lleno_da [OF assms, of "length b"] by (auto simp: read_exact_def)

definition libre :: destino where
  "libre = \<lparr>de_datos = [], de_cabe = None, de_flush = True\<rparr>"

lemma write_all_libre [simp]: "write_all b (w\<lparr>de_cabe := None\<rparr>) = Inr (w\<lparr>de_cabe := None, de_datos := de_datos w @ b\<rparr>)"
  by (simp add: write_all_def)

lemma write_all_None: "de_cabe w = None \<Longrightarrow> write_all b w = Inr (w\<lparr>de_datos := de_datos w @ b\<rparr>)"
  by (simp add: write_all_def)

section \<open>What the stream is\<close>

lemma BLOQUE_pos: "0 < BLOQUE" by (simp add: BLOQUE_def)

lemma trozos_archivo_ne [simp]: "trozos_archivo b \<noteq> []"
  using chunks_step [OF BLOQUE_pos, of b] by (simp add: trozos_archivo_def)

lemma trozos_archivo_short: "t \<in> set (trozos_archivo b) \<Longrightarrow> length t \<le> BLOQUE"
  using chunks_short [OF BLOQUE_pos] by (auto simp: trozos_archivo_def split: if_splits)

lemma concat_trozos_archivo: "concat (trozos_archivo b) = b"
  by (simp add: trozos_archivo_def concat_chunks [OF BLOQUE_pos])

lemma length_trozos_archivo: "length (trozos_archivo b) = max (length (chunks BLOQUE b)) 1"
  using chunks_step [OF BLOQUE_pos, of b] by (cases "b = []") (simp_all add: trozos_archivo_def)

text \<open>The frames of the blocks from number \<open>i\<close> on: the length in eight bytes, and the block.\<close>

definition sello_flujo :: "aead \<Rightarrow> bytes \<Rightarrow> bytes \<Rightarrow> nat \<Rightarrow> bytes \<Rightarrow> bytes" where
  "sello_flujo c clave prefijo n t = the (seal c clave (nonce_bloque prefijo n) (aad_flujo n) t)"

definition trama_flujo :: "aead \<Rightarrow> bytes \<Rightarrow> bytes \<Rightarrow> nat \<Rightarrow> bytes \<Rightarrow> bytes" where
  "trama_flujo c clave prefijo n t =
     be_bytes 8 (length (sello_flujo c clave prefijo n t)) @ sello_flujo c clave prefijo n t"

fun tramas_flujo :: "aead \<Rightarrow> bytes \<Rightarrow> bytes \<Rightarrow> nat \<Rightarrow> nat \<Rightarrow> bytes list \<Rightarrow> bytes" where
  "tramas_flujo c clave prefijo desde n [] = []"
| "tramas_flujo c clave prefijo desde n (t # ts) =
     (if n \<ge> desde then trama_flujo c clave prefijo n t else []) @ tramas_flujo c clave prefijo desde (n + 1) ts"

lemma tramas_flujo_append:
  "tramas_flujo c k p d n (ts @ us) = tramas_flujo c k p d n ts @ tramas_flujo c k p d (n + length ts) us"
  by (induction ts arbitrary: n) auto

lemma tramas_before: "n + length ts \<le> d \<Longrightarrow> tramas_flujo c k p d n ts = []"
  by (induction ts arbitrary: n) auto

lemma tramas_after: "d \<le> n \<Longrightarrow> tramas_flujo c k p d n ts = tramas_flujo c k p 0 n ts"
  by (induction ts arbitrary: n) auto

text \<open>What was written before block \<open>d\<close>, and what is written from it on.\<close>

lemma tramas_split:
  "d \<le> length ts \<Longrightarrow> tramas_flujo c k p 0 0 ts = tramas_flujo c k p 0 0 (take d ts) @ tramas_flujo c k p d 0 ts"
  using tramas_flujo_append [of c k p 0 0 "take d ts" "drop d ts"] tramas_flujo_append [of c k p d 0 "take d ts" "drop d ts"]
    tramas_before [of 0 "take d ts" d c k p] tramas_after [of d "0 + length (take d ts)" c k p "drop d ts"]
  by simp

lemma sello_flujo_some:
  assumes "seals_upto BLOQUE c" "length t \<le> BLOQUE"
  shows "seal c k (nonce_bloque p n) (aad_flujo n) t = Some (sello_flujo c k p n t)"
    "unseal c k (nonce_bloque p n) (aad_flujo n) (sello_flujo c k p n t) = Some t"
  by (rule sealsE [OF assms, of k "nonce_bloque p n" "aad_flujo n"], simp add: sello_flujo_def)+

text \<open>What the loop writes: the blocks of what is left, or nothing more after a last full one.\<close>

definition quedan :: "bool \<Rightarrow> bytes \<Rightarrow> bytes list" where
  "quedan primero b = (if b = [] \<and> \<not> primero then [] else trozos_archivo b)"

lemma quedan_full: "BLOQUE \<le> length b \<Longrightarrow> quedan primero b = take BLOQUE b # quedan False (drop BLOQUE b)"
proof -
  assume le: "BLOQUE \<le> length b"
  then have ne: "b \<noteq> []" using BLOQUE_pos by auto
  have "chunks BLOQUE b = take BLOQUE b # chunks BLOQUE (drop BLOQUE b)" by (rule chunks_step [OF BLOQUE_pos ne])
  then show ?thesis using ne le by (simp add: quedan_def trozos_archivo_def)
qed

lemma quedan_last: "length b < BLOQUE \<Longrightarrow> \<not> (b = [] \<and> \<not> primero) \<Longrightarrow> quedan primero b = [b]"
  using chunks_step [OF BLOQUE_pos, of b] by (auto simp: quedan_def trozos_archivo_def)

lemma cifra_bucle_spec:
  "\<lbrakk>seals_upto BLOQUE c; da_lectura rs b; de_cabe w = None; cf_bytes cf + length b \<le> MAX_BYTES\<rbrakk> \<Longrightarrow>
   cifra_bucle c desde primero cf rs w =
     Inr (cf\<lparr>cf_hash := cf_hash cf @ b, cf_bytes := cf_bytes cf + length b,
             cf_bloques := cf_bloques cf + length (quedan primero b)\<rparr>,
          w\<lparr>de_datos := de_datos w @
             tramas_flujo c (cf_clave cf) (cf_prefijo cf) desde (cf_bloques cf) (quedan primero b)\<rparr>)"
proof (induction "length b" arbitrary: b primero cf rs w rule: less_induct)
  case less
  obtain rs' where rd: "lee_lleno BLOQUE rs = (Inr (take BLOQUE b), rs')" "da_lectura rs' (drop BLOQUE b)"
    using lee_lleno_da [OF less(3)] by blast
  let ?t = "take BLOQUE b" and ?k = "cf_clave cf" and ?p = "cf_prefijo cf" and ?n = "cf_bloques cf"
  note sel = sello_flujo_some [OF less(2), of ?t ?k ?p ?n]
  have max: "\<not> cf_bytes cf + length ?t > MAX_BYTES" using less(5) by simp
  define w' where "w' = (if ?n \<ge> desde then w\<lparr>de_datos := de_datos w @ trama_flujo c ?k ?p ?n ?t\<rparr> else w)"
  have wr: "(if ?n \<ge> desde then and_then (write_all (be_bytes 8 (length (sello_flujo c ?k ?p ?n ?t))) w)
      (write_all (sello_flujo c ?k ?p ?n ?t)) else Inr w) = Inr w'"
    using less(4) by (simp add: w'_def write_all_def and_then_def trama_flujo_def)
  show ?case
  proof (cases "b = [] \<and> \<not> primero")
    case True
    then show ?thesis using rd by (subst cifra_bucle.simps) (simp add: quedan_def)
  next
    case go: False
    then have go': "\<not> (length ?t = 0 \<and> \<not> primero)" using BLOQUE_pos by auto
    show ?thesis
    proof (cases "length b < BLOQUE")
      case True
      then have tb: "take BLOQUE b = b" by simp
      have "cifra_bucle c desde primero cf rs w =
          Inr (cf\<lparr>cf_hash := cf_hash cf @ b, cf_bytes := cf_bytes cf + length b, cf_bloques := ?n + 1\<rparr>, w')"
        using rd(1) go' max sel(1) wr True unfolding tb
        by (subst cifra_bucle.simps) (auto simp: Let_def)
      then show ?thesis using quedan_last [OF True go] by (simp add: w'_def tb)
    next
      case False
      define cf' where "cf' = cf\<lparr>cf_hash := cf_hash cf @ ?t, cf_bytes := cf_bytes cf + length ?t, cf_bloques := ?n + 1\<rparr>"
      have q: "quedan primero b = ?t # quedan False (drop BLOQUE b)" using False by (intro quedan_full) simp
      have "length (drop BLOQUE b) < length b" using False BLOQUE_pos by simp
      from less(1) [OF this less(2) rd(2), of w' cf' False] less(4,5) False
      have "cifra_bucle c desde False cf' rs' w' =
        Inr (cf'\<lparr>cf_hash := cf_hash cf' @ drop BLOQUE b, cf_bytes := cf_bytes cf' + length (drop BLOQUE b),
             cf_bloques := cf_bloques cf' + length (quedan False (drop BLOQUE b))\<rparr>,
          w'\<lparr>de_datos := de_datos w' @ tramas_flujo c (cf_clave cf') (cf_prefijo cf') desde (cf_bloques cf')
             (quedan False (drop BLOQUE b))\<rparr>)"
        by (simp add: w'_def cf'_def)
      moreover have "cifra_bucle c desde primero cf rs w = cifra_bucle c desde False cf' rs' w'"
        using rd(1) go' max sel(1) wr False BLOQUE_pos
        by (subst cifra_bucle.simps) (auto simp: cf'_def Let_def)
      ultimately show ?thesis using False by (simp add: q cf'_def w'_def)
    qed
  qed
qed

lemma descifra_bucle_spec:
  "\<lbrakk>seals_upto BLOQUE c; \<forall>t \<in> set ts. length t \<le> BLOQUE; \<forall>k n a t s. seal c k n a t = Some s \<longrightarrow> length s \<le> length t + 64;
    da_lectura rs (tramas_flujo c k p 0 n ts); de_cabe w = None\<rbrakk> \<Longrightarrow>
   descifra_bucle c k p (n + length ts) n hash rs w =
     Inr (hash @ concat ts, w\<lparr>de_datos := de_datos w @ concat ts\<rparr>)"
proof (induction ts arbitrary: n hash rs w)
  case Nil
  then show ?case by (simp add: descifra_bucle.simps)
next
  case (Cons t ts)
  let ?s = "sello_flujo c k p n t"
  have t: "length t \<le> BLOQUE" using Cons.prems(2) by simp
  note sel = sello_flujo_some [OF Cons.prems(1) t, of k p n]
  have short: "length ?s \<le> BLOQUE + 64" using sel(1) Cons.prems(3) t by (meson add_le_mono1 le_trans)
  then have be: "from_be (be_bytes 8 (length ?s)) = length ?s" by (intro from_be_bytes) (simp add: BLOQUE_def)
  have "da_lectura rs (be_bytes 8 (length ?s) @ (?s @ tramas_flujo c k p 0 (n + 1) ts))"
    using Cons.prems(4) by (simp add: trama_flujo_def)
  from read_exact_da [OF this] obtain rs1 where r1: "read_exact 8 rs = Inr (be_bytes 8 (length ?s), rs1)"
    "da_lectura rs1 (?s @ tramas_flujo c k p 0 (n + 1) ts)" by auto
  from read_exact_da [OF r1(2)] obtain rs2 where r2: "read_exact (length ?s) rs1 = Inr (?s, rs2)"
    "da_lectura rs2 (tramas_flujo c k p 0 (n + 1) ts)" by blast
  have "descifra_bucle c k p (n + length (t # ts)) n hash rs w =
      descifra_bucle c k p (n + 1 + length ts) (n + 1) (hash @ t) rs2 (w\<lparr>de_datos := de_datos w @ t\<rparr>)"
    using short Cons.prems(5)
    by (subst descifra_bucle.simps) (simp add: and_then_def r1(1) r2(1) be sel(2) Let_def write_all_None)
  also have "\<dots> = Inr ((hash @ t) @ concat ts, w\<lparr>de_datos := (de_datos w @ t) @ concat ts\<rparr>)"
    using Cons.IH [OF Cons.prems(1) _ Cons.prems(3) r2(2), of "w\<lparr>de_datos := de_datos w @ t\<rparr>" "hash @ t"] Cons.prems(2,5)
    by simp
  finally show ?case by simp
qed

definition base64_va :: "archivo_crates \<Rightarrow> bool" where
  "base64_va x \<longleftrightarrow> (\<forall>b. ax_de_b64 x (ax_b64 x b) = Some b)"

definition corto :: "aead \<Rightarrow> bool" where
  "corto c \<longleftrightarrow> (\<forall>k n a t s. seal c k n a t = Some s \<longrightarrow> length s \<le> length t + 64)"

lemma de_b64_n_va: "base64_va x \<Longrightarrow> length b = n \<Longrightarrow> de_b64_n x n (ax_b64 x b) = Inr b"
  by (simp add: de_b64_n_def base64_va_def)

text \<open>C36: a file arrives even when the road breaks. Encrypted as a stream, however it is read, it gives
  a key and frames; a second pass over the same file with that key, from any block on, gives the
  same key and the frames that were left, so that what was kept and what comes after join into the
  whole stream; and the stream, however it arrives, opens to the file.\<close>

theorem resumed_file_joins_up:
  assumes "seals_upto BLOQUE (ax_aead x)" "corto (ax_aead x)" "base64_va x"
    and "length clave = 32" "length prefijo = 16" "length b \<le> MAX_BYTES"
    and "da_lectura rs b" "da_lectura rs' b" "d \<le> length (trozos_archivo b)"
  shows "\<exists>ll w w'. cifra_archivo x (cifrador_de clave prefijo) rs libre = Inr (ll, w) \<and>
    and_then (cifrador_con x ll) (\<lambda>cf. cifra_desde x cf rs' libre d) = Inr (ll, w') \<and>
    de_datos w = tramas_flujo (ax_aead x) clave prefijo 0 0 (take d (trozos_archivo b)) @ de_datos w' \<and>
    (\<forall>qs. da_lectura qs (de_datos w) \<longrightarrow> map_sum id de_datos (descifra_flujo x ll qs libre) = Inr b)"
proof -
  let ?ts = "trozos_archivo b" and ?c = "ax_aead x"
  define ll where "ll = \<lparr>ll_clave = ax_b64 x clave, ll_prefijo = ax_b64 x prefijo, ll_bytes = length b,
    ll_bloques = length ?ts, ll_sha256 = to_hex (ax_sha x b)\<rparr>"
  have q: "quedan True b = ?ts" by (simp add: quedan_def)
  have pass: "cifra_desde x (cifrador_de clave prefijo) rs libre i =
      Inr (ll, libre\<lparr>de_datos := tramas_flujo ?c clave prefijo i 0 ?ts\<rparr>)" if "da_lectura rs b" for rs i
    using cifra_bucle_spec [OF assms(1) that, of libre "cifrador_de clave prefijo" i True] assms(6)
    by (simp add: cifra_desde_def and_then_def libre_def cifrador_de_def q ll_def)
  have con: "cifrador_con x ll = Inr (cifrador_de clave prefijo)"
    using assms(3-5) by (simp add: cifrador_con_def ll_def de_b64_n_va and_then_def)
  have opens: "map_sum id de_datos (descifra_flujo x ll qs libre) = Inr b"
    if "da_lectura qs (tramas_flujo ?c clave prefijo 0 0 ?ts)" for qs
  proof -
    have "descifra_bucle ?c clave prefijo (0 + length ?ts) 0 [] qs libre =
        Inr ([] @ concat ?ts, libre\<lparr>de_datos := de_datos libre @ concat ?ts\<rparr>)"
      by (rule descifra_bucle_spec [OF assms(1) _ assms(2) [unfolded corto_def] that])
         (auto simp: trozos_archivo_short libre_def)
    then show ?thesis using assms(3-6)
      by (simp add: descifra_flujo_def ll_def de_b64_n_va and_then_def concat_trozos_archivo libre_def)
  qed
  show ?thesis
    using pass [OF assms(7), of 0] pass [OF assms(8), of d] con opens tramas_split [OF assms(9), of ?c clave prefijo]
    by (intro exI [of _ ll] exI [of _ "libre\<lparr>de_datos := tramas_flujo ?c clave prefijo 0 0 ?ts\<rparr>"]
        exI [of _ "libre\<lparr>de_datos := tramas_flujo ?c clave prefijo d 0 ?ts\<rparr>"])
       (simp add: cifra_archivo_def and_then_def)
qed

text \<open>A cipher for the witnesses, with a short tag.\<close>

definition corto_ejemplo :: aead where
  "corto_ejemplo = \<lparr>seal = (\<lambda>k n a t. Some (t @ [7])), unseal = (\<lambda>k n a s. if s \<noteq> [] \<and> last s = 7 then Some (butlast s) else None)\<rparr>"

definition crates_ejemplo :: archivo_crates where
  "crates_ejemplo = \<lparr>ax_aead = corto_ejemplo, ax_sha = (\<lambda>b. be_bytes 32 (from_be b)), ax_b64 = to_hex, ax_de_b64 = hex_pairs\<rparr>"

lemma crates_ejemplo_ok:
  "seals_upto m (ax_aead crates_ejemplo)" "corto (ax_aead crates_ejemplo)" "base64_va crates_ejemplo"
  by (auto simp: crates_ejemplo_def corto_ejemplo_def seals_upto_def corto_def base64_va_def hex_pairs_to_hex)

theorem resumed_file_joins_up_witness:
  "\<exists>ll w w'. cifra_archivo crates_ejemplo (cifrador_de (replicate 32 1) (replicate 16 2))
       [Lee [5], Interrumpida, Lee [6, 7]] libre = Inr (ll, w) \<and>
     and_then (cifrador_con crates_ejemplo ll) (\<lambda>cf. cifra_desde crates_ejemplo cf [Lee [5, 6, 7]] libre 0) = Inr (ll, w') \<and>
     de_datos w = de_datos w' \<and>
     map_sum id de_datos (descifra_flujo crates_ejemplo ll (map (\<lambda>b. Lee [b]) (de_datos w)) libre) = Inr [5, 6, 7]"
proof -
  have rd: "da_lectura [Lee [5], Interrumpida, Lee [6, 7]] [5, 6, 7]" "da_lectura [Lee [5, 6, 7]] [5, 6, 7]" by simp_all
  have len: "length (replicate 32 (1 :: byte)) = 32" "length (replicate 16 (2 :: byte)) = 16"
    "length [5, 6, 7 :: byte] \<le> MAX_BYTES" by (simp_all add: MAX_BYTES_def)
  from resumed_file_joins_up [OF crates_ejemplo_ok len rd, of 0]
  obtain ll w w' where a: "cifra_archivo crates_ejemplo (cifrador_de (replicate 32 1) (replicate 16 2))
       [Lee [5], Interrumpida, Lee [6, 7]] libre = Inr (ll, w)"
     "and_then (cifrador_con crates_ejemplo ll) (\<lambda>cf. cifra_desde crates_ejemplo cf [Lee [5, 6, 7]] libre 0) = Inr (ll, w')"
     "de_datos w = de_datos w'"
     "\<And>qs. da_lectura qs (de_datos w) \<Longrightarrow> map_sum id de_datos (descifra_flujo crates_ejemplo ll qs libre) = Inr [5, 6, 7]"
    by auto
  have "da_lectura (map (\<lambda>b. Lee [b]) d) d" for d by (induction d) simp_all
  with a show ?thesis by metis
qed

section \<open>Blocks in any order\<close>

lemma cifra_bloques_spec:
  "\<lbrakk>seals_upto BLOQUE c; \<forall>t \<in> set ts. length t \<le> BLOQUE\<rbrakk> \<Longrightarrow>
   \<exists>bs. cifra_bloques c k p m n ts = Inr bs \<and> map bq_n bs = [n ..< n + length ts] \<and>
     descifra_bloques c k p m bs = Inr (concat ts)"
proof (induction ts arbitrary: n)
  case (Cons t ts)
  obtain s where s: "seal c k (nonce_bloque p n) (aad_bloque n m) t = Some s"
    "unseal c k (nonce_bloque p n) (aad_bloque n m) s = Some t"
    using sealsE [OF Cons.prems(1)] Cons.prems(2) by (metis list.set_intros(1))
  from Cons.IH [of "n + 1"] Cons.prems obtain bs where bs: "cifra_bloques c k p m (n + 1) ts = Inr bs"
    "map bq_n bs = [n + 1 ..< n + 1 + length ts]" "descifra_bloques c k p m bs = Inr (concat ts)" by auto
  have "[n ..< n + length (t # ts)] = n # [n + 1 ..< n + 1 + length ts]"
    by (simp add: upt_conv_Cons del: upt_Suc)
  then show ?case using s bs by (simp add: and_then_def)
qed simp

text \<open>Sorted by number, the blocks are in the order they were made.\<close>

lemma sort_blocks:
  assumes "map bq_n bs = [0 ..< n]" "mset cs = mset bs"
  shows "sort_key bq_n cs = bs"
proof (rule sort_key_inj_key_eq [OF assms(2)])
  have "distinct (map bq_n bs)" by (simp add: assms(1))
  moreover have "set cs = set bs" using assms(2) by (rule mset_eq_setD)
  ultimately show "inj_on bq_n (set cs)" by (simp add: distinct_map)
  show "sorted (map bq_n bs)" by (simp add: assms(1))
qed

lemma numbered: "map bq_n bs = [0 ..< n] \<Longrightarrow> \<not> list_ex (\<lambda>(i, b). bq_n b \<noteq> i) (zip [0 ..< length bs] bs)"
proof -
  assume m: "map bq_n bs = [0 ..< n]"
  then have len: "length bs = n" by (metis length_map length_upt diff_zero)
  have "bq_n (bs ! i) = i" if "i < length bs" for i
    using that len arg_cong [OF m, of "\<lambda>xs. xs ! i"] by simp
  then show ?thesis by (auto simp: list_ex_iff in_set_zip)
qed

text \<open>A file in memory comes back from its key and its blocks in whatever order they arrive, and
  what opens under a key has the size and the digest the key says: it is the file that was
  encrypted or two files with one digest are at hand.\<close>

theorem file_opens_in_any_order:
  assumes "seals_upto BLOQUE (ax_aead x)" "base64_va x"
    and "length clave = 32" "length prefijo = 16" "length b \<le> MAX_BYTES"
  shows "\<exists>ll bs. cifrar x b (Some clave) (Some prefijo) = Inr (ll, bs) \<and>
    (\<forall>cs. mset cs = mset bs \<longrightarrow> descifrar x ll cs = Inr b) \<and>
    (\<forall>cs d. descifrar x ll cs = Inr d \<longrightarrow> length d = length b \<and> to_hex (ax_sha x d) = to_hex (ax_sha x b))"
proof -
  let ?m = "length (trozos_archivo b)"
  obtain bs where bs: "cifra_bloques (ax_aead x) clave prefijo ?m 0 (trozos_archivo b) = Inr bs"
    "map bq_n bs = [0 ..< ?m]" "descifra_bloques (ax_aead x) clave prefijo ?m bs = Inr b"
    using cifra_bloques_spec [OF assms(1), of "trozos_archivo b" clave prefijo ?m 0]
    by (auto simp: trozos_archivo_short concat_trozos_archivo)
  define ll where "ll = \<lparr>ll_clave = ax_b64 x clave, ll_prefijo = ax_b64 x prefijo, ll_bytes = length b,
    ll_bloques = ?m, ll_sha256 = to_hex (ax_sha x b)\<rparr>"
  have "cifrar x b (Some clave) (Some prefijo) = Inr (ll, bs)"
    using assms(5) bs(1) by (simp add: cifrar_def Let_def and_then_def ll_def length_trozos_archivo)
  moreover have "descifrar x ll cs = Inr b" if "mset cs = mset bs" for cs
  proof -
    have "sort_key bq_n cs = bs" by (rule sort_blocks [OF bs(2) that])
    moreover have "length cs = ?m" using that bs(2) by (metis length_map length_upt diff_zero mset_eq_length)
    ultimately show ?thesis using numbered [OF bs(2)] bs(3) assms(2-5)
      by (simp add: descifrar_def ll_def de_b64_n_va and_then_def Let_def)
  qed
  moreover have "length d = length b \<and> to_hex (ax_sha x d) = to_hex (ax_sha x b)" if "descifrar x ll cs = Inr d" for cs d
    using that by (auto simp: descifrar_def ll_def and_then_def Let_def split: sum.splits if_splits)
  ultimately show ?thesis by blast
qed

theorem file_opens_in_any_order_witness:
  "\<exists>ll bs. cifrar crates_ejemplo [5, 6] (Some (replicate 32 1)) (Some (replicate 16 2)) = Inr (ll, bs) \<and>
     descifrar crates_ejemplo ll (rev bs) = Inr [5, 6]"
proof -
  have len: "length (replicate 32 (1 :: byte)) = 32" "length (replicate 16 (2 :: byte)) = 16"
    "length [5, 6 :: byte] \<le> MAX_BYTES" by (simp_all add: MAX_BYTES_def)
  from file_opens_in_any_order [OF crates_ejemplo_ok(1,3) len] show ?thesis by (metis mset_rev)
qed

end
