(* ===== verification/Sala.thy ===== *)
theory Sala imports Entrega Flujo Prueba begin

text \<open>
  The room of deliveries of one computer, \<open>crates/zero/src/entrega.rs\<close>: what keeps the deliveries,
  their keys, their sealed files, their receipts and their chain, and what it does with what the
  receiver's thread says. It composes the rules of a delivery (\<open>Entrega\<close>), the packer (\<open>Flujo\<close>) and
  the chain of evidence (\<open>Prueba\<close>). The thread, the relay and the page are outside: what the thread
  says comes in as events and what is said to it goes out as a list. The JSON texts, the signature
  of a receipt and the state sealed on disk are parameters or kept as values; a delivery's room is
  found by its id, the first of that id as in the code. A manifest, a link and a notice are the
  values their JSON text is written from.
\<close>

section \<open>State\<close>

definition MAX_ENTREGAS :: nat where "MAX_ENTREGAS = 50"
definition ACUSE_S :: nat where "ACUSE_S = 120"
definition PASO :: nat where "PASO = 4 + TROZO + 16"
definition MAX_ARCHIVO :: nat where "MAX_ARCHIVO = 1024 * 1024 * 1024 * 1024"

record recibo =
  rb_algoritmo :: string
  rb_contenido :: string
  rb_clave :: string
  rb_firma :: string

record carga =
  cg_empaquetador :: empaquetador
  cg_clave :: clave
  cg_nombre :: string
  cg_escritos :: nat

record sala =
  sa_e :: entrega
  sa_claves :: "clave list"
  sa_hojas :: "bytes list list"
  sa_enlace :: "bytes option"
  sa_carga :: "carga option"
  sa_hilo :: bool
  sa_acuse :: "(string \<times> nat) option"
  sa_recibo :: "recibo option"
  sa_conectado :: bool
  sa_enviados :: nat
  sa_verificados :: nat
  sa_fallidos :: nat

text \<open>What \<open>estado.bin\<close> holds of a room.\<close>

record guardada =
  gu_entrega :: entrega
  gu_claves :: "clave list"
  gu_enlace :: "bytes option"
  gu_recibo :: "recibo option"

datatype del_hilo =
  Conectado | Soltado | Codigo string string | Verificados nat nat | Enviado nat | RecibidoArchivo nat string
| Acuse string string | Manipulado

datatype al_hilo =
  AlBien string "(ficha_archivo \<times> clave) list" | AlMal nat | AlRecibo string | AlReciboFinal recibo | AlFin string

record entregas =
  en_salas :: "sala list"
  en_cadena :: cadena
  en_avisos :: "(string \<times> string) list"
  en_cambio :: bool
  en_clave_recibos :: "bytes option"
  en_estados :: "string \<Rightarrow> guardada option"
  en_archivos :: "string \<times> nat \<Rightarrow> bytes option"
  en_hojas :: "string \<times> nat \<Rightarrow> bytes option"
  en_resiste :: "string \<times> nat option \<Rightarrow> bool"
  en_dicho :: "(string \<times> al_hilo) list"

text \<open>The code ignores it when the disk does not do what it is asked. \<open>en_resiste (d, Some n)\<close>: the system
  does not remove the \<open>n\<close>-th sealed file of the delivery \<open>d\<close>, nor its leaves; \<open>en_resiste (d, None)\<close>: it neither
  writes nor removes its \<open>estado.bin\<close> (or its text cannot be sealed).\<close>

text \<open>What the room uses of other crates: the cipher, SHA-256, the chain's texts, the receipt's text,
  its signature and the check of the receiver's.\<close>

record sala_crates =
  sx_aead :: aead
  sx_sha :: "bytes \<Rightarrow> bytes"
  sx_cripto :: cripto
  sx_recibo :: "entrega \<Rightarrow> (string \<times> string) option \<Rightarrow> string"
  sx_firma :: "bytes \<Rightarrow> string \<Rightarrow> recibo option"
  sx_verifica :: "string \<Rightarrow> string \<Rightarrow> string \<Rightarrow> bool"

datatype error_sala = DeSecure secure_error | Texto string

section \<open>Names of files\<close>

text \<open>Characters that are left out of a part of a path: those Windows refuses and the control
  characters, the second block of which takes two bytes.\<close>

fun limpia_parte :: "string \<Rightarrow> string" where
  "limpia_parte [] = []"
| "limpia_parte (c # s) =
     (if c \<in> set '':*?<>|'' \<or> c = CHR 0x22 \<or> char_code c < 32 \<or> char_code c = 127 then limpia_parte s
      else if c = CHR 0xC2 then
        (case s of
           d # r \<Rightarrow> if 128 \<le> char_code d \<and> char_code d < 160 then limpia_parte r else c # limpia_parte s
         | [] \<Rightarrow> [c])
      else c # limpia_parte s)"

fun partes_de :: "string \<Rightarrow> string list" where
  "partes_de [] = [[]]"
| "partes_de (c # s) =
     (if c = CHR ''/'' \<or> c = CHR 0x5C then [] # partes_de s
      else (c # hd (partes_de s)) # tl (partes_de s))"

definition ruta_limpia :: "string \<Rightarrow> string" where
  "ruta_limpia n =
     (let partes = take 16 (filter (\<lambda>p. p \<noteq> [] \<and> p \<noteq> ''.'' \<and> p \<noteq> ''..'')
            (map (\<lambda>p. trim_end_matches (\<lambda>c. c = CHR ''.'' \<or> c = CHR '' '') (trim (take_chars 120 (limpia_parte p))))
               (partes_de n)))
      in if partes = [] then ''archivo'' else unir (CHR ''/'') partes)"

section \<open>One room\<close>

definition sala_new :: "entrega \<Rightarrow> sala" where
  "sala_new e = \<lparr>sa_e = e, sa_claves = [], sa_hojas = [], sa_enlace = None, sa_carga = None, sa_hilo = False,
     sa_acuse = None, sa_recibo = None, sa_conectado = False, sa_enviados = 0, sa_verificados = 0, sa_fallidos = 0\<rparr>"

definition guardada_de :: "sala \<Rightarrow> guardada" where
  "guardada_de s = \<lparr>gu_entrega = sa_e s, gu_claves = sa_claves s, gu_enlace = sa_enlace s, gu_recibo = sa_recibo s\<rparr>"

definition manifiesto :: "string \<Rightarrow> sala \<Rightarrow> al_hilo" where
  "manifiesto token s = AlBien token (zip (et_archivos (sa_e s)) (sa_claves s))"

definition enlace_de :: "sala \<Rightarrow> bytes option" where
  "enlace_de s = (if viva (et_estado (sa_e s)) then sa_enlace s else None)"

section \<open>Operations on the room\<close>

definition sala_at :: "nat \<Rightarrow> entregas \<Rightarrow> sala" where
  "sala_at i en = en_salas en ! i"

definition pon_sala :: "nat \<Rightarrow> sala \<Rightarrow> entregas \<Rightarrow> entregas" where
  "pon_sala i s en = en\<lparr>en_salas := (en_salas en)[i := s]\<rparr>"

text \<open>\<open>h.tx.send\<close>, when there is a thread.\<close>

definition dile :: "nat \<Rightarrow> al_hilo \<Rightarrow> entregas \<Rightarrow> entregas" where
  "dile i m en =
     (if sa_hilo (sala_at i en) then en\<lparr>en_dicho := en_dicho en @ [(et_id (sa_e (sala_at i en)), m)]\<rparr> else en)"

definition EVIDENCIA :: string where
  "EVIDENCIA = ''GUARDIANA '' @ [CHR 0xC2, CHR 0xB7] @ '' sala de entrega''"

definition anota_sala :: "sala_crates \<Rightarrow> nat \<Rightarrow> string \<Rightarrow> entregas \<Rightarrow> entregas" where
  "anota_sala x ahora texto en =
     en\<lparr>en_cadena := anota_cadena (sx_cripto x) ahora Info
          (hecho_default\<lparr>he_texto := texto, he_evidencia := Some EVIDENCIA\<rparr>) (en_cadena en)\<rparr>"

definition guarda_sala :: "nat \<Rightarrow> entregas \<Rightarrow> entregas" where
  "guarda_sala i en =
     (if i < length (en_salas en) \<and> \<not> en_resiste en (et_id (sa_e (sala_at i en)), None)
      then en\<lparr>en_estados := (en_estados en)(et_id (sa_e (sala_at i en)) \<mapsto> guardada_de (sala_at i en))\<rparr>
      else en)"

definition borra_contenido :: "nat \<Rightarrow> entregas \<Rightarrow> entregas" where
  "borra_contenido i en0 =
     (let s0 = sala_at i en0;
          en = dile i (AlFin (nombre_estado (et_estado (sa_e s0)))) en0;
          s = s0\<lparr>sa_claves := [], sa_enlace := None, sa_carga := None, sa_hilo := False, sa_conectado := False\<rparr>
      in (pon_sala i s en)\<lparr>en_archivos := (\<lambda>(ident, n).
            if ident = et_id (sa_e s0) \<and> n < length (et_archivos (sa_e s0)) \<and> \<not> en_resiste en (ident, Some n) then None else en_archivos en (ident, n))\<rparr>)"

definition indice :: "string \<Rightarrow> entregas \<Rightarrow> nat option" where
  "indice ident en = find (\<lambda>i. et_id (sa_e (sala_at i en)) = ident) [0 ..< length (en_salas en)]"

definition con_e :: "nat \<Rightarrow> (entrega \<Rightarrow> entrega) \<Rightarrow> entregas \<Rightarrow> entregas" where
  "con_e i f en = pon_sala i ((sala_at i en)\<lparr>sa_e := f (sa_e (sala_at i en))\<rparr>) en"

definition marca_cambio :: "entregas \<Rightarrow> entregas" where
  "marca_cambio en = en\<lparr>en_cambio := True\<rparr>"

definition revoca_sala :: "sala_crates \<Rightarrow> nat \<Rightarrow> string \<Rightarrow> entregas \<Rightarrow> entregas" where
  "revoca_sala x ahora ident en =
     (case indice ident en of
        None \<Rightarrow> en
      | Some i \<Rightarrow>
          if \<not> viva (et_estado (sa_e (sala_at i en))) then en
          else marca_cambio (anota_sala x ahora (''entrega '' @ ident @ '' retirada por quien la envi'' @ [CHR 0xC3, CHR 0xB3])
                 (guarda_sala i (borra_contenido i (con_e i revoca en)))))"

definition destruye_sala :: "sala_crates \<Rightarrow> nat \<Rightarrow> string \<Rightarrow> string \<Rightarrow> entregas \<Rightarrow> entregas" where
  "destruye_sala x ahora ident motivo en =
     (case indice ident en of
        None \<Rightarrow> en
      | Some i \<Rightarrow>
          let en = anota_sala x ahora (''entrega '' @ ident @ '' destruida: '' @ motivo)
                     (guarda_sala i (borra_contenido i (con_e i (destruye motivo) en)))
          in marca_cambio (en\<lparr>en_avisos := en_avisos en @ [(''sec_entrega_destruida'', motivo)]\<rparr>))"

text \<open>The directory of a room goes with it, but for what the disk keeps.\<close>

definition borra_carpeta :: "string \<Rightarrow> entregas \<Rightarrow> entregas" where
  "borra_carpeta ident en =
     en\<lparr>en_estados := (\<lambda>d. if d = ident \<and> \<not> en_resiste en (d, None) then None else en_estados en d),
        en_archivos := (\<lambda>(d, n). if d = ident \<and> \<not> en_resiste en (d, Some n) then None else en_archivos en (d, n)),
        en_hojas := (\<lambda>(d, n). if d = ident \<and> \<not> en_resiste en (d, Some n) then None else en_hojas en (d, n))\<rparr>"

definition quita_sala :: "nat \<Rightarrow> entregas \<Rightarrow> entregas" where
  "quita_sala i en = en\<lparr>en_salas := take i (en_salas en) @ drop (i + 1) (en_salas en)\<rparr>"

definition borra_sala :: "nat \<Rightarrow> entregas \<Rightarrow> entregas" where
  "borra_sala i en = borra_carpeta (et_id (sa_e (sala_at i en))) (quita_sala i en)"

definition olvida_sala :: "sala_crates \<Rightarrow> nat \<Rightarrow> string \<Rightarrow> entregas \<Rightarrow> entregas" where
  "olvida_sala x ahora ident en =
     (case indice ident en of
        None \<Rightarrow> en
      | Some i \<Rightarrow>
          marca_cambio (anota_sala x ahora (''entrega '' @ ident @ '' borrada de la lista'')
            (borra_carpeta ident (quita_sala i (borra_contenido i en)))))"

section \<open>Filling a delivery\<close>

definition preparando :: "entregas \<Rightarrow> error_sala + nat" where
  "preparando en =
     (case find (\<lambda>i. et_estado (sa_e (sala_at i en)) = Preparando) [0 ..< length (en_salas en)] of
        None \<Rightarrow> Inl (Texto ''sec_entrega_no_hay'')
      | Some i \<Rightarrow> Inr i)"

definition retira_a_medias :: "nat \<Rightarrow> entregas \<Rightarrow> entregas" where
  "retira_a_medias i en = guarda_sala i (borra_contenido i (con_e i revoca en))"

text \<open>Room is made for the new one with finished ones; the list only gets shorter.\<close>

function haz_sitio :: "entregas \<Rightarrow> bool \<times> entregas" where
  "haz_sitio en =
     (if length (en_salas en) \<ge> MAX_ENTREGAS then
        case find (\<lambda>i. \<not> viva (et_estado (sa_e (sala_at i en)))) [0 ..< length (en_salas en)] of
          None \<Rightarrow> (False, en)
        | Some i \<Rightarrow> haz_sitio (borra_sala i en)
      else (True, en))"
  by pat_completeness auto
termination
  by (relation "measure (\<lambda>en. length (en_salas en))")
     (auto simp: borra_sala_def borra_carpeta_def quita_sala_def find_Some_iff)

declare haz_sitio.simps [simp del]

definition nueva_sala ::
    "sala_crates \<Rightarrow> nat \<Rightarrow> string \<Rightarrow> nat \<Rightarrow> bool \<Rightarrow> string \<Rightarrow> bytes option \<Rightarrow> bytes list \<Rightarrow> entregas \<Rightarrow>
     (error_sala + string) \<times> entregas" where
  "nueva_sala x ahora caducidad digitos nombres titulo azar draws en0 =
     (let a_medias = filter (\<lambda>i. et_estado (sa_e (sala_at i en0)) = Preparando) [0 ..< length (en_salas en0)];
          (sitio, en) = haz_sitio (fold retira_a_medias a_medias en0)
      in if \<not> sitio then (Inl (Texto ''sec_entrega_demasiadas''), en)
         else case nueva_entrega ahora (caducidad_de caducidad) digitos nombres azar draws of
                Inl e \<Rightarrow> (Inl (DeSecure e), en)
              | Inr e \<Rightarrow>
                  (Inr (et_id e),
                   marca_cambio (anota_sala x ahora (''entrega '' @ et_id e @ '' creada'')
                     (en\<lparr>en_salas := en_salas en @ [sala_new (e\<lparr>et_titulo := take_chars 80 titulo\<rparr>)]\<rparr>))))"

definition archivo_sala :: "string \<Rightarrow> nat \<Rightarrow> clave option \<Rightarrow> bool \<Rightarrow> entregas \<Rightarrow> (error_sala + unit) \<times> entregas" where
  "archivo_sala nombre bytes azar creado en =
     (if bytes > MAX_ARCHIVO then (Inl (Texto ''sec_archivo_grande''), en)
      else case preparando en of
             Inl e \<Rightarrow> (Inl e, en)
           | Inr i \<Rightarrow>
               let s = sala_at i en; n = length (et_archivos (sa_e s))
               in if sa_carga s \<noteq> None then (Inl (Texto ''sec_entrega_a_medias''), en)
                  else case azar of
                         None \<Rightarrow> (Inl (DeSecure CannotStart), en)
                       | Some k \<Rightarrow>
                           if \<not> creado then (Inl (Texto ''sec_err_archivo''), en)
                           else (Inr (), (pon_sala i (s\<lparr>sa_carga := Some
                                   \<lparr>cg_empaquetador = empaquetador_new k (contexto (et_id (sa_e s)) n), cg_clave = k,
                                    cg_nombre = ruta_limpia nombre, cg_escritos = 0\<rparr>\<rparr>) en)
                                 \<lparr>en_archivos := (en_archivos en)((et_id (sa_e s), n) \<mapsto> [])\<rparr>))"

text \<open>A stored piece: its length, the sealed piece, zeros up to the step.\<close>

definition registro_trozo :: "bytes \<Rightarrow> bytes" where
  "registro_trozo t =
     (let r = be_bytes 4 (length t) @ t in take PASO r @ replicate (PASO - length r) 0)"

definition escribe_trozos :: "string \<times> nat \<Rightarrow> bytes list \<Rightarrow> entregas \<Rightarrow> entregas" where
  "escribe_trozos f ts en =
     en\<lparr>en_archivos := (en_archivos en)(f \<mapsto> the (en_archivos en f) @ concat (map registro_trozo ts))\<rparr>"

definition trozo_sala :: "sala_crates \<Rightarrow> bytes \<Rightarrow> bool \<Rightarrow> entregas \<Rightarrow> (error_sala + unit) \<times> entregas" where
  "trozo_sala x datos ultimo en =
     (case preparando en of
        Inl e \<Rightarrow> (Inl e, en)
      | Inr i \<Rightarrow>
          let s = sala_at i en; n = length (et_archivos (sa_e s)); f = (et_id (sa_e s), n)
          in case sa_carga s of
               None \<Rightarrow> (Inl (Texto ''sec_entrega_sin_archivo''), en)
             | Some c \<Rightarrow>
                 (case empuja (sx_aead x) (sx_sha x) datos (cg_empaquetador c) of
                    (Inl e, em) \<Rightarrow> (Inl (DeSecure e), pon_sala i (s\<lparr>sa_carga := Some (c\<lparr>cg_empaquetador := em\<rparr>)\<rparr>) en)
                  | (Inr hechos, em) \<Rightarrow>
                      let c = c\<lparr>cg_empaquetador := em, cg_escritos := cg_escritos c + length hechos\<rparr>;
                          en = escribe_trozos f hechos (pon_sala i (s\<lparr>sa_carga := Some c\<rparr>) en)
                      in if \<not> ultimo then (Inr (), en)
                         else
                           (case termina (sx_aead x) (sx_sha x) em of
                              Inl e \<Rightarrow> (Inl (DeSecure e), pon_sala i (s\<lparr>sa_carga := None\<rparr>) en)
                            | Inr (t, h) \<Rightarrow>
                                let ficha = \<lparr>fi_nombre = cg_nombre c, fi_bytes = hu_bytes h, fi_trozos = hu_trozos h,
                                      fi_sha256 = hu_sha256 h, fi_raiz = hu_raiz h, fi_recibido = None\<rparr>;
                                    s = s\<lparr>sa_carga := None,
                                          sa_e := (sa_e s)\<lparr>et_archivos := et_archivos (sa_e s) @ [ficha]\<rparr>,
                                          sa_hojas := sa_hojas s @ [hu_hojas h], sa_claves := sa_claves s @ [cg_clave c]\<rparr>;
                                    en = pon_sala i s (escribe_trozos f [t] en)
                                in (Inr (), marca_cambio (guarda_sala i
                                     (en\<lparr>en_hojas := (en_hojas en)(f \<mapsto> concat (hu_hojas h))\<rparr>))))))"

text \<open>\<open>lanzado\<close>: the thread could be started.\<close>

definition arranca :: "bool \<Rightarrow> nat \<Rightarrow> entregas \<Rightarrow> entregas" where
  "arranca lanzado i en =
     (case sa_enlace (sala_at i en) of
        None \<Rightarrow> en
      | Some _ \<Rightarrow> if lanzado then pon_sala i ((sala_at i en)\<lparr>sa_hilo := True\<rparr>) en else en)"

definition lista_sala :: "sala_crates \<Rightarrow> nat \<Rightarrow> bytes option \<Rightarrow> bool \<Rightarrow> entregas \<Rightarrow> (error_sala + string) \<times> entregas" where
  "lista_sala x ahora azar lanzado en =
     (case preparando en of
        Inl e \<Rightarrow> (Inl e, en)
      | Inr i \<Rightarrow>
          let s = sala_at i en
          in if sa_carga s \<noteq> None \<or> et_archivos (sa_e s) = [] then (Inl (Texto ''sec_entrega_vacia''), en)
             else case azar of
                    None \<Rightarrow> (Inl (Texto ''sec_err_azar''), en)
                  | Some k \<Rightarrow>
                      let e = lista (sa_e s); ident = et_id e;
                          en = guarda_sala i (pon_sala i (s\<lparr>sa_enlace := Some k, sa_e := e\<rparr>) en);
                          en = anota_sala x ahora (''entrega '' @ ident @ '' lista: '' @ decimal (length (et_archivos e)) @
                                 '' archivos, '' @ decimal (bytes_entrega e) @ '' bytes, caduca '' @
                                 nombre_caducidad (et_caducidad e)) en
                      in (Inr ident, marca_cambio (arranca lanzado i en)))"

section \<open>The receiver\<close>

definition firma_recibo :: "sala_crates \<Rightarrow> nat \<Rightarrow> nat \<Rightarrow> (string \<times> string) option \<Rightarrow> entregas \<Rightarrow> entregas" where
  "firma_recibo x ahora i receptor en =
     (let contenido = sx_recibo x (sa_e (sala_at i en)) receptor
      in case en_clave_recibos en of
           None \<Rightarrow> en
         | Some k \<Rightarrow>
             (case sx_firma x k contenido of
                None \<Rightarrow> en
              | Some r \<Rightarrow>
                  let huella = to_hex (sx_sha x (str_bytes (rb_contenido r)));
                      ident = et_id (sa_e (sala_at i en));
                      en = dile i (AlFin ''entregada'') (dile i (AlReciboFinal r) en);
                      en = pon_sala i ((sala_at i en)\<lparr>sa_recibo := Some r, sa_acuse := None\<rparr>) en;
                      en = anota_sala x ahora (''entrega '' @ ident @ '' entregada; recibo firmado'' @
                             (if receptor \<noteq> None then '' por las dos partes''
                              else '' por este equipo (el receptor no firm'' @ [CHR 0xC3, CHR 0xB3] @ '')'') @
                             '' (SHA-256 '' @ huella @ '')'') (guarda_sala i (borra_contenido i en))
                  in en\<lparr>en_avisos := en_avisos en @ [(''sec_entrega_entregada'', ident)]\<rparr>))"

definition codigo_sala :: "sala_crates \<Rightarrow> nat \<Rightarrow> nat \<Rightarrow> string \<Rightarrow> string \<Rightarrow> bytes option \<Rightarrow> entregas \<Rightarrow> bool \<times> entregas" where
  "codigo_sala x ahora i codigo token azar en0 =
     (let ident = et_id (sa_e (sala_at i en0));
          (r, e) = intenta codigo token ahora azar (sa_e (sala_at i en0));
          en = pon_sala i ((sala_at i en0)\<lparr>sa_e := e\<rparr>) en0
      in case r of
           Inl _ \<Rightarrow> (False, en)
         | Inr (Bien, t) \<Rightarrow>
             let primera = (t \<noteq> None \<and> et_abierta e = Some ahora);
                 en = guarda_sala i (dile i (manifiesto (case t of None \<Rightarrow> [] | Some t \<Rightarrow> t) (sala_at i en)) en)
             in (True, if primera then anota_sala x ahora (''entrega '' @ ident @ '' abierta con el c'' @
                         [CHR 0xC3, CHR 0xB3] @ ''digo correcto'') en else en)
         | Inr (Mal q, _) \<Rightarrow>
             (True, anota_sala x ahora (''entrega '' @ ident @ '': c'' @ [CHR 0xC3, CHR 0xB3] @
                ''digo equivocado, quedan '' @ decimal q) (guarda_sala i (dile i (AlMal q) en)))
         | Inr (Agotada, _) \<Rightarrow> (True, destruye_sala x ahora ident ''codigo_distinto'' en)
         | Inr (OtroDispositivo, _) \<Rightarrow> (True, destruye_sala x ahora ident ''dispositivo_nuevo'' en)
         | Inr (NoVigente, _) \<Rightarrow> (True, dile i (AlFin (nombre_estado (et_estado e))) en))"

text \<open>An event, with the draw a right code may need. What returns early leaves the flag as it was.\<close>

definition evento :: "sala_crates \<Rightarrow> nat \<Rightarrow> nat \<Rightarrow> bytes option \<Rightarrow> del_hilo \<Rightarrow> entregas \<Rightarrow> entregas" where
  "evento x ahora i azar ev en =
     (let s = sala_at i en; ident = et_id (sa_e s)
      in case ev of
           Conectado \<Rightarrow> marca_cambio (pon_sala i (s\<lparr>sa_conectado := True\<rparr>) en)
         | Soltado \<Rightarrow> marca_cambio (pon_sala i (s\<lparr>sa_conectado := False\<rparr>) en)
         | Enviado n \<Rightarrow> marca_cambio (pon_sala i (s\<lparr>sa_enviados := sa_enviados s + n\<rparr>) en)
         | Verificados ok mal \<Rightarrow> marca_cambio (pon_sala i (s\<lparr>sa_verificados := ok, sa_fallidos := mal\<rparr>) en)
         | Codigo codigo token \<Rightarrow>
             (let (sigue, en) = codigo_sala x ahora i codigo token azar en in if sigue then marca_cambio en else en)
         | RecibidoArchivo n rz \<Rightarrow>
             (let (ok, e) = recibido n rz ahora (sa_e s);
                  en = pon_sala i (s\<lparr>sa_e := e\<rparr>) en
              in marca_cambio
                   (if \<not> ok then en
                    else
                      let en = guarda_sala i en
                      in if et_estado e = Entregada then
                           let contenido = sx_recibo x e None; en = dile i (AlRecibo contenido) en
                           in pon_sala i ((sala_at i en)\<lparr>sa_acuse := Some (contenido, ahora)\<rparr>) en
                         else en))
         | Acuse clave firma \<Rightarrow>
             (case sa_acuse s of
                None \<Rightarrow> en
              | Some (contenido, _) \<Rightarrow>
                  marca_cambio (firma_recibo x ahora i (if sx_verifica x contenido clave firma then Some (clave, firma) else None) en))
         | Manipulado \<Rightarrow> marca_cambio (destruye_sala x ahora ident ''manipulada'' en))"

definition tic_sala :: "sala_crates \<Rightarrow> nat \<Rightarrow> nat \<Rightarrow> (bytes option \<times> del_hilo) list \<Rightarrow> entregas \<Rightarrow> entregas" where
  "tic_sala x ahora i evs en0 =
     (let en1 = (if sa_hilo (sala_at i en0) then fold (\<lambda>(azar, ev). evento x ahora i azar ev) evs en0 else en0);
          (cad, e) = tic ahora (sa_e (sala_at i en1));
          en2 = pon_sala i ((sala_at i en1)\<lparr>sa_e := e\<rparr>) en1;
          en3 = (if cad then marca_cambio (anota_sala x ahora (''entrega '' @ et_id e @ '' caducada'')
                   (guarda_sala i (borra_contenido i en2))) else en2)
      in case sa_acuse (sala_at i en3) of
           None \<Rightarrow> en3
         | Some (_, desde) \<Rightarrow>
             if ahora - desde \<ge> ACUSE_S then marca_cambio (firma_recibo x ahora i None en3) else en3)"

definition tic_entregas :: "sala_crates \<Rightarrow> nat \<Rightarrow> (nat \<Rightarrow> (bytes option \<times> del_hilo) list) \<Rightarrow> entregas \<Rightarrow> entregas" where
  "tic_entregas x ahora evs en = fold (\<lambda>i. tic_sala x ahora i (evs i)) [0 ..< length (en_salas en)] en"

section \<open>Starting again\<close>

definition sala_de_disco :: "(string \<times> nat \<Rightarrow> bytes option) \<Rightarrow> guardada \<Rightarrow> sala" where
  "sala_de_disco hojas g =
     (sala_new (gu_entrega g))\<lparr>sa_claves := gu_claves g, sa_enlace := gu_enlace g, sa_recibo := gu_recibo g,
        sa_hojas := map (\<lambda>i. filter (\<lambda>c. length c = 32)
          (chunks 32 (case hojas (et_id (gu_entrega g), i) of None \<Rightarrow> [] | Some b \<Rightarrow> b)))
          [0 ..< length (et_archivos (gu_entrega g))]\<rparr>"

definition al_abrir :: "bool \<Rightarrow> nat \<Rightarrow> entregas \<Rightarrow> entregas" where
  "al_abrir lanzado i en0 =
     (let en = (if et_estado (sa_e (sala_at i en0)) = Preparando then con_e i revoca en0 else en0);
          st = et_estado (sa_e (sala_at i en))
      in if st = Esperando \<or> st = Abierta then arranca lanzado i en else en)"

text \<open>The directories are given in the order the system lists them; the rooms are sorted by when they
  were made, and those still open start waiting again. What was said to the threads of before is gone.\<close>

definition abre_sala :: "bool \<Rightarrow> string list \<Rightarrow> entregas \<Rightarrow> entregas" where
  "abre_sala lanzado carpetas en =
     (let salas = sort_key (\<lambda>s. et_creada (sa_e s))
            (map (sala_de_disco (en_hojas en)) (List.map_filter (en_estados en) carpetas));
          en1 = en\<lparr>en_salas := salas, en_avisos := [], en_cambio := True, en_dicho := []\<rparr>
      in fold (al_abrir lanzado) [0 ..< length salas] en1)"

end
