(* ===== verification/Sala_Facts.thy ===== *)
theory Sala_Facts imports Sala Entrega_Facts begin

text \<open>
  What the room of deliveries (\<open>Sala\<close>) keeps and what it lets out. An operation on one delivery
  touches that room and its directory alone (\<open>toca\<close>); so the invariant, that a closed delivery
  keeps nothing, is shown room by room.
\<close>

section \<open>One room at a time\<close>

definition id_en :: "nat \<Rightarrow> entregas \<Rightarrow> string" where
  "id_en i en = et_id (sa_e (sala_at i en))"

definition toca :: "nat \<Rightarrow> entregas \<Rightarrow> entregas \<Rightarrow> bool" where
  "toca i en en' \<longleftrightarrow>
     i < length (en_salas en) \<and> (\<exists>s. en_salas en' = (en_salas en)[i := s]) \<and> id_en i en' = id_en i en \<and>
     en_resiste en' = en_resiste en \<and>
     (\<forall>d. d \<noteq> id_en i en \<longrightarrow> en_estados en' d = en_estados en d \<and> (\<forall>n. en_archivos en' (d, n) = en_archivos en (d, n)))"

lemma toca_refl: "i < length (en_salas en) \<Longrightarrow> toca i en en"
  by (auto simp: toca_def intro: exI [of _ "en_salas en ! i"])

lemma toca_trans: "toca i en en' \<Longrightarrow> toca i en' en'' \<Longrightarrow> toca i en en''"
  by (auto simp: toca_def)

lemma toca_length: "toca i en en' \<Longrightarrow> length (en_salas en') = length (en_salas en) \<and> i < length (en_salas en)"
  by (auto simp: toca_def)

lemma sala_at_pon [simp]: "i < length (en_salas en) \<Longrightarrow> sala_at i (pon_sala i s en) = s"
  by (simp add: sala_at_def pon_sala_def)

lemma pon_sel [simp]:
  "en_estados (pon_sala i s en) = en_estados en" "en_archivos (pon_sala i s en) = en_archivos en"
  "length (en_salas (pon_sala i s en)) = length (en_salas en)" "en_resiste (pon_sala i s en) = en_resiste en"
  by (simp_all add: pon_sala_def)

lemma same_salas [simp]:
  "en_salas (marca_cambio en) = en_salas en" "en_salas (anota_sala x t m en) = en_salas en"
  "en_salas (dile i a en) = en_salas en" "en_salas (guarda_sala i en) = en_salas en"
  "en_archivos (marca_cambio en) = en_archivos en" "en_archivos (anota_sala x t m en) = en_archivos en"
  "en_archivos (dile i a en) = en_archivos en" "en_archivos (guarda_sala i en) = en_archivos en"
  "en_estados (marca_cambio en) = en_estados en" "en_estados (anota_sala x t m en) = en_estados en"
  "en_estados (dile i a en) = en_estados en"
  "en_resiste (marca_cambio en) = en_resiste en" "en_resiste (anota_sala x t m en) = en_resiste en"
  "en_resiste (dile i a en) = en_resiste en" "en_resiste (guarda_sala i en) = en_resiste en"
  "en_resiste (borra_contenido i en) = en_resiste en"
  by (simp_all add: marca_cambio_def anota_sala_def dile_def guarda_sala_def borra_contenido_def Let_def pon_sala_def)

lemma same_sala_at [simp]:
  "sala_at i (marca_cambio en) = sala_at i en" "sala_at i (anota_sala x t m en) = sala_at i en"
  "sala_at i (dile j a en) = sala_at i en" "sala_at i (guarda_sala j en) = sala_at i en"
  "sala_at i (en\<lparr>en_avisos := av\<rparr>) = sala_at i en"
  by (simp_all add: sala_at_def)

lemma toca_pon: "i < length (en_salas en) \<Longrightarrow> et_id (sa_e s) = id_en i en \<Longrightarrow> toca i en (pon_sala i s en)"
  by (auto simp: toca_def id_en_def pon_sala_def sala_at_def)

lemma toca_quiet:
  assumes "i < length (en_salas en)"
  shows "toca i en (marca_cambio en)" "toca i en (anota_sala x t m en)" "toca i en (dile j a en)"
    "toca i en (guarda_sala i en)" "toca i en (en\<lparr>en_avisos := av\<rparr>)"
  using toca_refl [OF assms] by (auto simp: toca_def id_en_def guarda_sala_def sala_at_def)

lemma toca_con_e: "i < length (en_salas en) \<Longrightarrow> et_id (f (sa_e (sala_at i en))) = id_en i en \<Longrightarrow> toca i en (con_e i f en)"
  unfolding con_e_def by (rule toca_pon) (simp_all add: id_en_def)

lemma sala_at_con_e [simp]:
  "i < length (en_salas en) \<Longrightarrow> sala_at i (con_e i f en) = (sala_at i en)\<lparr>sa_e := f (sa_e (sala_at i en))\<rparr>"
  by (simp add: con_e_def)

lemma sala_at_borra [simp]:
  "i < length (en_salas en) \<Longrightarrow> sala_at i (borra_contenido i en) =
   (sala_at i en)\<lparr>sa_claves := [], sa_enlace := None, sa_carga := None, sa_hilo := False, sa_conectado := False\<rparr>"
  by (simp add: borra_contenido_def Let_def sala_at_def pon_sala_def)

lemma toca_borra: "i < length (en_salas en) \<Longrightarrow> toca i en (borra_contenido i en)"
  by (auto simp: toca_def id_en_def borra_contenido_def Let_def pon_sala_def sala_at_def)

section \<open>The invariant\<close>

definition cerrada :: "sala \<Rightarrow> bool" where
  "cerrada s \<longleftrightarrow> et_estado (sa_e s) = Revocada \<or> (\<exists>m. et_estado (sa_e s) = Destruida m) \<or> sa_recibo s \<noteq> None"

text \<open>Nothing is left of it: no keys, no link, no file being filled, no thread; no sealed file, and
  neither keys nor link in what is kept on disk, but for what the disk does not let go.\<close>

definition limpia :: "entregas \<Rightarrow> sala \<Rightarrow> bool" where
  "limpia en s \<longleftrightarrow>
     sa_claves s = [] \<and> sa_enlace s = None \<and> sa_carga s = None \<and> \<not> sa_hilo s \<and>
     (\<forall>n < length (et_archivos (sa_e s)).
        en_archivos en (et_id (sa_e s), n) = None \<or> en_resiste en (et_id (sa_e s), Some n)) \<and>
     (\<forall>g. en_estados en (et_id (sa_e s)) = Some g \<longrightarrow>
        gu_claves g = [] \<and> gu_enlace g = None \<or> en_resiste en (et_id (sa_e s), None))"

definition ids :: "entregas \<Rightarrow> string list" where
  "ids en = map (\<lambda>s. et_id (sa_e s)) (en_salas en)"

text \<open>And a delivery being filled has nothing to acknowledge yet, so that none is closed by a receipt
  before it was ever opened.\<close>

definition bien :: "entregas \<Rightarrow> sala \<Rightarrow> bool" where
  "bien en s \<longleftrightarrow>
     (cerrada s \<longrightarrow> limpia en s) \<and>
     (et_estado (sa_e s) = Preparando \<longrightarrow> sa_acuse s = None \<and> sa_recibo s = None)"

definition sin_restos :: "entregas \<Rightarrow> bool" where
  "sin_restos en \<longleftrightarrow> distinct (ids en) \<and> (\<forall>s \<in> set (en_salas en). bien en s)"

lemma ids_toca: "toca i en en' \<Longrightarrow> ids en' = ids en"
  unfolding toca_def ids_def id_en_def sala_at_def
  by (auto simp: map_update list_update_same_conv)

lemma bien_other:
  "toca i en en' \<Longrightarrow> et_id (sa_e s) \<noteq> id_en i en \<Longrightarrow> bien en' s = bien en s"
  by (simp add: toca_def bien_def limpia_def)

lemma sin_restos_toca:
  assumes "sin_restos en" "toca i en en'" "bien en' (sala_at i en')"
  shows "sin_restos en'"
proof -
  have i: "i < length (en_salas en)" using assms(2) by (simp add: toca_def)
  have d: "distinct (ids en)" using assms(1) by (simp add: sin_restos_def)
  have "bien en' s" if "s \<in> set (en_salas en')" for s
  proof -
    from that obtain j where j: "j < length (en_salas en')" "s = sala_at j en'" by (auto simp: in_set_conv_nth sala_at_def)
    show ?thesis
    proof (cases "j = i")
      case True
      with assms(3) j show ?thesis by simp
    next
      case False
      have j': "j < length (en_salas en)" using j(1) toca_length [OF assms(2)] by simp
      have s: "s = sala_at j en" using assms(2) False j by (auto simp: toca_def sala_at_def)
      have "et_id (sa_e s) \<noteq> id_en i en"
        using d False i j' by (auto simp: s ids_def id_en_def sala_at_def distinct_conv_nth)
      moreover have "bien en s" using assms(1) j' by (auto simp: sin_restos_def s sala_at_def)
      ultimately show ?thesis using bien_other [OF assms(2)] by simp
    qed
  qed
  then show ?thesis using d ids_toca [OF assms(2)] by (simp add: sin_restos_def)
qed

lemma limpia_quiet [simp]:
  "limpia (marca_cambio en) s = limpia en s" "limpia (anota_sala x t m en) s = limpia en s"
  "limpia (dile j a en) s = limpia en s" "limpia (pon_sala i z en) s = limpia en s"
  "limpia (en\<lparr>en_avisos := av\<rparr>) s = limpia en s"
  by (simp_all add: limpia_def)

lemma bien_quiet [simp]:
  "bien (marca_cambio en) s = bien en s" "bien (anota_sala x t m en) s = bien en s"
  "bien (dile j a en) s = bien en s" "bien (pon_sala i z en) s = bien en s"
  "bien (en\<lparr>en_avisos := av\<rparr>) s = bien en s"
  by (simp_all add: bien_def)

text \<open>A wipe that is written down leaves nothing.\<close>

lemma limpia_borrada:
  "i < length (en_salas en) \<Longrightarrow>
   limpia (guarda_sala i (borra_contenido i en)) (sala_at i (guarda_sala i (borra_contenido i en)))"
  by (simp add: limpia_def guardada_de_def)
     (auto simp: borra_contenido_def guarda_sala_def Let_def pon_sala_def sala_at_def guardada_de_def)

text \<open>Writing down a room that is clean keeps it clean.\<close>

lemma limpia_guarda:
  "i < length (en_salas en) \<Longrightarrow> limpia en (sala_at i en) \<Longrightarrow> limpia (guarda_sala i en) (sala_at i en)"
  by (auto simp: limpia_def guarda_sala_def guardada_de_def)

lemma indice_at:
  assumes "distinct (ids en)" "i < length (en_salas en)"
  shows "indice (id_en i en) en = Some i"
proof -
  have "id_en j en \<noteq> id_en i en" if "j < i" for j
    using that assms by (auto simp: ids_def id_en_def sala_at_def distinct_conv_nth)
  then show ?thesis using assms(2) by (auto simp: indice_def id_en_def find_Some_iff intro!: exI [of _ i])
qed

lemma indice_lt: "indice d en = Some i \<Longrightarrow> i < length (en_salas en) \<and> id_en i en = d"
  by (auto simp: indice_def id_en_def find_Some_iff)

section \<open>What the rules keep\<close>

lemma intenta_keeps:
  assumes "intenta co t n a e0 = (r, e)"
  shows "et_id e = et_id e0" "length (et_archivos e) = length (et_archivos e0)"
    "et_estado e = Preparando \<Longrightarrow> et_estado e0 = Preparando"
    "et_estado e = Revocada \<or> (\<exists>m. et_estado e = Destruida m) \<Longrightarrow>
     e = e0 \<or> (\<exists>u. r = Inr (Agotada, u) \<or> r = Inr (OtroDispositivo, u))"
  using assms by (auto simp: intenta_def tic_def destruye_def Let_def viva_def split: if_splits option.splits)

lemma recibido_keeps:
  assumes "recibido i rz n e0 = (ok, e)"
  shows "et_id e = et_id e0" "length (et_archivos e) = length (et_archivos e0)"
    "et_estado e = Preparando \<Longrightarrow> et_estado e0 = Preparando"
    "et_estado e = Revocada \<or> (\<exists>m. et_estado e = Destruida m) \<Longrightarrow> e = e0"
  using assms by (auto simp: recibido_def Let_def split: if_splits option.splits)

lemma tic_keeps:
  assumes "tic n e0 = (ok, e)"
  shows "et_id e = et_id e0" "length (et_archivos e) = length (et_archivos e0)"
    "et_estado e = Preparando \<Longrightarrow> et_estado e0 = Preparando"
    "et_estado e = Revocada \<or> (\<exists>m. et_estado e = Destruida m) \<Longrightarrow> e = e0"
  using assms by (auto simp: tic_def split: if_splits)

lemma op_id [simp]:
  "et_id (revoca e) = et_id e" "et_id (destruye m e) = et_id e" "et_id (lista e) = et_id e"
  by (simp_all add: revoca_def destruye_def lista_def)

lemma limpia_sa_e:
  "et_id e = et_id (sa_e s) \<Longrightarrow> length (et_archivos e) = length (et_archivos (sa_e s)) \<Longrightarrow>
   limpia en (s\<lparr>sa_e := e\<rparr>) = limpia en s"
  by (simp add: limpia_def)

lemma bien_guarda: "i < length (en_salas en) \<Longrightarrow> bien en (sala_at i en) \<Longrightarrow> bien (guarda_sala i en) (sala_at i en)"
  using limpia_guarda by (simp add: bien_def)

text \<open>A room whose delivery moved under its rules, and was not closed by it.\<close>

lemma bien_sa_e:
  assumes "sin_restos en" "i < length (en_salas en)" "et_id e = id_en i en"
    "length (et_archivos e) = length (et_archivos (sa_e (sala_at i en)))"
    "et_estado e = Preparando \<Longrightarrow> et_estado (sa_e (sala_at i en)) = Preparando"
    "et_estado e = Revocada \<or> (\<exists>m. et_estado e = Destruida m) \<Longrightarrow> e = sa_e (sala_at i en)"
  shows "bien en ((sala_at i en)\<lparr>sa_e := e\<rparr>)"
proof -
  have b: "bien en (sala_at i en)" using assms(1,2) by (auto simp: sin_restos_def sala_at_def)
  have "limpia en ((sala_at i en)\<lparr>sa_e := e\<rparr>) = limpia en (sala_at i en)"
    by (rule limpia_sa_e) (use assms(3,4) in \<open>simp_all add: id_en_def\<close>)
  moreover have "cerrada ((sala_at i en)\<lparr>sa_e := e\<rparr>) \<Longrightarrow> cerrada (sala_at i en)"
    using assms(6) by (auto simp: cerrada_def)
  ultimately show ?thesis using b assms(5) by (simp add: bien_def)
qed

section \<open>What each operation keeps\<close>

text \<open>Both in one: it touches one room and leaves no closed one with rests.\<close>

definition cuida :: "nat \<Rightarrow> entregas \<Rightarrow> entregas \<Rightarrow> bool" where
  "cuida i en en' \<longleftrightarrow> toca i en en' \<and> (sin_restos en \<longrightarrow> sin_restos en')"

lemma cuida_trans: "cuida i en en' \<Longrightarrow> cuida i en' en'' \<Longrightarrow> cuida i en en''"
  by (auto simp: cuida_def intro: toca_trans)

lemma cuida_refl: "i < length (en_salas en) \<Longrightarrow> cuida i en en"
  by (simp add: cuida_def toca_refl)

lemma cuidaI:
  "toca i en en' \<Longrightarrow> (sin_restos en \<Longrightarrow> bien en' (sala_at i en')) \<Longrightarrow> cuida i en en'"
  unfolding cuida_def using sin_restos_toca by blast

lemma sin_restos_at: "sin_restos en \<Longrightarrow> i < length (en_salas en) \<Longrightarrow> bien en (sala_at i en)"
  by (auto simp: sin_restos_def sala_at_def)

lemma cuida_quiet:
  assumes "i < length (en_salas en)"
  shows "cuida i en (marca_cambio en)" "cuida i en (anota_sala x t m en)" "cuida i en (dile j a en)"
    "cuida i en (guarda_sala i en)" "cuida i en (en\<lparr>en_avisos := av\<rparr>)"
  using toca_quiet [OF assms] sin_restos_at [OF _ assms] bien_guarda [OF assms] by (auto intro!: cuidaI)

lemma cuida_sa_e:
  assumes "i < length (en_salas en)" "et_id e = id_en i en"
    "length (et_archivos e) = length (et_archivos (sa_e (sala_at i en)))"
    "et_estado e = Preparando \<Longrightarrow> et_estado (sa_e (sala_at i en)) = Preparando"
    "et_estado e = Revocada \<or> (\<exists>m. et_estado e = Destruida m) \<Longrightarrow> e = sa_e (sala_at i en)"
  shows "cuida i en (pon_sala i ((sala_at i en)\<lparr>sa_e := e\<rparr>) en)"
proof (rule cuidaI)
  show "toca i en (pon_sala i ((sala_at i en)\<lparr>sa_e := e\<rparr>) en)"
    by (rule toca_pon [OF assms(1)]) (simp add: assms(2))
qed (use assms bien_sa_e in simp)

text \<open>The wipes: whatever was done to the delivery before.\<close>

lemma cuida_borra:
  assumes "toca i en en1" "sin_restos en \<Longrightarrow> et_estado (sa_e (sala_at i en1)) \<noteq> Preparando"
  shows "cuida i en (guarda_sala i (borra_contenido i en1))"
proof (rule cuidaI)
  have i: "i < length (en_salas en1)" using toca_length [OF assms(1)] by simp
  have "toca i en1 (borra_contenido i en1)" by (rule toca_borra [OF i])
  moreover have "toca i (borra_contenido i en1) (guarda_sala i (borra_contenido i en1))"
    by (rule toca_quiet(4)) (use toca_length [OF toca_borra [OF i]] i in simp)
  ultimately show "toca i en (guarda_sala i (borra_contenido i en1))" using assms(1) toca_trans by blast
  show "bien (guarda_sala i (borra_contenido i en1)) (sala_at i (guarda_sala i (borra_contenido i en1)))"
    if "sin_restos en" using limpia_borrada [OF i] assms(2) [OF that] i by (simp add: bien_def)
qed

lemma cuida_length:
  assumes "cuida i en en'"
  shows "i < length (en_salas en)" "length (en_salas en') = length (en_salas en)" "id_en i en' = id_en i en"
    "ids en' = ids en"
proof -
  have t: "toca i en en'" using assms by (simp add: cuida_def)
  then show "i < length (en_salas en)" "id_en i en' = id_en i en" by (simp_all add: toca_def)
  show "length (en_salas en') = length (en_salas en)" using toca_length [OF t] by simp
  show "ids en' = ids en" by (rule ids_toca [OF t])
qed

lemma cuida_luego:
  assumes "cuida i en en1"
  shows "cuida i en (marca_cambio en1)" "cuida i en (anota_sala x t m en1)" "cuida i en (dile j a en1)"
    "cuida i en (guarda_sala i en1)" "cuida i en (en1\<lparr>en_avisos := av\<rparr>)"
proof -
  have "i < length (en_salas en1)" by (simp only: cuida_length(1,2) [OF assms])
  note q = cuida_quiet [OF this]
  show "cuida i en (marca_cambio en1)" by (rule cuida_trans [OF assms q(1)])
  show "cuida i en (anota_sala x t m en1)" by (rule cuida_trans [OF assms q(2)])
  show "cuida i en (dile j a en1)" by (rule cuida_trans [OF assms q(3)])
  show "cuida i en (guarda_sala i en1)" by (rule cuida_trans [OF assms q(4)])
  show "cuida i en (en1\<lparr>en_avisos := av\<rparr>)" by (rule cuida_trans [OF assms q(5)])
qed

lemma op_estado [simp]: "et_estado (revoca e) \<noteq> Preparando" "et_estado (destruye m e) \<noteq> Preparando"
  by (simp_all add: revoca_def destruye_def viva_def)

lemma cuida_destruye:
  assumes "toca i en en1" "distinct (ids en)"
  shows "cuida i en (destruye_sala x t (id_en i en) m en1)"
proof -
  have i: "i < length (en_salas en1)" using toca_length [OF assms(1)] by simp
  have "distinct (ids en1)" using assms ids_toca by simp
  then have ind: "indice (id_en i en) en1 = Some i" using indice_at [OF _ i] assms(1) by (simp add: toca_def)
  have "toca i en1 (con_e i (destruye m) en1)" by (rule toca_con_e [OF i]) (simp add: id_en_def)
  with assms(1) have "toca i en (con_e i (destruye m) en1)" by (rule toca_trans)
  then have c: "cuida i en (guarda_sala i (borra_contenido i (con_e i (destruye m) en1)))"
    by (rule cuida_borra) (simp add: i)
  show ?thesis unfolding destruye_sala_def by (simp add: Let_def ind cuida_luego [OF c] cuida_luego(1) cuida_luego(5) cuida_luego(2))
qed

lemma cuida_retira:
  assumes "i < length (en_salas en)"
  shows "cuida i en (retira_a_medias i en)"
  unfolding retira_a_medias_def
  by (rule cuida_borra [OF toca_con_e [OF assms]]) (simp_all add: id_en_def assms)

lemma cuida_revoca: "indice d en = Some i \<Longrightarrow> cuida i en (revoca_sala x t d en)"
  using cuida_retira indice_lt cuida_refl unfolding revoca_sala_def retira_a_medias_def
  by (simp add: cuida_luego)

lemma cuida_firma:
  assumes i: "i < length (en_salas en)" and a: "sa_acuse (sala_at i en) \<noteq> None"
  shows "cuida i en (firma_recibo x t i r en)"
proof (cases "en_clave_recibos en")
  case None
  then show ?thesis using cuida_refl [OF i] by (simp add: firma_recibo_def Let_def)
next
  case (Some k)
  show ?thesis
  proof (cases "sx_firma x k (sx_recibo x (sa_e (sala_at i en)) r)")
    case None
    then show ?thesis using Some cuida_refl [OF i] by (simp add: firma_recibo_def Let_def)
  next
    case (Some rb)
    define en1 where "en1 = dile i (AlFin ''entregada'') (dile i (AlReciboFinal rb) en)"
    define en2 where "en2 = pon_sala i ((sala_at i en1)\<lparr>sa_recibo := Some rb, sa_acuse := None\<rparr>) en1"
    have i1: "i < length (en_salas en1)" "sala_at i en1 = sala_at i en" using i by (simp_all add: en1_def)
    have "toca i en en1" unfolding en1_def
      by (rule toca_trans [OF toca_quiet(3) [OF i] toca_quiet(3)]) (simp add: i)
    moreover have "toca i en1 en2" unfolding en2_def by (rule toca_pon [OF i1(1)]) (simp add: id_en_def)
    ultimately have "toca i en en2" by (rule toca_trans)
    moreover have "et_estado (sa_e (sala_at i en2)) \<noteq> Preparando" if "sin_restos en"
      using sin_restos_at [OF that i] a i1 by (auto simp: en2_def bien_def)
    ultimately have c: "cuida i en (guarda_sala i (borra_contenido i en2))" by (rule cuida_borra)
    show ?thesis
      unfolding firma_recibo_def Let_def \<open>en_clave_recibos en = Some k\<close> Some option.case en1_def [symmetric]
        en2_def [symmetric] by (rule cuida_luego(5) [OF cuida_luego(2) [OF c]])
  qed
qed


text \<open>A field of the room that the invariant does not look at.\<close>

lemma cuida_pon:
  assumes "i < length (en_salas en)" "et_id (sa_e s) = id_en i en" "sin_restos en \<Longrightarrow> bien en s"
  shows "cuida i en (pon_sala i s en)"
  by (rule cuidaI [OF toca_pon [OF assms(1,2)]]) (simp add: assms)

lemma cuida_codigo:
  assumes i: "i < length (en_salas en0)" and d: "distinct (ids en0)"
  shows "cuida i en0 (snd (codigo_sala x t i co tk az en0))"
proof -
  obtain r e where ri: "intenta co tk t az (sa_e (sala_at i en0)) = (r, e)" by fastforce
  define en where "en = pon_sala i ((sala_at i en0)\<lparr>sa_e := e\<rparr>) en0"
  have tp: "toca i en0 en" unfolding en_def by (rule toca_pon [OF i]) (simp add: intenta_keeps(1) [OF ri] id_en_def)
  have dd: "cuida i en0 (destruye_sala x t (et_id (sa_e (sala_at i en0))) m en)" for m
    using cuida_destruye [OF tp d] by (simp add: id_en_def)
  have c: "cuida i en0 en" if "\<And>u. r \<noteq> Inr (Agotada, u) \<and> r \<noteq> Inr (OtroDispositivo, u)"
    unfolding en_def using intenta_keeps [OF ri] that by (intro cuida_sa_e [OF i]) (auto simp: id_en_def)
  show ?thesis
  proof (cases r)
    case (Inl q)
    then show ?thesis using c by (simp add: codigo_sala_def ri en_def [symmetric])
  next
    case (Inr p)
    then obtain k u where r: "r = Inr (k, u)" by (cases p) auto
    show ?thesis
    proof (cases k)
      case Agotada
      then show ?thesis using dd by (simp add: codigo_sala_def Let_def ri r en_def [symmetric])
    next
      case OtroDispositivo
      then show ?thesis using dd by (simp add: codigo_sala_def Let_def ri r en_def [symmetric])
    qed (use c in \<open>simp_all add: codigo_sala_def Let_def ri r en_def [symmetric] cuida_luego\<close>)
  qed
qed

lemma bien_campos [simp]:
  "bien en (s\<lparr>sa_conectado := b\<rparr>) = bien en s" "bien en (s\<lparr>sa_enviados := n\<rparr>) = bien en s"
  "bien en (s\<lparr>sa_verificados := n, sa_fallidos := m\<rparr>) = bien en s"
  "et_estado (sa_e s) \<noteq> Preparando \<Longrightarrow> bien en (s\<lparr>sa_acuse := ac\<rparr>) = bien en s"
  by (simp_all add: bien_def limpia_def cerrada_def)

lemma cuida_campo:
  assumes "i < length (en_salas en)" "sa_e s = sa_e (sala_at i en)" "bien en s = bien en (sala_at i en)"
  shows "cuida i en (pon_sala i s en)"
  by (rule cuida_pon [OF assms(1)]) (use assms sin_restos_at in \<open>simp_all add: id_en_def\<close>)

lemma cuida_recibido:
  assumes i: "i < length (en_salas en)"
  shows "cuida i en (evento x t i az (RecibidoArchivo n rz) en)"
proof -
  obtain ok e where r: "recibido n rz t (sa_e (sala_at i en)) = (ok, e)" by fastforce
  define en1 where "en1 = pon_sala i ((sala_at i en)\<lparr>sa_e := e\<rparr>) en"
  have c: "cuida i en en1" unfolding en1_def
    by (rule cuida_sa_e [OF i]) (use recibido_keeps [OF r] in \<open>simp_all add: id_en_def\<close>)
  note k = cuida_length [OF c]
  show ?thesis
  proof (cases "ok \<and> et_estado e = Entregada")
    case True
    define en2 where "en2 = dile i (AlRecibo (sx_recibo x e None)) (guarda_sala i en1)"
    have c2: "cuida i en en2" unfolding en2_def by (intro cuida_luego c)
    have e2: "sa_e (sala_at i en2) = e" using i by (simp add: en2_def en1_def)
    have "cuida i en2 (pon_sala i ((sala_at i en2)\<lparr>sa_acuse := Some (sx_recibo x e None, t)\<rparr>) en2)"
      by (rule cuida_campo) (use e2 True i k cuida_length [OF c2] in simp_all)
    moreover have "sala_at i en1 = sala_at i en2" by (simp add: en2_def)
    ultimately show ?thesis using True cuida_luego(1) [OF cuida_trans [OF c2]]
      by (simp add: evento_def Let_def r en1_def [symmetric] en2_def [symmetric])
  next
    case False
    then show ?thesis using c by (auto simp: evento_def Let_def r en1_def [symmetric] intro!: cuida_luego)
  qed
qed

lemma cuida_evento:
  assumes i: "i < length (en_salas en)" and d: "distinct (ids en)"
  shows "cuida i en (evento x t i az ev en)"
proof (cases ev)
  case Conectado
  then show ?thesis by (simp add: evento_def Let_def cuida_luego(1) cuida_campo [OF i])
next
  case Soltado
  then show ?thesis by (simp add: evento_def Let_def cuida_luego(1) cuida_campo [OF i])
next
  case (Enviado n)
  then show ?thesis by (simp add: evento_def Let_def cuida_luego(1) cuida_campo [OF i])
next
  case (Verificados a b)
  then show ?thesis by (simp add: evento_def Let_def cuida_luego(1) cuida_campo [OF i])
next
  case (Codigo c tk)
  have "cuida i en (snd (codigo_sala x t i c tk az en))" by (rule cuida_codigo [OF i d])
  then show ?thesis using Codigo by (simp add: evento_def Let_def split_beta cuida_luego(1))
next
  case (RecibidoArchivo n rz)
  then show ?thesis using cuida_recibido [OF i] by simp
next
  case (Acuse k f)
  then show ?thesis using cuida_firma [OF i] cuida_refl [OF i]
    by (auto simp: evento_def Let_def cuida_luego(1) split: option.split)
next
  case Manipulado
  then show ?thesis using cuida_destruye [OF toca_refl [OF i] d]
    by (simp add: evento_def Let_def cuida_luego(1) id_en_def)
qed

lemma cuida_eventos:
  assumes "i < length (en_salas en)" "distinct (ids en)"
  shows "cuida i en (fold (\<lambda>(azar, ev). evento x t i azar ev) evs en)"
  using assms
proof (induction evs arbitrary: en)
  case Nil
  then show ?case by (simp add: cuida_refl)
next
  case (Cons a evs)
  obtain az ev where a: "a = (az, ev)" by (cases a)
  have c: "cuida i en (evento x t i az ev en)" by (rule cuida_evento [OF Cons.prems])
  show ?case using cuida_trans [OF c Cons.IH] cuida_length [OF c] Cons.prems by (simp add: a)
qed

lemma cuida_tic:
  assumes i: "i < length (en_salas en0)" and d: "distinct (ids en0)"
  shows "cuida i en0 (tic_sala x t i evs en0)"
proof -
  define en1 where "en1 = (if sa_hilo (sala_at i en0) then fold (\<lambda>(azar, ev). evento x t i azar ev) evs en0 else en0)"
  have c1: "cuida i en0 en1" unfolding en1_def using cuida_eventos [OF i d] cuida_refl [OF i] by simp
  note k1 = cuida_length [OF c1]
  have i1: "i < length (en_salas en1)" using i k1 by simp
  obtain cad e where r: "tic t (sa_e (sala_at i en1)) = (cad, e)" by fastforce
  define en2 where "en2 = pon_sala i ((sala_at i en1)\<lparr>sa_e := e\<rparr>) en1"
  define en3 where "en3 = (if cad then marca_cambio (anota_sala x t (''entrega '' @ et_id e @ '' caducada'')
    (guarda_sala i (borra_contenido i en2))) else en2)"
  have t2: "toca i en1 en2" unfolding en2_def
    by (rule toca_pon [OF i1]) (use tic_keeps(1) [OF r] in \<open>simp add: id_en_def\<close>)
  have "cuida i en1 en3"
  proof (cases cad)
    case True
    then have "et_estado e = Caducada" using r by (auto simp: tic_def split: if_splits)
    then have "et_estado (sa_e (sala_at i en2)) \<noteq> Preparando" using i1 by (simp add: en2_def)
    then show ?thesis using True unfolding en3_def by (simp add: cuida_luego cuida_borra [OF t2])
  next
    case False
    have "cuida i en1 en2" unfolding en2_def
      by (rule cuida_sa_e [OF i1]) (use tic_keeps [OF r] in \<open>simp_all add: id_en_def\<close>)
    then show ?thesis using False by (simp add: en3_def)
  qed
  with c1 have c3: "cuida i en0 en3" by (rule cuida_trans)
  have i3: "i < length (en_salas en3)" using cuida_length [OF c3] i by simp
  have "cuida i en3 (marca_cambio (firma_recibo x t i None en3))" if "sa_acuse (sala_at i en3) \<noteq> None"
    by (rule cuida_luego(1) [OF cuida_firma [OF i3 that]])
  then have "cuida i en0 (case sa_acuse (sala_at i en3) of None \<Rightarrow> en3
      | Some (_, desde) \<Rightarrow> if t - desde \<ge> ACUSE_S then marca_cambio (firma_recibo x t i None en3) else en3)"
    using c3 cuida_trans [OF c3] by (auto split: option.split)
  then show ?thesis
    by (simp only: tic_sala_def Let_def en1_def [symmetric] r prod.case en2_def [symmetric] en3_def [symmetric])
qed

section \<open>Filling a delivery, and making room\<close>

lemma preparandoD:
  assumes "preparando en = Inr i"
  shows "i < length (en_salas en)" "et_estado (sa_e (sala_at i en)) = Preparando"
  using assms by (auto simp: preparando_def find_Some_iff split: option.splits)

text \<open>A delivery that is being filled is not closed, whatever is done to its files.\<close>

lemma bien_llenando:
  "bien en s0 \<Longrightarrow> et_estado (sa_e s0) = Preparando \<Longrightarrow> sa_acuse s = sa_acuse s0 \<Longrightarrow> sa_recibo s = sa_recibo s0 \<Longrightarrow>
   et_estado (sa_e s) = Preparando \<or> et_estado (sa_e s) = Esperando \<Longrightarrow> bien en' s"
  by (auto simp: bien_def cerrada_def)

lemma cuida_llenando:
  assumes "toca i en en'" "et_estado (sa_e (sala_at i en)) = Preparando"
    "sa_acuse (sala_at i en') = sa_acuse (sala_at i en)" "sa_recibo (sala_at i en') = sa_recibo (sala_at i en)"
    "et_estado (sa_e (sala_at i en')) = Preparando \<or> et_estado (sa_e (sala_at i en')) = Esperando"
  shows "cuida i en en'"
  by (rule cuidaI [OF assms(1)])
     (use bien_llenando [OF sin_restos_at _ assms(3-5)] assms toca_length [OF assms(1)] in blast)

lemma cuida_archivo:
  assumes "preparando en = Inr i"
  shows "cuida i en (snd (archivo_sala n b az cr en))"
proof -
  note p = preparandoD [OF assms]
  define s where "s = sala_at i en"
  define f where "f = (et_id (sa_e s), length (et_archivos (sa_e s)))"
  have "cuida i en ((pon_sala i (s\<lparr>sa_carga := c\<rparr>) en)\<lparr>en_archivos := (en_archivos en)(f \<mapsto> [])\<rparr>)" for c
    by (rule cuida_llenando)
       (use p in \<open>auto simp: toca_def id_en_def sala_at_def pon_sala_def s_def f_def\<close>)
  with assms show ?thesis using cuida_refl [OF p(1)]
    by (auto simp: archivo_sala_def Let_def s_def f_def split: option.split)
qed

lemma cuida_trozo:
  assumes "preparando en = Inr i"
  shows "cuida i en (snd (trozo_sala x b u en))"
proof -
  note p = preparandoD [OF assms]
  define s where "s = sala_at i en"
  define f where "f = (et_id (sa_e s), length (et_archivos (sa_e s)))"
  have pon: "cuida i en (pon_sala i (s\<lparr>sa_carga := c\<rparr>) en)" for c
    by (rule cuida_llenando) (use p in \<open>auto simp: toca_def id_en_def sala_at_def pon_sala_def s_def\<close>)
  have esc: "cuida i en (escribe_trozos f ts (pon_sala i (s\<lparr>sa_carga := c\<rparr>) en))" for c ts
    by (rule cuida_llenando)
       (use p in \<open>auto simp: toca_def id_en_def sala_at_def pon_sala_def s_def f_def escribe_trozos_def\<close>)
  have esc2: "cuida i en (pon_sala i (s\<lparr>sa_carga := None, sa_e := (sa_e s)\<lparr>et_archivos := as\<rparr>, sa_hojas := hs, sa_claves := ks\<rparr>)
      (escribe_trozos f ts' (escribe_trozos f ts (pon_sala i (s\<lparr>sa_carga := c\<rparr>) en))) \<lparr>en_hojas := hj\<rparr>)" for c ts ts' as hs ks hj
    by (rule cuida_llenando)
       (use p in \<open>auto simp: toca_def id_en_def sala_at_def pon_sala_def s_def f_def escribe_trozos_def\<close>)
  have esc3: "cuida i en (pon_sala i (s\<lparr>sa_carga := None\<rparr>) (escribe_trozos f ts (pon_sala i (s\<lparr>sa_carga := c\<rparr>) en)))" for c ts
    by (rule cuida_llenando)
       (use p in \<open>auto simp: toca_def id_en_def sala_at_def pon_sala_def s_def f_def escribe_trozos_def\<close>)
  show ?thesis using assms cuida_refl [OF p(1)]
    by (auto simp: trozo_sala_def Let_def s_def [symmetric] f_def [symmetric] pon esc esc3 intro!: cuida_luego(1) cuida_luego(4) esc2 split: option.split sum.split prod.split)
qed

lemma cuida_arranca: "i < length (en_salas en) \<Longrightarrow> cuida i en (arranca l i en)" if "\<not> cerrada (sala_at i en)"
  using that cuida_refl unfolding arranca_def
  by (auto split: option.split intro!: cuida_pon simp: id_en_def bien_def cerrada_def dest!: sin_restos_at)

lemma cuida_lista:
  assumes "preparando en = Inr i"
  shows "sin_restos en \<Longrightarrow> sin_restos (snd (lista_sala x t az l en))"
proof -
  assume r: "sin_restos en"
  note p = preparandoD [OF assms]
  define s where "s = sala_at i en"
  have n: "sa_recibo s = None" "et_estado (sa_e s) = Preparando"
    using sin_restos_at [OF r p(1)] p(2) by (simp_all add: bien_def s_def)
  have st: "et_estado (lista (sa_e s)) \<in> {Preparando, Esperando}" using n(2) by (auto simp: lista_def)
  define en1 where "en1 k = pon_sala i (s\<lparr>sa_enlace := Some k, sa_e := lista (sa_e s)\<rparr>) en" for k
  have c1: "cuida i en (en1 k)" for k unfolding en1_def
    by (rule cuida_llenando) (use p st in \<open>auto simp: toca_def id_en_def sala_at_def pon_sala_def s_def\<close>)
  have c2: "cuida i en (marca_cambio (arranca l i (anota_sala x t m (guarda_sala i (en1 k)))))" for k m
  proof (rule cuida_luego(1), rule cuida_trans [OF cuida_luego(2) [OF cuida_luego(4) [OF c1]]], rule cuida_arranca)
    show "\<not> cerrada (sala_at i (anota_sala x t m (guarda_sala i (en1 k))))"
      using n p st by (auto simp: en1_def cerrada_def)
  qed (use cuida_length [OF c1] p in simp)
  show "sin_restos (snd (lista_sala x t az l en))"
    using assms r c2 by (auto simp: lista_sala_def Let_def s_def [symmetric] en1_def [symmetric] cuida_def split: option.split)
qed

lemma sin_restos_quita:
  assumes "sin_restos en" "toca i en en1"
  shows "sin_restos (borra_carpeta (id_en i en) (quita_sala i en1))"
proof -
  let ?en = "borra_carpeta (id_en i en) (quita_sala i en1)"
  have i: "i < length (en_salas en)" using assms(2) by (simp add: toca_def)
  have d: "distinct (ids en)" using assms(1) by (simp add: sin_restos_def)
  obtain z where z: "en_salas en1 = (en_salas en)[i := z]" using assms(2) by (auto simp: toca_def)
  then have sal: "en_salas ?en = take i (en_salas en) @ drop (Suc i) (en_salas en)"
    by (simp add: borra_carpeta_def quita_sala_def)
  have split: "en_salas en = take i (en_salas en) @ sala_at i en # drop (Suc i) (en_salas en)"
    using id_take_nth_drop [OF i] by (simp add: sala_at_def)
  define A where "A = map (\<lambda>s. et_id (sa_e s)) (take i (en_salas en))"
  define B where "B = map (\<lambda>s. et_id (sa_e s)) (drop (Suc i) (en_salas en))"
  have "ids en = A @ id_en i en # B" unfolding ids_def A_def B_def id_en_def by (subst split) simp
  moreover have "ids ?en = A @ B" unfolding ids_def sal A_def B_def by simp
  ultimately have dd: "distinct (ids ?en)" "id_en i en \<notin> set (ids ?en)" using d by auto
  have "bien ?en s" if s: "s \<in> set (en_salas ?en)" for s
  proof -
    have id: "et_id (sa_e s) \<noteq> id_en i en" using dd(2) s unfolding ids_def set_map by (metis imageI)
    have "s \<in> set (en_salas en)" using s unfolding sal by (auto dest: in_set_takeD in_set_dropD)
    then have "bien en s" using assms(1) by (simp add: sin_restos_def)
    then have "bien en1 s" using bien_other [OF assms(2) id] by simp
    then show ?thesis using id by (simp add: bien_def limpia_def borra_carpeta_def quita_sala_def)
  qed
  then show ?thesis using dd(1) by (simp add: sin_restos_def)
qed

lemma sin_restos_borra: "sin_restos en \<Longrightarrow> i < length (en_salas en) \<Longrightarrow> sin_restos (borra_sala i en)"
  using sin_restos_quita [OF _ toca_refl] by (simp add: borra_sala_def id_en_def)

lemma sin_restos_olvida:
  assumes "sin_restos en"
  shows "sin_restos (olvida_sala x t d en)"
proof (cases "indice d en")
  case None
  then show ?thesis using assms by (simp add: olvida_sala_def)
next
  case (Some i)
  have i: "i < length (en_salas en)" "id_en i en = d" using indice_lt [OF Some] by simp_all
  have "sin_restos (borra_carpeta d (quita_sala i (borra_contenido i en)))"
    using sin_restos_quita [OF assms toca_borra [OF i(1)]] i by simp
  then show ?thesis using Some by (simp add: olvida_sala_def sin_restos_def ids_def)
qed

lemma sin_restos_haz_sitio: "sin_restos en \<Longrightarrow> haz_sitio en = (b, en') \<Longrightarrow> sin_restos en' \<and> set (ids en') \<subseteq> set (ids en)"
proof (induction en arbitrary: b en' rule: haz_sitio.induct)
  case (1 en)
  show ?case
  proof (cases "\<exists>i. length (en_salas en) \<ge> MAX_ENTREGAS \<and>
      find (\<lambda>i. \<not> viva (et_estado (sa_e (sala_at i en)))) [0 ..< length (en_salas en)] = Some i")
    case False
    then show ?thesis using 1 by (subst (asm) (2) haz_sitio.simps) (auto split: if_splits option.splits)
  next
    case True
    then obtain i where f: "length (en_salas en) \<ge> MAX_ENTREGAS"
      "find (\<lambda>i. \<not> viva (et_estado (sa_e (sala_at i en)))) [0 ..< length (en_salas en)] = Some i" by blast
    then have i: "i < length (en_salas en)" by (auto simp: find_Some_iff)
    have h: "haz_sitio (borra_sala i en) = (b, en')" using "1.prems"(2) f by (subst (asm) haz_sitio.simps) simp
    have "set (ids (borra_sala i en)) \<subseteq> set (ids en)"
      by (auto simp: ids_def borra_sala_def borra_carpeta_def quita_sala_def dest: in_set_takeD in_set_dropD)
    with "1.IH" [OF f sin_restos_borra [OF "1.prems"(1) i] h] show ?thesis by blast
  qed
qed

lemma cuida_fold:
  assumes "\<And>i en. i < n \<Longrightarrow> length (en_salas en) = n \<Longrightarrow> distinct (ids en) \<Longrightarrow> cuida i en (f i en)"
    "set is \<subseteq> {..<n}" "length (en_salas en) = n" "sin_restos en"
  shows "sin_restos (fold f is en) \<and> ids (fold f is en) = ids en"
  using assms(2-)
proof (induction "is" arbitrary: en)
  case (Cons i "is")
  have d: "distinct (ids en)" using Cons.prems(3) by (simp add: sin_restos_def)
  have c: "cuida i en (f i en)" by (rule assms(1)) (use Cons.prems d in auto)
  have r: "sin_restos (f i en)" using c Cons.prems(3) by (simp add: cuida_def)
  show ?case using Cons.IH [OF _ _ r] Cons.prems cuida_length [OF c] by simp
qed simp

lemma sin_restos_tic_entregas: "sin_restos en \<Longrightarrow> sin_restos (tic_entregas x t evs en)"
  unfolding tic_entregas_def
  by (rule conjunct1 [OF cuida_fold [where n = "length (en_salas en)"]]) (auto intro: cuida_tic)

lemma sin_restos_retira:
  "sin_restos en \<Longrightarrow> set is \<subseteq> {..<length (en_salas en)} \<Longrightarrow>
   sin_restos (fold retira_a_medias is en) \<and> ids (fold retira_a_medias is en) = ids en"
  by (rule cuida_fold [where n = "length (en_salas en)"]) (auto intro: cuida_retira)

lemma sin_restos_anade:
  assumes "sin_restos en" "et_id (sa_e s) \<notin> set (ids en)" "\<not> cerrada s" "sa_acuse s = None"
  shows "sin_restos (en\<lparr>en_salas := en_salas en @ [s]\<rparr>)"
proof -
  have "bien (en\<lparr>en_salas := en_salas en @ [s]\<rparr>) z = bien en z" for z by (simp add: bien_def limpia_def)
  moreover have "bien en s" using assms(3,4) by (auto simp: bien_def cerrada_def)
  ultimately show ?thesis using assms(1,2) by (auto simp: sin_restos_def ids_def)
qed

lemma sin_restos_quieto:
  "sin_restos (marca_cambio en) = sin_restos en" "sin_restos (anota_sala x t m en) = sin_restos en"
  by (simp_all add: sin_restos_def ids_def)

lemma nueva_entrega_estado:
  "nueva_entrega t c n b az ds = Inr e \<Longrightarrow> et_estado e = Preparando"
  by (cases "codigo_nuevo n ds") (auto simp: nueva_entrega_def and_then_def split: option.splits)

lemma sin_restos_nueva:
  assumes "sin_restos en0" "nueva_sala x t ca n b ti az ds en0 = (r, en')" "\<And>d. r = Inr d \<Longrightarrow> d \<notin> set (ids en0)"
  shows "sin_restos en'"
proof -
  define am where "am = filter (\<lambda>i. et_estado (sa_e (sala_at i en0)) = Preparando) [0 ..< length (en_salas en0)]"
  obtain sitio en where h: "haz_sitio (fold retira_a_medias am en0) = (sitio, en)" by fastforce
  have "set am \<subseteq> {..<length (en_salas en0)}" by (auto simp: am_def)
  note f = sin_restos_retira [OF assms(1) this]
  note g = sin_restos_haz_sitio [OF conjunct1 [OF f] h]
  show ?thesis
  proof (cases sitio)
    case False
    then show ?thesis using assms(2) g by (simp add: nueva_sala_def Let_def am_def [symmetric] h)
  next
    case True
    show ?thesis
    proof (cases "nueva_entrega t (caducidad_de ca) n b az ds")
      case (Inl e)
      then show ?thesis using assms(2) g True by (simp add: nueva_sala_def Let_def am_def [symmetric] h)
    next
      case (Inr e)
      let ?s = "sala_new (e\<lparr>et_titulo := take_chars 80 ti\<rparr>)"
      have n: "r = Inr (et_id e)" "en' = marca_cambio (anota_sala x t (''entrega '' @ et_id e @ '' creada'')
          (en\<lparr>en_salas := en_salas en @ [?s]\<rparr>))"
        using assms(2) True Inr by (simp_all add: nueva_sala_def Let_def am_def [symmetric] h)
      have "sin_restos (en\<lparr>en_salas := en_salas en @ [?s]\<rparr>)"
      proof (rule sin_restos_anade [OF conjunct1 [OF g]])
        show "et_id (sa_e ?s) \<notin> set (ids en)" using assms(3) [OF n(1)] f g by (auto simp: sala_new_def)
        show "\<not> cerrada ?s" using nueva_entrega_estado [OF Inr] by (simp add: cerrada_def sala_new_def)
      qed (simp add: sala_new_def)
      then show ?thesis by (simp add: n(2) sin_restos_quieto)
    qed
  qed
qed

section \<open>The room while the program runs\<close>

text \<open>The operations the screen asks for and the ticks, with what the threads said in between. The
  draw that makes an id gives one no delivery has: 96 bits of chance in the code.\<close>

inductive opera :: "sala_crates \<Rightarrow> entregas \<Rightarrow> entregas \<Rightarrow> bool" for x where
  nueva: "nueva_sala x t ca n b ti az ds en = (r, en') \<Longrightarrow> (\<And>d. r = Inr d \<Longrightarrow> d \<notin> set (ids en)) \<Longrightarrow> opera x en en'"
| archivo: "opera x en (snd (archivo_sala n k az creado en))"
| trozo: "opera x en (snd (trozo_sala x b ultimo en))"
| lista: "opera x en (snd (lista_sala x t az lanzado en))"
| revoca: "opera x en (revoca_sala x t d en)"
| destruye: "opera x en (destruye_sala x t d m en)"
| olvida: "opera x en (olvida_sala x t d en)"
| tic: "opera x en (tic_entregas x t evs en)"

inductive operan :: "sala_crates \<Rightarrow> entregas \<Rightarrow> entregas \<Rightarrow> bool" for x where
  nada: "operan x en en"
| mas: "operan x en en1 \<Longrightarrow> opera x en1 en2 \<Longrightarrow> operan x en en2"

lemma sin_restos_opera: "opera x en en' \<Longrightarrow> sin_restos en \<Longrightarrow> sin_restos en'"
proof (induction rule: opera.induct)
  case (nueva t ca n b ti az ds en r en')
  then show ?case using sin_restos_nueva by blast
next
  case (archivo en n k az creado)
  then show ?case using cuida_archivo by (cases "preparando en") (auto simp: cuida_def archivo_sala_def)
next
  case (trozo en b ultimo)
  then show ?case using cuida_trozo by (cases "preparando en") (auto simp: cuida_def trozo_sala_def)
next
  case (lista en t az lanzado)
  then show ?case using cuida_lista by (cases "preparando en") (auto simp: lista_sala_def)
next
  case (revoca en t d)
  then show ?case using cuida_revoca by (cases "indice d en") (auto simp: cuida_def revoca_sala_def)
next
  case (destruye en t d m)
  show ?case
  proof (cases "indice d en")
    case None
    then show ?thesis using destruye by (simp add: destruye_sala_def)
  next
    case (Some i)
    then have "cuida i en (destruye_sala x t d m en)"
      using cuida_destruye [OF toca_refl, of i en x t m] indice_lt [OF Some] destruye by (simp add: sin_restos_def)
    then show ?thesis using destruye by (simp add: cuida_def)
  qed
next
  case (olvida en t d)
  then show ?case by (rule sin_restos_olvida)
next
  case (tic en t evs)
  then show ?case by (rule sin_restos_tic_entregas)
qed

lemma sin_restos_operan: "operan x en en' \<Longrightarrow> sin_restos en \<Longrightarrow> sin_restos en'"
  by (induction rule: operan.induct) (auto intro: sin_restos_opera)

text \<open>Where the program begins: deliveries still open, none of them with a receipt.\<close>

definition abierto_todo :: "entregas \<Rightarrow> bool" where
  "abierto_todo en \<longleftrightarrow>
     distinct (ids en) \<and>
     list_all (\<lambda>s. viva (et_estado (sa_e s)) \<and> sa_acuse s = None \<and> sa_recibo s = None) (en_salas en)"

lemma sin_restos_abierto: "abierto_todo en \<Longrightarrow> sin_restos en"
  by (auto simp: abierto_todo_def sin_restos_def bien_def cerrada_def viva_def list_all_iff)

text \<open>C30: From a room with open deliveries and while the program runs, whatever the screen asks for and
  whatever the receivers' threads say, in any order: a delivery that was taken back, destroyed or whose receipt was
  signed has no keys, no link, no file being filled and no thread in memory. Of the disk: every file
  it had finished sealing is gone, but one the system would not remove, and neither a key nor
  the link is in its \<open>estado.bin\<close>, unless the system would not write it. What was being sealed when it was
  taken back is not among the files it lists: it may stay on disk, and the key that opens it is gone.\<close>

theorem closed_room_keeps_nothing:
  assumes "abierto_todo en" "operan x en en'" "i < length (en_salas en')" "s = sala_at i en'"
    "et_estado (sa_e s) = Revocada \<or> (\<exists>m. et_estado (sa_e s) = Destruida m) \<or> sa_recibo s \<noteq> None"
  shows "sa_claves s = [] \<and> sa_enlace s = None \<and> sa_carga s = None \<and> \<not> sa_hilo s \<and>
    (\<forall>n < length (et_archivos (sa_e s)).
       \<not> en_resiste en' (et_id (sa_e s), Some n) \<longrightarrow> en_archivos en' (et_id (sa_e s), n) = None) \<and>
    (\<forall>g. en_estados en' (et_id (sa_e s)) = Some g \<and> \<not> en_resiste en' (et_id (sa_e s), None) \<longrightarrow>
       gu_claves g = [] \<and> gu_enlace g = None)"
proof -
  have "sin_restos en'" by (rule sin_restos_operan [OF assms(2) sin_restos_abierto [OF assms(1)]])
  then have "bien en' s" using sin_restos_at assms(3,4) by simp
  moreover have "cerrada s" using assms(5) by (simp only: cerrada_def)
  ultimately have "limpia en' s" by (simp only: bien_def)
  then show ?thesis unfolding limpia_def by blast
qed

definition x_ejemplo :: sala_crates where
  "x_ejemplo = \<lparr>sx_aead = sample_aead, sx_sha = (\<lambda>b. be_bytes 32 (length b)), sx_cripto = cripto_ejemplo,
     sx_recibo = (\<lambda>e r. et_id e), sx_firma = (\<lambda>k c. None), sx_verifica = (\<lambda>c k f. True)\<rparr>"

definition en_ejemplo :: entregas where
  "en_ejemplo = \<lparr>en_salas = [(sala_new (entrega_ejemplo\<lparr>et_estado := Esperando, et_archivos := [archivo_ejemplo]\<rparr>))
       \<lparr>sa_claves := [\<lparr>kl_bytes = [7], kl_prefijo = [9]\<rparr>], sa_enlace := Some [5], sa_hilo := True\<rparr>],
     en_cadena = \<lparr>ca_sesion = [], ca_inicio = 0, ca_registros = []\<rparr>, en_avisos = [], en_cambio = False, en_clave_recibos = None,
     en_estados = (\<lambda>_. None), en_archivos = (\<lambda>_. Some [1]), en_hojas = (\<lambda>_. None), en_resiste = (\<lambda>_. False), en_dicho = []\<rparr>"

theorem closed_room_keeps_nothing_witness:
  "\<exists>en' s. operan x_ejemplo en_ejemplo en' \<and> en_salas en' = [s] \<and> et_estado (sa_e s) = Revocada \<and>
     sa_claves (sala_at 0 en_ejemplo) \<noteq> [] \<and> sa_claves s = []"
proof -
  let ?id = "et_id entrega_ejemplo"
  define en' where "en' = revoca_sala x_ejemplo 1000 ?id en_ejemplo"
  have ind: "indice ?id en_ejemplo = Some 0"
    by (simp add: indice_def en_ejemplo_def sala_at_def sala_new_def)
  have o: "operan x_ejemplo en_ejemplo en'" unfolding en'_def by (rule operan.mas [OF operan.nada opera.revoca])
  have a: "abierto_todo en_ejemplo" by (simp add: abierto_todo_def en_ejemplo_def ids_def viva_def sala_new_def)
  have v: "viva (et_estado (sa_e (sala_at 0 en_ejemplo)))" "0 < length (en_salas en_ejemplo)"
    "sa_claves (sala_at 0 en_ejemplo) \<noteq> []" "length (en_salas en_ejemplo) = Suc 0"
    by (simp_all add: en_ejemplo_def sala_at_def sala_new_def viva_def)
  have e: "et_estado (sa_e (sala_at 0 en')) = Revocada"
    using v by (simp add: en'_def revoca_sala_def ind) (simp add: borra_contenido_def Let_def revoca_def sala_at_def pon_sala_def con_e_def)
  have l: "length (en_salas en') = Suc 0"
    using cuida_length(2) [OF cuida_revoca [OF ind]] v(4) by (simp add: en'_def)
  from closed_room_keeps_nothing [OF a o _ refl, of 0] e l have "sa_claves (sala_at 0 en') = []" by simp
  moreover have "en_salas en' = [sala_at 0 en']" using l by (cases "en_salas en'") (simp_all add: sala_at_def)
  ultimately show ?thesis using o e v(3) by blast
qed

section \<open>What escapes it\<close>

lemma pon_sala_id: "i < length (en_salas en) \<Longrightarrow> pon_sala i (sala_at i en) en = en"
  by (simp add: pon_sala_def sala_at_def)

lemma tic_sala_muerta:
  assumes "i < length (en_salas en)" "\<not> viva (et_estado (sa_e (sala_at i en)))" "sa_acuse (sala_at i en) = None"
  shows "tic_sala x t i [] en = en"
  using assms by (simp add: tic_sala_def tic_def pon_sala_id)

lemma revoca_sala_muerta:
  "indice d en = Some i \<Longrightarrow> \<not> viva (et_estado (sa_e (sala_at i en))) \<Longrightarrow> revoca_sala x t d en = en"
  by (simp add: revoca_sala_def)

text \<open>What a delivery keeps: its keys, its sealed files and what is written of it. Of the room \<open>i\<close>, expired and with no
  receipt to sign.\<close>

definition conserva :: "nat \<Rightarrow> string \<Rightarrow> clave list \<Rightarrow> entregas \<Rightarrow> entregas \<Rightarrow> bool" where
  "conserva i d ks en0 en \<longleftrightarrow>
     i < length (en_salas en) \<and> distinct (ids en) \<and> id_en i en = d \<and>
     et_estado (sa_e (sala_at i en)) = Caducada \<and> sa_acuse (sala_at i en) = None \<and>
     sa_claves (sala_at i en) = ks \<and> en_estados en d = en_estados en0 d \<and>
     (\<forall>n. en_archivos en (d, n) = en_archivos en0 (d, n))"

lemma conserva_otra:
  assumes "conserva i d ks en0 en" "toca j en en'" "j \<noteq> i"
  shows "conserva i d ks en0 en'"
proof -
  have c: "i < length (en_salas en)" "distinct (ids en)" "id_en i en = d" using assms(1) by (simp_all add: conserva_def)
  have j: "j < length (en_salas en)" using assms(2) by (simp add: toca_def)
  have "d \<noteq> id_en j en"
    using c assms(3) j by (auto simp: ids_def id_en_def sala_at_def distinct_conv_nth)
  moreover have "sala_at i en' = sala_at i en" using assms(2,3) by (auto simp: toca_def sala_at_def)
  ultimately show ?thesis
    using assms(1,2) ids_toca [OF assms(2)] toca_length [OF assms(2)] by (auto simp: conserva_def toca_def id_en_def)
qed

lemma conserva_pon:
  "conserva i d ks en0 en \<Longrightarrow> sa_e s = sa_e (sala_at i en) \<Longrightarrow> sa_claves s = sa_claves (sala_at i en) \<Longrightarrow>
   sa_acuse s = None \<Longrightarrow> conserva i d ks en0 (pon_sala i s en)"
  using ids_toca [OF toca_pon, of i en s] by (simp add: conserva_def id_en_def)

lemma conserva_quieto [simp]:
  "conserva i d ks en0 (marca_cambio en) = conserva i d ks en0 en"
  "conserva i d ks en0 (dile j a en) = conserva i d ks en0 en"
  by (simp_all add: conserva_def ids_def id_en_def)

lemma conserva_evento:
  assumes "conserva i d ks en0 en" "ev \<noteq> Manipulado"
  shows "conserva i d ks en0 (evento x t i az ev en)"
proof -
  have m: "et_estado (sa_e (sala_at i en)) = Caducada" "sa_acuse (sala_at i en) = None"
    using assms(1) by (simp_all add: conserva_def)
  have "intenta c tk t az (sa_e (sala_at i en)) = (Inr (NoVigente, None), sa_e (sala_at i en))" for c tk
    using m by (simp add: intenta_def tic_def viva_def)
  moreover have "recibido n rz t (sa_e (sala_at i en)) = (False, sa_e (sala_at i en))" for n rz
    using m by (simp add: recibido_def)
  ultimately show ?thesis
    using assms m by (cases ev) (auto simp: evento_def codigo_sala_def Let_def intro!: conserva_pon)
qed

lemma conserva_eventos:
  "conserva i d ks en0 en \<Longrightarrow> \<forall>p \<in> set evs. snd p \<noteq> Manipulado \<Longrightarrow>
   conserva i d ks en0 (fold (\<lambda>(az, ev). evento x t i az ev) evs en)"
  by (induction evs arbitrary: en) (simp_all add: conserva_evento split_beta)

lemma conserva_tic:
  assumes "conserva i d ks en0 en" "\<forall>p \<in> set evs. snd p \<noteq> Manipulado"
  shows "conserva i d ks en0 (tic_sala x t i evs en)"
proof -
  define en1 where "en1 = (if sa_hilo (sala_at i en) then fold (\<lambda>(az, ev). evento x t i az ev) evs en else en)"
  have c: "conserva i d ks en0 en1" using conserva_eventos [OF assms] assms(1) by (simp add: en1_def)
  then have "tic t (sa_e (sala_at i en1)) = (False, sa_e (sala_at i en1))" "sa_acuse (sala_at i en1) = None"
    "i < length (en_salas en1)" by (simp_all add: conserva_def tic_def viva_def)
  then have "tic_sala x t i evs en = en1" by (simp add: tic_sala_def en1_def [symmetric] pon_sala_id)
  with c show ?thesis by simp
qed

lemma conserva_tics:
  assumes "conserva i d ks en0 en" "\<forall>p \<in> set (evs i). snd p \<noteq> Manipulado" "\<forall>j \<in> set js. j < length (en_salas en)"
  shows "conserva i d ks en0 (fold (\<lambda>i. tic_sala x t i (evs i)) js en)"
  using assms(1,3)
proof (induction js arbitrary: en)
  case (Cons j js)
  have d: "distinct (ids en)" using Cons.prems(1) by (simp add: conserva_def)
  have j: "j < length (en_salas en)" using Cons.prems(2) by simp
  note q = cuida_tic [OF j d, of x t "evs j"]
  have "conserva i d ks en0 (tic_sala x t j (evs j) en)"
  proof (cases "j = i")
    case True
    with conserva_tic [OF Cons.prems(1) assms(2)] show ?thesis by simp
  next
    case False
    from q have "toca j en (tic_sala x t j (evs j) en)" by (simp add: cuida_def)
    from conserva_otra [OF Cons.prems(1) this False] show ?thesis .
  qed
  moreover have "\<forall>k \<in> set js. k < length (en_salas (tic_sala x t j (evs j) en))"
    using Cons.prems(2) cuida_length(2) [OF q] by simp
  ultimately show ?case using Cons.IH by simp
qed simp

text \<open>What may go on afterwards: ticks of the whole room, whatever the threads say but that what they got
  was tampered with, and deliveries taken back, this one or any other.\<close>

inductive transcurre :: "sala_crates \<Rightarrow> nat \<Rightarrow> entregas \<Rightarrow> entregas \<Rightarrow> bool" for x i where
  nada: "transcurre x i en en"
| tic: "transcurre x i en en1 \<Longrightarrow> (\<And>p. p \<in> set (evs i) \<Longrightarrow> snd p \<noteq> Manipulado) \<Longrightarrow> transcurre x i en (tic_entregas x t evs en1)"
| retira: "transcurre x i en en1 \<Longrightarrow> transcurre x i en (revoca_sala x t d en1)"

lemma conserva_sigue: "transcurre x i en en' \<Longrightarrow> conserva i d ks en0 en \<Longrightarrow> conserva i d ks en0 en'"
proof (induction rule: transcurre.induct)
  case (tic en en1 evs t)
  then show ?case unfolding tic_entregas_def by (intro conserva_tics) auto
next
  case (retira en en1 t d')
  then have c: "conserva i d ks en0 en1" by simp
  show ?case
  proof (cases "indice d' en1")
    case None
    then show ?thesis using c by (simp add: revoca_sala_def)
  next
    case (Some j)
    show ?thesis
    proof (cases "j = i")
      case True
      then have "\<not> viva (et_estado (sa_e (sala_at j en1)))" using c by (simp add: conserva_def viva_def)
      from revoca_sala_muerta [OF Some this] c show ?thesis by simp
    next
      case False
      have "toca j en1 (revoca_sala x t d' en1)" using cuida_revoca [OF Some] by (simp add: cuida_def)
      from conserva_otra [OF c this False] show ?thesis .
    qed
  qed
qed

text \<open>C31: A delivery whose time passes while a code is being looked at is expired by the code's own
  check and not by the tick that wipes: it stays on the list as expired with its keys in memory, its
  sealed files and its keys on disk. However many ticks of the whole room follow, and whoever is
  taken back, this one included, they stay, unless its thread says that it was tampered with. Forgetting it
  does remove them, from the disk too if the disk lets them go.\<close>

theorem expired_under_a_code_keeps_its_keys:
  assumes "distinct (ids en)" "i < length (en_salas en)" "s = sala_at i en" "d = et_id (sa_e s)" "sa_hilo s"
    "sa_acuse s = None" "et_estado (sa_e s) = Esperando \<or> et_estado (sa_e s) = Abierta" "et_vence (sa_e s) \<le> t"
    "\<forall>p \<in> set evs. snd p \<noteq> Manipulado" "en' = tic_sala x t i ((az, Codigo co tk) # evs) en" "transcurre x i en' en''"
  shows "et_estado (sa_e (sala_at i en'')) = Caducada \<and> et_id (sa_e (sala_at i en'')) = d \<and>
    sa_claves (sala_at i en'') = sa_claves s \<and> en_estados en'' d = en_estados en d \<and>
    (\<forall>n. en_archivos en'' (d, n) = en_archivos en (d, n)) \<and>
    (d \<notin> set (ids (olvida_sala x t' d en'')) \<and>
     (\<forall>n. \<not> en_resiste en'' (d, Some n) \<longrightarrow> en_archivos (olvida_sala x t' d en'') (d, n) = None) \<and>
     (\<not> en_resiste en'' (d, None) \<longrightarrow> en_estados (olvida_sala x t' d en'') d = None))"
proof -
  let ?e = "(sa_e s)\<lparr>et_estado := Caducada\<rparr>"
  define en1 where "en1 = marca_cambio (dile i (AlFin (nombre_estado Caducada)) (pon_sala i (s\<lparr>sa_e := ?e\<rparr>) en))"
  have "intenta co tk t az (sa_e s) = (Inr (NoVigente, None), ?e)"
    using assms(7,8) by (auto simp: intenta_def tic_def viva_def)
  then have ev: "evento x t i az (Codigo co tk) en = en1"
    using assms(3) by (simp add: evento_def codigo_sala_def Let_def en1_def)
  have ids1: "ids en1 = ids en"
    using ids_toca [OF toca_pon, of i en "s\<lparr>sa_e := ?e\<rparr>"] assms(2,3) by (simp add: en1_def ids_def id_en_def)
  have "conserva i d (sa_claves s) en en1"
    using assms(1,2,4,6) ids1 by (simp add: conserva_def) (simp add: en1_def id_en_def)
  from conserva_eventos [OF this assms(9)]
  have c1: "conserva i d (sa_claves s) en (fold (\<lambda>(az, ev). evento x t i az ev) evs en1)" (is "conserva i d _ en ?en2") .
  then have "tic t (sa_e (sala_at i ?en2)) = (False, sa_e (sala_at i ?en2))" "sa_acuse (sala_at i ?en2) = None"
    "i < length (en_salas ?en2)" by (simp_all add: conserva_def tic_def viva_def)
  then have "en' = ?en2" using assms(3,5,10) ev by (simp add: tic_sala_def pon_sala_id)
  with conserva_sigue [OF assms(11)] c1 have c: "conserva i d (sa_claves s) en en''" by simp
  then have w: "indice d en'' = Some i" "i < length (en_salas en'')" "distinct (ids en'')" "id_en i en'' = d"
    using indice_at [of en'' i] by (auto simp: conserva_def)
  have "d \<notin> set (ids (olvida_sala x t' d en''))"
  proof -
    have e: "olvida_sala x t' d en'' = marca_cambio (anota_sala x t' (''entrega '' @ d @ '' borrada de la lista'')
        (borra_carpeta d (quita_sala i (borra_contenido i en''))))" by (simp add: olvida_sala_def w(1))
    have "ids (olvida_sala x t' d en'') = take i (ids en'') @ drop (Suc i) (ids en'')"
      using w(2) unfolding e by (simp add: ids_def borra_carpeta_def quita_sala_def borra_contenido_def Let_def
          pon_sala_def take_map drop_map)
    moreover have "ids en'' = take i (ids en'') @ d # drop (Suc i) (ids en'')"
      using id_take_nth_drop [of i "ids en''"] w(2,4) by (simp add: ids_def id_en_def sala_at_def)
    ultimately show ?thesis using w(3) by (metis distinct_append not_distinct_conv_prefix distinct.simps(2) disjoint_insert(1) list.set(2) set_append Un_iff)
  qed
  then show ?thesis
    using c w by (simp add: conserva_def id_en_def)
      (simp add: olvida_sala_def borra_carpeta_def quita_sala_def borra_contenido_def Let_def pon_sala_def)
qed

theorem expired_under_a_code_keeps_its_keys_witness:
  "sa_claves (sala_at 0 (revoca_sala x_ejemplo 9 (et_id entrega_ejemplo)
     (tic_sala x_ejemplo (et_vence entrega_ejemplo) 0 [(None, Codigo ''1'' [])] en_ejemplo))) =
     [\<lparr>kl_bytes = [7], kl_prefijo = [9]\<rparr>]"
proof -
  define en' where "en' = tic_sala x_ejemplo (et_vence entrega_ejemplo) 0 [(None, Codigo ''1'' [])] en_ejemplo"
  have h: "distinct (ids en_ejemplo)" "0 < length (en_salas en_ejemplo)" "sa_hilo (sala_at 0 en_ejemplo)"
    "sa_acuse (sala_at 0 en_ejemplo) = None"
    "et_estado (sa_e (sala_at 0 en_ejemplo)) = Esperando \<or> et_estado (sa_e (sala_at 0 en_ejemplo)) = Abierta"
    "et_vence (sa_e (sala_at 0 en_ejemplo)) \<le> et_vence entrega_ejemplo"
    "sa_claves (sala_at 0 en_ejemplo) = [\<lparr>kl_bytes = [7], kl_prefijo = [9]\<rparr>]"
    by (simp_all add: en_ejemplo_def sala_at_def sala_new_def ids_def)
  have g: "transcurre x_ejemplo 0 en' (revoca_sala x_ejemplo 9 (et_id entrega_ejemplo) en')"
    by (rule transcurre.retira [OF transcurre.nada])
  from expired_under_a_code_keeps_its_keys [OF h(1,2) refl refl h(3-6) _ en'_def g] h(7)
  show ?thesis by (simp add: en'_def)
qed

text \<open>A delivery that was being filled when the program stopped is taken back when it starts
  again, and nothing of it is wiped: its keys come back from disk, they and its sealed files stay
  there, and no later tick and no taking it back removes them.\<close>

theorem filled_then_restarted_keeps_its_keys:
  assumes "i < length (en_salas en)" "sala_at i en = sala_de_disco hojas g" "et_estado (gu_entrega g) = Preparando"
    "en' = al_abrir lanzado i en"
  shows "et_estado (sa_e (sala_at i en')) = Revocada \<and> sa_claves (sala_at i en') = gu_claves g \<and>
    en_archivos en' = en_archivos en \<and> en_estados en' = en_estados en \<and> tic_sala x t i [] en' = en' \<and>
    (indice (et_id (gu_entrega g)) en' = Some i \<longrightarrow> revoca_sala x t (et_id (gu_entrega g)) en' = en')"
proof -
  have s: "sa_e (sala_at i en) = gu_entrega g" "sa_acuse (sala_at i en) = None" "sa_claves (sala_at i en) = gu_claves g"
    by (simp_all add: assms(2) sala_de_disco_def sala_new_def)
  have en': "en' = con_e i revoca en"
    using assms(1,3,4) by (simp add: al_abrir_def Let_def s revoca_def viva_def)
  have s1: "sala_at i en' = (sala_at i en)\<lparr>sa_e := (gu_entrega g)\<lparr>et_estado := Revocada\<rparr>\<rparr>" "i < length (en_salas en')"
    using assms(1,3) by (simp_all add: en' s revoca_def viva_def) (simp add: con_e_def)
  have d: "\<not> viva (et_estado (sa_e (sala_at i en')))" by (simp add: s1 viva_def)
  show ?thesis
    using s1 s tic_sala_muerta [OF s1(2) d] revoca_sala_muerta [OF _ d] by (simp add: en' con_e_def)
qed

theorem filled_then_restarted_keeps_its_keys_witness:
  "sa_claves (sala_at 0 (al_abrir True 0 (en_ejemplo\<lparr>en_salas := [sala_de_disco (\<lambda>_. None)
     \<lparr>gu_entrega = entrega_ejemplo, gu_claves = [\<lparr>kl_bytes = [7], kl_prefijo = [9]\<rparr>], gu_enlace = None, gu_recibo = None\<rparr>]\<rparr>)))
   = [\<lparr>kl_bytes = [7], kl_prefijo = [9]\<rparr>]"
  using filled_then_restarted_keeps_its_keys [of 0 "en_ejemplo\<lparr>en_salas := [sala_de_disco (\<lambda>_. None)
     \<lparr>gu_entrega = entrega_ejemplo, gu_claves = [\<lparr>kl_bytes = [7], kl_prefijo = [9]\<rparr>], gu_enlace = None, gu_recibo = None\<rparr>]\<rparr>"
     "\<lambda>_. None" "\<lparr>gu_entrega = entrega_ejemplo, gu_claves = [\<lparr>kl_bytes = [7], kl_prefijo = [9]\<rparr>], gu_enlace = None, gu_recibo = None\<rparr>",
     OF _ _ _ refl]
  by (simp add: sala_at_def entrega_ejemplo_def)

end
