(* ===== verification/Licencia.thy ===== *)
theory Licencia imports Ledger Servers begin

text \<open>
  The plan in force, \<open>crates/license/src/lib.rs\<close>, and the anchor beside the ledger, \<open>ancla.rs\<close>: the
  trial, the licence and its periodic check. The state is the ledger (its settings), the anchor (a
  folder of files or the registry, as texts, which may refuse to be written) and what the process
  remembers of the clock. A call is given the system's clock in milliseconds and the monotonic one.
  The gateway's answers, the JSON texts and the random secret are parameters; what a JSON error says is one word. Sums that do not
  saturate in the source are those of the integers.
\<close>

section \<open>Settings and constants\<close>

definition SETTING_TRIAL_STARTED :: string where "SETTING_TRIAL_STARTED = ''plus_trial_started_at''"
definition SETTING_LICENSE_KEY :: string where "SETTING_LICENSE_KEY = ''license_key''"
definition SETTING_LICENSE_ACTIVATION :: string where "SETTING_LICENSE_ACTIVATION = ''license_key_activation''"
definition SETTING_LICENSE_KEY_MARK :: string where "SETTING_LICENSE_KEY_MARK = ''license_key_mark''"
definition SETTING_LICENSE_SECRET :: string where "SETTING_LICENSE_SECRET = ''license_secret''"
definition SETTING_LICENSE_KEY_AT :: string where "SETTING_LICENSE_KEY_AT = ''license_key_at''"
definition SETTING_LICENSE_CHECKED_AT :: string where "SETTING_LICENSE_CHECKED_AT = ''license_checked_at''"
definition SETTING_LICENSE_CHECK_FAILED_AT :: string where "SETTING_LICENSE_CHECK_FAILED_AT = ''license_check_failed_at''"
definition SETTING_LICENSE_ENDED_AT :: string where "SETTING_LICENSE_ENDED_AT = ''license_ended_at''"
definition SETTING_LICENSE_REJECTED_AT :: string where "SETTING_LICENSE_REJECTED_AT = ''license_rejected_at''"
definition SETTING_LICENSE_TRIED_AT :: string where "SETTING_LICENSE_TRIED_AT = ''license_check_tried_at''"
definition SETTING_LICENSE_LAST_FAILURE :: string where "SETTING_LICENSE_LAST_FAILURE = ''license_check_last_failure''"
definition SETTING_LICENSE_REVISADA :: string where "SETTING_LICENSE_REVISADA = ''license_revisada_1_0_2''"
definition SETTING_LICENSE_PERIOD_DAYS :: string where "SETTING_LICENSE_PERIOD_DAYS = ''license_period_days''"
definition SETTING_CLOCK_SEEN :: string where "SETTING_CLOCK_SEEN = ''license_clock_seen''"

lemmas license_settings =
  SETTING_TRIAL_STARTED_def SETTING_LICENSE_KEY_def SETTING_LICENSE_ACTIVATION_def SETTING_LICENSE_KEY_MARK_def
  SETTING_LICENSE_SECRET_def SETTING_LICENSE_KEY_AT_def SETTING_LICENSE_CHECKED_AT_def
  SETTING_LICENSE_CHECK_FAILED_AT_def SETTING_LICENSE_ENDED_AT_def SETTING_LICENSE_REJECTED_AT_def
  SETTING_LICENSE_TRIED_AT_def SETTING_LICENSE_LAST_FAILURE_def SETTING_LICENSE_REVISADA_def
  SETTING_LICENSE_PERIOD_DAYS_def SETTING_CLOCK_SEEN_def

definition TRIAL_DAYS :: int where "TRIAL_DAYS = 7"
definition GRATIS_HISTORIAL_MS :: int where "GRATIS_HISTORIAL_MS = DAY_MS"
definition GRATIS_DISPOSITIVOS :: nat where "GRATIS_DISPOSITIVOS = 1"
definition PLUS_DISPOSITIVOS :: nat where "PLUS_DISPOSITIVOS = 5"
definition GRACE_DAYS :: int where "GRACE_DAYS = 7"
definition PRIMERA_COMPROBACION_DIAS :: int where "PRIMERA_COMPROBACION_DIAS = TRIAL_DAYS + 1"
definition MONTH_DAYS :: int where "MONTH_DAYS = 30"
definition YEAR_DAYS :: int where "YEAR_DAYS = 365"
definition DE_POR_VIDA :: int where "DE_POR_VIDA = 0"
definition RELOJ_PASO_EXTRACTO_MS :: int where "RELOJ_PASO_EXTRACTO_MS = 60 * 1000"
definition RELOJ_PASO_ANCLA_MS :: int where "RELOJ_PASO_ANCLA_MS = HOUR_MS"
definition RELOJ_HOLGURA_MS :: int where "RELOJ_HOLGURA_MS = 5 * 60 * 1000"
definition RELOJ_MARGEN_PRIMERA_MS :: int where "RELOJ_MARGEN_PRIMERA_MS = 10 * 60 * 1000"
definition RELOJ_CONFIRMA_MS :: int where "RELOJ_CONFIRMA_MS = 5 * 60 * 1000"
definition RELOJ_DESVIO_MS :: int where "RELOJ_DESVIO_MS = 60 * 1000"
definition PRIMERA_VERSION_MS :: int where "PRIMERA_VERSION_MS = 1788220800000"
definition GATEWAY_HOST :: string where "GATEWAY_HOST = ''live.dodopayments.com''"
definition TEST_GATEWAY_HOST :: string where "TEST_GATEWAY_HOST = ''test.dodopayments.com''"
definition PRODUCTO_MENSUAL :: string where "PRODUCTO_MENSUAL = ''pdt_0NnxPZGJy7PYHrGx1oBki''"
definition PRODUCTO_ANUAL :: string where "PRODUCTO_ANUAL = ''pdt_0NnxPZ40xI6mR2MOoaAMt''"
definition PRODUCTO_FUNDADOR :: string where "PRODUCTO_FUNDADOR = ''pdt_0NnxfRzo4H78OnLGFOS2H''"

text \<open>\<open>option_env!("SOURCE_DATE_EPOCH")\<close> is what the build was given.\<close>

definition reloj_minimo :: "string option \<Rightarrow> int" where
  "reloj_minimo epoch =
     (case epoch of
        None \<Rightarrow> PRIMERA_VERSION_MS
      | Some s \<Rightarrow>
          (case parse_i64 (trim s) of
             None \<Rightarrow> PRIMERA_VERSION_MS
           | Some n \<Rightarrow> max (max i64_min (min i64_max (n * 1000))) PRIMERA_VERSION_MS))"

definition gateway_host :: "bool \<Rightarrow> bool \<Rightarrow> string" where
  "gateway_host dev_key test_env = (if dev_key \<and> test_env then TEST_GATEWAY_HOST else GATEWAY_HOST)"

datatype error_licencia =
  Malformed string | KeyRejected string | KeyInactive | ActivationLimit | EmptyKey | Network string
| AlreadyPlus | DeLedger string

fun error_licencia_texto :: "error_licencia \<Rightarrow> string" where
  "error_licencia_texto (Malformed s) = ''gateway answer: '' @ s"
| "error_licencia_texto (KeyRejected s) = ''key rejected: '' @ s"
| "error_licencia_texto KeyInactive = ''key not active''"
| "error_licencia_texto ActivationLimit = ''activation limit reached''"
| "error_licencia_texto EmptyKey = ''empty key''"
| "error_licencia_texto (Network s) = ''network: '' @ s"
| "error_licencia_texto AlreadyPlus = ''Plus already active''"
| "error_licencia_texto (DeLedger s) = ''ledger: '' @ s"

section \<open>The anchor\<close>

record licencia_ancla =
  la_clave :: string
  la_instancia :: string
  la_producto :: string
  la_desde :: int
  la_periodo :: int
  la_terminada :: "int option"
  la_rechazada :: "int option"
  la_fallida :: "int option"

record marcas =
  ma_prueba :: "int option"
  ma_visto :: "int option"
  ma_licencia :: "licencia_ancla option"

text \<open>The gateway's activation answer, as far as it is used.\<close>

record activacion =
  ac_id :: string
  ac_producto :: "string option"
  ac_nombre_producto :: "string option"
  ac_cliente :: "string option"
  ac_correo :: "string option"

definition activacion_vacia :: activacion where
  "activacion_vacia = \<lparr>ac_id = [], ac_producto = None, ac_nombre_producto = None, ac_cliente = None, ac_correo = None\<rparr>"

text \<open>A member of a JSON object, as \<open>get\<close> and \<open>as_str\<close> see it.\<close>

datatype campo_json = NoHay | NoEsTexto | EsTexto string

record licencia_crates =
  lc_x :: externals
  lc_activacion :: "string \<Rightarrow> activacion option"
  lc_activacion_texto :: "string \<Rightarrow> string option \<Rightarrow> string"
  lc_valida :: "string \<Rightarrow> bool option option"
  lc_json :: "string \<Rightarrow> (string \<Rightarrow> campo_json) option"
  lc_licencia :: "string \<Rightarrow> licencia_ancla option"
  lc_licencia_texto :: "licencia_ancla \<Rightarrow> string option"
  lc_largo :: "string \<Rightarrow> string option \<Rightarrow> int"
  lc_epoch :: "string option"
  lc_host :: string

record ancla =
  an_registro :: bool
  an_permiso :: bool
  an_valores :: "string \<Rightarrow> string option"

definition PRUEBA_MARCA :: string where "PRUEBA_MARCA = ''prueba''"
definition VISTO_MARCA :: string where "VISTO_MARCA = ''visto''"
definition LICENCIA_MARCA :: string where "LICENCIA_MARCA = ''licencia''"
definition MAXIMO_REGISTRO :: nat where "MAXIMO_REGISTRO = 30000"

definition a_hex :: "string \<Rightarrow> string" where
  "a_hex texto = to_hex (str_bytes texto)"

definition des_hex :: "string \<Rightarrow> string option" where
  "des_hex h =
     (let h = trim h
      in if length h mod 2 \<noteq> 0 then None
         else case hex_pairs h of None \<Rightarrow> None | Some b \<Rightarrow> from_utf8 b)"

text \<open>In the registry the licence is written in hexadecimal.\<close>

definition leer_valor :: "ancla \<Rightarrow> string \<Rightarrow> string option" where
  "leer_valor an nombre =
     map_option (\<lambda>v. if an_registro an \<and> nombre = LICENCIA_MARCA
                     then (case des_hex v of None \<Rightarrow> [] | Some t \<Rightarrow> t) else v)
       (an_valores an nombre)"

definition escribir_valor :: "string \<Rightarrow> string \<Rightarrow> ancla \<Rightarrow> bool \<times> ancla" where
  "escribir_valor nombre valor an =
     (let dato = (if an_registro an \<and> nombre = LICENCIA_MARCA then a_hex valor else valor)
      in if nombre \<notin> {PRUEBA_MARCA, VISTO_MARCA, LICENCIA_MARCA} then (False, an)
         else if an_registro an \<and> length dato > MAXIMO_REGISTRO then (False, an)
         else if \<not> an_permiso an then (False, an)
         else (True, an\<lparr>an_valores := (an_valores an)(nombre \<mapsto> dato)\<rparr>))"

definition leer_numero :: "ancla \<Rightarrow> string \<Rightarrow> int option" where
  "leer_numero an nombre = (case leer_valor an nombre of None \<Rightarrow> None | Some v \<Rightarrow> parse_i64 (trim v))"

definition leer_todo :: "licencia_crates \<Rightarrow> ancla \<Rightarrow> marcas" where
  "leer_todo x an =
     \<lparr>ma_prueba = leer_numero an PRUEBA_MARCA, ma_visto = leer_numero an VISTO_MARCA,
      ma_licencia = (case leer_valor an LICENCIA_MARCA of
        None \<Rightarrow> None
      | Some v \<Rightarrow> (case lc_licencia x v of
          None \<Rightarrow> None
        | Some l \<Rightarrow> if la_clave l \<noteq> [] \<and> la_instancia l \<noteq> [] then Some l else None))\<rparr>"

definition escribir_prueba :: "int \<Rightarrow> ancla \<Rightarrow> bool \<times> ancla" where
  "escribir_prueba ms = escribir_valor PRUEBA_MARCA (show_int ms)"

definition escribir_visto :: "int \<Rightarrow> ancla \<Rightarrow> bool \<times> ancla" where
  "escribir_visto ms = escribir_valor VISTO_MARCA (show_int ms)"

definition escribir_licencia :: "licencia_crates \<Rightarrow> licencia_ancla \<Rightarrow> ancla \<Rightarrow> bool \<times> ancla" where
  "escribir_licencia x l an =
     (case lc_licencia_texto x l of None \<Rightarrow> (False, an) | Some t \<Rightarrow> escribir_valor LICENCIA_MARCA t an)"

section \<open>The plan\<close>

datatype comprobacion = AlDia | Pendiente | Fallida

datatype plan =
  EnPrueba int int int
| PruebaAgotada int
| Plus string int "string option" "int option" "int option" "int option" "int option" "comprobacion option"
| PlusTerminado int string

text \<open>\<open>Plan::Plus\<close> has \<open>origen\<close>, \<open>desde\<close>, \<open>titular\<close>, \<open>periodo_dias\<close>, \<open>comprobada\<close>,
  \<open>proxima_comprobacion\<close>, \<open>caduca_ms\<close> and \<open>comprobacion\<close>, in this order; \<open>Plan::Prueba\<close> its start, its
  end and the days left.\<close>

datatype nivel_plan = NivelPlus | NivelGratis

definition nombre_nivel_plan :: "nivel_plan \<Rightarrow> string" where
  "nombre_nivel_plan n = (case n of NivelPlus \<Rightarrow> ''plus'' | NivelGratis \<Rightarrow> ''gratis'')"

definition historial_ms :: "nivel_plan \<Rightarrow> int option" where
  "historial_ms n = (case n of NivelPlus \<Rightarrow> None | NivelGratis \<Rightarrow> Some GRATIS_HISTORIAL_MS)"

definition dispositivos_nivel :: "nivel_plan \<Rightarrow> nat" where
  "dispositivos_nivel n = (case n of NivelPlus \<Rightarrow> PLUS_DISPOSITIVOS | NivelGratis \<Rightarrow> GRATIS_DISPOSITIVOS)"

record estado_plan =
  ep_plan :: plan
  ep_nivel :: nivel_plan
  ep_plus_activo :: bool
  ep_puede_funcionar :: bool
  ep_hogar_permitido :: bool
  ep_fundador_original :: bool
  ep_observado_ms :: int
  ep_rechazada_desde :: "int option"
  ep_ultimo_fallo :: "string option"

definition marca_de :: "licencia_crates \<Rightarrow> string \<Rightarrow> string \<Rightarrow> string" where
  "marca_de x secreto payload =
     to_hex (sha (lc_x x) (str_bytes secreto @ str_bytes [CHR 0x0A] @ str_bytes payload))"

definition key_mark :: "licencia_crates \<Rightarrow> string \<Rightarrow> string \<Rightarrow> string \<Rightarrow> string" where
  "key_mark x secreto clave act = marca_de x secreto (clave @ [CHR 0x0A] @ act)"

text \<open>\<open>to_lowercase\<close>, as far as the words searched for can tell: of the letters in them only the
  ASCII ones and the Spanish one have an upper case.\<close>

fun minusculas :: "string \<Rightarrow> string" where
  "minusculas [] = []"
| "minusculas (c # s) =
     (case s of
        d # r \<Rightarrow> if c = CHR 0xC3 \<and> d = CHR 0x91 then CHR 0xC3 # CHR 0xB1 # minusculas r
                else ascii_lower c # minusculas s
      | [] \<Rightarrow> [ascii_lower c])"

definition period_days_from_id :: "string option \<Rightarrow> int option" where
  "period_days_from_id i =
     (case i of
        None \<Rightarrow> None
      | Some i \<Rightarrow> if i = PRODUCTO_MENSUAL then Some MONTH_DAYS
                  else if i = PRODUCTO_ANUAL then Some YEAR_DAYS
                  else if i = PRODUCTO_FUNDADOR then Some DE_POR_VIDA else None)"

definition period_days_from_product :: "string option \<Rightarrow> int" where
  "period_days_from_product nombre =
     (let n = minusculas (or_default nombre)
      in if contains_str ''fundador'' n \<or> contains_str ''founder'' n \<or> contains_str ''vitalicia'' n \<or>
            contains_str ''lifetime'' n then DE_POR_VIDA
         else if contains_str ''anual'' n \<or> contains_str ''annual'' n \<or> contains_str ''year'' n \<or>
            contains_str (''a'' @ [CHR 0xC3, CHR 0xB1] @ ''o'') n then YEAR_DAYS
         else MONTH_DAYS)"

text \<open>An answer without a product has neither id nor name.\<close>

definition period_days_of :: "activacion \<Rightarrow> int" where
  "period_days_of a =
     (case period_days_from_id (ac_producto a) of
        None \<Rightarrow> period_days_from_product (ac_nombre_producto a)
      | Some p \<Rightarrow> p)"

definition setting_i64 :: "ledger \<Rightarrow> string \<Rightarrow> int option" where
  "setting_i64 l k = (case setting l k of None \<Rightarrow> None | Some v \<Rightarrow> parse_i64 v)"

definition setting_text :: "ledger \<Rightarrow> string \<Rightarrow> string option" where
  "setting_text l k = (case setting l k of None \<Rightarrow> None | Some v \<Rightarrow> if v = [] then None else Some v)"

definition observed_ms :: "ledger \<Rightarrow> int \<Rightarrow> int" where
  "observed_ms l now =
     (case map d_first_seen (devices l) of
        [] \<Rightarrow> 0
      | t # ts \<Rightarrow> max (now - foldl min t ts) 0)"

definition activacion_de :: "licencia_crates \<Rightarrow> string \<Rightarrow> activacion" where
  "activacion_de x t = (case lc_activacion x t of None \<Rightarrow> activacion_vacia | Some a \<Rightarrow> a)"

definition es_plus :: "plan \<Rightarrow> bool" where
  "es_plus p = (case p of Plus _ _ _ _ _ _ _ _ \<Rightarrow> True | _ \<Rightarrow> False)"

definition es_fundador_original :: "licencia_crates \<Rightarrow> ledger \<Rightarrow> plan \<Rightarrow> bool" where
  "es_fundador_original x l p =
     ((case p of Plus _ _ _ (Some d) _ _ _ _ \<Rightarrow> d = DE_POR_VIDA | _ \<Rightarrow> False) \<and>
      (case setting_text l SETTING_LICENSE_ACTIVATION of
         None \<Rightarrow> False
       | Some t \<Rightarrow> (case lc_activacion x t of
           None \<Rightarrow> False
         | Some a \<Rightarrow> (case ac_nombre_producto a of
             None \<Rightarrow> False
           | Some n \<Rightarrow> contains_str ''fundador'' (minusculas n) \<or> contains_str ''founder'' (minusculas n)))))"

definition finish :: "licencia_crates \<Rightarrow> ledger \<Rightarrow> plan \<Rightarrow> int \<Rightarrow> estado_plan" where
  "finish x l p now =
     (let plus_activo = (case p of Plus _ _ _ _ _ _ _ _ \<Rightarrow> True | EnPrueba _ _ _ \<Rightarrow> True | _ \<Rightarrow> False)
      in \<lparr>ep_plan = p, ep_nivel = (if plus_activo then NivelPlus else NivelGratis),
          ep_plus_activo = plus_activo, ep_puede_funcionar = True, ep_hogar_permitido = plus_activo,
          ep_fundador_original = es_fundador_original x l p, ep_observado_ms = observed_ms l now,
          ep_rechazada_desde = (if es_plus p then setting_i64 l SETTING_LICENSE_REJECTED_AT else None),
          ep_ultimo_fallo = (if es_plus p then setting_text l SETTING_LICENSE_LAST_FAILURE else None)\<rparr>)"

section \<open>The clock\<close>

record equipo =
  eq_ledger :: ledger
  eq_ancla :: ancla
  eq_proceso :: "(nat \<times> int) option"
  eq_pendiente :: "(nat \<times> int) option"

definition apunta_ajuste :: "licencia_crates \<Rightarrow> string \<Rightarrow> string \<Rightarrow> equipo \<Rightarrow> equipo" where
  "apunta_ajuste x k v e = e\<lparr>eq_ledger := set_setting (lc_x x) k v (eq_ledger e)\<rparr>"

definition pasado_ms :: "nat \<Rightarrow> nat \<Rightarrow> int" where
  "pasado_ms desde ins = min (int (ins - desde)) i64_max"

definition primera_lectura_confirmada :: "(nat \<times> int) option \<Rightarrow> int \<Rightarrow> nat \<Rightarrow> bool \<times> (nat \<times> int) option" where
  "primera_lectura_confirmada pendiente now ins =
     (case pendiente of
        None \<Rightarrow> (False, Some (ins, now))
      | Some (desde, lee) \<Rightarrow>
          if \<bar>now - i64_saturating_add lee (pasado_ms desde ins)\<bar> \<le> RELOJ_DESVIO_MS
          then (pasado_ms desde ins \<ge> RELOJ_CONFIRMA_MS, pendiente)
          else (False, Some (ins, now)))"

definition mayor :: "int option \<Rightarrow> int option \<Rightarrow> int option" where
  "mayor a b = (case a of None \<Rightarrow> b | Some i \<Rightarrow> (case b of None \<Rightarrow> a | Some j \<Rightarrow> Some (max i j)))"

text \<open>The latest reading kept anywhere, the reading time itself gives, the clock of the decision and
  what may be remembered of it.\<close>

definition reloj_visto :: "marcas \<Rightarrow> equipo \<Rightarrow> int option" where
  "reloj_visto m e = mayor (setting_i64 (eq_ledger e) SETTING_CLOCK_SEEN) (ma_visto m)"

definition reloj_monotono :: "nat \<Rightarrow> equipo \<Rightarrow> int option" where
  "reloj_monotono ins e =
     map_option (\<lambda>(cuando, base). i64_saturating_add base (pasado_ms cuando ins)) (eq_proceso e)"

definition reloj_de :: "marcas \<Rightarrow> int \<Rightarrow> nat \<Rightarrow> equipo \<Rightarrow> int" where
  "reloj_de m now ins e =
     (case mayor (reloj_visto m e) (reloj_monotono ins e) of None \<Rightarrow> now | Some v \<Rightarrow> max now v)"

definition reloj_recordable :: "marcas \<Rightarrow> int \<Rightarrow> nat \<Rightarrow> equipo \<Rightarrow> int" where
  "reloj_recordable m now ins e =
     (case (reloj_monotono ins e, reloj_visto m e) of
        (Some mo, Some _) \<Rightarrow> min (reloj_de m now ins e) (i64_saturating_add mo RELOJ_HOLGURA_MS)
      | _ \<Rightarrow> reloj_de m now ins e)"

definition reloj :: "licencia_crates \<Rightarrow> marcas \<Rightarrow> int \<Rightarrow> nat \<Rightarrow> equipo \<Rightarrow> int \<times> equipo" where
  "reloj x m now ins e =
     (let r = reloj_de m now ins e; recordable = reloj_recordable m now ins e;
          adelantada = (eq_proceso e = None \<and>
            (case reloj_visto m e of None \<Rightarrow> False | Some v \<Rightarrow> recordable > i64_saturating_add v RELOJ_MARGEN_PRIMERA_MS));
          (confirmada, pendiente) = primera_lectura_confirmada (eq_pendiente e) now ins
      in if adelantada \<and> \<not> confirmada then (r, e\<lparr>eq_pendiente := pendiente\<rparr>)
         else
           let en_extracto = setting_i64 (eq_ledger e) SETTING_CLOCK_SEEN;
               e = e\<lparr>eq_pendiente := None\<rparr>;
               e = (if (case en_extracto of None \<Rightarrow> True | Some v \<Rightarrow> recordable \<ge> v + RELOJ_PASO_EXTRACTO_MS)
                    then apunta_ajuste x SETTING_CLOCK_SEEN (show_int recordable) e else e);
               e = (if (case ma_visto m of None \<Rightarrow> True | Some v \<Rightarrow> recordable \<ge> v + RELOJ_PASO_ANCLA_MS)
                    then e\<lparr>eq_ancla := snd (escribir_visto recordable (eq_ancla e))\<rparr> else e);
               e = (if eq_proceso e = None then e\<lparr>eq_proceso := Some (ins, recordable)\<rparr> else e)
           in (r, e))"

section \<open>The licence that is kept\<close>

record guardada_lic =
  gl_activation :: string
  gl_since :: int
  gl_period :: int

text \<open>A step that may fail keeps what it had already written.\<close>

definition y_luego :: "('e + 'a) \<times> 's \<Rightarrow> ('a \<Rightarrow> 's \<Rightarrow> ('e + 'b) \<times> 's) \<Rightarrow> ('e + 'b) \<times> 's" where
  "y_luego r f = (case r of (Inl e, s) \<Rightarrow> (Inl e, s) | (Inr a, s) \<Rightarrow> f a s)"

definition nuevo_secreto :: "bytes option \<Rightarrow> error_licencia + string" where
  "nuevo_secreto azar = (case azar of None \<Rightarrow> Inl (DeLedger ''io'') | Some b \<Rightarrow> Inr (to_hex b))"

definition secreto_propio :: "licencia_crates \<Rightarrow> bytes option \<Rightarrow> equipo \<Rightarrow> (error_licencia + string) \<times> equipo" where
  "secreto_propio x azar e =
     (case setting_text (eq_ledger e) SETTING_LICENSE_SECRET of
        Some s \<Rightarrow> (Inr s, e)
      | None \<Rightarrow>
          (case nuevo_secreto azar of
             Inl er \<Rightarrow> (Inl er, e)
           | Inr s \<Rightarrow> (Inr s, apunta_ajuste x SETTING_LICENSE_SECRET s e)))"

definition periodo_guardado :: "licencia_crates \<Rightarrow> ledger \<Rightarrow> string \<Rightarrow> int" where
  "periodo_guardado x l act =
     (case period_days_from_id (ac_producto (activacion_de x act)) of
        Some p \<Rightarrow> p
      | None \<Rightarrow> (case setting_i64 l SETTING_LICENSE_PERIOD_DAYS of None \<Rightarrow> MONTH_DAYS | Some d \<Rightarrow> d))"

text \<open>The ledger's copy, when its mark verifies; it is marked again with the licence's own secret and
  copied to the anchor.\<close>

definition candidatos :: "string option \<Rightarrow> string \<Rightarrow> string list" where
  "candidatos own legacy = filter (\<lambda>c. c \<noteq> []) ((case own of None \<Rightarrow> [] | Some o' \<Rightarrow> [o']) @ [legacy])"

definition copia_ancla :: "licencia_crates \<Rightarrow> ledger \<Rightarrow> string \<Rightarrow> string \<Rightarrow> int \<Rightarrow> int \<Rightarrow> licencia_ancla" where
  "copia_ancla x l clave act since period =
     \<lparr>la_clave = clave, la_instancia = ac_id (activacion_de x act),
      la_producto = or_default (ac_producto (activacion_de x act)), la_desde = since, la_periodo = period,
      la_terminada = setting_i64 l SETTING_LICENSE_ENDED_AT, la_rechazada = setting_i64 l SETTING_LICENSE_REJECTED_AT,
      la_fallida = setting_i64 l SETTING_LICENSE_CHECK_FAILED_AT\<rparr>"

definition en_extracto ::
    "licencia_crates \<Rightarrow> marcas \<Rightarrow> string \<Rightarrow> string \<Rightarrow> string \<Rightarrow> string option \<Rightarrow> int \<Rightarrow> string \<Rightarrow> equipo \<Rightarrow> guardada_lic \<times> equipo" where
  "en_extracto x m clave act canonico own rel hallado e0 =
     (let e = (if own = None then apunta_ajuste x SETTING_LICENSE_SECRET canonico e0 else e0);
          e = (if hallado \<noteq> canonico then apunta_ajuste x SETTING_LICENSE_KEY_MARK (key_mark x canonico clave act) e else e);
          since = (case setting_i64 (eq_ledger e) SETTING_LICENSE_KEY_AT of None \<Rightarrow> rel | Some t \<Rightarrow> t);
          period = periodo_guardado x (eq_ledger e) act;
          copia = copia_ancla x (eq_ledger e) clave act since period;
          e = (if la_instancia copia \<noteq> [] \<and> ma_licencia m \<noteq> Some copia
               then e\<lparr>eq_ancla := snd (escribir_licencia x copia (eq_ancla e))\<rparr> else e)
      in (\<lparr>gl_activation = act, gl_since = since, gl_period = period\<rparr>, e))"

text \<open>The anchor's copy, put back into the ledger: an end, a rejection and a failed check come back
  where the ledger has none.\<close>

definition si_falta :: "licencia_crates \<Rightarrow> string \<Rightarrow> int option \<Rightarrow> equipo \<Rightarrow> equipo" where
  "si_falta x k v e =
     (case (v, setting_i64 (eq_ledger e) k) of
        (Some t, None) \<Rightarrow> apunta_ajuste x k (show_int t) e
      | _ \<Rightarrow> e)"

definition desde_ancla :: "licencia_crates \<Rightarrow> licencia_ancla \<Rightarrow> string \<Rightarrow> equipo \<Rightarrow> guardada_lic \<times> equipo" where
  "desde_ancla x a secreto e =
     (let act = lc_activacion_texto x (la_instancia a) (if la_producto a = [] then None else Some (la_producto a));
          e = apunta_ajuste x SETTING_LICENSE_KEY (la_clave a) e;
          e = apunta_ajuste x SETTING_LICENSE_ACTIVATION act e;
          e = apunta_ajuste x SETTING_LICENSE_KEY_MARK (key_mark x secreto (la_clave a) act) e;
          e = apunta_ajuste x SETTING_LICENSE_KEY_AT (show_int (la_desde a)) e;
          e = apunta_ajuste x SETTING_LICENSE_PERIOD_DAYS (show_int (la_periodo a)) e;
          e = apunta_ajuste x SETTING_LICENSE_CHECKED_AT [] e;
          e = si_falta x SETTING_LICENSE_ENDED_AT (la_terminada a) e;
          e = si_falta x SETTING_LICENSE_REJECTED_AT (la_rechazada a) e;
          e = si_falta x SETTING_LICENSE_CHECK_FAILED_AT (la_fallida a) e
      in (\<lparr>gl_activation = act, gl_since = la_desde a, gl_period = periodo_guardado x (eq_ledger e) act\<rparr>, e))"

definition licencia_guardada ::
    "licencia_crates \<Rightarrow> marcas \<Rightarrow> string \<Rightarrow> int \<Rightarrow> bytes option \<Rightarrow> equipo \<Rightarrow>
     (error_licencia + guardada_lic option) \<times> equipo" where
  "licencia_guardada x m legacy rel azar e =
     (let l = eq_ledger e; own = setting_text l SETTING_LICENSE_SECRET;
          del_ancla = (case ma_licencia m of
            None \<Rightarrow> (Inr None, e)
          | Some a \<Rightarrow> y_luego (secreto_propio x azar e) (\<lambda>s e. map_prod (Inr \<circ> Some) id (desde_ancla x a s e)))
      in case (setting_text l SETTING_LICENSE_KEY, setting_text l SETTING_LICENSE_ACTIVATION) of
           (Some clave, Some act) \<Rightarrow>
             (case find (\<lambda>c. or_default (setting l SETTING_LICENSE_KEY_MARK) = key_mark x c clave act) (candidatos own legacy) of
                Some hallado \<Rightarrow>
                  (case (case own of Some o' \<Rightarrow> Inr o' | None \<Rightarrow> nuevo_secreto azar) of
                     Inl er \<Rightarrow> (Inl er, e)
                   | Inr canonico \<Rightarrow> map_prod (Inr \<circ> Some) id (en_extracto x m clave act canonico own rel hallado e))
              | None \<Rightarrow> del_ancla)
         | _ \<Rightarrow> del_ancla)"

section \<open>What plan it gives\<close>

definition comprobada_en :: "ledger \<Rightarrow> guardada_lic \<Rightarrow> int" where
  "comprobada_en l g = (case setting_i64 l SETTING_LICENSE_CHECKED_AT of None \<Rightarrow> gl_since g | Some t \<Rightarrow> t)"

definition proxima :: "ledger \<Rightarrow> guardada_lic \<Rightarrow> int \<Rightarrow> int" where
  "proxima l g rel =
     (let checked = comprobada_en l g;
          intervalo = (if gl_period g = DE_POR_VIDA then MONTH_DAYS else gl_period g);
          del_futuro = (\<lambda>t. t > i64_saturating_add rel DAY_MS)
      in if del_futuro checked \<or> del_futuro (gl_since g) then rel
         else if checked \<le> gl_since g
         then min (checked + intervalo * DAY_MS) (gl_since g + PRIMERA_COMPROBACION_DIAS * DAY_MS)
         else checked + intervalo * DAY_MS)"

definition caduca :: "ledger \<Rightarrow> guardada_lic \<Rightarrow> int option" where
  "caduca l g =
     map_option (\<lambda>f. i64_saturating_add f (GRACE_DAYS * DAY_MS))
       (if gl_period g = DE_POR_VIDA then setting_i64 l SETTING_LICENSE_REJECTED_AT
        else setting_i64 l SETTING_LICENSE_CHECK_FAILED_AT)"

definition titular_de :: "activacion \<Rightarrow> string option" where
  "titular_de a =
     (case (case ac_correo a of None \<Rightarrow> ac_cliente a | Some c \<Rightarrow> Some c) of
        None \<Rightarrow> None | Some s \<Rightarrow> if s = [] then None else Some s)"

definition plan_de_clave :: "licencia_crates \<Rightarrow> ledger \<Rightarrow> guardada_lic \<Rightarrow> int \<Rightarrow> plan" where
  "plan_de_clave x l g rel =
     (case setting_i64 l SETTING_LICENSE_ENDED_AT of
        Some ended \<Rightarrow> PlusTerminado ended ''cancelada''
      | None \<Rightarrow>
          let failed_at = setting_i64 l SETTING_LICENSE_CHECK_FAILED_AT;
              en_marcha = Plus ''clave'' (gl_since g) (titular_de (activacion_de x (gl_activation g)))
                (Some (gl_period g)) (Some (comprobada_en l g)) (Some (proxima l g rel)) (caduca l g)
                (Some (if failed_at \<noteq> None then Fallida else if rel < proxima l g rel then AlDia else Pendiente))
          in case caduca l g of
               None \<Rightarrow> en_marcha
             | Some fin \<Rightarrow>
                 if rel \<ge> fin then
                   PlusTerminado fin
                     (if gl_period g = DE_POR_VIDA \<or>
                         (case setting_i64 l SETTING_LICENSE_REJECTED_AT of
                            None \<Rightarrow> False | Some r \<Rightarrow> rel \<ge> i64_saturating_add r (GRACE_DAYS * DAY_MS))
                      then ''rechazada'' else ''sin_comprobar'')
                 else en_marcha)"

definition prueba_desde :: "int \<Rightarrow> int \<Rightarrow> plan" where
  "prueba_desde started rel =
     (let ends = started + TRIAL_DAYS * DAY_MS
      in if rel < ends
         then EnPrueba started ends (clamp ((ends - rel + DAY_MS - 1) div DAY_MS) 0 TRIAL_DAYS)
         else PruebaAgotada ends)"

text \<open>The trial: the earlier of the two dates, written back where it is missing.\<close>

definition prueba_plan :: "licencia_crates \<Rightarrow> marcas \<Rightarrow> int \<Rightarrow> equipo \<Rightarrow> plan \<times> equipo" where
  "prueba_plan x m rel e =
     (let en_ext = setting_i64 (eq_ledger e) SETTING_TRIAL_STARTED;
          empezo = (case (en_ext, ma_prueba m) of
            (Some a, Some b) \<Rightarrow> Some (min a b) | (Some a, None) \<Rightarrow> Some a | (None, b) \<Rightarrow> b)
      in case empezo of
           Some started \<Rightarrow>
             let e = (if en_ext \<noteq> Some started then apunta_ajuste x SETTING_TRIAL_STARTED (show_int started) e else e);
                 e = (if ma_prueba m \<noteq> Some started then e\<lparr>eq_ancla := snd (escribir_prueba started (eq_ancla e))\<rparr> else e)
             in (prueba_desde started rel, e)
         | None \<Rightarrow>
             if rel < reloj_minimo (lc_epoch x) then (EnPrueba rel (rel + TRIAL_DAYS * DAY_MS) TRIAL_DAYS, e)
             else
               let e = apunta_ajuste x SETTING_TRIAL_STARTED (show_int rel) e
               in (EnPrueba rel (rel + TRIAL_DAYS * DAY_MS) TRIAL_DAYS,
                   e\<lparr>eq_ancla := snd (escribir_prueba rel (eq_ancla e))\<rparr>))"

definition status_con_reloj ::
    "licencia_crates \<Rightarrow> string \<Rightarrow> int \<Rightarrow> nat \<Rightarrow> bytes option \<Rightarrow> equipo \<Rightarrow>
     (error_licencia + estado_plan \<times> int) \<times> equipo" where
  "status_con_reloj x secreto now ins azar e =
     (let m = leer_todo x (eq_ancla e); (rel, e) = reloj x m now ins e
      in y_luego (licencia_guardada x m secreto rel azar e) (\<lambda>g e.
           case g of
             Some g \<Rightarrow> (Inr (finish x (eq_ledger e) (plan_de_clave x (eq_ledger e) g rel) rel, rel), e)
           | None \<Rightarrow>
               let (p, e) = prueba_plan x m rel e in (Inr (finish x (eq_ledger e) p rel, rel), e)))"

definition status ::
    "licencia_crates \<Rightarrow> string \<Rightarrow> int \<Rightarrow> nat \<Rightarrow> bytes option \<Rightarrow> equipo \<Rightarrow> (error_licencia + estado_plan) \<times> equipo" where
  "status x secreto now ins azar e =
     y_luego (status_con_reloj x secreto now ins azar e) (\<lambda>(s, _) e. (Inr s, e))"

section \<open>The gateway's words\<close>

type_synonym respuesta_http = "error_licencia + nat \<times> string"

definition codigo_de_la_pasarela :: "licencia_crates \<Rightarrow> nat \<Rightarrow> string \<Rightarrow> string option" where
  "codigo_de_la_pasarela x code body =
     (if \<not> (400 \<le> code \<and> code < 500) \<or> code \<in> {401, 407, 429} then None
      else case lc_json x (trim body) of
             None \<Rightarrow> None
           | Some v \<Rightarrow>
               (case v ''code'' of
                  EsTexto c \<Rightarrow>
                    if c \<noteq> [] \<and> list_all (\<lambda>b. is_ascii_uppercase b \<or> b = CHR ''_'') c then Some c else None
                | _ \<Rightarrow> None))"

definition es_palabra_de_la_pasarela :: "licencia_crates \<Rightarrow> nat \<Rightarrow> string \<Rightarrow> bool" where
  "es_palabra_de_la_pasarela x code body =
     (if codigo_de_la_pasarela x code body \<noteq> None then True
      else if \<not> (400 \<le> code \<and> code < 500) \<or> code \<in> {401, 403, 407, 429} then False
      else case lc_json x (trim body) of
             None \<Rightarrow> False
           | Some v \<Rightarrow> v ''message'' \<noteq> NoHay \<or> v ''error'' \<noteq> NoHay)"

definition CODIGOS_DE_LA_CLAVE :: "string list" where
  "CODIGOS_DE_LA_CLAVE =
     [''INACTIVE_LICENSE_KEY'', ''LICENSE_KEY_NOT_FOUND'', ''LICENSE_KEY_EXPIRED'', ''LICENSE_KEY_LIMIT_REACHED'']"

definition rechaza_la_clave :: "licencia_crates \<Rightarrow> nat \<Rightarrow> string \<Rightarrow> bool" where
  "rechaza_la_clave x code body =
     (case codigo_de_la_pasarela x code body of None \<Rightarrow> False | Some c \<Rightarrow> c \<in> set CODIGOS_DE_LA_CLAVE)"

definition fallo_de :: "licencia_crates \<Rightarrow> respuesta_http \<Rightarrow> string" where
  "fallo_de x answer =
     take_chars 200
       (case answer of
          Inr (code, body) \<Rightarrow>
            (case codigo_de_la_pasarela x code body of
               Some c \<Rightarrow> ''HTTP '' @ decimal code @ '' '' @ c
             | None \<Rightarrow> ''HTTP '' @ decimal code)
        | Inl e \<Rightarrow> error_licencia_texto e)"

definition short_motivo :: "licencia_crates \<Rightarrow> string \<Rightarrow> string" where
  "short_motivo x body =
     take_chars 200
       (case lc_json x (trim body) of
          None \<Rightarrow> ''HTTP''
        | Some v \<Rightarrow>
            (case (if v ''message'' \<noteq> NoHay then v ''message'' else v ''error'') of
               EsTexto m \<Rightarrow> m | _ \<Rightarrow> ''HTTP''))"

definition error_de_respuesta :: "licencia_crates \<Rightarrow> nat \<Rightarrow> string \<Rightarrow> error_licencia" where
  "error_de_respuesta x code body =
     (if \<not> es_palabra_de_la_pasarela x code body then Network (''HTTP '' @ decimal code)
      else if codigo_de_la_pasarela x code body = Some ''INACTIVE_LICENSE_KEY'' then KeyInactive
      else if codigo_de_la_pasarela x code body = Some ''LICENSE_KEY_LIMIT_REACHED'' then ActivationLimit
      else
        let motivo = short_motivo x body; m = minusculas motivo
        in if contains_str ''activation'' m \<and> contains_str ''limit'' m then ActivationLimit
           else KeyRejected motivo)"

section \<open>Activating and checking\<close>

definition marcar_comprobada :: "licencia_crates \<Rightarrow> int \<Rightarrow> equipo \<Rightarrow> equipo" where
  "marcar_comprobada x rel e =
     apunta_ajuste x SETTING_LICENSE_CHECKED_AT
       (show_int (case setting_i64 (eq_ledger e) SETTING_LICENSE_KEY_AT of
          Some d \<Rightarrow> if rel < i64_saturating_add d (PRIMERA_COMPROBACION_DIAS * DAY_MS) then d else rel
        | None \<Rightarrow> rel)) e"

definition apunta_salida :: "licencia_crates \<Rightarrow> int \<Rightarrow> int \<Rightarrow> bool \<Rightarrow> equipo \<Rightarrow> equipo" where
  "apunta_salida x now n por_persona e =
     e\<lparr>eq_ledger := snd (record_outbound now Licencia (lc_host x) n por_persona (eq_ledger e))\<rparr>"

text \<open>What a good answer clears.\<close>

definition borra_ajustes :: "licencia_crates \<Rightarrow> string list \<Rightarrow> equipo \<Rightarrow> equipo" where
  "borra_ajustes x ks e = foldl (\<lambda>e k. apunta_ajuste x k [] e) e ks"

definition revalidate_stored_key ::
    "licencia_crates \<Rightarrow> string \<Rightarrow> string \<Rightarrow> string \<Rightarrow> int \<Rightarrow> nat \<Rightarrow> bytes option \<Rightarrow> int \<Rightarrow> respuesta_http \<Rightarrow> equipo \<Rightarrow>
     (error_licencia + estado_plan option) \<times> equipo" where
  "revalidate_stored_key x clave own secreto now ins azar rel answer e =
     (let l = eq_ledger e;
          stored = or_default (setting l SETTING_LICENSE_KEY);
          act = or_default (setting l SETTING_LICENSE_ACTIVATION);
          marked = (setting l SETTING_LICENSE_KEY_MARK = Some (key_mark x own stored act));
          instancia = ac_id (activacion_de x act)
      in if stored = [] \<or> stored \<noteq> clave \<or> \<not> marked \<or> instancia = [] then (Inr None, e)
         else
           let e = apunta_salida x now (lc_largo x clave (Some instancia)) True e
           in case answer of
                Inl er \<Rightarrow> (Inl er, e)
              | Inr (code, text) \<Rightarrow>
                  if \<not> (200 \<le> code \<and> code < 300) then (Inl (error_de_respuesta x code text), e)
                  else case lc_valida x text of
                         None \<Rightarrow> (Inl (Malformed ''json''), e)
                       | Some None \<Rightarrow> (Inl (Malformed ''sin campo valid''), e)
                       | Some (Some False) \<Rightarrow> (Inl KeyInactive, e)
                       | Some (Some True) \<Rightarrow>
                           y_luego (status x secreto now ins azar
                               (borra_ajustes x [SETTING_LICENSE_CHECK_FAILED_AT, SETTING_LICENSE_ENDED_AT,
                                   SETTING_LICENSE_REJECTED_AT, SETTING_LICENSE_LAST_FAILURE]
                                 (marcar_comprobada x rel e)))
                             (\<lambda>s e. (Inr (Some s), e)))"

text \<open>\<open>r_valida\<close> and \<open>r_activa\<close> are what the gateway answers to the two calls.\<close>

definition activate_with_key ::
    "licencia_crates \<Rightarrow> string \<Rightarrow> string \<Rightarrow> int \<Rightarrow> nat \<Rightarrow> bytes option \<Rightarrow> respuesta_http \<Rightarrow> respuesta_http \<Rightarrow> equipo \<Rightarrow>
     (error_licencia + estado_plan) \<times> equipo" where
  "activate_with_key x clave0 secreto now ins azar r_valida r_activa e0 =
     (let clave = trim clave0
      in if clave = [] then (Inl EmptyKey, e0)
         else
           y_luego (status_con_reloj x secreto now ins azar e0) (\<lambda>(_, rel) e.
           y_luego (secreto_propio x azar e) (\<lambda>own e.
           y_luego (revalidate_stored_key x clave own secreto now ins azar rel r_valida e) (\<lambda>st e.
             case st of
               Some s \<Rightarrow> (Inr s, e)
             | None \<Rightarrow>
                 let nombre = ''guardiana-'' @ take 8 (marca_de x own ''instance'');
                     e = apunta_salida x now (lc_largo x clave (Some nombre)) True e
                 in case r_activa of
                      Inl er \<Rightarrow> (Inl er, e)
                    | Inr (code, text) \<Rightarrow>
                        if \<not> (200 \<le> code \<and> code < 300) then (Inl (error_de_respuesta x code text), e)
                        else case lc_activacion x text of
                               None \<Rightarrow> (Inl (Malformed ''json''), e)
                             | Some a \<Rightarrow>
                                 if ac_id a = [] then (Inl (Malformed (''sin id de activaci'' @ [CHR 0xC3, CHR 0xB3] @ ''n'')), e)
                                 else
                                   let e = apunta_ajuste x SETTING_LICENSE_KEY clave e;
                                       e = apunta_ajuste x SETTING_LICENSE_ACTIVATION text e;
                                       e = apunta_ajuste x SETTING_LICENSE_KEY_MARK (key_mark x own clave text) e;
                                       e = apunta_ajuste x SETTING_LICENSE_KEY_AT (show_int rel) e;
                                       e = apunta_ajuste x SETTING_LICENSE_CHECKED_AT (show_int rel) e;
                                       e = apunta_ajuste x SETTING_LICENSE_PERIOD_DAYS (show_int (period_days_of a)) e;
                                       e = borra_ajustes x [SETTING_LICENSE_CHECK_FAILED_AT, SETTING_LICENSE_ENDED_AT,
                                             SETTING_LICENSE_REJECTED_AT, SETTING_LICENSE_LAST_FAILURE] e
                                   in status x secreto now ins azar e))))"

definition toca_comprobar :: "plan \<Rightarrow> bool" where
  "toca_comprobar p =
     (case p of
        Plus _ _ _ _ _ _ _ (Some c) \<Rightarrow> c = Pendiente \<or> c = Fallida
      | PlusTerminado _ motivo \<Rightarrow> motivo = ''sin_comprobar'' \<or> motivo = ''rechazada''
      | _ \<Rightarrow> False)"

definition check_due ::
    "licencia_crates \<Rightarrow> string \<Rightarrow> int \<Rightarrow> nat \<Rightarrow> bytes option \<Rightarrow> equipo \<Rightarrow> (error_licencia + bool) \<times> equipo" where
  "check_due x secreto now ins azar e =
     y_luego (status x secreto now ins azar e) (\<lambda>s e. (Inr (toca_comprobar (ep_plan s)), e))"

definition aplicar_comprobacion :: "licencia_crates \<Rightarrow> respuesta_http \<Rightarrow> int \<Rightarrow> equipo \<Rightarrow> (error_licencia + unit) \<times> equipo" where
  "aplicar_comprobacion x answer rel e =
     (let rechazada = (case answer of Inr (code, text) \<Rightarrow> rechaza_la_clave x code text | Inl _ \<Rightarrow> False);
          fallo = fallo_de x answer;
          no_se_pudo =
            (let e = (if setting_i64 (eq_ledger e) SETTING_LICENSE_CHECK_FAILED_AT = None
                      then apunta_ajuste x SETTING_LICENSE_CHECK_FAILED_AT (show_int rel) e else e);
                 e = apunta_ajuste x SETTING_LICENSE_LAST_FAILURE fallo e
             in if rechazada \<and> setting_i64 (eq_ledger e) SETTING_LICENSE_REJECTED_AT = None
                then apunta_ajuste x SETTING_LICENSE_REJECTED_AT (show_int rel) e else e)
      in case answer of
           Inr (code, text) \<Rightarrow>
             if 200 \<le> code \<and> code < 300 then
               (case lc_valida x text of
                  Some (Some True) \<Rightarrow>
                    (Inr (), borra_ajustes x [SETTING_LICENSE_CHECK_FAILED_AT, SETTING_LICENSE_REJECTED_AT,
                       SETTING_LICENSE_LAST_FAILURE] (marcar_comprobada x rel e))
                | Some (Some False) \<Rightarrow> (Inr (), apunta_ajuste x SETTING_LICENSE_ENDED_AT (show_int rel) e)
                | _ \<Rightarrow> (Inr (), no_se_pudo))
             else (Inr (), no_se_pudo)
         | Inl (Network _) \<Rightarrow> (Inr (), no_se_pudo)
         | Inl er \<Rightarrow> (Inl er, e))"

definition check_if_due ::
    "licencia_crates \<Rightarrow> string \<Rightarrow> int \<Rightarrow> nat \<Rightarrow> bytes option \<Rightarrow> respuesta_http \<Rightarrow> equipo \<Rightarrow>
     (error_licencia + estado_plan option) \<times> equipo" where
  "check_if_due x secreto now ins azar answer e0 =
     y_luego (status_con_reloj x secreto now ins azar e0) (\<lambda>(before, rel) e.
       if \<not> toca_comprobar (ep_plan before) then (Inr None, e)
       else
         let clave = or_default (setting (eq_ledger e) SETTING_LICENSE_KEY);
             instancia = ac_id (activacion_de x (or_default (setting (eq_ledger e) SETTING_LICENSE_ACTIVATION)));
             e = apunta_salida x now (lc_largo x clave (if instancia = [] then None else Some instancia)) False e
         in y_luego (aplicar_comprobacion x answer rel e) (\<lambda>_ e.
              y_luego (status x secreto now ins azar e) (\<lambda>s e. (Inr (Some s), e))))"

definition check_if_due_hourly ::
    "licencia_crates \<Rightarrow> string \<Rightarrow> int \<Rightarrow> nat \<Rightarrow> bytes option \<Rightarrow> respuesta_http \<Rightarrow> equipo \<Rightarrow>
     (error_licencia + estado_plan option) \<times> equipo" where
  "check_if_due_hourly x secreto now ins azar answer e0 =
     y_luego (check_due x secreto now ins azar e0) (\<lambda>toca e.
       if \<not> toca then (Inr None, e)
       else if (case setting_i64 (eq_ledger e) SETTING_LICENSE_TRIED_AT of
                  None \<Rightarrow> False | Some t \<Rightarrow> now < i64_saturating_add t HOUR_MS \<and> now \<ge> t)
       then (Inr None, e)
       else check_if_due x secreto now ins azar answer (apunta_ajuste x SETTING_LICENSE_TRIED_AT (show_int now) e))"

section \<open>What 1.0.1 left behind\<close>

definition aplicar_revision ::
    "licencia_crates \<Rightarrow> string \<Rightarrow> string \<Rightarrow> bytes option \<Rightarrow> respuesta_http \<Rightarrow> int \<Rightarrow> equipo \<Rightarrow>
     (error_licencia + bool) \<times> equipo" where
  "aplicar_revision x clave act azar answer rel e =
     (let revisada = apunta_ajuste x SETTING_LICENSE_REVISADA ''1''
      in case answer of
           Inr (code, text) \<Rightarrow>
             if 200 \<le> code \<and> code < 300 then
               (case lc_valida x text of
                  Some (Some True) \<Rightarrow>
                    y_luego (secreto_propio x azar e) (\<lambda>own e.
                      (Inr True, revisada (borra_ajustes x [SETTING_LICENSE_CHECK_FAILED_AT, SETTING_LICENSE_REJECTED_AT,
                          SETTING_LICENSE_ENDED_AT, SETTING_LICENSE_LAST_FAILURE]
                        (marcar_comprobada x rel (apunta_ajuste x SETTING_LICENSE_KEY_MARK (key_mark x own clave act) e)))))
                | Some (Some False) \<Rightarrow> (Inr False, revisada e)
                | _ \<Rightarrow> (Inr False, e))
             else if rechaza_la_clave x code text then (Inr False, revisada e)
             else (Inr False, e)
         | Inl (Network _) \<Rightarrow> (Inr False, e)
         | Inl er \<Rightarrow> (Inl er, e))"

definition revisar_herencia ::
    "licencia_crates \<Rightarrow> string \<Rightarrow> int \<Rightarrow> nat \<Rightarrow> bytes option \<Rightarrow> respuesta_http \<Rightarrow> equipo \<Rightarrow>
     (error_licencia + bool) \<times> equipo" where
  "revisar_herencia x secreto now ins azar answer e0 =
     (let revisada = apunta_ajuste x SETTING_LICENSE_REVISADA ''1''
      in if setting_text (eq_ledger e0) SETTING_LICENSE_REVISADA \<noteq> None then (Inr False, e0)
         else case (setting_text (eq_ledger e0) SETTING_LICENSE_KEY, setting_text (eq_ledger e0) SETTING_LICENSE_ACTIVATION) of
                (Some clave, Some act) \<Rightarrow>
                  y_luego (status_con_reloj x secreto now ins azar e0) (\<lambda>(_, rel) e.
                    let l = eq_ledger e; own = setting_text l SETTING_LICENSE_SECRET;
                        stored_mark = or_default (setting l SETTING_LICENSE_KEY_MARK);
                        marcada = list_ex (\<lambda>c. stored_mark = key_mark x c clave act) (candidatos own secreto);
                        marca_de_antes = (\<not> marcada \<and> own = None);
                        fin_de_antes = (setting_i64 l SETTING_LICENSE_ENDED_AT \<noteq> None);
                        instancia = ac_id (activacion_de x act)
                    in if \<not> (marca_de_antes \<or> fin_de_antes) \<or> instancia = [] then (Inr False, revisada e)
                       else aplicar_revision x clave act azar answer rel
                              (apunta_salida x now (lc_largo x clave (Some instancia)) False e))
              | _ \<Rightarrow> (Inr False, revisada e0))"

end
