(* ===== verification/Licencia_Facts.thy ===== *)
theory Licencia_Facts imports Licencia begin

text \<open>
  What the plan promises (\<open>Licencia\<close>): what the gateway said, and nothing else, ends a licence; a
  licence bought once outlives every check that could not be done; a lost data folder neither loses
  a licence nor refreshes its grace; and a trial that is over stays over.
\<close>

section \<open>Settings\<close>

lemma setting_apunta [simp]:
  "setting (eq_ledger (apunta_ajuste x k v e)) j = (if j = k then Some v else setting (eq_ledger e) j)"
  by (simp add: apunta_ajuste_def ledger_parts)

lemma setting_i64_apunta [simp]:
  "setting_i64 (eq_ledger (apunta_ajuste x k v e)) j = (if j = k then parse_i64 v else setting_i64 (eq_ledger e) j)"
  by (simp add: setting_i64_def)

lemma setting_text_apunta [simp]:
  "setting_text (eq_ledger (apunta_ajuste x k v e)) j =
   (if j = k then (if v = [] then None else Some v) else setting_text (eq_ledger e) j)"
  by (simp add: setting_text_def)

lemma apunta_otros [simp]:
  "eq_ancla (apunta_ajuste x k v e) = eq_ancla e" "eq_proceso (apunta_ajuste x k v e) = eq_proceso e"
  "eq_pendiente (apunta_ajuste x k v e) = eq_pendiente e"
  by (simp_all add: apunta_ajuste_def)

lemma parse_i64_Nil [simp]: "parse_i64 [] = None"
  by (simp add: parse_i64_def)

lemma borra_ajustes_simps [simp]:
  "borra_ajustes x [] e = e" "borra_ajustes x (k # ks) e = borra_ajustes x ks (apunta_ajuste x k [] e)"
  by (simp_all add: borra_ajustes_def)

lemma y_luego_simps [simp]: "y_luego (Inl er, s) f = (Inl er, s)" "y_luego (Inr a, s) f = f a s"
  by (simp_all add: y_luego_def)

text \<open>No two settings share a name; the other way round, for the simplifier.\<close>

lemma keys_apart: "distinct [SETTING_TRIAL_STARTED, SETTING_LICENSE_KEY, SETTING_LICENSE_ACTIVATION,
    SETTING_LICENSE_KEY_MARK, SETTING_LICENSE_SECRET, SETTING_LICENSE_KEY_AT,
    SETTING_LICENSE_CHECKED_AT, SETTING_LICENSE_CHECK_FAILED_AT, SETTING_LICENSE_ENDED_AT,
    SETTING_LICENSE_REJECTED_AT, SETTING_LICENSE_TRIED_AT, SETTING_LICENSE_LAST_FAILURE,
    SETTING_LICENSE_REVISADA, SETTING_LICENSE_PERIOD_DAYS, SETTING_CLOCK_SEEN]"
  by (simp add: license_settings)

lemma keys_apart_rev: "distinct [SETTING_CLOCK_SEEN, SETTING_LICENSE_PERIOD_DAYS, SETTING_LICENSE_REVISADA,
    SETTING_LICENSE_LAST_FAILURE, SETTING_LICENSE_TRIED_AT, SETTING_LICENSE_REJECTED_AT,
    SETTING_LICENSE_ENDED_AT, SETTING_LICENSE_CHECK_FAILED_AT, SETTING_LICENSE_CHECKED_AT,
    SETTING_LICENSE_KEY_AT, SETTING_LICENSE_SECRET, SETTING_LICENSE_KEY_MARK,
    SETTING_LICENSE_ACTIVATION, SETTING_LICENSE_KEY, SETTING_TRIAL_STARTED]"
  by (simp add: license_settings)

lemmas keys_neq [simp] = keys_apart [simplified] keys_apart_rev [simplified]

section \<open>What the gateway said\<close>

datatype dicho = Vale | NoVale | LaRechaza | NoSePudo

definition dicho_de :: "licencia_crates \<Rightarrow> respuesta_http \<Rightarrow> dicho" where
  "dicho_de x answer =
     (case answer of
        Inl _ \<Rightarrow> NoSePudo
      | Inr (code, text) \<Rightarrow>
          if 200 \<le> code \<and> code < 300 then
            (case lc_valida x text of Some (Some True) \<Rightarrow> Vale | Some (Some False) \<Rightarrow> NoVale | _ \<Rightarrow> NoSePudo)
          else if rechaza_la_clave x code text then LaRechaza else NoSePudo)"

text \<open>An answer is one of the network or of the gateway.\<close>

definition respuesta_ok :: "respuesta_http \<Rightarrow> bool" where
  "respuesta_ok answer \<longleftrightarrow> (case answer of Inl (Network _) \<Rightarrow> True | Inl _ \<Rightarrow> False | Inr _ \<Rightarrow> True)"

text \<open>What the ledger keeps of what was said.\<close>

record cuenta_lic =
  ct_terminada :: "int option"
  ct_rechazada :: "int option"
  ct_fallida :: "int option"

definition cuenta_de :: "ledger \<Rightarrow> cuenta_lic" where
  "cuenta_de l =
     \<lparr>ct_terminada = setting_i64 l SETTING_LICENSE_ENDED_AT, ct_rechazada = setting_i64 l SETTING_LICENSE_REJECTED_AT,
      ct_fallida = setting_i64 l SETTING_LICENSE_CHECK_FAILED_AT\<rparr>"

definition o_si_no :: "'a option \<Rightarrow> 'a \<Rightarrow> 'a option" where
  "o_si_no v t = (case v of None \<Rightarrow> Some t | Some _ \<Rightarrow> v)"

fun da_cuenta :: "dicho \<times> int \<Rightarrow> cuenta_lic \<Rightarrow> cuenta_lic" where
  "da_cuenta (Vale, t) c = c\<lparr>ct_rechazada := None, ct_fallida := None\<rparr>"
| "da_cuenta (NoVale, t) c = c\<lparr>ct_terminada := Some t\<rparr>"
| "da_cuenta (LaRechaza, t) c = c\<lparr>ct_rechazada := o_si_no (ct_rechazada c) t, ct_fallida := o_si_no (ct_fallida c) t\<rparr>"
| "da_cuenta (NoSePudo, t) c = c\<lparr>ct_fallida := o_si_no (ct_fallida c) t\<rparr>"

lemma rechaza_4xx: "rechaza_la_clave x code text \<Longrightarrow> 400 \<le> code"
  by (auto simp: rechaza_la_clave_def codigo_de_la_pasarela_def split: if_splits option.splits)

lemma cuenta_apunta:
  "cuenta_de (eq_ledger (apunta_ajuste x k v e)) =
   (let c = cuenta_de (eq_ledger e)
    in if k = SETTING_LICENSE_ENDED_AT then c\<lparr>ct_terminada := parse_i64 v\<rparr>
       else if k = SETTING_LICENSE_REJECTED_AT then c\<lparr>ct_rechazada := parse_i64 v\<rparr>
       else if k = SETTING_LICENSE_CHECK_FAILED_AT then c\<lparr>ct_fallida := parse_i64 v\<rparr> else c)"
  by (simp add: cuenta_de_def Let_def)

lemma cuenta_sel:
  "setting_i64 l SETTING_LICENSE_REJECTED_AT = ct_rechazada (cuenta_de l)"
  "setting_i64 l SETTING_LICENSE_CHECK_FAILED_AT = ct_fallida (cuenta_de l)"
  by (simp_all add: cuenta_de_def)

text \<open>What is written when nothing could be done.\<close>

definition no_se_pudo :: "licencia_crates \<Rightarrow> bool \<Rightarrow> string \<Rightarrow> int \<Rightarrow> equipo \<Rightarrow> equipo" where
  "no_se_pudo x rechazada fallo rel e =
     (let e = (if setting_i64 (eq_ledger e) SETTING_LICENSE_CHECK_FAILED_AT = None
               then apunta_ajuste x SETTING_LICENSE_CHECK_FAILED_AT (show_int rel) e else e);
          e = apunta_ajuste x SETTING_LICENSE_LAST_FAILURE fallo e
      in if rechazada \<and> setting_i64 (eq_ledger e) SETTING_LICENSE_REJECTED_AT = None
         then apunta_ajuste x SETTING_LICENSE_REJECTED_AT (show_int rel) e else e)"

lemma aplicar_casos:
  assumes "respuesta_ok answer"
  shows "aplicar_comprobacion x answer t e = (Inr (),
    case dicho_de x answer of
      Vale \<Rightarrow> borra_ajustes x [SETTING_LICENSE_CHECK_FAILED_AT, SETTING_LICENSE_REJECTED_AT, SETTING_LICENSE_LAST_FAILURE]
        (marcar_comprobada x t e)
    | NoVale \<Rightarrow> apunta_ajuste x SETTING_LICENSE_ENDED_AT (show_int t) e
    | LaRechaza \<Rightarrow> no_se_pudo x True (fallo_de x answer) t e
    | NoSePudo \<Rightarrow> no_se_pudo x False (fallo_de x answer) t e)"
proof (cases answer)
  case (Inl er)
  then obtain w where "er = Network w" using assms by (cases er) (auto simp: respuesta_ok_def)
  then show ?thesis using Inl by (simp add: aplicar_comprobacion_def no_se_pudo_def Let_def dicho_de_def)
next
  case (Inr p)
  obtain code b where p: "answer = Inr (code, b)" using Inr by (cases p) auto
  show ?thesis
  proof (cases "200 \<le> code \<and> code < 300")
    case True
    then have "\<not> rechaza_la_clave x code b" using rechaza_4xx by fastforce
    with True show ?thesis
      by (simp add: p aplicar_comprobacion_def no_se_pudo_def [unfolded Let_def] Let_def dicho_de_def split: option.split bool.split)
  next
    case False
    then have f: "(200 \<le> code \<and> code < 300) = False" by simp
    show ?thesis
      by (cases "rechaza_la_clave x code b")
         (simp_all only: p aplicar_comprobacion_def no_se_pudo_def Let_def dicho_de_def f if_False if_True sum.case prod.case
           dicho.case simp_thms)
  qed
qed

lemma aplicar_refina:
  assumes "respuesta_ok answer" "i64_ok t"
  shows "cuenta_de (eq_ledger (snd (aplicar_comprobacion x answer t e))) = da_cuenta (dicho_de x answer, t) (cuenta_de (eq_ledger e))"
  by (cases "dicho_de x answer")
     (simp_all add: aplicar_casos [OF assms(1)] no_se_pudo_def marcar_comprobada_def Let_def cuenta_apunta cuenta_sel o_si_no_def
       parse_i64_show_int [OF assms(2)] split: option.split)

text \<open>What a history of answers means for a licence of this period, at this moment: the day it ended
  and why, or nothing. Only what was said after the last good answer counts, but for a plain no.\<close>

definition racha :: "(dicho \<times> int) list \<Rightarrow> (dicho \<times> int) list" where
  "racha ps = rev (takeWhile (\<lambda>p. fst p \<noteq> Vale) (rev ps))"

definition primera_vez :: "(dicho \<Rightarrow> bool) \<Rightarrow> (dicho \<times> int) list \<Rightarrow> int option" where
  "primera_vez P ps = map_option snd (find (\<lambda>p. P (fst p)) ps)"

definition tras_gracia :: "int \<Rightarrow> int" where
  "tras_gracia t = i64_saturating_add t (GRACE_DAYS * DAY_MS)"

definition cumplida :: "int option \<Rightarrow> int \<Rightarrow> bool" where
  "cumplida v rel = (case v of None \<Rightarrow> False | Some t \<Rightarrow> rel \<ge> tras_gracia t)"

definition fin_de :: "int \<Rightarrow> (dicho \<times> int) list \<Rightarrow> int \<Rightarrow> (int \<times> string) option" where
  "fin_de periodo ps rel =
     (let rechazo = primera_vez (\<lambda>d. d = LaRechaza) (racha ps);
          fallo = primera_vez (\<lambda>d. d = LaRechaza \<or> d = NoSePudo) (racha ps)
      in case primera_vez (\<lambda>d. d = NoVale) (rev ps) of
           Some t \<Rightarrow> Some (t, ''cancelada'')
         | None \<Rightarrow>
             if periodo = DE_POR_VIDA then
               (if cumplida rechazo rel then Some (tras_gracia (the rechazo), ''rechazada'') else None)
             else if cumplida fallo rel then
               Some (tras_gracia (the fallo), if cumplida rechazo rel then ''rechazada'' else ''sin_comprobar'')
             else None)"

definition cuenta_vacia :: cuenta_lic where
  "cuenta_vacia = \<lparr>ct_terminada = None, ct_rechazada = None, ct_fallida = None\<rparr>"

lemma racha_snoc: "racha (ps @ [(d, t)]) = (if d = Vale then [] else racha ps @ [(d, t)])"
  by (simp add: racha_def)

lemma primera_vez_snoc:
  "primera_vez P (ps @ [(d, t)]) =
   (case primera_vez P ps of Some u \<Rightarrow> Some u | None \<Rightarrow> if P d then Some t else None)"
  by (induction ps) (auto simp: primera_vez_def)

lemma cuenta_historia:
  "foldl (\<lambda>c p. da_cuenta p c) cuenta_vacia ps =
   \<lparr>ct_terminada = primera_vez (\<lambda>d. d = NoVale) (rev ps), ct_rechazada = primera_vez (\<lambda>d. d = LaRechaza) (racha ps),
    ct_fallida = primera_vez (\<lambda>d. d = LaRechaza \<or> d = NoSePudo) (racha ps)\<rparr>"
proof (induction ps rule: rev_induct)
  case Nil
  show ?case by (simp add: cuenta_vacia_def primera_vez_def racha_def)
next
  case (snoc p ps)
  obtain d t where p: "p = (d, t)" by (cases p)
  show ?case
    by (cases d) (simp_all add: snoc p racha_snoc primera_vez_snoc o_si_no_def,
      simp_all add: primera_vez_def split: option.splits)
qed

lemma plan_de_cuenta:
  "plan_de_clave x l g rel =
   (let c = cuenta_de l; sigue = Plus ''clave'' (gl_since g) (titular_de (activacion_de x (gl_activation g)))
        (Some (gl_period g)) (Some (comprobada_en l g)) (Some (proxima l g rel)) (caduca l g)
        (Some (if ct_fallida c \<noteq> None then Fallida else if rel < proxima l g rel then AlDia else Pendiente))
    in case ct_terminada c of
         Some t \<Rightarrow> PlusTerminado t ''cancelada''
       | None \<Rightarrow>
           (let v = (if gl_period g = DE_POR_VIDA then ct_rechazada c else ct_fallida c)
            in if cumplida v rel
               then PlusTerminado (tras_gracia (the v))
                 (if gl_period g = DE_POR_VIDA \<or> cumplida (ct_rechazada c) rel then ''rechazada'' else ''sin_comprobar'')
               else sigue))"
  unfolding plan_de_clave_def Let_def
  by (auto simp: cuenta_de_def caduca_def cumplida_def tras_gracia_def split: option.splits)

definition comprueba_varias :: "licencia_crates \<Rightarrow> (respuesta_http \<times> int) list \<Rightarrow> equipo \<Rightarrow> equipo" where
  "comprueba_varias x ps e = foldl (\<lambda>e (a, t). snd (aplicar_comprobacion x a t e)) e ps"

lemma varias_refina:
  assumes "\<forall>(a, t) \<in> set ps. respuesta_ok a \<and> i64_ok t"
  shows "cuenta_de (eq_ledger (comprueba_varias x ps e)) =
    foldl (\<lambda>c p. da_cuenta p c) (cuenta_de (eq_ledger e)) (map (\<lambda>(a, t). (dicho_de x a, t)) ps)"
  using assms unfolding comprueba_varias_def
  by (induction ps arbitrary: e) (auto simp: aplicar_refina)

lemma plan_historia:
  assumes "cuenta_de (eq_ledger e) = cuenta_vacia" "\<forall>(a, t) \<in> set ps. respuesta_ok a \<and> i64_ok t"
    and "p = plan_de_clave x (eq_ledger (comprueba_varias x ps e)) g rel"
  shows "case fin_de (gl_period g) (map (\<lambda>(a, t). (dicho_de x a, t)) ps) rel of
      Some (t, m) \<Rightarrow> p = PlusTerminado t m
    | None \<Rightarrow> es_plus p"
proof -
  have "cuenta_de (eq_ledger (comprueba_varias x ps e)) =
      foldl (\<lambda>c p. da_cuenta p c) cuenta_vacia (map (\<lambda>(a, t). (dicho_de x a, t)) ps)"
    using varias_refina [OF assms(2)] assms(1) by simp
  then show ?thesis
    unfolding assms(3) plan_de_cuenta cuenta_historia Let_def fin_de_def
    by (auto simp: es_plus_def split: option.split)
qed

text \<open>C37: What a licence is worth after any answers of the gateway is what the history says: a plain
  no ends it; a subscription ends when a week has passed since the first check that could not be
  done or was refused after the last good one, with the reason the gateway gave; a licence bought
  once ends only when a week has passed since the key was first turned down after the last good
  answer; and otherwise it goes on.\<close>

theorem plan_is_what_the_gateway_said:
  assumes "cuenta_de (eq_ledger e) = cuenta_vacia" "\<forall>(a, t) \<in> set ps. respuesta_ok a \<and> i64_ok t"
    and "p = plan_de_clave x (eq_ledger (comprueba_varias x ps e)) g rel"
  shows "case fin_de (gl_period g) (map (\<lambda>(a, t). (dicho_de x a, t)) ps) rel of
      Some (t, m) \<Rightarrow> p = PlusTerminado t m
    | None \<Rightarrow> es_plus p"
  by (rule plan_historia [OF assms])

section \<open>A licence that verifies in the ledger\<close>

text \<open>The ledger holds this key and activation, marked with the licence's own secret.\<close>

definition fiel :: "licencia_crates \<Rightarrow> string \<Rightarrow> string \<Rightarrow> string \<Rightarrow> ledger \<Rightarrow> bool" where
  "fiel x s k act l \<longleftrightarrow>
     s \<noteq> [] \<and> k \<noteq> [] \<and> act \<noteq> [] \<and> setting l SETTING_LICENSE_SECRET = Some s \<and> setting l SETTING_LICENSE_KEY = Some k \<and>
     setting l SETTING_LICENSE_ACTIVATION = Some act \<and> setting l SETTING_LICENSE_KEY_MARK = Some (key_mark x s k act)"

lemma fiel_cong:
  "fiel x s k act l \<Longrightarrow> (\<And>j. j \<in> {SETTING_LICENSE_SECRET, SETTING_LICENSE_KEY, SETTING_LICENSE_ACTIVATION,
     SETTING_LICENSE_KEY_MARK} \<Longrightarrow> setting l' j = setting l j) \<Longrightarrow> fiel x s k act l'"
  by (simp add: fiel_def)

lemma reloj_setting:
  "j \<noteq> SETTING_CLOCK_SEEN \<Longrightarrow> setting (eq_ledger (snd (reloj x m now ins e))) j = setting (eq_ledger e) j"
  by (simp add: reloj_def Let_def split: prod.split)

lemma licencia_guardada_fiel:
  assumes "fiel x s k act (eq_ledger e)"
  shows "\<exists>g e'. licencia_guardada x m leg rel azar e = (Inr (Some g), e') \<and> eq_ledger e' = eq_ledger e \<and>
    gl_activation g = act \<and> gl_period g = periodo_guardado x (eq_ledger e) act \<and>
    gl_since g = (case setting_i64 (eq_ledger e) SETTING_LICENSE_KEY_AT of None \<Rightarrow> rel | Some t \<Rightarrow> t)"
proof -
  have t: "setting_text (eq_ledger e) SETTING_LICENSE_SECRET = Some s" "setting_text (eq_ledger e) SETTING_LICENSE_KEY = Some k"
    "setting_text (eq_ledger e) SETTING_LICENSE_ACTIVATION = Some act"
    "or_default (setting (eq_ledger e) SETTING_LICENSE_KEY_MARK) = key_mark x s k act"
    using assms by (simp_all add: fiel_def setting_text_def)
  have "find (\<lambda>c. or_default (setting (eq_ledger e) SETTING_LICENSE_KEY_MARK) = key_mark x c k act) (candidatos (Some s) leg) = Some s"
    using t(4) assms by (simp add: candidatos_def fiel_def)
  then show ?thesis
    by (simp add: licencia_guardada_def Let_def t(1-3) en_extracto_def)
qed

lemma finish_plan [simp]: "ep_plan (finish x l p n) = p"
  by (simp add: finish_def Let_def)

lemma finish_nivel:
  "\<forall>a b c. p \<noteq> EnPrueba a b c \<Longrightarrow> ep_nivel (finish x l p n) = (if es_plus p then NivelPlus else NivelGratis)"
  by (cases p) (simp_all add: finish_def es_plus_def)

text \<open>Asking for the status changes nothing of it but the clock.\<close>

lemma status_fiel:
  assumes "fiel x s k act (eq_ledger e)"
  shows "\<exists>g st rel e'. status_con_reloj x sec now ins azar e = (Inr (st, rel), e') \<and>
    (\<forall>j. j \<noteq> SETTING_CLOCK_SEEN \<longrightarrow> setting (eq_ledger e') j = setting (eq_ledger e) j) \<and>
    ep_plan st = plan_de_clave x (eq_ledger e') g rel \<and> gl_period g = periodo_guardado x (eq_ledger e') act \<and>
    gl_activation g = act \<and> ep_nivel st = (if es_plus (ep_plan st) then NivelPlus else NivelGratis)"
proof -
  let ?m = "leer_todo x (eq_ancla e)"
  obtain rel e1 where r: "reloj x ?m now ins e = (rel, e1)" by fastforce
  have j: "setting (eq_ledger e1) j = setting (eq_ledger e) j" if "j \<noteq> SETTING_CLOCK_SEEN" for j
    using reloj_setting [OF that, of x ?m now ins e] r by simp
  have "fiel x s k act (eq_ledger e1)" by (rule fiel_cong [OF assms]) (auto simp: j)
  from licencia_guardada_fiel [OF this, of ?m sec rel azar]
  obtain g e' where g: "licencia_guardada x ?m sec rel azar e1 = (Inr (Some g), e')" "eq_ledger e' = eq_ledger e1"
    "gl_activation g = act" "gl_period g = periodo_guardado x (eq_ledger e1) act" by blast
  have "\<forall>a b c. plan_de_clave x l g rel \<noteq> EnPrueba a b c" for l
    by (auto simp: plan_de_cuenta Let_def split: option.split)
  note n = finish_nivel [OF this]
  have "status_con_reloj x sec now ins azar e =
      (Inr (finish x (eq_ledger e') (plan_de_clave x (eq_ledger e') g rel) rel, rel), e')"
    by (simp add: status_con_reloj_def Let_def r g(1))
  then show ?thesis
    by (intro exI [of _ g] exI conjI) (assumption, simp_all add: g(2-4) j n)
qed

text \<open>One pass of the hourly check.\<close>

record pasada =
  ps_secreto :: string
  ps_ahora :: int
  ps_ins :: nat
  ps_azar :: "bytes option"
  ps_respuesta :: respuesta_http

definition pasa :: "licencia_crates \<Rightarrow> pasada \<Rightarrow> equipo \<Rightarrow> (error_licencia + estado_plan option) \<times> equipo" where
  "pasa x p e = check_if_due_hourly x (ps_secreto p) (ps_ahora p) (ps_ins p) (ps_azar p) (ps_respuesta p) e"

text \<open>A licence bought once that nobody has turned down.\<close>

definition de_por_vida_ok :: "licencia_crates \<Rightarrow> string \<Rightarrow> string \<Rightarrow> string \<Rightarrow> ledger \<Rightarrow> bool" where
  "de_por_vida_ok x s k act l \<longleftrightarrow>
     fiel x s k act l \<and> setting_i64 l SETTING_LICENSE_ENDED_AT = None \<and> setting_i64 l SETTING_LICENSE_REJECTED_AT = None"

lemma vida_cong:
  "de_por_vida_ok x s k act l \<Longrightarrow> (\<And>j. j \<in> {SETTING_LICENSE_SECRET, SETTING_LICENSE_KEY, SETTING_LICENSE_ACTIVATION,
     SETTING_LICENSE_KEY_MARK, SETTING_LICENSE_ENDED_AT, SETTING_LICENSE_REJECTED_AT} \<Longrightarrow> setting l' j = setting l j) \<Longrightarrow>
   de_por_vida_ok x s k act l'"
  by (simp add: de_por_vida_ok_def fiel_def setting_i64_def)

lemma vida_apunta:
  "de_por_vida_ok x s k act (eq_ledger e) \<Longrightarrow>
   j \<notin> {SETTING_LICENSE_SECRET, SETTING_LICENSE_KEY, SETTING_LICENSE_ACTIVATION, SETTING_LICENSE_KEY_MARK,
     SETTING_LICENSE_ENDED_AT, SETTING_LICENSE_REJECTED_AT} \<or> j \<in> {SETTING_LICENSE_ENDED_AT, SETTING_LICENSE_REJECTED_AT} \<and> v = [] \<Longrightarrow>
   de_por_vida_ok x s k act (eq_ledger (apunta_ajuste x j v e))"
  by (auto simp: de_por_vida_ok_def fiel_def)

lemma vida_aplicar:
  assumes "de_por_vida_ok x s k act (eq_ledger e)" "dicho_de x a = Vale \<or> dicho_de x a = NoSePudo" "respuesta_ok a"
  shows "fst (aplicar_comprobacion x a t e) = Inr () \<and> de_por_vida_ok x s k act (eq_ledger (snd (aplicar_comprobacion x a t e)))"
  using assms(2) unfolding aplicar_casos [OF assms(3)]
  by (elim disjE)
     (simp_all add: no_se_pudo_def Let_def marcar_comprobada_def vida_apunta assms(1))

lemma vida_salida: "de_por_vida_ok x s k act (eq_ledger e) \<Longrightarrow> de_por_vida_ok x s k act (eq_ledger (apunta_salida x t n b e))"
  by (rule vida_cong) (simp_all add: apunta_salida_def record_outbound_def Let_def setting_def)

lemma vida_status:
  assumes "de_por_vida_ok x s k act (eq_ledger e)" "period_days_from_id (ac_producto (activacion_de x act)) = Some DE_POR_VIDA"
  shows "\<exists>st rel e'. status_con_reloj x sec now ins azar e = (Inr (st, rel), e') \<and> de_por_vida_ok x s k act (eq_ledger e') \<and>
    es_plus (ep_plan st) \<and> ep_nivel st = NivelPlus"
proof -
  from status_fiel [of x s k act e sec now ins azar] assms(1)
  obtain g st rel e' where st: "status_con_reloj x sec now ins azar e = (Inr (st, rel), e')"
    "\<forall>j. j \<noteq> SETTING_CLOCK_SEEN \<longrightarrow> setting (eq_ledger e') j = setting (eq_ledger e) j"
    "ep_plan st = plan_de_clave x (eq_ledger e') g rel" "gl_period g = periodo_guardado x (eq_ledger e') act"
    "ep_nivel st = (if es_plus (ep_plan st) then NivelPlus else NivelGratis)"
    by (auto simp: de_por_vida_ok_def)
  have v: "de_por_vida_ok x s k act (eq_ledger e')" by (rule vida_cong [OF assms(1)]) (auto simp: st(2))
  have "gl_period g = DE_POR_VIDA" using st(4) assms(2) by (simp add: periodo_guardado_def)
  then have "es_plus (ep_plan st)" using v
    by (simp add: st(3) plan_de_cuenta Let_def cuenta_de_def de_por_vida_ok_def cumplida_def es_plus_def)
  with st v show ?thesis by auto
qed

lemma vida_pasa:
  assumes "de_por_vida_ok x s k act (eq_ledger e)" "period_days_from_id (ac_producto (activacion_de x act)) = Some DE_POR_VIDA"
    "dicho_de x (ps_respuesta p) = Vale \<or> dicho_de x (ps_respuesta p) = NoSePudo" "respuesta_ok (ps_respuesta p)"
  shows "de_por_vida_ok x s k act (eq_ledger (snd (pasa x p e)))"
proof -
  note status = vida_status [OF _ assms(2)]
  have comprueba: "de_por_vida_ok x s k act (eq_ledger (snd (check_if_due x sec n i az (ps_respuesta p) e)))"
    if v: "de_por_vida_ok x s k act (eq_ledger e)" for sec n i az e
  proof -
    obtain st rel e1 where st: "status_con_reloj x sec n i az e = (Inr (st, rel), e1)" "de_por_vida_ok x s k act (eq_ledger e1)"
      using status [OF v] by blast
    have "\<exists>e3. aplicar_comprobacion x (ps_respuesta p) rel (apunta_salida x n m False e1) = (Inr (), e3) \<and>
        de_por_vida_ok x s k act (eq_ledger e3)" for m
      using vida_aplicar [OF vida_salida [OF st(2)] assms(3,4)] by (metis prod.collapse)
    then obtain e3 where e3: "\<And>m. aplicar_comprobacion x (ps_respuesta p) rel (apunta_salida x n m False e1) = (Inr (), e3 m)"
      "\<And>m. de_por_vida_ok x s k act (eq_ledger (e3 m))" by metis
    obtain st' rel' e4 where "\<And>m. status_con_reloj x sec n i az (e3 m) = (Inr (st' m, rel' m), e4 m)"
      "\<And>m. de_por_vida_ok x s k act (eq_ledger (e4 m))" using status [OF e3(2)] by metis
    then show ?thesis using st by (simp add: check_if_due_def Let_def e3(1) status_def)
  qed
  obtain st rel e1 where st: "status_con_reloj x (ps_secreto p) (ps_ahora p) (ps_ins p) (ps_azar p) e = (Inr (st, rel), e1)"
    "de_por_vida_ok x s k act (eq_ledger e1)"
    using status [OF assms(1)] by blast
  have "de_por_vida_ok x s k act (eq_ledger (apunta_ajuste x SETTING_LICENSE_TRIED_AT t e1))" for t
    by (rule vida_apunta [OF st(2)]) simp
  then show ?thesis using st(2) comprueba
    by (simp add: pasa_def check_if_due_hourly_def check_due_def status_def st(1))
qed

text \<open>A licence bought once outlives every check that could not be done. Whatever happens to the
  clock and to the anchor, in however many passes, as long as no answer is a plain no and none turns
  the key down, the plan is Plus.\<close>

theorem lifetime_licence_outlives_failed_checks:
  assumes "de_por_vida_ok x s k act (eq_ledger e)" "period_days_from_id (ac_producto (activacion_de x act)) = Some DE_POR_VIDA"
    and "\<forall>p \<in> set ps. respuesta_ok (ps_respuesta p) \<and> dicho_de x (ps_respuesta p) \<noteq> NoVale \<and> dicho_de x (ps_respuesta p) \<noteq> LaRechaza"
  shows "\<exists>st rel e'. status_con_reloj x sec now ins azar (foldl (\<lambda>e p. snd (pasa x p e)) e ps) = (Inr (st, rel), e') \<and>
    es_plus (ep_plan st) \<and> ep_nivel st = NivelPlus"
proof -
  have "de_por_vida_ok x s k act (eq_ledger (foldl (\<lambda>e p. snd (pasa x p e)) e ps))"
    using assms(1,3)
  proof (induction ps arbitrary: e)
    case (Cons p ps)
    have "dicho_de x (ps_respuesta p) = Vale \<or> dicho_de x (ps_respuesta p) = NoSePudo"
      using Cons.prems(2) by (cases "dicho_de x (ps_respuesta p)") auto
    with Cons show ?case using vida_pasa [OF Cons.prems(1) assms(2)] by simp
  qed simp
  from vida_status [OF this assms(2)] show ?thesis by blast
qed

section \<open>One refusal\<close>

lemma racha_sin_vale: "list_all (\<lambda>p. fst p \<noteq> Vale) ps \<Longrightarrow> racha ps = ps"
proof -
  assume "list_all (\<lambda>p. fst p \<noteq> Vale) ps"
  then have "takeWhile (\<lambda>p. fst p \<noteq> Vale) (rev ps) = rev ps" by (simp add: takeWhile_eq_all_conv list_all_iff)
  then show ?thesis unfolding racha_def by (simp only: rev_rev_ident)
qed

lemma primera_vez_None: "list_all (\<lambda>p. \<not> P (fst p)) ps \<Longrightarrow> primera_vez P ps = None"
  by (induction ps) (simp_all add: primera_vez_def)

text \<open>C38: One refusal of the key and then only checks that could not be done, for a week, end a
  licence that was bought once, and the reason given is that it was turned down; without that one
  refusal the same week leaves it in force.\<close>

theorem one_refusal_and_a_week_offline_end_a_lifetime_licence:
  assumes "cuenta_de (eq_ledger e) = cuenta_vacia" "gl_period g = DE_POR_VIDA"
    and "dicho_de x a = LaRechaza" "respuesta_ok a" "i64_ok t" "rel \<ge> tras_gracia t"
    and "\<forall>(b, u) \<in> set ps. respuesta_ok b \<and> i64_ok u \<and> dicho_de x b = NoSePudo"
  shows "plan_de_clave x (eq_ledger (comprueba_varias x ((a, t) # ps) e)) g rel = PlusTerminado (tras_gracia t) ''rechazada'' \<and>
    es_plus (plan_de_clave x (eq_ledger (comprueba_varias x ps e)) g rel)"
proof -
  define qs where "qs = map (\<lambda>(a, t). (dicho_de x a, t)) ps"
  have q: "list_all (\<lambda>p. fst p = NoSePudo) qs" using assms(7) by (auto simp: qs_def list_all_iff)
  have ok: "\<forall>(a, t) \<in> set ps. respuesta_ok a \<and> i64_ok t" using assms(7) by blast
  have r: "racha ((LaRechaza, t) # qs) = (LaRechaza, t) # qs" "racha qs = qs"
    using q by (auto intro!: racha_sin_vale simp: list_all_iff)
  have n: "primera_vez (\<lambda>d. d = NoVale) (rev qs @ [(LaRechaza, t)]) = None" "primera_vez (\<lambda>d. d = NoVale) (rev qs) = None"
    "primera_vez (\<lambda>d. d = LaRechaza) qs = None"
    using q by (auto intro!: primera_vez_None simp: list_all_iff)
  have f: "primera_vez (\<lambda>d. d = LaRechaza) ((LaRechaza, t) # qs) = Some t" by (simp add: primera_vez_def)
  have "fin_de DE_POR_VIDA ((LaRechaza, t) # qs) rel = Some (tras_gracia t, ''rechazada'')" "fin_de DE_POR_VIDA qs rel = None"
    using assms(6) by (simp_all add: fin_de_def Let_def r n f cumplida_def)
  with plan_historia [OF assms(1), of "(a, t) # ps" _ x g rel, OF _ refl] plan_historia [OF assms(1) ok refl, of x g rel]
    ok assms(2-5)
  show ?thesis by (simp add: qs_def)
qed

section \<open>The anchor\<close>

lemma parse_i64_ok: "parse_i64 s = Some i \<Longrightarrow> i64_ok i"
  by (auto simp: parse_i64_def Let_def split: list.splits option.splits if_splits)

lemma setting_i64_ok: "setting_i64 l k = Some i \<Longrightarrow> i64_ok i"
  by (auto simp: setting_i64_def parse_i64_ok split: option.splits)

lemma show_int_ends: "show_int i \<noteq> []" "32 < char_code (hd (show_int i))" "char_code (hd (show_int i)) < 128"
  "32 < char_code (last (show_int i))" "char_code (last (show_int i)) < 128"
proof -
  have d: "48 \<le> char_code c \<and> char_code c < 58" if "c \<in> set (decimal n)" for c n
    using decimal_digits [OF that] by (auto simp: is_ascii_digit_def)
  have h: "48 \<le> char_code (hd (decimal n)) \<and> char_code (hd (decimal n)) < 58"
    "48 \<le> char_code (last (decimal n)) \<and> char_code (last (decimal n)) < 58" for n
    using d [OF hd_in_set [OF decimal_nonempty]] d [OF last_in_set [OF decimal_nonempty]] by simp_all
  have "char_code CHR ''-'' = 45" by simp
  then show "show_int i \<noteq> []" "32 < char_code (hd (show_int i))" "char_code (hd (show_int i)) < 128"
    "32 < char_code (last (show_int i))" "char_code (last (show_int i)) < 128"
    using h [of "nat (- i)"] h [of "nat i"] by (auto simp: show_int_def)
qed

lemma trim_show_int [simp]: "trim (show_int i) = show_int i"
  by (rule trim_plain) (rule show_int_ends)+

lemma marks_apart [simp]:
  "PRUEBA_MARCA \<noteq> VISTO_MARCA" "PRUEBA_MARCA \<noteq> LICENCIA_MARCA" "VISTO_MARCA \<noteq> PRUEBA_MARCA"
  "VISTO_MARCA \<noteq> LICENCIA_MARCA" "LICENCIA_MARCA \<noteq> PRUEBA_MARCA" "LICENCIA_MARCA \<noteq> VISTO_MARCA"
  by (simp_all add: PRUEBA_MARCA_def VISTO_MARCA_def LICENCIA_MARCA_def)

lemma escribir_otro:
  "m \<noteq> n \<Longrightarrow> leer_valor (snd (escribir_valor n v an)) m = leer_valor an m"
  by (auto simp: escribir_valor_def leer_valor_def Let_def)

text \<open>A date that is written is read back; one that is not leaves what there was.\<close>

lemma escribir_fecha:
  assumes "i64_ok i" "n \<noteq> LICENCIA_MARCA"
  shows "leer_numero (snd (escribir_valor n (show_int i) an)) n \<in> {Some i, leer_numero an n}"
  using assms
  by (auto simp: escribir_valor_def leer_numero_def leer_valor_def Let_def parse_i64_show_int)

lemma from_utf8_str_bytes:
  assumes "valid_utf8 (str_bytes s)"
  shows "from_utf8 (str_bytes s) = Some s"
proof -
  have b: "unat (of_char x :: byte) = char_code x" for x
  proof -
    have "unat (of_nat (char_code x) :: byte) = char_code x mod 2 ^ 8"
      by (simp only: unat_of_nat) simp
    then show ?thesis using char_code_lt [of x] by (simp add: of_nat_of_char)
  qed
  show ?thesis using assms by (simp add: from_utf8_def str_bytes_def b comp_def)
qed

lemma hex_digit_plain: "d < 16 \<Longrightarrow> 32 < char_code (hex_digit d) \<and> char_code (hex_digit d) < 128"
  by (erule below_16) (simp_all add: hex_digit_def)

lemma to_hex_plain: "c \<in> set (to_hex b) \<Longrightarrow> 32 < char_code c \<and> char_code c < 128"
proof -
  assume "c \<in> set (to_hex b)"
  then obtain w where "c \<in> set (hex_byte w)" by (auto simp: to_hex_def)
  moreover have "unat w div 16 < 16" using unat_byte_lt [of w] by auto
  ultimately show ?thesis using hex_digit_plain by (auto simp: hex_byte_def)
qed

lemma des_hex_a_hex:
  assumes "valid_utf8 (str_bytes t)"
  shows "des_hex (a_hex t) = Some t"
proof -
  have "trim (a_hex t) = a_hex t"
  proof (cases "a_hex t = []")
    case True
    then show ?thesis by (simp add: trim_def trim_start_def trim_end_def)
  next
    case False
    then have "hd (a_hex t) \<in> set (to_hex (str_bytes t))" "last (a_hex t) \<in> set (to_hex (str_bytes t))"
      by (simp_all add: a_hex_def)
    then show ?thesis using False to_hex_plain by (intro trim_plain) blast+
  qed
  then show ?thesis
    by (simp add: des_hex_def a_hex_def Let_def hex_pairs_to_hex from_utf8_str_bytes [OF assms])
qed

lemma escribir_licencia_lee:
  assumes "escribir_licencia x l an = (True, an')" "\<And>t. lc_licencia_texto x l = Some t \<Longrightarrow> lc_licencia x t = Some l \<and> valid_utf8 (str_bytes t)"
    "la_clave l \<noteq> []" "la_instancia l \<noteq> []"
  shows "ma_licencia (leer_todo x an') = Some l"
proof -
  obtain t where t: "lc_licencia_texto x l = Some t" using assms(1) by (auto simp: escribir_licencia_def split: option.splits)
  have "des_hex (a_hex t) = Some t" by (rule des_hex_a_hex) (use assms(2) [OF t] in blast)
  then have "leer_valor an' LICENCIA_MARCA = Some t"
    using assms(1) t by (auto simp: escribir_licencia_def escribir_valor_def leer_valor_def Let_def split: if_splits)
  then show ?thesis using assms(2) [OF t] assms(3,4) by (simp add: leer_todo_def)
qed

section \<open>A lost data folder\<close>

text \<open>What the JSON texts are relied on for: the anchor's copy and the activation rebuilt from it are
  read back, and a text is valid UTF-8.\<close>

definition json_ok :: "licencia_crates \<Rightarrow> bool" where
  "json_ok x \<longleftrightarrow>
     (\<forall>l t. lc_licencia_texto x l = Some t \<longrightarrow> lc_licencia x t = Some l \<and> valid_utf8 (str_bytes t)) \<and>
     (\<forall>i p. lc_activacion_texto x i p \<noteq> [] \<and>
        (\<exists>a. lc_activacion x (lc_activacion_texto x i p) = Some a \<and> ac_id a = i \<and> ac_producto a = p))"

text \<open>A ledger with no licence in it.\<close>

definition sin_licencia :: "ledger \<Rightarrow> bool" where
  "sin_licencia l \<longleftrightarrow> setting_text l SETTING_LICENSE_KEY = None \<and> cuenta_de l = cuenta_vacia"

lemma parse_show_opt: "setting_i64 l k = Some i \<Longrightarrow> parse_i64 (show_int i) = Some i"
  using setting_i64_ok parse_i64_show_int by blast

lemma si_falta_setting:
  "setting (eq_ledger (si_falta x k v e)) j =
   (if j = k \<and> v \<noteq> None \<and> setting_i64 (eq_ledger e) k = None then Some (show_int (the v)) else setting (eq_ledger e) j)"
  by (auto simp: si_falta_def split: option.split)

lemma si_falta_i64:
  "setting_i64 (eq_ledger (si_falta x k v e)) j =
   (if j = k \<and> v \<noteq> None \<and> setting_i64 (eq_ledger e) k = None then parse_i64 (show_int (the v)) else setting_i64 (eq_ledger e) j)"
  by (auto simp: si_falta_def split: option.split)

lemma desde_ancla_vuelve:
  assumes "json_ok x" "sin_licencia (eq_ledger e)" "s \<noteq> []" "setting (eq_ledger e) SETTING_LICENSE_SECRET = Some s"
    and "\<forall>v \<in> {la_terminada a, la_rechazada a, la_fallida a}. v \<noteq> None \<longrightarrow> i64_ok (the v)" "i64_ok (la_periodo a)" "la_clave a \<noteq> []"
    and "desde_ancla x a s e = (g, e')"
  shows "gl_since g = la_desde a" "gl_period g = (case period_days_from_id (if la_producto a = [] then None else Some (la_producto a))
      of Some p \<Rightarrow> p | None \<Rightarrow> la_periodo a)"
    "cuenta_de (eq_ledger e') = \<lparr>ct_terminada = la_terminada a, ct_rechazada = la_rechazada a, ct_fallida = la_fallida a\<rparr>"
    "\<exists>act. fiel x s (la_clave a) act (eq_ledger e')"
proof -
  define act where "act = lc_activacion_texto x (la_instancia a) (if la_producto a = [] then None else Some (la_producto a))"
  obtain ac where ac: "lc_activacion x act = Some ac" "ac_producto ac = (if la_producto a = [] then None else Some (la_producto a))" "act \<noteq> []"
    using assms(1) unfolding json_ok_def act_def by blast
  have no: "setting_i64 (eq_ledger e) SETTING_LICENSE_ENDED_AT = None" "setting_i64 (eq_ledger e) SETTING_LICENSE_REJECTED_AT = None"
    "setting_i64 (eq_ledger e) SETTING_LICENSE_CHECK_FAILED_AT = None"
    using assms(2) by (simp_all add: sin_licencia_def cuenta_de_def cuenta_vacia_def)
  note r = assms(8) [symmetric, unfolded desde_ancla_def Let_def act_def [symmetric]]
  show "gl_since g = la_desde a" using r by simp
  show "gl_period g = (case period_days_from_id (if la_producto a = [] then None else Some (la_producto a))
      of Some p \<Rightarrow> p | None \<Rightarrow> la_periodo a)"
    using r assms(6) by (simp add: periodo_guardado_def activacion_de_def ac(1,2) si_falta_i64 parse_i64_show_int split: option.split)
  show "cuenta_de (eq_ledger e') = \<lparr>ct_terminada = la_terminada a, ct_rechazada = la_rechazada a, ct_fallida = la_fallida a\<rparr>"
    using r assms(5) by (auto simp: cuenta_de_def si_falta_i64 no parse_i64_show_int)
  show "\<exists>act. fiel x s (la_clave a) act (eq_ledger e')"
    using r assms(3,4,7) ac(3) by (intro exI [of _ act]) (simp add: fiel_def si_falta_setting)
qed

lemma period_days_ok: "period_days_from_id v = Some d \<Longrightarrow> i64_ok d"
  by (auto simp: period_days_from_id_def MONTH_DAYS_def YEAR_DAYS_def DE_POR_VIDA_def i64_ok_def split: option.splits if_splits)

lemma periodo_ok: "i64_ok (periodo_guardado x l act)"
  by (auto simp: periodo_guardado_def MONTH_DAYS_def i64_ok_def [of 30] setting_i64_ok period_days_ok split: option.split)

lemma period_days_vacio:
  "period_days_from_id (if or_default v = [] then None else Some (or_default v)) = period_days_from_id v"
  by (cases v) (auto simp: period_days_from_id_def PRODUCTO_MENSUAL_def PRODUCTO_ANUAL_def PRODUCTO_FUNDADOR_def)

lemma copia_en_ancla:
  assumes "json_ok x" "fiel x s k act (eq_ledger e)" "ac_id (activacion_de x act) \<noteq> []"
    "licencia_guardada x (leer_todo x (eq_ancla e)) leg rel az e = (Inr (Some g), e1)"
    "fst (escribir_licencia x (copia_ancla x (eq_ledger e) k act (gl_since g) (gl_period g)) (eq_ancla e))"
  shows "ma_licencia (leer_todo x (eq_ancla e1)) = Some (copia_ancla x (eq_ledger e) k act (gl_since g) (gl_period g))"
    "eq_ledger e1 = eq_ledger e" "gl_period g = periodo_guardado x (eq_ledger e) act"
proof -
  have t: "setting_text (eq_ledger e) SETTING_LICENSE_SECRET = Some s" "setting_text (eq_ledger e) SETTING_LICENSE_KEY = Some k"
    "setting_text (eq_ledger e) SETTING_LICENSE_ACTIVATION = Some act"
    "or_default (setting (eq_ledger e) SETTING_LICENSE_KEY_MARK) = key_mark x s k act"
    using assms(2) by (simp_all add: fiel_def setting_text_def)
  have f: "find (\<lambda>c. or_default (setting (eq_ledger e) SETTING_LICENSE_KEY_MARK) = key_mark x c k act) (candidatos (Some s) leg) = Some s"
    using t(4) assms(2) by (simp add: candidatos_def fiel_def)
  let ?m = "leer_todo x (eq_ancla e)"
  define copia where "copia = copia_ancla x (eq_ledger e) k act (gl_since g) (gl_period g)"
  have g: "gl_period g = periodo_guardado x (eq_ledger e) act"
    "e1 = (if ma_licencia ?m \<noteq> Some copia then e\<lparr>eq_ancla := snd (escribir_licencia x copia (eq_ancla e))\<rparr> else e)"
    using assms(3,4) by (auto simp: licencia_guardada_def Let_def t(1-3) f [unfolded t(4)] f en_extracto_def copia_def copia_ancla_def)
  show "gl_period g = periodo_guardado x (eq_ledger e) act" by (rule g(1))
  show "eq_ledger e1 = eq_ledger e" by (simp add: g(2))
  have w: "escribir_licencia x copia (eq_ancla e) = (True, snd (escribir_licencia x copia (eq_ancla e)))"
    using assms(5) by (metis copia_def prod.collapse)
  have "ma_licencia (leer_todo x (snd (escribir_licencia x copia (eq_ancla e)))) = Some copia"
    by (rule escribir_licencia_lee [OF w])
       (use assms(1-3) in \<open>auto simp: json_ok_def copia_def copia_ancla_def fiel_def\<close>)
  then show "ma_licencia (leer_todo x (eq_ancla e1)) = Some copia" by (simp add: g(2))
qed

text \<open>C39: A data folder that is lost loses no licence and buys no time. Once the status of a licence was
  asked for where the anchor can be written, an empty ledger gets the same licence back from the
  anchor, under a secret of its own: same key, same day, same period, and the same end, refusal and
  failed check, so that it ends when it would have ended.\<close>

theorem lost_folder_keeps_licence_and_its_grace:
  assumes "json_ok x" "fiel x s k act (eq_ledger e)" "ac_id (activacion_de x act) \<noteq> []"
    and "licencia_guardada x (leer_todo x (eq_ancla e)) leg rel az e = (Inr (Some g), e1)"
    and "fst (escribir_licencia x (copia_ancla x (eq_ledger e) k act (gl_since g) (gl_period g)) (eq_ancla e))"
    and "sin_licencia l" "setting_text l SETTING_LICENSE_SECRET = None" "b \<noteq> []"
  shows "\<exists>g' e2 s' act'. licencia_guardada x (leer_todo x (eq_ancla e1)) leg' rel' (Some b) (e1\<lparr>eq_ledger := l\<rparr>) = (Inr (Some g'), e2) \<and>
    fiel x s' k act' (eq_ledger e2) \<and> gl_since g' = gl_since g \<and> gl_period g' = gl_period g \<and>
    cuenta_de (eq_ledger e2) = cuenta_de (eq_ledger e) \<and>
    (es_plus (plan_de_clave x (eq_ledger e2) g' r) = es_plus (plan_de_clave x (eq_ledger e) g r)) \<and>
    (\<not> es_plus (plan_de_clave x (eq_ledger e) g r) \<longrightarrow> plan_de_clave x (eq_ledger e2) g' r = plan_de_clave x (eq_ledger e) g r)"
proof -
  note c = copia_en_ancla [OF assms(1-5)]
  define copia where "copia = copia_ancla x (eq_ledger e) k act (gl_since g) (gl_period g)"
  define e0 where "e0 = apunta_ajuste x SETTING_LICENSE_SECRET (to_hex b) (e1\<lparr>eq_ledger := l\<rparr>)"
  obtain g' e2 where r: "desde_ancla x copia (to_hex b) e0 = (g', e2)" by fastforce
  have hx: "to_hex b \<noteq> []" using assms(8) by (cases b) (simp_all add: to_hex_def hex_byte_def)
  have sin: "sin_licencia (eq_ledger e0)"
    using assms(6) by (simp add: e0_def sin_licencia_def cuenta_de_def)
  have lic: "licencia_guardada x (leer_todo x (eq_ancla e1)) leg' rel' (Some b) (e1\<lparr>eq_ledger := l\<rparr>) = (Inr (Some g'), e2)"
    using assms(6,7) r
    by (simp add: licencia_guardada_def Let_def sin_licencia_def c(1) copia_def [symmetric] secreto_propio_def nuevo_secreto_def
        e0_def)
  note v = desde_ancla_vuelve [OF assms(1) sin hx _ _ _ _ r]
  have ok: "\<forall>v \<in> {la_terminada copia, la_rechazada copia, la_fallida copia}. v \<noteq> None \<longrightarrow> i64_ok (the v)"
    "i64_ok (la_periodo copia)" "la_clave copia \<noteq> []" "setting (eq_ledger e0) SETTING_LICENSE_SECRET = Some (to_hex b)"
    using setting_i64_ok assms(2) by (auto simp: copia_def copia_ancla_def c(3) periodo_ok fiel_def e0_def)
  note w = v [OF ok(4,1-3)]
  have period: "gl_period g' = gl_period g"
  proof -
    have "la_producto copia = or_default (ac_producto (activacion_de x act))" "la_periodo copia = gl_period g"
      by (simp_all add: copia_def copia_ancla_def)
    then have "gl_period g' = (case period_days_from_id (ac_producto (activacion_de x act)) of Some p \<Rightarrow> p | None \<Rightarrow> gl_period g)"
      using w(2) by (simp only: period_days_vacio)
    then show ?thesis by (simp add: c(3) periodo_guardado_def split: option.splits)
  qed
  have cu: "cuenta_de (eq_ledger e2) = cuenta_de (eq_ledger e)" using w(3) by (simp add: copia_def copia_ancla_def cuenta_de_def)
  have "es_plus (plan_de_clave x (eq_ledger e2) g' r) = es_plus (plan_de_clave x (eq_ledger e) g r) \<and>
    (\<not> es_plus (plan_de_clave x (eq_ledger e) g r) \<longrightarrow> plan_de_clave x (eq_ledger e2) g' r = plan_de_clave x (eq_ledger e) g r)"
    unfolding plan_de_cuenta Let_def cu period by (auto simp: es_plus_def split: option.split)
  then show ?thesis using lic w(1,4) period cu by (auto simp: copia_def copia_ancla_def)
qed

section \<open>A trial that is over\<close>

text \<open>The anchor says the trial began by this day and that its end was seen, and holds no licence.\<close>

definition prueba_vista :: "licencia_crates \<Rightarrow> int \<Rightarrow> ancla \<Rightarrow> bool" where
  "prueba_vista x s an \<longleftrightarrow>
     (\<exists>p v. leer_numero an PRUEBA_MARCA = Some p \<and> p \<le> s \<and> leer_numero an VISTO_MARCA = Some v \<and>
        v \<ge> s + TRIAL_DAYS * DAY_MS) \<and> ma_licencia (leer_todo x an) = None"

lemma leer_numero_ok: "leer_numero an n = Some i \<Longrightarrow> i64_ok i"
  by (auto simp: leer_numero_def parse_i64_ok split: option.splits)

lemma leer_otro:
  assumes "m \<noteq> n"
  shows "leer_numero (snd (escribir_valor n v an)) m = leer_numero an m"
  using escribir_otro [OF assms] by (simp add: leer_numero_def)

lemma licencia_otro:
  assumes "n \<noteq> LICENCIA_MARCA"
  shows "ma_licencia (leer_todo x (snd (escribir_valor n v an))) = ma_licencia (leer_todo x an)"
  using escribir_otro [of LICENCIA_MARCA n v an] assms by (simp add: leer_todo_def)

lemma vista_visto:
  assumes "prueba_vista x s an" "i64_ok i" "case leer_numero an VISTO_MARCA of None \<Rightarrow> True | Some v \<Rightarrow> i \<ge> v"
  shows "prueba_vista x s (snd (escribir_visto i an))"
proof -
  obtain p v where p: "leer_numero an PRUEBA_MARCA = Some p" "p \<le> s" "leer_numero an VISTO_MARCA = Some v"
    "v \<ge> s + TRIAL_DAYS * DAY_MS" "ma_licencia (leer_todo x an) = None"
    using assms(1) by (auto simp: prueba_vista_def)
  have "leer_numero (snd (escribir_visto i an)) VISTO_MARCA \<in> {Some i, Some v}"
    using escribir_fecha [OF assms(2), of VISTO_MARCA an] p(3) by (simp add: escribir_visto_def)
  then show ?thesis using p assms(3)
    by (auto simp: prueba_vista_def escribir_visto_def leer_otro licencia_otro)
qed

lemma vista_prueba:
  assumes "prueba_vista x s an" "i64_ok i" "i \<le> s"
  shows "prueba_vista x s (snd (escribir_prueba i an))"
proof -
  obtain p v where p: "leer_numero an PRUEBA_MARCA = Some p" "p \<le> s" "leer_numero an VISTO_MARCA = Some v"
    "v \<ge> s + TRIAL_DAYS * DAY_MS" "ma_licencia (leer_todo x an) = None"
    using assms(1) by (auto simp: prueba_vista_def)
  have "leer_numero (snd (escribir_prueba i an)) PRUEBA_MARCA \<in> {Some i, Some p}"
    using escribir_fecha [OF assms(2), of PRUEBA_MARCA an] p(1) by (simp add: escribir_prueba_def)
  then show ?thesis using p assms(3)
    by (auto simp: prueba_vista_def escribir_prueba_def leer_otro licencia_otro)
qed

text \<open>The clock of a decision is never behind what was seen, and what is written of it neither.\<close>

lemma reloj_vista:
  assumes "prueba_vista x s (eq_ancla e)" "i64_ok now" "reloj x (leer_todo x (eq_ancla e)) now ins e = (rel, e')"
  shows "rel \<ge> s + TRIAL_DAYS * DAY_MS" "prueba_vista x s (eq_ancla e')"
    "\<And>j. j \<noteq> SETTING_CLOCK_SEEN \<Longrightarrow> setting (eq_ledger e') j = setting (eq_ledger e) j"
proof -
  let ?m = "leer_todo x (eq_ancla e)"
  obtain v where v: "leer_numero (eq_ancla e) VISTO_MARCA = Some v" "v \<ge> s + TRIAL_DAYS * DAY_MS"
    using assms(1) by (auto simp: prueba_vista_def)
  let ?r = "reloj_de ?m now ins e" and ?re = "reloj_recordable ?m now ins e"
  have m: "ma_visto ?m = Some v" by (simp add: leer_todo_def v(1))
  have rv: "?r \<ge> v" by (auto simp: reloj_de_def reloj_visto_def m mayor_def split: option.splits)
  have sat: "i64_ok (i64_saturating_add a b)" for a b
    by (auto simp: i64_saturating_add_def i64_ok_def i64_min_def i64_max_def)
  have "i64_ok v" by (rule leer_numero_ok [OF v(1)])
  then have "i64_ok ?r" using assms(2) sat setting_i64_ok
    by (auto simp: reloj_de_def reloj_visto_def reloj_monotono_def m mayor_def max_def split: option.splits prod.splits)
  then have reok: "i64_ok ?re" using sat by (auto simp: reloj_recordable_def min_def split: option.splits)
  obtain conf pend where q: "primera_lectura_confirmada (eq_pendiente e) now ins = (conf, pend)" by fastforce
  have "fst (reloj x ?m now ins e) = ?r" by (simp add: reloj_def Let_def q)
  then show "rel \<ge> s + TRIAL_DAYS * DAY_MS" using rv v(2) assms(3) by simp
  have w: "prueba_vista x s (snd (escribir_visto ?re (eq_ancla e)))" if "?re \<ge> v + RELOJ_PASO_ANCLA_MS"
    by (rule vista_visto [OF assms(1) reok]) (use that in \<open>simp add: v(1) RELOJ_PASO_ANCLA_MS_def HOUR_MS_def\<close>)
  have "eq_ancla (snd (reloj x ?m now ins e)) = eq_ancla e \<or>
      ?re \<ge> v + RELOJ_PASO_ANCLA_MS \<and> eq_ancla (snd (reloj x ?m now ins e)) = snd (escribir_visto ?re (eq_ancla e))"
    by (simp add: reloj_def Let_def q m)
  then show "prueba_vista x s (eq_ancla e')" using w assms(1,3) by auto
  show "setting (eq_ledger e') j = setting (eq_ledger e) j" if "j \<noteq> SETTING_CLOCK_SEEN" for j
    using reloj_setting [OF that, of x ?m now ins e] assms(3) by simp
qed

text \<open>What a person may do between two questions: put any data folder without a licence in place, and
  start the program again. Then the clock says anything.\<close>

record intento_prueba =
  ip_folder :: ledger
  ip_proceso :: "(nat \<times> int) option"
  ip_pendiente :: "(nat \<times> int) option"
  ip_ahora :: int
  ip_ins :: nat

definition prueba_otra_vez ::
    "licencia_crates \<Rightarrow> string \<Rightarrow> bytes option \<Rightarrow> intento_prueba \<Rightarrow> equipo \<Rightarrow> (error_licencia + estado_plan \<times> int) \<times> equipo" where
  "prueba_otra_vez x sec az i e =
     status_con_reloj x sec (ip_ahora i) (ip_ins i) az
       (e\<lparr>eq_ledger := ip_folder i, eq_proceso := ip_proceso i, eq_pendiente := ip_pendiente i\<rparr>)"

lemma prueba_vista_status:
  assumes "prueba_vista x s (eq_ancla e)" "i64_ok now" "setting_text (eq_ledger e) SETTING_LICENSE_KEY = None"
  shows "\<exists>st rel e' t. status_con_reloj x sec now ins az e = (Inr (st, rel), e') \<and> prueba_vista x s (eq_ancla e') \<and>
    ep_plan st = PruebaAgotada t \<and> t \<le> s + TRIAL_DAYS * DAY_MS \<and> ep_nivel st = NivelGratis"
proof -
  let ?m = "leer_todo x (eq_ancla e)"
  obtain rel e1 where r: "reloj x ?m now ins e = (rel, e1)" by fastforce
  note v = reloj_vista [OF assms(1,2) r]
  have nk: "setting_text (eq_ledger e1) SETTING_LICENSE_KEY = None" using assms(3) v(3) by (simp add: setting_text_def)
  have nl: "ma_licencia ?m = None" using assms(1) by (simp add: prueba_vista_def)
  have g: "licencia_guardada x ?m sec rel az e1 = (Inr None, e1)"
    by (simp add: licencia_guardada_def Let_def nk nl)
  obtain p where p: "ma_prueba ?m = Some p" "p \<le> s" using assms(1) by (auto simp: prueba_vista_def leer_todo_def)
  define st where "st = (case setting_i64 (eq_ledger e1) SETTING_TRIAL_STARTED of None \<Rightarrow> p | Some a \<Rightarrow> min a p)"
  have sts: "st \<le> s" using p(2) by (auto simp: st_def split: option.split)
  have "leer_numero (eq_ancla e) PRUEBA_MARCA = Some p" using p(1) by (simp add: leer_todo_def)
  then have pok: "i64_ok st" using leer_numero_ok setting_i64_ok by (auto simp: st_def min_def split: option.split)
  obtain e2 where e2: "prueba_plan x ?m rel e1 = (prueba_desde st rel, e2)"
    "eq_ancla e2 = eq_ancla e1 \<or> eq_ancla e2 = snd (escribir_prueba st (eq_ancla e1))"
    by (cases "setting_i64 (eq_ledger e1) SETTING_TRIAL_STARTED") (auto simp: prueba_plan_def Let_def p(1) st_def)
  have "prueba_vista x s (eq_ancla e2)" using e2(2) v(2) vista_prueba [OF v(2) pok sts] by auto
  moreover have "prueba_desde st rel = PruebaAgotada (st + TRIAL_DAYS * DAY_MS)"
    using v(1) sts by (simp add: prueba_desde_def Let_def)
  moreover have "status_con_reloj x sec now ins az e = (Inr (finish x (eq_ledger e2) (prueba_desde st rel) rel, rel), e2)"
    by (simp add: status_con_reloj_def Let_def r g e2(1))
  ultimately show ?thesis using sts by (auto simp: finish_def)
qed

text \<open>C40: A trial whose end was once seen stays over. With the anchor in place, no data folder put in
  the place of the old one, no clock set to any date and no new start of the program, any number of
  times, gives the trial back: the plan is the exhausted trial, on the free level.\<close>

theorem trial_that_is_over_stays_over:
  assumes "prueba_vista x s (eq_ancla e)"
    and "\<forall>i \<in> set (is @ [i]). i64_ok (ip_ahora i) \<and> setting_text (ip_folder i) SETTING_LICENSE_KEY = None"
  shows "\<exists>st rel e' t. prueba_otra_vez x sec az i (foldl (\<lambda>e i. snd (prueba_otra_vez x sec az i e)) e is) = (Inr (st, rel), e') \<and>
    ep_plan st = PruebaAgotada t \<and> t \<le> s + TRIAL_DAYS * DAY_MS \<and> ep_nivel st = NivelGratis"
proof -
  note paso = prueba_vista_status [where e = "e\<lparr>eq_ledger := ip_folder i, eq_proceso := ip_proceso i, eq_pendiente := ip_pendiente i\<rparr>" for e i,
      simplified, folded prueba_otra_vez_def]
  have "prueba_vista x s (eq_ancla (foldl (\<lambda>e i. snd (prueba_otra_vez x sec az i e)) e is))"
    using assms
  proof (induction "is" arbitrary: e)
    case (Cons j js)
    have "prueba_vista x s (eq_ancla (snd (prueba_otra_vez x sec az j e)))"
      using paso [OF Cons.prems(1), of "ip_ahora j" j sec "ip_ins j" az] Cons.prems(2) by (auto simp: prueba_otra_vez_def)
    then show ?case using Cons by simp
  qed simp
  from paso [OF this, of "ip_ahora i" i sec "ip_ins i" az] assms(2) show ?thesis
    by (auto simp: prueba_otra_vez_def)
qed

section \<open>The theorems applied\<close>

definition texto_activacion :: "string \<Rightarrow> string option \<Rightarrow> string" where
  "texto_activacion i p =
     replicate (length i) (CHR ''1'') @ CHR ''0'' # i @ (case p of None \<Rightarrow> [] | Some q \<Rightarrow> CHR ''s'' # q)"

definition lee_activacion :: "string \<Rightarrow> activacion option" where
  "lee_activacion t =
     (let n = length (takeWhile (\<lambda>c. c = CHR ''1'') t); r = drop (n + 1) t
      in Some (activacion_vacia\<lparr>ac_id := take n r, ac_producto := (case drop n r of [] \<Rightarrow> None | _ # q \<Rightarrow> Some q)\<rparr>))"

lemma lee_texto_activacion: "lee_activacion (texto_activacion i p) = Some (activacion_vacia\<lparr>ac_id := i, ac_producto := p\<rparr>)"
proof -
  have "takeWhile (\<lambda>c. c = CHR ''1'') (texto_activacion i p) = replicate (length i) (CHR ''1'')"
    unfolding texto_activacion_def by (subst takeWhile_append2) simp_all
  then show ?thesis by (cases p) (simp_all add: lee_activacion_def Let_def texto_activacion_def)
qed

definition licencia_ejemplo :: licencia_ancla where
  "licencia_ejemplo = \<lparr>la_clave = ''k'', la_instancia = ''i'', la_producto = PRODUCTO_FUNDADOR, la_desde = 3,
     la_periodo = DE_POR_VIDA, la_terminada = None, la_rechazada = None, la_fallida = None\<rparr>"

definition x_licencia :: licencia_crates where
  "x_licencia = \<lparr>lc_x = \<lparr>sha = (\<lambda>b. b), signals_to_json = (\<lambda>_. []), signals_from_json = (\<lambda>_. None), process_to_json = (\<lambda>_. []),
       process_from_json = (\<lambda>_. None), sql_day = (\<lambda>_. []), fs_write = (\<lambda>_ _. True), fs_rename = (\<lambda>_ _. True),
       fs_remove = (\<lambda>_. True)\<rparr>,
     lc_activacion = lee_activacion, lc_activacion_texto = texto_activacion, lc_valida = (\<lambda>_. None),
     lc_json = (\<lambda>t. if t = ''no'' then Some (\<lambda>k. if k = ''code'' then EsTexto ''LICENSE_KEY_NOT_FOUND'' else NoHay) else None),
     lc_licencia = (\<lambda>t. if t = ''L'' then Some licencia_ejemplo else None),
     lc_licencia_texto = (\<lambda>l. if l = licencia_ejemplo then Some ''L'' else None),
     lc_largo = (\<lambda>_ _. 0), lc_epoch = None, lc_host = GATEWAY_HOST\<rparr>"

lemma x_licencia_json: "json_ok x_licencia"
proof -
  have "valid_utf8 (str_bytes ''L'')" by code_simp
  moreover have "texto_activacion i p \<noteq> []" for i p by (simp add: texto_activacion_def)
  ultimately show ?thesis by (auto simp: json_ok_def x_licencia_def lee_texto_activacion)
qed

definition equipo_vacio :: equipo where
  "equipo_vacio = \<lparr>eq_ledger = empty_file None, eq_ancla = \<lparr>an_registro = False, an_permiso = True, an_valores = (\<lambda>_. None)\<rparr>,
     eq_proceso = None, eq_pendiente = None\<rparr>"

definition act_ejemplo :: string where
  "act_ejemplo = texto_activacion ''i'' (Some PRODUCTO_FUNDADOR)"

definition equipo_ejemplo :: equipo where
  "equipo_ejemplo =
     apunta_ajuste x_licencia SETTING_LICENSE_SECRET ''s''
     (apunta_ajuste x_licencia SETTING_LICENSE_KEY ''k''
     (apunta_ajuste x_licencia SETTING_LICENSE_ACTIVATION act_ejemplo
     (apunta_ajuste x_licencia SETTING_LICENSE_KEY_AT (show_int 3)
     (apunta_ajuste x_licencia SETTING_LICENSE_KEY_MARK (key_mark x_licencia ''s'' ''k'' act_ejemplo) equipo_vacio))))"

lemma setting_vacio [simp]: "setting (empty_file d) j = None" "setting (eq_ledger equipo_vacio) j = None"
  by (simp_all add: setting_def empty_file_def equipo_vacio_def)

lemma vacio_i64 [simp]: "setting_i64 (empty_file d) j = None" "setting_i64 (eq_ledger equipo_vacio) j = None"
  by (simp_all add: setting_i64_def)

lemma equipo_ejemplo_fiel: "fiel x_licencia ''s'' ''k'' act_ejemplo (eq_ledger equipo_ejemplo)"
  by (simp add: fiel_def equipo_ejemplo_def act_ejemplo_def texto_activacion_def)

lemma act_ejemplo_de: "activacion_de x_licencia act_ejemplo = activacion_vacia\<lparr>ac_id := ''i'', ac_producto := Some PRODUCTO_FUNDADOR\<rparr>"
  by (simp add: activacion_de_def x_licencia_def act_ejemplo_def lee_texto_activacion)

lemma fundador_de_por_vida: "period_days_from_id (Some PRODUCTO_FUNDADOR) = Some DE_POR_VIDA"
  by (simp add: period_days_from_id_def PRODUCTO_MENSUAL_def PRODUCTO_ANUAL_def PRODUCTO_FUNDADOR_def)

lemma equipo_ejemplo_cuenta: "cuenta_de (eq_ledger equipo_ejemplo) = cuenta_vacia"
  by (simp add: cuenta_de_def cuenta_vacia_def equipo_ejemplo_def)

theorem plan_is_what_the_gateway_said_witness:
  "plan_de_clave x_licencia (eq_ledger (comprueba_varias x_licencia [(Inl (Network ''caida''), 5)] equipo_ejemplo))
     \<lparr>gl_activation = act_ejemplo, gl_since = 3, gl_period = 30\<rparr> (tras_gracia 5) = PlusTerminado (tras_gracia 5) ''sin_comprobar''"
proof -
  have ok: "\<forall>(a, t) \<in> set [(Inl (Network ''caida'') :: respuesta_http, 5)]. respuesta_ok a \<and> i64_ok t"
    by (simp add: respuesta_ok_def i64_ok_def)
  have "fin_de 30 [(NoSePudo, 5)] (tras_gracia 5) = Some (tras_gracia 5, ''sin_comprobar'')"
    by (simp add: fin_de_def Let_def racha_def primera_vez_def cumplida_def DE_POR_VIDA_def)
  with plan_is_what_the_gateway_said [OF equipo_ejemplo_cuenta ok refl, of x_licencia
      "\<lparr>gl_activation = act_ejemplo, gl_since = 3, gl_period = 30\<rparr>" "tras_gracia 5"]
  show ?thesis by (simp add: dicho_de_def)
qed

theorem lifetime_licence_outlives_failed_checks_witness:
  "\<exists>st rel e'. status_con_reloj x_licencia [] 9 2 None (snd (pasa x_licencia \<lparr>ps_secreto = [], ps_ahora = 8, ps_ins = 1,
       ps_azar = None, ps_respuesta = Inl (Network ''caida'')\<rparr> equipo_ejemplo)) = (Inr (st, rel), e') \<and> es_plus (ep_plan st)"
proof -
  have v: "de_por_vida_ok x_licencia ''s'' ''k'' act_ejemplo (eq_ledger equipo_ejemplo)"
    using equipo_ejemplo_fiel equipo_ejemplo_cuenta by (simp add: de_por_vida_ok_def cuenta_de_def cuenta_vacia_def)
  have p: "period_days_from_id (ac_producto (activacion_de x_licencia act_ejemplo)) = Some DE_POR_VIDA"
    by (simp add: act_ejemplo_de fundador_de_por_vida)
  from lifetime_licence_outlives_failed_checks [OF v p, of "[\<lparr>ps_secreto = [], ps_ahora = 8, ps_ins = 1,
       ps_azar = None, ps_respuesta = Inl (Network ''caida'')\<rparr>]" "[]" 9 2 None]
  show ?thesis by (auto simp: respuesta_ok_def dicho_de_def)
qed

theorem one_refusal_and_a_week_offline_end_a_lifetime_licence_witness:
  "plan_de_clave x_licencia (eq_ledger (comprueba_varias x_licencia [(Inr (404, ''no''), 5), (Inl (Network ''caida''), 6)] equipo_ejemplo))
     \<lparr>gl_activation = act_ejemplo, gl_since = 3, gl_period = DE_POR_VIDA\<rparr> (tras_gracia 5) = PlusTerminado (tras_gracia 5) ''rechazada''"
proof -
  have "trim ''no'' = ''no''" by code_simp
  moreover have "list_all (\<lambda>b. is_ascii_uppercase b \<or> b = CHR ''_'') ''LICENSE_KEY_NOT_FOUND''" by code_simp
  ultimately have "codigo_de_la_pasarela x_licencia 404 ''no'' = Some ''LICENSE_KEY_NOT_FOUND''"
    by (simp add: codigo_de_la_pasarela_def x_licencia_def)
  then have d: "dicho_de x_licencia (Inr (404, ''no'')) = LaRechaza"
    by (simp add: dicho_de_def rechaza_la_clave_def CODIGOS_DE_LA_CLAVE_def)
  have o: "respuesta_ok (Inr (404, ''no''))" "i64_ok 5" by (simp_all add: respuesta_ok_def i64_ok_def)
  have q: "\<forall>(b, u) \<in> set [(Inl (Network ''caida'') :: respuesta_http, 6)]. respuesta_ok b \<and> i64_ok u \<and> dicho_de x_licencia b = NoSePudo"
    by (simp add: respuesta_ok_def i64_ok_def dicho_de_def)
  from one_refusal_and_a_week_offline_end_a_lifetime_licence [OF equipo_ejemplo_cuenta _ d o order_refl q,
      of "\<lparr>gl_activation = act_ejemplo, gl_since = 3, gl_period = DE_POR_VIDA\<rparr>"]
  show ?thesis by simp
qed

theorem lost_folder_keeps_licence_and_its_grace_witness:
  "\<exists>g e1 g' e2. licencia_guardada x_licencia (leer_todo x_licencia (eq_ancla equipo_ejemplo)) [] 9 None equipo_ejemplo = (Inr (Some g), e1) \<and>
     licencia_guardada x_licencia (leer_todo x_licencia (eq_ancla e1)) [] 10 (Some [1]) (e1\<lparr>eq_ledger := empty_file None\<rparr>) =
       (Inr (Some g'), e2) \<and> gl_since g' = 3 \<and> gl_period g' = DE_POR_VIDA"
proof -
  from licencia_guardada_fiel [OF equipo_ejemplo_fiel, of "leer_todo x_licencia (eq_ancla equipo_ejemplo)" "[]" 9 None]
  obtain g e1 where g: "licencia_guardada x_licencia (leer_todo x_licencia (eq_ancla equipo_ejemplo)) [] 9 None equipo_ejemplo = (Inr (Some g), e1)"
    "gl_period g = periodo_guardado x_licencia (eq_ledger equipo_ejemplo) act_ejemplo"
    "gl_since g = (case setting_i64 (eq_ledger equipo_ejemplo) SETTING_LICENSE_KEY_AT of None \<Rightarrow> 9 | Some t \<Rightarrow> t)" by blast
  have p: "gl_period g = DE_POR_VIDA" by (simp add: g(2) periodo_guardado_def act_ejemplo_de fundador_de_por_vida)
  have "i64_ok 3" by (simp add: i64_ok_def)
  then have t: "gl_since g = 3" by (simp add: g(3) equipo_ejemplo_def parse_i64_show_int)
  have c: "copia_ancla x_licencia (eq_ledger equipo_ejemplo) ''k'' act_ejemplo (gl_since g) (gl_period g) = licencia_ejemplo"
    using equipo_ejemplo_cuenta
    by (simp add: copia_ancla_def t p act_ejemplo_de licencia_ejemplo_def cuenta_de_def cuenta_vacia_def)
  have w: "fst (escribir_licencia x_licencia (copia_ancla x_licencia (eq_ledger equipo_ejemplo) ''k'' act_ejemplo (gl_since g) (gl_period g))
      (eq_ancla equipo_ejemplo))"
    unfolding c by (simp add: escribir_licencia_def x_licencia_def escribir_valor_def Let_def equipo_ejemplo_def equipo_vacio_def)
  have n: "sin_licencia (empty_file None)" "setting_text (empty_file None) SETTING_LICENSE_SECRET = None" "[1 :: byte] \<noteq> []"
    by (simp_all add: sin_licencia_def setting_text_def cuenta_de_def cuenta_vacia_def)
  have i: "ac_id (activacion_de x_licencia act_ejemplo) \<noteq> []" by (simp add: act_ejemplo_de)
  from lost_folder_keeps_licence_and_its_grace [OF x_licencia_json equipo_ejemplo_fiel i g(1) w n, of "[]" 10] g(1) t p
  show ?thesis by metis
qed

theorem trial_that_is_over_stays_over_witness:
  "\<exists>st rel e' t. prueba_otra_vez x_licencia [] None \<lparr>ip_folder = empty_file None, ip_proceso = None, ip_pendiente = None,
       ip_ahora = 0, ip_ins = 0\<rparr>
     (equipo_vacio\<lparr>eq_ancla := \<lparr>an_registro = True, an_permiso = False,
        an_valores = [PRUEBA_MARCA \<mapsto> show_int 0, VISTO_MARCA \<mapsto> show_int (7 * DAY_MS)]\<rparr>\<rparr>) = (Inr (st, rel), e') \<and>
     ep_plan st = PruebaAgotada t \<and> ep_nivel st = NivelGratis"
proof -
  let ?e = "equipo_vacio\<lparr>eq_ancla := \<lparr>an_registro = True, an_permiso = False,
        an_valores = [PRUEBA_MARCA \<mapsto> show_int 0, VISTO_MARCA \<mapsto> show_int (7 * DAY_MS)]\<rparr>\<rparr>"
  let ?i = "\<lparr>ip_folder = empty_file None, ip_proceso = None, ip_pendiente = None, ip_ahora = 0, ip_ins = 0\<rparr>"
  have "i64_ok 0" "i64_ok (7 * DAY_MS)" by (simp_all add: i64_ok_def DAY_MS_def HOUR_MS_def)
  then have v: "prueba_vista x_licencia 0 (eq_ancla ?e)"
    by (simp add: prueba_vista_def leer_numero_def leer_valor_def leer_todo_def parse_i64_show_int TRIAL_DAYS_def)
  have "\<forall>i \<in> set ([] @ [?i]). i64_ok (ip_ahora i) \<and> setting_text (ip_folder i) SETTING_LICENSE_KEY = None"
    by (simp add: i64_ok_def setting_text_def)
  from trial_that_is_over_stays_over [OF v this, of "[]" None] show ?thesis by auto
qed

end
