(* ===== verification/Huellas.thy ===== *)
theory Huellas imports Servers Inflate "HOL-Library.Monad_Syntax" begin

text \<open>
  What a file's metadata says about a person, \<open>crates/core/src/huellas/mod.rs\<close> and \<open>exif.rs\<close>: the
  report, the texts shown, the XMP packet and the EXIF block. The readers and cleaners of each
  format build on it in \<open>Huellas_Foto\<close> and \<open>Huellas_Papel\<close>.

  A \<open>String\<close> is its UTF-8 bytes. \<open>lower\<close>, a parameter, is \<open>str::to_lowercase\<close>: Unicode's table of
  lower cases, which only the comparison of a maker with a model uses. A coordinate is an exact
  fraction where the code has an \<open>f64\<close>; it is rounded to five decimals when written.
\<close>

section \<open>Reports\<close>

datatype clave_huella =
  Gps | Dispositivo | Serie | Autor | UltimoAutor | Empresa | Responsable | Fecha | Programa | Titulo
  | Descripcion | Derechos | Plantilla | Propiedades

record huella_doc =
  hu_clave :: clave_huella
  hu_valor :: string

definition Huella_new :: "clave_huella \<Rightarrow> string \<Rightarrow> huella_doc" where
  "Huella_new c v = \<lparr>hu_clave = c, hu_valor = v\<rparr>"

record informe =
  in_formato :: string
  in_huellas :: "huella_doc list"
  in_limpiable :: bool
  in_nota :: "string option"

definition Informe_nuevo :: "string \<Rightarrow> informe" where
  "Informe_nuevo f = \<lparr>in_formato = f, in_huellas = [], in_limpiable = False, in_nota = None\<rparr>"

definition pon_nueva :: "'a list \<Rightarrow> 'a \<Rightarrow> 'a list" where
  "pon_nueva hs h = (if h \<in> set hs then hs else hs @ [h])"

definition anade :: "huella_doc list \<Rightarrow> informe \<Rightarrow> informe" where
  "anade hs i = i\<lparr>in_huellas := foldl pon_nueva (in_huellas i) hs\<rparr>"

definition delata :: "informe \<Rightarrow> bool" where
  "delata i \<longleftrightarrow> in_huellas i \<noteq> [] \<or> in_nota i \<noteq> None"

datatype fallo_limpiar = NoSoportado | Grande | Danado

definition TAMANO_MAXIMO :: nat where "TAMANO_MAXIMO = 64 * 1024 * 1024"

lemma anade_Nil [simp]: "anade [] i = i"
  by (simp add: anade_def)

lemma Informe_nuevo_simps [simp]:
  "in_formato (Informe_nuevo f) = f" "in_huellas (Informe_nuevo f) = []"
  "in_nota (Informe_nuevo f) = None"
  by (simp_all add: Informe_nuevo_def)

section \<open>Texts\<close>

text \<open>\<open>find\<close> and \<open>position\<close>: where a pattern or an element first is.\<close>

fun busca_en :: "'a list \<Rightarrow> 'a list \<Rightarrow> nat option" where
  "busca_en a [] = (if a = [] then Some 0 else None)"
| "busca_en a (x # xs) = (if starts_with a (x # xs) then Some 0 else map_option Suc (busca_en a xs))"

fun posicion :: "('a \<Rightarrow> bool) \<Rightarrow> 'a list \<Rightarrow> nat option" where
  "posicion P [] = None"
| "posicion P (x # xs) = (if P x then Some 0 else map_option Suc (posicion P xs))"

lemma busca_en_bound: "busca_en a xs = Some i \<Longrightarrow> i + length a \<le> length xs"
  by (induction xs arbitrary: i)
    (auto simp: starts_with_def split: if_splits dest: arg_cong [where f = length])

lemma posicion_Some:
  "posicion P xs = Some i \<Longrightarrow> i < length xs \<and> P (xs ! i) \<and> (\<forall>j<i. \<not> P (xs ! j))"
proof (induction xs arbitrary: i)
  case (Cons x xs)
  show ?case
  proof (cases "P x")
    case True
    with Cons.prems show ?thesis by simp
  next
    case False
    with Cons.prems obtain k where "i = Suc k" "posicion P xs = Some k" by auto
    with Cons.IH False show ?thesis by (auto simp: nth_Cons split: nat.splits)
  qed
qed simp

text \<open>\<open>str::replace\<close>, with a pattern that is never empty.\<close>

function reemplaza :: "string \<Rightarrow> string \<Rightarrow> string \<Rightarrow> string" where
  "reemplaza a b s =
     (case s of
        [] \<Rightarrow> []
      | c # r \<Rightarrow> if a \<noteq> [] \<and> starts_with a s then b @ reemplaza a b (drop (length a) s)
                else c # reemplaza a b r)"
  by pat_completeness auto
termination by (relation "measure (\<lambda>(a, b, s). length s)") auto

declare reemplaza.simps [simp del]

definition desescapa :: "string \<Rightarrow> string" where
  "desescapa s =
     reemplaza ''&amp;'' ''&'' (reemplaza ''&apos;'' [CHR 0x27] (reemplaza ''&quot;'' [CHR 0x22]
       (reemplaza ''&gt;'' ''>'' (reemplaza ''&lt;'' ''<'' s))))"

text \<open>\<open>String::from_utf8_lossy\<close>: each longest piece that starts a character and does not finish it
  becomes one U+FFFD. \<open>utf8_trozo\<close> gives the bytes of the next piece and whether it is a character;
  past the end the code reads zeros, which continue nothing.\<close>

definition byte_char :: "byte \<Rightarrow> char" where
  "byte_char b = char_of (unat b)"

definition nth_o_cero :: "bytes \<Rightarrow> nat \<Rightarrow> byte" where
  "nth_o_cero b i = (if i < length b then b ! i else 0)"

definition utf8_trozo :: "bytes \<Rightarrow> nat \<times> bool" where
  "utf8_trozo s =
     (let a = nth_o_cero s 0; b = nth_o_cero s 1; c = nth_o_cero s 2; d = nth_o_cero s 3
      in if a < 0x80 then (1, True)
         else if 0xC2 \<le> a \<and> a \<le> 0xDF then (if cont_byte b then (2, True) else (1, False))
         else if 0xE0 \<le> a \<and> a \<le> 0xEF then
           (if \<not> (cont_byte b \<and> (a = 0xE0 \<longrightarrow> 0xA0 \<le> b) \<and> (a = 0xED \<longrightarrow> b \<le> 0x9F)) then (1, False)
            else if cont_byte c then (3, True) else (2, False))
         else if 0xF0 \<le> a \<and> a \<le> 0xF4 then
           (if \<not> (cont_byte b \<and> (a = 0xF0 \<longrightarrow> 0x90 \<le> b) \<and> (a = 0xF4 \<longrightarrow> b \<le> 0x8F)) then (1, False)
            else if \<not> cont_byte c then (2, False)
            else if cont_byte d then (4, True) else (3, False))
         else (1, False))"

function from_utf8_lossy :: "bytes \<Rightarrow> string" where
  "from_utf8_lossy s =
     (if s = [] then []
      else let (n, ok) = utf8_trozo s
           in (if ok then map byte_char (take n s) else [CHR 0xEF, CHR 0xBF, CHR 0xBD])
              @ from_utf8_lossy (drop n s))"
  by pat_completeness auto
termination
  by (relation "measure length") (auto simp: utf8_trozo_def Let_def split: if_splits)

declare from_utf8_lossy.simps [simp del]

lemma lossy_Nil [simp]: "from_utf8_lossy [] = []"
  by (simp add: from_utf8_lossy.simps)

lemma lossy_ascii [simp]: "a < 0x80 \<Longrightarrow> from_utf8_lossy (a # r) = byte_char a # from_utf8_lossy r"
  by (simp add: from_utf8_lossy.simps [of "a # r"] utf8_trozo_def nth_o_cero_def)

text \<open>A value as it can be shown.\<close>

fun sin_control :: "string \<Rightarrow> string" where
  "sin_control [] = []"
| "sin_control (c # s) =
     (if char_code c < 32 \<or> char_code c = 127 then CHR '' '' # sin_control s
      else case s of
             d # r \<Rightarrow> if c = CHR 0xC2 \<and> 128 \<le> char_code d \<and> char_code d < 160
                     then CHR '' '' # sin_control r else c # sin_control s
           | [] \<Rightarrow> [c])"

lemma ws_no_nil: "[] \<notin> set ws_forms"
  using ws_forms_first by blast

text \<open>\<open>split_whitespace\<close>: the words between white space; \<open>w\<close> is the word being read.\<close>

function palabras :: "string \<Rightarrow> string \<Rightarrow> string list" where
  "palabras w s =
     (let fin = (if w = [] then [] else [w])
      in case s of
           [] \<Rightarrow> fin
         | c # r \<Rightarrow> (case strip_any ws_forms s of
                      Some t \<Rightarrow> fin @ palabras [] t
                    | None \<Rightarrow> palabras (w @ [c]) r))"
  by pat_completeness auto
termination
  by (relation "measure (\<lambda>(w, s). length s)") (auto dest!: strip_any_shorter [OF _ ws_no_nil])

declare palabras.simps [simp del]

definition legible :: "string \<Rightarrow> string" where
  "legible s = take_chars 160 (unir CHR '' '' (palabras [] (sin_control s)))"

lemma legible_Nil [simp]: "legible [] = []"
  by (simp add: legible_def palabras.simps)

text \<open>The clean copy's name.\<close>

definition ultimo_trozo :: "string \<Rightarrow> string" where
  "ultimo_trozo s = rev (takeWhile (\<lambda>c. c \<noteq> CHR ''/'' \<and> c \<noteq> CHR 0x5C) (rev s))"

definition nombre_limpio :: "string \<Rightarrow> string" where
  "nombre_limpio nombre =
     (let nombre = ultimo_trozo nombre
      in case rsplit_once CHR ''.'' nombre of
           Some (base, ext) \<Rightarrow> if base \<noteq> [] then base @ ''-sin-huellas.'' @ ext else nombre @ ''-sin-huellas''
         | None \<Rightarrow> nombre @ ''-sin-huellas'')"

section \<open>XMP\<close>

definition valor_vacio :: "huella_doc \<Rightarrow> bool" where
  "valor_vacio h \<longleftrightarrow> hu_valor h = [] \<and> hu_clave h \<noteq> Propiedades \<and> hu_clave h \<noteq> Gps"

definition XMP_NOMBRES :: "(string \<times> clave_huella) list" where
  "XMP_NOMBRES =
     [(''xmp:CreatorTool'', Programa), (''pdf:Producer'', Programa), (''xmp:CreateDate'', Fecha),
      (''xmp:ModifyDate'', Fecha), (''photoshop:DateCreated'', Fecha), (''exif:GPSLatitude'', Gps),
      (''tiff:Model'', Dispositivo), (''exifEX:BodySerialNumber'', Serie), (''aux:SerialNumber'', Serie),
      (''pdf:Author'', Autor)]"

text \<open>The values after a pattern (never empty), each up to the first \<open>f\<close>; the search goes on there.\<close>

function xmp_valores :: "string \<Rightarrow> char \<Rightarrow> string \<Rightarrow> string list" where
  "xmp_valores patron f s =
     (case busca_en patron s of
        None \<Rightarrow> []
      | Some i \<Rightarrow>
          let t = drop (i + length patron) s
          in case posicion ((=) f) t of
               None \<Rightarrow> []
             | Some j \<Rightarrow> take j t # (if patron = [] then [] else xmp_valores patron f (drop j t)))"
  by pat_completeness auto
termination
  by (relation "measure (\<lambda>(p, f, s). length s)")
    (auto dest!: busca_en_bound posicion_Some simp flip: length_greater_0_conv)

function xmp_autores :: "string \<Rightarrow> string list" where
  "xmp_autores s =
     (case busca_en ''<rdf:li'' s of
        None \<Rightarrow> []
      | Some a \<Rightarrow>
          (let t = drop a s
           in case posicion ((=) CHR ''>'') t of
                None \<Rightarrow> []
              | Some g \<Rightarrow>
                  (let u = drop g t
                   in case posicion ((=) CHR ''<'') u of
                        None \<Rightarrow> []
                      | Some c \<Rightarrow> take (c - 1) (drop 1 u) # (if c = 0 then [] else xmp_autores (drop c u)))))"
  by pat_completeness auto
termination
  by (relation "measure length") (auto dest!: busca_en_bound posicion_Some)

declare xmp_valores.simps [simp del] xmp_autores.simps [simp del]

definition xmp_pon :: "clave_huella \<Rightarrow> huella_doc list \<Rightarrow> string \<Rightarrow> huella_doc list" where
  "xmp_pon c v t =
     (let h = Huella_new c (legible (desescapa t))
      in if valor_vacio h then v else pon_nueva v h)"

definition xmp_huellas :: "bytes \<Rightarrow> huella_doc list" where
  "xmp_huellas b =
     (let x = from_utf8_lossy b;
          v = foldl (\<lambda>v (n, c).
                foldl (xmp_pon c) (foldl (xmp_pon c) v (xmp_valores (n @ [CHR ''='', CHR 0x22]) CHR 0x22 x))
                  (xmp_valores (''<'' @ n @ ''>'') CHR ''<'' x)) [] XMP_NOMBRES
      in case busca_en ''<dc:creator'' x of
           None \<Rightarrow> v
         | Some i \<Rightarrow>
             (case busca_en ''</dc:creator>'' (drop i x) of
                None \<Rightarrow> v
              | Some f \<Rightarrow> foldl (xmp_pon Autor) v (xmp_autores (take f (drop i x)))))"

end
