(* ===== verification/Exif.thy ===== *)
theory Exif imports Huellas begin

text \<open>
  The EXIF block, \<open>crates/core/src/huellas/exif.rs\<close>: a small TIFF with directories of twelve-byte
  entries. An offset of the file is a natural number: it comes from 32 bits and what is added to
  it is small, so a 64-bit \<open>usize\<close> does not wrap. Reading past the end gives nothing, as \<open>get\<close> does.
\<close>

section \<open>Numbers of the block\<close>

record tiff =
  ti_d :: bytes
  ti_be :: bool

definition u16_de :: "bool \<Rightarrow> byte \<Rightarrow> byte \<Rightarrow> nat" where
  "u16_de be a b = (if be then from_be [a, b] else from_le [a, b])"

definition tiff_u16 :: "tiff \<Rightarrow> nat \<Rightarrow> nat option" where
  "tiff_u16 t p = do { a \<leftarrow> get_at (ti_d t) p; b \<leftarrow> get_at (ti_d t) (p + 1); Some (u16_de (ti_be t) a b) }"

definition tiff_u32 :: "tiff \<Rightarrow> nat \<Rightarrow> nat option" where
  "tiff_u32 t p = do {
     a \<leftarrow> get_at (ti_d t) p; b \<leftarrow> get_at (ti_d t) (p + 1);
     c \<leftarrow> get_at (ti_d t) (p + 2); d \<leftarrow> get_at (ti_d t) (p + 3);
     Some (if ti_be t then from_be [a, b, c, d] else from_le [a, b, c, d]) }"

text \<open>The bytes of one value of each type; \<open>None\<close> for a type the code skips.\<close>

definition ancho_de :: "nat \<Rightarrow> nat option" where
  "ancho_de tipo =
     (if tipo \<in> {1, 2, 6, 7} then Some 1
      else if tipo \<in> {3, 8} then Some 2
      else if tipo \<in> {4, 9, 11} then Some 4
      else if tipo \<in> {5, 10, 12} then Some 8
      else None)"

text \<open>An entry: tag, type, count, where the value is.\<close>

type_synonym campo_exif = "nat \<times> nat \<times> nat \<times> nat"

fun ifd_bucle :: "tiff \<Rightarrow> nat \<Rightarrow> nat list \<Rightarrow> campo_exif list" where
  "ifd_bucle t p [] = []"
| "ifd_bucle t p (i # is) =
     (let e = p + 2 + i * 12
      in case (tiff_u16 t e, tiff_u16 t (e + 2), tiff_u32 t (e + 4)) of
           (Some tag, Some tipo, Some cuenta) \<Rightarrow>
             (case ancho_de tipo of
                None \<Rightarrow> ifd_bucle t p is
              | Some w \<Rightarrow>
                  if cuenta * w \<le> 4 then (tag, tipo, cuenta, e + 8) # ifd_bucle t p is
                  else (case tiff_u32 t (e + 8) of
                          Some v \<Rightarrow> (tag, tipo, cuenta, v) # ifd_bucle t p is
                        | None \<Rightarrow> ifd_bucle t p is))
         | _ \<Rightarrow> [])"

definition ifd :: "tiff \<Rightarrow> nat \<Rightarrow> campo_exif list" where
  "ifd t p = (case tiff_u16 t p of None \<Rightarrow> [] | Some n \<Rightarrow> ifd_bucle t p [0..<min n 512])"

definition tiff_texto :: "tiff \<Rightarrow> nat \<Rightarrow> nat \<Rightarrow> string option" where
  "tiff_texto t cuenta p = do {
     b \<leftarrow> get_range (ti_d t) p (p + min cuenta 4096);
     let s = legible (from_utf8_lossy (takeWhile (\<lambda>c. c \<noteq> 0) b));
     if s \<noteq> [] then Some s else None }"

section \<open>Positions\<close>

text \<open>A fraction of two naturals, the second one not zero.\<close>

type_synonym fraccion = "nat \<times> nat"

definition racional :: "tiff \<Rightarrow> nat \<Rightarrow> fraccion option" where
  "racional t p = do {
     n \<leftarrow> tiff_u32 t p;
     d \<leftarrow> tiff_u32 t (p + 4);
     if d \<noteq> 0 then Some (n, d) else None }"

definition o_cero :: "fraccion option \<Rightarrow> fraccion" where
  "o_cero x = (case x of None \<Rightarrow> (0, 1) | Some f \<Rightarrow> f)"

text \<open>Degrees, minutes over 60 and seconds over 3600, when that is at most 180.\<close>

definition grados :: "tiff \<Rightarrow> nat \<Rightarrow> fraccion option" where
  "grados t v = do {
     (gn, gd) \<leftarrow> racional t v;
     let (mn, md) = o_cero (racional t (v + 8));
     let (sn, sd) = o_cero (racional t (v + 16));
     let x = (gn * md * sd * 3600 + mn * gd * sd * 60 + sn * gd * md, gd * md * sd * 3600);
     if fst x \<le> 180 * snd x then Some x else None }"

text \<open>\<open>{:.5}\<close>: five decimals, a half to the even one.\<close>

definition cinco_decimales :: "bool \<Rightarrow> fraccion \<Rightarrow> string" where
  "cinco_decimales negativo x =
     (let q = fst x * 100000 div snd x;
          r = fst x * 100000 mod snd x;
          n = (if 2 * r > snd x \<or> 2 * r = snd x \<and> odd q then q + 1 else q)
      in (if negativo then ''-'' else '''') @ decimal (n div 100000) @ ''.'' @ digits 5 (n mod 100000))"

section \<open>The block\<close>

record exif_t =
  ex_huellas :: "huella_doc list"
  ex_orientacion :: "nat option"

definition exif_vacio :: exif_t where
  "exif_vacio = \<lparr>ex_huellas = [], ex_orientacion = None\<rparr>"

definition exif_anade :: "clave_huella \<Rightarrow> string option \<Rightarrow> exif_t \<Rightarrow> exif_t" where
  "exif_anade c valor out =
     (case valor of None \<Rightarrow> out
      | Some v \<Rightarrow> out\<lparr>ex_huellas := pon_nueva (ex_huellas out) (Huella_new c v)\<rparr>)"

record lectura_exif =
  le_out :: exif_t
  le_marca :: string
  le_modelo :: string
  le_exif :: "nat option"
  le_gps :: "nat option"

definition o_nada :: "string option \<Rightarrow> string" where
  "o_nada x = (case x of None \<Rightarrow> [] | Some s \<Rightarrow> s)"

definition ifd0_campo :: "tiff \<Rightarrow> lectura_exif \<Rightarrow> campo_exif \<Rightarrow> lectura_exif" where
  "ifd0_campo t l c =
     (case c of (tag, tipo, cuenta, v) \<Rightarrow>
        let pon = (\<lambda>k. l\<lparr>le_out := exif_anade k (tiff_texto t cuenta v) (le_out l)\<rparr>)
        in if (tag, tipo) = (0x010f, 2) then l\<lparr>le_marca := o_nada (tiff_texto t cuenta v)\<rparr>
           else if (tag, tipo) = (0x0110, 2) then l\<lparr>le_modelo := o_nada (tiff_texto t cuenta v)\<rparr>
           else if (tag, tipo) = (0x0131, 2) then pon Programa
           else if (tag, tipo) = (0x0132, 2) then pon Fecha
           else if (tag, tipo) = (0x013b, 2) then pon Autor
           else if (tag, tipo) = (0x8298, 2) then pon Derechos
           else if (tag, tipo) = (0x010e, 2) then pon Descripcion
           else if (tag, tipo) = (0x0112, 3) then
             l\<lparr>le_out := (le_out l)\<lparr>ex_orientacion :=
                case tiff_u16 t v of Some r \<Rightarrow> if 1 \<le> r \<and> r \<le> 8 then Some r else None | None \<Rightarrow> None\<rparr>\<rparr>
           else if (tag, tipo) = (0x8769, 4) then l\<lparr>le_exif := tiff_u32 t v\<rparr>
           else if (tag, tipo) = (0x8825, 4) then l\<lparr>le_gps := tiff_u32 t v\<rparr>
           else l)"

definition exif_campo :: "tiff \<Rightarrow> exif_t \<Rightarrow> campo_exif \<Rightarrow> exif_t" where
  "exif_campo t out c =
     (case c of (tag, tipo, cuenta, v) \<Rightarrow>
        let pon = (\<lambda>k. exif_anade k (tiff_texto t cuenta v) out)
        in if (tag, tipo) = (0x9003, 2) then pon Fecha
           else if (tag, tipo) = (0xa430, 2) then pon Autor
           else if (tag, tipo) = (0xa431, 2) then pon Serie
           else if (tag, tipo) = (0xa434, 2) then pon Dispositivo
           else out)"

record lectura_gps =
  lg_lat :: "fraccion option"
  lg_lon :: "fraccion option"
  lg_lat_ref :: byte
  lg_lon_ref :: byte

definition gps_campo :: "tiff \<Rightarrow> lectura_gps \<Rightarrow> campo_exif \<Rightarrow> lectura_gps" where
  "gps_campo t g c =
     (case c of (tag, tipo, cuenta, v) \<Rightarrow>
        let letra = (\<lambda>d. case get_at (ti_d t) v of None \<Rightarrow> d | Some b \<Rightarrow> b)
        in if (tag, tipo) = (1, 2) then g\<lparr>lg_lat_ref := letra (of_char CHR ''N'')\<rparr>
           else if (tag, tipo) = (3, 2) then g\<lparr>lg_lon_ref := letra (of_char CHR ''E'')\<rparr>
           else if (tag, tipo) = (2, 5) \<and> 3 \<le> cuenta then g\<lparr>lg_lat := grados t v\<rparr>
           else if (tag, tipo) = (4, 5) \<and> 3 \<le> cuenta then g\<lparr>lg_lon := grados t v\<rparr>
           else g)"

definition gps_valor :: "tiff \<Rightarrow> nat \<Rightarrow> string" where
  "gps_valor t p =
     (let g = foldl (gps_campo t)
                \<lparr>lg_lat = None, lg_lon = None, lg_lat_ref = of_char CHR ''N'', lg_lon_ref = of_char CHR ''E''\<rparr>
                (ifd t p)
      in case (lg_lat g, lg_lon g) of
           (Some la, Some lo) \<Rightarrow>
             cinco_decimales (lg_lat_ref g = of_char CHR ''S'') la @ '', ''
             @ cinco_decimales (lg_lon_ref g = of_char CHR ''W'') lo
         | _ \<Rightarrow> [])"

definition exif_inicio :: "tiff \<Rightarrow> nat \<Rightarrow> lectura_exif" where
  "exif_inicio t p =
     foldl (ifd0_campo t) \<lparr>le_out = exif_vacio, le_marca = [], le_modelo = [], le_exif = None, le_gps = None\<rparr> (ifd t p)"

definition exif_dispositivo :: "(string \<Rightarrow> string) \<Rightarrow> lectura_exif \<Rightarrow> exif_t" where
  "exif_dispositivo lower l =
     (let dispositivo = (if starts_with (lower (le_marca l)) (lower (le_modelo l)) then le_modelo l
                         else trim (le_marca l @ '' '' @ le_modelo l))
      in if dispositivo \<noteq> []
         then (le_out l)\<lparr>ex_huellas := ex_huellas (le_out l) @ [Huella_new Dispositivo dispositivo]\<rparr>
         else le_out l)"

definition exif_exif :: "tiff \<Rightarrow> lectura_exif \<Rightarrow> exif_t \<Rightarrow> exif_t" where
  "exif_exif t l out = (case le_exif l of None \<Rightarrow> out | Some p \<Rightarrow> foldl (exif_campo t) out (ifd t p))"

definition exif_gps :: "tiff \<Rightarrow> lectura_exif \<Rightarrow> exif_t \<Rightarrow> exif_t" where
  "exif_gps t l out =
     (case le_gps l of
        None \<Rightarrow> out
      | Some p \<Rightarrow> out\<lparr>ex_huellas := Huella_new Gps (gps_valor t p) # ex_huellas out\<rparr>)"

definition exif_lee :: "(string \<Rightarrow> string) \<Rightarrow> bytes \<Rightarrow> exif_t" where
  "exif_lee lower d =
     (let cab = get_range d 0 4
      in if cab \<noteq> Some (str_bytes [CHR ''M'', CHR ''M'', CHR 0x00, CHR ''*''])
            \<and> cab \<noteq> Some (str_bytes [CHR ''I'', CHR ''I'', CHR ''*'', CHR 0x00]) then exif_vacio
         else
           (let t = \<lparr>ti_d = d, ti_be = (cab = Some (str_bytes [CHR ''M'', CHR ''M'', CHR 0x00, CHR ''*'']))\<rparr>
            in case tiff_u32 t 4 of
                 None \<Rightarrow> exif_vacio
               | Some ifd0 \<Rightarrow>
                   (let l = exif_inicio t ifd0 in exif_gps t l (exif_exif t l (exif_dispositivo lower l)))))"

definition solo_orientacion :: "nat \<Rightarrow> bytes" where
  "solo_orientacion r =
     str_bytes ''MM'' @ [0, 0x2a, 0, 0, 0, 8] @ be_bytes 2 1 @ be_bytes 2 0x0112 @ be_bytes 2 3
     @ be_bytes 4 1 @ be_bytes 2 r @ [0, 0] @ be_bytes 4 0"

definition EXIF_VACIO :: bytes where
  "EXIF_VACIO = str_bytes ''MM'' @ [0, 0x2a, 0, 0, 0, 8, 0, 0, 0, 0, 0, 0]"

section \<open>What the clean copies carry\<close>

lemma length_solo_orientacion [simp]: "length (solo_orientacion r) = 26"
  by (simp add: solo_orientacion_def str_bytes_def)

lemma u16_de_be: "u16_de True a b = unat a * 256 + unat b"
  by (simp add: u16_de_def from_be_def)

lemma be_bytes_2: "be_bytes 2 n = [of_nat (n div 256), of_nat n]"
  by (simp only: numeral_2_eq_2 be_bytes.simps append_Nil append_Cons)

lemma be_bytes_4:
  "be_bytes 4 n = [of_nat (n div 256 div 256 div 256), of_nat (n div 256 div 256), of_nat (n div 256), of_nat n]"
proof -
  have "4 = Suc (Suc (Suc (Suc 0)))" by simp
  then show ?thesis by (simp only: be_bytes.simps append_Nil append_Cons)
qed

lemma solo_orientacion_lista:
  "solo_orientacion r =
     [0x4d, 0x4d, 0, 0x2a, 0, 0, 0, 8, 0, 1, 1, 0x12, 0, 3, 0, 0, 0, 1, of_nat (r div 256), of_nat r, 0, 0, 0, 0, 0, 0]"
  by (simp add: solo_orientacion_def str_bytes_def be_bytes_2 be_bytes_4)

lemma starts_with_self [simp]: "starts_with s s"
  by (simp add: starts_with_iff)

lemma solo_orientacion_dice:
  assumes "1 \<le> r" "r \<le> 8"
  shows "exif_lee lower (solo_orientacion r) = \<lparr>ex_huellas = [], ex_orientacion = Some r\<rparr>"
proof -
  have r: "r div 256 = 0" "Suc 0 \<le> r" "unat (of_nat r :: byte) = r" using assms by (simp_all add: unat_of_nat)
  show ?thesis
    unfolding solo_orientacion_lista exif_lee_def
    by (simp add: r assms Let_def get_range_def str_bytes_def tiff_u32_def tiff_u16_def get_at_def
        u16_de_be from_be_def ifd_def ancho_de_def ifd0_campo_def exif_vacio_def
        exif_inicio_def exif_dispositivo_def exif_exif_def exif_gps_def)
qed

lemma exif_vacio_no_dice: "exif_lee lower EXIF_VACIO = exif_vacio"
  unfolding EXIF_VACIO_def exif_lee_def
  by (simp add: Let_def get_range_def str_bytes_def tiff_u32_def tiff_u16_def get_at_def
      u16_de_be from_be_def ifd_def ancho_de_def ifd0_campo_def exif_vacio_def
        exif_inicio_def exif_dispositivo_def exif_exif_def exif_gps_def)

text \<open>An orientation read is one of the eight.\<close>

definition orientacion_ok :: "exif_t \<Rightarrow> bool" where
  "orientacion_ok out \<longleftrightarrow> (\<forall>r. ex_orientacion out = Some r \<longrightarrow> 1 \<le> r \<and> r \<le> 8)"

lemma exif_anade_orientacion [simp]: "ex_orientacion (exif_anade c v out) = ex_orientacion out"
  by (simp add: exif_anade_def split: option.splits)

lemma ifd0_campo_orientacion: "orientacion_ok (le_out l) \<Longrightarrow> orientacion_ok (le_out (ifd0_campo t l c))"
  by (cases c) (simp add: ifd0_campo_def orientacion_ok_def Let_def split: option.splits)

lemma exif_campo_orientacion: "orientacion_ok out \<Longrightarrow> orientacion_ok (exif_campo t out c)"
  by (cases c) (simp add: exif_campo_def orientacion_ok_def Let_def)

lemma exif_lee_orientacion: "orientacion_ok (exif_lee lower d)"
proof -
  have vacio: "orientacion_ok exif_vacio" by (simp add: orientacion_ok_def exif_vacio_def)
  have h: "orientacion_ok (out\<lparr>ex_huellas := hs\<rparr>) = orientacion_ok out" for out hs
    by (simp add: orientacion_ok_def)
  have l: "orientacion_ok (le_out (exif_inicio t p))" for t p
    unfolding exif_inicio_def
    by (rule foldl_inv [where P = "\<lambda>l. orientacion_ok (le_out l)"]) (simp_all add: vacio ifd0_campo_orientacion)
  have d: "orientacion_ok (exif_dispositivo lower (exif_inicio t p))" for t p
    using l by (simp add: exif_dispositivo_def h Let_def)
  have e: "orientacion_ok (exif_exif t l out)" if "orientacion_ok out" for t l out
    unfolding exif_exif_def
    by (cases "le_exif l") (simp_all add: that foldl_inv [where P = orientacion_ok] exif_campo_orientacion)
  have g: "orientacion_ok (exif_gps t l out)" if "orientacion_ok out" for t l out
    using that by (simp add: exif_gps_def h split: option.splits)
  show ?thesis
    using g [OF e [OF d]] vacio by (simp add: exif_lee_def Let_def split: option.splits)
qed

end
