(* ===== verification/Huellas_Foto_Facts.thy ===== *)
theory Huellas_Foto_Facts imports Huellas_Foto begin

text \<open>
  The clean copies of \<open>png.rs\<close> and \<open>jpeg.rs\<close> are cut back in the pieces that were kept.
\<close>

section \<open>PNG\<close>

definition trozos_limpios :: "trozo list \<Rightarrow> trozo list" where
  "trozos_limpios v = filter (\<lambda>(tipo, t). \<not> se_quita_png tipo) v"

lemma limpia_png_concat:
  "limpia_png d = map_option (\<lambda>v. FIRMA_PNG @ concat (map snd (trozos_limpios v))) (trozos_png d)"
proof -
  have "foldl (\<lambda>out (tipo, t). if \<not> se_quita_png tipo then out @ t else out) a v =
      a @ concat (map snd (trozos_limpios v))" for a v
    by (induction v arbitrary: a) (auto simp: trozos_limpios_def)
  then show ?thesis by (simp add: limpia_png_def map_conv_bind_option comp_def)
qed

lemma trozos_bucle_SomeD:
  assumes "trozos_bucle d p = Some v" "p < length d"
  obtains t w where "get_range d p (p + 12 + from_be (take 4 t)) = Some t"
    "length t = 12 + from_be (take 4 t)" "v = (take 4 (drop 4 t), t) # w"
    "if take 4 (drop 4 t) = IEND then w = [] else trozos_bucle d (p + length t) = Some w"
proof -
  from assms obtain n tipo t where r:
    "get_range d p (p + 4) = Some n" "get_range d (p + 4) (p + 8) = Some tipo"
    "get_range d p (p + 12 + from_be n) = Some t"
    "if tipo = IEND then v = [(tipo, t)] else \<exists>w. trozos_bucle d (p + 12 + from_be n) = Some w \<and> v = (tipo, t) # w"
    by (subst (asm) trozos_bucle.simps) (auto simp: bind_eq_Some_conv split: if_splits)
  from get_range_length [OF r(3)] have len: "length t = 12 + from_be n" by simp
  have "get_range d (p + 0) (p + 4) = get_range t 0 4" "get_range d (p + 4) (p + 8) = get_range t 4 8"
    by (rule get_range_sub [OF r(3)], simp add: len)+
  moreover have "8 \<le> length t" using len by simp
  ultimately have parts: "n = take 4 t" "tipo = take 4 (drop 4 t)" using r(1,2) by (simp_all add: get_range_def)
  show ?thesis
  proof (rule that [of t "tl v"])
    show "get_range d p (p + 12 + from_be (take 4 t)) = Some t" using r(3) by (simp only: parts)
    show "length t = 12 + from_be (take 4 t)" using len by (simp only: parts)
    from r(4) show "v = (take 4 (drop 4 t), t) # tl v"
      by (cases "tipo = IEND") (auto simp only: parts list.sel if_True if_False)
    have "p + 12 + from_be n = p + length t" using len by simp
    with r(4) show "if take 4 (drop 4 t) = IEND then tl v = [] else trozos_bucle d (p + length t) = Some (tl v)"
      by (cases "tipo = IEND") (auto simp only: parts list.sel refl if_True if_False)
  qed
qed

lemma trozos_bucle_pon:
  assumes "length t = 12 + from_be (take 4 t)"
  shows "trozos_bucle (pre @ t @ post) (length pre) =
    (if take 4 (drop 4 t) = IEND then Some [(IEND, t)]
     else map_option (\<lambda>v. (take 4 (drop 4 t), t) # v) (trozos_bucle (pre @ t @ post) (length (pre @ t))))"
proof -
  have g: "get_range (pre @ t @ post) (length pre + a) (length pre + b) = get_range t a b" if "b \<le> length t" for a b
    by (rule get_range_mid [OF that])
  let ?d = "pre @ t @ post"
  have l: "12 \<le> length t" using assms by (metis le_add1)
  have e1: "get_range ?d (length pre) (length pre + 4) = Some (take 4 t)"
    using g [of 4 0] l by (simp add: get_range_def)
  have e2: "get_range ?d (length pre + 4) (length pre + 8) = Some (take 4 (drop 4 t))"
    using g [of 8 4] l by (simp add: get_range_def)
  have e3: "get_range ?d (length pre) (length pre + 12 + from_be (take 4 t)) = Some t"
    using g [of "length t" 0] by (simp add: get_range_def assms [symmetric])
  have e4: "length pre + 12 + from_be (take 4 t) = length (pre @ t)" by (simp only: assms length_append add.assoc)
  have "length pre < length ?d" using l by (cases t) simp_all
  then show ?thesis
    by (simp only: comp_def trozos_bucle.simps [of ?d "length pre"] e1 e2 e3 [unfolded e4] e4 if_True bind.bind_lunit map_conv_bind_option)
      (cases "take 4 (drop 4 t) = IEND"; simp only: refl if_True if_False)
qed

lemma trozos_bucle_limpio:
  "trozos_bucle d p = Some v \<Longrightarrow>
   trozos_bucle (pre @ concat (map snd (trozos_limpios v))) (length pre) = Some (trozos_limpios v)"
proof (induction "length d - p" arbitrary: p v pre rule: less_induct)
  case less
  show ?case
  proof (cases "p < length d")
    case False
    with less.prems have "v = []" by (subst (asm) trozos_bucle.simps) simp
    then show ?thesis by (simp add: trozos_limpios_def trozos_bucle.simps)
  next
    case True
    from trozos_bucle_SomeD [OF less.prems True] obtain t w where
      len: "length t = 12 + from_be (take 4 t)" and v: "v = (take 4 (drop 4 t), t) # w"
      and rest: "if take 4 (drop 4 t) = IEND then w = [] else trozos_bucle d (p + length t) = Some w" .
    have keep: "\<not> se_quita_png IEND" by (simp add: se_quita_png_def IEND_def str_bytes_def)
    have next': "trozos_bucle (q @ concat (map snd (trozos_limpios w))) (length q) = Some (trozos_limpios w)"
      if "take 4 (drop 4 t) \<noteq> IEND" for q
    proof (rule less.hyps)
      have "0 < length t" using len by (metis add_pos_nonneg zero_le zero_less_numeral)
      with True show "length d - (p + length t) < length d - p" by linarith
      from rest that show "trozos_bucle d (p + length t) = Some w" by (simp only: if_False)
    qed
    show ?thesis
    proof (cases "take 4 (drop 4 t) = IEND")
      case True
      with rest v keep show ?thesis
        using trozos_bucle_pon [OF len, of pre "[]"] by (simp add: trozos_limpios_def)
    next
      case False
      show ?thesis
      proof (cases "se_quita_png (take 4 (drop 4 t))")
        case True
        with v have "trozos_limpios v = trozos_limpios w" by (simp add: trozos_limpios_def)
        with next' [OF False, of pre] show ?thesis by simp
      next
        case keep: False
        with v have vw: "trozos_limpios v = (take 4 (drop 4 t), t) # trozos_limpios w" by (simp add: trozos_limpios_def)
        show ?thesis
          using trozos_bucle_pon [OF len, of pre "concat (map snd (trozos_limpios w))"]
            next' [OF False, of "pre @ t"] False by (simp add: vw)
      qed
    qed
  qed
qed

lemma trozos_limpio:
  assumes "trozos_png d = Some v" "limpia_png d = Some out"
  shows "trozos_png out = Some (trozos_limpios v)"
proof -
  from assms(1) have b: "trozos_bucle d 8 = Some v"
    by (auto simp: trozos_png_def bind_eq_Some_conv split: if_splits)
  have out: "out = FIRMA_PNG @ concat (map snd (trozos_limpios v))"
    using assms by (simp add: limpia_png_concat)
  have "length FIRMA_PNG = 8" by (simp add: FIRMA_PNG_def)
  with trozos_bucle_limpio [OF b, of FIRMA_PNG] show ?thesis
    by (simp add: trozos_png_def out get_range_def)
qed

lemma trozos_limpios_idem [simp]: "trozos_limpios (trozos_limpios v) = trozos_limpios v"
  by (simp add: trozos_limpios_def)

lemma mira_trozo_limpio: "(tipo, t) \<in> set (trozos_limpios v) \<Longrightarrow> mira_trozo lower i (tipo, t) = i"
  by (simp add: trozos_limpios_def mira_trozo_def se_quita_png_def)

lemma foldl_nada: "(\<And>x. x \<in> set xs \<Longrightarrow> f a x = a) \<Longrightarrow> foldl f a xs = a"
  by (induction xs) auto

lemma mira_png_limpio:
  assumes "trozos_png d = Some (trozos_limpios v)"
  shows "mira_png lower d = Some (Informe_nuevo ''png'' \<lparr>in_limpiable := True\<rparr>)"
proof -
  have "foldl (mira_trozo lower) (Informe_nuevo ''png'') (trozos_limpios v) = Informe_nuevo ''png''"
    by (rule foldl_nada) (auto intro: mira_trozo_limpio)
  with assms show ?thesis by (simp add: mira_png_def)
qed

lemma limpia_png_idem:
  assumes "limpia_png d = Some out"
  shows "limpia_png out = Some out"
proof -
  from assms obtain v where v: "trozos_png d = Some v" by (auto simp: limpia_png_concat)
  with trozos_limpio [OF v assms] assms show ?thesis by (auto simp: limpia_png_concat)
qed

section \<open>JPEG\<close>

text \<open>A segment as the code reads it, with nothing said of the bytes around it. A scan is followed
  by a marker, whose first byte is 0xFF: \<open>barrido_ok\<close> says that no byte before is the end of it.\<close>

definition barrido_ok :: "nat \<Rightarrow> bytes \<Rightarrow> bool" where
  "barrido_ok n s \<longleftrightarrow> n \<le> length s \<and>
     (\<forall>i. n \<le> i \<and> i < length s \<and> s ! i = 0xff \<longrightarrow> \<not> acaba_barrido ((s @ [0xff]) ! Suc i))"

definition segmento_ok :: "segmento \<Rightarrow> bool" where
  "segmento_ok x \<longleftrightarrow>
     (case x of (m, s) \<Rightarrow>
        2 \<le> length s \<and> s ! 0 = 0xff \<and> s ! 1 = m \<and> m \<noteq> 0xff \<and> m \<noteq> 0xd9 \<and>
        (if es_reinicio m \<or> m = 0x01 then length s = 2
         else 4 \<le> length s \<and> 2 \<le> from_be [s ! 2, s ! 3] \<and>
              (if m = 0xda then barrido_ok (2 + from_be [s ! 2, s ! 3]) s
               else length s = 2 + from_be [s ! 2, s ! 3])))"

text \<open>A marker that ends a scan.\<close>

definition cierra_barrido :: "segmento \<Rightarrow> bool" where
  "cierra_barrido x \<longleftrightarrow> acaba_barrido (fst x)"

lemma salta_relleno_Some:
  "salta_relleno d p = Some q \<Longrightarrow> q < length d \<and> (d ! q = 0xff \<longrightarrow> Suc q < length d \<and> d ! Suc q \<noteq> 0xff)"
proof (induction d p rule: salta_relleno.induct)
  case (1 d p)
  note step = "1.prems" [unfolded salta_relleno.simps [of d p]]
  from step "1.IH" show ?case
    by (auto simp: bind_eq_Some_conv split: if_splits)
qed

lemma fin_barrido_step:
  "fin_barrido d p =
     (if p < length d then
        if d ! p = 0xff then
          if Suc p < length d then if acaba_barrido (d ! Suc p) then Some p else fin_barrido d (Suc p) else None
        else fin_barrido d (Suc p)
      else None)"
  by (subst fin_barrido.simps) (simp add: get_at_def)

lemma fin_barrido_iff:
  "fin_barrido d p = Some q \<longleftrightarrow>
     p \<le> q \<and> Suc q < length d \<and> d ! q = 0xff \<and> acaba_barrido (d ! Suc q) \<and>
     (\<forall>i. p \<le> i \<and> i < q \<and> d ! i = 0xff \<longrightarrow> \<not> acaba_barrido (d ! Suc i))"
    (is "?l d p \<longleftrightarrow> ?r d p")
proof (induction d p rule: fin_barrido.induct)
  case (1 d p)
  show ?case
  proof (cases "p < length d \<and> d ! p = 0xff \<and> Suc p < length d \<and> acaba_barrido (d ! Suc p)")
    case True
    then have "?l d p \<longleftrightarrow> q = p" by (auto simp: fin_barrido_step [of d p])
    also have "\<dots> \<longleftrightarrow> ?r d p" using True by (metis le_neq_implies_less le_refl not_less)
    finally show ?thesis .
  next
    case stop: False
    show ?thesis
    proof (cases "p < length d \<and> (d ! p = 0xff \<longrightarrow> Suc p < length d)")
      case True
      then have "?l d p \<longleftrightarrow> ?l d (Suc p)" using stop by (simp add: fin_barrido_step [of d p])
      also have "\<dots> \<longleftrightarrow> ?r d (Suc p)" using True stop "1.IH" by auto
      also have "\<dots> \<longleftrightarrow> ?r d p"
      proof
        assume r: "?r d (Suc p)"
        have "\<not> acaba_barrido (d ! Suc i)" if i: "p \<le> i" "i < q" "d ! i = 0xff" for i
          using r i stop True by (cases "i = p") auto
        with r show "?r d p" by auto
      next
        assume r: "?r d p"
        with stop have "q \<noteq> p" by auto
        with r show "?r d (Suc p)" by auto
      qed
      finally show ?thesis .
    next
      case False
      then have "\<not> ?l d p" by (auto simp: fin_barrido_step [of d p])
      moreover have "\<not> ?r d p" using False by auto
      ultimately show ?thesis by blast
    qed
  qed
qed

lemma segmentos_bucle_step:
  assumes "segmentos_bucle d p0 = Some v"
  obtains p m where "p0 \<le> p" "d ! p = 0xff" "Suc p < length d" "m = d ! Suc p" "m \<noteq> 0xff"
    "if m = 0xd9 then v = [] else \<exists>fin s w. fin_segmento d p m = Some fin \<and> get_range d p fin = Some s
       \<and> segmentos_bucle d fin = Some w \<and> v = (m, s) # w"
proof -
  from assms [unfolded segmentos_bucle.simps [of d p0] bind_eq_Some_conv] obtain p a where
    s1: "salta_relleno d p0 = Some p" "get_at d p = Some a" and
    s2: "(if a \<noteq> 0xff then None else do {
            m \<leftarrow> get_at d (p + 1);
            if m = 0xd9 then Some []
            else do { fin \<leftarrow> fin_segmento d p m; s \<leftarrow> get_range d p fin; v \<leftarrow> segmentos_bucle d fin; Some ((m, s) # v) } })
          = Some v"
    by blast
  then have a: "a = 0xff" by (cases "a = 0xff") simp_all
  from s2 [unfolded a] obtain m where m: "get_at d (p + 1) = Some m" and
    s3: "(if m = 0xd9 then Some []
          else do { fin \<leftarrow> fin_segmento d p m; s \<leftarrow> get_range d p fin; v \<leftarrow> segmentos_bucle d fin; Some ((m, s) # v) })
         = Some v"
    by (auto simp only: bind_eq_Some_conv refl not_True_eq_False if_False)
  have p: "salta_relleno d p0 = Some p" "d ! p = 0xff" "Suc p < length d"
    "if d ! Suc p = 0xd9 then v = [] else \<exists>fin s w. fin_segmento d p (d ! Suc p) = Some fin \<and>
       get_range d p fin = Some s \<and> segmentos_bucle d fin = Some w \<and> v = (d ! Suc p, s) # w"
    using s1 s3 m a by (auto simp: bind_eq_Some_conv simp del: get_range_Some split: if_splits)
  from salta_relleno_Some [OF p(1)] p(2) have "d ! Suc p \<noteq> 0xff" by blast
  with p salta_relleno_ge [OF p(1)] show ?thesis by (intro that [of p "d ! Suc p"]) auto
qed

text \<open>What a segment read is, whatever follows it.\<close>

lemma segmento_leido_ok:
  assumes "fin_segmento d p m = Some fin" "get_range d p fin = Some s"
    "d ! p = 0xff" "m = d ! Suc p" "m \<noteq> 0xff" "m \<noteq> 0xd9"
  shows "segmento_ok (m, s)"
proof -
  have fin: "p + 2 \<le> fin" by (rule fin_segmento_ge [OF assms(1)])
  have r: "fin \<le> length d" "s = take (fin - p) (drop p d)" using assms(2) by auto
  have nth: "s ! i = d ! (p + i)" if "i < fin - p" for i using that r by simp
  have len: "length s = fin - p" using r fin by simp
  have cab: "s ! 0 = 0xff" "s ! 1 = m" using nth [of 0] nth [of 1] fin assms(3,4) by simp_all
  show ?thesis
  proof (cases "es_reinicio m \<or> m = 0x01")
    case True
    with assms(1) have "fin = p + 2" by (simp add: fin_segmento_def)
    with True len cab assms(5,6) show ?thesis by (simp add: segmento_ok_def)
  next
    case False
    define n where "n = from_be [d ! (p + 2), d ! (p + 3)]"
    from False assms(1) have n: "2 \<le> n" "if m = 0xda then fin_barrido d (p + 2 + n) = Some fin else fin = p + 2 + n"
      by (auto simp: fin_segmento_def n_def Let_def bind_eq_Some_conv split: if_splits)
    have fin4: "p + 2 + n \<le> fin" using n(2) fin_barrido_ge by (cases "m = 0xda") auto
    have sn: "from_be [s ! 2, s ! 3] = n" using nth [of 2] nth [of 3] fin4 n(1) by (simp add: n_def)
    have "barrido_ok (2 + n) s" if "m = 0xda"
    proof -
      from n(2) that have b: "Suc fin < length d" "d ! fin = 0xff"
        "\<And>i. p + 2 + n \<le> i \<Longrightarrow> i < fin \<Longrightarrow> d ! i = 0xff \<Longrightarrow> \<not> acaba_barrido (d ! Suc i)"
        by (simp_all add: fin_barrido_iff)
      have "\<not> acaba_barrido ((s @ [0xff]) ! Suc i)" if i: "2 + n \<le> i" "i < length s" "s ! i = 0xff" for i
      proof -
        have "(s @ [0xff]) ! Suc i = d ! Suc (p + i)"
        proof (cases "Suc i = length s")
          case True
          with len fin have "Suc (p + i) = fin" by linarith
          with True b(2) show ?thesis by (simp add: nth_append)
        next
          case False
          with i(2) len nth [of "Suc i"] show ?thesis by (simp add: nth_append)
        qed
        with b(3) [of "p + i"] i nth [of i] len show ?thesis by simp
      qed
      then show ?thesis using fin4 len by (auto simp: barrido_ok_def)
    qed
    with False n sn fin4 len cab assms(5,6) show ?thesis by (auto simp: segmento_ok_def)
  qed
qed

lemma segmentos_leidos_ok:
  "segmentos_bucle d p = Some v \<Longrightarrow> \<forall>x \<in> set v. segmento_ok x"
proof (induction "length d - p" arbitrary: p v rule: less_induct)
  case less
  from segmentos_bucle_step [OF less.prems] obtain q m where q: "p \<le> q" "d ! q = 0xff" "Suc q < length d"
    "m = d ! Suc q" "m \<noteq> 0xff" "if m = 0xd9 then v = [] else \<exists>fin s w. fin_segmento d q m = Some fin \<and>
       get_range d q fin = Some s \<and> segmentos_bucle d fin = Some w \<and> v = (m, s) # w" .
  show ?case
  proof (cases "m = 0xd9")
    case True
    with q(6) show ?thesis by simp
  next
    case False
    with q(6) obtain fin s w where r: "fin_segmento d q m = Some fin" "get_range d q fin = Some s"
      "segmentos_bucle d fin = Some w" "v = (m, s) # w" by auto
    have "length d - fin < length d - p" using fin_segmento_ge [OF r(1)] q(1,3) by linarith
    from less.hyps [OF this r(3)] segmento_leido_ok [OF r(1,2) q(2,4,5) False] r(4) show ?thesis by simp
  qed
qed

text \<open>A segment written down is read back, when what follows it starts with a marker.\<close>

lemma fin_segmento_escrito:
  assumes "segmento_ok (m, s)" "x = 0xff # y # post" "acaba_barrido y"
  shows "fin_segmento (pre @ s @ x) (length pre) m = Some (length pre + length s)"
proof (cases "es_reinicio m \<or> m = 0x01")
  case True
  with assms(1) show ?thesis by (simp add: fin_segmento_def segmento_ok_def)
next
  case False
  let ?d = "pre @ s @ x"
  define n where "n = from_be [s ! 2, s ! 3]"
  from False assms(1) have n: "4 \<le> length s" "2 \<le> n"
    "if m = 0xda then barrido_ok (2 + n) s else length s = 2 + n"
    by (auto simp: segmento_ok_def n_def simp del: add_2_eq_Suc)
  have g: "get_at ?d (length pre + 2) = Some (s ! 2)" "get_at ?d (length pre + 3) = Some (s ! 3)"
    using n(1) by (simp_all add: get_at_def nth_append)
  have "fin_barrido ?d (length pre + 2 + n) = Some (length pre + length s)" if "m = 0xda"
  proof -
    from n(3) that have b: "barrido_ok (2 + n) s" by simp
    have nth: "?d ! (length pre + i) = (s @ x) ! i" for i by (simp add: nth_append)
    have "\<not> acaba_barrido (?d ! Suc i)" if i: "length pre + 2 + n \<le> i" "i < length pre + length s" "?d ! i = 0xff" for i
    proof -
      obtain j where j: "i = length pre + j" using i(1) le_Suc_ex by (metis add.assoc)
      have "(s @ [0xff]) ! Suc j = (s @ x) ! Suc j"
        using i(2) j assms(2) by (cases "Suc j = length s") (auto simp: nth_append)
      with b i j nth [of j] nth [of "Suc j"] show ?thesis by (auto simp: barrido_ok_def nth_append)
    qed
    moreover have "?d ! (length pre + length s) = 0xff" "?d ! Suc (length pre + length s) = y"
      using assms(2) by (simp_all add: nth_append)
    ultimately show ?thesis using b assms(2,3) by (simp add: fin_barrido_iff barrido_ok_def)
  qed
  moreover have "\<not> n < 2" "length pre + 2 + n = length pre + length s" if "m \<noteq> 0xda" using n that by simp_all
  ultimately show ?thesis
    using False n(2) by (simp only: fin_segmento_def if_False g bind.bind_lunit Let_def n_def [symmetric])
      (auto simp del: add_2_eq_Suc add_2_eq_Suc' split: if_splits)
qed

text \<open>What is written after the last segment.\<close>

abbreviation FIN_JPEG :: bytes where "FIN_JPEG \<equiv> [0xff, 0xd9]"

definition escrito :: "segmento list \<Rightarrow> bytes" where
  "escrito w = concat (map snd w) @ FIN_JPEG"

lemma escrito_empieza:
  assumes "\<forall>x \<in> set w. segmento_ok x \<and> cierra_barrido x"
  shows "\<exists>y post. escrito w = 0xff # y # post \<and> acaba_barrido y"
proof (cases w)
  case Nil
  then show ?thesis by (simp add: escrito_def acaba_barrido_def es_reinicio_def word_le_nat_alt)
next
  case (Cons x w')
  obtain m s where x: "x = (m, s)" by fastforce
  with assms Cons have "2 \<le> length s" "s ! 0 = 0xff" "s ! 1 = m" "acaba_barrido m"
    by (auto simp: segmento_ok_def cierra_barrido_def)
  moreover from this(1) obtain a b r where "s = a # b # r"
    by (metis Suc_le_length_iff numeral_2_eq_2)
  ultimately show ?thesis using Cons x by (simp add: escrito_def)
qed

lemma segmentos_escritos:
  "\<forall>x \<in> set w. segmento_ok x \<and> cierra_barrido x \<Longrightarrow> segmentos_bucle (pre @ escrito w) (length pre) = Some w"
proof (induction w arbitrary: pre)
  case Nil
  show ?case
    by (simp add: escrito_def segmentos_bucle.simps salta_relleno.simps get_at_def nth_append)
next
  case (Cons x w)
  obtain m s where x: "x = (m, s)" by fastforce
  with Cons.prems have ok: "segmento_ok (m, s)" "acaba_barrido m" by (auto simp: cierra_barrido_def)
  then have s: "2 \<le> length s" "s ! 0 = 0xff" "s ! 1 = m" "m \<noteq> 0xd9" "m \<noteq> 0xff"
    by (auto simp: segmento_ok_def)
  let ?d = "pre @ s @ escrito w"
  from Cons.prems escrito_empieza [of w] obtain y post where y: "escrito w = 0xff # y # post" "acaba_barrido y" by auto
  have fin: "fin_segmento ?d (length pre) m = Some (length (pre @ s))"
    using fin_segmento_escrito [OF ok(1) y] by simp
  have rest: "segmentos_bucle ?d (length (pre @ s)) = Some w" using Cons.IH [of "pre @ s"] Cons.prems by simp
  have at: "get_at ?d (length pre) = Some 0xff" "get_at ?d (length pre + 1) = Some m"
    using s by (auto simp: get_at_def nth_append)
  have salta: "salta_relleno ?d (length pre) = Some (length pre)"
    by (simp only: salta_relleno.simps [of ?d "length pre"] at bind.bind_lunit if_True refl s(5) if_False)
  have range: "get_range ?d (length pre) (length (pre @ s)) = Some s" by simp
  have "segmentos_bucle ?d (length pre) = Some ((m, s) # w)"
    by (simp only: segmentos_bucle.simps [of ?d "length pre"] salta at bind.bind_lunit fin range rest s(4) if_False
        refl not_True_eq_False)
  then show ?case by (simp add: x escrito_def)
qed

text \<open>The segments of the clean copy.\<close>

fun segmentos_limpios :: "nat option \<Rightarrow> bool \<Rightarrow> segmento list \<Rightarrow> segmento list" where
  "segmentos_limpios orientacion puesta [] = []"
| "segmentos_limpios orientacion puesta ((m, s) # segs) =
     (let ahora = \<not> puesta \<and> m \<noteq> 0xe0
      in (if ahora then [(0xe1, segmento_orientacion (case orientacion of None \<Rightarrow> 1 | Some r \<Rightarrow> r))] else [])
         @ (if se_queda m s then [(m, s)] else [])
         @ segmentos_limpios orientacion (puesta \<or> ahora) segs)"

lemma length_app1_de [simp]: "length (app1_de r) = 32"
  by (simp add: app1_de_def EXIF_MARCA_def str_bytes_def)

lemma limpia_bucle_concat:
  "limpia_bucle orientacion puesta segs = Some (concat (map snd (segmentos_limpios orientacion puesta segs)))"
  by (induction segs arbitrary: puesta) (auto simp: Let_def)

lemma limpia_jpeg_escrito:
  "limpia_jpeg lower d =
     map_option (\<lambda>segs. [0xff, 0xd8] @ escrito (segmentos_limpios (orientacion_de lower segs) (orientacion_de lower segs = None) segs))
       (segmentos d)"
  by (simp add: limpia_jpeg_def limpia_bucle_concat escrito_def Let_def map_conv_bind_option comp_def)

lemma segmento_orientacion_lista:
  "segmento_orientacion r = 0xff # 0xe1 # 0 # 0x22 # app1_de r"
  by (simp add: segmento_orientacion_def be_bytes_2)

lemma segmento_orientacion_ok [simp]:
  "segmento_ok (0xe1, segmento_orientacion r)" "cierra_barrido (0xe1, segmento_orientacion r)"
  by (simp_all add: segmento_ok_def segmento_orientacion_lista cierra_barrido_def acaba_barrido_def
      es_reinicio_def word_le_nat_alt from_be_def)

lemma segmentos_limpios_puesta:
  "segmentos_limpios orientacion True segs = filter (\<lambda>(m, s). se_queda m s) segs"
  by (induction segs) (auto simp: Let_def)

lemma segmentos_limpios_de:
  "x \<in> set (segmentos_limpios orientacion puesta segs) \<Longrightarrow>
     x = (0xe1, segmento_orientacion (case orientacion of None \<Rightarrow> 1 | Some r \<Rightarrow> r)) \<and> \<not> puesta
     \<or> x \<in> set segs \<and> se_queda (fst x) (snd x)"
  by (induction segs arbitrary: puesta)
    (auto simp: Let_def segmentos_limpios_puesta split: if_splits)

text \<open>Restart markers stay inside the scans, as the format has them.\<close>

definition reinicios_en_su_sitio :: "segmento list \<Rightarrow> bool" where
  "reinicios_en_su_sitio segs \<longleftrightarrow> (\<forall>x \<in> set segs. fst x \<noteq> 0 \<and> \<not> es_reinicio (fst x))"

lemma segmentos_limpio:
  assumes "segmentos d = Some segs" "reinicios_en_su_sitio segs" "limpia_jpeg lower d = Some out"
  shows "segmentos out = Some (segmentos_limpios (orientacion_de lower segs) (orientacion_de lower segs = None) segs)"
    (is "_ = Some ?w")
proof -
  from assms(1) have b: "segmentos_bucle d 2 = Some segs"
    by (auto simp: segmentos_def bind_eq_Some_conv split: if_splits)
  have out: "out = [0xff, 0xd8] @ escrito ?w" using assms(1,3) by (simp add: limpia_jpeg_escrito)
  have "segmento_ok x \<and> cierra_barrido x" if "x \<in> set segs" for x
  proof -
    have ok: "segmento_ok x" using segmentos_leidos_ok [OF b] that by blast
    moreover from ok have "fst x \<noteq> 0xff" by (auto simp: segmento_ok_def)
    ultimately show ?thesis using assms(2) that
      by (auto simp: reinicios_en_su_sitio_def cierra_barrido_def acaba_barrido_def)
  qed
  then have "\<forall>x \<in> set ?w. segmento_ok x \<and> cierra_barrido x"
    using segmentos_limpios_de by fastforce
  from segmentos_escritos [OF this, of "[0xff, 0xd8]"] show ?thesis
    by (simp add: segmentos_def out get_range_def numeral_2_eq_2)
qed

lemma se_queda_no_dice: "se_queda m s \<Longrightarrow> m \<noteq> 0xe1 \<and> m \<noteq> 0xed \<and> m \<noteq> 0xfe"
  by (auto simp: se_queda_def split: if_splits)

lemma orientacion_de_rango: "orientacion_de lower segs = Some r \<Longrightarrow> 2 \<le> r \<and> r \<le> 8"
  using exif_lee_orientacion
  by (fastforce simp: orientacion_de_def orientacion_ok_def split: list.splits option.splits if_splits)

lemma cuerpo_orientacion: "cuerpo (segmento_orientacion r) = app1_de r"
  by (simp add: cuerpo_def segmento_orientacion_lista)

lemma es_exif_orientacion [simp]: "es_exif (0xe1, segmento_orientacion r)"
  by (simp add: es_exif_def cuerpo_orientacion app1_de_def starts_with_iff)

lemma drop_app1 [simp]: "drop 6 (app1_de r) = solo_orientacion r"
  by (simp add: app1_de_def EXIF_MARCA_def str_bytes_def)

lemma mira_segmento_limpio:
  assumes "x \<in> set (segmentos_limpios (orientacion_de lower segs) (orientacion_de lower segs = None) segs)"
  shows "mira_segmento lower i x = i"
  using segmentos_limpios_de [OF assms]
proof (elim disjE conjE)
  assume x: "x = (0xe1, segmento_orientacion (case orientacion_de lower segs of None \<Rightarrow> 1 | Some r \<Rightarrow> r))"
    and "orientacion_de lower segs \<noteq> None"
  then obtain r where "orientacion_de lower segs = Some r" by blast
  with orientacion_de_rango [OF this] solo_orientacion_dice [of r lower] x show ?thesis
    by (simp add: mira_segmento_def cuerpo_orientacion)
next
  assume "se_queda (fst x) (snd x)"
  from se_queda_no_dice [OF this] show ?thesis by (simp add: mira_segmento_def es_exif_def)
qed

lemma mira_jpeg_limpio:
  assumes "segmentos d = Some segs" "reinicios_en_su_sitio segs" "limpia_jpeg lower d = Some out"
  shows "mira_jpeg lower out = Some (Informe_nuevo ''jpeg'' \<lparr>in_limpiable := True\<rparr>)"
proof -
  let ?w = "segmentos_limpios (orientacion_de lower segs) (orientacion_de lower segs = None) segs"
  have "foldl (mira_segmento lower) (Informe_nuevo ''jpeg'') ?w = Informe_nuevo ''jpeg''"
    by (rule foldl_nada) (rule mira_segmento_limpio)
  then show ?thesis using segmentos_limpio [OF assms] by (simp add: mira_jpeg_def)
qed

lemma exif_de_limpios:
  "filter es_exif (segmentos_limpios orientacion puesta segs) =
     (if puesta \<or> list_all (\<lambda>x. fst x = 0xe0) segs then []
      else [(0xe1, segmento_orientacion (case orientacion of None \<Rightarrow> 1 | Some r \<Rightarrow> r))])"
proof -
  have q: "\<not> es_exif (m, s)" if "se_queda m s" for m s
    using se_queda_no_dice [OF that] by (simp add: es_exif_def)
  have t: "filter es_exif (segmentos_limpios orientacion True segs) = []" for segs
    using q by (auto simp: segmentos_limpios_puesta filter_empty_conv)
  show ?thesis by (induction segs arbitrary: puesta) (auto simp: Let_def t q)
qed

text \<open>The orientation found in the clean copy is the one put there.\<close>

lemma orientacion_de_limpios:
  "orientacion_de lower (segmentos_limpios (orientacion_de lower segs) (orientacion_de lower segs = None) segs)
     = orientacion_de lower segs"
proof (cases "orientacion_de lower segs")
  case None
  then show ?thesis by (simp add: orientacion_de_def [of _ "segmentos_limpios _ _ _"] exif_de_limpios)
next
  case (Some r)
  have "\<not> list_all (\<lambda>x. fst x = 0xe0) segs"
  proof
    assume "list_all (\<lambda>x. fst x = 0xe0) segs"
    then have "filter es_exif segs = []" by (auto simp: filter_empty_conv es_exif_def list_all_iff)
    with Some show False by (simp add: orientacion_de_def)
  qed
  with Some orientacion_de_rango [OF Some] solo_orientacion_dice [of r lower] show ?thesis
    by (simp add: orientacion_de_def [of _ "segmentos_limpios _ _ _"] exif_de_limpios cuerpo_orientacion)
qed

lemma segmentos_limpios_idem:
  "segmentos_limpios orientacion puesta (segmentos_limpios orientacion puesta segs) =
     segmentos_limpios orientacion puesta segs"
proof -
  have q: "\<not> se_queda 0xe1 s" for s by (simp add: se_queda_def)
  show ?thesis
    by (induction segs arbitrary: puesta) (auto simp: Let_def q segmentos_limpios_puesta)
qed

lemma limpia_jpeg_idem:
  assumes "segmentos d = Some segs" "reinicios_en_su_sitio segs" "limpia_jpeg lower d = Some out"
  shows "limpia_jpeg lower out = Some out"
  using assms segmentos_limpio [OF assms]
  by (simp add: limpia_jpeg_escrito orientacion_de_limpios segmentos_limpios_idem)

end
