(* ===== verification/Huellas_Papel.thy ===== *)
theory Huellas_Papel imports Huellas_Foto begin

text \<open>
  HEIC pictures and PDF documents, \<open>crates/core/src/huellas/heic.rs\<close> and \<open>pdf.rs\<close>: both are cleaned
  in place, so a clean copy is as long as the file. Offsets are natural numbers; where the code
  keeps a \<open>u64\<close> it is reduced or refused as there.
\<close>

section \<open>Writing in place\<close>

text \<open>\<open>out[ini..ini + z.len()].copy_from_slice(z)\<close>.\<close>

definition pon_zona :: "bytes \<Rightarrow> nat \<Rightarrow> bytes \<Rightarrow> bytes" where
  "pon_zona out ini z = take ini out @ z @ drop (ini + length z) out"

section \<open>HEIC\<close>

record caja =
  ca_tipo :: bytes
  ca_ini :: nat
  ca_fin :: nat

function cajas :: "bytes \<Rightarrow> nat \<Rightarrow> nat \<Rightarrow> caja list" where
  "cajas d p hasta =
     (if \<not> p + 8 \<le> hasta then []
      else case get_range d p (p + 8) of
        None \<Rightarrow> []
      | Some t \<Rightarrow>
          let len = from_be (take 4 t); tipo = drop 4 t
          in case (if len = 1 then map_option (\<lambda>l. (from_be l, p + 16)) (get_range d (p + 8) (p + 16))
                   else if len = 0 then Some (hasta - p, p + 8) else Some (len, p + 8)) of
               None \<Rightarrow> []
             | Some (len, ini) \<Rightarrow>
                 let fin = p + len
                 in if hasta < fin \<or> fin < ini then []
                    else \<lparr>ca_tipo = tipo, ca_ini = ini, ca_fin = fin\<rparr> # cajas d fin hasta)"
  by pat_completeness auto
termination by (relation "measure (\<lambda>(d, p, hasta). hasta - p)") (auto split: if_splits)

declare cajas.simps [simp del]

text \<open>\<open>be\<close>: \<open>n\<close> bytes folded into a \<open>u64\<close>, whose upper bits are shifted out.\<close>

definition be_u64 :: "bytes \<Rightarrow> nat \<Rightarrow> nat \<Rightarrow> nat option" where
  "be_u64 d p n = map_option (\<lambda>b. from_be b mod 2 ^ 64) (get_range d p (p + n))"

definition es_caja :: "string \<Rightarrow> caja \<Rightarrow> bool" where
  "es_caja s c \<longleftrightarrow> ca_tipo c = str_bytes s"

definition MARCAS_HEIC :: "bytes list" where
  "MARCAS_HEIC =
     List.map str_bytes [''heic'', ''heix'', ''hevc'', ''heim'', ''heis'', ''mif1'', ''msf1'', ''avif'']"

text \<open>The item an \<open>infe\<close> box names, when it is EXIF (\<open>True\<close>) or XMP; \<open>None\<close>: the box is cut short.\<close>

definition infe_mime :: "bytes \<Rightarrow> nat \<Rightarrow> nat \<Rightarrow> bool option" where
  "infe_mime d desde hasta =
     do { resto \<leftarrow> get_range d desde hasta;
          nombre \<leftarrow> posicion (\<lambda>b. b = 0) resto;
          ct \<leftarrow> get_range resto (nombre + 1) (length resto);
          Some (starts_with (str_bytes ''application/rdf+xml'') ct) }"

definition infe_item :: "bytes \<Rightarrow> caja \<Rightarrow> (nat \<times> bool) option option" where
  "infe_item d infe =
     do { ver \<leftarrow> get_at d (ca_ini infe);
          if ver < 2 then Some None
          else do {
            i \<leftarrow> be_u64 d (ca_ini infe + 4) (if ver = 2 then 2 else 4);
            let p = (if ver = 2 then ca_ini infe + 6 else ca_ini infe + 8);
            tipo \<leftarrow> get_range d (p + 2) (p + 6);
            if tipo = str_bytes ''Exif'' then Some (Some (i, True))
            else if tipo = str_bytes ''mime'' then
              map_option (\<lambda>xmp. if xmp then Some (i, False) else None) (infe_mime d (p + 6) (ca_fin infe))
            else Some None } }"

fun infe_bucle :: "bytes \<Rightarrow> caja list \<Rightarrow> (nat \<times> bool) list option" where
  "infe_bucle d [] = Some []"
| "infe_bucle d (infe # cs) =
     (if \<not> es_caja ''infe'' infe then infe_bucle d cs
      else do {
        x \<leftarrow> infe_item d infe;
        v \<leftarrow> infe_bucle d cs;
        Some (case x of None \<Rightarrow> v | Some y \<Rightarrow> y # v) })"

text \<open>The widths \<open>iloc\<close> declares.\<close>

record anchos =
  an_off :: nat
  an_len :: nat
  an_base :: nat
  an_idx :: nat
  an_id :: nat
  an_metodo :: bool

fun partes_bucle :: "bytes \<Rightarrow> anchos \<Rightarrow> nat \<Rightarrow> nat \<Rightarrow> ((nat \<times> nat) list \<times> nat) option" where
  "partes_bucle d a 0 p = Some ([], p)"
| "partes_bucle d a (Suc k) p =
     do { let p = p + an_idx a;
          off \<leftarrow> be_u64 d p (an_off a);
          let p = p + an_off a;
          len \<leftarrow> be_u64 d p (an_len a);
          let p = p + an_len a;
          (v, p) \<leftarrow> partes_bucle d a k p;
          Some ((off, len) # v, p) }"

text \<open>An entry of \<open>iloc\<close>: number, method, base, extents, and where the next one is.\<close>

definition iloc_entrada :: "bytes \<Rightarrow> anchos \<Rightarrow> nat \<Rightarrow> (nat \<times> nat \<times> nat \<times> (nat \<times> nat) list \<times> nat) option" where
  "iloc_entrada d a p =
     do { i \<leftarrow> be_u64 d p (an_id a);
          let p = p + an_id a;
          metodo \<leftarrow> (if an_metodo a then map_option (\<lambda>x. x mod 16) (be_u64 d p 2) else Some 0);
          let p = p + (if an_metodo a then 2 else 0) + 2;
          base \<leftarrow> be_u64 d p (an_base a);
          let p = p + an_base a;
          extensiones \<leftarrow> be_u64 d p 2;
          (partes, p) \<leftarrow> partes_bucle d a (min extensiones 1000) (p + 2);
          Some (i, metodo, base, partes, p) }"

text \<open>Only bytes placed directly in the file, in one piece.\<close>

definition lugar_de :: "bytes \<Rightarrow> nat \<Rightarrow> nat \<Rightarrow> (nat \<times> nat) list \<Rightarrow> (nat \<times> nat) option" where
  "lugar_de d metodo base partes =
     (case partes of
        [(off, len)] \<Rightarrow>
          (let ini = base + off; fin = ini + len
           in if metodo \<noteq> 0 \<or> 2 ^ 64 \<le> ini \<or> length d < fin \<or> len = 0 then None else Some (ini, fin))
      | _ \<Rightarrow> None)"

fun iloc_bucle :: "bytes \<Rightarrow> anchos \<Rightarrow> (nat \<times> bool) list \<Rightarrow> nat \<Rightarrow> nat \<Rightarrow> (bool \<times> nat \<times> nat) list option" where
  "iloc_bucle d a tipos 0 p = Some []"
| "iloc_bucle d a tipos (Suc k) p =
     do { (i, metodo, base, partes, p) \<leftarrow> iloc_entrada d a p;
          case map_of tipos i of
            None \<Rightarrow> iloc_bucle d a tipos k p
          | Some exif \<Rightarrow> do {
              (ini, fin) \<leftarrow> lugar_de d metodo base partes;
              v \<leftarrow> iloc_bucle d a tipos k p;
              Some ((exif, ini, fin) # v) } }"

definition items_tipos :: "bytes \<Rightarrow> caja list \<Rightarrow> (nat \<times> bool) list option" where
  "items_tipos d hijos =
     (case find (es_caja ''iinf'') hijos of
        None \<Rightarrow> Some []
      | Some iinf \<Rightarrow> do {
          v \<leftarrow> get_at d (ca_ini iinf);
          infe_bucle d (cajas d (ca_ini iinf + 4 + (if v = 0 then 2 else 4)) (ca_fin iinf)) })"

definition items_lugares :: "bytes \<Rightarrow> caja list \<Rightarrow> (nat \<times> bool) list \<Rightarrow> (bool \<times> nat \<times> nat) list option" where
  "items_lugares d hijos tipos =
     do { iloc \<leftarrow> find (es_caja ''iloc'') hijos;
          ver \<leftarrow> get_at d (ca_ini iloc);
          let p0 = ca_ini iloc + 4;
          a \<leftarrow> get_at d p0;
          b \<leftarrow> get_at d (p0 + 1);
          let w = \<lparr>an_off = unat a div 16, an_len = unat a mod 16, an_base = unat b div 16,
                   an_idx = (if ver = 1 \<or> ver = 2 then unat b mod 16 else 0),
                   an_id = (if ver < 2 then 2 else 4), an_metodo = (ver = 1 \<or> ver = 2)\<rparr>;
          n \<leftarrow> be_u64 d (p0 + 2) (if ver < 2 then 2 else 4);
          iloc_bucle d w tipos (min n 10000) (p0 + (if ver < 2 then 4 else 6)) }"

text \<open>The EXIF and XMP items and where their bytes are. \<open>None\<close>: not a HEIF, or one laid out in a way
  that is not followed.\<close>

definition marca_heic :: "bytes \<Rightarrow> caja \<Rightarrow> bool option" where
  "marca_heic d c = map_option (\<lambda>m. m \<in> set MARCAS_HEIC) (get_range d (ca_ini c) (ca_ini c + 4))"

definition items :: "bytes \<Rightarrow> (bool \<times> nat \<times> nat) list option" where
  "items d =
     (let top = cajas d 0 (length d)
      in case top of
           [] \<Rightarrow> None
         | ftyp # _ \<Rightarrow>
             if \<not> es_caja ''ftyp'' ftyp then None
             else do {
               ok \<leftarrow> marca_heic d ftyp;
               if \<not> ok then None
               else do {
                 meta \<leftarrow> find (es_caja ''meta'') top;
                 let hijos = cajas d (ca_ini meta + 4) (ca_fin meta);
                 tipos \<leftarrow> items_tipos d hijos;
                 if tipos = [] then Some [] else items_lugares d hijos tipos } })"

definition zona_de :: "bytes \<Rightarrow> nat \<Rightarrow> nat \<Rightarrow> bytes" where
  "zona_de d ini fin = take (fin - ini) (drop ini d)"

text \<open>Four bytes say where the TIFF header starts after them.\<close>

definition tiff_del_item :: "bytes \<Rightarrow> bytes" where
  "tiff_del_item b = (case be_u64 b 0 4 of None \<Rightarrow> [] | Some s \<Rightarrow> drop (4 + s) b)"

definition mira_item :: "(string \<Rightarrow> string) \<Rightarrow> bytes \<Rightarrow> informe \<Rightarrow> bool \<times> nat \<times> nat \<Rightarrow> informe" where
  "mira_item lower d i x =
     (case x of (exif, ini, fin) \<Rightarrow>
        if exif then anade (ex_huellas (exif_lee lower (tiff_del_item (zona_de d ini fin)))) i
        else anade (xmp_huellas (zona_de d ini fin)) i)"

text \<open>A HEIF that is not followed: said so instead of saying it is clean.\<close>

definition items_ilegibles :: "bytes \<Rightarrow> informe option" where
  "items_ilegibles d =
     (case cajas d 0 (length d) of
        [] \<Rightarrow> None
      | ftyp # _ \<Rightarrow> do {
          ok \<leftarrow> marca_heic d ftyp;
          if \<not> ok then None
          else Some \<lparr>in_formato = ''heic'', in_huellas = [Huella_new Propiedades []], in_limpiable = False,
                     in_nota = Some ''heic_no_seguido''\<rparr> })"

definition mira_heic :: "(string \<Rightarrow> string) \<Rightarrow> bytes \<Rightarrow> informe option" where
  "mira_heic lower d =
     (case cajas d 0 (length d) of
        [] \<Rightarrow> None
      | c # _ \<Rightarrow>
          if \<not> es_caja ''ftyp'' c then None
          else case items d of
                 Some lista \<Rightarrow> Some (foldl (mira_item lower d) (Informe_nuevo ''heic'' \<lparr>in_limpiable := True\<rparr>) lista)
               | None \<Rightarrow> items_ilegibles d)"

definition XMP_VACIO :: string where
  "XMP_VACIO =
     ''<?xpacket begin='' @ [CHR 0x22, CHR 0x22] @ '' id='' @ [CHR 0x22] @ ''W5M0MpCehiHzreSzNTczkc9d'' @ [CHR 0x22]
     @ ''?><x:xmpmeta xmlns:x='' @ [CHR 0x22] @ ''adobe:ns:meta/'' @ [CHR 0x22] @ ''/><?xpacket end='' @ [CHR 0x22]
     @ ''w'' @ [CHR 0x22] @ ''?>''"

text \<open>What a zone of \<open>n\<close> bytes becomes.\<close>

definition zona_limpia :: "bool \<Rightarrow> nat \<Rightarrow> bytes" where
  "zona_limpia exif n =
     (if exif then
        (if 4 + length EXIF_VACIO \<le> n
         then replicate 4 0 @ EXIF_VACIO @ replicate (n - (4 + length EXIF_VACIO)) 0
         else replicate n 0)
      else if length XMP_VACIO \<le> n then str_bytes XMP_VACIO @ replicate (n - length XMP_VACIO) 32
      else replicate n 32)"

fun limpia_items :: "bytes \<Rightarrow> (bool \<times> nat \<times> nat) list \<Rightarrow> bytes option" where
  "limpia_items out [] = Some out"
| "limpia_items out ((exif, ini, fin) # v) =
     do { zona \<leftarrow> get_range out ini fin;
          limpia_items (pon_zona out ini (zona_limpia exif (length zona))) v }"

definition limpia_heic :: "bytes \<Rightarrow> bytes option" where
  "limpia_heic d = do { lista \<leftarrow> items d; limpia_items d lista }"

section \<open>PDF\<close>

definition CLAVES_PDF :: "(bytes \<times> clave_huella) list" where
  "CLAVES_PDF =
     map (\<lambda>(k, c). (str_bytes k, c))
       [(''/Author'', Autor), (''/Creator'', Programa), (''/Producer'', Programa), (''/CreationDate'', Fecha),
        (''/ModDate'', Fecha), (''/Title'', Titulo), (''/Subject'', Descripcion), (''/Keywords'', Descripcion),
        (''/Company'', Empresa), (''/Manager'', Responsable), (''/SourceModified'', Fecha)]"

definition busca :: "bytes \<Rightarrow> bytes \<Rightarrow> nat \<Rightarrow> nat option" where
  "busca d aguja desde =
     (if aguja = [] \<or> length d \<le> desde then None
      else map_option (\<lambda>p. p + desde) (busca_en aguja (drop desde d)))"

definition es_blanco :: "byte \<Rightarrow> bool" where
  "es_blanco b \<longleftrightarrow> b \<in> {0x20, 0x09, 0x0a, 0x0c, 0x0d}"

function salta_blancos :: "bytes \<Rightarrow> nat \<Rightarrow> nat" where
  "salta_blancos d p = (if p < length d \<and> es_blanco (d ! p) then salta_blancos d (p + 1) else p)"
  by pat_completeness auto
termination by (relation "measure (\<lambda>(d, p). length d - p)") auto

declare salta_blancos.simps [simp del]

text \<open>The end of a literal: the bracket that closes it, with those inside in pairs.\<close>

function fin_literal :: "bytes \<Rightarrow> nat \<Rightarrow> nat \<Rightarrow> nat option" where
  "fin_literal d q nivel =
     (if nivel = 0 then Some (q - 1)
      else do {
        b \<leftarrow> get_at d q;
        if b = 0x5c then fin_literal d (q + 2) nivel
        else if b = 0x28 then fin_literal d (q + 1) (nivel + 1)
        else if b = 0x29 then fin_literal d (q + 1) (nivel - 1)
        else fin_literal d (q + 1) nivel })"
  by pat_completeness auto
termination by (relation "measure (\<lambda>(d, q, nivel). length d - q)") auto

declare fin_literal.simps [simp del]

text \<open>A value right after a key: whether it is a literal, and where its inside is.\<close>

definition valor_pdf :: "bytes \<Rightarrow> nat \<Rightarrow> (bool \<times> nat \<times> nat) option" where
  "valor_pdf d p =
     (let p = salta_blancos d p
      in do {
        b \<leftarrow> get_at d p;
        if b = 0x28 then do { fin \<leftarrow> fin_literal d (p + 1) 1; Some (True, p + 1, fin) }
        else if b = 0x3c \<and> get_at d (p + 1) \<noteq> Some 0x3c then do {
          r \<leftarrow> get_range d (p + 1) (length d);
          j \<leftarrow> posicion (\<lambda>b. b = 0x3e) r;
          Some (False, p + 1, p + 1 + j) }
        else None })"

definition es_alnum :: "byte \<Rightarrow> bool" where
  "es_alnum b \<longleftrightarrow> 0x30 \<le> b \<and> b \<le> 0x39 \<or> 0x41 \<le> b \<and> b \<le> 0x5a \<or> 0x61 \<le> b \<and> b \<le> 0x7a"

definition es_hex :: "byte \<Rightarrow> bool" where
  "es_hex b \<longleftrightarrow> 0x30 \<le> b \<and> b \<le> 0x39 \<or> 0x41 \<le> b \<and> b \<le> 0x46 \<or> 0x61 \<le> b \<and> b \<le> 0x66"

lemma busca_bounds: "busca d k p = Some i \<Longrightarrow> k \<noteq> [] \<and> p \<le> i \<and> i + length k \<le> length d"
  by (auto simp: busca_def split: if_splits dest!: busca_en_bound)

lemma salta_blancos_ge: "p \<le> salta_blancos d p"
proof (induction d p rule: salta_blancos.induct)
  case (1 d p)
  then show ?case by (subst salta_blancos.simps) auto
qed

lemma fin_literal_bounds:
  "fin_literal d q n = Some fin \<Longrightarrow> 0 < n \<Longrightarrow> q \<le> fin \<and> fin < length d"
proof (induction d q n rule: fin_literal.induct)
  case (1 d q n)
  from "1.prems" obtain b where b: "q < length d" "b = d ! q" and
    s: "(if b = 0x5c then fin_literal d (q + 2) n
        else if b = 0x28 then fin_literal d (q + 1) (n + 1)
        else if b = 0x29 then fin_literal d (q + 1) (n - 1)
        else fin_literal d (q + 1) n) = Some fin"
    by (subst (asm) fin_literal.simps) (auto simp: bind_eq_Some_conv)
  show ?case
  proof (cases "b = 0x29 \<and> n = 1")
    case True
    with s have "fin_literal d (q + 1) 0 = Some fin" by simp
    with b show ?thesis by (simp add: fin_literal.simps)
  next
    case False
    with s "1.IH" [of b] "1.prems"(2) b show ?thesis by (auto split: if_splits)
  qed
qed

lemma valor_pdf_bounds: "valor_pdf d p = Some (lit, ini, fin) \<Longrightarrow> p < ini \<and> ini \<le> fin \<and> fin < length d"
  using salta_blancos_ge [of p d]
  by (fastforce simp: valor_pdf_def Let_def bind_eq_Some_conv split: if_splits
      dest: fin_literal_bounds posicion_Some)

text \<open>Every value of a key from \<open>p\<close> on.\<close>

function valores_clave :: "bytes \<Rightarrow> bytes \<Rightarrow> clave_huella \<Rightarrow> nat \<Rightarrow> (clave_huella \<times> bool \<times> nat \<times> nat) list" where
  "valores_clave d k c p =
     (case busca d k p of
        None \<Rightarrow> []
      | Some i \<Rightarrow>
          if \<exists>b. get_at d (i + length k) = Some b \<and> es_alnum b then valores_clave d k c (i + length k)
          else case valor_pdf d (i + length k) of
                 Some (lit, ini, fin) \<Rightarrow> (c, lit, ini, fin) # valores_clave d k c fin
               | None \<Rightarrow> valores_clave d k c (i + length k))"
  by pat_completeness auto
termination
  by (relation "measure (\<lambda>(d, k, c, p). length d - p)")
    (auto dest!: busca_bounds valor_pdf_bounds simp flip: length_greater_0_conv)

declare valores_clave.simps [simp del]

definition valores :: "bytes \<Rightarrow> (clave_huella \<times> bool \<times> nat \<times> nat) list" where
  "valores d = concat (map (\<lambda>(k, c). valores_clave d k c 0) CLAVES_PDF)"

text \<open>Every XMP packet.\<close>

definition XMP_ABRE :: bytes where "XMP_ABRE = str_bytes ''<x:xmpmeta''"
definition XMP_CIERRA :: bytes where "XMP_CIERRA = str_bytes ''</x:xmpmeta>''"

function paquetes_desde :: "bytes \<Rightarrow> nat \<Rightarrow> (nat \<times> nat) list" where
  "paquetes_desde d p =
     (case busca d XMP_ABRE p of
        None \<Rightarrow> []
      | Some i \<Rightarrow>
          (case busca d XMP_CIERRA i of
             None \<Rightarrow> []
           | Some f \<Rightarrow> (i, f + length XMP_CIERRA) # paquetes_desde d (f + 1)))"
  by pat_completeness auto
termination
  by (relation "measure (\<lambda>(d, p). length d - p)") (auto dest!: busca_bounds simp flip: length_greater_0_conv)

declare paquetes_desde.simps [simp del]

definition paquetes :: "bytes \<Rightarrow> (nat \<times> nat) list" where
  "paquetes d = paquetes_desde d 0"

definition comprimido_pdf :: "bytes \<Rightarrow> bool" where
  "comprimido_pdf d \<longleftrightarrow> busca d (str_bytes ''/ObjStm'') 0 \<noteq> None"

subsection \<open>The text of a value\<close>

fun sin_escapes :: "bytes \<Rightarrow> bytes" where
  "sin_escapes [] = []"
| "sin_escapes (b # r) =
     (case r of
        c # r' \<Rightarrow>
          if b = 0x5c then
            (if c = of_char CHR ''n'' then 0x0a else if c = of_char CHR ''r'' then 0x0d
             else if c = of_char CHR ''t'' then 0x09 else c) # sin_escapes r'
          else b # sin_escapes r
      | [] \<Rightarrow> [b])"

definition nibble :: "byte \<Rightarrow> byte" where
  "nibble b = (if b \<le> 0x39 then b - 0x30 else if b \<le> 0x46 then b - 0x37 else b - 0x57)"

text \<open>Hex digits two by two; a last one alone has a zero after it.\<close>

fun de_hex :: "bytes \<Rightarrow> bytes" where
  "de_hex [] = []"
| "de_hex [a] = [nibble a * 16]"
| "de_hex (a # b # r) = (nibble a * 16 + nibble b) # de_hex r"

text \<open>A character's UTF-8 bytes, and \<open>String::from_utf16_lossy\<close>.\<close>

definition utf8_de :: "nat \<Rightarrow> string" where
  "utf8_de u =
     map char_of
       (if u < 0x80 then [u]
        else if u < 0x800 then [0xC0 + u div 64, 0x80 + u mod 64]
        else if u < 0x10000 then [0xE0 + u div 4096, 0x80 + u div 64 mod 64, 0x80 + u mod 64]
        else [0xF0 + u div 262144, 0x80 + u div 4096 mod 64, 0x80 + u div 64 mod 64, 0x80 + u mod 64])"

fun utf16_lossy :: "nat list \<Rightarrow> string" where
  "utf16_lossy [] = []"
| "utf16_lossy (u # r) =
     (if u < 0xD800 \<or> 0xE000 \<le> u then utf8_de u @ utf16_lossy r
      else if 0xDC00 \<le> u then utf8_de 0xFFFD @ utf16_lossy r
      else case r of
             [] \<Rightarrow> utf8_de 0xFFFD
           | v # r' \<Rightarrow>
               if 0xDC00 \<le> v \<and> v < 0xE000
               then utf8_de (0x10000 + (u - 0xD800) * 1024 + (v - 0xDC00)) @ utf16_lossy r'
               else utf8_de 0xFFFD @ utf16_lossy r)"

fun u16s :: "bytes \<Rightarrow> nat list" where
  "u16s [] = []"
| "u16s [a] = [unat a * 256]"
| "u16s (a # b # r) = (unat a * 256 + unat b) # u16s r"

definition texto_pdf :: "bytes \<Rightarrow> bool \<Rightarrow> nat \<Rightarrow> nat \<Rightarrow> string" where
  "texto_pdf d literal ini fin =
     (let b = zona_de d ini fin;
          bs = (if literal then sin_escapes b else de_hex (filter es_hex b));
          s = (if starts_with [0xfe, 0xff] bs then utf16_lossy (u16s (drop 2 bs))
               else concat (map (\<lambda>c. utf8_de (unat c)) bs))
      in legible s)"

definition PDF_FIRMA :: bytes where "PDF_FIRMA = str_bytes ''%PDF-''"

definition mira_pdf :: "bytes \<Rightarrow> informe option" where
  "mira_pdf d =
     (if \<not> starts_with PDF_FIRMA d then None
      else
        (let i = foldl (\<lambda>i (c, lit, ini, fin).
                   let t = texto_pdf d lit ini fin in if t \<noteq> [] then anade [Huella_new c t] i else i)
                 (Informe_nuevo ''pdf'') (valores d);
             i = foldl (\<lambda>i (ini, fin). anade (xmp_huellas (zona_de d ini fin)) i) i (paquetes d);
             i = (if comprimido_pdf d then i\<lparr>in_nota := Some ''pdf_comprimido''\<rparr> else i)
         in Some (i\<lparr>in_limpiable := True\<rparr>)))"

text \<open>Hex digits become 20, a space, two by two; what is not a digit stays.\<close>

fun blanquea_hex :: "bool \<Rightarrow> bytes \<Rightarrow> bytes" where
  "blanquea_hex impar [] = []"
| "blanquea_hex impar (b # r) =
     (if es_hex b then (if impar then 0x30 else 0x32) # blanquea_hex (\<not> impar) r
      else b # blanquea_hex impar r)"

fun limpia_valores :: "bytes \<Rightarrow> (clave_huella \<times> bool \<times> nat \<times> nat) list \<Rightarrow> bytes option" where
  "limpia_valores out [] = Some out"
| "limpia_valores out ((c, lit, ini, fin) # v) =
     do { zona \<leftarrow> get_range out ini fin;
          limpia_valores (pon_zona out ini (if lit then replicate (length zona) 32 else blanquea_hex False zona)) v }"

definition PAQUETE_VACIO :: string where
  "PAQUETE_VACIO = ''<x:xmpmeta xmlns:x='' @ [CHR 0x22] @ ''adobe:ns:meta/'' @ [CHR 0x22] @ ''/>''"

definition paquete_limpio :: "nat \<Rightarrow> bytes" where
  "paquete_limpio n =
     (if length PAQUETE_VACIO \<le> n then str_bytes PAQUETE_VACIO @ replicate (n - length PAQUETE_VACIO) 32
      else replicate n 32)"

fun limpia_paquetes :: "bytes \<Rightarrow> (nat \<times> nat) list \<Rightarrow> bytes option" where
  "limpia_paquetes out [] = Some out"
| "limpia_paquetes out ((ini, fin) # v) =
     do { zona \<leftarrow> get_range out ini fin;
          limpia_paquetes (pon_zona out ini (paquete_limpio (length zona))) v }"

definition limpia_pdf :: "bytes \<Rightarrow> bytes option" where
  "limpia_pdf d =
     (if \<not> starts_with PDF_FIRMA d then None
      else do { out \<leftarrow> limpia_valores d (valores d); limpia_paquetes out (paquetes d) })"

end
