(* ===== verification/Ofimatica.thy ===== *)
theory Ofimatica imports Huellas_Papel begin

text \<open>
  Office documents, \<open>crates/core/src/huellas/ooxml.rs\<close>, and the report and the clean copy of any
  file, \<open>mirar\<close> and \<open>limpiar\<close> of \<open>mod.rs\<close>. A document is a ZIP: its directory is read from the end
  of the file, and the clean copy is written again entry by entry.
\<close>

section \<open>The ZIP\<close>

definition CORE :: string where "CORE = ''docProps/core.xml''"
definition APP :: string where "APP = ''docProps/app.xml''"
definition CUSTOM :: string where "CUSTOM = ''docProps/custom.xml''"

definition COMILLA :: string where "COMILLA = [CHR 0x22]"

definition XML_CABECERA :: string where
  "XML_CABECERA =
     ''<?xml version='' @ COMILLA @ ''1.0'' @ COMILLA @ '' encoding='' @ COMILLA @ ''UTF-8'' @ COMILLA
     @ '' standalone='' @ COMILLA @ ''yes'' @ COMILLA @ ''?>'' @ [CHR 0x0D, CHR 0x0A]"

definition CORE_VACIO :: string where
  "CORE_VACIO =
     XML_CABECERA
     @ ''<cp:coreProperties xmlns:cp='' @ COMILLA @ ''http://schemas.openxmlformats.org/package/2006/metadata/core-properties''
     @ COMILLA @ '' xmlns:dc='' @ COMILLA @ ''http://purl.org/dc/elements/1.1/'' @ COMILLA
     @ '' xmlns:dcterms='' @ COMILLA @ ''http://purl.org/dc/terms/'' @ COMILLA
     @ '' xmlns:dcmitype='' @ COMILLA @ ''http://purl.org/dc/dcmitype/'' @ COMILLA
     @ '' xmlns:xsi='' @ COMILLA @ ''http://www.w3.org/2001/XMLSchema-instance'' @ COMILLA @ ''/>''"

definition APP_VACIO :: string where
  "APP_VACIO =
     XML_CABECERA
     @ ''<Properties xmlns='' @ COMILLA @ ''http://schemas.openxmlformats.org/officeDocument/2006/extended-properties''
     @ COMILLA @ '' xmlns:vt='' @ COMILLA
     @ ''http://schemas.openxmlformats.org/officeDocument/2006/docPropsVTypes'' @ COMILLA @ ''/>''"

definition CUSTOM_VACIO :: string where
  "CUSTOM_VACIO =
     XML_CABECERA
     @ ''<Properties xmlns='' @ COMILLA @ ''http://schemas.openxmlformats.org/officeDocument/2006/custom-properties''
     @ COMILLA @ '' xmlns:vt='' @ COMILLA
     @ ''http://schemas.openxmlformats.org/officeDocument/2006/docPropsVTypes'' @ COMILLA @ ''/>''"

definition u16a :: "bytes \<Rightarrow> nat \<Rightarrow> nat option" where
  "u16a d p = do { a \<leftarrow> get_at d p; b \<leftarrow> get_at d (p + 1); Some (from_le [a, b]) }"

definition u32a :: "bytes \<Rightarrow> nat \<Rightarrow> nat option" where
  "u32a d p = map_option from_le (get_range d p (p + 4))"

definition PK_LOCAL :: bytes where "PK_LOCAL = [0x50, 0x4b, 3, 4]"
definition PK_CENTRAL :: bytes where "PK_CENTRAL = [0x50, 0x4b, 1, 2]"
definition PK_FIN :: bytes where "PK_FIN = [0x50, 0x4b, 5, 6]"
definition PK_DESCRIPTOR :: bytes where "PK_DESCRIPTOR = [0x50, 0x4b, 7, 8]"

text \<open>One entry of the central directory; \<open>en_central\<close> is its whole record.\<close>

record entrada_zip =
  en_nombre :: string
  en_central :: bytes
  en_metodo :: nat
  en_flags :: nat
  en_comprimido :: nat
  en_local :: nat

text \<open>The entry at \<open>p\<close> and where the next one is.\<close>

definition entrada_en :: "bytes \<Rightarrow> nat \<Rightarrow> (entrada_zip \<times> nat) option" where
  "entrada_en d p =
     do { firma \<leftarrow> get_range d p (p + 4);
          if firma \<noteq> PK_CENTRAL then None
          else do {
            flags \<leftarrow> u16a d (p + 8);
            metodo \<leftarrow> u16a d (p + 10);
            comprimido \<leftarrow> u32a d (p + 20);
            n \<leftarrow> u16a d (p + 28);
            e \<leftarrow> u16a d (p + 30);
            c \<leftarrow> u16a d (p + 32);
            local \<leftarrow> u32a d (p + 42);
            if comprimido = 2 ^ 32 - 1 \<or> local = 2 ^ 32 - 1 then None
            else do {
              nombre \<leftarrow> get_range d (p + 46) (p + 46 + n);
              central \<leftarrow> get_range d p (p + (46 + n + e + c));
              Some (\<lparr>en_nombre = from_utf8_lossy nombre, en_central = central, en_metodo = metodo, en_flags = flags,
                     en_comprimido = comprimido, en_local = local\<rparr>, p + (46 + n + e + c)) } } }"

fun entradas_bucle :: "bytes \<Rightarrow> nat \<Rightarrow> nat \<Rightarrow> entrada_zip list option" where
  "entradas_bucle d 0 p = Some []"
| "entradas_bucle d (Suc k) p =
     do { (e, p) \<leftarrow> entrada_en d p; v \<leftarrow> entradas_bucle d k p; Some (e # v) }"

text \<open>The end record is in the last 64 KB and 22 bytes.\<close>

definition directorio :: "bytes \<Rightarrow> entrada_zip list option" where
  "directorio d =
     do { fin \<leftarrow> find (\<lambda>i. get_range d i (i + 4) = Some PK_FIN) (rev [length d - 65557..<length d - 21]);
          total \<leftarrow> u16a d (fin + 10);
          p \<leftarrow> u32a d (fin + 16);
          entradas_bucle d total p }"

definition inicio_datos :: "bytes \<Rightarrow> entrada_zip \<Rightarrow> nat option" where
  "inicio_datos d e =
     do { firma \<leftarrow> get_range d (en_local e) (en_local e + 4);
          if firma \<noteq> PK_LOCAL then None
          else do {
            n \<leftarrow> u16a d (en_local e + 26);
            x \<leftarrow> u16a d (en_local e + 28);
            Some (en_local e + 30 + n + x) } }"

definition contenido :: "bytes \<Rightarrow> entrada_zip \<Rightarrow> bytes option" where
  "contenido d e =
     do { ini \<leftarrow> inicio_datos d e;
          datos \<leftarrow> get_range d ini (ini + en_comprimido e);
          if en_metodo e = 0 then Some datos
          else if en_metodo e = 8 then sin_fallo (inflate datos)
          else None }"

definition es_office :: "entrada_zip list \<Rightarrow> bool" where
  "es_office es \<longleftrightarrow>
     list_ex (\<lambda>e. en_nombre e = ''[Content_Types].xml'') es \<and>
     list_ex (\<lambda>e. en_nombre e = CORE \<or> en_nombre e = APP \<or> starts_with ''word/'' (en_nombre e)) es"

section \<open>What the properties say\<close>

text \<open>The text of every \<open><tag \<dots>>value</tag>\<close>; the argument is what is left of the part. A tag that
  closes itself is passed over, and so is a longer one that starts with the same letters.\<close>

function etiquetas :: "string \<Rightarrow> string \<Rightarrow> string list" where
  "etiquetas tag x =
     (case busca_en (CHR ''<'' # tag) x of
        None \<Rightarrow> []
      | Some i \<Rightarrow>
          (let t = drop (i + length tag) x; r = drop 1 t
           in if r = [] \<or> hd r \<notin> {CHR ''>'', CHR '' '', CHR ''/''} then etiquetas tag r
              else case posicion ((=) CHR ''>'') r of
                     None \<Rightarrow> []
                   | Some g \<Rightarrow>
                       if t ! g = CHR ''/'' then etiquetas tag (drop g r)
                       else (case busca_en (''</'' @ tag @ ''>'') (drop g r) of
                               None \<Rightarrow> []
                             | Some f \<Rightarrow>
                                 (let v = legible (desescapa (take (f - 1) (drop (g + 1) r)));
                                      rest = etiquetas tag (drop (g + f) r)
                                  in if v \<noteq> [] then v # rest else rest))))"
  by pat_completeness auto
termination
  by (relation "measure (\<lambda>(tag, x). length x)") (auto dest!: busca_en_bound)

declare etiquetas.simps [simp del]

definition ETIQUETAS_CORE :: "(string \<times> clave_huella) list" where
  "ETIQUETAS_CORE =
     [(''dc:creator'', Autor), (''cp:lastModifiedBy'', UltimoAutor), (''dcterms:created'', Fecha),
      (''dcterms:modified'', Fecha), (''cp:lastPrinted'', Fecha), (''dc:title'', Titulo),
      (''dc:subject'', Descripcion), (''dc:description'', Descripcion), (''cp:keywords'', Descripcion)]"

definition ETIQUETAS_APP :: "(string \<times> clave_huella) list" where
  "ETIQUETAS_APP =
     [(''Company'', Empresa), (''Manager'', Responsable), (''Template'', Plantilla), (''Application'', Programa)]"

text \<open>A template without a path is every Word's.\<close>

definition sin_ruta :: "clave_huella \<Rightarrow> string \<Rightarrow> bool" where
  "sin_ruta c t \<longleftrightarrow> c = Plantilla \<and> CHR 0x5C \<notin> set t \<and> CHR ''/'' \<notin> set t"

definition mira_etiqueta :: "string \<Rightarrow> informe \<Rightarrow> string \<times> clave_huella \<Rightarrow> informe" where
  "mira_etiqueta xml i x =
     (case x of (tag, c) \<Rightarrow>
        foldl (\<lambda>i t. if sin_ruta c t then i else anade [Huella_new c t] i) i (etiquetas tag xml))"

text \<open>An entry of the directory; the flag says whether every part was read.\<close>

definition mira_entrada :: "bytes \<Rightarrow> informe \<times> bool \<Rightarrow> entrada_zip \<Rightarrow> informe \<times> bool" where
  "mira_entrada d s e =
     (case s of (i, leido) \<Rightarrow>
        if en_nombre e \<notin> {CORE, APP, CUSTOM} then s
        else
          (let lista = (if en_nombre e = CORE then ETIQUETAS_CORE else if en_nombre e = APP then ETIQUETAS_APP else []);
               i = (if en_nombre e = CUSTOM then anade [Huella_new Propiedades []] i else i)
           in case contenido d e of
                None \<Rightarrow> (i, False)
              | Some xml \<Rightarrow> (foldl (mira_etiqueta (from_utf8_lossy xml)) i lista, leido)))"

definition mira_office :: "bytes \<Rightarrow> informe option" where
  "mira_office d =
     (if \<not> starts_with PK_LOCAL d then None
      else do {
        entradas \<leftarrow> directorio d;
        if \<not> es_office entradas then None
        else
          (let (i, leido) = foldl (mira_entrada d) (Informe_nuevo ''office'', True) entradas;
               i = (if leido then i else anade [Huella_new Propiedades []] i)
           in Some (i\<lparr>in_limpiable := True\<rparr>)) })"

section \<open>The clean copy\<close>

definition local_nuevo :: "bytes \<Rightarrow> nat \<Rightarrow> bytes \<Rightarrow> bytes option" where
  "local_nuevo nombre flags datos =
     (if 2 ^ 32 \<le> length datos \<or> 2 ^ 16 \<le> length nombre then None
      else Some (PK_LOCAL @ le_bytes 2 20 @ le_bytes 2 (flags AND 0x0800) @ le_bytes 2 0 @ le_bytes 2 0
        @ le_bytes 2 0x0021 @ le_bytes 4 (unat (crc32 datos)) @ le_bytes 4 (length datos) @ le_bytes 4 (length datos)
        @ le_bytes 2 (length nombre) @ le_bytes 2 0 @ nombre @ datos))"

text \<open>\<open>get_mut(a..b)?.copy_from_slice(x)\<close>, with an \<open>x\<close> that is \<open>b - a\<close> long.\<close>

definition pon_rango :: "nat \<Rightarrow> bytes \<Rightarrow> bytes \<Rightarrow> bytes option" where
  "pon_rango a x c = (if a + length x \<le> length c then Some (pon_zona c a x) else None)"

definition vacio_de :: "string \<Rightarrow> string option" where
  "vacio_de nombre =
     (if nombre = CORE then Some CORE_VACIO
      else if nombre = APP then Some APP_VACIO
      else if nombre = CUSTOM then Some CUSTOM_VACIO
      else None)"

text \<open>A part of properties: the new local entry and its central record, which says the same and
  carries no extra field. The record is as long as its name, extra field and comment say, so
  what \<open>drain\<close> takes out is inside it.\<close>

definition parte_vaciada :: "entrada_zip \<Rightarrow> bytes \<Rightarrow> (bytes \<times> bytes) option" where
  "parte_vaciada e xml =
     do { let n = length (en_nombre e);
          nombre \<leftarrow> get_range (en_central e) 46 (46 + n);
          local \<leftarrow> local_nuevo nombre (en_flags e) xml;
          c \<leftarrow> pon_rango 6 (le_bytes 2 20) (en_central e);
          c \<leftarrow> pon_rango 8 (le_bytes 2 (en_flags e AND 0x0800)) c;
          c \<leftarrow> pon_rango 10 (le_bytes 2 0) c;
          sumas \<leftarrow> get_range local 14 26;
          c \<leftarrow> pon_rango 16 sumas c;
          x \<leftarrow> u16a c 30;
          c \<leftarrow> pon_rango 30 (le_bytes 2 0) (take (46 + n) c @ drop (46 + n + x) c);
          Some (local, c) }"

text \<open>Any other part: its bytes as they were, with the data descriptor of flag bit 3, and no time.\<close>

definition parte_copiada :: "bytes \<Rightarrow> entrada_zip \<Rightarrow> bytes option" where
  "parte_copiada d e =
     do { ini \<leftarrow> inicio_datos d e;
          let fin = ini + en_comprimido e;
          let fin = (if en_flags e AND 0x0008 \<noteq> 0
                     then fin + (if get_range d fin (fin + 4) = Some PK_DESCRIPTOR then 16 else 12) else fin);
          trozo \<leftarrow> get_range d (en_local e) fin;
          pon_rango 10 [0, 0, 0x21, 0] trozo }"

definition parte_limpia :: "bytes \<Rightarrow> entrada_zip \<Rightarrow> (bytes \<times> bytes) option" where
  "parte_limpia d e =
     (case vacio_de (en_nombre e) of
        Some xml \<Rightarrow> parte_vaciada e (str_bytes xml)
      | None \<Rightarrow> map_option (\<lambda>t. (t, en_central e)) (parte_copiada d e))"

fun office_bucle :: "bytes \<Rightarrow> nat \<Rightarrow> entrada_zip list \<Rightarrow> (bytes \<times> bytes) option" where
  "office_bucle d offset [] = Some ([], [])"
| "office_bucle d offset (e # es) =
     (if 2 ^ 32 \<le> offset then None
      else do {
        (local, c) \<leftarrow> parte_limpia d e;
        c \<leftarrow> pon_rango 12 [0, 0, 0x21, 0] c;
        c \<leftarrow> pon_rango 42 (le_bytes 4 offset) c;
        (out, central) \<leftarrow> office_bucle d (offset + length local) es;
        Some (local @ out, c @ central) })"

definition limpia_office :: "bytes \<Rightarrow> bytes option" where
  "limpia_office d =
     do { entradas \<leftarrow> directorio d;
          if \<not> es_office entradas then None
          else do {
            (out, central) \<leftarrow> office_bucle d 0 entradas;
            if 2 ^ 32 \<le> length out \<or> 2 ^ 32 \<le> length central \<or> 2 ^ 16 \<le> length entradas then None
            else Some (out @ central @ PK_FIN @ [0, 0, 0, 0] @ le_bytes 2 (length entradas) @ le_bytes 2 (length entradas)
              @ le_bytes 4 (length central) @ le_bytes 4 (length out) @ le_bytes 2 0) } }"

section \<open>Any file\<close>

definition mirar :: "(string \<Rightarrow> string) \<Rightarrow> bytes \<Rightarrow> informe" where
  "mirar lower d =
     (if TAMANO_MAXIMO < length d then Informe_nuevo ''otro''
      else case mira_jpeg lower d of Some i \<Rightarrow> i | None \<Rightarrow>
           (case mira_png lower d of Some i \<Rightarrow> i | None \<Rightarrow>
           (case mira_heic lower d of Some i \<Rightarrow> i | None \<Rightarrow>
           (case mira_pdf d of Some i \<Rightarrow> i | None \<Rightarrow>
           (case mira_office d of Some i \<Rightarrow> i | None \<Rightarrow> Informe_nuevo ''otro'')))))"

definition limpiar :: "(string \<Rightarrow> string) \<Rightarrow> bytes \<Rightarrow> fallo_limpiar + bytes" where
  "limpiar lower d =
     (if TAMANO_MAXIMO < length d then Inl Grande
      else
        (let i = mirar lower d; f = in_formato i
         in if \<not> in_limpiable i then Inl NoSoportado
            else if f \<notin> {''jpeg'', ''png'', ''heic'', ''pdf'', ''office''} then Inl NoSoportado
            else case (if f = ''jpeg'' then limpia_jpeg lower d
                       else if f = ''png'' then limpia_png d
                       else if f = ''heic'' then limpia_heic d
                       else if f = ''pdf'' then limpia_pdf d
                       else limpia_office d) of
                   Some out \<Rightarrow> Inr out
                 | None \<Rightarrow> Inl Danado))"

end
