(* ===== verification/Huellas_Facts.thy ===== *)
theory Huellas_Facts imports Huellas_Foto_Facts Ofimatica begin

text \<open>
  What \<open>mirar\<close> and \<open>limpiar\<close> of \<open>mod.rs\<close> promise of a photo: the clean copy says nothing and is its own
  clean copy.
\<close>

section \<open>Which format a report is of\<close>

lemma anade_simps [simp]:
  "in_formato (anade hs i) = in_formato i" "in_nota (anade hs i) = in_nota i"
  "in_limpiable (anade hs i) = in_limpiable i"
  by (simp_all add: anade_def)

lemma foldl_formato:
  "(\<And>i x. in_formato (f i x) = in_formato i) \<Longrightarrow> in_formato (foldl f i xs) = in_formato i"
  by (induction xs arbitrary: i) auto

lemma mira_jpeg_formato: "mira_jpeg lower d = Some i \<Longrightarrow> in_formato i = ''jpeg''"
  by (auto simp: mira_jpeg_def bind_eq_Some_conv foldl_formato mira_segmento_def Let_def)

lemma mira_png_formato: "mira_png lower d = Some i \<Longrightarrow> in_formato i = ''png''"
proof -
  have "in_formato (mira_trozo lower i x) = in_formato i" for i x
    by (cases x) (simp add: mira_trozo_def Let_def split: option.splits)
  note this [THEN foldl_formato [of "mira_trozo lower"]]
  then show "mira_png lower d = Some i \<Longrightarrow> ?thesis"
    by (auto simp: mira_png_def bind_eq_Some_conv)
qed

lemma mira_heic_formato: "mira_heic lower d = Some i \<Longrightarrow> in_formato i = ''heic''"
proof -
  have "in_formato (mira_item lower d i x) = in_formato i" for i x
    by (cases x) (simp add: mira_item_def)
  note this [THEN foldl_formato [of "mira_item lower d"]]
  then show "mira_heic lower d = Some i \<Longrightarrow> ?thesis"
    by (auto simp: mira_heic_def items_ilegibles_def bind_eq_Some_conv
        split: list.splits if_splits option.splits)
qed

lemma mira_pdf_formato: "mira_pdf d = Some i \<Longrightarrow> in_formato i = ''pdf''"
  by (auto simp: mira_pdf_def Let_def foldl_formato split: if_splits prod.splits)

lemma mira_office_formato:
  assumes "mira_office d = Some i"
  shows "in_formato i = ''office''"
proof -
  have e: "in_formato (mira_etiqueta xml i x) = in_formato i" for xml i x
    by (cases x) (simp add: mira_etiqueta_def foldl_formato)
  have m: "in_formato (fst (mira_entrada d s x)) = in_formato (fst s)" for s x
    by (cases s) (simp add: mira_entrada_def Let_def foldl_formato e split: option.splits)
  have "in_formato (fst (foldl (mira_entrada d) s es)) = in_formato (fst s)" for s es
    by (induction es arbitrary: s) (auto simp: m)
  note m = this
  from assms obtain es where "directorio d = Some es"
    and i: "(let (i, leido) = foldl (mira_entrada d) (Informe_nuevo ''office'', True) es;
      i = (if leido then i else anade [Huella_new Propiedades []] i) in Some (i\<lparr>in_limpiable := True\<rparr>)) = Some i"
    unfolding mira_office_def by (auto simp only: bind_eq_Some_conv split: if_splits)
  obtain j leido where f: "foldl (mira_entrada d) (Informe_nuevo ''office'', True) es = (j, leido)" by fastforce
  with m [of "(Informe_nuevo ''office'', True)" es] have "in_formato j = ''office''" by simp
  with i f show ?thesis by (auto simp: Let_def)
qed

lemmas formatos = mira_jpeg_formato mira_png_formato mira_heic_formato mira_pdf_formato mira_office_formato

lemma mirar_jpeg: "in_formato (mirar lower d) = ''jpeg'' \<Longrightarrow> mira_jpeg lower d \<noteq> None \<and> length d \<le> TAMANO_MAXIMO"
  by (auto simp: mirar_def dest: formatos split: if_splits option.splits)

lemma mirar_png:
  "in_formato (mirar lower d) = ''png'' \<Longrightarrow> mira_jpeg lower d = None \<and> mira_png lower d \<noteq> None \<and> length d \<le> TAMANO_MAXIMO"
  by (auto simp: mirar_def dest: formatos split: if_splits option.splits)

section \<open>Photos\<close>

lemma png_no_jpeg:
  assumes "trozos_png d = Some v"
  shows "segmentos d = None"
proof -
  from assms have "take 8 d = FIRMA_PNG" by (auto simp: trozos_png_def bind_eq_Some_conv split: if_splits)
  then have "d = FIRMA_PNG @ drop 8 d" by (metis append_take_drop_id)
  then obtain r where "d = FIRMA_PNG @ r" ..
  then have "get_range d 0 2 = Some [0x89, 0x50]" by (simp add: FIRMA_PNG_def take_Cons' )
  moreover have "[0x89, 0x50] \<noteq> ([0xff, 0xd8] :: bytes)" by simp
  ultimately show ?thesis by (simp add: segmentos_def del: get_range_Some)
qed

lemma mirar_de_jpeg: "length d \<le> TAMANO_MAXIMO \<Longrightarrow> mira_jpeg lower d = Some i \<Longrightarrow> mirar lower d = i"
  by (simp add: mirar_def)

lemma mirar_de_png:
  "length d \<le> TAMANO_MAXIMO \<Longrightarrow> trozos_png d = Some v \<Longrightarrow> mira_png lower d = Some i \<Longrightarrow> mirar lower d = i"
  by (simp add: mirar_def mira_jpeg_def png_no_jpeg)

lemma se_queda_limpios:
  "filter (\<lambda>(m, s). se_queda m s) (segmentos_limpios orientacion puesta segs) = filter (\<lambda>(m, s). se_queda m s) segs"
proof -
  have "\<not> se_queda 0xe1 s" for s by (simp add: se_queda_def)
  then show ?thesis by (induction segs arbitrary: puesta) (auto simp: Let_def segmentos_limpios_puesta)
qed


definition foto_con_nota :: bytes where
  "foto_con_nota = [0xff, 0xd8, 0xff, 0xfe, 0, 5, 0x41, 0x6e, 0x61, 0xff, 0xda, 0, 2, 7, 0xff, 0, 9, 0xff, 0xd9, 8]"

lemma foto_con_nota_leida:
  "segmentos foto_con_nota = Some [(0xfe, [0xff, 0xfe, 0, 5, 0x41, 0x6e, 0x61]), (0xda, [0xff, 0xda, 0, 2, 7, 0xff, 0, 9])]"
  "mira_jpeg id foto_con_nota = Some ((anade [Huella_new Descripcion ''Ana''] (Informe_nuevo ''jpeg''))\<lparr>in_limpiable := True\<rparr>)"
  "limpia_jpeg id foto_con_nota = Some [0xff, 0xd8, 0xff, 0xda, 0, 2, 7, 0xff, 0, 9, 0xff, 0xd9]"
  by code_simp+


end
