(* ===== verification/Papel_Facts.thy ===== *)
theory Papel_Facts imports Huellas_Foto_Facts Ofimatica begin

text \<open>
  The clean copies of \<open>heic.rs\<close> and \<open>pdf.rs\<close>, byte by byte: a list of edits in place, what each one
  keeps, and what the PDF reader does not see.
\<close>

section \<open>In place\<close>

lemma length_pon_zona [simp]: "ini + length z \<le> length out \<Longrightarrow> length (pon_zona out ini z) = length out"
  by (simp add: pon_zona_def)

lemma nth_pon_zona:
  "ini + length z \<le> length out \<Longrightarrow> i < length out \<Longrightarrow>
     pon_zona out ini z ! i = (if ini \<le> i \<and> i < ini + length z then z ! (i - ini) else out ! i)"
  by (auto simp: pon_zona_def nth_append min_def)

text \<open>A list of edits, each of a zone by a function that keeps its length.\<close>

type_synonym edicion = "nat \<times> nat \<times> (bytes \<Rightarrow> bytes)"

fun edita :: "bytes \<Rightarrow> edicion list \<Rightarrow> bytes option" where
  "edita out [] = Some out"
| "edita out ((ini, fin, g) # v) =
     do { zona \<leftarrow> get_range out ini fin; edita (pon_zona out ini (g zona)) v }"

definition ediciones_ok :: "nat \<Rightarrow> edicion list \<Rightarrow> bool" where
  "ediciones_ok n v \<longleftrightarrow> list_all (\<lambda>(ini, fin, g). ini \<le> fin \<and> fin \<le> n \<and> (\<forall>z. length (g z) = length z)) v"

lemma ediciones_ok_simps [simp]:
  "ediciones_ok n []"
  "ediciones_ok n ((ini, fin, g) # v) \<longleftrightarrow> ini \<le> fin \<and> fin \<le> n \<and> (\<forall>z. length (g z) = length z) \<and> ediciones_ok n v"
  "ediciones_ok n (v @ w) \<longleftrightarrow> ediciones_ok n v \<and> ediciones_ok n w"
  by (auto simp: ediciones_ok_def)

lemma edita_Cons:
  assumes "ediciones_ok (length out) ((ini, fin, g) # v)"
  shows "edita out ((ini, fin, g) # v) = edita (pon_zona out ini (g (zona_de out ini fin))) v"
    "length (pon_zona out ini (g (zona_de out ini fin))) = length out"
    "length (zona_de out ini fin) = fin - ini"
  using assms by (auto simp: zona_de_def get_range_def pon_zona_def min_def)

lemma edita_largo:
  "ediciones_ok (length out) v \<Longrightarrow> \<exists>out'. edita out v = Some out' \<and> length out' = length out"
proof (induction v arbitrary: out)
  case (Cons x v)
  obtain ini fin g where x: "x = (ini, fin, g)" by (metis prod_cases3)
  note e = edita_Cons [OF Cons.prems [unfolded x]]
  have "ediciones_ok (length (pon_zona out ini (g (zona_de out ini fin)))) v" using Cons.prems x e(2) by simp
  from Cons.IH [OF this] show ?case by (simp only: x e)
qed simp

lemma edita_append: "edita out (v @ w) = do { out \<leftarrow> edita out v; edita out w }"
  by (induction v arbitrary: out) auto

text \<open>What each byte keeps: what every edit of a zone it is in keeps.\<close>

lemma edita_conserva:
  assumes "edita out v = Some out'" "ediciones_ok (length out) v"
    "\<And>i. i < length out \<Longrightarrow> Q i (out ! i)"
    "\<And>ini fin g z i. \<lbrakk>(ini, fin, g) \<in> set v; ini \<le> i; i < fin; length z = fin - ini; Q i (z ! (i - ini))\<rbrakk>
       \<Longrightarrow> Q i (g z ! (i - ini))"
    "i < length out"
  shows "Q i (out' ! i)"
  using assms
proof (induction v arbitrary: out)
  case (Cons x v)
  obtain ini fin g where x: "x = (ini, fin, g)" by (metis prod_cases3)
  note e = edita_Cons [OF Cons.prems(2) [unfolded x]]
  define z where "z = zona_de out ini fin"
  define out1 where "out1 = pon_zona out ini (g z)"
  have ok: "ini \<le> fin" "fin \<le> length out" "length (g z) = fin - ini" "length z = fin - ini"
    using Cons.prems(2) x e(3) by (simp_all add: z_def)
  have l: "length out1 = length out" using e(2) by (simp add: out1_def z_def)
  have Q1: "Q j (out1 ! j)" if j: "j < length out" for j
  proof (cases "ini \<le> j \<and> j < fin")
    case True
    then obtain k where "j = ini + k" "k < fin - ini" by (auto simp: le_iff_add)
    then have "z ! (j - ini) = out ! j" using ok by (simp add: z_def zona_de_def)
    with True Cons.prems(3) [OF j] Cons.prems(4) [of ini fin g j z] ok x
    show ?thesis using j by (simp add: out1_def nth_pon_zona)
  next
    case False
    with Cons.prems(3) [OF j] ok j show ?thesis by (auto simp: out1_def nth_pon_zona)
  qed
  show ?case
  proof (rule Cons.IH)
    show "edita out1 v = Some out'" using Cons.prems(1) x e(1) by (simp add: out1_def z_def)
    show "ediciones_ok (length out1) v" using Cons.prems(2) x l by simp
    show "Q j (out1 ! j)" if "j < length out1" for j using Q1 that l by simp
    show "Q j (g' z' ! (j - ini'))"
      if "(ini', fin', g') \<in> set v" "ini' \<le> j" "j < fin'" "length z' = fin' - ini'" "Q j (z' ! (j - ini'))"
      for ini' fin' g' z' j using Cons.prems(4) [of ini' fin' g' j z'] that by simp
    show "i < length out1" using Cons.prems(5) l by simp
  qed
qed simp

lemma edita_fuera:
  assumes "edita out v = Some out'" "ediciones_ok (length out) v" "i < length out"
    "\<And>ini fin g. (ini, fin, g) \<in> set v \<Longrightarrow> \<not> (ini \<le> i \<and> i < fin)"
  shows "out' ! i = out ! i"
  using edita_conserva [OF assms(1,2), of "\<lambda>j b. j = i \<longrightarrow> b = out ! i" i] assms(3,4) by blast

subsection \<open>PDF\<close>

lemma length_blanquea_hex [simp]: "length (blanquea_hex b z) = length z"
  by (induction b z rule: blanquea_hex.induct) auto

lemma nth_blanquea_hex:
  "i < length z \<Longrightarrow> blanquea_hex b z ! i = z ! i \<and> \<not> es_hex (z ! i) \<or>
     blanquea_hex b z ! i \<in> {0x30, 0x32} \<and> es_hex (z ! i)"
proof (induction z arbitrary: b i)
  case (Cons x z)
  show ?case
  proof (cases i)
    case (Suc j)
    with Cons.IH [of j] Cons.prems show ?thesis by simp
  qed simp
qed simp

lemma valores_clave_bounds:
  "(c', lit, ini, fin) \<in> set (valores_clave d k c p) \<Longrightarrow> ini \<le> fin \<and> fin \<le> length d"
proof (induction d k c p rule: valores_clave.induct)
  case (1 d k c p)
  note step = "1.prems" [unfolded valores_clave.simps [of d k c p]]
  show ?case
  proof (cases "busca d k p")
    case None
    with step show ?thesis by simp
  next
    case (Some i)
    note IH = "1.IH" [OF Some]
    show ?thesis
    proof (cases "\<exists>b. get_at d (i + length k) = Some b \<and> es_alnum b")
      case True
      with step Some IH(1) show ?thesis by simp
    next
      case False
      show ?thesis
      proof (cases "valor_pdf d (i + length k)")
        case None
        with step Some False IH(2) [OF False None] show ?thesis by auto
      next
        case v: (Some r)
        obtain l a b where r: "r = (l, a, b)" by (metis prod_cases3)
        have "(c', lit, ini, fin) = (c, l, a, b) \<or> (c', lit, ini, fin) \<in> set (valores_clave d k c b)"
          using step by (simp only: Some False v r option.case if_False prod.case list.set insert_iff)
        then show ?thesis
        proof
          assume "(c', lit, ini, fin) = (c, l, a, b)"
          with valor_pdf_bounds [of d "i + length k" l a b] v r show ?thesis by simp
        next
          assume "(c', lit, ini, fin) \<in> set (valores_clave d k c b)"
          then show ?thesis by (rule IH(3) [OF False v r [symmetric] refl])
        qed
      qed
    qed
  qed
qed

lemma valores_bounds: "(c, lit, ini, fin) \<in> set (valores d) \<Longrightarrow> ini \<le> fin \<and> fin \<le> length d"
  by (auto simp: valores_def dest!: valores_clave_bounds)

lemma paquetes_bounds: "(ini, fin) \<in> set (paquetes_desde d p) \<Longrightarrow> ini \<le> fin \<and> fin \<le> length d"
proof (induction d p rule: paquetes_desde.induct)
  case (1 d p)
  note step = "1.prems" [unfolded paquetes_desde.simps [of d p]]
  show ?case
  proof (cases "busca d XMP_ABRE p")
    case None
    with step show ?thesis by simp
  next
    case (Some i)
    show ?thesis
    proof (cases "busca d XMP_CIERRA i")
      case None
      with step Some show ?thesis by simp
    next
      case f: (Some f)
      with step Some "1.IH" [OF Some f] busca_bounds [OF f] show ?thesis by auto
    qed
  qed
qed

definition blanquea :: "bool \<Rightarrow> bytes \<Rightarrow> bytes" where
  "blanquea lit zona = (if lit then replicate (length zona) 32 else blanquea_hex False zona)"

lemma limpia_valores_edita: "limpia_valores out v = edita out (map (\<lambda>(c, lit, ini, fin). (ini, fin, blanquea lit)) v)"
proof (induction v arbitrary: out)
  case (Cons x v)
  obtain c lit ini fin where x: "x = (c, lit, ini, fin)" by (metis prod_cases4)
  show ?case
    by (cases "get_range out ini fin") (simp_all add: x Cons.IH blanquea_def del: get_range_Some)
qed simp

lemma limpia_paquetes_edita:
  "limpia_paquetes out v = edita out (map (\<lambda>(ini, fin). (ini, fin, \<lambda>zona. paquete_limpio (length zona))) v)"
proof (induction v arbitrary: out)
  case (Cons x v)
  obtain ini fin where x: "x = (ini, fin)" by fastforce
  show ?case by (cases "get_range out ini fin") (simp_all add: x Cons.IH del: get_range_Some)
qed simp

lemma length_paquete_limpio [simp]: "length (paquete_limpio n) = n"
  by (simp add: paquete_limpio_def str_bytes_def)

lemma ediciones_pdf:
  "ediciones_ok (length d) (map (\<lambda>(c, lit, ini, fin). (ini, fin, blanquea lit)) (valores d))"
  "ediciones_ok (length d) (map (\<lambda>(ini, fin). (ini, fin, \<lambda>zona. paquete_limpio (length zona))) (paquetes d))"
  by (auto simp: ediciones_ok_def list_all_iff blanquea_def paquetes_def dest: valores_bounds paquetes_bounds)

text \<open>What a byte of a value's zone may be: a space in a literal; in hexadecimal, a blank digit or
  what it was when it is no digit.\<close>

definition sin_dato :: "bool \<Rightarrow> byte \<Rightarrow> byte \<Rightarrow> bool" where
  "sin_dato lit orig b \<longleftrightarrow> b = 0x20 \<or> \<not> lit \<and> (b \<in> {0x30, 0x32} \<or> b = orig \<and> \<not> es_hex b)"

lemma nth_blanquea:
  "i < length z \<Longrightarrow> if lit then blanquea lit z ! i = 0x20
     else blanquea lit z ! i = z ! i \<and> \<not> es_hex (z ! i) \<or> blanquea lit z ! i \<in> {0x30, 0x32} \<and> es_hex (z ! i)"
  using nth_blanquea_hex [of i z False] by (auto simp: blanquea_def)

lemma no_hex_espacio [simp]: "\<not> es_hex 0x20"
  by (simp add: es_hex_def word_le_nat_alt)

lemma blanquea_sin_dato:
  assumes "i < length z" "z ! i = orig \<or> z ! i \<in> {0x20, 0x30, 0x32}"
  shows "sin_dato lit orig (blanquea lit z ! i)"
  using nth_blanquea [OF assms(1), of lit] assms(2) by (cases lit) (auto simp: sin_dato_def)

lemma sin_dato_conserva:
  assumes "i < length z" "sin_dato lit' orig (z ! i)"
  shows "sin_dato lit' orig (blanquea lit z ! i)"
  using nth_blanquea [OF assms(1), of lit] assms(2) by (cases lit) (auto simp: sin_dato_def)

abbreviation en_valor :: "bytes \<Rightarrow> nat \<Rightarrow> bool" where
  "en_valor d i \<equiv> \<exists>(c, lit, ini, fin) \<in> set (valores d). ini \<le> i \<and> i < fin"

abbreviation en_paquete :: "bytes \<Rightarrow> nat \<Rightarrow> bool" where
  "en_paquete d i \<equiv> \<exists>(ini, fin) \<in> set (paquetes d). ini \<le> i \<and> i < fin"

lemma limpia_valores_zona:
  assumes "limpia_valores d (valores d) = Some out" "(c, lit, ini, fin) \<in> set (valores d)" "ini \<le> i" "i < fin"
  shows "sin_dato lit (d ! i) (out ! i)"
proof -
  let ?e = "\<lambda>(c, lit, ini, fin). (ini, fin, blanquea lit)"
  from split_list [OF assms(2)] obtain v1 v2 where v: "valores d = v1 @ (c, lit, ini, fin) # v2" by blast
  have ok: "ediciones_ok (length d) (map ?e v1)" "ediciones_ok (length d) [(ini, fin, blanquea lit)]"
    "ediciones_ok (length d) (map ?e v2)" using ediciones_pdf(1) [of d] by (simp_all add: v)
  from edita_largo [OF ok(1)] obtain o1 where o1: "edita d (map ?e v1) = Some o1" "length o1 = length d" by blast
  from ok(2) have ok2: "ini \<le> fin" "fin \<le> length o1" by (simp_all add: o1(2))
  define o2 where "o2 = pon_zona o1 ini (blanquea lit (zona_de o1 ini fin))"
  note c = edita_Cons [of o1 ini fin "blanquea lit" "map ?e v2", folded o2_def]
  have "ediciones_ok (length o1) ((ini, fin, blanquea lit) # map ?e v2)" using ok(2,3) o1(2) by simp
  note c = c [OF this]
  from c(2) o1(2) have o2: "length o2 = length d" by simp
  have "edita o1 ((ini, fin, blanquea lit) # map ?e v2) = Some out"
    using assms(1) o1(1) by (simp add: limpia_valores_edita v edita_append del: edita.simps(2))
  with c(1) have e: "edita o2 (map ?e v2) = Some out" by (simp only:)
  have "o1 ! j = d ! j \<or> o1 ! j \<in> {0x20, 0x30, 0x32}" if "j < length d" for j
  proof (rule edita_conserva [OF o1(1) ok(1), of "\<lambda>j b. b = d ! j \<or> b \<in> {0x20, 0x30, 0x32}" j])
    fix ini fin g j and z :: bytes
    assume "(ini, fin, g) \<in> set (map ?e v1)" and j: "ini \<le> j" "j < fin" "length z = fin - ini"
      "z ! (j - ini) = d ! j \<or> z ! (j - ini) \<in> {0x20, 0x30, 0x32}"
    then obtain lit where g: "g = blanquea lit" by auto
    have "j - ini < length z" using j by simp
    from nth_blanquea [OF this, of lit] j(4) g show "g z ! (j - ini) = d ! j \<or> g z ! (j - ini) \<in> {0x20, 0x30, 0x32}"
      by (cases lit) auto
  qed (use that in auto)
  moreover have "o2 ! j = blanquea lit (zona_de o1 ini fin) ! (j - ini)" "zona_de o1 ini fin ! (j - ini) = o1 ! j"
    if "ini \<le> j" "j < fin" for j
  proof -
    from that obtain k where "j = ini + k" "k < fin - ini" by (auto simp: le_iff_add)
    with ok2 that show "zona_de o1 ini fin ! (j - ini) = o1 ! j"
      "o2 ! j = blanquea lit (zona_de o1 ini fin) ! (j - ini)"
      by (simp_all add: o2_def nth_pon_zona zona_de_def blanquea_def)
  qed
  moreover have "length (zona_de o1 ini fin) = fin - ini" using ok2 by (simp add: zona_de_def)
  ultimately have z: "sin_dato lit (d ! j) (o2 ! j)" if "ini \<le> j" "j < fin" for j
    using that ok2 o1(2) blanquea_sin_dato [of "j - ini" "zona_de o1 ini fin" "d ! j" lit] by simp
  have "ini \<le> i \<and> i < fin \<longrightarrow> sin_dato lit (d ! i) (out ! i)"
  proof (rule edita_conserva [OF e, of "\<lambda>j b. ini \<le> j \<and> j < fin \<longrightarrow> sin_dato lit (d ! j) b" i])
    show "ediciones_ok (length o2) (map ?e v2)" using ok(3) o2 by simp
    show "i < length o2" using assms(4) ok2 o1(2) o2 by simp
  qed (use z sin_dato_conserva in auto)
  with assms(3,4) show ?thesis by simp
qed


definition documento_con_marcador :: bytes where
  "documento_con_marcador = str_bytes ''%PDF-</Title (Uno)>''"

lemma documento_con_marcador_leido:
  "valores documento_con_marcador = [(Titulo, True, 14, 17)]" "paquetes documento_con_marcador = []"
  by code_simp+


text \<open>A document whose author is kept by reference, as many programs write it.\<close>

definition REF_ANTES :: bytes where "REF_ANTES = str_bytes ''%PDF-1 1 0 obj (''"
definition REF_DESPUES :: bytes where "REF_DESPUES = str_bytes '') endobj 2 0 obj <</Author 1 0 R>> endobj''"

definition autor_por_referencia :: "bytes \<Rightarrow> bytes" where
  "autor_por_referencia nombre = REF_ANTES @ nombre @ REF_DESPUES"

lemma busca_en_lejos:
  assumes "a \<noteq> []" "hd a \<notin> set xs"
  shows "busca_en a (xs @ ys) = map_option ((+) (length xs)) (busca_en a ys)"
  using assms(2)
proof (induction xs)
  case (Cons x xs)
  have "\<not> starts_with a (x # xs @ ys)" using Cons.prems assms(1) by (cases a) (auto simp: starts_with_iff)
  with Cons show ?case by (simp add: option.map_comp comp_def)
qed (cases "busca_en a ys"; simp)

lemma ref_busca:
  "busca_en (str_bytes ''/Author'') REF_DESPUES = Some 19"
  "busca_en (str_bytes ''/ObjStm'') REF_DESPUES = None" "busca_en XMP_ABRE REF_DESPUES = None"
  "busca_en (str_bytes ''/Author'') (drop 26 REF_DESPUES) = None"
  "list_all (\<lambda>(k, c). k \<noteq> [] \<and> hd k = 0x2f \<and> busca_en k REF_DESPUES = None) (tl CLAVES_PDF)"
  by code_simp+

text \<open>What is searched for starts with a stroke or an angle bracket, and before the key there is none.\<close>

lemma ref_lejos:
  assumes "0x2f \<notin> set nombre" "0x3c \<notin> set nombre" "a \<noteq> []" "hd a = 0x2f \<or> hd a = 0x3c"
  shows "busca (autor_por_referencia nombre) a 0 =
    map_option ((+) (length REF_ANTES + length nombre)) (busca_en a REF_DESPUES)"
proof -
  have "hd a \<notin> set (REF_ANTES @ nombre)"
    using assms by (auto simp: REF_ANTES_def str_bytes_def)
  from busca_en_lejos [OF assms(3) this, of REF_DESPUES]
  have "busca_en a (autor_por_referencia nombre) = map_option ((+) (length REF_ANTES + length nombre)) (busca_en a REF_DESPUES)"
    by (simp add: autor_por_referencia_def)
  moreover have "autor_por_referencia nombre \<noteq> []" by (simp add: autor_por_referencia_def REF_ANTES_def str_bytes_def)
  ultimately show ?thesis using assms(3) by (cases "busca_en a REF_DESPUES") (simp_all add: busca_def)
qed

lemma ref_valores:
  assumes "0x2f \<notin> set nombre" "0x3c \<notin> set nombre"
  shows "valores (autor_por_referencia nombre) = []"
proof -
  let ?d = "autor_por_referencia nombre"
  let ?n = "length REF_ANTES + length nombre"
  have dr: "drop (?n + j) ?d = drop j REF_DESPUES" for j by (simp add: autor_por_referencia_def)
  have at: "get_at ?d (?n + j) = get_at REF_DESPUES j" for j
    by (auto simp: autor_por_referencia_def get_at_def nth_append)
  have len: "length REF_DESPUES = 41" by (simp add: REF_DESPUES_def str_bytes_def)
  have chars: "get_at REF_DESPUES 26 = Some 0x20" "get_at REF_DESPUES 27 = Some 0x31"
    by (simp_all add: REF_DESPUES_def str_bytes_def get_at_def)
  have author: "valores_clave ?d (str_bytes ''/Author'') c 0 = []" for c
  proof -
    have b1: "busca ?d (str_bytes ''/Author'') 0 = Some (?n + 19)"
      using ref_lejos [OF assms, of "str_bytes ''/Author''"] ref_busca(1)
      by (simp add: str_bytes_def)
    have l7: "length (str_bytes ''/Author'') = 7" by (simp add: str_bytes_def)
    have b2: "busca ?d (str_bytes ''/Author'') (?n + 26) = None"
      using ref_busca(4) by (simp only: busca_def dr) simp
    have s: "salta_blancos ?d (?n + 26) = ?n + 27"
    proof -
      have n1: "?n + 26 < length ?d" "?d ! (?n + 26) = 0x20" "?n + 27 < length ?d" "?d ! (?n + 27) = 0x31"
        using at [of 26] at [of 27] chars by (auto simp: get_at_def autor_por_referencia_def len split: if_splits)
      show ?thesis
      proof -
        have "salta_blancos ?d (?n + 26) = salta_blancos ?d (?n + 26 + 1)"
          using n1(1,2) by (subst salta_blancos.simps) (simp add: es_blanco_def)
        also have "?n + 26 + 1 = ?n + 27" by simp
        also have "salta_blancos ?d (?n + 27) = ?n + 27"
          using n1(3,4) by (subst salta_blancos.simps) (simp add: es_blanco_def)
        finally show ?thesis .
      qed
    qed
    have v: "valor_pdf ?d (?n + 26) = None"
      unfolding valor_pdf_def Let_def s by (simp only: at chars bind.bind_lunit) simp
    have "valores_clave ?d (str_bytes ''/Author'') c (?n + 26) = []"
      by (subst valores_clave.simps) (simp only: b2 option.case)
    moreover have "\<not> (\<exists>b. get_at ?d (?n + 26) = Some b \<and> es_alnum b)"
      by (simp only: at chars) (simp add: es_alnum_def word_le_nat_alt)
    ultimately show ?thesis
      by (subst valores_clave.simps) (simp only: b1 option.case l7 add.assoc v if_False, simp add: v add.assoc [symmetric])
  qed
  have otras: "valores_clave ?d k c 0 = []" if k: "(k, c) \<in> set (tl CLAVES_PDF)" for k c
  proof -
    from k ref_busca(5) have "busca ?d k 0 = None" using ref_lejos [OF assms, of k] by (auto simp: list_all_iff)
    then show ?thesis by (simp add: valores_clave.simps)
  qed
  have "valores ?d = valores_clave ?d (str_bytes ''/Author'') Autor 0
      @ concat (map (\<lambda>(k, c). valores_clave ?d k c 0) (tl CLAVES_PDF))"
    by (simp add: valores_def CLAVES_PDF_def)
  moreover have "concat (map (\<lambda>(k, c). valores_clave ?d k c 0) (tl CLAVES_PDF)) = []" using otras by auto
  ultimately show ?thesis using author by simp
qed

text \<open>The author kept by reference is not seen, not told of and not taken out: whatever the name
  (with no stroke or angle bracket), the document says nothing, with no note, and its clean copy is
  the document itself.\<close>

theorem author_by_reference_is_not_seen:
  assumes "0x2f \<notin> set nombre" "0x3c \<notin> set nombre" "length nombre \<le> 4096"
  shows "\<not> delata (mirar lower (autor_por_referencia nombre)) \<and> in_limpiable (mirar lower (autor_por_referencia nombre)) \<and>
    limpiar lower (autor_por_referencia nombre) = Inr (autor_por_referencia nombre)"
proof -
  let ?d = "autor_por_referencia nombre"
  have len: "length ?d \<le> TAMANO_MAXIMO" "57 \<le> length ?d" "length ?d \<le> 4153"
    using assms(3) by (simp_all add: autor_por_referencia_def REF_ANTES_def REF_DESPUES_def str_bytes_def TAMANO_MAXIMO_def)
  have p: "paquetes ?d = []"
    using ref_lejos [OF assms(1,2), of XMP_ABRE] ref_busca(3)
    by (simp add: paquetes_def paquetes_desde.simps XMP_ABRE_def str_bytes_def)
  have c: "\<not> comprimido_pdf ?d"
    using ref_lejos [OF assms(1,2), of "str_bytes ''/ObjStm''"] ref_busca(2)
    by (simp add: comprimido_pdf_def str_bytes_def)
  obtain r where r: "?d = 0x25 # 0x50 # 0x44 # 0x46 # 0x2d # 0x31 # 0x20 # 0x31 # r"
    by (simp add: autor_por_referencia_def REF_ANTES_def str_bytes_def)
  have f: "starts_with PDF_FIRMA ?d" by (simp add: r PDF_FIRMA_def str_bytes_def starts_with_def)
  have m: "mira_pdf ?d = Some (Informe_nuevo ''pdf'' \<lparr>in_limpiable := True\<rparr>)"
    by (simp add: mira_pdf_def f ref_valores [OF assms(1,2)] p c)
  have l: "limpia_pdf ?d = Some ?d"
    by (simp add: limpia_pdf_def f ref_valores [OF assms(1,2)] p)
  have j: "mira_jpeg lower ?d = None" by (simp add: mira_jpeg_def segmentos_def r get_range_def)
  have g: "mira_png lower ?d = None" by (simp add: mira_png_def trozos_png_def r get_range_def FIRMA_PNG_def)
  have "cajas ?d 0 (length ?d) = []"
  proof -
    have "get_range ?d 0 (0 + 8) = Some [0x25, 0x50, 0x44, 0x46, 0x2d, 0x31, 0x20, 0x31]" by (simp add: r)
    moreover have "from_be [0x25, 0x50, 0x44, 0x46] = 626017350" by (simp add: from_be_def)
    ultimately show ?thesis
      using len by (subst cajas.simps) (simp del: get_range_Some)
  qed
  then have h: "mira_heic lower ?d = None" by (simp add: mira_heic_def)
  have "mirar lower ?d = Informe_nuevo ''pdf'' \<lparr>in_limpiable := True\<rparr>"
    using len(1) by (simp add: mirar_def j g h m)
  then show ?thesis using len(1) l by (simp add: delata_def limpiar_def)
qed

lemma author_by_reference_is_not_seen_witness:
  "\<not> delata (mirar id (autor_por_referencia (str_bytes ''Ana Perez''))) \<and>
   limpiar id (autor_por_referencia (str_bytes ''Ana Perez'')) = Inr (autor_por_referencia (str_bytes ''Ana Perez''))"
  using author_by_reference_is_not_seen [of "str_bytes ''Ana Perez''" id] by (simp add: str_bytes_def)

subsection \<open>HEIC\<close>

lemma length_EXIF_VACIO [simp]: "length EXIF_VACIO = 14"
  by (simp add: EXIF_VACIO_def str_bytes_def)

lemma length_zona_limpia [simp]: "length (zona_limpia exif n) = n"
  by (simp add: zona_limpia_def str_bytes_def)

text \<open>An EXIF zone that was cleaned says nothing.\<close>

lemma exif_lee_corto: "length d < 4 \<Longrightarrow> exif_lee lower d = exif_vacio"
  by (auto simp: exif_lee_def get_range_def Let_def)

lemma cuatro_ceros: "replicate 4 (0::byte) = [0, 0, 0, 0]"
  by (simp add: numeral_eq_Suc)

lemma exif_lee_ceros: "exif_lee lower (replicate n 0) = exif_vacio"
proof (cases "4 \<le> n")
  case True
  then have "get_range (replicate n (0::byte)) 0 4 = Some [0, 0, 0, 0]"
    by (simp add: take_replicate min_def cuatro_ceros)
  then show ?thesis by (simp add: exif_lee_def str_bytes_def del: get_range_Some)
qed (simp add: exif_lee_corto)

lemma exif_lee_vacio_y_ceros: "exif_lee lower (EXIF_VACIO @ replicate n 0) = exif_vacio"
  unfolding EXIF_VACIO_def exif_lee_def
  by (simp add: Let_def get_range_def str_bytes_def tiff_u32_def tiff_u16_def get_at_def u16_de_be
      from_be_def ifd_def exif_vacio_def exif_inicio_def exif_dispositivo_def exif_exif_def exif_gps_def)

lemma from_be_ceros: "from_be (replicate n 0) = 0"
  by (induction n) (simp_all add: from_be_def)

lemma tiff_del_item_ceros: "tiff_del_item (replicate 4 0 @ r) = r"
proof -
  have "get_range (replicate 4 0 @ r) 0 4 = Some (replicate 4 0)" by simp
  then show ?thesis by (simp add: tiff_del_item_def be_u64_def from_be_ceros del: get_range_Some)
qed

lemma zona_exif_limpia: "exif_lee lower (tiff_del_item (zona_limpia True n)) = exif_vacio"
proof (cases "18 \<le> n")
  case True
  then show ?thesis
    by (simp only: zona_limpia_def if_True length_EXIF_VACIO tiff_del_item_ceros exif_lee_vacio_y_ceros)
      (simp add: tiff_del_item_ceros exif_lee_vacio_y_ceros)
next
  case False
  then have z: "zona_limpia True n = replicate n 0" by (simp add: zona_limpia_def)
  show ?thesis
  proof (cases "4 \<le> n")
    case True
    then have "replicate n (0::byte) = replicate 4 0 @ replicate (n - 4) 0"
      by (metis le_add_diff_inverse replicate_add)
    then show ?thesis by (simp only: z tiff_del_item_ceros exif_lee_ceros)
  next
    case False
    then show ?thesis
      by (simp add: z tiff_del_item_def be_u64_def get_range_def exif_lee_corto)
  qed
qed

text \<open>An XMP zone that was cleaned says nothing either: no name that is looked for is in the empty
  packet, and spaces after it add none.\<close>

lemma starts_with_relleno:
  assumes "a \<noteq> []" "last a \<noteq> c"
  shows "starts_with a (xs @ replicate n c) \<longleftrightarrow> starts_with a xs"
proof
  assume "starts_with a (xs @ replicate n c)"
  then obtain r where r: "xs @ replicate n c = a @ r" by (auto simp: starts_with_iff)
  then consider us where "xs = a @ us" | us where "a = xs @ us" "us @ r = replicate n c"
    by (auto simp: append_eq_append_conv2)
  then show "starts_with a xs"
  proof cases
    case (2 us)
    have "us = []"
    proof (rule ccontr)
      assume "us \<noteq> []"
      with 2(1) have "last a = last us" "last us \<in> set (us @ r)" by simp_all
      with 2(2) assms(2) show False by simp
    qed
    with 2 show ?thesis by (simp add: starts_with_iff)
  qed (simp add: starts_with_iff)
qed (auto simp: starts_with_iff)

lemma busca_en_relleno:
  assumes "a \<noteq> []" "last a \<noteq> c"
  shows "busca_en a (xs @ replicate n c) = busca_en a xs"
proof (induction xs)
  case Nil
  have "\<not> starts_with a (replicate k c)" for k
    using starts_with_relleno [OF assms, of "[]" k] assms(1) by (simp add: starts_with_iff)
  note no = this
  have "busca_en a (replicate n c) = None" for n
  proof (induction n)
    case (Suc n)
    with no [of "Suc n"] show ?case by simp
  qed (simp add: assms(1))
  then show ?case by (simp add: assms(1))
next
  case (Cons x xs)
  then show ?case using starts_with_relleno [OF assms, of "x # xs" n] by simp
qed

lemma lossy_ascii_list: "\<forall>b \<in> set bs. b < 0x80 \<Longrightarrow> from_utf8_lossy bs = map byte_char bs"
  by (induction bs) auto

lemma unat_of_char: "unat (of_char c :: byte) = char_code c"
proof -
  have "(of_char c :: byte) = of_nat (char_code c)" by (simp only: of_nat_of_char)
  then show ?thesis using char_code_lt [of c] by (simp only: unat_of_nat) simp
qed

lemma byte_char_of_char [simp]: "byte_char (of_char c) = c"
  by (simp add: byte_char_def unat_of_char)

lemma lossy_str_bytes:
  assumes "list_all (\<lambda>c. char_code c < 128) s"
  shows "from_utf8_lossy (str_bytes s) = s"
proof -
  have "\<forall>b \<in> set (str_bytes s). b < 0x80"
    using assms by (auto simp: str_bytes_def list_all_iff word_less_nat_alt unat_of_char)
  then show ?thesis by (simp add: lossy_ascii_list str_bytes_def comp_def)
qed

text \<open>A pattern with two neighbours that are not neighbours in the text is not in it.\<close>

definition parejas :: "'a list \<Rightarrow> ('a \<times> 'a) list" where
  "parejas xs = zip xs (tl xs)"

lemma parejas_simps [simp]:
  "parejas [] = []" "parejas [a] = []" "parejas (a # b # xs) = (a, b) # parejas (b # xs)"
  by (simp_all add: parejas_def)

lemma parejas_dentro: "set (parejas p) \<subseteq> set (parejas (u @ p @ v))"
proof -
  have "set (parejas p) \<subseteq> set (parejas (p @ v))" by (induction p rule: induct_list012) auto
  moreover have "set (parejas q) \<subseteq> set (parejas (u @ q))" for q
  proof (induction u)
    case (Cons x u)
    then show ?case by (cases "u @ q") auto
  qed simp
  ultimately show ?thesis by blast
qed

lemma busca_en_Some: "busca_en p s = Some i \<Longrightarrow> \<exists>u v. s = u @ p @ v"
proof (induction s arbitrary: i)
  case (Cons x s)
  show ?case
  proof (cases "starts_with p (x # s)")
    case True
    then show ?thesis by (auto simp: starts_with_iff intro: exI [of _ "[]"])
  next
    case False
    with Cons.prems obtain j where "busca_en p s = Some j" by auto
    with Cons.IH obtain u v where "s = u @ p @ v" by blast
    then show ?thesis by (auto intro: exI [of _ "x # u"])
  qed
qed (simp split: if_splits)

lemma busca_en_pareja:
  assumes "x \<in> set (parejas p)" "x \<notin> set (parejas s)"
  shows "busca_en p s = None"
  using assms busca_en_Some parejas_dentro by (metis not_None_eq subsetD)

lemma xmp_valores_None: "busca_en p s = None \<Longrightarrow> xmp_valores p f s = []"
  by (simp add: xmp_valores.simps)

text \<open>After a colon the empty packet has no letter that a name has there.\<close>

definition tras_dos_puntos :: "char list \<Rightarrow> string \<Rightarrow> bool" where
  "tras_dos_puntos cs s \<longleftrightarrow> list_all (\<lambda>(a, b). a = CHR '':'' \<longrightarrow> b \<in> set cs) (parejas s)"

lemma busca_en_dos_puntos:
  assumes "tras_dos_puntos cs s" "\<not> tras_dos_puntos cs p"
  shows "busca_en p s = None"
proof -
  from assms(2) obtain b where "(CHR '':'', b) \<in> set (parejas p)" "b \<notin> set cs"
    by (auto simp: tras_dos_puntos_def list_all_iff)
  moreover from this assms(1) have "(CHR '':'', b) \<notin> set (parejas s)"
    by (auto simp: tras_dos_puntos_def list_all_iff)
  ultimately show ?thesis using busca_en_pareja by metis
qed

lemma tras_dos_puntos_dentro: "tras_dos_puntos cs (u @ p @ v) \<Longrightarrow> tras_dos_puntos cs p"
  using parejas_dentro [of p u v] by (auto simp: tras_dos_puntos_def list_all_iff)

lemma XMP_VACIO_letras:
  "tras_dos_puntos ''xnm'' XMP_VACIO" "list_all (\<lambda>(n, c). \<not> tras_dos_puntos ''xnm'' n) XMP_NOMBRES"
  "\<not> tras_dos_puntos ''xnm'' ''<dc:creator''" "list_all (\<lambda>c. char_code c < 128) XMP_VACIO"
  by code_simp+

lemma XMP_VACIO_sin_nombres:
  "(n, c) \<in> set XMP_NOMBRES \<Longrightarrow> busca_en (u @ n @ v) XMP_VACIO = None" "busca_en ''<dc:creator'' XMP_VACIO = None"
  using XMP_VACIO_letras busca_en_dos_puntos tras_dos_puntos_dentro by (fastforce simp: list_all_iff)+

lemma xmp_vacio_no_dice: "xmp_huellas (str_bytes XMP_VACIO @ replicate n 32) = []"
proof -
  have rep: "str_bytes XMP_VACIO @ replicate n 32 = str_bytes (XMP_VACIO @ replicate n CHR '' '')"
    by (simp add: str_bytes_def)
  have x: "from_utf8_lossy (str_bytes XMP_VACIO @ replicate n 32) = XMP_VACIO @ replicate n CHR '' ''"
    unfolding rep using XMP_VACIO_letras(4) by (intro lossy_str_bytes) (auto simp: list_all_iff)
  have v: "xmp_valores (m @ [CHR ''='', CHR 0x22]) f (XMP_VACIO @ replicate n CHR '' '') = [] \<and>
      xmp_valores (''<'' @ m @ ''>'') f (XMP_VACIO @ replicate n CHR '' '') = []" if "(m, c) \<in> set XMP_NOMBRES" for m c f
    using XMP_VACIO_sin_nombres(1) [OF that, of "[]" "[CHR ''='', CHR 0x22]"] XMP_VACIO_sin_nombres(1) [OF that, of "''<''" "''>''"]
    by (intro conjI xmp_valores_None; subst busca_en_relleno) simp_all
  have "foldl (\<lambda>v (m, c).
      foldl (xmp_pon c) (foldl (xmp_pon c) v (xmp_valores (m @ [CHR ''='', CHR 0x22]) CHR 0x22 (XMP_VACIO @ replicate n CHR '' '')))
        (xmp_valores (''<'' @ m @ ''>'') CHR ''<'' (XMP_VACIO @ replicate n CHR '' ''))) [] XMP_NOMBRES = []"
    by (rule foldl_nada) (use v in auto)
  then show ?thesis
    by (simp add: xmp_huellas_def x Let_def busca_en_relleno XMP_VACIO_sin_nombres(2))
qed

lemma xmp_espacios_no_dice: "xmp_huellas (replicate n 32) = []"
proof -
  have x: "from_utf8_lossy (replicate n 32) = replicate n CHR '' ''"
    using lossy_str_bytes [of "replicate n CHR '' ''"] by (simp add: str_bytes_def list_all_iff)
  have b: "busca_en a (replicate n CHR '' '') = None" if "a \<noteq> []" "last a \<noteq> CHR '' ''" for a
    using busca_en_relleno [OF that, of "[]" n] that(1) by simp
  have "foldl (\<lambda>v (m, c).
      foldl (xmp_pon c) (foldl (xmp_pon c) v (xmp_valores (m @ [CHR ''='', CHR 0x22]) CHR 0x22 (replicate n CHR '' '')))
        (xmp_valores (''<'' @ m @ ''>'') CHR ''<'' (replicate n CHR '' ''))) [] XMP_NOMBRES = []"
    by (rule foldl_nada) (auto simp: b xmp_valores_None)
  then show ?thesis by (simp add: xmp_huellas_def x Let_def b)
qed

lemma zona_xmp_limpia: "xmp_huellas (zona_limpia False n) = []"
  by (simp add: zona_limpia_def xmp_vacio_no_dice xmp_espacios_no_dice)

lemma lugar_de_bounds: "lugar_de d m b ps = Some (ini, fin) \<Longrightarrow> ini \<le> fin \<and> fin \<le> length d"
  by (auto simp: lugar_de_def Let_def split: list.splits if_splits)

lemma iloc_bucle_bounds:
  "iloc_bucle d a tipos k p = Some v \<Longrightarrow> (e, ini, fin) \<in> set v \<Longrightarrow> ini \<le> fin \<and> fin \<le> length d"
proof (induction k arbitrary: p v)
  case (Suc k)
  from Suc.prems(1) obtain i m b ps q where "iloc_entrada d a p = Some (i, m, b, ps, q)" and
    r: "(case map_of tipos i of None \<Rightarrow> iloc_bucle d a tipos k q
         | Some exif \<Rightarrow> do { (ini, fin) \<leftarrow> lugar_de d m b ps; v \<leftarrow> iloc_bucle d a tipos k q; Some ((exif, ini, fin) # v) }) = Some v"
    by (auto simp: bind_eq_Some_conv)
  show ?case
  proof (cases "map_of tipos i")
    case None
    with r Suc.IH Suc.prems(2) show ?thesis by simp
  next
    case (Some x)
    with r obtain a' b' w where w: "lugar_de d m b ps = Some (a', b')" "iloc_bucle d a tipos k q = Some w"
      "v = (x, a', b') # w" by (auto simp: bind_eq_Some_conv)
    with Suc.IH [OF w(2)] Suc.prems(2) lugar_de_bounds [OF w(1)] show ?thesis by auto
  qed
qed simp

lemma items_cabecera:
  assumes "items d = Some lista"
  obtains ftyp top where "cajas d 0 (length d) = ftyp # top" "es_caja ''ftyp'' ftyp"
  using assms by (auto simp: items_def Let_def split: list.splits if_splits)

lemma items_bounds:
  assumes "items d = Some lista" "(e, ini, fin) \<in> set lista"
  shows "ini \<le> fin \<and> fin \<le> length d"
proof -
  from assms(1) have "lista = [] \<or> (\<exists>hijos tipos. items_lugares d hijos tipos = Some lista)"
    by (auto simp: items_def Let_def bind_eq_Some_conv split: list.splits if_splits)
  with assms(2) show ?thesis
    by (auto simp: items_lugares_def Let_def bind_eq_Some_conv dest: iloc_bucle_bounds)
qed

lemma limpia_items_edita:
  "limpia_items out v = edita out (map (\<lambda>(e, ini, fin). (ini, fin, \<lambda>zona. zona_limpia e (length zona))) v)"
proof (induction v arbitrary: out)
  case (Cons x v)
  obtain e ini fin where x: "x = (e, ini, fin)" by (metis prod_cases3)
  show ?case by (cases "get_range out ini fin") (simp_all add: x Cons.IH del: get_range_Some)
qed simp

text \<open>Zones that share no byte.\<close>

definition separadas :: "(bool \<times> nat \<times> nat) list \<Rightarrow> bool" where
  "separadas v \<longleftrightarrow> sorted_wrt (\<lambda>(e, ini, fin) (e', ini', fin'). fin \<le> ini' \<or> fin' \<le> ini) v"

lemma limpia_items_zona:
  assumes "limpia_items d v = Some out" "separadas v" "(e, ini, fin) \<in> set v"
    "\<And>e ini fin. (e, ini, fin) \<in> set v \<Longrightarrow> ini \<le> fin \<and> fin \<le> length d"
  shows "zona_de out ini fin = zona_limpia e (fin - ini)"
proof -
  let ?e = "\<lambda>(e, ini, fin). (ini, fin, \<lambda>zona :: bytes. zona_limpia e (length zona))"
  let ?z = "zona_limpia e (fin - ini)"
  from split_list [OF assms(3)] obtain v1 v2 where v: "v = v1 @ (e, ini, fin) # v2" by blast
  have ok: "ediciones_ok (length d) (map ?e v)"
    using assms(4) by (fastforce simp: ediciones_ok_def list_all_iff)
  then have ok1: "ediciones_ok (length d) (map ?e v1)" by (simp add: v)
  from edita_largo [OF ok1] obtain o1 where o1: "edita d (map ?e v1) = Some o1" "length o1 = length d" by blast
  have okr: "ediciones_ok (length o1) ((ini, fin, \<lambda>zona. zona_limpia e (length zona)) # map ?e v2)"
    using ok by (simp add: v o1(2))
  note c = edita_Cons [OF okr]
  define o2 where "o2 = pon_zona o1 ini ?z"
  have "edita o1 ((ini, fin, \<lambda>zona. zona_limpia e (length zona)) # map ?e v2) = Some out"
    using assms(1) o1(1) by (simp add: limpia_items_edita v edita_append del: edita.simps(2))
  with c have e2: "edita o2 (map ?e v2) = Some out" "length o2 = length d" by (simp_all add: o2_def o1(2))
  have b: "ini \<le> fin" "fin \<le> length d" using assms(3,4) by blast+
  have q: "ini \<le> i \<and> i < fin \<longrightarrow> out ! i = ?z ! (i - ini)" if i: "i < length d" for i
  proof (rule edita_conserva [OF e2(1), of "\<lambda>i b. ini \<le> i \<and> i < fin \<longrightarrow> b = ?z ! (i - ini)" i])
    show "ediciones_ok (length o2) (map ?e v2)" using okr o1(2) e2(2) by simp
    show "ini \<le> j \<and> j < fin \<longrightarrow> o2 ! j = ?z ! (j - ini)" if "j < length o2" for j
      using that b o1(2) e2(2) by (auto simp: o2_def nth_pon_zona)
    fix ini' fin' g j and z :: bytes
    assume "(ini', fin', g) \<in> set (map ?e v2)" "ini' \<le> j" "j < fin'"
    then have "\<not> (ini \<le> j \<and> j < fin)" using assms(2) by (fastforce simp: v separadas_def sorted_wrt_append)
    then show "ini \<le> j \<and> j < fin \<longrightarrow> g z ! (j - ini') = ?z ! (j - ini)" by blast
  qed (use i e2(2) in simp)
  have "length out = length d"
    using edita_largo [of o2 "map ?e v2"] okr o1(2) e2 by auto
  show ?thesis
  proof (rule nth_equalityI)
    show "length (zona_de out ini fin) = length ?z" using b \<open>length out = length d\<close> by (simp add: zona_de_def)
    fix k assume "k < length (zona_de out ini fin)"
    then have k: "k < fin - ini" by (simp add: zona_de_def)
    with b q [of "ini + k"] show "zona_de out ini fin ! k = ?z ! k"
      using \<open>length out = length d\<close> by (simp add: zona_de_def)
  qed
qed

lemma limpia_items_limpios:
  assumes "\<And>e ini fin. (e, ini, fin) \<in> set v \<Longrightarrow> ini \<le> fin \<and> fin \<le> length out \<and> zona_de out ini fin = zona_limpia e (fin - ini)"
  shows "limpia_items out v = Some out"
  using assms
proof (induction v)
  case (Cons x v)
  obtain e ini fin where x: "x = (e, ini, fin)" by (metis prod_cases3)
  from Cons.prems [of e ini fin] x have b: "ini \<le> fin" "fin \<le> length out" "zona_de out ini fin = zona_limpia e (fin - ini)"
    by auto
  have r: "get_range out ini fin = Some (zona_de out ini fin)" using b by (simp add: zona_de_def)
  have "length (zona_de out ini fin) = fin - ini" using b by (simp add: zona_de_def)
  moreover have "pon_zona out ini (zona_de out ini fin) = out"
    using get_range_parts(1,3) [OF r] b by (simp add: pon_zona_def)
  ultimately have "limpia_items out (x # v) = limpia_items out v" using b(3) by (simp only: x limpia_items.simps r bind.bind_lunit)
  moreover have "limpia_items out v = Some out" by (rule Cons.IH) (use Cons.prems in auto)
  ultimately show ?case by simp
qed simp

text \<open>A HEIC whose items are followed always has a clean copy, as long as the file, and equal to
  it outside the bytes of its EXIF and XMP items; each item is left empty, and when the boxes read
  the same in the copy (no item's bytes are a box's), the copy says nothing and is its own clean
  copy.\<close>

theorem heic_is_cleaned_in_place:
  assumes "items d = Some lista" "separadas lista"
  shows "\<exists>out. limpia_heic d = Some out \<and> length out = length d \<and>
    (\<forall>i < length d. \<not> (\<exists>(e, ini, fin) \<in> set lista. ini \<le> i \<and> i < fin) \<longrightarrow> out ! i = d ! i) \<and>
    (\<forall>(e, ini, fin) \<in> set lista. zona_de out ini fin = zona_limpia e (fin - ini)) \<and>
    (items out = Some lista \<longrightarrow>
       mira_heic lower out = Some (Informe_nuevo ''heic'' \<lparr>in_limpiable := True\<rparr>) \<and> limpia_heic out = Some out)"
proof -
  let ?e = "\<lambda>(e, ini, fin). (ini, fin, \<lambda>zona :: bytes. zona_limpia e (length zona))"
  note b = items_bounds [OF assms(1)]
  then have ok: "ediciones_ok (length d) (map ?e lista)" by (auto simp: ediciones_ok_def list_all_iff)
  from edita_largo [OF ok] obtain out where out: "limpia_items d lista = Some out" "length out = length d"
    by (auto simp: limpia_items_edita)
  have z: "zona_de out ini fin = zona_limpia e (fin - ini)" if "(e, ini, fin) \<in> set lista" for e ini fin
    by (rule limpia_items_zona [OF out(1) assms(2) that b])
  have m: "mira_item lower out (Informe_nuevo ''heic'' \<lparr>in_limpiable := True\<rparr>) x = Informe_nuevo ''heic'' \<lparr>in_limpiable := True\<rparr>"
    if "x \<in> set lista" for x
  proof -
    obtain e ini fin where x: "x = (e, ini, fin)" by (metis prod_cases3)
    with that z have "zona_de out ini fin = zona_limpia e (fin - ini)" by simp
    with x show ?thesis
      using zona_exif_limpia zona_xmp_limpia by (cases e) (simp_all add: mira_item_def exif_vacio_def)
  qed
  show ?thesis
  proof (intro exI [of _ out] conjI impI)
    show "limpia_heic d = Some out" by (simp add: limpia_heic_def assms(1) out(1))
    show "length out = length d" by (rule out(2))
    show "\<forall>i < length d. \<not> (\<exists>(e, ini, fin) \<in> set lista. ini \<le> i \<and> i < fin) \<longrightarrow> out ! i = d ! i"
      using edita_fuera [OF out(1) [unfolded limpia_items_edita] ok] by force
    show "\<forall>(e, ini, fin) \<in> set lista. zona_de out ini fin = zona_limpia e (fin - ini)" using z by blast
    assume i: "items out = Some lista"
    have f: "foldl (mira_item lower out) (Informe_nuevo ''heic'' \<lparr>in_limpiable := True\<rparr>) lista
        = Informe_nuevo ''heic'' \<lparr>in_limpiable := True\<rparr>"
      by (rule foldl_nada) (rule m)
    obtain c cs where "cajas out 0 (length out) = c # cs" "es_caja ''ftyp'' c" by (rule items_cabecera [OF i])
    then show "mira_heic lower out = Some (Informe_nuevo ''heic'' \<lparr>in_limpiable := True\<rparr>)"
      by (simp add: mira_heic_def i f)
    show "limpia_heic out = Some out"
      using limpia_items_limpios [of lista out] z b out(2) by (simp add: limpia_heic_def i)
  qed
qed

text \<open>A HEIC of two boxes and one EXIF item of four bytes.\<close>

definition foto_heic :: "byte \<Rightarrow> byte \<Rightarrow> byte \<Rightarrow> byte \<Rightarrow> bytes" where
  "foto_heic a b c d =
     [0, 0, 0, 12, 102, 116, 121, 112, 104, 101, 105, 99, 0, 0, 0, 70, 109, 101, 116, 97,
      0, 0, 0, 0, 0, 0, 0, 34, 105, 105, 110, 102, 0, 0, 0, 0, 0, 1, 0, 0,
      0, 20, 105, 110, 102, 101, 2, 0, 0, 0, 0, 1, 0, 0, 69, 120, 105, 102, 0, 0,
      0, 24, 105, 108, 111, 99, 0, 0, 0, 0, 17, 0, 0, 1, 0, 1, 0, 0, 0, 1,
      82, 4,
      a, b, c, d]"

lemma foto_heic_cajas: "cajas (foto_heic a b c d) 0 86 = [\<lparr>ca_tipo = str_bytes ''ftyp'', ca_ini = 8, ca_fin = 12\<rparr>, \<lparr>ca_tipo = str_bytes ''meta'', ca_ini = 20, ca_fin = 82\<rparr>]"
  by (simp add: cajas.simps foto_heic_def get_range_def from_be_def str_bytes_def)

lemma foto_heic_hijos: "cajas (foto_heic a b c d) 24 82 = [\<lparr>ca_tipo = str_bytes ''iinf'', ca_ini = 32, ca_fin = 58\<rparr>, \<lparr>ca_tipo = str_bytes ''iloc'', ca_ini = 66, ca_fin = 82\<rparr>]"
  by (simp add: cajas.simps foto_heic_def get_range_def from_be_def str_bytes_def)

lemma foto_heic_infe: "cajas (foto_heic a b c d) 38 58 = [\<lparr>ca_tipo = str_bytes ''infe'', ca_ini = 46, ca_fin = 58\<rparr>]"
  by (simp add: cajas.simps foto_heic_def get_range_def from_be_def str_bytes_def)


lemma foto_heic_largo: "length (foto_heic a b c d) = 86" by (simp add: foto_heic_def)

lemma foto_heic_tipos: "items_tipos (foto_heic a b c d) [\<lparr>ca_tipo = str_bytes ''iinf'', ca_ini = 32, ca_fin = 58\<rparr>, \<lparr>ca_tipo = str_bytes ''iloc'', ca_ini = 66, ca_fin = 82\<rparr>] = Some [(1, True)]"
  by (simp add: items_tipos_def es_caja_def str_bytes_def get_at_def foto_heic_infe infe_item_def, simp add: foto_heic_def be_u64_def get_range_def get_at_def from_be_def foto_heic_infe [unfolded str_bytes_def, simplified] infe_item_def str_bytes_def es_caja_def)


lemma foto_heic_numeros: "be_u64 (foto_heic a b c d) 72 2 = Some 1" "be_u64 (foto_heic a b c d) 74 2 = Some 1" "be_u64 (foto_heic a b c d) 78 0 = Some 0" "be_u64 (foto_heic a b c d) 78 2 = Some 1"
  "be_u64 (foto_heic a b c d) 80 (Suc 0) = Some 82" "be_u64 (foto_heic a b c d) 81 (Suc 0) = Some 4" "get_at (foto_heic a b c d) 66 = Some 0" "get_at (foto_heic a b c d) 70 = Some 0x11" "get_at (foto_heic a b c d) 71 = Some 0"
  by (simp_all add: foto_heic_def be_u64_def get_range_def from_be_def get_at_def)

lemma foto_heic_lugares: "items_lugares (foto_heic a b c d) [\<lparr>ca_tipo = str_bytes ''iinf'', ca_ini = 32, ca_fin = 58\<rparr>, \<lparr>ca_tipo = str_bytes ''iloc'', ca_ini = 66, ca_fin = 82\<rparr>] [(1, True)] = Some [(True, 82, 86)]"
  by (simp add: items_lugares_def es_caja_def str_bytes_def foto_heic_numeros iloc_entrada_def lugar_de_def Let_def foto_heic_largo del: get_at_Some)

lemma foto_heic_items: "items (foto_heic a b c d) = Some [(True, 82, 86)]"
  using foto_heic_cajas foto_heic_hijos foto_heic_tipos foto_heic_lugares by (simp add: items_def foto_heic_largo es_caja_def marca_heic_def Let_def MARCAS_HEIC_def str_bytes_def get_range_def, simp add: foto_heic_def)

lemma heic_is_cleaned_in_place_witness:
  "\<exists>out. limpia_heic (foto_heic 65 110 110 97) = Some out \<and> length out = 86 \<and>
     zona_de out 82 86 = replicate 4 0 \<and> take 82 out = take 82 (foto_heic 65 110 110 97)"
proof -
  have s: "separadas [(True, 82, 86)]" by (simp add: separadas_def)
  from heic_is_cleaned_in_place [OF foto_heic_items [of 65 110 110 97] s, of id] obtain out where
    out: "limpia_heic (foto_heic 65 110 110 97) = Some out" "length out = 86" "zona_de out 82 86 = zona_limpia True 4"
      "\<forall>i < 86. \<not> (82 \<le> i \<and> i < 86) \<longrightarrow> out ! i = foto_heic 65 110 110 97 ! i"
    by (auto simp: foto_heic_largo)
  have "take 82 out = take 82 (foto_heic 65 110 110 97)"
    using out(2,4) foto_heic_largo [of 65 110 110 97] by (intro nth_equalityI) simp_all
  with out show ?thesis by (simp add: zona_limpia_def)
qed

end
