(* ===== verification/Ofimatica_Facts.thy ===== *)
theory Ofimatica_Facts imports Huellas_Facts Papel_Facts begin

text \<open>
  The clean copy of an Office document, \<open>ooxml.rs\<close>: its directory reads back with the same names, the
  parts of properties are the empty ones, and any other part has the bytes it had.
\<close>

section \<open>Reading fields of a record\<close>

lemma u16a_range: "u16a d p = map_option from_le (get_range d p (p + 2))"
proof (cases "p + 1 < length d")
  case True
  then have "drop p d = d ! p # d ! (p + 1) # drop (p + 2) d"
    by (metis Cons_nth_drop_Suc Suc_eq_plus1 Suc_lessD add_2_eq_Suc')
  with True show ?thesis by (simp add: u16a_def get_at_def get_range_def)
next
  case False
  then show ?thesis by (auto simp: u16a_def get_at_def get_range_def)
qed

lemma u16a_mid: "k + 2 \<le> length t \<Longrightarrow> u16a (pre @ t @ post) (length pre + k) = u16a t k"
  using get_range_mid [of "k + 2" t pre post k] by (simp add: u16a_range add.assoc)

lemma u32a_mid: "k + 4 \<le> length t \<Longrightarrow> u32a (pre @ t @ post) (length pre + k) = u32a t k"
  using get_range_mid [of "k + 4" t pre post k] by (simp add: u32a_def add.assoc)

lemma u16a_sub: "get_range d p q = Some t \<Longrightarrow> k + 2 \<le> length t \<Longrightarrow> u16a d (p + k) = u16a t k"
  by (metis get_range_parts(1,2) u16a_mid)

lemma u32a_sub: "get_range d p q = Some t \<Longrightarrow> k + 4 \<le> length t \<Longrightarrow> u32a d (p + k) = u32a t k"
  by (metis get_range_parts(1,2) u32a_mid)

lemma get_range_pon_fuera:
  "a + length x \<le> length c \<Longrightarrow> h \<le> a \<or> a + length x \<le> l \<Longrightarrow> get_range (pon_zona c a x) l h = get_range c l h"
  by (auto simp: get_range_def pon_zona_def intro!: nth_equalityI simp: nth_append)

lemma get_range_pon_dentro:
  "a + length x \<le> length c \<Longrightarrow> h = a + length x \<Longrightarrow> get_range (pon_zona c a x) a h = Some x"
  by (auto simp: get_range_def pon_zona_def)

lemma pon_rango_Some: "pon_rango a x c = Some c' \<longleftrightarrow> a + length x \<le> length c \<and> c' = pon_zona c a x"
  by (auto simp: pon_rango_def)

text \<open>The fields of a record \<open>c\<close>, one by one.\<close>

definition campos_de :: "bytes \<Rightarrow> entrada_zip \<Rightarrow> nat \<Rightarrow> nat \<Rightarrow> nat \<Rightarrow> bytes \<Rightarrow> bool" where
  "campos_de c e n x k nombre \<longleftrightarrow>
     get_range c 0 4 = Some PK_CENTRAL \<and> u16a c 8 = Some (en_flags e) \<and> u16a c 10 = Some (en_metodo e) \<and>
     u32a c 20 = Some (en_comprimido e) \<and> u16a c 28 = Some n \<and> u16a c 30 = Some x \<and> u16a c 32 = Some k \<and>
     u32a c 42 = Some (en_local e) \<and> en_comprimido e \<noteq> 2 ^ 32 - 1 \<and> en_local e \<noteq> 2 ^ 32 - 1 \<and>
     get_range c 46 (46 + n) = Some nombre \<and> en_nombre e = from_utf8_lossy nombre \<and>
     en_central e = c \<and> length c = 46 + n + x + k"

lemma entrada_en_campos:
  assumes "campos_de c e n x k nombre"
  shows "entrada_en (pre @ c @ post) (length pre) = Some (e, length (pre @ c))"
proof -
  have len: "46 \<le> length c" "46 + n \<le> length c" using assms by (simp_all add: campos_de_def)
  have g: "get_range (pre @ c @ post) (length pre + a) (length pre + b) = get_range c a b" if "b \<le> length c" for a b
    by (rule get_range_mid [OF that])
  have r: "get_range (pre @ c @ post) (length pre) (length pre + 4) = Some PK_CENTRAL"
    "get_range (pre @ c @ post) (length pre + 46) (length pre + 46 + n) = Some nombre"
    "get_range (pre @ c @ post) (length pre) (length pre + length c) = Some c"
    using g [of 4 0] g [of "46 + n" 46] g [of "length c" 0] len assms
    by (simp_all add: campos_de_def add.assoc del: get_range_Some) simp
  have u: "u16a (pre @ c @ post) (length pre + 8) = Some (en_flags e)"
    "u16a (pre @ c @ post) (length pre + 10) = Some (en_metodo e)"
    "u32a (pre @ c @ post) (length pre + 20) = Some (en_comprimido e)"
    "u16a (pre @ c @ post) (length pre + 28) = Some n" "u16a (pre @ c @ post) (length pre + 30) = Some x"
    "u16a (pre @ c @ post) (length pre + 32) = Some k" "u32a (pre @ c @ post) (length pre + 42) = Some (en_local e)"
    using len assms by (simp_all add: u16a_mid u32a_mid campos_de_def)
  have l: "46 + n + x + k = length c" using assms by (simp add: campos_de_def)
  have e: "\<lparr>en_nombre = from_utf8_lossy nombre, en_central = c, en_metodo = en_metodo e, en_flags = en_flags e,
      en_comprimido = en_comprimido e, en_local = en_local e\<rparr> = e"
    using assms by (cases e) (simp add: campos_de_def)
  have nz: "en_comprimido e \<noteq> 2 ^ 32 - 1" "en_local e \<noteq> 2 ^ 32 - 1" using assms by (simp_all add: campos_de_def)
  show ?thesis
    by (simp only: entrada_en_def r u bind.bind_lunit refl if_False not_True_eq_False nz simp_thms l e length_append)
qed

lemma entrada_en_leida:
  assumes "entrada_en d p = Some (e, q)"
  shows "\<exists>n x k nombre. campos_de (en_central e) e n x k nombre"
proof -
  from assms obtain flags metodo comprimido n x k local nombre central where
    r: "get_range d p (p + 4) = Some PK_CENTRAL" "u16a d (p + 8) = Some flags" "u16a d (p + 10) = Some metodo"
      "u32a d (p + 20) = Some comprimido" "u16a d (p + 28) = Some n" "u16a d (p + 30) = Some x"
      "u16a d (p + 32) = Some k" "u32a d (p + 42) = Some local" "comprimido \<noteq> 2 ^ 32 - 1" "local \<noteq> 2 ^ 32 - 1"
      "get_range d (p + 46) (p + 46 + n) = Some nombre"
    and c: "get_range d p (p + (46 + n + x + k)) = Some central"
    and e: "e = \<lparr>en_nombre = from_utf8_lossy nombre, en_central = central, en_metodo = metodo, en_flags = flags,
         en_comprimido = comprimido, en_local = local\<rparr>"
    unfolding entrada_en_def by (auto simp: bind_eq_Some_conv simp del: get_range_Some split: if_splits)
  from get_range_length [OF c] have len: "length central = 46 + n + x + k" by simp
  have g: "get_range d (p + a) (p + b) = get_range central a b" if "b \<le> length central" for a b
    by (rule get_range_sub [OF c that])
  have "campos_de central e n x k nombre"
    unfolding campos_de_def
    using r g [of 4 0] g [of "46 + n" 46] len u16a_sub [OF c] u32a_sub [OF c]
    by (simp add: e add.assoc del: get_range_Some)
  with e show ?thesis by auto
qed

lemma entradas_leidas:
  "entradas_bucle d k p = Some es \<Longrightarrow> e \<in> set es \<Longrightarrow> \<exists>n x k nombre. campos_de (en_central e) e n x k nombre"
proof (induction k arbitrary: p es)
  case (Suc k)
  from Suc.prems(1) obtain e' q v where "entrada_en d p = Some (e', q)" "entradas_bucle d k q = Some v" "es = e' # v"
    by (auto simp: bind_eq_Some_conv)
  with Suc.IH Suc.prems(2) entrada_en_leida show ?case by (metis set_ConsD)
qed simp

lemma u16a_pon_fuera:
  "a + length z \<le> length c \<Longrightarrow> k + 2 \<le> a \<or> a + length z \<le> k \<Longrightarrow> u16a (pon_zona c a z) k = u16a c k"
  by (simp add: u16a_range get_range_pon_fuera)

lemma u32a_pon_fuera:
  "a + length z \<le> length c \<Longrightarrow> k + 4 \<le> a \<or> a + length z \<le> k \<Longrightarrow> u32a (pon_zona c a z) k = u32a c k"
  by (simp add: u32a_def get_range_pon_fuera)

lemma u16a_pon_dentro:
  assumes "a + 2 \<le> length c" "n < 2 ^ 16"
  shows "u16a (pon_zona c a (le_bytes 2 n)) a = Some n"
proof -
  have "get_range (pon_zona c a (le_bytes 2 n)) a (a + 2) = Some (le_bytes 2 n)"
    by (rule get_range_pon_dentro) (use assms(1) in simp_all)
  moreover have "from_le (le_bytes 2 n) = n" by (rule from_le_bytes) (use assms(2) in simp)
  ultimately show ?thesis by (simp only: u16a_range option.map)
qed

lemma u32a_pon_dentro:
  assumes "a + 4 \<le> length c" "n < 2 ^ 32"
  shows "u32a (pon_zona c a (le_bytes 4 n)) a = Some n"
proof -
  have "get_range (pon_zona c a (le_bytes 4 n)) a (a + 4) = Some (le_bytes 4 n)"
    by (rule get_range_pon_dentro) (use assms(1) in simp_all)
  moreover have "from_le (le_bytes 4 n) = n" by (rule from_le_bytes) (use assms(2) in simp)
  ultimately show ?thesis by (simp only: u32a_def option.map)
qed

lemmas lee_pon = get_range_pon_fuera u16a_pon_fuera u32a_pon_fuera u16a_pon_dentro u32a_pon_dentro

text \<open>The time and the offset written in a record.\<close>

definition registro_nuevo :: "bytes \<Rightarrow> nat \<Rightarrow> bytes" where
  "registro_nuevo c offset = pon_zona (pon_zona c 12 [0, 0, 0x21, 0]) 42 (le_bytes 4 offset)"

lemma campos_registro_nuevo:
  assumes "campos_de c e n x k nombre" "offset < 2 ^ 32 - 1"
  shows "campos_de (registro_nuevo c offset) (e\<lparr>en_central := registro_nuevo c offset, en_local := offset\<rparr>) n x k nombre"
proof -
  have len: "46 \<le> length c" using assms(1) by (simp add: campos_de_def)
  define c1 where "c1 = pon_zona c 12 [0, 0, 0x21, 0]"
  have l1: "length c1 = length c" using len by (simp add: c1_def)
  have f: "get_range (registro_nuevo c offset) h l = get_range c h l" if "l \<le> 12 \<or> 16 \<le> h" "l \<le> 42 \<or> 46 \<le> h" for h l
    using that len l1 by (simp add: registro_nuevo_def lee_pon flip: c1_def) (simp add: c1_def lee_pon)
  have u: "u16a (registro_nuevo c offset) h = u16a c h" if "h + 2 \<le> 12 \<or> 16 \<le> h \<and> h + 2 \<le> 42" for h
    using that by (auto simp: u16a_range f)
  have v: "u32a (registro_nuevo c offset) 20 = u32a c 20" by (simp add: u32a_def f)
  have w: "u32a (registro_nuevo c offset) 42 = Some offset"
    using assms(2) len l1 by (simp add: registro_nuevo_def lee_pon flip: c1_def)
  have "length (registro_nuevo c offset) = length c" using len l1 by (simp add: registro_nuevo_def flip: c1_def)
  with assms show ?thesis by (simp add: campos_de_def f u v w del: get_range_Some)
qed

section \<open>The parts\<close>

lemma pieza_no_ascii:
  assumes "s \<noteq> []" "\<not> hd s < 0x80"
  shows "\<exists>c t. from_utf8_lossy s = c # t \<and> 128 \<le> char_code c"
proof -
  obtain a r where s: "s = a # r" using assms(1) by (cases s) auto
  have a: "128 \<le> char_code (byte_char a)"
    using assms(2) by (simp add: s byte_char_def word_less_nat_alt unat_of_char) (simp add: of_char_of unsigned_less [of a, simplified])
  obtain n ok where t: "utf8_trozo s = (n, ok)" by fastforce
  then obtain m where "n = Suc m" by (auto simp: utf8_trozo_def Let_def split: if_splits)
  with a t show ?thesis
    by (cases ok) (auto simp: s from_utf8_lossy.simps [of "a # r"])
qed

lemma lossy_ascii_inv:
  "from_utf8_lossy bs = s \<Longrightarrow> list_all (\<lambda>c. char_code c < 128) s \<Longrightarrow> length bs = length s"
proof (induction bs arbitrary: s)
  case (Cons a r)
  show ?case
  proof (cases "a < 0x80")
    case True
    with Cons show ?thesis by auto
  next
    case False
    with pieza_no_ascii [of "a # r"] Cons.prems show ?thesis by auto
  qed
qed simp

lemma vacio_de_ascii: "vacio_de s = Some xml \<Longrightarrow> list_all (\<lambda>c. char_code c < 128) s"
  by (auto simp: vacio_de_def CORE_def APP_def CUSTOM_def split: if_splits)

text \<open>What a local entry holds.\<close>

definition local_de :: "bytes \<Rightarrow> nat \<Rightarrow> bytes \<Rightarrow> bool" where
  "local_de t m datos \<longleftrightarrow>
     get_range t 0 4 = Some PK_LOCAL \<and>
     (\<exists>n x. u16a t 26 = Some n \<and> u16a t 28 = Some x \<and> get_range t (30 + n + x) (30 + n + x + m) = Some datos)"

definition descomprime :: "nat \<Rightarrow> bytes \<Rightarrow> bytes option" where
  "descomprime metodo datos =
     (if metodo = 0 then Some datos else if metodo = 8 then sin_fallo (inflate datos) else None)"

lemma contenido_local:
  assumes "local_de t (en_comprimido e) datos" "en_local e = length pre"
  shows "contenido (pre @ t @ post) e = descomprime (en_metodo e) datos"
proof -
  let ?d = "pre @ t @ post"
  from assms(1) obtain n x where t: "get_range t 0 4 = Some PK_LOCAL" "u16a t 26 = Some n" "u16a t 28 = Some x"
    "get_range t (30 + n + x) (30 + n + x + en_comprimido e) = Some datos"
    by (auto simp: local_de_def simp del: get_range_Some)
  then have len: "30 + n + x + en_comprimido e \<le> length t" by simp
  have "get_range ?d (length pre) (length pre + 4) = Some PK_LOCAL"
    using get_range_mid [of 4 t pre post 0] t(1) len by simp
  moreover have "u16a ?d (length pre + 26) = Some n" "u16a ?d (length pre + 28) = Some x"
    using t(2,3) len by (simp_all add: u16a_mid)
  moreover have "get_range ?d (length pre + (30 + n + x)) (length pre + (30 + n + x + en_comprimido e)) = Some datos"
    using get_range_mid [OF len] t(4) by simp
  ultimately show ?thesis
    by (simp add: contenido_def inicio_datos_def assms(2) descomprime_def add.assoc del: get_range_Some)
qed

lemma contenido_leido:
  assumes "get_range d (en_local e) q = Some t" "local_de t (en_comprimido e) datos"
  shows "contenido d e = descomprime (en_metodo e) datos"
proof -
  have "d = take (en_local e) d @ t @ drop q d" "length (take (en_local e) d) = en_local e"
    using get_range_parts [OF assms(1)] by simp_all
  then show ?thesis using contenido_local [OF assms(2)] by metis
qed

lemma le_bytes_2: "le_bytes 2 n = [of_nat n, of_nat (n div 256)]"
  by (simp add: le_bytes_def be_bytes_2)

lemma le_bytes_4:
  "le_bytes 4 n = [of_nat n, of_nat (n div 256), of_nat (n div 256 div 256), of_nat (n div 256 div 256 div 256)]"
  by (simp add: le_bytes_def be_bytes_4)

lemma local_nuevo_de:
  assumes "local_nuevo nombre flags datos = Some t"
  shows "local_de t (length datos) datos" "30 \<le> length t"
    "get_range t 14 26 = Some (le_bytes 4 (unat (crc32 datos)) @ le_bytes 4 (length datos) @ le_bytes 4 (length datos))"
proof -
  define cab where "cab = PK_LOCAL @ le_bytes 2 20 @ le_bytes 2 (flags AND 0x0800) @ le_bytes 2 0 @ le_bytes 2 0
    @ le_bytes 2 0x0021 @ le_bytes 4 (unat (crc32 datos)) @ le_bytes 4 (length datos) @ le_bytes 4 (length datos)"
  have l: "length cab = 26" by (simp add: cab_def PK_LOCAL_def)
  have b: "length nombre < 2 ^ 16" and t: "t = cab @ le_bytes 2 (length nombre) @ le_bytes 2 0 @ nombre @ datos"
    using assms by (auto simp: local_nuevo_def cab_def split: if_splits)
  have "get_range t 0 4 = Some PK_LOCAL" by (simp add: t cab_def PK_LOCAL_def)
  moreover have "u16a t 26 = Some (length nombre)" using b by (simp add: u16a_range t l get_range_def)
  moreover have "u16a t 28 = Some 0" by (simp add: u16a_range t l get_range_def)
  ultimately show "local_de t (length datos) datos" by (simp add: local_de_def t l)
  show "30 \<le> length t" by (simp add: t l)
  show "get_range t 14 26 = Some (le_bytes 4 (unat (crc32 datos)) @ le_bytes 4 (length datos) @ le_bytes 4 (length datos))"
    by (simp add: t l) (simp add: cab_def PK_LOCAL_def)
qed

lemma parte_copiada_de:
  assumes "parte_copiada d e = Some t"
  obtains datos where "contenido d e = descomprime (en_metodo e) datos" "local_de t (en_comprimido e) datos" "30 \<le> length t"
proof -
  from assms obtain ini where ini: "inicio_datos d e = Some ini" by (auto simp: parte_copiada_def bind_eq_Some_conv)
  define fin where "fin = (let fin = ini + en_comprimido e in
    if en_flags e AND 0x0008 \<noteq> 0
    then fin + (if get_range d fin (fin + 4) = Some PK_DESCRIPTOR then 16 else 12) else fin)"
  have le: "ini + en_comprimido e \<le> fin" by (simp add: fin_def Let_def)
  have "parte_copiada d e = (get_range d (en_local e) fin \<bind> pon_rango 10 [0, 0, 0x21, 0])"
    by (simp add: parte_copiada_def ini fin_def Let_def del: get_range_Some)
  with assms obtain trozo where "get_range d (en_local e) fin = Some trozo" "14 \<le> length trozo"
    "t = pon_zona trozo 10 [0, 0, 0x21, 0]"
    by (auto simp: bind_eq_Some_conv pon_rango_Some simp del: get_range_Some)
  note i = ini le this
  from i(1) obtain n x where h: "get_range d (en_local e) (en_local e + 4) = Some PK_LOCAL"
    "u16a d (en_local e + 26) = Some n" "u16a d (en_local e + 28) = Some x" "ini = en_local e + 30 + n + x"
    by (auto simp: inicio_datos_def bind_eq_Some_conv simp del: get_range_Some split: if_splits)
  from get_range_length [OF i(3)] i(2) h(4) have len: "30 + n + x + en_comprimido e \<le> length trozo" by simp
  have tr: "get_range trozo 0 4 = Some PK_LOCAL" "u16a trozo 26 = Some n" "u16a trozo 28 = Some x"
    using get_range_sub [OF i(3), of 4 0] u16a_sub [OF i(3), of 26] u16a_sub [OF i(3), of 28] h(1-3) len
    by (simp_all del: get_range_Some)
  define datos where "datos = take (en_comprimido e) (drop (30 + n + x) trozo)"
  have da: "get_range trozo (30 + n + x) (30 + n + x + en_comprimido e) = Some datos" using len by (simp add: datos_def)
  have "local_de trozo (en_comprimido e) datos" using tr da unfolding local_de_def by blast
  moreover have "local_de t (en_comprimido e) datos"
    unfolding local_de_def using tr da len
    by (intro conjI exI [of _ n] exI [of _ x]) (simp_all add: i(5) lee_pon del: get_range_Some)
  moreover have "30 \<le> length t" using len by (simp add: i(5))
  ultimately show ?thesis using contenido_leido [OF i(3)] that by blast
qed

lemma and_2048: "(flags :: nat) AND 0x0800 < 2 ^ 16"
proof -
  have "int (flags AND 0x0800) \<le> 0x0800" by (simp add: of_nat_and_eq AND_upper2)
  then show ?thesis by simp
qed

text \<open>The record of a part of properties, once its part is the empty one.\<close>

definition entrada_vaciada :: "entrada_zip \<Rightarrow> bytes \<Rightarrow> bytes \<Rightarrow> entrada_zip" where
  "entrada_vaciada e xml c =
     e\<lparr>en_central := c, en_metodo := 0, en_flags := en_flags e AND 0x0800, en_comprimido := length xml\<rparr>"

lemma get_range_corte: "h \<le> i \<Longrightarrow> i \<le> length c \<Longrightarrow> get_range (take i c @ q) l h = get_range c l h"
  by (auto simp: get_range_def drop_take min_def)

lemma parte_vaciada_exacta:
  assumes t: "local_nuevo nombre (en_flags e) xml = Some t" and cam: "campos_de (en_central e) e n x k nombre"
    and "length (en_nombre e) = n" "length xml < 2 ^ 32 - 1"
  obtains c where "parte_vaciada e xml = Some (t, c)" "campos_de c (entrada_vaciada e xml c) n 0 k nombre"
proof -
  note cam = cam [unfolded campos_de_def]
  define c0 where "c0 = en_central e"
  have len: "length c0 = 46 + n + x + k" using cam by (simp add: c0_def)
  define c1 where "c1 = pon_zona c0 6 (le_bytes 2 20)"
  define c2 where "c2 = pon_zona c1 8 (le_bytes 2 (en_flags e AND 0x0800))"
  define c3 where "c3 = pon_zona c2 10 (le_bytes 2 0)"
  define sumas where "sumas = le_bytes 4 (unat (crc32 xml)) @ le_bytes 4 (length xml) @ le_bytes 4 (length xml)"
  define c4 where "c4 = pon_zona c3 16 sumas"
  have ls: "length sumas = 12" by (simp add: sumas_def)
  have l1: "length c1 = length c0" by (simp add: c1_def len)
  have l2: "length c2 = length c0" by (simp add: c2_def l1 len)
  have l3: "length c3 = length c0" by (simp add: c3_def l2 len)
  have l4: "length c4 = length c0" by (simp add: c4_def l3 ls len)
  note ll = l1 l2 l3 l4 ls len
  have g: "get_range c4 a b = get_range c0 a b" if "b \<le> 6 \<or> 28 \<le> a" for a b
    using that by (auto simp: c4_def c3_def c2_def c1_def get_range_pon_fuera len ls)
  have x4: "u16a c4 30 = Some x" using cam by (simp add: u16a_range g c0_def del: get_range_Some)
  have nom: "get_range c0 46 (46 + n) = Some nombre" using cam by (simp add: c0_def)
  define c5 where "c5 = take (46 + n) c4 @ drop (46 + n + x) c4"
  have l5: "length c5 = 46 + n + k" by (simp add: c5_def ll)
  note sum = local_nuevo_de(3) [OF t, folded sumas_def]
  have p: "pon_rango 6 (le_bytes 2 20) c0 = Some c1" "pon_rango 8 (le_bytes 2 (en_flags e AND 0x0800)) c1 = Some c2"
    "pon_rango 10 (le_bytes 2 0) c2 = Some c3" "pon_rango 16 sumas c3 = Some c4"
    "pon_rango 30 (le_bytes 2 0) c5 = Some (pon_zona c5 30 (le_bytes 2 0))"
    by (simp_all add: pon_rango_Some c1_def c2_def c3_def c4_def l5) (simp_all add: ll flip: c1_def c2_def c3_def)
  define c where "c = pon_zona c5 30 (le_bytes 2 0)"
  note r = this
  have v: "parte_vaciada e xml = Some (t, c)"
    unfolding parte_vaciada_def Let_def assms(3) c0_def [symmetric]
    by (simp only: nom t p sum x4 c5_def [symmetric] bind.bind_lunit r)
  have h: "get_range c a b = get_range c4 a b" if "b \<le> 30 \<or> 32 \<le> a" "b \<le> 46 + n" for a b
    using that by (simp add: r get_range_pon_fuera l5 c5_def get_range_corte ll)
  have "u16a c2 8 = Some (en_flags e AND 0x0800)"
    unfolding c2_def by (rule u16a_pon_dentro) (use ll and_2048 in simp_all)
  moreover have "u16a c3 10 = Some 0" unfolding c3_def by (rule u16a_pon_dentro) (use ll in simp_all)
  ultimately have fl: "u16a c4 8 = Some (en_flags e AND 0x0800)" "u16a c4 10 = Some 0"
    using ll by (simp_all add: c4_def u16a_pon_fuera) (simp add: c3_def u16a_pon_fuera)
  have co: "u32a c4 20 = Some (length xml)"
  proof -
    have "get_range c4 16 28 = Some sumas" by (simp only: c4_def, rule get_range_pon_dentro) (simp_all add: ll)
    from get_range_sub [OF this, of 8 4] have "get_range c4 20 24 = get_range sumas 4 8" by (simp add: ls)
    also have "\<dots> = Some (le_bytes 4 (length xml))" by (simp add: sumas_def get_range_def)
    finally show ?thesis using assms(4) by (simp add: u32a_def from_le_bytes del: get_range_Some)
  qed
  have x0: "from_le (take 2 (drop 30 c)) = 0"
    using u16a_pon_dentro [of 30 c5 0] by (simp add: r u16a_range l5 get_range_def split: if_splits)
  have "campos_de c (entrada_vaciada e xml c) n 0 k nombre"
    unfolding campos_de_def entrada_vaciada_def
    using cam fl co assms(4) nom
    by (simp add: u16a_range u32a_def h g r [symmetric] c0_def del: get_range_Some)
      (simp add: x0 [unfolded r] r l5)
  with v show ?thesis by (rule that)
qed

lemma parte_vaciada_campos:
  assumes "parte_vaciada e xml = Some (t, c)" "campos_de (en_central e) e n x k nombre"
    "length (en_nombre e) = n" "length xml < 2 ^ 32 - 1"
  shows "campos_de c (entrada_vaciada e xml c) n 0 k nombre \<and> local_nuevo nombre (en_flags e) xml = Some t"
proof -
  have "get_range (en_central e) 46 (46 + n) = Some nombre" using assms(2) by (simp only: campos_de_def)
  with assms(1,3) obtain t' where t: "local_nuevo nombre (en_flags e) xml = Some t'"
    by (auto simp: parte_vaciada_def bind_eq_Some_conv simp del: get_range_Some)
  obtain c' where "parte_vaciada e xml = Some (t', c')" "campos_de c' (entrada_vaciada e xml c') n 0 k nombre"
    by (rule parte_vaciada_exacta [OF t assms(2-4)])
  with assms(1) t show ?thesis by simp
qed


lemma vacio_de_length: "vacio_de s = Some xml \<Longrightarrow> length (str_bytes xml) < 2 ^ 32 - 1"
  by (auto simp: vacio_de_def CORE_VACIO_def APP_VACIO_def CUSTOM_VACIO_def XML_CABECERA_def COMILLA_def split: if_splits)

text \<open>What the part \<open>e\<close> of \<open>d\<close> is in the clean copy.\<close>

definition contenido_limpio :: "bytes \<Rightarrow> entrada_zip \<Rightarrow> bytes option" where
  "contenido_limpio d e =
     (case vacio_de (en_nombre e) of Some xml \<Rightarrow> Some (str_bytes xml) | None \<Rightarrow> contenido d e)"

lemma parte_limpia_de:
  assumes "parte_limpia d e = Some (t, c)" "campos_de (en_central e) e n x k nombre"
  shows "\<exists>e' x' datos. campos_de c e' n x' k nombre \<and> en_nombre e' = en_nombre e \<and> 30 \<le> length t \<and>
    local_de t (en_comprimido e') datos \<and> descomprime (en_metodo e') datos = contenido_limpio d e"
proof (cases "vacio_de (en_nombre e)")
  case None
  with assms(1) have t: "parte_copiada d e = Some t" "c = en_central e" by (auto simp: parte_limpia_def)
  from t(1) show ?thesis
  proof (rule parte_copiada_de)
    fix datos
    assume "contenido d e = descomprime (en_metodo e) datos" "local_de t (en_comprimido e) datos" "30 \<le> length t"
    with assms(2) t(2) None show ?thesis
      by (intro exI [of _ e] exI [of _ x] exI [of _ datos]) (simp add: contenido_limpio_def)
  qed
next
  case (Some xml)
  with assms(1) have p: "parte_vaciada e (str_bytes xml) = Some (t, c)" by (simp add: parte_limpia_def)
  have nom: "get_range (en_central e) 46 (46 + n) = Some nombre" "en_nombre e = from_utf8_lossy nombre"
    using assms(2) by (simp_all only: campos_de_def)
  then have "length (en_nombre e) = n"
    using lossy_ascii_inv [of nombre "en_nombre e"] vacio_de_ascii [OF Some] get_range_length [OF nom(1)] by simp
  from parte_vaciada_campos [OF p assms(2) this vacio_de_length [OF Some]]
  have c: "campos_de c (entrada_vaciada e (str_bytes xml) c) n 0 k nombre"
    and l: "local_nuevo nombre (en_flags e) (str_bytes xml) = Some t" by simp_all
  show ?thesis
    using c local_nuevo_de(1,2) [OF l] Some
    by (intro exI [of _ "entrada_vaciada e (str_bytes xml) c"] exI [of _ 0] exI [of _ "str_bytes xml"])
      (simp add: entrada_vaciada_def contenido_limpio_def descomprime_def)
qed

lemma office_bucle_de:
  assumes "office_bucle d offset es = Some (out, central)" "offset + length out < 2 ^ 32"
    "\<And>e. e \<in> set es \<Longrightarrow> \<exists>n x k nombre. campos_de (en_central e) e n x k nombre"
  shows "\<exists>es'. (\<forall>pre post. entradas_bucle (pre @ central @ post) (length es) (length pre) = Some es') \<and>
    (\<forall>pre post. length pre = offset \<longrightarrow>
       list_all2 (\<lambda>e e'. en_nombre e' = en_nombre e \<and> contenido (pre @ out @ post) e' = contenido_limpio d e) es es')"
  using assms
proof (induction es arbitrary: offset out central)
  case (Cons e es)
  from Cons.prems(1) obtain t c out' central' where p: "parte_limpia d e = Some (t, c)"
    and c: "42 + 4 \<le> length c"
    and b: "office_bucle d (offset + length t) es = Some (out', central')"
    and o: "out = t @ out'" "central = registro_nuevo c offset @ central'"
    by (auto simp: bind_eq_Some_conv pon_rango_Some registro_nuevo_def split: if_splits)
  from Cons.prems(3) [of e] obtain n x k nombre where cam: "campos_de (en_central e) e n x k nombre" by auto
  from parte_limpia_de [OF p cam] obtain e' x' datos where e': "campos_de c e' n x' k nombre"
    "en_nombre e' = en_nombre e" "30 \<le> length t" "local_de t (en_comprimido e') datos"
    "descomprime (en_metodo e') datos = contenido_limpio d e" by blast
  define r where "r = registro_nuevo c offset"
  define e1 where "e1 = e'\<lparr>en_central := r, en_local := offset\<rparr>"
  have "offset < 2 ^ 32 - 1" using Cons.prems(2) e'(3) by (simp add: o)
  from campos_registro_nuevo [OF e'(1) this] have r: "campos_de r e1 n x' k nombre" by (simp add: r_def e1_def)
  have "offset + length t + length out' < 2 ^ 32" using Cons.prems(2) by (simp add: o)
  from Cons.IH [OF b this Cons.prems(3)] obtain es' where
    ie: "\<And>pre post. entradas_bucle (pre @ central' @ post) (length es) (length pre) = Some es'" and
    ic: "\<And>pre post. length pre = offset + length t \<Longrightarrow>
      list_all2 (\<lambda>e e'. en_nombre e' = en_nombre e \<and> contenido (pre @ out' @ post) e' = contenido_limpio d e) es es'"
    by auto
  have "entradas_bucle (pre @ central @ post) (length (e # es)) (length pre) = Some (e1 # es')" for pre post
    using entrada_en_campos [OF r, of pre "central' @ post"] ie [of "pre @ r" post] by (simp add: o flip: r_def)
  moreover have "list_all2 (\<lambda>e e'. en_nombre e' = en_nombre e \<and> contenido (pre @ out @ post) e' = contenido_limpio d e)
      (e # es) (e1 # es')" if "length pre = offset" for pre post
    using contenido_local [of t e1 datos pre "out' @ post"] e' ic [of "pre @ t" post] that by (simp add: o e1_def)
  ultimately show ?case by blast
qed simp

lemma directorio_fin:
  assumes "d = body @ PK_FIN @ [0, 0, 0, 0] @ le_bytes 2 n @ le_bytes 2 n @ le_bytes 4 l @ le_bytes 4 p @ le_bytes 2 0"
    "n < 2 ^ 16" "p < 2 ^ 32"
  shows "directorio d = entradas_bucle d n p"
proof -
  have len: "length d = length body + 22" by (simp add: assms(1) PK_FIN_def)
  have f: "get_range d (length body) (length body + 4) = Some PK_FIN"
    by (simp add: assms(1) get_range_def PK_FIN_def)
  have "rev [length d - 65557..<length d - 21] = length body # rev [length d - 65557..<length body]" by (simp add: len)
  then have fin: "find (\<lambda>i. get_range d i (i + 4) = Some PK_FIN) (rev [length d - 65557..<length d - 21]) = Some (length body)"
    using f by (simp del: get_range_Some)
  have "get_range d (length body + 10) (length body + 10 + 2) = Some (le_bytes 2 n)"
    "get_range d (length body + 16) (length body + 16 + 4) = Some (le_bytes 4 p)"
    by (simp_all add: assms(1) get_range_def PK_FIN_def)
  moreover have "from_le (le_bytes 2 n) = n" "from_le (le_bytes 4 p) = p"
    using assms(2,3) by (simp_all add: from_le_bytes)
  ultimately have "u16a d (length body + 10) = Some n" "u32a d (length body + 16) = Some p"
    by (simp_all only: u16a_range u32a_def option.map)
  with fin show ?thesis by (simp add: directorio_def del: get_range_Some)
qed

lemma directorio_leido: "directorio d = Some es \<Longrightarrow> e \<in> set es \<Longrightarrow> \<exists>n x k nombre. campos_de (en_central e) e n x k nombre"
  by (auto simp: directorio_def bind_eq_Some_conv dest: entradas_leidas)

lemma office_bucle_local:
  assumes "office_bucle d offset es = Some (out, central)" "es \<noteq> []"
    "\<And>e. e \<in> set es \<Longrightarrow> \<exists>n x k nombre. campos_de (en_central e) e n x k nombre"
  shows "starts_with PK_LOCAL (out @ r)"
proof -
  obtain e es0 where es: "es = e # es0" using assms(2) by (cases es) auto
  with assms(1) obtain t c out' where p: "parte_limpia d e = Some (t, c)" and out: "out = t @ out'"
    by (auto simp: bind_eq_Some_conv split: if_splits)
  from assms(3) [of e] es obtain n x k nombre where cam: "campos_de (en_central e) e n x k nombre" by auto
  from parte_limpia_de [OF p cam] obtain m datos where "local_de t m datos" by blast
  then have "PK_LOCAL = take 4 t" by (auto simp: local_de_def)
  then have "t = PK_LOCAL @ drop 4 t" by (metis append_take_drop_id)
  then have "out @ r = PK_LOCAL @ drop 4 t @ out' @ r" by (metis append_assoc out)
  then show ?thesis by (simp add: starts_with_def)
qed

lemma limpia_office_de:
  assumes "limpia_office d = Some out"
  obtains es es' where "directorio d = Some es" "directorio out = Some es'" "es_office es" "starts_with PK_LOCAL out"
    "list_all2 (\<lambda>e e'. en_nombre e' = en_nombre e \<and> contenido out e' = contenido_limpio d e) es es'"
proof -
  from assms obtain es where d: "directorio d = Some es" "es_office es"
    by (cases "directorio d") (simp_all add: limpia_office_def split: if_splits)
  with assms obtain body central where b: "office_bucle d 0 es = Some (body, central)"
    by (cases "office_bucle d 0 es") (auto simp add: limpia_office_def)
  have eq: "limpia_office d = (if 2 ^ 32 \<le> length body \<or> 2 ^ 32 \<le> length central \<or> 2 ^ 16 \<le> length es then None
      else Some (body @ central @ PK_FIN @ [0, 0, 0, 0] @ le_bytes 2 (length es) @ le_bytes 2 (length es)
              @ le_bytes 4 (length central) @ le_bytes 4 (length body) @ le_bytes 2 0))" (is "_ = (if ?big then None else Some ?out)")
    by (simp only: limpia_office_def d b bind.bind_lunit not_True_eq_False if_False prod.case)
  have nb: "\<not> ?big"
  proof
    assume ?big
    then have "limpia_office d = None" unfolding eq by (rule if_P)
    with assms show False by (simp only: option.distinct)
  qed
  then have "limpia_office d = Some ?out" unfolding eq by (rule if_not_P)
  with assms have "out = ?out" by (simp only: option.inject)
  with nb have es: "directorio d = Some es" "es_office es" "office_bucle d 0 es = Some (body, central)"
      "length body < 2 ^ 32" "length central < 2 ^ 32" "length es < 2 ^ 16"
    and out: "out = body @ central @ PK_FIN @ [0, 0, 0, 0] @ le_bytes 2 (length es) @ le_bytes 2 (length es)
              @ le_bytes 4 (length central) @ le_bytes 4 (length body) @ le_bytes 2 0"
    using d b by (simp_all only: not_le de_Morgan_disj simp_thms) 
  have "0 + length body < 2 ^ 32" using es(4) by simp
  from office_bucle_de [OF es(3) this] directorio_leido [OF es(1)] obtain es' where
    e: "\<forall>pre post. entradas_bucle (pre @ central @ post) (length es) (length pre) = Some es'" and
    c': "\<forall>pre post. length pre = 0 \<longrightarrow>
      list_all2 (\<lambda>e e'. en_nombre e' = en_nombre e \<and> contenido (pre @ body @ post) e' = contenido_limpio d e) es es'"
    by blast
  have c: "list_all2 (\<lambda>e e'. en_nombre e' = en_nombre e \<and> contenido (body @ post) e' = contenido_limpio d e) es es'" for post
    using c' [rule_format, of "[]" post] by simp
  have "directorio out = entradas_bucle out (length es) (length body)"
    by (rule directorio_fin [of _ "body @ central" _ "length central"]) (use es(4,6) in \<open>simp_all add: out\<close>)
  also have "\<dots> = Some es'" using e [rule_format, of body] by (simp add: out)
  finally have "directorio out = Some es'" .
  moreover have "es \<noteq> []" using es(2) by (auto simp: es_office_def)
  then have "starts_with PK_LOCAL out"
    unfolding out using office_bucle_local [OF es(3)] directorio_leido [OF es(1)] by blast
  ultimately show ?thesis using es(1,2) c that by (simp add: out)
qed

text \<open>No part made empty has one of the tags.\<close>

lemma etiquetas_None: "busca_en (CHR ''<'' # tag) x = None \<Longrightarrow> etiquetas tag x = []"
  by (simp add: etiquetas.simps)

lemma vacios_ascii:
  "from_utf8_lossy (str_bytes CORE_VACIO) = CORE_VACIO" "from_utf8_lossy (str_bytes APP_VACIO) = APP_VACIO"
  by (simp_all add: lossy_str_bytes CORE_VACIO_def APP_VACIO_def XML_CABECERA_def COMILLA_def)

lemma busca_en_salta: "c \<notin> set a \<Longrightarrow> busca_en (c # t) s = None \<Longrightarrow> busca_en (c # t) (a @ s) = None"
  by (induction a) (auto simp: starts_with_def)

lemma busca_dos_etiquetas:
  assumes "CHR ''<'' \<notin> set a" "CHR ''<'' \<notin> set b" "\<not> starts_with t (a @ CHR ''<'' # b)" "\<not> starts_with t b"
  shows "busca_en (CHR ''<'' # t) (CHR ''<'' # a @ CHR ''<'' # b) = None"
proof -
  have s: "starts_with (CHR ''<'' # t) (CHR ''<'' # x) = starts_with t x" for x by (simp add: starts_with_def)
  have "busca_en (CHR ''<'' # t) b = None"
    using busca_en_salta [OF assms(2), of t "[]"] by simp
  then have "busca_en (CHR ''<'' # t) (CHR ''<'' # b) = None" by (simp add: s assms(4))
  from busca_en_salta [OF assms(1) this] show ?thesis by (simp add: s assms(3))
qed

lemma vacios_partes:
  "\<exists>a b. CORE_VACIO = CHR ''<'' # a @ CHR ''<'' # b \<and> CHR ''<'' \<notin> set a \<and> CHR ''<'' \<notin> set b \<and>
     hd a = CHR ''?'' \<and> a \<noteq> [] \<and> take 4 b = ''cp:c''"
  "\<exists>a b. APP_VACIO = CHR ''<'' # a @ CHR ''<'' # b \<and> CHR ''<'' \<notin> set a \<and> CHR ''<'' \<notin> set b \<and>
     hd a = CHR ''?'' \<and> a \<noteq> [] \<and> take 4 b = ''Prop''"
proof -
  have p: "XML_CABECERA = CHR ''<'' # tl XML_CABECERA" "CHR ''<'' \<notin> set (tl XML_CABECERA)"
    "hd (tl XML_CABECERA) = CHR ''?''" "tl XML_CABECERA \<noteq> []"
    by (simp_all add: XML_CABECERA_def COMILLA_def)
  define b where "b = tl (drop (length XML_CABECERA) CORE_VACIO)"
  have "CORE_VACIO = XML_CABECERA @ CHR ''<'' # b" "CHR ''<'' \<notin> set b" "take 4 b = ''cp:c''"
    by (simp_all add: b_def CORE_VACIO_def COMILLA_def)
  then have "CORE_VACIO = CHR ''<'' # tl XML_CABECERA @ CHR ''<'' # b \<and> CHR ''<'' \<notin> set (tl XML_CABECERA) \<and> CHR ''<'' \<notin> set b \<and>
     hd (tl XML_CABECERA) = CHR ''?'' \<and> tl XML_CABECERA \<noteq> [] \<and> take 4 b = ''cp:c''"
    using p by (metis append_Cons)
  then show "\<exists>a b. CORE_VACIO = CHR ''<'' # a @ CHR ''<'' # b \<and> CHR ''<'' \<notin> set a \<and> CHR ''<'' \<notin> set b \<and>
     hd a = CHR ''?'' \<and> a \<noteq> [] \<and> take 4 b = ''cp:c''" by blast
  define c where "c = tl (drop (length XML_CABECERA) APP_VACIO)"
  have "APP_VACIO = XML_CABECERA @ CHR ''<'' # c" "CHR ''<'' \<notin> set c" "take 4 c = ''Prop''"
    by (simp_all add: c_def APP_VACIO_def COMILLA_def)
  then have "APP_VACIO = CHR ''<'' # tl XML_CABECERA @ CHR ''<'' # c \<and> CHR ''<'' \<notin> set (tl XML_CABECERA) \<and> CHR ''<'' \<notin> set c \<and>
     hd (tl XML_CABECERA) = CHR ''?'' \<and> tl XML_CABECERA \<noteq> [] \<and> take 4 c = ''Prop''"
    using p by (metis append_Cons)
  then show "\<exists>a b. APP_VACIO = CHR ''<'' # a @ CHR ''<'' # b \<and> CHR ''<'' \<notin> set a \<and> CHR ''<'' \<notin> set b \<and>
     hd a = CHR ''?'' \<and> a \<noteq> [] \<and> take 4 b = ''Prop''" by blast
qed

lemma busca_en_vacio:
  assumes "\<exists>a b. s = CHR ''<'' # a @ CHR ''<'' # b \<and> CHR ''<'' \<notin> set a \<and> CHR ''<'' \<notin> set b \<and>
     hd a = CHR ''?'' \<and> a \<noteq> [] \<and> take 4 b = q" "4 \<le> length t" "hd t \<noteq> CHR ''?''" "take 4 t \<noteq> q"
  shows "busca_en (CHR ''<'' # t) s = None"
proof -
  obtain a b where s: "s = CHR ''<'' # a @ CHR ''<'' # b" "CHR ''<'' \<notin> set a" "CHR ''<'' \<notin> set b"
    "hd a = CHR ''?''" "a \<noteq> []" "take 4 b = q" using assms(1) by blast
  have "\<not> starts_with t b" using s(6) assms(2,4) by (auto simp: starts_with_def)
  moreover have "\<not> starts_with t (a @ CHR ''<'' # b)"
    using s(4,5) assms(2,3) by (cases a; cases t) (auto simp: starts_with_def)
  ultimately show ?thesis unfolding s(1) by (intro busca_dos_etiquetas s(2,3))
qed

lemma busca_en_core: "\<forall>t\<in>set (map fst ETIQUETAS_CORE). busca_en (CHR ''<'' # t) CORE_VACIO = None"
  by (intro ballI busca_en_vacio [OF vacios_partes(1)]) (auto simp: ETIQUETAS_CORE_def)

lemma busca_en_app: "\<forall>t\<in>set (map fst ETIQUETAS_APP). busca_en (CHR ''<'' # t) APP_VACIO = None"
  by (intro ballI busca_en_vacio [OF vacios_partes(2)]) (auto simp: ETIQUETAS_APP_def)

lemma vacios_sin_etiquetas:
  "foldl (mira_etiqueta (from_utf8_lossy (str_bytes CORE_VACIO))) i ETIQUETAS_CORE = i"
  "foldl (mira_etiqueta (from_utf8_lossy (str_bytes APP_VACIO))) i ETIQUETAS_APP = i"
  using busca_en_core busca_en_app
  by (simp_all add: vacios_ascii ETIQUETAS_CORE_def ETIQUETAS_APP_def mira_etiqueta_def etiquetas_None)

section \<open>The clean copy\<close>

lemma etiquetas_vacias:
  assumes "vacio_de n = Some xml"
  shows "foldl (mira_etiqueta (from_utf8_lossy (str_bytes xml))) i
    (if n = CORE then ETIQUETAS_CORE else if n = APP then ETIQUETAS_APP else []) = i"
  using assms vacios_sin_etiquetas by (auto simp: vacio_de_def split: if_splits)

text \<open>What is said of a part whose properties are the empty ones: only that it has custom ones.\<close>

definition dice_custom :: "informe \<Rightarrow> entrada_zip \<Rightarrow> informe" where
  "dice_custom i e = (if en_nombre e = CUSTOM then anade [Huella_new Propiedades []] i else i)"

lemma mira_entrada_vacia:
  assumes "contenido out e' = contenido_limpio d e" "en_nombre e' = en_nombre e"
  shows "mira_entrada out (i, leido) e' = (dice_custom i e, leido)"
proof (cases "vacio_de (en_nombre e)")
  case None
  with assms(2) show ?thesis
    by (auto simp: mira_entrada_def dice_custom_def vacio_de_def split: if_splits)
next
  case (Some xml)
  then have n: "en_nombre e \<in> {CORE, APP, CUSTOM}" by (auto simp: vacio_de_def split: if_splits)
  have "contenido out e' = Some (str_bytes xml)" using assms(1) Some by (simp add: contenido_limpio_def)
  with n etiquetas_vacias [OF Some] show ?thesis
    by (simp only: mira_entrada_def prod.case Let_def assms(2) not_not if_False option.case dice_custom_def simp_thms)
qed

lemma mira_entradas_vacias:
  "list_all2 (\<lambda>e e'. en_nombre e' = en_nombre e \<and> contenido out e' = contenido_limpio d e) es es' \<Longrightarrow>
   foldl (mira_entrada out) (i, leido) es' = (foldl dice_custom i es, leido)"
  by (induction es es' arbitrary: i rule: list_all2_induct) (simp_all add: mira_entrada_vacia)

lemma dice_custom_all:
  "foldl dice_custom i es =
   (if CUSTOM \<in> set (map en_nombre es) then anade [Huella_new Propiedades []] i else i)"
  by (induction es arbitrary: i) (auto simp: dice_custom_def anade_def pon_nueva_def)

lemma es_office_nombres: "map en_nombre es' = map en_nombre es \<Longrightarrow> es_office es' = es_office es"
proof -
  have "list_ex (\<lambda>e. P (en_nombre e)) es = list_ex P (map en_nombre es)" for P and es :: "entrada_zip list"
    by (induction es) auto
  note e = this
  assume "map en_nombre es' = map en_nombre es"
  with e [of "\<lambda>n. n = ''[Content_Types].xml''"] e [of "\<lambda>n. n = CORE \<or> n = APP \<or> starts_with ''word/'' n"]
  show ?thesis by (simp add: es_office_def)
qed

text \<open>C16: The clean copy of an Office document is one: its directory reads back with the same names in the
  same order. The parts of properties are the empty ones; any other part reads as it did, or cannot be
  read as it could not. What is then said of the copy is nothing, but that it has custom properties when it has
  that part, empty as it is.\<close>

theorem clean_document_keeps_its_parts:
  assumes "limpia_office d = Some out"
  shows "\<exists>es es' i. directorio d = Some es \<and> directorio out = Some es' \<and>
    list_all2 (\<lambda>e e'. en_nombre e' = en_nombre e \<and>
      contenido out e' = (case vacio_de (en_nombre e) of Some xml \<Rightarrow> Some (str_bytes xml) | None \<Rightarrow> contenido d e)) es es' \<and>
    mira_office out = Some i \<and> in_nota i = None \<and>
    in_huellas i = (if CUSTOM \<in> set (map en_nombre es) then [Huella_new Propiedades []] else [])"
proof -
  obtain es es' where es: "directorio d = Some es" "directorio out = Some es'" "es_office es" "starts_with PK_LOCAL out"
    and l: "list_all2 (\<lambda>e e'. en_nombre e' = en_nombre e \<and> contenido out e' = contenido_limpio d e) es es'"
    by (rule limpia_office_de [OF assms])
  from l have "map en_nombre es' = map en_nombre es" by (induction rule: list_all2_induct) auto
  then have "es_office es'" using es(3) es_office_nombres by metis
  then have "mira_office out = Some ((foldl dice_custom (Informe_nuevo ''office'') es)\<lparr>in_limpiable := True\<rparr>)"
    using es(2,4) mira_entradas_vacias [OF l, of "Informe_nuevo ''office''" True] by (simp add: mira_office_def)
  moreover have "in_nota (foldl dice_custom (Informe_nuevo ''office'') es) = None"
    "in_huellas (foldl dice_custom (Informe_nuevo ''office'') es) =
       (if CUSTOM \<in> set (map en_nombre es) then [Huella_new Propiedades []] else [])"
    unfolding dice_custom_all by (simp_all add: Informe_nuevo_def anade_def pon_nueva_def)
  ultimately show ?thesis using es(1,2) l unfolding contenido_limpio_def by fastforce
qed

definition local_ejemplo :: "string \<Rightarrow> string \<Rightarrow> bytes" where
  "local_ejemplo n x = PK_LOCAL @ replicate 10 0 @ replicate 4 0 @ le_bytes 4 (length x) @ le_bytes 4 (length x)
     @ le_bytes 2 (length n) @ le_bytes 2 0 @ str_bytes n @ str_bytes x"

definition central_ejemplo :: "string \<Rightarrow> string \<Rightarrow> nat \<Rightarrow> bytes" where
  "central_ejemplo n x p = PK_CENTRAL @ replicate 12 0 @ replicate 4 0 @ le_bytes 4 (length x) @ le_bytes 4 (length x)
     @ le_bytes 2 (length n) @ replicate 12 0 @ le_bytes 4 p @ str_bytes n"

definition documento_ejemplo :: bytes where
  "documento_ejemplo =
     (let a = local_ejemplo ''[Content_Types].xml'' ''t''; b = local_ejemplo CORE ''<dc:creator>Ana</dc:creator>'';
          c = central_ejemplo ''[Content_Types].xml'' ''t'' 0 @ central_ejemplo CORE ''<dc:creator>Ana</dc:creator>'' (length a)
      in a @ b @ c @ PK_FIN @ replicate 4 0 @ le_bytes 2 2 @ le_bytes 2 2 @ le_bytes 4 (length c)
         @ le_bytes 4 (length a + length b) @ le_bytes 2 0)"

lemma campos_ejemplo:
  assumes "length n < 2 ^ 16" "length x < 2 ^ 32 - 1" "p < 2 ^ 32 - 1" "list_all (\<lambda>c. char_code c < 128) n"
  shows "campos_de (central_ejemplo n x p)
    \<lparr>en_nombre = n, en_central = central_ejemplo n x p, en_metodo = 0, en_flags = 0, en_comprimido = length x,
     en_local = p\<rparr> (length n) 0 0 (str_bytes n)"
proof -
  have z: "from_le [0, 0] = 0" using from_le_bytes [of 0 2] by (simp add: le_bytes_2)
  have r: "replicate 12 (0 :: byte) = [0, 0, 0, 0, 0, 0, 0, 0, 0, 0, 0, 0]" "replicate 4 (0 :: byte) = [0, 0, 0, 0]"
    by (simp_all add: numeral_eq_Suc)
  show ?thesis
    using assms
    by (simp add: campos_de_def u16a_range u32a_def get_range_def central_ejemplo_def PK_CENTRAL_def r z
        from_le_bytes lossy_str_bytes)
qed

lemma local_ejemplo_de:
  assumes "length n < 2 ^ 16"
  shows "local_de (local_ejemplo n x) (length x) (str_bytes x)" "length (local_ejemplo n x) = 30 + length n + length x"
proof -
  have l: "length PK_LOCAL = 4" by (simp add: PK_LOCAL_def)
  show "length (local_ejemplo n x) = 30 + length n + length x" by (simp add: local_ejemplo_def l)
  have "u16a (local_ejemplo n x) 26 = Some (length n)" "u16a (local_ejemplo n x) 28 = Some 0"
    "get_range (local_ejemplo n x) (30 + length n + 0) (30 + length n + 0 + length x) = Some (str_bytes x)"
    "get_range (local_ejemplo n x) 0 4 = Some PK_LOCAL"
    using assms by (simp_all add: u16a_range get_range_def local_ejemplo_def l from_le_bytes)
  then show "local_de (local_ejemplo n x) (length x) (str_bytes x)" unfolding local_de_def by blast
qed

abbreviation N1 :: string where "N1 \<equiv> ''[Content_Types].xml''"
abbreviation X1 :: string where "X1 \<equiv> ''t''"
abbreviation X2 :: string where "X2 \<equiv> ''<dc:creator>Ana</dc:creator>''"

definition entradas_ejemplo :: "entrada_zip list" where
  "entradas_ejemplo =
     [\<lparr>en_nombre = N1, en_central = central_ejemplo N1 X1 0, en_metodo = 0, en_flags = 0, en_comprimido = 1, en_local = 0\<rparr>,
      \<lparr>en_nombre = CORE, en_central = central_ejemplo CORE X2 50, en_metodo = 0, en_flags = 0, en_comprimido = 28, en_local = 50\<rparr>]"

lemma core_ascii: "list_all (\<lambda>c. char_code c < 128) CORE" "length CORE = 17"
  by (simp_all add: CORE_def)

lemma directorio_ejemplo: "directorio documento_ejemplo = Some entradas_ejemplo"
proof -
  define a where "a = local_ejemplo N1 X1"
  define b where "b = local_ejemplo CORE X2"
  define c1 where "c1 = central_ejemplo N1 X1 0"
  define c2 where "c2 = central_ejemplo CORE X2 50"
  have l: "length a = 50" "length b = 75" "length c1 = 65" "length c2 = 63"
    by (simp_all add: a_def b_def c1_def c2_def local_ejemplo_def central_ejemplo_def PK_LOCAL_def PK_CENTRAL_def core_ascii)
  define fin where "fin = PK_FIN @ [0, 0, 0, 0] @ le_bytes 2 2 @ le_bytes 2 2 @ le_bytes 4 128 @ le_bytes 4 125 @ le_bytes 2 0"
  have d: "documento_ejemplo = (a @ b @ c1 @ c2) @ fin"
    unfolding documento_ejemplo_def Let_def a_def [symmetric] b_def [symmetric] c1_def [symmetric] l(1) c2_def [symmetric]
    by (simp add: l fin_def numeral_eq_Suc)
  have "directorio documento_ejemplo = entradas_bucle documento_ejemplo 2 125"
    by (rule directorio_fin [of _ "a @ b @ c1 @ c2" _ 128]) (simp_all add: d fin_def)
  moreover have "entrada_en documento_ejemplo 125 = Some (entradas_ejemplo ! 0, 190)"
    using entrada_en_campos [OF campos_ejemplo [of N1 X1 0], of "a @ b" "c2 @ fin"]
    by (simp add: d l entradas_ejemplo_def flip: c1_def)
  moreover have "entrada_en documento_ejemplo 190 = Some (entradas_ejemplo ! 1, 253)"
    using entrada_en_campos [OF campos_ejemplo [of CORE X2 50], of "a @ b @ c1" fin]
    by (simp add: d l entradas_ejemplo_def core_ascii flip: c2_def)
  ultimately show ?thesis by (simp add: numeral_2_eq_2) (simp add: entradas_ejemplo_def)
qed

lemma documento_partes:
  "\<exists>r. documento_ejemplo = local_ejemplo N1 X1 @ r" "\<exists>a r. documento_ejemplo = a @ local_ejemplo CORE X2 @ r \<and> length a = 50"
proof -
  have "length (local_ejemplo N1 X1) = 50" by (subst local_ejemplo_de) simp_all
  then show "\<exists>r. documento_ejemplo = local_ejemplo N1 X1 @ r"
    "\<exists>a r. documento_ejemplo = a @ local_ejemplo CORE X2 @ r \<and> length a = 50"
    unfolding documento_ejemplo_def Let_def by (blast, blast)
qed

lemma X2_length: "length X2 = 28"
  by simp

lemma office_ejemplo: "es_office entradas_ejemplo"
  by (simp add: es_office_def entradas_ejemplo_def)

lemma documento_limpio: "\<exists>out. limpia_office documento_ejemplo = Some out"
proof -
  let ?e1 = "entradas_ejemplo ! 0" and ?e2 = "entradas_ejemplo ! 1" and ?d = documento_ejemplo
  have es: "entradas_ejemplo = [?e1, ?e2]" by (simp add: entradas_ejemplo_def)
  define a where "a = local_ejemplo N1 X1"
  have la: "length a = 50" unfolding a_def by (subst local_ejemplo_de) simp_all
  obtain r where d: "?d = a @ r" using documento_partes(1) by (auto simp: a_def)
  have cl: "length (central_ejemplo N1 X1 0) = 65" by (simp add: central_ejemplo_def PK_CENTRAL_def)
  have "local_de a 1 (str_bytes X1)" using local_ejemplo_de(1) [of N1 X1] by (simp add: a_def)
  then obtain n x where h: "get_range a 0 4 = Some PK_LOCAL" "u16a a 26 = Some n" "u16a a 28 = Some x"
    "30 + n + x + 1 \<le> length a" by (auto simp: local_de_def)
  have "get_range ?d 0 4 = Some PK_LOCAL" "u16a ?d 26 = Some n" "u16a ?d 28 = Some x"
    using get_range_mid [of 4 a "[]" r 0] u16a_mid [of 26 a "[]" r] u16a_mid [of 28 a "[]" r] h la
    by (simp_all add: d del: get_range_Some)
  then have "inicio_datos ?d ?e1 = Some (30 + n + x)"
    by (simp add: inicio_datos_def entradas_ejemplo_def del: get_range_Some)
  moreover have "\<exists>t. get_range ?d 0 (30 + n + x + 1) = Some t \<and> length t = 30 + n + x + 1"
    using h(4) by (auto simp: d)
  then obtain t where "get_range ?d 0 (30 + n + x + 1) = Some t" "length t = 30 + n + x + 1" by blast
  ultimately have "parte_copiada ?d ?e1 = Some (pon_zona t 10 [0, 0, 0x21, 0])"
    by (simp add: parte_copiada_def entradas_ejemplo_def pon_rango_def del: get_range_Some)
  moreover have "vacio_de N1 = None" by (simp add: vacio_de_def CORE_def APP_def CUSTOM_def)
  ultimately have p1: "parte_limpia ?d ?e1 = Some (pon_zona t 10 [0, 0, 0x21, 0], central_ejemplo N1 X1 0)"
    by (simp add: parte_limpia_def entradas_ejemplo_def)
  have lt: "length (pon_zona t 10 [0, 0, 0x21, 0]) \<le> 50" using h(4) la \<open>length t = _\<close> by simp
  have v: "vacio_de CORE = Some CORE_VACIO" by (simp add: vacio_de_def)
  note lx = vacio_de_length [OF v]
  have "length CORE_VACIO < 2 ^ 20"
    by (simp add: CORE_VACIO_def XML_CABECERA_def COMILLA_def)
  then obtain u where u: "local_nuevo (str_bytes CORE) 0 (str_bytes CORE_VACIO) = Some u" "length u < 2 ^ 21"
    by (simp add: local_nuevo_def core_ascii PK_LOCAL_def)
  have cam: "campos_de (en_central ?e2) ?e2 17 0 0 (str_bytes CORE)"
    using campos_ejemplo [of CORE X2 50, unfolded X2_length] by (simp add: entradas_ejemplo_def core_ascii)
  obtain c where c: "parte_vaciada ?e2 (str_bytes CORE_VACIO) = Some (u, c)"
    "campos_de c (entrada_vaciada ?e2 (str_bytes CORE_VACIO) c) 17 0 0 (str_bytes CORE)"
    by (rule parte_vaciada_exacta [OF _ cam _ lx, of u]) (use u core_ascii in \<open>simp_all add: entradas_ejemplo_def\<close>)
  have p2: "parte_limpia ?d ?e2 = Some (u, c)" using c(1) by (simp add: parte_limpia_def entradas_ejemplo_def v)
  have lc: "length c = 63" using c(2) by (simp add: campos_de_def)
  have "\<exists>out central. office_bucle ?d 0 [?e1, ?e2] = Some (out, central) \<and> length out < 2 ^ 32 \<and> length central < 2 ^ 32"
    using p1 p2 lc cl lt u(2) by (simp add: pon_rango_def)
  then obtain out central where "office_bucle ?d 0 entradas_ejemplo = Some (out, central)" "length out < 2 ^ 32" "length central < 2 ^ 32"
    using es by metis
  then show ?thesis by (simp add: limpia_office_def directorio_ejemplo office_ejemplo) (simp add: entradas_ejemplo_def)
qed

lemma documento_dice: "map_option in_huellas (mira_office documento_ejemplo) = Some [Huella_new Autor ''Ana'']"
proof -
  let ?e2 = "entradas_ejemplo ! 1"
  have "starts_with PK_LOCAL documento_ejemplo"
    using documento_partes(1) by (auto simp: local_ejemplo_def starts_with_def)
  moreover have "contenido documento_ejemplo ?e2 = Some (str_bytes X2)"
  proof -
    obtain a r where d: "documento_ejemplo = a @ local_ejemplo CORE X2 @ r" "length a = 50" using documento_partes(2) by blast
    show ?thesis unfolding d(1)
      by (subst contenido_local [of _ _ "str_bytes X2"])
        (use local_ejemplo_de(1) [of CORE X2, unfolded X2_length] d(2) in \<open>simp_all add: entradas_ejemplo_def descomprime_def core_ascii\<close>)
  qed
  then have "mira_entrada documento_ejemplo (i, True) ?e2 =
      (foldl (mira_etiqueta X2) i ETIQUETAS_CORE, True)" for i
    by (simp add: mira_entrada_def entradas_ejemplo_def CORE_def lossy_str_bytes CUSTOM_def)
  moreover have "mira_entrada documento_ejemplo (i, True) (entradas_ejemplo ! 0) = (i, True)" for i
    by (simp add: mira_entrada_def entradas_ejemplo_def CORE_def APP_def CUSTOM_def)
  moreover have "in_huellas (foldl (mira_etiqueta X2) (Informe_nuevo ''office'') ETIQUETAS_CORE) = [Huella_new Autor ''Ana'']"
    by code_simp
  moreover have "entradas_ejemplo = [entradas_ejemplo ! 0, ?e2]" by (simp add: entradas_ejemplo_def)
  then have "foldl f s entradas_ejemplo = f (f s (entradas_ejemplo ! 0)) ?e2" for f :: "informe \<times> bool \<Rightarrow> _" and s
    by (metis foldl_Cons foldl_Nil)
  ultimately show ?thesis by (simp add: mira_office_def directorio_ejemplo office_ejemplo)
qed

theorem clean_document_keeps_its_parts_witness:
  "\<exists>out i. limpia_office documento_ejemplo = Some out \<and> mira_office out = Some i \<and> in_huellas i = [] \<and>
     map_option in_huellas (mira_office documento_ejemplo) = Some [Huella_new Autor ''Ana'']"
proof -
  obtain out where out: "limpia_office documento_ejemplo = Some out" using documento_limpio by blast
  have "CUSTOM \<notin> set (map en_nombre entradas_ejemplo)" by (simp add: entradas_ejemplo_def CORE_def CUSTOM_def)
  with clean_document_keeps_its_parts [OF out] out documento_dice show ?thesis by (auto simp: directorio_ejemplo)
qed

end
