(* ===== verification/Spec2Isabelle.thy ===== *)
theory Spec2Isabelle imports Ledger_Views Inflate_Use Signals_Facts Servers_Facts Devices Apagon Engine_Use
  Arbol Relleno Flujo Sframe_Facts Entrega_Facts Pausa Agenda Archivo Sala_Facts Licencia_Facts
  Ofimatica_Facts begin

text \<open>
  \<^bold>\<open>Guardiana: a verification development.\<close>

  \<^bold>\<open>The program.\<close> Guardiana is a DNS resolver for the home that shows what each device asks for.
  A request reaches \<open>crates/dns\<close>, which asks a policy and forwards or refuses it, and reports what
  was answered. The policy reads the category of the name from \<open>crates/lists\<close> (open lists, owners,
  brokers, the Public Suffix List), the person's rules from \<open>crates/core/src/rules.rs\<close> and the
  signals of \<open>crates/classify\<close> (beacons, volume, evasion, new destinations, odd hours). What
  happened is written to the ledger, \<open>crates/core/src/ledger.rs\<close>: a SQLite file whose rows are
  chained by SHA-256, pruned by \<open>retention.rs\<close> and read back by the panel. The readers of
  \<open>crates/core/src/huellas\<close> say what a photo, a PDF or an Office document tells of its author, and
  make a copy that does not; they rest on a DEFLATE decoder of the program's own. The engine,
  \<open>crates/cli/src/engine.rs\<close>, is the policy: it composes all of these for each query.

  Beside it, \<open>crates/secure\<close> and \<open>crates/zero\<close> let two people talk and hand over files: a call's
  frames are sealed one by one, a conversation is stopped when another program is seen listening,
  what was seen is kept as a chain anyone can check, people are remembered by keys they compared,
  and a file is delivered to one receiver who has the link and the code.

  \<^bold>\<open>Theories, in the order of their imports.\<close>
  \<^item> \<open>Prelude\<close>: machine types, the interfaces \<open>codec\<close>, \<open>canonical_codec\<close>, \<open>prefix_code\<close> and
    \<open>guarded_machine\<close>, error propagation (\<open>and_then\<close>, the \<open>?\<close> of Rust).
  \<^item> \<open>Rust_Text\<close>: \<open>str\<close> and \<open>i64::from_str\<close> as the program uses them; a text is its UTF-8 bytes.
  \<^item> \<open>Calendar\<close>: \<open>core/src/time.rs\<close>. \<open>civil_from_days\<close> is the Gregorian calendar.
  \<^item> \<open>Model\<close>: \<open>core/src/model.rs\<close> and \<open>error.rs\<close>, with a canonical codec per stored enumeration.
  \<^item> \<open>Rules\<close>: \<open>core/src/rules.rs\<close>. \<open>decide\<close> and the cloaked-name decision.
  \<^item> \<open>Hash_Chain\<close>: \<open>core/src/hash.rs\<close>, and the interface \<open>hash_chain\<close> of every chained table:
    from injective row texts it derives that one end and one length mean one history, or a
    collision.
  \<^item> \<open>Ledger\<close>, \<open>Retention\<close>, \<open>Vigilancia\<close>: the state record \<open>ledger\<close> (one field per SQLite table)
    and every operation of \<open>ledger.rs\<close>, \<open>retention.rs\<close>, \<open>gaps.rs\<close>, \<open>changes.rs\<close>, \<open>trafico.rs\<close>,
    \<open>alias.rs\<close>, \<open>stats.rs\<close> and \<open>vigilancia.rs\<close>.
  \<^item> \<open>Ledger_Chain\<close>, \<open>Ledger_Properties\<close>, \<open>Ledger_Use\<close>, \<open>Ledger_Views\<close>: the step relation
    \<open>ledger_step\<close> over all operations, its invariant \<open>healthy\<close>, and what the ledger promises.
  \<^item> \<open>Inflate\<close>, \<open>Inflate_Facts\<close>, \<open>Inflate_Stream\<close>, \<open>Inflate_Huffman\<close>, \<open>Inflate_Use\<close>:
    \<open>core/src/huellas/inflate.rs\<close>. Indexing out of bounds is the value \<open>Panico\<close>, and no input
    reaches it. The bit reader is refined to a list of booleans, the tables to the canonical codes
    of RFC 1951, a block to the bytes its symbols mean.
  \<^item> \<open>Huellas\<close>, \<open>Exif\<close>, \<open>Huellas_Foto\<close>, \<open>Huellas_Foto_Facts\<close>, \<open>Huellas_Facts\<close>: \<open>mod.rs\<close>,
    \<open>exif.rs\<close>, \<open>jpeg.rs\<close> and \<open>png.rs\<close> of \<open>core/src/huellas\<close>: what a photo says, and its clean copy.
  \<^item> \<open>Huellas_Papel\<close>, \<open>Papel_Facts\<close>: \<open>pdf.rs\<close> and \<open>heic.rs\<close>, cleaned in place.
  \<^item> \<open>Ofimatica\<close>, \<open>Ofimatica_Facts\<close>: \<open>ooxml.rs\<close> (the directory of a ZIP file and the copy with its
    properties emptied), and \<open>mirar\<close> and \<open>limpiar\<close> of \<open>mod.rs\<close> over every format.
  \<^item> \<open>Net\<close>, \<open>Dominio\<close>, \<open>Lists\<close>, \<open>Catalog\<close>: lines, words and addresses; \<open>lists/src/dominio.rs\<close>;
    \<open>parse.rs\<close>, the owners and brokers of \<open>lib.rs\<close>, \<open>subastas.rs\<close>; the catalog of \<open>lib.rs\<close>.
  \<^item> \<open>Signals\<close>, \<open>Signals_Facts\<close>: \<open>classify/src/signals.rs\<close> and \<open>lib.rs\<close>.
  \<^item> \<open>Dns\<close>: \<open>dns/src/handler.rs\<close> and the types of \<open>dns/src/lib.rs\<close>. A request yields the list of
    its effects (answer, policy calls, upstream query, report), in the code's order.
  \<^item> \<open>Apagon\<close>, \<open>Servers\<close>, \<open>Servers_Facts\<close>, \<open>Devices\<close>: \<open>core/src/apagon.rs\<close> (the switch);
    \<open>lists/src/red.rs\<close> and the attributions of \<open>lists\<close>; \<open>devices/src\<close>.
  \<^item> \<open>Engine\<close>, \<open>Engine_Facts\<close>, \<open>Engine_Use\<close>: \<open>cli/src/engine.rs\<close>. The record of the engine's
    state, the decision and the record of a query, its queue and its periodic work; one step
    relation over all of them and its invariant; the composition with the resolver and the ledger.
  \<^item> \<open>Secure\<close>, \<open>Arbol\<close>, \<open>Relleno\<close>, \<open>Flujo\<close>, \<open>Sframe\<close>, \<open>Sframe_Facts\<close>: \<open>secure/src/lib.rs\<close> (the
    cipher as a parameter), \<open>arbol.rs\<close>, \<open>relleno.rs\<close>, \<open>flujo.rs\<close>, \<open>sframe.rs\<close>.
  \<^item> \<open>Entrega\<close>, \<open>Entrega_Facts\<close>: the rules of a delivery, \<open>secure/src/entrega.rs\<close>.
  \<^item> \<open>Prueba\<close>, \<open>Pausa\<close>: the chain of evidence, \<open>secure/src/prueba.rs\<close>, the automatic stop,
    \<open>pausa.rs\<close>, and the screen, \<open>monitor.rs\<close>.
  \<^item> \<open>Agenda\<close>: the people pinned, their numbers and the short code: \<open>secure/src/agenda.rs\<close>,
    \<open>verificar.rs\<close>.
  \<^item> \<open>Archivo\<close>: files sealed in blocks and as a stream that can be resumed, \<open>secure/src/archivo.rs\<close>.
  \<^item> \<open>Sala\<close>, \<open>Sala_Facts\<close>: the room of deliveries, \<open>zero/src/entrega.rs\<close>: rooms, keys, sealed files and
    what is kept on disk are one state, the threads' words are events; a step relation over what
    the screen asks for and the ticks.
  \<^item> \<open>Licencia\<close>, \<open>Licencia_Facts\<close>: the plan in force, \<open>license/src/lib.rs\<close>, and its anchor, \<open>ancla.rs\<close>:
    the state is the ledger's settings, the anchor and what the process remembers of the clock; the
    gateway's answers are given.

  \<^bold>\<open>Conventions.\<close> A struct is a record, an enum a datatype with the source's constructors, a
  \<open>Result\<close> a sum with the error on the left. Timestamps (\<open>i64\<close> milliseconds) are integers and
  counters naturals; where the source saturates, so does the model; where bits matter, words are
  kept at their width. A transaction that fails leaves the state as it was.

  \<^bold>\<open>Parameters.\<close> What is not in the repository is an argument: SHA-256, the \<open>serde_json\<close> texts,
  SQLite's \<open>strftime\<close> and the outcome of file operations (record \<open>externals\<close>); the \<open>idna\<close> crate and
  the bundled list files (\<open>idna\<close>, record \<open>list_data\<close>); \<open>hickory\<close>'s wire format (names are their
  text) and what the upstream resolver answers; of the secure crates, the authenticated cipher
  (record \<open>aead\<close>), base64, signatures, key agreement and the system's random draws, which may fail;
  of the disk, the reads and writes of a stream, in pieces of any size, and which files it would not
  remove or write (\<open>en_resiste\<close>); Unicode lower case (\<open>lower\<close>). Hypotheses about them are few and documented
  behaviour: a digest has 32 bytes, JSON reads back what it wrote. No theorem assumes that
  SHA-256 has no collisions: where it matters, a collision is one of the two outcomes.

  \<^bold>\<open>Termination and bounds.\<close> No definition uses fuel but the alias chain, whose bound of eight
  names is the code's own. The loops of the decoder are recursive functions measured by the bits
  that are left; its output is bounded by \<open>MAXIMO\<close>, 4 MiB, as in the code.

  \<^bold>\<open>What the lemmas show.\<close> Of the ledger: what was written verifies and reads back; what verifies
  is what was written, or a collision is at hand; truncation and a lost head are reported, counted
  and never healed by later writes; pruning loses no count; a wipe leaves nothing; listings show
  only shared detail. Of the rules: which one decides, and that no rule breaks what must not be
  cut. Of the engine: a device's query is cut exactly when a rule, the declared scope or the switch
  says so; each request leaves its row, or its place in the queue that the observer of programs
  empties; the free level keeps nothing of others, and its state stays sound whatever comes in whatever order. Of the
  decoder: no panic, the bound, and the refinement to the format. Of the clean copies: a photo's
  says nothing, a document's keeps its parts, a PDF's changes only what it must. Of the lists: the most specific
  entry wins. Of the signals: what is called a beacon is one, and when one is found. Of the
  resolver: one answer and one report per question, nothing of the program's own leaves the home,
  a blocked name gives no address. Of the secure crates: one root stands for one file; pieces,
  blocks and frames open only in their place and join up when a transfer is resumed; a delivery
  opens for one receiver with the code, in time and after few wrong ones; a closed one keeps
  nothing that the disk let go; a stopped conversation waits for its own cause; the book of people is a map that only
  the person changes; a signed record is one history. Of the plan: what the gateway said, and nothing else, ends a
  licence; one bought once outlives failed checks; a lost data folder neither loses a licence nor
  buys time; a trial that is over stays over. Where the code does not do what its own
  documents say, a theorem shows the run: a frame heard twice, a changed key forgotten, the keys
  of an expired and of a half-filled delivery that stay, queued rows that are lost, an
  author kept by reference that a clean PDF still has, one refusal that ends a licence bought once.

  \<^bold>\<open>Not modelled.\<close> The panel, the windows and the texts of reports (\<open>panel\<close>, \<open>zero/navegador\<close>,
  \<open>report.rs\<close>, \<open>export.rs\<close>): they format what the modelled parts return. What reads the system
  (\<open>apps\<close>, \<open>service\<close>, the probes of \<open>dns\<close> and \<open>devices\<close>): its input is the operating system's.
  Sessions, envelopes and key agreement of \<open>secure\<close> (\<open>lib.rs\<close>, \<open>cuantico.rs\<close>, \<open>carry.rs\<close>): they are calls
  of crates that are not here. The thread of a delivery and the relay (\<open>rele\<close>): sockets and TLS;
  what they say reaches the model as events. The contracts of programs and the rest of
  \<open>zero\<close> are left out.
\<close>

end
